(* ===== verification/Prelude.thy ===== *)
theory Prelude
  imports Main "HOL-Library.Word"
begin

text \<open>
  Shared vocabulary of the development: the C integer types of the code, arrays of cells,
  and the arithmetic of balanced ternary.

  Conventions used by every theory.
  \<^item> A C array, or a pointer with a length, is the list of its cells. A function that fills an
    output buffer returns the list of the cells it writes, starting at the pointer it is given;
    \<open>blit\<close> (the model of memcpy into the middle of an array) puts such a list into a larger one.
  \<^item> \<open>trit_t\<close>, \<open>tryte_t\<close>, \<open>byte_t\<close> and \<open>flex_trit_t\<close> are \<open>int8_t\<close> in C and integers here; the places
    where a C expression is stored back into a narrow type go through \<open>wrap8\<close>, \<open>wrap64\<close> and their kin.
  \<^item> A read outside an array is undefined behaviour in C and an unspecified value (\<open>nth\<close>) here: the
    hypotheses of the theorems keep every index inside its array.
\<close>

section \<open>Machine integers\<close>

type_synonym trit = int
type_synonym tryte = int
type_synonym byte = int
type_synonym u8 = "8 word"
type_synonym u32 = "32 word"
type_synonym u64 = "64 word"

text \<open>Conversion of a mathematical integer to a signed (two's complement) or an unsigned C type.\<close>

definition wrap_s :: "nat \<Rightarrow> int \<Rightarrow> int" where
  "wrap_s w x = (x + 2 ^ (w - 1)) mod 2 ^ w - 2 ^ (w - 1)"

abbreviation wrap8 :: "int \<Rightarrow> int" where "wrap8 \<equiv> wrap_s 8"
abbreviation wrap32 :: "int \<Rightarrow> int" where "wrap32 \<equiv> wrap_s 32"
abbreviation wrap64 :: "int \<Rightarrow> int" where "wrap64 \<equiv> wrap_s 64"
abbreviation uwrap64 :: "int \<Rightarrow> int" where "uwrap64 x \<equiv> x mod 2 ^ 64"

abbreviation INT64_MIN :: int where "INT64_MIN \<equiv> - (2 ^ 63)"
abbreviation INT64_MAX :: int where "INT64_MAX \<equiv> 2 ^ 63 - 1"

named_theorems wrap_simps \<open>integer conversions that keep the value\<close>

lemma wrap_s_id: "- (2 ^ (w - 1)) \<le> x \<Longrightarrow> x < 2 ^ (w - 1) \<Longrightarrow> 0 < w \<Longrightarrow> wrap_s w x = x"
proof -
  assume a: "- (2 ^ (w - 1)) \<le> x" "x < 2 ^ (w - 1)" "0 < w"
  have "(2::int) ^ w = 2 * 2 ^ (w - 1)"
    using a(3) by (cases w) auto
  then show ?thesis
    using a(1,2) by (simp add: wrap_s_def)
qed

lemma wrap8_id [wrap_simps]: "- 128 \<le> x \<Longrightarrow> x \<le> 127 \<Longrightarrow> wrap8 x = x"
  by (rule wrap_s_id) auto

lemma wrap32_id [wrap_simps]: "- (2 ^ 31) \<le> x \<Longrightarrow> x < 2 ^ 31 \<Longrightarrow> wrap32 x = x"
  by (rule wrap_s_id) auto

lemma wrap64_id [wrap_simps]: "- (2 ^ 63) \<le> x \<Longrightarrow> x < 2 ^ 63 \<Longrightarrow> wrap64 x = x"
  by (rule wrap_s_id) auto

lemma wrap_s_mod: "wrap_s w x mod 2 ^ w = x mod 2 ^ w"
  by (simp add: wrap_s_def mod_diff_left_eq)

lemma wrap_s_cong: "x mod 2 ^ w = y mod 2 ^ w \<Longrightarrow> wrap_s w x = wrap_s w y"
  unfolding wrap_s_def by (metis mod_add_left_eq)

lemma wrap_s_add: "wrap_s w (wrap_s w x + y) = wrap_s w (x + y)"
  by (rule wrap_s_cong) (metis mod_add_left_eq wrap_s_mod)

lemma wrap_s_mult: "wrap_s w (wrap_s w x * y) = wrap_s w (x * y)"
  by (rule wrap_s_cong) (metis mod_mult_left_eq wrap_s_mod)

text \<open>C's division and remainder truncate towards zero.\<close>

definition c_div :: "int \<Rightarrow> int \<Rightarrow> int" where
  "c_div a b = sgn a * sgn b * (\<bar>a\<bar> div \<bar>b\<bar>)"

definition c_mod :: "int \<Rightarrow> int \<Rightarrow> int" where
  "c_mod a b = a - b * c_div a b"

lemma c_div_nonneg: "0 \<le> a \<Longrightarrow> 0 < b \<Longrightarrow> c_div a b = a div b"
  by (cases "a = 0") (auto simp: c_div_def)

lemma c_mod_nonneg: "0 \<le> a \<Longrightarrow> 0 < b \<Longrightarrow> c_mod a b = a mod b"
  by (simp add: c_mod_def c_div_nonneg minus_mult_div_eq_mod)

text \<open>An OR of disjoint bit fields is a sum.\<close>

unbundle bit_operations_syntax

lemma or_shift: "0 \<le> a \<Longrightarrow> a < 2 ^ r \<Longrightarrow> a OR (c * 2 ^ r) = a + c * 2 ^ r" for a c :: int
proof -
  assume "0 \<le> a" "a < 2 ^ r"
  then have "take_bit r a = a" by (simp add: take_bit_int_eq_self)
  then have "a AND push_bit r c = take_bit r a AND push_bit r c" by simp
  also have "\<dots> = 0" by (rule bit_eqI) (auto simp: bit_simps)
  finally show ?thesis by (simp add: disjunctive_add_eq_or push_bit_eq_mult)
qed

section \<open>Arrays\<close>

text \<open>\<open>blit xs off ys\<close>: the array \<open>xs\<close> after the cells from \<open>off\<close> on are overwritten with \<open>ys\<close>.\<close>

definition blit :: "'a list \<Rightarrow> nat \<Rightarrow> 'a list \<Rightarrow> 'a list" where
  "blit xs off ys = take off xs @ ys @ drop (off + length ys) xs"

definition slice :: "nat \<Rightarrow> nat \<Rightarrow> 'a list \<Rightarrow> 'a list" where
  "slice off n xs = take n (drop off xs)"

lemma length_blit [simp]: "off + length ys \<le> length xs \<Longrightarrow> length (blit xs off ys) = length xs"
  by (simp add: blit_def)

lemma length_slice [simp]: "off + n \<le> length xs \<Longrightarrow> length (slice off n xs) = n"
  by (simp add: slice_def)

lemma slice_0 [simp]: "slice 0 n xs = take n xs"
  by (simp add: slice_def)

lemma set_slice_subset: "set (slice off n xs) \<subseteq> set xs"
  by (auto simp: slice_def dest!: in_set_takeD in_set_dropD)

lemma nth_slice: "i < n \<Longrightarrow> off + n \<le> length xs \<Longrightarrow> slice off n xs ! i = xs ! (off + i)"
  by (simp add: slice_def)

lemma slice_slice: "slice a n (slice b m xs) = slice (b + a) (min n (m - a)) xs"
  by (simp add: slice_def drop_take min.commute add.commute)

lemma slice_blit_same [simp]: "off \<le> length xs \<Longrightarrow> slice off (length ys) (blit xs off ys) = ys"
  by (simp add: slice_def blit_def)

lemma blit_0_all: "length ys = length xs \<Longrightarrow> blit xs 0 ys = ys"
  by (simp add: blit_def)

lemma blit_0_update: "k < length ys \<Longrightarrow> (blit xs 0 ys)[k := c] = blit xs 0 (ys[k := c])"
  by (simp add: blit_def list_update_append)

lemma slice_blit_before: "off + n \<le> k \<Longrightarrow> k \<le> length xs \<Longrightarrow> slice off n (blit xs k ys) = slice off n xs"
  by (auto simp: slice_def blit_def drop_take min_def)

lemma slice_blit_after:
  "k + length ys \<le> off \<Longrightarrow> k \<le> length xs \<Longrightarrow> slice off n (blit xs k ys) = slice off n xs"
  by (simp add: slice_def blit_def)

lemma list_all_blit:
  "list_all P xs \<Longrightarrow> list_all P ys \<Longrightarrow> list_all P (blit xs off ys)"
  by (auto simp: blit_def list_all_iff dest: in_set_takeD in_set_dropD)

lemma length_3_conv: "length xs = 3 \<longleftrightarrow> (\<exists>a b c. xs = [a, b, c])"
  by (auto simp: numeral_3_eq_3 length_Suc_conv)

text \<open>A finite table checked by evaluation gives a bounded quantifier.\<close>

lemma list_all_uptoD: "list_all P [a..b] \<Longrightarrow> a \<le> k \<Longrightarrow> k \<le> b \<Longrightarrow> P k"
  by (simp only: list_all_iff set_upto atLeastAtMost_iff)

lemma list_all_uptD: "list_all P [a..<b] \<Longrightarrow> a \<le> k \<Longrightarrow> k < b \<Longrightarrow> P k"
  by (simp only: list_all_iff set_upt atLeastLessThan_iff)

section \<open>Balanced ternary\<close>

text \<open>
  The value of a little-endian sequence of trits, and the trits of a value: the reference
  definitions that the conversions of \<open>common/trinary\<close> are compared with.
\<close>

definition is_trit :: "trit \<Rightarrow> bool" where
  "is_trit t \<longleftrightarrow> - 1 \<le> t \<and> t \<le> 1"

abbreviation valid_trits :: "trit list \<Rightarrow> bool" where
  "valid_trits \<equiv> list_all is_trit"

fun bt_value :: "trit list \<Rightarrow> int" where
  "bt_value [] = 0"
| "bt_value (t # ts) = t + 3 * bt_value ts"

fun bt_digits :: "nat \<Rightarrow> int \<Rightarrow> trit list" where
  "bt_digits 0 v = []"
| "bt_digits (Suc n) v = ((v + 1) mod 3 - 1) # bt_digits n ((v + 1) div 3)"

lemma is_trit_cases: "is_trit t \<longleftrightarrow> t = - 1 \<or> t = 0 \<or> t = 1"
  by (auto simp: is_trit_def)

lemma is_trit_simps [simp]: "is_trit 0" "is_trit 1" "is_trit (- 1)" "is_trit (- t) = is_trit t"
  by (auto simp: is_trit_def)

lemma bt_value_append: "bt_value (xs @ ys) = bt_value xs + 3 ^ length xs * bt_value ys"
  by (induction xs) (auto simp: algebra_simps)

lemma bt_value_zeros [simp]: "bt_value (replicate n 0) = 0"
  by (induction n) auto

lemma bt_value_map_uminus: "bt_value (map uminus ts) = - bt_value ts"
  by (induction ts) auto

lemma valid_trits_append [simp]: "valid_trits (xs @ ys) \<longleftrightarrow> valid_trits xs \<and> valid_trits ys"
  by (simp add: list_all_iff) auto

lemma valid_trits_zeros [simp]: "valid_trits (replicate n 0)"
  by (auto simp: list_all_iff)

lemma valid_trits_take: "valid_trits xs \<Longrightarrow> valid_trits (take n xs)"
  by (auto simp: list_all_iff dest: in_set_takeD)

lemma valid_trits_drop: "valid_trits xs \<Longrightarrow> valid_trits (drop n xs)"
  by (auto simp: list_all_iff dest: in_set_dropD)

lemma valid_trits_slice: "valid_trits xs \<Longrightarrow> valid_trits (slice off n xs)"
  by (simp add: slice_def valid_trits_take valid_trits_drop)

lemma valid_trits_nth: "valid_trits xs \<Longrightarrow> i < length xs \<Longrightarrow> is_trit (xs ! i)"
  by (simp add: list_all_length)

lemma bt_value_bound: "valid_trits ts \<Longrightarrow> 2 * \<bar>bt_value ts\<bar> < 3 ^ length ts"
proof (induction ts)
  case Nil
  then show ?case by simp
next
  case (Cons t ts)
  then have t: "- 1 \<le> t" "t \<le> 1" and ih: "2 * \<bar>bt_value ts\<bar> + 1 \<le> 3 ^ length ts"
    by (auto simp: is_trit_def)
  have "\<bar>t + 3 * bt_value ts\<bar> \<le> 1 + 3 * \<bar>bt_value ts\<bar>"
    using t by arith
  with ih show ?case by simp
qed

lemma bt_digits_length [simp]: "length (bt_digits n v) = n"
  by (induction n arbitrary: v) auto

lemma bt_digits_valid [simp]: "valid_trits (bt_digits n v)"
proof (induction n arbitrary: v)
  case (Suc n)
  have "0 \<le> (v + 1) mod 3" "(v + 1) mod 3 < 3" by simp_all
  then have "is_trit ((v + 1) mod 3 - 1)" by (simp only: is_trit_def) arith
  with Suc show ?case by simp
qed simp

lemma trit_div_mod: "(v + 1) mod 3 - 1 + 3 * ((v + 1) div 3) = (v::int)"
  by presburger

lemma bt_value_digits: "2 * \<bar>v\<bar> < 3 ^ n \<Longrightarrow> bt_value (bt_digits n v) = v"
proof (induction n arbitrary: v)
  case 0
  then show ?case by simp
next
  case (Suc n)
  have "2 * \<bar>(v + 1) div 3\<bar> < 3 ^ n"
  proof -
    have "odd ((3::int) ^ n)" by simp
    then obtain m where m: "(3::int) ^ n = 2 * m + 1" by (rule oddE)
    have "2 * \<bar>v\<bar> < 3 * (2 * m + 1)" using Suc.prems m by simp
    then have "\<bar>v\<bar> \<le> 3 * m + 1" by arith
    then have "\<bar>(v + 1) div 3\<bar> \<le> m" by arith
    with m show ?thesis by simp
  qed
  from Suc.IH [OF this] show ?case by (simp add: trit_div_mod)
qed

lemma bt_digits_value: "valid_trits ts \<Longrightarrow> bt_digits (length ts) (bt_value ts) = ts"
proof (induction ts)
  case Nil
  then show ?case by simp
next
  case (Cons t ts)
  then have "(t + 3 * bt_value ts + 1) mod 3 = t + 1" "(t + 3 * bt_value ts + 1) div 3 = bt_value ts"
    by (auto simp: is_trit_def) presburger+
  with Cons show ?case by simp
qed

lemma bt_value_inj:
  "valid_trits xs \<Longrightarrow> valid_trits ys \<Longrightarrow> length xs = length ys \<Longrightarrow> bt_value xs = bt_value ys \<Longrightarrow> xs = ys"
  using bt_digits_value [of xs] bt_digits_value [of ys] by metis

lemma bt_digits_zero [simp]: "bt_digits n 0 = replicate n 0"
  by (induction n) auto

lemma bt_digits_uminus: "bt_digits n (- v) = map uminus (bt_digits n v)"
proof (induction n arbitrary: v)
  case (Suc n)
  have "(- v + 1) mod 3 - 1 = - ((v + 1) mod 3 - 1)" "(- v + 1) div 3 = - ((v + 1) div 3)"
    by presburger+
  with Suc show ?case by simp
qed simp

lemma bt_digits_take: "m \<le> n \<Longrightarrow> take m (bt_digits n v) = bt_digits m v"
proof (induction m arbitrary: n v)
  case (Suc m)
  then show ?case by (cases n) auto
qed simp

text \<open>More digits than the trits of a number are zeros.\<close>

lemma bt_digits_pad:
  assumes "valid_trits ts" and "length ts \<le> n"
  shows "bt_digits n (bt_value ts) = ts @ replicate (n - length ts) 0"
proof -
  have "bt_value (ts @ replicate (n - length ts) 0) = bt_value ts"
    by (simp add: bt_value_append)
  moreover have "bt_digits (length (ts @ replicate (n - length ts) 0)) (bt_value (ts @ replicate (n - length ts) 0))
      = ts @ replicate (n - length ts) 0"
    by (rule bt_digits_value) (use assms in simp)
  ultimately show ?thesis using assms by simp
qed

end
