(* ===== verification/Cell_Codec.thy ===== *)
theory Cell_Codec
  imports Prelude
begin

text \<open>
  The interface of a packed trit array: cells of \<open>w\<close> trits, a function that unpacks a cell and one that
  packs at most \<open>w\<close> trits. The laws are the promises of a packing; the lemmas proved from them (round
  trips, reading and writing one trit, copying an arbitrary range) serve every packing of
  \<open>common/trinary\<close>. The interpretations are in \<open>Flex_Trit\<close>.
\<close>

definition unpack_cells :: "(int \<Rightarrow> trit list) \<Rightarrow> int list \<Rightarrow> trit list" where
  "unpack_cells unpack1 cells = concat (map unpack1 cells)"

function pack_cells :: "nat \<Rightarrow> (trit list \<Rightarrow> int) \<Rightarrow> trit list \<Rightarrow> int list" where
  "pack_cells w pack1 ts = (if ts = [] \<or> w = 0 then [] else pack1 (take w ts) # pack_cells w pack1 (drop w ts))"
  by pat_completeness auto
termination
  by (relation "measure (\<lambda>(w, p, ts). length ts)") auto

declare pack_cells.simps [simp del]

definition num_cells :: "nat \<Rightarrow> nat \<Rightarrow> nat" where
  "num_cells w n = (n + w - 1) div w"

lemma pack_cells_Nil [simp]: "pack_cells w p [] = []"
  by (simp add: pack_cells.simps)

lemma pack_cells_short: "0 < w \<Longrightarrow> ts \<noteq> [] \<Longrightarrow> length ts \<le> w \<Longrightarrow> pack_cells w p ts = [p ts]"
  by (simp add: pack_cells.simps [of w p ts])

lemma pack_cells_append: "0 < w \<Longrightarrow> length g = w \<Longrightarrow> pack_cells w p (g @ ts) = p g # pack_cells w p ts"
  by (simp add: pack_cells.simps [of w p "g @ ts"]) auto

lemma num_cells_0 [simp]: "0 < w \<Longrightarrow> num_cells w 0 = 0"
  by (simp add: num_cells_def)

lemma div_plus_self: "0 < w \<Longrightarrow> (w + m) div w = Suc (m div w)" "0 < w \<Longrightarrow> (m + w) div w = Suc (m div w)"
  for w m :: nat
  by (simp_all add: div_add_self1 div_add_self2)

lemma num_cells_add: "0 < w \<Longrightarrow> num_cells w (n + w) = Suc (num_cells w n)"
proof -
  assume w: "0 < w"
  then have "n + w + w - 1 = (n + w - 1) + w" by simp
  then have "num_cells w (n + w) = ((n + w - 1) + w) div w" unfolding num_cells_def by (rule arg_cong)
  also have "\<dots> = Suc ((n + w - 1) div w)" using w by (rule div_plus_self)
  finally show ?thesis unfolding num_cells_def .
qed

lemma num_cells_small: "0 < n \<Longrightarrow> n \<le> w \<Longrightarrow> num_cells w n = 1"
  unfolding num_cells_def by (rule div_nat_eqI) auto

lemma num_cells_mult: "0 < w \<Longrightarrow> num_cells w (w * n) = n"
proof (induction n)
  case (Suc n)
  then show ?case using num_cells_add [of w "w * n"] by (simp add: add.commute)
qed simp

lemma num_cells_ge: "0 < w \<Longrightarrow> n \<le> w * num_cells w n"
proof -
  assume w: "0 < w"
  have "w * ((n + w - 1) div w) + (n + w - 1) mod w = n + w - 1" by simp
  moreover have "(n + w - 1) mod w \<le> w - 1" using w mod_less_divisor [OF w, of "n + w - 1"] by linarith
  ultimately show ?thesis unfolding num_cells_def using w by linarith
qed

lemma num_cells_mono: "m \<le> n \<Longrightarrow> num_cells w m \<le> num_cells w n"
  by (simp add: num_cells_def div_le_mono)

text \<open>Induction over the full chunks of a list.\<close>

lemma chunk_induct:
  assumes "0 < w" and "\<And>ts. length ts < w \<Longrightarrow> P ts" and "\<And>g ts. length g = w \<Longrightarrow> P ts \<Longrightarrow> P (g @ ts)"
  shows "P ts"
proof (induction "length ts" arbitrary: ts rule: less_induct)
  case less
  show ?case
  proof (cases "length ts < w")
    case False
    then have "P (drop w ts)" using assms(1) by (intro less) auto
    then have "P (take w ts @ drop w ts)" using False by (intro assms(3)) auto
    then show ?thesis by simp
  qed (rule assms(2))
qed

lemma pack_cells_length: "0 < w \<Longrightarrow> length (pack_cells w p ts) = num_cells w (length ts)"
proof -
  assume w: "0 < w"
  show ?thesis
  proof (induction ts rule: chunk_induct [OF w, case_names short full])
    case (short ts)
    then show ?case by (cases "ts = []") (auto simp: pack_cells_short num_cells_small)
  next
    case (full g ts)
    with w num_cells_add [OF w, of "length ts"] show ?case by (simp add: pack_cells_append add.commute)
  qed
qed

locale cell_codec =
  fixes w :: nat
    and unpack1 :: "int \<Rightarrow> trit list"
    and pack1 :: "trit list \<Rightarrow> int"
    and ok :: "int \<Rightarrow> bool"
  assumes w_pos: "0 < w"
    and unpack1_length: "ok c \<Longrightarrow> length (unpack1 c) = w"
    and unpack1_valid: "ok c \<Longrightarrow> valid_trits (unpack1 c)"
    and pack1_ok: "valid_trits ts \<Longrightarrow> length ts \<le> w \<Longrightarrow> ok (pack1 ts)"
    and unpack1_pack1: "valid_trits ts \<Longrightarrow> length ts \<le> w \<Longrightarrow> unpack1 (pack1 ts) = ts @ replicate (w - length ts) 0"
    and pack1_unpack1: "ok c \<Longrightarrow> pack1 (unpack1 c) = c"
begin

abbreviation unpack :: "int list \<Rightarrow> trit list" where
  "unpack \<equiv> unpack_cells unpack1"

abbreviation pack :: "trit list \<Rightarrow> int list" where
  "pack \<equiv> pack_cells w pack1"

lemma unpack_simps [simp]: "unpack [] = []" "unpack (c # cs) = unpack1 c @ unpack cs"
    "unpack (cs @ ds) = unpack cs @ unpack ds"
  by (simp_all add: unpack_cells_def)

lemma unpack_length: "list_all ok cs \<Longrightarrow> length (unpack cs) = w * length cs"
  by (induction cs) (auto simp: unpack1_length)

lemma unpack_valid: "list_all ok cs \<Longrightarrow> valid_trits (unpack cs)"
  by (induction cs) (auto simp: unpack1_valid)

lemma unpack_take: "list_all ok cs \<Longrightarrow> unpack (take n cs) = take (w * n) (unpack cs)"
proof (induction cs arbitrary: n)
  case (Cons c cs)
  then show ?case by (cases n) (auto simp: unpack1_length)
qed simp

lemma unpack_drop: "list_all ok cs \<Longrightarrow> unpack (drop n cs) = drop (w * n) (unpack cs)"
proof (induction cs arbitrary: n)
  case (Cons c cs)
  then show ?case by (cases n) (auto simp: unpack1_length)
qed simp

lemma list_all_ok_slice: "list_all ok cs \<Longrightarrow> list_all ok (slice a n cs)"
  using set_slice_subset [of a n cs] by (auto simp: list_all_iff)

lemma unpack_slice: "list_all ok cs \<Longrightarrow> unpack (slice a n cs) = slice (w * a) (w * n) (unpack cs)"
proof -
  assume ok: "list_all ok cs"
  then have "list_all ok (drop a cs)" by (auto simp: list_all_iff dest: in_set_dropD)
  with ok show ?thesis by (simp add: slice_def unpack_take unpack_drop)
qed

lemma unpack_nth: "list_all ok cs \<Longrightarrow> k < length cs \<Longrightarrow> unpack1 (cs ! k) = slice (w * k) w (unpack cs)"
  using unpack_slice [of cs k 1] by (simp add: slice_def take_Suc_conv_app_nth take_Suc hd_drop_conv_nth)

lemma unpack_nth_nth: "list_all ok cs \<Longrightarrow> i < w * length cs \<Longrightarrow> unpack cs ! i = unpack1 (cs ! (i div w)) ! (i mod w)"
proof -
  assume ok: "list_all ok cs" and i: "i < w * length cs"
  have k: "i div w < length cs" using i w_pos by (simp add: less_mult_imp_div_less mult.commute)
  have "w * (i div w) + w \<le> w * length cs" using k by (metis Suc_leI mult_Suc_right mult_le_mono2 add.commute)
  then show ?thesis
    using unpack_nth [OF ok k] unpack_length [OF ok] w_pos by (simp add: nth_slice)
qed

lemma unpack_update:
  "list_all ok cs \<Longrightarrow> k < length cs \<Longrightarrow> ok c \<Longrightarrow> unpack (cs[k := c]) = blit (unpack cs) (w * k) (unpack1 c)"
proof -
  assume ok: "list_all ok cs" and k: "k < length cs" and c: "ok c"
  have "w * k + w = w * Suc k" by simp
  then show ?thesis
    by (simp only: upd_conv_take_nth_drop [OF k] unpack_simps unpack_take [OF ok] unpack_drop [OF ok] blit_def
        unpack1_length [OF c])
qed

lemma pack_ok: "valid_trits ts \<Longrightarrow> list_all ok (pack ts)"
proof (induction ts rule: chunk_induct [OF w_pos, case_names short full])
  case (short ts)
  then show ?case by (cases "ts = []") (auto simp: pack_cells_short w_pos intro: pack1_ok)
next
  case (full g ts)
  then show ?case by (auto simp: pack_cells_append w_pos intro: pack1_ok)
qed

lemma unpack_pack:
  "valid_trits ts \<Longrightarrow> unpack (pack ts) = ts @ replicate (w * num_cells w (length ts) - length ts) 0"
proof (induction ts rule: chunk_induct [OF w_pos, case_names short full])
  case (short ts)
  then show ?case by (cases "ts = []") (auto simp: pack_cells_short w_pos num_cells_small unpack1_pack1)
next
  case (full g ts)
  then show ?case
    by (simp add: pack_cells_append w_pos unpack1_pack1 add.commute [of w] num_cells_add)
qed

lemma pack_unpack: "list_all ok cs \<Longrightarrow> pack (unpack cs) = cs"
  by (induction cs) (auto simp: pack_cells_append w_pos unpack1_length pack1_unpack1)

text \<open>Packing the first trits of an array copies whole cells and repacks the last one.\<close>

lemma pack_take:
  assumes "list_all ok cs" and "n \<le> w * length cs"
  shows "pack (take n (unpack cs)) =
    take (n div w) cs @ (if n mod w = 0 then [] else [pack1 (take (n mod w) (unpack1 (cs ! (n div w))))])"
  using assms
proof (induction cs arbitrary: n)
  case (Cons c cs)
  have c: "length (unpack1 c) = w" using Cons.prems(1) by (simp add: unpack1_length)
  show ?case
  proof (cases "n < w")
    case True
    then have "pack (take n (unpack1 c)) = [pack1 (take n (unpack1 c))]" if "0 < n"
      using that c by (intro pack_cells_short) auto
    with True c show ?thesis by (cases "n = 0") simp_all
  next
    case False
    then obtain m where m: "n = w + m" using le_Suc_ex not_less by blast
    have "n div w = Suc (m div w)" "n mod w = m mod w" using w_pos by (simp_all add: m div_plus_self)
    moreover have "pack (take m (unpack cs)) = take (m div w) cs
        @ (if m mod w = 0 then [] else [pack1 (take (m mod w) (unpack1 (cs ! (m div w))))])"
      using Cons m by (intro Cons.IH) auto
    moreover have "pack (unpack1 c @ take m (unpack cs)) = c # pack (take m (unpack cs))"
      using Cons.prems(1) c by (simp add: pack_cells_append w_pos pack1_unpack1)
    ultimately show ?thesis using c by (simp add: m)
  qed
qed simp

lemma pack_nth: "m < num_cells w (length ts) \<Longrightarrow> pack ts ! m = pack1 (slice (w * m) w ts)"
proof (induction ts arbitrary: m rule: chunk_induct [OF w_pos, case_names short full])
  case (short ts)
  then have "ts \<noteq> []" using w_pos by (cases ts) auto
  moreover from this short have "m = 0" by (auto simp: num_cells_small)
  ultimately show ?case using short(1) by (simp add: pack_cells_short w_pos)
next
  case (full g ts)
  have "num_cells w (length (g @ ts)) = Suc (num_cells w (length ts))"
    using full(1) num_cells_add [OF w_pos, of "length ts"] by (simp add: add.commute)
  with full show ?case
    by (cases m) (auto simp: pack_cells_append w_pos slice_def)
qed

end

end
