(* ===== verification/Trit_Tryte.thy ===== *)
theory Trit_Tryte
  imports Prelude
begin

text \<open>
  \<open>common/trinary/trit_tryte.c\<close>, \<open>tryte.h\<close>, \<open>tryte_ascii.c\<close>: trytes (27-ary digits written as the
  characters 9, A, ..., Z) against trits, and the two-trytes-per-character text encoding.
  The main results are the two round trips, that \<open>get_trit_at\<close> and \<open>set_trit_at\<close> read and write
  exactly one trit of the unpacked array, and that text survives the tryte encoding.
\<close>

section \<open>Definitions\<close>

text \<open>Conversion of an \<open>int\<close> to \<open>size_t\<close>: a negative value becomes a huge index.\<close>

definition to_size :: "int \<Rightarrow> nat" where
  "to_size x = nat (x mod 2 ^ 64)"

definition TRYTE_ALPHABET :: "tryte list" where
  "TRYTE_ALPHABET =
     [57, 65, 66, 67, 68, 69, 70, 71, 72, 73, 74, 75, 76, 77, 78, 79, 80, 81, 82, 83, 84, 85, 86, 87, 88, 89, 90]"

definition INDEX_OF_TRYTE :: "tryte \<Rightarrow> int" where
  "INDEX_OF_TRYTE tryte = (if tryte = 57 then 0 else tryte - 65 + 1)"

definition TRYTES_TRITS_LUT :: "trit list list" where
  "TRYTES_TRITS_LUT =
    [[0, 0, 0],  [1, 0, 0],  [-1, 1, 0],  [0, 1, 0],  [1, 1, 0],  [-1, -1, 1],  [0, -1, 1],  [1, -1, 1],  [-1, 0, 1],
     [0, 0, 1],  [1, 0, 1],  [-1, 1, 1],  [0, 1, 1],  [1, 1, 1],  [-1, -1, -1], [0, -1, -1], [1, -1, -1], [-1, 0, -1],
     [0, 0, -1], [1, 0, -1], [-1, 1, -1], [0, 1, -1], [1, 1, -1], [-1, -1, 0],  [0, -1, 0],  [1, -1, 0],  [-1, 0, 0]]"

definition num_trytes_for_trits :: "nat \<Rightarrow> nat" where
  "num_trytes_for_trits num_trits = (num_trits + 3 - 1) div 3"

definition get_trit_at :: "tryte list \<Rightarrow> nat \<Rightarrow> nat \<Rightarrow> trit" where
  "get_trit_at trytes len index =
     (let tindex = index div 3
      in if len \<le> tindex then 0
         else let tryte = trytes ! tindex;
                  cindex = to_size (INDEX_OF_TRYTE tryte);
                  tindex = index mod 3
              in TRYTES_TRITS_LUT ! cindex ! tindex)"

text \<open>The returned pair is the C return value and the updated array.\<close>

definition set_trit_at :: "tryte list \<Rightarrow> nat \<Rightarrow> nat \<Rightarrow> trit \<Rightarrow> nat \<times> tryte list" where
  "set_trit_at trytes len index trit =
     (let tindex = index div 3
      in if len \<le> tindex then (0, trytes)
         else let tryte = trytes ! tindex;
                  cindex = to_size (INDEX_OF_TRYTE tryte);
                  trits = (if cindex > 26 then TRYTES_TRITS_LUT ! 0 else TRYTES_TRITS_LUT ! cindex);
                  uindex = index mod 3;
                  trits = trits[uindex := trit];
                  tryte = wrap8 (trits ! 0 + trits ! 1 * 3 + trits ! 2 * 9);
                  tryte = (if tryte < 0 then wrap8 (tryte + 27) else tryte)
              in (1, trytes[tindex := TRYTE_ALPHABET ! to_size tryte]))"

text \<open>
  One tryte of \<open>trits_to_trytes\<close>: the inner loop runs \<open>l\<close> from the last available trit of the group
  down to the first; the outer loop advances by three trits.
\<close>

definition trits_to_tryte :: "trit list \<Rightarrow> tryte" where
  "trits_to_tryte ts =
     (let k = foldr (\<lambda>trit k. k * 3 + trit) ts 0;
          k = (if k < 0 then k + 27 else k)
      in TRYTE_ALPHABET ! nat k)"

fun trits_to_trytes :: "trit list \<Rightarrow> tryte list" where
  "trits_to_trytes [] = []"
| "trits_to_trytes (t # ts) = trits_to_tryte (take 3 (t # ts)) # trits_to_trytes (drop 3 (t # ts))"

fun trytes_to_trits :: "tryte list \<Rightarrow> trit list" where
  "trytes_to_trits [] = []"
| "trytes_to_trits (y # ys) = TRYTES_TRITS_LUT ! to_size (INDEX_OF_TRYTE y) @ trytes_to_trits ys"

text \<open>
  \<open>ascii_to_trytes\<close> stops at the NUL character; C's \<open>char\<close> is signed on the supported platforms, so
  \<open>%\<close> and \<open>/\<close> are C's truncating operations.
\<close>

fun ascii_to_trytes :: "int list \<Rightarrow> tryte list" where
  "ascii_to_trytes [] = []"
| "ascii_to_trytes (dec # input) =
     (if dec = 0 then []
      else let first = c_mod dec 27;
               second = c_div (dec - first) 27
           in TRYTE_ALPHABET ! to_size first # TRYTE_ALPHABET ! to_size second # ascii_to_trytes input)"

fun trytes_to_ascii :: "tryte list \<Rightarrow> int list" where
  "trytes_to_ascii (a # b # input) =
     wrap8 (INDEX_OF_TRYTE a + INDEX_OF_TRYTE b * 27) # trytes_to_ascii input"
| "trytes_to_ascii _ = []"

section \<open>The alphabet and the table\<close>

abbreviation valid_tryte :: "tryte \<Rightarrow> bool" where
  "valid_tryte c \<equiv> c \<in> set TRYTE_ALPHABET"

abbreviation valid_trytes :: "tryte list \<Rightarrow> bool" where
  "valid_trytes \<equiv> list_all (\<lambda>c. c \<in> set TRYTE_ALPHABET)"

text \<open>The number a tryte stands for, and the tryte of a number.\<close>

definition tryte_value :: "tryte \<Rightarrow> int" where
  "tryte_value c = (let i = INDEX_OF_TRYTE c in if i > 13 then i - 27 else i)"

definition tryte_of :: "int \<Rightarrow> tryte" where
  "tryte_of k = TRYTE_ALPHABET ! nat (if k < 0 then k + 27 else k)"

lemma tryte_of_table:
  "list_all (\<lambda>k. valid_tryte (tryte_of k) \<and> tryte_value (tryte_of k) = k) [-13..13]"
  by code_simp

lemma lut_table:
  "list_all (\<lambda>c. TRYTES_TRITS_LUT ! to_size (INDEX_OF_TRYTE c) = bt_digits 3 (tryte_value c)
     \<and> \<bar>tryte_value c\<bar> \<le> 13 \<and> tryte_of (tryte_value c) = c \<and> to_size (INDEX_OF_TRYTE c) \<le> 26) TRYTE_ALPHABET"
  by code_simp

lemma tryte_of_valid: "\<bar>k\<bar> \<le> 13 \<Longrightarrow> valid_tryte (tryte_of k)"
  and tryte_value_of: "\<bar>k\<bar> \<le> 13 \<Longrightarrow> tryte_value (tryte_of k) = k"
  using list_all_uptoD [OF tryte_of_table, of k] by (simp_all add: abs_le_iff)

lemma lut_digits: "valid_tryte c \<Longrightarrow> TRYTES_TRITS_LUT ! to_size (INDEX_OF_TRYTE c) = bt_digits 3 (tryte_value c)"
  and tryte_value_bound: "valid_tryte c \<Longrightarrow> \<bar>tryte_value c\<bar> \<le> 13"
  and tryte_of_value: "valid_tryte c \<Longrightarrow> tryte_of (tryte_value c) = c"
  and tryte_index_bound: "valid_tryte c \<Longrightarrow> to_size (INDEX_OF_TRYTE c) \<le> 26"
  using lut_table by (auto simp: list_all_iff)

section \<open>Packing and unpacking\<close>

lemma foldr_bt_value: "foldr (\<lambda>trit k. k * 3 + trit) ts 0 = bt_value ts"
  by (induction ts) auto

lemma trits_to_tryte_value: "trits_to_tryte ts = tryte_of (bt_value ts)"
  by (simp add: trits_to_tryte_def tryte_of_def foldr_bt_value Let_def)

lemma bt_value_group_bound: "valid_trits ts \<Longrightarrow> length ts \<le> 3 \<Longrightarrow> \<bar>bt_value ts\<bar> \<le> 13"
proof -
  assume v: "valid_trits ts" and l: "length ts \<le> 3"
  have "(3::int) ^ length ts \<le> 3 ^ 3"
    using l by (intro power_increasing) auto
  with bt_value_bound [OF v] show ?thesis by simp
qed

lemma trits_to_trytes_valid: "valid_trits ts \<Longrightarrow> valid_trytes (trits_to_trytes ts)"
proof (induction ts rule: trits_to_trytes.induct)
  case 1
  then show ?case by simp
next
  case (2 t ts)
  have "\<bar>bt_value (take 3 (t # ts))\<bar> \<le> 13"
    using 2(2) by (intro bt_value_group_bound valid_trits_take) auto
  moreover have "valid_trytes (trits_to_trytes (drop 3 (t # ts)))"
    using 2 by (blast intro: valid_trits_drop)
  ultimately show ?case
    by (simp only: trits_to_trytes.simps list.pred_inject trits_to_tryte_value tryte_of_valid simp_thms)
qed

lemma trits_to_trytes_length: "length (trits_to_trytes ts) = num_trytes_for_trits (length ts)"
proof (induction ts rule: trits_to_trytes.induct)
  case (2 t ts)
  then show ?case by (cases "length ts \<ge> 2") (auto simp: num_trytes_for_trits_def)
qed (simp add: num_trytes_for_trits_def)

lemma trytes_to_trits_length [simp]: "valid_trytes ys \<Longrightarrow> length (trytes_to_trits ys) = 3 * length ys"
  by (induction ys) (auto simp: lut_digits)

lemma trytes_to_trits_valid [simp]: "valid_trytes ys \<Longrightarrow> valid_trits (trytes_to_trits ys)"
  by (induction ys) (auto simp: lut_digits)

lemma trytes_to_trits_Cons:
  assumes "valid_trits ts" "length ts \<le> 3"
  shows "trytes_to_trits (trits_to_tryte ts # ys) = ts @ replicate (3 - length ts) 0 @ trytes_to_trits ys"
proof -
  have b: "\<bar>bt_value ts\<bar> \<le> 13" using assms by (rule bt_value_group_bound)
  show ?thesis
    by (simp add: trits_to_tryte_value lut_digits tryte_of_valid [OF b] tryte_value_of [OF b]
        bt_digits_pad [OF assms])
qed

lemma trytes_trits_round_trip:
  "valid_trits ts \<Longrightarrow>
    trytes_to_trits (trits_to_trytes ts) = ts @ replicate (3 * num_trytes_for_trits (length ts) - length ts) 0"
proof (induction ts rule: trits_to_trytes.induct)
  case 1
  then show ?case by (simp add: num_trytes_for_trits_def)
next
  case (2 t ts)
  let ?g = "take 3 (t # ts)" and ?r = "drop 3 (t # ts)"
  have v: "valid_trits ?g" "valid_trits ?r"
    using 2(2) by (auto intro: valid_trits_take valid_trits_drop simp del: take_Suc_Cons drop_Suc_Cons)
  have ih: "trytes_to_trits (trits_to_trytes ?r)
      = ?r @ replicate (3 * num_trytes_for_trits (length ?r) - length ?r) 0"
    using 2 v by blast
  have "trytes_to_trits (trits_to_trytes (t # ts))
      = ?g @ replicate (3 - length ?g) 0 @ trytes_to_trits (trits_to_trytes ?r)"
    using trytes_to_trits_Cons [OF v(1), of "trits_to_trytes ?r"] by (simp del: take_Suc_Cons drop_Suc_Cons)
  also have "\<dots> = (t # ts) @ replicate (3 * num_trytes_for_trits (length (t # ts)) - length (t # ts)) 0"
  proof (cases "length (t # ts) \<ge> 3")
    case True
    then obtain m where m: "length (t # ts) = m + 3" using le_Suc_ex by (metis add.commute)
    have "num_trytes_for_trits (m + 3) = Suc (num_trytes_for_trits m)"
      by (simp add: num_trytes_for_trits_def)
    with True m ih show ?thesis
      by (simp del: take_Suc_Cons drop_Suc_Cons append_assoc add: append_assoc [symmetric] eval_nat_numeral)
  next
    case False
    then have "length ts = 0 \<or> length ts = 1" by (simp del: length_0_conv) linarith
    with ih show ?thesis
      by (auto simp: num_trytes_for_trits_def length_Suc_conv)
  qed
  finally show ?case .
qed

lemma trits_trytes_round_trip: "valid_trytes ys \<Longrightarrow> trits_to_trytes (trytes_to_trits ys) = ys"
proof (induction ys)
  case Nil
  then show ?case by simp
next
  case (Cons y ys)
  let ?d = "bt_digits 3 (tryte_value y)"
  from Cons.prems have y: "valid_tryte y" by simp
  obtain a b c where d: "?d = [a, b, c]"
    using length_3_conv [of ?d] by (auto simp del: bt_digits.simps)
  have "bt_value ?d = tryte_value y"
    using tryte_value_bound [OF y] by (intro bt_value_digits) simp
  then have "trits_to_tryte [a, b, c] = y"
    using d by (simp add: trits_to_tryte_value tryte_of_value [OF y] del: bt_value.simps)
  with d Cons show ?case
    by (simp add: lut_digits [OF y])
qed

section \<open>Single trits\<close>

lemma trytes_to_trits_nth:
  "valid_trytes ys \<Longrightarrow> i < 3 * length ys \<Longrightarrow>
    trytes_to_trits ys ! i = bt_digits 3 (tryte_value (ys ! (i div 3))) ! (i mod 3)"
proof (induction ys arbitrary: i)
  case Nil
  then show ?case by simp
next
  case (Cons y ys)
  show ?case
  proof (cases "i < 3")
    case True
    with Cons.prems show ?thesis
      by (simp add: nth_append lut_digits del: bt_digits.simps)
  next
    case False
    then obtain j where "i = 3 + j" by (metis le_add_diff_inverse not_less)
    with Cons show ?thesis
      by (simp add: nth_append lut_digits div_add_self1 del: bt_digits.simps)
  qed
qed

lemma trytes_to_trits_update:
  "valid_trytes ys \<Longrightarrow> valid_tryte y \<Longrightarrow> k < length ys \<Longrightarrow>
    trytes_to_trits (ys[k := y]) = blit (trytes_to_trits ys) (3 * k) (bt_digits 3 (tryte_value y))"
proof (induction ys arbitrary: k)
  case Nil
  then show ?case by simp
next
  case (Cons x ys)
  show ?case
  proof (cases k)
    case 0
    with Cons.prems show ?thesis
      by (simp add: blit_def lut_digits del: bt_digits.simps)
  next
    case (Suc j)
    with Cons show ?thesis
      by (simp add: blit_def lut_digits add.commute del: bt_digits.simps)
  qed
qed

text \<open>\<open>get_trit_at\<close> reads the trit of the unpacked array, and 0 past its end.\<close>

lemma get_trit_at_correct:
  assumes "valid_trytes ys"
  shows "get_trit_at ys (length ys) i = (if i < 3 * length ys then trytes_to_trits ys ! i else 0)"
proof (cases "i < 3 * length ys")
  case True
  then have "ys ! (i div 3) \<in> set ys" by (intro nth_mem) linarith
  with assms have "valid_tryte (ys ! (i div 3))" by (auto simp: list_all_iff)
  with True show ?thesis
    using trytes_to_trits_nth [OF assms True]
    by (auto simp: get_trit_at_def lut_digits Let_def simp del: bt_digits.simps)
qed (auto simp: get_trit_at_def Let_def)

text \<open>The groups of three trits of an array, and writing one trit of a group.\<close>

lemma group_update:
  "k < n \<Longrightarrow> j < 3 \<Longrightarrow> length xs = 3 * n \<Longrightarrow> blit xs (3 * k) ((slice (3 * k) 3 xs)[j := t]) = xs[3 * k + j := t]"
  by (rule nth_equalityI)
     (auto simp: blit_def slice_def nth_append nth_list_update min_def)

lemma slice_trytes_to_trits:
  "valid_trytes ys \<Longrightarrow> k < length ys \<Longrightarrow> slice (3 * k) 3 (trytes_to_trits ys) = bt_digits 3 (tryte_value (ys ! k))"
proof (induction ys arbitrary: k)
  case (Cons y ys)
  then show ?case
    by (cases k) (auto simp: slice_def lut_digits simp del: bt_digits.simps)
qed simp

lemma set_trit_tryte:
  assumes "valid_tryte y" "j < 3" "is_trit t"
  shows "valid_tryte (tryte_of (bt_value ((bt_digits 3 (tryte_value y))[j := t])))"
    and "bt_digits 3 (tryte_value (tryte_of (bt_value ((bt_digits 3 (tryte_value y))[j := t]))))
      = (bt_digits 3 (tryte_value y))[j := t]"
proof -
  let ?g = "(bt_digits 3 (tryte_value y))[j := t]"
  have "set ?g \<subseteq> insert t (set (bt_digits 3 (tryte_value y)))" by (rule set_update_subset_insert)
  moreover have "valid_trits (bt_digits 3 (tryte_value y))" by (rule bt_digits_valid)
  ultimately have v: "valid_trits ?g"
    using assms(3) by (fastforce simp: list_all_iff simp del: bt_digits.simps)
  have b: "\<bar>bt_value ?g\<bar> \<le> 13"
    by (rule bt_value_group_bound [OF v]) (simp del: bt_digits.simps)
  show "valid_tryte (tryte_of (bt_value ?g))" by (rule tryte_of_valid [OF b])
  show "bt_digits 3 (tryte_value (tryte_of (bt_value ?g))) = ?g"
    using bt_digits_value [OF v] by (simp add: tryte_value_of [OF b] del: bt_digits.simps)
qed

lemma store_tryte_table:
  "list_all (\<lambda>k. TRYTE_ALPHABET ! to_size (if k < 0 then wrap8 (k + 27) else k) = tryte_of k) [-13..13]"
  by code_simp

lemma store_tryte: "\<bar>k\<bar> \<le> 13 \<Longrightarrow> TRYTE_ALPHABET ! to_size (if k < 0 then wrap8 (k + 27) else k) = tryte_of k"
  using list_all_uptoD [OF store_tryte_table, of k] by (simp add: abs_le_iff)

lemma set_trit_at_eq:
  assumes "valid_tryte (ys ! (i div 3))" "i div 3 < len" "is_trit t"
  shows "set_trit_at ys len i t =
    (1, ys[i div 3 := tryte_of (bt_value ((bt_digits 3 (tryte_value (ys ! (i div 3))))[i mod 3 := t]))])"
proof -
  let ?d = "bt_digits 3 (tryte_value (ys ! (i div 3)))"
  let ?g = "?d[i mod 3 := t]"
  obtain a b c where g: "?g = [a, b, c]"
    using length_3_conv [of ?g] by (auto simp del: bt_digits.simps)
  have "valid_trits ?g"
    using assms(3) bt_digits_valid [of 3 "tryte_value (ys ! (i div 3))"] set_update_subset_insert [of ?d "i mod 3" t]
    by (fastforce simp: list_all_iff simp del: bt_digits.simps)
  then have abc: "is_trit a" "is_trit b" "is_trit c" using g by auto
  have v: "a + b * 3 + c * 9 = bt_value [a, b, c]" by simp
  have b: "\<bar>bt_value [a, b, c]\<bar> \<le> 13" using abc by (auto simp: is_trit_def)
  then have w: "wrap8 (a + b * 3 + c * 9) = bt_value [a, b, c]"
    unfolding v by (intro wrap8_id) auto
  have "\<not> 26 < to_size (INDEX_OF_TRYTE (ys ! (i div 3)))" "\<not> len \<le> i div 3"
    using tryte_index_bound [OF assms(1)] assms(2) by auto
  then show ?thesis
    using store_tryte [OF b]
    by (simp only: set_trit_at_def Let_def lut_digits [OF assms(1)] g w if_False nth_Cons_0 nth_Cons_Suc
        One_nat_def numeral_2_eq_2)
qed

text \<open>
  \<open>set_trit_at\<close> writes one trit of the unpacked array and leaves the array a valid tryte
  array; past the end it reports 0 and changes nothing.
\<close>

lemma set_trit_at_correct:
  assumes "valid_trytes ys" and "is_trit t"
  shows "if i < 3 * length ys
         then \<exists>ys'. set_trit_at ys (length ys) i t = (1, ys') \<and> valid_trytes ys'
                \<and> trytes_to_trits ys' = (trytes_to_trits ys)[i := t]
         else set_trit_at ys (length ys) i t = (0, ys)"
proof (cases "i < 3 * length ys")
  case True
  then have k: "i div 3 < length ys" by linarith
  with assms(1) have y: "valid_tryte (ys ! (i div 3))" by (simp add: list_all_length)
  let ?y = "tryte_of (bt_value ((bt_digits 3 (tryte_value (ys ! (i div 3))))[i mod 3 := t]))"
  have j: "i mod 3 < 3" by simp
  note st = set_trit_tryte [OF y j assms(2)]
  have "valid_trytes (ys[i div 3 := ?y])"
    using assms(1) st(1) set_update_subset_insert [of ys "i div 3" ?y] by (fastforce simp: list_all_iff)
  moreover have "trytes_to_trits (ys[i div 3 := ?y]) = (trytes_to_trits ys)[i := t]"
  proof -
    have "trytes_to_trits (ys[i div 3 := ?y])
        = blit (trytes_to_trits ys) (3 * (i div 3)) ((slice (3 * (i div 3)) 3 (trytes_to_trits ys))[i mod 3 := t])"
      using trytes_to_trits_update [OF assms(1) st(1) k] st(2) slice_trytes_to_trits [OF assms(1) k]
      by (simp del: bt_digits.simps)
    also have "\<dots> = (trytes_to_trits ys)[3 * (i div 3) + i mod 3 := t]"
      using assms(1) by (intro group_update [OF k j]) simp
    finally show ?thesis by simp
  qed
  ultimately show ?thesis
    using True set_trit_at_eq [OF y k assms(2)] by auto
qed (auto simp: set_trit_at_def Let_def)

text \<open>Trits to trytes and back: the trits come back, padded with zeros to a whole tryte.\<close>

theorem trits_survive_trytes:
  assumes "valid_trits ts"
  shows "valid_trytes (trits_to_trytes ts)
    \<and> length (trits_to_trytes ts) = num_trytes_for_trits (length ts)
    \<and> trytes_to_trits (trits_to_trytes ts) = ts @ replicate (3 * num_trytes_for_trits (length ts) - length ts) 0"
  using assms by (simp add: trits_to_trytes_valid trits_to_trytes_length trytes_trits_round_trip)

theorem trits_survive_trytes_witness:
  "trytes_to_trits (trits_to_trytes [1, -1, 0, 1, 1]) = [1, -1, 0, 1, 1, 0]"
proof -
  have h: "valid_trits [1, -1, 0, 1, 1]" by code_simp
  show ?thesis using trits_survive_trytes [OF h] by (simp add: num_trytes_for_trits_def)
qed

text \<open>Trytes to trits and back is the identity.\<close>

theorem trytes_survive_trits:
  assumes "valid_trytes ys"
  shows "trits_to_trytes (trytes_to_trits ys) = ys \<and> valid_trits (trytes_to_trits ys)
    \<and> length (trytes_to_trits ys) = 3 * length ys"
  using assms by (simp add: trits_trytes_round_trip)

theorem trytes_survive_trits_witness:
  "trits_to_trytes (trytes_to_trits [57, 65, 78, 90]) = [57, 65, 78, 90]"
proof -
  have h: "valid_trytes [57, 65, 78, 90]" by code_simp
  show ?thesis using trytes_survive_trits [OF h] by simp
qed

section \<open>Text\<close>

lemma ascii_table:
  "list_all (\<lambda>d. c_mod d 27 = d mod 27 \<and> c_div (d - c_mod d 27) 27 = d div 27
     \<and> wrap8 (INDEX_OF_TRYTE (TRYTE_ALPHABET ! to_size (d mod 27))
         + INDEX_OF_TRYTE (TRYTE_ALPHABET ! to_size (d div 27)) * 27) = d) [1..127]"
  by code_simp

text \<open>
  ASCII text (characters 1 to 127) followed by its NUL terminator survives the tryte encoding,
  two trytes per character.
\<close>

theorem ascii_round_trip:
  assumes "list_all (\<lambda>d. 1 \<le> d \<and> d \<le> 127) chars"
  shows "trytes_to_ascii (ascii_to_trytes (chars @ [0])) = chars
    \<and> length (ascii_to_trytes (chars @ [0])) = 2 * length chars"
  using assms
proof (induction chars)
  case (Cons d chars)
  then have "1 \<le> d" "d \<le> 127" by auto
  with Cons show ?case
    using list_all_uptoD [OF ascii_table, of d] by (auto simp: Let_def)
qed simp

theorem ascii_round_trip_witness:
  "trytes_to_ascii (ascii_to_trytes ([72, 105, 127] @ [0])) = [72, 105, 127]"
proof -
  have h: "list_all (\<lambda>d. 1 \<le> d \<and> d \<le> 127) [72, 105, 127 :: int]" by simp
  show ?thesis using ascii_round_trip [OF h] by blast
qed

end
