(* ===== verification/Trit_Byte.thy ===== *)
theory Trit_Byte
  imports Prelude
begin

text \<open>
  \<open>common/trinary/trit_byte.c\<close>: five trits per byte, used by storage and by the gossip protocol.
  Both builds of \<open>byte_to_trits\<close> are modelled: the table lookup and the computation that replaces it
  under \<open>NO_BYTES_TRITS_LUT\<close>. The results are the round trip on whole arrays and the equivalence of
  the two builds.
\<close>

section \<open>Definitions\<close>

definition MIN_BYTES :: "nat \<Rightarrow> nat" where
  "MIN_BYTES num_trits = (num_trits + 5 - 1) div 5"

definition BYTES_TRITS_LUT :: "trit list list" where
  "BYTES_TRITS_LUT =
   [[0,0,0,0,0], [1,0,0,0,0], [-1,1,0,0,0], [0,1,0,0,0], [1,1,0,0,0], [-1,-1,1,0,0], [0,-1,1,0,0], [1,-1,1,0,0], [-1,0,1,0,0],
    [0,0,1,0,0], [1,0,1,0,0], [-1,1,1,0,0], [0,1,1,0,0], [1,1,1,0,0], [-1,-1,-1,1,0], [0,-1,-1,1,0], [1,-1,-1,1,0], [-1,0,-1,1,0],
    [0,0,-1,1,0], [1,0,-1,1,0], [-1,1,-1,1,0], [0,1,-1,1,0], [1,1,-1,1,0], [-1,-1,0,1,0], [0,-1,0,1,0], [1,-1,0,1,0], [-1,0,0,1,0],
    [0,0,0,1,0], [1,0,0,1,0], [-1,1,0,1,0], [0,1,0,1,0], [1,1,0,1,0], [-1,-1,1,1,0], [0,-1,1,1,0], [1,-1,1,1,0], [-1,0,1,1,0],
    [0,0,1,1,0], [1,0,1,1,0], [-1,1,1,1,0], [0,1,1,1,0], [1,1,1,1,0], [-1,-1,-1,-1,1], [0,-1,-1,-1,1], [1,-1,-1,-1,1], [-1,0,-1,-1,1],
    [0,0,-1,-1,1], [1,0,-1,-1,1], [-1,1,-1,-1,1], [0,1,-1,-1,1], [1,1,-1,-1,1], [-1,-1,0,-1,1], [0,-1,0,-1,1], [1,-1,0,-1,1], [-1,0,0,-1,1],
    [0,0,0,-1,1], [1,0,0,-1,1], [-1,1,0,-1,1], [0,1,0,-1,1], [1,1,0,-1,1], [-1,-1,1,-1,1], [0,-1,1,-1,1], [1,-1,1,-1,1], [-1,0,1,-1,1],
    [0,0,1,-1,1], [1,0,1,-1,1], [-1,1,1,-1,1], [0,1,1,-1,1], [1,1,1,-1,1], [-1,-1,-1,0,1], [0,-1,-1,0,1], [1,-1,-1,0,1], [-1,0,-1,0,1],
    [0,0,-1,0,1], [1,0,-1,0,1], [-1,1,-1,0,1], [0,1,-1,0,1], [1,1,-1,0,1], [-1,-1,0,0,1], [0,-1,0,0,1], [1,-1,0,0,1], [-1,0,0,0,1],
    [0,0,0,0,1], [1,0,0,0,1], [-1,1,0,0,1], [0,1,0,0,1], [1,1,0,0,1], [-1,-1,1,0,1], [0,-1,1,0,1], [1,-1,1,0,1], [-1,0,1,0,1],
    [0,0,1,0,1], [1,0,1,0,1], [-1,1,1,0,1], [0,1,1,0,1], [1,1,1,0,1], [-1,-1,-1,1,1], [0,-1,-1,1,1], [1,-1,-1,1,1], [-1,0,-1,1,1],
    [0,0,-1,1,1], [1,0,-1,1,1], [-1,1,-1,1,1], [0,1,-1,1,1], [1,1,-1,1,1], [-1,-1,0,1,1], [0,-1,0,1,1], [1,-1,0,1,1], [-1,0,0,1,1],
    [0,0,0,1,1], [1,0,0,1,1], [-1,1,0,1,1], [0,1,0,1,1], [1,1,0,1,1], [-1,-1,1,1,1], [0,-1,1,1,1], [1,-1,1,1,1], [-1,0,1,1,1],
    [0,0,1,1,1], [1,0,1,1,1], [-1,1,1,1,1], [0,1,1,1,1], [1,1,1,1,1], [-1,-1,-1,-1,-1], [0,-1,-1,-1,-1], [1,-1,-1,-1,-1], [-1,0,-1,-1,-1],
    [0,0,-1,-1,-1], [1,0,-1,-1,-1], [-1,1,-1,-1,-1], [0,1,-1,-1,-1], [1,1,-1,-1,-1], [-1,-1,0,-1,-1], [0,-1,0,-1,-1], [1,-1,0,-1,-1], [-1,0,0,-1,-1],
    [0,0,0,-1,-1], [1,0,0,-1,-1], [-1,1,0,-1,-1], [0,1,0,-1,-1], [1,1,0,-1,-1], [-1,-1,1,-1,-1], [0,-1,1,-1,-1], [1,-1,1,-1,-1], [-1,0,1,-1,-1],
    [0,0,1,-1,-1], [1,0,1,-1,-1], [-1,1,1,-1,-1], [0,1,1,-1,-1], [1,1,1,-1,-1], [-1,-1,-1,0,-1], [0,-1,-1,0,-1], [1,-1,-1,0,-1], [-1,0,-1,0,-1],
    [0,0,-1,0,-1], [1,0,-1,0,-1], [-1,1,-1,0,-1], [0,1,-1,0,-1], [1,1,-1,0,-1], [-1,-1,0,0,-1], [0,-1,0,0,-1], [1,-1,0,0,-1], [-1,0,0,0,-1],
    [0,0,0,0,-1], [1,0,0,0,-1], [-1,1,0,0,-1], [0,1,0,0,-1], [1,1,0,0,-1], [-1,-1,1,0,-1], [0,-1,1,0,-1], [1,-1,1,0,-1], [-1,0,1,0,-1],
    [0,0,1,0,-1], [1,0,1,0,-1], [-1,1,1,0,-1], [0,1,1,0,-1], [1,1,1,0,-1], [-1,-1,-1,1,-1], [0,-1,-1,1,-1], [1,-1,-1,1,-1], [-1,0,-1,1,-1],
    [0,0,-1,1,-1], [1,0,-1,1,-1], [-1,1,-1,1,-1], [0,1,-1,1,-1], [1,1,-1,1,-1], [-1,-1,0,1,-1], [0,-1,0,1,-1], [1,-1,0,1,-1], [-1,0,0,1,-1],
    [0,0,0,1,-1], [1,0,0,1,-1], [-1,1,0,1,-1], [0,1,0,1,-1], [1,1,0,1,-1], [-1,-1,1,1,-1], [0,-1,1,1,-1], [1,-1,1,1,-1], [-1,0,1,1,-1],
    [0,0,1,1,-1], [1,0,1,1,-1], [-1,1,1,1,-1], [0,1,1,1,-1], [1,1,1,1,-1], [-1,-1,-1,-1,0], [0,-1,-1,-1,0], [1,-1,-1,-1,0], [-1,0,-1,-1,0],
    [0,0,-1,-1,0], [1,0,-1,-1,0], [-1,1,-1,-1,0], [0,1,-1,-1,0], [1,1,-1,-1,0], [-1,-1,0,-1,0], [0,-1,0,-1,0], [1,-1,0,-1,0], [-1,0,0,-1,0],
    [0,0,0,-1,0], [1,0,0,-1,0], [-1,1,0,-1,0], [0,1,0,-1,0], [1,1,0,-1,0], [-1,-1,1,-1,0], [0,-1,1,-1,0], [1,-1,1,-1,0], [-1,0,1,-1,0],
    [0,0,1,-1,0], [1,0,1,-1,0], [-1,1,1,-1,0], [0,1,1,-1,0], [1,1,1,-1,0], [-1,-1,-1,0,0], [0,-1,-1,0,0], [1,-1,-1,0,0], [-1,0,-1,0,0],
    [0,0,-1,0,0], [1,0,-1,0,0], [-1,1,-1,0,0], [0,1,-1,0,0], [1,1,-1,0,0], [-1,-1,0,0,0], [0,-1,0,0,0], [1,-1,0,0,0], [-1,0,0,0,0]]"

definition byte_radix :: "byte list" where
  "byte_radix = [1, 3, 9, 27, 81]"

text \<open>The accumulator is a \<open>byte_t\<close>; the loop runs from the last trit to the first.\<close>

definition trits_to_byte :: "trit list \<Rightarrow> byte" where
  "trits_to_byte trits = foldr (\<lambda>trit byte. wrap8 (byte * 3 + trit)) trits 0"

fun trits_to_bytes :: "trit list \<Rightarrow> byte list" where
  "trits_to_bytes [] = []"
| "trits_to_bytes (t # ts) = trits_to_byte (take 5 (t # ts)) # trits_to_bytes (drop 5 (t # ts))"

definition byte_to_trits :: "byte \<Rightarrow> nat \<Rightarrow> trit list" where
  "byte_to_trits byte num_trits =
     (if num_trits = 0 then []
      else take num_trits (BYTES_TRITS_LUT ! nat (if byte < 0 then 243 + byte else byte)))"

text \<open>
  The body of the loop without the table: \<open>j\<close> counts down from 4 and wraps past 0, which ends the
  loop; \<open>i\<close> is the next cell to write. \<open>>> 1\<close> on the positive constants of \<open>byte_radix\<close> is \<open>div 2\<close>.
\<close>

fun byte_to_trits_loop :: "nat \<Rightarrow> int \<Rightarrow> byte \<Rightarrow> trit list \<Rightarrow> trit list" where
  "byte_to_trits_loop 0 i val trits = trits"
| "byte_to_trits_loop (Suc j) i val trits =
     (let (val, trit) =
        (if val > byte_radix ! j div 2 then (wrap8 (val - byte_radix ! j), 1)
         else if val < - (byte_radix ! j div 2) then (wrap8 (val + byte_radix ! j), -1)
         else (val, 0))
      in if int j = i then byte_to_trits_loop j (i - 1) val (trits[j := trit])
         else byte_to_trits_loop j i val trits)"

definition byte_to_trits_no_lut :: "byte \<Rightarrow> trit list \<Rightarrow> nat \<Rightarrow> trit list" where
  "byte_to_trits_no_lut byte trits num_trits =
     (if num_trits = 0 then trits else byte_to_trits_loop 5 (int num_trits - 1) byte trits)"

fun bytes_to_trits :: "byte list \<Rightarrow> nat \<Rightarrow> trit list" where
  "bytes_to_trits [] num_trits = []"
| "bytes_to_trits (b # bs) num_trits =
     (if num_trits = 0 then []
      else byte_to_trits b (min num_trits 5) @ bytes_to_trits bs (num_trits - 5))"

section \<open>One byte\<close>

lemma foldr_wrap8:
  "valid_trits ts \<Longrightarrow> length ts \<le> 5 \<Longrightarrow> foldr (\<lambda>trit byte. wrap8 (byte * 3 + trit)) ts 0 = bt_value ts"
proof (induction ts)
  case Nil
  then show ?case by simp
next
  case (Cons t ts)
  have "(3::int) ^ length (t # ts) \<le> 3 ^ 5"
    using Cons.prems by (intro power_increasing) auto
  with bt_value_bound [OF Cons.prems(1)] have "\<bar>t + 3 * bt_value ts\<bar> \<le> 121" by simp
  with Cons show ?case by (simp add: wrap8_id algebra_simps)
qed

lemma trits_to_byte_value: "valid_trits ts \<Longrightarrow> length ts \<le> 5 \<Longrightarrow> trits_to_byte ts = bt_value ts"
  by (simp add: trits_to_byte_def foldr_wrap8)

lemma byte_bound: "valid_trits ts \<Longrightarrow> length ts \<le> 5 \<Longrightarrow> \<bar>bt_value ts\<bar> \<le> 121"
proof -
  assume v: "valid_trits ts" and l: "length ts \<le> 5"
  have "(3::int) ^ length ts \<le> 3 ^ 5"
    using l by (intro power_increasing) auto
  with bt_value_bound [OF v] show ?thesis by simp
qed

lemma byte_lut_table: "BYTES_TRITS_LUT = map (bt_digits 5) ([0..121] @ [-121..-1])"
  by code_simp

lemma byte_lut:
  assumes "\<bar>b\<bar> \<le> 121"
  shows "BYTES_TRITS_LUT ! nat (if b < 0 then 243 + b else b) = bt_digits 5 b"
proof -
  let ?k = "nat (if b < 0 then 243 + b else b)"
  have l: "length [0..121::int] = 122" "length [-121..-1::int] = 121" by simp_all
  have k: "?k < length ([0..121] @ [-121..-1::int])"
    using assms by (simp only: length_append l) auto
  have "([0..121] @ [-121..-1]) ! ?k = b"
    using assms by (auto simp only: nth_append l split: if_splits) (auto simp: nth_upto)
  then show ?thesis
    unfolding byte_lut_table nth_map [OF k] by (simp only:)
qed

lemma byte_to_trits_digits:
  assumes "\<bar>b\<bar> \<le> 121"
  shows "byte_to_trits b n = take n (bt_digits 5 b)"
  by (simp only: byte_to_trits_def byte_lut [OF assms]) simp

lemma bt_digits_append_value:
  "valid_trits ts \<Longrightarrow> length ts \<le> n \<Longrightarrow> take (length ts) (bt_digits n (bt_value ts)) = ts"
  by (simp add: bt_digits_take bt_digits_value)

lemma byte_round_trip:
  "valid_trits ts \<Longrightarrow> length ts \<le> 5 \<Longrightarrow> byte_to_trits (trits_to_byte ts) (length ts) = ts"
  by (simp add: trits_to_byte_value byte_to_trits_digits byte_bound bt_digits_append_value)

lemma byte_to_trits_valid: "\<bar>b\<bar> \<le> 121 \<Longrightarrow> valid_trits (byte_to_trits b n)"
  by (simp only: byte_to_trits_digits valid_trits_take bt_digits_valid)

lemma byte_to_trits_length: "\<bar>b\<bar> \<le> 121 \<Longrightarrow> n \<le> 5 \<Longrightarrow> length (byte_to_trits b n) = n"
  by (simp add: byte_to_trits_digits)

section \<open>Arrays\<close>

lemma trits_to_bytes_length: "length (trits_to_bytes ts) = MIN_BYTES (length ts)"
proof (induction ts rule: trits_to_bytes.induct)
  case (2 t ts)
  then show ?case by (cases "length ts \<ge> 4") (auto simp: MIN_BYTES_def)
qed (simp add: MIN_BYTES_def)

lemma trits_to_bytes_bound: "valid_trits ts \<Longrightarrow> list_all (\<lambda>b. \<bar>b\<bar> \<le> 121) (trits_to_bytes ts)"
proof (induction ts rule: trits_to_bytes.induct)
  case 1
  then show ?case by simp
next
  case (2 t ts)
  have v: "valid_trits (take 5 (t # ts))" using 2(2) by (rule valid_trits_take)
  have "\<bar>trits_to_byte (take 5 (t # ts))\<bar> \<le> 121"
    using byte_bound [OF v] by (subst trits_to_byte_value [OF v]) auto
  moreover have "list_all (\<lambda>b. \<bar>b\<bar> \<le> 121) (trits_to_bytes (drop 5 (t # ts)))"
    using 2 by (blast intro: valid_trits_drop)
  ultimately show ?case
    by (simp only: trits_to_bytes.simps list.pred_inject simp_thms)
qed

lemma bytes_round_trip: "valid_trits ts \<Longrightarrow> bytes_to_trits (trits_to_bytes ts) (length ts) = ts"
proof (induction ts rule: trits_to_bytes.induct)
  case 1
  then show ?case by simp
next
  case (2 t ts)
  let ?g = "take 5 (t # ts)" and ?r = "drop 5 (t # ts)"
  have v: "valid_trits ?g" "valid_trits ?r"
    using 2(2) by (blast intro: valid_trits_take valid_trits_drop)+
  have "byte_to_trits (trits_to_byte ?g) (length ?g) = ?g"
    using v(1) by (rule byte_round_trip) simp
  moreover have "length ?g = min (length (t # ts)) 5" by simp
  ultimately have g: "byte_to_trits (trits_to_byte ?g) (min (length (t # ts)) 5) = ?g" by metis
  have "bytes_to_trits (trits_to_bytes ?r) (length ?r) = ?r" using 2 v by blast
  then have r: "bytes_to_trits (trits_to_bytes ?r) (length (t # ts) - 5) = ?r" by simp
  have "bytes_to_trits (trits_to_bytes (t # ts)) (length (t # ts)) = ?g @ ?r"
    using g r by (simp only: trits_to_bytes.simps bytes_to_trits.simps) simp
  then show ?case by (simp only: append_take_drop_id)
qed

text \<open>
  Packing trits five to a byte and unpacking the same number of trits gives the trits back; the
  packed form has \<open>MIN_BYTES\<close> bytes, each between -121 and 121.
\<close>

theorem trits_survive_bytes:
  assumes "valid_trits ts"
  shows "bytes_to_trits (trits_to_bytes ts) (length ts) = ts
    \<and> length (trits_to_bytes ts) = MIN_BYTES (length ts)
    \<and> list_all (\<lambda>b. \<bar>b\<bar> \<le> 121) (trits_to_bytes ts)"
  using assms by (simp add: bytes_round_trip trits_to_bytes_length trits_to_bytes_bound)

theorem trits_survive_bytes_witness:
  "bytes_to_trits (trits_to_bytes [1, -1, 0, 1, 1, -1, 0]) (length [1, -1, 0, 1, 1, -1, 0 :: trit]) = [1, -1, 0, 1, 1, -1, 0]"
proof -
  have h: "valid_trits [1, -1, 0, 1, 1, -1, 0]" by simp
  show ?thesis using trits_survive_bytes [OF h] by blast
qed

section \<open>The build without the table\<close>

text \<open>Every cell below \<open>i\<close> is written before the loop ends, whatever the buffer held.\<close>

lemma byte_to_trits_loop_init:
  "i < int j \<Longrightarrow> length xs = length ys \<Longrightarrow> (\<forall>k < length xs. i < int k \<longrightarrow> xs ! k = ys ! k) \<Longrightarrow>
    byte_to_trits_loop j i val xs = byte_to_trits_loop j i val ys"
proof (induction j arbitrary: i val xs ys)
  case 0
  then show ?case by (auto intro: nth_equalityI)
next
  case (Suc j)
  show ?case
  proof (cases "int j = i")
    case True
    have "byte_to_trits_loop j (i - 1) v (xs[j := t]) = byte_to_trits_loop j (i - 1) v (ys[j := t])" for v t
      using True Suc.prems by (intro Suc.IH) (auto simp: nth_list_update)
    with True show ?thesis by (auto simp: Let_def split: prod.splits)
  next
    case False
    then have "byte_to_trits_loop j i v xs = byte_to_trits_loop j i v ys" for v
      using Suc.prems by (intro Suc.IH) auto
    with False show ?thesis by (auto simp: Let_def split: prod.splits)
  qed
qed

lemma byte_to_trits_loop_take:
  "i < int n \<Longrightarrow> byte_to_trits_loop j i val (take n xs) = take n (byte_to_trits_loop j i val xs)"
proof (induction j arbitrary: i val xs)
  case (Suc j)
  have "byte_to_trits_loop j (i - 1) v ((take n xs)[j := t]) = take n (byte_to_trits_loop j (i - 1) v (xs[j := t]))" for v t
    using Suc.IH [of "i - 1" v "xs[j := t]"] Suc.prems by (simp add: take_update_swap)
  with Suc show ?case by (auto simp: Let_def split: prod.splits)
qed simp

text \<open>Asking for fewer trits gives the first trits of the full conversion.\<close>

lemma byte_to_trits_loop_fewer:
  "n \<le> j \<Longrightarrow> take n (byte_to_trits_loop j (int n - 1) val xs) = take n (byte_to_trits_loop j (int j - 1) val xs)"
proof (induction j arbitrary: val xs)
  case (Suc j)
  show ?case
  proof (cases "n = Suc j")
    case False
    then have n: "n \<le> j" using Suc.prems by simp
    have "take n (byte_to_trits_loop j (int n - 1) v xs) = take n (byte_to_trits_loop j (int j - 1) v (xs[j := t]))" for v t
      using Suc.IH [OF n, of v "xs[j := t]"] n by (simp flip: byte_to_trits_loop_take)
    with n show ?thesis by (auto simp: Let_def split: prod.splits)
  qed simp
qed simp

lemma no_lut_table:
  "list_all (\<lambda>b. byte_to_trits_loop 5 4 b [0, 0, 0, 0, 0] = bt_digits 5 b) [-121..121]"
  by code_simp

text \<open>
  The build without the lookup table computes the same trits as the table, for every byte that
  packs trits and every number of trits up to five, whatever the output buffer held before.
\<close>

theorem byte_to_trits_builds_agree:
  assumes "\<bar>b\<bar> \<le> 121" and "n \<le> 5" and "length buf = n"
  shows "byte_to_trits_no_lut b buf n = byte_to_trits b n"
proof -
  have "byte_to_trits_loop 5 (int n - 1) b buf = byte_to_trits_loop 5 (int n - 1) b (take n [0, 0, 0, 0, 0])"
    by (rule byte_to_trits_loop_init) (use assms in auto)
  also have "\<dots> = take n (byte_to_trits_loop 5 (int n - 1) b [0, 0, 0, 0, 0])"
    by (rule byte_to_trits_loop_take) simp
  also have "\<dots> = take n (byte_to_trits_loop 5 4 b [0, 0, 0, 0, 0])"
    using byte_to_trits_loop_fewer [of n 5 b "[0, 0, 0, 0, 0]"] assms(2) by simp
  also have "\<dots> = take n (bt_digits 5 b)"
    by (subst list_all_uptoD [OF no_lut_table]) (use assms in auto)
  finally show ?thesis
    using assms(3) by (simp only: byte_to_trits_digits [OF assms(1)] byte_to_trits_no_lut_def) auto
qed

theorem byte_to_trits_builds_agree_witness:
  "byte_to_trits_no_lut (- 100) [7, 7, 7] 3 = byte_to_trits (- 100) 3"
  by (rule byte_to_trits_builds_agree) simp_all

end
