(* ===== verification/Trit_Add.thy ===== *)
theory Trit_Add
  imports Prelude
begin

text \<open>
  \<open>common/trinary/add.c\<close>: addition on balanced-ternary numbers, with \<open>trit_t\<close> and \<open>int64_t\<close> arithmetic
  at their widths. \<open>add_trits\<close> adds two arrays; \<open>add_assign\<close> adds a machine integer, which is how
  keys are derived from a seed and how a bundle's obsolete tag is incremented.
\<close>

section \<open>Definitions\<close>

record ha_o =
  ha_s :: trit
  ha_c :: trit

definition trit_cons :: "trit \<Rightarrow> trit \<Rightarrow> trit" where
  "trit_cons a b = (if a = b then a else 0)"

definition trit_sum :: "trit \<Rightarrow> trit \<Rightarrow> trit" where
  "trit_sum a b =
     (let s = wrap8 (a + b)
      in if s = 2 then - 1 else if s = - 2 then 1 else s)"

definition trit_full_add :: "trit \<Rightarrow> trit \<Rightarrow> trit \<Rightarrow> ha_o" where
  "trit_full_add a b c =
     (let s_ab = trit_sum a b;
          x = wrap8 (trit_cons a b + trit_cons s_ab c)
      in \<lparr>ha_s = trit_sum s_ab c, ha_c = of_bool (x > 0) - of_bool (x < 0)\<rparr>)"

text \<open>
  The C function updates the trits in place and recurses on the tail of the array; the result is
  the return code (1: the array is too short) and the array. \<open>%\<close> and \<open>/\<close> are C's.
\<close>

fun add_internal :: "trit list \<Rightarrow> bool \<Rightarrow> int \<Rightarrow> ha_o \<Rightarrow> int \<times> trit list" where
  "add_internal t negative v r =
     (if v = 0 \<and> ha_c r = 0 then (0, t)
      else case t of
        [] \<Rightarrow> (1, [])
      | x # xs \<Rightarrow>
          let trit = wrap8 (c_mod (wrap64 (v + 1)) 3 - 1);
              trit = (if negative then wrap8 (- trit) else trit);
              r = trit_full_add x trit (ha_c r);
              (rc, xs') = add_internal xs negative (c_div (wrap64 (v + 1)) 3) r
          in (rc, ha_s r # xs'))"

declare add_internal.simps [simp del]

definition add_assign :: "trit list \<Rightarrow> int \<Rightarrow> int \<times> trit list" where
  "add_assign t v = add_internal t (v < 0) v \<lparr>ha_s = 0, ha_c = 0\<rparr>"

text \<open>\<open>add_trits lh rh\<close> overwrites \<open>rh\<close>; the carry out of the last trit is dropped.\<close>

fun add_trits_loop :: "trit list \<Rightarrow> trit list \<Rightarrow> ha_o \<Rightarrow> trit list" where
  "add_trits_loop (a # lh) (b # rh) r =
     (let r = trit_full_add a b (ha_c r) in ha_s r # add_trits_loop lh rh r)"
| "add_trits_loop _ rh r = rh"

definition add_trits :: "trit list \<Rightarrow> trit list \<Rightarrow> trit list" where
  "add_trits lh rh = add_trits_loop lh rh \<lparr>ha_s = 0, ha_c = 0\<rparr>"

section \<open>The full adder\<close>

lemma full_add_table:
  "list_all (\<lambda>a. list_all (\<lambda>b. list_all (\<lambda>c.
     is_trit (ha_s (trit_full_add a b c)) \<and> is_trit (ha_c (trit_full_add a b c))
     \<and> ha_s (trit_full_add a b c) + 3 * ha_c (trit_full_add a b c) = a + b + c) [-1..1]) [-1..1]) [-1..1]"
  by code_simp

lemma trit_full_add_correct:
  assumes "is_trit a" "is_trit b" "is_trit c"
  shows "is_trit (ha_s (trit_full_add a b c))" "is_trit (ha_c (trit_full_add a b c))"
    "ha_s (trit_full_add a b c) + 3 * ha_c (trit_full_add a b c) = a + b + c"
proof -
  have b: "- 1 \<le> x" "x \<le> 1" if "is_trit x" for x using that by (auto simp: is_trit_def)
  note t = list_all_uptoD [OF full_add_table b(1,2) [OF assms(1)]]
  note t = list_all_uptoD [OF t b(1,2) [OF assms(2)]]
  note t = list_all_uptoD [OF t b(1,2) [OF assms(3)]]
  show "is_trit (ha_s (trit_full_add a b c))" "is_trit (ha_c (trit_full_add a b c))"
    "ha_s (trit_full_add a b c) + 3 * ha_c (trit_full_add a b c) = a + b + c"
    using t by blast+
qed

section \<open>Adding arrays\<close>

lemma add_trits_loop_correct:
  "length lh = length rh \<Longrightarrow> valid_trits lh \<Longrightarrow> valid_trits rh \<Longrightarrow> is_trit (ha_c r) \<Longrightarrow>
    length (add_trits_loop lh rh r) = length rh \<and> valid_trits (add_trits_loop lh rh r)
    \<and> (\<exists>c. is_trit c \<and> bt_value (add_trits_loop lh rh r) + c * 3 ^ length rh = bt_value lh + bt_value rh + ha_c r)"
proof (induction lh rh r rule: add_trits_loop.induct)
  case (1 a lh b rh r)
  let ?r = "trit_full_add a b (ha_c r)"
  have t: "is_trit (ha_s ?r)" "is_trit (ha_c ?r)" and sum: "ha_s ?r + 3 * ha_c ?r = a + b + ha_c r"
    using 1(3-5) by (auto intro!: trit_full_add_correct)
  from 1 t(2) obtain c where c: "is_trit c"
    "bt_value (add_trits_loop lh rh ?r) + c * 3 ^ length rh = bt_value lh + bt_value rh + ha_c ?r"
    and "length (add_trits_loop lh rh ?r) = length rh" "valid_trits (add_trits_loop lh rh ?r)"
    by auto
  moreover have "ha_s ?r + 3 * bt_value (add_trits_loop lh rh ?r) + c * (3 * 3 ^ length rh)
      = a + 3 * bt_value lh + (b + 3 * bt_value rh) + ha_c r"
    using c(2) sum by (simp add: algebra_simps)
  ultimately show ?case using t by (auto simp: Let_def)
qed (auto intro: exI [of _ 0] simp: is_trit_def)

text \<open>
  \<open>add_trits\<close> computes the sum modulo \<open>3 ^ n\<close>: the result is a valid trit array of the same
  length whose value differs from the sum by -1, 0 or 1 times \<open>3 ^ n\<close>.
\<close>

theorem add_trits_correct:
  assumes "length lh = length rh" and "valid_trits lh" and "valid_trits rh"
  shows "length (add_trits lh rh) = length rh \<and> valid_trits (add_trits lh rh)
    \<and> (\<exists>c. is_trit c \<and> bt_value (add_trits lh rh) + c * 3 ^ length rh = bt_value lh + bt_value rh)"
  using add_trits_loop_correct [OF assms, of "\<lparr>ha_s = 0, ha_c = 0\<rparr>"] by (simp add: add_trits_def)

theorem add_trits_correct_witness:
  "length (add_trits [1, 1] [1, 0]) = 2 \<and> valid_trits (add_trits [1, 1] [1, 0])"
  using add_trits_correct [of "[1, 1]" "[1, 0]"] by simp

section \<open>Adding a machine integer\<close>

lemma add_step_trit:
  assumes "0 \<le> v" "v < INT64_MAX"
  shows "wrap8 (c_mod (wrap64 (v + 1)) 3 - 1) = (v + 1) mod 3 - 1" "c_div (wrap64 (v + 1)) 3 = (v + 1) div 3"
    "is_trit ((v + 1) mod 3 - 1)"
proof -
  have w: "wrap64 (v + 1) = v + 1" using assms by (intro wrap64_id) auto
  have "0 \<le> (v + 1) mod 3" "(v + 1) mod 3 < 3" by simp_all
  then have m: "- 1 \<le> (v + 1) mod 3 - 1" "(v + 1) mod 3 - 1 \<le> 1" by arith+
  show "wrap8 (c_mod (wrap64 (v + 1)) 3 - 1) = (v + 1) mod 3 - 1" "c_div (wrap64 (v + 1)) 3 = (v + 1) div 3"
    "is_trit ((v + 1) mod 3 - 1)"
    using assms m by (simp_all add: w c_mod_nonneg c_div_nonneg wrap8_id is_trit_def)
qed

text \<open>
  The value left to add when the array ends is \<open>k\<close>: nothing is left when the code is 0, and in
  every case the array holds the sum modulo \<open>3 ^ n\<close>.
\<close>

lemma add_internal_correct:
  "valid_trits t \<Longrightarrow> 0 \<le> v \<Longrightarrow> v < INT64_MAX \<Longrightarrow> is_trit (ha_c r) \<Longrightarrow>
    (case add_internal t False v r of (rc, t') \<Rightarrow>
       length t' = length t \<and> valid_trits t' \<and> (rc = 0 \<or> rc = 1)
       \<and> (\<exists>k. bt_value t' + k * 3 ^ length t = bt_value t + v + ha_c r \<and> (rc = 0 \<longrightarrow> k = 0)))"
proof (induction t arbitrary: v r)
  case Nil
  then show ?case by (simp add: add_internal.simps [of "[]"])
next
  case (Cons x xs)
  show ?case
  proof (cases "v = 0 \<and> ha_c r = 0")
    case True
    with Cons.prems show ?thesis by (auto simp: add_internal.simps [of "x # xs"] intro: exI [of _ 0])
  next
    case False
    let ?trit = "(v + 1) mod 3 - 1" and ?v = "(v + 1) div 3"
    let ?r = "trit_full_add x ?trit (ha_c r)"
    note st = add_step_trit [OF Cons.prems(2,3)]
    have fa: "is_trit (ha_s ?r)" "is_trit (ha_c ?r)" "ha_s ?r + 3 * ha_c ?r = x + ?trit + ha_c r"
      using Cons.prems st(3) by (auto intro!: trit_full_add_correct)
    have v: "0 \<le> ?v" "?v < INT64_MAX" using Cons.prems by auto
    obtain rc xs' where rec: "add_internal xs False ?v ?r = (rc, xs')" by fastforce
    obtain k where xs': "length xs' = length xs" "valid_trits xs'" "rc = 0 \<or> rc = 1"
      "bt_value xs' + k * 3 ^ length xs = bt_value xs + ?v + ha_c ?r" "rc = 0 \<longrightarrow> k = 0"
      using Cons.IH [OF _ v fa(2)] Cons.prems(1) rec by auto
    have "ha_s ?r + 3 * bt_value xs' + k * (3 * 3 ^ length xs) = x + 3 * bt_value xs + v + ha_c r"
      using fa(3) trit_div_mod [of v] xs'(4) by linarith
    moreover have "add_internal (x # xs) False v r = (rc, ha_s ?r # xs')"
      using False by (auto simp add: add_internal.simps [of "x # xs"] st(1,2) rec)
    ultimately show ?thesis using fa(1) xs' by auto
  qed
qed

lemma add_assign_nonneg:
  assumes "valid_trits t" "0 \<le> v" "v < INT64_MAX" "add_assign t v = (rc, t')"
  shows "length t' = length t" "valid_trits t'"
    "\<exists>k. bt_value t' + k * 3 ^ length t = bt_value t + v \<and> (rc = 0 \<longrightarrow> k = 0)"
  using add_internal_correct [OF assms(1-3), of "\<lparr>ha_s = 0, ha_c = 0\<rparr>"] assms(2,4)
  by (auto simp: add_assign_def)

lemma bt_value_congruent_eq:
  assumes "valid_trits t" "bt_value t + k * 3 ^ length t = s" "2 * \<bar>s\<bar> < 3 ^ length t"
  shows "bt_value t = s"
proof -
  have b: "2 * \<bar>bt_value t\<bar> < 3 ^ length t" using assms(1) by (rule bt_value_bound)
  have "\<bar>k * 3 ^ length t\<bar> < 3 ^ length t" using b assms(2,3) by arith
  then have "\<bar>k\<bar> * 3 ^ length t < 1 * 3 ^ length t" by (simp add: abs_mult)
  then have "k = 0" by (simp add: mult_less_cancel_right)
  with assms(2) show ?thesis by simp
qed

text \<open>
  Adding a nonnegative machine integer: the array keeps its length, stays a trit array and holds
  the sum modulo \<open>3 ^ n\<close>; a return code of 0, or a sum that fits, means that it holds the exact sum.
\<close>

theorem add_assign_correct:
  assumes "valid_trits t" and "0 \<le> v" and "v < INT64_MAX"
  shows "case add_assign t v of (rc, t') \<Rightarrow>
     length t' = length t \<and> valid_trits t' \<and> (\<exists>k. bt_value t' + k * 3 ^ length t = bt_value t + v)
     \<and> (rc = 0 \<or> 2 * \<bar>bt_value t + v\<bar> < 3 ^ length t \<longrightarrow> bt_value t' = bt_value t + v)"
proof -
  obtain rc t' where e: "add_assign t v = (rc, t')" by fastforce
  note a = add_assign_nonneg [OF assms e]
  from a(3) obtain k where k: "bt_value t' + k * 3 ^ length t = bt_value t + v" "rc = 0 \<longrightarrow> k = 0" by blast
  have "2 * \<bar>bt_value t + v\<bar> < 3 ^ length t \<longrightarrow> bt_value t' = bt_value t + v"
    using bt_value_congruent_eq [OF a(2), of k] k(1) a(1) by simp
  with a k show ?thesis by (auto simp: e)
qed

theorem add_assign_correct_witness:
  "case add_assign [1, 1, 0, 0] 5 of (rc, t') \<Rightarrow> bt_value t' = 9"
  using add_assign_correct [of "[1, 1, 0, 0]" 5] by (simp split: prod.splits)

text \<open>With nothing left to add the sign flag does not matter.\<close>

lemma add_internal_zero: "add_internal t negative 0 r = add_internal t False 0 r"
proof (induction t arbitrary: r)
  case (Cons x xs)
  show ?case
  proof (cases "ha_c r = 0")
    case True
    then show ?thesis by (simp add: add_internal.simps [of "x # xs"])
  next
    case False
    have "wrap8 (c_mod (wrap64 (0 + 1)) 3 - 1) = 0" "c_div (wrap64 (0 + 1)) 3 = 0" "wrap8 (- 0) = 0"
      by code_simp+
    with False Cons.IH show ?thesis
      by (simp add: add_internal.simps [of "x # xs"])
  qed
qed (simp add: add_internal.simps [of "[]"])

text \<open>
  Adding -1 is the same as adding 1: for a negative summand the code takes trits of the negative
  number (which already carry its sign) and negates them again.
\<close>

theorem add_assign_minus_one_adds_one: "add_assign t (- 1) = add_assign t 1"
proof (cases t)
  case (Cons x xs)
  have "wrap8 (- wrap8 (c_mod (wrap64 (- 1 + 1)) 3 - 1)) = 1" "c_div (wrap64 (- 1 + 1)) 3 = 0"
    "wrap8 (c_mod (wrap64 (1 + 1)) 3 - 1) = 1" "c_div (wrap64 (1 + 1)) 3 = 0"
    by code_simp+
  then show ?thesis
    using add_internal_zero [of xs True]
    by (simp add: Cons add_assign_def add_internal.simps [of "x # xs"])
qed (simp add: add_assign_def add_internal.simps [of "[]"])

end
