(* ===== verification/Trit_Long.thy ===== *)
theory Trit_Long
  imports Prelude Trit_Tryte
begin

text \<open>
  \<open>common/trinary/trit_long.c\<close>: 64-bit integers as trits, and the length of a number in the self-delimiting encoding
  of the MAM prototype. Signed and unsigned 64-bit arithmetic is at its width.
\<close>

section \<open>Definitions\<close>

definition encoded_zero :: "trit list" where
  "encoded_zero = [1, 0, 0, -1]"

definition pow27LUT :: "int list" where
  "pow27LUT =
     [1, 27, 729, 19683, 531441, 14348907, 387420489, 10460353203, 282429536481, 7625597484987,
      205891132094649, 5559060566555523, 150094635296999136, 4052555153018976256]"

definition trits_to_long :: "trit list \<Rightarrow> int" where
  "trits_to_long trits = foldr (\<lambda>trit accum. wrap64 (wrap64 (accum * 3) + trit)) trits 0"

text \<open>The absolute value as \<open>uint64_t\<close>, with the edge case of \<open>INT64_MIN\<close> that \<open>llabs\<close> cannot represent.\<close>

definition u64_abs :: "int \<Rightarrow> int" where
  "u64_abs v = (if v = INT64_MIN then uwrap64 (INT64_MAX + 1) else \<bar>v\<bar>)"

text \<open>
  \<open>while (v_abs > vp) { vp = vp * RADIX + 1; num++; }\<close> on \<open>uint64_t\<close>. The multiplication wraps when \<open>vp\<close>
  passes \<open>2 ^ 64\<close>; \<open>vp\<close> takes 41 values before that, which is the fuel, and no \<open>int64_t\<close> magnitude
  needs more of them.
\<close>

fun min_trits_loop :: "nat \<Rightarrow> int \<Rightarrow> int \<Rightarrow> nat \<Rightarrow> nat option" where
  "min_trits_loop 0 v_abs vp num = None"
| "min_trits_loop (Suc fuel) v_abs vp num =
     (if v_abs > vp then min_trits_loop fuel v_abs (uwrap64 (vp * 3 + 1)) (num + 1) else Some num)"

definition min_trits :: "int \<Rightarrow> nat" where
  "min_trits v = the (min_trits_loop 41 (u64_abs v) 1 1)"

text \<open>
  The trits written by the loop of \<open>long_to_trits\<close>: it stops at the end of the \<open>size\<close> cells or when
  nothing is left.
\<close>

fun long_to_trits_loop :: "nat \<Rightarrow> bool \<Rightarrow> int \<Rightarrow> trit list" where
  "long_to_trits_loop 0 negative v_abs = []"
| "long_to_trits_loop (Suc n) negative v_abs =
     (if v_abs = 0 then []
      else let trit = uwrap64 (v_abs + 1) mod 3 - 1;
               trit = (if negative then - trit else trit)
           in trit # long_to_trits_loop n negative (uwrap64 (v_abs + 1) div 3))"

text \<open>
  The array \<open>trits\<close> as \<open>long_to_trits\<close> leaves it: three cells are cleared first, then the trits are
  written; the returned size is that of \<open>min_trits\<close>.
\<close>

definition long_to_trits :: "int \<Rightarrow> trit list \<Rightarrow> nat \<times> trit list" where
  "long_to_trits v trits =
     (let size = min_trits v;
          trits = blit trits 0 (replicate 3 0)
      in (size, blit trits 0 (long_to_trits_loop size (v < 0) (u64_abs v))))"

definition nearest_greater_multiple_of_three :: "nat \<Rightarrow> nat" where
  "nearest_greater_multiple_of_three v =
     (let rem = v mod 3 in if rem = 0 then v else v + 3 - rem)"

text \<open>\<open>1 << n\<close> is an \<open>int\<close> shift.\<close>

definition shl1 :: "nat \<Rightarrow> int" where
  "shl1 n = wrap32 (2 ^ n)"

definition encoded_length :: "int \<Rightarrow> nat" where
  "encoded_length v =
     (if v = 0 then 4
      else let len = nearest_greater_multiple_of_three (min_trits \<bar>v\<bar>)
           in len + min_trits (shl1 (len div 3) - 1))"

section \<open>Sizes\<close>

text \<open>The largest value of \<open>n\<close> trits.\<close>

definition bt_max :: "nat \<Rightarrow> int" where
  "bt_max n = (3 ^ n - 1) div 2"

lemma bt_max_Suc: "bt_max (Suc n) = 3 * bt_max n + 1"
proof -
  have "odd ((3::int) ^ n)" by simp
  then obtain m where "(3::int) ^ n = 2 * m + 1" by (rule oddE)
  then show ?thesis by (simp add: bt_max_def)
qed

lemma bt_max_double: "2 * bt_max n = 3 ^ n - 1"
  by (induction n) (simp_all add: bt_max_Suc bt_max_def [of 0])

lemma bt_max_1 [simp]: "bt_max 1 = 1" "bt_max (Suc 0) = 1"
  by (simp_all add: bt_max_def)

lemma bt_max_mono: "m \<le> n \<Longrightarrow> bt_max m \<le> bt_max n"
  unfolding bt_max_def by (intro zdiv_mono1 diff_right_mono power_increasing) auto

lemma bt_max_41: "2 ^ 63 \<le> bt_max 41" "bt_max 40 < 2 ^ 63"
  by (simp_all add: bt_max_def)

lemma min_trits_loop_correct:
  "0 < num \<Longrightarrow> num \<le> 41 \<Longrightarrow> fuel = 42 - num \<Longrightarrow> v_abs \<le> 2 ^ 63 \<Longrightarrow> bt_max (num - 1) < v_abs \<or> num = 1 \<Longrightarrow>
    \<exists>n. min_trits_loop fuel v_abs (bt_max num) num = Some n \<and> 0 < n \<and> n \<le> 41 \<and> v_abs \<le> bt_max n
      \<and> (n = 1 \<or> bt_max (n - 1) < v_abs)"
proof (induction fuel arbitrary: num)
  case 0
  then show ?case by simp
next
  case (Suc fuel)
  show ?case
  proof (cases "v_abs > bt_max num")
    case False
    then show ?thesis using Suc.prems(1,2,5) by (auto intro!: exI [of _ num])
  next
    case True
    have n41: "num < 41"
    proof (rule ccontr)
      assume "\<not> num < 41"
      with Suc.prems(2) have "num = 41" by simp
      with True Suc.prems(4) bt_max_41(1) show False by simp
    qed
    have "bt_max (Suc num) \<le> bt_max 41" using n41 by (intro bt_max_mono) simp
    then have "bt_max num * 3 + 1 < 2 ^ 64" and "0 \<le> bt_max num"
      using bt_max_mono [of 0 num] by (simp_all add: bt_max_Suc bt_max_def [of 41] bt_max_def [of 0])
    then have "uwrap64 (bt_max num * 3 + 1) = bt_max (Suc num)"
      by (simp add: bt_max_Suc)
    with True have "min_trits_loop (Suc fuel) v_abs (bt_max num) num
        = min_trits_loop fuel v_abs (bt_max (Suc num)) (Suc num)"
      by simp
    moreover have "fuel = 42 - Suc num" using Suc.prems(3) by simp
    ultimately show ?thesis using Suc.IH [of "Suc num"] Suc.prems(4) True n41 by simp
  qed
qed

lemma u64_abs_eq: "INT64_MIN \<le> v \<Longrightarrow> v \<le> INT64_MAX \<Longrightarrow> u64_abs v = \<bar>v\<bar>"
  by (auto simp: u64_abs_def)

lemma min_trits_spec:
  assumes "INT64_MIN \<le> v" "v \<le> INT64_MAX"
  shows "0 < min_trits v" "min_trits v \<le> 41" "\<bar>v\<bar> \<le> bt_max (min_trits v)"
    "min_trits v = 1 \<or> bt_max (min_trits v - 1) < \<bar>v\<bar>"
proof -
  have "\<exists>n. min_trits_loop 41 \<bar>v\<bar> (bt_max 1) 1 = Some n \<and> 0 < n \<and> n \<le> 41 \<and> \<bar>v\<bar> \<le> bt_max n
      \<and> (n = 1 \<or> bt_max (n - 1) < \<bar>v\<bar>)"
    by (rule min_trits_loop_correct) (use assms in auto)
  then show "0 < min_trits v" "min_trits v \<le> 41" "\<bar>v\<bar> \<le> bt_max (min_trits v)"
    "min_trits v = 1 \<or> bt_max (min_trits v - 1) < \<bar>v\<bar>"
    using u64_abs_eq [OF assms] by (auto simp: min_trits_def)
qed

section \<open>Conversions\<close>

lemma trits_to_long_wrap: "trits_to_long ts = wrap64 (bt_value ts)"
proof (induction ts)
  case (Cons t ts)
  have "wrap64 (wrap64 (wrap64 (bt_value ts) * 3) + t) = wrap64 (t + 3 * bt_value ts)"
    by (simp only: wrap_s_add wrap_s_mult) (simp add: algebra_simps)
  with Cons show ?case by (simp add: trits_to_long_def)
qed (simp add: trits_to_long_def wrap64_id)

lemma trits_to_long_value: "INT64_MIN \<le> bt_value ts \<Longrightarrow> bt_value ts \<le> INT64_MAX \<Longrightarrow> trits_to_long ts = bt_value ts"
  unfolding trits_to_long_wrap by (rule wrap64_id) auto

lemma long_to_trits_loop_digits:
  "0 \<le> v \<Longrightarrow> v \<le> 2 ^ 63 \<Longrightarrow>
    length (long_to_trits_loop n neg v) \<le> n
    \<and> long_to_trits_loop n neg v @ replicate (n - length (long_to_trits_loop n neg v)) 0
      = bt_digits n (if neg then - v else v)"
proof (induction n arbitrary: v)
  case 0
  then show ?case by simp
next
  case (Suc n)
  show ?case
  proof (cases "v = 0")
    case True
    then show ?thesis by (simp add: bt_digits_zero [of "Suc n"] del: bt_digits.simps)
  next
    case False
    have w: "uwrap64 (v + 1) = v + 1" using Suc.prems by simp
    have d: "bt_digits (Suc n) (- v) = (- ((v + 1) mod 3 - 1)) # bt_digits n (- ((v + 1) div 3))"
      by (simp only: bt_digits_uminus bt_digits.simps list.map)
    have "0 \<le> (v + 1) div 3" "(v + 1) div 3 \<le> 2 ^ 63" using Suc.prems by auto
    note ih = Suc.IH [OF this]
    show ?thesis
      using ih False
      by (cases neg) (simp_all only: long_to_trits_loop.simps Let_def w d bt_digits.simps(2) [of n v] if_True if_False
          list.size append_Cons diff_Suc_Suc Suc_le_mono simp_thms add_0_right add_Suc_right)
  qed
qed

lemma long_to_trits_loop_length: "0 < n \<Longrightarrow> 0 < v \<Longrightarrow> v \<le> 2 ^ 63 \<Longrightarrow> n = 1 \<or> bt_max (n - 1) < v \<Longrightarrow>
    length (long_to_trits_loop n neg v) = n"
proof (induction n arbitrary: v)
  case (Suc n)
  have w: "uwrap64 (v + 1) = v + 1" using Suc.prems by simp
  show ?case
  proof (cases n)
    case 0
    with Suc.prems w show ?thesis by (simp add: Let_def)
  next
    case (Suc m)
    then have "bt_max n < v" using Suc.prems(4) by simp
    then have "bt_max m < (v + 1) div 3" by (simp add: Suc bt_max_Suc)
    moreover have "0 \<le> bt_max m" using bt_max_double [of m] by (smt (verit) zero_less_power)
    moreover have "(v + 1) div 3 \<le> 2 ^ 63" using Suc.prems by auto
    ultimately have "length (long_to_trits_loop n neg ((v + 1) div 3)) = n"
      using Suc by (intro Suc.IH) auto
    with Suc.prems w show ?thesis by (simp only: long_to_trits_loop.simps Let_def) simp
  qed
qed simp

text \<open>
  The cells that \<open>long_to_trits\<close> leaves behind: the trits of the value, at least three of them, and
  the old contents after them.
\<close>

lemma long_to_trits_spec:
  assumes "INT64_MIN \<le> v" "v \<le> INT64_MAX" "max 3 (min_trits v) \<le> length buf"
  shows "long_to_trits v buf = (min_trits v, bt_digits (max 3 (min_trits v)) v @ drop (max 3 (min_trits v)) buf)"
proof -
  let ?n = "min_trits v" and ?l = "long_to_trits_loop (min_trits v) (v < 0) (u64_abs v)"
  note mt = min_trits_spec [OF assms(1,2)]
  have v63: "\<bar>v\<bar> \<le> 2 ^ 63" using assms(1,2) by auto
  have "length ?l \<le> ?n \<and> ?l @ replicate (?n - length ?l) 0 = bt_digits ?n (if v < 0 then - \<bar>v\<bar> else \<bar>v\<bar>)"
    unfolding u64_abs_eq [OF assms(1,2)] using v63 by (intro long_to_trits_loop_digits) auto
  moreover have "(if v < 0 then - \<bar>v\<bar> else \<bar>v\<bar>) = v" by simp
  ultimately have l: "bt_digits ?n v = ?l @ replicate (?n - length ?l) 0" "length ?l \<le> ?n" by metis+
  have ln: "length ?l = ?n" if "v \<noteq> 0"
    unfolding u64_abs_eq [OF assms(1,2)] using that mt v63 by (intro long_to_trits_loop_length) auto
  have pad: "bt_digits (max 3 ?n) v = bt_digits ?n v @ replicate (max 3 ?n - ?n) 0"
  proof -
    have "bt_value (bt_digits ?n v) = v"
      using mt(3) bt_max_double [of ?n] by (intro bt_value_digits) arith
    then show ?thesis
      using bt_digits_pad [of "bt_digits ?n v" "max 3 ?n"] by simp
  qed
  have "blit (blit buf 0 (replicate 3 0)) 0 ?l = bt_digits (max 3 ?n) v @ drop (max 3 ?n) buf"
  proof (cases "v = 0")
    case True
    then have "?l = []" by (cases ?n) (auto simp: u64_abs_def)
    moreover have "?n \<le> 3" using mt(4) True bt_max_double [of "?n - 1"]
      by (cases "?n = 1") (auto, smt (verit) zero_less_power)
    ultimately show ?thesis using True by (simp add: blit_def max_def)
  next
    case False
    note ln [OF False]
    moreover from this l have "bt_digits ?n v = ?l" by simp
    ultimately show ?thesis
      using assms(3) pad by (cases "?n \<le> 3") (auto simp: blit_def max_def)
  qed
  then show ?thesis by (simp add: long_to_trits_def Let_def)
qed

text \<open>On a cleared buffer every cell is a trit of the value.\<close>

lemma long_to_trits_zeros:
  assumes "INT64_MIN \<le> v" "v \<le> INT64_MAX" "max 3 (min_trits v) \<le> n"
  shows "long_to_trits v (replicate n 0) = (min_trits v, bt_digits n v)"
proof -
  let ?m = "max 3 (min_trits v)"
  have "\<bar>v\<bar> \<le> bt_max ?m"
    using min_trits_spec(3) [OF assms(1,2)] bt_max_mono [of "min_trits v" ?m] by (meson max.cobounded2 order_trans)
  then have "bt_value (bt_digits ?m v) = v"
    using bt_max_double [of ?m] by (intro bt_value_digits) arith
  then have "bt_digits n v = bt_digits ?m v @ replicate (n - ?m) 0"
    using bt_digits_pad [of "bt_digits ?m v" n] assms(3) by simp
  then show ?thesis
    using long_to_trits_spec [OF assms(1,2), of "replicate n 0"] assms(3) by simp
qed

text \<open>
  Every \<open>int64_t\<close> survives the conversion to trits: \<open>long_to_trits\<close> writes \<open>min_trits\<close> trits (at
  least three cells), they are valid, \<open>trits_to_long\<close> reads the value back from them, no shorter array
  of trits holds the value, and the cells after them keep their contents.
\<close>

theorem long_survives_trits:
  assumes "INT64_MIN \<le> v" and "v \<le> INT64_MAX" and "max 3 (min_trits v) \<le> length buf"
  shows "case long_to_trits v buf of (sz, trits) \<Rightarrow>
    sz = min_trits v \<and> valid_trits (take sz trits) \<and> trits_to_long (take sz trits) = v
    \<and> drop (max 3 sz) trits = drop (max 3 sz) buf
    \<and> (\<forall>ts. valid_trits ts \<longrightarrow> bt_value ts = v \<longrightarrow> v \<noteq> 0 \<longrightarrow> sz \<le> length ts)"
proof -
  let ?n = "min_trits v"
  note mt = min_trits_spec [OF assms(1,2)]
  have t: "take ?n (bt_digits (max 3 ?n) v) = bt_digits ?n v" by (rule bt_digits_take) simp
  have bv: "bt_value (bt_digits ?n v) = v"
    using mt(3) bt_max_double [of ?n] by (intro bt_value_digits) arith
  have "?n \<le> length ts" if "valid_trits ts" "bt_value ts = v" "v \<noteq> 0" for ts
  proof (rule ccontr)
    assume "\<not> ?n \<le> length ts"
    then have "length ts \<le> ?n - 1" "?n \<noteq> 1 \<or> ts = []" by (cases ts; simp)+
    then have "bt_max (length ts) \<le> bt_max (?n - 1)" by (intro bt_max_mono)
    moreover have "\<bar>v\<bar> \<le> bt_max (length ts)"
      using bt_value_bound [OF that(1)] that(2) bt_max_double [of "length ts"] by arith
    ultimately show False using mt(4) that \<open>?n \<noteq> 1 \<or> ts = []\<close> by auto
  qed
  then show ?thesis
    using t bv assms(1,2) by (simp add: long_to_trits_spec [OF assms] trits_to_long_value)
qed

theorem long_survives_trits_witness:
  "case long_to_trits (- 25) (replicate 10 7) of (sz, trits) \<Rightarrow> trits_to_long (take sz trits) = - 25"
proof -
  have "min_trits (- 25) = 4" by code_simp
  then show ?thesis
    using long_survives_trits [of "- 25" "replicate 10 7"] by (simp split: prod.splits)
qed

end
