(* ===== verification/Flex_Trit.thy ===== *)
theory Flex_Trit
  imports Prelude Cell_Codec Trit_Tryte Trit_Byte
begin

text \<open>
  \<open>common/trinary/flex_trit.h\<close> and \<open>flex_trit.c\<close>: arrays of trits packed with one, three, four or five trits
  to a byte. The packing is chosen when the library is compiled; the model takes it as the argument
  \<open>flex_enc\<close>, so that every branch of the conditional compilation is covered.
\<close>

unbundle bit_operations_syntax

section \<open>Definitions\<close>

datatype flex_enc = ENC1 | ENC3 | ENC4 | ENC5

type_synonym flex_trit = int

definition FLEX_TRIT_NULL_VALUE :: "flex_enc \<Rightarrow> flex_trit" where
  "FLEX_TRIT_NULL_VALUE e = (case e of ENC3 \<Rightarrow> 57 | _ \<Rightarrow> 0)"

definition NUM_TRITS_PER_FLEX_TRIT :: "flex_enc \<Rightarrow> nat" where
  "NUM_TRITS_PER_FLEX_TRIT e = (case e of ENC1 \<Rightarrow> 1 | ENC3 \<Rightarrow> 3 | ENC4 \<Rightarrow> 4 | ENC5 \<Rightarrow> 5)"

definition NUM_FLEX_TRITS_FOR_TRITS :: "flex_enc \<Rightarrow> nat \<Rightarrow> nat" where
  "NUM_FLEX_TRITS_FOR_TRITS e num_trits =
     (case e of ENC1 \<Rightarrow> num_trits | ENC3 \<Rightarrow> (num_trits + 3 - 1) div 3
      | ENC4 \<Rightarrow> (num_trits + 3) div 4 | ENC5 \<Rightarrow> (num_trits + 5 - 1) div 5)"

text \<open>
  With four trits per byte a trit is two bits: \<open>(flex_trit_t)(b << tshift) >> 6U\<close> moves the field to
  the top of the signed byte and shifts it down arithmetically.
\<close>

definition flex_trits_at :: "flex_enc \<Rightarrow> flex_trit list \<Rightarrow> nat \<Rightarrow> nat \<Rightarrow> trit" where
  "flex_trits_at e flex_trits len index =
     (if len \<le> index then 0
      else case e of
        ENC1 \<Rightarrow> flex_trits ! index
      | ENC3 \<Rightarrow> get_trit_at flex_trits (NUM_FLEX_TRITS_FOR_TRITS e len) index
      | ENC4 \<Rightarrow> (let mshift = 2 * (index mod 4); tshift = 6 - mshift
                 in wrap8 (flex_trits ! (index div 4) * 2 ^ tshift) div 2 ^ 6)
      | ENC5 \<Rightarrow> byte_to_trits (flex_trits ! (index div 5)) 5 ! (index mod 5))"

definition flex_trits_set_at :: "flex_enc \<Rightarrow> flex_trit list \<Rightarrow> nat \<Rightarrow> nat \<Rightarrow> trit \<Rightarrow> nat \<times> flex_trit list" where
  "flex_trits_set_at e flex_trits len index trit =
     (if len \<le> index then (0, flex_trits)
      else case e of
        ENC1 \<Rightarrow> (1, flex_trits[index := trit])
      | ENC3 \<Rightarrow> (1, snd (set_trit_at flex_trits (NUM_FLEX_TRITS_FOR_TRITS e len) index trit))
      | ENC4 \<Rightarrow> (let shift = 2 * (index mod 4);
                     trit = wrap8 ((trit AND 3) * 2 ^ shift);
                     mask = (NOT (3 * 2 ^ shift)) AND 255;
                     index = index div 4
                 in (1, flex_trits[index := wrap8 ((flex_trits ! index AND mask) OR trit)]))
      | ENC5 \<Rightarrow> (let tindex = index mod 5; index = index div 5;
                     trits = (byte_to_trits (flex_trits ! index) 5)[tindex := trit]
                 in (1, flex_trits[index := trits_to_byte trits])))"

definition flex_trits_are_null :: "flex_enc \<Rightarrow> flex_trit list \<Rightarrow> bool" where
  "flex_trits_are_null e flex_trits = list_all (\<lambda>f. f = FLEX_TRIT_NULL_VALUE e) flex_trits"

text \<open>The \<open>uint8_t\<close> shifts that clear the fields after the first \<open>residual\<close> ones.\<close>

definition flex_trit_set_residual :: "int \<Rightarrow> nat \<Rightarrow> int" where
  "flex_trit_set_residual f residual =
     (let shift = 2 * (4 - residual) in (f * 2 ^ shift mod 256) div 2 ^ shift)"

text \<open>\<open>memset (to_flex_trits, FLEX_TRIT_NULL_VALUE, ...)\<close>\<close>

definition flex_clear :: "flex_enc \<Rightarrow> flex_trit list \<Rightarrow> nat \<Rightarrow> flex_trit list" where
  "flex_clear e to_flex_trits to_len =
     blit to_flex_trits 0 (replicate (NUM_FLEX_TRITS_FOR_TRITS e to_len) (FLEX_TRIT_NULL_VALUE e))"

text \<open>
  The unaligned copy with three or five trits per byte: two cells are unpacked into the buffer
  \<open>trits\<close>, which keeps its contents from one iteration to the next. \<open>unpack1\<close> and \<open>pack1\<close> are the
  conversions of one cell. The result is the list of the cells written and the last buffer.
\<close>

primrec slice_loop ::
  "nat \<Rightarrow> (flex_trit \<Rightarrow> trit list) \<Rightarrow> (trit list \<Rightarrow> flex_trit) \<Rightarrow> flex_trit list \<Rightarrow> nat \<Rightarrow> nat \<Rightarrow> nat \<Rightarrow> nat \<Rightarrow> trit list
    \<Rightarrow> flex_trit list \<times> trit list"
where
  "slice_loop w unpack1 pack1 flex_trits end_index offset i 0 trits = ([], trits)"
| "slice_loop w unpack1 pack1 flex_trits end_index offset i (Suc n) trits =
     (let trits = blit trits 0 (unpack1 (flex_trits ! i));
          trits = (if offset \<noteq> 0 \<and> i < end_index then blit trits w (unpack1 (flex_trits ! (i + 1))) else trits);
          (cells, last_trits) = slice_loop w unpack1 pack1 flex_trits end_index offset (i + 1) n trits
      in (pack1 (slice offset w trits) # cells, last_trits))"

definition slice_packed ::
  "nat \<Rightarrow> (flex_trit \<Rightarrow> trit list) \<Rightarrow> (trit list \<Rightarrow> flex_trit) \<Rightarrow> flex_trit list \<Rightarrow> flex_trit list \<Rightarrow> nat \<Rightarrow> nat \<Rightarrow> nat \<Rightarrow> nat
    \<Rightarrow> flex_trit list"
where
  "slice_packed w unpack1 pack1 to_flex_trits flex_trits num_flex start num_trits num_bytes =
     (if start mod w = 0 then
        (let to_flex_trits = blit to_flex_trits 0 (slice (start div w) (num_trits div w) flex_trits)
         in if num_trits mod w \<noteq> 0
            then to_flex_trits[num_trits div w :=
                   pack1 (take (num_trits mod w) (unpack1 (flex_trits ! ((start + num_trits) div w))))]
            else to_flex_trits)
      else
        (let offset = start mod w;
             (cells, trits) = slice_loop w unpack1 pack1 flex_trits (num_flex - 1) offset (start div w) num_bytes
                                (replicate (2 * w) 0);
             to_flex_trits = blit to_flex_trits 0 cells;
             residual = num_trits mod w
         in if residual \<noteq> 0 then to_flex_trits[num_bytes - 1 := pack1 (slice offset residual trits)]
            else to_flex_trits))"

text \<open>The unaligned copy with four trits per byte works on bits; \<open>buffer\<close> is a \<open>uint8_t\<close>.\<close>

primrec slice_loop4 :: "flex_trit list \<Rightarrow> nat \<Rightarrow> nat \<Rightarrow> nat \<Rightarrow> nat \<Rightarrow> int \<Rightarrow> flex_trit list \<times> int" where
  "slice_loop4 flex_trits end_index tshift i 0 buffer = ([], buffer)"
| "slice_loop4 flex_trits end_index tshift i (Suc n) buffer =
     (let rshift = (8 - tshift) mod 8;
          buffer = (flex_trits ! i) mod 256 div 2 ^ tshift;
          buffer = (if rshift \<noteq> 0 \<and> i < end_index
                    then (buffer OR (flex_trits ! (i + 1) * 2 ^ rshift)) mod 256 else buffer);
          (cells, last_buffer) = slice_loop4 flex_trits end_index tshift (i + 1) n buffer
      in (wrap8 buffer # cells, last_buffer))"

definition slice_packed4 :: "flex_trit list \<Rightarrow> flex_trit list \<Rightarrow> nat \<Rightarrow> nat \<Rightarrow> nat \<Rightarrow> nat \<Rightarrow> flex_trit list" where
  "slice_packed4 to_flex_trits flex_trits num_flex start num_trits num_bytes =
     (if start mod 4 = 0 then
        (let to_flex_trits = blit to_flex_trits 0 (slice (start div 4) (num_trits div 4) flex_trits)
         in if num_trits mod 4 \<noteq> 0
            then to_flex_trits[num_trits div 4 :=
                   wrap8 (flex_trit_set_residual (flex_trits ! ((start + num_trits) div 4) mod 256) (num_trits mod 4))]
            else to_flex_trits)
      else
        (let (cells, buffer) = slice_loop4 flex_trits (num_flex - 1) (2 * (start mod 4)) (start div 4) num_bytes 0;
             to_flex_trits = blit to_flex_trits 0 cells;
             residual = num_trits mod 4
         in if residual \<noteq> 0
            then to_flex_trits[num_bytes - 1 := wrap8 (flex_trit_set_residual buffer residual)]
            else to_flex_trits))"

definition flex_trits_slice ::
  "flex_enc \<Rightarrow> flex_trit list \<Rightarrow> nat \<Rightarrow> flex_trit list \<Rightarrow> nat \<Rightarrow> nat \<Rightarrow> nat \<Rightarrow> nat \<times> flex_trit list"
where
  "flex_trits_slice e to_flex_trits to_len flex_trits len start num_trits =
     (if num_trits = 0 \<or> num_trits > to_len \<or> start + num_trits > len then (0, to_flex_trits)
      else let num_bytes = NUM_FLEX_TRITS_FOR_TRITS e num_trits;
               num_flex = NUM_FLEX_TRITS_FOR_TRITS e len;
               to_flex_trits = flex_clear e to_flex_trits to_len
           in (num_bytes,
               case e of
                 ENC1 \<Rightarrow> blit to_flex_trits 0 (slice start num_bytes flex_trits)
               | ENC3 \<Rightarrow> slice_packed 3 (\<lambda>c. trytes_to_trits [c]) trits_to_tryte to_flex_trits flex_trits num_flex
                            start num_trits num_bytes
               | ENC4 \<Rightarrow> slice_packed4 to_flex_trits flex_trits num_flex start num_trits num_bytes
               | ENC5 \<Rightarrow> slice_packed 5 (\<lambda>c. bytes_to_trits [c] 5) trits_to_byte to_flex_trits flex_trits num_flex
                            start num_trits num_bytes))"

text \<open>
  Copying trit by trit: \<open>for (i = from; i < num; i++) set_at(dst, start + i, at(src, src_start + i))\<close>.
\<close>

primrec copy_trits ::
  "flex_enc \<Rightarrow> flex_trit list \<Rightarrow> nat \<Rightarrow> flex_trit list \<Rightarrow> nat \<Rightarrow> nat \<Rightarrow> nat \<Rightarrow> nat \<Rightarrow> flex_trit list"
where
  "copy_trits e dst dst_len src src_len dst_pos src_pos 0 = dst"
| "copy_trits e dst dst_len src src_len dst_pos src_pos (Suc n) =
     copy_trits e (snd (flex_trits_set_at e dst dst_len dst_pos (flex_trits_at e src src_len src_pos)))
       dst_len src src_len (dst_pos + 1) (src_pos + 1) n"

definition flex_trits_insert ::
  "flex_enc \<Rightarrow> flex_trit list \<Rightarrow> nat \<Rightarrow> flex_trit list \<Rightarrow> nat \<Rightarrow> nat \<Rightarrow> nat \<Rightarrow> nat \<times> flex_trit list"
where
  "flex_trits_insert e to_flex_trits to_len flex_trits len start num_trits =
     (if num_trits = 0 \<or> num_trits > len \<or> num_trits > to_len \<or> start \<ge> to_len \<or> start + num_trits > to_len
      then (0, to_flex_trits)
      else if e = ENC1 then (num_trits, blit to_flex_trits start (take num_trits flex_trits))
      else let w = NUM_TRITS_PER_FLEX_TRIT e
           in (num_trits,
               if start mod w = 0
               then (let to_flex_trits = blit to_flex_trits (start div w) (take (num_trits div w) flex_trits);
                         i = (num_trits div w) * w
                     in copy_trits e to_flex_trits to_len flex_trits len (start + i) i (num_trits - i))
               else copy_trits e to_flex_trits to_len flex_trits len start 0 num_trits))"

definition flex_trits_insert_from_pos ::
  "flex_enc \<Rightarrow> flex_trit list \<Rightarrow> nat \<Rightarrow> flex_trit list \<Rightarrow> nat \<Rightarrow> nat \<Rightarrow> nat \<Rightarrow> nat \<Rightarrow> nat \<times> flex_trit list"
where
  "flex_trits_insert_from_pos e dst_trits dst_len src_trits src_len src_start_pos dst_start_pos num_trits =
     (if num_trits = 0 \<or> num_trits > src_len \<or> num_trits > dst_len \<or> src_start_pos \<ge> src_len
         \<or> src_start_pos + num_trits > src_len \<or> dst_start_pos \<ge> dst_len \<or> dst_start_pos + num_trits > dst_len
      then (0, dst_trits)
      else if e = ENC1 then (num_trits, blit dst_trits dst_start_pos (slice src_start_pos num_trits src_trits))
      else let w = NUM_TRITS_PER_FLEX_TRIT e
           in (num_trits,
               if num_trits \<ge> w \<and> src_start_pos mod w = dst_start_pos mod w
               then (let head = (w - src_start_pos mod w) mod w;
                         dst_trits = copy_trits e dst_trits dst_len src_trits src_len dst_start_pos src_start_pos head;
                         body = (num_trits - head) div w;
                         dst_trits = blit dst_trits ((dst_start_pos + head) div w)
                                       (slice ((src_start_pos + head) div w) body src_trits);
                         i = head + body * w
                     in copy_trits e dst_trits dst_len src_trits src_len (dst_start_pos + i) (src_start_pos + i)
                          (num_trits - i))
               else copy_trits e dst_trits dst_len src_trits src_len dst_start_pos src_start_pos num_trits))"

text \<open>The array \<open>trits\<close> is cleared over its \<open>to_len\<close> cells; the C function returns the number of cells read.\<close>

definition flex_trits_to_trits ::
  "flex_enc \<Rightarrow> trit list \<Rightarrow> nat \<Rightarrow> flex_trit list \<Rightarrow> nat \<Rightarrow> nat \<Rightarrow> nat \<times> trit list"
where
  "flex_trits_to_trits e trits to_len flex_trits len num_trits =
     (if num_trits = 0 \<or> num_trits > len \<or> num_trits > to_len then (0, trits)
      else let num_bytes = NUM_FLEX_TRITS_FOR_TRITS e num_trits;
               trits = blit trits 0 (replicate to_len 0)
           in (num_bytes,
               case e of
                 ENC1 \<Rightarrow> blit trits 0 (take num_bytes flex_trits)
               | ENC3 \<Rightarrow> blit trits 0 (trytes_to_trits (take num_bytes flex_trits))
               | ENC4 \<Rightarrow> blit trits 0 (map (flex_trits_at e flex_trits len) [0..<num_trits])
               | ENC5 \<Rightarrow> blit trits 0 (bytes_to_trits (take num_bytes flex_trits) num_trits)))"

primrec set_trits4 :: "flex_trit list \<Rightarrow> nat \<Rightarrow> nat \<Rightarrow> trit list \<Rightarrow> flex_trit list" where
  "set_trits4 to_flex_trits to_len i [] = to_flex_trits"
| "set_trits4 to_flex_trits to_len i (t # ts) =
     set_trits4 (snd (flex_trits_set_at ENC4 to_flex_trits to_len i t)) to_len (i + 1) ts"

definition flex_trits_from_trits ::
  "flex_enc \<Rightarrow> flex_trit list \<Rightarrow> nat \<Rightarrow> trit list \<Rightarrow> nat \<Rightarrow> nat \<Rightarrow> nat \<times> flex_trit list"
where
  "flex_trits_from_trits e to_flex_trits to_len trits len num_trits =
     (if num_trits > len \<or> num_trits > to_len \<or> num_trits = 0 then (0, to_flex_trits)
      else let to_flex_trits = flex_clear e to_flex_trits to_len
           in (num_trits,
               case e of
                 ENC1 \<Rightarrow> blit to_flex_trits 0 (take num_trits trits)
               | ENC3 \<Rightarrow> blit to_flex_trits 0 (trits_to_trytes (take num_trits trits))
               | ENC4 \<Rightarrow> set_trits4 to_flex_trits to_len 0 (take num_trits trits)
               | ENC5 \<Rightarrow> blit to_flex_trits 0 (trits_to_bytes (take num_trits trits))))"

section \<open>Copying a range of packed trits\<close>

context cell_codec
begin

text \<open>
  The buffer after the cells \<open>i\<close> and \<open>i + 1\<close> have been unpacked holds the trits of the array from
  \<open>w * i\<close> on, as far as the array goes.
\<close>

lemma slice_buffer:
  assumes "list_all ok cs" "i < length cs" "length trits = 2 * w" "off + r \<le> 2 * w"
    "w * i + off + r \<le> w * length cs"
    and b: "b = blit trits 0 (unpack1 (cs ! i))"
    and b': "b' = (if i < length cs - 1 then blit b w (unpack1 (cs ! (i + 1))) else b)"
  shows "slice off r b' = slice (w * i + off) r (unpack cs)" "length b' = 2 * w"
proof -
  note ul = unpack_length [OF assms(1)]
  have li: "length (unpack1 (cs ! i)) = w" using assms(1,2) by (auto simp: list_all_length unpack1_length)
  then have lb: "length b = 2 * w" using assms(3) by (simp add: b)
  have bi: "take w b = slice (w * i) w (unpack cs)"
    using li unpack_nth [OF assms(1,2)] by (simp add: b blit_def)
  show "length b' = 2 * w"
    using lb assms(1) by (auto simp: b' list_all_length unpack1_length)
  show "slice off r b' = slice (w * i + off) r (unpack cs)"
  proof (cases "i < length cs - 1")
    case True
    then have i1: "i + 1 < length cs" by simp
    have l1: "length (unpack1 (cs ! (i + 1))) = w" using assms(1) i1 by (auto simp: list_all_length unpack1_length)
    have "w * i + 2 * w \<le> w * length cs" using i1 mult_le_mono2 [of "Suc (Suc i)" "length cs" w] by simp
    moreover have "b' = take w b @ slice (w * (i + 1)) w (unpack cs)"
      using True lb l1 unpack_nth [OF assms(1) i1] by (simp add: b' blit_def)
    ultimately have "b' = slice (w * i) (2 * w) (unpack cs)"
      using ul by (simp add: bi slice_def mult_2 take_add add.commute)
    then show ?thesis using assms(4) by (simp add: slice_slice)
  next
    case False
    with assms(2) have "length cs = Suc i" by simp
    then have "off + r \<le> w" using assms(5) by simp
    then have "slice off r b' = slice off r (take w b)"
      using False by (simp add: b' slice_def drop_take min_def)
    with \<open>off + r \<le> w\<close> show ?thesis by (simp add: bi slice_slice)
  qed
qed

lemma slice_loop_correct:
  assumes "list_all ok cs" "i + n \<le> length cs" "length trits = 2 * w" "0 < off" "off < w"
    "slice_loop w unpack1 pack1 cs (length cs - 1) off i n trits = (cells, last_trits)"
  shows "length cells = n
    \<and> (\<forall>m < n. w * (i + m) + off + w \<le> w * length cs \<longrightarrow> cells ! m = pack1 (slice (w * (i + m) + off) w (unpack cs)))
    \<and> (0 < n \<longrightarrow> (\<forall>r. r \<le> w \<longrightarrow> w * (i + n - 1) + off + r \<le> w * length cs \<longrightarrow>
          slice off r last_trits = slice (w * (i + n - 1) + off) r (unpack cs)))"
  using assms(2,3,6)
proof (induction n arbitrary: i trits cells)
  case 0
  then show ?case by simp
next
  case (Suc n)
  let ?b = "blit trits 0 (unpack1 (cs ! i))"
  let ?b' = "if i < length cs - 1 then blit ?b w (unpack1 (cs ! (i + 1))) else ?b"
  have i: "i < length cs" using Suc.prems(1) by simp
  note sb = slice_buffer [OF assms(1) i Suc.prems(2), where b = ?b and b' = ?b']
  have lb: "length ?b' = 2 * w" using sb(2) [of 0 0] i by simp
  obtain cs' l where rec: "slice_loop w unpack1 pack1 cs (length cs - 1) off (i + 1) n ?b' = (cs', l)" by fastforce
  then have cells: "cells = pack1 (slice off w ?b') # cs'" "last_trits = l"
    using Suc.prems(3) assms(4) by (auto simp: Let_def)
  note ih = Suc.IH [OF _ lb rec [folded cells(2)]]
  have "i + 1 + n \<le> length cs" using Suc.prems(1) by simp
  note ih = ih [OF this]
  have first: "w * i + off + w \<le> w * length cs \<longrightarrow> slice off w ?b' = slice (w * i + off) w (unpack cs)"
    using sb(1) [of off w] assms(5) by auto
  have "cells ! m = pack1 (slice (w * (i + m) + off) w (unpack cs))"
    if "m < Suc n" "w * (i + m) + off + w \<le> w * length cs" for m
    using that first ih cells by (cases m) auto
  moreover have "slice off r last_trits = slice (w * (i + Suc n - 1) + off) r (unpack cs)"
    if "r \<le> w" "w * (i + Suc n - 1) + off + r \<le> w * length cs" for r
  proof (cases n)
    case 0
    with rec have "l = ?b'" by simp
    with 0 that assms(5) sb(1) [of off r] show ?thesis by (auto simp: cells)
  next
    case (Suc k)
    with ih that show ?thesis by (simp add: cells)
  qed
  ultimately show ?case using ih cells by auto
qed

lemma num_cells_bounds:
  assumes "0 < num"
  shows "w * (num_cells w num - 1) < num" "num \<le> w * num_cells w num" "0 < num_cells w num"
proof -
  show g: "num \<le> w * num_cells w num" by (rule num_cells_ge [OF w_pos])
  then show p: "0 < num_cells w num" using assms by (cases "num_cells w num") auto
  have "w * num_cells w num \<le> num + w - 1" by (simp add: num_cells_def)
  moreover have "w * num_cells w num = w * (num_cells w num - 1) + w" using p by (cases "num_cells w num") auto
  ultimately show "w * (num_cells w num - 1) < num" using w_pos by linarith
qed

text \<open>A range that starts at a cell: whole cells are copied, the last one is repacked.\<close>

lemma copy_aligned:
  assumes ok: "list_all ok cs" and le: "w * a + num \<le> w * length cs" and nb: "num_cells w num \<le> length dst"
    and c: "num mod w \<noteq> 0 \<Longrightarrow> c = pack1 (take (num mod w) (unpack1 (cs ! (a + num div w))))"
  shows "(if num mod w \<noteq> 0 then (blit dst 0 (slice a (num div w) cs))[num div w := c]
          else blit dst 0 (slice a (num div w) cs)) = blit dst 0 (pack (slice (w * a) num (unpack cs)))"
proof -
  let ?q = "num div w" and ?r = "num mod w"
  have "slice (w * a) num (unpack cs) = take num (unpack (drop a cs))"
    by (simp add: slice_def unpack_drop [OF ok])
  moreover have "list_all ok (drop a cs)" using ok by (auto simp: list_all_iff dest: in_set_dropD)
  moreover have "num \<le> w * length (drop a cs)" using le by (simp add: right_diff_distrib')
  ultimately have p: "pack (slice (w * a) num (unpack cs)) = take ?q (drop a cs)
      @ (if ?r = 0 then [] else [pack1 (take ?r (unpack1 (drop a cs ! ?q)))])"
    using pack_take by metis
  have "w * (a + ?q) \<le> w * length cs" using le by (simp add: distrib_left) (meson add_le_mono le_refl order_trans times_div_less_eq_dividend)
  then have al: "a + ?q \<le> length cs" using w_pos by simp
  show ?thesis
  proof (cases "?r = 0")
    case True
    then show ?thesis using p by (simp add: slice_def)
  next
    case False
    have "length (pack (slice (w * a) num (unpack cs))) = num_cells w num"
      using le unpack_length [OF ok] by (simp add: pack_cells_length w_pos)
    with p False have q: "num_cells w num = Suc ?q" using al by simp
    have ql: "?q < length dst" using nb q by simp
    have "(blit dst 0 (take ?q (drop a cs)))[?q := c] = blit dst 0 (take ?q (drop a cs) @ [c])" for c
      using ql al by (simp add: blit_def list_update_append upd_conv_take_nth_drop Cons_nth_drop_Suc [symmetric]
          del: Cons_nth_drop_Suc)
    moreover have "drop a cs ! ?q = cs ! (a + ?q)" using al by simp
    ultimately show ?thesis using p False c by (simp add: slice_def)
  qed
qed

text \<open>
  A range that starts inside a cell: cells that are packed from a full window of the array, and a
  last cell that is packed from what is left, are the packed range.
\<close>

lemma copy_unaligned:
  assumes ok: "list_all ok cs" and nz: "0 < num" and le: "start + num \<le> w * length cs"
    and len: "length cells = num_cells w num"
    and win: "\<And>m. m < num_cells w num \<Longrightarrow> start + w * m + w \<le> w * length cs \<Longrightarrow>
        cells ! m = pack1 (slice (start + w * m) w (unpack cs))"
    and c: "num mod w \<noteq> 0 \<Longrightarrow>
        c = pack1 (slice (start + w * (num_cells w num - 1)) (num mod w) (unpack cs))"
  shows "(if num mod w \<noteq> 0 then cells[num_cells w num - 1 := c] else cells)
    = pack (slice start num (unpack cs))" (is "?L = ?P")
proof (rule nth_equalityI)
  let ?n = "num_cells w num"
  note n = num_cells_bounds [OF nz]
  have lP: "length ?P = ?n" using le unpack_length [OF ok] by (simp add: pack_cells_length w_pos)
  have P: "?P ! m = pack1 (slice (start + w * m) (min w (num - w * m)) (unpack cs))" if "m < ?n" for m
    using that le unpack_length [OF ok] by (simp add: pack_nth slice_slice)
  show "length ?L = length ?P" using len lP by simp
  fix m assume "m < length ?L"
  then have m: "m < ?n" using len by (simp split: if_splits)
  show "?L ! m = ?P ! m"
  proof (cases "w * m + w \<le> num")
    case True
    have "num mod w = 0 \<or> m \<noteq> ?n - 1"
    proof (rule disjCI)
      assume "\<not> m \<noteq> ?n - 1"
      then have "w * m + w = w * ?n" using n(3) by (cases ?n) auto
      with True n(2) have "num = w * ?n" by simp
      then show "num mod w = 0" by (metis mod_mult_self1_is_0)
    qed
    moreover have "cells ! m = pack1 (slice (start + w * m) w (unpack cs))"
      using win [OF m] True le by simp
    ultimately show ?thesis using P [OF m] True m len by (auto simp: min_def nth_list_update)
  next
    case False
    then have "w * (?n - 1) < w * Suc m" using n(1) by simp
    then have "?n - 1 < Suc m" by (simp only: mult_less_cancel1)
    then have last: "m = ?n - 1" using m by simp
    have "num = w * m + (num - w * m)" "num - w * m < w" "0 < num - w * m"
      using n(1) False last by auto
    then have r: "num - w * m = num mod w" "num mod w \<noteq> 0"
      by (metis mod_less mod_mult_self4, metis mod_less mod_mult_self4 not_gr_zero)
    then show ?thesis
      using P [OF m] last len n(3) c mod_less_divisor [OF w_pos, of num] by (simp add: min_def)
  qed
qed

lemma slice_packed_correct:
  assumes ok: "list_all ok cs" and nz: "0 < num" and le: "start + num \<le> w * length cs"
    and nb: "num_cells w num \<le> length dst"
  shows "slice_packed w unpack1 pack1 dst cs (length cs) start num (num_cells w num) =
    blit dst 0 (pack (slice start num (unpack cs)))"
proof (cases "start mod w = 0")
  case True
  then obtain a where a: "start = w * a" by auto
  have "(start + num) div w = a + num div w" using w_pos by (simp add: a)
  then show ?thesis
    using copy_aligned [OF ok le [unfolded a] nb refl] w_pos
    by (cases "num mod w = 0") (simp_all add: slice_packed_def Let_def a)
next
  case False
  let ?off = "start mod w" and ?i = "start div w" and ?n = "num_cells w num"
  have off: "0 < ?off" "?off < w" using False w_pos by auto
  have st: "w * ?i + ?off = start" by simp
  note n = num_cells_bounds [OF nz]
  obtain cells l where loop: "slice_loop w unpack1 pack1 cs (length cs - 1) ?off ?i ?n (replicate (2 * w) 0) = (cells, l)"
    by fastforce
  have "w * (?i + (?n - 1)) < w * length cs" using n(1) le st by (simp only: distrib_left)
  then have "?i + ?n \<le> length cs" using n(3) w_pos by simp
  note sl = slice_loop_correct [OF ok this length_replicate off loop]
  have pos: "w * (?i + m) + ?off = start + w * m" for m using st by (simp only: distrib_left)
  have pos': "w * (?i + ?n - 1) + ?off = start + w * (?n - 1)" using n(3) pos [of "?n - 1"] by simp
  have "num = w * (?n - 1) + num mod w" if "num mod w \<noteq> 0"
  proof -
    have "w * ?n = w * (?n - 1) + w" using n(3) by (cases ?n) auto
    moreover have "num \<noteq> w * ?n" using that by (metis mod_mult_self1_is_0)
    ultimately have "num - w * (?n - 1) < w" using n(1,2) by linarith
    then show ?thesis using n(1) by (metis add_diff_inverse_nat less_imp_le mod_less mod_mult_self4 not_less)
  qed
  then have "slice ?off (num mod w) l = slice (start + w * (?n - 1)) (num mod w) (unpack cs)" if "num mod w \<noteq> 0"
    using that sl n(3) le mod_less_divisor [OF w_pos, of num] unfolding pos' by (metis add.assoc less_imp_le)
  then have eq: "(if num mod w \<noteq> 0 then cells[?n - 1 := pack1 (slice ?off (num mod w) l)] else cells)
      = pack (slice start num (unpack cs))"
    using sl by (intro copy_unaligned [OF ok nz le]) (auto simp: pos)
  have ln: "?n - 1 < length cells" using sl n(3) by simp
  show ?thesis
    using False loop eq blit_0_update [OF ln] by (cases "num mod w = 0") (simp_all add: slice_packed_def Let_def)
qed

end

section \<open>The packings\<close>

definition flex_unpack1 :: "flex_enc \<Rightarrow> flex_trit \<Rightarrow> trit list" where
  "flex_unpack1 e c =
     (case e of ENC1 \<Rightarrow> [c] | ENC3 \<Rightarrow> trytes_to_trits [c]
      | ENC4 \<Rightarrow> map (\<lambda>k. wrap8 (c * 2 ^ (6 - 2 * k)) div 2 ^ 6) [0, 1, 2, 3]
      | ENC5 \<Rightarrow> bytes_to_trits [c] 5)"

definition pack4 :: "trit list \<Rightarrow> int" where
  "pack4 ts = foldr (\<lambda>t a. t mod 4 + 4 * a) ts 0"

definition flex_pack1 :: "flex_enc \<Rightarrow> trit list \<Rightarrow> flex_trit" where
  "flex_pack1 e ts =
     (case e of ENC1 \<Rightarrow> bt_value ts | ENC3 \<Rightarrow> trits_to_tryte ts | ENC4 \<Rightarrow> wrap8 (pack4 ts) | ENC5 \<Rightarrow> trits_to_byte ts)"

text \<open>The bytes that are the packing of some trits.\<close>

definition flex_cell_ok :: "flex_enc \<Rightarrow> flex_trit \<Rightarrow> bool" where
  "flex_cell_ok e c =
     (case e of ENC1 \<Rightarrow> is_trit c | ENC3 \<Rightarrow> valid_tryte c
      | ENC4 \<Rightarrow> - 128 \<le> c \<and> c \<le> 127 \<and> list_all (\<lambda>k. c div 4 ^ k mod 4 \<noteq> 2) [0, 1, 2, 3]
      | ENC5 \<Rightarrow> \<bar>c\<bar> \<le> 121)"

text \<open>With four trits per byte there are 121 groups to check.\<close>

definition trit_groups :: "nat \<Rightarrow> trit list list" where
  "trit_groups n = concat (map (\<lambda>k. List.n_lists k [- 1, 0, 1]) [0..<Suc n])"

lemma trit_groups_iff: "ts \<in> set (trit_groups n) \<longleftrightarrow> valid_trits ts \<and> length ts \<le> n"
  by (auto simp: trit_groups_def set_n_lists list_all_iff is_trit_cases simp del: upt_Suc)

lemma enc4_pack_table:
  "list_all (\<lambda>ts. flex_cell_ok ENC4 (flex_pack1 ENC4 ts)
     \<and> flex_unpack1 ENC4 (flex_pack1 ENC4 ts) = ts @ replicate (4 - length ts) 0) (trit_groups 4)"
  by code_simp

lemma enc4_unpack_table:
  "list_all (\<lambda>c. flex_cell_ok ENC4 c \<longrightarrow>
     valid_trits (flex_unpack1 ENC4 c) \<and> flex_pack1 ENC4 (flex_unpack1 ENC4 c) = c) [- 128..127]"
  by code_simp

lemma enc4_pack:
  assumes "valid_trits ts" "length ts \<le> 4"
  shows "flex_cell_ok ENC4 (flex_pack1 ENC4 ts)"
    "flex_unpack1 ENC4 (flex_pack1 ENC4 ts) = ts @ replicate (4 - length ts) 0"
  using enc4_pack_table assms trit_groups_iff [of ts 4] by (auto simp: list_all_iff)

lemma enc4_unpack:
  assumes "flex_cell_ok ENC4 c"
  shows "valid_trits (flex_unpack1 ENC4 c)" "flex_pack1 ENC4 (flex_unpack1 ENC4 c) = c"
proof -
  have "- 128 \<le> c" "c \<le> 127" using assms by (simp_all add: flex_cell_ok_def)
  from list_all_uptoD [OF enc4_unpack_table this] assms
  show "valid_trits (flex_unpack1 ENC4 c)" "flex_pack1 ENC4 (flex_unpack1 ENC4 c) = c" by simp_all
qed

lemma enc4_unpack_length: "length (flex_unpack1 ENC4 c) = 4"
  by (simp add: flex_unpack1_def)

lemma enc3_unpack: "valid_tryte c \<Longrightarrow> trytes_to_trits [c] = bt_digits 3 (tryte_value c)"
  by (simp add: lut_digits del: bt_digits.simps)

lemma enc3_pack_digits: "valid_tryte c \<Longrightarrow> trits_to_tryte (bt_digits 3 (tryte_value c)) = c"
  using trits_trytes_round_trip [of "[c]"] length_3_conv [of "bt_digits 3 (tryte_value c)"]
  by (auto simp: lut_digits simp del: bt_digits.simps)

lemma enc5_unpack: "bytes_to_trits [c] 5 = byte_to_trits c 5"
  by simp

lemma enc1_pack:
  assumes "valid_trits ts" "length ts \<le> Suc 0"
  shows "flex_cell_ok ENC1 (flex_pack1 ENC1 ts)"
    "flex_unpack1 ENC1 (flex_pack1 ENC1 ts) = ts @ replicate (Suc 0 - length ts) 0"
  using assms by (cases ts; simp add: flex_unpack1_def flex_pack1_def flex_cell_ok_def)+

lemma enc3_pack:
  assumes "valid_trits ts" "length ts \<le> 3"
  shows "flex_cell_ok ENC3 (flex_pack1 ENC3 ts)"
    "flex_unpack1 ENC3 (flex_pack1 ENC3 ts) = ts @ replicate (3 - length ts) 0"
  using bt_value_group_bound [OF assms] bt_digits_pad [OF assms]
  by (simp_all add: flex_unpack1_def flex_pack1_def flex_cell_ok_def trits_to_tryte_value enc3_unpack tryte_of_valid
      tryte_value_of del: trytes_to_trits.simps bt_digits.simps)

lemma enc5_pack:
  assumes "valid_trits ts" "length ts \<le> 5"
  shows "flex_cell_ok ENC5 (flex_pack1 ENC5 ts)"
    "flex_unpack1 ENC5 (flex_pack1 ENC5 ts) = ts @ replicate (5 - length ts) 0"
  using assms(2) byte_bound [OF assms] bt_digits_pad [OF assms]
  by (simp_all add: flex_unpack1_def flex_pack1_def flex_cell_ok_def trits_to_byte_value [OF assms] enc5_unpack
      byte_to_trits_digits del: bytes_to_trits.simps bt_digits.simps)

lemmas flex_codec_defs = flex_unpack1_def flex_pack1_def flex_cell_ok_def NUM_TRITS_PER_FLEX_TRIT_def

interpretation flex: cell_codec "NUM_TRITS_PER_FLEX_TRIT e" "flex_unpack1 e" "flex_pack1 e" "flex_cell_ok e" for e
proof
  show "0 < NUM_TRITS_PER_FLEX_TRIT e"
    by (cases e) (simp_all add: NUM_TRITS_PER_FLEX_TRIT_def)
  fix c
  assume ok: "flex_cell_ok e c"
  show "length (flex_unpack1 e c) = NUM_TRITS_PER_FLEX_TRIT e"
    using ok by (cases e) (simp_all add: flex_codec_defs enc3_unpack byte_to_trits_length del: bytes_to_trits.simps
      trytes_to_trits.simps add: enc5_unpack)
  show "valid_trits (flex_unpack1 e c)"
    using ok enc4_unpack(1) [of c]
    by (cases e) (simp_all add: flex_codec_defs enc3_unpack byte_to_trits_valid enc5_unpack
      del: bytes_to_trits.simps trytes_to_trits.simps bt_digits.simps)
  show "flex_pack1 e (flex_unpack1 e c) = c"
    using ok enc4_unpack(2) [of c]
    by (cases e) (simp_all add: flex_codec_defs enc3_unpack enc3_pack_digits enc5_unpack byte_to_trits_digits
      trits_to_byte_value bt_value_digits
      del: bytes_to_trits.simps trytes_to_trits.simps bt_digits.simps)
next
  fix ts
  assume "valid_trits ts" "length ts \<le> NUM_TRITS_PER_FLEX_TRIT e"
  then show "flex_cell_ok e (flex_pack1 e ts)"
    "flex_unpack1 e (flex_pack1 e ts) = ts @ replicate (NUM_TRITS_PER_FLEX_TRIT e - length ts) 0"
    by (auto simp: NUM_TRITS_PER_FLEX_TRIT_def enc1_pack enc3_pack enc4_pack enc5_pack split: flex_enc.splits)
qed

section \<open>Reading and writing one trit\<close>

text \<open>
  The array a packed buffer stands for, and the buffers that hold an array of \<open>len\<close> trits: as many cells
  as the macro \<open>NUM_FLEX_TRITS_FOR_TRITS\<close> says, each of them the packing of some trits.
\<close>

definition flex_abs :: "flex_enc \<Rightarrow> flex_trit list \<Rightarrow> trit list" where
  "flex_abs e cs = unpack_cells (flex_unpack1 e) cs"

definition flex_ok :: "flex_enc \<Rightarrow> flex_trit list \<Rightarrow> nat \<Rightarrow> bool" where
  "flex_ok e cs len \<longleftrightarrow> list_all (flex_cell_ok e) cs \<and> length cs = NUM_FLEX_TRITS_FOR_TRITS e len"

lemma NUM_FLEX_TRITS_cells: "NUM_FLEX_TRITS_FOR_TRITS e n = num_cells (NUM_TRITS_PER_FLEX_TRIT e) n"
  by (cases e) (simp_all add: NUM_FLEX_TRITS_FOR_TRITS_def NUM_TRITS_PER_FLEX_TRIT_def num_cells_def)

lemma flex_abs_length: "flex_ok e cs len \<Longrightarrow> length (flex_abs e cs) = NUM_TRITS_PER_FLEX_TRIT e * NUM_FLEX_TRITS_FOR_TRITS e len"
  by (simp add: flex_abs_def flex_ok_def flex.unpack_length)

lemma flex_abs_length_ge: "flex_ok e cs len \<Longrightarrow> len \<le> length (flex_abs e cs)"
  by (simp add: flex_abs_length NUM_FLEX_TRITS_cells num_cells_ge flex.w_pos)

lemma flex_abs_valid: "flex_ok e cs len \<Longrightarrow> valid_trits (flex_abs e cs)"
  by (simp add: flex_abs_def flex_ok_def flex.unpack_valid)

lemma flex_abs_nth:
  "flex_ok e cs len \<Longrightarrow> i < len \<Longrightarrow>
    flex_abs e cs ! i = flex_unpack1 e (cs ! (i div NUM_TRITS_PER_FLEX_TRIT e)) ! (i mod NUM_TRITS_PER_FLEX_TRIT e)"
  using flex_abs_length_ge [of e cs len] flex_abs_length [of e cs len]
  unfolding flex_abs_def flex_ok_def by (intro flex.unpack_nth_nth) auto

lemma flex_ok_index: "flex_ok e cs len \<Longrightarrow> i < len \<Longrightarrow> i div NUM_TRITS_PER_FLEX_TRIT e < length cs"
  using flex_abs_length_ge [of e cs len] flex_abs_length [of e cs len] flex.w_pos [of e]
  by (simp add: flex_ok_def less_mult_imp_div_less mult.commute)

lemma flex_ok_nth: "flex_ok e cs len \<Longrightarrow> i < len \<Longrightarrow> flex_cell_ok e (cs ! (i div NUM_TRITS_PER_FLEX_TRIT e))"
  using flex_ok_index [of e cs len i] by (simp add: flex_ok_def list_all_length)

lemma enc4_set_table:
  "list_all (\<lambda>ts. list_all (\<lambda>k. list_all (\<lambda>t. let c = flex_pack1 ENC4 ts in
     wrap8 ((c AND ((NOT (3 * 2 ^ (2 * k))) AND 255)) OR wrap8 ((t AND 3) * 2 ^ (2 * k))) = flex_pack1 ENC4 (ts[k := t]))
     [- 1, 0, 1]) [0..<4]) (List.n_lists 4 [- 1, 0, 1])"
  by code_simp

lemma enc4_set:
  assumes "valid_trits ts" "length ts = 4" "k < 4" "is_trit t" "c = flex_pack1 ENC4 ts"
  shows "wrap8 ((c AND ((NOT (3 * 2 ^ (2 * k))) AND 255)) OR wrap8 ((t AND 3) * 2 ^ (2 * k))) = flex_pack1 ENC4 (ts[k := t])"
proof -
  have "ts \<in> set (List.n_lists 4 [- 1, 0, 1])" "k \<in> set [0..<4]" "t \<in> set [- 1, 0, 1]"
    using assms by (auto simp: set_n_lists list_all_iff is_trit_cases)
  with enc4_set_table assms(5) show ?thesis unfolding list_all_iff Let_def by blast
qed

lemma flex_trits_at_abs:
  "flex_ok e cs len \<Longrightarrow> flex_trits_at e cs len i = (if i < len then flex_abs e cs ! i else 0)"
proof (cases "i < len")
  case True
  assume ok: "flex_ok e cs len"
  note c = flex_ok_nth [OF ok True]
  note k = flex_ok_index [OF ok True]
  show ?thesis
  proof (cases e)
    case ENC3
    have "valid_trytes cs" using ok ENC3 by (auto simp: flex_ok_def flex_cell_ok_def list_all_iff)
    moreover have "i < 3 * length cs" using k ENC3 by (simp add: NUM_TRITS_PER_FLEX_TRIT_def)
    ultimately have "get_trit_at cs (length cs) i = trytes_to_trits cs ! i" by (simp add: get_trit_at_correct)
    moreover have "flex_abs e cs = trytes_to_trits cs"
      using ENC3 by (induction cs) (simp_all add: flex_abs_def unpack_cells_def flex_unpack1_def)
    ultimately show ?thesis using ok True ENC3 by (simp add: flex_trits_at_def flex_ok_def)
  next
    case ENC4
    have "i mod 4 = 0 \<or> i mod 4 = 1 \<or> i mod 4 = 2 \<or> i mod 4 = 3" by linarith
    with ENC4 ok True show ?thesis
      by (auto simp: flex_abs_nth flex_trits_at_def flex_unpack1_def NUM_TRITS_PER_FLEX_TRIT_def)
  qed (use ok True in \<open>simp_all add: flex_abs_nth flex_trits_at_def flex_unpack1_def NUM_TRITS_PER_FLEX_TRIT_def\<close>)
qed (simp add: flex_trits_at_def)

lemma flex_trits_set_at_cell:
  assumes ok: "flex_ok e cs len" and i: "i < len" and t: "is_trit t"
  defines "w \<equiv> NUM_TRITS_PER_FLEX_TRIT e"
  shows "flex_trits_set_at e cs len i t =
    (1, cs[i div w := flex_pack1 e ((flex_unpack1 e (cs ! (i div w)))[i mod w := t])])"
proof -
  note c = flex_ok_nth [OF ok i]
  note k = flex_ok_index [OF ok i]
  show ?thesis
  proof (cases e)
    case ENC3
    then show ?thesis
      using ok i t c k set_trit_at_eq [of cs i "length cs" t]
      by (simp add: flex_trits_set_at_def flex_ok_def flex_codec_defs w_def trits_to_tryte_value enc3_unpack
          del: trytes_to_trits.simps bt_digits.simps)
  next
    case ENC4
    then show ?thesis
      using i enc4_set [of "flex_unpack1 e (cs ! (i div w))" "i mod 4" t "cs ! (i div w)"] c t
      by (simp add: flex_trits_set_at_def w_def Let_def enc4_unpack enc4_unpack_length NUM_TRITS_PER_FLEX_TRIT_def)
  qed (use i in \<open>simp_all add: flex_trits_set_at_def flex_codec_defs w_def enc5_unpack Let_def\<close>)
qed

lemma cell_update:
  "k < n \<Longrightarrow> j < w \<Longrightarrow> length xs = w * n \<Longrightarrow> blit xs (w * k) ((slice (w * k) w xs)[j := t]) = xs[w * k + j := t]"
proof (rule nth_equalityI)
  assume a: "k < n" "j < w" "length xs = w * n"
  have b: "w * k + w \<le> w * n" using a(1) mult_le_mono2 [of "Suc k" n w] by simp
  then show "length (blit xs (w * k) ((slice (w * k) w xs)[j := t])) = length (xs[w * k + j := t])" using a by simp
  fix i
  show "blit xs (w * k) ((slice (w * k) w xs)[j := t]) ! i = xs[w * k + j := t] ! i"
    using a b by (cases "i < w * k"; cases "i < w * k + w")
      (auto simp: blit_def nth_append nth_list_update nth_slice)
qed

lemma flex_trits_set_at_abs:
  assumes ok: "flex_ok e cs len" and i: "i < len" and t: "is_trit t"
  shows "\<exists>cs'. flex_trits_set_at e cs len i t = (1, cs') \<and> flex_ok e cs' len \<and> flex_abs e cs' = (flex_abs e cs)[i := t]"
proof -
  let ?w = "NUM_TRITS_PER_FLEX_TRIT e"
  let ?g = "(flex_unpack1 e (cs ! (i div ?w)))[i mod ?w := t]"
  have ok': "list_all (flex_cell_ok e) cs" and l: "length cs = NUM_FLEX_TRITS_FOR_TRITS e len"
    using ok by (simp_all add: flex_ok_def)
  note c = flex_ok_nth [OF ok i]
  note k = flex_ok_index [OF ok i]
  have lg: "length ?g = ?w" using c by (simp add: flex.unpack1_length)
  have vg: "valid_trits ?g"
    using flex.unpack1_valid [OF c] t set_update_subset_insert [of "flex_unpack1 e (cs ! (i div ?w))" "i mod ?w" t]
    by (fastforce simp: list_all_iff)
  have okp: "flex_cell_ok e (flex_pack1 e ?g)" using vg lg by (intro flex.pack1_ok) auto
  have "flex_ok e (cs[i div ?w := flex_pack1 e ?g]) len"
    using ok' l okp set_update_subset_insert [of cs "i div ?w" "flex_pack1 e ?g"]
    by (fastforce simp: flex_ok_def list_all_iff)
  moreover have "flex_abs e (cs[i div ?w := flex_pack1 e ?g]) = (flex_abs e cs)[?w * (i div ?w) + i mod ?w := t]"
    using flex.unpack_update [OF ok' k okp] flex.unpack1_pack1 [OF vg] flex.unpack_nth [OF ok' k] lg flex.w_pos [of e]
      cell_update [OF k, of "i mod ?w" ?w "flex_abs e cs" t] flex.unpack_length [OF ok']
    by (simp add: flex_abs_def)
  ultimately show ?thesis using flex_trits_set_at_cell [OF ok i t] by simp
qed

section \<open>Copying ranges\<close>

text \<open>With four trits per byte the bits are the base-four digits of the trits modulo four.\<close>

lemma pack4_append: "pack4 (xs @ ys) = pack4 xs + 4 ^ length xs * pack4 ys"
  by (induction xs) (simp_all add: pack4_def)

lemma pack4_bounds: "0 \<le> pack4 ts" "pack4 ts < 4 ^ length ts"
proof (induction ts)
  case (Cons t ts)
  have "0 \<le> t mod 4" "t mod 4 \<le> 3" by simp_all
  then show "0 \<le> pack4 (t # ts)" "pack4 (t # ts) < 4 ^ length (t # ts)"
    using Cons by (simp_all add: pack4_def)
qed (simp_all add: pack4_def)

lemma pack4_take: "k \<le> length ts \<Longrightarrow> pack4 ts mod 4 ^ k = pack4 (take k ts)"
  and pack4_drop: "k \<le> length ts \<Longrightarrow> pack4 ts div 4 ^ k = pack4 (drop k ts)"
proof -
  assume k: "k \<le> length ts"
  have p: "pack4 ts = pack4 (take k ts) + 4 ^ k * pack4 (drop k ts)"
    using pack4_append [of "take k ts" "drop k ts"] k by (simp add: min_absorb2)
  have b: "0 \<le> pack4 (take k ts)" "pack4 (take k ts) < 4 ^ k"
    using pack4_bounds [of "take k ts"] k by (simp_all add: min_absorb2)
  show "pack4 ts mod 4 ^ k = pack4 (take k ts)" "pack4 ts div 4 ^ k = pack4 (drop k ts)"
    unfolding p using b by simp_all
qed

lemma enc4_mod: "flex_cell_ok ENC4 c \<Longrightarrow> c mod 256 = pack4 (flex_unpack1 ENC4 c)"
proof -
  assume "flex_cell_ok ENC4 c"
  then have "c = wrap8 (pack4 (flex_unpack1 ENC4 c))" using enc4_unpack(2) [of c] by (simp add: flex_pack1_def)
  then have "c mod 2 ^ 8 = pack4 (flex_unpack1 ENC4 c) mod 2 ^ 8" by (metis wrap_s_mod)
  also have "\<dots> = pack4 (flex_unpack1 ENC4 c)"
    using pack4_bounds [of "flex_unpack1 ENC4 c"] by (simp add: enc4_unpack_length)
  finally show ?thesis by simp
qed

lemma shift_slot: "off < 4 \<Longrightarrow> 0 < off \<Longrightarrow> a < 4 ^ (4 - off) \<Longrightarrow> 0 \<le> a \<Longrightarrow>
    (a OR (c * 2 ^ (8 - 2 * off))) mod 256 = a + 4 ^ (4 - off) * (c mod 4 ^ off)" for a c :: int
proof -
  assume off: "off < 4" "0 < off" and a: "a < 4 ^ (4 - off)" "0 \<le> a"
  have e: "(2::int) ^ (8 - 2 * off) = 4 ^ (4 - off)"
    using power_mult [of "2::int" 2 "4 - off"] by (simp add: right_diff_distrib')
  have f: "(256::int) = 4 ^ (4 - off) * 4 ^ off" using off by (simp add: power_add [symmetric])
  have "(a + c * 4 ^ (4 - off)) mod 256 = a + 4 ^ (4 - off) * (c mod 4 ^ off)"
    unfolding f using a by (simp add: mult.commute [of c] zmod_zmult2_eq)
  with or_shift [of a "8 - 2 * off" c] a show ?thesis by (simp add: e)
qed

text \<open>The byte that is assembled from the cells \<open>i\<close> and \<open>i + 1\<close>.\<close>

lemma slice_buffer4:
  assumes ok: "list_all (flex_cell_ok ENC4) cs" and i: "i < length cs" and off: "0 < off" "off < 4"
    and b: "b = cs ! i mod 256 div 2 ^ (2 * off)"
  shows "(if i < length cs - 1 then (b OR (cs ! (i + 1) * 2 ^ ((8 - 2 * off) mod 8))) mod 256 else b)
    = pack4 (slice (4 * i + off) 4 (unpack_cells (flex_unpack1 ENC4) cs))"
proof -
  let ?u = "\<lambda>k. flex_unpack1 ENC4 (cs ! k)"
  let ?U = "unpack_cells (flex_unpack1 ENC4) cs"
  have w: "NUM_TRITS_PER_FLEX_TRIT ENC4 = 4" by (simp add: NUM_TRITS_PER_FLEX_TRIT_def)
  have U: "?u k = take 4 (drop (4 * k) ?U)" if "k < length cs" for k
    using flex.unpack_nth [OF ok that] by (simp add: w slice_def)
  have l: "length ?U = 4 * length cs" using flex.unpack_length [OF ok] by (simp add: w)
  have c: "cs ! k mod 256 = pack4 (?u k)" if "k < length cs" for k
    using ok that by (intro enc4_mod) (simp add: list_all_length)
  have p: "(2::int) ^ (2 * off) = 4 ^ off" by (simp add: power_mult)
  have bd: "b = pack4 (drop off (?u i))"
    using off by (simp add: b c [OF i] p pack4_drop enc4_unpack_length)
  have bb: "0 \<le> b" "b < 4 ^ (4 - off)"
    using pack4_bounds [of "drop off (?u i)"] by (simp_all add: bd enc4_unpack_length)
  show ?thesis
  proof (cases "i < length cs - 1")
    case True
    then have i1: "i + 1 < length cs" by simp
    have "cs ! (i + 1) mod 4 ^ off = cs ! (i + 1) mod 256 mod 4 ^ off"
    proof -
      have "(4::int) ^ off dvd 4 ^ 4" using off by (intro le_imp_power_dvd) simp
      then show ?thesis by (simp add: mod_mod_cancel)
    qed
    also have "\<dots> = pack4 (take off (?u (i + 1)))"
      unfolding c [OF i1] using off by (simp add: pack4_take enc4_unpack_length)
    finally have n: "cs ! (i + 1) mod 4 ^ off = pack4 (take off (?u (i + 1)))" .
    have "slice (4 * i + off) 4 ?U = drop off (?u i) @ take off (?u (i + 1))"
    proof -
      have "slice (4 * i + off) 4 ?U = take (4 - off) (drop (4 * i + off) ?U) @ take off (drop (4 * i + 4) ?U)"
        using off take_add [of "4 - off" off "drop (4 * i + off) ?U"] by (simp add: slice_def add.commute)
      then show ?thesis using off i1 by (simp add: U drop_take min_def add.commute)
    qed
    with True off bb shift_slot [of off b "cs ! (i + 1)"] show ?thesis
      by (simp add: pack4_append enc4_unpack_length n [simplified] bd)
  next
    case False
    then have "length cs = Suc i" using i by simp
    then have "slice (4 * i + off) 4 ?U = drop off (?u i)"
      using off l by (simp add: slice_def U drop_take min_def add.commute)
    with False show ?thesis by (simp add: bd)
  qed
qed

lemma slice_loop4_correct:
  assumes ok: "list_all (flex_cell_ok ENC4) cs" and "i + n \<le> length cs" and off: "0 < off" "off < 4"
  shows "slice_loop4 cs (length cs - 1) (2 * off) i n buf =
    (map (\<lambda>m. wrap8 (pack4 (slice (4 * (i + m) + off) 4 (flex_abs ENC4 cs)))) [0..<n],
     if n = 0 then buf else pack4 (slice (4 * (i + n - 1) + off) 4 (flex_abs ENC4 cs)))"
  using assms(2)
proof (induction n arbitrary: i buf)
  case (Suc n)
  have "i < length cs" using Suc.prems by simp
  note sb = slice_buffer4 [OF ok this off refl, folded flex_abs_def]
  have "(8 - 2 * off) mod 8 \<noteq> 0" using off by auto
  with sb have step: "slice_loop4 cs (length cs - 1) (2 * off) i (Suc n) buf =
    (let B = pack4 (slice (4 * i + off) 4 (flex_abs ENC4 cs));
         (cells, l) = slice_loop4 cs (length cs - 1) (2 * off) (i + 1) n B in (wrap8 B # cells, l))"
    by (simp only: slice_loop4.simps Let_def simp_thms)
  have "i + 1 + n \<le> length cs" using Suc.prems by simp
  from step Suc.IH [OF this] show ?case
    by (simp add: Let_def map_upt_Suc algebra_simps del: slice_loop4.simps upt_Suc)
qed simp

lemma set_residual_mod: "0 < r \<Longrightarrow> r < 4 \<Longrightarrow> flex_trit_set_residual f r = f mod 4 ^ r"
proof -
  assume r: "0 < r" "r < 4"
  then have "r = 1 \<or> r = 2 \<or> r = 3" by linarith
  then have "(256::int) = 4 ^ r * 2 ^ (2 * (4 - r))" by auto
  then show ?thesis by (simp only: flex_trit_set_residual_def Let_def mod_mult_mult2) simp
qed

lemma residual_pack:
  assumes "0 < r" "r < 4" "r \<le> length ts"
  shows "wrap8 (flex_trit_set_residual (pack4 ts) r) = flex_pack1 ENC4 (take r ts)"
  using assms by (simp add: set_residual_mod pack4_take flex_pack1_def)

lemma slice_packed4_correct:
  assumes ok: "list_all (flex_cell_ok ENC4) cs" and nz: "0 < num" and le: "start + num \<le> 4 * length cs"
    and nb: "num_cells 4 num \<le> length dst"
  shows "slice_packed4 dst cs (length cs) start num (num_cells 4 num) =
    blit dst 0 (pack_cells 4 (flex_pack1 ENC4) (slice start num (flex_abs ENC4 cs)))"
proof -
  have w: "NUM_TRITS_PER_FLEX_TRIT ENC4 = 4" by (simp add: NUM_TRITS_PER_FLEX_TRIT_def)
  note aligned = flex.copy_aligned [of ENC4 cs, unfolded w, folded flex_abs_def, OF ok]
  note unaligned = flex.copy_unaligned [of ENC4 cs, unfolded w, folded flex_abs_def, OF ok nz le]
  note n = flex.num_cells_bounds [of num ENC4, unfolded w, OF nz]
  have l: "length (flex_abs ENC4 cs) = 4 * length cs"
    using flex.unpack_length [OF ok] by (simp add: w flex_abs_def)
  let ?r = "num mod 4"
  have r: "?r < 4" by simp
  show ?thesis
  proof (cases "start mod 4 = 0")
    case True
    then obtain a where a: "start = 4 * a" by auto
    have q: "(start + num) div 4 = a + num div 4" by (simp add: a)
    have "cs ! (a + num div 4) mod 256 = pack4 (flex_unpack1 ENC4 (cs ! (a + num div 4)))" if "?r \<noteq> 0"
    proof (rule enc4_mod)
      have "a + num div 4 < length cs" using le that unfolding a by presburger
      then show "flex_cell_ok ENC4 (cs ! (a + num div 4))" using ok by (simp add: list_all_length)
    qed
    then have "wrap8 (flex_trit_set_residual (cs ! (a + num div 4) mod 256) ?r)
        = flex_pack1 ENC4 (take ?r (flex_unpack1 ENC4 (cs ! (a + num div 4))))" if "?r \<noteq> 0"
      using that by (simp add: residual_pack enc4_unpack_length)
    from aligned [OF le [unfolded a] nb this] show ?thesis
      by (cases "?r = 0") (simp_all add: slice_packed4_def Let_def q a)
  next
    case False
    let ?off = "start mod 4" and ?i = "start div 4" and ?n = "num_cells 4 num"
    let ?S = "\<lambda>m. slice (start + 4 * m) 4 (flex_abs ENC4 cs)"
    let ?cells = "map (\<lambda>m. flex_pack1 ENC4 (?S m)) [0..<?n]"
    have off: "0 < ?off" "?off < 4" using False by auto
    have st: "4 * (?i + m) + ?off = start + 4 * m" "4 * (?i + ?n - 1) + ?off = start + 4 * (?n - 1)" for m
    proof -
      have s: "4 * ?i + ?off = start" by simp
      then show a: "4 * (?i + m) + ?off = start + 4 * m" for m by (simp only: distrib_left)
      have "?i + ?n - 1 = ?i + (?n - 1)" using n(3) by simp
      then show "4 * (?i + ?n - 1) + ?off = start + 4 * (?n - 1)" by (simp only: a)
    qed
    have "4 * (?i + (?n - 1)) < 4 * length cs"
      by (rule le_less_trans [OF _ less_le_trans [OF _ le]], rule le_add1 [of _ ?off], simp only: st n(1) add_less_cancel_left)
    then have "?i + ?n \<le> length cs" using n(3) by simp
    note loop = slice_loop4_correct [OF ok this off, of 0, unfolded st]
    have nr: "?r \<noteq> 0 \<Longrightarrow> num = 4 * (?n - 1) + ?r" by (simp add: num_cells_def) presburger
    have "wrap8 (flex_trit_set_residual (pack4 (?S (?n - 1))) ?r)
        = flex_pack1 ENC4 (slice (start + 4 * (?n - 1)) ?r (flex_abs ENC4 cs))" if "?r \<noteq> 0"
    proof -
      have "?r \<le> length (?S (?n - 1))" using nr [OF that] le l by (simp add: slice_def)
      then have "wrap8 (flex_trit_set_residual (pack4 (?S (?n - 1))) ?r) = flex_pack1 ENC4 (take ?r (?S (?n - 1)))"
        using that by (intro residual_pack) auto
      then show ?thesis by (simp add: slice_def min_def)
    qed
    from unaligned [OF _ _ this, of ?cells]
    have "(if ?r \<noteq> 0 then ?cells[?n - 1 := wrap8 (flex_trit_set_residual (pack4 (?S (?n - 1))) ?r)] else ?cells)
        = pack_cells 4 (flex_pack1 ENC4) (slice start num (flex_abs ENC4 cs))" by simp
    moreover have "?n - 1 < length ?cells" using n(3) by simp
    ultimately show ?thesis
      using False loop n(3) blit_0_update [of "?n - 1" ?cells dst]
      by (cases "?r = 0") (simp_all add: slice_packed4_def Let_def flex_pack1_def)
  qed
qed

lemma slice_cells:
  assumes ok: "flex_ok e cs len" and "0 < num" "num \<le> to_len" "start + num \<le> len"
    and dst: "length dst = NUM_FLEX_TRITS_FOR_TRITS e to_len"
  shows "flex_trits_slice e dst to_len cs len start num = (NUM_FLEX_TRITS_FOR_TRITS e num,
    blit (replicate (NUM_FLEX_TRITS_FOR_TRITS e to_len) (FLEX_TRIT_NULL_VALUE e)) 0
      (pack_cells (NUM_TRITS_PER_FLEX_TRIT e) (flex_pack1 e) (slice start num (flex_abs e cs))))"
proof -
  let ?w = "NUM_TRITS_PER_FLEX_TRIT e" and ?c = "replicate (NUM_FLEX_TRITS_FOR_TRITS e to_len) (FLEX_TRIT_NULL_VALUE e)"
  have ok': "list_all (flex_cell_ok e) cs" and l: "length cs = NUM_FLEX_TRITS_FOR_TRITS e len"
    using ok by (simp_all add: flex_ok_def)
  have le: "start + num \<le> ?w * length cs"
    using assms(4) num_cells_ge [OF flex.w_pos, of len e] by (simp add: l NUM_FLEX_TRITS_cells)
  have nb: "num_cells ?w num \<le> length ?c"
    using assms(3) by (simp add: NUM_FLEX_TRITS_cells num_cells_mono)
  have c: "flex_clear e dst to_len = ?c" using dst by (simp add: flex_clear_def blit_0_all)
  note sp = flex.slice_packed_correct [OF ok' assms(2) le nb, folded flex_abs_def]
  have g: "num \<noteq> 0" "\<not> to_len < num" "\<not> len < start + num" using assms by auto
  show ?thesis
  proof (cases e)
    case ENC1
    have "pack_cells 1 (flex_pack1 ENC1) ts = ts" for ts
      by (induction ts) (simp_all add: pack_cells.simps flex_pack1_def)
    moreover have "unpack_cells (flex_unpack1 ENC1) ts = ts" for ts
      by (induction ts) (simp_all add: unpack_cells_def flex_unpack1_def)
    ultimately show ?thesis
      using ENC1 g c by (simp add: flex_trits_slice_def NUM_TRITS_PER_FLEX_TRIT_def NUM_FLEX_TRITS_FOR_TRITS_def flex_abs_def)
  next
    case ENC4
    with slice_packed4_correct [of cs num start ?c] ok' assms(2) le nb g c l show ?thesis
      by (simp add: flex_trits_slice_def NUM_TRITS_PER_FLEX_TRIT_def NUM_FLEX_TRITS_cells)
  qed (use sp g c l in \<open>simp_all add: flex_trits_slice_def NUM_FLEX_TRITS_cells NUM_TRITS_PER_FLEX_TRIT_def
      flex_unpack1_def [abs_def] flex_pack1_def [abs_def]\<close>)
qed

lemma flex_null_table:
  "list_all (\<lambda>e. flex_cell_ok e (FLEX_TRIT_NULL_VALUE e)
     \<and> flex_unpack1 e (FLEX_TRIT_NULL_VALUE e) = replicate (NUM_TRITS_PER_FLEX_TRIT e) 0) [ENC1, ENC3, ENC4, ENC5]"
  by code_simp

lemma flex_null_cell: "flex_cell_ok e (FLEX_TRIT_NULL_VALUE e)"
    "flex_unpack1 e (FLEX_TRIT_NULL_VALUE e) = replicate (NUM_TRITS_PER_FLEX_TRIT e) 0"
  using flex_null_table by (cases e; simp only: list.pred_inject simp_thms)+

lemma flex_abs_null: "flex_abs e (replicate n (FLEX_TRIT_NULL_VALUE e)) = replicate (NUM_TRITS_PER_FLEX_TRIT e * n) 0"
  by (induction n) (simp_all add: flex_abs_def flex_null_cell replicate_add)

text \<open>A cleared buffer that receives the packing of some trits holds these trits and zeros.\<close>

lemma flex_abs_packed:
  fixes e :: flex_enc
  assumes "valid_trits ts" "length ts \<le> to_len"
  defines "dst \<equiv> blit (replicate (NUM_FLEX_TRITS_FOR_TRITS e to_len) (FLEX_TRIT_NULL_VALUE e)) 0
      (pack_cells (NUM_TRITS_PER_FLEX_TRIT e) (flex_pack1 e) ts)"
  shows "flex_ok e dst to_len"
    "flex_abs e dst = ts @ replicate (NUM_TRITS_PER_FLEX_TRIT e * NUM_FLEX_TRITS_FOR_TRITS e to_len - length ts) 0"
proof -
  let ?w = "NUM_TRITS_PER_FLEX_TRIT e" and ?p = "pack_cells (NUM_TRITS_PER_FLEX_TRIT e) (flex_pack1 e) ts"
  have lp: "length ?p = num_cells ?w (length ts)" by (rule pack_cells_length [OF flex.w_pos])
  have m: "num_cells ?w (length ts) \<le> num_cells ?w to_len" using assms(2) by (rule num_cells_mono)
  have ge: "length ts \<le> ?w * num_cells ?w (length ts)" by (rule num_cells_ge [OF flex.w_pos])
  show "flex_ok e dst to_len"
    unfolding flex_ok_def
  proof
    have "list_all (flex_cell_ok e) (replicate (NUM_FLEX_TRITS_FOR_TRITS e to_len) (FLEX_TRIT_NULL_VALUE e))"
      by (simp add: list_all_length flex_null_cell(1))
    then show "list_all (flex_cell_ok e) dst"
      unfolding dst_def by (rule list_all_blit) (rule flex.pack_ok [OF assms(1)])
    show "length dst = NUM_FLEX_TRITS_FOR_TRITS e to_len"
      using m by (simp add: dst_def lp NUM_FLEX_TRITS_cells)
  qed
  have "flex_abs e dst = flex_abs e ?p @ flex_abs e (replicate (num_cells ?w to_len - length ?p) (FLEX_TRIT_NULL_VALUE e))"
    by (simp add: dst_def blit_def flex_abs_def NUM_FLEX_TRITS_cells)
  also have "\<dots> = ts @ replicate (?w * num_cells ?w (length ts) - length ts + ?w * (num_cells ?w to_len - num_cells ?w (length ts))) 0"
    unfolding flex_abs_null lp using flex.unpack_pack [OF assms(1)] by (simp add: flex_abs_def replicate_add)
  also have "?w * num_cells ?w (length ts) - length ts + ?w * (num_cells ?w to_len - num_cells ?w (length ts))
      = ?w * num_cells ?w to_len - length ts"
    using m ge mult_le_mono2 [OF m, of ?w] by (simp add: right_diff_distrib')
  finally show "flex_abs e dst = ts @ replicate (?w * NUM_FLEX_TRITS_FOR_TRITS e to_len - length ts) 0"
    by (simp add: NUM_FLEX_TRITS_cells)
qed

text \<open>Copying trit by trit, and copying whole cells, on the arrays the buffers stand for.\<close>

lemma slice_add: "slice s (m + n) xs = slice s m xs @ slice (s + m) n xs"
  by (simp add: slice_def take_add add.commute)

lemma blit_blit_append:
  "p + length ys + length zs \<le> length xs \<Longrightarrow> blit (blit xs p ys) (p + length ys) zs = blit xs p (ys @ zs)"
  by (simp add: blit_def add.commute add.left_commute)

lemma blit_update:
  "p < length xs \<Longrightarrow> blit (xs[p := x]) (Suc p) ys = blit xs p (x # ys)"
  by (simp add: blit_def upd_conv_take_nth_drop take_Suc_conv_app_nth min_def add.commute)

lemma copy_trits_abs:
  assumes "flex_ok e dst dlen" "flex_ok e src slen" "dpos + n \<le> dlen" "spos + n \<le> slen"
  shows "flex_ok e (copy_trits e dst dlen src slen dpos spos n) dlen
    \<and> flex_abs e (copy_trits e dst dlen src slen dpos spos n) = blit (flex_abs e dst) dpos (slice spos n (flex_abs e src))"
  using assms
proof (induction n arbitrary: dst dpos spos)
  case 0
  then show ?case by (simp add: blit_def slice_def)
next
  case (Suc n)
  let ?t = "flex_abs e src ! spos"
  have t: "flex_trits_at e src slen spos = ?t" using Suc.prems by (simp add: flex_trits_at_abs)
  have sl: "spos < length (flex_abs e src)" "dpos < length (flex_abs e dst)"
    using Suc.prems flex_abs_length_ge [OF Suc.prems(1)] flex_abs_length_ge [OF Suc.prems(2)] by auto
  have "is_trit ?t" using flex_abs_valid [OF Suc.prems(2)] sl by (simp add: list_all_length)
  then obtain dst' where d: "flex_trits_set_at e dst dlen dpos ?t = (1, dst')" "flex_ok e dst' dlen"
      "flex_abs e dst' = (flex_abs e dst)[dpos := ?t]"
    using flex_trits_set_at_abs [OF Suc.prems(1), of dpos ?t] Suc.prems(3) by auto
  have "slice spos (Suc n) (flex_abs e src) = ?t # slice (Suc spos) n (flex_abs e src)"
    using sl(1) by (simp add: slice_def Cons_nth_drop_Suc [symmetric])
  then show ?case
    using Suc.IH [OF d(2) Suc.prems(2), of "Suc dpos" "Suc spos"] Suc.prems sl by (simp add: t d blit_update)
qed

lemma copy_cells_abs:
  fixes e :: flex_enc
  defines "w \<equiv> NUM_TRITS_PER_FLEX_TRIT e"
  assumes "flex_ok e dst dlen" "flex_ok e src slen" "w * a + w * n \<le> dlen" "w * b + w * n \<le> slen"
  shows "flex_ok e (blit dst a (slice b n src)) dlen
    \<and> flex_abs e (blit dst a (slice b n src)) = blit (flex_abs e dst) (w * a) (slice (w * b) (w * n) (flex_abs e src))"
proof -
  have d: "list_all (flex_cell_ok e) dst" "length dst = NUM_FLEX_TRITS_FOR_TRITS e dlen"
    and s: "list_all (flex_cell_ok e) src" "length src = NUM_FLEX_TRITS_FOR_TRITS e slen"
    using assms(2,3) by (simp_all add: flex_ok_def)
  have w: "0 < w" by (simp add: w_def flex.w_pos)
  have "w * (a + n) \<le> w * length dst" "w * (b + n) \<le> w * length src"
    using assms(4,5) num_cells_ge [OF w, of dlen] num_cells_ge [OF w, of slen] d(2) s(2)
    by (simp_all add: NUM_FLEX_TRITS_cells w_def distrib_left)
  then have le: "a + n \<le> length dst" "b + n \<le> length src" using w by simp_all
  have ok: "list_all (flex_cell_ok e) (slice b n src)" by (rule flex.list_all_ok_slice [OF s(1)])
  have u: "flex_abs e (slice b n src) = slice (w * b) (w * n) (flex_abs e src)"
    by (simp add: flex_abs_def flex.unpack_slice [OF s(1)] w_def)
  have ls: "length (slice (w * b) (w * n) (flex_abs e src)) = w * n"
    using u flex.unpack_length [OF ok] le by (simp add: flex_abs_def w_def)
  show ?thesis
    using le d ok list_all_blit [OF d(1) ok, of a] u ls
    by (simp add: flex_ok_def blit_def flex_abs_def flex.unpack_take [OF d(1)] flex.unpack_drop [OF d(1)] w_def
        distrib_left)
qed

text \<open>\<open>dst'\<close> is \<open>dst\<close> with \<open>n\<close> trits from \<open>spos\<close> of \<open>src\<close> written at \<open>dpos\<close>.\<close>

definition copied ::
  "flex_enc \<Rightarrow> flex_trit list \<Rightarrow> nat \<Rightarrow> flex_trit list \<Rightarrow> nat \<Rightarrow> nat \<Rightarrow> nat \<Rightarrow> flex_trit list \<Rightarrow> bool"
where
  "copied e dst dlen src dpos spos n dst' \<longleftrightarrow> flex_ok e dst' dlen
     \<and> flex_abs e dst' = blit (flex_abs e dst) dpos (slice spos n (flex_abs e src))"

lemma copied_trans:
  assumes "flex_ok e dst dlen" "flex_ok e src slen" "dpos + (n + m) \<le> dlen" "spos + (n + m) \<le> slen"
    and "copied e dst dlen src dpos spos n dst1" "copied e dst1 dlen src (dpos + n) (spos + n) m dst2"
  shows "copied e dst dlen src dpos spos (n + m) dst2"
proof -
  let ?s = "flex_abs e src"
  have "length (slice spos n ?s) = n" "length (slice (spos + n) m ?s) = m"
    using flex_abs_length_ge [OF assms(2)] assms(4) by (simp_all add: slice_def)
  then show ?thesis
    using blit_blit_append [of dpos "slice spos n ?s" "slice (spos + n) m ?s" "flex_abs e dst"]
      flex_abs_length_ge [OF assms(1)] assms(3,5,6) by (simp add: copied_def slice_add)
qed

lemma copied_trits:
  assumes "flex_ok e dst dlen" "flex_ok e src slen" "dpos + n \<le> dlen" "spos + n \<le> slen"
  shows "copied e dst dlen src dpos spos n (copy_trits e dst dlen src slen dpos spos n)"
  using copy_trits_abs [OF assms] by (simp add: copied_def)

lemma copied_cells:
  assumes "flex_ok e dst dlen" "flex_ok e src slen"
    and "dpos mod NUM_TRITS_PER_FLEX_TRIT e = 0" "spos mod NUM_TRITS_PER_FLEX_TRIT e = 0"
    and "dpos + n * NUM_TRITS_PER_FLEX_TRIT e \<le> dlen" "spos + n * NUM_TRITS_PER_FLEX_TRIT e \<le> slen"
  shows "copied e dst dlen src dpos spos (n * NUM_TRITS_PER_FLEX_TRIT e)
    (blit dst (dpos div NUM_TRITS_PER_FLEX_TRIT e) (slice (spos div NUM_TRITS_PER_FLEX_TRIT e) n src))"
proof -
  let ?w = "NUM_TRITS_PER_FLEX_TRIT e"
  have w: "?w * (dpos div ?w) = dpos" "?w * (spos div ?w) = spos" using assms(3,4) by auto
  from copy_cells_abs [OF assms(1,2), of "dpos div ?w" n "spos div ?w"] assms(5,6)
  show ?thesis unfolding w by (simp add: copied_def mult.commute)
qed

text \<open>Whole cells from an aligned position, then the trits that are left.\<close>

lemma copied_aligned:
  fixes e :: flex_enc
  defines "w \<equiv> NUM_TRITS_PER_FLEX_TRIT e"
  assumes "flex_ok e dst dlen" "flex_ok e src slen" "dpos mod w = 0" "spos mod w = 0" "dpos + n \<le> dlen" "spos + n \<le> slen"
  defines "m \<equiv> n div w"
  defines "d \<equiv> blit dst (dpos div w) (slice (spos div w) m src)"
  shows "copied e dst dlen src dpos spos n
    (copy_trits e d dlen src slen (dpos + m * w) (spos + m * w) (n - m * w))"
proof -
  have m: "m * w \<le> n" by (simp add: m_def)
  have c: "copied e dst dlen src dpos spos (m * w) d"
    using copied_cells [OF assms(2,3), of dpos spos m] assms(4-7) m by (simp add: d_def w_def)
  then have "flex_ok e d dlen" by (simp add: copied_def)
  from copied_trits [OF this assms(3), of "dpos + m * w" "n - m * w" "spos + m * w"] m assms(6,7)
  have c': "copied e d dlen src (dpos + m * w) (spos + m * w) (n - m * w)
     (copy_trits e d dlen src slen (dpos + m * w) (spos + m * w) (n - m * w))" by simp
  from copied_trans [OF assms(2,3) _ _ c c'] m assms(6,7) show ?thesis by simp
qed

lemma flex_trits_insert_copied:
  assumes "flex_ok e dst dlen" "flex_ok e src slen" "0 < num" "num \<le> slen" "start + num \<le> dlen"
  shows "\<exists>dst'. flex_trits_insert e dst dlen src slen start num = (num, dst') \<and> copied e dst dlen src start 0 num dst'"
proof -
  let ?w = "NUM_TRITS_PER_FLEX_TRIT e"
  have g: "num \<noteq> 0" "\<not> slen < num" "\<not> dlen < num" "\<not> dlen \<le> start" "\<not> dlen < start + num" using assms by auto
  consider "e = ENC1" | "e \<noteq> ENC1" "start mod ?w = 0" | "e \<noteq> ENC1" "start mod ?w \<noteq> 0" by blast
  then show ?thesis
  proof cases
    case 1
    with copied_cells [OF assms(1,2), of start 0 num] g assms(4,5) show ?thesis
      by (simp add: flex_trits_insert_def NUM_TRITS_PER_FLEX_TRIT_def)
  next
    case 2
    with copied_aligned [OF assms(1,2), of start 0 num] g assms(4,5) show ?thesis
      by (simp add: flex_trits_insert_def Let_def)
  next
    case 3
    with copied_trits [OF assms(1,2), of start num 0] g assms(4,5) show ?thesis
      by (simp add: flex_trits_insert_def Let_def)
  qed
qed

lemma head_aligned:
  "0 < w \<Longrightarrow> p mod w = q mod w \<Longrightarrow> (q + (w - p mod w) mod w) mod w = 0" for p q w :: nat
  by (metis add.commute mod_add_left_eq mod_add_right_eq le_add_diff_inverse2 mod_le_divisor mod_self)

lemma flex_trits_insert_from_pos_copied:
  assumes "flex_ok e dst dlen" "flex_ok e src slen" "0 < num" "spos + num \<le> slen" "dpos + num \<le> dlen"
  shows "\<exists>dst'. flex_trits_insert_from_pos e dst dlen src slen spos dpos num = (num, dst')
    \<and> copied e dst dlen src dpos spos num dst'"
proof -
  let ?w = "NUM_TRITS_PER_FLEX_TRIT e"
  have g: "num \<noteq> 0" "\<not> slen < num" "\<not> dlen < num" "\<not> slen \<le> spos" "\<not> slen < spos + num"
      "\<not> dlen \<le> dpos" "\<not> dlen < dpos + num" using assms by auto
  consider "e = ENC1" | "e \<noteq> ENC1" "num \<ge> ?w \<and> spos mod ?w = dpos mod ?w"
    | "e \<noteq> ENC1" "\<not> (num \<ge> ?w \<and> spos mod ?w = dpos mod ?w)" by blast
  then show ?thesis
  proof cases
    case 1
    with copied_cells [OF assms(1,2), of dpos spos num] g assms(4,5) show ?thesis
      by (simp add: flex_trits_insert_from_pos_def NUM_TRITS_PER_FLEX_TRIT_def)
  next
    case 2
    let ?h = "(?w - spos mod ?w) mod ?w"
    let ?d = "copy_trits e dst dlen src slen dpos spos ?h"
    have h: "?h \<le> num" using 2 flex.w_pos [of e] mod_less_divisor [of ?w "?w - spos mod ?w"] by linarith
    have c: "copied e dst dlen src dpos spos ?h ?d" using h assms by (intro copied_trits) auto
    have d: "flex_ok e ?d dlen" using c by (simp add: copied_def)
    have "(dpos + ?h) mod ?w = 0" "(spos + ?h) mod ?w = 0" using 2 by (intro head_aligned flex.w_pos; simp)+
    from copied_aligned [OF d assms(2) this, of "num - ?h"] h assms(4,5)
    have "copied e ?d dlen src (dpos + ?h) (spos + ?h) (num - ?h)
      (copy_trits e (blit ?d ((dpos + ?h) div ?w) (slice ((spos + ?h) div ?w) ((num - ?h) div ?w) src)) dlen src slen
         (dpos + ?h + (num - ?h) div ?w * ?w) (spos + ?h + (num - ?h) div ?w * ?w) (num - ?h - (num - ?h) div ?w * ?w))"
      by simp
    from copied_trans [OF assms(1,2) _ _ c this] h 2 g assms(4,5) show ?thesis
      by (simp add: flex_trits_insert_from_pos_def Let_def add.assoc)
  next
    case 3
    with copied_trits [OF assms(1,2), of dpos num spos] g assms(4,5) show ?thesis
      by (auto simp: flex_trits_insert_from_pos_def Let_def)
  qed
qed

section \<open>Conversion from and to plain trits\<close>

lemma set_trits4_abs:
  assumes "flex_ok ENC4 dst dlen" "i + length ts \<le> dlen" "valid_trits ts"
  shows "flex_ok ENC4 (set_trits4 dst dlen i ts) dlen
    \<and> flex_abs ENC4 (set_trits4 dst dlen i ts) = blit (flex_abs ENC4 dst) i ts"
  using assms
proof (induction ts arbitrary: dst i)
  case (Cons t ts)
  obtain dst' where d: "flex_trits_set_at ENC4 dst dlen i t = (1, dst')" "flex_ok ENC4 dst' dlen"
      "flex_abs ENC4 dst' = (flex_abs ENC4 dst)[i := t]"
    using flex_trits_set_at_abs [OF Cons.prems(1), of i t] Cons.prems by auto
  have "i < length (flex_abs ENC4 dst)" using flex_abs_length_ge [OF Cons.prems(1)] Cons.prems(2) by simp
  with Cons.IH [OF d(2), of "Suc i"] Cons.prems show ?case by (simp add: d blit_update)
qed (simp add: blit_def)

lemma trits_to_trytes_pack: "trits_to_trytes ts = pack_cells 3 trits_to_tryte ts"
proof (induction ts rule: trits_to_trytes.induct)
  case (2 t ts)
  then show ?case using pack_cells.simps [of 3 trits_to_tryte "t # ts"] by simp
qed simp

lemma trits_to_bytes_pack: "trits_to_bytes ts = pack_cells 5 trits_to_byte ts"
proof (induction ts rule: trits_to_bytes.induct)
  case (2 t ts)
  then show ?case using pack_cells.simps [of 5 trits_to_byte "t # ts"] by simp
qed simp

lemma enc1_identity: "pack_cells (Suc 0) bt_value ts = ts" "flex_abs ENC1 ts = ts"
  by (induction ts) (simp_all add: pack_cells.simps flex_pack1_def flex_abs_def unpack_cells_def flex_unpack1_def)

lemma flex_trits_from_trits_abs:
  fixes e :: flex_enc
  assumes "length dst = NUM_FLEX_TRITS_FOR_TRITS e dlen" "valid_trits ts" "0 < num" "num \<le> length ts" "num \<le> dlen"
  shows "\<exists>dst'. flex_trits_from_trits e dst dlen ts (length ts) num = (num, dst') \<and> flex_ok e dst' dlen
    \<and> flex_abs e dst' = take num ts @ replicate (NUM_TRITS_PER_FLEX_TRIT e * NUM_FLEX_TRITS_FOR_TRITS e dlen - num) 0"
proof -
  let ?c = "replicate (NUM_FLEX_TRITS_FOR_TRITS e dlen) (FLEX_TRIT_NULL_VALUE e)"
  have g: "\<not> length ts < num" "\<not> dlen < num" "num \<noteq> 0" using assms by auto
  have c: "flex_clear e dst dlen = ?c" using assms(1) by (simp add: flex_clear_def blit_0_all)
  have v: "valid_trits (take num ts)" by (rule valid_trits_take [OF assms(2)])
  have l: "length (take num ts) \<le> dlen" using assms by simp
  note p = flex_abs_packed [OF v l, of e]
  show ?thesis
  proof (cases "e = ENC4")
    case True
    have "flex_ok ENC4 ?c dlen" by (simp add: True flex_ok_def list_all_length flex_null_cell)
    then have s: "flex_ok ENC4 (set_trits4 ?c dlen 0 (take num ts)) dlen
        \<and> flex_abs ENC4 (set_trits4 ?c dlen 0 (take num ts)) = blit (flex_abs ENC4 ?c) 0 (take num ts)"
      using v l by (intro set_trits4_abs) auto
    moreover have "blit (flex_abs ENC4 ?c) 0 (take num ts)
        = take num ts @ replicate (NUM_TRITS_PER_FLEX_TRIT e * NUM_FLEX_TRITS_FOR_TRITS e dlen - num) 0"
      using assms(4) True by (simp add: blit_def flex_abs_null min_def)
    ultimately show ?thesis using True g c by (simp add: flex_trits_from_trits_def)
  next
    case False
    have "flex_trits_from_trits e dst dlen ts (length ts) num = (num, blit ?c 0
        (pack_cells (NUM_TRITS_PER_FLEX_TRIT e) (flex_pack1 e) (take num ts)))"
      using False g c by (cases e) (simp_all add: flex_trits_from_trits_def NUM_TRITS_PER_FLEX_TRIT_def enc1_identity
        trits_to_trytes_pack trits_to_bytes_pack flex_pack1_def [abs_def])
    with p assms(4) show ?thesis by (simp add: min_def)
  qed
qed

lemma trytes_to_trits_abs: "trytes_to_trits cs = flex_abs ENC3 cs"
  by (induction cs) (simp_all add: flex_abs_def unpack_cells_def flex_unpack1_def)

lemma bytes_to_trits_abs: "list_all (flex_cell_ok ENC5) cs \<Longrightarrow> bytes_to_trits cs n = take n (flex_abs ENC5 cs)"
proof (induction cs n rule: bytes_to_trits.induct)
  case (2 b bs n)
  then have b: "\<bar>b\<bar> \<le> 121" and ih: "0 < n \<Longrightarrow> bytes_to_trits bs (n - 5) = take (n - 5) (flex_abs ENC5 bs)"
    by (simp_all add: flex_cell_ok_def)
  have "flex_abs ENC5 (b # bs) = bt_digits 5 b @ flex_abs ENC5 bs"
    using b by (simp add: flex_abs_def flex_unpack1_def byte_to_trits_digits del: bt_digits.simps)
  with ih show ?case by (simp add: byte_to_trits_digits [OF b] min_def del: bt_digits.simps)
qed (simp add: flex_abs_def)

lemma flex_abs_take_cells:
  "flex_ok e cs len \<Longrightarrow> flex_abs e (take (NUM_FLEX_TRITS_FOR_TRITS e n) cs)
    = take (NUM_TRITS_PER_FLEX_TRIT e * NUM_FLEX_TRITS_FOR_TRITS e n) (flex_abs e cs)"
  by (simp add: flex_abs_def flex_ok_def flex.unpack_take)

lemma take_blit_0: "n \<le> length ys \<Longrightarrow> take n (blit xs 0 ys) = take n ys"
  by (simp add: blit_def)

lemma flex_trits_to_trits_abs:
  assumes ok: "flex_ok e cs len" and num: "0 < num" "num \<le> len" "num \<le> length ts"
    and room: "e = ENC3 \<Longrightarrow> 3 * NUM_FLEX_TRITS_FOR_TRITS e num \<le> length ts"
  shows "\<exists>ts'. flex_trits_to_trits e ts (length ts) cs len num = (NUM_FLEX_TRITS_FOR_TRITS e num, ts')
    \<and> length ts' = length ts \<and> valid_trits ts' \<and> take num ts' = take num (flex_abs e cs)"
proof -
  let ?nb = "NUM_FLEX_TRITS_FOR_TRITS e num"
  let ?w = "NUM_TRITS_PER_FLEX_TRIT e"
  have g: "num \<noteq> 0" "\<not> len < num" "\<not> length ts < num" using num by auto
  have z: "blit ts 0 (replicate (length ts) 0) = replicate (length ts) 0" by (simp add: blit_0_all)
  have nw: "num \<le> ?w * ?nb" by (simp add: NUM_FLEX_TRITS_cells num_cells_ge flex.w_pos)
  have l: "num \<le> length (flex_abs e cs)" using flex_abs_length_ge [OF ok] num(2) by simp
  have ok': "list_all (flex_cell_ok e) (take ?nb cs)" using ok by (auto simp: flex_ok_def list_all_iff dest: in_set_takeD)
  define n where "n = (if e = ENC3 then ?w * ?nb else num)"
  have "flex_trits_to_trits e ts (length ts) cs len num = (?nb, blit (replicate (length ts) 0) 0 (take n (flex_abs e cs)))"
  proof (cases e)
    case ENC1
    then show ?thesis
      using g z by (simp add: flex_trits_to_trits_def n_def enc1_identity NUM_FLEX_TRITS_FOR_TRITS_def)
  next
    case ENC3
    then show ?thesis
      using g z flex_abs_take_cells [OF ok, of num] by (simp add: flex_trits_to_trits_def n_def trytes_to_trits_abs Let_def)
  next
    case ENC4
    have "map (flex_trits_at ENC4 cs len) [0..<num] = take num (flex_abs ENC4 cs)"
      using ok ENC4 num(2) l by (intro nth_equalityI) (auto simp: flex_trits_at_abs)
    with ENC4 show ?thesis using g z by (simp add: flex_trits_to_trits_def n_def)
  next
    case ENC5
    then show ?thesis
      using g z nw bytes_to_trits_abs [of "take ?nb cs" num] flex_abs_take_cells [OF ok, of num] ok'
      by (simp add: flex_trits_to_trits_def n_def min_def)
  qed
  moreover have n: "num \<le> n" "n \<le> length ts"
    using nw room num(3) by (auto simp: n_def NUM_TRITS_PER_FLEX_TRIT_def)
  moreover have "valid_trits (blit (replicate (length ts) 0) 0 (take n (flex_abs e cs)))"
    by (intro list_all_blit valid_trits_take flex_abs_valid [OF ok]) simp
  ultimately show ?thesis using l by (simp add: take_blit_0 min_def)
qed

section \<open>Properties\<close>

text \<open>
  Reading after writing, in every packing: a write inside the array reports 1, keeps the buffer well
  formed, changes the trit at its index and no other; outside the array it reports 0 and changes nothing.
\<close>

theorem flex_trits_read_after_write:
  assumes "flex_ok e cs len" and "is_trit t"
  shows "if i < len
    then \<exists>cs'. flex_trits_set_at e cs len i t = (1, cs') \<and> flex_ok e cs' len
           \<and> (\<forall>j. flex_trits_at e cs' len j = (if j = i then t else flex_trits_at e cs len j))
    else flex_trits_set_at e cs len i t = (0, cs) \<and> flex_trits_at e cs len i = 0"
proof (cases "i < len")
  case True
  then obtain cs' where cs': "flex_trits_set_at e cs len i t = (1, cs')" "flex_ok e cs' len"
      "flex_abs e cs' = (flex_abs e cs)[i := t]"
    using flex_trits_set_at_abs [OF assms(1) True assms(2)] by auto
  then have "flex_trits_at e cs' len j = (if j = i then t else flex_trits_at e cs len j)" for j
    using assms(1) True flex_abs_length_ge [OF assms(1)] by (auto simp: flex_trits_at_abs)
  with True cs' show ?thesis by simp
qed (simp add: flex_trits_set_at_def flex_trits_at_def)

theorem flex_trits_read_after_write_witness:
  "flex_trits_at ENC5 (snd (flex_trits_set_at ENC5 [0, 4] 7 5 (- 1))) 7 5 = - 1"
proof -
  have "flex_ok ENC5 [0, 4] 7" "is_trit (- 1)" by code_simp+
  from flex_trits_read_after_write [OF this, of 5] show ?thesis by auto
qed

text \<open>
  \<open>flex_trits_slice\<close> in every packing: the destination becomes a well-formed buffer that holds the trits
  \<open>start .. start + num - 1\<close> of the source followed by zeros, whatever the alignment of \<open>start\<close> and of
  \<open>num\<close> with the cells; a range that is empty or does not fit is refused and nothing is written.
\<close>

theorem flex_trits_slice_correct:
  assumes "flex_ok e cs len" and "length dst = NUM_FLEX_TRITS_FOR_TRITS e to_len"
  shows "if 0 < num \<and> num \<le> to_len \<and> start + num \<le> len
    then \<exists>dst'. flex_trits_slice e dst to_len cs len start num = (NUM_FLEX_TRITS_FOR_TRITS e num, dst')
           \<and> flex_ok e dst' to_len
           \<and> flex_abs e dst' = slice start num (flex_abs e cs)
               @ replicate (NUM_TRITS_PER_FLEX_TRIT e * NUM_FLEX_TRITS_FOR_TRITS e to_len - num) 0
    else flex_trits_slice e dst to_len cs len start num = (0, dst)"
proof (cases "0 < num \<and> num \<le> to_len \<and> start + num \<le> len")
  case True
  have v: "valid_trits (slice start num (flex_abs e cs))" by (rule valid_trits_slice [OF flex_abs_valid [OF assms(1)]])
  have l: "length (slice start num (flex_abs e cs)) = num"
    using True flex_abs_length_ge [OF assms(1)] by simp
  with flex_abs_packed [OF v, of to_len e] slice_cells [OF assms(1) _ _ _ assms(2), of num start] True
  show ?thesis by simp
qed (auto simp: flex_trits_slice_def)

theorem flex_trits_slice_correct_witness:
  "flex_abs ENC3 (snd (flex_trits_slice ENC3 [57, 57] 5 [65, 90, 78] 9 2 5)) = [0, - 1, 0, 0, - 1, 0]"
proof -
  have a: "flex_ok ENC3 [65, 90, 78] 9" "length [57, 57 :: int] = NUM_FLEX_TRITS_FOR_TRITS ENC3 5" by code_simp+
  have "slice 2 5 (flex_abs ENC3 [65, 90, 78])
      @ replicate (NUM_TRITS_PER_FLEX_TRIT ENC3 * NUM_FLEX_TRITS_FOR_TRITS ENC3 5 - 5) 0 = [0, - 1, 0, 0, - 1, 0]"
    by code_simp
  with flex_trits_slice_correct [OF a, of 5 2] show ?thesis by auto
qed

text \<open>
  \<open>flex_trits_insert\<close> and \<open>flex_trits_insert_from_pos\<close> in every packing: exactly the trits of the
  destination range change, to the trits of the source range, and the count of copied trits is returned.
\<close>

theorem flex_trits_insert_correct:
  assumes "flex_ok e dst dlen" "flex_ok e src slen" "0 < num" "spos + num \<le> slen" "dpos + num \<le> dlen"
  shows "(\<exists>dst'. flex_trits_insert_from_pos e dst dlen src slen spos dpos num = (num, dst') \<and> flex_ok e dst' dlen
           \<and> flex_abs e dst' = blit (flex_abs e dst) dpos (slice spos num (flex_abs e src)))
    \<and> (\<exists>dst'. flex_trits_insert e dst dlen src slen dpos num = (num, dst') \<and> flex_ok e dst' dlen
           \<and> flex_abs e dst' = blit (flex_abs e dst) dpos (take num (flex_abs e src)))"
  using flex_trits_insert_from_pos_copied [OF assms] flex_trits_insert_copied [OF assms(1,2,3) _ assms(5)] assms(4)
  by (auto simp: copied_def)

theorem flex_trits_insert_correct_witness:
  "flex_abs ENC4 (snd (flex_trits_insert_from_pos ENC4 [0, 0] 8 [5, 1] 8 0 3 5)) = [0, 0, 0, 1, 1, 0, 0, 1]"
proof -
  have a: "flex_ok ENC4 [0, 0] 8" "flex_ok ENC4 [5, 1] 8" by code_simp+
  have "blit (flex_abs ENC4 [0, 0]) 3 (slice 0 5 (flex_abs ENC4 [5, 1])) = [0, 0, 0, 1, 1, 0, 0, 1]" by code_simp
  with flex_trits_insert_correct [OF a, of 5 0 3] show ?thesis by auto
qed

text \<open>
  Packing and unpacking in every packing: the trits written by \<open>flex_trits_from_trits\<close> are the ones
  \<open>flex_trits_to_trits\<close> returns, for a target array with room for whole cells.
\<close>

theorem flex_trits_round_trip:
  assumes "length dst = NUM_FLEX_TRITS_FOR_TRITS e dlen" "valid_trits ts" "0 < num" "num \<le> length ts" "num \<le> dlen"
    and "NUM_TRITS_PER_FLEX_TRIT e * NUM_FLEX_TRITS_FOR_TRITS e num \<le> length out"
  shows "\<exists>dst' out'. flex_trits_from_trits e dst dlen ts (length ts) num = (num, dst') \<and> flex_ok e dst' dlen
    \<and> flex_trits_to_trits e out (length out) dst' dlen num = (NUM_FLEX_TRITS_FOR_TRITS e num, out')
    \<and> length out' = length out \<and> valid_trits out' \<and> take num out' = take num ts"
proof -
  obtain dst' where d: "flex_trits_from_trits e dst dlen ts (length ts) num = (num, dst')" "flex_ok e dst' dlen"
      "flex_abs e dst' = take num ts @ replicate (NUM_TRITS_PER_FLEX_TRIT e * NUM_FLEX_TRITS_FOR_TRITS e dlen - num) 0"
    using flex_trits_from_trits_abs [OF assms(1-5)] by auto
  have nl: "num \<le> length out"
    using assms(6) num_cells_ge [OF flex.w_pos, of num e] by (simp add: NUM_FLEX_TRITS_cells)
  have "e = ENC3 \<Longrightarrow> 3 * NUM_FLEX_TRITS_FOR_TRITS e num \<le> length out"
    using assms(6) by (simp add: NUM_TRITS_PER_FLEX_TRIT_def)
  from flex_trits_to_trits_abs [OF d(2) assms(3,5) nl this] d assms(4) show ?thesis by auto
qed

theorem flex_trits_round_trip_witness:
  "\<exists>dst' out'. flex_trits_from_trits ENC4 [0, 0] 6 [1, - 1, 0, 1, 1] (length [1, - 1, 0, 1, 1 :: int]) 5 = (5, dst')
    \<and> flex_trits_to_trits ENC4 (replicate 8 0) (length (replicate 8 (0 :: int))) dst' 6 5 = (2, out')
    \<and> take 5 out' = [1, - 1, 0, 1, 1]"
proof -
  have a: "length [0, 0 :: int] = NUM_FLEX_TRITS_FOR_TRITS ENC4 6" "valid_trits [1, - 1, 0, 1, 1]"
    "(0 :: nat) < 5" "5 \<le> length [1, - 1, 0, 1, 1 :: int]" "(5 :: nat) \<le> 6"
    "NUM_TRITS_PER_FLEX_TRIT ENC4 * NUM_FLEX_TRITS_FOR_TRITS ENC4 5 \<le> length (replicate 8 (0 :: int))" by code_simp+
  have "NUM_FLEX_TRITS_FOR_TRITS ENC4 5 = 2" by code_simp
  with flex_trits_round_trip [OF a] show ?thesis by force
qed

text \<open>
  With three trits per byte \<open>flex_trits_to_trits\<close> writes whole trytes: asked for 4 trits into an array of
  4, it writes 6.
\<close>

theorem flex_trits_to_trits_overruns:
  "flex_trits_to_trits ENC3 [0, 0, 0, 0] 4 [65, 65] 4 4 = (2, [1, 0, 0, 1, 0, 0])"
  by code_simp

end
