(* ===== verification/Curl.thy ===== *)
theory Curl
  imports Prelude
begin

text \<open>
  \<open>common/crypto/curl-p\<close>: the Curl-P sponge on plain trits (\<open>trit.h\<close>, \<open>curl_p.c\<close>, \<open>digest.c\<close>, \<open>const.c\<close>,
  \<open>indices.h\<close>). The state is a record with the fields of the C struct. \<open>transform\<close> keeps the two
  buffers of the code, which change roles in every round; it is shown to be the iteration of one
  round function given by arithmetic instead of tables.
\<close>

unbundle bit_operations_syntax

section \<open>Definitions\<close>

definition HASH_LENGTH_TRIT :: nat where "HASH_LENGTH_TRIT = 243"

definition STATE_LENGTH :: nat where "STATE_LENGTH = 3 * HASH_LENGTH_TRIT"

definition TRUTH_TABLE :: "trit list" where
  "TRUTH_TABLE = [1, 0, -1, 2, 1, -1, 0, 2, -1, 1, 0]"

definition CURL_INDEX :: "nat list" where
  "CURL_INDEX =
   [0, 364, 728, 363, 727, 362, 726, 361, 725, 360, 724, 359, 723, 358, 722, 357, 721, 356, 720, 355, 719, 354,
    718, 353, 717, 352, 716, 351, 715, 350, 714, 349, 713, 348, 712, 347, 711, 346, 710, 345, 709, 344, 708,
    343, 707, 342, 706, 341, 705, 340, 704, 339, 703, 338, 702, 337, 701, 336, 700, 335, 699, 334, 698, 333,
    697, 332, 696, 331, 695, 330, 694, 329, 693, 328, 692, 327, 691, 326, 690, 325, 689, 324, 688, 323, 687,
    322, 686, 321, 685, 320, 684, 319, 683, 318, 682, 317, 681, 316, 680, 315, 679, 314, 678, 313, 677, 312,
    676, 311, 675, 310, 674, 309, 673, 308, 672, 307, 671, 306, 670, 305, 669, 304, 668, 303, 667, 302, 666,
    301, 665, 300, 664, 299, 663, 298, 662, 297, 661, 296, 660, 295, 659, 294, 658, 293, 657, 292, 656, 291,
    655, 290, 654, 289, 653, 288, 652, 287, 651, 286, 650, 285, 649, 284, 648, 283, 647, 282, 646, 281, 645,
    280, 644, 279, 643, 278, 642, 277, 641, 276, 640, 275, 639, 274, 638, 273, 637, 272, 636, 271, 635, 270,
    634, 269, 633, 268, 632, 267, 631, 266, 630, 265, 629, 264, 628, 263, 627, 262, 626, 261, 625, 260, 624,
    259, 623, 258, 622, 257, 621, 256, 620, 255, 619, 254, 618, 253, 617, 252, 616, 251, 615, 250, 614, 249,
    613, 248, 612, 247, 611, 246, 610, 245, 609, 244, 608, 243, 607, 242, 606, 241, 605, 240, 604, 239, 603,
    238, 602, 237, 601, 236, 600, 235, 599, 234, 598, 233, 597, 232, 596, 231, 595, 230, 594, 229, 593, 228,
    592, 227, 591, 226, 590, 225, 589, 224, 588, 223, 587, 222, 586, 221, 585, 220, 584, 219, 583, 218, 582,
    217, 581, 216, 580, 215, 579, 214, 578, 213, 577, 212, 576, 211, 575, 210, 574, 209, 573, 208, 572, 207,
    571, 206, 570, 205, 569, 204, 568, 203, 567, 202, 566, 201, 565, 200, 564, 199, 563, 198, 562, 197, 561,
    196, 560, 195, 559, 194, 558, 193, 557, 192, 556, 191, 555, 190, 554, 189, 553, 188, 552, 187, 551, 186,
    550, 185, 549, 184, 548, 183, 547, 182, 546, 181, 545, 180, 544, 179, 543, 178, 542, 177, 541, 176, 540,
    175, 539, 174, 538, 173, 537, 172, 536, 171, 535, 170, 534, 169, 533, 168, 532, 167, 531, 166, 530, 165,
    529, 164, 528, 163, 527, 162, 526, 161, 525, 160, 524, 159, 523, 158, 522, 157, 521, 156, 520, 155, 519,
    154, 518, 153, 517, 152, 516, 151, 515, 150, 514, 149, 513, 148, 512, 147, 511, 146, 510, 145, 509, 144,
    508, 143, 507, 142, 506, 141, 505, 140, 504, 139, 503, 138, 502, 137, 501, 136, 500, 135, 499, 134, 498,
    133, 497, 132, 496, 131, 495, 130, 494, 129, 493, 128, 492, 127, 491, 126, 490, 125, 489, 124, 488, 123,
    487, 122, 486, 121, 485, 120, 484, 119, 483, 118, 482, 117, 481, 116, 480, 115, 479, 114, 478, 113, 477,
    112, 476, 111, 475, 110, 474, 109, 473, 108, 472, 107, 471, 106, 470, 105, 469, 104, 468, 103, 467, 102,
    466, 101, 465, 100, 464, 99, 463, 98, 462, 97, 461, 96, 460, 95, 459, 94, 458, 93, 457, 92, 456, 91, 455,
    90, 454, 89, 453, 88, 452, 87, 451, 86, 450, 85, 449, 84, 448, 83, 447, 82, 446, 81, 445, 80, 444, 79, 443,
    78, 442, 77, 441, 76, 440, 75, 439, 74, 438, 73, 437, 72, 436, 71, 435, 70, 434, 69, 433, 68, 432, 67, 431,
    66, 430, 65, 429, 64, 428, 63, 427, 62, 426, 61, 425, 60, 424, 59, 423, 58, 422, 57, 421, 56, 420, 55, 419,
    54, 418, 53, 417, 52, 416, 51, 415, 50, 414, 49, 413, 48, 412, 47, 411, 46, 410, 45, 409, 44, 408, 43, 407,
    42, 406, 41, 405, 40, 404, 39, 403, 38, 402, 37, 401, 36, 400, 35, 399, 34, 398, 33, 397, 32, 396, 31, 395,
    30, 394, 29, 393, 28, 392, 27, 391, 26, 390, 25, 389, 24, 388, 23, 387, 22, 386, 21, 385, 20, 384, 19, 383,
    18, 382, 17, 381, 16, 380, 15, 379, 14, 378, 13, 377, 12, 376, 11, 375, 10, 374, 9, 373, 8, 372, 7, 371, 6,
    370, 5, 369, 4, 368, 3, 367, 2, 366, 1, 365, 0]"

record Curl =
  state :: "trit list"
  curl_type :: nat

definition CURL_P_27 :: nat where "CURL_P_27 = 27"

definition CURL_P_81 :: nat where "CURL_P_81 = 81"

text \<open>
  The index \<open>s[a] + ((unsigned)s[b] << 2) + 5\<close> is computed in 32-bit unsigned arithmetic.
\<close>

definition sbox_trit :: "trit \<Rightarrow> trit \<Rightarrow> trit" where
  "sbox_trit a b = TRUTH_TABLE ! unat ((word_of_int a :: u32) + push_bit 2 (word_of_int b) + 5)"

definition sbox :: "trit list \<Rightarrow> trit list" where
  "sbox s = map (\<lambda>i. sbox_trit (s ! (CURL_INDEX ! i)) (s ! (CURL_INDEX ! (i + 1)))) [0..<STATE_LENGTH]"

text \<open>
  The rounds \<open>round, ..., round + n - 1\<close> on the pair of the context's buffer and of the local buffer
  \<open>s\<close>; an odd round reads \<open>s\<close> and writes the context, an even one the other way round. The local
  buffer is not initialised in C; round 0 writes it before anything reads it.
\<close>

primrec transform_loop :: "nat \<Rightarrow> nat \<Rightarrow> trit list \<times> trit list \<Rightarrow> trit list \<times> trit list" where
  "transform_loop round 0 bufs = bufs"
| "transform_loop round (Suc n) bufs =
     (let (ctx, s) = bufs
      in transform_loop (round + 1) n (if odd round then (sbox s, s) else (ctx, sbox ctx)))"

definition transform :: "Curl \<Rightarrow> Curl" where
  "transform ctx =
     (let (ctx_state, s) = transform_loop 0 (curl_type ctx) (state ctx, [])
      in ctx\<lparr>state := if odd (curl_type ctx) then s else ctx_state\<rparr>)"

definition curl_init :: "Curl \<Rightarrow> Curl" where
  "curl_init ctx = ctx\<lparr>state := replicate STATE_LENGTH 0\<rparr>"

definition num_chunks :: "nat \<Rightarrow> nat" where
  "num_chunks len = len div HASH_LENGTH_TRIT + (if len mod HASH_LENGTH_TRIT \<noteq> 0 then 1 else 0)"

text \<open>One iteration per chunk; \<open>trits\<close> is what is left of the input.\<close>

primrec curl_absorb_loop :: "nat \<Rightarrow> Curl \<Rightarrow> trit list \<Rightarrow> Curl" where
  "curl_absorb_loop 0 ctx trits = ctx"
| "curl_absorb_loop (Suc n) ctx trits =
     curl_absorb_loop n (transform (ctx\<lparr>state := blit (state ctx) 0 (take HASH_LENGTH_TRIT trits)\<rparr>))
       (drop HASH_LENGTH_TRIT trits)"

definition curl_absorb :: "Curl \<Rightarrow> trit list \<Rightarrow> Curl" where
  "curl_absorb ctx trits = curl_absorb_loop (num_chunks (length trits)) ctx trits"

primrec curl_squeeze_loop :: "nat \<Rightarrow> Curl \<Rightarrow> nat \<Rightarrow> Curl \<times> trit list" where
  "curl_squeeze_loop 0 ctx len = (ctx, [])"
| "curl_squeeze_loop (Suc n) ctx len =
     (let chunk = take (if len < HASH_LENGTH_TRIT then len else HASH_LENGTH_TRIT) (state ctx);
          (ctx, rest) = curl_squeeze_loop n (transform ctx) (if len < HASH_LENGTH_TRIT then 0 else len - HASH_LENGTH_TRIT)
      in (ctx, chunk @ rest))"

definition curl_squeeze :: "Curl \<Rightarrow> nat \<Rightarrow> Curl \<times> trit list" where
  "curl_squeeze ctx len = curl_squeeze_loop (num_chunks len) ctx len"

definition curl_reset :: "Curl \<Rightarrow> Curl" where
  "curl_reset ctx = ctx\<lparr>state := replicate STATE_LENGTH 0\<rparr>"

definition curl_digest :: "trit list \<Rightarrow> Curl \<Rightarrow> Curl \<times> trit list" where
  "curl_digest trits curl = curl_squeeze (curl_absorb curl trits) HASH_LENGTH_TRIT"

section \<open>The round\<close>

text \<open>
  The round without tables: along the cycle \<open>0, 364, 728, 363, ...\<close> every cell is combined with its
  successor by \<open>a * (1 + b\<^sup>2) - b - 1\<close> modulo 3.
\<close>

definition balance :: "int \<Rightarrow> trit" where
  "balance x = (x + 1) mod 3 - 1"

definition curl_round :: "trit list \<Rightarrow> trit list" where
  "curl_round s = map (\<lambda>i. let a = s ! (364 * i mod 729); b = s ! (364 * (i + 1) mod 729)
                          in balance (a * (1 + b * b) - b - 1)) [0..<729]"

lemma balance_trit [simp]: "is_trit (balance x)"
  by (simp add: balance_def is_trit_def) (smt (verit) pos_mod_bound pos_mod_sign)

lemma STATE_LENGTH_simp [simp]: "STATE_LENGTH = 729" "HASH_LENGTH_TRIT = 243"
  by (simp_all add: STATE_LENGTH_def HASH_LENGTH_TRIT_def)

lemma curl_index_table: "map int CURL_INDEX = map (\<lambda>i. 364 * i mod 729) [0..729]"
  unfolding CURL_INDEX_def list.map of_nat_numeral of_nat_0 of_nat_1 by code_simp

lemma curl_index: "i < 730 \<Longrightarrow> CURL_INDEX ! i = 364 * i mod 729"
proof -
  assume i: "i < 730"
  have "length (map int CURL_INDEX) = 730" unfolding curl_index_table by simp
  then have "int (CURL_INDEX ! i) = map int CURL_INDEX ! i" using i by simp
  also have "\<dots> = 364 * int i mod 729" unfolding curl_index_table using i by (simp add: nth_upto)
  finally have "int (CURL_INDEX ! i) = int (364 * i mod 729)" by (simp add: zmod_int)
  then show ?thesis by (simp only: of_nat_eq_iff)
qed

lemma sbox_trit_table:
  "list_all (\<lambda>a. list_all (\<lambda>b. sbox_trit a b = balance (a * (1 + b * b) - b - 1)) [- 1, 0, 1]) [- 1, 0, 1]"
  by code_simp

lemma sbox_trit_correct: "is_trit a \<Longrightarrow> is_trit b \<Longrightarrow> sbox_trit a b = balance (a * (1 + b * b) - b - 1)"
  using sbox_trit_table unfolding is_trit_cases by auto

lemma sbox_correct: "valid_trits s \<Longrightarrow> length s = 729 \<Longrightarrow> sbox s = curl_round s"
  unfolding sbox_def curl_round_def STATE_LENGTH_simp
proof (rule map_cong [OF refl])
  fix i assume s: "valid_trits s" "length s = 729" and i: "i \<in> set [0..<729]"
  have "364 * i mod 729 < 729" "364 * (i + 1) mod 729 < 729" by simp_all
  then have "is_trit (s ! (364 * i mod 729))" "is_trit (s ! (364 * (i + 1) mod 729))"
    using s by (simp_all add: list_all_length)
  moreover have "CURL_INDEX ! i = 364 * i mod 729" "CURL_INDEX ! (i + 1) = 364 * (i + 1) mod 729"
    using i by (intro curl_index; simp)+
  ultimately show "sbox_trit (s ! (CURL_INDEX ! i)) (s ! (CURL_INDEX ! (i + 1))) =
      (let a = s ! (364 * i mod 729); b = s ! (364 * (i + 1) mod 729) in balance (a * (1 + b * b) - b - 1))"
    by (simp only: sbox_trit_correct Let_def)
qed

lemma curl_round_length [simp]: "length (curl_round s) = 729"
  by (simp add: curl_round_def)

lemma curl_round_valid [simp]: "valid_trits (curl_round s)"
  by (simp add: curl_round_def list_all_length Let_def)

section \<open>The transformation\<close>

definition curl_ok :: "Curl \<Rightarrow> bool" where
  "curl_ok ctx \<longleftrightarrow> length (state ctx) = STATE_LENGTH \<and> valid_trits (state ctx)"

lemma curl_rounds_ok:
  "length s = 729 \<Longrightarrow> valid_trits s \<Longrightarrow> length ((curl_round ^^ n) s) = 729 \<and> valid_trits ((curl_round ^^ n) s)"
  by (induction n) auto

lemma transform_loop_correct:
  assumes "length cur = 729" "valid_trits cur" "cur = (if odd r then snd bufs else fst bufs)"
  shows "(let bufs' = transform_loop r n bufs in if odd (r + n) then snd bufs' else fst bufs') = (curl_round ^^ n) cur"
  using assms
proof (induction n arbitrary: r bufs cur)
  case 0
  then show ?case by (simp add: Let_def)
next
  case (Suc n)
  let ?bufs = "if odd r then (sbox (snd bufs), snd bufs) else (fst bufs, sbox (fst bufs))"
  have sb: "sbox cur = curl_round cur" using Suc.prems by (intro sbox_correct)
  have "curl_round cur = (if odd (r + 1) then snd ?bufs else fst ?bufs)"
    using Suc.prems(3) sb by auto
  from Suc.IH [OF _ _ this] have "(let bufs' = transform_loop (r + 1) n ?bufs in if odd (r + 1 + n) then snd bufs' else fst bufs')
      = (curl_round ^^ n) (curl_round cur)" by simp
  moreover have "transform_loop r (Suc n) bufs = transform_loop (r + 1) n ?bufs"
    by (cases bufs) (simp add: Let_def)
  ultimately show ?case by (simp add: funpow_swap1)
qed

lemma transform_correct: "curl_ok ctx \<Longrightarrow> transform ctx = ctx\<lparr>state := (curl_round ^^ curl_type ctx) (state ctx)\<rparr>"
  using transform_loop_correct [of "state ctx" 0 "(state ctx, [])" "curl_type ctx"]
  by (cases "transform_loop 0 (curl_type ctx) (state ctx, [])") (auto simp: transform_def curl_ok_def Let_def split: if_splits)

lemma transform_ok: "curl_ok ctx \<Longrightarrow> curl_ok (transform ctx) \<and> curl_type (transform ctx) = curl_type ctx"
  using curl_rounds_ok [of "state ctx" "curl_type ctx"] by (simp add: transform_correct) (simp add: curl_ok_def)

lemma curl_absorb_loop_ok:
  "curl_ok ctx \<Longrightarrow> valid_trits trits \<Longrightarrow>
    curl_ok (curl_absorb_loop n ctx trits) \<and> curl_type (curl_absorb_loop n ctx trits) = curl_type ctx"
proof (induction n arbitrary: ctx trits)
  case (Suc n)
  let ?ctx = "ctx\<lparr>state := blit (state ctx) 0 (take HASH_LENGTH_TRIT trits)\<rparr>"
  have "curl_ok ?ctx"
    using Suc.prems by (auto simp: curl_ok_def intro!: list_all_blit valid_trits_take length_blit)
  then have "curl_ok (transform ?ctx)" "curl_type (transform ?ctx) = curl_type ctx" using transform_ok by fastforce+
  with Suc show ?case by (simp add: valid_trits_drop)
qed simp

lemma curl_squeeze_loop_ok:
  assumes "curl_ok ctx" "num_chunks len \<le> n"
  shows "curl_ok (fst (curl_squeeze_loop n ctx len)) \<and> curl_type (fst (curl_squeeze_loop n ctx len)) = curl_type ctx
    \<and> valid_trits (snd (curl_squeeze_loop n ctx len)) \<and> length (snd (curl_squeeze_loop n ctx len)) = len"
  using assms
proof (induction n arbitrary: ctx len)
  case 0
  then show ?case by (simp add: num_chunks_def split: if_splits)
next
  case (Suc n)
  let ?len = "if len < 243 then 0 else len - 243"
  have nc: "num_chunks ?len \<le> n"
    using Suc.prems(2) by (auto simp: num_chunks_def le_div_geq le_mod_geq split: if_splits)
  have t: "curl_ok (transform ctx)" "curl_type (transform ctx) = curl_type ctx"
    using transform_ok [OF Suc.prems(1)] by auto
  note ih = Suc.IH [OF t(1) nc, unfolded t(2)]
  have "curl_squeeze_loop (Suc n) ctx len = (fst (curl_squeeze_loop n (transform ctx) ?len),
      take (if len < 243 then len else 243) (state ctx) @ snd (curl_squeeze_loop n (transform ctx) ?len))"
    by (simp add: Let_def split_beta)
  then show ?case
    using ih Suc.prems(1) by (simp add: curl_ok_def valid_trits_take del: curl_squeeze_loop.simps)
qed

lemma num_chunks_add: "num_chunks (243 * k + n) = k + num_chunks n"
  by (simp add: num_chunks_def)

lemma curl_absorb_ok:
  assumes "curl_ok ctx" "valid_trits trits"
  shows "curl_ok (curl_absorb ctx trits)" "curl_type (curl_absorb ctx trits) = curl_type ctx"
  using curl_absorb_loop_ok [OF assms] by (simp_all add: curl_absorb_def)

lemma curl_squeeze_ok:
  assumes "curl_ok ctx"
  shows "curl_ok (fst (curl_squeeze ctx len))" "curl_type (fst (curl_squeeze ctx len)) = curl_type ctx"
    "valid_trits (snd (curl_squeeze ctx len))" "length (snd (curl_squeeze ctx len)) = len"
  using curl_squeeze_loop_ok [OF assms order_refl, of len] by (simp_all add: curl_squeeze_def)

lemma curl_init_ok: "curl_ok (curl_init ctx)" "curl_ok (curl_reset ctx)" "curl_type (curl_reset ctx) = curl_type ctx"
  by (simp_all add: curl_ok_def curl_init_def curl_reset_def)

lemma curl_absorb_loop_append:
  "length xs = 243 * k \<Longrightarrow> curl_absorb_loop (k + n) ctx (xs @ ys) = curl_absorb_loop n (curl_absorb_loop k ctx xs) ys"
proof (induction k arbitrary: ctx xs)
  case (Suc k)
  then show ?case using Suc.IH [of "drop 243 xs"] by simp
qed simp

lemma curl_absorb_append:
  assumes "length xs mod 243 = 0"
  shows "curl_absorb ctx (xs @ ys) = curl_absorb (curl_absorb ctx xs) ys"
proof -
  obtain k where k: "length xs = 243 * k" using assms by auto
  then have "num_chunks (length xs) = k" using num_chunks_add [of k 0] by (simp add: num_chunks_def)
  with k curl_absorb_loop_append [OF k] show ?thesis
    by (simp add: curl_absorb_def num_chunks_add)
qed

section \<open>Properties\<close>

text \<open>
  C36. The transformation of Curl-P: the alternation of two buffers, the index table and the truth table
  compute the \<open>type\<close>-fold iteration of one arithmetic round function, for every number of rounds.
\<close>

theorem curl_transform_iterates_round:
  assumes "curl_ok ctx"
  shows "transform ctx = ctx\<lparr>state := (curl_round ^^ curl_type ctx) (state ctx)\<rparr> \<and> curl_ok (transform ctx)"
  using transform_correct [OF assms] transform_ok [OF assms] by simp

theorem curl_transform_iterates_round_witness:
  "transform \<lparr>state = replicate 729 0, curl_type = CURL_P_27\<rparr>
    = \<lparr>state = (curl_round ^^ 27) (replicate 729 0), curl_type = CURL_P_27\<rparr>"
proof -
  have "curl_ok \<lparr>state = replicate 729 0, curl_type = CURL_P_27\<rparr>" by (simp add: curl_ok_def)
  from curl_transform_iterates_round [OF this] show ?thesis by (simp add: CURL_P_27_def)
qed

text \<open>
  The Curl sponge: absorbing valid trits and squeezing keep the state well formed and the number of
  rounds; a squeeze delivers exactly the requested number of trits, all valid; input may be absorbed in
  pieces that are multiples of the hash length; a reset forgets everything but the number of rounds.
\<close>

theorem curl_sponge_correct:
  assumes "curl_ok ctx" "valid_trits xs" "valid_trits ys"
  shows "curl_ok (curl_absorb ctx xs) \<and> curl_ok (fst (curl_squeeze ctx len))
    \<and> length (snd (curl_squeeze ctx len)) = len \<and> valid_trits (snd (curl_squeeze ctx len))
    \<and> (length xs mod HASH_LENGTH_TRIT = 0 \<longrightarrow> curl_absorb ctx (xs @ ys) = curl_absorb (curl_absorb ctx xs) ys)
    \<and> curl_reset (fst (curl_squeeze (curl_absorb ctx xs) len)) = curl_init ctx"
proof -
  have "curl_reset (fst (curl_squeeze (curl_absorb ctx xs) len)) = curl_init ctx"
    using curl_squeeze_ok(2) [OF curl_absorb_ok(1) [OF assms(1,2)], of len] curl_absorb_ok(2) [OF assms(1,2)]
    by (simp add: curl_reset_def curl_init_def)
  then show ?thesis
    using assms by (simp add: curl_absorb_ok curl_squeeze_ok curl_absorb_append)
qed

theorem curl_sponge_correct_witness:
  "length (snd (curl_squeeze \<lparr>state = replicate 729 0, curl_type = 81\<rparr> 500)) = 500"
proof -
  have "curl_ok \<lparr>state = replicate 729 0, curl_type = 81\<rparr>" "valid_trits [1, 0]" by (simp_all add: curl_ok_def)
  from curl_sponge_correct [OF this(1,2,2)] show ?thesis by blast
qed

end
