(* ===== verification/Kerl_Bigint.thy ===== *)
theory Kerl_Bigint
  imports Prelude
begin

text \<open>
  \<open>common/crypto/kerl/bigint.c\<close>: arithmetic on little-endian arrays of 32-bit words. \<open>words_value\<close> is the
  number such an array stands for; every operation is shown to compute on these numbers modulo the size
  of the array.
\<close>

unbundle bit_operations_syntax

section \<open>Definitions\<close>

record full_add_s =
  carry :: bool
  fa_v :: u32

definition full_add :: "full_add_s \<Rightarrow> u64 \<Rightarrow> u64 \<Rightarrow> full_add_s" where
  "full_add fa lh rh =
     (let v = lh + rh;
          hi = (ucast (drop_bit 32 v) :: u32);
          fa = fa\<lparr>fa_v := ucast (v AND 0xFFFFFFFF)\<rparr>;
          carry1 = (hi \<noteq> 0)
      in if carry fa
         then (let v = (ucast (fa_v fa) :: u64) + 1;
                   hi = (ucast (drop_bit 32 v) :: u32)
               in fa\<lparr>fa_v := ucast (v AND 0xFFFFFFFF), carry := carry1 \<or> hi \<noteq> 0\<rparr>)
         else fa\<lparr>carry := carry1\<rparr>)"

definition bigint_not :: "u32 list \<Rightarrow> u32 list" where
  "bigint_not base = map (\<lambda>w. NOT w) base"

text \<open>
  The carry loop of \<open>bigint_add_small\<close> from index \<open>i\<close> on. The C loop does not check bounds: it would go
  on past the end of the array; here it stops there.
\<close>

fun add_carry :: "bool \<Rightarrow> u32 list \<Rightarrow> u32 list \<times> nat" where
  "add_carry c [] = ([], 0)"
| "add_carry c (w # ws) =
     (if c then (let fa = full_add \<lparr>carry = True, fa_v = 0\<rparr> (ucast w) 0;
                     (ws, n) = add_carry (carry fa) ws
                 in (fa_v fa # ws, n + 1))
      else (w # ws, 0))"

definition bigint_add_small :: "u32 list \<Rightarrow> u32 \<Rightarrow> u32 list \<times> nat" where
  "bigint_add_small base other =
     (let fa = full_add \<lparr>carry = False, fa_v = 0\<rparr> (ucast (base ! 0)) (ucast other);
          (rest, n) = add_carry (carry fa) (tl base)
      in (fa_v fa # rest, n + 1))"

fun add_words :: "bool \<Rightarrow> u32 list \<Rightarrow> u32 list \<Rightarrow> u32 list \<times> bool" where
  "add_words c (a # as) (b # bs) =
     (let fa = full_add \<lparr>carry = c, fa_v = 0\<rparr> (ucast a) (ucast b);
          (rest, c') = add_words (carry fa) as bs
      in (fa_v fa # rest, c'))"
| "add_words c as bs = (as, c)"

definition bigint_add :: "u32 list \<Rightarrow> u32 list \<Rightarrow> u32 list" where
  "bigint_add base rh = fst (add_words False base rh)"

text \<open>\<open>assert(fa.carry)\<close>: \<open>None\<close> is the failed assertion.\<close>

definition bigint_sub :: "u32 list \<Rightarrow> u32 list \<Rightarrow> u32 list option" where
  "bigint_sub base rh = (let (r, c) = add_words True base (map (\<lambda>w. NOT w) rh) in if c then Some r else None)"

text \<open>The loop runs from the most significant word down.\<close>

fun cmp_words :: "u32 list \<Rightarrow> u32 list \<Rightarrow> int" where
  "cmp_words (l # ls) (r # rs) = (if l < r then - 1 else if l > r then 1 else cmp_words ls rs)"
| "cmp_words _ _ = 0"

definition bigint_cmp :: "u32 list \<Rightarrow> u32 list \<Rightarrow> int" where
  "bigint_cmp lh rh = cmp_words (rev lh) (rev rh)"

section \<open>The numbers\<close>

fun words_value :: "u32 list \<Rightarrow> int" where
  "words_value [] = 0"
| "words_value (w # ws) = uint w + 2 ^ 32 * words_value ws"

lemma words_value_append: "words_value (xs @ ys) = words_value xs + 2 ^ (32 * length xs) * words_value ys"
  by (induction xs) (simp_all add: algebra_simps power_add)

lemma words_value_bounds: "0 \<le> words_value ws" "words_value ws < 2 ^ (32 * length ws)"
proof (induction ws)
  case (Cons w ws)
  have w: "0 \<le> uint w" "uint w < 2 ^ 32" using uint_lt2p [of w] by simp_all
  show "0 \<le> words_value (w # ws)" using w Cons(1) by simp
  have "words_value ws + 1 \<le> 2 ^ (32 * length ws)" using Cons(2) by simp
  then have "2 ^ 32 * (words_value ws + 1) \<le> (2::int) ^ 32 * 2 ^ (32 * length ws)" by (intro mult_left_mono) auto
  then show "words_value (w # ws) < 2 ^ (32 * length (w # ws))" using w by (simp add: power_add)
qed simp_all

lemma words_value_inj: "length xs = length ys \<Longrightarrow> words_value xs = words_value ys \<Longrightarrow> xs = ys"
proof (induction xs ys rule: list_induct2)
  case (Cons x xs y ys)
  have b: "0 \<le> uint x" "uint x < 2 ^ 32" "0 \<le> uint y" "uint y < 2 ^ 32" using uint_lt2p [of x] uint_lt2p [of y] by simp_all
  from Cons.prems have e: "uint x + 2 ^ 32 * words_value xs = uint y + 2 ^ 32 * words_value ys" by simp
  then have "(uint x + 2 ^ 32 * words_value xs) mod 2 ^ 32 = (uint y + 2 ^ 32 * words_value ys) mod 2 ^ 32" by simp
  then have "uint x = uint y" using b by simp
  with e Cons.IH show ?case by (simp add: word_uint_eq_iff)
qed simp

lemma low_word: "uint (ucast (v AND 0xFFFFFFFF) :: u32) = uint v mod 2 ^ 32" for v :: u64
proof -
  have "v AND 0xFFFFFFFF = take_bit 32 v" by (simp add: take_bit_eq_mask mask_eq_decr_exp)
  then have "uint (ucast (v AND 0xFFFFFFFF) :: u32) = take_bit 32 (uint v)"
    by (simp only: unsigned_ucast_eq unsigned_take_bit_eq) simp
  then show ?thesis by (simp only: take_bit_eq_mod)
qed

lemma high_word: "uint (ucast (drop_bit 32 v) :: u32) = uint v div 2 ^ 32" for v :: u64
proof -
  have "uint v < 2 ^ 64" using uint_lt2p [of v] by simp
  then have "uint v div 2 ^ 32 < 2 ^ 32" by simp
  moreover have "uint (ucast (drop_bit 32 v) :: u32) = take_bit 32 (drop_bit 32 (uint v))"
    by (simp only: unsigned_ucast_eq unsigned_take_bit_eq unsigned_drop_bit_eq) (simp add: take_bit_drop_bit)
  ultimately show ?thesis unfolding drop_bit_eq_div take_bit_eq_mod
    by (metis mod_pos_pos_trivial pos_imp_zdiv_nonneg_iff uint_ge_0 zero_less_numeral zero_less_power)
qed

lemma wide_add: "uint (ucast a + ucast b :: u64) = uint a + uint b" for a b :: u32
proof -
  have "uint a < 2 ^ 32" "uint b < 2 ^ 32" using uint_lt2p [of a] uint_lt2p [of b] by simp_all
  then show ?thesis by (simp add: uint_word_ariths unsigned_ucast_eq unsigned_take_bit_eq take_bit_int_eq_self)
qed

lemma carry_arith:
  fixes x M :: int
  assumes "0 \<le> x" "x \<le> 2 * M - 2" "1 < M"
  shows "x mod M + M * of_bool (x div M \<noteq> 0) = x"
    "(x mod M + 1) mod M + M * of_bool (x div M \<noteq> 0 \<or> (x mod M + 1) div M \<noteq> 0) = x + 1"
proof -
  have "x div M = (if x < M then 0 else 1) \<and> x mod M = (if x < M then x else x - M)"
    using assms int_div_pos_eq [of x M 1 "x - M"] int_mod_pos_eq [of x M 1 "x - M"] by auto
  moreover have "(x + 1) div M = 1 \<and> (x + 1) mod M = 0" if "x + 1 = M" using that assms by simp
  ultimately show "x mod M + M * of_bool (x div M \<noteq> 0) = x"
    "(x mod M + 1) mod M + M * of_bool (x div M \<noteq> 0 \<or> (x mod M + 1) div M \<noteq> 0) = x + 1"
    using assms by (cases "x + 1 = M"; cases "x < M"; simp)+
qed

lemma full_add_correct:
  fixes a b :: u32
  shows "uint (fa_v (full_add \<lparr>carry = c, fa_v = x\<rparr> (ucast a) (ucast b)))
    + 2 ^ 32 * of_bool (carry (full_add \<lparr>carry = c, fa_v = x\<rparr> (ucast a) (ucast b))) = uint a + uint b + of_bool c"
proof -
  let ?v = "ucast a + ucast b :: u64"
  let ?l = "ucast (?v AND 0xFFFFFFFF) :: u32"
  let ?w = "ucast ?l + 1 :: u64"
  have ab: "uint a < 2 ^ 32" "uint b < 2 ^ 32" using uint_lt2p [of a] uint_lt2p [of b] by simp_all
  have w: "uint ?w = uint ?l + 1" using wide_add [of ?l 1] by simp
  have hi: "(ucast (drop_bit 32 v) :: u32) \<noteq> 0 \<longleftrightarrow> uint v div 2 ^ 32 \<noteq> 0" for v :: u64
    using high_word [of v] by (metis uint_0_iff)
  have u: "0 \<le> uint a + uint b" "uint a + uint b \<le> 2 * 2 ^ 32 - 2" using ab by simp_all
  have l: "uint ?l = (uint a + uint b) mod 2 ^ 32" by (simp only: low_word wide_add)
  show ?thesis
  proof (cases c)
    case True
    then show ?thesis
      unfolding full_add_def Let_def using carry_arith(2) [OF u]
      by (simp only: full_add_s.select_convs full_add_s.update_convs if_True hi low_word wide_add w l) simp
  next
    case False
    then show ?thesis
      unfolding full_add_def Let_def using carry_arith(1) [OF u]
      by (simp only: full_add_s.select_convs full_add_s.update_convs if_False hi low_word wide_add l) simp
  qed
qed

lemma limb_carry:
  fixes u M N x :: int
  assumes "u + M * k = w + d" "0 \<le> u" "u < M" "0 < N"
  shows "u + M * ((x + k) mod N) = (w + M * x + d) mod (M * N)"
proof -
  have "w + M * x + d = u + M * (x + k)" using assms(1) by (simp add: algebra_simps)
  then show ?thesis using assms by (simp add: zmod_zmult2_eq)
qed

lemma two_power_limb: "(2::int) ^ (32 * Suc n) = 2 ^ 32 * 2 ^ (32 * n)"
  by (simp only: power_add [symmetric] mult_Suc_right)

lemma uint_limb: "0 \<le> uint w" "uint w < 2 ^ 32" for w :: u32
  using uint_lt2p [of w] by simp_all

lemma add_carry_correct:
  "words_value (fst (add_carry c ws)) = (words_value ws + of_bool c) mod 2 ^ (32 * length ws)
    \<and> length (fst (add_carry c ws)) = length ws"
proof (induction c ws rule: add_carry.induct)
  case (2 c w ws)
  show ?case
  proof (cases c)
    case True
    let ?fa = "full_add \<lparr>carry = True, fa_v = 0\<rparr> (ucast w) 0"
    have fa: "uint (fa_v ?fa) + 2 ^ 32 * of_bool (carry ?fa) = uint w + 1"
      using full_add_correct [of True 0 w 0] by simp
    have ih: "words_value (fst (add_carry (carry ?fa) ws)) = (words_value ws + of_bool (carry ?fa)) mod 2 ^ (32 * length ws)"
        "length (fst (add_carry (carry ?fa) ws)) = length ws"
      using 2 [OF True] by blast+
    have "fst (add_carry c (w # ws)) = fa_v ?fa # fst (add_carry (carry ?fa) ws)"
      using True by (simp add: Let_def split_beta)
    then show ?thesis
      using limb_carry [OF fa uint_limb, of "2 ^ (32 * length ws)" "words_value ws"] ih True
      by (simp only: words_value.simps two_power_limb length_Cons of_bool_eq simp_thms) simp
  next
    case False
    with words_value_bounds [of "w # ws"] show ?thesis by simp
  qed
qed simp

lemma bigint_add_small_correct:
  assumes "base \<noteq> []"
  shows "words_value (fst (bigint_add_small base other)) = (words_value base + uint other) mod 2 ^ (32 * length base)"
    "length (fst (bigint_add_small base other)) = length base"
proof -
  obtain w ws where b: "base = w # ws" using assms by (cases base) auto
  let ?fa = "full_add \<lparr>carry = False, fa_v = 0\<rparr> (ucast w) (ucast other)"
  have fa: "uint (fa_v ?fa) + 2 ^ 32 * of_bool (carry ?fa) = uint w + uint other"
    using full_add_correct [of False 0 w other] by simp
  have r: "fst (bigint_add_small base other) = fa_v ?fa # fst (add_carry (carry ?fa) ws)"
    by (simp add: bigint_add_small_def Let_def split_beta b)
  show "words_value (fst (bigint_add_small base other)) = (words_value base + uint other) mod 2 ^ (32 * length base)"
    using limb_carry [OF fa uint_limb, of "2 ^ (32 * length ws)" "words_value ws"] add_carry_correct [of "carry ?fa" ws]
    unfolding r unfolding b by (simp only: words_value.simps length_Cons two_power_limb zero_less_power zero_less_numeral)
  show "length (fst (bigint_add_small base other)) = length base"
    using add_carry_correct [of "carry ?fa" ws] by (simp only: r) (simp add: b)
qed

lemma add_words_correct:
  assumes "length as = length bs"
  shows "words_value (fst (add_words c as bs)) + 2 ^ (32 * length as) * of_bool (snd (add_words c as bs))
      = words_value as + words_value bs + of_bool c"
    "length (fst (add_words c as bs)) = length as"
proof -
  have "words_value (fst (add_words c as bs)) + 2 ^ (32 * length as) * of_bool (snd (add_words c as bs))
      = words_value as + words_value bs + of_bool c \<and> length (fst (add_words c as bs)) = length as" for c
  using assms
proof (induction as bs arbitrary: c rule: list_induct2)
  case (Cons a as b bs)
  let ?fa = "full_add \<lparr>carry = c, fa_v = 0\<rparr> (ucast a) (ucast b)"
  have fa: "uint (fa_v ?fa) = uint a + uint b + of_bool c - 2 ^ 32 * of_bool (carry ?fa)"
    using full_add_correct [of c 0 a b] by linarith
  have ih: "words_value (fst (add_words (carry ?fa) as bs)) = words_value as + words_value bs + of_bool (carry ?fa)
      - 2 ^ (32 * length as) * of_bool (snd (add_words (carry ?fa) as bs))"
    using Cons.IH [of "carry ?fa"] by linarith
  show ?case
    using Cons.IH [of "carry ?fa"] by (simp add: Let_def split_beta fa ih algebra_simps power_add)
qed simp
  then show "words_value (fst (add_words c as bs)) + 2 ^ (32 * length as) * of_bool (snd (add_words c as bs))
      = words_value as + words_value bs + of_bool c" "length (fst (add_words c as bs)) = length as" by blast+
qed

lemma uint_not: "uint (NOT w) = 2 ^ 32 - 1 - uint w" for w :: u32
proof -
  have "NOT w = - w - 1" by (rule not_eq_complement)
  then have "uint (NOT w) = (- uint w - 1) mod 2 ^ 32" by (simp add: uint_word_ariths mod_simps)
  also have "- uint w - 1 = 2 ^ 32 * (- 1) + (2 ^ 32 - 1 - uint w)" by simp
  also have "(2 ^ 32 * (- 1) + (2 ^ 32 - 1 - uint w)) mod 2 ^ 32 = (2 ^ 32 - 1 - uint w) mod 2 ^ 32"
    by (rule mod_mult_self4)
  also have "\<dots> = 2 ^ 32 - 1 - uint w" using uint_limb [of w] by (intro mod_pos_pos_trivial) linarith+
  finally show ?thesis .
qed

lemma bigint_not_correct:
  "words_value (bigint_not ws) = 2 ^ (32 * length ws) - 1 - words_value ws" "length (bigint_not ws) = length ws"
proof (induction ws)
  case (Cons w ws)
  from Cons show "words_value (bigint_not (w # ws)) = 2 ^ (32 * length (w # ws)) - 1 - words_value (w # ws)"
    "length (bigint_not (w # ws)) = length (w # ws)"
    by (simp_all add: bigint_not_def uint_not algebra_simps power_add)
qed (simp_all add: bigint_not_def)

lemma bigint_add_correct:
  assumes "length as = length bs"
  shows "words_value (bigint_add as bs) = (words_value as + words_value bs) mod 2 ^ (32 * length as)"
    "length (bigint_add as bs) = length as"
proof -
  let ?r = "add_words False as bs"
  have "words_value as + words_value bs = words_value (fst ?r) + 2 ^ (32 * length as) * of_bool (snd ?r)"
    using add_words_correct(1) [OF assms, of False] by simp
  moreover have "words_value (fst ?r) < 2 ^ (32 * length as)"
    using words_value_bounds(2) [of "fst ?r"] add_words_correct(2) [OF assms, of False] by simp
  ultimately show "words_value (bigint_add as bs) = (words_value as + words_value bs) mod 2 ^ (32 * length as)"
    using words_value_bounds(1) [of "fst ?r"] by (simp add: bigint_add_def)
  show "length (bigint_add as bs) = length as" by (simp add: bigint_add_def add_words_correct [OF assms])
qed

lemma bigint_sub_correct:
  assumes "length as = length bs"
  shows "if words_value bs \<le> words_value as
    then \<exists>r. bigint_sub as bs = Some r \<and> words_value r = words_value as - words_value bs \<and> length r = length as
    else bigint_sub as bs = None"
proof -
  let ?r = "add_words True as (bigint_not bs)"
  have l: "length as = length (bigint_not bs)" using assms by (simp add: bigint_not_correct)
  have e: "words_value (fst ?r) + 2 ^ (32 * length as) * of_bool (snd ?r)
      = words_value as + 2 ^ (32 * length as) - words_value bs"
    using add_words_correct(1) [OF l, of True] assms by (simp add: bigint_not_correct)
  have b: "0 \<le> words_value (fst ?r)" "words_value (fst ?r) < 2 ^ (32 * length as)"
    using words_value_bounds [of "fst ?r"] add_words_correct(2) [OF l, of True] by simp_all
  have "snd ?r \<longleftrightarrow> words_value bs \<le> words_value as"
    using e b by (cases "snd ?r") auto
  moreover have "bigint_sub as bs = (if snd ?r then Some (fst ?r) else None)"
    by (simp add: bigint_sub_def bigint_not_def split_beta)
  ultimately show ?thesis using e add_words_correct(2) [OF l, of True] by (cases "snd ?r") auto
qed

lemma cmp_words_correct:
  assumes "length ls = length rs"
  shows "cmp_words ls rs = sgn (words_value (rev ls) - words_value (rev rs))"
  using assms
proof (induction ls rs rule: list_induct2)
  case (Cons l ls r rs)
  let ?M = "(2::int) ^ (32 * length ls)"
  have v: "words_value (rev (l # ls)) - words_value (rev (r # rs))
      = (words_value (rev ls) - words_value (rev rs)) + ?M * (uint l - uint r)"
    using Cons.hyps by (simp add: words_value_append algebra_simps)
  have b: "\<bar>words_value (rev ls) - words_value (rev rs)\<bar> < ?M"
    using words_value_bounds [of "rev ls"] words_value_bounds [of "rev rs"] Cons.hyps by (simp add: abs_if)
  consider "l < r" | "r < l" | "l = r" by fastforce
  then show ?case
  proof cases
    case 1
    then have "?M * (uint l - uint r) \<le> ?M * (- 1)" by (intro mult_left_mono) (simp_all add: word_less_def)
    with b v have "words_value (rev (l # ls)) - words_value (rev (r # rs)) < 0" by linarith
    with 1 show ?thesis by (simp add: sgn_if)
  next
    case 2
    then have "?M * 1 \<le> ?M * (uint l - uint r)" by (intro mult_left_mono) (simp_all add: word_less_def)
    with b v have "0 < words_value (rev (l # ls)) - words_value (rev (r # rs))" by linarith
    with 2 show ?thesis by (simp add: sgn_if)
  next
    case 3
    with v Cons.IH show ?thesis by simp
  qed
qed simp

lemma bigint_cmp_correct:
  "length lh = length rh \<Longrightarrow> bigint_cmp lh rh = sgn (words_value lh - words_value rh)"
  using cmp_words_correct [of "rev lh" "rev rh"] by (simp add: bigint_cmp_def)

lemma add_carry_drop: "drop (snd (add_carry c ws)) (fst (add_carry c ws)) = drop (snd (add_carry c ws)) ws
    \<and> snd (add_carry c ws) \<le> length ws"
  by (induction c ws rule: add_carry.induct) (auto simp: Let_def split_beta)

text \<open>The words after the ones counted by the result of \<open>bigint_add_small\<close> are unchanged.\<close>

lemma bigint_add_small_drop:
  assumes "base \<noteq> []"
  shows "drop (snd (bigint_add_small base other)) (fst (bigint_add_small base other)) = drop (snd (bigint_add_small base other)) base"
    "snd (bigint_add_small base other) \<le> length base"
  using assms add_carry_drop by (cases base; simp add: bigint_add_small_def Let_def split_beta)+

lemma words_value_zeros [simp]: "words_value (replicate n 0) = 0"
  by (induction n) simp_all

lemma words_value_eq_0: "words_value ws = 0 \<longleftrightarrow> list_all (\<lambda>w. w = 0) ws"
proof (induction ws)
  case (Cons w ws)
  have "0 \<le> uint w" "0 \<le> words_value ws" by (simp_all add: words_value_bounds)
  then have "words_value (w # ws) = 0 \<longleftrightarrow> uint w = 0 \<and> words_value ws = 0" by (auto simp: add_nonneg_eq_0_iff)
  with Cons show ?case by (simp add: uint_0_iff)
qed simp

end
