(* ===== verification/Kerl_Converter.thy ===== *)
theory Kerl_Converter
  imports Prelude Kerl_Bigint
begin

text \<open>
  \<open>common/crypto/kerl/converter.c\<close>: 242 trits to a 48-byte big-endian two's complement number and back.
  The code works on the byte buffer through a \<open>uint32_t\<close> pointer; \<open>words_of_bytes\<close> and
  \<open>bytes_of_words\<close> are the two views of the buffer on a little-endian machine.
\<close>

unbundle bit_operations_syntax

section \<open>Definitions\<close>

definition INT_LEN :: nat where "INT_LEN = 12"
definition BYTE_LEN :: nat where "BYTE_LEN = 48"
definition BYTE_LEN_2 :: nat where "BYTE_LEN_2 = 24"
definition TRIT_LEN :: nat where "TRIT_LEN = 243"

definition HALF_3 :: "u32 list" where
  "HALF_3 = [0xa5ce8964, 0x9f007669, 0x1484504f, 0x3ade00d9, 0x0c24486e, 0x50979d57,
             0x79a4c702, 0x48bbae36, 0xa9f6808b, 0xaa06a805, 0xa87fabdf, 0x5e69ebef]"

fun words_of_bytes :: "u8 list \<Rightarrow> u32 list" where
  "words_of_bytes (a # b # c # d # bs) =
     (ucast a + 2 ^ 8 * ucast b + 2 ^ 16 * ucast c + 2 ^ 24 * ucast d) # words_of_bytes bs"
| "words_of_bytes _ = []"

definition bytes_of_words :: "u32 list \<Rightarrow> u8 list" where
  "bytes_of_words ws = concat (map (\<lambda>w. [ucast w, ucast (drop_bit 8 w), ucast (drop_bit 16 w), ucast (drop_bit 24 w)]) ws)"

definition is_null :: "u32 list \<Rightarrow> bool" where
  "is_null base = list_all (\<lambda>w. w = 0) base"

definition swap_bytes :: "nat \<Rightarrow> u8 list \<Rightarrow> u8 list" where
  "swap_bytes i bytes = (let tmp = bytes ! i in bytes[i := bytes ! (BYTE_LEN - i - 1), BYTE_LEN - i - 1 := tmp])"

definition space_reverse :: "u8 list \<Rightarrow> u8 list" where
  "space_reverse bytes = fold swap_bytes [0..<BYTE_LEN_2] bytes"

text \<open>The inner loop of the multiplication by the radix.\<close>

fun mul_radix :: "u32 list \<Rightarrow> u32 \<Rightarrow> u32 list \<times> u32" where
  "mul_radix [] cy = ([], cy)"
| "mul_radix (w # ws) cy =
     (let v = (ucast w :: u64) * 3 + ucast cy;
          (ws, cy) = mul_radix ws (ucast (drop_bit 32 v))
      in (ucast (v AND 0xFFFFFFFF) # ws, cy))"

definition accumulate_trit :: "trit \<Rightarrow> u32 list \<times> nat \<Rightarrow> u32 list \<times> nat" where
  "accumulate_trit trit st =
     (let (base, size') = st;
          sz = size';
          (low, cy) = mul_radix (take sz base) 0;
          base = blit base 0 low;
          (base, size') = (if cy \<noteq> 0 then (base[sz := cy], size' + 1) else (base, size'));
          (base, sz) = bigint_add_small base (word_of_int (trit + 1))
      in (base, if sz > size' then sz else size'))"

text \<open>
  The result is \<open>None\<close> when the assertion of \<open>bigint_sub\<close> fails. \<open>memset(base, 0, INT_LEN)\<close> clears 12
  bytes, that is 3 of the 12 words of the buffer.
\<close>

definition subtract_half :: "u32 list \<Rightarrow> u32 list option" where
  "subtract_half base =
     (if is_null base then Some base
      else if bigint_cmp HALF_3 base \<le> 0 then bigint_sub base HALF_3
      else case bigint_sub HALF_3 base of
             None \<Rightarrow> None
           | Some tmp \<Rightarrow> Some (fst (bigint_add_small (bigint_not tmp) 1)))"

definition trits_base :: "trit list \<Rightarrow> u32 list \<Rightarrow> u32 list option" where
  "trits_base trits base =
     (let all_minus_1 = list_all (\<lambda>t. t = - 1) (take (TRIT_LEN - 1) trits)
      in if all_minus_1 then Some (fst (bigint_add_small (bigint_not (blit base 0 HALF_3)) 1))
         else subtract_half (fst (foldr accumulate_trit (take (TRIT_LEN - 1) trits) (base, 1))))"

definition convert_trits_to_bytes :: "trit list \<Rightarrow> u8 list \<Rightarrow> u8 list option" where
  "convert_trits_to_bytes trits bytes =
     (case trits_base trits (words_of_bytes (blit bytes 0 (replicate INT_LEN 0))) of
        None \<Rightarrow> None
      | Some base \<Rightarrow> Some (space_reverse (bytes_of_words base)))"

text \<open>Division by the radix, from the most significant word down.\<close>

fun div_radix :: "u64 \<Rightarrow> u32 list \<Rightarrow> u32 list \<times> u64" where
  "div_radix rem [] = ([], rem)"
| "div_radix rem (w # ws) =
     (let lhs = push_bit 32 rem OR ucast w;
          (ws, rem') = div_radix (ucast (ucast (lhs mod 3) :: u32)) ws
      in (ucast (lhs div 3) # ws, rem'))"

primrec extract_trits :: "nat \<Rightarrow> u32 list \<Rightarrow> trit list" where
  "extract_trits 0 base = []"
| "extract_trits (Suc n) base =
     (let (quot, rem) = div_radix 0 (rev base)
      in (uint (ucast rem :: u8) - 1) # extract_trits n (rev quot))"

text \<open>
  The number is moved to the unsigned range of 242 trits; the flag tells that the trits have to be
  negated at the end.
\<close>

definition shift_in :: "u32 list \<Rightarrow> (u32 list \<times> bool) option" where
  "shift_in base =
     (if drop_bit 31 (base ! (INT_LEN - 1)) = 0 then Some (bigint_add base HALF_3, False)
      else let base = bigint_not base
           in if bigint_cmp base HALF_3 > 0
              then (case bigint_sub base HALF_3 of None \<Rightarrow> None | Some base \<Rightarrow> Some (base, True))
              else let base = fst (bigint_add_small base 1)
                   in case bigint_sub HALF_3 base of None \<Rightarrow> None | Some tmp \<Rightarrow> Some (tmp, False))"

definition convert_bytes_to_trits :: "u8 list \<Rightarrow> trit list option" where
  "convert_bytes_to_trits bytes =
     (if is_null (words_of_bytes bytes) then Some (replicate TRIT_LEN 0)
      else case shift_in (words_of_bytes (space_reverse bytes)) of
             None \<Rightarrow> None
           | Some (base, flip_trits) \<Rightarrow>
               (let trits = extract_trits (TRIT_LEN - 1) base
                in Some ((if flip_trits then map uminus trits else trits) @ [0])))"

section \<open>The two views of the buffer\<close>

fun bytes_value :: "u8 list \<Rightarrow> int" where
  "bytes_value [] = 0"
| "bytes_value (b # bs) = uint b + 2 ^ 8 * bytes_value bs"

lemma conv_lens [simp]: "INT_LEN = 12" "BYTE_LEN = 48" "BYTE_LEN_2 = 24" "TRIT_LEN = 243"
  by (simp_all add: INT_LEN_def BYTE_LEN_def BYTE_LEN_2_def TRIT_LEN_def)

lemma int_div_less: "a < b * c \<Longrightarrow> 0 < c \<Longrightarrow> a div c < b" for a b c :: int
proof (rule ccontr)
  assume a: "a < b * c" "0 < c" "\<not> a div c < b"
  then have "b * c \<le> a div c * c" by (intro mult_right_mono) auto
  also have "\<dots> \<le> a" using a(2) pos_mod_sign [of c a] div_mult_mod_eq [of a c] by linarith
  finally show False using a(1) by simp
qed

lemma uint_byte: "0 \<le> uint b" "uint b < 2 ^ 8" for b :: u8
  using uint_lt2p [of b] by simp_all

lemma word_of_bytes_value:
  "uint (ucast a + 2 ^ 8 * ucast b + 2 ^ 16 * ucast c + 2 ^ 24 * ucast d :: u32)
    = uint a + 2 ^ 8 * (uint b + 2 ^ 8 * (uint c + 2 ^ 8 * uint d))" for a b c d :: u8
proof -
  let ?n = "uint a + 2 ^ 8 * (uint b + 2 ^ 8 * (uint c + 2 ^ 8 * uint d))"
  have "0 \<le> ?n" "?n < 2 ^ 32" using uint_byte [of a] uint_byte [of b] uint_byte [of c] uint_byte [of d] by simp_all
  moreover have "(ucast a + 2 ^ 8 * ucast b + 2 ^ 16 * ucast c + 2 ^ 24 * ucast d :: u32) = word_of_int ?n"
    by (simp add: algebra_simps)
  ultimately show ?thesis by (simp only: uint_word_of_int mod_pos_pos_trivial len_num1 len_bit0) simp
qed

lemma words_of_bytes_value:
  "length bs = 4 * n \<Longrightarrow> words_value (words_of_bytes bs) = bytes_value bs \<and> length (words_of_bytes bs) = n"
proof (induction n arbitrary: bs)
  case (Suc n)
  then obtain a b c d bs' where bs: "bs = a # b # c # d # bs'" "length bs' = 4 * n"
    by (cases bs rule: words_of_bytes.cases) simp_all
  from Suc.IH [OF bs(2)] show ?case by (simp only: bs(1) words_of_bytes.simps words_value.simps word_of_bytes_value) simp
qed simp

lemma bytes_of_word_value:
  "bytes_value ([ucast w, ucast (drop_bit 8 w), ucast (drop_bit 16 w), ucast (drop_bit 24 w)] @ bs)
    = uint w + 2 ^ 32 * bytes_value bs" for w :: u32
proof -
  have u: "uint (ucast (drop_bit k w) :: u8) = uint w div 2 ^ k mod 2 ^ 8" for k
    by (simp only: unsigned_ucast_eq unsigned_take_bit_eq unsigned_drop_bit_eq) (use uint_limb [of w] in \<open>simp add: take_bit_eq_mod drop_bit_eq_div\<close>)
  have u0: "uint (ucast w :: u8) = uint w mod 2 ^ 8" using u [of 0] by simp
  let ?q = "\<lambda>x :: int. x div 2 ^ 8"
  have q: "uint w div 2 ^ 16 = ?q (?q (uint w))" "uint w div 2 ^ 24 = ?q (?q (?q (uint w)))"
    by (simp_all add: zdiv_zmult2_eq [symmetric])
  have m: "x mod 2 ^ 8 = x - 2 ^ 8 * ?q x" for x :: int by (simp add: minus_mult_div_eq_mod)
  have "0 \<le> uint w div 16777216" "uint w div 16777216 < 256"
    using uint_limb [of w] by (simp_all add: int_div_less pos_imp_zdiv_nonneg_iff)
  then have "?q (?q (?q (uint w))) mod 2 ^ 8 = ?q (?q (?q (uint w)))"
    by (simp add: zdiv_zmult2_eq [symmetric])
  then show ?thesis
    by (simp only: append.simps bytes_value.simps u u0 q m) (simp add: algebra_simps)
qed

lemma bytes_of_words_value: "bytes_value (bytes_of_words ws) = words_value ws" "length (bytes_of_words ws) = 4 * length ws"
proof (induction ws)
  case (Cons w ws)
  have e: "bytes_of_words (w # ws) = [ucast w, ucast (drop_bit 8 w), ucast (drop_bit 16 w), ucast (drop_bit 24 w)] @ bytes_of_words ws"
    by (simp add: bytes_of_words_def)
  show "bytes_value (bytes_of_words (w # ws)) = words_value (w # ws)"
    unfolding e bytes_of_word_value using Cons by simp
  show "length (bytes_of_words (w # ws)) = 4 * length (w # ws)" unfolding e using Cons by simp
qed (simp_all add: bytes_of_words_def)

lemma swap_bytes_fold:
  assumes "length bs = 48" "k \<le> 24"
  shows "length (fold swap_bytes [0..<k] bs) = 48
    \<and> (\<forall>j < 48. fold swap_bytes [0..<k] bs ! j = (if j < k \<or> 48 \<le> j + k then bs ! (47 - j) else bs ! j))"
  using assms(2)
proof (induction k)
  case (Suc k)
  let ?b = "fold swap_bytes [0..<k] bs"
  have ih: "length ?b = 48" "\<And>j. j < 48 \<Longrightarrow> ?b ! j = (if j < k \<or> 48 \<le> j + k then bs ! (47 - j) else bs ! j)"
    using Suc by auto
  have "?b ! k = bs ! k" "?b ! (47 - k) = bs ! (47 - k)" using ih Suc.prems by auto
  then have "swap_bytes k ?b = ?b[k := bs ! (47 - k), 47 - k := bs ! k]"
    by (simp add: swap_bytes_def Let_def)
  then have sw: "swap_bytes k ?b ! j = (if j = 47 - k then bs ! k else if j = k then bs ! (47 - k) else ?b ! j)" if "j < 48" for j
    using ih(1) that Suc.prems by (simp add: nth_list_update)
  have "swap_bytes k ?b ! j = (if j < Suc k \<or> 48 \<le> j + Suc k then bs ! (47 - j) else bs ! j)" if "j < 48" for j
  proof -
    consider "j = 47 - k" | "j = k" | "j \<noteq> 47 - k" "j \<noteq> k" by blast
    then show ?thesis
      using that Suc.prems by cases (simp_all add: sw ih(2), auto)
  qed
  moreover have "length (swap_bytes k ?b) = 48" using ih(1) by (simp add: swap_bytes_def Let_def)
  ultimately show ?case by simp
qed (use assms(1) in auto)

lemma space_reverse_rev: "length bs = 48 \<Longrightarrow> space_reverse bs = rev bs"
  using swap_bytes_fold [of bs 24] by (intro nth_equalityI) (auto simp: space_reverse_def rev_nth)

section \<open>Trits to bytes\<close>

definition half_3 :: int where
  "half_3 = (3 ^ 242 - 1) div 2"

lemma HALF_3_value: "words_value HALF_3 = half_3" "length HALF_3 = 12"
  by (simp_all add: HALF_3_def half_3_def)

lemma half_3_double: "2 * half_3 + 1 = 3 ^ 242"
  by (simp add: half_3_def)

lemma half_3_bounds: "0 < half_3" "2 * half_3 + 1 < 2 ^ 384" "half_3 < 2 ^ 383"
  by (simp_all add: half_3_def)

lemma mul_radix_correct:
  "uint c < 3 \<Longrightarrow> words_value (fst (mul_radix ws c)) + 2 ^ (32 * length ws) * uint (snd (mul_radix ws c)) = 3 * words_value ws + uint c
    \<and> length (fst (mul_radix ws c)) = length ws"
proof (induction ws c rule: mul_radix.induct)
  case (2 w ws c)
  let ?v = "(ucast w :: u64) * 3 + ucast c"
  let ?c = "ucast (drop_bit 32 ?v) :: u32"
  have w: "0 \<le> uint w" "uint w < 2 ^ 32" by (rule uint_limb)+
  have c: "0 \<le> uint c" "uint c < 3" using 2 by simp_all
  have "uint ?v = uint w * 3 + uint c"
    using w c by (simp add: uint_word_ariths unsigned_ucast_eq unsigned_take_bit_eq take_bit_int_eq_self)
  then have v: "uint (ucast (?v AND 0xFFFFFFFF) :: u32) = (uint w * 3 + uint c) mod 2 ^ 32"
      "uint ?c = (uint w * 3 + uint c) div 2 ^ 32"
    by (simp_all only: low_word high_word)
  have "uint ?c < 3" unfolding v(2) using w c by (intro int_div_less) linarith+
  note ih = 2(1) [OF refl this]
  have "fst (mul_radix (w # ws) c) = ucast (?v AND 0xFFFFFFFF) # fst (mul_radix ws ?c)"
      "snd (mul_radix (w # ws) c) = snd (mul_radix ws ?c)"
    by (simp_all only: mul_radix.simps Let_def split_beta fst_conv snd_conv)
  moreover have "2 ^ 32 * (words_value (fst (mul_radix ws ?c)) + 2 ^ (32 * length ws) * uint (snd (mul_radix ws ?c)))
      = 2 ^ 32 * (3 * words_value ws + uint ?c)" using ih by simp
  moreover have "(uint w * 3 + uint c) mod 2 ^ 32 = uint w * 3 + uint c - 2 ^ 32 * uint ?c"
    unfolding v(2) by (simp only: minus_mult_div_eq_mod)
  ultimately show ?case using ih
    by (simp only: words_value.simps length_Cons two_power_limb v(1)) (simp add: algebra_simps)
qed simp

text \<open>The state of the accumulation: \<open>sz\<close> words hold the number, the words above are zero.\<close>

definition acc_inv :: "u32 list \<times> nat \<Rightarrow> int \<Rightarrow> bool" where
  "acc_inv st N \<longleftrightarrow> (case st of (base, sz) \<Rightarrow>
     length base = 12 \<and> 1 \<le> sz \<and> sz \<le> 12 \<and> drop sz base = replicate (12 - sz) 0 \<and> words_value base = N)"

lemma acc_multiply:
  assumes inv: "acc_inv (base, sz) N" and le: "3 * N < 2 ^ 384"
    and mul: "mul_radix (take sz base) 0 = (low, cy)"
  defines "st \<equiv> (if cy \<noteq> 0 then ((blit base 0 low)[sz := cy], sz + 1) else (blit base 0 low, sz))"
  shows "acc_inv st (3 * N)"
proof -
  have b: "length base = 12" "1 \<le> sz" "sz \<le> 12" "drop sz base = replicate (12 - sz) 0" "words_value base = N"
    using inv by (simp_all add: acc_inv_def)
  have "words_value (take sz base) = N"
    using words_value_append [of "take sz base" "drop sz base"] b(5) unfolding append_take_drop_id unfolding b(4) by simp
  then have m: "words_value low + 2 ^ (32 * sz) * uint cy = 3 * N" "length low = sz"
    using mul_radix_correct [of 0 "take sz base"] mul b by simp_all
  have bl: "blit base 0 low = low @ replicate (12 - sz) 0" using m(2) b by (simp add: blit_def)
  show ?thesis
  proof (cases "cy = 0")
    case True
    then show ?thesis using b m by (simp add: st_def acc_inv_def bl words_value_append)
  next
    case False
    then have "uint cy \<noteq> 0" by (simp add: uint_0_iff)
    then have "1 \<le> uint cy" using uint_limb(1) [of cy] by linarith
    then have "2 ^ (32 * sz) * 1 \<le> 2 ^ (32 * sz) * uint cy" by (intro mult_left_mono) auto
    then have "2 ^ (32 * sz) \<le> 3 * N" using m(1) words_value_bounds [of low] by linarith
    then have "(2::int) ^ (32 * sz) < 2 ^ 384" using le by linarith
    then have "32 * sz < 384" by (rule power_less_imp_less_exp [rotated]) simp
    then have sz: "sz < 12" by simp
    then have "replicate (12 - sz) (0 :: u32) = 0 # replicate (11 - sz) 0" by (cases "12 - sz") auto
    then have "(blit base 0 low)[sz := cy] = low @ cy # replicate (11 - sz) 0"
      using m(2) by (simp add: bl list_update_append)
    with False sz m show ?thesis by (simp add: st_def acc_inv_def words_value_append)
  qed
qed

lemma accumulate_trit_correct:
  assumes inv: "acc_inv st N" and t: "is_trit t" and N: "0 \<le> N" "3 * N + 2 < 2 ^ 384"
  shows "acc_inv (accumulate_trit t st) (3 * N + t + 1)"
proof -
  obtain base sz where st: "st = (base, sz)" by (cases st)
  obtain low cy where mul: "mul_radix (take sz base) 0 = (low, cy)" by fastforce
  obtain b1 s1 where s1: "(if cy \<noteq> 0 then ((blit base 0 low)[sz := cy], sz + 1) else (blit base 0 low, sz)) = (b1, s1)"
    by fastforce
  have a1: "acc_inv (b1, s1) (3 * N)"
    using acc_multiply [OF inv [unfolded st] _ mul] N by (simp only: s1)
  let ?r = "bigint_add_small b1 (word_of_int (t + 1))"
  have t1: "uint (word_of_int (t + 1) :: u32) = t + 1"
    using t by (auto simp: is_trit_cases)
  have b1: "length b1 = 12" "1 \<le> s1" "s1 \<le> 12" "drop s1 b1 = replicate (12 - s1) 0" "words_value b1 = 3 * N"
    using a1 by (simp_all add: acc_inv_def)
  then have ne: "b1 \<noteq> []" by auto
  note small = bigint_add_small_correct [OF ne, of "word_of_int (t + 1)"] bigint_add_small_drop [OF ne, of "word_of_int (t + 1)"]
  have "words_value (fst ?r) = (3 * N + (t + 1)) mod 2 ^ (32 * 12)"
    using small(1) unfolding t1 b1(1,5) .
  also have "\<dots> = 3 * N + t + 1" using t N by (simp add: is_trit_def)
  finally have "words_value (fst ?r) = 3 * N + t + 1" .
  moreover have "drop m (fst ?r) = replicate (12 - m) 0" if "m = max (snd ?r) s1" for m
  proof -
    have "drop m (fst ?r) = drop (m - snd ?r) (drop (snd ?r) (fst ?r))" using that by simp
    also have "\<dots> = drop m b1" using that by (simp only: small(3)) simp
    also have "\<dots> = drop (m - s1) (drop s1 b1)" using that by simp
    finally show ?thesis using that b1 by simp
  qed
  moreover have "accumulate_trit t st = (fst ?r, max (snd ?r) s1)"
    using s1 mul by (cases "cy = 0") (auto simp: accumulate_trit_def st Let_def split_beta max_def)
  ultimately show ?thesis using small b1 by (simp add: acc_inv_def)
qed

lemma half_step: "3 * ((3 ^ n - 1) div 2) + 1 = ((3::int) ^ Suc n - 1) div 2"
proof -
  have "3 * h + 1 = (3 * (2 * h + 1) - 1) div 2" for h :: int by simp
  moreover have "2 * ((3 ^ n - 1) div 2) + 1 = (3::int) ^ n" by simp
  ultimately show ?thesis by (metis power_Suc)
qed

lemma accumulate_correct:
  assumes "acc_inv st 0" "valid_trits ts" "length ts \<le> 242"
  shows "acc_inv (foldr accumulate_trit ts st) (bt_value ts + (3 ^ length ts - 1) div 2)"
  using assms(2,3)
proof (induction ts)
  case (Cons t ts)
  let ?N = "bt_value ts + (3 ^ length ts - 1) div 2"
  have odd: "2 * ((3 ^ n - 1) div 2) + 1 = (3::int) ^ n" for n by simp
  have "2 * \<bar>bt_value ts\<bar> < 3 ^ length ts" using Cons.prems by (intro bt_value_bound) simp
  then have N: "0 \<le> ?N" "?N < 3 ^ length ts" using odd [of "length ts"] by linarith+
  have "(3::int) ^ length ts \<le> 3 ^ 241" using Cons.prems by (intro power_increasing) auto
  with N(2) have "?N < 3 ^ 241" by (rule less_le_trans)
  moreover have "3 * (3::int) ^ 241 + 2 < 2 ^ 384" by simp
  moreover have "3 * x + 2 < z" if "x < y" "3 * y + 2 < z" for x y z :: int using that by linarith
  ultimately have "3 * ?N + 2 < 2 ^ 384" by blast
  from accumulate_trit_correct [OF Cons.IH _ N(1) this, of t] Cons.prems
  have "acc_inv (foldr accumulate_trit (t # ts) st) (3 * ?N + t + 1)" by simp
  moreover have "3 * ?N + t + 1 = bt_value (t # ts) + (3 ^ length (t # ts) - 1) div 2"
    using half_step [of "length ts"] by simp
  ultimately show ?case by (simp only:)
qed (use assms(1) in simp)

lemma negate_correct:
  assumes "length ws = 12"
  shows "words_value (fst (bigint_add_small (bigint_not ws) 1)) = - words_value ws mod 2 ^ 384"
    "length (fst (bigint_add_small (bigint_not ws) 1)) = 12"
proof -
  have n: "bigint_not ws \<noteq> []" using assms by (auto simp: bigint_not_def)
  show "words_value (fst (bigint_add_small (bigint_not ws) 1)) = - words_value ws mod 2 ^ 384"
    using bigint_add_small_correct(1) [OF n, of 1] assms
    by (simp only: bigint_not_correct) (simp add: minus_mod_self1 mod_diff_left_eq)
  show "length (fst (bigint_add_small (bigint_not ws) 1)) = 12"
    using bigint_add_small_correct(2) [OF n, of 1] assms by (simp add: bigint_not_correct)
qed

lemma bt_value_all_minus: "list_all (\<lambda>t. t = - 1) ts \<Longrightarrow> bt_value ts = - ((3 ^ length ts - 1) div 2)"
proof (induction ts)
  case (Cons t ts)
  with half_step [of "length ts"] show ?case by simp
qed simp

text \<open>The number \<open>v + half\<close> becomes \<open>v\<close> in two's complement.\<close>

lemma subtract_half_correct:
  assumes b: "length base = 12" "words_value base = v + half_3" and v: "- half_3 < v" "v \<le> half_3"
  shows "\<exists>r. subtract_half base = Some r \<and> length r = 12 \<and> words_value r = v mod 2 ^ 384"
proof -
  have lh: "length HALF_3 = length base" using b HALF_3_value by simp
  have nz: "\<not> is_null base" using words_value_eq_0 [of base] b(2) v(1) by (simp add: is_null_def)
  have cmp: "bigint_cmp HALF_3 base \<le> 0 \<longleftrightarrow> 0 \<le> v"
    unfolding bigint_cmp_correct [OF lh] HALF_3_value b(2) by (auto simp: sgn_if)
  show ?thesis
  proof (cases "0 \<le> v")
    case True
    then obtain r where r: "bigint_sub base HALF_3 = Some r" "words_value r = v" "length r = 12"
      using bigint_sub_correct [OF lh [symmetric]] b HALF_3_value by auto
    have "v mod 2 ^ 384 = v" using True v half_3_bounds by (intro mod_pos_pos_trivial) linarith+
    with r True nz cmp show ?thesis by (simp add: subtract_half_def)
  next
    case False
    then obtain r where r: "bigint_sub HALF_3 base = Some r" "words_value r = - v" "length r = 12"
      using bigint_sub_correct [OF lh] b HALF_3_value by auto
    from negate_correct [OF r(3)] r False nz cmp show ?thesis by (simp add: subtract_half_def)
  qed
qed

lemma trits_base_correct:
  assumes "valid_trits trits" "length trits = 243"
  shows "\<exists>r. trits_base trits (replicate 12 0) = Some r \<and> length r = 12
    \<and> words_value r = bt_value (take 242 trits) mod 2 ^ 384"
proof -
  let ?ts = "take 242 trits" and ?v = "bt_value (take 242 trits)"
  have ts: "valid_trits ?ts" "length ?ts = 242" using assms by (simp_all add: valid_trits_take)
  have tl: "TRIT_LEN - 1 = 242" by simp
  show ?thesis
  proof (cases "list_all (\<lambda>t. t = - 1) ?ts")
    case True
    have "?v = - half_3" using bt_value_all_minus [OF True] unfolding ts(2) half_3_def .
    moreover have "blit (replicate 12 0) 0 HALF_3 = HALF_3" by (rule blit_0_all) (simp add: HALF_3_value)
    ultimately show ?thesis using True negate_correct [of HALF_3] by (simp add: trits_base_def HALF_3_value)
  next
    case False
    have "?v \<noteq> - half_3"
    proof
      assume "?v = - half_3"
      then have "bt_value ?ts = bt_value (replicate 242 (- 1))"
        using bt_value_all_minus [of "replicate 242 (- 1)"] by (simp add: half_3_def list_all_length)
      then have "?ts = replicate 242 (- 1)" by (intro bt_value_inj ts) (simp_all add: assms(2) list_all_length)
      then show False using False by (simp add: list_all_length)
    qed
    moreover have "\<bar>?v\<bar> \<le> half_3" using bt_value_bound [OF ts(1)] half_3_double unfolding ts(2) by linarith
    ultimately have v: "- half_3 < ?v" "?v \<le> half_3" by linarith+
    obtain base sz where acc: "foldr accumulate_trit ?ts (replicate 12 0, 1) = (base, sz)" by fastforce
    have "acc_inv (replicate 12 0, 1) 0" by (simp add: acc_inv_def)
    from accumulate_correct [OF this ts(1)] have "acc_inv (base, sz) (?v + half_3)"
      unfolding acc half_3_def ts(2) by simp
    then have "length base = 12" "words_value base = ?v + half_3" by (simp_all add: acc_inv_def)
    from subtract_half_correct [OF this v] False show ?thesis
      by (simp only: trits_base_def Let_def tl acc fst_conv if_False)
  qed
qed

lemma convert_trits_to_bytes_correct:
  assumes "valid_trits trits" "length trits = 243"
  shows "\<exists>bytes. convert_trits_to_bytes trits (replicate 48 0) = Some bytes \<and> length bytes = 48
    \<and> bytes_value (rev bytes) = bt_value (take 242 trits) mod 2 ^ 384"
proof -
  obtain r where r: "trits_base trits (replicate 12 0) = Some r" "length r = 12"
      "words_value r = bt_value (take 242 trits) mod 2 ^ 384"
    using trits_base_correct [OF assms] by blast
  have base: "words_of_bytes (blit (replicate 48 0) 0 (replicate INT_LEN 0)) = replicate 12 0"
    by code_simp
  have "length (bytes_of_words r) = 48" using r(2) by (simp add: bytes_of_words_value)
  with r show ?thesis
    unfolding convert_trits_to_bytes_def base by (simp add: space_reverse_rev bytes_of_words_value)
qed

section \<open>Bytes to trits\<close>

lemma div_radix_correct:
  assumes "uint rem < 3"
  shows "words_value (rev (fst (div_radix rem ws))) = (uint rem * 2 ^ (32 * length ws) + words_value (rev ws)) div 3
    \<and> uint (snd (div_radix rem ws)) = (uint rem * 2 ^ (32 * length ws) + words_value (rev ws)) mod 3
    \<and> length (fst (div_radix rem ws)) = length ws"
  using assms
proof (induction ws arbitrary: rem)
  case (Cons w ws)
  let ?lhs = "push_bit 32 rem OR ucast w :: u64"
  let ?L = "uint w + uint rem * 2 ^ 32"
  let ?rem = "ucast (ucast (?lhs mod 3) :: u32) :: u64"
  let ?B = "(2::int) ^ (32 * length ws)" and ?W = "words_value (rev ws)"
  have w: "0 \<le> uint w" "uint w < 2 ^ 32" by (rule uint_limb)+
  have r: "0 \<le> uint rem" "uint rem < 3" using Cons.prems by simp_all
  have L: "0 \<le> ?L" "?L < 3 * 2 ^ 32" using w r by simp_all
  have lhs: "uint ?lhs = ?L"
  proof -
    have "uint (push_bit 32 rem) = uint rem * 2 ^ 32"
      by (simp only: unsigned_push_bit_eq) (use r in \<open>simp add: push_bit_eq_mult take_bit_int_eq_self\<close>)
    moreover have "uint (ucast w :: u64) = uint w"
      using w by (simp add: unsigned_ucast_eq unsigned_take_bit_eq take_bit_int_eq_self)
    ultimately show ?thesis using or_shift [OF w, of "uint rem"] by (simp add: unsigned_or_eq or.commute)
  qed
  have "uint (?lhs mod 3) = ?L mod 3" "uint (?lhs div 3) = ?L div 3"
    using lhs by (simp_all add: uint_mod uint_div)
  then have d: "uint ?rem = ?L mod 3" "uint (ucast (?lhs div 3) :: u32) = ?L div 3"
    using L int_div_less [of ?L "2 ^ 32" 3] pos_mod_bound [of 3 ?L]
    by (simp_all add: unsigned_ucast_eq unsigned_take_bit_eq take_bit_int_eq_self pos_imp_zdiv_nonneg_iff)
  have "uint ?rem < 3" unfolding d by simp
  note ih = Cons.IH [OF this, unfolded d]
  have L3: "?L = 3 * (?L div 3) + ?L mod 3" by simp
  have e: "uint rem * 2 ^ (32 * length (w # ws)) + words_value (rev (w # ws)) = 3 * (?B * (?L div 3)) + (?L mod 3 * ?B + ?W)"
  proof -
    have "uint rem * 2 ^ (32 * length (w # ws)) + words_value (rev (w # ws)) = ?B * ?L + ?W"
      by (simp only: length_Cons two_power_limb rev.simps words_value_append length_rev words_value.simps) (simp add: algebra_simps)
    also have "\<dots> = ?B * (3 * (?L div 3) + ?L mod 3) + ?W" using L3 by (simp only:)
    finally show ?thesis by (simp only: algebra_simps)
  qed
  have "div_radix rem (w # ws) = (ucast (?lhs div 3) # fst (div_radix ?rem ws), snd (div_radix ?rem ws))"
    by (simp only: div_radix.simps Let_def split_beta)
  then show ?case
    unfolding e using ih
    by (simp only: fst_conv snd_conv rev.simps words_value_append words_value.simps d length_rev length_Cons) simp
qed (simp)

lemma extract_trits_correct: "extract_trits n base = bt_digits n (words_value base - (3 ^ n - 1) div 2)"
proof (induction n arbitrary: base)
  case (Suc n)
  let ?V = "words_value base" and ?h = "(3 ^ n - 1) div 2 :: int"
  let ?d = "div_radix 0 (rev base)"
  have d: "words_value (rev (fst ?d)) = ?V div 3" "uint (snd ?d) = ?V mod 3"
    using div_radix_correct [of 0 "rev base"] by simp_all
  have "uint (snd ?d) < 2 ^ 8" unfolding d using pos_mod_bound [of 3 ?V] by simp
  then have t: "uint (ucast (snd ?d) :: u8) = ?V mod 3"
    using d(2) by (simp add: unsigned_ucast_eq unsigned_take_bit_eq take_bit_int_eq_self)
  have "?V - (3 ^ Suc n - 1) div 2 = ?V - 3 * ?h - 1" using half_step [of n] by linarith
  then have "(?V - (3 ^ Suc n - 1) div 2 + 1) mod 3 = ?V mod 3" "(?V - (3 ^ Suc n - 1) div 2 + 1) div 3 = ?V div 3 - ?h"
    by simp_all presburger+
  with Suc.IH [of "rev (fst ?d)"] show ?case by (simp add: split_beta t d del: power_Suc)
qed simp

lemma bt_digits_period: "bt_digits n (v + 3 ^ n * k) = bt_digits n v"
proof (induction n arbitrary: v)
  case (Suc n)
  have "v + 3 ^ Suc n * k + 1 = v + 1 + 3 * (3 ^ n * k)" by simp
  then have "(v + 3 ^ Suc n * k + 1) mod 3 = (v + 1) mod 3" "(v + 3 ^ Suc n * k + 1) div 3 = (v + 1) div 3 + 3 ^ n * k"
    by (simp_all only: mod_mult_self2)
  with Suc show ?case by (simp del: power_Suc)
qed simp

lemma bytes_value_eq_0: "bytes_value bs = 0 \<longleftrightarrow> list_all (\<lambda>b. b = 0) bs"
proof (induction bs)
  case (Cons b bs)
  have "0 \<le> bytes_value bs" by (induction bs) simp_all
  then have "bytes_value (b # bs) = 0 \<longleftrightarrow> uint b = 0 \<and> bytes_value bs = 0" by (auto simp: add_nonneg_eq_0_iff)
  with Cons show ?case by (simp add: uint_0_iff)
qed simp

lemma sign_bit:
  assumes "length ws = 12"
  shows "drop_bit 31 (ws ! 11) = 0 \<longleftrightarrow> words_value ws < 2 ^ 383"
proof -
  have "ws = take 11 ws @ [ws ! 11]" using assms take_Suc_conv_app_nth [of 11 ws] by simp
  then have v: "words_value ws = words_value (take 11 ws) + 2 ^ 352 * uint (ws ! 11)"
    using words_value_append [of "take 11 ws" "[ws ! 11]"] assms by simp
  have b: "0 \<le> words_value (take 11 ws)" "words_value (take 11 ws) < 2 ^ 352"
    using words_value_bounds [of "take 11 ws"] assms by simp_all
  have "drop_bit 31 (ws ! 11) = 0 \<longleftrightarrow> uint (ws ! 11) div 2 ^ 31 = 0"
    by (simp only: uint_0_iff [symmetric] unsigned_drop_bit_eq) (use uint_limb [of "ws ! 11"] in \<open>simp add: drop_bit_eq_div take_bit_int_eq_self\<close>)
  also have "\<dots> \<longleftrightarrow> uint (ws ! 11) < 2 ^ 31" using uint_limb [of "ws ! 11"] by (auto simp: zdiv_eq_0_iff)
  also have "\<dots> \<longleftrightarrow> words_value ws < 2 ^ 383" unfolding v using b uint_limb [of "ws ! 11"] by auto
  finally show ?thesis .
qed

lemma shift_in_correct:
  assumes ws: "length ws = 12" "words_value ws = v mod 2 ^ 384" and v: "- (2 ^ 383) \<le> v" "v < 2 ^ 383"
  shows "if v = - half_3 - 1 then shift_in ws = None
    else \<exists>base flip. shift_in ws = Some (base, flip)
           \<and> bt_digits 242 v = (if flip then map uminus (bt_digits 242 (words_value base - half_3))
                                else bt_digits 242 (words_value base - half_3))"
proof (cases "0 \<le> v")
  case True
  then have wv: "words_value ws = v" using ws(2) v(2) by simp
  then have "drop_bit 31 (ws ! (INT_LEN - 1)) = 0" using sign_bit [OF ws(1)] v(2) by simp
  moreover have "words_value (bigint_add ws HALF_3) = v + half_3"
  proof -
    have "words_value (bigint_add ws HALF_3) = (v + half_3) mod 2 ^ 384"
      using bigint_add_correct(1) [of ws HALF_3] ws(1) by (simp add: wv HALF_3_value)
    also have "\<dots> = v + half_3" using True v(2) half_3_bounds by (intro mod_pos_pos_trivial) simp_all
    finally show ?thesis .
  qed
  ultimately have "shift_in ws = Some (bigint_add ws HALF_3, False)" "words_value (bigint_add ws HALF_3) - half_3 = v"
    by (simp_all add: shift_in_def)
  then show ?thesis using True half_3_bounds by auto
next
  case False
  let ?b = "bigint_not ws"
  have "v mod 2 ^ 384 = (v + 2 ^ 384) mod 2 ^ 384" by simp
  also have "\<dots> = v + 2 ^ 384" using False v(1) by (intro mod_pos_pos_trivial) simp_all
  finally have wv: "words_value ws = v + 2 ^ 384" using ws(2) by simp
  then have s: "drop_bit 31 (ws ! (INT_LEN - 1)) \<noteq> 0" using sign_bit [OF ws(1)] v(1) by simp
  have b: "length ?b = 12" "words_value ?b = - v - 1" using ws(1) wv by (simp_all add: bigint_not_correct)
  have lh: "length ?b = length HALF_3" using b by (simp add: HALF_3_value)
  have cmp: "bigint_cmp ?b HALF_3 > 0 \<longleftrightarrow> v < - half_3 - 1"
    unfolding bigint_cmp_correct [OF lh] HALF_3_value b(2) by (auto simp: sgn_if)
  show ?thesis
  proof (cases "v < - half_3 - 1")
    case True
    then obtain r where r: "bigint_sub ?b HALF_3 = Some r" "words_value r = - v - 1 - half_3"
      using bigint_sub_correct [OF lh] b HALF_3_value by auto
    have "v = - (words_value r - half_3) + 3 ^ 242 * (- 1)" unfolding r(2) using half_3_double by linarith
    then have "bt_digits 242 v = map uminus (bt_digits 242 (words_value r - half_3))"
      by (metis bt_digits_period bt_digits_uminus)
    with True s cmp r show ?thesis by (auto simp: shift_in_def)
  next
    case small: False
    let ?c = "fst (bigint_add_small ?b 1)"
    have ne: "?b \<noteq> []" using b(1) by auto
    have c: "length ?c = 12" "words_value ?c = - v"
    proof -
      have "words_value ?c = (- v - 1 + 1) mod 2 ^ 384" using bigint_add_small_correct(1) [OF ne, of 1] b by simp
      also have "\<dots> = - v" using False v(1) by simp
      finally show "words_value ?c = - v" .
      show "length ?c = 12" using bigint_add_small_correct(2) [OF ne, of 1] b(1) by simp
    qed
    have lc: "length HALF_3 = length ?c" using c by (simp add: HALF_3_value)
    show ?thesis
    proof (cases "v = - half_3 - 1")
      case True
      then have "bigint_sub HALF_3 ?c = None" using bigint_sub_correct [OF lc] c HALF_3_value by simp
      with True s cmp show ?thesis by (simp add: shift_in_def Let_def)
    next
      case n: False
      then obtain r where "bigint_sub HALF_3 ?c = Some r" "words_value r = half_3 + v"
        using bigint_sub_correct [OF lc] c HALF_3_value small by auto
      with n s cmp small show ?thesis by (auto simp: shift_in_def Let_def)
    qed
  qed
qed

lemma convert_bytes_to_trits_correct:
  assumes "length bytes = 48" "bytes_value (rev bytes) = v mod 2 ^ 384" and v: "- (2 ^ 383) \<le> v" "v < 2 ^ 383"
  shows "convert_bytes_to_trits bytes = (if v = - half_3 - 1 then None else Some (bt_digits 242 v @ [0]))"
proof -
  have "words_value (words_of_bytes bytes) = bytes_value bytes"
    using words_of_bytes_value [of bytes 12] assms(1) by simp
  then have "is_null (words_of_bytes bytes) \<longleftrightarrow> bytes_value (rev bytes) = 0"
    using words_value_eq_0 [of "words_of_bytes bytes"] by (simp add: is_null_def bytes_value_eq_0 list_all_iff)
  also have "\<dots> \<longleftrightarrow> v = 0"
  proof -
    have "v = 0" if "v mod 2 ^ 384 = 0"
    proof -
      from that obtain k where "v = 2 ^ 384 * k" by (metis mod_0_imp_dvd dvd_def)
      moreover have "\<bar>v\<bar> < 2 ^ 384" using v by simp
      ultimately show ?thesis by (cases "k = 0") (auto simp: abs_mult)
    qed
    then show ?thesis using assms(2) by auto
  qed
  finally have null: "is_null (words_of_bytes bytes) \<longleftrightarrow> v = 0" .
  have tl: "TRIT_LEN - 1 = 242" "TRIT_LEN = 242 + 1" by simp_all
  show ?thesis
  proof (cases "v = 0")
    case True
    with null show ?thesis
      using half_3_bounds(1) replicate_add [of 242 1 "0::int"] by (simp add: convert_bytes_to_trits_def)
  next
    case False
    let ?ws = "words_of_bytes (space_reverse bytes)"
    have "length ?ws = 12" "words_value ?ws = v mod 2 ^ 384"
      using words_of_bytes_value [of "rev bytes" 12] assms(1,2) by (simp_all add: space_reverse_rev)
    moreover have "extract_trits (TRIT_LEN - 1) base = bt_digits 242 (words_value base - half_3)" for base
      by (simp only: tl(1) extract_trits_correct half_3_def)
    ultimately show ?thesis
      using shift_in_correct [OF _ _ v, of ?ws] False null
      by (auto simp: convert_bytes_to_trits_def simp del: conv_lens bt_digits.simps split: if_splits)
  qed
qed

section \<open>Properties\<close>

text \<open>
  Conversion to bytes: on a cleared buffer the assertion holds and the 48 bytes are the big-endian
  two's complement of the number the first 242 trits stand for.
\<close>

theorem convert_trits_to_bytes_twos_complement:
  assumes "valid_trits trits" "length trits = 243"
  shows "\<exists>bytes. convert_trits_to_bytes trits (replicate 48 0) = Some bytes \<and> length bytes = 48
    \<and> bytes_value (rev bytes) = bt_value (take 242 trits) mod 2 ^ 384"
  by (rule convert_trits_to_bytes_correct [OF assms])

theorem convert_trits_to_bytes_twos_complement_witness:
  "\<exists>bytes. convert_trits_to_bytes (replicate 243 (- 1)) (replicate 48 0) = Some bytes
    \<and> bytes_value (rev bytes) = - half_3 mod 2 ^ 384"
proof -
  have v: "valid_trits (replicate 243 (- 1))" "length (replicate 243 (- 1 :: int)) = 243" by (simp_all add: list_all_length)
  have "bt_value (take 242 (replicate 243 (- 1))) = - half_3"
    using bt_value_all_minus [of "replicate 242 (- 1)"] by (simp add: half_3_def list_all_length)
  with convert_trits_to_bytes_twos_complement [OF v] show ?thesis by auto
qed

text \<open>
  Conversion from bytes: every 48-byte two's complement number \<open>v\<close> gives the 242 trits of \<open>v\<close> modulo
  \<open>3^242\<close> and a zero trit; the only exception is the number \<open>- half_3 - 1\<close>, where the assertion fails.
\<close>

theorem convert_bytes_to_trits_all_numbers:
  assumes "length bytes = 48" "bytes_value (rev bytes) = v mod 2 ^ 384" "- (2 ^ 383) \<le> v" "v < 2 ^ 383"
  shows "convert_bytes_to_trits bytes = (if v = - half_3 - 1 then None else Some (bt_digits 242 v @ [0]))"
  by (rule convert_bytes_to_trits_correct [OF assms])

theorem convert_bytes_to_trits_all_numbers_witness:
  "convert_bytes_to_trits (replicate 47 0 @ [5]) = Some (bt_digits 242 5 @ [0])"
proof -
  have "length (replicate 47 0 @ [5 :: u8]) = 48" by simp
  moreover have "bytes_value (rev (replicate 47 0 @ [5])) = 5 mod 2 ^ 384" by code_simp
  ultimately show ?thesis
    using convert_bytes_to_trits_all_numbers [of "replicate 47 0 @ [5]" 5] half_3_bounds by simp
qed



text \<open>
  The bytes \<open>- half_3 - 1\<close> make the assertion of \<open>bigint_sub\<close> fail: the comparison before it has to
  admit equality.
\<close>

theorem convert_bytes_to_trits_assertion_fails:
  "\<exists>bytes. length bytes = 48 \<and> convert_bytes_to_trits bytes = None"
proof -
  let ?b = "rev (bytes_of_words (bigint_not HALF_3))"
  have l: "length ?b = 48" by (simp add: bytes_of_words_value bigint_not_correct HALF_3_value)
  have "bytes_value (rev ?b) = 2 ^ 384 - 1 - half_3"
    by (simp add: bytes_of_words_value bigint_not_correct HALF_3_value)
  also have "\<dots> = (2 ^ 384 - 1 - half_3) mod 2 ^ 384"
    using half_3_bounds by (intro mod_pos_pos_trivial [symmetric]) linarith+
  also have "\<dots> = (- half_3 - 1) mod 2 ^ 384"
    using mod_add_self1 [of "2 ^ 384" "- half_3 - 1 :: int"] by (simp add: algebra_simps)
  finally have "convert_bytes_to_trits ?b = None"
    using convert_bytes_to_trits_correct [OF l, of "- half_3 - 1"] half_3_bounds by simp
  with l show ?thesis by blast
qed

text \<open>The words above the accumulated number keep what the buffer held before.\<close>

lemma add_carry_False: "add_carry False ws = (ws, 0)"
  by (cases ws) simp_all

lemma accumulate_small:
  "accumulate_trit (- 1) (0 # ws, 1) = (0 # ws, 1)" "accumulate_trit 0 (0 # ws, 1) = (1 # ws, 1)"
  by (simp_all add: accumulate_trit_def blit_def bigint_add_small_def full_add_def add_carry_False Let_def)

lemma accumulate_minus: "foldr accumulate_trit (replicate n (- 1)) (0 # ws, 1) = (0 # ws, 1)"
  by (induction n) (simp_all only: replicate.simps foldr.simps o_apply id_apply accumulate_small)

text \<open>
  \<open>memset(base, 0, INT_LEN)\<close> clears 12 of the 48 bytes: for a number with many leading -1 trits the
  result depends on what the caller's buffer held.
\<close>

theorem convert_trits_to_bytes_reads_buffer:
  "convert_trits_to_bytes (0 # replicate 241 (- 1) @ [0]) (replicate 48 0)
     \<noteq> convert_trits_to_bytes (0 # replicate 241 (- 1) @ [0]) (replicate 48 1)"
proof -
  let ?ts = "0 # replicate 241 (- 1) :: int list"
  have base: "words_of_bytes (blit (replicate 48 0) 0 (replicate INT_LEN 0)) = 0 # replicate 11 0"
    "words_of_bytes (blit (replicate 48 1) 0 (replicate INT_LEN 0)) = 0 # 0 # 0 # replicate 9 0x01010101"
    by code_simp+
  have ts: "take (TRIT_LEN - 1) (0 # replicate 241 (- 1) @ [0]) = ?ts" "\<not> list_all (\<lambda>t. t = - 1) ?ts" by simp_all
  have acc: "foldr accumulate_trit ?ts (0 # ws, 1) = (1 # ws, 1)" for ws
    by (simp only: foldr.simps o_apply accumulate_minus accumulate_small)
  show ?thesis
    unfolding convert_trits_to_bytes_def trits_base_def base ts Let_def acc fst_conv
    by (simp add: ts(2)) code_simp
qed

end
