(* ===== verification/Kerl.thy ===== *)
theory Kerl
  imports Prelude Kerl_Converter
begin

text \<open>
  \<open>common/crypto/kerl/kerl.c\<close> and \<open>hash.c\<close>: the Kerl sponge, which runs Keccak-384 on 48-byte blocks made
  from 243 trits. Keccak is an external library: the record \<open>keccak\<close> holds the three functions the code
  calls and everything below is for an arbitrary one. Its squeeze fills the 48-byte buffer of the
  caller, so it is given as a function from indices to bytes.
\<close>

unbundle bit_operations_syntax

section \<open>Definitions\<close>

record 'k keccak =
  Keccak_HashInitialize :: "'k"
  Keccak_HashUpdate :: "'k \<Rightarrow> u8 list \<Rightarrow> 'k"
  Keccak_HashSqueeze :: "'k \<Rightarrow> 'k \<times> (nat \<Rightarrow> u8)"

definition HASH_BYTE_LEN :: nat where "HASH_BYTE_LEN = 384 div 8"

definition kerl_init :: "'k keccak \<Rightarrow> 'k" where
  "kerl_init K = Keccak_HashInitialize K"

text \<open>
  The loop of \<open>kerl_absorb\<close> over the chunks; \<open>bytes\<close> is the local buffer, which is not initialised before
  the first chunk and is reused for the following ones.
\<close>

primrec kerl_absorb_loop :: "'k keccak \<Rightarrow> nat \<Rightarrow> u8 list \<Rightarrow> 'k \<Rightarrow> trit list \<Rightarrow> 'k option" where
  "kerl_absorb_loop K 0 bytes ctx trits = Some ctx"
| "kerl_absorb_loop K (Suc n) bytes ctx trits =
     (case convert_trits_to_bytes (take 243 trits) bytes of
        None \<Rightarrow> None
      | Some bytes \<Rightarrow> kerl_absorb_loop K n bytes (Keccak_HashUpdate K ctx bytes) (drop 243 trits))"

text \<open>\<open>stack\<close> gives the bytes that happen to be in the local buffer.\<close>

definition kerl_absorb :: "'k keccak \<Rightarrow> (nat \<Rightarrow> u8) \<Rightarrow> 'k \<Rightarrow> trit list \<Rightarrow> 'k option" where
  "kerl_absorb K stack ctx trits =
     (if length trits mod 243 \<noteq> 0 then None
      else kerl_absorb_loop K (length trits div 243) (map stack [0..<HASH_BYTE_LEN]) ctx trits)"

primrec kerl_squeeze_loop :: "'k keccak \<Rightarrow> nat \<Rightarrow> 'k \<Rightarrow> ('k \<times> trit list) option" where
  "kerl_squeeze_loop K 0 ctx = Some (ctx, [])"
| "kerl_squeeze_loop K (Suc n) ctx =
     (let (ctx, block) = Keccak_HashSqueeze K ctx;
          bytes = map block [0..<HASH_BYTE_LEN]
      in case convert_bytes_to_trits bytes of
           None \<Rightarrow> None
         | Some trits \<Rightarrow>
             (let bytes = bytes_of_words (map (\<lambda>w. w XOR 0xFFFFFFFF) (words_of_bytes bytes));
                  ctx = kerl_init K;
                  ctx = Keccak_HashUpdate K ctx bytes
              in case kerl_squeeze_loop K n ctx of
                   None \<Rightarrow> None
                 | Some (ctx, rest) \<Rightarrow> Some (ctx, trits @ rest)))"

definition kerl_squeeze :: "'k keccak \<Rightarrow> 'k \<Rightarrow> nat \<Rightarrow> ('k \<times> trit list) option" where
  "kerl_squeeze K ctx len = (if len mod 243 \<noteq> 0 then None else kerl_squeeze_loop K (len div 243) ctx)"

definition kerl_reset :: "'k keccak \<Rightarrow> 'k \<Rightarrow> 'k" where
  "kerl_reset K ctx = kerl_init K"

definition kerl_hash :: "'k keccak \<Rightarrow> (nat \<Rightarrow> u8) \<Rightarrow> trit list \<Rightarrow> ('k \<times> trit list) option" where
  "kerl_hash K stack trits =
     (case kerl_absorb K stack (kerl_init K) trits of
        None \<Rightarrow> None
      | Some ctx \<Rightarrow> kerl_squeeze K ctx 243)"

section \<open>Squeezed trits\<close>

lemma bytes_block_value:
  assumes "length bytes = 48"
  obtains v where "bytes_value (rev bytes) = v mod 2 ^ 384" "- (2 ^ 383) \<le> v" "v < 2 ^ 383"
proof -
  let ?V = "bytes_value (rev bytes)"
  have b: "0 \<le> ?V" "?V < 2 ^ 384"
    using words_of_bytes_value [of "rev bytes" 12] words_value_bounds [of "words_of_bytes (rev bytes)"] assms by simp_all
  show thesis
  proof (cases "?V < 2 ^ 383")
    case True
    with b that [of ?V] show thesis by simp
  next
    case False
    have "?V = (?V - 2 ^ 384) mod 2 ^ 384" using b by simp
    with b that [of "?V - 2 ^ 384"] False show thesis by simp
  qed
qed

lemma convert_bytes_to_trits_trits:
  assumes "length bytes = 48" "convert_bytes_to_trits bytes = Some trits"
  shows "length trits = 243 \<and> valid_trits trits \<and> trits ! 242 = 0"
proof -
  obtain v where "bytes_value (rev bytes) = v mod 2 ^ 384" "- (2 ^ 383) \<le> v" "v < 2 ^ 383"
    by (rule bytes_block_value [OF assms(1)])
  from convert_bytes_to_trits_correct [OF assms(1) this] assms(2) have "trits = bt_digits 242 v @ [0]"
    by (simp del: bt_digits.simps split: if_splits)
  then show ?thesis by (simp del: bt_digits.simps add: nth_append)
qed

lemma kerl_squeeze_loop_trits:
  "kerl_squeeze_loop K n ctx = Some (ctx', out) \<Longrightarrow> length out = 243 * n \<and> valid_trits out \<and> (\<forall>k < n. out ! (243 * k + 242) = 0)"
proof (induction n arbitrary: ctx out)
  case (Suc n)
  let ?bytes = "map (snd (Keccak_HashSqueeze K ctx)) [0..<HASH_BYTE_LEN]"
  from Suc.prems obtain trits ctx1 rest where
    t: "convert_bytes_to_trits ?bytes = Some trits" and
    r: "kerl_squeeze_loop K n ctx1 = Some (ctx', rest)" and out: "out = trits @ rest"
    by (auto simp: Let_def split_beta split: option.splits prod.splits)
  have "length ?bytes = 48" by (simp add: HASH_BYTE_LEN_def)
  from convert_bytes_to_trits_trits [OF this t] have t': "length trits = 243" "valid_trits trits" "trits ! 242 = 0" by auto
  have "out ! (243 * k + 242) = 0" if "k < Suc n" for k
    using that Suc.IH [OF r] t' by (cases k) (simp_all add: out nth_append add.commute)
  with Suc.IH [OF r] t' show ?case by (simp add: out)
qed simp

lemma kerl_squeeze_trits:
  "kerl_squeeze K ctx len = Some (ctx', out) \<Longrightarrow>
    length out = len \<and> valid_trits out \<and> (\<forall>k < len div 243. out ! (243 * k + 242) = 0)"
  using kerl_squeeze_loop_trits [of K "len div 243" ctx ctx' out] by (auto simp: kerl_squeeze_def split: if_splits)

section \<open>The assertions of the absorption\<close>

lemma mul_radix_length: "length (fst (mul_radix ws c)) = length ws"
  by (induction ws c rule: mul_radix.induct) (simp_all add: Let_def split_beta)

lemma accumulate_length: "length (fst st) = 12 \<Longrightarrow> length (fst (accumulate_trit t st)) = 12"
proof -
  assume l: "length (fst st) = 12"
  have "length (blit (fst st) 0 (fst (mul_radix (take (snd st) (fst st)) 0))) = 12"
    using l by (simp add: blit_def mul_radix_length)
  then have b: "length b = 12 \<Longrightarrow> length (fst (bigint_add_small b w)) = 12" for b w
    using bigint_add_small_correct(2) [of b w] by (cases b) auto
  show ?thesis
    using l by (cases st) (auto simp: accumulate_trit_def Let_def split_beta blit_def mul_radix_length intro!: b)
qed

lemma subtract_half_total:
  assumes "length base = 12"
  shows "\<exists>r. subtract_half base = Some r \<and> length r = 12"
proof -
  have l: "length HALF_3 = length base" by (simp add: HALF_3_value assms)
  have cmp: "bigint_cmp HALF_3 base \<le> 0 \<longleftrightarrow> words_value HALF_3 \<le> words_value base"
    unfolding bigint_cmp_correct [OF l] by (auto simp: sgn_if)
  show ?thesis
  proof (cases "words_value HALF_3 \<le> words_value base")
    case True
    then obtain r where "bigint_sub base HALF_3 = Some r" "length r = 12"
      using bigint_sub_correct [OF l [symmetric]] assms by auto
    with True cmp assms show ?thesis by (cases "is_null base") (simp_all add: subtract_half_def)
  next
    case False
    then obtain r where "bigint_sub HALF_3 base = Some r" "length r = 12"
      using bigint_sub_correct [OF l] assms l by auto
    with False cmp assms negate_correct(2) show ?thesis by (cases "is_null base") (simp_all add: subtract_half_def)
  qed
qed

lemma trits_base_total: "length base = 12 \<Longrightarrow> \<exists>r. trits_base trits base = Some r \<and> length r = 12"
proof -
  assume l: "length base = 12"
  have "length (fst (foldr accumulate_trit ts (base, 1))) = 12" for ts
    by (induction ts) (simp_all add: l accumulate_length)
  moreover have "length (blit base 0 HALF_3) = 12" using l by (simp add: HALF_3_value)
  ultimately show ?thesis
    using subtract_half_total negate_correct(2) [of "blit base 0 HALF_3"] by (simp add: trits_base_def)
qed

lemma convert_trits_to_bytes_total:
  assumes "length bytes = 48"
  shows "\<exists>b. convert_trits_to_bytes trits bytes = Some b \<and> length b = 48"
proof -
  have "length (blit bytes 0 (replicate INT_LEN 0)) = 4 * 12" using assms by simp
  from words_of_bytes_value [OF this] trits_base_total [of "words_of_bytes (blit bytes 0 (replicate INT_LEN 0))" trits]
  obtain r where "trits_base trits (words_of_bytes (blit bytes 0 (replicate INT_LEN 0))) = Some r" "length r = 12" by auto
  then show ?thesis
    by (simp add: convert_trits_to_bytes_def space_reverse_rev bytes_of_words_value)
qed

lemma kerl_absorb_loop_total: "length bytes = 48 \<Longrightarrow> \<exists>ctx'. kerl_absorb_loop K n bytes ctx trits = Some ctx'"
proof (induction n arbitrary: bytes ctx trits)
  case (Suc n)
  then show ?case using convert_trits_to_bytes_total [of bytes "take 243 trits"] by fastforce
qed simp

section \<open>Properties\<close>

text \<open>
  Absorbing into Kerl: no assertion of the conversion fails, whatever the uninitialised buffer held; the
  only assertion that can fail is the one on the length of the input.
\<close>

theorem kerl_absorb_assertions:
  "kerl_absorb K stack ctx trits = None \<longleftrightarrow> length trits mod 243 \<noteq> 0"
  using kerl_absorb_loop_total [of "map stack [0..<HASH_BYTE_LEN]" K "length trits div 243" ctx trits]
  by (auto simp: kerl_absorb_def HASH_BYTE_LEN_def)

text \<open>
  Squeezing from Kerl: a squeeze that returns delivers the requested number of trits, all of them valid,
  and the last trit of every 243 is zero.
\<close>

theorem kerl_squeeze_shape:
  assumes "kerl_squeeze K ctx len = Some (ctx', out)"
  shows "length out = len \<and> valid_trits out \<and> (\<forall>k < len div 243. out ! (243 * k + 242) = 0)"
  by (rule kerl_squeeze_trits [OF assms])

theorem kerl_squeeze_shape_witness:
  "\<exists>out. kerl_squeeze \<lparr>Keccak_HashInitialize = 0, Keccak_HashUpdate = \<lambda>k b. k + 1, Keccak_HashSqueeze = \<lambda>k. (k, \<lambda>_. 0)\<rparr>
       (0 :: nat) 243 = Some (1, out) \<and> length out = 243 \<and> valid_trits out"
proof -
  let ?K = "\<lparr>Keccak_HashInitialize = 0, Keccak_HashUpdate = \<lambda>k b. k + 1, Keccak_HashSqueeze = \<lambda>k. (k, \<lambda>_. 0)\<rparr> :: nat keccak"
  have "is_null (words_of_bytes (map (\<lambda>_. 0) [0..<HASH_BYTE_LEN]))" by code_simp
  then have "kerl_squeeze ?K 0 243 = Some (1, replicate 243 0)"
    by (simp add: kerl_squeeze_def kerl_init_def convert_bytes_to_trits_def)
  from kerl_squeeze_shape [OF this] this show ?thesis by blast
qed

end
