(* ===== verification/Sponge_Contract.thy ===== *)
theory Sponge_Contract
  imports Prelude
begin

text \<open>
  The interface between the sponge functions and their clients: absorb, squeeze and reset on a state.
  A result \<open>None\<close> means that an assertion of the code failed. The laws are what the signing scheme relies
  on; the interpretations for Curl, Kerl and the dispatching \<open>sponge_t\<close> are in \<open>Sponge\<close>.
\<close>

record 's hash_ops =
  h_absorb :: "'s \<Rightarrow> trit list \<Rightarrow> 's option"
  h_squeeze :: "'s \<Rightarrow> nat \<Rightarrow> ('s \<times> trit list) option"
  h_reset :: "'s \<Rightarrow> 's"

text \<open>
  \<open>absorb(state, chunk); squeeze(state, chunk, n); reset(state)\<close>: the sequence of calls that the
  signing scheme makes everywhere.
\<close>

definition hash_step :: "'s hash_ops \<Rightarrow> 's \<Rightarrow> trit list \<Rightarrow> nat \<Rightarrow> ('s \<times> trit list) option" where
  "hash_step ops st input n =
     (case h_absorb ops st input of
        None \<Rightarrow> None
      | Some st \<Rightarrow>
          (case h_squeeze ops st n of
             None \<Rightarrow> None
           | Some (st, out) \<Rightarrow> Some (h_reset ops st, out)))"

locale sponge_contract =
  fixes ops :: "'s hash_ops"
    and ok :: "'s \<Rightarrow> bool"
  assumes absorb_law: "ok st \<Longrightarrow> valid_trits xs \<Longrightarrow> h_absorb ops st xs = Some st' \<Longrightarrow> ok st' \<and> h_reset ops st' = h_reset ops st"
    and squeeze_law: "ok st \<Longrightarrow> h_squeeze ops st n = Some (st', out) \<Longrightarrow>
        ok st' \<and> h_reset ops st' = h_reset ops st \<and> length out = n \<and> valid_trits out"
    and reset_law: "ok st \<Longrightarrow> ok (h_reset ops st) \<and> h_reset ops (h_reset ops st) = h_reset ops st"
begin

definition fresh :: "'s \<Rightarrow> bool" where
  "fresh st \<longleftrightarrow> ok st \<and> h_reset ops st = st"

text \<open>From a fresh state the sequence is a function of the input alone and gives the state back.\<close>

lemma fresh_reset: "ok st \<Longrightarrow> fresh (h_reset ops st)"
  using reset_law by (simp add: fresh_def)

lemma hash_step_fresh:
  assumes "fresh st" "valid_trits xs" "hash_step ops st xs n = Some (st', out)"
  shows "st' = st \<and> length out = n \<and> valid_trits out"
proof -
  from assms(3) obtain s1 s2 where s: "h_absorb ops st xs = Some s1" "h_squeeze ops s1 n = Some (s2, out)" "st' = h_reset ops s2"
    by (auto simp: hash_step_def split: option.splits prod.splits)
  have st: "ok st" "h_reset ops st = st" using assms(1) by (simp_all add: fresh_def)
  from absorb_law [OF st(1) assms(2) s(1)] squeeze_law [of s1 n s2 out] s st show ?thesis by simp
qed

end

end
