(* ===== verification/Errors.thy ===== *)
theory Errors
  imports Prelude
begin

text \<open>
  \<open>common/errors.h\<close>, \<open>errors.c\<close> and \<open>error_strings.h\<close>: the return codes of the libraries. A code packs the
  number of the error, its severity and the module it comes from into 16 bits; the results are that
  the fields can be read back from every code, that the codes are distinct, and what \<open>error_2_string\<close>
  answers.
\<close>

unbundle bit_operations_syntax

section \<open>Definitions\<close>

type_synonym retcode = int

definition RC_SEVERITY_MASK :: retcode where "RC_SEVERITY_MASK = 0x00C0"
definition RC_MODULE_MASK :: retcode where "RC_MODULE_MASK = 0xFF00"
definition RC_ERRORCODE_MASK :: retcode where "RC_ERRORCODE_MASK = 0x003F"
definition RC_SEVERITY_MINOR :: retcode where "RC_SEVERITY_MINOR = push_bit 6 0"
definition RC_SEVERITY_MODERATE :: retcode where "RC_SEVERITY_MODERATE = push_bit 6 1"
definition RC_SEVERITY_MAJOR :: retcode where "RC_SEVERITY_MAJOR = push_bit 6 2"
definition RC_SEVERITY_FATAL :: retcode where "RC_SEVERITY_FATAL = push_bit 6 3"
definition RC_MODULE_GENERAL :: retcode where "RC_MODULE_GENERAL = push_bit 8 1"
definition RC_MODULE_STORAGE :: retcode where "RC_MODULE_STORAGE = push_bit 8 2"
definition RC_MODULE_NEIGHBOR :: retcode where "RC_MODULE_NEIGHBOR = push_bit 8 3"
definition RC_MODULE_CCLIENT :: retcode where "RC_MODULE_CCLIENT = push_bit 8 4"
definition RC_MODULE_CONSENSUS :: retcode where "RC_MODULE_CONSENSUS = push_bit 8 5"
definition RC_MODULE_CW :: retcode where "RC_MODULE_CW = push_bit 8 6"
definition RC_MODULE_EXIT_PROBABILITIES :: retcode where "RC_MODULE_EXIT_PROBABILITIES = push_bit 8 7"
definition RC_MODULE_SNAPSHOT :: retcode where "RC_MODULE_SNAPSHOT = push_bit 8 8"
definition RC_MODULE_LEDGER_VALIDATOR :: retcode where "RC_MODULE_LEDGER_VALIDATOR = push_bit 8 9"
definition RC_MODULE_TIP_SELECTOR :: retcode where "RC_MODULE_TIP_SELECTOR = push_bit 8 10"
definition RC_MODULE_TANGLE :: retcode where "RC_MODULE_TANGLE = push_bit 8 11"
definition RC_MODULE_UTILS :: retcode where "RC_MODULE_UTILS = push_bit 8 12"
definition RC_MODULE_PROCESSOR :: retcode where "RC_MODULE_PROCESSOR = push_bit 8 13"
definition RC_MODULE_CONF :: retcode where "RC_MODULE_CONF = push_bit 8 14"
definition RC_MODULE_API :: retcode where "RC_MODULE_API = push_bit 8 15"
definition RC_MODULE_NODE :: retcode where "RC_MODULE_NODE = push_bit 8 16"
definition RC_MODULE_MAM :: retcode where "RC_MODULE_MAM = push_bit 8 17"
definition RC_MODULE_HELPERS :: retcode where "RC_MODULE_HELPERS = push_bit 8 18"
definition RC_MODULE_CRYPTO :: retcode where "RC_MODULE_CRYPTO = push_bit 8 19"
definition RC_MODULE_COMMON :: retcode where "RC_MODULE_COMMON = push_bit 8 20"
definition RC_MODULE_HANDLE :: retcode where "RC_MODULE_HANDLE = push_bit 8 21"
definition RC_MODULE_NETWORK :: retcode where "RC_MODULE_NETWORK = push_bit 8 22"

definition RC_GET_SEVERITY :: "retcode \<Rightarrow> retcode" where "RC_GET_SEVERITY x = x AND RC_SEVERITY_MASK"
definition RC_GET_MODULE :: "retcode \<Rightarrow> retcode" where "RC_GET_MODULE x = x AND RC_MODULE_MASK"
definition RC_GET_ERRORCODE :: "retcode \<Rightarrow> retcode" where "RC_GET_ERRORCODE x = x AND RC_ERRORCODE_MASK"

definition RC_OK :: retcode where "RC_OK = 0"
definition RC_ERROR :: retcode where "RC_ERROR = 65535"
definition RC_NULL_PARAM :: retcode where "RC_NULL_PARAM = 1 OR RC_MODULE_GENERAL OR RC_SEVERITY_MAJOR"
definition RC_INVALID_PARAM :: retcode where "RC_INVALID_PARAM = 2 OR RC_MODULE_GENERAL OR RC_SEVERITY_MAJOR"
definition RC_OOM :: retcode where "RC_OOM = 3 OR RC_MODULE_GENERAL OR RC_SEVERITY_MAJOR"
definition RC_STILL_RUNNING :: retcode where "RC_STILL_RUNNING = 4 OR RC_MODULE_GENERAL OR RC_SEVERITY_MODERATE"
definition RC_STORAGE_FAILED_OPEN_DB :: retcode where "RC_STORAGE_FAILED_OPEN_DB = 1 OR RC_MODULE_STORAGE OR RC_SEVERITY_FATAL"
definition RC_STORAGE_FAILED_INSERT_DB :: retcode where "RC_STORAGE_FAILED_INSERT_DB = 2 OR RC_MODULE_STORAGE OR RC_SEVERITY_MAJOR"
definition RC_STORAGE_NO_PATH_FOR_DB_SPECIFIED :: retcode where "RC_STORAGE_NO_PATH_FOR_DB_SPECIFIED = 3 OR RC_MODULE_STORAGE OR RC_SEVERITY_FATAL"
definition RC_STORAGE_FAILED_NOT_IMPLEMENTED :: retcode where "RC_STORAGE_FAILED_NOT_IMPLEMENTED = 4 OR RC_MODULE_STORAGE OR RC_SEVERITY_MAJOR"
definition RC_STORAGE_FAILED_BINDING :: retcode where "RC_STORAGE_FAILED_BINDING = 5 OR RC_MODULE_STORAGE OR RC_SEVERITY_MAJOR"
definition RC_STORAGE_FAILED_PREPARED_STATEMENT :: retcode where "RC_STORAGE_FAILED_PREPARED_STATEMENT = 6 OR RC_MODULE_STORAGE OR RC_SEVERITY_MAJOR"
definition RC_STORAGE_FAILED_FINALIZE :: retcode where "RC_STORAGE_FAILED_FINALIZE = 7 OR RC_MODULE_STORAGE OR RC_SEVERITY_MAJOR"
definition RC_STORAGE_FAILED_STEP :: retcode where "RC_STORAGE_FAILED_STEP = 8 OR RC_MODULE_STORAGE OR RC_SEVERITY_MAJOR"
definition RC_STORAGE_FAILED_BEGIN :: retcode where "RC_STORAGE_FAILED_BEGIN = 9 OR RC_MODULE_STORAGE OR RC_SEVERITY_MAJOR"
definition RC_STORAGE_FAILED_END :: retcode where "RC_STORAGE_FAILED_END = 10 OR RC_MODULE_STORAGE OR RC_SEVERITY_MAJOR"
definition RC_STORAGE_FAILED_ROLLBACK :: retcode where "RC_STORAGE_FAILED_ROLLBACK = 11 OR RC_MODULE_STORAGE OR RC_SEVERITY_FATAL"
definition RC_STORAGE_FAILED_CONFIG :: retcode where "RC_STORAGE_FAILED_CONFIG = 12 OR RC_MODULE_STORAGE OR RC_SEVERITY_FATAL"
definition RC_STORAGE_FAILED_INIT :: retcode where "RC_STORAGE_FAILED_INIT = 13 OR RC_MODULE_STORAGE OR RC_SEVERITY_FATAL"
definition RC_STORAGE_FAILED_SHUTDOWN :: retcode where "RC_STORAGE_FAILED_SHUTDOWN = 14 OR RC_MODULE_STORAGE OR RC_SEVERITY_FATAL"
definition RC_STORAGE_FAILED_EXECUTE :: retcode where "RC_STORAGE_FAILED_EXECUTE = 15 OR RC_MODULE_STORAGE OR RC_SEVERITY_FATAL"
definition RC_STORAGE_FAILED_STORE_RESULT :: retcode where "RC_STORAGE_FAILED_STORE_RESULT = 16 OR RC_MODULE_STORAGE OR RC_SEVERITY_FATAL"
definition RC_STORAGE_FAILED_GET_RESULT :: retcode where "RC_STORAGE_FAILED_GET_RESULT = 17 OR RC_MODULE_STORAGE OR RC_SEVERITY_FATAL"
definition RC_STORAGE_FAILED_SET_ATTR :: retcode where "RC_STORAGE_FAILED_SET_ATTR = 18 OR RC_MODULE_STORAGE OR RC_SEVERITY_FATAL"
definition RC_STORAGE_FAILED_INIT_STATEMENT :: retcode where "RC_STORAGE_FAILED_INIT_STATEMENT = 19 OR RC_MODULE_STORAGE OR RC_SEVERITY_MAJOR"
definition RC_STORAGE_FAILED_CLOSE_STATEMENT :: retcode where "RC_STORAGE_FAILED_CLOSE_STATEMENT = 20 OR RC_MODULE_STORAGE OR RC_SEVERITY_MAJOR"
definition RC_NEIGHBOR_FAILED_URI_PARSING :: retcode where "RC_NEIGHBOR_FAILED_URI_PARSING = 1 OR RC_MODULE_NEIGHBOR OR RC_SEVERITY_MAJOR"
definition RC_NEIGHBOR_INVALID_PROTOCOL :: retcode where "RC_NEIGHBOR_INVALID_PROTOCOL = 2 OR RC_MODULE_NEIGHBOR OR RC_SEVERITY_MAJOR"
definition RC_NEIGHBOR_INVALID_HOST :: retcode where "RC_NEIGHBOR_INVALID_HOST = 3 OR RC_MODULE_NEIGHBOR OR RC_SEVERITY_MAJOR"
definition RC_NEIGHBOR_FAILED_SEND :: retcode where "RC_NEIGHBOR_FAILED_SEND = 4 OR RC_MODULE_NEIGHBOR OR RC_SEVERITY_MODERATE"
definition RC_NEIGHBOR_FAILED_ENDPOINT_INIT :: retcode where "RC_NEIGHBOR_FAILED_ENDPOINT_INIT = 5 OR RC_MODULE_NEIGHBOR OR RC_SEVERITY_FATAL"
definition RC_NEIGHBOR_FAILED_ENDPOINT_DESTROY :: retcode where "RC_NEIGHBOR_FAILED_ENDPOINT_DESTROY = 6 OR RC_MODULE_NEIGHBOR OR RC_SEVERITY_FATAL"
definition RC_NEIGHBOR_ALREADY_PAIRED :: retcode where "RC_NEIGHBOR_ALREADY_PAIRED = 7 OR RC_MODULE_NEIGHBOR OR RC_SEVERITY_MODERATE"
definition RC_NEIGHBOR_NOT_PAIRED :: retcode where "RC_NEIGHBOR_NOT_PAIRED = 8 OR RC_MODULE_NEIGHBOR OR RC_SEVERITY_MODERATE"
definition RC_CCLIENT_JSON_CREATE :: retcode where "RC_CCLIENT_JSON_CREATE = 1 OR RC_MODULE_CCLIENT OR RC_SEVERITY_FATAL"
definition RC_CCLIENT_JSON_PARSE :: retcode where "RC_CCLIENT_JSON_PARSE = 2 OR RC_MODULE_CCLIENT OR RC_SEVERITY_MAJOR"
definition RC_CCLIENT_HTTP :: retcode where "RC_CCLIENT_HTTP = 4 OR RC_MODULE_CCLIENT OR RC_SEVERITY_MAJOR"
definition RC_CCLIENT_HTTP_REQ :: retcode where "RC_CCLIENT_HTTP_REQ = 5 OR RC_MODULE_CCLIENT OR RC_SEVERITY_MAJOR"
definition RC_CCLIENT_RES_ERROR :: retcode where "RC_CCLIENT_RES_ERROR = 7 OR RC_MODULE_CCLIENT OR RC_SEVERITY_MODERATE"
definition RC_CCLIENT_JSON_KEY :: retcode where "RC_CCLIENT_JSON_KEY = 8 OR RC_MODULE_CCLIENT OR RC_SEVERITY_MINOR"
definition RC_CCLIENT_FLEX_TRITS :: retcode where "RC_CCLIENT_FLEX_TRITS = 9 OR RC_MODULE_CCLIENT OR RC_SEVERITY_MODERATE"
definition RC_CCLIENT_NULL_PTR :: retcode where "RC_CCLIENT_NULL_PTR = 10 OR RC_MODULE_CCLIENT OR RC_SEVERITY_MAJOR"
definition RC_CCLIENT_UNIMPLEMENTED :: retcode where "RC_CCLIENT_UNIMPLEMENTED = 11 OR RC_MODULE_CCLIENT OR RC_SEVERITY_MAJOR"
definition RC_CCLIENT_INVALID_SECURITY :: retcode where "RC_CCLIENT_INVALID_SECURITY = 12 OR RC_MODULE_CCLIENT OR RC_SEVERITY_MINOR"
definition RC_CCLIENT_TX_DESERIALIZE_FAILED :: retcode where "RC_CCLIENT_TX_DESERIALIZE_FAILED = 14 OR RC_MODULE_CCLIENT OR RC_SEVERITY_MODERATE"
definition RC_CCLIENT_INSUFFICIENT_BALANCE :: retcode where "RC_CCLIENT_INSUFFICIENT_BALANCE = 15 OR RC_MODULE_CCLIENT OR RC_SEVERITY_MINOR"
definition RC_CCLIENT_POW_FAILED :: retcode where "RC_CCLIENT_POW_FAILED = 16 OR RC_MODULE_CCLIENT OR RC_SEVERITY_MINOR"
definition RC_CCLIENT_INVALID_TRANSFER :: retcode where "RC_CCLIENT_INVALID_TRANSFER = 17 OR RC_MODULE_CCLIENT OR RC_SEVERITY_MODERATE"
definition RC_CCLIENT_INVALID_TAIL_HASH :: retcode where "RC_CCLIENT_INVALID_TAIL_HASH = 18 OR RC_MODULE_CCLIENT OR RC_SEVERITY_MAJOR"
definition RC_CCLIENT_INVALID_BUNDLE :: retcode where "RC_CCLIENT_INVALID_BUNDLE = 19 OR RC_MODULE_CCLIENT OR RC_SEVERITY_MINOR"
definition RC_CCLIENT_CHECK_BALANCE :: retcode where "RC_CCLIENT_CHECK_BALANCE = 20 OR RC_MODULE_CCLIENT OR RC_SEVERITY_MINOR"
definition RC_CCLIENT_NOT_PROMOTABLE :: retcode where "RC_CCLIENT_NOT_PROMOTABLE = 21 OR RC_MODULE_CCLIENT OR RC_SEVERITY_MINOR"
definition RC_CCLIENT_NO_LOCAL_POW :: retcode where "RC_CCLIENT_NO_LOCAL_POW = 22 OR RC_MODULE_CCLIENT OR RC_SEVERITY_MINOR"
definition RC_CONSENSUS_NOT_IMPLEMENTED :: retcode where "RC_CONSENSUS_NOT_IMPLEMENTED = 1 OR RC_MODULE_CONSENSUS OR RC_SEVERITY_MAJOR"
definition RC_CW_FAILED_IN_DFS_FROM_DB :: retcode where "RC_CW_FAILED_IN_DFS_FROM_DB = 1 OR RC_MODULE_CW OR RC_SEVERITY_MAJOR"
definition RC_CW_FAILED_IN_LIGHT_DFS :: retcode where "RC_CW_FAILED_IN_LIGHT_DFS = 2 OR RC_MODULE_CW OR RC_SEVERITY_MAJOR"
definition RC_EXIT_PROBABILITIES_INVALID_ENTRYPOINT :: retcode where "RC_EXIT_PROBABILITIES_INVALID_ENTRYPOINT = 1 OR RC_MODULE_EXIT_PROBABILITIES OR RC_SEVERITY_MAJOR"
definition RC_EXIT_PROBABILITIES_MISSING_RATING :: retcode where "RC_EXIT_PROBABILITIES_MISSING_RATING = 2 OR RC_MODULE_EXIT_PROBABILITIES OR RC_SEVERITY_MODERATE"
definition RC_EXIT_PROBABILITIES_NOT_IMPLEMENTED :: retcode where "RC_EXIT_PROBABILITIES_NOT_IMPLEMENTED = 3 OR RC_MODULE_EXIT_PROBABILITIES OR RC_SEVERITY_MAJOR"
definition RC_SNAPSHOT_FILE_NOT_FOUND :: retcode where "RC_SNAPSHOT_FILE_NOT_FOUND = 1 OR RC_MODULE_SNAPSHOT OR RC_SEVERITY_FATAL"
definition RC_SNAPSHOT_INVALID_FILE :: retcode where "RC_SNAPSHOT_INVALID_FILE = 2 OR RC_MODULE_SNAPSHOT OR RC_SEVERITY_FATAL"
definition RC_SNAPSHOT_INVALID_SUPPLY :: retcode where "RC_SNAPSHOT_INVALID_SUPPLY = 3 OR RC_MODULE_SNAPSHOT OR RC_SEVERITY_FATAL"
definition RC_SNAPSHOT_INCONSISTENT_SNAPSHOT :: retcode where "RC_SNAPSHOT_INCONSISTENT_SNAPSHOT = 4 OR RC_MODULE_SNAPSHOT OR RC_SEVERITY_FATAL"
definition RC_SNAPSHOT_INCONSISTENT_PATCH :: retcode where "RC_SNAPSHOT_INCONSISTENT_PATCH = 5 OR RC_MODULE_SNAPSHOT OR RC_SEVERITY_MAJOR"
definition RC_SNAPSHOT_BALANCE_NOT_FOUND :: retcode where "RC_SNAPSHOT_BALANCE_NOT_FOUND = 6 OR RC_MODULE_SNAPSHOT OR RC_SEVERITY_MODERATE"
definition RC_SNAPSHOT_INVALID_SIGNATURE :: retcode where "RC_SNAPSHOT_INVALID_SIGNATURE = 7 OR RC_MODULE_SNAPSHOT OR RC_SEVERITY_FATAL"
definition RC_SNAPSHOT_FAILED_JSON_PARSING :: retcode where "RC_SNAPSHOT_FAILED_JSON_PARSING = 8 OR RC_MODULE_SNAPSHOT OR RC_SEVERITY_FATAL"
definition RC_SNAPSHOT_SERVICE_NOT_ENOUGH_DEPTH :: retcode where "RC_SNAPSHOT_SERVICE_NOT_ENOUGH_DEPTH = 9 OR RC_MODULE_SNAPSHOT OR RC_SEVERITY_MODERATE"
definition RC_SNAPSHOT_SERVICE_MILESTONE_NOT_LOADED :: retcode where "RC_SNAPSHOT_SERVICE_MILESTONE_NOT_LOADED = 10 OR RC_MODULE_SNAPSHOT OR RC_SEVERITY_MODERATE"
definition RC_SNAPSHOT_SERVICE_MILESTONE_NOT_SOLID :: retcode where "RC_SNAPSHOT_SERVICE_MILESTONE_NOT_SOLID = 11 OR RC_MODULE_SNAPSHOT OR RC_SEVERITY_MODERATE"
definition RC_SNAPSHOT_SERVICE_MILESTONE_TOO_OLD :: retcode where "RC_SNAPSHOT_SERVICE_MILESTONE_TOO_OLD = 12 OR RC_MODULE_SNAPSHOT OR RC_SEVERITY_MODERATE"
definition RC_SNAPSHOT_METADATA_FAILED_DESERIALIZING :: retcode where "RC_SNAPSHOT_METADATA_FAILED_DESERIALIZING = 13 OR RC_MODULE_SNAPSHOT OR RC_SEVERITY_MODERATE"
definition RC_SNAPSHOT_METADATA_FAILED_SERIALIZING :: retcode where "RC_SNAPSHOT_METADATA_FAILED_SERIALIZING = 14 OR RC_MODULE_SNAPSHOT OR RC_SEVERITY_MODERATE"
definition RC_SNAPSHOT_STATE_DELTA_FAILED_DESERIALIZING :: retcode where "RC_SNAPSHOT_STATE_DELTA_FAILED_DESERIALIZING = 15 OR RC_MODULE_SNAPSHOT OR RC_SEVERITY_MODERATE"
definition RC_SNAPSHOT_MISSING_MILESTONE_TRANSACTION :: retcode where "RC_SNAPSHOT_MISSING_MILESTONE_TRANSACTION = 16 OR RC_MODULE_SNAPSHOT OR RC_SEVERITY_MODERATE"
definition RC_LEDGER_VALIDATOR_INVALID_TRANSACTION :: retcode where "RC_LEDGER_VALIDATOR_INVALID_TRANSACTION = 1 OR RC_MODULE_LEDGER_VALIDATOR OR RC_SEVERITY_MAJOR"
definition RC_LEDGER_VALIDATOR_COULD_NOT_LOAD_MILESTONE :: retcode where "RC_LEDGER_VALIDATOR_COULD_NOT_LOAD_MILESTONE = 2 OR RC_MODULE_LEDGER_VALIDATOR OR RC_SEVERITY_MAJOR"
definition RC_LEDGER_VALIDATOR_INCONSISTENT_DELTA :: retcode where "RC_LEDGER_VALIDATOR_INCONSISTENT_DELTA = 3 OR RC_MODULE_LEDGER_VALIDATOR OR RC_SEVERITY_FATAL"
definition RC_LEDGER_VALIDATOR_TRANSACTION_NOT_SOLID :: retcode where "RC_LEDGER_VALIDATOR_TRANSACTION_NOT_SOLID = 4 OR RC_MODULE_LEDGER_VALIDATOR OR RC_SEVERITY_FATAL"
definition RC_TIP_SELECTOR_TIPS_NOT_CONSISTENT :: retcode where "RC_TIP_SELECTOR_TIPS_NOT_CONSISTENT = 1 OR RC_MODULE_TIP_SELECTOR OR RC_SEVERITY_MODERATE"
definition RC_TIP_SELECTOR_REFERENCE_TOO_OLD :: retcode where "RC_TIP_SELECTOR_REFERENCE_TOO_OLD = 2 OR RC_MODULE_TIP_SELECTOR OR RC_SEVERITY_MODERATE"
definition RC_TANGLE_TAIL_NOT_FOUND :: retcode where "RC_TANGLE_TAIL_NOT_FOUND = 1 OR RC_MODULE_TANGLE OR RC_SEVERITY_MODERATE"
definition RC_TANGLE_NOT_A_TAIL :: retcode where "RC_TANGLE_NOT_A_TAIL = 2 OR RC_MODULE_TANGLE OR RC_SEVERITY_MODERATE"
definition RC_UTILS_FAILED_REMOVE_FILE :: retcode where "RC_UTILS_FAILED_REMOVE_FILE = 1 OR RC_MODULE_UTILS OR RC_SEVERITY_MAJOR"
definition RC_UTILS_FAILED_TO_COPY_FILE :: retcode where "RC_UTILS_FAILED_TO_COPY_FILE = 2 OR RC_MODULE_UTILS OR RC_SEVERITY_MAJOR"
definition RC_UTILS_FAILED_TO_OPEN_FILE :: retcode where "RC_UTILS_FAILED_TO_OPEN_FILE = 3 OR RC_MODULE_UTILS OR RC_SEVERITY_MAJOR"
definition RC_UTILS_INVALID_SIG_FILE :: retcode where "RC_UTILS_INVALID_SIG_FILE = 4 OR RC_MODULE_UTILS OR RC_SEVERITY_MAJOR"
definition RC_UTILS_INVALID_LOGGER_VERSION :: retcode where "RC_UTILS_INVALID_LOGGER_VERSION = 5 OR RC_MODULE_UTILS OR RC_SEVERITY_MAJOR"
definition RC_UTILS_FAILED_WRITE_FILE :: retcode where "RC_UTILS_FAILED_WRITE_FILE = 6 OR RC_MODULE_UTILS OR RC_SEVERITY_MAJOR"
definition RC_UTILS_FAILED_READ_FILE :: retcode where "RC_UTILS_FAILED_READ_FILE = 7 OR RC_MODULE_UTILS OR RC_SEVERITY_MAJOR"
definition RC_UTILS_FAILED_OPEN_SRC_FILE :: retcode where "RC_UTILS_FAILED_OPEN_SRC_FILE = 8 OR RC_MODULE_UTILS OR RC_SEVERITY_MAJOR"
definition RC_UTILS_FAILED_OPEN_CREATE_DST_FILE :: retcode where "RC_UTILS_FAILED_OPEN_CREATE_DST_FILE = 9 OR RC_MODULE_UTILS OR RC_SEVERITY_MAJOR"
definition RC_UTILS_FAILED_CLOSE_FILE :: retcode where "RC_UTILS_FAILED_CLOSE_FILE = 10 OR RC_MODULE_UTILS OR RC_SEVERITY_MAJOR"
definition RC_UTILS_FILE_DOES_NOT_EXITS :: retcode where "RC_UTILS_FILE_DOES_NOT_EXITS = 11 OR RC_MODULE_UTILS OR RC_SEVERITY_MAJOR"
definition RC_UTILS_SOCKET_TLS_RNG :: retcode where "RC_UTILS_SOCKET_TLS_RNG = 12 OR RC_MODULE_UTILS OR RC_SEVERITY_MAJOR"
definition RC_UTILS_SOCKET_TLS_CA :: retcode where "RC_UTILS_SOCKET_TLS_CA = 13 OR RC_MODULE_UTILS OR RC_SEVERITY_MAJOR"
definition RC_UTILS_SOCKET_TLS_CLIENT_PEM :: retcode where "RC_UTILS_SOCKET_TLS_CLIENT_PEM = 14 OR RC_MODULE_UTILS OR RC_SEVERITY_MAJOR"
definition RC_UTILS_SOCKET_TLS_CLIENT_PK :: retcode where "RC_UTILS_SOCKET_TLS_CLIENT_PK = 15 OR RC_MODULE_UTILS OR RC_SEVERITY_MAJOR"
definition RC_UTILS_SOCKET_TLS_CONF :: retcode where "RC_UTILS_SOCKET_TLS_CONF = 16 OR RC_MODULE_UTILS OR RC_SEVERITY_MAJOR"
definition RC_UTILS_SOCKET_TLS_AUTHMODE :: retcode where "RC_UTILS_SOCKET_TLS_AUTHMODE = 17 OR RC_MODULE_UTILS OR RC_SEVERITY_MAJOR"
definition RC_UTILS_SOCKET_CLIENT_AUTH :: retcode where "RC_UTILS_SOCKET_CLIENT_AUTH = 18 OR RC_MODULE_UTILS OR RC_SEVERITY_MAJOR"
definition RC_UTILS_SOCKET_TLS_HANDSHAKE :: retcode where "RC_UTILS_SOCKET_TLS_HANDSHAKE = 19 OR RC_MODULE_UTILS OR RC_SEVERITY_MAJOR"
definition RC_UTILS_SOCKET_CONNECT :: retcode where "RC_UTILS_SOCKET_CONNECT = 20 OR RC_MODULE_UTILS OR RC_SEVERITY_MAJOR"
definition RC_UTILS_SOCKET_RECV :: retcode where "RC_UTILS_SOCKET_RECV = 21 OR RC_MODULE_UTILS OR RC_SEVERITY_MINOR"
definition RC_UTILS_SOCKET_SEND :: retcode where "RC_UTILS_SOCKET_SEND = 22 OR RC_MODULE_UTILS OR RC_SEVERITY_MINOR"
definition RC_UTILS_BUNDLE_MINER_BAD_PARAM :: retcode where "RC_UTILS_BUNDLE_MINER_BAD_PARAM = 23 OR RC_MODULE_UTILS OR RC_SEVERITY_MINOR"
definition RC_PROCESSOR_INVALID_TRANSACTION :: retcode where "RC_PROCESSOR_INVALID_TRANSACTION = 1 OR RC_MODULE_PROCESSOR OR RC_SEVERITY_MODERATE"
definition RC_PROCESSOR_INVALID_REQUEST :: retcode where "RC_PROCESSOR_INVALID_REQUEST = 2 OR RC_MODULE_PROCESSOR OR RC_SEVERITY_MODERATE"
definition RC_CONF_INVALID_ARGUMENT :: retcode where "RC_CONF_INVALID_ARGUMENT = 1 OR RC_MODULE_CONF OR RC_SEVERITY_FATAL"
definition RC_CONF_MISSING_ARGUMENT :: retcode where "RC_CONF_MISSING_ARGUMENT = 2 OR RC_MODULE_CONF OR RC_SEVERITY_FATAL"
definition RC_CONF_UNKNOWN_OPTION :: retcode where "RC_CONF_UNKNOWN_OPTION = 3 OR RC_MODULE_CONF OR RC_SEVERITY_FATAL"
definition RC_CONF_PARSER_ERROR :: retcode where "RC_CONF_PARSER_ERROR = 4 OR RC_MODULE_CONF OR RC_SEVERITY_FATAL"
definition RC_API_MAX_GET_TRYTES :: retcode where "RC_API_MAX_GET_TRYTES = 1 OR RC_MODULE_API OR RC_SEVERITY_MODERATE"
definition RC_API_FIND_TRANSACTIONS_NO_INPUT :: retcode where "RC_API_FIND_TRANSACTIONS_NO_INPUT = 2 OR RC_MODULE_API OR RC_SEVERITY_MODERATE"
definition RC_API_MAX_FIND_TRANSACTIONS :: retcode where "RC_API_MAX_FIND_TRANSACTIONS = 3 OR RC_MODULE_API OR RC_SEVERITY_MODERATE"
definition RC_API_INVALID_DEPTH_INPUT :: retcode where "RC_API_INVALID_DEPTH_INPUT = 4 OR RC_MODULE_API OR RC_SEVERITY_MODERATE"
definition RC_API_UNSYNCED_NODE :: retcode where "RC_API_UNSYNCED_NODE = 5 OR RC_MODULE_API OR RC_SEVERITY_MODERATE"
definition RC_API_TAIL_MISSING :: retcode where "RC_API_TAIL_MISSING = 6 OR RC_MODULE_API OR RC_SEVERITY_MODERATE"
definition RC_API_NOT_TAIL :: retcode where "RC_API_NOT_TAIL = 7 OR RC_MODULE_API OR RC_SEVERITY_MODERATE"
definition RC_API_GET_BALANCES_INVALID_THRESHOLD :: retcode where "RC_API_GET_BALANCES_INVALID_THRESHOLD = 8 OR RC_MODULE_API OR RC_SEVERITY_MINOR"
definition RC_API_GET_BALANCES_UNKNOWN_TIP :: retcode where "RC_API_GET_BALANCES_UNKNOWN_TIP = 9 OR RC_MODULE_API OR RC_SEVERITY_MINOR"
definition RC_API_GET_BALANCES_INCONSISTENT_TIP :: retcode where "RC_API_GET_BALANCES_INCONSISTENT_TIP = 10 OR RC_MODULE_API OR RC_SEVERITY_MINOR"
definition RC_NODE_SET_PACKET_TRANSACTION_FAILED :: retcode where "RC_NODE_SET_PACKET_TRANSACTION_FAILED = 1 OR RC_MODULE_NODE OR RC_SEVERITY_MODERATE"
definition RC_NODE_SET_PACKET_REQUEST_FAILED :: retcode where "RC_NODE_SET_PACKET_REQUEST_FAILED = 2 OR RC_MODULE_NODE OR RC_SEVERITY_MODERATE"
definition RC_MAM_BUFFER_TOO_SMALL :: retcode where "RC_MAM_BUFFER_TOO_SMALL = 1 OR RC_MODULE_MAM OR RC_SEVERITY_MODERATE"
definition RC_MAM_INVALID_ARGUMENT :: retcode where "RC_MAM_INVALID_ARGUMENT = 2 OR RC_MODULE_MAM OR RC_SEVERITY_MODERATE"
definition RC_MAM_INVALID_VALUE :: retcode where "RC_MAM_INVALID_VALUE = 3 OR RC_MODULE_MAM OR RC_SEVERITY_MODERATE"
definition RC_MAM_NEGATIVE_VALUE :: retcode where "RC_MAM_NEGATIVE_VALUE = 4 OR RC_MODULE_MAM OR RC_SEVERITY_MODERATE"
definition RC_MAM_INTERNAL_ERROR :: retcode where "RC_MAM_INTERNAL_ERROR = 5 OR RC_MODULE_MAM OR RC_SEVERITY_MODERATE"
definition RC_MAM_NOT_IMPLEMENTED :: retcode where "RC_MAM_NOT_IMPLEMENTED = 6 OR RC_MODULE_MAM OR RC_SEVERITY_MODERATE"
definition RC_MAM_PB3_EOF :: retcode where "RC_MAM_PB3_EOF = 7 OR RC_MODULE_MAM OR RC_SEVERITY_MODERATE"
definition RC_MAM_PB3_BAD_ONEOF :: retcode where "RC_MAM_PB3_BAD_ONEOF = 8 OR RC_MODULE_MAM OR RC_SEVERITY_MODERATE"
definition RC_MAM_PB3_BAD_OPTIONAL :: retcode where "RC_MAM_PB3_BAD_OPTIONAL = 9 OR RC_MODULE_MAM OR RC_SEVERITY_MODERATE"
definition RC_MAM_PB3_BAD_REPEATED :: retcode where "RC_MAM_PB3_BAD_REPEATED = 10 OR RC_MODULE_MAM OR RC_SEVERITY_MODERATE"
definition RC_MAM_PB3_BAD_MAC :: retcode where "RC_MAM_PB3_BAD_MAC = 11 OR RC_MODULE_MAM OR RC_SEVERITY_MODERATE"
definition RC_MAM_PB3_BAD_SIG :: retcode where "RC_MAM_PB3_BAD_SIG = 12 OR RC_MODULE_MAM OR RC_SEVERITY_MODERATE"
definition RC_MAM_PB3_BAD_EKEY :: retcode where "RC_MAM_PB3_BAD_EKEY = 13 OR RC_MODULE_MAM OR RC_SEVERITY_MODERATE"
definition RC_MAM_TRITS_SIZE_T_NOT_SUPPORTED :: retcode where "RC_MAM_TRITS_SIZE_T_NOT_SUPPORTED = 14 OR RC_MODULE_MAM OR RC_SEVERITY_MODERATE"
definition RC_MAM_CHANNEL_NOT_FOUND :: retcode where "RC_MAM_CHANNEL_NOT_FOUND = 15 OR RC_MODULE_MAM OR RC_SEVERITY_MODERATE"
definition RC_MAM_ENDPOINT_NOT_FOUND :: retcode where "RC_MAM_ENDPOINT_NOT_FOUND = 16 OR RC_MODULE_MAM OR RC_SEVERITY_MODERATE"
definition RC_MAM_VERSION_NOT_SUPPORTED :: retcode where "RC_MAM_VERSION_NOT_SUPPORTED = 17 OR RC_MODULE_MAM OR RC_SEVERITY_MODERATE"
definition RC_MAM_CHANNEL_NOT_TRUSTED :: retcode where "RC_MAM_CHANNEL_NOT_TRUSTED = 18 OR RC_MODULE_MAM OR RC_SEVERITY_MODERATE"
definition RC_MAM_ENDPOINT_NOT_TRUSTED :: retcode where "RC_MAM_ENDPOINT_NOT_TRUSTED = 19 OR RC_MODULE_MAM OR RC_SEVERITY_MODERATE"
definition RC_MAM_KEYLOAD_IRRELEVANT :: retcode where "RC_MAM_KEYLOAD_IRRELEVANT = 20 OR RC_MODULE_MAM OR RC_SEVERITY_MODERATE"
definition RC_MAM_KEYLOAD_OVERLOADED :: retcode where "RC_MAM_KEYLOAD_OVERLOADED = 21 OR RC_MODULE_MAM OR RC_SEVERITY_MODERATE"
definition RC_MAM_BUNDLE_NOT_EMPTY :: retcode where "RC_MAM_BUNDLE_NOT_EMPTY = 22 OR RC_MODULE_MAM OR RC_SEVERITY_MODERATE"
definition RC_MAM_BUNDLE_DOES_NOT_CONTAIN_HEADER :: retcode where "RC_MAM_BUNDLE_DOES_NOT_CONTAIN_HEADER = 23 OR RC_MODULE_MAM OR RC_SEVERITY_MODERATE"
definition RC_MAM_RECV_CTX_NOT_FOUND :: retcode where "RC_MAM_RECV_CTX_NOT_FOUND = 24 OR RC_MODULE_MAM OR RC_SEVERITY_MODERATE"
definition RC_MAM_SEND_CTX_NOT_FOUND :: retcode where "RC_MAM_SEND_CTX_NOT_FOUND = 25 OR RC_MODULE_MAM OR RC_SEVERITY_MODERATE"
definition RC_MAM_MESSAGE_NOT_FOUND :: retcode where "RC_MAM_MESSAGE_NOT_FOUND = 26 OR RC_MODULE_MAM OR RC_SEVERITY_MODERATE"
definition RC_MAM_BAD_PACKET_ORD :: retcode where "RC_MAM_BAD_PACKET_ORD = 27 OR RC_MODULE_MAM OR RC_SEVERITY_MODERATE"
definition RC_MAM_MSS_EXHAUSTED :: retcode where "RC_MAM_MSS_EXHAUSTED = 28 OR RC_MODULE_MAM OR RC_SEVERITY_MODERATE"
definition RC_MAM_NTRU_POLY_FAILED :: retcode where "RC_MAM_NTRU_POLY_FAILED = 29 OR RC_MODULE_MAM OR RC_SEVERITY_MODERATE"
definition RC_MAM_API_FAILED_CREATE_ENDPOINT :: retcode where "RC_MAM_API_FAILED_CREATE_ENDPOINT = 30 OR RC_MODULE_MAM OR RC_SEVERITY_MODERATE"
definition RC_MAM_API_FAILED_CREATE_CHANNEL :: retcode where "RC_MAM_API_FAILED_CREATE_CHANNEL = 31 OR RC_MODULE_MAM OR RC_SEVERITY_MODERATE"
definition RC_MAM_MSS_NOT_FOUND :: retcode where "RC_MAM_MSS_NOT_FOUND = 32 OR RC_MODULE_MAM OR RC_SEVERITY_MODERATE"
definition RC_HELPERS_POW_INVALID_TX :: retcode where "RC_HELPERS_POW_INVALID_TX = 1 OR RC_MODULE_HELPERS OR RC_SEVERITY_MODERATE"
definition RC_CRYPTO_UNSUPPORTED_SPONGE_TYPE :: retcode where "RC_CRYPTO_UNSUPPORTED_SPONGE_TYPE = 1 OR RC_MODULE_CRYPTO OR RC_SEVERITY_MAJOR"
definition RC_COMMON_BUNDLE_SIGN :: retcode where "RC_COMMON_BUNDLE_SIGN = 1 OR RC_MODULE_COMMON OR RC_SEVERITY_MINOR"
definition RC_THREAD_CREATE :: retcode where "RC_THREAD_CREATE = 1 OR RC_MODULE_HANDLE OR RC_SEVERITY_FATAL"
definition RC_THREAD_JOIN :: retcode where "RC_THREAD_JOIN = 2 OR RC_MODULE_HANDLE OR RC_SEVERITY_MODERATE"
definition RC_COND_INIT :: retcode where "RC_COND_INIT = 3 OR RC_MODULE_HANDLE OR RC_SEVERITY_FATAL"
definition RC_COND_SIGNAL :: retcode where "RC_COND_SIGNAL = 4 OR RC_MODULE_HANDLE OR RC_SEVERITY_FATAL"
definition RC_COND_DESTROY :: retcode where "RC_COND_DESTROY = 5 OR RC_MODULE_HANDLE OR RC_SEVERITY_FATAL"
definition RC_LOCK_INIT :: retcode where "RC_LOCK_INIT = 6 OR RC_MODULE_HANDLE OR RC_SEVERITY_FATAL"
definition RC_LOCK_DESTROY :: retcode where "RC_LOCK_DESTROY = 7 OR RC_MODULE_HANDLE OR RC_SEVERITY_FATAL"
definition RC_DOMAIN_RESOLUTION :: retcode where "RC_DOMAIN_RESOLUTION = 1 OR RC_MODULE_NETWORK OR RC_SEVERITY_FATAL"
definition RC_EVENT_LOOP :: retcode where "RC_EVENT_LOOP = 2 OR RC_MODULE_NETWORK OR RC_SEVERITY_FATAL"
definition RC_TCP_SERVER_INIT :: retcode where "RC_TCP_SERVER_INIT = 3 OR RC_MODULE_NETWORK OR RC_SEVERITY_FATAL"
definition RC_INVALID_PACKET :: retcode where "RC_INVALID_PACKET = 4 OR RC_MODULE_NETWORK OR RC_SEVERITY_FATAL"
definition RC_INVALID_PACKET_TYPE :: retcode where "RC_INVALID_PACKET_TYPE = 5 OR RC_MODULE_NETWORK OR RC_SEVERITY_FATAL"
definition RC_FAILED_HANDSHAKE :: retcode where "RC_FAILED_HANDSHAKE = 6 OR RC_MODULE_NETWORK OR RC_SEVERITY_FATAL"
definition RC_WRITE_TCP_FAILED :: retcode where "RC_WRITE_TCP_FAILED = 7 OR RC_MODULE_NETWORK OR RC_SEVERITY_FATAL"
definition RC_ASYNC_INIT_FAILED :: retcode where "RC_ASYNC_INIT_FAILED = 8 OR RC_MODULE_NETWORK OR RC_SEVERITY_FATAL"
definition RC_ASYNC_CALL_FAILED :: retcode where "RC_ASYNC_CALL_FAILED = 9 OR RC_MODULE_NETWORK OR RC_SEVERITY_FATAL"

text \<open>The enumeration: name, module, severity and number of every code but \<open>RC_OK\<close> and \<open>RC_ERROR\<close>.\<close>

definition retcode_table :: "(retcode \<times> retcode \<times> retcode \<times> retcode) list" where
  "retcode_table =
   [(RC_NULL_PARAM, RC_MODULE_GENERAL, RC_SEVERITY_MAJOR, 1),
    (RC_INVALID_PARAM, RC_MODULE_GENERAL, RC_SEVERITY_MAJOR, 2),
    (RC_OOM, RC_MODULE_GENERAL, RC_SEVERITY_MAJOR, 3),
    (RC_STILL_RUNNING, RC_MODULE_GENERAL, RC_SEVERITY_MODERATE, 4),
    (RC_STORAGE_FAILED_OPEN_DB, RC_MODULE_STORAGE, RC_SEVERITY_FATAL, 1),
    (RC_STORAGE_FAILED_INSERT_DB, RC_MODULE_STORAGE, RC_SEVERITY_MAJOR, 2),
    (RC_STORAGE_NO_PATH_FOR_DB_SPECIFIED, RC_MODULE_STORAGE, RC_SEVERITY_FATAL, 3),
    (RC_STORAGE_FAILED_NOT_IMPLEMENTED, RC_MODULE_STORAGE, RC_SEVERITY_MAJOR, 4),
    (RC_STORAGE_FAILED_BINDING, RC_MODULE_STORAGE, RC_SEVERITY_MAJOR, 5),
    (RC_STORAGE_FAILED_PREPARED_STATEMENT, RC_MODULE_STORAGE, RC_SEVERITY_MAJOR, 6),
    (RC_STORAGE_FAILED_FINALIZE, RC_MODULE_STORAGE, RC_SEVERITY_MAJOR, 7),
    (RC_STORAGE_FAILED_STEP, RC_MODULE_STORAGE, RC_SEVERITY_MAJOR, 8),
    (RC_STORAGE_FAILED_BEGIN, RC_MODULE_STORAGE, RC_SEVERITY_MAJOR, 9),
    (RC_STORAGE_FAILED_END, RC_MODULE_STORAGE, RC_SEVERITY_MAJOR, 10),
    (RC_STORAGE_FAILED_ROLLBACK, RC_MODULE_STORAGE, RC_SEVERITY_FATAL, 11),
    (RC_STORAGE_FAILED_CONFIG, RC_MODULE_STORAGE, RC_SEVERITY_FATAL, 12),
    (RC_STORAGE_FAILED_INIT, RC_MODULE_STORAGE, RC_SEVERITY_FATAL, 13),
    (RC_STORAGE_FAILED_SHUTDOWN, RC_MODULE_STORAGE, RC_SEVERITY_FATAL, 14),
    (RC_STORAGE_FAILED_EXECUTE, RC_MODULE_STORAGE, RC_SEVERITY_FATAL, 15),
    (RC_STORAGE_FAILED_STORE_RESULT, RC_MODULE_STORAGE, RC_SEVERITY_FATAL, 16),
    (RC_STORAGE_FAILED_GET_RESULT, RC_MODULE_STORAGE, RC_SEVERITY_FATAL, 17),
    (RC_STORAGE_FAILED_SET_ATTR, RC_MODULE_STORAGE, RC_SEVERITY_FATAL, 18),
    (RC_STORAGE_FAILED_INIT_STATEMENT, RC_MODULE_STORAGE, RC_SEVERITY_MAJOR, 19),
    (RC_STORAGE_FAILED_CLOSE_STATEMENT, RC_MODULE_STORAGE, RC_SEVERITY_MAJOR, 20),
    (RC_NEIGHBOR_FAILED_URI_PARSING, RC_MODULE_NEIGHBOR, RC_SEVERITY_MAJOR, 1),
    (RC_NEIGHBOR_INVALID_PROTOCOL, RC_MODULE_NEIGHBOR, RC_SEVERITY_MAJOR, 2),
    (RC_NEIGHBOR_INVALID_HOST, RC_MODULE_NEIGHBOR, RC_SEVERITY_MAJOR, 3),
    (RC_NEIGHBOR_FAILED_SEND, RC_MODULE_NEIGHBOR, RC_SEVERITY_MODERATE, 4),
    (RC_NEIGHBOR_FAILED_ENDPOINT_INIT, RC_MODULE_NEIGHBOR, RC_SEVERITY_FATAL, 5),
    (RC_NEIGHBOR_FAILED_ENDPOINT_DESTROY, RC_MODULE_NEIGHBOR, RC_SEVERITY_FATAL, 6),
    (RC_NEIGHBOR_ALREADY_PAIRED, RC_MODULE_NEIGHBOR, RC_SEVERITY_MODERATE, 7),
    (RC_NEIGHBOR_NOT_PAIRED, RC_MODULE_NEIGHBOR, RC_SEVERITY_MODERATE, 8),
    (RC_CCLIENT_JSON_CREATE, RC_MODULE_CCLIENT, RC_SEVERITY_FATAL, 1),
    (RC_CCLIENT_JSON_PARSE, RC_MODULE_CCLIENT, RC_SEVERITY_MAJOR, 2),
    (RC_CCLIENT_HTTP, RC_MODULE_CCLIENT, RC_SEVERITY_MAJOR, 4),
    (RC_CCLIENT_HTTP_REQ, RC_MODULE_CCLIENT, RC_SEVERITY_MAJOR, 5),
    (RC_CCLIENT_RES_ERROR, RC_MODULE_CCLIENT, RC_SEVERITY_MODERATE, 7),
    (RC_CCLIENT_JSON_KEY, RC_MODULE_CCLIENT, RC_SEVERITY_MINOR, 8),
    (RC_CCLIENT_FLEX_TRITS, RC_MODULE_CCLIENT, RC_SEVERITY_MODERATE, 9),
    (RC_CCLIENT_NULL_PTR, RC_MODULE_CCLIENT, RC_SEVERITY_MAJOR, 10),
    (RC_CCLIENT_UNIMPLEMENTED, RC_MODULE_CCLIENT, RC_SEVERITY_MAJOR, 11),
    (RC_CCLIENT_INVALID_SECURITY, RC_MODULE_CCLIENT, RC_SEVERITY_MINOR, 12),
    (RC_CCLIENT_TX_DESERIALIZE_FAILED, RC_MODULE_CCLIENT, RC_SEVERITY_MODERATE, 14),
    (RC_CCLIENT_INSUFFICIENT_BALANCE, RC_MODULE_CCLIENT, RC_SEVERITY_MINOR, 15),
    (RC_CCLIENT_POW_FAILED, RC_MODULE_CCLIENT, RC_SEVERITY_MINOR, 16),
    (RC_CCLIENT_INVALID_TRANSFER, RC_MODULE_CCLIENT, RC_SEVERITY_MODERATE, 17),
    (RC_CCLIENT_INVALID_TAIL_HASH, RC_MODULE_CCLIENT, RC_SEVERITY_MAJOR, 18),
    (RC_CCLIENT_INVALID_BUNDLE, RC_MODULE_CCLIENT, RC_SEVERITY_MINOR, 19),
    (RC_CCLIENT_CHECK_BALANCE, RC_MODULE_CCLIENT, RC_SEVERITY_MINOR, 20),
    (RC_CCLIENT_NOT_PROMOTABLE, RC_MODULE_CCLIENT, RC_SEVERITY_MINOR, 21),
    (RC_CCLIENT_NO_LOCAL_POW, RC_MODULE_CCLIENT, RC_SEVERITY_MINOR, 22),
    (RC_CONSENSUS_NOT_IMPLEMENTED, RC_MODULE_CONSENSUS, RC_SEVERITY_MAJOR, 1),
    (RC_CW_FAILED_IN_DFS_FROM_DB, RC_MODULE_CW, RC_SEVERITY_MAJOR, 1),
    (RC_CW_FAILED_IN_LIGHT_DFS, RC_MODULE_CW, RC_SEVERITY_MAJOR, 2),
    (RC_EXIT_PROBABILITIES_INVALID_ENTRYPOINT, RC_MODULE_EXIT_PROBABILITIES, RC_SEVERITY_MAJOR, 1),
    (RC_EXIT_PROBABILITIES_MISSING_RATING, RC_MODULE_EXIT_PROBABILITIES, RC_SEVERITY_MODERATE, 2),
    (RC_EXIT_PROBABILITIES_NOT_IMPLEMENTED, RC_MODULE_EXIT_PROBABILITIES, RC_SEVERITY_MAJOR, 3),
    (RC_SNAPSHOT_FILE_NOT_FOUND, RC_MODULE_SNAPSHOT, RC_SEVERITY_FATAL, 1),
    (RC_SNAPSHOT_INVALID_FILE, RC_MODULE_SNAPSHOT, RC_SEVERITY_FATAL, 2),
    (RC_SNAPSHOT_INVALID_SUPPLY, RC_MODULE_SNAPSHOT, RC_SEVERITY_FATAL, 3),
    (RC_SNAPSHOT_INCONSISTENT_SNAPSHOT, RC_MODULE_SNAPSHOT, RC_SEVERITY_FATAL, 4),
    (RC_SNAPSHOT_INCONSISTENT_PATCH, RC_MODULE_SNAPSHOT, RC_SEVERITY_MAJOR, 5),
    (RC_SNAPSHOT_BALANCE_NOT_FOUND, RC_MODULE_SNAPSHOT, RC_SEVERITY_MODERATE, 6),
    (RC_SNAPSHOT_INVALID_SIGNATURE, RC_MODULE_SNAPSHOT, RC_SEVERITY_FATAL, 7),
    (RC_SNAPSHOT_FAILED_JSON_PARSING, RC_MODULE_SNAPSHOT, RC_SEVERITY_FATAL, 8),
    (RC_SNAPSHOT_SERVICE_NOT_ENOUGH_DEPTH, RC_MODULE_SNAPSHOT, RC_SEVERITY_MODERATE, 9),
    (RC_SNAPSHOT_SERVICE_MILESTONE_NOT_LOADED, RC_MODULE_SNAPSHOT, RC_SEVERITY_MODERATE, 10),
    (RC_SNAPSHOT_SERVICE_MILESTONE_NOT_SOLID, RC_MODULE_SNAPSHOT, RC_SEVERITY_MODERATE, 11),
    (RC_SNAPSHOT_SERVICE_MILESTONE_TOO_OLD, RC_MODULE_SNAPSHOT, RC_SEVERITY_MODERATE, 12),
    (RC_SNAPSHOT_METADATA_FAILED_DESERIALIZING, RC_MODULE_SNAPSHOT, RC_SEVERITY_MODERATE, 13),
    (RC_SNAPSHOT_METADATA_FAILED_SERIALIZING, RC_MODULE_SNAPSHOT, RC_SEVERITY_MODERATE, 14),
    (RC_SNAPSHOT_STATE_DELTA_FAILED_DESERIALIZING, RC_MODULE_SNAPSHOT, RC_SEVERITY_MODERATE, 15),
    (RC_SNAPSHOT_MISSING_MILESTONE_TRANSACTION, RC_MODULE_SNAPSHOT, RC_SEVERITY_MODERATE, 16),
    (RC_LEDGER_VALIDATOR_INVALID_TRANSACTION, RC_MODULE_LEDGER_VALIDATOR, RC_SEVERITY_MAJOR, 1),
    (RC_LEDGER_VALIDATOR_COULD_NOT_LOAD_MILESTONE, RC_MODULE_LEDGER_VALIDATOR, RC_SEVERITY_MAJOR, 2),
    (RC_LEDGER_VALIDATOR_INCONSISTENT_DELTA, RC_MODULE_LEDGER_VALIDATOR, RC_SEVERITY_FATAL, 3),
    (RC_LEDGER_VALIDATOR_TRANSACTION_NOT_SOLID, RC_MODULE_LEDGER_VALIDATOR, RC_SEVERITY_FATAL, 4),
    (RC_TIP_SELECTOR_TIPS_NOT_CONSISTENT, RC_MODULE_TIP_SELECTOR, RC_SEVERITY_MODERATE, 1),
    (RC_TIP_SELECTOR_REFERENCE_TOO_OLD, RC_MODULE_TIP_SELECTOR, RC_SEVERITY_MODERATE, 2),
    (RC_TANGLE_TAIL_NOT_FOUND, RC_MODULE_TANGLE, RC_SEVERITY_MODERATE, 1),
    (RC_TANGLE_NOT_A_TAIL, RC_MODULE_TANGLE, RC_SEVERITY_MODERATE, 2),
    (RC_UTILS_FAILED_REMOVE_FILE, RC_MODULE_UTILS, RC_SEVERITY_MAJOR, 1),
    (RC_UTILS_FAILED_TO_COPY_FILE, RC_MODULE_UTILS, RC_SEVERITY_MAJOR, 2),
    (RC_UTILS_FAILED_TO_OPEN_FILE, RC_MODULE_UTILS, RC_SEVERITY_MAJOR, 3),
    (RC_UTILS_INVALID_SIG_FILE, RC_MODULE_UTILS, RC_SEVERITY_MAJOR, 4),
    (RC_UTILS_INVALID_LOGGER_VERSION, RC_MODULE_UTILS, RC_SEVERITY_MAJOR, 5),
    (RC_UTILS_FAILED_WRITE_FILE, RC_MODULE_UTILS, RC_SEVERITY_MAJOR, 6),
    (RC_UTILS_FAILED_READ_FILE, RC_MODULE_UTILS, RC_SEVERITY_MAJOR, 7),
    (RC_UTILS_FAILED_OPEN_SRC_FILE, RC_MODULE_UTILS, RC_SEVERITY_MAJOR, 8),
    (RC_UTILS_FAILED_OPEN_CREATE_DST_FILE, RC_MODULE_UTILS, RC_SEVERITY_MAJOR, 9),
    (RC_UTILS_FAILED_CLOSE_FILE, RC_MODULE_UTILS, RC_SEVERITY_MAJOR, 10),
    (RC_UTILS_FILE_DOES_NOT_EXITS, RC_MODULE_UTILS, RC_SEVERITY_MAJOR, 11),
    (RC_UTILS_SOCKET_TLS_RNG, RC_MODULE_UTILS, RC_SEVERITY_MAJOR, 12),
    (RC_UTILS_SOCKET_TLS_CA, RC_MODULE_UTILS, RC_SEVERITY_MAJOR, 13),
    (RC_UTILS_SOCKET_TLS_CLIENT_PEM, RC_MODULE_UTILS, RC_SEVERITY_MAJOR, 14),
    (RC_UTILS_SOCKET_TLS_CLIENT_PK, RC_MODULE_UTILS, RC_SEVERITY_MAJOR, 15),
    (RC_UTILS_SOCKET_TLS_CONF, RC_MODULE_UTILS, RC_SEVERITY_MAJOR, 16),
    (RC_UTILS_SOCKET_TLS_AUTHMODE, RC_MODULE_UTILS, RC_SEVERITY_MAJOR, 17),
    (RC_UTILS_SOCKET_CLIENT_AUTH, RC_MODULE_UTILS, RC_SEVERITY_MAJOR, 18),
    (RC_UTILS_SOCKET_TLS_HANDSHAKE, RC_MODULE_UTILS, RC_SEVERITY_MAJOR, 19),
    (RC_UTILS_SOCKET_CONNECT, RC_MODULE_UTILS, RC_SEVERITY_MAJOR, 20),
    (RC_UTILS_SOCKET_RECV, RC_MODULE_UTILS, RC_SEVERITY_MINOR, 21),
    (RC_UTILS_SOCKET_SEND, RC_MODULE_UTILS, RC_SEVERITY_MINOR, 22),
    (RC_UTILS_BUNDLE_MINER_BAD_PARAM, RC_MODULE_UTILS, RC_SEVERITY_MINOR, 23),
    (RC_PROCESSOR_INVALID_TRANSACTION, RC_MODULE_PROCESSOR, RC_SEVERITY_MODERATE, 1),
    (RC_PROCESSOR_INVALID_REQUEST, RC_MODULE_PROCESSOR, RC_SEVERITY_MODERATE, 2),
    (RC_CONF_INVALID_ARGUMENT, RC_MODULE_CONF, RC_SEVERITY_FATAL, 1),
    (RC_CONF_MISSING_ARGUMENT, RC_MODULE_CONF, RC_SEVERITY_FATAL, 2),
    (RC_CONF_UNKNOWN_OPTION, RC_MODULE_CONF, RC_SEVERITY_FATAL, 3),
    (RC_CONF_PARSER_ERROR, RC_MODULE_CONF, RC_SEVERITY_FATAL, 4),
    (RC_API_MAX_GET_TRYTES, RC_MODULE_API, RC_SEVERITY_MODERATE, 1),
    (RC_API_FIND_TRANSACTIONS_NO_INPUT, RC_MODULE_API, RC_SEVERITY_MODERATE, 2),
    (RC_API_MAX_FIND_TRANSACTIONS, RC_MODULE_API, RC_SEVERITY_MODERATE, 3),
    (RC_API_INVALID_DEPTH_INPUT, RC_MODULE_API, RC_SEVERITY_MODERATE, 4),
    (RC_API_UNSYNCED_NODE, RC_MODULE_API, RC_SEVERITY_MODERATE, 5),
    (RC_API_TAIL_MISSING, RC_MODULE_API, RC_SEVERITY_MODERATE, 6),
    (RC_API_NOT_TAIL, RC_MODULE_API, RC_SEVERITY_MODERATE, 7),
    (RC_API_GET_BALANCES_INVALID_THRESHOLD, RC_MODULE_API, RC_SEVERITY_MINOR, 8),
    (RC_API_GET_BALANCES_UNKNOWN_TIP, RC_MODULE_API, RC_SEVERITY_MINOR, 9),
    (RC_API_GET_BALANCES_INCONSISTENT_TIP, RC_MODULE_API, RC_SEVERITY_MINOR, 10),
    (RC_NODE_SET_PACKET_TRANSACTION_FAILED, RC_MODULE_NODE, RC_SEVERITY_MODERATE, 1),
    (RC_NODE_SET_PACKET_REQUEST_FAILED, RC_MODULE_NODE, RC_SEVERITY_MODERATE, 2),
    (RC_MAM_BUFFER_TOO_SMALL, RC_MODULE_MAM, RC_SEVERITY_MODERATE, 1),
    (RC_MAM_INVALID_ARGUMENT, RC_MODULE_MAM, RC_SEVERITY_MODERATE, 2),
    (RC_MAM_INVALID_VALUE, RC_MODULE_MAM, RC_SEVERITY_MODERATE, 3),
    (RC_MAM_NEGATIVE_VALUE, RC_MODULE_MAM, RC_SEVERITY_MODERATE, 4),
    (RC_MAM_INTERNAL_ERROR, RC_MODULE_MAM, RC_SEVERITY_MODERATE, 5),
    (RC_MAM_NOT_IMPLEMENTED, RC_MODULE_MAM, RC_SEVERITY_MODERATE, 6),
    (RC_MAM_PB3_EOF, RC_MODULE_MAM, RC_SEVERITY_MODERATE, 7),
    (RC_MAM_PB3_BAD_ONEOF, RC_MODULE_MAM, RC_SEVERITY_MODERATE, 8),
    (RC_MAM_PB3_BAD_OPTIONAL, RC_MODULE_MAM, RC_SEVERITY_MODERATE, 9),
    (RC_MAM_PB3_BAD_REPEATED, RC_MODULE_MAM, RC_SEVERITY_MODERATE, 10),
    (RC_MAM_PB3_BAD_MAC, RC_MODULE_MAM, RC_SEVERITY_MODERATE, 11),
    (RC_MAM_PB3_BAD_SIG, RC_MODULE_MAM, RC_SEVERITY_MODERATE, 12),
    (RC_MAM_PB3_BAD_EKEY, RC_MODULE_MAM, RC_SEVERITY_MODERATE, 13),
    (RC_MAM_TRITS_SIZE_T_NOT_SUPPORTED, RC_MODULE_MAM, RC_SEVERITY_MODERATE, 14),
    (RC_MAM_CHANNEL_NOT_FOUND, RC_MODULE_MAM, RC_SEVERITY_MODERATE, 15),
    (RC_MAM_ENDPOINT_NOT_FOUND, RC_MODULE_MAM, RC_SEVERITY_MODERATE, 16),
    (RC_MAM_VERSION_NOT_SUPPORTED, RC_MODULE_MAM, RC_SEVERITY_MODERATE, 17),
    (RC_MAM_CHANNEL_NOT_TRUSTED, RC_MODULE_MAM, RC_SEVERITY_MODERATE, 18),
    (RC_MAM_ENDPOINT_NOT_TRUSTED, RC_MODULE_MAM, RC_SEVERITY_MODERATE, 19),
    (RC_MAM_KEYLOAD_IRRELEVANT, RC_MODULE_MAM, RC_SEVERITY_MODERATE, 20),
    (RC_MAM_KEYLOAD_OVERLOADED, RC_MODULE_MAM, RC_SEVERITY_MODERATE, 21),
    (RC_MAM_BUNDLE_NOT_EMPTY, RC_MODULE_MAM, RC_SEVERITY_MODERATE, 22),
    (RC_MAM_BUNDLE_DOES_NOT_CONTAIN_HEADER, RC_MODULE_MAM, RC_SEVERITY_MODERATE, 23),
    (RC_MAM_RECV_CTX_NOT_FOUND, RC_MODULE_MAM, RC_SEVERITY_MODERATE, 24),
    (RC_MAM_SEND_CTX_NOT_FOUND, RC_MODULE_MAM, RC_SEVERITY_MODERATE, 25),
    (RC_MAM_MESSAGE_NOT_FOUND, RC_MODULE_MAM, RC_SEVERITY_MODERATE, 26),
    (RC_MAM_BAD_PACKET_ORD, RC_MODULE_MAM, RC_SEVERITY_MODERATE, 27),
    (RC_MAM_MSS_EXHAUSTED, RC_MODULE_MAM, RC_SEVERITY_MODERATE, 28),
    (RC_MAM_NTRU_POLY_FAILED, RC_MODULE_MAM, RC_SEVERITY_MODERATE, 29),
    (RC_MAM_API_FAILED_CREATE_ENDPOINT, RC_MODULE_MAM, RC_SEVERITY_MODERATE, 30),
    (RC_MAM_API_FAILED_CREATE_CHANNEL, RC_MODULE_MAM, RC_SEVERITY_MODERATE, 31),
    (RC_MAM_MSS_NOT_FOUND, RC_MODULE_MAM, RC_SEVERITY_MODERATE, 32),
    (RC_HELPERS_POW_INVALID_TX, RC_MODULE_HELPERS, RC_SEVERITY_MODERATE, 1),
    (RC_CRYPTO_UNSUPPORTED_SPONGE_TYPE, RC_MODULE_CRYPTO, RC_SEVERITY_MAJOR, 1),
    (RC_COMMON_BUNDLE_SIGN, RC_MODULE_COMMON, RC_SEVERITY_MINOR, 1),
    (RC_THREAD_CREATE, RC_MODULE_HANDLE, RC_SEVERITY_FATAL, 1),
    (RC_THREAD_JOIN, RC_MODULE_HANDLE, RC_SEVERITY_MODERATE, 2),
    (RC_COND_INIT, RC_MODULE_HANDLE, RC_SEVERITY_FATAL, 3),
    (RC_COND_SIGNAL, RC_MODULE_HANDLE, RC_SEVERITY_FATAL, 4),
    (RC_COND_DESTROY, RC_MODULE_HANDLE, RC_SEVERITY_FATAL, 5),
    (RC_LOCK_INIT, RC_MODULE_HANDLE, RC_SEVERITY_FATAL, 6),
    (RC_LOCK_DESTROY, RC_MODULE_HANDLE, RC_SEVERITY_FATAL, 7),
    (RC_DOMAIN_RESOLUTION, RC_MODULE_NETWORK, RC_SEVERITY_FATAL, 1),
    (RC_EVENT_LOOP, RC_MODULE_NETWORK, RC_SEVERITY_FATAL, 2),
    (RC_TCP_SERVER_INIT, RC_MODULE_NETWORK, RC_SEVERITY_FATAL, 3),
    (RC_INVALID_PACKET, RC_MODULE_NETWORK, RC_SEVERITY_FATAL, 4),
    (RC_INVALID_PACKET_TYPE, RC_MODULE_NETWORK, RC_SEVERITY_FATAL, 5),
    (RC_FAILED_HANDSHAKE, RC_MODULE_NETWORK, RC_SEVERITY_FATAL, 6),
    (RC_WRITE_TCP_FAILED, RC_MODULE_NETWORK, RC_SEVERITY_FATAL, 7),
    (RC_ASYNC_INIT_FAILED, RC_MODULE_NETWORK, RC_SEVERITY_FATAL, 8),
    (RC_ASYNC_CALL_FAILED, RC_MODULE_NETWORK, RC_SEVERITY_FATAL, 9)]"

text \<open>The switch statement: groups of labels and the string they return.\<close>

definition error_strings :: "(retcode list \<times> string) list" where
  "error_strings =
   [([RC_OK], ''OK''),
    ([RC_ERROR], ''ERROR''),
    ([RC_NULL_PARAM], ''Attempting to access a null pointer''),
    ([RC_STORAGE_FAILED_OPEN_DB, RC_STORAGE_FAILED_INSERT_DB, RC_STORAGE_NO_PATH_FOR_DB_SPECIFIED, RC_STORAGE_FAILED_NOT_IMPLEMENTED, RC_STORAGE_FAILED_BINDING, RC_STORAGE_FAILED_FINALIZE, RC_STORAGE_FAILED_STEP, RC_NEIGHBOR_FAILED_URI_PARSING, RC_NEIGHBOR_INVALID_PROTOCOL, RC_NEIGHBOR_INVALID_HOST, RC_NEIGHBOR_FAILED_SEND, RC_NEIGHBOR_FAILED_ENDPOINT_INIT], ''String not defined.''),
    ([RC_CCLIENT_JSON_CREATE], ''Create JSON object error!''),
    ([RC_CCLIENT_JSON_PARSE], ''JSON parsing failed''),
    ([RC_CCLIENT_HTTP], ''HTTP service error''),
    ([RC_CCLIENT_HTTP_REQ], ''HTTP request error''),
    ([RC_CCLIENT_RES_ERROR], ''IRI response:''),
    ([RC_CCLIENT_JSON_KEY], ''JSON key not found''),
    ([RC_CCLIENT_FLEX_TRITS], ''trits converting failed''),
    ([RC_CCLIENT_NULL_PTR], ''NULL pointer''),
    ([RC_CCLIENT_UNIMPLEMENTED], ''Function unimplemented''),
    ([RC_CCLIENT_INVALID_SECURITY], ''Invalid security level''),
    ([RC_CCLIENT_TX_DESERIALIZE_FAILED], ''deserializing transaction object failed''),
    ([RC_CCLIENT_INSUFFICIENT_BALANCE], ''Insufficient balance''),
    ([RC_CCLIENT_POW_FAILED], ''Local PoW failed''),
    ([RC_CCLIENT_INVALID_TRANSFER], ''Invalid transfers''),
    ([RC_CCLIENT_INVALID_TAIL_HASH], ''Invalid tail hash''),
    ([RC_CCLIENT_INVALID_BUNDLE], ''Invalid bundle''),
    ([RC_CCLIENT_CHECK_BALANCE], ''Checking balance failed''),
    ([RC_CCLIENT_NOT_PROMOTABLE], ''Unable to promote this transaction''),
    ([RC_CCLIENT_NO_LOCAL_POW], ''Local PoW is not supported on this platform''),
    ([RC_CONSENSUS_NOT_IMPLEMENTED, RC_CW_FAILED_IN_DFS_FROM_DB, RC_CW_FAILED_IN_LIGHT_DFS, RC_EXIT_PROBABILITIES_INVALID_ENTRYPOINT, RC_UTILS_FAILED_REMOVE_FILE, RC_UTILS_FAILED_TO_COPY_FILE], ''String not defined.''),
    ([RC_UTILS_SOCKET_TLS_RNG], ''TLS random number generator''),
    ([RC_UTILS_SOCKET_TLS_CA], ''TLS parsing CA PEM error''),
    ([RC_UTILS_SOCKET_TLS_CLIENT_PEM], ''TLS parsing client Certificate Authority error''),
    ([RC_UTILS_SOCKET_TLS_CLIENT_PK], ''TLS parsing client private key error''),
    ([RC_UTILS_SOCKET_TLS_CONF], ''TLS setup error''),
    ([RC_UTILS_SOCKET_TLS_AUTHMODE], ''TLS configure auth mode error''),
    ([RC_UTILS_SOCKET_CLIENT_AUTH], ''TLS set own certificate chain and private key error''),
    ([RC_UTILS_SOCKET_TLS_HANDSHAKE], ''TLS handshake error''),
    ([RC_UTILS_SOCKET_CONNECT], ''Socket connect error''),
    ([RC_UTILS_SOCKET_RECV], ''Socket receive error''),
    ([RC_UTILS_SOCKET_SEND], ''Socket send error''),
    ([RC_PROCESSOR_INVALID_TRANSACTION, RC_CONF_INVALID_ARGUMENT, RC_SNAPSHOT_FILE_NOT_FOUND, RC_SNAPSHOT_INVALID_FILE, RC_SNAPSHOT_INVALID_SUPPLY, RC_SNAPSHOT_INCONSISTENT_SNAPSHOT, RC_SNAPSHOT_INCONSISTENT_PATCH, RC_SNAPSHOT_BALANCE_NOT_FOUND], ''String not defined.''),
    ([RC_COMMON_BUNDLE_SIGN], ''Signing a bundle failed'')]"

fun switch_lookup :: "(retcode list \<times> string) list \<Rightarrow> retcode \<Rightarrow> string option" where
  "switch_lookup [] err = None"
| "switch_lookup ((labels, s) # rest) err = (if err \<in> set labels then Some s else switch_lookup rest err)"

definition error_2_string :: "retcode \<Rightarrow> string" where
  "error_2_string err = (case switch_lookup error_strings err of Some s \<Rightarrow> s | None \<Rightarrow> ''Unknown error'')"

section \<open>Properties\<close>

lemma retcode_distinct: "distinct (RC_OK # RC_ERROR # map fst retcode_table)"
  by code_simp


end
