(* ===== verification/Sponge.thy ===== *)
theory Sponge
  imports Prelude Errors Sponge_Contract Curl Kerl
begin

text \<open>
  \<open>common/crypto/sponge/sponge.c\<close>: the dispatching sponge. The function pointers of \<open>sponge_t\<close> are
  functions on the untyped state, the union of the states of Curl and Kerl; a pointer argument is an
  option (\<open>None\<close> for NULL). A call that runs through a pointer to the wrong kind of state, or that runs
  into a failed assertion, has no result. The contract of \<open>Sponge_Contract\<close> is interpreted here for Curl, for
  Kerl and for an initialised \<open>sponge_t\<close>.
\<close>

section \<open>Definitions\<close>

datatype sponge_type = SPONGE_CURLP27 | SPONGE_CURLP81 | SPONGE_KERL | SPONGE_TROIKA | SPONGE_UNKNOWN

datatype 'k sponge_state = NULL_STATE | CURL_STATE Curl | KERL_STATE 'k

record 'k sponge =
  sponge_type :: sponge_type
  sp_absorb :: "'k sponge_state \<Rightarrow> trit list \<Rightarrow> 'k sponge_state option"
  sp_squeeze :: "'k sponge_state \<Rightarrow> nat \<Rightarrow> ('k sponge_state \<times> trit list) option"
  sp_reset :: "'k sponge_state \<Rightarrow> 'k sponge_state"
  sp_state :: "'k sponge_state"

text \<open>The casts \<open>(sponge_absorb_t)curl_absorb\<close>, \<open>(sponge_absorb_t)kerl_absorb\<close> and their kin.\<close>

fun cast_curl_absorb :: "'k sponge_state \<Rightarrow> trit list \<Rightarrow> 'k sponge_state option" where
  "cast_curl_absorb (CURL_STATE c) input = Some (CURL_STATE (curl_absorb c input))"
| "cast_curl_absorb _ input = None"

fun cast_curl_squeeze :: "'k sponge_state \<Rightarrow> nat \<Rightarrow> ('k sponge_state \<times> trit list) option" where
  "cast_curl_squeeze (CURL_STATE c) len = (let (c, out) = curl_squeeze c len in Some (CURL_STATE c, out))"
| "cast_curl_squeeze _ len = None"

fun cast_curl_reset :: "'k sponge_state \<Rightarrow> 'k sponge_state" where
  "cast_curl_reset (CURL_STATE c) = CURL_STATE (curl_reset c)"
| "cast_curl_reset s = s"

fun cast_kerl_absorb :: "'k keccak \<Rightarrow> (nat \<Rightarrow> u8) \<Rightarrow> 'k sponge_state \<Rightarrow> trit list \<Rightarrow> 'k sponge_state option" where
  "cast_kerl_absorb K stack (KERL_STATE k) input = map_option KERL_STATE (kerl_absorb K stack k input)"
| "cast_kerl_absorb K stack _ input = None"

fun cast_kerl_squeeze :: "'k keccak \<Rightarrow> 'k sponge_state \<Rightarrow> nat \<Rightarrow> ('k sponge_state \<times> trit list) option" where
  "cast_kerl_squeeze K (KERL_STATE k) len = map_option (\<lambda>(k, out). (KERL_STATE k, out)) (kerl_squeeze K k len)"
| "cast_kerl_squeeze K _ len = None"

fun cast_kerl_reset :: "'k keccak \<Rightarrow> 'k sponge_state \<Rightarrow> 'k sponge_state" where
  "cast_kerl_reset K (KERL_STATE k) = KERL_STATE (kerl_reset K k)"
| "cast_kerl_reset K s = s"

text \<open>
  \<open>alloc\<close> says whether malloc succeeds; the memory it returns is not initialised, and \<open>curl_init\<close> and
  \<open>kerl_init\<close> overwrite all of it. The field \<open>type\<close> is never assigned.
\<close>

definition curl_state_init :: "'k sponge \<Rightarrow> nat \<Rightarrow> 'k sponge" where
  "curl_state_init sp rounds =
     sp\<lparr>sp_absorb := cast_curl_absorb, sp_squeeze := cast_curl_squeeze, sp_reset := cast_curl_reset,
        sp_state := CURL_STATE (curl_init \<lparr>state = [], curl_type = rounds\<rparr>)\<rparr>"

definition sponge_init ::
  "'k keccak \<Rightarrow> (nat \<Rightarrow> u8) \<Rightarrow> bool \<Rightarrow> 'k sponge option \<Rightarrow> sponge_type \<Rightarrow> retcode \<times> 'k sponge option"
where
  "sponge_init K stack alloc spongep type' =
     (case spongep of
        None \<Rightarrow> (RC_NULL_PARAM, None)
      | Some sp \<Rightarrow>
          (case type' of
             SPONGE_CURLP27 \<Rightarrow>
               if \<not> alloc then (RC_OOM, Some (sp\<lparr>sp_state := NULL_STATE\<rparr>)) else (RC_OK, Some (curl_state_init sp CURL_P_27))
           | SPONGE_CURLP81 \<Rightarrow>
               if \<not> alloc then (RC_OOM, Some (sp\<lparr>sp_state := NULL_STATE\<rparr>)) else (RC_OK, Some (curl_state_init sp CURL_P_81))
           | SPONGE_KERL \<Rightarrow>
               if \<not> alloc then (RC_OOM, Some (sp\<lparr>sp_state := NULL_STATE\<rparr>))
               else (RC_OK, Some (sp\<lparr>sp_absorb := cast_kerl_absorb K stack, sp_squeeze := cast_kerl_squeeze K,
                                     sp_reset := cast_kerl_reset K, sp_state := KERL_STATE (kerl_init K)\<rparr>))
           | SPONGE_TROIKA \<Rightarrow> (RC_OK, Some sp)
           | SPONGE_UNKNOWN \<Rightarrow> (RC_CRYPTO_UNSUPPORTED_SPONGE_TYPE, Some sp)))"

definition sponge_absorb :: "'k sponge option \<Rightarrow> trit list \<Rightarrow> (retcode \<times> 'k sponge option) option" where
  "sponge_absorb spongep input =
     (case spongep of
        None \<Rightarrow> Some (RC_NULL_PARAM, None)
      | Some sp \<Rightarrow>
          (case sp_absorb sp (sp_state sp) input of
             None \<Rightarrow> None
           | Some st \<Rightarrow> Some (RC_OK, Some (sp\<lparr>sp_state := st\<rparr>))))"

definition sponge_squeeze :: "'k sponge option \<Rightarrow> nat \<Rightarrow> (retcode \<times> 'k sponge option \<times> trit list) option" where
  "sponge_squeeze spongep len =
     (case spongep of
        None \<Rightarrow> Some (RC_NULL_PARAM, None, [])
      | Some sp \<Rightarrow>
          (case sp_squeeze sp (sp_state sp) len of
             None \<Rightarrow> None
           | Some (st, out) \<Rightarrow> Some (RC_OK, Some (sp\<lparr>sp_state := st\<rparr>), out)))"

definition sponge_reset :: "'k sponge option \<Rightarrow> retcode \<times> 'k sponge option" where
  "sponge_reset spongep =
     (case spongep of
        None \<Rightarrow> (RC_NULL_PARAM, None)
      | Some sp \<Rightarrow> (RC_OK, Some (sp\<lparr>sp_state := sp_reset sp (sp_state sp)\<rparr>)))"

definition sponge_destroy :: "'k sponge option \<Rightarrow> retcode \<times> 'k sponge option" where
  "sponge_destroy spongep =
     (case spongep of
        None \<Rightarrow> (RC_NULL_PARAM, None)
      | Some sp \<Rightarrow> (RC_OK, Some (sp\<lparr>sp_state := NULL_STATE\<rparr>)))"

section \<open>The contract\<close>

definition curl_ops :: "Curl hash_ops" where
  "curl_ops = \<lparr>h_absorb = \<lambda>c input. Some (curl_absorb c input), h_squeeze = \<lambda>c len. Some (curl_squeeze c len),
               h_reset = curl_reset\<rparr>"

definition kerl_ops :: "'k keccak \<Rightarrow> (nat \<Rightarrow> u8) \<Rightarrow> 'k hash_ops" where
  "kerl_ops K stack = \<lparr>h_absorb = kerl_absorb K stack, h_squeeze = kerl_squeeze K, h_reset = kerl_reset K\<rparr>"

text \<open>The calls of the clients through a valid pointer, the return codes ignored as the clients do.\<close>

definition sponge_ops :: "'k sponge hash_ops" where
  "sponge_ops =
     \<lparr>h_absorb = \<lambda>sp input. case sponge_absorb (Some sp) input of Some (_, Some sp) \<Rightarrow> Some sp | _ \<Rightarrow> None,
      h_squeeze = \<lambda>sp len. case sponge_squeeze (Some sp) len of Some (_, Some sp, out) \<Rightarrow> Some (sp, out) | _ \<Rightarrow> None,
      h_reset = \<lambda>sp. case sponge_reset (Some sp) of (_, Some sp) \<Rightarrow> sp | _ \<Rightarrow> sp\<rparr>"

text \<open>A sponge as \<open>sponge_init\<close> sets it up, in any later state.\<close>

definition sponge_ok :: "'k keccak \<Rightarrow> (nat \<Rightarrow> u8) \<Rightarrow> 'k sponge \<Rightarrow> bool" where
  "sponge_ok K stack sp \<longleftrightarrow>
     (sp_absorb sp = cast_curl_absorb \<and> sp_squeeze sp = cast_curl_squeeze \<and> sp_reset sp = cast_curl_reset
        \<and> (\<exists>c. sp_state sp = CURL_STATE c \<and> curl_ok c))
   \<or> (sp_absorb sp = cast_kerl_absorb K stack \<and> sp_squeeze sp = cast_kerl_squeeze K \<and> sp_reset sp = cast_kerl_reset K
        \<and> (\<exists>k. sp_state sp = KERL_STATE k))"

interpretation curl: sponge_contract curl_ops curl_ok
proof
  fix st xs st' n out
  assume ok: "curl_ok st"
  show "curl_ok st' \<and> h_reset curl_ops st' = h_reset curl_ops st"
    if "valid_trits xs" "h_absorb curl_ops st xs = Some st'"
    using that curl_absorb_ok [OF ok] by (auto simp: curl_ops_def curl_reset_def)
  show "curl_ok st' \<and> h_reset curl_ops st' = h_reset curl_ops st \<and> length out = n \<and> valid_trits out"
    if "h_squeeze curl_ops st n = Some (st', out)"
    using that curl_squeeze_ok [OF ok, of n] by (auto simp: curl_ops_def curl_reset_def)
  show "curl_ok (h_reset curl_ops st) \<and> h_reset curl_ops (h_reset curl_ops st) = h_reset curl_ops st"
    by (simp add: curl_ops_def curl_reset_def curl_ok_def)
qed

interpretation kerl: sponge_contract "kerl_ops K stack" "\<lambda>_. True" for K stack
  by unfold_locales (auto simp: kerl_ops_def kerl_reset_def dest: kerl_squeeze_trits)

interpretation sponge: sponge_contract sponge_ops "sponge_ok K stack" for K stack
proof
  fix st st' :: "'a sponge" and xs n out
  assume ok: "sponge_ok K stack st"
  show "sponge_ok K stack st' \<and> h_reset sponge_ops st' = h_reset sponge_ops st"
    if "valid_trits xs" "h_absorb sponge_ops st xs = Some st'"
    using ok that by (auto simp: sponge_ok_def sponge_ops_def sponge_absorb_def sponge_reset_def curl_absorb_ok
      curl_reset_def kerl_reset_def split: option.splits)
  show "sponge_ok K stack st' \<and> h_reset sponge_ops st' = h_reset sponge_ops st \<and> length out = n \<and> valid_trits out"
    if "h_squeeze sponge_ops st n = Some (st', out)"
    using ok that by (auto simp: sponge_ok_def sponge_ops_def sponge_squeeze_def sponge_reset_def split_beta
      curl_squeeze_ok curl_reset_def kerl_reset_def split: option.splits dest: kerl_squeeze_trits)
  show "sponge_ok K stack (h_reset sponge_ops st) \<and> h_reset sponge_ops (h_reset sponge_ops st) = h_reset sponge_ops st"
    using ok by (auto simp: sponge_ok_def sponge_ops_def sponge_reset_def curl_reset_def kerl_reset_def curl_ok_def)
qed

section \<open>Properties\<close>

lemma retcode_ok: "RC_NULL_PARAM \<noteq> RC_OK" "RC_OOM \<noteq> RC_OK" "RC_CRYPTO_UNSUPPORTED_SPONGE_TYPE \<noteq> RC_OK"
  by code_simp+

text \<open>
  \<open>sponge_init\<close> for the Curl and Kerl types: it succeeds exactly when memory is available, and then the
  sponge is ready: its state is fresh, so that a reset does not change it.
\<close>

theorem sponge_init_ready:
  assumes "type' \<in> {SPONGE_CURLP27, SPONGE_CURLP81, SPONGE_KERL}"
  shows "\<exists>rc sp'. sponge_init K stack alloc (Some sp) type' = (rc, Some sp') \<and> (rc = RC_OK \<longleftrightarrow> alloc)
    \<and> (alloc \<longrightarrow> sponge_ok K stack sp' \<and> sponge_reset (Some sp') = (RC_OK, Some sp'))"
  using assms retcode_ok
  by (auto simp: sponge_init_def sponge_ok_def curl_state_init_def sponge_reset_def curl_init_def curl_reset_def kerl_reset_def
      curl_ok_def)

theorem sponge_init_ready_witness:
  "\<exists>sp'. sponge_init \<lparr>Keccak_HashInitialize = (0 :: nat), Keccak_HashUpdate = \<lambda>k b. k, Keccak_HashSqueeze = \<lambda>k. (k, \<lambda>_. 0)\<rparr> (\<lambda>_. 0) True
      (Some \<lparr>sponge_type = SPONGE_UNKNOWN, sp_absorb = \<lambda>s x. None, sp_squeeze = \<lambda>s n. None, sp_reset = id, sp_state = NULL_STATE\<rparr>)
      SPONGE_CURLP81 = (RC_OK, Some sp') \<and> sponge_reset (Some sp') = (RC_OK, Some sp')"
proof -
  have "SPONGE_CURLP81 \<in> {SPONGE_CURLP27, SPONGE_CURLP81, SPONGE_KERL}" by simp
  from sponge_init_ready [OF this, where alloc = True] show ?thesis by fastforce
qed

text \<open>
  The dispatch of the sponge: on a ready sponge the calls never go through a pointer to the wrong state;
  absorbing whole hashes always returns RC_OK, keeps the sponge ready, and a reset afterwards
  gives the state a reset would have given before.
\<close>

theorem sponge_absorb_dispatch:
  assumes "sponge_ok K stack sp" "valid_trits input" "length input mod 243 = 0"
  shows "\<exists>sp'. sponge_absorb (Some sp) input = Some (RC_OK, Some sp') \<and> sponge_ok K stack sp'
    \<and> sponge_reset (Some sp') = sponge_reset (Some sp)"
proof -
  have "kerl_absorb K stack k input \<noteq> None" for k
    using kerl_absorb_loop_total [of "map stack [0..<HASH_BYTE_LEN]" K "length input div 243" k input] assms(3)
    by (auto simp: kerl_absorb_def HASH_BYTE_LEN_def)
  then have "\<exists>st. sp_absorb sp (sp_state sp) input = Some st"
    using assms(1) by (auto simp: sponge_ok_def)
  then obtain sp' where sp': "sponge_absorb (Some sp) input = Some (RC_OK, Some sp')"
    by (auto simp: sponge_absorb_def)
  then have "h_absorb sponge_ops sp input = Some sp'" by (simp add: sponge_ops_def)
  from sponge.absorb_law [OF assms(1,2) this] sp' show ?thesis by (auto simp: sponge_ops_def sponge_reset_def)
qed

theorem sponge_absorb_dispatch_witness:
  "\<exists>sp'. sponge_absorb (Some (curl_state_init
      \<lparr>sponge_type = SPONGE_UNKNOWN, sp_absorb = \<lambda>s x. None, sp_squeeze = \<lambda>s n. None, sp_reset = id, sp_state = NULL_STATE\<rparr> CURL_P_27))
      (replicate 243 1) = Some (RC_OK, Some (sp' :: nat sponge))"
proof -
  let ?K = "\<lparr>Keccak_HashInitialize = (0 :: nat), Keccak_HashUpdate = \<lambda>k b. k, Keccak_HashSqueeze = \<lambda>k. (k, \<lambda>_. 0)\<rparr>"
  let ?sp = "curl_state_init \<lparr>sponge_type = SPONGE_UNKNOWN, sp_absorb = \<lambda>s x. None, sp_squeeze = \<lambda>s n. None, sp_reset = id,
     sp_state = NULL_STATE\<rparr> CURL_P_27 :: nat sponge"
  have a: "sponge_ok ?K (\<lambda>_. 0) ?sp" "valid_trits (replicate 243 1)" "length (replicate 243 (1::int)) mod 243 = 0"
    by (simp_all add: sponge_ok_def curl_state_init_def curl_init_def curl_ok_def list_all_length)
  from sponge_absorb_dispatch [OF a] show ?thesis by blast
qed

text \<open>
  For the type SPONGE_TROIKA the initialisation reports success although it sets neither the function
  pointers nor the state.
\<close>

theorem sponge_init_troika_unset:
  "sponge_init K stack alloc (Some sp) SPONGE_TROIKA = (RC_OK, Some sp)"
  by (simp add: sponge_init_def)

end
