(* ===== verification/Iss.thy ===== *)
theory Iss
  imports Prelude Trit_Add Trit_Long Flex_Trit Sponge_Contract Sponge
begin

text \<open>
  \<open>common/crypto/iss\<close>: the IOTA signing scheme. The templates of \<open>v1/iss.c.inc\<close> take the sponge functions
  from a macro prefix; the model takes them as the record \<open>hash_ops\<close>. \<open>v1/iss.c\<close> has the same functions on a
  \<open>sponge_t\<close>; its definitions are the templates at \<open>sponge_ops\<close>. A result \<open>None\<close> is a failed assertion in the
  sponge. \<open>normalize.c\<close> follows at the end.
\<close>

section \<open>Definitions\<close>

definition ISS_KEY_LENGTH :: nat where "ISS_KEY_LENGTH = 243 * 27"

definition TRYTE_VALUE_MAX :: int where "TRYTE_VALUE_MAX = 13"
definition TRYTE_VALUE_MIN :: int where "TRYTE_VALUE_MIN = - 13"

definition HASH_TRYTE_VAL :: "trit list \<Rightarrow> nat \<Rightarrow> int" where
  "HASH_TRYTE_VAL hash i = hash ! (i * 3) + hash ! (i * 3 + 1) * 3 + hash ! (i * 3 + 2) * 9"

text \<open>\<open>count\<close> rounds of absorb, squeeze and reset on one chunk, in place.\<close>

primrec hash_times :: "'s hash_ops \<Rightarrow> nat \<Rightarrow> 's \<Rightarrow> trit list \<Rightarrow> ('s \<times> trit list) option" where
  "hash_times ops 0 st chunk = Some (st, chunk)"
| "hash_times ops (Suc n) st chunk =
     (case hash_step ops st chunk 243 of None \<Rightarrow> None | Some (st, chunk) \<Rightarrow> hash_times ops n st chunk)"

text \<open>
  The loop over \<open>n\<close> chunks from the one with number \<open>i\<close> on; chunk \<open>i\<close> is hashed \<open>count i\<close> times, in place.
\<close>

primrec hash_chunks ::
  "'s hash_ops \<Rightarrow> (nat \<Rightarrow> nat) \<Rightarrow> nat \<Rightarrow> nat \<Rightarrow> 's \<Rightarrow> trit list \<Rightarrow> ('s \<times> trit list) option"
where
  "hash_chunks ops count i 0 st xs = Some (st, [])"
| "hash_chunks ops count i (Suc n) st xs =
     (case hash_times ops (count i) st (take 243 xs) of
        None \<Rightarrow> None
      | Some (st, chunk) \<Rightarrow>
          (case hash_chunks ops count (i + 1) n st (drop 243 xs) of
             None \<Rightarrow> None
           | Some (st, rest) \<Rightarrow> Some (st, chunk @ rest)))"

definition ISS_subseed :: "'s hash_ops \<Rightarrow> 's \<Rightarrow> trit list \<Rightarrow> int \<Rightarrow> ('s \<times> trit list) option" where
  "ISS_subseed ops st seed index =
     (let out = take 243 seed;
          out = snd (add_assign out index)
      in hash_step ops st out 243)"

primrec squeeze_key :: "'s hash_ops \<Rightarrow> nat \<Rightarrow> 's \<Rightarrow> ('s \<times> trit list) option" where
  "squeeze_key ops 0 st = Some (st, [])"
| "squeeze_key ops (Suc n) st =
     (case h_squeeze ops st 243 of
        None \<Rightarrow> None
      | Some (st, chunk) \<Rightarrow>
          (case squeeze_key ops n st of None \<Rightarrow> None | Some (st, rest) \<Rightarrow> Some (st, chunk @ rest)))"

text \<open>The first component of the results is the return value of the C function.\<close>

definition ISS_key :: "'s hash_ops \<Rightarrow> 's \<Rightarrow> trit list \<Rightarrow> nat \<Rightarrow> (int \<times> 's \<times> trit list) option" where
  "ISS_key ops st subseed key_length =
     (if key_length mod 243 \<noteq> 0 then Some (- 1, st, [])
      else case h_absorb ops st (take 243 subseed) of
             None \<Rightarrow> None
           | Some st \<Rightarrow>
               (case squeeze_key ops (key_length div 243) st of
                  None \<Rightarrow> None
                | Some (st, key) \<Rightarrow> Some (0, h_reset ops st, key)))"

primrec digest_fragments :: "'s hash_ops \<Rightarrow> nat \<Rightarrow> 's \<Rightarrow> trit list \<Rightarrow> ('s \<times> trit list) option" where
  "digest_fragments ops 0 st key = Some (st, [])"
| "digest_fragments ops (Suc n) st key =
     (case hash_step ops st (take ISS_KEY_LENGTH key) 243 of
        None \<Rightarrow> None
      | Some (st, digest) \<Rightarrow>
          (case digest_fragments ops n st (drop ISS_KEY_LENGTH key) of
             None \<Rightarrow> None
           | Some (st, rest) \<Rightarrow> Some (st, digest @ rest)))"

text \<open>The key is hashed in place: the result holds the new contents of the key array and the digests.\<close>

definition ISS_key_digest :: "'s hash_ops \<Rightarrow> 's \<Rightarrow> trit list \<Rightarrow> nat \<Rightarrow> (int \<times> 's \<times> trit list \<times> trit list) option" where
  "ISS_key_digest ops st key key_length =
     (if key_length mod ISS_KEY_LENGTH \<noteq> 0 then Some (- 1, st, key, [])
      else case hash_chunks ops (\<lambda>_. 26) 0 (key_length div 243) st key of
             None \<Rightarrow> None
           | Some (st, key) \<Rightarrow>
               (case digest_fragments ops (key_length div ISS_KEY_LENGTH) st key of
                  None \<Rightarrow> None
                | Some (st, digest) \<Rightarrow> Some (0, st, key, digest)))"

definition ISS_address :: "'s hash_ops \<Rightarrow> 's \<Rightarrow> trit list \<Rightarrow> ('s \<times> trit list) option" where
  "ISS_address ops st digest = hash_step ops st digest 243"

text \<open>
  \<open>(size_t)(TRYTE_VALUE_MAX - v)\<close>: the conversion of an int to a 64-bit unsigned number. The pointer loops
  run over the chunks of a key whose length is a multiple of the hash length.
\<close>

definition ISS_signature :: "'s hash_ops \<Rightarrow> 's \<Rightarrow> trit list \<Rightarrow> trit list \<Rightarrow> nat \<Rightarrow> ('s \<times> trit list) option" where
  "ISS_signature ops st hash key key_len =
     hash_chunks ops (\<lambda>i. nat ((TRYTE_VALUE_MAX - HASH_TRYTE_VAL hash i) mod 2 ^ 64)) 0 ((key_len + 242) div 243) st key"

definition ISS_sig_digest :: "'s hash_ops \<Rightarrow> 's \<Rightarrow> trit list \<Rightarrow> trit list \<Rightarrow> nat \<Rightarrow> ('s \<times> trit list \<times> trit list) option" where
  "ISS_sig_digest ops st hash sig sig_len =
     (case hash_chunks ops (\<lambda>i. nat ((HASH_TRYTE_VAL hash i - TRYTE_VALUE_MIN) mod 2 ^ 64)) 0 ((sig_len + 242) div 243) st sig of
        None \<Rightarrow> None
      | Some (st, sig) \<Rightarrow>
          (case hash_step ops st sig 243 of None \<Rightarrow> None | Some (st, dig) \<Rightarrow> Some (st, sig, dig)))"

definition hash_pair :: "'s hash_ops \<Rightarrow> 's \<Rightarrow> trit list \<Rightarrow> trit list \<Rightarrow> ('s \<times> trit list) option" where
  "hash_pair ops st left right =
     (case h_absorb ops st left of
        None \<Rightarrow> None
      | Some st \<Rightarrow> hash_step ops st right 243)"

primrec merkle_loop :: "'s hash_ops \<Rightarrow> nat \<Rightarrow> 's \<Rightarrow> trit list \<Rightarrow> trit list list \<Rightarrow> nat \<Rightarrow> ('s \<times> trit list) option" where
  "merkle_loop ops i st hash [] leaf_index = Some (st, hash)"
| "merkle_loop ops i st hash (sibling # siblings) leaf_index =
     (case (if odd (leaf_index div 2 ^ i) then hash_pair ops st sibling hash else hash_pair ops st hash sibling) of
        None \<Rightarrow> None
      | Some (st, hash) \<Rightarrow> merkle_loop ops (i + 1) st hash siblings leaf_index)"

text \<open>The functions of \<open>v1/iss.c\<close>. The siblings are the consecutive hashes of one array.\<close>

definition iss_subseed :: "'k sponge \<Rightarrow> trit list \<Rightarrow> int \<Rightarrow> ('k sponge \<times> trit list) option" where
  "iss_subseed sponge seed index = ISS_subseed sponge_ops sponge seed index"

definition iss_key :: "'k sponge \<Rightarrow> trit list \<Rightarrow> nat \<Rightarrow> (int \<times> 'k sponge \<times> trit list) option" where
  "iss_key sponge subseed key_length = ISS_key sponge_ops sponge subseed key_length"

definition iss_key_digest :: "'k sponge \<Rightarrow> trit list \<Rightarrow> nat \<Rightarrow> (int \<times> 'k sponge \<times> trit list \<times> trit list) option" where
  "iss_key_digest sponge key key_length = ISS_key_digest sponge_ops sponge key key_length"

definition iss_address :: "'k sponge \<Rightarrow> trit list \<Rightarrow> ('k sponge \<times> trit list) option" where
  "iss_address sponge digest = ISS_address sponge_ops sponge digest"

definition iss_signature :: "'k sponge \<Rightarrow> trit list \<Rightarrow> trit list \<Rightarrow> nat \<Rightarrow> ('k sponge \<times> trit list) option" where
  "iss_signature sponge hash key key_len = ISS_signature sponge_ops sponge hash key key_len"

definition iss_sig_digest :: "'k sponge \<Rightarrow> trit list \<Rightarrow> trit list \<Rightarrow> nat \<Rightarrow> ('k sponge \<times> trit list \<times> trit list) option" where
  "iss_sig_digest sponge hash sig sig_len = ISS_sig_digest sponge_ops sponge hash sig sig_len"

definition iss_merkle_root :: "'k sponge \<Rightarrow> trit list \<Rightarrow> trit list \<Rightarrow> nat \<Rightarrow> nat \<Rightarrow> ('k sponge \<times> trit list) option" where
  "iss_merkle_root sponge hash siblings siblings_number leaf_index =
     merkle_loop sponge_ops 0 sponge hash (map (\<lambda>i. slice (i * 243) 243 siblings) [0..<siblings_number]) leaf_index"

text \<open>
  \<open>normalize.c\<close>. A fragment is a list of 27 tryte values; \<open>dec_first\<close> and \<open>inc_first\<close> are the inner \<open>for\<close>
  loops with their \<open>break\<close>, the \<open>while\<close> loops run them as often as the sum says.
\<close>

definition normalized_hash_is_secure :: "byte list \<Rightarrow> nat \<Rightarrow> bool" where
  "normalized_hash_is_secure normalized_hash len = list_all (\<lambda>v. v \<noteq> TRYTE_VALUE_MAX) (take len normalized_hash)"

primrec dec_first :: "byte list \<Rightarrow> byte list" where
  "dec_first [] = []"
| "dec_first (v # vs) = (if v > TRYTE_VALUE_MIN then wrap8 (v - 1) # vs else v # dec_first vs)"

primrec inc_first :: "byte list \<Rightarrow> byte list" where
  "inc_first [] = []"
| "inc_first (v # vs) = (if v < TRYTE_VALUE_MAX then wrap8 (v + 1) # vs else v # inc_first vs)"

primrec dec_while :: "nat \<Rightarrow> byte list \<Rightarrow> byte list" where
  "dec_while 0 vs = vs"
| "dec_while (Suc n) vs = dec_while n (dec_first vs)"

primrec inc_while :: "nat \<Rightarrow> byte list \<Rightarrow> byte list" where
  "inc_while 0 vs = vs"
| "inc_while (Suc n) vs = inc_while n (inc_first vs)"

definition normalize_fragment :: "trit list \<Rightarrow> nat \<Rightarrow> byte list" where
  "normalize_fragment hash i =
     (let values = map (\<lambda>j. wrap8 (hash ! (j * 3) + hash ! (j * 3 + 1) * 3 + hash ! (j * 3 + 2) * 9)) [i * 27..<(i + 1) * 27];
          total = sum_list values
      in if total > 0 then dec_while (nat total) values else inc_while (nat (- total)) values)"

definition normalize_hash :: "trit list \<Rightarrow> byte list" where
  "normalize_hash hash = concat (map (normalize_fragment hash) [0..<3])"

definition normalize_hash_to_trits :: "trit list \<Rightarrow> trit list \<Rightarrow> trit list" where
  "normalize_hash_to_trits hash normalized_hash =
     (let normalized_bundle_bytes = normalize_hash hash
      in fold (\<lambda>c out. take (c * 3) out @ snd (long_to_trits (normalized_bundle_bytes ! c) (drop (c * 3) out)))
           [0..<81] normalized_hash)"

definition normalize_flex_hash :: "flex_enc \<Rightarrow> flex_trit list \<Rightarrow> byte list" where
  "normalize_flex_hash e hash =
     normalize_hash (snd (flex_trits_to_trits e (replicate 243 0) 243 hash 243 243))"

definition normalize_flex_hash_to_trits :: "flex_enc \<Rightarrow> flex_trit list \<Rightarrow> trit list \<Rightarrow> trit list" where
  "normalize_flex_hash_to_trits e hash normalized_hash =
     (let normalized_bundle_bytes = normalize_flex_hash e hash
      in fold (\<lambda>c out. take (c * 3) out @ snd (long_to_trits (normalized_bundle_bytes ! c) (drop (c * 3) out)))
           [0..<81] normalized_hash)"

section \<open>Hash chains\<close>

lemma hash_times_add:
  "hash_times ops (m + n) st c =
    (case hash_times ops m st c of None \<Rightarrow> None | Some (st', c') \<Rightarrow> hash_times ops n st' c')"
  by (induction m arbitrary: st c) (auto split: option.splits)

context sponge_contract
begin

lemma hash_times_fresh:
  assumes "fresh st" "valid_trits c" "length c = 243" "hash_times ops n st c = Some (st', c')"
  shows "st' = st \<and> valid_trits c' \<and> length c' = 243"
  using assms
proof (induction n arbitrary: c)
  case (Suc n)
  from Suc.prems(4) obtain s1 c1 where 1: "hash_step ops st c 243 = Some (s1, c1)" "hash_times ops n s1 c1 = Some (st', c')"
    by (auto split: option.splits)
  from hash_step_fresh [OF Suc.prems(1,2) 1(1)] have "s1 = st" "length c1 = 243" "valid_trits c1" by auto
  with Suc.IH [of c1] Suc.prems(1) 1(2) show ?case by simp
qed simp

lemma hash_chunks_fresh:
  assumes "fresh st" "valid_trits xs" "length xs = 243 * n" "hash_chunks ops count i n st xs = Some (st', ys)"
  shows "st' = st \<and> valid_trits ys \<and> length ys = 243 * n"
  using assms
proof (induction n arbitrary: i xs ys)
  case (Suc n)
  from Suc.prems(4) obtain s1 c r where
    1: "hash_times ops (count i) st (take 243 xs) = Some (s1, c)" and
    2: "hash_chunks ops count (i + 1) n s1 (drop 243 xs) = Some (st', r)" and ys: "ys = c @ r"
    by (auto split: option.splits)
  from hash_times_fresh [OF Suc.prems(1) _ _ 1] Suc.prems have s1: "s1 = st" "valid_trits c" "length c = 243"
    by (auto simp: valid_trits_take)
  from Suc.IH [OF Suc.prems(1) _ _ 2 [unfolded s1]] Suc.prems s1 show ?case by (auto simp: ys valid_trits_drop)
qed simp

text \<open>Hashing every chunk \<open>a i\<close> times and then \<open>b i\<close> times is hashing it \<open>a i + b i\<close> times.\<close>

lemma hash_chunks_compose:
  assumes "fresh st" "valid_trits xs" "length xs = 243 * n"
  shows "(case hash_chunks ops a i n st xs of None \<Rightarrow> None | Some (st', ys) \<Rightarrow> hash_chunks ops b i n st' ys)
    = hash_chunks ops (\<lambda>k. a k + b k) i n st xs"
  using assms(2,3)
proof (induction n arbitrary: i xs)
  case (Suc n)
  have xs: "valid_trits (take 243 xs)" "length (take 243 xs) = 243" "valid_trits (drop 243 xs)" "length (drop 243 xs) = 243 * n"
    using Suc.prems by (simp_all add: valid_trits_take valid_trits_drop)
  note ih = Suc.IH [OF xs(3,4), of "i + 1"]
  show ?case
  proof (cases "hash_times ops (a i) st (take 243 xs)")
    case None
    then show ?thesis by (simp add: hash_times_add)
  next
    case (Some p)
    then obtain c where c: "hash_times ops (a i) st (take 243 xs) = Some (st, c)" "valid_trits c" "length c = 243"
      using hash_times_fresh [OF assms(1) xs(1,2)] by (cases p) auto
    show ?thesis
    proof (cases "hash_chunks ops a (i + 1) n st (drop 243 xs)")
      case None
      with ih have "hash_chunks ops (\<lambda>k. a k + b k) (i + 1) n st (drop 243 xs) = None" by simp
      with None c show ?thesis
        by (auto simp: hash_times_add split: option.splits dest: hash_times_fresh [OF assms(1) c(2,3)])
    next
      case (Some q)
      then obtain r where r: "hash_chunks ops a (i + 1) n st (drop 243 xs) = Some (st, r)" "length r = 243 * n"
        using hash_chunks_fresh [OF assms(1) xs(3,4)] by (cases q) auto
      with ih have "hash_chunks ops b (i + 1) n st r = hash_chunks ops (\<lambda>k. a k + b k) (i + 1) n st (drop 243 xs)" by simp
      with c r show ?thesis
        by (auto simp: hash_times_add split: option.splits dest: hash_times_fresh [OF assms(1) c(2,3)])
    qed
  qed
qed simp

lemma hash_pair_fresh:
  assumes "fresh st" "valid_trits a" "valid_trits b" "hash_pair ops st a b = Some (st', out)"
  shows "st' = st \<and> length out = 243 \<and> valid_trits out"
proof -
  have st: "ok st" "h_reset ops st = st" using assms(1) by (simp_all add: fresh_def)
  from assms(4) obtain s1 s2 s3 where
    1: "h_absorb ops st a = Some s1" "h_absorb ops s1 b = Some s2" "h_squeeze ops s2 243 = Some (s3, out)" "st' = h_reset ops s3"
    by (auto simp: hash_pair_def hash_step_def split: option.splits)
  from absorb_law [OF st(1) assms(2) 1(1)] absorb_law [OF _ assms(3) 1(2)] squeeze_law [OF _ 1(3)] 1(4) st
  show ?thesis by simp
qed

end

lemma hash_chunks_cong:
  "(\<And>k. i \<le> k \<Longrightarrow> k < i + n \<Longrightarrow> a k = b k) \<Longrightarrow> hash_chunks ops a i n st xs = hash_chunks ops b i n st xs"
proof (induction n arbitrary: i st xs)
  case (Suc n)
  then have "a i = b i" by simp
  moreover have "hash_chunks ops a (i + 1) n st' ys = hash_chunks ops b (i + 1) n st' ys" for st' ys
    using Suc.prems by (intro Suc.IH) auto
  ultimately show ?case by (simp split: option.splits)
qed simp

lemma hash_chunks_shift: "hash_chunks ops c (j + k) n st xs = hash_chunks ops (\<lambda>i. c (i + k)) j n st xs"
proof (induction n arbitrary: j st xs)
  case (Suc n)
  have ih: "hash_chunks ops c (j + k + 1) n st xs = hash_chunks ops (\<lambda>i. c (i + k)) (j + 1) n st xs" for st xs
    using Suc [of "j + 1" st xs] by (simp add: add.commute add.left_commute)
  show ?case unfolding hash_chunks.simps ih ..
qed simp

lemma hash_chunks_add:
  "hash_chunks ops c j (m + n) st xs =
    (case hash_chunks ops c j m st xs of
       None \<Rightarrow> None
     | Some (st, a) \<Rightarrow>
         (case hash_chunks ops c (j + m) n st (drop (243 * m) xs) of None \<Rightarrow> None | Some (st, b) \<Rightarrow> Some (st, a @ b)))"
proof (induction m arbitrary: j st xs)
  case (Suc m)
  show ?case by (simp add: Suc add.commute [of 243] split: option.split)
qed (simp split: option.split)

lemma HASH_TRYTE_VAL_bounds:
  assumes "valid_trits hash" "3 * i + 3 \<le> length hash"
  shows "- 13 \<le> HASH_TRYTE_VAL hash i" "HASH_TRYTE_VAL hash i \<le> 13"
proof -
  have "is_trit (hash ! (i * 3))" "is_trit (hash ! (i * 3 + 1))" "is_trit (hash ! (i * 3 + 2))"
    using assms by (simp_all add: list_all_length)
  then show "- 13 \<le> HASH_TRYTE_VAL hash i" "HASH_TRYTE_VAL hash i \<le> 13"
    by (simp_all add: HASH_TRYTE_VAL_def is_trit_def)
qed

lemma iss_counts:
  assumes "valid_trits hash" "3 * i + 3 \<le> length hash"
  shows "nat ((TRYTE_VALUE_MAX - HASH_TRYTE_VAL hash i) mod 2 ^ 64) + nat ((HASH_TRYTE_VAL hash i - TRYTE_VALUE_MIN) mod 2 ^ 64) = 26"
  using HASH_TRYTE_VAL_bounds [OF assms] by (simp add: TRYTE_VALUE_MAX_def TRYTE_VALUE_MIN_def)

context sponge_contract
begin

text \<open>Verifying a signature of a key fragment recovers the digest of the fragment.\<close>

lemma signature_recovers_digest:
  assumes "fresh st" "valid_trits key" "length key = ISS_KEY_LENGTH" "valid_trits hash" "81 \<le> length hash"
  shows "(case ISS_signature ops st hash key ISS_KEY_LENGTH of
      None \<Rightarrow> None
    | Some (st', sig) \<Rightarrow> map_option (\<lambda>(st, _, dig). (st, dig)) (ISS_sig_digest ops st' hash sig ISS_KEY_LENGTH))
    = map_option (\<lambda>(_, st, _, dig). (st, dig)) (ISS_key_digest ops st key ISS_KEY_LENGTH)"
proof -
  let ?a = "\<lambda>i. nat ((TRYTE_VALUE_MAX - HASH_TRYTE_VAL hash i) mod 2 ^ 64)"
  let ?b = "\<lambda>i. nat ((HASH_TRYTE_VAL hash i - TRYTE_VALUE_MIN) mod 2 ^ 64)"
  have l: "length key = 243 * 27" using assms(3) by (simp add: ISS_KEY_LENGTH_def)
  have n: "(ISS_KEY_LENGTH + 242) div 243 = 27" "ISS_KEY_LENGTH div 243 = 27" "ISS_KEY_LENGTH mod ISS_KEY_LENGTH = 0"
      "ISS_KEY_LENGTH div ISS_KEY_LENGTH = Suc 0"
    by (simp_all add: ISS_KEY_LENGTH_def)
  have "?a i + ?b i = 26" if "i < 27" for i using that assms(4,5) by (intro iss_counts) auto
  then have c: "hash_chunks ops (\<lambda>i. ?a i + ?b i) 0 27 st key = hash_chunks ops (\<lambda>_. 26) 0 27 st key"
    by (intro hash_chunks_cong) simp
  have "length ys = ISS_KEY_LENGTH" if "hash_chunks ops (\<lambda>_. 26) 0 27 st key = Some (s, ys)" for s ys
    using hash_chunks_fresh [OF assms(1,2) l that] by (simp add: ISS_KEY_LENGTH_def)
  then have kd: "map_option (\<lambda>(_, st, _, dig). (st, dig)) (ISS_key_digest ops st key ISS_KEY_LENGTH)
      = (case hash_chunks ops (\<lambda>_. 26) 0 27 st key of None \<Rightarrow> None | Some (s, ys) \<Rightarrow> hash_step ops s ys 243)"
    unfolding ISS_key_digest_def n by (auto split: option.splits)
  have sd: "map_option (\<lambda>(st, _, dig). (st, dig)) (ISS_sig_digest ops s hash sig ISS_KEY_LENGTH)
      = (case hash_chunks ops ?b 0 27 s sig of None \<Rightarrow> None | Some (s, ys) \<Rightarrow> hash_step ops s ys 243)" for s sig
    unfolding ISS_sig_digest_def n by (auto split: option.splits)
  show ?thesis
    unfolding kd sd c [symmetric] hash_chunks_compose [OF assms(1,2) l, symmetric] ISS_signature_def n
    by (auto split: option.splits)
qed

end

section \<open>Merkle trees\<close>

text \<open>The reference: a binary tree of hashes, its root, and the siblings on the way from a leaf to the root.\<close>

datatype merkle = MLeaf "trit list" | MNode merkle merkle

fun merkle_perfect :: "nat \<Rightarrow> merkle \<Rightarrow> bool" where
  "merkle_perfect 0 (MLeaf h) \<longleftrightarrow> valid_trits h \<and> length h = 243"
| "merkle_perfect (Suc d) (MNode l r) \<longleftrightarrow> merkle_perfect d l \<and> merkle_perfect d r"
| "merkle_perfect _ _ \<longleftrightarrow> False"

fun merkle_value :: "'s hash_ops \<Rightarrow> 's \<Rightarrow> merkle \<Rightarrow> trit list option" where
  "merkle_value ops st (MLeaf h) = Some h"
| "merkle_value ops st (MNode l r) =
     (case (merkle_value ops st l, merkle_value ops st r) of
        (Some a, Some b) \<Rightarrow> map_option snd (hash_pair ops st a b)
      | _ \<Rightarrow> None)"

fun merkle_leaf :: "nat \<Rightarrow> merkle \<Rightarrow> nat \<Rightarrow> trit list" where
  "merkle_leaf (Suc d) (MNode l r) i = (if odd (i div 2 ^ d) then merkle_leaf d r i else merkle_leaf d l i)"
| "merkle_leaf _ (MLeaf h) i = h"
| "merkle_leaf _ _ i = []"

fun merkle_siblings :: "'s hash_ops \<Rightarrow> 's \<Rightarrow> nat \<Rightarrow> merkle \<Rightarrow> nat \<Rightarrow> trit list list" where
  "merkle_siblings ops st (Suc d) (MNode l r) i =
     (if odd (i div 2 ^ d) then merkle_siblings ops st d r i @ [the (merkle_value ops st l)]
      else merkle_siblings ops st d l i @ [the (merkle_value ops st r)])"
| "merkle_siblings ops st _ _ i = []"

lemma merkle_loop_append:
  "merkle_loop ops i st h (xs @ [y]) idx =
    (case merkle_loop ops i st h xs idx of
       None \<Rightarrow> None
     | Some (st', h') \<Rightarrow>
         (if odd (idx div 2 ^ (i + length xs)) then hash_pair ops st' y h' else hash_pair ops st' h' y))"
  by (induction xs arbitrary: i st h) (auto split: option.splits)

lemma merkle_siblings_length: "merkle_perfect d t \<Longrightarrow> length (merkle_siblings ops st d t i) = d"
  by (induction d t rule: merkle_perfect.induct) auto

context sponge_contract
begin

lemma merkle_value_valid:
  "fresh st \<Longrightarrow> merkle_perfect d t \<Longrightarrow> merkle_value ops st t = Some v \<Longrightarrow> valid_trits v \<and> length v = 243"
proof (induction d t arbitrary: v rule: merkle_perfect.induct)
  case (2 d l r)
  from "2.prems" obtain a b s where ab: "merkle_value ops st l = Some a" "merkle_value ops st r = Some b"
      "hash_pair ops st a b = Some (s, v)"
    by (auto split: option.splits)
  with "2.IH" "2.prems" hash_pair_fresh [of st a b s v] show ?case by auto
qed auto

lemma merkle_siblings_hashes:
  "fresh st \<Longrightarrow> merkle_perfect d t \<Longrightarrow> merkle_value ops st t = Some v \<Longrightarrow>
    h \<in> set (merkle_siblings ops st d t i) \<Longrightarrow> length h = 243"
proof (induction d t arbitrary: v rule: merkle_perfect.induct)
  case (2 d l r)
  from "2.prems" obtain a b where ab: "merkle_value ops st l = Some a" "merkle_value ops st r = Some b"
    by (auto split: option.splits)
  with "2.prems" "2.IH" merkle_value_valid [of st d l a] merkle_value_valid [of st d r b] show ?case
    by (auto split: if_splits)
qed auto

text \<open>From a leaf and its siblings the loop computes the root of the tree.\<close>

lemma merkle_root_correct:
  assumes "fresh st" "merkle_perfect d t" "merkle_value ops st t = Some root"
  shows "merkle_loop ops 0 st (merkle_leaf d t i) (merkle_siblings ops st d t i) i = Some (st, root)"
  using assms(2,3)
proof (induction d t arbitrary: root rule: merkle_perfect.induct)
  case (2 d l r)
  from "2.prems" obtain a b s where ab: "merkle_value ops st l = Some a" "merkle_value ops st r = Some b"
      "hash_pair ops st a b = Some (s, root)"
    by (auto split: option.splits)
  have v: "valid_trits a" "valid_trits b" using merkle_value_valid [OF assms(1)] "2.prems" ab by fastforce+
  have s: "s = st" using hash_pair_fresh [OF assms(1) v ab(3)] by simp
  from "2.IH"(1) [of a] "2.IH"(2) [of b] "2.prems" ab s show ?case
    by (auto simp: merkle_loop_append merkle_siblings_length)
qed auto

end

section \<open>Normalisation\<close>

abbreviation tryte_values :: "int list \<Rightarrow> bool" where
  "tryte_values \<equiv> list_all (\<lambda>v. - 13 \<le> v \<and> v \<le> 13)"

lemma dec_first_sum:
  "tryte_values vs \<Longrightarrow> - 13 * int (length vs) < sum_list vs \<Longrightarrow>
    tryte_values (dec_first vs) \<and> sum_list (dec_first vs) = sum_list vs - 1 \<and> length (dec_first vs) = length vs"
proof (induction vs)
  case (Cons v vs)
  have w: "wrap8 (v - 1) = v - 1" using Cons.prems by (intro wrap8_id) auto
  show ?case using Cons w by (auto simp: TRYTE_VALUE_MIN_def)
qed simp

lemma inc_first_sum:
  "tryte_values vs \<Longrightarrow> sum_list vs < 13 * int (length vs) \<Longrightarrow>
    tryte_values (inc_first vs) \<and> sum_list (inc_first vs) = sum_list vs + 1 \<and> length (inc_first vs) = length vs"
proof (induction vs)
  case (Cons v vs)
  have w: "wrap8 (v + 1) = v + 1" using Cons.prems by (intro wrap8_id) auto
  show ?case using Cons w by (auto simp: TRYTE_VALUE_MAX_def)
qed simp

lemma dec_while_sum:
  "tryte_values vs \<Longrightarrow> sum_list vs = int n \<Longrightarrow>
    tryte_values (dec_while n vs) \<and> sum_list (dec_while n vs) = 0 \<and> length (dec_while n vs) = length vs"
proof (induction n arbitrary: vs)
  case (Suc n)
  have "vs \<noteq> []" using Suc.prems by auto
  then show ?case using Suc dec_first_sum [of vs] by simp
qed simp

lemma inc_while_sum:
  "tryte_values vs \<Longrightarrow> sum_list vs = - int n \<Longrightarrow>
    tryte_values (inc_while n vs) \<and> sum_list (inc_while n vs) = 0 \<and> length (inc_while n vs) = length vs"
proof (induction n arbitrary: vs)
  case (Suc n)
  have "vs \<noteq> []" using Suc.prems by auto
  then show ?case using Suc inc_first_sum [of vs] by simp
qed simp

lemma normalize_fragment_correct:
  assumes "valid_trits hash" "length hash = 243" "i < 3"
  shows "tryte_values (normalize_fragment hash i) \<and> sum_list (normalize_fragment hash i) = 0
    \<and> length (normalize_fragment hash i) = 27"
proof -
  define vs where "vs = map (\<lambda>j. wrap8 (hash ! (j * 3) + hash ! (j * 3 + 1) * 3 + hash ! (j * 3 + 2) * 9)) [i * 27..<(i + 1) * 27]"
  have e: "normalize_fragment hash i =
      (if 0 < sum_list vs then dec_while (nat (sum_list vs)) vs else inc_while (nat (- sum_list vs)) vs)"
    unfolding normalize_fragment_def Let_def vs_def ..
  have "- 13 \<le> v \<and> v \<le> 13" if v: "v \<in> set vs" for v
  proof -
    from v obtain j where j: "v = wrap8 (HASH_TRYTE_VAL hash j)" "j < 81"
      using assms(3) by (auto simp: HASH_TRYTE_VAL_def vs_def)
    have "- 13 \<le> HASH_TRYTE_VAL hash j \<and> HASH_TRYTE_VAL hash j \<le> 13"
      using HASH_TRYTE_VAL_bounds [OF assms(1), of j] j(2) assms(2) by simp
    moreover from this have "wrap8 (HASH_TRYTE_VAL hash j) = HASH_TRYTE_VAL hash j" by (intro wrap8_id) auto
    ultimately show ?thesis by (simp only: j(1))
  qed
  then have t: "tryte_values vs" by (simp add: list_all_iff)
  have l: "length vs = 27" by (simp add: vs_def)
  show ?thesis
    using dec_while_sum [OF t, of "nat (sum_list vs)"] inc_while_sum [OF t, of "nat (- sum_list vs)"] l
    unfolding e by (cases "0 < sum_list vs") simp_all
qed

lemma normalize_hash_fragments:
  assumes "valid_trits hash" "length hash = 243"
  shows "length (normalize_hash hash) = 81" "tryte_values (normalize_hash hash)"
    "i < 3 \<Longrightarrow> slice (27 * i) 27 (normalize_hash hash) = normalize_fragment hash i"
proof -
  let ?f = "normalize_fragment hash"
  note f = normalize_fragment_correct [OF assms]
  have n: "normalize_hash hash = ?f 0 @ ?f 1 @ ?f 2" by (simp add: normalize_hash_def numeral_3_eq_3 numeral_2_eq_2)
  show "length (normalize_hash hash) = 81" using f [of 0] f [of 1] f [of 2] by (simp add: n)
  show "tryte_values (normalize_hash hash)" using f [of 0] f [of 1] f [of 2] by (simp add: n)
  assume "i < 3"
  then have "i = 0 \<or> i = 1 \<or> i = 2" by auto
  then show "slice (27 * i) 27 (normalize_hash hash) = ?f i"
    using f [of 0] f [of 1] f [of 2] by (auto simp: n slice_def)
qed

lemma long_to_trits_tryte_table:
  "list_all (\<lambda>v. let w = long_to_trits_loop (min_trits v) (v < 0) (u64_abs v)
     in length w \<le> 3 \<and> w @ replicate (3 - length w) 0 = bt_digits 3 v) [- 13..13]"
  by code_simp

lemma long_to_trits_tryte:
  assumes "- 13 \<le> v" "v \<le> 13" "3 \<le> length out"
  shows "snd (long_to_trits v out) = bt_digits 3 v @ drop 3 out"
proof -
  let ?w = "long_to_trits_loop (min_trits v) (v < 0) (u64_abs v)"
  have w: "length ?w \<le> 3" "?w @ replicate (3 - length ?w) 0 = bt_digits 3 v"
    using list_all_uptoD [OF long_to_trits_tryte_table assms(1,2)] by (simp_all add: Let_def del: bt_digits.simps)
  have "snd (long_to_trits v out) = (?w @ replicate (3 - length ?w) 0) @ drop 3 out"
    using w(1) assms(3) by (simp add: long_to_trits_def Let_def blit_def)
  then show ?thesis unfolding w(2) .
qed

lemma write_trytes:
  assumes "tryte_values vs" "length vs = 81" "length out = 243" "n \<le> 81"
  shows "fold (\<lambda>c out. take (c * 3) out @ snd (long_to_trits (vs ! c) (drop (c * 3) out))) [0..<n] out
    = concat (map (bt_digits 3) (take n vs)) @ drop (3 * n) out"
  using assms(4)
proof (induction n)
  case (Suc n)
  let ?d = "concat (map (bt_digits 3) (take n vs))"
  have "length (concat (map (bt_digits 3) ys)) = 3 * length ys" for ys
    by (induction ys) (simp_all del: bt_digits.simps)
  then have l: "length ?d = n * 3" using assms(2) Suc.prems by simp
  have v: "- 13 \<le> vs ! n" "vs ! n \<le> 13" using assms(1,2) Suc.prems by (simp_all add: list_all_length)
  have "3 \<le> length (drop (3 * n) out)" using assms(3) Suc.prems by simp
  from Suc long_to_trits_tryte [OF v this] l assms(2) show ?case
    by (simp add: take_Suc_conv_app_nth mult.commute add.commute del: bt_digits.simps)
qed simp

section \<open>Properties\<close>

abbreviation null_keccak :: "nat keccak" where
  "null_keccak \<equiv> \<lparr>Keccak_HashInitialize = 0, Keccak_HashUpdate = \<lambda>k b. k + length b, Keccak_HashSqueeze = \<lambda>k. (k, \<lambda>_. 0)\<rparr>"

abbreviation curl27_sponge :: "nat sponge" where
  "curl27_sponge \<equiv> curl_state_init \<lparr>sponge_type = SPONGE_UNKNOWN, sp_absorb = \<lambda>s x. None, sp_squeeze = \<lambda>s n. None, sp_reset = id,
     sp_state = NULL_STATE\<rparr> CURL_P_27"

lemma sponge_fresh:
  "sponge_ok K stack sp \<Longrightarrow> sponge_reset (Some sp) = (RC_OK, Some sp) \<Longrightarrow> sponge.fresh K stack sp"
  unfolding sponge.fresh_def by (simp add: sponge_ops_def sponge_reset_def)

lemma curl27_sponge_ready:
  "sponge_ok null_keccak (\<lambda>_. 0) curl27_sponge" "sponge_reset (Some curl27_sponge) = (RC_OK, Some curl27_sponge)"
  by (simp_all add: sponge_ok_def curl_state_init_def curl_init_def curl_ok_def sponge_reset_def curl_reset_def)

text \<open>
  Signatures verify, with the functions on \<open>sponge_t\<close>: for a freshly reset sponge of any kind, signing a key
  fragment and computing the digest of the signature gives the digest of the key fragment, for every
  message hash; an assertion fails in one computation exactly when it fails in the other.
\<close>

theorem iss_signature_verifies:
  assumes "sponge_ok K stack sp" "sponge_reset (Some sp) = (RC_OK, Some sp)"
    and "valid_trits key" "length key = ISS_KEY_LENGTH" "valid_trits hash" "81 \<le> length hash"
  shows "(case iss_signature sp hash key ISS_KEY_LENGTH of
      None \<Rightarrow> None
    | Some (sp', sig) \<Rightarrow> map_option (\<lambda>(sp, _, dig). (sp, dig)) (iss_sig_digest sp' hash sig ISS_KEY_LENGTH))
    = map_option (\<lambda>(_, sp, _, dig). (sp, dig)) (iss_key_digest sp key ISS_KEY_LENGTH)"
  unfolding iss_signature_def iss_sig_digest_def iss_key_digest_def
  by (rule sponge.signature_recovers_digest [OF sponge_fresh [OF assms(1,2)] assms(3-6)])

theorem iss_signature_verifies_witness:
  "(case iss_signature curl27_sponge (replicate 243 1) (replicate 6561 0) ISS_KEY_LENGTH of
      None \<Rightarrow> None
    | Some (sp', sig) \<Rightarrow> map_option (\<lambda>(sp, _, dig). (sp, dig)) (iss_sig_digest sp' (replicate 243 1) sig ISS_KEY_LENGTH))
    = map_option (\<lambda>(_, sp, _, dig). (sp, dig)) (iss_key_digest curl27_sponge (replicate 6561 0) ISS_KEY_LENGTH)"
  by (rule iss_signature_verifies [OF curl27_sponge_ready]) (simp_all add: ISS_KEY_LENGTH_def list_all_length)

text \<open>
  Signatures verify, with the template functions for Kerl and for Curl.
\<close>

theorem iss_template_signature_verifies:
  assumes "valid_trits key" "length key = ISS_KEY_LENGTH" "valid_trits hash" "81 \<le> length hash"
  shows "(case ISS_signature (kerl_ops K stack) (kerl_init K) hash key ISS_KEY_LENGTH of
        None \<Rightarrow> None
      | Some (st, sig) \<Rightarrow> map_option (\<lambda>(st, _, dig). (st, dig)) (ISS_sig_digest (kerl_ops K stack) st hash sig ISS_KEY_LENGTH))
      = map_option (\<lambda>(_, st, _, dig). (st, dig)) (ISS_key_digest (kerl_ops K stack) (kerl_init K) key ISS_KEY_LENGTH)
    \<and> (case ISS_signature curl_ops (curl_reset c) hash key ISS_KEY_LENGTH of
        None \<Rightarrow> None
      | Some (st, sig) \<Rightarrow> map_option (\<lambda>(st, _, dig). (st, dig)) (ISS_sig_digest curl_ops st hash sig ISS_KEY_LENGTH))
      = map_option (\<lambda>(_, st, _, dig). (st, dig)) (ISS_key_digest curl_ops (curl_reset c) key ISS_KEY_LENGTH)"
proof
  have "kerl.fresh K stack (kerl_init K)" unfolding kerl.fresh_def by (simp add: kerl_ops_def kerl_reset_def)
  from kerl.signature_recovers_digest [OF this assms]
  show "(case ISS_signature (kerl_ops K stack) (kerl_init K) hash key ISS_KEY_LENGTH of
        None \<Rightarrow> None
      | Some (st, sig) \<Rightarrow> map_option (\<lambda>(st, _, dig). (st, dig)) (ISS_sig_digest (kerl_ops K stack) st hash sig ISS_KEY_LENGTH))
      = map_option (\<lambda>(_, st, _, dig). (st, dig)) (ISS_key_digest (kerl_ops K stack) (kerl_init K) key ISS_KEY_LENGTH)" .
  have "curl.fresh (curl_reset c)" unfolding curl.fresh_def by (simp add: curl_ops_def curl_reset_def curl_ok_def)
  from curl.signature_recovers_digest [OF this assms]
  show "(case ISS_signature curl_ops (curl_reset c) hash key ISS_KEY_LENGTH of
        None \<Rightarrow> None
      | Some (st, sig) \<Rightarrow> map_option (\<lambda>(st, _, dig). (st, dig)) (ISS_sig_digest curl_ops st hash sig ISS_KEY_LENGTH))
      = map_option (\<lambda>(_, st, _, dig). (st, dig)) (ISS_key_digest curl_ops (curl_reset c) key ISS_KEY_LENGTH)" .
qed

theorem iss_template_signature_verifies_witness:
  "(case ISS_signature (kerl_ops null_keccak (\<lambda>_. 0)) (kerl_init null_keccak) (replicate 243 1) (replicate 6561 0) ISS_KEY_LENGTH of
        None \<Rightarrow> None
      | Some (st, sig) \<Rightarrow> map_option (\<lambda>(st, _, dig). (st, dig))
          (ISS_sig_digest (kerl_ops null_keccak (\<lambda>_. 0)) st (replicate 243 1) sig ISS_KEY_LENGTH))
      = map_option (\<lambda>(_, st, _, dig). (st, dig))
          (ISS_key_digest (kerl_ops null_keccak (\<lambda>_. 0)) (kerl_init null_keccak) (replicate 6561 0) ISS_KEY_LENGTH)"
  by (rule iss_template_signature_verifies [THEN conjunct1]) (simp_all add: ISS_KEY_LENGTH_def list_all_length)

text \<open>
  Merkle proofs: from a leaf of a perfect tree and the array of its siblings, \<open>iss_merkle_root\<close> computes the
  root of the tree, at every leaf index.
\<close>

theorem iss_merkle_root_correct:
  assumes "sponge_ok K stack sp" "sponge_reset (Some sp) = (RC_OK, Some sp)"
    and "merkle_perfect d t" "merkle_value sponge_ops sp t = Some root"
  shows "iss_merkle_root sp (merkle_leaf d t i) (concat (merkle_siblings sponge_ops sp d t i)) d i = Some (sp, root)"
proof -
  let ?s = "merkle_siblings sponge_ops sp d t i"
  have sl: "slice (k * 243) 243 (concat ss) = ss ! k" if "k < length ss" "\<forall>h \<in> set ss. length h = 243" for k and ss :: "trit list list"
    using that
  proof (induction ss arbitrary: k)
    case (Cons h ss)
    then show ?case by (cases k) (simp_all add: slice_def)
  qed simp
  have "map (\<lambda>k. slice (k * 243) 243 (concat ?s)) [0..<d] = ?s"
    using merkle_siblings_length [OF assms(3), of sponge_ops sp i] sl [of _ ?s]
      sponge.merkle_siblings_hashes [OF sponge_fresh [OF assms(1,2)] assms(3,4)] by (intro nth_equalityI) auto
  with sponge.merkle_root_correct [OF sponge_fresh [OF assms(1,2)] assms(3,4), of i] show ?thesis
    by (simp add: iss_merkle_root_def)
qed

theorem iss_merkle_root_correct_witness:
  "\<exists>root. merkle_value sponge_ops curl27_sponge (MNode (MLeaf (replicate 243 1)) (MLeaf (replicate 243 0))) = Some root
    \<and> iss_merkle_root curl27_sponge (replicate 243 0) (replicate 243 1) 1 1 = Some (curl27_sponge, root)"
proof -
  let ?t = "MNode (MLeaf (replicate 243 1)) (MLeaf (replicate 243 0))"
  obtain root where root: "merkle_value sponge_ops curl27_sponge ?t = Some root"
    by (auto simp: hash_pair_def hash_step_def sponge_ops_def sponge_absorb_def sponge_squeeze_def curl_state_init_def split_beta)
  have "merkle_perfect 1 ?t" by (simp add: list_all_length)
  from iss_merkle_root_correct [OF curl27_sponge_ready this root, of 1] root show ?thesis by auto
qed

text \<open>
  Normalisation: the 81 normalised values are tryte values, and the values of each of the three fragments
  add up to zero.
\<close>

theorem normalize_hash_balanced:
  assumes "valid_trits hash" "length hash = 243"
  shows "length (normalize_hash hash) = 81 \<and> tryte_values (normalize_hash hash)
    \<and> (\<forall>i < 3. sum_list (slice (27 * i) 27 (normalize_hash hash)) = 0)"
  using normalize_hash_fragments [OF assms] normalize_fragment_correct [OF assms] by simp

theorem normalize_hash_balanced_witness:
  "sum_list (slice 27 27 (normalize_hash (replicate 243 1))) = 0"
proof -
  have "valid_trits (replicate 243 1)" "length (replicate 243 (1::int)) = 243" by (simp_all add: list_all_length)
  from normalize_hash_balanced [OF this] have "\<forall>i < 3. sum_list (slice (27 * i) 27 (normalize_hash (replicate 243 1))) = 0"
    by blast
  from this [rule_format, of 1] show ?thesis by simp
qed

text \<open>
  The trits of the normalised hash: whatever the output array held, its trytes are the normalised values.
\<close>

theorem normalize_hash_to_trits_correct:
  assumes "valid_trits hash" "length hash = 243" "length out = 243"
  shows "normalize_hash_to_trits hash out = concat (map (bt_digits 3) (normalize_hash hash))"
  using write_trytes [OF normalize_hash_fragments(2,1) [OF assms(1,2)] assms(3), of 81]
    normalize_hash_fragments(1) [OF assms(1,2)] assms(3)
  by (simp add: normalize_hash_to_trits_def Let_def)

theorem normalize_hash_to_trits_correct_witness:
  "normalize_hash_to_trits (replicate 243 0) (replicate 243 1) = concat (map (bt_digits 3) (normalize_hash (replicate 243 0)))"
  by (rule normalize_hash_to_trits_correct) (simp_all add: list_all_length)

end
