(* ===== verification/Sign.thy ===== *)
theory Sign
  imports Prelude Trit_Tryte Flex_Trit Sponge_Contract Sponge Iss
begin

text \<open>
  \<open>common/helpers/sign.c\<close>: addresses and signatures from a seed, a key index and a security level of one to
  three key fragments, with seeds and results as trits, trytes or packed trits.

  \<open>alloc i\<close> tells whether the \<open>i\<close>-th allocation of a call succeeds. A result \<open>None\<close> is a failed assertion
  inside Kerl, \<open>Some None\<close> the returned NULL. The keys and seeds that the code wipes (\<open>memset_safe\<close>) are
  local and do not appear in the results.
\<close>

section \<open>Definitions\<close>

definition HASH_LENGTH_TRYTE :: nat where "HASH_LENGTH_TRYTE = 81"

definition bad_security :: "nat \<Rightarrow> bool" where
  "bad_security security \<longleftrightarrow> \<not> (security > 0 \<and> security \<le> 3)"

text \<open>
  The digests overwrite the key they are computed from; digest \<open>i\<close> is stored before the fragment \<open>i + 1\<close>
  starts, so that every fragment is read unchanged.
\<close>

definition iota_sign_address_gen_trits ::
  "'k keccak \<Rightarrow> (nat \<Rightarrow> u8) \<Rightarrow> (nat \<Rightarrow> bool) \<Rightarrow> trit list option \<Rightarrow> nat \<Rightarrow> nat \<Rightarrow> trit list option option"
where
  "iota_sign_address_gen_trits K stack alloc seedp index security =
     (let key_length = security * ISS_KEY_LENGTH; ops = kerl_ops K stack
      in case seedp of
           None \<Rightarrow> Some None
         | Some seed \<Rightarrow>
             if bad_security security \<or> \<not> alloc 0 \<or> \<not> alloc 1 then Some None
             else case ISS_subseed ops (kerl_init K) (take 243 seed) (wrap64 (int index)) of None \<Rightarrow> None
                | Some (kerl, subseed) \<Rightarrow>
             (case ISS_key ops kerl subseed key_length of None \<Rightarrow> None
                | Some (_, kerl, key) \<Rightarrow>
             (case ISS_key_digest ops kerl key key_length of None \<Rightarrow> None
                | Some (_, kerl, _, digest) \<Rightarrow>
             (case ISS_address ops kerl (take (security * 243) digest) of None \<Rightarrow> None
                | Some (_, address) \<Rightarrow> Some (Some address)))))"

definition iota_sign_address_gen_trytes ::
  "'k keccak \<Rightarrow> (nat \<Rightarrow> u8) \<Rightarrow> (nat \<Rightarrow> bool) \<Rightarrow> tryte list option \<Rightarrow> nat \<Rightarrow> nat \<Rightarrow> tryte list option option"
where
  "iota_sign_address_gen_trytes K stack alloc seedp index security =
     (case seedp of
        None \<Rightarrow> Some None
      | Some seed \<Rightarrow>
          if bad_security security \<or> \<not> alloc 0 then Some None
          else let seed_trits = trytes_to_trits (take HASH_LENGTH_TRYTE seed)
               in case iota_sign_address_gen_trits K stack (\<lambda>i. alloc (i + 1)) (Some seed_trits) index security of
                    None \<Rightarrow> None
                  | Some None \<Rightarrow> Some None
                  | Some (Some address_trits) \<Rightarrow> Some (Some (trits_to_trytes (take 243 address_trits))))"

definition iota_sign_address_gen_flex_trits ::
  "flex_enc \<Rightarrow> 'k keccak \<Rightarrow> (nat \<Rightarrow> u8) \<Rightarrow> (nat \<Rightarrow> bool) \<Rightarrow> flex_trit list option \<Rightarrow> nat \<Rightarrow> nat \<Rightarrow> flex_trit list option option"
where
  "iota_sign_address_gen_flex_trits e K stack alloc seedp index security =
     (case seedp of
        None \<Rightarrow> Some None
      | Some seed \<Rightarrow>
          if bad_security security \<or> \<not> alloc 0 then Some None
          else let seed_trits = snd (flex_trits_to_trits e (replicate 243 0) 243 seed 243 243)
               in case iota_sign_address_gen_trits K stack (\<lambda>i. alloc (i + 1)) (Some seed_trits) index security of
                    None \<Rightarrow> None
                  | Some None \<Rightarrow> Some None
                  | Some (Some address_trits) \<Rightarrow>
                      Some (Some (snd (flex_trits_from_trits e (replicate (NUM_FLEX_TRITS_FOR_TRITS e 243) 0) 243
                                         address_trits 243 243))))"

definition iota_sign_signature_gen_trits ::
  "'k keccak \<Rightarrow> (nat \<Rightarrow> u8) \<Rightarrow> (nat \<Rightarrow> bool) \<Rightarrow> trit list option \<Rightarrow> nat \<Rightarrow> nat \<Rightarrow> trit list option \<Rightarrow> trit list option option"
where
  "iota_sign_signature_gen_trits K stack alloc seedp index security bundle_hashp =
     (let key_length = security * ISS_KEY_LENGTH; ops = kerl_ops K stack
      in case (seedp, bundle_hashp) of
           (Some seed, Some bundle_hash) \<Rightarrow>
             if bad_security security \<or> \<not> alloc 0 then Some None
             else (case ISS_subseed ops (kerl_init K) (take 243 seed) (wrap64 (int index)) of None \<Rightarrow> None
                | Some (kerl, subseed) \<Rightarrow>
             (case ISS_key ops kerl subseed key_length of None \<Rightarrow> None
                | Some (_, kerl, key) \<Rightarrow>
             (let normalized_bundle_hash = normalize_hash_to_trits bundle_hash (replicate 243 0)
              in case ISS_signature ops kerl normalized_bundle_hash key key_length of None \<Rightarrow> None
                | Some (_, key) \<Rightarrow> Some (Some key))))
         | _ \<Rightarrow> Some None)"

definition iota_sign_signature_gen_trytes ::
  "'k keccak \<Rightarrow> (nat \<Rightarrow> u8) \<Rightarrow> (nat \<Rightarrow> bool) \<Rightarrow> tryte list option \<Rightarrow> nat \<Rightarrow> nat \<Rightarrow> tryte list option \<Rightarrow> tryte list option option"
where
  "iota_sign_signature_gen_trytes K stack alloc seedp index security bundle_hashp =
     (case (seedp, bundle_hashp) of
        (Some seed, Some bundle_hash) \<Rightarrow>
          if bad_security security \<or> \<not> alloc 0 then Some None
          else (let seed_trits = trytes_to_trits (take HASH_LENGTH_TRYTE seed);
                    bundle_hash_trits = trytes_to_trits (take HASH_LENGTH_TRYTE bundle_hash)
                in case iota_sign_signature_gen_trits K stack (\<lambda>i. alloc (i + 1)) (Some seed_trits) index security
                          (Some bundle_hash_trits) of
                     None \<Rightarrow> None
                   | Some None \<Rightarrow> Some None
                   | Some (Some signature_trits) \<Rightarrow>
                       Some (Some (trits_to_trytes (take (security * ISS_KEY_LENGTH) signature_trits))))
      | _ \<Rightarrow> Some None)"

definition iota_sign_signature_gen_flex_trits ::
  "flex_enc \<Rightarrow> 'k keccak \<Rightarrow> (nat \<Rightarrow> u8) \<Rightarrow> (nat \<Rightarrow> bool) \<Rightarrow> flex_trit list option \<Rightarrow> nat \<Rightarrow> nat \<Rightarrow> flex_trit list option
    \<Rightarrow> flex_trit list option option"
where
  "iota_sign_signature_gen_flex_trits e K stack alloc seedp index security bundle_hashp =
     (case (seedp, bundle_hashp) of
        (Some seed, Some bundle_hash) \<Rightarrow>
          if bad_security security \<or> \<not> alloc 0 then Some None
          else (let seed_trits = snd (flex_trits_to_trits e (replicate 243 0) 243 seed 243 243);
                    bundle_hash_trits = snd (flex_trits_to_trits e (replicate 243 0) 243 bundle_hash 243 243);
                    len = security * ISS_KEY_LENGTH
                in case iota_sign_signature_gen_trits K stack (\<lambda>i. alloc (i + 1)) (Some seed_trits) index security
                          (Some bundle_hash_trits) of
                     None \<Rightarrow> None
                   | Some None \<Rightarrow> Some None
                   | Some (Some signature_trits) \<Rightarrow>
                       Some (Some (snd (flex_trits_from_trits e (replicate (NUM_FLEX_TRITS_FOR_TRITS e len) 0) len
                                          signature_trits len len))))
      | _ \<Rightarrow> Some None)"

section \<open>Signatures of several fragments\<close>

context sponge_contract
begin

lemma hash_chunks_split:
  assumes "fresh st" "valid_trits xs" "length xs = 243 * (m + n)" "hash_chunks ops c j (m + n) st xs = Some (st', ys)"
  shows "hash_chunks ops c j m st (take (243 * m) xs) = Some (st, take (243 * m) ys)"
    and "hash_chunks ops c (j + m) n st (drop (243 * m) xs) = Some (st, drop (243 * m) ys)"
proof -
  have "hash_chunks ops c j m st (take (243 * m) xs) = Some (st, take (243 * m) ys)
      \<and> hash_chunks ops c (j + m) n st (drop (243 * m) xs) = Some (st, drop (243 * m) ys)"
    using assms(2-4)
  proof (induction m arbitrary: j xs ys)
    case 0
    then have "st' = st" using hash_chunks_fresh [OF assms(1) 0(1), of n c j st' ys] by simp
    with 0 show ?case by simp
  next
    case (Suc m)
    from Suc.prems(3) obtain s1 a r where
      1: "hash_times ops (c j) st (take 243 xs) = Some (s1, a)" and
      2: "hash_chunks ops c (j + 1) (m + n) s1 (drop 243 xs) = Some (st', r)" and ys: "ys = a @ r"
      by (auto split: option.splits)
    from hash_times_fresh [OF assms(1) _ _ 1] Suc.prems have a: "s1 = st" "length a = 243" by (auto simp: valid_trits_take)
    from Suc.IH [of "drop 243 xs" "j + 1" r] 2 a Suc.prems
    have ih: "hash_chunks ops c (j + 1) m st (take (243 * m) (drop 243 xs)) = Some (st, take (243 * m) r)"
        "hash_chunks ops c (j + 1 + m) n st (drop (243 * m) (drop 243 xs)) = Some (st, drop (243 * m) r)"
      by (simp_all add: valid_trits_drop)
    with 1 a show ?case by (simp add: ys take_drop add.commute)
  qed
  then show "hash_chunks ops c j m st (take (243 * m) xs) = Some (st, take (243 * m) ys)"
      "hash_chunks ops c (j + m) n st (drop (243 * m) xs) = Some (st, drop (243 * m) ys)" by auto
qed

lemma hash_chunks_fragment:
  assumes "fresh st" "valid_trits xs" "length xs = 243 * (k * s)" "hash_chunks ops c 0 (k * s) st xs = Some (st', ys)" "i < s"
  shows "hash_chunks ops (\<lambda>j. c (j + k * i)) 0 k st (slice (243 * k * i) (243 * k) xs) = Some (st, slice (243 * k * i) (243 * k) ys)"
proof -
  obtain r where r: "s = i + (1 + r)" using assms(5) by (metis less_imp_add_positive less_natE add_Suc_right plus_1_eq_Suc)
  have n: "k * s = k * i + (k + k * r)" by (simp add: r algebra_simps)
  have l: "length xs = 243 * (k * i + (k + k * r))" unfolding assms(3) n ..
  note d = hash_chunks_split(2) [OF assms(1,2) l assms(4) [unfolded n], unfolded add_0]
  have "valid_trits (drop (243 * (k * i)) xs)" "length (drop (243 * (k * i)) xs) = 243 * (k + k * r)"
    using assms(2) l by (simp_all add: valid_trits_drop algebra_simps)
  from hash_chunks_split(1) [OF assms(1) this d] hash_chunks_shift [of ops c 0 "k * i"] show ?thesis
    by (simp add: slice_def mult.assoc)
qed

lemma digest_fragments_nth:
  assumes "fresh st" "valid_trits key" "length key = 6561 * n" "digest_fragments ops n st key = Some (st', digs)"
  shows "st' = st \<and> length digs = 243 * n \<and> valid_trits digs
    \<and> (\<forall>i < n. hash_step ops st (slice (6561 * i) 6561 key) 243 = Some (st, slice (243 * i) 243 digs))"
  using assms(2-4)
proof (induction n arbitrary: key digs)
  case (Suc n)
  from Suc.prems(3) obtain s1 a r where
    1: "hash_step ops st (take 6561 key) 243 = Some (s1, a)" and
    2: "digest_fragments ops n s1 (drop 6561 key) = Some (st', r)" and d: "digs = a @ r"
    by (auto simp: ISS_KEY_LENGTH_def split: option.splits)
  from hash_step_fresh [OF assms(1) _ 1] Suc.prems have a: "s1 = st" "length a = 243" "valid_trits a"
    by (auto simp: valid_trits_take)
  from Suc.IH [of "drop 6561 key" r] 2 a Suc.prems have ih: "st' = st" "length r = 243 * n" "valid_trits r"
      "\<forall>i < n. hash_step ops st (slice (6561 * i) 6561 (drop 6561 key)) 243 = Some (st, slice (243 * i) 243 r)"
    by (simp_all add: valid_trits_drop)
  have "hash_step ops st (slice (6561 * i) 6561 key) 243 = Some (st, slice (243 * i) 243 digs)" if "i < Suc n" for i
    using that 1 a ih(4) by (cases i) (auto simp: d slice_def add.commute)
  with a ih d show ?case by simp
qed simp

text \<open>A signature of several fragments: each fragment of the signature gives the digest of its key fragment.\<close>

lemma signature_fragment_digest:
  assumes st: "fresh st" and key: "valid_trits key" "length key = s * ISS_KEY_LENGTH"
    and hash: "valid_trits hash" "81 * s \<le> length hash"
    and sig: "ISS_signature ops st hash key (s * ISS_KEY_LENGTH) = Some (st', sig)"
    and dig: "ISS_key_digest ops st key (s * ISS_KEY_LENGTH) = Some (rc, st'', key', digs)" and i: "i < s"
  shows "\<exists>sig'. ISS_sig_digest ops st (drop (81 * i) hash) (slice (6561 * i) 6561 sig) 6561
    = Some (st, sig', slice (243 * i) 243 digs)"
proof -
  let ?a = "\<lambda>i. nat ((TRYTE_VALUE_MAX - HASH_TRYTE_VAL hash i) mod 2 ^ 64)"
  let ?b = "\<lambda>i. nat ((HASH_TRYTE_VAL hash i - TRYTE_VALUE_MIN) mod 2 ^ 64)"
  let ?b' = "\<lambda>j. nat ((HASH_TRYTE_VAL (drop (81 * i) hash) j - TRYTE_VALUE_MIN) mod 2 ^ 64)"
  let ?k = "slice (6561 * i) 6561"
  have n: "(s * ISS_KEY_LENGTH + 242) div 243 = 27 * s" "s * ISS_KEY_LENGTH div 243 = 27 * s"
      "s * ISS_KEY_LENGTH div ISS_KEY_LENGTH = s" "s * ISS_KEY_LENGTH mod ISS_KEY_LENGTH = 0"
      "((6561::nat) + 242) div 243 = 27"
    by (simp_all add: ISS_KEY_LENGTH_def)
  have l: "length key = 243 * (27 * s)" using key(2) by (simp add: ISS_KEY_LENGTH_def)
  have lim: "27 * i + 27 \<le> 27 * s" using i by simp
  from sig have s1: "hash_chunks ops ?a 0 (27 * s) st key = Some (st', sig)" unfolding ISS_signature_def n .
  from dig obtain s2 where s2: "hash_chunks ops (\<lambda>_. 26) 0 (27 * s) st key = Some (s2, key')"
      "digest_fragments ops s s2 key' = Some (st'', digs)"
    unfolding ISS_key_digest_def n by (auto split: option.splits)
  from hash_chunks_fresh [OF st key(1) l s2(1)] have k': "s2 = st" "valid_trits key'" "length key' = 6561 * s" by simp_all
  have fa: "hash_chunks ops (\<lambda>j. ?a (j + 27 * i)) 0 27 st (?k key) = Some (st, ?k sig)"
    using hash_chunks_fragment [OF st key(1) l s1 i] by simp
  have fk: "hash_chunks ops (\<lambda>_. 26) 0 27 st (?k key) = Some (st, ?k key')"
    using hash_chunks_fragment [OF st key(1) l s2(1) i] by simp
  have ki: "valid_trits (?k key)" "length (?k key) = 243 * 27"
    using key(1) l lim by (simp_all add: valid_trits_slice)
  have "?a (j + 27 * i) + ?b (j + 27 * i) = 26" if "j < 27" for j
    using that lim hash by (intro iss_counts) auto
  then have "hash_chunks ops (\<lambda>j. ?a (j + 27 * i) + ?b (j + 27 * i)) 0 27 st (?k key) = Some (st, ?k key')"
    unfolding fk [symmetric] by (intro hash_chunks_cong) simp
  then have "hash_chunks ops (\<lambda>j. ?b (j + 27 * i)) 0 27 st (?k sig) = Some (st, ?k key')"
    using hash_chunks_compose [OF st ki, where a = "\<lambda>j. ?a (j + 27 * i)" and b = "\<lambda>j. ?b (j + 27 * i)" and i = 0] fa by simp
  moreover have "?b' j = ?b (j + 27 * i)" if "j < 27" for j
  proof -
    have "81 * i + (j * 3 + 2) < length hash" using that lim hash(2) by simp
    then have "HASH_TRYTE_VAL (drop (81 * i) hash) j = HASH_TRYTE_VAL hash (j + 27 * i)"
      by (simp add: HASH_TRYTE_VAL_def algebra_simps)
    then show ?thesis by simp
  qed
  then have "hash_chunks ops ?b' 0 27 st (?k sig) = hash_chunks ops (\<lambda>j. ?b (j + 27 * i)) 0 27 st (?k sig)"
    by (intro hash_chunks_cong) simp
  ultimately have "hash_chunks ops ?b' 0 27 st (?k sig) = Some (st, ?k key')" by simp
  moreover have "hash_step ops st (?k key') 243 = Some (st, slice (243 * i) 243 digs)"
    using digest_fragments_nth [OF st k'(2,3) s2(2) [unfolded k'(1)]] i by blast
  ultimately show ?thesis unfolding ISS_sig_digest_def n by simp
qed

text \<open>When the hash function itself never fails, neither does the signing scheme.\<close>

lemma hash_step_total:
  assumes tot: "\<And>st xs. length xs mod 243 = 0 \<Longrightarrow> \<exists>st'. h_absorb ops st xs = Some st'" "\<And>st. \<exists>r. h_squeeze ops st 243 = Some r"
    and "fresh st" "valid_trits xs" "length xs mod 243 = 0"
  shows "\<exists>out. hash_step ops st xs 243 = Some (st, out) \<and> length out = 243 \<and> valid_trits out"
proof -
  obtain s1 where s1: "h_absorb ops st xs = Some s1" using tot(1) [OF assms(5)] by blast
  obtain s2 out where "h_squeeze ops s1 243 = Some (s2, out)" using tot(2) [of s1] by fastforce
  with s1 have "hash_step ops st xs 243 = Some (h_reset ops s2, out)" by (simp add: hash_step_def)
  with hash_step_fresh [OF assms(3,4) this] show ?thesis by simp
qed

lemma hash_times_total:
  assumes tot: "\<And>st xs. length xs mod 243 = 0 \<Longrightarrow> \<exists>st'. h_absorb ops st xs = Some st'" "\<And>st. \<exists>r. h_squeeze ops st 243 = Some r"
    and "fresh st" "valid_trits xs" "length xs = 243"
  shows "\<exists>out. hash_times ops n st xs = Some (st, out)"
  using assms(4,5)
proof (induction n arbitrary: xs)
  case (Suc n)
  then obtain out where "hash_step ops st xs 243 = Some (st, out)" "length out = 243" "valid_trits out"
    using hash_step_total [OF tot assms(3) Suc.prems(1)] by auto
  with Suc.IH [of out] show ?case by simp
qed simp

lemma hash_chunks_total:
  assumes tot: "\<And>st xs. length xs mod 243 = 0 \<Longrightarrow> \<exists>st'. h_absorb ops st xs = Some st'" "\<And>st. \<exists>r. h_squeeze ops st 243 = Some r"
    and "fresh st" "valid_trits xs" "length xs = 243 * n"
  shows "\<exists>ys. hash_chunks ops c j n st xs = Some (st, ys)"
  using assms(4,5)
proof (induction n arbitrary: j xs)
  case (Suc n)
  then have "valid_trits (take 243 xs)" "length (take 243 xs) = 243" by (simp_all add: valid_trits_take)
  then obtain a where "hash_times ops (c j) st (take 243 xs) = Some (st, a)"
    using hash_times_total [OF tot assms(3)] by blast
  moreover obtain r where "hash_chunks ops c (j + 1) n st (drop 243 xs) = Some (st, r)"
    using Suc.IH [of "drop 243 xs" "j + 1"] Suc.prems by (auto simp: valid_trits_drop)
  ultimately show ?case by simp
qed simp

lemma digest_fragments_total:
  assumes tot: "\<And>st xs. length xs mod 243 = 0 \<Longrightarrow> \<exists>st'. h_absorb ops st xs = Some st'" "\<And>st. \<exists>r. h_squeeze ops st 243 = Some r"
    and "fresh st" "valid_trits key" "length key = 6561 * n"
  shows "\<exists>digs. digest_fragments ops n st key = Some (st, digs)"
  using assms(4,5)
proof (induction n arbitrary: key)
  case (Suc n)
  then have "valid_trits (take 6561 key)" "length (take 6561 key) mod 243 = 0" by (simp_all add: valid_trits_take)
  then obtain a where "hash_step ops st (take 6561 key) 243 = Some (st, a)"
    using hash_step_total [OF tot assms(3), of "take 6561 key"] by auto
  moreover obtain r where "digest_fragments ops n st (drop 6561 key) = Some (st, r)"
    using Suc.IH [of "drop 6561 key"] Suc.prems by (auto simp: valid_trits_drop)
  ultimately show ?case by (simp add: ISS_KEY_LENGTH_def)
qed simp

lemma squeeze_key_total:
  assumes tot: "\<And>st. \<exists>r. h_squeeze ops st 243 = Some r" and "ok st"
  shows "\<exists>st' key. squeeze_key ops n st = Some (st', key) \<and> ok st' \<and> h_reset ops st' = h_reset ops st
    \<and> length key = 243 * n \<and> valid_trits key"
  using assms(2)
proof (induction n arbitrary: st)
  case (Suc n)
  obtain s1 out where "h_squeeze ops st 243 = Some (s1, out)" using tot [of st] by fastforce
  with squeeze_law [OF Suc.prems this] Suc.IH [of s1] show ?case by fastforce
qed simp

lemma ISS_key_total:
  assumes tot: "\<And>st xs. length xs mod 243 = 0 \<Longrightarrow> \<exists>st'. h_absorb ops st xs = Some st'" "\<And>st. \<exists>r. h_squeeze ops st 243 = Some r"
    and "fresh st" "valid_trits subseed" "length subseed = 243"
  shows "\<exists>key. ISS_key ops st subseed (s * ISS_KEY_LENGTH) = Some (0, st, key) \<and> valid_trits key
    \<and> length key = s * ISS_KEY_LENGTH"
proof -
  obtain s1 where s1: "h_absorb ops st subseed = Some s1" using tot(1) [of subseed] assms(5) by auto
  have st: "ok st" "h_reset ops st = st" using assms(3) by (simp_all add: fresh_def)
  note a = absorb_law [OF st(1) assms(4) s1]
  have n: "s * ISS_KEY_LENGTH mod 243 = 0" "s * ISS_KEY_LENGTH div 243 = 27 * s" "243 * (27 * s) = s * ISS_KEY_LENGTH"
    by (simp_all add: ISS_KEY_LENGTH_def)
  from squeeze_key_total [OF tot(2), of s1 "27 * s"] a obtain s2 key where
    "squeeze_key ops (27 * s) s1 = Some (s2, key)" "h_reset ops s2 = h_reset ops s1" "length key = 243 * (27 * s)" "valid_trits key"
    by blast
  with s1 a st n assms(5) show ?thesis by (simp add: ISS_key_def)
qed

end

section \<open>The key of a seed\<close>

definition kerl_total :: "'k keccak \<Rightarrow> bool" where
  "kerl_total K \<longleftrightarrow> (\<forall>ctx. \<exists>r. kerl_squeeze K ctx 243 = Some r)"

lemma kerl_ops_total:
  assumes "kerl_total K"
  shows "length xs mod 243 = 0 \<Longrightarrow> \<exists>st'. h_absorb (kerl_ops K stack) st xs = Some st'"
    and "\<exists>r. h_squeeze (kerl_ops K stack) st 243 = Some r"
  using assms kerl_absorb_loop_total [of "map stack [0..<HASH_BYTE_LEN]" K "length xs div 243" st xs]
  by (auto simp: kerl_ops_def kerl_absorb_def kerl_total_def HASH_BYTE_LEN_def)

lemma kerl_fresh: "kerl.fresh K stack (kerl_init K)"
  unfolding kerl.fresh_def by (simp add: kerl_ops_def kerl_reset_def)

lemma seed_key:
  assumes tot: "kerl_total K" and seed: "valid_trits seed" "length seed = 243" and i: "int index < INT64_MAX"
  shows "\<exists>subseed key. ISS_subseed (kerl_ops K stack) (kerl_init K) (take 243 seed) (wrap64 (int index)) = Some (kerl_init K, subseed)
    \<and> ISS_key (kerl_ops K stack) (kerl_init K) subseed (s * ISS_KEY_LENGTH) = Some (0, kerl_init K, key)
    \<and> valid_trits key \<and> length key = s * ISS_KEY_LENGTH"
proof -
  have w: "wrap64 (int index) = int index" using i by (intro wrap64_id) auto
  obtain rc t where a: "add_assign seed (int index) = (rc, t)" by fastforce
  from add_assign_nonneg [OF seed(1) _ i a] have t: "valid_trits t" "length t mod 243 = 0" by (simp_all add: seed(2))
  from kerl.hash_step_total [OF kerl_ops_total [OF tot] kerl_fresh t] obtain sub where
    sub: "hash_step (kerl_ops K stack) (kerl_init K) t 243 = Some (kerl_init K, sub)" "length sub = 243" "valid_trits sub" by blast
  from kerl.ISS_key_total [OF kerl_ops_total [OF tot] kerl_fresh sub(3,2)] sub(1) show ?thesis
    by (simp add: ISS_subseed_def w a seed(2))
qed

lemma normalized_trits:
  assumes "valid_trits hash" "length hash = 243"
  shows "valid_trits (normalize_hash_to_trits hash (replicate 243 0))" "length (normalize_hash_to_trits hash (replicate 243 0)) = 243"
proof -
  have c: "normalize_hash_to_trits hash (replicate 243 0) = concat (map (bt_digits 3) (normalize_hash hash))"
    using write_trytes [OF normalize_hash_fragments(2,1) [OF assms], of "replicate 243 0" 81] normalize_hash_fragments(1) [OF assms]
    by (simp add: normalize_hash_to_trits_def Let_def)
  have "length (concat (map (bt_digits 3) vs)) = 3 * length vs" "valid_trits (concat (map (bt_digits 3) vs))" for vs
    by (induction vs) (simp_all del: bt_digits.simps)
  then show "valid_trits (normalize_hash_to_trits hash (replicate 243 0))" "length (normalize_hash_to_trits hash (replicate 243 0)) = 243"
    unfolding c using normalize_hash_fragments(1) [OF assms] by simp_all
qed

lemma concat_slices: "length xs = n * k \<Longrightarrow> concat (map (\<lambda>i. slice (n * i) n xs) [0..<k]) = xs"
proof (induction k arbitrary: xs)
  case (Suc k)
  have "map (\<lambda>i. slice (n * i) n xs) [0..<Suc k] = take n xs # map (\<lambda>i. slice (n * i) n (drop n xs)) [0..<k]"
    unfolding map_upt_Suc by (simp add: slice_def add.commute)
  moreover have "concat (map (\<lambda>i. slice (n * i) n (drop n xs)) [0..<k]) = drop n xs" using Suc.prems by (intro Suc.IH) simp
  ultimately show ?case by simp
qed simp

lemma sign_correct:
  assumes tot: "kerl_total K" and seed: "valid_trits seed" "length seed = 243" and hash: "valid_trits hash" "length hash = 243"
    and i: "int index < INT64_MAX" and sec: "0 < s" "s \<le> 3" and al: "alloc 0" "alloc 1"
  shows "\<exists>sig address digs.
    iota_sign_signature_gen_trits K stack alloc (Some seed) index s (Some hash) = Some (Some sig)
    \<and> iota_sign_address_gen_trits K stack alloc (Some seed) index s = Some (Some address)
    \<and> valid_trits sig \<and> length sig = s * ISS_KEY_LENGTH \<and> valid_trits address \<and> length address = 243 \<and> length digs = s
    \<and> (\<forall>j < s. length (digs ! j) = 243 \<and> valid_trits (digs ! j)
         \<and> (\<exists>sig'. ISS_sig_digest (kerl_ops K stack) (kerl_init K) (drop (81 * j) (normalize_hash_to_trits hash (replicate 243 0)))
                   (slice (6561 * j) 6561 sig) 6561 = Some (kerl_init K, sig', digs ! j)))
    \<and> ISS_address (kerl_ops K stack) (kerl_init K) (concat digs) = Some (kerl_init K, address)"
proof -
  let ?ops = "kerl_ops K stack" and ?st = "kerl_init K" and ?L = "s * ISS_KEY_LENGTH"
  let ?nh = "normalize_hash_to_trits hash (replicate 243 0)"
  let ?a = "\<lambda>i. nat ((TRYTE_VALUE_MAX - HASH_TRYTE_VAL ?nh i) mod 2 ^ 64)"
  note ot = kerl_ops_total [OF tot] and nh = normalized_trits [OF hash]
  obtain sub key where sk: "ISS_subseed ?ops ?st (take 243 seed) (wrap64 (int index)) = Some (?st, sub)"
      "ISS_key ?ops ?st sub ?L = Some (0, ?st, key)" "valid_trits key" "length key = ?L"
    using seed_key [OF tot seed i, of stack s] by blast
  have l: "length key = 243 * (27 * s)" using sk(4) by (simp add: ISS_KEY_LENGTH_def)
  have n: "(?L + 242) div 243 = 27 * s" "?L div 243 = 27 * s" "?L div ISS_KEY_LENGTH = s" "?L mod ISS_KEY_LENGTH = 0"
    by (simp_all add: ISS_KEY_LENGTH_def)
  obtain sig where sig: "hash_chunks ?ops ?a 0 (27 * s) ?st key = Some (?st, sig)"
    using kerl.hash_chunks_total [OF ot kerl_fresh sk(3) l] by blast
  then have isig: "ISS_signature ?ops ?st ?nh key ?L = Some (?st, sig)" unfolding ISS_signature_def n .
  obtain key' where k': "hash_chunks ?ops (\<lambda>_. 26) 0 (27 * s) ?st key = Some (?st, key')"
    using kerl.hash_chunks_total [OF ot kerl_fresh sk(3) l] by blast
  note k'' = kerl.hash_chunks_fresh [OF kerl_fresh sk(3) l k']
  then have vk: "valid_trits key'" "length key' = 6561 * s" by simp_all
  obtain digs where d: "digest_fragments ?ops s ?st key' = Some (?st, digs)"
    using kerl.digest_fragments_total [OF ot kerl_fresh vk] by blast
  note df = kerl.digest_fragments_nth [OF kerl_fresh vk d]
  have kd: "ISS_key_digest ?ops ?st key ?L = Some (0, ?st, key', digs)" unfolding ISS_key_digest_def n by (simp add: k' d)
  have dl: "take (s * 243) digs = digs" "length digs mod 243 = 0" "valid_trits digs" using df by simp_all
  obtain address where ad: "ISS_address ?ops ?st digs = Some (?st, address)" "length address = 243" "valid_trits address"
    using kerl.hash_step_total [OF ot kerl_fresh dl(3,2)] unfolding ISS_address_def by blast
  let ?D = "map (\<lambda>i. slice (243 * i) 243 digs) [0..<s]"
  have lim: "243 * j + 243 \<le> length digs" if "j < s" for j using that df by simp
  have fr: "\<exists>sig'. ISS_sig_digest ?ops ?st (drop (81 * j) ?nh) (slice (6561 * j) 6561 sig) 6561 = Some (?st, sig', ?D ! j)"
    if "j < s" for j
    using kerl.signature_fragment_digest [OF kerl_fresh sk(3,4) nh(1) _ isig kd that] that sec nh(2) by simp
  have "valid_trits (?D ! j) \<and> length (?D ! j) = 243" if "j < s" for j
    using that lim [OF that] dl(3) by (simp add: valid_trits_slice)
  moreover have "concat ?D = digs" using df by (intro concat_slices) simp
  moreover have "valid_trits sig \<and> length sig = ?L"
    using kerl.hash_chunks_fresh [OF kerl_fresh sk(3) l sig] by (simp add: ISS_KEY_LENGTH_def)
  moreover have "iota_sign_signature_gen_trits K stack alloc (Some seed) index s (Some hash) = Some (Some sig)"
    using sec al sk isig by (simp add: iota_sign_signature_gen_trits_def bad_security_def Let_def)
  moreover have "iota_sign_address_gen_trits K stack alloc (Some seed) index s = Some (Some address)"
    using sec al sk kd ad dl by (simp add: iota_sign_address_gen_trits_def bad_security_def Let_def)
  ultimately show ?thesis using ad fr by (intro exI [of _ sig] exI [of _ address] exI [of _ ?D]) auto
qed

section \<open>Properties\<close>


lemma null_keccak_total: "kerl_total null_keccak"
proof -
  have "is_null (words_of_bytes (map (\<lambda>_. 0) [0..<HASH_BYTE_LEN]))" by code_simp
  then show ?thesis by (simp add: kerl_total_def kerl_squeeze_def convert_bytes_to_trits_def)
qed


text \<open>
  The functions of the three representations agree: with trytes or packed trits the seed and the hash are
  unpacked, the trit functions are applied and the result is packed; a missing argument, a security level
  outside one to three or failed memory gives NULL.
\<close>

theorem sign_representations_agree:
  assumes "flex_ok e seed 243" "flex_ok e hash 243"
  shows "iota_sign_address_gen_flex_trits e K stack alloc (Some seed) index s =
      (if bad_security s \<or> \<not> alloc 0 then Some None
       else map_option (map_option (\<lambda>a. snd (flex_trits_from_trits e (replicate (NUM_FLEX_TRITS_FOR_TRITS e 243) 0) 243 a 243 243)))
              (iota_sign_address_gen_trits K stack (\<lambda>i. alloc (i + 1)) (Some (take 243 (flex_abs e seed))) index s))
    \<and> iota_sign_signature_gen_flex_trits e K stack alloc (Some seed) index s (Some hash) =
      (if bad_security s \<or> \<not> alloc 0 then Some None
       else map_option (map_option (\<lambda>g. snd (flex_trits_from_trits e (replicate (NUM_FLEX_TRITS_FOR_TRITS e (s * ISS_KEY_LENGTH)) 0)
                (s * ISS_KEY_LENGTH) g (s * ISS_KEY_LENGTH) (s * ISS_KEY_LENGTH))))
              (iota_sign_signature_gen_trits K stack (\<lambda>i. alloc (i + 1)) (Some (take 243 (flex_abs e seed))) index s
                (Some (take 243 (flex_abs e hash)))))
    \<and> iota_sign_address_gen_trits K stack alloc None index s = Some None
    \<and> iota_sign_signature_gen_flex_trits e K stack alloc (Some seed) index s None = Some None"
proof -
  have u: "snd (flex_trits_to_trits e (replicate 243 0) 243 cs 243 243) = take 243 (flex_abs e cs)" if "flex_ok e cs 243" for cs
  proof -
    have "e = ENC3 \<Longrightarrow> 3 * NUM_FLEX_TRITS_FOR_TRITS e 243 \<le> length (replicate 243 (0 :: int))"
      by (simp add: NUM_FLEX_TRITS_FOR_TRITS_def)
    then show ?thesis using flex_trits_to_trits_abs [OF that, of 243 "replicate 243 0"] by auto
  qed
  show ?thesis
    by (auto simp: iota_sign_address_gen_flex_trits_def iota_sign_signature_gen_flex_trits_def u [OF assms(1)] u [OF assms(2)]
        iota_sign_address_gen_trits_def Let_def split: option.splits)
qed

theorem sign_representations_agree_witness:
  "iota_sign_signature_gen_flex_trits ENC3 null_keccak (\<lambda>_. 0) (\<lambda>_. True) (Some (replicate 81 57)) 0 4 (Some (replicate 81 57)) = Some None"
proof -
  have "flex_cell_ok ENC3 57" by code_simp
  then have "flex_ok ENC3 (replicate 81 57) 243" by (simp add: flex_ok_def list_all_length NUM_FLEX_TRITS_FOR_TRITS_def)
  from sign_representations_agree [OF this this, of null_keccak "\<lambda>_. 0" "\<lambda>_. True" 0 4] show ?thesis
    by (simp add: bad_security_def)
qed

end
