(* ===== verification/Transaction.thy ===== *)
theory Transaction
  imports Prelude Flex_Trit Trit_Long Curl
begin

text \<open>
  \<open>common/model/transaction.h\<close> and \<open>transaction.c\<close>: the transaction object, its accessors, the serialisation
  to 8019 packed trits and back, the hash of a serialised transaction and its weight magnitude.

  Integers of type \<open>int64_t\<close> and \<open>uint64_t\<close> are mathematical integers; a conversion between the two types
  goes through \<open>wrap64\<close> or \<open>uwrap64\<close>. An accessor whose \<open>assert\<close> on the mask of the loaded columns fails
  returns \<open>None\<close>.
\<close>

section \<open>Definitions\<close>

subsection \<open>Sizes\<close>

definition NUM_TRITS_SERIALIZED_TRANSACTION :: nat where "NUM_TRITS_SERIALIZED_TRANSACTION = 8019"

definition NUM_TRITS_SIGNATURE :: nat where "NUM_TRITS_SIGNATURE = 6561"

definition NUM_TRITS_MESSAGE :: nat where "NUM_TRITS_MESSAGE = 6561"

definition NUM_TRITS_ADDRESS :: nat where "NUM_TRITS_ADDRESS = 243"

definition NUM_TRITS_VALUE :: nat where "NUM_TRITS_VALUE = 81"

definition NUM_TRITS_OBSOLETE_TAG :: nat where "NUM_TRITS_OBSOLETE_TAG = 81"

definition NUM_TRITS_TIMESTAMP :: nat where "NUM_TRITS_TIMESTAMP = 27"

definition NUM_TRITS_CURRENT_INDEX :: nat where "NUM_TRITS_CURRENT_INDEX = 27"

definition NUM_TRITS_LAST_INDEX :: nat where "NUM_TRITS_LAST_INDEX = 27"

definition NUM_TRITS_BUNDLE :: nat where "NUM_TRITS_BUNDLE = 243"

definition NUM_TRITS_TRUNK :: nat where "NUM_TRITS_TRUNK = 243"

definition NUM_TRITS_BRANCH :: nat where "NUM_TRITS_BRANCH = 243"

definition NUM_TRITS_TAG :: nat where "NUM_TRITS_TAG = 81"

definition NUM_TRITS_ATTACHMENT_TIMESTAMP :: nat where "NUM_TRITS_ATTACHMENT_TIMESTAMP = 27"

definition NUM_TRITS_ATTACHMENT_TIMESTAMP_LOWER :: nat where "NUM_TRITS_ATTACHMENT_TIMESTAMP_LOWER = 27"

definition NUM_TRITS_ATTACHMENT_TIMESTAMP_UPPER :: nat where "NUM_TRITS_ATTACHMENT_TIMESTAMP_UPPER = 27"

definition NUM_TRITS_NONCE :: nat where "NUM_TRITS_NONCE = 81"

definition NUM_TRITS_HASH :: nat where "NUM_TRITS_HASH = 243"

lemmas num_trits_sizes =
  NUM_TRITS_SERIALIZED_TRANSACTION_def NUM_TRITS_SIGNATURE_def NUM_TRITS_MESSAGE_def NUM_TRITS_ADDRESS_def NUM_TRITS_VALUE_def NUM_TRITS_OBSOLETE_TAG_def NUM_TRITS_TIMESTAMP_def NUM_TRITS_CURRENT_INDEX_def NUM_TRITS_LAST_INDEX_def NUM_TRITS_BUNDLE_def NUM_TRITS_TRUNK_def NUM_TRITS_BRANCH_def NUM_TRITS_TAG_def NUM_TRITS_ATTACHMENT_TIMESTAMP_def NUM_TRITS_ATTACHMENT_TIMESTAMP_LOWER_def NUM_TRITS_ATTACHMENT_TIMESTAMP_UPPER_def NUM_TRITS_NONCE_def NUM_TRITS_HASH_def

declare num_trits_sizes [simp]

definition FLEX_TRIT_SIZE_27 :: "flex_enc \<Rightarrow> nat" where
  "FLEX_TRIT_SIZE_27 e = (case e of ENC1 \<Rightarrow> 27 | ENC3 \<Rightarrow> 9 | ENC4 \<Rightarrow> 7 | ENC5 \<Rightarrow> 6)"

definition FLEX_TRIT_SIZE_81 :: "flex_enc \<Rightarrow> nat" where
  "FLEX_TRIT_SIZE_81 e = (case e of ENC1 \<Rightarrow> 81 | ENC3 \<Rightarrow> 27 | ENC4 \<Rightarrow> 21 | ENC5 \<Rightarrow> 17)"

definition FLEX_TRIT_SIZE_243 :: "flex_enc \<Rightarrow> nat" where
  "FLEX_TRIT_SIZE_243 e = (case e of ENC1 \<Rightarrow> 243 | ENC3 \<Rightarrow> 81 | ENC4 \<Rightarrow> 61 | ENC5 \<Rightarrow> 49)"

definition FLEX_TRIT_SIZE_6561 :: "flex_enc \<Rightarrow> nat" where
  "FLEX_TRIT_SIZE_6561 e = (case e of ENC1 \<Rightarrow> 6561 | ENC3 \<Rightarrow> 2187 | ENC4 \<Rightarrow> 1641 | ENC5 \<Rightarrow> 1313)"

definition FLEX_TRIT_SIZE_8019 :: "flex_enc \<Rightarrow> nat" where
  "FLEX_TRIT_SIZE_8019 e = (case e of ENC1 \<Rightarrow> 8019 | ENC3 \<Rightarrow> 2673 | ENC4 \<Rightarrow> 2005 | ENC5 \<Rightarrow> 1604)"

definition NUM_TRITS_ESSENCE :: nat where
  "NUM_TRITS_ESSENCE = NUM_TRITS_ADDRESS + NUM_TRITS_VALUE + NUM_TRITS_OBSOLETE_TAG + NUM_TRITS_TIMESTAMP
     + NUM_TRITS_CURRENT_INDEX + NUM_TRITS_LAST_INDEX"

subsection \<open>The transaction object\<close>

record essence_fields =
  tx_address :: "flex_trit list"
  tx_value :: int
  tx_obsolete_tag :: "flex_trit list"
  tx_timestamp :: int
  tx_current_index :: int
  tx_last_index :: int
  tx_bundle :: "flex_trit list"

record attachment_fields =
  tx_trunk :: "flex_trit list"
  tx_branch :: "flex_trit list"
  tx_attachment_timestamp :: int
  tx_attachment_timestamp_lower :: int
  tx_attachment_timestamp_upper :: int
  tx_nonce :: "flex_trit list"
  tx_tag :: "flex_trit list"

record consensus_fields =
  tx_hash :: "flex_trit list"

record data_fields =
  tx_signature_or_message :: "flex_trit list"

record metadata_fields =
  tx_snapshot_index :: int
  tx_solid :: bool
  tx_validity :: int
  tx_arrival_timestamp :: int

record field_mask =
  mask_essence :: u8
  mask_attachment :: u8
  mask_consensus :: u8
  mask_data :: u8
  mask_metadata :: u8

record iota_transaction =
  essence :: essence_fields
  attachment :: attachment_fields
  consensus :: consensus_fields
  data :: data_fields
  metadata :: metadata_fields
  loaded_columns_mask :: field_mask

definition MASK_ESSENCE_ADDRESS :: u8 where "MASK_ESSENCE_ADDRESS = 1"
definition MASK_ESSENCE_VALUE :: u8 where "MASK_ESSENCE_VALUE = 2"
definition MASK_ESSENCE_OBSOLETE_TAG :: u8 where "MASK_ESSENCE_OBSOLETE_TAG = 4"
definition MASK_ESSENCE_TIMESTAMP :: u8 where "MASK_ESSENCE_TIMESTAMP = 8"
definition MASK_ESSENCE_CURRENT_INDEX :: u8 where "MASK_ESSENCE_CURRENT_INDEX = 16"
definition MASK_ESSENCE_LAST_INDEX :: u8 where "MASK_ESSENCE_LAST_INDEX = 32"
definition MASK_ESSENCE_BUNDLE :: u8 where "MASK_ESSENCE_BUNDLE = 64"
definition MASK_ESSENCE_ALL :: u8 where
  "MASK_ESSENCE_ALL = MASK_ESSENCE_ADDRESS OR MASK_ESSENCE_VALUE OR MASK_ESSENCE_OBSOLETE_TAG OR MASK_ESSENCE_TIMESTAMP OR MASK_ESSENCE_CURRENT_INDEX OR MASK_ESSENCE_LAST_INDEX OR MASK_ESSENCE_BUNDLE"

definition MASK_ATTACHMENT_TRUNK :: u8 where "MASK_ATTACHMENT_TRUNK = 1"
definition MASK_ATTACHMENT_BRANCH :: u8 where "MASK_ATTACHMENT_BRANCH = 2"
definition MASK_ATTACHMENT_TIMESTAMP :: u8 where "MASK_ATTACHMENT_TIMESTAMP = 4"
definition MASK_ATTACHMENT_TIMESTAMP_LOWER :: u8 where "MASK_ATTACHMENT_TIMESTAMP_LOWER = 8"
definition MASK_ATTACHMENT_TIMESTAMP_UPPER :: u8 where "MASK_ATTACHMENT_TIMESTAMP_UPPER = 16"
definition MASK_ATTACHMENT_NONCE :: u8 where "MASK_ATTACHMENT_NONCE = 32"
definition MASK_ATTACHMENT_TAG :: u8 where "MASK_ATTACHMENT_TAG = 64"
definition MASK_ATTACHMENT_ALL :: u8 where
  "MASK_ATTACHMENT_ALL = MASK_ATTACHMENT_TRUNK OR MASK_ATTACHMENT_BRANCH OR MASK_ATTACHMENT_TIMESTAMP OR MASK_ATTACHMENT_TIMESTAMP_LOWER OR MASK_ATTACHMENT_TIMESTAMP_UPPER OR MASK_ATTACHMENT_NONCE OR MASK_ATTACHMENT_TAG"

definition MASK_CONSENSUS_HASH :: u8 where "MASK_CONSENSUS_HASH = 1"
definition MASK_CONSENSUS_ALL :: u8 where
  "MASK_CONSENSUS_ALL = MASK_CONSENSUS_HASH"

definition MASK_DATA_SIG_OR_MSG :: u8 where "MASK_DATA_SIG_OR_MSG = 1"
definition MASK_DATA_ALL :: u8 where
  "MASK_DATA_ALL = MASK_DATA_SIG_OR_MSG"

definition MASK_METADATA_SNAPSHOT_INDEX :: u8 where "MASK_METADATA_SNAPSHOT_INDEX = 1"
definition MASK_METADATA_SOLID :: u8 where "MASK_METADATA_SOLID = 2"
definition MASK_METADATA_VALIDITY :: u8 where "MASK_METADATA_VALIDITY = 4"
definition MASK_METADATA_ARRIVAL_TIMESTAMP :: u8 where "MASK_METADATA_ARRIVAL_TIMESTAMP = 8"
definition MASK_METADATA_ALL :: u8 where
  "MASK_METADATA_ALL = MASK_METADATA_SNAPSHOT_INDEX OR MASK_METADATA_SOLID OR MASK_METADATA_VALIDITY OR MASK_METADATA_ARRIVAL_TIMESTAMP"

lemmas mask_defs =
  MASK_ESSENCE_ADDRESS_def MASK_ESSENCE_VALUE_def MASK_ESSENCE_OBSOLETE_TAG_def MASK_ESSENCE_TIMESTAMP_def
  MASK_ESSENCE_CURRENT_INDEX_def MASK_ESSENCE_LAST_INDEX_def MASK_ESSENCE_BUNDLE_def MASK_ATTACHMENT_TRUNK_def
  MASK_ATTACHMENT_BRANCH_def MASK_ATTACHMENT_TIMESTAMP_def MASK_ATTACHMENT_TIMESTAMP_LOWER_def MASK_ATTACHMENT_TIMESTAMP_UPPER_def
  MASK_ATTACHMENT_NONCE_def MASK_ATTACHMENT_TAG_def MASK_CONSENSUS_HASH_def MASK_DATA_SIG_OR_MSG_def
  MASK_METADATA_SNAPSHOT_INDEX_def MASK_METADATA_SOLID_def MASK_METADATA_VALIDITY_def MASK_METADATA_ARRIVAL_TIMESTAMP_def

definition load_essence :: "u8 \<Rightarrow> iota_transaction \<Rightarrow> iota_transaction" where
  "load_essence m = loaded_columns_mask_update (mask_essence_update (\<lambda>loaded. loaded OR m))"

definition load_attachment :: "u8 \<Rightarrow> iota_transaction \<Rightarrow> iota_transaction" where
  "load_attachment m = loaded_columns_mask_update (mask_attachment_update (\<lambda>loaded. loaded OR m))"

definition load_consensus :: "u8 \<Rightarrow> iota_transaction \<Rightarrow> iota_transaction" where
  "load_consensus m = loaded_columns_mask_update (mask_consensus_update (\<lambda>loaded. loaded OR m))"

definition load_data :: "u8 \<Rightarrow> iota_transaction \<Rightarrow> iota_transaction" where
  "load_data m = loaded_columns_mask_update (mask_data_update (\<lambda>loaded. loaded OR m))"

definition load_metadata :: "u8 \<Rightarrow> iota_transaction \<Rightarrow> iota_transaction" where
  "load_metadata m = loaded_columns_mask_update (mask_metadata_update (\<lambda>loaded. loaded OR m))"

definition column_loaded :: "u8 \<Rightarrow> u8 \<Rightarrow> bool" where
  "column_loaded loaded m \<longleftrightarrow> loaded AND m \<noteq> 0"

subsection \<open>Accessors\<close>

text \<open>A setter of an array copies as many cells as the field has, whatever the length of its argument.\<close>

definition transaction_signature :: "iota_transaction \<Rightarrow> flex_trit list option" where
  "transaction_signature tx =
     (if column_loaded (mask_data (loaded_columns_mask tx)) MASK_DATA_SIG_OR_MSG then Some (tx_signature_or_message (data tx)) else None)"

definition transaction_set_signature :: "flex_enc \<Rightarrow> iota_transaction \<Rightarrow> flex_trit list \<Rightarrow> iota_transaction" where
  "transaction_set_signature e tx arg =
     load_data MASK_DATA_SIG_OR_MSG (data_update (tx_signature_or_message_update (\<lambda>_. take (FLEX_TRIT_SIZE_6561 e) arg)) tx)"

definition transaction_message :: "iota_transaction \<Rightarrow> flex_trit list option" where
  "transaction_message tx =
     (if column_loaded (mask_data (loaded_columns_mask tx)) MASK_DATA_SIG_OR_MSG then Some (tx_signature_or_message (data tx)) else None)"

definition transaction_set_message :: "flex_enc \<Rightarrow> iota_transaction \<Rightarrow> flex_trit list \<Rightarrow> iota_transaction" where
  "transaction_set_message e tx arg =
     load_data MASK_DATA_SIG_OR_MSG (data_update (tx_signature_or_message_update (\<lambda>_. take (FLEX_TRIT_SIZE_6561 e) arg)) tx)"

definition transaction_address :: "iota_transaction \<Rightarrow> flex_trit list option" where
  "transaction_address tx =
     (if column_loaded (mask_essence (loaded_columns_mask tx)) MASK_ESSENCE_ADDRESS then Some (tx_address (essence tx)) else None)"

definition transaction_set_address :: "flex_enc \<Rightarrow> iota_transaction \<Rightarrow> flex_trit list \<Rightarrow> iota_transaction" where
  "transaction_set_address e tx arg =
     load_essence MASK_ESSENCE_ADDRESS (essence_update (tx_address_update (\<lambda>_. take (FLEX_TRIT_SIZE_243 e) arg)) tx)"

definition transaction_value :: "iota_transaction \<Rightarrow> int option" where
  "transaction_value tx =
     (if column_loaded (mask_essence (loaded_columns_mask tx)) MASK_ESSENCE_VALUE then Some (tx_value (essence tx)) else None)"

definition transaction_set_value :: "iota_transaction \<Rightarrow> int \<Rightarrow> iota_transaction" where
  "transaction_set_value tx arg = load_essence MASK_ESSENCE_VALUE (essence_update (tx_value_update (\<lambda>_. arg)) tx)"

definition transaction_obsolete_tag :: "iota_transaction \<Rightarrow> flex_trit list option" where
  "transaction_obsolete_tag tx =
     (if column_loaded (mask_essence (loaded_columns_mask tx)) MASK_ESSENCE_OBSOLETE_TAG then Some (tx_obsolete_tag (essence tx)) else None)"

definition transaction_set_obsolete_tag :: "flex_enc \<Rightarrow> iota_transaction \<Rightarrow> flex_trit list \<Rightarrow> iota_transaction" where
  "transaction_set_obsolete_tag e tx arg =
     load_essence MASK_ESSENCE_OBSOLETE_TAG (essence_update (tx_obsolete_tag_update (\<lambda>_. take (FLEX_TRIT_SIZE_81 e) arg)) tx)"

definition transaction_timestamp :: "iota_transaction \<Rightarrow> int option" where
  "transaction_timestamp tx =
     (if column_loaded (mask_essence (loaded_columns_mask tx)) MASK_ESSENCE_TIMESTAMP then Some (tx_timestamp (essence tx)) else None)"

definition transaction_set_timestamp :: "iota_transaction \<Rightarrow> int \<Rightarrow> iota_transaction" where
  "transaction_set_timestamp tx arg = load_essence MASK_ESSENCE_TIMESTAMP (essence_update (tx_timestamp_update (\<lambda>_. arg)) tx)"

definition transaction_current_index :: "iota_transaction \<Rightarrow> int option" where
  "transaction_current_index tx =
     (if column_loaded (mask_essence (loaded_columns_mask tx)) MASK_ESSENCE_CURRENT_INDEX then Some (tx_current_index (essence tx)) else None)"

definition transaction_set_current_index :: "iota_transaction \<Rightarrow> int \<Rightarrow> iota_transaction" where
  "transaction_set_current_index tx arg = load_essence MASK_ESSENCE_CURRENT_INDEX (essence_update (tx_current_index_update (\<lambda>_. arg)) tx)"

definition transaction_last_index :: "iota_transaction \<Rightarrow> int option" where
  "transaction_last_index tx =
     (if column_loaded (mask_essence (loaded_columns_mask tx)) MASK_ESSENCE_LAST_INDEX then Some (tx_last_index (essence tx)) else None)"

definition transaction_set_last_index :: "iota_transaction \<Rightarrow> int \<Rightarrow> iota_transaction" where
  "transaction_set_last_index tx arg = load_essence MASK_ESSENCE_LAST_INDEX (essence_update (tx_last_index_update (\<lambda>_. arg)) tx)"

definition transaction_bundle :: "iota_transaction \<Rightarrow> flex_trit list option" where
  "transaction_bundle tx =
     (if column_loaded (mask_essence (loaded_columns_mask tx)) MASK_ESSENCE_BUNDLE then Some (tx_bundle (essence tx)) else None)"

definition transaction_set_bundle :: "flex_enc \<Rightarrow> iota_transaction \<Rightarrow> flex_trit list \<Rightarrow> iota_transaction" where
  "transaction_set_bundle e tx arg =
     load_essence MASK_ESSENCE_BUNDLE (essence_update (tx_bundle_update (\<lambda>_. take (FLEX_TRIT_SIZE_243 e) arg)) tx)"

definition transaction_trunk :: "iota_transaction \<Rightarrow> flex_trit list option" where
  "transaction_trunk tx =
     (if column_loaded (mask_attachment (loaded_columns_mask tx)) MASK_ATTACHMENT_TRUNK then Some (tx_trunk (attachment tx)) else None)"

definition transaction_set_trunk :: "flex_enc \<Rightarrow> iota_transaction \<Rightarrow> flex_trit list \<Rightarrow> iota_transaction" where
  "transaction_set_trunk e tx arg =
     load_attachment MASK_ATTACHMENT_TRUNK (attachment_update (tx_trunk_update (\<lambda>_. take (FLEX_TRIT_SIZE_243 e) arg)) tx)"

definition transaction_branch :: "iota_transaction \<Rightarrow> flex_trit list option" where
  "transaction_branch tx =
     (if column_loaded (mask_attachment (loaded_columns_mask tx)) MASK_ATTACHMENT_BRANCH then Some (tx_branch (attachment tx)) else None)"

definition transaction_set_branch :: "flex_enc \<Rightarrow> iota_transaction \<Rightarrow> flex_trit list \<Rightarrow> iota_transaction" where
  "transaction_set_branch e tx arg =
     load_attachment MASK_ATTACHMENT_BRANCH (attachment_update (tx_branch_update (\<lambda>_. take (FLEX_TRIT_SIZE_243 e) arg)) tx)"

definition transaction_tag :: "iota_transaction \<Rightarrow> flex_trit list option" where
  "transaction_tag tx =
     (if column_loaded (mask_attachment (loaded_columns_mask tx)) MASK_ATTACHMENT_TAG then Some (tx_tag (attachment tx)) else None)"

definition transaction_set_tag :: "flex_enc \<Rightarrow> iota_transaction \<Rightarrow> flex_trit list \<Rightarrow> iota_transaction" where
  "transaction_set_tag e tx arg =
     load_attachment MASK_ATTACHMENT_TAG (attachment_update (tx_tag_update (\<lambda>_. take (FLEX_TRIT_SIZE_81 e) arg)) tx)"

definition transaction_attachment_timestamp :: "iota_transaction \<Rightarrow> int option" where
  "transaction_attachment_timestamp tx =
     (if column_loaded (mask_attachment (loaded_columns_mask tx)) MASK_ATTACHMENT_TIMESTAMP then Some (tx_attachment_timestamp (attachment tx)) else None)"

definition transaction_set_attachment_timestamp :: "iota_transaction \<Rightarrow> int \<Rightarrow> iota_transaction" where
  "transaction_set_attachment_timestamp tx arg = load_attachment MASK_ATTACHMENT_TIMESTAMP (attachment_update (tx_attachment_timestamp_update (\<lambda>_. arg)) tx)"

definition transaction_attachment_timestamp_lower :: "iota_transaction \<Rightarrow> int option" where
  "transaction_attachment_timestamp_lower tx =
     (if column_loaded (mask_attachment (loaded_columns_mask tx)) MASK_ATTACHMENT_TIMESTAMP_LOWER then Some (tx_attachment_timestamp_lower (attachment tx)) else None)"

definition transaction_set_attachment_timestamp_lower :: "iota_transaction \<Rightarrow> int \<Rightarrow> iota_transaction" where
  "transaction_set_attachment_timestamp_lower tx arg = load_attachment MASK_ATTACHMENT_TIMESTAMP_LOWER (attachment_update (tx_attachment_timestamp_lower_update (\<lambda>_. arg)) tx)"

definition transaction_attachment_timestamp_upper :: "iota_transaction \<Rightarrow> int option" where
  "transaction_attachment_timestamp_upper tx =
     (if column_loaded (mask_attachment (loaded_columns_mask tx)) MASK_ATTACHMENT_TIMESTAMP_UPPER then Some (tx_attachment_timestamp_upper (attachment tx)) else None)"

definition transaction_set_attachment_timestamp_upper :: "iota_transaction \<Rightarrow> int \<Rightarrow> iota_transaction" where
  "transaction_set_attachment_timestamp_upper tx arg = load_attachment MASK_ATTACHMENT_TIMESTAMP_UPPER (attachment_update (tx_attachment_timestamp_upper_update (\<lambda>_. arg)) tx)"

definition transaction_nonce :: "iota_transaction \<Rightarrow> flex_trit list option" where
  "transaction_nonce tx =
     (if column_loaded (mask_attachment (loaded_columns_mask tx)) MASK_ATTACHMENT_NONCE then Some (tx_nonce (attachment tx)) else None)"

definition transaction_set_nonce :: "flex_enc \<Rightarrow> iota_transaction \<Rightarrow> flex_trit list \<Rightarrow> iota_transaction" where
  "transaction_set_nonce e tx arg =
     load_attachment MASK_ATTACHMENT_NONCE (attachment_update (tx_nonce_update (\<lambda>_. take (FLEX_TRIT_SIZE_81 e) arg)) tx)"

definition transaction_hash :: "iota_transaction \<Rightarrow> flex_trit list option" where
  "transaction_hash tx =
     (if column_loaded (mask_consensus (loaded_columns_mask tx)) MASK_CONSENSUS_HASH then Some (tx_hash (consensus tx)) else None)"

definition transaction_set_hash :: "flex_enc \<Rightarrow> iota_transaction \<Rightarrow> flex_trit list \<Rightarrow> iota_transaction" where
  "transaction_set_hash e tx arg =
     load_consensus MASK_CONSENSUS_HASH (consensus_update (tx_hash_update (\<lambda>_. take (FLEX_TRIT_SIZE_243 e) arg)) tx)"

definition transaction_snapshot_index :: "iota_transaction \<Rightarrow> int option" where
  "transaction_snapshot_index tx =
     (if column_loaded (mask_metadata (loaded_columns_mask tx)) MASK_METADATA_SNAPSHOT_INDEX then Some (tx_snapshot_index (metadata tx)) else None)"

definition transaction_set_snapshot_index :: "iota_transaction \<Rightarrow> int \<Rightarrow> iota_transaction" where
  "transaction_set_snapshot_index tx arg = load_metadata MASK_METADATA_SNAPSHOT_INDEX (metadata_update (tx_snapshot_index_update (\<lambda>_. arg)) tx)"

definition transaction_solid :: "iota_transaction \<Rightarrow> bool option" where
  "transaction_solid tx =
     (if column_loaded (mask_metadata (loaded_columns_mask tx)) MASK_METADATA_SOLID then Some (tx_solid (metadata tx)) else None)"

definition transaction_set_solid :: "iota_transaction \<Rightarrow> bool \<Rightarrow> iota_transaction" where
  "transaction_set_solid tx arg = load_metadata MASK_METADATA_SOLID (metadata_update (tx_solid_update (\<lambda>_. arg)) tx)"

definition transaction_validity :: "iota_transaction \<Rightarrow> int option" where
  "transaction_validity tx =
     (if column_loaded (mask_metadata (loaded_columns_mask tx)) MASK_METADATA_VALIDITY then Some (tx_validity (metadata tx)) else None)"

definition transaction_set_validity :: "iota_transaction \<Rightarrow> int \<Rightarrow> iota_transaction" where
  "transaction_set_validity tx arg = load_metadata MASK_METADATA_VALIDITY (metadata_update (tx_validity_update (\<lambda>_. arg)) tx)"

definition transaction_arrival_timestamp :: "iota_transaction \<Rightarrow> int option" where
  "transaction_arrival_timestamp tx =
     (if column_loaded (mask_metadata (loaded_columns_mask tx)) MASK_METADATA_ARRIVAL_TIMESTAMP then Some (tx_arrival_timestamp (metadata tx)) else None)"

definition transaction_set_arrival_timestamp :: "iota_transaction \<Rightarrow> int \<Rightarrow> iota_transaction" where
  "transaction_set_arrival_timestamp tx arg = load_metadata MASK_METADATA_ARRIVAL_TIMESTAMP (metadata_update (tx_arrival_timestamp_update (\<lambda>_. arg)) tx)"

lemmas transaction_getter_defs =
  transaction_signature_def transaction_message_def transaction_address_def
  transaction_value_def transaction_obsolete_tag_def transaction_timestamp_def
  transaction_current_index_def transaction_last_index_def transaction_bundle_def
  transaction_trunk_def transaction_branch_def transaction_tag_def
  transaction_attachment_timestamp_def transaction_attachment_timestamp_lower_def transaction_attachment_timestamp_upper_def
  transaction_nonce_def transaction_hash_def transaction_snapshot_index_def
  transaction_solid_def transaction_validity_def transaction_arrival_timestamp_def

lemmas transaction_setter_defs =
  transaction_set_signature_def transaction_set_message_def transaction_set_address_def
  transaction_set_value_def transaction_set_obsolete_tag_def transaction_set_timestamp_def
  transaction_set_current_index_def transaction_set_last_index_def transaction_set_bundle_def
  transaction_set_trunk_def transaction_set_branch_def transaction_set_tag_def
  transaction_set_attachment_timestamp_def transaction_set_attachment_timestamp_lower_def transaction_set_attachment_timestamp_upper_def
  transaction_set_nonce_def transaction_set_hash_def transaction_set_snapshot_index_def
  transaction_set_solid_def transaction_set_validity_def transaction_set_arrival_timestamp_def

lemmas load_defs = load_essence_def load_attachment_def load_consensus_def load_data_def load_metadata_def

subsection \<open>Serialisation\<close>

text \<open>One \<open>flex_trits_insert\<close> of a field at \<open>offset\<close>, followed by \<open>offset += num\<close>.\<close>

definition insert_field :: "flex_enc \<Rightarrow> flex_trit list \<times> nat \<Rightarrow> flex_trit list \<times> nat \<Rightarrow> flex_trit list \<times> nat" where
  "insert_field e acc fld =
     (let (trits, offset) = acc; (src, num) = fld
      in (snd (flex_trits_insert e trits NUM_TRITS_SERIALIZED_TRANSACTION src num offset num), offset + num))"

definition long_to_flex_trit :: "flex_enc \<Rightarrow> int \<Rightarrow> nat \<times> flex_trit list" where
  "long_to_flex_trit e v =
     (let buffer = replicate NUM_TRITS_VALUE 0;
          (long_size, buffer) = long_to_trits v buffer;
          trits = snd (flex_trits_from_trits e (replicate (FLEX_TRIT_SIZE_81 e) 0) NUM_TRITS_VALUE buffer NUM_TRITS_VALUE
                         NUM_TRITS_VALUE)
      in (long_size, trits))"

text \<open>The cells of \<open>partial\<close> that an insertion of \<open>num\<close> trits reads; an unsigned argument is converted.\<close>

definition partial_of :: "flex_enc \<Rightarrow> int \<Rightarrow> nat \<Rightarrow> flex_trit list \<times> nat" where
  "partial_of e v num = (take (NUM_FLEX_TRITS_FOR_TRITS e num) (snd (long_to_flex_trit e (wrap64 v))), num)"

definition transaction_serialize_to_flex_trits :: "flex_enc \<Rightarrow> iota_transaction \<Rightarrow> nat \<times> flex_trit list" where
  "transaction_serialize_to_flex_trits e tx =
     (let trits = replicate (FLEX_TRIT_SIZE_8019 e) (FLEX_TRIT_NULL_VALUE e);
          (trits, offset) = foldl (insert_field e) (trits, 0)
            [(tx_signature_or_message (data tx), NUM_TRITS_SIGNATURE),
             (tx_address (essence tx), NUM_TRITS_ADDRESS),
             partial_of e (tx_value (essence tx)) NUM_TRITS_VALUE,
             (tx_obsolete_tag (essence tx), NUM_TRITS_OBSOLETE_TAG),
             partial_of e (tx_timestamp (essence tx)) NUM_TRITS_TIMESTAMP,
             partial_of e (tx_current_index (essence tx)) NUM_TRITS_CURRENT_INDEX,
             partial_of e (tx_last_index (essence tx)) NUM_TRITS_LAST_INDEX,
             (tx_bundle (essence tx), NUM_TRITS_BUNDLE),
             (tx_trunk (attachment tx), NUM_TRITS_TRUNK),
             (tx_branch (attachment tx), NUM_TRITS_BRANCH),
             (tx_tag (attachment tx), NUM_TRITS_TAG),
             partial_of e (tx_attachment_timestamp (attachment tx)) NUM_TRITS_ATTACHMENT_TIMESTAMP,
             partial_of e (tx_attachment_timestamp_lower (attachment tx)) NUM_TRITS_ATTACHMENT_TIMESTAMP_LOWER,
             partial_of e (tx_attachment_timestamp_upper (attachment tx)) NUM_TRITS_ATTACHMENT_TIMESTAMP_UPPER,
             (tx_nonce (attachment tx), NUM_TRITS_NONCE)]
      in (offset, trits))"

definition transaction_serialize_on_flex_trits :: "flex_enc \<Rightarrow> iota_transaction \<Rightarrow> nat \<times> flex_trit list" where
  "transaction_serialize_on_flex_trits e tx = transaction_serialize_to_flex_trits e tx"

text \<open>\<open>allocated\<close> tells whether \<open>malloc\<close> returns memory.\<close>

definition transaction_serialize :: "flex_enc \<Rightarrow> bool \<Rightarrow> iota_transaction \<Rightarrow> flex_trit list option" where
  "transaction_serialize e allocated tx =
     (if \<not> allocated then None
      else let (offset, serialized_value) = transaction_serialize_on_flex_trits e tx
           in if offset = 0 then None else Some serialized_value)"

subsection \<open>Deserialisation\<close>

definition slice_field :: "flex_enc \<Rightarrow> flex_trit list \<Rightarrow> nat \<Rightarrow> flex_trit list \<Rightarrow> nat \<Rightarrow> flex_trit list" where
  "slice_field e trits offset dst num =
     snd (flex_trits_slice e dst num trits NUM_TRITS_SERIALIZED_TRANSACTION offset num)"

text \<open>
  A number: the slice goes to the scratch array \<open>partial\<close>, is unpacked to \<open>buffer\<close> and read from there.
  Both scratch arrays are cleared by the calls that fill them, over the cells that are read afterwards.
\<close>

definition slice_long :: "flex_enc \<Rightarrow> flex_trit list \<Rightarrow> nat \<Rightarrow> nat \<Rightarrow> int" where
  "slice_long e trits offset num =
     (let partial = slice_field e trits offset (replicate (NUM_FLEX_TRITS_FOR_TRITS e num) 0) num;
          buffer = snd (flex_trits_to_trits e (replicate num 0) num partial num num)
      in trits_to_long (take num buffer))"

definition transaction_deserialize_trits ::
  "flex_enc \<Rightarrow> iota_transaction \<Rightarrow> flex_trit list \<Rightarrow> bool \<Rightarrow> nat \<times> iota_transaction"
where
  "transaction_deserialize_trits e tx trits compute_hash =
     (let offset = 0;
          tx = load_data MASK_DATA_SIG_OR_MSG (data_update (tx_signature_or_message_update
            (\<lambda>dst. slice_field e trits offset dst NUM_TRITS_SIGNATURE)) tx);
          offset = offset + NUM_TRITS_SIGNATURE;
          tx = load_essence MASK_ESSENCE_ADDRESS (essence_update (tx_address_update
            (\<lambda>dst. slice_field e trits offset dst NUM_TRITS_ADDRESS)) tx);
          offset = offset + NUM_TRITS_ADDRESS;
          tx = transaction_set_value tx (slice_long e trits offset NUM_TRITS_VALUE);
          offset = offset + NUM_TRITS_VALUE;
          tx = load_essence MASK_ESSENCE_OBSOLETE_TAG (essence_update (tx_obsolete_tag_update
            (\<lambda>dst. slice_field e trits offset dst NUM_TRITS_OBSOLETE_TAG)) tx);
          offset = offset + NUM_TRITS_OBSOLETE_TAG;
          tx = transaction_set_timestamp tx (uwrap64 (slice_long e trits offset NUM_TRITS_TIMESTAMP));
          offset = offset + NUM_TRITS_TIMESTAMP;
          tx = transaction_set_current_index tx (uwrap64 (slice_long e trits offset NUM_TRITS_CURRENT_INDEX));
          offset = offset + NUM_TRITS_CURRENT_INDEX;
          tx = transaction_set_last_index tx (uwrap64 (slice_long e trits offset NUM_TRITS_LAST_INDEX));
          offset = offset + NUM_TRITS_LAST_INDEX;
          tx = load_essence MASK_ESSENCE_BUNDLE (essence_update (tx_bundle_update
            (\<lambda>dst. slice_field e trits offset dst NUM_TRITS_BUNDLE)) tx);
          offset = offset + NUM_TRITS_BUNDLE;
          tx = load_attachment MASK_ATTACHMENT_TRUNK (attachment_update (tx_trunk_update
            (\<lambda>dst. slice_field e trits offset dst NUM_TRITS_TRUNK)) tx);
          offset = offset + NUM_TRITS_TRUNK;
          tx = load_attachment MASK_ATTACHMENT_BRANCH (attachment_update (tx_branch_update
            (\<lambda>dst. slice_field e trits offset dst NUM_TRITS_BRANCH)) tx);
          offset = offset + NUM_TRITS_BRANCH;
          tx = load_attachment MASK_ATTACHMENT_TAG (attachment_update (tx_tag_update
            (\<lambda>dst. slice_field e trits offset dst NUM_TRITS_TAG)) tx);
          offset = offset + NUM_TRITS_TAG;
          tx = transaction_set_attachment_timestamp tx
            (uwrap64 (slice_long e trits offset NUM_TRITS_ATTACHMENT_TIMESTAMP));
          offset = offset + NUM_TRITS_ATTACHMENT_TIMESTAMP;
          tx = transaction_set_attachment_timestamp_lower tx
            (uwrap64 (slice_long e trits offset NUM_TRITS_ATTACHMENT_TIMESTAMP_LOWER));
          offset = offset + NUM_TRITS_ATTACHMENT_TIMESTAMP_LOWER;
          tx = transaction_set_attachment_timestamp_upper tx
            (uwrap64 (slice_long e trits offset NUM_TRITS_ATTACHMENT_TIMESTAMP_UPPER));
          offset = offset + NUM_TRITS_ATTACHMENT_TIMESTAMP_UPPER;
          tx = load_attachment MASK_ATTACHMENT_NONCE (attachment_update (tx_nonce_update
            (\<lambda>dst. slice_field e trits offset dst NUM_TRITS_NONCE)) tx);
          offset = offset + NUM_TRITS_NONCE
      in (offset,
          if compute_hash then
            (let curl = \<lparr>state = replicate STATE_LENGTH 0, curl_type = CURL_P_81\<rparr>;
                 tx_trits = snd (flex_trits_to_trits e (replicate NUM_TRITS_SERIALIZED_TRANSACTION 0)
                                   NUM_TRITS_SERIALIZED_TRANSACTION trits offset offset);
                 hash = snd (curl_digest (take NUM_TRITS_SERIALIZED_TRANSACTION tx_trits) curl)
             in load_consensus MASK_CONSENSUS_HASH (consensus_update (tx_hash_update (\<lambda>dst.
                  snd (flex_trits_from_trits e dst NUM_TRITS_HASH hash NUM_TRITS_HASH NUM_TRITS_HASH))) tx))
          else tx))"

definition transaction_deserialize_from_trits ::
  "flex_enc \<Rightarrow> iota_transaction \<Rightarrow> flex_trit list \<Rightarrow> bool \<Rightarrow> nat \<times> iota_transaction"
where
  "transaction_deserialize_from_trits e tx trits compute_hash = transaction_deserialize_trits e tx trits compute_hash"

subsection \<open>Construction\<close>

definition transaction_reset :: "flex_enc \<Rightarrow> iota_transaction" where
  "transaction_reset e =
     (let null = FLEX_TRIT_NULL_VALUE e in
      \<lparr>essence = \<lparr>tx_address = replicate (FLEX_TRIT_SIZE_243 e) null, tx_value = 0,
          tx_obsolete_tag = replicate (FLEX_TRIT_SIZE_81 e) null, tx_timestamp = 0, tx_current_index = 0,
          tx_last_index = 0, tx_bundle = replicate (FLEX_TRIT_SIZE_243 e) null\<rparr>,
       attachment = \<lparr>tx_trunk = replicate (FLEX_TRIT_SIZE_243 e) null,
          tx_branch = replicate (FLEX_TRIT_SIZE_243 e) null, tx_attachment_timestamp = 0,
          tx_attachment_timestamp_lower = 0, tx_attachment_timestamp_upper = 0,
          tx_nonce = replicate (FLEX_TRIT_SIZE_81 e) null, tx_tag = replicate (FLEX_TRIT_SIZE_81 e) null\<rparr>,
       consensus = \<lparr>tx_hash = replicate (FLEX_TRIT_SIZE_243 e) null\<rparr>,
       data = \<lparr>tx_signature_or_message = replicate (FLEX_TRIT_SIZE_6561 e) null\<rparr>,
       metadata = \<lparr>tx_snapshot_index = 0, tx_solid = False, tx_validity = 0, tx_arrival_timestamp = 0\<rparr>,
       loaded_columns_mask = \<lparr>mask_essence = 0, mask_attachment = 0, mask_consensus = 0, mask_data = 0,
          mask_metadata = 0\<rparr>\<rparr>)"

definition transaction_new :: "flex_enc \<Rightarrow> bool \<Rightarrow> iota_transaction option" where
  "transaction_new e allocated = (if allocated then Some (transaction_reset e) else None)"

definition transaction_deserialize :: "flex_enc \<Rightarrow> bool \<Rightarrow> flex_trit list \<Rightarrow> bool \<Rightarrow> iota_transaction option" where
  "transaction_deserialize e allocated trits compute_hash =
     (case transaction_new e allocated of None \<Rightarrow> None
      | Some tx \<Rightarrow> (let (offset, tx) = transaction_deserialize_from_trits e tx trits compute_hash
                   in if offset = 0 then None else Some tx))"

subsection \<open>Weight magnitude\<close>

text \<open>
  \<open>while (pos-- > 0 \<and> ...)\<close>: the test of \<open>pos = 0\<close> leaves the \<open>uint8_t\<close> at 255. \<open>None\<close> is a read
  outside the array, or a failed assertion of \<open>transaction_hash\<close>.
\<close>

fun null_cells_loop :: "flex_enc \<Rightarrow> flex_trit list \<Rightarrow> nat \<Rightarrow> nat \<Rightarrow> nat \<times> nat" where
  "null_cells_loop e hash 0 n = (255, n)"
| "null_cells_loop e hash (Suc pos) n =
     (if hash ! pos = FLEX_TRIT_NULL_VALUE e
      then null_cells_loop e hash pos ((n + NUM_TRITS_PER_FLEX_TRIT e) mod 256) else (pos, n))"

fun null_trits_loop :: "trit list \<Rightarrow> nat \<Rightarrow> nat \<Rightarrow> nat" where
  "null_trits_loop trits 0 n = n"
| "null_trits_loop trits (Suc pos) n =
     (if trits ! pos = 0 then null_trits_loop trits pos ((n + 1) mod 256) else n)"

definition transaction_weight_magnitude :: "flex_enc \<Rightarrow> iota_transaction \<Rightarrow> nat option" where
  "transaction_weight_magnitude e tx =
     (case transaction_hash tx of None \<Rightarrow> None
      | Some hash \<Rightarrow>
          (let (pos, num_trailing_null_values) = null_cells_loop e hash (FLEX_TRIT_SIZE_243 e) 0
           in if pos > 0 then
                (if pos \<ge> length hash then None
                 else let w = NUM_TRITS_PER_FLEX_TRIT e;
                          one_trit_buffer = snd (flex_trits_to_trits e (replicate w 0) w [hash ! pos] w w)
                      in Some (null_trits_loop one_trit_buffer w num_trailing_null_values))
              else Some num_trailing_null_values))"

section \<open>Sizes\<close>

lemma FLEX_TRIT_SIZE_eq: "FLEX_TRIT_SIZE_27 e = NUM_FLEX_TRITS_FOR_TRITS e 27"
  "FLEX_TRIT_SIZE_81 e = NUM_FLEX_TRITS_FOR_TRITS e 81" "FLEX_TRIT_SIZE_243 e = NUM_FLEX_TRITS_FOR_TRITS e 243"
  "FLEX_TRIT_SIZE_6561 e = NUM_FLEX_TRITS_FOR_TRITS e 6561" "FLEX_TRIT_SIZE_8019 e = NUM_FLEX_TRITS_FOR_TRITS e 8019"
  by (cases e; simp add: FLEX_TRIT_SIZE_27_def FLEX_TRIT_SIZE_81_def FLEX_TRIT_SIZE_243_def FLEX_TRIT_SIZE_6561_def
      FLEX_TRIT_SIZE_8019_def NUM_FLEX_TRITS_FOR_TRITS_def)+

section \<open>The specification: a transaction as trits\<close>

text \<open>The packed form of some trits, and the arrays that are one (their padding is null).\<close>

definition flex_pack :: "flex_enc \<Rightarrow> trit list \<Rightarrow> flex_trit list" where
  "flex_pack e ts = pack_cells (NUM_TRITS_PER_FLEX_TRIT e) (flex_pack1 e) ts"

definition flex_canonical :: "flex_enc \<Rightarrow> flex_trit list \<Rightarrow> nat \<Rightarrow> bool" where
  "flex_canonical e cs n \<longleftrightarrow> flex_ok e cs n \<and> list_all (\<lambda>t. t = 0) (drop n (flex_abs e cs))"

definition flex_field :: "flex_enc \<Rightarrow> flex_trit list \<Rightarrow> nat \<Rightarrow> trit list" where
  "flex_field e cs n = take n (flex_abs e cs)"

definition transaction_fields :: "flex_enc \<Rightarrow> iota_transaction \<Rightarrow> trit list list" where
  "transaction_fields e tx =
     [flex_field e (tx_signature_or_message (data tx)) 6561, flex_field e (tx_address (essence tx)) 243,
      bt_digits 81 (tx_value (essence tx)), flex_field e (tx_obsolete_tag (essence tx)) 81,
      bt_digits 27 (wrap64 (tx_timestamp (essence tx))), bt_digits 27 (wrap64 (tx_current_index (essence tx))),
      bt_digits 27 (wrap64 (tx_last_index (essence tx))), flex_field e (tx_bundle (essence tx)) 243,
      flex_field e (tx_trunk (attachment tx)) 243, flex_field e (tx_branch (attachment tx)) 243,
      flex_field e (tx_tag (attachment tx)) 81,
      bt_digits 27 (wrap64 (tx_attachment_timestamp (attachment tx))),
      bt_digits 27 (wrap64 (tx_attachment_timestamp_lower (attachment tx))),
      bt_digits 27 (wrap64 (tx_attachment_timestamp_upper (attachment tx))),
      flex_field e (tx_nonce (attachment tx)) 81]"

definition transaction_trits :: "flex_enc \<Rightarrow> iota_transaction \<Rightarrow> trit list" where
  "transaction_trits e tx = concat (transaction_fields e tx)"

text \<open>\<open>P\<close> holds of every array that is serialised, with its number of trits.\<close>

definition all_arrays :: "(flex_trit list \<Rightarrow> nat \<Rightarrow> bool) \<Rightarrow> iota_transaction \<Rightarrow> bool" where
  "all_arrays P tx \<longleftrightarrow> P (tx_signature_or_message (data tx)) 6561 \<and> P (tx_address (essence tx)) 243
     \<and> P (tx_obsolete_tag (essence tx)) 81 \<and> P (tx_bundle (essence tx)) 243 \<and> P (tx_trunk (attachment tx)) 243
     \<and> P (tx_branch (attachment tx)) 243 \<and> P (tx_tag (attachment tx)) 81 \<and> P (tx_nonce (attachment tx)) 81
     \<and> P (tx_hash (consensus tx)) 243"

definition int64_value :: "iota_transaction \<Rightarrow> bool" where
  "int64_value tx \<longleftrightarrow> INT64_MIN \<le> tx_value (essence tx) \<and> tx_value (essence tx) \<le> INT64_MAX"

definition transaction_ok :: "flex_enc \<Rightarrow> iota_transaction \<Rightarrow> bool" where
  "transaction_ok e tx \<longleftrightarrow> all_arrays (flex_ok e) tx \<and> int64_value tx"

lemma flex_field_length: "flex_ok e cs n \<Longrightarrow> length (flex_field e cs n) = n"
  using flex_abs_length_ge [of e cs n] by (simp add: flex_field_def)

lemma flex_field_valid: "flex_ok e cs n \<Longrightarrow> valid_trits (flex_field e cs n)"
  by (simp add: flex_field_def valid_trits_take flex_abs_valid)

lemma flex_pack_field: "flex_canonical e cs n \<Longrightarrow> flex_pack e (flex_field e cs n) = cs"
proof -
  assume c: "flex_canonical e cs n"
  then have ok: "flex_ok e cs n" by (simp add: flex_canonical_def)
  let ?ts = "flex_field e cs n" and ?w = "NUM_TRITS_PER_FLEX_TRIT e"
  have v: "valid_trits ?ts" by (rule flex_field_valid [OF ok])
  have "drop n (flex_abs e cs) = replicate (length (drop n (flex_abs e cs))) 0"
    using c by (intro replicate_eqI) (auto simp: flex_canonical_def list_all_iff)
  also have "length (drop n (flex_abs e cs)) = ?w * num_cells ?w (length ?ts) - length ?ts"
    using ok by (simp add: flex_abs_length NUM_FLEX_TRITS_cells flex_field_length)
  finally have "flex_abs e cs = unpack_cells (flex_unpack1 e) (pack_cells ?w (flex_pack1 e) ?ts)"
    using flex.unpack_pack [OF v] append_take_drop_id [of n "flex_abs e cs"] by (simp add: flex_field_def)
  then have "pack_cells ?w (flex_pack1 e) (unpack_cells (flex_unpack1 e) cs)
      = pack_cells ?w (flex_pack1 e) (unpack_cells (flex_unpack1 e) (pack_cells ?w (flex_pack1 e) ?ts))"
    by (simp add: flex_abs_def)
  then show ?thesis
    using ok flex.pack_ok [OF v] by (simp add: flex.pack_unpack flex_ok_def flex_pack_def)
qed

lemma flex_pack_canonical:
  assumes "valid_trits ts" "length ts = n"
  shows "flex_canonical e (flex_pack e ts) n" "flex_field e (flex_pack e ts) n = ts"
proof -
  have "flex_abs e (flex_pack e ts)
      = ts @ replicate (NUM_TRITS_PER_FLEX_TRIT e * num_cells (NUM_TRITS_PER_FLEX_TRIT e) (length ts) - length ts) 0"
    using flex.unpack_pack [OF assms(1)] by (simp add: flex_abs_def flex_pack_def)
  moreover have "flex_ok e (flex_pack e ts) n"
    using flex.pack_ok [OF assms(1)] pack_cells_length [OF flex.w_pos] assms(2)
    by (simp add: flex_ok_def flex_pack_def NUM_FLEX_TRITS_cells)
  ultimately show "flex_canonical e (flex_pack e ts) n" "flex_field e (flex_pack e ts) n = ts"
    using assms(2) by (simp_all add: flex_canonical_def flex_field_def list_all_iff)
qed

section \<open>Serialisation\<close>

lemma insert_field_correct:
  assumes "flex_ok e trits 8019" "flex_ok e src num" "0 < num" "off + num \<le> 8019"
  shows "\<exists>trits'. insert_field e (trits, off) (src, num) = (trits', off + num) \<and> flex_ok e trits' 8019
    \<and> take (off + num) (flex_abs e trits') = take off (flex_abs e trits) @ flex_field e src num"
proof -
  obtain trits' where t: "flex_trits_insert e trits 8019 src num off num = (num, trits')"
      "flex_ok e trits' 8019" "flex_abs e trits' = blit (flex_abs e trits) off (flex_field e src num)"
    using flex_trits_insert_copied [OF assms(1,2,3) order_refl assms(4)] by (auto simp: copied_def flex_field_def)
  have "off \<le> length (flex_abs e trits)" using flex_abs_length_ge [OF assms(1)] assms(4) by simp
  then have "take (off + num) (flex_abs e trits') = take off (flex_abs e trits) @ flex_field e src num"
    using flex_field_length [OF assms(2)] by (simp add: t(3) blit_def)
  with t show ?thesis by (simp add: insert_field_def)
qed

lemma insert_fields_correct:
  "flex_ok e trits 8019 \<Longrightarrow> list_all (\<lambda>(src, num). 0 < num \<and> flex_ok e src num) fs \<Longrightarrow> off + sum_list (map snd fs) \<le> 8019 \<Longrightarrow>
    \<exists>trits'. foldl (insert_field e) (trits, off) fs = (trits', off + sum_list (map snd fs)) \<and> flex_ok e trits' 8019
      \<and> take (off + sum_list (map snd fs)) (flex_abs e trits')
          = take off (flex_abs e trits) @ concat (map (\<lambda>(src, num). flex_field e src num) fs)"
proof (induction fs arbitrary: trits off)
  case (Cons f fs)
  obtain src num where f: "f = (src, num)" by (cases f)
  have "off + num \<le> 8019" using Cons.prems(3) f by simp
  then obtain t where t: "insert_field e (trits, off) (src, num) = (t, off + num)" "flex_ok e t 8019"
      "take (off + num) (flex_abs e t) = take off (flex_abs e trits) @ flex_field e src num"
    using insert_field_correct [OF Cons.prems(1), of src num off] Cons.prems(2) f by auto
  have "off + num + sum_list (map snd fs) \<le> 8019" using Cons.prems(3) f by simp
  from Cons.IH [OF t(2) _ this] Cons.prems(2) t(3) show ?case by (auto simp: f t(1) add.assoc)
qed simp

lemma long_to_flex_trit_correct:
  assumes "INT64_MIN \<le> v" "v \<le> INT64_MAX"
  shows "\<exists>cs. long_to_flex_trit e v = (min_trits v, cs) \<and> flex_ok e cs 81 \<and> take 81 (flex_abs e cs) = bt_digits 81 v"
proof -
  have "max 3 (min_trits v) \<le> 81" using min_trits_spec(2) [OF assms] by simp
  note b = long_to_trits_zeros [OF assms this]
  have "length (replicate (FLEX_TRIT_SIZE_81 e) (0 :: int)) = NUM_FLEX_TRITS_FOR_TRITS e 81"
    by (simp add: FLEX_TRIT_SIZE_eq)
  from flex_trits_from_trits_abs [OF this bt_digits_valid [of 81 v], of 81] b
  show ?thesis by (auto simp: long_to_flex_trit_def)
qed

lemma wrap64_range: "INT64_MIN \<le> wrap64 v" "wrap64 v \<le> INT64_MAX"
proof -
  have "(v + 2 ^ 63) mod 2 ^ 64 < 2 ^ 64" "0 \<le> (v + 2 ^ 63) mod 2 ^ 64" by simp_all
  then show "INT64_MIN \<le> wrap64 v" "wrap64 v \<le> INT64_MAX" by (simp_all add: wrap_s_def)
qed

lemma partial_of_correct:
  assumes "n \<le> 81"
  shows "snd (partial_of e v n) = n" "flex_ok e (fst (partial_of e v n)) n"
    "flex_field e (fst (partial_of e v n)) n = bt_digits n (wrap64 v)"
proof -
  let ?w = "NUM_TRITS_PER_FLEX_TRIT e" and ?k = "NUM_FLEX_TRITS_FOR_TRITS e n"
  obtain cs where cs: "long_to_flex_trit e (wrap64 v) = (min_trits (wrap64 v), cs)" "flex_ok e cs 81"
      "take 81 (flex_abs e cs) = bt_digits 81 (wrap64 v)"
    using long_to_flex_trit_correct [OF wrap64_range] by blast
  then have ok: "list_all (flex_cell_ok e) cs" and l: "length cs = NUM_FLEX_TRITS_FOR_TRITS e 81"
    by (simp_all add: flex_ok_def)
  have k: "?k \<le> length cs" using l assms by (simp add: NUM_FLEX_TRITS_cells num_cells_mono)
  have n: "n \<le> ?w * ?k" by (simp add: NUM_FLEX_TRITS_cells num_cells_ge flex.w_pos)
  show "snd (partial_of e v n) = n" by (simp add: partial_of_def)
  show "flex_ok e (fst (partial_of e v n)) n"
    using k ok by (auto simp: partial_of_def cs(1) flex_ok_def list_all_iff dest: in_set_takeD)
  have "take n (flex_abs e (take ?k cs)) = take n (take 81 (flex_abs e cs))"
    using n assms by (simp add: flex_abs_def flex.unpack_take [OF ok])
  also have "\<dots> = bt_digits n (wrap64 v)" unfolding cs(3) by (rule bt_digits_take [OF assms])
  finally show "flex_field e (fst (partial_of e v n)) n = bt_digits n (wrap64 v)"
    by (simp add: partial_of_def cs(1) flex_field_def)
qed

lemma partial_of_eq: "n \<le> 81 \<Longrightarrow> partial_of e v n = (fst (partial_of e v n), n)"
  by (metis partial_of_correct(1) prod.collapse)

lemma transaction_serialize_correct:
  assumes "transaction_ok e tx"
  shows "\<exists>trits. transaction_serialize_to_flex_trits e tx = (8019, trits) \<and> flex_ok e trits 8019
    \<and> flex_field e trits 8019 = transaction_trits e tx"
proof -
  let ?p = "\<lambda>v n. (fst (partial_of e v n), n)"
  let ?E = "essence tx" and ?A = "attachment tx"
  let ?fs = "[(tx_signature_or_message (data tx), 6561), (tx_address ?E, 243), ?p (tx_value ?E) 81, (tx_obsolete_tag ?E, 81),
    ?p (tx_timestamp ?E) 27, ?p (tx_current_index ?E) 27, ?p (tx_last_index ?E) 27, (tx_bundle ?E, 243), (tx_trunk ?A, 243),
    (tx_branch ?A, 243), (tx_tag ?A, 81), ?p (tx_attachment_timestamp ?A) 27, ?p (tx_attachment_timestamp_lower ?A) 27,
    ?p (tx_attachment_timestamp_upper ?A) 27, (tx_nonce ?A, 81)]"
  let ?t0 = "replicate (NUM_FLEX_TRITS_FOR_TRITS e 8019) (FLEX_TRIT_NULL_VALUE e)"
  note arrays = assms [unfolded transaction_ok_def all_arrays_def int64_value_def]
  have v: "wrap64 (tx_value ?E) = tx_value ?E" using arrays by (intro wrap64_id) auto
  have t0: "flex_ok e ?t0 8019" by (simp add: flex_ok_def list_all_iff flex_null_cell)
  have sm: "sum_list (map snd ?fs) = 8019" by simp
  have fs: "list_all (\<lambda>(src, num). 0 < num \<and> flex_ok e src num) ?fs"
    using arrays by (simp add: partial_of_correct)
  have s: "transaction_serialize_to_flex_trits e tx =
      (case foldl (insert_field e) (?t0, 0) ?fs of (trits, offset) \<Rightarrow> (offset, trits))"
    unfolding transaction_serialize_to_flex_trits_def Let_def num_trits_sizes FLEX_TRIT_SIZE_eq
    by (subst (1 2 3 4 5 6 7) partial_of_eq) simp_all
  have "concat (map (\<lambda>(src, num). flex_field e src num) ?fs) = transaction_trits e tx"
    by (simp add: transaction_trits_def transaction_fields_def partial_of_correct v)
  moreover obtain trits where "foldl (insert_field e) (?t0, 0) ?fs = (trits, 8019)" "flex_ok e trits 8019"
      "take 8019 (flex_abs e trits) = concat (map (\<lambda>(src, num). flex_field e src num) ?fs)"
    using insert_fields_correct [OF t0 fs, of 0] unfolding sm by auto
  ultimately show ?thesis unfolding s flex_field_def by simp
qed

section \<open>Deserialisation\<close>

lemma slice_field_eq:
  assumes "flex_ok e trits 8019" "length dst = NUM_FLEX_TRITS_FOR_TRITS e num" "0 < num" "off + num \<le> 8019"
  shows "slice_field e trits off dst num = flex_pack e (slice off num (flex_field e trits 8019))"
proof -
  let ?w = "NUM_TRITS_PER_FLEX_TRIT e"
  have s: "slice off num (flex_field e trits 8019) = slice off num (flex_abs e trits)"
    using assms(4) by (simp add: flex_field_def slice_def drop_take min_def)
  have "length (slice off num (flex_abs e trits)) = num"
    using flex_abs_length_ge [OF assms(1)] assms(4) by simp
  then have "length (pack_cells ?w (flex_pack1 e) (slice off num (flex_abs e trits))) = NUM_FLEX_TRITS_FOR_TRITS e num"
    using pack_cells_length [OF flex.w_pos] by (simp add: NUM_FLEX_TRITS_cells)
  then show ?thesis
    using slice_cells [OF assms(1,3) order_refl assms(4,2)] by (simp add: slice_field_def flex_pack_def s blit_0_all)
qed

lemma slice_long_eq:
  assumes "flex_ok e trits 8019" "0 < num" "off + num \<le> 8019" "3 dvd num"
  shows "slice_long e trits off num = wrap64 (bt_value (slice off num (flex_field e trits 8019)))"
proof -
  let ?ts = "slice off num (flex_field e trits 8019)"
  have l: "length ?ts = num" using flex_field_length [OF assms(1)] assms(3) by simp
  have v: "valid_trits ?ts" by (rule valid_trits_slice [OF flex_field_valid [OF assms(1)]])
  have p: "slice_field e trits off (replicate (NUM_FLEX_TRITS_FOR_TRITS e num) 0) num = flex_pack e ?ts"
    by (rule slice_field_eq [OF assms(1) _ assms(2,3)]) simp
  note c = flex_pack_canonical [OF v l, of e]
  have ok: "flex_ok e (flex_pack e ?ts) num" using c(1) by (simp add: flex_canonical_def)
  have "e = ENC3 \<Longrightarrow> 3 * NUM_FLEX_TRITS_FOR_TRITS e num \<le> length (replicate num (0 :: int))"
    using assms(4) by (auto simp: NUM_FLEX_TRITS_FOR_TRITS_def elim!: dvdE)
  then obtain b where "flex_trits_to_trits e (replicate num 0) num (flex_pack e ?ts) num num
      = (NUM_FLEX_TRITS_FOR_TRITS e num, b)" "take num b = ?ts"
    using flex_trits_to_trits_abs [OF ok assms(2) order_refl, of "replicate num 0"] c(2) by (auto simp: flex_field_def)
  then show ?thesis by (simp add: slice_long_def p trits_to_long_wrap)
qed

text \<open>Reading field \<open>i\<close> of a concatenation.\<close>

lemma slice_concat:
  "i < length xss \<Longrightarrow> slice (sum_list (map length (take i xss))) (length (xss ! i)) (concat xss) = xss ! i"
proof (induction xss arbitrary: i)
  case (Cons xs xss)
  then show ?case by (cases i) (auto simp: slice_def)
qed simp

definition arrays_sized :: "flex_enc \<Rightarrow> iota_transaction \<Rightarrow> bool" where
  "arrays_sized e tx \<longleftrightarrow> all_arrays (\<lambda>cs n. length cs = NUM_FLEX_TRITS_FOR_TRITS e n) tx"

definition transaction_digest :: "trit list \<Rightarrow> trit list" where
  "transaction_digest trits = snd (curl_digest trits \<lparr>state = replicate STATE_LENGTH 0, curl_type = CURL_P_81\<rparr>)"

text \<open>What deserialisation stores, as slices of the serialised trits.\<close>

definition essence_of :: "flex_enc \<Rightarrow> trit list \<Rightarrow> essence_fields" where
  "essence_of e ts = \<lparr>tx_address = flex_pack e (slice 6561 243 ts), tx_value = wrap64 (bt_value (slice 6804 81 ts)),
     tx_obsolete_tag = flex_pack e (slice 6885 81 ts), tx_timestamp = uwrap64 (wrap64 (bt_value (slice 6966 27 ts))),
     tx_current_index = uwrap64 (wrap64 (bt_value (slice 6993 27 ts))),
     tx_last_index = uwrap64 (wrap64 (bt_value (slice 7020 27 ts))), tx_bundle = flex_pack e (slice 7047 243 ts)\<rparr>"

definition attachment_of :: "flex_enc \<Rightarrow> trit list \<Rightarrow> attachment_fields" where
  "attachment_of e ts = \<lparr>tx_trunk = flex_pack e (slice 7290 243 ts), tx_branch = flex_pack e (slice 7533 243 ts),
     tx_attachment_timestamp = uwrap64 (wrap64 (bt_value (slice 7857 27 ts))),
     tx_attachment_timestamp_lower = uwrap64 (wrap64 (bt_value (slice 7884 27 ts))),
     tx_attachment_timestamp_upper = uwrap64 (wrap64 (bt_value (slice 7911 27 ts))),
     tx_nonce = flex_pack e (slice 7938 81 ts), tx_tag = flex_pack e (slice 7776 81 ts)\<rparr>"

definition columns_loaded :: "bool \<Rightarrow> iota_transaction \<Rightarrow> iota_transaction \<Rightarrow> bool" where
  "columns_loaded with_hash tx tx' \<longleftrightarrow> (let m = loaded_columns_mask tx; m' = loaded_columns_mask tx'
     in mask_essence m' = mask_essence m OR MASK_ESSENCE_ALL \<and> mask_attachment m' = mask_attachment m OR MASK_ATTACHMENT_ALL
      \<and> mask_data m' = mask_data m OR MASK_DATA_ALL \<and> mask_metadata m' = mask_metadata m
      \<and> mask_consensus m' = (if with_hash then mask_consensus m OR MASK_CONSENSUS_ALL else mask_consensus m))"

lemma transaction_deserialize_fields:
  fixes h :: bool
  assumes ok: "flex_ok e trits 8019" and sz: "arrays_sized e tx"
  defines "ts \<equiv> flex_field e trits 8019" and "r \<equiv> transaction_deserialize_trits e tx trits h"
  shows "fst r = 8019" "essence (snd r) = essence_of e ts" "attachment (snd r) = attachment_of e ts"
    "data (snd r) = \<lparr>tx_signature_or_message = flex_pack e (slice 0 6561 ts)\<rparr>" "metadata (snd r) = metadata tx"
    "columns_loaded h tx (snd r)"
    "consensus (snd r) = (if h then \<lparr>tx_hash = flex_pack e (transaction_digest ts)\<rparr> else consensus tx)"
proof -
  note sz' = sz [unfolded arrays_sized_def all_arrays_def]
  note fld = slice_field_eq [OF ok] slice_long_eq [OF ok]
  note d = r_def transaction_deserialize_trits_def transaction_setter_defs load_defs Let_def num_trits_sizes
  show "fst r = 8019" by (simp add: d)
  show "essence (snd r) = essence_of e ts"
    using sz' by (simp add: d fld ts_def [symmetric] essence_of_def)
  show "attachment (snd r) = attachment_of e ts"
    using sz' by (simp add: d fld ts_def [symmetric] attachment_of_def)
  show "data (snd r) = \<lparr>tx_signature_or_message = flex_pack e (slice 0 6561 ts)\<rparr>"
    using sz' by (simp add: d fld ts_def [symmetric] del: slice_0)
  show "metadata (snd r) = metadata tx" by (simp add: d)
  show "columns_loaded h tx (snd r)"
    by (simp add: d columns_loaded_def MASK_ESSENCE_ALL_def MASK_ATTACHMENT_ALL_def MASK_DATA_ALL_def
        MASK_CONSENSUS_ALL_def mask_defs or.assoc)
  have "e = ENC3 \<Longrightarrow> 3 * NUM_FLEX_TRITS_FOR_TRITS e 8019 \<le> length (replicate 8019 (0 :: int))"
    by (simp add: NUM_FLEX_TRITS_FOR_TRITS_def)
  then obtain b where b: "flex_trits_to_trits e (replicate 8019 0) 8019 trits 8019 8019
      = (NUM_FLEX_TRITS_FOR_TRITS e 8019, b)" "take 8019 b = ts"
    using flex_trits_to_trits_abs [OF ok, of 8019 "replicate 8019 0"] by (auto simp: ts_def flex_field_def)
  let ?h = "transaction_digest ts"
  have "length ts = 8019" "valid_trits ts" using flex_field_length [OF ok] flex_field_valid [OF ok] by (simp_all add: ts_def)
  then have dg: "length ?h = 243" "valid_trits ?h"
    using curl_squeeze_ok(3,4) [OF curl_absorb_ok(1), of "\<lparr>state = replicate STATE_LENGTH 0, curl_type = CURL_P_81\<rparr>"]
    by (auto simp: transaction_digest_def curl_digest_def curl_ok_def HASH_LENGTH_TRIT_def)
  have hl: "length (tx_hash (consensus tx)) = NUM_FLEX_TRITS_FOR_TRITS e 243" using sz' by simp
  have "flex_ok e (snd (flex_trits_from_trits e (tx_hash (consensus tx)) 243 ?h 243 243)) 243
      \<and> flex_abs e (snd (flex_trits_from_trits e (tx_hash (consensus tx)) 243 ?h 243 243))
         = ?h @ replicate (NUM_TRITS_PER_FLEX_TRIT e * NUM_FLEX_TRITS_FOR_TRITS e 243 - 243) 0"
    using flex_trits_from_trits_abs [OF hl dg(2), of 243] dg(1) by auto
  then have "flex_canonical e (snd (flex_trits_from_trits e (tx_hash (consensus tx)) 243 ?h 243 243)) 243"
      "flex_field e (snd (flex_trits_from_trits e (tx_hash (consensus tx)) 243 ?h 243 243)) 243 = ?h"
    using dg by (simp_all add: flex_canonical_def flex_field_def list_all_iff)
  then have f: "snd (flex_trits_from_trits e (tx_hash (consensus tx)) 243 ?h 243 243) = flex_pack e ?h"
    using flex_pack_field by metis
  show "consensus (snd r) = (if h then \<lparr>tx_hash = flex_pack e ?h\<rparr> else consensus tx)"
    using f by (simp add: d b transaction_digest_def)
qed

section \<open>Round trips\<close>

text \<open>The transactions that fit their serialisation: null padding, unsigned numbers within 27 trits.\<close>

definition fits27 :: "int \<Rightarrow> bool" where
  "fits27 v \<longleftrightarrow> 0 \<le> v \<and> v \<le> bt_max 27"

definition transaction_canonical :: "flex_enc \<Rightarrow> iota_transaction \<Rightarrow> bool" where
  "transaction_canonical e tx \<longleftrightarrow> all_arrays (flex_canonical e) tx \<and> int64_value tx
     \<and> fits27 (tx_timestamp (essence tx)) \<and> fits27 (tx_current_index (essence tx)) \<and> fits27 (tx_last_index (essence tx))
     \<and> fits27 (tx_attachment_timestamp (attachment tx)) \<and> fits27 (tx_attachment_timestamp_lower (attachment tx))
     \<and> fits27 (tx_attachment_timestamp_upper (attachment tx))"

lemma bt_max_27: "bt_max 27 = 3812798742493"
  by (simp add: bt_max_def)

lemma fits27_digits: "fits27 v \<Longrightarrow> wrap64 (bt_value (bt_digits 27 (wrap64 v))) mod 18446744073709551616 = v"
proof -
  assume "fits27 v"
  then have v: "0 \<le> v" "v \<le> 3812798742493" by (simp_all add: fits27_def bt_max_27)
  then have w: "wrap64 v = v" by (intro wrap64_id) auto
  have "bt_value (bt_digits 27 v) = v" using v by (intro bt_value_digits) simp
  then show ?thesis unfolding w using v w by simp
qed

lemma value_digits: "INT64_MIN \<le> v \<Longrightarrow> v \<le> INT64_MAX \<Longrightarrow> wrap64 (bt_value (bt_digits 81 v)) = v"
proof -
  assume v: "INT64_MIN \<le> v" "v \<le> INT64_MAX"
  have "bt_value (bt_digits 81 v) = v" using v by (intro bt_value_digits) simp
  with v show ?thesis by (simp add: wrap64_id)
qed

lemma transaction_fields_length:
  assumes "transaction_ok e tx"
  shows "map length (transaction_fields e tx) = [6561, 243, 81, 81, 27, 27, 27, 243, 243, 243, 81, 27, 27, 27, 81]"
  using assms by (simp add: transaction_fields_def transaction_ok_def all_arrays_def flex_field_length)

lemma transaction_trits_length: "transaction_ok e tx \<Longrightarrow> length (transaction_trits e tx) = 8019"
  using transaction_fields_length [of e tx] by (simp add: transaction_trits_def length_concat)

lemma transaction_trits_slice:
  assumes "transaction_ok e tx" "i < 15"
  defines "ls \<equiv> [6561, 243, 81, 81, 27, 27, 27, 243, 243, 243, 81, 27, 27, 27, 81] :: nat list"
  shows "slice (sum_list (take i ls)) (ls ! i) (transaction_trits e tx) = transaction_fields e tx ! i"
proof -
  have l: "map length (transaction_fields e tx) = ls" using transaction_fields_length [OF assms(1)] by (simp add: ls_def)
  have n: "length (transaction_fields e tx) = 15" by (simp add: transaction_fields_def)
  have "map length (take i (transaction_fields e tx)) = take i ls" by (simp add: l [symmetric] take_map)
  moreover have "length (transaction_fields e tx ! i) = ls ! i" using n assms(2) by (simp add: l [symmetric])
  ultimately show ?thesis
    using slice_concat [of i "transaction_fields e tx"] n assms(2) by (simp add: transaction_trits_def)
qed

lemma all_arrays_mono: "(\<And>cs n. P cs n \<Longrightarrow> Q cs n) \<Longrightarrow> all_arrays P tx \<Longrightarrow> all_arrays Q tx"
  by (simp add: all_arrays_def)

lemma transaction_canonical_ok: "transaction_canonical e tx \<Longrightarrow> transaction_ok e tx"
  unfolding transaction_canonical_def transaction_ok_def flex_canonical_def by (auto elim!: all_arrays_mono [rotated])

lemma transaction_of_trits:
  assumes "transaction_canonical e tx"
  shows "essence_of e (transaction_trits e tx) = essence tx" "attachment_of e (transaction_trits e tx) = attachment tx"
    "\<lparr>tx_signature_or_message = flex_pack e (slice 0 6561 (transaction_trits e tx))\<rparr> = data tx"
proof -
  note s = transaction_trits_slice [OF transaction_canonical_ok [OF assms]]
  note c = assms [unfolded transaction_canonical_def all_arrays_def int64_value_def]
  note f = fits27_digits value_digits flex_pack_field transaction_fields_def
  have "essence_of e (transaction_trits e tx) = essence tx" if "essence tx = E" for E
    using s [of 1] s [of 2] s [of 3] s [of 4] s [of 5] s [of 6] s [of 7] c that
    by (cases E) (simp add: essence_of_def f)
  then show "essence_of e (transaction_trits e tx) = essence tx" by simp
  have "attachment_of e (transaction_trits e tx) = attachment tx" if "attachment tx = A" for A
    using s [of 8] s [of 9] s [of 10] s [of 11] s [of 12] s [of 13] s [of 14] c that
    by (cases A) (simp add: attachment_of_def f)
  then show "attachment_of e (transaction_trits e tx) = attachment tx" by simp
  have "\<lparr>tx_signature_or_message = flex_pack e (slice 0 6561 (transaction_trits e tx))\<rparr> = data tx" if "data tx = D" for D
    using s [of 0] c that by (cases D) (simp add: f)
  then show "\<lparr>tx_signature_or_message = flex_pack e (slice 0 6561 (transaction_trits e tx))\<rparr> = data tx" by simp
qed

lemma flex_null_canonical: "flex_canonical e (replicate (NUM_FLEX_TRITS_FOR_TRITS e n) (FLEX_TRIT_NULL_VALUE e)) n"
  by (simp add: flex_canonical_def flex_ok_def list_all_iff flex_null_cell flex_abs_null)

lemma transaction_reset_canonical: "transaction_canonical e (transaction_reset e)"
  by (simp add: transaction_canonical_def all_arrays_def transaction_reset_def flex_null_canonical FLEX_TRIT_SIZE_eq
      int64_value_def fits27_def bt_max_27 Let_def)

lemma transaction_ok_sized: "transaction_ok e tx \<Longrightarrow> arrays_sized e tx"
  unfolding transaction_ok_def arrays_sized_def flex_ok_def by (auto elim!: all_arrays_mono [rotated])

text \<open>Concatenating consecutive slices.\<close>

lemma slice_append: "b = a + n \<Longrightarrow> slice a n xs @ slice b m xs = slice a (n + m) xs"
  by (simp add: slice_def take_add add.commute [of a])

lemma bt_digits_slice:
  assumes "valid_trits ts" "off + n \<le> length ts"
  shows "bt_digits n (bt_value (slice off n ts)) = slice off n ts"
  using bt_digits_value [OF valid_trits_slice [OF assms(1), of off n]] assms(2) by simp

lemma wrap64_uwrap64: "wrap64 (x mod 18446744073709551616) = wrap64 x"
  by (rule wrap_s_cong) simp

lemma wrap64_wrap64: "wrap64 (wrap64 x) = wrap64 x"
  by (rule wrap_s_cong) (rule wrap_s_mod)

lemma bt27_wrap: "valid_trits ts \<Longrightarrow> length ts = 27 \<Longrightarrow> wrap64 (bt_value ts) = bt_value ts"
  using bt_value_bound [of ts] by (intro wrap64_id) auto

text \<open>The transaction read from some trits has these trits.\<close>

lemma transaction_fields_of_slices:
  assumes v: "valid_trits ts" and l: "length ts = 8019" and r: "INT64_MIN \<le> bt_value (slice 6804 81 ts)"
      "bt_value (slice 6804 81 ts) \<le> INT64_MAX"
    and tx: "essence tx = essence_of e ts" "attachment tx = attachment_of e ts"
      "data tx = \<lparr>tx_signature_or_message = flex_pack e (slice 0 6561 ts)\<rparr>"
  shows "transaction_trits e tx = ts"
proof -
  have f: "flex_field e (flex_pack e (slice a n ts)) n = slice a n ts" if "a + n \<le> 8019" for a n
    using flex_pack_canonical(2) [OF valid_trits_slice [OF v]] l that by simp
  have b: "wrap64 (bt_value (slice a 27 ts)) = bt_value (slice a 27 ts)" if "a + 27 \<le> 8019" for a
    using bt27_wrap [OF valid_trits_slice [OF v]] l that by simp
  have d: "bt_digits n (bt_value (slice a n ts)) = slice a n ts" if "a + n \<le> 8019" for a n
    using bt_digits_slice [OF v] l that by simp
  have w: "wrap64 (bt_value (slice 6804 81 ts)) = bt_value (slice 6804 81 ts)" using r by (intro wrap64_id) auto
  have "transaction_fields e tx = [slice 0 6561 ts, slice 6561 243 ts, slice 6804 81 ts, slice 6885 81 ts, slice 6966 27 ts,
      slice 6993 27 ts, slice 7020 27 ts, slice 7047 243 ts, slice 7290 243 ts, slice 7533 243 ts, slice 7776 81 ts,
      slice 7857 27 ts, slice 7884 27 ts, slice 7911 27 ts, slice 7938 81 ts]"
    by (simp add: transaction_fields_def tx essence_of_def attachment_of_def f d b w wrap64_uwrap64 del: slice_0)
  moreover have "slice 0 8019 ts = ts" using l by simp
  ultimately show ?thesis
    by (simp add: transaction_trits_def slice_append append_assoc [symmetric]
        del: append_assoc slice_0)
qed

section \<open>Weight magnitude\<close>

text \<open>The number of trailing null trits of an array.\<close>

definition trailing_zeros :: "trit list \<Rightarrow> nat" where
  "trailing_zeros ts = length (takeWhile (\<lambda>t. t = 0) (rev ts))"

lemma trailing_zeros_append:
  "trailing_zeros (xs @ ys) = (if list_all (\<lambda>t. t = 0) ys then length ys + trailing_zeros xs else trailing_zeros ys)"
proof (cases "list_all (\<lambda>t. t = 0) ys")
  case True
  then have "takeWhile (\<lambda>t. t = 0) (rev ys @ rev xs) = rev ys @ takeWhile (\<lambda>t. t = 0) (rev xs)"
    by (intro takeWhile_append2) (auto simp: list_all_iff)
  with True show ?thesis by (simp add: trailing_zeros_def)
next
  case False
  then obtain t where "t \<in> set (rev ys)" "t \<noteq> 0" by (auto simp: list_all_iff)
  then have "takeWhile (\<lambda>t. t = 0) (rev ys @ rev xs) = takeWhile (\<lambda>t. t = 0) (rev ys)"
    by (intro takeWhile_append1)
  with False show ?thesis by (simp add: trailing_zeros_def)
qed

lemma trailing_zeros_snoc: "trailing_zeros (xs @ [t]) = (if t = 0 then Suc (trailing_zeros xs) else 0)"
  by (simp add: trailing_zeros_append) (simp add: trailing_zeros_def)

lemma null_trits_loop_correct:
  "pos \<le> length ts \<Longrightarrow> n + pos < 256 \<Longrightarrow> null_trits_loop ts pos n = n + trailing_zeros (take pos ts)"
proof (induction pos arbitrary: n)
  case 0
  then show ?case by (simp add: trailing_zeros_def)
next
  case (Suc pos)
  then show ?case by (simp add: take_Suc_conv_app_nth trailing_zeros_snoc)
qed

lemma null_cell_iff: "flex_cell_ok e c \<Longrightarrow> c = FLEX_TRIT_NULL_VALUE e \<longleftrightarrow> list_all (\<lambda>t. t = 0) (flex_unpack1 e c)"
proof
  assume ok: "flex_cell_ok e c" and z: "list_all (\<lambda>t. t = 0) (flex_unpack1 e c)"
  have "flex_unpack1 e c = replicate (NUM_TRITS_PER_FLEX_TRIT e) 0"
    using z flex.unpack1_length [OF ok] by (intro replicate_eqI) (auto simp: list_all_iff)
  also have "\<dots> = flex_unpack1 e (FLEX_TRIT_NULL_VALUE e)" by (simp add: flex_null_cell)
  finally have "flex_pack1 e (flex_unpack1 e c) = flex_pack1 e (flex_unpack1 e (FLEX_TRIT_NULL_VALUE e))" by simp
  then show "c = FLEX_TRIT_NULL_VALUE e" using flex.pack1_unpack1 [OF ok] flex.pack1_unpack1 [OF flex_null_cell(1)] by simp
qed (simp add: flex_null_cell list_all_iff)

text \<open>The loop over the cells stops at the last cell that is not null.\<close>

lemma null_cells_loop_stop:
  assumes "list_all (flex_cell_ok e) hash" "k < pos" "hash ! k \<noteq> FLEX_TRIT_NULL_VALUE e" "pos \<le> length hash"
    and "\<And>i. k < i \<Longrightarrow> i < pos \<Longrightarrow> hash ! i = FLEX_TRIT_NULL_VALUE e"
    and "n + NUM_TRITS_PER_FLEX_TRIT e * pos < 256"
  shows "null_cells_loop e hash pos n = (k, n + NUM_TRITS_PER_FLEX_TRIT e * (pos - Suc k))"
  using assms(2-6)
proof (induction pos arbitrary: n)
  case (Suc pos)
  show ?case
  proof (cases "k = pos")
    case False
    then have k: "k < pos" "Suc pos - Suc k = Suc (pos - Suc k)" using Suc.prems(1) by auto
    have "null_cells_loop e hash pos (n + NUM_TRITS_PER_FLEX_TRIT e)
        = (k, n + NUM_TRITS_PER_FLEX_TRIT e + NUM_TRITS_PER_FLEX_TRIT e * (pos - Suc k))"
      using Suc.prems k(1) by (intro Suc.IH) (auto simp: algebra_simps)
    with Suc.prems k show ?thesis by simp
  qed (use Suc.prems in simp)
qed simp

text \<open>The trailing null trits of an array whose last non-null cell is cell \<open>k\<close>.\<close>

lemma trailing_zeros_cells:
  assumes ok: "list_all (flex_cell_ok e) cs" and k: "k < length cs" "cs ! k \<noteq> FLEX_TRIT_NULL_VALUE e"
    and z: "\<And>i. k < i \<Longrightarrow> i < length cs \<Longrightarrow> cs ! i = FLEX_TRIT_NULL_VALUE e"
  shows "trailing_zeros (flex_abs e cs)
    = NUM_TRITS_PER_FLEX_TRIT e * (length cs - Suc k) + trailing_zeros (flex_unpack1 e (cs ! k))"
proof -
  have "drop (Suc k) cs = replicate (length cs - Suc k) (FLEX_TRIT_NULL_VALUE e)"
    by (rule nth_equalityI) (auto intro: z)
  then have "cs = take k cs @ cs ! k # replicate (length cs - Suc k) (FLEX_TRIT_NULL_VALUE e)"
    using id_take_nth_drop [OF k(1)] by simp
  then have "flex_abs e cs = flex_abs e (take k cs) @ flex_unpack1 e (cs ! k)
      @ replicate (NUM_TRITS_PER_FLEX_TRIT e * (length cs - Suc k)) 0"
    by (metis flex.unpack_simps(2,3) flex_abs_def flex_abs_null)
  moreover have "\<not> list_all (\<lambda>t. t = 0) (flex_unpack1 e (cs ! k))"
    using null_cell_iff [of e "cs ! k"] ok k by (simp add: list_all_length)
  ultimately show ?thesis by (auto simp: trailing_zeros_append list_all_iff)
qed

lemma cell_to_trits:
  assumes "flex_cell_ok e c"
  defines "w \<equiv> NUM_TRITS_PER_FLEX_TRIT e"
  shows "snd (flex_trits_to_trits e (replicate w 0) w [c] w w) = flex_unpack1 e c"
proof -
  have nf: "NUM_FLEX_TRITS_FOR_TRITS e w = 1" unfolding w_def
    by (cases e) (simp_all add: NUM_FLEX_TRITS_FOR_TRITS_def NUM_TRITS_PER_FLEX_TRIT_def)
  have ok: "flex_ok e [c] w" using assms nf by (simp add: flex_ok_def)
  have a: "flex_abs e [c] = flex_unpack1 e c" by (simp add: flex_abs_def)
  have l: "length (flex_unpack1 e c) = w" using flex.unpack1_length [OF assms(1)] by (simp add: w_def)
  have "e = ENC3 \<Longrightarrow> 3 * NUM_FLEX_TRITS_FOR_TRITS e w \<le> length (replicate w (0 :: int))"
    unfolding nf by (simp add: w_def NUM_TRITS_PER_FLEX_TRIT_def)
  moreover have "0 < w" using flex.w_pos [of e] by (simp add: w_def)
  ultimately obtain ts where "flex_trits_to_trits e (replicate w 0) w [c] w w = (NUM_FLEX_TRITS_FOR_TRITS e w, ts)"
      "length ts = w" "take w ts = take w (flex_unpack1 e c)"
    using flex_trits_to_trits_abs [OF ok, of w "replicate w 0"] unfolding a length_replicate by blast
  then show ?thesis using l by simp
qed

lemma transaction_weight_magnitude_correct:
  assumes h: "transaction_hash tx = Some hash" and ok: "flex_ok e hash 243"
    and k: "0 < k" "k < length hash" "hash ! k \<noteq> FLEX_TRIT_NULL_VALUE e"
  shows "transaction_weight_magnitude e tx = Some (trailing_zeros (flex_abs e hash))"
proof -
  let ?w = "NUM_TRITS_PER_FLEX_TRIT e" and ?N = "FLEX_TRIT_NULL_VALUE e"
  have cells: "list_all (flex_cell_ok e) hash" and l: "length hash = FLEX_TRIT_SIZE_243 e"
    using ok by (simp_all add: flex_ok_def FLEX_TRIT_SIZE_eq)
  define j where "j = Max {i. i < length hash \<and> hash ! i \<noteq> ?N}"
  have f: "finite {i. i < length hash \<and> hash ! i \<noteq> ?N}" by simp
  have "j \<in> {i. i < length hash \<and> hash ! i \<noteq> ?N}" unfolding j_def by (rule Max_in [OF f]) (use k in auto)
  then have j: "j < length hash" "hash ! j \<noteq> ?N" by auto
  have mx: "i \<le> j" if "i < length hash" "hash ! i \<noteq> ?N" for i unfolding j_def by (rule Max_ge [OF f]) (use that in auto)
  then have z: "hash ! i = ?N" if "j < i" "i < length hash" for i using that by force
  have j0: "0 < j" using mx [OF k(2,3)] k(1) by simp
  have b: "?w * FLEX_TRIT_SIZE_243 e \<le> 245"
    by (cases e) (simp_all add: NUM_TRITS_PER_FLEX_TRIT_def FLEX_TRIT_SIZE_243_def)
  have c: "flex_cell_ok e (hash ! j)" using cells j by (simp add: list_all_length)
  have lp: "null_cells_loop e hash (FLEX_TRIT_SIZE_243 e) 0 = (j, 0 + ?w * (FLEX_TRIT_SIZE_243 e - Suc j))"
    using j z l b by (intro null_cells_loop_stop [OF cells]) auto
  have "Suc (FLEX_TRIT_SIZE_243 e - Suc j) \<le> FLEX_TRIT_SIZE_243 e" using j l by simp
  then have "?w * Suc (FLEX_TRIT_SIZE_243 e - Suc j) \<le> ?w * FLEX_TRIT_SIZE_243 e" by (rule mult_le_mono2)
  then have "?w * (FLEX_TRIT_SIZE_243 e - Suc j) + ?w < 256" using b by simp
  from null_trits_loop_correct [OF _ this, of "flex_unpack1 e (hash ! j)"] flex.unpack1_length [OF c]
  have "null_trits_loop (flex_unpack1 e (hash ! j)) ?w (?w * (FLEX_TRIT_SIZE_243 e - Suc j))
      = ?w * (FLEX_TRIT_SIZE_243 e - Suc j) + trailing_zeros (flex_unpack1 e (hash ! j))" by simp
  with trailing_zeros_cells [OF cells j z] j j0 lp h l show ?thesis
    by (simp add: transaction_weight_magnitude_def cell_to_trits [OF c])
qed

lemma null_cells_loop_null:
  "pos \<le> m \<Longrightarrow> fst (null_cells_loop e (replicate m (FLEX_TRIT_NULL_VALUE e)) pos n) = 255"
  by (induction pos arbitrary: n) simp_all

lemma hash_after_set: "transaction_hash (transaction_set_hash e tx hash) = Some (take (FLEX_TRIT_SIZE_243 e) hash)"
proof -
  have "(m OR MASK_CONSENSUS_HASH) AND MASK_CONSENSUS_HASH = MASK_CONSENSUS_HASH" for m
    by (rule bit_eqI) (auto simp: bit_simps)
  then show ?thesis
    by (simp add: transaction_hash_def transaction_set_hash_def load_consensus_def column_loaded_def)
      (simp add: mask_defs)
qed

section \<open>Properties\<close>

text \<open>
  Serialisation in every packing writes the 8019 trits of the transaction: the concatenation, in the
  protocol's order and sizes, of the trits of the arrays and of the balanced ternary digits of the numbers.
\<close>

theorem transaction_serialize_layout:
  assumes "transaction_ok e tx"
  shows "\<exists>trits. transaction_serialize_to_flex_trits e tx = (8019, trits) \<and> flex_ok e trits 8019
    \<and> flex_field e trits 8019 = concat (transaction_fields e tx)"
  using transaction_serialize_correct [OF assms] by (simp add: transaction_trits_def)

theorem transaction_serialize_layout_witness:
  "\<exists>trits. transaction_serialize_to_flex_trits ENC4 (transaction_reset ENC4) = (8019, trits)
    \<and> flex_field ENC4 trits 8019 = concat (transaction_fields ENC4 (transaction_reset ENC4))"
  using transaction_serialize_layout [OF transaction_canonical_ok [OF transaction_reset_canonical [of ENC4]]] by blast

text \<open>
  C5. Deserialising a serialised transaction, into any transaction object and in every packing, restores the
  essence, the attachment and the message, marks their columns as loaded, keeps the metadata and, when the
  hash is asked for, stores the Curl-P-81 digest of the serialised trits; the numbers have to fit their 27 trits.
\<close>

theorem transaction_survives_serialization:
  assumes "transaction_canonical e tx" and "arrays_sized e tx0"
  shows "\<exists>tx'. transaction_deserialize_from_trits e tx0 (snd (transaction_serialize_on_flex_trits e tx)) h = (8019, tx')
    \<and> essence tx' = essence tx \<and> attachment tx' = attachment tx \<and> data tx' = data tx \<and> metadata tx' = metadata tx0
    \<and> columns_loaded h tx0 tx'
    \<and> consensus tx' = (if h then \<lparr>tx_hash = flex_pack e (transaction_digest (transaction_trits e tx))\<rparr> else consensus tx0)"
proof -
  obtain trits where t: "transaction_serialize_to_flex_trits e tx = (8019, trits)" "flex_ok e trits 8019"
      "flex_field e trits 8019 = transaction_trits e tx"
    using transaction_serialize_correct [OF transaction_canonical_ok [OF assms(1)]] by blast
  obtain n tx' where "transaction_deserialize_trits e tx0 trits h = (n, tx')" by fastforce
  with transaction_deserialize_fields [OF t(2) assms(2), of h] transaction_of_trits [OF assms(1)] t show ?thesis
    by (simp add: transaction_deserialize_from_trits_def transaction_serialize_on_flex_trits_def)
qed

theorem transaction_survives_serialization_witness:
  "essence (snd (transaction_deserialize_from_trits ENC5 (transaction_reset ENC5)
      (snd (transaction_serialize_on_flex_trits ENC5 (transaction_set_value (transaction_reset ENC5) (- 42)))) True))
    = essence (transaction_set_value (transaction_reset ENC5) (- 42))"
proof -
  note r = transaction_reset_canonical [of ENC5]
  have "transaction_canonical ENC5 (transaction_set_value (transaction_reset ENC5) (- 42))"
    using r by (simp add: transaction_canonical_def all_arrays_def transaction_set_value_def load_essence_def int64_value_def)
  from transaction_survives_serialization [OF this transaction_ok_sized [OF transaction_canonical_ok [OF r]], of True]
  show ?thesis by auto
qed

text \<open>
  Serialising a deserialised transaction gives back the same 8019 trits, for all trits whose value field is
  within \<open>int64_t\<close>: nothing is lost or reordered, negative timestamps and indexes included.
\<close>

theorem trits_survive_deserialization:
  assumes "flex_ok e trits 8019" and "transaction_ok e tx0"
    and "INT64_MIN \<le> bt_value (slice 6804 81 (flex_field e trits 8019))"
    and "bt_value (slice 6804 81 (flex_field e trits 8019)) \<le> INT64_MAX"
  shows "\<exists>trits'. transaction_serialize_on_flex_trits e (snd (transaction_deserialize_from_trits e tx0 trits h)) = (8019, trits')
    \<and> flex_ok e trits' 8019 \<and> flex_field e trits' 8019 = flex_field e trits 8019"
proof -
  let ?ts = "flex_field e trits 8019" and ?tx = "snd (transaction_deserialize_trits e tx0 trits h)"
  note d = transaction_deserialize_fields [OF assms(1) transaction_ok_sized [OF assms(2)], of h]
  have v: "valid_trits ?ts" "length ?ts = 8019" using flex_field_valid flex_field_length assms(1) by blast+
  have p: "flex_ok e (flex_pack e (slice a n ?ts)) n" if "a + n \<le> 8019" for a n
    using flex_pack_canonical(1) [OF valid_trits_slice [OF v(1)]] v(2) that by (simp add: flex_canonical_def)
  have c: "length (transaction_digest ?ts) = 243" "valid_trits (transaction_digest ?ts)"
    using v curl_squeeze_ok(3,4) [OF curl_absorb_ok(1), of "\<lparr>state = replicate STATE_LENGTH 0, curl_type = CURL_P_81\<rparr>"]
    by (auto simp: transaction_digest_def curl_digest_def curl_ok_def HASH_LENGTH_TRIT_def)
  have "flex_ok e (tx_hash (consensus ?tx)) 243"
    using flex_pack_canonical(1) [OF c(2,1)] d(7) assms(2)
    by (auto simp: flex_canonical_def transaction_ok_def all_arrays_def)
  then have "all_arrays (flex_ok e) ?tx"
    by (simp add: all_arrays_def d(2,3,4) essence_of_def attachment_of_def p del: slice_0)
  moreover have "int64_value ?tx"
    using wrap64_range by (simp add: int64_value_def d(2) essence_of_def)
  ultimately have ok: "transaction_ok e ?tx" by (simp add: transaction_ok_def)
  have "transaction_trits e ?tx = ?ts"
    by (rule transaction_fields_of_slices [OF v assms(3,4) d(2,3,4)])
  with transaction_serialize_correct [OF ok] show ?thesis
    by (simp add: transaction_deserialize_from_trits_def transaction_serialize_on_flex_trits_def)
qed

theorem trits_survive_deserialization_witness:
  "\<exists>trits'. transaction_serialize_on_flex_trits ENC5 (snd (transaction_deserialize_from_trits ENC5
      (transaction_reset ENC5) (replicate 1300 1 @ replicate 304 0) False)) = (8019, trits')
    \<and> flex_field ENC5 trits' 8019 = flex_field ENC5 (replicate 1300 1 @ replicate 304 0) 8019"
proof -
  let ?cs = "replicate 1300 1 @ replicate 304 0 :: int list"
  have c: "flex_cell_ok ENC5 1" "flex_cell_ok ENC5 0" by code_simp+
  have ok: "flex_ok ENC5 ?cs 8019" using c by (auto simp: flex_ok_def list_all_iff NUM_FLEX_TRITS_FOR_TRITS_def)
  have "length (flex_abs ENC5 (replicate 1300 1)) = 6500"
    using c flex.unpack_length [of ENC5 "replicate 1300 1"]
    by (simp add: flex_abs_def list_all_iff NUM_TRITS_PER_FLEX_TRIT_def)
  moreover have "flex_abs ENC5 ?cs = flex_abs ENC5 (replicate 1300 1) @ replicate 1520 0"
    using flex_abs_null [of ENC5 304] by (simp add: flex_abs_def FLEX_TRIT_NULL_VALUE_def NUM_TRITS_PER_FLEX_TRIT_def)
  ultimately have "bt_value (slice 6804 81 (flex_field ENC5 ?cs 8019)) = 0"
    by (simp add: flex_field_def slice_def)
  then show ?thesis
    using trits_survive_deserialization [OF ok transaction_canonical_ok [OF transaction_reset_canonical [of ENC5]], of False]
    by auto
qed



text \<open>
  The weight magnitude is undefined for a null hash (the 8-bit index wraps to 255, outside the array), and with four
  trits per byte the padding trit of the last cell is counted: a hash that ends with a non-null trit has magnitude 1.
\<close>

theorem weight_magnitude_edge_cases:
  "transaction_weight_magnitude e (transaction_set_hash e (transaction_reset e) (tx_hash (consensus (transaction_reset e)))) = None
    \<and> transaction_weight_magnitude ENC4 (transaction_set_hash ENC4 (transaction_reset ENC4) (replicate 60 0 @ [16])) = Some 1"
proof
  let ?h = "replicate (FLEX_TRIT_SIZE_243 e) (FLEX_TRIT_NULL_VALUE e)"
  have "fst (null_cells_loop e ?h (FLEX_TRIT_SIZE_243 e) 0) = 255" by (rule null_cells_loop_null) simp
  then obtain m where "null_cells_loop e ?h (FLEX_TRIT_SIZE_243 e) 0 = (255, m)" by (metis prod.collapse)
  moreover have "FLEX_TRIT_SIZE_243 e \<le> 255" by (cases e) (simp_all add: FLEX_TRIT_SIZE_243_def)
  ultimately show "transaction_weight_magnitude e
      (transaction_set_hash e (transaction_reset e) (tx_hash (consensus (transaction_reset e)))) = None"
    by (simp add: transaction_weight_magnitude_def hash_after_set transaction_reset_def Let_def)
next
  let ?g = "replicate 60 0 @ [16] :: int list"
  have c: "flex_cell_ok ENC4 0" "flex_cell_ok ENC4 16" by code_simp+
  have ok: "flex_ok ENC4 ?g 243" using c by (auto simp: flex_ok_def list_all_iff NUM_FLEX_TRITS_FOR_TRITS_def)
  have nz: "?g ! 60 \<noteq> FLEX_TRIT_NULL_VALUE ENC4" by (simp add: nth_append FLEX_TRIT_NULL_VALUE_def)
  have h: "transaction_hash (transaction_set_hash ENC4 (transaction_reset ENC4) ?g) = Some ?g"
    by (simp add: hash_after_set FLEX_TRIT_SIZE_243_def)
  have "flex_unpack1 ENC4 16 = [0, 0, 1, 0]" by code_simp
  then have "trailing_zeros (flex_abs ENC4 ?g) = 1"
    by (simp add: flex_abs_def trailing_zeros_append) (simp add: trailing_zeros_def)
  with transaction_weight_magnitude_correct [OF h ok _ _ nz]
  show "transaction_weight_magnitude ENC4 (transaction_set_hash ENC4 (transaction_reset ENC4) ?g) = Some 1" by simp
qed

end
