(* ===== verification/Flex_Convert.thy ===== *)
theory Flex_Convert
  imports Prelude Cell_Codec Trit_Tryte Trit_Byte Flex_Trit
begin

text \<open>
  The second half of \<open>common/trinary/flex_trit.c\<close>: conversions between packed trits and trytes or bytes. Where the
  packing and the target have different widths, the code moves the trits through a shifter, a union of a
  64-bit integer and eight trits; shifting the integer by whole bytes drops trits at the front and fills
  zeros at the back, on machines of either byte order.
\<close>

section \<open>Definitions\<close>

definition shift_out :: "nat \<Rightarrow> trit list \<Rightarrow> trit list" where
  "shift_out n shifter = drop n shifter @ replicate n 0"

text \<open>One call of \<open>flex_trits_to_trits\<close> for the cell \<open>c\<close>, into the shifter at \<open>offset\<close>.\<close>

definition shift_in_cell :: "flex_enc \<Rightarrow> trit list \<Rightarrow> nat \<Rightarrow> nat \<Rightarrow> flex_trit \<Rightarrow> trit list" where
  "shift_in_cell e shifter offset m c = blit shifter offset (snd (flex_trits_to_trits e (slice offset m shifter) m [c] m m))"

function to_trytes_loop :: "flex_enc \<Rightarrow> flex_trit list \<Rightarrow> nat \<Rightarrow> trit list \<Rightarrow> nat \<Rightarrow> nat \<Rightarrow> tryte list" where
  "to_trytes_loop e flex_trits i shifter offset trits_counter =
     (if trits_counter = 0 \<and> offset = 0 then []
      else let max_trits = (if offset < 3 then min (NUM_TRITS_PER_FLEX_TRIT e) trits_counter else 0);
               shifter = (if offset < 3 then shift_in_cell e shifter offset max_trits (flex_trits ! i) else shifter);
               i = (if offset < 3 then i + 1 else i);
               offset = offset + max_trits;
               trits_for_tryte = min 3 offset
           in trits_to_tryte (take trits_for_tryte shifter)
                # to_trytes_loop e flex_trits i (shift_out 3 shifter) (offset - trits_for_tryte) (trits_counter - max_trits))"
  by pat_completeness (auto simp only: prod.inject)
termination
proof (relation "measure (\<lambda>(e, fs, i, sh, off, cnt). off + cnt)", goal_cases)
  case (2 e fs i sh off cnt m sh' i' off' n)
  have "0 < NUM_TRITS_PER_FLEX_TRIT e" by (cases e) (simp_all add: NUM_TRITS_PER_FLEX_TRIT_def)
  then have "0 < off + m" "m \<le> cnt" using 2(1,2) by (auto split: if_splits)
  then have "off' - n + (cnt - m) < off + cnt" using 2(5,6) by arith
  then show ?case by simp
qed simp

declare to_trytes_loop.simps [simp del]

definition flex_trits_to_trytes ::
  "flex_enc \<Rightarrow> tryte list \<Rightarrow> nat \<Rightarrow> flex_trit list \<Rightarrow> nat \<Rightarrow> nat \<Rightarrow> nat \<times> tryte list"
where
  "flex_trits_to_trytes e trytes to_len flex_trits len num_trits =
     (if num_trits > len \<or> num_trits > to_len * 3 then (0, trytes)
      else let trytes = blit trytes 0 (replicate to_len 57)
           in (num_trits,
               case e of
                 ENC1 \<Rightarrow> blit trytes 0 (trits_to_trytes (take num_trits flex_trits))
               | ENC3 \<Rightarrow>
                   (let residual = num_trits mod 3;
                        num_bytes = NUM_FLEX_TRITS_FOR_TRITS e num_trits;
                        num_bytes' = (if residual \<noteq> 0 then num_bytes - 1 else num_bytes);
                        trytes = (if residual \<noteq> 0
                                  then trytes[num_bytes' := trits_to_tryte (take residual (trytes_to_trits [flex_trits ! num_bytes']))]
                                  else trytes)
                    in blit trytes 0 (take num_bytes' flex_trits))
               | _ \<Rightarrow> blit trytes 0 (to_trytes_loop e flex_trits 0 (replicate 8 0) 0 num_trits)))"

text \<open>\<open>trytes\<close> is what is left of the input; the cell that is written has been cleared before.\<close>

function from_trytes_loop :: "flex_enc \<Rightarrow> tryte list \<Rightarrow> trit list \<Rightarrow> nat \<Rightarrow> flex_trit list" where
  "from_trytes_loop e trytes shifter offset =
     (if trytes = [] \<and> offset = 0 then []
      else let n1 = (if trytes = [] then 0 else if offset + 3 < NUM_TRITS_PER_FLEX_TRIT e \<and> length trytes > 1 then 2 else 1);
               shifter = (if n1 > 0 then blit shifter offset (trytes_to_trits [hd trytes]) else shifter);
               shifter = (if n1 > 1 then blit shifter (offset + 3) (trytes_to_trits [trytes ! 1]) else shifter);
               offset = offset + 3 * n1;
               num_trits = min (NUM_TRITS_PER_FLEX_TRIT e) offset
           in snd (flex_trits_from_trits e [FLEX_TRIT_NULL_VALUE e] num_trits (take num_trits shifter) num_trits num_trits)
                @ from_trytes_loop e (drop n1 trytes) (shift_out num_trits shifter) (offset - num_trits))"
  by pat_completeness (auto simp only: prod.inject)
termination
proof (relation "measure (\<lambda>(e, ts, sh, off). off + 4 * length ts)", goal_cases)
  case (2 e ts sh off n1 sh1 sh2 off' n)
  have w: "0 < NUM_TRITS_PER_FLEX_TRIT e" by (cases e) (simp_all add: NUM_TRITS_PER_FLEX_TRIT_def)
  show ?case
  proof (cases "ts = []")
    case True
    then have "n1 = 0" "0 < off" using 2(1,2) by auto
    with 2(5,6) w have "off' - n < off" by simp
    with True show ?thesis by simp
  next
    case False
    then have "0 < n1" "n1 \<le> length ts" using 2(2) by (auto simp: Suc_le_eq)
    then have "off' - n + 4 * (length ts - n1) < off + 4 * length ts" using 2(5) by arith
    then show ?thesis by simp
  qed
qed simp

declare from_trytes_loop.simps [simp del]

definition flex_trits_from_trytes ::
  "flex_enc \<Rightarrow> flex_trit list \<Rightarrow> nat \<Rightarrow> tryte list \<Rightarrow> nat \<Rightarrow> nat \<Rightarrow> nat \<times> flex_trit list"
where
  "flex_trits_from_trytes e to_flex_trits to_len trytes len num_trytes =
     (if num_trytes > len \<or> num_trytes * 3 > to_len then (0, to_flex_trits)
      else let to_flex_trits = flex_clear e to_flex_trits to_len
           in (num_trytes,
               case e of
                 ENC1 \<Rightarrow> blit to_flex_trits 0 (trytes_to_trits (take num_trytes trytes))
               | ENC3 \<Rightarrow> blit to_flex_trits 0 (take num_trytes trytes)
               | _ \<Rightarrow> blit to_flex_trits 0 (from_trytes_loop e (take num_trytes trytes) (replicate 8 0) 0)))"

text \<open>
  The loop to bytes stops when the last trits have been read, also when some of them are still in the shifter;
  the offset may then have wrapped, but it is not used any more.
\<close>

function to_bytes_loop :: "flex_enc \<Rightarrow> flex_trit list \<Rightarrow> nat \<Rightarrow> trit list \<Rightarrow> nat \<Rightarrow> nat \<Rightarrow> byte list" where
  "to_bytes_loop e flex_trits i shifter offset trits_counter =
     (if trits_counter = 0 then []
      else let m1 = min (NUM_TRITS_PER_FLEX_TRIT e) trits_counter;
               shifter = shift_in_cell e shifter offset m1 (flex_trits ! i);
               trits_counter = trits_counter - m1;
               offset = offset + m1;
               again = (offset < 5 \<and> trits_counter \<noteq> 0);
               m2 = (if again then min (NUM_TRITS_PER_FLEX_TRIT e) trits_counter else 0);
               shifter = (if again then shift_in_cell e shifter offset m2 (flex_trits ! (i + 1)) else shifter);
               trits_counter = trits_counter - m2;
               offset = offset + m2;
               trits_for_byte = min 5 offset
           in trits_to_byte (take trits_for_byte shifter)
                # to_bytes_loop e flex_trits (if again then i + 2 else i + 1) (shift_out 5 shifter) (offset - 5) trits_counter)"
  by pat_completeness (auto simp only: prod.inject)
termination
proof (relation "measure (\<lambda>(e, fs, i, sh, off, cnt). cnt)", goal_cases)
  case (2 e fs i sh off cnt m1 sh1 cnt1 off1 again m2 sh2 cnt2 off2 n)
  have "0 < NUM_TRITS_PER_FLEX_TRIT e" by (cases e) (simp_all add: NUM_TRITS_PER_FLEX_TRIT_def)
  then have "0 < m1" "m1 \<le> cnt" using 2(1,2) by simp_all
  then have "cnt2 < cnt" using 2(4,9) by simp
  then show ?case by simp
qed simp

declare to_bytes_loop.simps [simp del]

definition flex_trits_to_bytes ::
  "flex_enc \<Rightarrow> byte list \<Rightarrow> nat \<Rightarrow> flex_trit list \<Rightarrow> nat \<Rightarrow> nat \<Rightarrow> nat \<times> byte list"
where
  "flex_trits_to_bytes e bytes to_len flex_trits len num_trits =
     (if num_trits > len \<or> num_trits > to_len then (0, bytes)
      else let bytes = blit bytes 0 (replicate (MIN_BYTES to_len) 0)
           in (num_trits,
               case e of
                 ENC1 \<Rightarrow> blit bytes 0 (trits_to_bytes (take num_trits flex_trits))
               | ENC5 \<Rightarrow>
                   (let residual = num_trits mod 5;
                        num_bytes = (if residual \<noteq> 0 then MIN_BYTES num_trits - 1 else MIN_BYTES num_trits);
                        bytes = (if residual \<noteq> 0
                                 then bytes[num_bytes := trits_to_byte (take residual (byte_to_trits (flex_trits ! num_bytes) 5))]
                                 else bytes)
                    in blit bytes 0 (take num_bytes flex_trits))
               | _ \<Rightarrow> blit bytes 0 (to_bytes_loop e flex_trits 0 (replicate 8 0) 0 num_trits)))"

function from_bytes_loop ::
  "flex_enc \<Rightarrow> flex_trit list \<Rightarrow> byte list \<Rightarrow> nat \<Rightarrow> nat \<Rightarrow> trit list \<Rightarrow> nat \<Rightarrow> nat \<Rightarrow> flex_trit list"
where
  "from_bytes_loop e to_flex_trits bytes i j shifter offset trits_counter =
     (if trits_counter = 0 then to_flex_trits
      else let max_trits = min 5 trits_counter;
               more = (offset < NUM_TRITS_PER_FLEX_TRIT e \<and> offset < trits_counter);
               shifter = (if more then blit shifter offset (byte_to_trits (bytes ! i) max_trits) else shifter);
               offset = (if more then offset + max_trits else offset);
               i = (if more then i + 1 else i);
               trits_for_byte = min max_trits (NUM_TRITS_PER_FLEX_TRIT e);
               to_flex_trits = take j to_flex_trits
                 @ snd (flex_trits_from_trits e (drop j to_flex_trits) trits_counter (take trits_for_byte shifter) trits_for_byte
                          trits_for_byte)
           in from_bytes_loop e to_flex_trits bytes i (j + 1) (shift_out trits_for_byte shifter) (offset - trits_for_byte)
                (trits_counter - trits_for_byte))"
  by pat_completeness (auto simp only: prod.inject)
termination
proof (relation "measure (\<lambda>(e, fs, bs, i, j, sh, off, cnt). cnt)", goal_cases)
  case (2 e fs bs i j sh off cnt m more sh1 off1 i1 n fs1)
  have "0 < NUM_TRITS_PER_FLEX_TRIT e" by (cases e) (simp_all add: NUM_TRITS_PER_FLEX_TRIT_def)
  then have "cnt - n < cnt" using 2(1,2,7) by simp
  then show ?case by simp
qed simp

declare from_bytes_loop.simps [simp del]

definition flex_trits_from_bytes ::
  "flex_enc \<Rightarrow> flex_trit list \<Rightarrow> nat \<Rightarrow> byte list \<Rightarrow> nat \<Rightarrow> nat \<Rightarrow> nat \<times> flex_trit list"
where
  "flex_trits_from_bytes e to_flex_trits to_len bytes len num_trits =
     (if num_trits > len \<or> num_trits > to_len then (0, to_flex_trits)
      else let to_flex_trits = flex_clear e to_flex_trits to_len
           in (num_trits,
               case e of
                 ENC1 \<Rightarrow> blit to_flex_trits 0 (bytes_to_trits (take (MIN_BYTES num_trits) bytes) num_trits)
               | ENC5 \<Rightarrow>
                   (let residual = num_trits mod 5;
                        num_bytes = (if residual \<noteq> 0 then MIN_BYTES num_trits - 1 else MIN_BYTES num_trits);
                        to_flex_trits = (if residual \<noteq> 0
                          then to_flex_trits[num_bytes := trits_to_byte (take residual (byte_to_trits (bytes ! num_bytes) 5))]
                          else to_flex_trits)
                    in blit to_flex_trits 0 (take num_bytes bytes))
               | _ \<Rightarrow> from_bytes_loop e to_flex_trits bytes 0 0 (replicate 8 0) 0 num_trits))"

section \<open>The shifter\<close>

lemma shift_out_length: "n \<le> length sh \<Longrightarrow> length (shift_out n sh) = length sh"
  by (simp add: shift_out_def)

lemma take_shift_out: "n \<le> off \<Longrightarrow> off \<le> length sh \<Longrightarrow> take (off - n) (shift_out n sh) = drop n (take off sh)"
  by (simp add: shift_out_def take_drop)

text \<open>Unpacking the first trits of one cell; packing at most one cell.\<close>

lemma read_cell:
  assumes "flex_cell_ok e c" "e \<noteq> ENC3" "m \<le> NUM_TRITS_PER_FLEX_TRIT e" "length buf = m"
  shows "snd (flex_trits_to_trits e buf m [c] m m) = take m (flex_unpack1 e c)"
proof (cases "m = 0")
  case True
  with assms(4) show ?thesis by (simp add: flex_trits_to_trits_def)
next
  case False
  then have "NUM_FLEX_TRITS_FOR_TRITS e m = 1" using assms(3) by (simp add: NUM_FLEX_TRITS_cells num_cells_small)
  then have ok: "flex_ok e [c] m" using assms(1) by (simp add: flex_ok_def)
  have "flex_abs e [c] = flex_unpack1 e c" by (simp add: flex_abs_def)
  with flex_trits_to_trits_abs [OF ok, of m buf] False assms(2,4) show ?thesis by auto
qed

lemma write_cell:
  assumes "valid_trits ts" "length ts = n" "0 < n" "n \<le> NUM_TRITS_PER_FLEX_TRIT e"
  shows "snd (flex_trits_from_trits e [c] n ts n n) = [flex_pack1 e ts]"
proof -
  have nf: "NUM_FLEX_TRITS_FOR_TRITS e n = 1" using assms(3,4) by (simp add: NUM_FLEX_TRITS_cells num_cells_small)
  then obtain dst where d: "flex_trits_from_trits e [c] n ts n n = (n, dst)" "flex_ok e dst n"
      "flex_abs e dst = ts @ replicate (NUM_TRITS_PER_FLEX_TRIT e - n) 0"
    using flex_trits_from_trits_abs [of "[c]" e n ts n] assms by auto
  from d(2) nf obtain c' where c': "dst = [c']" "flex_cell_ok e c'" by (auto simp: flex_ok_def length_Suc_conv)
  have "flex_unpack1 e c' = flex_unpack1 e (flex_pack1 e ts)"
    using d(3) c'(1) flex.unpack1_pack1 [OF assms(1)] assms(2,4) by (simp add: flex_abs_def)
  then have "flex_pack1 e (flex_unpack1 e c') = flex_pack1 e (flex_unpack1 e (flex_pack1 e ts))" by simp
  then have "c' = flex_pack1 e ts"
    using flex.pack1_unpack1 [OF c'(2)] flex.pack1_unpack1 [OF flex.pack1_ok [OF assms(1)]] assms(2,4) by simp
  then show ?thesis using d(1) c'(1) by simp
qed

lemma shift_in_cell_take:
  assumes "flex_cell_ok e c" "e \<noteq> ENC3" "m \<le> NUM_TRITS_PER_FLEX_TRIT e" "off + m \<le> length sh"
  shows "length (shift_in_cell e sh off m c) = length sh"
    "take (off + m) (shift_in_cell e sh off m c) = take off sh @ take m (flex_unpack1 e c)"
proof -
  have r: "snd (flex_trits_to_trits e (slice off m sh) m [c] m m) = take m (flex_unpack1 e c)"
    using assms by (intro read_cell) simp_all
  have l: "length (take m (flex_unpack1 e c)) = m" using flex.unpack1_length [OF assms(1)] assms(3) by simp
  show "length (shift_in_cell e sh off m c) = length sh" unfolding shift_in_cell_def r using l assms(4) by simp
  show "take (off + m) (shift_in_cell e sh off m c) = take off sh @ take m (flex_unpack1 e c)"
    unfolding shift_in_cell_def r blit_def using l assms(4) by simp
qed

section \<open>Trytes\<close>

lemma flex_abs_drop_cell: "flex_abs e (drop i cs) = flex_unpack1 e (cs ! i) @ flex_abs e (drop (Suc i) cs)" if "i < length cs"
  using that by (simp add: flex_abs_def Cons_nth_drop_Suc [symmetric])

lemma trits_to_trytes_step:
  assumes "3 \<le> length p \<or> r = []" "p \<noteq> []"
  shows "trits_to_trytes (p @ r) = trits_to_tryte (take 3 p) # trits_to_trytes (drop 3 p @ r)"
proof -
  have "trits_to_trytes (p @ r) = trits_to_tryte (take 3 (p @ r)) # trits_to_trytes (drop 3 (p @ r))"
    using assms(2) by (cases "p @ r") (auto simp: trits_to_trytes.simps)
  with assms(1) show ?thesis by auto
qed

lemma to_trytes_loop_correct:
  assumes "e = ENC4 \<or> e = ENC5" "list_all (flex_cell_ok e) cs" "length sh = 8" "off \<le> 4"
    and "cnt \<le> NUM_TRITS_PER_FLEX_TRIT e * (length cs - i)"
  shows "to_trytes_loop e cs i sh off cnt = trits_to_trytes (take off sh @ take cnt (flex_abs e (drop i cs)))"
  using assms(3-5)
proof (induction "off + cnt" arbitrary: i sh off cnt rule: less_induct)
  case less
  let ?w = "NUM_TRITS_PER_FLEX_TRIT e"
  have w: "4 \<le> ?w" "?w \<le> 5" "e \<noteq> ENC3" using assms(1) by (auto simp: NUM_TRITS_PER_FLEX_TRIT_def)
  show ?case
  proof (cases "cnt = 0 \<and> off = 0")
    case True
    then show ?thesis by (simp add: to_trytes_loop.simps)
  next
    case nz: False
    define m where "m = (if off < 3 then min ?w cnt else 0)"
    define sh' where "sh' = (if off < 3 then shift_in_cell e sh off m (cs ! i) else sh)"
    define i' where "i' = (if off < 3 then i + 1 else i)"
    let ?n = "min 3 (off + m)"
    let ?R = "take (cnt - m) (flex_abs e (drop i' cs))"
    have st: "to_trytes_loop e cs i sh off cnt = trits_to_tryte (take ?n sh')
        # to_trytes_loop e cs i' (shift_out 3 sh') (off + m - ?n) (cnt - m)"
      using nz by (subst to_trytes_loop.simps) (simp add: Let_def m_def sh'_def i'_def)
    have r: "length sh' = 8" "take off sh @ take cnt (flex_abs e (drop i cs)) = take (off + m) sh' @ ?R"
        "3 \<le> off + m \<or> ?R = []" "off + m \<le> 7" "cnt - m \<le> ?w * (length cs - i')" "0 < off + m"
    proof (atomize (full), cases "off < 3 \<and> 0 < cnt", goal_cases)
      case 1
      then have i: "i < length cs" using less.prems(3) by (cases "i < length cs") auto
      have c: "flex_cell_ok e (cs ! i)" using assms(2) i by (simp add: list_all_length)
      have m: "m = min ?w cnt" "m \<le> ?w" "off + m \<le> length sh" using 1 w less.prems by (auto simp: m_def)
      note t = shift_in_cell_take [OF c w(3) m(2,3)]
      have lu: "length (flex_unpack1 e (cs ! i)) = ?w" by (rule flex.unpack1_length [OF c])
      have e: "take cnt (flex_abs e (drop i cs)) = take m (flex_unpack1 e (cs ! i)) @ take (cnt - m) (flex_abs e (drop (i + 1) cs))"
        unfolding flex_abs_drop_cell [OF i] using lu m(1) by (cases "cnt \<le> ?w") simp_all
      have "length cs - i = Suc (length cs - (i + 1))" using i by simp
      then have b: "cnt \<le> ?w + ?w * (length cs - (i + 1))" using less.prems(3) by simp
      have "3 \<le> off + m \<or> cnt - m = 0" "off + m \<le> 7" "0 < off + m" "cnt - m \<le> ?w * (length cs - (i + 1))"
        using 1 w m(1) b by (auto simp: min_def)
      with t e less.prems(1) 1 show ?case by (auto simp: sh'_def i'_def)
    next
      case 2
      then have m: "m = 0" by (auto simp: m_def)
      have "sh' = sh" if "off < 3"
      proof -
        have "snd (flex_trits_to_trits e (slice off 0 sh) 0 [cs ! i] 0 0) = []" by (simp add: flex_trits_to_trits_def slice_def)
        then show ?thesis using that by (simp add: sh'_def shift_in_cell_def m blit_def)
      qed
      then have "sh' = sh" by (auto simp: sh'_def)
      moreover have "cnt = 0 \<or> i' = i" using 2 by (auto simp: i'_def)
      moreover have "3 \<le> off \<or> cnt = 0" "0 < off" using 2 nz by auto
      ultimately show ?case using less.prems m by auto
    qed
    have p: "take (off + m) sh' \<noteq> []" "3 \<le> length (take (off + m) sh') \<or> ?R = []" using r(1,3,4,6) by auto
    have "take 3 (take (off + m) sh') = take ?n sh'" by (simp add: min.commute)
    moreover have "take (off + m - ?n) (shift_out 3 sh') = drop 3 (take (off + m) sh')"
    proof (cases "3 \<le> off + m")
      case True
      then show ?thesis using take_shift_out [of 3 "off + m" sh'] r(1,4) by simp
    qed simp
    moreover have "to_trytes_loop e cs i' (shift_out 3 sh') (off + m - ?n) (cnt - m)
        = trits_to_trytes (take (off + m - ?n) (shift_out 3 sh') @ ?R)"
      using nz r by (intro less.hyps) (auto simp: shift_out_length m_def)
    ultimately show ?thesis unfolding st r(2) using trits_to_trytes_step [OF p(2,1)] by simp
  qed
qed

lemma enc3_codec: "flex_pack1 ENC3 = trits_to_tryte" "flex_unpack1 ENC3 = (\<lambda>c. trytes_to_trits [c])"
  by (simp_all add: fun_eq_iff flex_pack1_def flex_unpack1_def)

lemma blit_take_update:
  assumes "length xs = k" "k < length ys"
  shows "blit (ys[k := c]) 0 xs = blit ys 0 (xs @ [c])"
  using assms by (simp add: blit_def upd_conv_take_nth_drop)

lemma flex_trits_to_trytes_eq:
  assumes ok: "flex_ok e cs len" and num: "num \<le> len" "num \<le> to_len * 3" and l: "length trytes = to_len"
  shows "flex_trits_to_trytes e trytes to_len cs len num
    = (num, blit (replicate to_len 57) 0 (trits_to_trytes (take num (flex_abs e cs))))"
proof -
  have c: "blit trytes 0 (replicate to_len 57) = replicate to_len 57" using l by (simp add: blit_0_all)
  have g: "\<not> (num > len \<or> num > to_len * 3)" using num by auto
  have cells: "list_all (flex_cell_ok e) cs" "length cs = NUM_FLEX_TRITS_FOR_TRITS e len" using ok by (simp_all add: flex_ok_def)
  have room: "num \<le> NUM_TRITS_PER_FLEX_TRIT e * length cs" using flex_abs_length_ge [OF ok] flex_abs_length [OF ok] cells num by simp
  consider "e = ENC1" | "e = ENC3" | "e = ENC4 \<or> e = ENC5" by (cases e) auto
  then show ?thesis
  proof cases
    case 1
    then show ?thesis using g c by (simp add: flex_trits_to_trytes_def enc1_identity)
  next
    case 2
    have w: "NUM_TRITS_PER_FLEX_TRIT ENC3 = 3" by (simp add: NUM_TRITS_PER_FLEX_TRIT_def)
    have n3: "NUM_FLEX_TRITS_FOR_TRITS ENC3 num = num div 3 + (if num mod 3 = 0 then 0 else 1)"
      unfolding NUM_FLEX_TRITS_FOR_TRITS_def by simp presburger
    have p: "trits_to_trytes (take num (flex_abs ENC3 cs)) = take (num div 3) cs
        @ (if num mod 3 = 0 then [] else [trits_to_tryte (take (num mod 3) (trytes_to_trits [cs ! (num div 3)]))])"
      using flex.pack_take [of ENC3 cs num, OF cells(1) [unfolded 2] room [unfolded 2]]
      unfolding enc3_codec trits_to_trytes_pack flex_abs_def w .
    have k: "num div 3 \<le> length cs" using room 2 w by simp
    show ?thesis
    proof (cases "num mod 3 = 0")
      case True
      then show ?thesis using g c p n3 2 by (simp add: flex_trits_to_trytes_def Let_def)
    next
      case False
      then have "num div 3 < to_len" using num(2) by presburger
      with False g c p n3 2 k show ?thesis
        by (simp add: flex_trits_to_trytes_def Let_def blit_take_update del: trytes_to_trits.simps)
    qed
  next
    case 3
    have "to_trytes_loop e cs 0 (replicate 8 0) 0 num = trits_to_trytes (take num (flex_abs e cs))"
      using to_trytes_loop_correct [OF 3 cells(1), of "replicate 8 0" 0 num 0] room by simp
    with 3 g c show ?thesis by (auto simp: flex_trits_to_trytes_def)
  qed
qed

text \<open>From trytes: the pending trits and the trits of the trytes that are left are packed.\<close>

lemma pack_cells_step:
  assumes "w \<le> length p \<or> r = []" "p \<noteq> []" "0 < w"
  shows "pack_cells w f (p @ r) = f (take (min w (length p)) p) # pack_cells w f (drop (min w (length p)) p @ r)"
  using assms pack_cells.simps [of w f "p @ r"] by (auto simp: min_def)

lemma tryte_trits: "valid_tryte t \<Longrightarrow> length (trytes_to_trits [t]) = 3 \<and> valid_trits (trytes_to_trits [t])"
  using trytes_to_trits_length [of "[t]"] trytes_to_trits_valid [of "[t]"] by simp

lemma trytes_to_trits_append: "trytes_to_trits (xs @ ys) = trytes_to_trits xs @ trytes_to_trits ys"
  by (induction xs) simp_all

lemma take_blit: "off \<le> length sh \<Longrightarrow> take (off + length xs) (blit sh off xs) = take off sh @ xs"
  by (simp add: blit_def)

lemma from_trytes_loop_correct:
  assumes "e = ENC4 \<or> e = ENC5" "valid_trytes ts" "length sh = 8" "off \<le> 2" "valid_trits (take off sh)"
  shows "from_trytes_loop e ts sh off
    = pack_cells (NUM_TRITS_PER_FLEX_TRIT e) (flex_pack1 e) (take off sh @ trytes_to_trits ts)"
  using assms(2-5)
proof (induction "off + 4 * length ts" arbitrary: ts sh off rule: less_induct)
  case less
  let ?w = "NUM_TRITS_PER_FLEX_TRIT e"
  have w: "4 \<le> ?w" "?w \<le> 5" using assms(1) by (auto simp: NUM_TRITS_PER_FLEX_TRIT_def)
  show ?case
  proof (cases "ts = [] \<and> off = 0")
    case True
    then show ?thesis by (simp add: from_trytes_loop.simps)
  next
    case nz: False
    define k where "k = (if ts = [] then 0 else if off + 3 < ?w \<and> length ts > 1 then 2 else 1 :: nat)"
    define sh1 where "sh1 = (if k > 0 then blit sh off (trytes_to_trits [hd ts]) else sh)"
    define sh2 where "sh2 = (if k > 1 then blit sh1 (off + 3) (trytes_to_trits [ts ! 1]) else sh1)"
    let ?o = "off + 3 * k" let ?n = "min ?w (off + 3 * k)"
    let ?R = "trytes_to_trits (drop k ts)"
    have st: "from_trytes_loop e ts sh off =
        snd (flex_trits_from_trits e [FLEX_TRIT_NULL_VALUE e] ?n (take ?n sh2) ?n ?n)
          @ from_trytes_loop e (drop k ts) (shift_out ?n sh2) (?o - ?n)"
      unfolding from_trytes_loop.simps [of e ts sh off] Let_def k_def [symmetric] sh1_def [symmetric] sh2_def [symmetric]
      by (rule if_not_P [OF nz])
    have k: "k \<le> length ts" "?o \<le> 8" "0 < ?o" "?w \<le> ?o \<or> drop k ts = []" "?o - ?w \<le> 2"
    proof -
      have a: "k \<le> length ts" "k \<le> 2" by (auto simp: k_def Suc_le_eq)
      have b: "ts = [] \<and> k = 0 \<or> k = 1 \<and> length ts = 1 \<or> k = 1 \<and> ?w \<le> off + 3 \<or> k = 2 \<and> off + 3 < ?w"
        by (cases ts; cases "tl ts"; simp add: k_def)
      show "k \<le> length ts" by (rule a)
      show "?o \<le> 8" using a(2) less.prems(3) by linarith
      show "?o - ?w \<le> 2" using b less.prems(3) w by (elim disjE) auto
      show "0 < ?o" using nz b by auto
      show "?w \<le> ?o \<or> drop k ts = []" using b w by auto
    qed
    have r: "length sh2 = 8" "take ?o sh2 = take off sh @ trytes_to_trits (take k ts)"
    proof (atomize (full), cases "k = 0", goal_cases)
      case 1
      then show ?case using less.prems by (simp add: sh1_def sh2_def)
    next
      case 2
      then obtain t ts' where ts: "ts = t # ts'" using k(1) by (cases ts) auto
      have t3: "length (trytes_to_trits [t]) = 3" using less.prems(1) tryte_trits ts by simp
      have s1: "length sh1 = 8" "take (off + 3) sh1 = take off sh @ trytes_to_trits [t]"
        using 2 ts t3 less.prems take_blit [of off sh "trytes_to_trits [t]"] by (simp_all add: sh1_def del: trytes_to_trits.simps)
      show ?case
      proof (cases "k = 1")
        case True
        then show ?thesis using s1 ts by (simp add: sh2_def del: trytes_to_trits.simps)
      next
        case False
        with 2 have k2: "k = 2" by (simp add: k_def split: if_splits)
        then obtain u us where ts': "ts' = u # us" using k(1) ts by (cases ts') auto
        have u3: "length (trytes_to_trits [u]) = 3" using less.prems(1) tryte_trits ts ts' by simp
        have tk: "trytes_to_trits (take k ts) = trytes_to_trits [t] @ trytes_to_trits [u]"
          by (simp add: k2 ts ts' numeral_2_eq_2)
        have "length sh2 = 8" "take (off + 3 + 3) sh2 = take (off + 3) sh1 @ trytes_to_trits [u]"
          using k2 ts ts' u3 s1(1) k(2) take_blit [of "off + 3" sh1 "trytes_to_trits [u]"]
          by (simp_all add: sh2_def del: trytes_to_trits.simps)
        with s1 tk k2 show ?thesis by (simp del: trytes_to_trits.simps add: add.assoc)
      qed
    qed
    let ?P = "take ?o sh2"
    have vt: "valid_trytes (take k ts)" "valid_trytes (drop k ts)"
      using less.prems(1) by (auto simp: list_all_iff dest: in_set_takeD in_set_dropD)
    have P: "length ?P = ?o" "valid_trits ?P" using r(1) k(2) less.prems(4) vt(1) by (simp, simp add: r(2))
    have all: "take off sh @ trytes_to_trits ts = ?P @ ?R"
      using trytes_to_trits_append [of "take k ts" "drop k ts"] by (simp add: r)
    have tn: "take ?n sh2 = take ?n ?P" by (simp add: min.commute)
    have cell: "snd (flex_trits_from_trits e [FLEX_TRIT_NULL_VALUE e] ?n (take ?n sh2) ?n ?n) = [flex_pack1 e (take ?n ?P)]"
      unfolding tn [symmetric]
    proof (rule write_cell)
      show "valid_trits (take ?n sh2)" unfolding tn by (rule valid_trits_take [OF P(2)])
      show "length (take ?n sh2) = ?n" using r(1) k(2) by simp
      show "0 < ?n" "?n \<le> ?w" using k(3) w by simp_all
    qed
    have rest: "take (?o - ?n) (shift_out ?n sh2) = drop ?n ?P" using r(1) k(2) by (intro take_shift_out) simp_all
    have ih: "from_trytes_loop e (drop k ts) (shift_out ?n sh2) (?o - ?n) = pack_cells ?w (flex_pack1 e) (drop ?n ?P @ ?R)"
      unfolding rest [symmetric]
    proof (rule less.hyps)
      show "?o - ?n + 4 * length (drop k ts) < off + 4 * length ts"
        using k(1,3) w by (cases "k = 0") auto
      show "length (shift_out ?n sh2) = 8" using r k(2) w by (simp add: shift_out_length)
      show "?o - ?n \<le> 2" using k(5) by auto
      show "valid_trits (take (?o - ?n) (shift_out ?n sh2))" unfolding rest by (rule valid_trits_drop [OF P(2)])
    qed (rule vt)
    have "?w \<le> length ?P \<or> ?R = []" "?P \<noteq> []" "0 < ?w" unfolding P(1) using k(3,4) w P(1) by auto
    from pack_cells_step [OF this, of "flex_pack1 e"]
    have step: "pack_cells ?w (flex_pack1 e) (?P @ ?R) = flex_pack1 e (take ?n ?P) # pack_cells ?w (flex_pack1 e) (drop ?n ?P @ ?R)"
      unfolding P(1) .
    show ?thesis unfolding st all cell ih step by simp
  qed
qed

lemma flex_trits_from_trytes_eq:
  assumes "valid_trytes trytes" "n \<le> length trytes" "3 * n \<le> to_len" "length dst = NUM_FLEX_TRITS_FOR_TRITS e to_len"
  shows "flex_trits_from_trytes e dst to_len trytes (length trytes) n
    = (n, blit (replicate (NUM_FLEX_TRITS_FOR_TRITS e to_len) (FLEX_TRIT_NULL_VALUE e)) 0
          (pack_cells (NUM_TRITS_PER_FLEX_TRIT e) (flex_pack1 e) (trytes_to_trits (take n trytes))))"
proof -
  have c: "flex_clear e dst to_len = replicate (NUM_FLEX_TRITS_FOR_TRITS e to_len) (FLEX_TRIT_NULL_VALUE e)"
    using assms(4) by (simp add: flex_clear_def blit_0_all)
  have g: "\<not> (n > length trytes \<or> n * 3 > to_len)" using assms by auto
  have v: "valid_trytes (take n trytes)" using assms(1) by (auto simp: list_all_iff dest: in_set_takeD)
  consider "e = ENC1" | "e = ENC3" | "e = ENC4 \<or> e = ENC5" by (cases e) auto
  then show ?thesis
  proof cases
    case 1
    have "pack_cells (NUM_TRITS_PER_FLEX_TRIT ENC1) (flex_pack1 ENC1) ts = ts" for ts
      using enc1_identity(1) [of ts] by (simp add: NUM_TRITS_PER_FLEX_TRIT_def flex_pack1_def [of ENC1, abs_def])
    with 1 g c show ?thesis by (simp add: flex_trits_from_trytes_def)
  next
    case 2
    have "pack_cells (NUM_TRITS_PER_FLEX_TRIT ENC3) (flex_pack1 ENC3) (trytes_to_trits (take n trytes)) = take n trytes"
      using trits_trytes_round_trip [OF v] by (simp add: enc3_codec NUM_TRITS_PER_FLEX_TRIT_def trits_to_trytes_pack)
    with 2 g c show ?thesis by (simp add: flex_trits_from_trytes_def)
  next
    case 3
    have "from_trytes_loop e (take n trytes) (replicate 8 0) 0
        = pack_cells (NUM_TRITS_PER_FLEX_TRIT e) (flex_pack1 e) (trytes_to_trits (take n trytes))"
      using from_trytes_loop_correct [OF 3 v, of "replicate 8 0" 0] by simp
    with 3 g c show ?thesis by (auto simp: flex_trits_from_trytes_def)
  qed
qed

section \<open>Properties\<close>

text \<open>
  Packed trits and trytes, in every packing: unpacking to trytes gives the trytes of the first trits and fills
  with the null tryte, packing from trytes stores the trits of the trytes and fills with null trits.
\<close>

theorem flex_trytes_correct:
  assumes "flex_ok e cs len" "num \<le> len" "num \<le> to_len * 3" "length trytes = to_len"
    and "valid_trytes ys" "n \<le> length ys" "3 * n \<le> flen" "length dst = NUM_FLEX_TRITS_FOR_TRITS e flen"
  shows "flex_trits_to_trytes e trytes to_len cs len num
      = (num, blit (replicate to_len 57) 0 (trits_to_trytes (take num (flex_abs e cs))))
    \<and> (\<exists>dst'. flex_trits_from_trytes e dst flen ys (length ys) n = (n, dst') \<and> flex_ok e dst' flen
        \<and> flex_abs e dst' = trytes_to_trits (take n ys)
            @ replicate (NUM_TRITS_PER_FLEX_TRIT e * NUM_FLEX_TRITS_FOR_TRITS e flen - 3 * n) 0)"
proof -
  have v: "valid_trytes (take n ys)" using assms(5) by (auto simp: list_all_iff dest: in_set_takeD)
  have l: "length (trytes_to_trits (take n ys)) = 3 * n" using v assms(6) by simp
  have "valid_trits (trytes_to_trits (take n ys))" "length (trytes_to_trits (take n ys)) \<le> flen" using v l assms(7) by simp_all
  from flex_abs_packed [OF this, of e] flex_trits_from_trytes_eq [OF assms(5-8)] flex_trits_to_trytes_eq [OF assms(1-4)] l
  show ?thesis by simp
qed

theorem flex_trytes_correct_witness:
  "flex_trits_to_trytes ENC4 [0, 0] 2 [5, 1] 8 5 = (5, [68, 67])
    \<and> (\<exists>dst'. flex_trits_from_trytes ENC4 [0, 0] 8 [65, 90] (length [65, 90 :: int]) 2 = (2, dst') \<and> flex_ok ENC4 dst' 8)"
proof -
  have a: "flex_ok ENC4 [5, 1] 8" "(5 :: nat) \<le> 8" "(5 :: nat) \<le> 2 * 3" "length [0, 0 :: int] = 2"
    "valid_trytes [65, 90]" "2 \<le> length [65, 90 :: int]" "3 * 2 \<le> (8 :: nat)"
    "length [0, 0 :: int] = NUM_FLEX_TRITS_FOR_TRITS ENC4 8" by code_simp+
  have "blit (replicate 2 57) 0 (trits_to_trytes (take 5 (flex_abs ENC4 [5, 1]))) = [68, 67]" by code_simp
  with flex_trytes_correct [OF a] show ?thesis by auto
qed

text \<open>
  Conversion to bytes with three trits per byte loses the trits that are left in the shifter: of the six trits of
  the trytes \<open>9I\<close> the last one, which is not null, is missing from the two bytes.
\<close>

theorem flex_trits_to_bytes_loses_trits:
  "flex_trits_to_bytes ENC3 [0, 0] 6 [57, 73] 6 6 = (6, [0, 0]) \<and> flex_trits_at ENC3 [57, 73] 6 5 = 1"
  by code_simp

end
