(* ===== verification/Bundle.thy ===== *)
theory Bundle
  imports Prelude Errors Trit_Add Trit_Long Flex_Trit Flex_Convert Kerl Sponge Iss Sign Transaction
begin

text \<open>
  \<open>common/model/bundle.h\<close>, \<open>bundle.c\<close>, \<open>inputs.h\<close> and \<open>transfer.c\<close>: bundles of transactions, their hash, finalisation
  (the search for a tag that gives a secure hash), signing and validation. A bundle is the list of the
  transactions of the \<open>UT_array\<close>; a pointer that may be NULL is an option. \<open>None\<close> as a result is a failed
  assertion (a column that is not loaded, an assertion of Kerl) or undefined behaviour (a NULL that is
  dereferenced, \<open>llabs\<close> of the least integer).
\<close>

section \<open>Definitions\<close>

subsection \<open>Essence and hash\<close>

text \<open>\<open>flex_trits_to_trits\<close> and \<open>long_to_trits\<close> at a position inside the array of the essence.\<close>

definition put_trits :: "flex_enc \<Rightarrow> trit list \<Rightarrow> nat \<Rightarrow> nat \<Rightarrow> flex_trit list \<Rightarrow> trit list" where
  "put_trits e essence_trits pos n src =
     take pos essence_trits @ snd (flex_trits_to_trits e (slice pos n essence_trits) n src n n) @ drop (pos + n) essence_trits"

definition put_long :: "trit list \<Rightarrow> nat \<Rightarrow> int \<Rightarrow> trit list" where
  "put_long essence_trits pos v = take pos essence_trits @ snd (long_to_trits v (drop pos essence_trits))"

definition absorb_essence ::
  "'k keccak \<Rightarrow> (nat \<Rightarrow> u8) \<Rightarrow> flex_enc \<Rightarrow> 'k \<Rightarrow> flex_trit list \<Rightarrow> int \<Rightarrow> flex_trit list \<Rightarrow> int \<Rightarrow> int \<Rightarrow> int \<Rightarrow> 'k option"
where
  "absorb_essence K stack e kerl address amount obsolete_tag time current_idx last_idx =
     (let essence_trits = replicate NUM_TRITS_ESSENCE 0;
          curr_pos = 0;
          essence_trits = put_trits e essence_trits curr_pos NUM_TRITS_ADDRESS address;
          curr_pos = curr_pos + NUM_TRITS_ADDRESS;
          essence_trits = put_long essence_trits curr_pos amount;
          curr_pos = curr_pos + NUM_TRITS_VALUE;
          essence_trits = put_trits e essence_trits curr_pos NUM_TRITS_OBSOLETE_TAG obsolete_tag;
          curr_pos = curr_pos + NUM_TRITS_OBSOLETE_TAG;
          essence_trits = put_long essence_trits curr_pos (wrap64 time);
          curr_pos = curr_pos + NUM_TRITS_TIMESTAMP;
          essence_trits = put_long essence_trits curr_pos (wrap64 current_idx);
          curr_pos = curr_pos + NUM_TRITS_CURRENT_INDEX;
          essence_trits = put_long essence_trits curr_pos (wrap64 last_idx)
      in kerl_absorb K stack kerl (take NUM_TRITS_ESSENCE essence_trits))"

type_synonym bundle_transactions = "iota_transaction list"

primrec absorb_bundle ::
  "'k keccak \<Rightarrow> (nat \<Rightarrow> u8) \<Rightarrow> flex_enc \<Rightarrow> 'k \<Rightarrow> bundle_transactions \<Rightarrow> 'k option"
where
  "absorb_bundle K stack e kerl [] = Some kerl"
| "absorb_bundle K stack e kerl (tx # txs) =
     (case (transaction_address tx, transaction_value tx, transaction_obsolete_tag tx, transaction_timestamp tx,
            transaction_current_index tx, transaction_last_index tx) of
        (Some a, Some v, Some t, Some ts, Some ci, Some li) \<Rightarrow>
          (case absorb_essence K stack e kerl a v t ts ci li of
             None \<Rightarrow> None
           | Some kerl \<Rightarrow> absorb_bundle K stack e kerl txs)
      | _ \<Rightarrow> None)"

definition bundle_calculate_hash ::
  "'k keccak \<Rightarrow> (nat \<Rightarrow> u8) \<Rightarrow> flex_enc \<Rightarrow> bundle_transactions \<Rightarrow> flex_trit list \<Rightarrow> ('k \<times> flex_trit list) option"
where
  "bundle_calculate_hash K stack e bundle out =
     (case absorb_bundle K stack e (kerl_init K) bundle of
        None \<Rightarrow> None
      | Some kerl \<Rightarrow>
          (case kerl_squeeze K kerl NUM_TRITS_HASH of
             None \<Rightarrow> None
           | Some (kerl, bundle_hash_trits) \<Rightarrow>
               Some (kerl, snd (flex_trits_from_trits e out NUM_TRITS_HASH bundle_hash_trits NUM_TRITS_HASH NUM_TRITS_HASH))))"

subsection \<open>The array\<close>

definition bundle_transactions_new :: bundle_transactions where
  "bundle_transactions_new = []"

definition bundle_transactions_add :: "bundle_transactions \<Rightarrow> iota_transaction \<Rightarrow> bundle_transactions" where
  "bundle_transactions_add bundle tx = bundle @ [tx]"

definition bundle_at :: "bundle_transactions \<Rightarrow> nat \<Rightarrow> iota_transaction option" where
  "bundle_at bundle index = (if index < length bundle then Some (bundle ! index) else None)"

definition bundle_transactions_size :: "bundle_transactions option \<Rightarrow> nat" where
  "bundle_transactions_size bundlep = (case bundlep of None \<Rightarrow> 0 | Some bundle \<Rightarrow> length bundle)"

definition bundle_transactions_bundle_hash :: "bundle_transactions option \<Rightarrow> flex_trit list option option" where
  "bundle_transactions_bundle_hash bundlep =
     (case bundlep of
        None \<Rightarrow> Some None
      | Some bundle \<Rightarrow>
          if length bundle > 0 then (case transaction_bundle (bundle ! 0) of None \<Rightarrow> None | Some h \<Rightarrow> Some (Some h)) else Some None)"

text \<open>\<open>size_t\<close> arithmetic: an empty bundle has the last index \<open>SIZE_MAX\<close>, which no transaction receives.\<close>

definition bundle_reset_indexes :: "bundle_transactions option \<Rightarrow> bundle_transactions option" where
  "bundle_reset_indexes bundlep =
     (case bundlep of
        None \<Rightarrow> None
      | Some bundle \<Rightarrow>
          (let last_idx = uwrap64 (int (bundle_transactions_size bundlep) - 1)
           in Some (map (\<lambda>(current_idx, tx). transaction_set_current_index (transaction_set_last_index tx last_idx) (int current_idx))
                      (enumerate 0 bundle))))"

text \<open>The messages are C strings; \<open>None\<close> ends the loop when there are fewer messages than transactions.\<close>

fun bundle_set_messages :: "flex_enc \<Rightarrow> bundle_transactions \<Rightarrow> tryte list list \<Rightarrow> bundle_transactions" where
  "bundle_set_messages e (tx # txs) (msg # msgs) =
     load_data MASK_DATA_SIG_OR_MSG (data_update (tx_signature_or_message_update
       (\<lambda>dst. snd (flex_trits_from_trytes e dst NUM_TRITS_SIGNATURE msg 2187 (length msg)))) tx)
     # bundle_set_messages e txs msgs"
| "bundle_set_messages e bundle _ = bundle"

subsection \<open>Finalisation\<close>

text \<open>
  The loop increments the obsolete tag of the first transaction until the normalised hash has no tryte 13; it need not end.
\<close>

definition set_head_tag :: "flex_enc \<Rightarrow> bundle_transactions \<Rightarrow> trit list \<Rightarrow> bundle_transactions" where
  "set_head_tag e bundle tag_trits =
     essence_update (tx_obsolete_tag_update (\<lambda>dst. snd (flex_trits_from_trits e dst NUM_TRITS_TAG tag_trits NUM_TRITS_TAG NUM_TRITS_TAG)))
       (hd bundle) # tl bundle"

partial_function (option) finalize_loop ::
  "'k keccak \<Rightarrow> (nat \<Rightarrow> u8) \<Rightarrow> flex_enc \<Rightarrow> bundle_transactions \<Rightarrow> trit list \<Rightarrow> flex_trit list \<Rightarrow> ('k \<times> bundle_transactions) option"
where
  "finalize_loop K stack e bundle tag_trits bundle_hash =
     (case bundle_calculate_hash K stack e bundle bundle_hash of
        None \<Rightarrow> None
      | Some (kerl, bundle_hash) \<Rightarrow>
          if list_ex (\<lambda>v. v = 13) (normalize_flex_hash e bundle_hash)
          then (let tag_trits = snd (add_assign tag_trits 1)
                in finalize_loop K stack e (set_head_tag e bundle tag_trits) tag_trits bundle_hash)
          else Some (kerl, map (\<lambda>tx. transaction_set_bundle e tx bundle_hash) bundle))"

declare finalize_loop.simps [code]

definition bundle_finalize ::
  "'k keccak \<Rightarrow> (nat \<Rightarrow> u8) \<Rightarrow> flex_enc \<Rightarrow> bundle_transactions \<Rightarrow> ('k \<times> bundle_transactions) option"
where
  "bundle_finalize K stack e bundle =
     (case bundle of
        [] \<Rightarrow> None
      | head_tx # _ \<Rightarrow>
          (case transaction_obsolete_tag head_tx of
             None \<Rightarrow> None
           | Some tag \<Rightarrow>
               finalize_loop K stack e bundle
                 (snd (flex_trits_to_trits e (replicate NUM_TRITS_TAG 0) NUM_TRITS_TAG tag NUM_TRITS_TAG NUM_TRITS_TAG))
                 (replicate (FLEX_TRIT_SIZE_243 e) 0)))"

subsection \<open>Validation\<close>

definition MAX_IOTA_SUPPLY :: int where "MAX_IOTA_SUPPLY = 2779530283277761"

datatype bundle_status = BUNDLE_NOT_INITIALIZED | BUNDLE_VALID | BUNDLE_EMPTY | BUNDLE_INCOMPLETE | BUNDLE_INVALID_TX
  | BUNDLE_INVALID_INPUT_ADDRESS | BUNDLE_INVALID_VALUE | BUNDLE_INVALID_HASH | BUNDLE_INVALID_SIGNATURE

definition llabs :: "int \<Rightarrow> int option" where
  "llabs v = (if v = INT64_MIN then None else Some \<bar>v\<bar>)"

text \<open>
  The \<open>do ... while\<close> loop over the transactions of one input: the input transaction and the following ones with the same address
  and no value, which carry the other fragments of the signature. The result is the state of \<open>address_kerl\<close> and
  the transactions that follow.
\<close>

primrec signature_group ::
  "'k keccak \<Rightarrow> (nat \<Rightarrow> u8) \<Rightarrow> flex_enc \<Rightarrow> flex_trit list \<Rightarrow> trit list \<Rightarrow> nat \<Rightarrow> 'k \<Rightarrow> bundle_transactions
    \<Rightarrow> ('k \<times> bundle_transactions) option"
where
  "signature_group K stack e address normalized_bundle offset address_kerl [] = None"
| "signature_group K stack e address normalized_bundle offset address_kerl (tx # txs) =
     (case transaction_signature tx of
        None \<Rightarrow> None
      | Some sig \<Rightarrow>
          (let next_offset = (offset + 27 * 3 - 1) mod NUM_TRITS_HASH + 1;
               key = snd (flex_trits_to_trits e (replicate NUM_TRITS_SIGNATURE 0) NUM_TRITS_SIGNATURE sig NUM_TRITS_SIGNATURE
                            NUM_TRITS_SIGNATURE)
           in case ISS_sig_digest (kerl_ops K stack) (kerl_init K) (drop (offset mod NUM_TRITS_HASH) normalized_bundle) key
                     NUM_TRITS_SIGNATURE of
                None \<Rightarrow> None
              | Some (_, _, digested_sig_trits) \<Rightarrow>
                  (case kerl_absorb K stack address_kerl digested_sig_trits of
                     None \<Rightarrow> None
                   | Some address_kerl \<Rightarrow>
                       (case txs of
                          [] \<Rightarrow> Some (address_kerl, txs)
                        | nxt # _ \<Rightarrow>
                            (case transaction_address nxt of
                               None \<Rightarrow> None
                             | Some a \<Rightarrow>
                                 if a \<noteq> address then Some (address_kerl, txs)
                                 else (case transaction_value nxt of
                                         None \<Rightarrow> None
                                       | Some v \<Rightarrow>
                                           if v = 0
                                           then signature_group K stack e address normalized_bundle next_offset address_kerl txs
                                           else Some (address_kerl, txs)))))))"

lemma signature_group_shorter:
  "signature_group K stack e a nb off k txs = Some (k', rest) \<Longrightarrow> length rest < length txs"
proof (induction txs arbitrary: off k)
  case (Cons tx txs)
  from Cons.prems have "rest = txs \<or> (\<exists>off k. signature_group K stack e a nb off k txs = Some (k', rest))"
    unfolding signature_group.simps(2) Let_def
    by (auto simp del: signature_group.simps split: option.splits list.splits if_splits)
  then show ?case using Cons.IH by fastforce
qed simp

function validate_signatures ::
  "'k keccak \<Rightarrow> (nat \<Rightarrow> u8) \<Rightarrow> flex_enc \<Rightarrow> bundle_transactions \<Rightarrow> trit list \<Rightarrow> (retcode \<times> bool) option"
where
  "validate_signatures K stack e [] normalized_bundle = Some (RC_OK, True)"
| "validate_signatures K stack e (tx # txs) normalized_bundle =
     (case transaction_value tx of
        None \<Rightarrow> None
      | Some v \<Rightarrow>
          if v \<ge> 0 then validate_signatures K stack e txs normalized_bundle
          else (case transaction_address tx of
                  None \<Rightarrow> None
                | Some address \<Rightarrow>
                    (case signature_group K stack e address normalized_bundle 0 (kerl_init K) (tx # txs) of
                       None \<Rightarrow> None
                     | Some (address_kerl, rest) \<Rightarrow>
                         (case kerl_squeeze K address_kerl NUM_TRITS_ADDRESS of
                            None \<Rightarrow> None
                          | Some (_, digested_address) \<Rightarrow>
                              if snd (flex_trits_from_trits e (replicate (FLEX_TRIT_SIZE_243 e) 0) NUM_TRITS_HASH digested_address
                                        NUM_TRITS_ADDRESS NUM_TRITS_ADDRESS) \<noteq> address
                              then Some (RC_OK, False)
                              else validate_signatures K stack e rest normalized_bundle))))"
  by pat_completeness auto
termination
  by (relation "measure (\<lambda>(K, stack, e, txs, nb). length txs)")
    (auto dest: signature_group_shorter simp del: signature_group.simps)

text \<open>
  The loop of \<open>bundle_validate\<close> from \<open>current_index\<close> on; \<open>bundle\<close> is the whole bundle. The result is the status at the end of the loop or at its \<open>break\<close>.
\<close>

primrec validate_loop ::
  "'k keccak \<Rightarrow> (nat \<Rightarrow> u8) \<Rightarrow> flex_enc \<Rightarrow> bundle_transactions \<Rightarrow> flex_trit list \<Rightarrow> int \<Rightarrow> int \<Rightarrow> int \<Rightarrow> bundle_status
    \<Rightarrow> bundle_transactions \<Rightarrow> bundle_status option"
where
  "validate_loop K stack e bundle bundle_hash last_idx current_idx bundle_value status [] = Some status"
| "validate_loop K stack e bundle bundle_hash last_idx current_idx bundle_value status (tx # txs) =
     (case transaction_value tx of None \<Rightarrow> None | Some amount \<Rightarrow>
     (case llabs amount of None \<Rightarrow> None | Some a \<Rightarrow>
      if a > MAX_IOTA_SUPPLY then Some BUNDLE_INVALID_VALUE
      else let bundle_value = wrap64 (bundle_value + amount) in
     (case llabs bundle_value of None \<Rightarrow> None | Some b \<Rightarrow>
      if b > MAX_IOTA_SUPPLY then Some BUNDLE_INVALID_VALUE
      else
     (case transaction_current_index tx of None \<Rightarrow> None | Some ci \<Rightarrow>
      if ci \<noteq> current_idx then Some BUNDLE_INVALID_TX
      else
     (case transaction_last_index tx of None \<Rightarrow> None | Some li \<Rightarrow>
      if li \<noteq> last_idx then Some BUNDLE_INVALID_TX
      else
     (case (if amount = 0 then Some [] else transaction_address tx) of None \<Rightarrow> None | Some address \<Rightarrow>
      if amount \<noteq> 0 \<and> flex_trits_at e address NUM_TRITS_ADDRESS (NUM_TRITS_ADDRESS - 1) \<noteq> 0
      then Some BUNDLE_INVALID_INPUT_ADDRESS
      else if ci = last_idx then
        (if bundle_value \<noteq> 0 then Some BUNDLE_INVALID_VALUE
         else case bundle_calculate_hash K stack e bundle (replicate (FLEX_TRIT_SIZE_243 e) 0) of
                None \<Rightarrow> None
              | Some (_, bundle_hash_calculated) \<Rightarrow>
                  if bundle_hash \<noteq> bundle_hash_calculated then Some BUNDLE_INVALID_HASH
                  else case validate_signatures K stack e bundle
                              (normalize_flex_hash_to_trits e bundle_hash_calculated (replicate 243 0)) of
                         None \<Rightarrow> None
                       | Some (res, valid_sig) \<Rightarrow>
                           if res \<noteq> RC_OK \<or> \<not> valid_sig then Some BUNDLE_INVALID_SIGNATURE
                           else validate_loop K stack e bundle bundle_hash last_idx (uwrap64 (current_idx + 1)) bundle_value
                                  BUNDLE_VALID txs)
      else validate_loop K stack e bundle bundle_hash last_idx (uwrap64 (current_idx + 1)) bundle_value BUNDLE_VALID txs))))))"

definition bundle_validate ::
  "'k keccak \<Rightarrow> (nat \<Rightarrow> u8) \<Rightarrow> flex_enc \<Rightarrow> bundle_transactions option \<Rightarrow> bundle_status \<Rightarrow> (retcode \<times> bundle_status) option"
where
  "bundle_validate K stack e bundlep status =
     (case bundlep of
        None \<Rightarrow> Some (RC_NULL_PARAM, BUNDLE_NOT_INITIALIZED)
      | Some [] \<Rightarrow> None
      | Some (tx # txs) \<Rightarrow>
          (case transaction_last_index tx of None \<Rightarrow> None | Some last_idx \<Rightarrow>
           if int (length (tx # txs)) \<noteq> uwrap64 (last_idx + 1) then Some (RC_OK, BUNDLE_INCOMPLETE)
           else
          (case transaction_bundle tx of None \<Rightarrow> None | Some bundle_hash \<Rightarrow>
           map_option (Pair RC_OK) (validate_loop K stack e (tx # txs) bundle_hash last_idx 0 0 status (tx # txs)))))"

subsection \<open>Inputs, transfers and signing\<close>

record input =
  in_balance :: int
  in_key_index :: nat
  in_security :: nat
  in_address :: "flex_trit list"

record inputs =
  in_total_balance :: int
  in_array :: "input list option"

definition inputs_append :: "inputs \<Rightarrow> input \<Rightarrow> retcode \<times> inputs" where
  "inputs_append ins inp =
     (let arr = (case in_array ins of None \<Rightarrow> [] | Some a \<Rightarrow> a)
      in (RC_OK, ins\<lparr>in_total_balance := wrap64 (in_total_balance ins + in_balance inp), in_array := Some (arr @ [inp])\<rparr>))"

definition inputs_len :: "inputs \<Rightarrow> nat" where
  "inputs_len ins = (case in_array ins of None \<Rightarrow> 0 | Some a \<Rightarrow> length a)"

definition inputs_at :: "inputs \<Rightarrow> nat \<Rightarrow> input option" where
  "inputs_at ins index =
     (case in_array ins of None \<Rightarrow> None | Some a \<Rightarrow> if index < length a then Some (a ! index) else None)"

definition inputs_balance :: "inputs \<Rightarrow> int" where
  "inputs_balance ins = in_total_balance ins"

record transfer =
  tf_value :: int
  tf_timestamp :: int
  tf_msg_len :: nat
  tf_message :: "tryte list option"
  tf_address :: "flex_trit list"
  tf_tag :: "flex_trit list"

definition transfer_message_set_trytes :: "bool \<Rightarrow> transfer \<Rightarrow> tryte list \<Rightarrow> nat \<Rightarrow> retcode \<times> transfer" where
  "transfer_message_set_trytes allocated tf trytes len =
     (if \<not> allocated then (RC_OOM, tf\<lparr>tf_message := None\<rparr>)
      else (RC_OK, tf\<lparr>tf_message := Some (take len trytes), tf_msg_len := len\<rparr>))"

definition transfer_message_set_string :: "bool \<Rightarrow> transfer \<Rightarrow> int list \<Rightarrow> retcode \<times> transfer" where
  "transfer_message_set_string allocated tf str =
     (let msg_len = length str
      in if msg_len = 0 then (RC_NULL_PARAM, tf)
         else let trytes_len = msg_len * 2;
                  trytes_msg = ascii_to_trytes str
              in transfer_message_set_trytes allocated tf trytes_msg trytes_len)"

text \<open>
  The loop that copies the fragments of a signature: \<open>tx = bundle_at(bundle, curr_index + i)\<close> also moves the variable
  of the surrounding loop. The result is the bundle and the index of the last transaction written.
\<close>

fun copy_signature ::
  "flex_enc \<Rightarrow> flex_trit list \<Rightarrow> nat \<Rightarrow> nat \<Rightarrow> nat \<Rightarrow> bundle_transactions \<Rightarrow> nat \<Rightarrow> (bundle_transactions \<times> nat) option"
where
  "copy_signature e signed_signature curr_index i 0 bundle tx = Some (bundle, tx)"
| "copy_signature e signed_signature curr_index i (Suc n) bundle tx =
     (case bundle_at bundle (curr_index + i) of
        None \<Rightarrow> None
      | Some t \<Rightarrow>
          copy_signature e signed_signature curr_index (i + 1) n
            (bundle[curr_index + i := load_data MASK_DATA_SIG_OR_MSG (data_update (tx_signature_or_message_update
               (\<lambda>_. slice (i * FLEX_TRIT_SIZE_6561 e) (FLEX_TRIT_SIZE_6561 e) signed_signature)) t)])
            (curr_index + i))"

datatype 'a sign_result = SIGNED 'a | SIGN_FAILED bundle_transactions

primrec sign_inputs ::
  "'k keccak \<Rightarrow> (nat \<Rightarrow> u8) \<Rightarrow> flex_enc \<Rightarrow> (nat \<Rightarrow> bool) \<Rightarrow> flex_trit list option \<Rightarrow> input list \<Rightarrow> bundle_transactions \<Rightarrow> nat \<Rightarrow> nat
    \<Rightarrow> (bundle_transactions \<times> nat \<times> nat) sign_result option"
where
  "sign_inputs K stack e alloc seed [] bundle tx curr_index = Some (SIGNED (bundle, tx, curr_index))"
| "sign_inputs K stack e alloc seed (inp # inps) bundle tx curr_index =
     (case transaction_address (bundle ! tx) of None \<Rightarrow> None | Some address \<Rightarrow>
      if in_address inp \<noteq> address then sign_inputs K stack e alloc seed inps bundle tx curr_index
      else
     (case transaction_current_index (bundle ! tx) of None \<Rightarrow> None | Some ci \<Rightarrow>
      if int curr_index > ci then sign_inputs K stack e alloc seed inps bundle tx curr_index
      else
     (case transaction_bundle (bundle ! tx) of None \<Rightarrow> None | Some bundle_hash \<Rightarrow>
     (case iota_sign_signature_gen_flex_trits e K stack alloc seed (in_key_index inp) (in_security inp) (Some bundle_hash) of
        None \<Rightarrow> None
      | Some None \<Rightarrow> Some (SIGN_FAILED bundle)
      | Some (Some signed_signature) \<Rightarrow>
          (case copy_signature e signed_signature curr_index 0 (in_security inp) bundle tx of
             None \<Rightarrow> None
           | Some (bundle, tx) \<Rightarrow> sign_inputs K stack e alloc seed inps bundle tx (curr_index + in_security inp))))))"

partial_function (option) sign_loop ::
  "'k keccak \<Rightarrow> (nat \<Rightarrow> u8) \<Rightarrow> flex_enc \<Rightarrow> (nat \<Rightarrow> bool) \<Rightarrow> flex_trit list option \<Rightarrow> input list \<Rightarrow> bundle_transactions \<Rightarrow> nat \<Rightarrow> nat
    \<Rightarrow> bundle_transactions sign_result option"
where
  "sign_loop K stack e alloc seed inps bundle tx curr_index =
     (if tx \<ge> length bundle then Some (SIGNED bundle)
      else case transaction_value (bundle ! tx) of None \<Rightarrow> None
         | Some v \<Rightarrow>
             if v < 0 then
               (case sign_inputs K stack e alloc seed inps bundle tx curr_index of
                  None \<Rightarrow> None
                | Some (SIGN_FAILED bundle) \<Rightarrow> Some (SIGN_FAILED bundle)
                | Some (SIGNED (bundle, tx, curr_index)) \<Rightarrow> sign_loop K stack e alloc seed inps bundle (tx + 1) curr_index)
             else sign_loop K stack e alloc seed inps bundle (tx + 1) (curr_index + 1))"

declare sign_loop.simps [code]

definition bundle_sign ::
  "'k keccak \<Rightarrow> (nat \<Rightarrow> u8) \<Rightarrow> flex_enc \<Rightarrow> (nat \<Rightarrow> bool) \<Rightarrow> bundle_transactions \<Rightarrow> flex_trit list option \<Rightarrow> input list
    \<Rightarrow> (retcode \<times> bundle_transactions) option"
where
  "bundle_sign K stack e alloc bundle seed inps =
     (case bundle_finalize K stack e (the (bundle_reset_indexes (Some bundle))) of
        None \<Rightarrow> None
      | Some (_, bundle) \<Rightarrow>
          (case sign_loop K stack e alloc seed inps bundle 0 0 of
             None \<Rightarrow> None
           | Some (SIGN_FAILED bundle) \<Rightarrow> Some (RC_COMMON_BUNDLE_SIGN, bundle)
           | Some (SIGNED bundle) \<Rightarrow> Some (RC_OK, the (bundle_reset_indexes (Some bundle)))))"

section \<open>The essence\<close>

lemma put_trits_eq:
  assumes "flex_ok e src n" "0 < n" "3 dvd n" "pos + n \<le> length buf"
  shows "put_trits e buf pos n src = blit buf pos (flex_field e src n)"
proof -
  have "e = ENC3 \<Longrightarrow> 3 * NUM_FLEX_TRITS_FOR_TRITS e n \<le> length (slice pos n buf)"
    using assms(3,4) by (auto simp: NUM_FLEX_TRITS_FOR_TRITS_def elim!: dvdE)
  then have "snd (flex_trits_to_trits e (slice pos n buf) n src n n) = flex_field e src n"
    using flex_trits_to_trits_abs [OF assms(1,2) order_refl, of "slice pos n buf"] assms(4) by (auto simp: flex_field_def)
  then show ?thesis by (simp add: put_trits_def blit_def flex_field_length [OF assms(1)])
qed

lemma fits27_trits: "fits27 v \<Longrightarrow> wrap64 v = v \<and> max 3 (min_trits v) \<le> 27"
proof -
  assume "fits27 v"
  then have v: "0 \<le> v" "v \<le> bt_max 27" by (simp_all add: fits27_def)
  have r: "INT64_MIN \<le> v" "v \<le> INT64_MAX" using v by (simp_all add: bt_max_27)
  have "min_trits v \<le> 27"
  proof (rule ccontr)
    assume "\<not> min_trits v \<le> 27"
    then have "bt_max (min_trits v - 1) < v" "27 \<le> min_trits v - 1" using min_trits_spec(4) [OF r] v(1) by auto
    then show False using bt_max_mono [of 27 "min_trits v - 1"] v(2) by simp
  qed
  then show ?thesis using r by (simp add: wrap64_id)
qed

text \<open>Writing a number over zeros writes its digits.\<close>

lemma put_long_eq:
  assumes "INT64_MIN \<le> v" "v \<le> INT64_MAX" "max 3 (min_trits v) \<le> n"
  shows "put_long (pre @ replicate n 0 @ post) (length pre) v = pre @ bt_digits n v @ post"
proof -
  let ?m = "max 3 (min_trits v)"
  have "long_to_trits v (replicate n 0 @ post) = (min_trits v, bt_digits ?m v @ drop ?m (replicate n 0 @ post))"
    using assms by (intro long_to_trits_spec) simp_all
  moreover have "long_to_trits v (replicate n 0) = (min_trits v, bt_digits ?m v @ drop ?m (replicate n 0))"
    using assms by (intro long_to_trits_spec) simp_all
  ultimately show ?thesis using long_to_trits_zeros [OF assms] assms(3) by (simp add: put_long_def del: bt_digits.simps)
qed

definition essence_trits :: "flex_enc \<Rightarrow> iota_transaction \<Rightarrow> trit list" where
  "essence_trits e tx = flex_field e (tx_address (essence tx)) 243 @ bt_digits 81 (tx_value (essence tx))
     @ flex_field e (tx_obsolete_tag (essence tx)) 81 @ bt_digits 27 (tx_timestamp (essence tx))
     @ bt_digits 27 (tx_current_index (essence tx)) @ bt_digits 27 (tx_last_index (essence tx))"

definition essence_ok :: "flex_enc \<Rightarrow> iota_transaction \<Rightarrow> bool" where
  "essence_ok e tx \<longleftrightarrow> flex_ok e (tx_address (essence tx)) 243 \<and> flex_ok e (tx_obsolete_tag (essence tx)) 81 \<and> int64_value tx
     \<and> fits27 (tx_timestamp (essence tx)) \<and> fits27 (tx_current_index (essence tx)) \<and> fits27 (tx_last_index (essence tx))"

definition essence_loaded :: "iota_transaction \<Rightarrow> bool" where
  "essence_loaded tx \<longleftrightarrow> transaction_address tx \<noteq> None \<and> transaction_value tx \<noteq> None \<and> transaction_obsolete_tag tx \<noteq> None
     \<and> transaction_timestamp tx \<noteq> None \<and> transaction_current_index tx \<noteq> None \<and> transaction_last_index tx \<noteq> None"

lemma blit_zeros:
  "length xs = n \<Longrightarrow> blit (pre @ replicate (n + m) 0) (length pre) xs = pre @ xs @ replicate m 0"
  by (simp add: blit_def)

lemma absorb_essence_eq:
  assumes ok: "essence_ok e tx"
  defines "E \<equiv> essence tx"
  shows "absorb_essence K stack e kerl (tx_address E) (tx_value E) (tx_obsolete_tag E) (tx_timestamp E) (tx_current_index E)
      (tx_last_index E) = kerl_absorb K stack kerl (essence_trits e tx)"
proof -
  note f = ok [unfolded essence_ok_def int64_value_def, folded E_def]
  let ?A = "flex_field e (tx_address E) 243" and ?V = "bt_digits 81 (tx_value E)" and ?T = "flex_field e (tx_obsolete_tag E) 81"
  let ?S = "bt_digits 27 (tx_timestamp E)" and ?C = "bt_digits 27 (tx_current_index E)" and ?L = "bt_digits 27 (tx_last_index E)"
  have l: "length ?A = 243" "length ?T = 81" using f by (simp_all add: flex_field_length)
  have r27: "INT64_MIN \<le> v \<and> v \<le> INT64_MAX" if "fits27 v" for v using that by (simp add: fits27_def bt_max_27)
  have p1: "put_trits e (replicate 486 0) 0 243 (tx_address E) = ?A @ replicate 243 0"
    using put_trits_eq [of e "tx_address E" 243 0 "replicate 486 0"] f blit_zeros [OF l(1), of "[]" 243] by simp
  have p2: "put_long (?A @ replicate 243 0) 243 (tx_value E) = (?A @ ?V) @ replicate 162 0"
    using put_long_eq [of "tx_value E" 81 ?A "replicate 162 0"] f min_trits_spec(2) [of "tx_value E"] l(1)
    by (simp add: replicate_add [symmetric] del: bt_digits.simps)
  have p3: "put_trits e ((?A @ ?V) @ replicate 162 0) 324 81 (tx_obsolete_tag E) = (?A @ ?V @ ?T) @ replicate 81 0"
    using put_trits_eq [of e "tx_obsolete_tag E" 81 324 "(?A @ ?V) @ replicate 162 0"] f l blit_zeros [OF l(2), of "?A @ ?V" 81]
    by (simp del: bt_digits.simps)
  have p4: "put_long ((?A @ ?V @ ?T) @ replicate 81 0) 405 (tx_timestamp E) = (?A @ ?V @ ?T @ ?S) @ replicate 54 0"
    using put_long_eq [of "tx_timestamp E" 27 "?A @ ?V @ ?T" "replicate 54 0"] f r27 [of "tx_timestamp E"] fits27_trits [of "tx_timestamp E"] l
    by (simp add: replicate_add [symmetric] del: bt_digits.simps)
  have p5: "put_long ((?A @ ?V @ ?T @ ?S) @ replicate 54 0) 432 (tx_current_index E) = (?A @ ?V @ ?T @ ?S @ ?C) @ replicate 27 0"
    using put_long_eq [of "tx_current_index E" 27 "?A @ ?V @ ?T @ ?S" "replicate 27 0"] f r27 [of "tx_current_index E"]
      fits27_trits [of "tx_current_index E"] l
    by (simp add: replicate_add [symmetric] del: bt_digits.simps)
  have p6: "put_long ((?A @ ?V @ ?T @ ?S @ ?C) @ replicate 27 0) 459 (tx_last_index E) = ?A @ ?V @ ?T @ ?S @ ?C @ ?L"
    using put_long_eq [of "tx_last_index E" 27 "?A @ ?V @ ?T @ ?S @ ?C" "[]"] f r27 [of "tx_last_index E"]
      fits27_trits [of "tx_last_index E"] l
    by (simp del: bt_digits.simps)
  have w: "wrap64 (tx_timestamp E) = tx_timestamp E" "wrap64 (tx_current_index E) = tx_current_index E"
      "wrap64 (tx_last_index E) = tx_last_index E" using f fits27_trits by auto
  have n: "(0::nat) + 243 = 243" "243 + (81::nat) = 324" "324 + (81::nat) = 405" "405 + (27::nat) = 432" "432 + (27::nat) = 459"
    "NUM_TRITS_ESSENCE = 486" by (simp_all add: NUM_TRITS_ESSENCE_def)
  have "absorb_essence K stack e kerl (tx_address E) (tx_value E) (tx_obsolete_tag E) (tx_timestamp E) (tx_current_index E)
      (tx_last_index E) = kerl_absorb K stack kerl (take 486 (?A @ ?V @ ?T @ ?S @ ?C @ ?L))"
    unfolding absorb_essence_def Let_def num_trits_sizes n w p1 p2 p3 p4 p5 p6 ..
  also have "take 486 (?A @ ?V @ ?T @ ?S @ ?C @ ?L) = essence_trits e tx"
    using l by (simp add: essence_trits_def E_def del: bt_digits.simps)
  finally show ?thesis .
qed

text \<open>The essence is a part of the serialised transaction.\<close>

lemma essence_trits_slice:
  assumes "transaction_ok e tx" "essence_ok e tx"
  shows "essence_trits e tx = slice 6561 486 (transaction_trits e tx)"
proof -
  note s = transaction_trits_slice [OF assms(1)]
  have w: "wrap64 (tx_timestamp (essence tx)) = tx_timestamp (essence tx)"
    "wrap64 (tx_current_index (essence tx)) = tx_current_index (essence tx)"
    "wrap64 (tx_last_index (essence tx)) = tx_last_index (essence tx)"
    using assms(2) fits27_trits by (auto simp: essence_ok_def)
  have "essence_trits e tx = slice 6561 243 (transaction_trits e tx) @ slice 6804 81 (transaction_trits e tx)
      @ slice 6885 81 (transaction_trits e tx) @ slice 6966 27 (transaction_trits e tx) @ slice 6993 27 (transaction_trits e tx)
      @ slice 7020 27 (transaction_trits e tx)"
    using s [of 1] s [of 2] s [of 3] s [of 4] s [of 5] s [of 6]
    by (simp add: essence_trits_def transaction_fields_def w del: bt_digits.simps)
  then show ?thesis by (simp add: slice_append append_assoc [symmetric] del: append_assoc)
qed

text \<open>The specification of the hash: Kerl absorbs the essences one after the other.\<close>

primrec absorb_all :: "'k keccak \<Rightarrow> (nat \<Rightarrow> u8) \<Rightarrow> 'k \<Rightarrow> trit list list \<Rightarrow> 'k option" where
  "absorb_all K stack kerl [] = Some kerl"
| "absorb_all K stack kerl (ts # tss) =
     (case kerl_absorb K stack kerl ts of None \<Rightarrow> None | Some kerl \<Rightarrow> absorb_all K stack kerl tss)"

lemma getters_loaded:
  assumes "essence_loaded tx"
  shows "transaction_address tx = Some (tx_address (essence tx))" "transaction_value tx = Some (tx_value (essence tx))"
    "transaction_obsolete_tag tx = Some (tx_obsolete_tag (essence tx))" "transaction_timestamp tx = Some (tx_timestamp (essence tx))"
    "transaction_current_index tx = Some (tx_current_index (essence tx))" "transaction_last_index tx = Some (tx_last_index (essence tx))"
  using assms unfolding essence_loaded_def transaction_address_def transaction_value_def transaction_obsolete_tag_def
    transaction_timestamp_def transaction_current_index_def transaction_last_index_def by presburger+

lemma absorb_bundle_eq:
  "list_all (\<lambda>tx. essence_ok e tx \<and> essence_loaded tx) bs \<Longrightarrow>
    absorb_bundle K stack e kerl bs = absorb_all K stack kerl (map (essence_trits e) bs)"
proof (induction bs arbitrary: kerl)
  case (Cons tx txs)
  then have tx: "essence_ok e tx" "essence_loaded tx" by auto
  show ?case
    using Cons by (simp add: getters_loaded [OF tx(2)] absorb_essence_eq [OF tx(1)] split: option.splits)
qed simp

lemma flex_from_hash:
  assumes "valid_trits h" "length h = 243" "length out = NUM_FLEX_TRITS_FOR_TRITS e 243"
  shows "snd (flex_trits_from_trits e out 243 h 243 243) = flex_pack e h"
proof -
  obtain d where d: "flex_trits_from_trits e out 243 h 243 243 = (243, d)" "flex_ok e d 243"
      "flex_abs e d = h @ replicate (NUM_TRITS_PER_FLEX_TRIT e * NUM_FLEX_TRITS_FOR_TRITS e 243 - 243) 0"
    using flex_trits_from_trits_abs [OF assms(3,1), of 243] assms(2) by auto
  then have "flex_canonical e d 243" "flex_field e d 243 = h" using assms(2) by (auto simp: flex_canonical_def flex_field_def list_all_iff)
  then show ?thesis using flex_pack_field d(1) by force
qed

lemma bundle_hash_eq:
  assumes "length out = NUM_FLEX_TRITS_FOR_TRITS e 243"
  shows "bundle_calculate_hash K stack e bundle out =
    (case absorb_bundle K stack e (kerl_init K) bundle of None \<Rightarrow> None
     | Some kerl \<Rightarrow> map_option (\<lambda>(kerl, h). (kerl, flex_pack e h)) (kerl_squeeze K kerl 243))"
  using assms by (auto simp: bundle_calculate_hash_def flex_from_hash split: option.splits dest!: kerl_squeeze_trits)

lemma bundle_hash_canonical:
  assumes "bundle_calculate_hash K stack e bundle out = Some (kerl, h)" "length out = NUM_FLEX_TRITS_FOR_TRITS e 243"
  shows "flex_canonical e h 243"
  using assms(1) unfolding bundle_hash_eq [OF assms(2)]
  by (auto split: option.splits dest!: kerl_squeeze_trits intro: flex_pack_canonical)

section \<open>Validation\<close>

text \<open>
  The specification of a valid bundle. \<open>tx_checked\<close> are the conditions on the transaction at one position, given the sum of the values
  before it; \<open>hash_checked\<close> those on the hash and the signatures.
\<close>

definition tx_checked :: "flex_enc \<Rightarrow> int \<Rightarrow> int \<Rightarrow> int \<Rightarrow> iota_transaction \<Rightarrow> bool" where
  "tx_checked e last_idx idx s tx \<longleftrightarrow>
     (let v = tx_value (essence tx)
      in transaction_value tx = Some v \<and> \<bar>v\<bar> \<le> MAX_IOTA_SUPPLY \<and> \<bar>s + v\<bar> \<le> MAX_IOTA_SUPPLY
       \<and> transaction_current_index tx = Some idx \<and> transaction_last_index tx = Some last_idx
       \<and> (v \<noteq> 0 \<longrightarrow> transaction_address tx = Some (tx_address (essence tx)) \<and> flex_trits_at e (tx_address (essence tx)) 243 242 = 0))"

definition hash_checked :: "'k keccak \<Rightarrow> (nat \<Rightarrow> u8) \<Rightarrow> flex_enc \<Rightarrow> bundle_transactions \<Rightarrow> flex_trit list \<Rightarrow> bool" where
  "hash_checked K stack e bundle hash \<longleftrightarrow>
     (\<exists>kerl. bundle_calculate_hash K stack e bundle (replicate (FLEX_TRIT_SIZE_243 e) 0) = Some (kerl, hash))
     \<and> validate_signatures K stack e bundle (normalize_flex_hash_to_trits e hash (replicate 243 0)) = Some (RC_OK, True)"

definition values_of :: "bundle_transactions \<Rightarrow> int list" where
  "values_of bundle = map (\<lambda>tx. tx_value (essence tx)) bundle"

definition bundle_valid_spec :: "'k keccak \<Rightarrow> (nat \<Rightarrow> u8) \<Rightarrow> flex_enc \<Rightarrow> bundle_transactions \<Rightarrow> bool" where
  "bundle_valid_spec K stack e bundle \<longleftrightarrow>
     bundle \<noteq> [] \<and> (\<forall>i < length bundle. tx_checked e (int (length bundle) - 1) (int i) (sum_list (take i (values_of bundle))) (bundle ! i))
     \<and> sum_list (values_of bundle) = 0
     \<and> (\<exists>hash. transaction_bundle (bundle ! 0) = Some hash \<and> hash_checked K stack e bundle hash)"

lemma transaction_getter_Some:
  "transaction_value tx = Some v \<Longrightarrow> v = tx_value (essence tx)"
  "transaction_address tx = Some a \<Longrightarrow> a = tx_address (essence tx)"
  "transaction_last_index tx = Some i \<Longrightarrow> i = tx_last_index (essence tx)"
  by (auto simp: transaction_value_def transaction_address_def transaction_last_index_def split: if_splits)

lemma llabs_supply: "(\<exists>a. llabs v = Some a \<and> \<not> a > MAX_IOTA_SUPPLY) \<longleftrightarrow> \<bar>v\<bar> \<le> MAX_IOTA_SUPPLY"
  by (auto simp: llabs_def MAX_IOTA_SUPPLY_def)

lemma wrap64_supply: "\<bar>s\<bar> \<le> MAX_IOTA_SUPPLY \<Longrightarrow> \<bar>v\<bar> \<le> MAX_IOTA_SUPPLY \<Longrightarrow> wrap64 (s + v) = s + v"
  by (intro wrap64_id) (auto simp: MAX_IOTA_SUPPLY_def)

text \<open>One iteration of the loop.\<close>

lemma validate_loop_checked:
  assumes s: "\<bar>s\<bar> \<le> MAX_IOTA_SUPPLY" and tx: "tx_checked e last_idx idx s tx"
  shows "validate_loop K stack e B h last_idx idx s st (tx # txs) = Some BUNDLE_VALID \<longleftrightarrow>
    (idx = last_idx \<longrightarrow> s + tx_value (essence tx) = 0 \<and> hash_checked K stack e B h)
    \<and> validate_loop K stack e B h last_idx (uwrap64 (idx + 1)) (s + tx_value (essence tx)) BUNDLE_VALID txs = Some BUNDLE_VALID"
proof -
  let ?v = "tx_value (essence tx)"
  note t = tx [unfolded tx_checked_def Let_def]
  have l: "llabs ?v = Some \<bar>?v\<bar>" "llabs (s + ?v) = Some \<bar>s + ?v\<bar>" using t by (auto simp: llabs_def MAX_IOTA_SUPPLY_def)
  have w: "wrap64 (s + ?v) = s + ?v" using s t by (intro wrap64_supply) auto
  have g: "\<not> \<bar>?v\<bar> > MAX_IOTA_SUPPLY" "\<not> \<bar>s + ?v\<bar> > MAX_IOTA_SUPPLY" using t by auto
  obtain a where a: "(if ?v = 0 then Some [] else transaction_address tx) = Some a"
      "\<not> (?v \<noteq> 0 \<and> flex_trits_at e a NUM_TRITS_ADDRESS (NUM_TRITS_ADDRESS - 1) \<noteq> 0)"
    using t by (cases "?v = 0") auto
  have "validate_loop K stack e B h last_idx idx s st (tx # txs) =
      (if idx = last_idx then
        (if s + ?v \<noteq> 0 then Some BUNDLE_INVALID_VALUE
         else case bundle_calculate_hash K stack e B (replicate (FLEX_TRIT_SIZE_243 e) 0) of
                None \<Rightarrow> None
              | Some (_, c) \<Rightarrow>
                  if h \<noteq> c then Some BUNDLE_INVALID_HASH
                  else case validate_signatures K stack e B (normalize_flex_hash_to_trits e c (replicate 243 0)) of
                         None \<Rightarrow> None
                       | Some (res, valid_sig) \<Rightarrow>
                           if res \<noteq> RC_OK \<or> \<not> valid_sig then Some BUNDLE_INVALID_SIGNATURE
                           else validate_loop K stack e B h last_idx (uwrap64 (idx + 1)) (s + ?v) BUNDLE_VALID txs)
      else validate_loop K stack e B h last_idx (uwrap64 (idx + 1)) (s + ?v) BUNDLE_VALID txs)"
    unfolding validate_loop.simps using t by (simp only: l w g a option.case Let_def if_False if_True simp_thms)
  then show ?thesis by (auto simp: hash_checked_def split: option.splits prod.splits if_splits)
qed

lemma validate_loop_unchecked:
  assumes s: "\<bar>s\<bar> \<le> MAX_IOTA_SUPPLY" and r: "validate_loop K stack e B h last_idx idx s st (tx # txs) = Some BUNDLE_VALID"
  shows "tx_checked e last_idx idx s tx"
proof -
  from r obtain v a where v: "transaction_value tx = Some v" "llabs v = Some a" "\<not> a > MAX_IOTA_SUPPLY"
    unfolding validate_loop.simps Let_def by (simp only: split: option.splits if_splits) simp_all
  then have v': "v = tx_value (essence tx)" "\<bar>v\<bar> \<le> MAX_IOTA_SUPPLY" using transaction_getter_Some llabs_supply by blast+
  have w: "wrap64 (s + v) = s + v" using s v'(2) by (rule wrap64_supply)
  from r have r1: "(case llabs (s + v) of None \<Rightarrow> None | Some b \<Rightarrow>
      if b > MAX_IOTA_SUPPLY then Some BUNDLE_INVALID_VALUE else
     (case transaction_current_index tx of None \<Rightarrow> None | Some ci \<Rightarrow> if ci \<noteq> idx then Some BUNDLE_INVALID_TX else
     (case transaction_last_index tx of None \<Rightarrow> None | Some li \<Rightarrow> if li \<noteq> last_idx then Some BUNDLE_INVALID_TX else
     (case (if v = 0 then Some [] else transaction_address tx) of None \<Rightarrow> None | Some address \<Rightarrow>
      if v \<noteq> 0 \<and> flex_trits_at e address NUM_TRITS_ADDRESS (NUM_TRITS_ADDRESS - 1) \<noteq> 0
      then Some BUNDLE_INVALID_INPUT_ADDRESS else Some BUNDLE_VALID)))) = Some BUNDLE_VALID"
    unfolding validate_loop.simps Let_def v(1,2) option.case w using v(3) by (auto split: option.splits if_splits)
  then obtain b where b: "llabs (s + v) = Some b" "\<not> b > MAX_IOTA_SUPPLY" by (auto split: option.splits if_splits)
  then have "\<bar>s + v\<bar> \<le> MAX_IOTA_SUPPLY" using llabs_supply by blast
  moreover from r1 have "transaction_current_index tx = Some idx \<and> transaction_last_index tx = Some last_idx
      \<and> (v \<noteq> 0 \<longrightarrow> (\<exists>a. transaction_address tx = Some a \<and> flex_trits_at e a 243 242 = 0))"
    using b by (auto split: option.splits if_splits)
  ultimately show ?thesis using v v' transaction_getter_Some(2) by (auto simp: tx_checked_def Let_def)
qed

lemma validate_loop_valid:
  assumes "\<bar>s\<bar> \<le> MAX_IOTA_SUPPLY" "txs \<noteq> []" "last_idx = idx + int (length txs) - 1" "0 \<le> idx" "idx + int (length txs) < 2 ^ 64"
  shows "validate_loop K stack e B h last_idx idx s st txs = Some BUNDLE_VALID \<longleftrightarrow>
    (\<forall>i < length txs. tx_checked e last_idx (idx + int i) (s + sum_list (take i (values_of txs))) (txs ! i))
    \<and> s + sum_list (values_of txs) = 0 \<and> hash_checked K stack e B h"
  using assms
proof (induction txs arbitrary: idx s st)
  case (Cons tx txs)
  show ?case
  proof (cases "tx_checked e last_idx idx s tx")
    case False
    then have "\<not> (\<forall>i < length (tx # txs). tx_checked e last_idx (idx + int i) (s + sum_list (take i (values_of (tx # txs)))) ((tx # txs) ! i))"
      by (auto intro!: exI [of _ 0])
    with False validate_loop_unchecked [OF Cons.prems(1)] show ?thesis by blast
  next
    case chk: True
    let ?s = "s + tx_value (essence tx)"
    note step = validate_loop_checked [OF Cons.prems(1) chk, of K stack B h st txs]
    have v: "values_of (tx # txs) = tx_value (essence tx) # values_of txs" by (simp add: values_of_def)
    have all: "(\<forall>i < length (tx # txs). tx_checked e last_idx (idx + int i) (s + sum_list (take i (values_of (tx # txs)))) ((tx # txs) ! i))
        \<longleftrightarrow> (\<forall>i < length txs. tx_checked e last_idx (idx + 1 + int i) (?s + sum_list (take i (values_of txs))) (txs ! i))"
      using chk unfolding v by (simp add: All_less_Suc2 add.assoc)
    show ?thesis
    proof (cases "txs = []")
      case True
      then show ?thesis unfolding step all unfolding v using Cons.prems(3) chk by (auto simp: values_of_def)
    next
      case False
      then have n: "idx \<noteq> last_idx" using Cons.prems(3) by (cases txs) auto
      have "0 < int (length txs)" using False by (cases txs) simp_all
      then have u: "uwrap64 (idx + 1) = idx + 1" using Cons.prems(4,5) by simp
      have "\<bar>?s\<bar> \<le> MAX_IOTA_SUPPLY" using chk by (simp add: tx_checked_def Let_def)
      from Cons.IH [OF this False, of "idx + 1" BUNDLE_VALID] Cons.prems(3-5)
      show ?thesis unfolding step all unfolding v u using n by (auto simp: add.assoc)
    qed
  qed
qed simp

lemma bundle_validate_iff:
  assumes "\<And>tx. tx \<in> set bs \<Longrightarrow> 0 \<le> tx_last_index (essence tx) \<and> tx_last_index (essence tx) < 2 ^ 64"
    and "int (length bs) < 2 ^ 64"
  shows "bundle_validate K stack e (Some bs) st = Some (RC_OK, BUNDLE_VALID) \<longleftrightarrow> bundle_valid_spec K stack e bs"
proof (cases bs)
  case Nil
  then show ?thesis by (simp add: bundle_validate_def bundle_valid_spec_def)
next
  case (Cons tx txs)
  let ?last = "int (length bs) - 1"
  have range: "0 \<le> tx_last_index (essence tx)" "tx_last_index (essence tx) < 2 ^ 64" using assms(1) Cons by auto
  have lastok: "int (length bs) = uwrap64 (tx_last_index (essence tx) + 1) \<longleftrightarrow> tx_last_index (essence tx) = ?last"
  proof (cases "tx_last_index (essence tx) + 1 = 2 ^ 64")
    case True
    then show ?thesis using assms(2) Cons by simp
  next
    case False
    then have "uwrap64 (tx_last_index (essence tx) + 1) = tx_last_index (essence tx) + 1" using range by simp
    then show ?thesis by auto
  qed
  have loop: "validate_loop K stack e bs h ?last 0 0 st bs = Some BUNDLE_VALID \<longleftrightarrow>
      (\<forall>i < length bs. tx_checked e ?last (int i) (sum_list (take i (values_of bs))) (bs ! i))
      \<and> sum_list (values_of bs) = 0 \<and> hash_checked K stack e bs h" for h
    using validate_loop_valid [of 0 bs ?last 0] Cons assms(2) by (simp add: MAX_IOTA_SUPPLY_def)
  have first: "transaction_last_index tx = Some ?last"
    if "\<forall>i < length bs. tx_checked e ?last (int i) (sum_list (take i (values_of bs))) (bs ! i)"
    using that [rule_format, of 0] Cons by (simp add: tx_checked_def Let_def)
  show ?thesis
  proof (cases "transaction_last_index tx")
    case None
    then show ?thesis using first Cons by (auto simp: bundle_validate_def bundle_valid_spec_def)
  next
    case (Some li)
    then have li: "li = tx_last_index (essence tx)" by (rule transaction_getter_Some)
    have b: "bundle_validate K stack e (Some bs) st = (if tx_last_index (essence tx) \<noteq> ?last then Some (RC_OK, BUNDLE_INCOMPLETE)
        else case transaction_bundle tx of None \<Rightarrow> None
             | Some h \<Rightarrow> map_option (Pair RC_OK) (validate_loop K stack e bs h (tx_last_index (essence tx)) 0 0 st bs))"
      using Some li lastok unfolding bundle_validate_def Cons by simp
    show ?thesis
    proof (cases "tx_last_index (essence tx) = ?last")
      case True
      then show ?thesis unfolding b using loop Cons
        by (auto simp: bundle_valid_spec_def split: option.splits)
    next
      case False
      then show ?thesis using first Some li by (auto simp: b bundle_valid_spec_def)
    qed
  qed
qed

section \<open>Finalisation\<close>

lemma bt_digits_mod: "bt_digits n (v + k * 3 ^ n) = bt_digits n v"
proof (induction n arbitrary: v)
  case (Suc n)
  let ?m = "k * 3 ^ n"
  have "v + k * 3 ^ Suc n + 1 = (v + 1) + ?m * 3" by simp
  then have "(v + k * 3 ^ Suc n + 1) mod 3 = (v + 1) mod 3" "(v + k * 3 ^ Suc n + 1) div 3 = (v + 1) div 3 + ?m"
    by (metis mod_mult_self1, metis div_mult_self1 add.commute zero_neq_numeral)
  then show ?case using Suc.IH [of "(v + 1) div 3"] by simp
qed simp

lemma bt_value_digits_mod: "\<exists>k. bt_value (bt_digits n v) = v + k * 3 ^ n"
proof (induction n arbitrary: v)
  case 0
  then show ?case by (auto intro: exI [of _ "- v"])
next
  case (Suc n)
  obtain k where "bt_value (bt_digits n ((v + 1) div 3)) = (v + 1) div 3 + k * 3 ^ n" using Suc by blast
  then have "bt_value (bt_digits (Suc n) v) = ((v + 1) mod 3 - 1 + 3 * ((v + 1) div 3)) + k * 3 ^ Suc n" by simp
  then show ?case unfolding trit_div_mod by blast
qed

lemma add_assign_digits: "snd (add_assign (bt_digits n v) 1) = bt_digits n (v + 1)"
proof -
  obtain rc t where a: "add_assign (bt_digits n v) 1 = (rc, t)" by fastforce
  from add_assign_nonneg [OF bt_digits_valid _ _ a] obtain k where
    t: "length t = n" "valid_trits t" "bt_value t + k * 3 ^ n = bt_value (bt_digits n v) + 1" by auto
  obtain j where "bt_value (bt_digits n v) = v + j * 3 ^ n" using bt_value_digits_mod by blast
  then have "bt_value t = (v + 1) + (j - k) * 3 ^ n" using t(3) by (simp add: algebra_simps)
  then have "bt_digits n (bt_value t) = bt_digits n (v + 1)" by (simp only: bt_digits_mod)
  then show ?thesis using bt_digits_value [OF t(2)] a t(1) by simp
qed

text \<open>The bundle with the trits \<open>ts\<close> as the obsolete tag of its first transaction.\<close>

definition with_tag :: "flex_enc \<Rightarrow> bundle_transactions \<Rightarrow> trit list \<Rightarrow> bundle_transactions" where
  "with_tag e bs ts = essence_update (tx_obsolete_tag_update (\<lambda>_. flex_pack e ts)) (hd bs) # tl bs"

abbreviation bundle_hash_of ::
  "'k keccak \<Rightarrow> (nat \<Rightarrow> u8) \<Rightarrow> flex_enc \<Rightarrow> bundle_transactions \<Rightarrow> ('k \<times> flex_trit list) option"
where
  "bundle_hash_of K stack e bs \<equiv> bundle_calculate_hash K stack e bs (replicate (FLEX_TRIT_SIZE_243 e) 0)"

definition hash_secure :: "flex_enc \<Rightarrow> flex_trit list \<Rightarrow> bool" where
  "hash_secure e hash \<longleftrightarrow> 13 \<notin> set (normalize_flex_hash e hash)"

lemma flex_from_tag:
  assumes "length out = NUM_FLEX_TRITS_FOR_TRITS e 81"
  shows "snd (flex_trits_from_trits e out 81 (bt_digits 81 v) 81 81) = flex_pack e (bt_digits 81 v)"
proof -
  obtain d where d: "flex_trits_from_trits e out 81 (bt_digits 81 v) 81 81 = (81, d)" "flex_ok e d 81"
      "flex_abs e d = bt_digits 81 v @ replicate (NUM_TRITS_PER_FLEX_TRIT e * NUM_FLEX_TRITS_FOR_TRITS e 81 - 81) 0"
    using flex_trits_from_trits_abs [OF assms bt_digits_valid, of 81 81 v] by (auto simp del: bt_digits.simps)
  then have "flex_canonical e d 81" "flex_field e d 81 = bt_digits 81 v"
    by (auto simp: flex_canonical_def flex_field_def list_all_iff simp del: bt_digits.simps)
  then show ?thesis using flex_pack_field d(1) by force
qed

lemma flex_pack_length: "valid_trits ts \<Longrightarrow> length (flex_pack e ts) = NUM_FLEX_TRITS_FOR_TRITS e (length ts)"
  using flex_pack_canonical(1) [of ts "length ts" e] by (simp add: flex_canonical_def flex_ok_def)

lemma set_head_tag_with_tag:
  "set_head_tag e (with_tag e bs (bt_digits 81 v)) (bt_digits 81 w) = with_tag e bs (bt_digits 81 w)"
  using flex_pack_length [OF bt_digits_valid [of 81 v], of e]
  by (simp add: set_head_tag_def with_tag_def flex_from_tag comp_def del: bt_digits.simps)

lemma bundle_hash_out:
  "length out = NUM_FLEX_TRITS_FOR_TRITS e 243 \<Longrightarrow> bundle_calculate_hash K stack e bs out = bundle_hash_of K stack e bs"
  using bundle_hash_eq [of out e K stack bs] bundle_hash_eq [of "replicate (FLEX_TRIT_SIZE_243 e) 0" e K stack bs]
  by (simp add: FLEX_TRIT_SIZE_eq)

lemma list_ex_secure: "list_ex (\<lambda>v. v = 13) (normalize_flex_hash e h) \<longleftrightarrow> \<not> hash_secure e h"
  by (auto simp: hash_secure_def list_ex_iff)

lemma finalize_loop_reaches:
  fixes v :: int
  assumes B: "\<And>j. B j = with_tag e bs (bt_digits 81 (v + int j))"
    and ins: "\<And>j. j < k \<Longrightarrow> \<exists>kerl h. bundle_hash_of K stack e (B j) = Some (kerl, h) \<and> \<not> hash_secure e h"
    and sec: "bundle_hash_of K stack e (B k) = Some (kerl, hash)" "hash_secure e hash"
  shows "j \<le> k \<Longrightarrow> length out = NUM_FLEX_TRITS_FOR_TRITS e 243 \<Longrightarrow>
    finalize_loop K stack e (B j) (bt_digits 81 (v + int j)) out = Some (kerl, map (\<lambda>tx. transaction_set_bundle e tx hash) (B k))"
proof (induction "k - j" arbitrary: j out)
  case 0
  then have j: "j = k" by simp
  have "bundle_calculate_hash K stack e (B k) out = Some (kerl, hash)"
    unfolding bundle_hash_out [OF 0(3)] by (rule sec)
  then show ?case using sec(2) unfolding j
    by (subst finalize_loop.simps) (simp add: list_ex_secure del: bt_digits.simps)
next
  case (Suc d)
  then have jk: "j < k" "d = k - Suc j" by simp_all
  obtain kl h where h: "bundle_hash_of K stack e (B j) = Some (kl, h)" "\<not> hash_secure e h" using ins [OF jk(1)] by blast
  have h': "bundle_calculate_hash K stack e (B j) out = Some (kl, h)"
    unfolding bundle_hash_out [OF Suc.prems(2)] by (rule h)
  have l: "length h = NUM_FLEX_TRITS_FOR_TRITS e 243"
    using bundle_hash_canonical [OF h' Suc.prems(2)] by (simp add: flex_canonical_def flex_ok_def)
  have n: "snd (add_assign (bt_digits 81 (v + int j)) 1) = bt_digits 81 (v + int (Suc j))"
    unfolding add_assign_digits by (simp add: add_ac del: bt_digits.simps)
  have "set_head_tag e (B j) (bt_digits 81 (v + int (Suc j))) = B (Suc j)" unfolding B by (rule set_head_tag_with_tag)
  with Suc.hyps(1) [OF jk(2) _ l] jk(1) h(2) show ?case
    by (subst finalize_loop.simps) (simp only: h' option.case prod.case list_ex_secure Let_def n if_True simp_thms Suc_leI)
qed

text \<open>Storing the bundle hash does not change what is hashed.\<close>

lemma mask_or_and:
  "(m OR 64) AND 1 = m AND (1 :: u8)" "(m OR 64) AND 2 = m AND (2 :: u8)" "(m OR 64) AND 4 = m AND (4 :: u8)"
  "(m OR 64) AND 8 = m AND (8 :: u8)" "(m OR 64) AND 16 = m AND (16 :: u8)" "(m OR 64) AND 32 = m AND (32 :: u8)"
  "(m OR 64) AND 64 = (64 :: u8)"
  by (simp_all add: bit.conj_disj_distrib2)

lemma set_bundle_getters [simp]:
  "transaction_address (transaction_set_bundle e tx h) = transaction_address tx"
  "transaction_value (transaction_set_bundle e tx h) = transaction_value tx"
  "transaction_obsolete_tag (transaction_set_bundle e tx h) = transaction_obsolete_tag tx"
  "transaction_timestamp (transaction_set_bundle e tx h) = transaction_timestamp tx"
  "transaction_current_index (transaction_set_bundle e tx h) = transaction_current_index tx"
  "transaction_last_index (transaction_set_bundle e tx h) = transaction_last_index tx"
  "transaction_bundle (transaction_set_bundle e tx h) = Some (take (FLEX_TRIT_SIZE_243 e) h)"
  by (simp_all add: transaction_set_bundle_def load_essence_def transaction_getter_defs column_loaded_def mask_defs mask_or_and)

lemma absorb_bundle_set_bundle:
  "absorb_bundle K stack e kerl (map (\<lambda>tx. transaction_set_bundle e tx h) bs) = absorb_bundle K stack e kerl bs"
  by (induction bs arbitrary: kerl) (simp_all split: option.splits)

lemma finalize_loop_sound:
  "finalize_loop K stack e bs tag out = Some r \<Longrightarrow> length out = NUM_FLEX_TRITS_FOR_TRITS e 243 \<Longrightarrow> bs \<noteq> [] \<Longrightarrow>
    \<exists>t hash. hash_secure e hash \<and> flex_canonical e hash 243
      \<and> bundle_hash_of K stack e (essence_update (tx_obsolete_tag_update t) (hd bs) # tl bs) = Some (fst r, hash)
      \<and> snd r = map (\<lambda>tx. transaction_set_bundle e tx hash) (essence_update (tx_obsolete_tag_update t) (hd bs) # tl bs)"
proof (induction rule: finalize_loop.raw_induct [rotated, consumes 1])
  case (1 f K stack e bs tag out r)
  from 1(2) obtain kl h where h: "bundle_calculate_hash K stack e bs out = Some (kl, h)" by (auto split: option.splits)
  note hc = bundle_hash_canonical [OF h 1(3)]
  have l: "length h = NUM_FLEX_TRITS_FOR_TRITS e 243" using hc by (simp add: flex_canonical_def flex_ok_def)
  have h0: "bundle_hash_of K stack e bs = Some (kl, h)"
    unfolding bundle_hash_out [OF 1(3), symmetric] by (rule h)
  show ?case
  proof (cases "hash_secure e h")
    case True
    with 1(2) h have "r = (kl, map (\<lambda>tx. transaction_set_bundle e tx h) bs)" by (simp add: list_ex_secure)
    moreover have "essence_update (tx_obsolete_tag_update id) (hd bs) # tl bs = bs" using 1(4) by (cases bs) (simp_all add: id_def)
    ultimately show ?thesis using True hc h0 by (intro exI [of _ id] exI [of _ h]) (simp only: fst_conv snd_conv simp_thms)
  next
    case False
    let ?t = "snd (add_assign tag 1)" and ?bs = "set_head_tag e bs (snd (add_assign tag 1))"
    have "f K stack e ?bs ?t h = Some r" using 1(2) h False by (simp add: list_ex_secure Let_def)
    moreover have "?bs \<noteq> []" by (simp add: set_head_tag_def)
    ultimately obtain t hash where t: "hash_secure e hash" "flex_canonical e hash 243"
        "bundle_hash_of K stack e (essence_update (tx_obsolete_tag_update t) (hd ?bs) # tl ?bs) = Some (fst r, hash)"
        "snd r = map (\<lambda>tx. transaction_set_bundle e tx hash) (essence_update (tx_obsolete_tag_update t) (hd ?bs) # tl ?bs)"
      using 1(1) l by blast
    have "\<exists>t'. essence_update (tx_obsolete_tag_update t) (hd ?bs) # tl ?bs = essence_update (tx_obsolete_tag_update t') (hd bs) # tl bs"
      by (simp add: set_head_tag_def comp_def) blast
    with t show ?thesis by metis
  qed
qed

lemma bundle_finalize_sound:
  assumes "bundle_finalize K stack e bs = Some (kerl, bs')"
  shows "\<exists>t hash. hash_secure e hash \<and> flex_canonical e hash 243 \<and> bs \<noteq> []
    \<and> bs' = map (\<lambda>tx. transaction_set_bundle e tx hash) (essence_update (tx_obsolete_tag_update t) (hd bs) # tl bs)
    \<and> bundle_hash_of K stack e bs' = Some (kerl, hash)"
proof -
  from assms obtain tag where "bs \<noteq> []" and l: "finalize_loop K stack e bs tag (replicate (FLEX_TRIT_SIZE_243 e) 0) = Some (kerl, bs')"
    by (auto simp: bundle_finalize_def split: list.splits option.splits)
  from finalize_loop_sound [OF l _ this(1)] obtain t hash where t: "hash_secure e hash" "flex_canonical e hash 243"
      "bundle_hash_of K stack e (essence_update (tx_obsolete_tag_update t) (hd bs) # tl bs) = Some (kerl, hash)"
      "bs' = map (\<lambda>tx. transaction_set_bundle e tx hash) (essence_update (tx_obsolete_tag_update t) (hd bs) # tl bs)"
    by (auto simp: FLEX_TRIT_SIZE_eq)
  moreover have "bundle_hash_of K stack e bs' = Some (kerl, hash)"
    using t(3) unfolding t(4) bundle_calculate_hash_def absorb_bundle_set_bundle .
  ultimately show ?thesis using \<open>bs \<noteq> []\<close> by blast
qed

section \<open>Indexes and signing\<close>

lemma reset_indexes_nth:
  assumes "bundle_reset_indexes (Some bs) = Some bs'"
  shows "length bs' = length bs" "i < length bs \<Longrightarrow>
    bs' ! i = transaction_set_current_index (transaction_set_last_index (bs ! i) (uwrap64 (int (length bs) - 1))) (int i)"
  using assms by (auto simp: bundle_reset_indexes_def bundle_transactions_size_def Let_def nth_enumerate_eq split_beta)

lemma reset_indexes_Some: "bundle_reset_indexes (Some bs) = Some (the (bundle_reset_indexes (Some bs)))"
  by (simp add: bundle_reset_indexes_def Let_def)

text \<open>What signing may change: signatures and the mask of the loaded columns.\<close>

definition same_but_signatures :: "bundle_transactions \<Rightarrow> bundle_transactions \<Rightarrow> bool" where
  "same_but_signatures bs bs' \<longleftrightarrow> map essence bs' = map essence bs \<and> map attachment bs' = map attachment bs
     \<and> map consensus bs' = map consensus bs \<and> map metadata bs' = map metadata bs"

lemma same_but_signatures_refl: "same_but_signatures bs bs"
  by (simp add: same_but_signatures_def)

lemma same_but_signatures_trans: "same_but_signatures a b \<Longrightarrow> same_but_signatures b c \<Longrightarrow> same_but_signatures a c"
  by (simp add: same_but_signatures_def)

lemma same_but_signatures_update:
  assumes "i < length bs" "t = bs ! i"
  shows "same_but_signatures bs (bs[i := load_data m (data_update f t)])"
  using assms by (simp add: same_but_signatures_def load_data_def map_update list_update_same_conv)

lemma copy_signature_same: "copy_signature e sig ci i n bs tx = Some (bs', tx') \<Longrightarrow> same_but_signatures bs bs'"
proof (induction e sig ci i n bs tx rule: copy_signature.induct)
  case (2 e sig ci i n bs tx)
  from 2(2) obtain t where t: "bundle_at bs (ci + i) = Some t" by (auto split: option.splits)
  then have i: "ci + i < length bs" "t = bs ! (ci + i)" by (auto simp: bundle_at_def split: if_splits)
  from 2(1) [OF t] 2(2) t same_but_signatures_trans [OF same_but_signatures_update [OF i]] show ?case by simp
qed (simp add: same_but_signatures_refl)

fun result_bundle :: "'a sign_result \<Rightarrow> ('a \<Rightarrow> bundle_transactions) \<Rightarrow> bundle_transactions" where
  "result_bundle (SIGNED x) f = f x"
| "result_bundle (SIGN_FAILED bs) f = bs"

lemma sign_inputs_same:
  "sign_inputs K stack e alloc seed inps bs tx ci = Some r \<Longrightarrow> same_but_signatures bs (result_bundle r fst)"
proof (induction inps arbitrary: bs tx ci)
  case Nil
  then show ?case by (auto simp: same_but_signatures_refl)
next
  case (Cons inp inps)
  show ?case
  proof (cases "transaction_address (bs ! tx)")
    case None
    with Cons.prems show ?thesis by simp
  next
    case (Some a)
    note 1 = this
    show ?thesis
    proof (cases "in_address inp \<noteq> a \<or> (\<exists>c. transaction_current_index (bs ! tx) = Some c \<and> int ci > c)")
      case True
      then have "sign_inputs K stack e alloc seed inps bs tx ci = Some r" using Cons.prems 1 by (auto split: if_splits)
      then show ?thesis by (rule Cons.IH)
    next
      case False
      note 2 = this
      then obtain c h where 3: "transaction_current_index (bs ! tx) = Some c" "\<not> int ci > c" "transaction_bundle (bs ! tx) = Some h"
        using Cons.prems 1 by (cases "transaction_current_index (bs ! tx)"; cases "transaction_bundle (bs ! tx)") simp_all
      let ?g = "iota_sign_signature_gen_flex_trits e K stack alloc seed (in_key_index inp) (in_security inp) (Some h)"
      have g: "(case ?g of None \<Rightarrow> None | Some None \<Rightarrow> Some (SIGN_FAILED bs)
          | Some (Some sig) \<Rightarrow> (case copy_signature e sig ci 0 (in_security inp) bs tx of None \<Rightarrow> None
              | Some (b, t) \<Rightarrow> sign_inputs K stack e alloc seed inps b t (ci + in_security inp))) = Some r"
        using Cons.prems 1 2 3 by simp
      show ?thesis
      proof (cases "?g = Some None")
        case True
        with g show ?thesis by (auto simp: same_but_signatures_refl)
      next
        case False
        with g obtain sig b t where "copy_signature e sig ci 0 (in_security inp) bs tx = Some (b, t)"
          "sign_inputs K stack e alloc seed inps b t (ci + in_security inp) = Some r"
          by (auto split: option.splits)
        then show ?thesis using Cons.IH copy_signature_same same_but_signatures_trans by blast
      qed
    qed
  qed
qed

lemma sign_loop_same:
  "sign_loop K stack e alloc seed inps bs tx ci = Some r \<Longrightarrow> same_but_signatures bs (result_bundle r id)"
proof (induction rule: sign_loop.raw_induct [rotated, consumes 1])
  case (1 f K stack e alloc seed inps bs tx ci r)
  show ?case
  proof (cases "tx \<ge> length bs")
    case True
    with 1(2) show ?thesis by (auto simp: same_but_signatures_refl)
  next
    case False
    then obtain v where v: "transaction_value (bs ! tx) = Some v" using 1(2) by (cases "transaction_value (bs ! tx)") simp_all
    show ?thesis
    proof (cases "v < 0")
      case True
      let ?s = "sign_inputs K stack e alloc seed inps bs tx ci"
      have s: "(case ?s of None \<Rightarrow> None | Some (SIGN_FAILED b) \<Rightarrow> Some (SIGN_FAILED b)
          | Some (SIGNED (b, t, c)) \<Rightarrow> f K stack e alloc seed inps b (t + 1) c) = Some r"
        using 1(2) False v True by simp
      then obtain q where q: "?s = Some q" by (cases ?s) simp_all
      show ?thesis
      proof (cases q)
        case (SIGN_FAILED b)
        then have "r = SIGN_FAILED b" using s q by simp
        then show ?thesis using sign_inputs_same [OF q] SIGN_FAILED by simp
      next
        case (SIGNED x)
        obtain b t c where x: "x = (b, t, c)" by (cases x)
        then have "f K stack e alloc seed inps b (t + 1) c = Some r" using s q SIGNED by simp
        from 1(1) [OF this] sign_inputs_same [OF q] show ?thesis using SIGNED x by (auto intro: same_but_signatures_trans)
      qed
    next
      case pos: False
      then have "f K stack e alloc seed inps bs (tx + 1) (ci + 1) = Some r" using 1(2) False v by simp
      then show ?thesis by (rule 1(1))
    qed
  qed
qed

lemma set_indexes_fields:
  "essence (transaction_set_current_index (transaction_set_last_index tx l) c)
     = (essence tx)\<lparr>tx_last_index := l, tx_current_index := c\<rparr>"
  "attachment (transaction_set_current_index (transaction_set_last_index tx l) c) = attachment tx"
  "data (transaction_set_current_index (transaction_set_last_index tx l) c) = data tx"
  by (simp_all add: transaction_set_current_index_def transaction_set_last_index_def load_essence_def)

lemma bundle_sign_sound:
  assumes "bundle_sign K stack e alloc bs seed inps = Some (rc, bs')"
  shows "rc = RC_OK \<or> rc = RC_COMMON_BUNDLE_SIGN"
    and "\<exists>kerl fin. bundle_finalize K stack e (the (bundle_reset_indexes (Some bs))) = Some (kerl, fin)
      \<and> map essence bs' = map essence fin \<and> map attachment bs' = map attachment fin"
proof -
  let ?r = "the (bundle_reset_indexes (Some bs))"
  from assms obtain kerl fin res where fin: "bundle_finalize K stack e ?r = Some (kerl, fin)"
      and res: "sign_loop K stack e alloc seed inps fin 0 0 = Some res"
      and out: "(case res of SIGN_FAILED b \<Rightarrow> (RC_COMMON_BUNDLE_SIGN, b) | SIGNED b \<Rightarrow> (RC_OK, the (bundle_reset_indexes (Some b)))) = (rc, bs')"
    unfolding bundle_sign_def by (auto split: option.splits sign_result.splits)
  show "rc = RC_OK \<or> rc = RC_COMMON_BUNDLE_SIGN" using out by (auto split: sign_result.splits)
  obtain t hash where f: "fin = map (\<lambda>tx. transaction_set_bundle e tx hash) (essence_update (tx_obsolete_tag_update t) (hd ?r) # tl ?r)" "?r \<noteq> []"
    using bundle_finalize_sound [OF fin] by blast
  note r = reset_indexes_nth [OF reset_indexes_Some]
  have lf: "length fin = length bs" using f r(1) [of bs] by (cases ?r) auto
  have idx: "tx_last_index (essence (fin ! i)) = uwrap64 (int (length bs) - 1) \<and> tx_current_index (essence (fin ! i)) = int i"
    if "i < length bs" for i
  proof -
    have "fin ! i = transaction_set_bundle e (if i = 0 then essence_update (tx_obsolete_tag_update t) (?r ! i) else ?r ! i) hash"
      using f that r(1) [of bs] by (cases ?r; cases i) auto
    moreover have "essence (?r ! i) = (essence (bs ! i))\<lparr>tx_last_index := uwrap64 (int (length bs) - 1), tx_current_index := int i\<rparr>"
      using r(2) [OF that] by (simp add: set_indexes_fields)
    ultimately show ?thesis by (cases "i = 0") (simp_all add: transaction_set_bundle_def load_essence_def)
  qed
  note same = sign_loop_same [OF res, unfolded same_but_signatures_def]
  show "\<exists>kerl fin. bundle_finalize K stack e ?r = Some (kerl, fin) \<and> map essence bs' = map essence fin \<and> map attachment bs' = map attachment fin"
  proof (cases res)
    case (SIGN_FAILED b)
    then show ?thesis using fin same out by auto
  next
    case (SIGNED b)
    then have b: "map essence b = map essence fin" "map attachment b = map attachment fin" "bs' = the (bundle_reset_indexes (Some b))"
      using same out by simp_all
    have lb: "length b = length bs" using b(1) lf by (metis length_map)
    have "essence (bs' ! i) = essence (fin ! i) \<and> attachment (bs' ! i) = attachment (fin ! i)" if i: "i < length bs" for i
    proof -
      have e: "essence (b ! i) = essence (fin ! i)" "attachment (b ! i) = attachment (fin ! i)"
        using b(1,2) i lb lf by (metis nth_map)+
      have "(essence (fin ! i))\<lparr>tx_last_index := uwrap64 (int (length bs) - 1), tx_current_index := int i\<rparr> = essence (fin ! i)"
        using idx [OF i] by (metis essence_fields.surjective essence_fields.update_convs(5,6) essence_fields.select_convs(5,6))
      then show ?thesis unfolding b(3) using r(2) [of i b] i lb e by (simp add: set_indexes_fields)
    qed
    moreover have "length bs' = length bs" unfolding b(3) using r(1) [of b] lb by simp
    ultimately have "map essence bs' = map essence fin" "map attachment bs' = map attachment fin"
      using lf by (auto intro!: nth_equalityI)
    then show ?thesis using fin by blast
  qed
qed

section \<open>An example\<close>

text \<open>A bundle of one empty transaction with its essence loaded.\<close>

definition loaded_tx :: "flex_enc \<Rightarrow> iota_transaction" where
  "loaded_tx e = load_essence MASK_ESSENCE_ALL (transaction_reset e)"

lemma loaded_tx_getters:
  "transaction_address (loaded_tx e) = Some (tx_address (essence (transaction_reset e)))" "transaction_value (loaded_tx e) = Some 0"
  "transaction_obsolete_tag (loaded_tx e) = Some (tx_obsolete_tag (essence (transaction_reset e)))"
  "transaction_timestamp (loaded_tx e) = Some 0" "transaction_current_index (loaded_tx e) = Some 0"
  "transaction_last_index (loaded_tx e) = Some 0" "transaction_bundle (loaded_tx e) = Some (tx_bundle (essence (transaction_reset e)))"
  "essence (loaded_tx e) = essence (transaction_reset e)"
  by (simp_all add: loaded_tx_def load_essence_def transaction_getter_defs column_loaded_def MASK_ESSENCE_ALL_def mask_defs
      transaction_reset_def Let_def)

lemma loaded_tx_ok: "transaction_canonical e (loaded_tx e)" "essence_ok e (loaded_tx e)" "essence_loaded (loaded_tx e)"
proof -
  note r = transaction_reset_canonical [of e]
  show "transaction_canonical e (loaded_tx e)"
    using r by (simp add: transaction_canonical_def all_arrays_def loaded_tx_def load_essence_def int64_value_def)
  show "essence_ok e (loaded_tx e)"
    using r by (simp add: transaction_canonical_def all_arrays_def loaded_tx_getters essence_ok_def flex_canonical_def int64_value_def)
  show "essence_loaded (loaded_tx e)" by (simp add: essence_loaded_def loaded_tx_getters)
qed

lemma null_hash: "flex_pack e (replicate 243 0) = tx_bundle (essence (transaction_reset e))"
proof -
  have "flex_field e (replicate (NUM_FLEX_TRITS_FOR_TRITS e 243) (FLEX_TRIT_NULL_VALUE e)) 243 = replicate 243 0"
    using num_cells_ge [OF flex.w_pos, of 243 e] by (simp add: flex_field_def flex_abs_null NUM_FLEX_TRITS_cells)
  then show ?thesis
    using flex_pack_field [OF flex_null_canonical [of e 243]] by (simp add: transaction_reset_def Let_def FLEX_TRIT_SIZE_eq)
qed

lemma null_keccak_squeeze: "kerl_squeeze null_keccak k 243 = Some (48, replicate 243 0)"
proof -
  have "is_null (words_of_bytes (map (\<lambda>_. 0) [0..<HASH_BYTE_LEN]))" by code_simp
  moreover have "length (bytes_of_words (map (\<lambda>w. w XOR 0xFFFFFFFF) (words_of_bytes (map (\<lambda>_. 0) [0..<HASH_BYTE_LEN])))) = 48"
    by code_simp
  ultimately show ?thesis by (simp add: kerl_squeeze_def convert_bytes_to_trits_def kerl_init_def)
qed

lemma loaded_tx_hash:
  "bundle_hash_of null_keccak (\<lambda>_. 0) e [loaded_tx e] = Some (48, tx_bundle (essence (transaction_reset e)))"
proof -
  have l: "length (essence_trits e (loaded_tx e)) mod 243 = 0"
    using loaded_tx_ok(2) [of e] by (simp add: essence_trits_def essence_ok_def flex_field_length del: bt_digits.simps)
  obtain k where "kerl_absorb null_keccak (\<lambda>_. 0) (kerl_init null_keccak) (essence_trits e (loaded_tx e)) = Some k"
    using kerl_ops_total(1) [OF null_keccak_total l, of "\<lambda>_. 0" "kerl_init null_keccak"] by (auto simp: kerl_ops_def)
  then have "absorb_bundle null_keccak (\<lambda>_. 0) e (kerl_init null_keccak) [loaded_tx e] = Some k"
    using absorb_bundle_eq [of e "[loaded_tx e]" null_keccak "\<lambda>_. 0" "kerl_init null_keccak"] loaded_tx_ok(2,3) [of e]
    by (simp del: absorb_bundle.simps)
  then show ?thesis using bundle_hash_eq [of "replicate (FLEX_TRIT_SIZE_243 e) 0" e null_keccak "\<lambda>_. 0" "[loaded_tx e]"]
    by (simp add: FLEX_TRIT_SIZE_eq null_keccak_squeeze null_hash del: absorb_bundle.simps)
qed

lemma null_hash_secure: "hash_secure e (tx_bundle (essence (transaction_reset e)))"
proof -
  let ?h = "tx_bundle (essence (transaction_reset e))"
  have c: "flex_canonical e ?h 243" "flex_field e ?h 243 = replicate 243 0"
    using flex_pack_canonical [of "replicate 243 0" 243 e] by (simp_all add: null_hash)
  then have ok: "flex_ok e ?h 243" by (simp add: flex_canonical_def)
  have "e = ENC3 \<Longrightarrow> 3 * NUM_FLEX_TRITS_FOR_TRITS e 243 \<le> length (replicate 243 (0 :: int))"
    by (simp add: NUM_FLEX_TRITS_FOR_TRITS_def)
  then have "snd (flex_trits_to_trits e (replicate 243 0) 243 ?h 243 243) = replicate 243 0"
    using flex_trits_to_trits_abs [OF ok, of 243 "replicate 243 0"] c(2) by (auto simp: flex_field_def)
  moreover have "list_all (\<lambda>v. v \<noteq> 13) (normalize_hash (replicate 243 0))" by code_simp
  ultimately show ?thesis by (auto simp: hash_secure_def normalize_flex_hash_def list_all_iff)
qed

section \<open>Properties\<close>



text \<open>
  The bundle hash covers exactly the essences: it is the Kerl hash of trits 6561 to 7046 of the serialised
  transactions, in order, whatever the output buffer held.
\<close>

theorem bundle_hash_covers_essences:
  assumes "list_all (\<lambda>tx. transaction_ok e tx \<and> essence_ok e tx \<and> essence_loaded tx) bs"
    and "length out = NUM_FLEX_TRITS_FOR_TRITS e 243"
  shows "bundle_calculate_hash K stack e bs out =
    (case absorb_all K stack (kerl_init K) (map (\<lambda>tx. slice 6561 486 (transaction_trits e tx)) bs) of None \<Rightarrow> None
     | Some kerl \<Rightarrow> map_option (\<lambda>(kerl, h). (kerl, flex_pack e h)) (kerl_squeeze K kerl 243))"
proof -
  have "map (essence_trits e) bs = map (\<lambda>tx. slice 6561 486 (transaction_trits e tx)) bs"
    using assms(1) by (auto simp: list_all_iff essence_trits_slice)
  moreover have "list_all (\<lambda>tx. essence_ok e tx \<and> essence_loaded tx) bs" using assms(1) by (simp add: list_all_iff)
  ultimately show ?thesis unfolding bundle_hash_eq [OF assms(2)] by (simp only: absorb_bundle_eq)
qed

theorem bundle_hash_covers_essences_witness:
  "bundle_calculate_hash null_keccak (\<lambda>_. 0) ENC1 [loaded_tx ENC1] (replicate 243 0) =
    (case absorb_all null_keccak (\<lambda>_. 0) (kerl_init null_keccak) [slice 6561 486 (transaction_trits ENC1 (loaded_tx ENC1))] of
       None \<Rightarrow> None
     | Some kerl \<Rightarrow> map_option (\<lambda>(kerl, h). (kerl, flex_pack ENC1 h)) (kerl_squeeze null_keccak kerl 243))"
  using bundle_hash_covers_essences [of ENC1 "[loaded_tx ENC1]" "replicate 243 0" null_keccak "\<lambda>_. 0"]
    loaded_tx_ok [of ENC1] transaction_canonical_ok [of ENC1 "loaded_tx ENC1"]
  by (simp add: NUM_FLEX_TRITS_FOR_TRITS_def)

text \<open>
  C7. Finalisation ends when there is a tag with a secure hash: if incrementing the obsolete tag of the first transaction
  \<open>k\<close> times gives the first bundle whose normalised hash has no tryte 13, \<open>bundle_finalize\<close> returns that bundle,
  with the hash stored in all its transactions.
\<close>

theorem bundle_finalize_finds_tag:
  assumes "bs \<noteq> []" "transaction_obsolete_tag (hd bs) = Some tag" "flex_canonical e tag 81"
    and "\<And>j. j < k \<Longrightarrow> \<exists>kerl h. bundle_hash_of K stack e (with_tag e bs (bt_digits 81 (bt_value (flex_field e tag 81) + int j))) = Some (kerl, h)
        \<and> \<not> hash_secure e h"
    and "bundle_hash_of K stack e (with_tag e bs (bt_digits 81 (bt_value (flex_field e tag 81) + int k))) = Some (kerl, hash)"
    and "hash_secure e hash"
  shows "bundle_finalize K stack e bs = Some (kerl, map (\<lambda>tx. transaction_set_bundle e tx hash)
    (with_tag e bs (bt_digits 81 (bt_value (flex_field e tag 81) + int k))))"
proof -
  let ?v = "bt_value (flex_field e tag 81)"
  have ok: "flex_ok e tag 81" using assms(3) by (simp add: flex_canonical_def)
  have t: "tag = tx_obsolete_tag (essence (hd bs))"
    using assms(2) by (auto simp: transaction_obsolete_tag_def split: if_splits)
  have d: "bt_digits 81 ?v = flex_field e tag 81"
    using bt_digits_value [OF flex_field_valid [OF ok]] by (simp add: flex_field_length [OF ok])
  have "with_tag e bs (bt_digits 81 ?v) = bs"
    using assms(1) t unfolding d with_tag_def flex_pack_field [OF assms(3)] by (cases bs) simp_all
  then have b0: "with_tag e bs (bt_digits 81 (?v + int 0)) = bs" by (simp del: bt_digits.simps)
  have "e = ENC3 \<Longrightarrow> 3 * NUM_FLEX_TRITS_FOR_TRITS e 81 \<le> length (replicate 81 (0 :: int))"
    by (simp add: NUM_FLEX_TRITS_FOR_TRITS_def)
  then have u: "snd (flex_trits_to_trits e (replicate 81 0) 81 tag 81 81) = bt_digits 81 (?v + int 0)"
    using flex_trits_to_trits_abs [OF ok, of 81 "replicate 81 0"] d by (auto simp: flex_field_def simp del: bt_digits.simps)
  have "finalize_loop K stack e (with_tag e bs (bt_digits 81 (?v + int 0))) (bt_digits 81 (?v + int 0))
      (replicate (FLEX_TRIT_SIZE_243 e) 0) = Some (kerl, map (\<lambda>tx. transaction_set_bundle e tx hash) (with_tag e bs (bt_digits 81 (?v + int k))))"
    by (rule finalize_loop_reaches [OF refl assms(4-6)]) (simp_all add: FLEX_TRIT_SIZE_eq)
  then show ?thesis using assms(1,2) unfolding b0 unfolding u [symmetric] by (cases bs) (simp_all add: bundle_finalize_def)
qed

theorem bundle_finalize_finds_tag_witness:
  "\<exists>kerl bs'. bundle_finalize null_keccak (\<lambda>_. 0) ENC3 [loaded_tx ENC3] = Some (kerl, bs')"
proof -
  let ?t = "tx_obsolete_tag (essence (transaction_reset ENC3))"
  have c: "flex_canonical ENC3 ?t 81"
    using transaction_reset_canonical [of ENC3] by (simp add: transaction_canonical_def all_arrays_def)
  have "bt_digits 81 (bt_value (flex_field ENC3 ?t 81)) = flex_field ENC3 ?t 81"
    using bt_digits_value [OF flex_field_valid [of ENC3 ?t 81]] c flex_field_length [of ENC3 ?t 81] by (simp add: flex_canonical_def)
  then have "with_tag ENC3 [loaded_tx ENC3] (bt_digits 81 (bt_value (flex_field ENC3 ?t 81) + int 0)) = [loaded_tx ENC3]"
    using flex_pack_field [OF c] loaded_tx_getters(8) [of ENC3] by (simp add: with_tag_def del: bt_digits.simps)
  then have h: "bundle_hash_of null_keccak (\<lambda>_. 0) ENC3 (with_tag ENC3 [loaded_tx ENC3] (bt_digits 81 (bt_value (flex_field ENC3 ?t 81) + int 0)))
      = Some (48, tx_bundle (essence (transaction_reset ENC3)))" by (simp only: loaded_tx_hash)
  from bundle_finalize_finds_tag [OF _ _ c _ h null_hash_secure] show ?thesis by (auto simp: loaded_tx_getters)
qed

text \<open>
  C35. A finalised bundle is consistent: when \<open>bundle_finalize\<close> returns, only the obsolete tag of the first transaction and
  the bundle fields have changed, every transaction carries the hash of the returned bundle itself, and the normalised
  hash has no tryte 13.
\<close>

theorem bundle_finalize_consistent:
  assumes "bundle_finalize K stack e bs = Some (kerl, bs')"
  shows "\<exists>t hash. hash_secure e hash \<and> flex_canonical e hash 243 \<and> bs \<noteq> []
    \<and> bs' = map (\<lambda>tx. transaction_set_bundle e tx hash) (essence_update (tx_obsolete_tag_update t) (hd bs) # tl bs)
    \<and> bundle_hash_of K stack e bs' = Some (kerl, hash)"
  by (rule bundle_finalize_sound [OF assms])

lemma loaded_tx_finalize:
  "bundle_finalize null_keccak (\<lambda>_. 0) e [loaded_tx e]
    = Some (48, [transaction_set_bundle e (loaded_tx e) (tx_bundle (essence (transaction_reset e)))])"
  by (simp add: bundle_finalize_def loaded_tx_getters, subst finalize_loop.simps)
    (simp add: loaded_tx_hash list_ex_secure null_hash_secure)

theorem bundle_finalize_consistent_witness:
  "\<exists>hash. hash_secure ENC5 hash \<and> bundle_hash_of null_keccak (\<lambda>_. 0) ENC5
      [transaction_set_bundle ENC5 (loaded_tx ENC5) (tx_bundle (essence (transaction_reset ENC5)))] = Some (48, hash)"
  using bundle_finalize_consistent [OF loaded_tx_finalize [of ENC5]] by blast

text \<open>
  Signing adds signatures only: when \<open>bundle_sign\<close> returns, successfully or with the error of the signature generation, the essences
  (so the bundle hash that is signed) and the attachments are those of the finalised bundle.
\<close>

theorem bundle_sign_keeps_essences:
  assumes "bundle_sign K stack e alloc bs seed inps = Some (rc, bs')"
  shows "(rc = RC_OK \<or> rc = RC_COMMON_BUNDLE_SIGN)
    \<and> (\<exists>kerl fin. bundle_finalize K stack e (the (bundle_reset_indexes (Some bs))) = Some (kerl, fin)
        \<and> map essence bs' = map essence fin \<and> map attachment bs' = map attachment fin)"
  using bundle_sign_sound [OF assms] by blast

lemma loaded_tx_reset: "bundle_reset_indexes (Some [loaded_tx e]) = Some [loaded_tx e]"
  by (simp add: bundle_reset_indexes_def bundle_transactions_size_def transaction_set_current_index_def transaction_set_last_index_def
      loaded_tx_def load_essence_def comp_def transaction_reset_def Let_def MASK_ESSENCE_ALL_def mask_defs)

theorem bundle_sign_keeps_essences_witness:
  "\<exists>bs'. bundle_sign null_keccak (\<lambda>_. 0) ENC1 (\<lambda>_. True) [loaded_tx ENC1] None [] = Some (RC_OK, bs')
    \<and> (\<exists>kerl fin. bundle_finalize null_keccak (\<lambda>_. 0) ENC1 (the (bundle_reset_indexes (Some [loaded_tx ENC1]))) = Some (kerl, fin)
        \<and> map essence bs' = map essence fin)"
proof -
  have "sign_loop null_keccak (\<lambda>_. 0) ENC1 (\<lambda>_. True) None [] [t] 0 0 = Some (SIGNED [t])" if "transaction_value t = Some 0" for t
    by (subst sign_loop.simps, subst sign_loop.simps) (simp add: that)
  then have "sign_loop null_keccak (\<lambda>_. 0) ENC1 (\<lambda>_. True) None []
      [transaction_set_bundle ENC1 (loaded_tx ENC1) (tx_bundle (essence (transaction_reset ENC1)))] 0 0
      = Some (SIGNED [transaction_set_bundle ENC1 (loaded_tx ENC1) (tx_bundle (essence (transaction_reset ENC1)))])"
    by (simp add: loaded_tx_getters)
  then obtain bs' where b: "bundle_sign null_keccak (\<lambda>_. 0) ENC1 (\<lambda>_. True) [loaded_tx ENC1] None [] = Some (RC_OK, bs')"
    by (simp add: bundle_sign_def loaded_tx_reset loaded_tx_finalize)
  from bundle_sign_keeps_essences [OF b] b show ?thesis by blast
qed

text \<open>
  Resetting the indexes numbers the transactions from zero, gives all of them the same last index, loads both columns and changes no
  other field.
\<close>

theorem bundle_reset_indexes_numbers:
  assumes "bs \<noteq> []" "int (length bs) \<le> 2 ^ 64"
  shows "\<exists>bs'. bundle_reset_indexes (Some bs) = Some bs' \<and> length bs' = length bs
    \<and> (\<forall>i < length bs. transaction_current_index (bs' ! i) = Some (int i) \<and> transaction_last_index (bs' ! i) = Some (int (length bs) - 1)
        \<and> essence (bs' ! i) = (essence (bs ! i))\<lparr>tx_last_index := int (length bs) - 1, tx_current_index := int i\<rparr>
        \<and> attachment (bs' ! i) = attachment (bs ! i) \<and> data (bs' ! i) = data (bs ! i))"
proof -
  let ?l = "int (length bs) - 1"
  have u: "uwrap64 ?l = ?l" using assms by (cases bs) simp_all
  note r = reset_indexes_nth [OF reset_indexes_Some [of bs], unfolded u]
  have m: "((m OR 32) OR 16) AND 32 \<noteq> (0 :: u8)" "((m OR 32) OR 16) AND 16 \<noteq> (0 :: u8)" for m
  proof -
    have "bit (((m OR 32) OR 16) AND (32 :: u8)) 5" "bit (((m OR 32) OR 16) AND (16 :: u8)) 4" by (simp_all add: bit_simps)
    then show "((m OR 32) OR 16) AND 32 \<noteq> (0 :: u8)" "((m OR 32) OR 16) AND 16 \<noteq> (0 :: u8)" by auto
  qed
  have g: "transaction_current_index (transaction_set_current_index (transaction_set_last_index tx l) c) = Some c"
      "transaction_last_index (transaction_set_current_index (transaction_set_last_index tx l) c) = Some l" for tx l c
    using m by (simp_all add: transaction_current_index_def transaction_last_index_def transaction_set_current_index_def
        transaction_set_last_index_def load_essence_def column_loaded_def mask_defs)
  show ?thesis
    using r by (intro exI [of _ "the (bundle_reset_indexes (Some bs))"]) (simp add: reset_indexes_Some [symmetric] g set_indexes_fields)
qed

theorem bundle_reset_indexes_numbers_witness:
  "\<exists>bs'. bundle_reset_indexes (Some [loaded_tx ENC1, loaded_tx ENC1]) = Some bs'
    \<and> transaction_current_index (bs' ! 1) = Some 1 \<and> transaction_last_index (bs' ! 1) = Some 1"
  using bundle_reset_indexes_numbers [of "[loaded_tx ENC1, loaded_tx ENC1]"] by (auto simp: less_Suc_eq)

text \<open>
  Where validation is undefined: an empty bundle makes \<open>bundle_validate\<close> read the index of a transaction that does not exist, and a
  value of \<open>INT64_MIN\<close> has no absolute value; a missing bundle is reported.
\<close>

theorem bundle_validate_undefined:
  "bundle_validate K stack e None st = Some (RC_NULL_PARAM, BUNDLE_NOT_INITIALIZED)
    \<and> bundle_validate K stack e (Some []) st = None
    \<and> bundle_validate K stack e (Some [transaction_set_value (loaded_tx e) INT64_MIN]) st = None"
proof -
  have "transaction_last_index (transaction_set_value (loaded_tx e) v) = Some 0"
      "transaction_value (transaction_set_value (loaded_tx e) v) = Some v"
      "transaction_bundle (transaction_set_value (loaded_tx e) v) = Some (tx_bundle (essence (transaction_reset e)))" for v
    by (simp_all add: loaded_tx_def load_essence_def transaction_getter_defs transaction_set_value_def column_loaded_def MASK_ESSENCE_ALL_def
        mask_defs transaction_reset_def Let_def)
  then show ?thesis by (simp add: bundle_validate_def llabs_def)
qed

end
