(* ===== verification/Hash_Containers.thy ===== *)
theory Hash_Containers
  imports Prelude Errors Flex_Trit "HOL-Library.DAList"
begin

text \<open>
  \<open>utils/containers\<close>: the hash maps, hash sets, stacks and queues that the node generates from templates
  (\<open>hash_map.c.tpl\<close>, \<open>hash_set.c.tpl\<close>, \<open>hash_stack.c.tpl\<close>, \<open>hash_queue.c.tpl\<close>, \<open>map.c.tpl\<close>). Maps and sets are
  tables of the uthash library, which is not part of the repository: its macros are the fields of the
  record \<open>uthash\<close>, an argument of every operation, and the locale \<open>uthash_laws\<close> states what its manual says
  of them. A table whose head pointer is NULL is the empty one. \<open>HASH_ROOM\<close> tells whether \<open>malloc\<close> returns
  memory for an entry that is to be added to the table.
\<close>

section \<open>The hash table library\<close>

text \<open>
  \<open>HASH_ENTRIES\<close> is the order in which \<open>HASH_ITER\<close> visits the entries, whose first is the head pointer;
  \<open>HASH_ASSIGN\<close> is a write of the value through the pointer that \<open>HASH_FIND\<close> returned.
\<close>

record ('t, 'k, 'v) uthash =
  HASH_NULL :: 't
  HASH_FIND :: "'t \<Rightarrow> 'k \<Rightarrow> 'v option"
  HASH_ADD :: "'t \<Rightarrow> 'k \<Rightarrow> 'v \<Rightarrow> 't"
  HASH_ASSIGN :: "'t \<Rightarrow> 'k \<Rightarrow> 'v \<Rightarrow> 't"
  HASH_DEL :: "'t \<Rightarrow> 'k \<Rightarrow> 't"
  HASH_ENTRIES :: "'t \<Rightarrow> ('k \<times> 'v) list"
  HASH_ROOM :: "'t \<Rightarrow> bool"

definition HASH_COUNT :: "('t, 'k, 'v) uthash \<Rightarrow> 't \<Rightarrow> nat" where
  "HASH_COUNT U t = length (HASH_ENTRIES U t)"

definition HASH_KEYS :: "('t, 'k, 'v) uthash \<Rightarrow> 't \<Rightarrow> 'k list" where
  "HASH_KEYS U t = map fst (HASH_ENTRIES U t)"

text \<open>
  Insertion order, unique keys (a key that is added must be new), deletion and change of one entry.
\<close>

locale uthash_laws =
  fixes U :: "('t, 'k, 'v) uthash"
  assumes null_entries [simp]: "HASH_ENTRIES U (HASH_NULL U) = []"
    and keys_distinct [simp]: "distinct (map fst (HASH_ENTRIES U t))"
    and find_entries: "HASH_FIND U t k = map_of (HASH_ENTRIES U t) k"
    and add_entries: "HASH_FIND U t k = None \<Longrightarrow> HASH_ENTRIES U (HASH_ADD U t k v) = HASH_ENTRIES U t @ [(k, v)]"
    and assign_entries: "HASH_FIND U t k = Some w \<Longrightarrow> HASH_ENTRIES U (HASH_ASSIGN U t k v) = AList.update k v (HASH_ENTRIES U t)"
    and del_entries: "HASH_ENTRIES U (HASH_DEL U t k) = filter (\<lambda>e. fst e \<noteq> k) (HASH_ENTRIES U t)"
begin

lemma find_none_iff: "HASH_FIND U t k = None \<longleftrightarrow> k \<notin> set (HASH_KEYS U t)"
  by (simp add: find_entries HASH_KEYS_def map_of_eq_None_iff)

lemma find_add: "HASH_FIND U t k = None \<Longrightarrow> HASH_FIND U (HASH_ADD U t k v) k' = (if k' = k then Some v else HASH_FIND U t k')"
  by (auto simp: find_entries add_entries map_add_def split: option.splits)

lemma find_assign:
  "HASH_FIND U t k = Some w \<Longrightarrow> HASH_FIND U (HASH_ASSIGN U t k v) k' = (if k' = k then Some v else HASH_FIND U t k')"
  by (simp add: find_entries [of "HASH_ASSIGN U t k v"] find_entries [of t k'] assign_entries update_conv)

lemma find_del: "HASH_FIND U (HASH_DEL U t k) k' = (if k' = k then None else HASH_FIND U t k')"
proof -
  have "map_of (filter (\<lambda>e. fst e \<noteq> k) es) k' = (if k' = k then None else map_of es k')" for es :: "('k \<times> 'v) list"
    by (induction es) auto
  then show ?thesis by (simp add: find_entries del_entries)
qed

lemma find_null: "HASH_FIND U (HASH_NULL U) k = None"
  by (simp add: find_entries)

lemmas find_simps = find_add find_assign find_del find_null

end

text \<open>Tables that satisfy the laws: association lists with unique keys.\<close>

definition alist_uthash :: "(('k, 'v) alist \<Rightarrow> bool) \<Rightarrow> (('k, 'v) alist, 'k, 'v) uthash" where
  "alist_uthash room = \<lparr>HASH_NULL = DAList.empty, HASH_FIND = DAList.lookup, HASH_ADD = (\<lambda>t k v. DAList.update k v t),
     HASH_ASSIGN = (\<lambda>t k v. DAList.update k v t), HASH_DEL = (\<lambda>t k. DAList.delete k t), HASH_ENTRIES = DAList.impl_of,
     HASH_ROOM = room\<rparr>"

lemma alist_update_new: "k \<notin> set (map fst es) \<Longrightarrow> AList.update k v es = es @ [(k, v)]"
  by (induction es) auto

lemma alist_delete_filter: "AList.delete k es = filter (\<lambda>e. fst e \<noteq> k) es"
  by (induction es) auto

interpretation alist_table: uthash_laws "alist_uthash room" for room
  by unfold_locales
    (auto simp: alist_uthash_def DAList.empty.rep_eq DAList.lookup.rep_eq DAList.update.rep_eq DAList.delete.rep_eq
      map_of_eq_None_iff alist_update_new alist_delete_filter)

section \<open>Hash maps\<close>

text \<open>\<open>hash_map.c.tpl\<close>. Adding a key that is present keeps the old value.\<close>

definition hash_map_add :: "('t, 'k, 'v) uthash \<Rightarrow> 't \<Rightarrow> 'k \<Rightarrow> 'v \<Rightarrow> retcode \<times> 't" where
  "hash_map_add U mp hash value =
     (case HASH_FIND U mp hash of
        None \<Rightarrow> if HASH_ROOM U mp then (RC_OK, HASH_ADD U mp hash value) else (RC_OOM, mp)
      | Some _ \<Rightarrow> (RC_OK, mp))"

definition hash_map_contains :: "('t, 'k, 'v) uthash \<Rightarrow> 't \<Rightarrow> 'k \<Rightarrow> bool" where
  "hash_map_contains U mp hash = (HASH_FIND U mp hash \<noteq> None)"

definition hash_map_remove :: "('t, 'k, 'v) uthash \<Rightarrow> 't \<Rightarrow> 'k \<Rightarrow> bool \<times> 't" where
  "hash_map_remove U mp hash =
     (case HASH_FIND U mp hash of None \<Rightarrow> (False, mp) | Some _ \<Rightarrow> (True, HASH_DEL U mp hash))"

text \<open>The result pointer \<open>res\<close> may be NULL; \<open>RC_NULL_PARAM\<close> is then converted to \<open>bool\<close>, so to \<open>true\<close>.\<close>

definition hash_map_find :: "('t, 'k, 'v) uthash \<Rightarrow> 't \<Rightarrow> 'k \<Rightarrow> bool \<Rightarrow> bool \<times> 'v option" where
  "hash_map_find U mp hash res =
     (if HASH_COUNT U mp = 0 then (False, None)
      else if \<not> res then (RC_NULL_PARAM \<noteq> 0, None)
      else (HASH_FIND U mp hash \<noteq> None, HASH_FIND U mp hash))"

definition hash_map_free :: "('t, 'k, 'v) uthash \<Rightarrow> 't \<Rightarrow> 't" where
  "hash_map_free U mp = HASH_NULL U"

primrec map_copy_loop :: "('t, 'k, 'v) uthash \<Rightarrow> ('k \<times> 'v) list \<Rightarrow> 't \<Rightarrow> retcode \<times> 't" where
  "map_copy_loop U [] dst = (RC_OK, dst)"
| "map_copy_loop U (entry # entries) dst =
     (let (ret, dst) = hash_map_add U dst (fst entry) (snd entry)
      in if ret \<noteq> RC_OK then (ret, dst) else map_copy_loop U entries dst)"

definition hash_map_copy :: "('t, 'k, 'v) uthash \<Rightarrow> 't \<Rightarrow> 't \<Rightarrow> retcode \<times> 't" where
  "hash_map_copy U src dst = map_copy_loop U (HASH_ENTRIES U src) dst"

definition hash_map_size :: "('t, 'k, 'v) uthash \<Rightarrow> 't \<Rightarrow> nat" where
  "hash_map_size U mp = HASH_COUNT U mp"

definition hash_map_equal :: "('t, 'k, 'v) uthash \<Rightarrow> 't \<Rightarrow> 't \<Rightarrow> bool" where
  "hash_map_equal U lhs rhs =
     (HASH_COUNT U lhs = HASH_COUNT U rhs \<and>
      list_all (\<lambda>entry. let (found, rhs_entry) = hash_map_find U rhs (fst entry) True
                        in found \<and> Some (snd entry) = rhs_entry) (HASH_ENTRIES U lhs))"

section \<open>Hash sets\<close>

text \<open>\<open>hash_set.c.tpl\<close>: the entries carry no value.\<close>

definition hash_set_size :: "('t, 'k, unit) uthash \<Rightarrow> 't \<Rightarrow> nat" where
  "hash_set_size U st = HASH_COUNT U st"

definition hash_set_contains :: "('t, 'k, unit) uthash \<Rightarrow> 't \<Rightarrow> 'k \<Rightarrow> bool" where
  "hash_set_contains U st hash = (HASH_FIND U st hash \<noteq> None)"

definition hash_set_add :: "('t, 'k, unit) uthash \<Rightarrow> 't \<Rightarrow> 'k \<Rightarrow> retcode \<times> 't" where
  "hash_set_add U st hash =
     (if \<not> hash_set_contains U st hash
      then if \<not> HASH_ROOM U st then (RC_OOM, st) else (RC_OK, HASH_ADD U st hash ())
      else (RC_OK, st))"

text \<open>An entry is named by its key; \<open>None\<close> is the NULL pointer.\<close>

definition hash_set_remove_entry :: "('t, 'k, unit) uthash \<Rightarrow> 't \<Rightarrow> 'k option \<Rightarrow> retcode \<times> 't" where
  "hash_set_remove_entry U st entry =
     (case entry of
        Some hash \<Rightarrow> (RC_OK, if HASH_COUNT U st \<noteq> 0 then HASH_DEL U st hash else st)
      | None \<Rightarrow> (RC_OK, st))"

definition hash_set_remove :: "('t, 'k, unit) uthash \<Rightarrow> 't \<Rightarrow> 'k \<Rightarrow> retcode \<times> 't" where
  "hash_set_remove U st hash =
     (if HASH_COUNT U st \<noteq> 0
      then hash_set_remove_entry U st (case HASH_FIND U st hash of None \<Rightarrow> None | Some _ \<Rightarrow> Some hash)
      else (RC_OK, st))"

primrec set_append_loop :: "('t, 'k, unit) uthash \<Rightarrow> 'k list \<Rightarrow> 't \<Rightarrow> retcode \<times> 't" where
  "set_append_loop U [] set2 = (RC_OK, set2)"
| "set_append_loop U (hash # hashes) set2 =
     (let (ret, set2) = hash_set_add U set2 hash
      in if ret \<noteq> RC_OK then (ret, set2) else set_append_loop U hashes set2)"

definition hash_set_append :: "('t, 'k, unit) uthash \<Rightarrow> 't \<Rightarrow> 't \<Rightarrow> retcode \<times> 't" where
  "hash_set_append U set1 set2 = set_append_loop U (HASH_KEYS U set1) set2"

definition hash_set_find :: "('t, 'k, unit) uthash \<Rightarrow> 't \<Rightarrow> 'k \<Rightarrow> bool \<Rightarrow> bool \<times> 'k option" where
  "hash_set_find U st hash entry =
     (if HASH_COUNT U st = 0 then (False, None)
      else if \<not> entry then (RC_NULL_PARAM \<noteq> 0, None)
      else case HASH_FIND U st hash of None \<Rightarrow> (False, None) | Some _ \<Rightarrow> (True, Some hash))"

definition hash_set_free :: "('t, 'k, unit) uthash \<Rightarrow> 't \<Rightarrow> 't" where
  "hash_set_free U st = HASH_NULL U"

text \<open>The callback \<open>func\<close> changes the container and returns a code; the first error ends the loop.\<close>

primrec set_for_each_loop :: "('c \<Rightarrow> 'k \<Rightarrow> retcode \<times> 'c) \<Rightarrow> 'k list \<Rightarrow> 'c \<Rightarrow> retcode \<times> 'c" where
  "set_for_each_loop func [] container = (RC_OK, container)"
| "set_for_each_loop func (hash # hashes) container =
     (let (ret, container) = func container hash
      in if ret \<noteq> RC_OK then (ret, container) else set_for_each_loop func hashes container)"

definition hash_set_for_each ::
  "('t, 'k, unit) uthash \<Rightarrow> 't \<Rightarrow> ('c \<Rightarrow> 'k \<Rightarrow> retcode \<times> 'c) \<Rightarrow> 'c \<Rightarrow> retcode \<times> 'c"
where
  "hash_set_for_each U st func container = set_for_each_loop func (HASH_KEYS U st) container"

text \<open>
  \<open>index\<close> is the number that \<open>rand_handle_rand_interval\<close> draws; an index outside the set leaves the output as it is.
\<close>

definition hash_set_random_hash :: "('t, 'k, unit) uthash \<Rightarrow> nat \<Rightarrow> 't \<Rightarrow> 'k \<Rightarrow> retcode \<times> 'k" where
  "hash_set_random_hash U index st hash =
     (RC_OK, if index < HASH_COUNT U st then HASH_KEYS U st ! index else hash)"

text \<open>\<open>hash_map_keys\<close> adds the keys of a map to a set and ignores the codes of the additions.\<close>

definition hash_map_keys :: "('t, 'k, 'v) uthash \<Rightarrow> ('u, 'k, unit) uthash \<Rightarrow> 't \<Rightarrow> 'u \<Rightarrow> 'u" where
  "hash_map_keys U S mp keys = fold (\<lambda>hash keys. snd (hash_set_add S keys hash)) (HASH_KEYS U mp) keys"

section \<open>Stacks and queues\<close>

text \<open>
  \<open>hash_stack.c.tpl\<close> and \<open>hash_queue.c.tpl\<close>: linked lists through the \<open>next\<close> pointers of the entries, from the
  head on. \<open>room\<close> tells whether \<open>malloc\<close> succeeds; a result \<open>None\<close> of \<open>peek\<close> on a stack is a NULL that is
  dereferenced, \<open>None\<close> of the other reads is a NULL that is returned.
\<close>

definition hash_stack_push :: "('k list \<Rightarrow> bool) \<Rightarrow> 'k list \<Rightarrow> 'k \<Rightarrow> retcode \<times> 'k list" where
  "hash_stack_push room stack hash = (if \<not> room stack then (RC_OOM, stack) else (RC_OK, hash # stack))"

definition hash_stack_pop :: "'k list \<Rightarrow> 'k list option" where
  "hash_stack_pop stack = (case stack of [] \<Rightarrow> None | _ # rest \<Rightarrow> Some rest)"

definition hash_stack_peek :: "'k list \<Rightarrow> 'k option" where
  "hash_stack_peek stack = (case stack of [] \<Rightarrow> None | hash # _ \<Rightarrow> Some hash)"

definition hash_stack_free :: "'k list \<Rightarrow> 'k list" where
  "hash_stack_free stack = []"

definition hash_stack_count :: "'k list \<Rightarrow> nat" where
  "hash_stack_count stack = length stack"

primrec hash_stack_at :: "'k list \<Rightarrow> nat \<Rightarrow> 'k option" where
  "hash_stack_at [] index = None"
| "hash_stack_at (hash # rest) index = (if index = 0 then Some hash else hash_stack_at rest (index - 1))"

definition hash_queue_empty :: "'k list \<Rightarrow> bool" where
  "hash_queue_empty queue = (queue = [])"

definition hash_queue_push :: "('k list \<Rightarrow> bool) \<Rightarrow> 'k list \<Rightarrow> 'k \<Rightarrow> retcode \<times> 'k list" where
  "hash_queue_push room queue hash = (if \<not> room queue then (RC_OOM, queue) else (RC_OK, queue @ [hash]))"

definition hash_queue_pop :: "'k list \<Rightarrow> 'k option \<times> 'k list" where
  "hash_queue_pop queue = (case queue of [] \<Rightarrow> (None, []) | hash # rest \<Rightarrow> (Some hash, rest))"

definition hash_queue_peek :: "'k list \<Rightarrow> 'k option" where
  "hash_queue_peek queue = (case queue of [] \<Rightarrow> None | hash # _ \<Rightarrow> Some hash)"

definition hash_queue_free :: "'k list \<Rightarrow> 'k list" where
  "hash_queue_free queue = []"

definition hash_queue_count :: "'k list \<Rightarrow> nat" where
  "hash_queue_count queue = length queue"

primrec hash_queue_at :: "'k list \<Rightarrow> nat \<Rightarrow> 'k option" where
  "hash_queue_at [] index = None"
| "hash_queue_at (hash # rest) index = (if index = 0 then Some hash else hash_queue_at rest (index - 1))"

text \<open>Copies \<open>size\<close> elements, and all of them when \<open>size\<close> is 0 or too large.\<close>

fun queue_copy_loop :: "('k list \<Rightarrow> bool) \<Rightarrow> 'k list \<Rightarrow> 'k list \<Rightarrow> nat \<Rightarrow> nat \<Rightarrow> retcode \<times> 'k list" where
  "queue_copy_loop room dest [] count sz = (RC_OK, dest)"
| "queue_copy_loop room dest (hash # rest) count sz =
     (let (ret, dest) = hash_queue_push room dest hash
      in if ret = RC_OK
         then if count = sz then (RC_OK, dest) else queue_copy_loop room dest rest (count + 1) sz
         else (RC_OOM, dest))"

definition hash_queue_copy :: "('k list \<Rightarrow> bool) \<Rightarrow> 'k list \<Rightarrow> 'k list \<Rightarrow> nat \<Rightarrow> retcode \<times> 'k list" where
  "hash_queue_copy room dest src sz =
     (if src = [] then (RC_NULL_PARAM, dest) else queue_copy_loop room dest src 1 sz)"

section \<open>Properties\<close>

lemmas retcode_defs = RC_OK_def RC_OOM_def RC_NULL_PARAM_def RC_MODULE_GENERAL_def RC_SEVERITY_MAJOR_def

lemma memory_codes [simp]: "RC_OOM \<noteq> RC_OK" "RC_OK \<noteq> RC_OOM" "RC_NULL_PARAM \<noteq> RC_OK" "RC_NULL_PARAM \<noteq> 0"
  by (simp_all add: retcode_defs)

text \<open>The operations, as changes of the entries; the clients use these facts only.\<close>

context uthash_laws
begin

lemma hash_map_add_cases:
  "hash_map_add U t k v = (RC_OK, t) \<and> HASH_FIND U t k \<noteq> None
   \<or> hash_map_add U t k v = (RC_OOM, t) \<and> HASH_FIND U t k = None \<and> \<not> HASH_ROOM U t
   \<or> hash_map_add U t k v = (RC_OK, HASH_ADD U t k v) \<and> HASH_FIND U t k = None \<and> HASH_ROOM U t"
  by (auto simp: hash_map_add_def split: option.split)

lemma hash_map_remove_find:
  "HASH_FIND U (snd (hash_map_remove U t k)) k' = (if k' = k then None else HASH_FIND U t k')"
  "fst (hash_map_remove U t k) \<longleftrightarrow> HASH_FIND U t k \<noteq> None"
  by (auto simp: hash_map_remove_def find_del split: option.split)

text \<open>Copying into an empty table: the same entries in the same order, or no memory.\<close>

lemma map_copy_loop_new:
  assumes "distinct (map fst (HASH_ENTRIES U t @ es))" "\<And>t. HASH_ROOM U t"
  shows "\<exists>t'. map_copy_loop U es t = (RC_OK, t') \<and> HASH_ENTRIES U t' = HASH_ENTRIES U t @ es"
  using assms(1)
proof (induction es arbitrary: t)
  case (Cons e es)
  obtain k v where e: "e = (k, v)" by (cases e)
  have new: "HASH_FIND U t k = None" using Cons.prems e by (auto simp: find_entries map_of_eq_None_iff)
  then have en: "HASH_ENTRIES U (HASH_ADD U t k v) = HASH_ENTRIES U t @ [(k, v)]" by (rule add_entries)
  have "distinct (map fst (HASH_ENTRIES U (HASH_ADD U t k v) @ es))" using Cons.prems e en by simp
  from Cons.IH [OF this] en show ?case using new e assms(2) by (simp add: hash_map_add_def)
qed simp

lemma hash_map_copy_new:
  assumes "\<And>t. HASH_ROOM U t"
  shows "\<exists>t'. hash_map_copy U src (HASH_NULL U) = (RC_OK, t') \<and> HASH_ENTRIES U t' = HASH_ENTRIES U src"
  using map_copy_loop_new [of "HASH_NULL U" "HASH_ENTRIES U src"] assms by (simp add: hash_map_copy_def)

text \<open>Equality of maps is equality of the finite functions, whatever the order of the entries.\<close>

lemma find_dom: "dom (HASH_FIND U t) = fst ` set (HASH_ENTRIES U t)"
  by (auto simp: find_entries dom_def map_of_eq_Some_iff image_iff) force

lemma find_some_iff: "HASH_FIND U t k = Some v \<longleftrightarrow> (k, v) \<in> set (HASH_ENTRIES U t)"
  by (simp add: find_entries map_of_eq_Some_iff)

lemma card_keys: "card (dom (HASH_FIND U t)) = HASH_COUNT U t"
  using distinct_card [OF keys_distinct, of t] by (simp add: find_dom HASH_COUNT_def)

lemma hash_map_equal_iff: "hash_map_equal U l r \<longleftrightarrow> HASH_FIND U l = HASH_FIND U r"
proof
  assume eq: "hash_map_equal U l r"
  then have sub: "HASH_FIND U r k = Some v" if "HASH_FIND U l k = Some v" for k v
  proof -
    have "(k, v) \<in> set (HASH_ENTRIES U l)" using that by (simp add: find_some_iff)
    with eq have "let (found, rhs_entry) = hash_map_find U r k True in found \<and> Some v = rhs_entry"
      by (auto simp: hash_map_equal_def list_all_iff)
    then show ?thesis by (auto simp: hash_map_find_def split: if_splits)
  qed
  have "dom (HASH_FIND U l) = dom (HASH_FIND U r)"
  proof (rule card_subset_eq)
    show "finite (dom (HASH_FIND U r))" by (simp add: find_dom)
    show "dom (HASH_FIND U l) \<subseteq> dom (HASH_FIND U r)" using sub by auto
    show "card (dom (HASH_FIND U l)) = card (dom (HASH_FIND U r))" using eq by (simp add: card_keys hash_map_equal_def)
  qed
  then have "HASH_FIND U l k = None \<longleftrightarrow> HASH_FIND U r k = None" for k
    by (metis domIff)
  then have "HASH_FIND U l k = HASH_FIND U r k" for k
    using sub [of k] by (cases "HASH_FIND U l k") auto
  then show "HASH_FIND U l = HASH_FIND U r" by (rule ext)
next
  assume eq: "HASH_FIND U l = HASH_FIND U r"
  then have c: "HASH_COUNT U l = HASH_COUNT U r" using card_keys [of l] card_keys [of r] by simp
  moreover have "HASH_FIND U r (fst e) = Some (snd e)" "HASH_COUNT U r \<noteq> 0" if "e \<in> set (HASH_ENTRIES U l)" for e
    using that eq find_some_iff [of l "fst e" "snd e"] c by (auto simp: HASH_COUNT_def)
  ultimately show "hash_map_equal U l r" by (auto simp: hash_map_equal_def hash_map_find_def list_all_iff)
qed

end

text \<open>The queue is first in, first out, and \<open>at\<close> numbers its elements in that order.\<close>

lemma hash_queue_push_pop: "hash_queue_pop (x # snd (hash_queue_push (\<lambda>_. True) q y)) = (Some x, q @ [y])"
  by (simp add: hash_queue_push_def hash_queue_pop_def)

lemma hash_queue_at_nth: "hash_queue_at q i = (if i < length q then Some (q ! i) else None)"
  by (induction q arbitrary: i) (auto simp: nth_Cons split: nat.split)

lemma hash_stack_at_nth: "hash_stack_at s i = (if i < length s then Some (s ! i) else None)"
  by (induction s arbitrary: i) (auto simp: nth_Cons split: nat.split)

lemma queue_copy_loop_take:
  "count \<le> sz \<Longrightarrow> queue_copy_loop (\<lambda>_. True) dest q count sz = (RC_OK, dest @ take (Suc sz - count) q)"
proof (induction q arbitrary: dest count)
  case (Cons x q)
  show ?case
  proof (cases "count = sz")
    case False
    then have "Suc sz - count = Suc (Suc sz - (count + 1))" using Cons.prems by simp
    with False Cons show ?thesis by (simp add: hash_queue_push_def del: diff_Suc_Suc)
  qed (simp add: hash_queue_push_def)
qed simp

end
