(* ===== verification/State_Delta.thy ===== *)
theory State_Delta
  imports Prelude Errors Flex_Trit Transaction Hash_Containers
begin

text \<open>
  \<open>ciri/consensus/snapshot/state_delta.h\<close> and \<open>state_delta.c\<close>: the balances of the ledger, and changes of
  balances, as hash tables from addresses to \<open>int64_t\<close> values; the text form of a table is in the theory
  of the snapshots. A signed addition that overflows is undefined in C: the result is then \<open>None\<close>.

  The abstract ledger is the function \<open>ledger_balance\<close> from addresses to integers, null almost everywhere, and the
  results say which function every operation computes and what it does to the total.
\<close>

section \<open>Definitions\<close>

type_synonym flex_hash = "flex_trit list"
type_synonym 't state_delta_ops = "('t, flex_hash, int) uthash"

definition add_int64 :: "int \<Rightarrow> int \<Rightarrow> int option" where
  "add_int64 a b = (if INT64_MIN \<le> a + b \<and> a + b \<le> INT64_MAX then Some (a + b) else None)"

definition state_delta_add :: "'t state_delta_ops \<Rightarrow> 't \<Rightarrow> flex_hash \<Rightarrow> int \<Rightarrow> retcode \<times> 't" where
  "state_delta_add U delta hash value = hash_map_add U delta hash value"

definition state_delta_remove :: "'t state_delta_ops \<Rightarrow> 't \<Rightarrow> flex_hash \<Rightarrow> 't" where
  "state_delta_remove U delta hash = snd (hash_map_remove U delta hash)"

definition state_delta_find :: "'t state_delta_ops \<Rightarrow> 't \<Rightarrow> flex_hash \<Rightarrow> int option" where
  "state_delta_find U delta hash = HASH_FIND U delta hash"

definition state_delta_size :: "'t state_delta_ops \<Rightarrow> 't \<Rightarrow> nat" where
  "state_delta_size U delta = hash_map_size U delta"

definition state_delta_empty :: "'t state_delta_ops \<Rightarrow> 't \<Rightarrow> bool" where
  "state_delta_empty U delta = (state_delta_size U delta = 0)"

definition state_delta_copy :: "'t state_delta_ops \<Rightarrow> 't \<Rightarrow> 't \<Rightarrow> retcode \<times> 't" where
  "state_delta_copy U src_delta dst_delta = hash_map_copy U src_delta dst_delta"

definition state_delta_destroy :: "'t state_delta_ops \<Rightarrow> 't \<Rightarrow> 't" where
  "state_delta_destroy U delta = hash_map_free U delta"

definition state_delta_equal :: "'t state_delta_ops \<Rightarrow> 't \<Rightarrow> 't \<Rightarrow> bool" where
  "state_delta_equal U lhs rhs = hash_map_equal U lhs rhs"

primrec sum_loop :: "(flex_hash \<times> int) list \<Rightarrow> int \<Rightarrow> int option" where
  "sum_loop [] acc = Some acc"
| "sum_loop (iter # iters) acc =
     (case add_int64 acc (snd iter) of None \<Rightarrow> None | Some acc \<Rightarrow> sum_loop iters acc)"

definition state_delta_sum :: "'t state_delta_ops \<Rightarrow> 't \<Rightarrow> int option" where
  "state_delta_sum U ledger = sum_loop (HASH_ENTRIES U ledger) 0"

definition state_delta_add_or_sum ::
  "'t state_delta_ops \<Rightarrow> 't \<Rightarrow> flex_hash \<Rightarrow> int \<Rightarrow> (retcode \<times> 't) option"
where
  "state_delta_add_or_sum U ledger hash value =
     (if value = 0 then Some (RC_OK, ledger)
      else case state_delta_find U ledger hash of
             Some entry_value \<Rightarrow>
               (case add_int64 entry_value value of
                  None \<Rightarrow> None
                | Some entry_value \<Rightarrow>
                    (let ledger = HASH_ASSIGN U ledger hash entry_value
                     in if entry_value = 0 then Some (RC_OK, state_delta_remove U ledger hash) else Some (RC_OK, ledger)))
           | None \<Rightarrow> Some (state_delta_add U ledger hash value))"

definition state_delta_sum_if_present ::
  "'t state_delta_ops \<Rightarrow> 't \<Rightarrow> flex_hash \<Rightarrow> int \<Rightarrow> (retcode \<times> 't) option"
where
  "state_delta_sum_if_present U ledger hash value =
     (if value = 0 then Some (RC_OK, ledger)
      else case state_delta_find U ledger hash of
             Some entry_value \<Rightarrow>
               (case add_int64 entry_value value of
                  None \<Rightarrow> None
                | Some entry_value \<Rightarrow> Some (RC_OK, HASH_ASSIGN U ledger hash entry_value))
           | None \<Rightarrow> Some (RC_OK, ledger))"

definition state_delta_add_or_replace :: "'t state_delta_ops \<Rightarrow> 't \<Rightarrow> flex_hash \<Rightarrow> int \<Rightarrow> retcode \<times> 't" where
  "state_delta_add_or_replace U ledger hash value =
     (case state_delta_find U ledger hash of
        Some _ \<Rightarrow> if value = 0 then (RC_OK, state_delta_remove U ledger hash) else (RC_OK, HASH_ASSIGN U ledger hash value)
      | None \<Rightarrow> state_delta_add U ledger hash value)"

text \<open>The loops over the entries of a table; the table that is changed is another one.\<close>

primrec create_patch_loop ::
  "'t state_delta_ops \<Rightarrow> 't \<Rightarrow> (flex_hash \<times> int) list \<Rightarrow> 't \<Rightarrow> (retcode \<times> 't) option"
where
  "create_patch_loop U ledger [] patch = Some (RC_OK, patch)"
| "create_patch_loop U ledger (iter # iters) patch =
     (case add_int64 (case state_delta_find U ledger (fst iter) of Some entry_value \<Rightarrow> entry_value | None \<Rightarrow> 0) (snd iter) of
        None \<Rightarrow> None
      | Some value \<Rightarrow>
          (let (ret, patch) = state_delta_add U patch (fst iter) value
           in if ret \<noteq> RC_OK then Some (ret, patch) else create_patch_loop U ledger iters patch))"

definition state_delta_create_patch :: "'t state_delta_ops \<Rightarrow> 't \<Rightarrow> 't \<Rightarrow> 't \<Rightarrow> (retcode \<times> 't) option" where
  "state_delta_create_patch U ledger delta patch = create_patch_loop U ledger (HASH_ENTRIES U delta) patch"

primrec apply_patch_loop :: "'t state_delta_ops \<Rightarrow> (flex_hash \<times> int) list \<Rightarrow> 't \<Rightarrow> (retcode \<times> 't) option" where
  "apply_patch_loop U [] ledger = Some (RC_OK, ledger)"
| "apply_patch_loop U (iter # iters) ledger =
     (if snd iter \<noteq> 0
      then case state_delta_add_or_sum U ledger (fst iter) (snd iter) of
             None \<Rightarrow> None
           | Some (ret, ledger) \<Rightarrow> if ret \<noteq> RC_OK then Some (ret, ledger) else apply_patch_loop U iters ledger
      else apply_patch_loop U iters ledger)"

definition state_delta_apply_patch :: "'t state_delta_ops \<Rightarrow> 't \<Rightarrow> 't \<Rightarrow> (retcode \<times> 't) option" where
  "state_delta_apply_patch U ledger patch = apply_patch_loop U (HASH_ENTRIES U patch) ledger"

primrec apply_if_present_loop :: "'t state_delta_ops \<Rightarrow> (flex_hash \<times> int) list \<Rightarrow> 't \<Rightarrow> (retcode \<times> 't) option" where
  "apply_if_present_loop U [] ledger = Some (RC_OK, ledger)"
| "apply_if_present_loop U (iter # iters) ledger =
     (case state_delta_sum_if_present U ledger (fst iter) (snd iter) of
        None \<Rightarrow> None
      | Some (ret, ledger) \<Rightarrow> if ret \<noteq> RC_OK then Some (ret, ledger) else apply_if_present_loop U iters ledger)"

definition state_delta_apply_patch_if_present :: "'t state_delta_ops \<Rightarrow> 't \<Rightarrow> 't \<Rightarrow> (retcode \<times> 't) option" where
  "state_delta_apply_patch_if_present U ledger patch = apply_if_present_loop U (HASH_ENTRIES U patch) ledger"

primrec merge_patch_loop :: "'t state_delta_ops \<Rightarrow> (flex_hash \<times> int) list \<Rightarrow> 't \<Rightarrow> retcode \<times> 't" where
  "merge_patch_loop U [] ledger = (RC_OK, ledger)"
| "merge_patch_loop U (iter # iters) ledger =
     (let (ret, ledger) = state_delta_add_or_replace U ledger (fst iter) (snd iter)
      in if ret \<noteq> RC_OK then (ret, ledger) else merge_patch_loop U iters ledger)"

definition state_delta_merge_patch :: "'t state_delta_ops \<Rightarrow> 't \<Rightarrow> 't \<Rightarrow> retcode \<times> 't" where
  "state_delta_merge_patch U ledger patch = merge_patch_loop U (HASH_ENTRIES U patch) ledger"

primrec is_consistent_loop :: "'t state_delta_ops \<Rightarrow> (flex_hash \<times> int) list \<Rightarrow> 't \<Rightarrow> bool \<times> 't" where
  "is_consistent_loop U [] delta = (True, delta)"
| "is_consistent_loop U (entry # entries) delta =
     (if snd entry \<le> 0
      then if snd entry < 0 then (False, delta) else is_consistent_loop U entries (HASH_DEL U delta (fst entry))
      else is_consistent_loop U entries delta)"

definition state_delta_is_consistent :: "'t state_delta_ops \<Rightarrow> 't \<Rightarrow> bool \<times> 't" where
  "state_delta_is_consistent U delta = is_consistent_loop U (HASH_ENTRIES U delta) delta"

subsection \<open>Bytes\<close>

text \<open>The memory of an \<open>int64_t\<close>, least significant byte first; \<open>byte_t\<close> is signed.\<close>

definition int64_bytes :: "int \<Rightarrow> byte list" where
  "int64_bytes value = map (\<lambda>i. wrap8 (value div 256 ^ i)) [0..<8]"

primrec bytes_value :: "byte list \<Rightarrow> int" where
  "bytes_value [] = 0"
| "bytes_value (b # bs) = b mod 256 + 256 * bytes_value bs"

definition int64_of_bytes :: "byte list \<Rightarrow> int" where
  "int64_of_bytes bs = wrap64 (bytes_value bs)"

definition state_delta_serialized_size :: "'t state_delta_ops \<Rightarrow> flex_enc \<Rightarrow> 't option \<Rightarrow> nat" where
  "state_delta_serialized_size U e delta =
     (case delta of None \<Rightarrow> 0 | Some delta \<Rightarrow> HASH_COUNT U delta * (FLEX_TRIT_SIZE_243 e + 8))"

primrec serialize_loop :: "flex_enc \<Rightarrow> (flex_hash \<times> int) list \<Rightarrow> byte list \<Rightarrow> nat \<Rightarrow> byte list" where
  "serialize_loop e [] bytes offset = bytes"
| "serialize_loop e (iter # iters) bytes offset =
     (let bytes = blit bytes offset (take (FLEX_TRIT_SIZE_243 e) (fst iter));
          offset = offset + FLEX_TRIT_SIZE_243 e;
          bytes = blit bytes offset (int64_bytes (snd iter));
          offset = offset + 8
      in serialize_loop e iters bytes offset)"

definition state_delta_serialize :: "'t state_delta_ops \<Rightarrow> flex_enc \<Rightarrow> 't \<Rightarrow> byte list \<Rightarrow> retcode \<times> byte list" where
  "state_delta_serialize U e delta bytes = (RC_OK, serialize_loop e (HASH_ENTRIES U delta) bytes 0)"

primrec deserialize_loop :: "'t state_delta_ops \<Rightarrow> flex_enc \<Rightarrow> byte list \<Rightarrow> nat \<Rightarrow> nat \<Rightarrow> 't \<Rightarrow> retcode \<times> 't" where
  "deserialize_loop U e bytes offset 0 delta = (RC_OK, delta)"
| "deserialize_loop U e bytes offset (Suc n) delta =
     (if \<not> HASH_ROOM U delta then (RC_OOM, delta)
      else let hash = slice offset (FLEX_TRIT_SIZE_243 e) bytes;
               offset = offset + FLEX_TRIT_SIZE_243 e;
               value = int64_of_bytes (slice offset 8 bytes);
               offset = offset + 8
           in deserialize_loop U e bytes offset n (HASH_ADD U delta hash value))"

definition state_delta_deserialize ::
  "'t state_delta_ops \<Rightarrow> flex_enc \<Rightarrow> byte list \<Rightarrow> nat \<Rightarrow> 't \<Rightarrow> retcode \<times> 't"
where
  "state_delta_deserialize U e bytes sz delta = deserialize_loop U e bytes 0 (sz div (FLEX_TRIT_SIZE_243 e + 8)) delta"

section \<open>The abstract ledger\<close>

definition ledger_balance :: "'t state_delta_ops \<Rightarrow> 't \<Rightarrow> flex_hash \<Rightarrow> int" where
  "ledger_balance U t h = (case HASH_FIND U t h of None \<Rightarrow> 0 | Some v \<Rightarrow> v)"

definition ledger_total :: "'t state_delta_ops \<Rightarrow> 't \<Rightarrow> int" where
  "ledger_total U t = sum_list (map snd (HASH_ENTRIES U t))"

text \<open>No address is stored with a null balance.\<close>

definition ledger_reduced :: "'t state_delta_ops \<Rightarrow> 't \<Rightarrow> bool" where
  "ledger_reduced U t \<longleftrightarrow> list_all (\<lambda>e. snd e \<noteq> 0) (HASH_ENTRIES U t)"


lemma sum_list_update: "map_of es k = Some w \<Longrightarrow> distinct (map fst es) \<Longrightarrow>
  sum_list (map snd (AList.update k v es)) = sum_list (map snd es) - w + v" for es :: "('k \<times> int) list"
  by (induction es) (auto split: if_splits)

lemma sum_list_del: "distinct (map fst es) \<Longrightarrow> sum_list (map snd (filter (\<lambda>e. fst e \<noteq> k) es))
  = sum_list (map snd es) - (case map_of es k of None \<Rightarrow> 0 | Some w \<Rightarrow> w)" for es :: "('k \<times> int) list"
proof (induction es)
  case (Cons e es)
  show ?case
  proof (cases "fst e = k")
    case True
    have "fst e \<notin> fst ` set es" using Cons.prems by simp
    then have "fst e' \<noteq> k" if "e' \<in> set es" for e' using True that by (metis imageI)
    then have "filter (\<lambda>e. fst e \<noteq> k) es = es" by (simp add: filter_id_conv)
    with True Cons.prems show ?thesis by simp
  qed (use Cons in simp)
qed simp

lemma filter_update: "filter (\<lambda>e. fst e \<noteq> k) (AList.update k v es) = filter (\<lambda>e. fst e \<noteq> k) es"
  by (induction es) auto

lemma list_all_update: "list_all P es \<Longrightarrow> P (k, v) \<Longrightarrow> list_all P (AList.update k v es)"
  by (induction es) auto

text \<open>The balances of a list of entries.\<close>

definition entries_balance :: "(flex_hash \<times> int) list \<Rightarrow> flex_hash \<Rightarrow> int" where
  "entries_balance es h = (case map_of es h of None \<Rightarrow> 0 | Some v \<Rightarrow> v)"

lemma entries_balance_notin: "h \<notin> fst ` set es \<Longrightarrow> entries_balance es h = 0"
  by (simp add: entries_balance_def map_of_eq_None_iff [THEN iffD2])

lemma entries_balance_Cons: "entries_balance ((k, v) # es) h = (if h = k then v else entries_balance es h)"
  by (simp add: entries_balance_def)

text \<open>Tables of balances: the laws of the library for these entries.\<close>

locale ledger_table = uthash_laws U for U :: "'t state_delta_ops"
begin

lemma balance_add:
  assumes "HASH_FIND U t h = None"
  shows "ledger_balance U (HASH_ADD U t h v) = (ledger_balance U t)(h := v)" "ledger_total U (HASH_ADD U t h v) = ledger_total U t + v"
    "ledger_reduced U (HASH_ADD U t h v) \<longleftrightarrow> ledger_reduced U t \<and> v \<noteq> 0"
  using assms by (auto simp: ledger_balance_def fun_eq_iff find_add ledger_total_def add_entries ledger_reduced_def)

lemma balance_assign:
  assumes "HASH_FIND U t h = Some w"
  shows "ledger_balance U (HASH_ASSIGN U t h v) = (ledger_balance U t)(h := v)" "ledger_total U (HASH_ASSIGN U t h v) = ledger_total U t - w + v"
    "ledger_reduced U t \<Longrightarrow> v \<noteq> 0 \<Longrightarrow> ledger_reduced U (HASH_ASSIGN U t h v)"
proof -
  show "ledger_balance U (HASH_ASSIGN U t h v) = (ledger_balance U t)(h := v)"
    using find_assign [OF assms] by (auto simp: ledger_balance_def fun_eq_iff)
  have "map_of (HASH_ENTRIES U t) h = Some w" using assms by (simp add: find_entries)
  then show "ledger_total U (HASH_ASSIGN U t h v) = ledger_total U t - w + v"
    unfolding ledger_total_def assign_entries [OF assms] by (rule sum_list_update) simp
  show "ledger_reduced U t \<Longrightarrow> v \<noteq> 0 \<Longrightarrow> ledger_reduced U (HASH_ASSIGN U t h v)"
    by (simp add: ledger_reduced_def assign_entries [OF assms] list_all_update)
qed

lemma balance_del:
  "ledger_balance U (HASH_DEL U t h) = (ledger_balance U t)(h := 0)" "ledger_total U (HASH_DEL U t h) = ledger_total U t - ledger_balance U t h"
  "ledger_reduced U t \<Longrightarrow> ledger_reduced U (HASH_DEL U t h)"
proof -
  show "ledger_balance U (HASH_DEL U t h) = (ledger_balance U t)(h := 0)" by (simp add: ledger_balance_def fun_eq_iff find_del)
  show "ledger_total U (HASH_DEL U t h) = ledger_total U t - ledger_balance U t h"
    by (simp add: ledger_total_def del_entries sum_list_del ledger_balance_def find_entries [of t h])
  show "ledger_reduced U t \<Longrightarrow> ledger_reduced U (HASH_DEL U t h)" by (simp add: ledger_reduced_def del_entries list_all_iff)
qed

lemma balance_null: "ledger_balance U (HASH_NULL U) = (\<lambda>_. 0)" "ledger_total U (HASH_NULL U) = 0" "ledger_reduced U (HASH_NULL U)"
  by (auto simp: ledger_balance_def find_null ledger_total_def ledger_reduced_def)

lemmas ledger_simps = balance_add balance_del balance_null

text \<open>Changing one balance.\<close>

lemma add_or_sum_correct:
  assumes "state_delta_add_or_sum U t h v = Some (ret, t')"
  shows "ret = RC_OK \<and> ledger_balance U t' = (ledger_balance U t)(h := ledger_balance U t h + v) \<and> ledger_total U t' = ledger_total U t + v
           \<and> (ledger_reduced U t \<longrightarrow> ledger_reduced U t')
         \<or> ret = RC_OOM \<and> t' = t \<and> HASH_FIND U t h = None \<and> \<not> HASH_ROOM U t"
proof (cases "v = 0")
  case True
  with assms show ?thesis by (simp add: state_delta_add_or_sum_def)
next
  case nz: False
  show ?thesis
  proof (cases "HASH_FIND U t h")
    case None
    then have "ledger_balance U t h = 0" by (simp add: ledger_balance_def)
    with assms nz None show ?thesis
      by (auto simp: state_delta_add_or_sum_def state_delta_find_def state_delta_add_def hash_map_add_def ledger_simps split: if_splits)
  next
    case (Some w)
    let ?t = "HASH_ASSIGN U t h (w + v)"
    have w: "ledger_balance U t h = w" using Some by (simp add: ledger_balance_def)
    have f: "HASH_FIND U ?t h = Some (w + v)" using find_assign [OF Some] by simp
    have rm: "state_delta_remove U ?t h = HASH_DEL U ?t h" using f by (simp add: state_delta_remove_def hash_map_remove_def)
    have t': "ret = RC_OK" "t' = (if w + v = 0 then HASH_DEL U ?t h else ?t)"
      using assms nz Some rm by (auto simp: state_delta_add_or_sum_def state_delta_find_def add_int64_def Let_def split: if_splits)
    have "ledger_reduced U t \<Longrightarrow> ledger_reduced U t'"
    proof (cases "w + v = 0")
      case True
      assume "ledger_reduced U t"
      then show ?thesis using True t' by (simp add: ledger_reduced_def del_entries assign_entries [OF Some] filter_update list_all_iff)
    qed (use t' balance_assign(3) [OF Some] in auto)
    with t' w balance_assign(1,2) [OF Some, of "w + v"] ledger_simps(4,5) [of ?t h] show ?thesis by (auto simp: fun_eq_iff)
  qed
qed

lemma add_or_sum_defined:
  assumes "INT64_MIN \<le> ledger_balance U t h + v" "ledger_balance U t h + v \<le> INT64_MAX"
  shows "\<exists>ret t'. state_delta_add_or_sum U t h v = Some (ret, t') \<and> (HASH_ROOM U t \<longrightarrow> ret = RC_OK)"
  using assms by (auto simp: state_delta_add_or_sum_def state_delta_find_def ledger_balance_def add_int64_def Let_def
    state_delta_add_def hash_map_add_def split: option.splits)

lemma add_or_replace_correct:
  assumes "state_delta_add_or_replace U t h v = (ret, t')"
  shows "ret = RC_OK \<and> ledger_balance U t' = (ledger_balance U t)(h := v) \<or> ret = RC_OOM \<and> t' = t \<and> HASH_FIND U t h = None \<and> \<not> HASH_ROOM U t"
proof (cases "HASH_FIND U t h")
  case None
  then show ?thesis using assms
    by (auto simp: state_delta_add_or_replace_def state_delta_find_def state_delta_add_def hash_map_add_def ledger_simps split: if_splits)
next
  case (Some w)
  then have "ret = RC_OK" "t' = (if v = 0 then HASH_DEL U t h else HASH_ASSIGN U t h v)"
    using assms by (auto simp: state_delta_add_or_replace_def state_delta_find_def state_delta_remove_def hash_map_remove_def split: if_splits)
  then show ?thesis using balance_assign(1) [OF Some, of v] balance_del(1) [of t h] by auto
qed

lemma sum_if_present_correct:
  assumes "state_delta_sum_if_present U t h v = Some (ret, t')"
  shows "ret = RC_OK" "ledger_balance U t' = (if HASH_FIND U t h = None then ledger_balance U t else (ledger_balance U t)(h := ledger_balance U t h + v))"
    "dom (HASH_FIND U t') = dom (HASH_FIND U t)"
  using assms balance_assign(1) [of t h] find_assign [of t h]
  by (auto simp: state_delta_sum_if_present_def state_delta_find_def add_int64_def ledger_balance_def fun_eq_iff dom_def
    split: if_splits option.splits)

text \<open>The loops. An operation that runs out of memory has dealt with the first entries of the patch.\<close>

lemma balance_entries: "ledger_balance U t = entries_balance (HASH_ENTRIES U t)"
  by (simp add: fun_eq_iff ledger_balance_def entries_balance_def find_entries)

lemma apply_patch_loop_Cons:
  "apply_patch_loop U ((h, v) # es) t = (case state_delta_add_or_sum U t h v of
     None \<Rightarrow> None | Some (ret, t) \<Rightarrow> if ret \<noteq> RC_OK then Some (ret, t) else apply_patch_loop U es t)"
  by (simp add: state_delta_add_or_sum_def)

lemma apply_patch_loop_correct:
  assumes "apply_patch_loop U es t = Some (ret, t')" "distinct (map fst es)"
  shows "\<exists>n \<le> length es. ledger_balance U t' = (\<lambda>h. ledger_balance U t h + entries_balance (take n es) h)
    \<and> ledger_total U t' = ledger_total U t + sum_list (map snd (take n es)) \<and> (ledger_reduced U t \<longrightarrow> ledger_reduced U t')
    \<and> (ret = RC_OK \<and> n = length es \<or> ret = RC_OOM \<and> (\<exists>t. \<not> HASH_ROOM U t))"
  using assms
proof (induction es arbitrary: t)
  case Nil
  then show ?case by (simp add: entries_balance_def fun_eq_iff)
next
  case (Cons e es)
  obtain h v where e: "e = (h, v)" by (cases e)
  obtain ret1 t1 where s: "state_delta_add_or_sum U t h v = Some (ret1, t1)"
    using Cons.prems(1) by (cases "state_delta_add_or_sum U t h v") (auto simp: e apply_patch_loop_Cons simp del: apply_patch_loop.simps)
  have r: "(if ret1 \<noteq> RC_OK then Some (ret1, t1) else apply_patch_loop U es t1) = Some (ret, t')"
    using Cons.prems(1) unfolding e apply_patch_loop_Cons s by simp
  from add_or_sum_correct [OF s] show ?case
  proof (elim disjE conjE, goal_cases)
    case 1
    then have "apply_patch_loop U es t1 = Some (ret, t')" using r by simp
    from Cons.IH [OF this] Cons.prems(2) obtain n where n: "n \<le> length es"
      "ledger_balance U t' = (\<lambda>h. ledger_balance U t1 h + entries_balance (take n es) h)"
      "ledger_total U t' = ledger_total U t1 + sum_list (map snd (take n es))" "ledger_reduced U t1 \<longrightarrow> ledger_reduced U t'"
      "ret = RC_OK \<and> n = length es \<or> ret = RC_OOM \<and> (\<exists>t. \<not> HASH_ROOM U t)" by auto
    have "entries_balance (take n es) h = 0" using Cons.prems(2) e by (auto intro!: entries_balance_notin dest!: in_set_takeD)
    then show ?case using n 1 e by (intro exI [of _ "Suc n"]) (auto simp: entries_balance_Cons fun_eq_iff)
  next
    case 2
    then have "ret = RC_OOM" "t' = t" using r by auto
    then show ?case using 2 by (intro exI [of _ 0]) (auto simp: entries_balance_def)
  qed
qed

lemma apply_patch_loop_defined:
  assumes "\<And>h v. (h, v) \<in> set es \<Longrightarrow> INT64_MIN \<le> ledger_balance U t h + v \<and> ledger_balance U t h + v \<le> INT64_MAX"
    and "distinct (map fst es)" "\<And>t. HASH_ROOM U t"
  shows "\<exists>t'. apply_patch_loop U es t = Some (RC_OK, t')"
  using assms(1,2)
proof (induction es arbitrary: t)
  case (Cons e es)
  obtain h v where e: "e = (h, v)" by (cases e)
  have "INT64_MIN \<le> ledger_balance U t h + v" "ledger_balance U t h + v \<le> INT64_MAX" using Cons.prems(1) [of h v] e by auto
  then obtain t1 where t1: "state_delta_add_or_sum U t h v = Some (RC_OK, t1)" using add_or_sum_defined assms(3) by blast
  then have b: "ledger_balance U t1 = (ledger_balance U t)(h := ledger_balance U t h + v)" using add_or_sum_correct [OF t1] assms(3) by auto
  have "\<exists>t'. apply_patch_loop U es t1 = Some (RC_OK, t')"
  proof (rule Cons.IH)
    fix h' v' assume m: "(h', v') \<in> set es"
    then have "h' \<noteq> h" using Cons.prems(2) e by force
    then show "INT64_MIN \<le> ledger_balance U t1 h' + v' \<and> ledger_balance U t1 h' + v' \<le> INT64_MAX" using Cons.prems(1) [of h' v'] m b by simp
  qed (use Cons.prems in simp)
  then show ?case using t1 e by (cases "v = 0") (auto simp: state_delta_add_or_sum_def)
qed simp

lemma create_patch_loop_correct:
  assumes "distinct (map fst (HASH_ENTRIES U p @ es))" "create_patch_loop U t es p = Some (ret, p')"
  shows "ret = RC_OK \<and> HASH_ENTRIES U p' = HASH_ENTRIES U p @ map (\<lambda>(h, v). (h, ledger_balance U t h + v)) es
    \<or> ret = RC_OOM \<and> (\<exists>t. \<not> HASH_ROOM U t)"
  using assms
proof (induction es arbitrary: p)
  case (Cons e es)
  obtain h v where e: "e = (h, v)" by (cases e)
  have new: "HASH_FIND U p h = None" using Cons.prems(1) e by (auto simp: find_entries map_of_eq_None_iff)
  have en: "HASH_ENTRIES U (HASH_ADD U p h w) = HASH_ENTRIES U p @ [(h, w)]" for w by (rule add_entries [OF new])
  have b: "(case state_delta_find U t h of Some w \<Rightarrow> w | None \<Rightarrow> 0) = ledger_balance U t h"
    by (simp add: state_delta_find_def ledger_balance_def split: option.split)
  show ?case
  proof (cases "HASH_ROOM U p")
    case True
    then have "create_patch_loop U t es (HASH_ADD U p h (ledger_balance U t h + v)) = Some (ret, p')"
      using Cons.prems(2) e new b by (auto simp: add_int64_def state_delta_add_def hash_map_add_def split: if_splits)
    from Cons.IH [OF _ this] Cons.prems(1) show ?thesis by (simp add: en e)
  next
    case False
    then show ?thesis using Cons.prems(2) e new by (auto simp: state_delta_add_def hash_map_add_def split: option.splits)
  qed
qed simp

lemma merge_patch_loop_correct:
  assumes "merge_patch_loop U es t = (ret, t')" "distinct (map fst es)"
  shows "ret = RC_OK \<and> ledger_balance U t' = (\<lambda>h. case map_of es h of Some v \<Rightarrow> v | None \<Rightarrow> ledger_balance U t h)
    \<or> ret = RC_OOM \<and> (\<exists>t. \<not> HASH_ROOM U t)"
  using assms
proof (induction es arbitrary: t)
  case (Cons e es)
  obtain h v where e: "e = (h, v)" by (cases e)
  obtain ret1 t1 where s: "state_delta_add_or_replace U t h v = (ret1, t1)" by (cases "state_delta_add_or_replace U t h v")
  have new: "map_of es h = None" using Cons.prems(2) e by (auto simp: map_of_eq_None_iff)
  from add_or_replace_correct [OF s] show ?case
    using Cons.IH [of t1] Cons.prems e s new by (auto simp: fun_eq_iff split: option.splits)
qed (simp add: fun_eq_iff)

lemma is_consistent_loop_correct:
  "is_consistent_loop U es t = (b, t') \<Longrightarrow> (b \<longleftrightarrow> list_all (\<lambda>e. 0 \<le> snd e) es)
     \<and> (b \<longrightarrow> HASH_ENTRIES U t' = filter (\<lambda>e. list_all (\<lambda>e'. snd e' = 0 \<longrightarrow> fst e \<noteq> fst e') es) (HASH_ENTRIES U t))"
proof (induction es arbitrary: t)
  case (Cons e es)
  show ?case
  proof (cases "snd e = 0")
    case True
    then have "is_consistent_loop U es (HASH_DEL U t (fst e)) = (b, t')" using Cons.prems by simp
    from Cons.IH [OF this] True show ?thesis by (simp add: del_entries conj_commute)
  next
    case False
    then have "snd e < 0 \<and> \<not> b \<or> 0 < snd e \<and> is_consistent_loop U es t = (b, t')" using Cons.prems by (auto split: if_splits)
    with False Cons.IH [of t] show ?thesis by auto
  qed
qed simp

lemma is_consistent_loop_balance:
  "is_consistent_loop U es t = (b, t') \<Longrightarrow> (\<And>h v. (h, v) \<in> set es \<Longrightarrow> ledger_balance U t h = v) \<Longrightarrow> ledger_balance U t' = ledger_balance U t"
proof (induction es arbitrary: t)
  case (Cons e es)
  obtain h v where e: "e = (h, v)" by (cases e)
  have h: "ledger_balance U t h = v" using Cons.prems(2) [of h v] e by simp
  then have d: "ledger_balance U (HASH_DEL U t h) = ledger_balance U t" if "v = 0" using that balance_del(1) [of t h] by (simp add: fun_eq_iff)
  consider "v < 0" "t' = t" | "v = 0" "is_consistent_loop U es (HASH_DEL U t h) = (b, t')"
    | "0 < v" "is_consistent_loop U es t = (b, t')"
    using Cons.prems(1) e by (auto split: if_splits)
  then show ?case
  proof cases
    case 2
    then show ?thesis using Cons.IH [OF 2(2)] Cons.prems(2) d by simp
  next
    case 3
    then show ?thesis using Cons.IH [OF 3(2)] Cons.prems(2) by simp
  qed simp
qed simp

end

text \<open>The bytes of the entries.\<close>

lemma bytes_value_digits: "bytes_value (map (\<lambda>i. wrap8 (v div 256 ^ i)) [0..<n]) = v mod 256 ^ n"
proof (induction n arbitrary: v)
  case (Suc n)
  have w: "wrap8 x mod 256 = x mod 256" for x using wrap_s_mod [of 8 x] by simp
  have sh: "map (\<lambda>i. wrap8 (v div 256 ^ i)) [0..<Suc n] = wrap8 v # map (\<lambda>i. wrap8 (v div 256 div 256 ^ i)) [0..<n]"
    by (simp add: upt_conv_Cons map_Suc_upt [symmetric] zdiv_zmult2_eq del: upt_Suc)
  show ?case unfolding sh bytes_value.simps Suc.IH w by (simp add: mod_mult2_eq' zmod_zmult2_eq)
qed simp

lemma int64_bytes_round_trip: "INT64_MIN \<le> v \<Longrightarrow> v \<le> INT64_MAX \<Longrightarrow> int64_of_bytes (int64_bytes v) = v"
proof -
  assume v: "INT64_MIN \<le> v" "v \<le> INT64_MAX"
  have "int64_of_bytes (int64_bytes v) = wrap64 (v mod 256 ^ 8)"
    unfolding int64_of_bytes_def int64_bytes_def bytes_value_digits by (rule refl)
  also have "\<dots> = wrap64 v" by (rule wrap_s_cong) simp
  also have "\<dots> = v" using v by (intro wrap64_id) auto
  finally show ?thesis .
qed

definition entry_bytes :: "flex_hash \<times> int \<Rightarrow> byte list" where
  "entry_bytes x = fst x @ int64_bytes (snd x)"

lemma blit_then_blit: "off + length ys + length zs \<le> length xs \<Longrightarrow> blit (blit xs off ys) (off + length ys) zs = blit xs off (ys @ zs)"
  by (simp add: blit_def ac_simps)

lemma serialize_loop_eq:
  assumes "list_all (\<lambda>x. length (fst x) = FLEX_TRIT_SIZE_243 e) es"
    and "off + length es * (FLEX_TRIT_SIZE_243 e + 8) \<le> length bytes"
  shows "serialize_loop e es bytes off = blit bytes off (concat (map entry_bytes es))"
  using assms
proof (induction es arbitrary: bytes off)
  case Nil
  then show ?case by (simp add: blit_def)
next
  case (Cons x es)
  let ?s = "FLEX_TRIT_SIZE_243 e"
  have l: "length (fst x) = ?s" "length (int64_bytes (snd x)) = 8" using Cons.prems by (simp_all add: int64_bytes_def)
  have lc: "length (concat (map entry_bytes es)) = length es * (?s + 8)"
    using Cons.prems(1) by (induction es) (auto simp: entry_bytes_def int64_bytes_def)
  have b: "blit (blit bytes off (take ?s (fst x))) (off + ?s) (int64_bytes (snd x)) = blit bytes off (entry_bytes x)"
    using blit_then_blit [of off "fst x" "int64_bytes (snd x)" bytes] Cons.prems(2) l by (simp add: entry_bytes_def)
  have lx: "length (entry_bytes x) = ?s + 8" using l by (simp add: entry_bytes_def)
  have "serialize_loop e (x # es) bytes off = blit (blit bytes off (entry_bytes x)) (off + ?s + 8) (concat (map entry_bytes es))"
    using Cons.IH [of "off + ?s + 8" "blit bytes off (entry_bytes x)"] Cons.prems lx b by (simp add: Let_def)
  then show ?case using blit_then_blit [of off "entry_bytes x" "concat (map entry_bytes es)" bytes] lx lc Cons.prems(2)
    by (simp add: add.assoc)
qed

context ledger_table
begin

lemma deserialize_loop_eq:
  assumes "list_all (\<lambda>x. length (fst x) = FLEX_TRIT_SIZE_243 e \<and> INT64_MIN \<le> snd x \<and> snd x \<le> INT64_MAX) es"
    and "distinct (map fst (HASH_ENTRIES U t @ es))" "drop off bytes = concat (map entry_bytes es) @ rest" "\<And>t. HASH_ROOM U t"
  shows "\<exists>t'. deserialize_loop U e bytes off (length es) t = (RC_OK, t') \<and> HASH_ENTRIES U t' = HASH_ENTRIES U t @ es"
  using assms(1-3)
proof (induction es arbitrary: t off)
  case (Cons x es)
  obtain h v where x: "x = (h, v)" by (cases x)
  let ?s = "FLEX_TRIT_SIZE_243 e"
  have l: "length h = ?s" "length (int64_bytes v) = 8" "int64_of_bytes (int64_bytes v) = v"
    using Cons.prems(1) x int64_bytes_round_trip [of v] by (simp_all add: int64_bytes_def)
  have d: "drop off bytes = h @ int64_bytes v @ concat (map entry_bytes es) @ rest" using Cons.prems(3) x by (simp add: entry_bytes_def [of "(h, v)"])
  have d8: "drop (off + ?s) bytes = int64_bytes v @ concat (map entry_bytes es) @ rest"
    using d l(1) by (metis append_eq_conv_conj drop_drop add.commute)
  have d16: "drop (off + ?s + 8) bytes = concat (map entry_bytes es) @ rest"
    using d8 l(2) by (metis append_eq_conv_conj drop_drop add.commute)
  have "HASH_FIND U t h = None" using Cons.prems(2) x by (auto simp: find_entries map_of_eq_None_iff)
  note en = add_entries [OF this, of v]
  have "\<exists>t'. deserialize_loop U e bytes (off + ?s + 8) (length es) (HASH_ADD U t h v) = (RC_OK, t')
      \<and> HASH_ENTRIES U t' = HASH_ENTRIES U (HASH_ADD U t h v) @ es"
    by (rule Cons.IH) (use Cons.prems en x d16 in auto)
  then show ?case using en x l d d8 assms(4) by (simp add: Let_def slice_def)
qed simp

text \<open>A patch, its check, and merging it.\<close>

lemma patch_entries:
  assumes "state_delta_create_patch U s d (HASH_NULL U) = Some (RC_OK, p)"
  shows "HASH_ENTRIES U p = map (\<lambda>(h, v). (h, ledger_balance U s h + v)) (HASH_ENTRIES U d)"
  using create_patch_loop_correct [of "HASH_NULL U" "HASH_ENTRIES U d" s RC_OK p] assms
  by (auto simp: state_delta_create_patch_def)

lemma patch_balance:
  assumes "state_delta_create_patch U s d (HASH_NULL U) = Some (RC_OK, p)"
  shows "map_of (HASH_ENTRIES U p) h = map_option (\<lambda>v. ledger_balance U s h + v) (map_of (HASH_ENTRIES U d) h)"
proof -
  have "map_of (map (\<lambda>(h, v). (h, ledger_balance U s h + v)) es) h = map_option (\<lambda>v. ledger_balance U s h + v) (map_of es h)" for es
    by (induction es) auto
  then show ?thesis by (simp add: patch_entries [OF assms])
qed

lemma patch_consistent:
  assumes p: "state_delta_create_patch U s d (HASH_NULL U) = Some (RC_OK, p)"
  shows "fst (state_delta_is_consistent U p) \<longleftrightarrow> (\<forall>h \<in> set (HASH_KEYS U d). 0 \<le> ledger_balance U s h + ledger_balance U d h)"
    "fst (state_delta_is_consistent U p) \<longrightarrow>
        HASH_ENTRIES U (snd (state_delta_is_consistent U p)) = filter (\<lambda>e. 0 < snd e) (HASH_ENTRIES U p)"
    "ledger_balance U (snd (state_delta_is_consistent U p)) = ledger_balance U p"
proof -
  obtain b p' where b: "is_consistent_loop U (HASH_ENTRIES U p) p = (b, p')" by (cases "is_consistent_loop U (HASH_ENTRIES U p) p")
  have v: "ledger_balance U t h = v" if "(h, v) \<in> set (HASH_ENTRIES U t)" for t h v
    using that by (simp add: ledger_balance_def find_some_iff [symmetric])
  note c = is_consistent_loop_correct [OF b]
  show "fst (state_delta_is_consistent U p) \<longleftrightarrow> (\<forall>h \<in> set (HASH_KEYS U d). 0 \<le> ledger_balance U s h + ledger_balance U d h)"
    using c b v [of _ _ d] by (auto simp: state_delta_is_consistent_def list_all_iff patch_entries [OF p] HASH_KEYS_def)
  have k: "snd e = snd e'" if "e \<in> set (HASH_ENTRIES U p)" "e' \<in> set (HASH_ENTRIES U p)" "fst e = fst e'" for e e'
    using v [of "fst e" "snd e" p] v [of "fst e'" "snd e'" p] that by (metis prod.collapse)
  have "b \<Longrightarrow> HASH_ENTRIES U p' = filter (\<lambda>e. 0 < snd e) (HASH_ENTRIES U p)"
  proof -
    assume "b"
    then have "HASH_ENTRIES U p' = filter (\<lambda>e. list_all (\<lambda>e'. snd e' = 0 \<longrightarrow> fst e \<noteq> fst e') (HASH_ENTRIES U p)) (HASH_ENTRIES U p)"
      and nn: "\<forall>e \<in> set (HASH_ENTRIES U p). 0 \<le> snd e" using c by (auto simp: list_all_iff)
    moreover have "list_all (\<lambda>e'. snd e' = 0 \<longrightarrow> fst e \<noteq> fst e') (HASH_ENTRIES U p) \<longleftrightarrow> 0 < snd e"
      if "e \<in> set (HASH_ENTRIES U p)" for e
      using k [OF that] nn that by (fastforce simp: list_all_iff order_less_le)
    ultimately show ?thesis by (simp cong: filter_cong)
  qed
  with b show "fst (state_delta_is_consistent U p) \<longrightarrow>
        HASH_ENTRIES U (snd (state_delta_is_consistent U p)) = filter (\<lambda>e. 0 < snd e) (HASH_ENTRIES U p)"
    by (simp add: state_delta_is_consistent_def)
  show "ledger_balance U (snd (state_delta_is_consistent U p)) = ledger_balance U p"
    using is_consistent_loop_balance [OF b] v b by (simp add: state_delta_is_consistent_def)
qed

lemma merge_is_apply:
  assumes p: "state_delta_create_patch U s d (HASH_NULL U) = Some (RC_OK, p)"
  shows "\<forall>m a. state_delta_merge_patch U s p = (RC_OK, m) \<longrightarrow> state_delta_apply_patch U s d = Some (RC_OK, a)
    \<longrightarrow> ledger_balance U m = ledger_balance U a"
proof (intro allI impI)
  fix m a
  assume m: "state_delta_merge_patch U s p = (RC_OK, m)" and a: "state_delta_apply_patch U s d = Some (RC_OK, a)"
  have "ledger_balance U m = (\<lambda>h. case map_of (HASH_ENTRIES U p) h of Some v \<Rightarrow> v | None \<Rightarrow> ledger_balance U s h)"
    using merge_patch_loop_correct [of "HASH_ENTRIES U p" s RC_OK m] m by (simp add: state_delta_merge_patch_def)
  moreover have "ledger_balance U a = (\<lambda>h. ledger_balance U s h + entries_balance (HASH_ENTRIES U d) h)"
    using apply_patch_loop_correct [of "HASH_ENTRIES U d" s RC_OK a] a by (auto simp: state_delta_apply_patch_def)
  ultimately show "ledger_balance U m = ledger_balance U a"
    by (auto simp: fun_eq_iff patch_balance [OF p] entries_balance_def split: option.split)
qed

lemma sum_loop_correct: "sum_loop es a = Some r \<Longrightarrow> r = a + sum_list (map snd es)"
  by (induction es arbitrary: a) (fastforce simp: add_int64_def split: option.splits if_splits)+

lemma sum_loop_nonneg:
  assumes "list_all (\<lambda>x. 0 \<le> snd x) es" "0 \<le> a" "a + sum_list (map snd es) \<le> INT64_MAX"
  shows "sum_loop es a = Some (a + sum_list (map snd es))"
  using assms
proof (induction es arbitrary: a)
  case (Cons x es)
  have "0 \<le> sum_list (map snd es)" using Cons.prems(1) by (intro sum_list_nonneg) (auto simp: list_all_iff)
  with Cons show ?case by (simp add: add_int64_def add.assoc)
qed simp

end

interpretation alist_ledger: ledger_table "alist_uthash room" for room
  by (rule ledger_table.intro, rule alist_table.uthash_laws_axioms)

section \<open>Properties\<close>

text \<open>
  C8. Applying a patch implements the addition of the abstract ledgers: when the code returns RC_OK every
  balance is the sum of the two balances, the total is the sum of the totals and no address with a null balance is
  kept. The code returns RC_OK if no sum overflows and memory does not run out; it fails only for lack of memory,
  and it has then applied the first entries of the patch.
\<close>

theorem state_delta_apply_patch_refines:
  assumes "ledger_table U"
  shows "(\<forall>ret s'. state_delta_apply_patch U s p = Some (ret, s') \<longrightarrow>
      (\<exists>n \<le> HASH_COUNT U p. ledger_balance U s' = (\<lambda>h. ledger_balance U s h + entries_balance (take n (HASH_ENTRIES U p)) h)
        \<and> (ledger_reduced U s \<longrightarrow> ledger_reduced U s')
        \<and> (ret = RC_OK \<and> n = HASH_COUNT U p \<or> ret = RC_OOM \<and> (\<exists>t. \<not> HASH_ROOM U t)))
      \<and> (ret = RC_OK \<longrightarrow> ledger_balance U s' = (\<lambda>h. ledger_balance U s h + ledger_balance U p h)
           \<and> ledger_total U s' = ledger_total U s + ledger_total U p))
    \<and> ((\<forall>t. HASH_ROOM U t) \<and> (\<forall>h. INT64_MIN \<le> ledger_balance U s h + ledger_balance U p h
            \<and> ledger_balance U s h + ledger_balance U p h \<le> INT64_MAX)
        \<longrightarrow> (\<exists>s'. state_delta_apply_patch U s p = Some (RC_OK, s')))"
proof (intro conjI allI impI, goal_cases)
  case (1 ret s')
  from ledger_table.apply_patch_loop_correct [OF assms] 1 uthash_laws.keys_distinct [OF ledger_table.axioms [OF assms]]
  show ?case by (fastforce simp: state_delta_apply_patch_def HASH_COUNT_def)
next
  case (2 ret s')
  from ledger_table.apply_patch_loop_correct [OF assms] 2 uthash_laws.keys_distinct [OF ledger_table.axioms [OF assms]]
  show ?case by (fastforce simp: state_delta_apply_patch_def ledger_table.balance_entries [OF assms, of p])
next
  case (3 ret s')
  from ledger_table.apply_patch_loop_correct [OF assms] 3 uthash_laws.keys_distinct [OF ledger_table.axioms [OF assms]]
  show ?case by (fastforce simp: state_delta_apply_patch_def ledger_total_def [of U p])
next
  case 4
  have "ledger_balance U p h = v" if "(h, v) \<in> set (HASH_ENTRIES U p)" for h v
    using that uthash_laws.find_some_iff [OF ledger_table.axioms [OF assms], of p h v] by (simp add: ledger_balance_def)
  with 4 show ?case unfolding state_delta_apply_patch_def
    by (intro ledger_table.apply_patch_loop_defined [OF assms] uthash_laws.keys_distinct [OF ledger_table.axioms [OF assms]]) auto
qed

text \<open>Tables for the witnesses: memory never runs out.\<close>

abbreviation table_ops :: "((flex_hash, int) alist, flex_hash, int) uthash" where
  "table_ops \<equiv> alist_uthash (\<lambda>_. True)"

lemma table_ops_simps [simp]: "HASH_ROOM table_ops t" "HASH_NULL table_ops = DAList.empty"
  "HASH_ENTRIES table_ops t = DAList.impl_of t" "HASH_FIND table_ops t = DAList.lookup t"
  by (simp_all add: alist_uthash_def)

definition one_entry :: "flex_hash \<Rightarrow> int \<Rightarrow> (flex_hash, int) alist" where
  "one_entry h v = DAList.update h v DAList.empty"

lemma one_entry_impl [simp]: "DAList.impl_of (one_entry h v) = [(h, v)]" "DAList.impl_of DAList.empty = []"
  by (simp_all add: one_entry_def DAList.update.rep_eq DAList.empty.rep_eq)

lemma one_entry_balance: "ledger_balance table_ops (one_entry h v) = (\<lambda>k. if k = h then v else 0)"
  "ledger_balance table_ops DAList.empty = (\<lambda>k. 0)"
  by (simp_all add: ledger_balance_def fun_eq_iff lookup.rep_eq)

theorem state_delta_apply_patch_refines_witness:
  "\<exists>s'. state_delta_apply_patch table_ops (one_entry [1] 7) (one_entry [1] (- 5)) = Some (RC_OK, s')
     \<and> ledger_balance table_ops s' [1] = 2"
proof -
  note t = state_delta_apply_patch_refines [OF alist_ledger.ledger_table_axioms, of "\<lambda>_. True" "one_entry [1] 7" "one_entry [1] (- 5)"]
  from t [THEN conjunct2] obtain s' where s': "state_delta_apply_patch table_ops (one_entry [1] 7) (one_entry [1] (- 5)) = Some (RC_OK, s')"
    by (auto simp: one_entry_balance)
  have "ledger_balance table_ops s' = (\<lambda>h. ledger_balance table_ops (one_entry [1] 7) h + ledger_balance table_ops (one_entry [1] (- 5)) h)"
    using t [THEN conjunct1, rule_format, OF s'] by blast
  with s' show ?thesis by (simp add: one_entry_balance)
qed

text \<open>
  C11. The check of a patch and the two ways to use it. A patch created from a ledger and a delta in an empty table holds,
  for the addresses of the delta in their order, the balances after the delta; it is found consistent exactly if none of them is
  negative, and the check then leaves the addresses with a positive balance. Merging the patch into the ledger (replacing
  balances) gives the same balances as applying the delta (adding them).
\<close>

theorem state_delta_patch_consistent:
  assumes "ledger_table U" "state_delta_create_patch U s d (HASH_NULL U) = Some (RC_OK, p)"
  shows "HASH_ENTRIES U p = map (\<lambda>(h, v). (h, ledger_balance U s h + v)) (HASH_ENTRIES U d)
    \<and> (fst (state_delta_is_consistent U p) \<longleftrightarrow> (\<forall>h \<in> set (HASH_KEYS U d). 0 \<le> ledger_balance U s h + ledger_balance U d h))
    \<and> (fst (state_delta_is_consistent U p) \<longrightarrow>
        HASH_ENTRIES U (snd (state_delta_is_consistent U p)) = filter (\<lambda>e. 0 < snd e) (HASH_ENTRIES U p))
    \<and> ledger_balance U (snd (state_delta_is_consistent U p)) = ledger_balance U p
    \<and> (\<forall>m a. state_delta_merge_patch U s p = (RC_OK, m) \<longrightarrow> state_delta_apply_patch U s d = Some (RC_OK, a)
        \<longrightarrow> ledger_balance U m = ledger_balance U a)"
  using ledger_table.patch_entries [OF assms] ledger_table.patch_consistent [OF assms] ledger_table.merge_is_apply [OF assms]
  by blast

lemma one_entry_add: "state_delta_add table_ops DAList.empty h v = (RC_OK, one_entry h v)"
  by (simp add: state_delta_add_def hash_map_add_def lookup.rep_eq one_entry_def) (simp add: alist_uthash_def)

theorem state_delta_patch_consistent_witness:
  "fst (state_delta_is_consistent table_ops (one_entry [1] 2)) \<and> \<not> fst (state_delta_is_consistent table_ops (one_entry [1] (- 1)))"
proof -
  have p: "state_delta_create_patch table_ops (one_entry [1] 7) (one_entry [1] v) (HASH_NULL table_ops) = Some (RC_OK, one_entry [1] (7 + v))"
    if "\<bar>v\<bar> < 100" for v
    using that by (simp add: state_delta_create_patch_def state_delta_find_def lookup.rep_eq add_int64_def one_entry_add) arith
  have "HASH_KEYS table_ops (one_entry h v) = [h]" for h v by (simp add: HASH_KEYS_def)
  then show ?thesis
    using state_delta_patch_consistent [OF alist_ledger.ledger_table_axioms p, of "- 5"]
      state_delta_patch_consistent [OF alist_ledger.ledger_table_axioms p, of "- 8"]
    by (simp add: one_entry_balance)
qed

text \<open>
  A ledger survives its binary form: the bytes that \<open>state_delta_serialize\<close> writes into a buffer of the serialised
  size are read back by \<open>state_delta_deserialize\<close> as the same entries in the same order, negative values included; the
  rest of a larger buffer is not touched. If memory runs out the code says so.
\<close>

theorem state_delta_survives_serialization:
  assumes "ledger_table U"
    and "list_all (\<lambda>x. length (fst x) = FLEX_TRIT_SIZE_243 e \<and> INT64_MIN \<le> snd x \<and> snd x \<le> INT64_MAX) (HASH_ENTRIES U s)"
    and "state_delta_serialized_size U e (Some s) \<le> length buf" "\<And>t. HASH_ROOM U t"
  shows "\<exists>bytes s'. state_delta_serialize U e s buf = (RC_OK, bytes) \<and> length bytes = length buf
    \<and> drop (state_delta_serialized_size U e (Some s)) bytes = drop (state_delta_serialized_size U e (Some s)) buf
    \<and> state_delta_deserialize U e bytes (state_delta_serialized_size U e (Some s)) (HASH_NULL U) = (RC_OK, s')
    \<and> HASH_ENTRIES U s' = HASH_ENTRIES U s \<and> state_delta_equal U s' s"
proof -
  let ?n = "state_delta_serialized_size U e (Some s)" and ?b = "concat (map entry_bytes (HASH_ENTRIES U s))"
  have n: "?n = length (HASH_ENTRIES U s) * (FLEX_TRIT_SIZE_243 e + 8)" by (simp add: state_delta_serialized_size_def HASH_COUNT_def)
  have k: "list_all (\<lambda>x. length (fst x) = FLEX_TRIT_SIZE_243 e) (HASH_ENTRIES U s)" using assms(2) by (auto simp: list_all_iff)
  have lc: "length (concat (map entry_bytes es)) = length es * (FLEX_TRIT_SIZE_243 e + 8)"
    if "list_all (\<lambda>x. length (fst x) = FLEX_TRIT_SIZE_243 e) es" for es
    using that by (induction es) (auto simp: entry_bytes_def int64_bytes_def)
  have se: "state_delta_serialize U e s buf = (RC_OK, blit buf 0 ?b)"
    using serialize_loop_eq [OF k, of 0 buf] assms(3) n by (simp add: state_delta_serialize_def)
  have d: "distinct (map fst (HASH_ENTRIES U (HASH_NULL U) @ HASH_ENTRIES U s))" "HASH_ENTRIES U (HASH_NULL U) = []"
    using uthash_laws.keys_distinct uthash_laws.null_entries ledger_table.axioms [OF assms(1)] by (metis append_Nil)+
  obtain s' where s': "deserialize_loop U e (blit buf 0 ?b) 0 (length (HASH_ENTRIES U s)) (HASH_NULL U) = (RC_OK, s')"
      "HASH_ENTRIES U s' = HASH_ENTRIES U s"
    using ledger_table.deserialize_loop_eq [OF assms(1,2) d(1), of 0 "blit buf 0 ?b" "drop (length ?b) buf"] assms(4) d(2)
    by (auto simp: blit_def)
  have "HASH_FIND U s' = HASH_FIND U s"
    using uthash_laws.find_entries [OF ledger_table.axioms [OF assms(1)]] s'(2) by (simp add: fun_eq_iff)
  then have "state_delta_equal U s' s"
    using uthash_laws.hash_map_equal_iff [OF ledger_table.axioms [OF assms(1)]] by (simp add: state_delta_equal_def)
  then show ?thesis using se s' n lc [OF k] assms(3)
    by (intro exI [of _ "blit buf 0 ?b"] exI [of _ s'] conjI) (auto simp: state_delta_deserialize_def blit_def)
qed

theorem state_delta_survives_serialization_witness:
  "\<exists>bytes s'. state_delta_serialize table_ops ENC3 (one_entry (replicate 81 65) (- 300)) (replicate 90 0) = (RC_OK, bytes)
     \<and> state_delta_deserialize table_ops ENC3 bytes 89 DAList.empty = (RC_OK, s')
     \<and> state_delta_equal table_ops s' (one_entry (replicate 81 65) (- 300))"
proof -
  have "FLEX_TRIT_SIZE_243 ENC3 = 81" by code_simp
  then show ?thesis
    using state_delta_survives_serialization [OF alist_ledger.ledger_table_axioms,
        of ENC3 "\<lambda>_. True" "one_entry (replicate 81 65) (- 300)" "replicate 90 0"]
    by (auto simp: state_delta_serialized_size_def HASH_COUNT_def)
qed

end
