(* ===== verification/Snapshot_Text.thy ===== *)
theory Snapshot_Text
  imports Prelude Errors Trit_Tryte Flex_Trit Flex_Convert Transaction Hash_Containers State_Delta
begin

text \<open>
  The text files of a snapshot: \<open>state_delta_serialize_str\<close> and \<open>state_delta_deserialize_str\<close> of
  \<open>ciri/consensus/snapshot/state_delta.c\<close>, and \<open>ciri/consensus/snapshot/snapshot_metadata.c\<close>. A C string is the
  list of its characters up to the terminating NUL, which is written out where the code writes it. The functions
  of the C library that the code calls (\<open>strtok\<close>, \<open>sprintf\<close>, \<open>sscanf\<close>) are modelled as far as it uses them.
  \<open>None\<close> is undefined behaviour: a read past the end of the string, or a number that does not fit its type.
  The offset into the text is a \<open>uint32_t\<close>: the texts are shorter than 4 GiB.
\<close>

section \<open>Strings\<close>

type_synonym cstring = "int list"

definition isdigit :: "int \<Rightarrow> bool" where "isdigit c \<longleftrightarrow> 48 \<le> c \<and> c \<le> 57"
definition isspace :: "int \<Rightarrow> bool" where "isspace c \<longleftrightarrow> c = 32 \<or> (9 \<le> c \<and> c \<le> 13)"

fun decimal :: "nat \<Rightarrow> cstring" where
  "decimal n = (if n < 10 then [48 + int n] else decimal (n div 10) @ [48 + int (n mod 10)])"

declare decimal.simps [simp del]

text \<open>\<open>sprintf\<close> with \<open>PRId64\<close> and \<open>PRIu64\<close>.\<close>

definition print_int64 :: "int \<Rightarrow> cstring" where
  "print_int64 v = (if v < 0 then 45 # decimal (nat (- v)) else decimal (nat v))"

definition print_uint64 :: "int \<Rightarrow> cstring" where
  "print_uint64 v = decimal (nat v)"

definition digits_value :: "cstring \<Rightarrow> int" where
  "digits_value ds = foldl (\<lambda>v c. v * 10 + (c - 48)) 0 ds"

text \<open>
  \<open>sscanf\<close> of a decimal number: white space, an optional sign, at least one digit; the sign, the value and what is
  left of the string.
\<close>

definition scan_decimal :: "cstring \<Rightarrow> (int \<times> cstring) option" where
  "scan_decimal s =
     (let s = dropWhile isspace s;
          neg = (s \<noteq> [] \<and> hd s = 45);
          s = (if s \<noteq> [] \<and> (hd s = 45 \<or> hd s = 43) then tl s else s);
          ds = takeWhile isdigit s
      in if ds = [] then None
         else Some (if neg then - digits_value ds else digits_value ds, dropWhile isdigit s))"

definition sscanf_int64 :: "cstring \<Rightarrow> int option option" where
  "sscanf_int64 s =
     (case scan_decimal s of
        None \<Rightarrow> Some None
      | Some (v, _) \<Rightarrow> if INT64_MIN \<le> v \<and> v \<le> INT64_MAX then Some (Some v) else None)"

text \<open>An unsigned conversion accepts a sign too; \<open>offset\<close> is what \<open>%n\<close> stores.\<close>

definition sscanf_uint64 :: "cstring \<Rightarrow> (int \<times> nat) option option" where
  "sscanf_uint64 s =
     (case scan_decimal s of
        None \<Rightarrow> Some None
      | Some (v, rest) \<Rightarrow>
          if \<bar>v\<bar> < 2 ^ 64 then Some (Some (uwrap64 v, length s - length rest)) else None)"

text \<open>
  \<open>strtok\<close> with one delimiter: the token and the string after the delimiter, where the next call goes on; it is
  \<open>None\<close> when the token ends with the string.
\<close>

definition strtok :: "int \<Rightarrow> cstring option \<Rightarrow> (cstring \<times> cstring option) option" where
  "strtok delim saved =
     (case saved of
        None \<Rightarrow> None
      | Some s \<Rightarrow>
          (let s = dropWhile (\<lambda>c. c = delim) s;
               token = takeWhile (\<lambda>c. c \<noteq> delim) s
           in if s = [] then None
              else Some (token, if length token < length s then Some (drop (length token + 1) s) else None)))"

text \<open>The memory from a token on: the delimiter is overwritten with NUL.\<close>

definition token_memory :: "cstring \<Rightarrow> cstring option \<Rightarrow> int list" where
  "token_memory token saved = token @ [0] @ (case saved of None \<Rightarrow> [] | Some s \<Rightarrow> s @ [0])"

lemma strtok_shorter: "strtok d (Some s) = Some (token, saved) \<Longrightarrow> (case saved of None \<Rightarrow> True | Some s' \<Rightarrow> length s' < length s)"
proof -
  assume a: "strtok d (Some s) = Some (token, saved)"
  have "length (dropWhile (\<lambda>c. c = d) s) \<le> length s" by (rule length_dropWhile_le)
  with a show ?thesis by (auto simp: strtok_def Let_def split: if_splits)
qed

section \<open>The ledger\<close>

definition NUM_TRYTES_ADDRESS :: nat where "NUM_TRYTES_ADDRESS = 81"
definition NUM_TRYTES_HASH :: nat where "NUM_TRYTES_HASH = 81"
definition IOTA_SUPPLY :: int where "IOTA_SUPPLY = 2779530283277761"
definition MAX_CHARS_UINT64 :: nat where "MAX_CHARS_UINT64 = 20"

definition state_delta_serialized_str_size :: "'t state_delta_ops \<Rightarrow> 't \<Rightarrow> nat" where
  "state_delta_serialized_str_size U delta = state_delta_size U delta * (NUM_TRYTES_ADDRESS + 1 + 16 + 1)"

text \<open>The characters that are written, the NUL included.\<close>

primrec serialize_str_loop :: "flex_enc \<Rightarrow> (flex_hash \<times> int) list \<Rightarrow> cstring \<Rightarrow> retcode \<times> cstring" where
  "serialize_str_loop e [] str = (RC_OK, str @ [0])"
| "serialize_str_loop e (iter # iters) str =
     (let (n, address) = flex_trits_to_trytes e (replicate NUM_TRYTES_ADDRESS 0) NUM_TRYTES_ADDRESS (fst iter) NUM_TRITS_ADDRESS NUM_TRITS_ADDRESS
      in if n \<noteq> NUM_TRITS_ADDRESS then (RC_SNAPSHOT_STATE_DELTA_FAILED_DESERIALIZING, str)
         else serialize_str_loop e iters (str @ address @ [59] @ print_int64 (snd iter) @ [10]))"

definition state_delta_serialize_str :: "'t state_delta_ops \<Rightarrow> flex_enc \<Rightarrow> 't \<Rightarrow> retcode \<times> cstring" where
  "state_delta_serialize_str U e delta = serialize_str_loop e (HASH_ENTRIES U delta) []"

text \<open>
  The address is read from the 81 characters at the token. Errors in the middle of the text return at once and
  leave the entries read so far in the table; the others free the table.
\<close>

definition read_address :: "flex_enc \<Rightarrow> cstring \<Rightarrow> cstring option \<Rightarrow> (nat \<times> flex_hash) option" where
  "read_address e token saved =
     (if length (token_memory token saved) < NUM_TRYTES_ADDRESS then None
      else Some (flex_trits_from_trytes e (replicate (FLEX_TRIT_SIZE_243 e) 0) NUM_TRITS_ADDRESS
                   (take NUM_TRYTES_ADDRESS (token_memory token saved)) NUM_TRYTES_ADDRESS NUM_TRYTES_ADDRESS))"

function deserialize_str_loop ::
  "'t state_delta_ops \<Rightarrow> flex_enc \<Rightarrow> cstring option \<Rightarrow> int \<Rightarrow> 't \<Rightarrow> (retcode \<times> 't) option"
where
  "deserialize_str_loop U e saved supply delta =
     (case strtok 59 saved of
        None \<Rightarrow>
          Some (if supply \<noteq> IOTA_SUPPLY then (RC_SNAPSHOT_INVALID_SUPPLY, state_delta_destroy U delta) else (RC_OK, delta))
      | Some (token, saved) \<Rightarrow>
          (case read_address e token saved of
             None \<Rightarrow> None
           | Some (n, curr_address) \<Rightarrow>
               if n \<noteq> NUM_TRYTES_ADDRESS then Some (RC_SNAPSHOT_INVALID_FILE, delta)
               else case strtok 10 saved of
                      None \<Rightarrow> Some (RC_SNAPSHOT_INVALID_FILE, delta)
                    | Some (token, saved) \<Rightarrow>
                        (case sscanf_int64 token of
                           None \<Rightarrow> None
                         | Some None \<Rightarrow> Some (RC_SNAPSHOT_INVALID_FILE, delta)
                         | Some (Some value) \<Rightarrow>
                             if value < 0 then Some (RC_SNAPSHOT_INCONSISTENT_SNAPSHOT, state_delta_destroy U delta)
                             else let (ret, delta) = state_delta_add U delta curr_address value
                                  in if ret \<noteq> RC_OK then Some (ret, delta)
                                     else deserialize_str_loop U e saved (uwrap64 (supply + value)) delta)))"
  by pat_completeness (auto simp only: prod.inject)
termination
proof (relation "measure (\<lambda>(U, e, saved, sup, delta). case saved of None \<Rightarrow> 0 | Some s \<Rightarrow> Suc (length s))", goal_cases)
  case (2 U e saved sup delta p1 token saved1 p2 n a p3 token2 saved2 v1 v2 p4 ret delta')
  obtain s where s: "saved = Some s" using 2(1,2) by (cases saved) (auto simp: strtok_def)
  have t1: "strtok 59 (Some s) = Some (token, saved1)" using 2(1,2) s by simp
  have t2: "strtok 10 saved1 = Some (token2, saved2)" using 2 by simp
  then obtain s1 where s1: "saved1 = Some s1" by (cases saved1) (auto simp: strtok_def)
  have "length s1 < length s" using strtok_shorter [OF t1] s1 by simp
  then show ?case using strtok_shorter [OF t2 [unfolded s1]] s by (cases saved2) auto
qed simp

declare deserialize_str_loop.simps [simp del]

definition state_delta_deserialize_str ::
  "'t state_delta_ops \<Rightarrow> flex_enc \<Rightarrow> cstring \<Rightarrow> 't \<Rightarrow> (retcode \<times> 't) option"
where
  "state_delta_deserialize_str U e str delta =
     (if strtok 59 (Some str) = None then Some (RC_SNAPSHOT_INVALID_FILE, delta)
      else deserialize_str_loop U e (Some str) 0 delta)"

section \<open>The metadata\<close>

type_synonym 't entry_points_ops = "('t, flex_hash, int) uthash"

record 't snapshot_metadata =
  md_hash :: flex_hash
  md_index :: int
  md_timestamp :: int
  md_solid_entry_points :: 't

definition iota_snapshot_metadata_init ::
  "'t entry_points_ops \<Rightarrow> 't snapshot_metadata \<Rightarrow> flex_hash \<Rightarrow> int \<Rightarrow> int \<Rightarrow> 't \<Rightarrow> retcode \<times> 't snapshot_metadata"
where
  "iota_snapshot_metadata_init M md hash index timestamp solid_entry_points =
     (RC_OK, md\<lparr>md_hash := hash, md_index := index, md_timestamp := timestamp,
        md_solid_entry_points := snd (hash_map_copy M solid_entry_points (HASH_NULL M))\<rparr>)"

definition iota_snapshot_metadata_reset :: "'t entry_points_ops \<Rightarrow> 't snapshot_metadata \<Rightarrow> 't snapshot_metadata" where
  "iota_snapshot_metadata_reset M md = md\<lparr>md_index := 0, md_timestamp := 0, md_solid_entry_points := HASH_NULL M\<rparr>"

definition iota_snapshot_metadata_destroy ::
  "'t entry_points_ops \<Rightarrow> 't snapshot_metadata \<Rightarrow> retcode \<times> 't snapshot_metadata"
where
  "iota_snapshot_metadata_destroy M md = (RC_OK, md\<lparr>md_solid_entry_points := hash_map_free M (md_solid_entry_points md)\<rparr>)"

definition iota_snapshot_metadata_serialized_str_size :: "'t entry_points_ops \<Rightarrow> 't snapshot_metadata \<Rightarrow> nat" where
  "iota_snapshot_metadata_serialized_str_size M md =
     NUM_TRYTES_HASH + 1 + MAX_CHARS_UINT64 + 1 + MAX_CHARS_UINT64 + 1
     + hash_map_size M (md_solid_entry_points md) * (MAX_CHARS_UINT64 + 1 + NUM_TRYTES_HASH + 1)"

primrec metadata_serialize_loop :: "flex_enc \<Rightarrow> (flex_hash \<times> int) list \<Rightarrow> cstring \<Rightarrow> retcode \<times> cstring" where
  "metadata_serialize_loop e [] str = (RC_OK, str @ [0])"
| "metadata_serialize_loop e (iter # iters) str =
     (let (n, address) = flex_trits_to_trytes e (replicate NUM_TRYTES_ADDRESS 0) NUM_TRYTES_ADDRESS (fst iter) NUM_TRITS_HASH NUM_TRITS_HASH
      in if n \<noteq> NUM_TRITS_HASH then (RC_SNAPSHOT_METADATA_FAILED_SERIALIZING, str)
         else metadata_serialize_loop e iters (str @ address @ [59] @ print_uint64 (snd iter) @ [10]))"

definition iota_snapshot_metadata_serialize_str :: "'t entry_points_ops \<Rightarrow> flex_enc \<Rightarrow> 't snapshot_metadata \<Rightarrow> retcode \<times> cstring" where
  "iota_snapshot_metadata_serialize_str M e md =
     (let (n, hash) = flex_trits_to_trytes e (replicate NUM_TRYTES_HASH 0) NUM_TRYTES_HASH (md_hash md) NUM_TRITS_HASH NUM_TRITS_HASH
      in if n \<noteq> NUM_TRITS_HASH then (RC_SNAPSHOT_METADATA_FAILED_SERIALIZING, [])
         else metadata_serialize_loop e (HASH_ENTRIES M (md_solid_entry_points md))
                (hash @ [10] @ print_uint64 (md_index md) @ [10] @ print_uint64 (md_timestamp md) @ [10]
                 @ print_uint64 (int (hash_map_size M (md_solid_entry_points md))) @ [10] @ [48, 10]))"

text \<open>The loop ends with the announced number of entries or with the text.\<close>

primrec metadata_deserialize_loop ::
  "'t entry_points_ops \<Rightarrow> flex_enc \<Rightarrow> nat \<Rightarrow> (cstring \<times> cstring option) option \<Rightarrow> 't \<Rightarrow> (retcode \<times> 't) option"
where
  "metadata_deserialize_loop M e 0 tok points = Some (RC_OK, points)"
| "metadata_deserialize_loop M e (Suc n) tok points =
     (case tok of
        None \<Rightarrow> Some (RC_OK, points)
      | Some (token, saved) \<Rightarrow>
          (case read_address e token saved of
             None \<Rightarrow> None
           | Some (k, curr_hash) \<Rightarrow>
               if k \<noteq> NUM_TRYTES_ADDRESS then Some (RC_SNAPSHOT_METADATA_FAILED_DESERIALIZING, points)
               else case strtok 10 saved of
                      None \<Rightarrow> Some (RC_OK, points)
                    | Some (token, saved) \<Rightarrow>
                        (case sscanf_uint64 token of
                           None \<Rightarrow> None
                         | Some None \<Rightarrow> Some (RC_SNAPSHOT_METADATA_FAILED_DESERIALIZING, points)
                         | Some (Some (snapshot_index, _)) \<Rightarrow>
                             (let (ret, points) = hash_map_add M points curr_hash snapshot_index
                              in if ret \<noteq> RC_OK then Some (ret, points)
                                 else metadata_deserialize_loop M e n (strtok 59 saved) points))))"

text \<open>
  A line with a number, read with \<open>%n\<close>: the pointer moves behind the number and the character after it; \<open>None\<close> when
  that leaves the string and its NUL.
\<close>

definition read_number :: "cstring \<Rightarrow> (int \<times> cstring) option option" where
  "read_number ptr =
     (case sscanf_uint64 ptr of
        None \<Rightarrow> None
      | Some None \<Rightarrow> Some None
      | Some (Some (v, offset)) \<Rightarrow> if offset + 1 \<le> length ptr then Some (Some (v, drop (offset + 1) ptr)) else None)"

definition iota_snapshot_metadata_deserialize_str ::
  "'t entry_points_ops \<Rightarrow> flex_enc \<Rightarrow> cstring \<Rightarrow> 't snapshot_metadata \<Rightarrow> (retcode \<times> 't snapshot_metadata) option"
where
  "iota_snapshot_metadata_deserialize_str M e str md =
     (if length str \<le> NUM_TRYTES_HASH then None
      else let (n, hash) = flex_trits_from_trytes e (md_hash md) NUM_TRITS_HASH (take NUM_TRYTES_HASH str) NUM_TRYTES_HASH NUM_TRYTES_HASH;
               md = md\<lparr>md_hash := hash\<rparr>;
               ptr = drop (NUM_TRYTES_HASH + 1) str
           in if n \<noteq> NUM_TRYTES_HASH then Some (RC_SNAPSHOT_METADATA_FAILED_DESERIALIZING, md)
              else case read_number ptr of
                None \<Rightarrow> None | Some None \<Rightarrow> Some (RC_SNAPSHOT_METADATA_FAILED_DESERIALIZING, md)
              | Some (Some (index, ptr)) \<Rightarrow>
                  (case read_number ptr of
                     None \<Rightarrow> None | Some None \<Rightarrow> Some (RC_SNAPSHOT_METADATA_FAILED_DESERIALIZING, md\<lparr>md_index := index\<rparr>)
                   | Some (Some (timestamp, ptr)) \<Rightarrow>
                       (let md = md\<lparr>md_index := index, md_timestamp := timestamp\<rparr>
                        in case read_number ptr of
                             None \<Rightarrow> None | Some None \<Rightarrow> Some (RC_SNAPSHOT_METADATA_FAILED_DESERIALIZING, md)
                           | Some (Some (num_solid_entry_points, ptr)) \<Rightarrow>
                               (case read_number ptr of
                                  None \<Rightarrow> None | Some None \<Rightarrow> Some (RC_SNAPSHOT_METADATA_FAILED_DESERIALIZING, md)
                                | Some (Some (num_seen_entry_point, ptr)) \<Rightarrow>
                                    (case metadata_deserialize_loop M e (nat num_solid_entry_points) (strtok 59 (Some ptr))
                                            (md_solid_entry_points md) of
                                       None \<Rightarrow> None
                                     | Some (ret, points) \<Rightarrow> Some (ret, md\<lparr>md_solid_entry_points := points\<rparr>))))))"

section \<open>Numbers and tokens\<close>

lemma decimal_digits: "list_all isdigit (decimal n)" "decimal n \<noteq> []"
proof (induction n rule: decimal.induct)
  case (1 n)
  have d: "decimal n = (if n < 10 then [48 + int n] else decimal (n div 10) @ [48 + int (n mod 10)])" by (rule decimal.simps)
  have "isdigit (48 + int (n mod 10))" "n < 10 \<Longrightarrow> isdigit (48 + int n)" by (auto simp: isdigit_def less_Suc_eq_le [symmetric])
  then show "list_all isdigit (decimal n)" using 1 unfolding d by simp
  show "decimal n \<noteq> []" unfolding d by simp
qed

lemma decimal_value: "digits_value (decimal n) = int n"
proof (induction n rule: decimal.induct)
  case (1 n)
  have "int (n div 10) * 10 + int (n mod 10) = int n" by (simp add: zdiv_int zmod_int)
  moreover have "digits_value (ds @ [48 + x]) = digits_value ds * 10 + x" for ds x by (simp add: digits_value_def)
  ultimately show ?case using 1 unfolding decimal.simps [of n] by (cases "n < 10") (simp_all add: digits_value_def)
qed

lemma decimal_length: "n < 10 ^ k \<Longrightarrow> 0 < k \<Longrightarrow> length (decimal n) \<le> k"
proof (induction n arbitrary: k rule: decimal.induct)
  case (1 n)
  show ?case
  proof (cases "n < 10")
    case True
    then show ?thesis using 1(3) unfolding decimal.simps [of n] by simp
  next
    case False
    then obtain j where j: "k = Suc j" "0 < j" using 1(2,3) by (cases k; cases "k - 1") auto
    then have "n div 10 < 10 ^ j" using 1(2) by (simp add: div_less_iff_less_mult mult.commute)
    then show ?thesis using 1(1) [OF False, of j] False j unfolding decimal.simps [of n] by simp
  qed
qed

lemma scan_decimal_decimal:
  assumes "rest = [] \<or> \<not> isdigit (hd rest)"
  shows "scan_decimal (decimal n @ rest) = Some (int n, rest)"
proof -
  obtain c ds where d: "decimal n = c # ds" using decimal_digits(2) by (cases "decimal n") auto
  have c: "isdigit c" "list_all isdigit ds" using decimal_digits(1) [of n] d by auto
  have tw: "takeWhile isdigit (decimal n @ rest) = decimal n" "dropWhile isdigit (decimal n @ rest) = rest"
    using decimal_digits(1) [of n] assms
    by (auto simp: list_all_iff takeWhile_append2 dropWhile_append2 takeWhile_eq_Nil_iff dropWhile_eq_self_iff)
  have "\<not> isspace c" "c \<noteq> 45" "c \<noteq> 43" using c(1) by (auto simp: isspace_def isdigit_def)
  with tw d show ?thesis by (simp add: scan_decimal_def Let_def decimal_value [symmetric])
qed

lemma sscanf_int64_print: "0 \<le> v \<Longrightarrow> v \<le> INT64_MAX \<Longrightarrow> sscanf_int64 (print_int64 v) = Some (Some v)"
  using scan_decimal_decimal [of "[]" "nat v"] by (simp add: sscanf_int64_def print_int64_def)

lemma sscanf_uint64_print:
  assumes "0 \<le> v" "v < 2 ^ 64" "rest = [] \<or> \<not> isdigit (hd rest)"
  shows "sscanf_uint64 (print_uint64 v @ rest) = Some (Some (v, length (print_uint64 v)))"
proof -
  have "scan_decimal (print_uint64 v @ rest) = Some (v, rest)"
    using scan_decimal_decimal [OF assms(3), of "nat v"] assms(1) by (simp add: print_uint64_def)
  moreover have "uwrap64 v = v" using assms by simp
  ultimately show ?thesis using assms unfolding sscanf_uint64_def by simp
qed

lemma read_number_print: "0 \<le> v \<Longrightarrow> v < 2 ^ 64 \<Longrightarrow> read_number (print_uint64 v @ 10 # rest) = Some (Some (v, rest))"
  using sscanf_uint64_print [of v "10 # rest"] by (simp add: read_number_def isdigit_def)

lemma strtok_token:
  assumes "d \<notin> set token" "token \<noteq> []"
  shows "strtok d (Some (token @ d # rest)) = Some (token, Some rest)"
proof -
  have "dropWhile (\<lambda>c. c = d) (token @ d # rest) = token @ d # rest" using assms by (cases token) auto
  moreover have "takeWhile (\<lambda>c. c \<noteq> d) (token @ d # rest) = token" using assms(1) by (induction token) auto
  ultimately show ?thesis using assms by (simp add: strtok_def Let_def)
qed

lemma strtok_end: "strtok d (Some []) = None"
  by (simp add: strtok_def)

section \<open>Addresses\<close>

definition address_text :: "flex_enc \<Rightarrow> flex_hash \<Rightarrow> cstring" where
  "address_text e h = trits_to_trytes (flex_field e h 243)"

lemma alphabet_tokens: "c \<in> set TRYTE_ALPHABET \<Longrightarrow> c \<noteq> 59 \<and> c \<noteq> 10 \<and> c \<noteq> 0"
  by (auto simp: TRYTE_ALPHABET_def)

lemma digit_tokens: "c \<in> set (print_uint64 v) \<Longrightarrow> c \<noteq> 10" "c \<in> set (print_int64 v) \<Longrightarrow> c \<noteq> 10"
  "print_uint64 v \<noteq> []" "print_int64 v \<noteq> []"
proof -
  have d: "c \<in> set (decimal n) \<Longrightarrow> c \<noteq> 10" for n using decimal_digits(1) [of n] by (auto simp: list_all_iff isdigit_def)
  show "c \<in> set (print_uint64 v) \<Longrightarrow> c \<noteq> 10" unfolding print_uint64_def by (rule d)
  show "c \<in> set (print_int64 v) \<Longrightarrow> c \<noteq> 10" using d by (auto simp: print_int64_def split: if_splits)
qed (simp_all add: print_uint64_def print_int64_def decimal_digits)

lemma address_text_ok:
  assumes "flex_canonical e h 243"
  shows "length (address_text e h) = 81" "valid_trytes (address_text e h)" "59 \<notin> set (address_text e h)"
    "trytes_to_trits (address_text e h) = flex_field e h 243"
proof -
  have ok: "flex_ok e h 243" using assms by (simp add: flex_canonical_def)
  have f: "valid_trits (flex_field e h 243)" "length (flex_field e h 243) = 243"
    using flex_field_valid [OF ok] flex_field_length [OF ok] by auto
  show v: "valid_trytes (address_text e h)" using trits_to_trytes_valid [OF f(1)] by (simp add: address_text_def)
  show "length (address_text e h) = 81" using f by (simp add: address_text_def trits_to_trytes_length num_trytes_for_trits_def)
  show "59 \<notin> set (address_text e h)" using v alphabet_tokens by (auto simp: list_all_iff)
  show "trytes_to_trits (address_text e h) = flex_field e h 243"
    using trytes_trits_round_trip [OF f(1)] f(2) by (simp add: address_text_def num_trytes_for_trits_def)
qed

lemma write_address:
  assumes "flex_canonical e h 243"
  shows "flex_trits_to_trytes e (replicate 81 0) 81 h 243 243 = (243, address_text e h)"
proof -
  have "flex_ok e h 243" using assms by (simp add: flex_canonical_def)
  from flex_trits_to_trytes_eq [OF this, of 243 81 "replicate 81 0"] address_text_ok(1) [OF assms]
  show ?thesis by (simp add: address_text_def flex_field_def blit_def)
qed

lemma read_text_address:
  assumes "flex_canonical e h 243" "length dst = FLEX_TRIT_SIZE_243 e"
  shows "flex_trits_from_trytes e dst 243 (address_text e h) 81 81 = (81, h)"
proof -
  note a = address_text_ok [OF assms(1)]
  have ok: "flex_ok e h 243" using assms by (simp add: flex_canonical_def)
  have p: "pack_cells (NUM_TRITS_PER_FLEX_TRIT e) (flex_pack1 e) (flex_field e h 243) = h"
    using flex_pack_field [OF assms(1)] by (simp add: flex_pack_def)
  have "length h = NUM_FLEX_TRITS_FOR_TRITS e 243" using ok by (simp add: flex_ok_def)
  then show ?thesis
    using flex_trits_from_trytes_eq [OF a(2), of 81 243 dst e] a(1,4) p assms(2) by (simp add: FLEX_TRIT_SIZE_eq blit_0_all)
qed

lemma read_address_text:
  assumes "flex_canonical e h 243"
  shows "read_address e (address_text e h) saved = Some (81, h)"
  using address_text_ok(1) [OF assms] read_text_address [OF assms, of "replicate (FLEX_TRIT_SIZE_243 e) 0"]
  by (simp add: read_address_def token_memory_def NUM_TRYTES_ADDRESS_def NUM_TRITS_ADDRESS_def)

section \<open>The text of a ledger\<close>

definition entry_line :: "flex_enc \<Rightarrow> flex_hash \<times> int \<Rightarrow> cstring" where
  "entry_line e x = address_text e (fst x) @ 59 # print_int64 (snd x) @ [10]"

abbreviation ledger_text :: "flex_enc \<Rightarrow> (flex_hash \<times> int) list \<Rightarrow> cstring" where
  "ledger_text e es \<equiv> concat (map (entry_line e) es)"

lemma serialize_str_loop_eq:
  "list_all (\<lambda>x. flex_canonical e (fst x) 243) es \<Longrightarrow> serialize_str_loop e es str = (RC_OK, str @ ledger_text e es @ [0])"
  by (induction es arbitrary: str)
    (auto simp: write_address NUM_TRYTES_ADDRESS_def NUM_TRITS_ADDRESS_def entry_line_def)

lemma entry_line_length:
  assumes "flex_canonical e h 243" "0 \<le> v" "v < 10 ^ 16"
  shows "length (entry_line e (h, v)) \<le> 99"
  using decimal_length [of "nat v" 16] address_text_ok(1) [OF assms(1)] assms(2,3) by (simp add: entry_line_def print_int64_def)

lemma line_no_nul:
  assumes "flex_canonical e h 243"
  shows "0 \<notin> set (entry_line e (h, v))"
proof -
  have "0 \<notin> set (address_text e h)" using address_text_ok(2) [OF assms] alphabet_tokens by (auto simp: list_all_iff)
  moreover have "0 \<notin> set (decimal n)" for n using decimal_digits(1) [of n] by (auto simp: list_all_iff isdigit_def)
  ultimately show ?thesis by (simp add: entry_line_def print_int64_def)
qed

lemma member_le_sum_list_int: "x \<in> set xs \<Longrightarrow> list_all (\<lambda>y. 0 \<le> y) xs \<Longrightarrow> x \<le> sum_list xs" for xs :: "int list"
proof (induction xs)
  case (Cons y ys)
  then have "0 \<le> sum_list ys" by (intro sum_list_nonneg) (auto simp: list_all_iff)
  with Cons show ?case by fastforce
qed simp

text \<open>Reading one line.\<close>

lemma deserialize_str_line:
  assumes "flex_canonical e h 243" "0 \<le> v" "v \<le> INT64_MAX"
  shows "deserialize_str_loop U e (Some (entry_line e (h, v) @ rest)) acc t =
    (let (ret, t) = state_delta_add U t h v
     in if ret \<noteq> RC_OK then Some (ret, t) else deserialize_str_loop U e (Some rest) (uwrap64 (acc + v)) t)"
proof -
  note a = address_text_ok [OF assms(1)]
  have ne: "address_text e h \<noteq> []" using a(1) by auto
  have t1: "strtok 59 (Some (entry_line e (h, v) @ rest)) = Some (address_text e h, Some (print_int64 v @ 10 # rest))"
    using strtok_token [OF a(3) ne] by (simp add: entry_line_def)
  have t2: "strtok 10 (Some (print_int64 v @ 10 # rest)) = Some (print_int64 v, Some rest)"
    using digit_tokens by (intro strtok_token) auto
  have "\<not> v < 0" using assms(2) by simp
  then show ?thesis
    using t2 read_address_text [OF assms(1)] sscanf_int64_print [OF assms(2,3)]
    by (subst deserialize_str_loop.simps) (simp add: t1 NUM_TRYTES_ADDRESS_def)
qed

definition read_entries :: "'t state_delta_ops \<Rightarrow> (flex_hash \<times> int) list \<Rightarrow> 't \<Rightarrow> 't" where
  "read_entries U es t = fold (\<lambda>x t. snd (state_delta_add U t (fst x) (snd x))) es t"

lemma deserialize_str_lines:
  assumes "list_all (\<lambda>x. flex_canonical e (fst x) 243 \<and> 0 \<le> snd x \<and> snd x \<le> INT64_MAX) es" "\<And>t. HASH_ROOM U t"
    and "0 \<le> acc" "acc < 2 ^ 64"
  shows "deserialize_str_loop U e (Some (ledger_text e es)) acc t =
    Some (if uwrap64 (acc + sum_list (map snd es)) \<noteq> IOTA_SUPPLY
          then (RC_SNAPSHOT_INVALID_SUPPLY, state_delta_destroy U (read_entries U es t)) else (RC_OK, read_entries U es t))"
  using assms(1,3,4)
proof (induction es arbitrary: acc t)
  case Nil
  then have "uwrap64 acc = acc" by simp
  then show ?case by (subst deserialize_str_loop.simps) (simp add: strtok_end read_entries_def)
next
  case (Cons x es)
  obtain h v where x: "x = (h, v)" by (cases x)
  have c: "flex_canonical e h 243" "0 \<le> v" "v \<le> INT64_MAX" using Cons.prems(1) x by auto
  obtain t1 where ok: "state_delta_add U t h v = (RC_OK, t1)"
    using assms(2) by (cases "HASH_FIND U t h") (auto simp: state_delta_add_def hash_map_add_def)
  have "uwrap64 (uwrap64 (acc + v) + y) = uwrap64 (acc + (v + y))" for y by (metis add.assoc mod_add_left_eq)
  moreover have "0 \<le> uwrap64 (acc + v)" "uwrap64 (acc + v) < 2 ^ 64" by simp_all
  moreover have "list_all (\<lambda>x. flex_canonical e (fst x) 243 \<and> 0 \<le> snd x \<and> snd x \<le> INT64_MAX) es" using Cons.prems(1) by simp
  moreover have "deserialize_str_loop U e (Some (ledger_text e (x # es))) acc t
      = deserialize_str_loop U e (Some (ledger_text e es)) (uwrap64 (acc + v)) t1"
    using deserialize_str_line [OF c, of U "ledger_text e es" acc t] ok by (simp add: x)
  ultimately show ?case using Cons.IH [of "uwrap64 (acc + v)" t1] ok by (simp add: x read_entries_def)
qed

lemma strtok_ledger_text:
  assumes "list_all (\<lambda>x. flex_canonical e (fst x) 243) es" "es \<noteq> []"
  shows "strtok 59 (Some (ledger_text e es)) \<noteq> None"
proof -
  obtain x es' where es: "es = x # es'" using assms(2) by (cases es) auto
  note a = address_text_ok [of e "fst x"]
  have "flex_canonical e (fst x) 243" using assms(1) es by simp
  then have "address_text e (fst x) \<noteq> []" "59 \<notin> set (address_text e (fst x))" using a by auto
  then show ?thesis using strtok_token [of 59 "address_text e (fst x)"] by (simp add: es entry_line_def)
qed

context ledger_table
begin

lemma read_entries_new:
  assumes "distinct (map fst (HASH_ENTRIES U t @ es))" "\<And>t. HASH_ROOM U t"
  shows "HASH_ENTRIES U (read_entries U es t) = HASH_ENTRIES U t @ es"
  using assms(1)
proof (induction es arbitrary: t)
  case (Cons x es)
  obtain h v where x: "x = (h, v)" by (cases x)
  have new: "HASH_FIND U t h = None" using Cons.prems x by (auto simp: find_entries map_of_eq_None_iff)
  then have "snd (state_delta_add U t h v) = HASH_ADD U t h v" using assms(2) by (simp add: state_delta_add_def hash_map_add_def)
  with Cons.IH [of "HASH_ADD U t h v"] Cons.prems show ?case by (simp add: x read_entries_def add_entries [OF new])
qed (simp add: read_entries_def)

end

section \<open>The text of the metadata\<close>

definition point_line :: "flex_enc \<Rightarrow> flex_hash \<times> int \<Rightarrow> cstring" where
  "point_line e x = address_text e (fst x) @ 59 # print_uint64 (snd x) @ [10]"

lemma metadata_serialize_loop_eq:
  "list_all (\<lambda>x. flex_canonical e (fst x) 243) es \<Longrightarrow>
     metadata_serialize_loop e es str = (RC_OK, str @ concat (map (point_line e) es) @ [0])"
  by (induction es arbitrary: str)
    (auto simp: write_address NUM_TRYTES_ADDRESS_def NUM_TRITS_HASH_def point_line_def)

lemma metadata_deserialize_lines:
  assumes "list_all (\<lambda>x. flex_canonical e (fst x) 243 \<and> 0 \<le> snd x \<and> snd x < 2 ^ 64) es" "\<And>t. HASH_ROOM M t"
  shows "metadata_deserialize_loop M e (length es) (strtok 59 (Some (concat (map (point_line e) es)))) t
    = Some (RC_OK, read_entries M es t)"
  using assms(1)
proof (induction es arbitrary: t)
  case (Cons x es)
  obtain h v where x: "x = (h, v)" by (cases x)
  have c: "flex_canonical e h 243" "0 \<le> v" "v < 2 ^ 64" using Cons.prems(1) x by auto
  note a = address_text_ok [OF c(1)]
  have ne: "address_text e h \<noteq> []" using a(1) by auto
  have t1: "strtok 59 (Some (concat (map (point_line e) (x # es))))
      = Some (address_text e h, Some (print_uint64 v @ 10 # concat (map (point_line e) es)))"
    using strtok_token [OF a(3) ne] by (simp add: x point_line_def)
  have t2: "strtok 10 (Some (print_uint64 v @ 10 # r)) = Some (print_uint64 v, Some r)" for r
    using digit_tokens by (intro strtok_token) auto
  have n: "sscanf_uint64 (print_uint64 v) = Some (Some (v, length (print_uint64 v)))"
    using sscanf_uint64_print [OF c(2,3), of "[]"] by simp
  obtain t' where ok: "hash_map_add M t h v = (RC_OK, t')"
    using assms(2) by (cases "HASH_FIND M t h") (auto simp: hash_map_add_def)
  have "list_all (\<lambda>x. flex_canonical e (fst x) 243 \<and> 0 \<le> snd x \<and> snd x < 2 ^ 64) es" using Cons.prems by simp
  from Cons.IH [OF this, of t'] show ?case
    unfolding t1 using t2 n read_address_text [OF c(1)] ok
    by (simp add: NUM_TRYTES_ADDRESS_def x read_entries_def state_delta_add_def)
qed (simp add: read_entries_def)

lemma metadata_text_eq:
  assumes "flex_canonical e (md_hash md) 243" "list_all (\<lambda>x. flex_canonical e (fst x) 243) (HASH_ENTRIES M (md_solid_entry_points md))"
  shows "iota_snapshot_metadata_serialize_str M e md = (RC_OK, address_text e (md_hash md) @ 10 # print_uint64 (md_index md)
    @ 10 # print_uint64 (md_timestamp md) @ 10 # print_uint64 (int (HASH_COUNT M (md_solid_entry_points md))) @ 10 # print_uint64 0 @ 10
    # concat (map (point_line e) (HASH_ENTRIES M (md_solid_entry_points md))) @ [0])"
proof -
  have "print_uint64 0 = [48]" by (simp add: print_uint64_def decimal.simps)
  then show ?thesis using write_address [OF assms(1)] metadata_serialize_loop_eq [OF assms(2)]
    by (simp add: iota_snapshot_metadata_serialize_str_def NUM_TRYTES_HASH_def NUM_TRITS_HASH_def hash_map_size_def)
qed

text \<open>Metadata whose text can be read back: packed hashes, and numbers of 64 bits.\<close>

definition metadata_ok :: "'t entry_points_ops \<Rightarrow> flex_enc \<Rightarrow> 't snapshot_metadata \<Rightarrow> bool" where
  "metadata_ok M e md \<longleftrightarrow> flex_canonical e (md_hash md) 243 \<and> 0 \<le> md_index md \<and> md_index md < 2 ^ 64
     \<and> 0 \<le> md_timestamp md \<and> md_timestamp md < 2 ^ 64
     \<and> list_all (\<lambda>x. flex_canonical e (fst x) 243 \<and> 0 \<le> snd x \<and> snd x < 2 ^ 64) (HASH_ENTRIES M (md_solid_entry_points md))
     \<and> HASH_COUNT M (md_solid_entry_points md) < 2 ^ 64"

context ledger_table
begin

lemma ledger_text_round_trip:
  assumes "\<And>t. HASH_ROOM U t"
    and "list_all (\<lambda>x. flex_canonical e (fst x) 243 \<and> 0 \<le> snd x) (HASH_ENTRIES U s)" "ledger_total U s = IOTA_SUPPLY"
  shows "\<exists>text s'. state_delta_serialize_str U e s = (RC_OK, text @ [0]) \<and> 0 \<notin> set text
    \<and> length text \<le> state_delta_serialized_str_size U s
    \<and> state_delta_deserialize_str U e text (HASH_NULL U) = Some (RC_OK, s')
    \<and> HASH_ENTRIES U s' = HASH_ENTRIES U s \<and> state_delta_equal U s' s"
proof -
  let ?es = "HASH_ENTRIES U s"
  have tot: "sum_list (map snd ?es) = IOTA_SUPPLY" using assms(3) by (simp add: ledger_total_def)
  have nn: "list_all (\<lambda>x. flex_canonical e (fst x) 243) ?es" using assms(2) by (auto simp: list_all_iff)
  have le: "snd x \<le> IOTA_SUPPLY" if "x \<in> set ?es" for x
    using that assms(2) member_le_sum_list_int [of "snd x" "map snd ?es"] tot by (auto simp: list_all_iff)
  have ok: "list_all (\<lambda>x. flex_canonical e (fst x) 243 \<and> 0 \<le> snd x \<and> snd x \<le> INT64_MAX) ?es"
    using assms(2) le by (fastforce simp: list_all_iff IOTA_SUPPLY_def)
  have d: "distinct (map fst (HASH_ENTRIES U (HASH_NULL U) @ ?es))" "HASH_ENTRIES U (HASH_NULL U) = []"
    by simp_all
  let ?s' = "read_entries U ?es (HASH_NULL U)"
  have en: "HASH_ENTRIES U ?s' = ?es" using read_entries_new [OF d(1) assms(1)] d(2) by simp
  have ne: "?es \<noteq> []" using tot by (auto simp: IOTA_SUPPLY_def)
  have rd: "state_delta_deserialize_str U e (ledger_text e ?es) (HASH_NULL U) = Some (RC_OK, ?s')"
    using strtok_ledger_text [OF nn ne] deserialize_str_lines [OF ok assms(1), of 0 "HASH_NULL U"] tot
    by (auto simp: state_delta_deserialize_str_def IOTA_SUPPLY_def)
  have len: "length (ledger_text e es) \<le> length es * 99" if "set es \<subseteq> set ?es" for es
    using that
  proof (induction es)
    case (Cons x es)
    have "length (entry_line e x) \<le> 99"
      using entry_line_length [of e "fst x" "snd x"] assms(2) le [of x] Cons.prems by (auto simp: list_all_iff IOTA_SUPPLY_def)
    with Cons show ?case by simp
  qed simp
  have "0 \<notin> set (entry_line e x)" if "x \<in> set ?es" for x
    using that assms(2) line_no_nul [of e "fst x" "snd x"] by (auto simp: list_all_iff)
  moreover have "HASH_FIND U ?s' = HASH_FIND U s" using en by (simp add: fun_eq_iff find_entries)
  ultimately show ?thesis using rd en serialize_str_loop_eq [OF nn, of "[]"] len [of ?es] hash_map_equal_iff
    by (intro exI [of _ "ledger_text e ?es"] exI [of _ ?s'])
      (auto simp: state_delta_serialize_str_def state_delta_serialized_str_size_def state_delta_size_def hash_map_size_def HASH_COUNT_def
        NUM_TRYTES_ADDRESS_def state_delta_equal_def)
qed

lemma metadata_text_round_trip:
  assumes "\<And>t. HASH_ROOM U t" "metadata_ok U e md"
    and "length (md_hash md0) = FLEX_TRIT_SIZE_243 e" "md_solid_entry_points md0 = HASH_NULL U"
  shows "\<exists>text md'. iota_snapshot_metadata_serialize_str U e md = (RC_OK, text @ [0]) \<and> 0 \<notin> set text
    \<and> iota_snapshot_metadata_deserialize_str U e text md0 = Some (RC_OK, md')
    \<and> md_hash md' = md_hash md \<and> md_index md' = md_index md \<and> md_timestamp md' = md_timestamp md
    \<and> HASH_ENTRIES U (md_solid_entry_points md') = HASH_ENTRIES U (md_solid_entry_points md)"
proof -
  have m: "flex_canonical e (md_hash md) 243" "0 \<le> md_index md" "md_index md < 2 ^ 64" "0 \<le> md_timestamp md" "md_timestamp md < 2 ^ 64"
      "list_all (\<lambda>x. flex_canonical e (fst x) 243 \<and> 0 \<le> snd x \<and> snd x < 2 ^ 64) (HASH_ENTRIES U (md_solid_entry_points md))"
      "HASH_COUNT U (md_solid_entry_points md) < 2 ^ 64"
    using assms(2) unfolding metadata_ok_def by blast+
  let ?es = "HASH_ENTRIES U (md_solid_entry_points md)"
  have nn: "list_all (\<lambda>x. flex_canonical e (fst x) 243) ?es" using m(6) by (auto simp: list_all_iff)
  let ?r0 = "concat (map (point_line e) ?es)"
  let ?r1 = "print_uint64 0 @ 10 # ?r0"
  let ?r2 = "print_uint64 (int (HASH_COUNT U (md_solid_entry_points md))) @ 10 # ?r1"
  let ?r3 = "print_uint64 (md_timestamp md) @ 10 # ?r2"
  let ?r4 = "print_uint64 (md_index md) @ 10 # ?r3"
  have w: "iota_snapshot_metadata_serialize_str U e md = (RC_OK, (address_text e (md_hash md) @ 10 # ?r4) @ [0])"
    using metadata_text_eq [OF m(1) nn] by simp
  note a = address_text_ok [OF m(1)]
  have d: "distinct (map fst (HASH_ENTRIES U (HASH_NULL U) @ ?es))" "HASH_ENTRIES U (HASH_NULL U) = []"
    by simp_all
  have en: "HASH_ENTRIES U (read_entries U ?es (HASH_NULL U)) = ?es"
    using read_entries_new [OF d(1) assms(1)] d(2) by simp
  have n: "nat (int (HASH_COUNT U (md_solid_entry_points md))) = length ?es" by (simp add: HASH_COUNT_def)
  have c: "int (HASH_COUNT U (md_solid_entry_points md)) < 2 ^ 64" using m(7) by simp
  have ln: "metadata_deserialize_loop U e (length ?es) (strtok 59 (Some ?r0)) (HASH_NULL U) = Some (RC_OK, read_entries U ?es (HASH_NULL U))"
    by (rule metadata_deserialize_lines [OF m(6) assms(1)])
  have d1: "iota_snapshot_metadata_deserialize_str U e (address_text e (md_hash md) @ 10 # ?r4) md0
      = Some (RC_OK, md0\<lparr>md_hash := md_hash md, md_index := md_index md, md_timestamp := md_timestamp md,
          md_solid_entry_points := read_entries U ?es (HASH_NULL U)\<rparr>)"
    using a(1) read_text_address [OF m(1) assms(3)] read_number_print [OF m(2,3), of ?r3] read_number_print [OF m(4,5), of ?r2]
      read_number_print [OF _ c, of ?r1] read_number_print [of 0 ?r0] ln n assms(4)
    by (simp add: iota_snapshot_metadata_deserialize_str_def NUM_TRYTES_HASH_def NUM_TRITS_HASH_def)
  have "0 \<notin> set (address_text e h)" if "flex_canonical e h 243" for h
    using address_text_ok(2) [OF that] alphabet_tokens by (auto simp: list_all_iff)
  moreover have "0 \<notin> set (print_uint64 v)" for v
    using decimal_digits(1) [of "nat v"] by (auto simp: print_uint64_def list_all_iff isdigit_def)
  ultimately have "0 \<notin> set (address_text e (md_hash md) @ 10 # ?r4)"
    using m(1,6) by (auto simp: point_line_def list_all_iff)
  with d1 w en show ?thesis by (intro exI [of _ "address_text e (md_hash md) @ 10 # ?r4"]) auto
qed

end

section \<open>Properties\<close>

text \<open>
  A ledger survives its text form: for nonnegative balances whose total is the supply, the text is written, it fits
  the size that \<open>state_delta_serialized_str_size\<close> announces (the terminating NUL apart), and reading it into an empty table returns
  RC_OK and the same entries in the same order.
\<close>

theorem state_delta_survives_text:
  assumes "ledger_table U" "\<And>t. HASH_ROOM U t"
    and "list_all (\<lambda>x. flex_canonical e (fst x) 243 \<and> 0 \<le> snd x) (HASH_ENTRIES U s)" "ledger_total U s = IOTA_SUPPLY"
  shows "\<exists>text s'. state_delta_serialize_str U e s = (RC_OK, text @ [0]) \<and> 0 \<notin> set text
    \<and> length text \<le> state_delta_serialized_str_size U s
    \<and> state_delta_deserialize_str U e text (HASH_NULL U) = Some (RC_OK, s')
    \<and> HASH_ENTRIES U s' = HASH_ENTRIES U s \<and> state_delta_equal U s' s"
  using ledger_table.ledger_text_round_trip [OF assms] .

lemma null_hash_canonical: "flex_canonical e (replicate (NUM_FLEX_TRITS_FOR_TRITS e 243) (FLEX_TRIT_NULL_VALUE e)) 243"
  by (rule flex_null_canonical)

definition null_address :: flex_hash where
  "null_address = replicate 81 57"

lemma null_address_length: "length null_address = 81"
  by (simp add: null_address_def)

lemma null_address_ok: "flex_canonical ENC3 null_address 243" "address_text ENC3 null_address = replicate 81 57"
proof -
  have "null_address = replicate (NUM_FLEX_TRITS_FOR_TRITS ENC3 243) (FLEX_TRIT_NULL_VALUE ENC3)" unfolding null_address_def by code_simp
  then show c: "flex_canonical ENC3 null_address 243" using null_hash_canonical [of ENC3] by simp
  show "address_text ENC3 null_address = replicate 81 57" by code_simp
qed

theorem state_delta_survives_text_witness:
  "\<exists>text s'. state_delta_serialize_str table_ops ENC3 (one_entry null_address IOTA_SUPPLY) = (RC_OK, text @ [0])
     \<and> state_delta_deserialize_str table_ops ENC3 text DAList.empty = Some (RC_OK, s')
     \<and> state_delta_equal table_ops s' (one_entry null_address IOTA_SUPPLY)"
  using state_delta_survives_text [OF alist_ledger.ledger_table_axioms, of "\<lambda>_. True" ENC3 "one_entry null_address IOTA_SUPPLY"]
  by (auto simp: null_address_ok ledger_total_def IOTA_SUPPLY_def)

text \<open>
  What the reader of the ledger accepts. An address that occurs twice counts twice for the supply but keeps its first
  balance only, so a file is accepted whose ledger holds one token instead of the supply. The supply is added up modulo 2 to the 64, so
  three balances that exceed it by far are accepted too.
\<close>

theorem state_delta_deserialize_str_accepts:
  "state_delta_deserialize_str table_ops ENC3
      (ledger_text ENC3 [(null_address, 1), (null_address, IOTA_SUPPLY - 1)]) DAList.empty = Some (RC_OK, one_entry null_address 1)
   \<and> ledger_total table_ops (one_entry null_address 1) = 1
   \<and> (\<exists>s. state_delta_deserialize_str table_ops ENC3
             (ledger_text ENC3 [(null_address, INT64_MAX), (replicate 81 65, INT64_MAX), (replicate 81 66, IOTA_SUPPLY + 2)]) DAList.empty
           = Some (RC_OK, s) \<and> ledger_total table_ops s = IOTA_SUPPLY + 2 ^ 64)"
proof (intro conjI)
  have add: "state_delta_add table_ops (one_entry h v) h w = (RC_OK, one_entry h v)" for h v w
    by (simp add: state_delta_add_def hash_map_add_def lookup.rep_eq)
  have "strtok 59 (Some (ledger_text ENC3 [(null_address, 1), (null_address, IOTA_SUPPLY - 1)])) \<noteq> None"
    by (rule strtok_ledger_text) (simp_all add: null_address_ok)
  then show "state_delta_deserialize_str table_ops ENC3
      (ledger_text ENC3 [(null_address, 1), (null_address, IOTA_SUPPLY - 1)]) DAList.empty = Some (RC_OK, one_entry null_address 1)"
    using deserialize_str_lines [of ENC3 "[(null_address, 1), (null_address, IOTA_SUPPLY - 1)]" table_ops 0 DAList.empty]
    by (auto simp: state_delta_deserialize_str_def null_address_ok IOTA_SUPPLY_def read_entries_def one_entry_add add)
  show "ledger_total table_ops (one_entry null_address 1) = 1" by (simp add: ledger_total_def)
  let ?es = "[(null_address, INT64_MAX), (replicate 81 65, INT64_MAX), (replicate 81 66, IOTA_SUPPLY + 2)]"
  have ok: "flex_canonical ENC3 (replicate 81 65) 243" "flex_canonical ENC3 (replicate 81 66) 243"
    "distinct [null_address, replicate 81 65, replicate 81 66]" by code_simp+
  have "strtok 59 (Some (ledger_text ENC3 ?es)) \<noteq> None" by (rule strtok_ledger_text) (use ok in \<open>simp_all add: null_address_ok\<close>)
  moreover have "deserialize_str_loop table_ops ENC3 (Some (ledger_text ENC3 ?es)) 0 DAList.empty = Some (RC_OK, read_entries table_ops ?es DAList.empty)"
    using deserialize_str_lines [of ENC3 ?es table_ops 0 DAList.empty] ok by (simp add: IOTA_SUPPLY_def null_address_ok)
  moreover have "HASH_ENTRIES table_ops (read_entries table_ops ?es DAList.empty) = ?es"
    using alist_ledger.read_entries_new [of "\<lambda>_. True" DAList.empty ?es] ok(3) by simp
  moreover have "sum_list (map snd ?es) = IOTA_SUPPLY + 2 ^ 64" by simp
  ultimately show "\<exists>s. state_delta_deserialize_str table_ops ENC3 (ledger_text ENC3 ?es) DAList.empty
      = Some (RC_OK, s) \<and> ledger_total table_ops s = IOTA_SUPPLY + 2 ^ 64"
    unfolding state_delta_deserialize_str_def ledger_total_def by auto
qed

text \<open>
  The announced size leaves no room for the terminating NUL: the text of the ledger in which one address holds the
  supply takes one character more than \<open>state_delta_serialized_str_size\<close> says.
\<close>

theorem state_delta_str_size_too_small:
  "\<exists>str. state_delta_serialize_str table_ops ENC3 (one_entry null_address IOTA_SUPPLY) = (RC_OK, str)
     \<and> length str = state_delta_serialized_str_size table_ops (one_entry null_address IOTA_SUPPLY) + 1"
proof -
  have "length (print_int64 IOTA_SUPPLY) = 16" by (simp add: print_int64_def IOTA_SUPPLY_def decimal.simps)
  then show ?thesis
    using serialize_str_loop_eq [of ENC3 "[(null_address, IOTA_SUPPLY)]" "[]"]
    by (simp add: null_address_ok state_delta_serialize_str_def state_delta_serialized_str_size_def state_delta_size_def hash_map_size_def
      HASH_COUNT_def NUM_TRYTES_ADDRESS_def entry_line_def)
qed

text \<open>
  The metadata of a snapshot survive their text form: the hash, the index, the time stamp and the solid entry points with their
  milestone indexes, for every value of the 64-bit numbers, whatever the structure that is read into held before.
\<close>

theorem snapshot_metadata_survives_text:
  assumes "ledger_table M" "\<And>t. HASH_ROOM M t" "metadata_ok M e md"
    and "length (md_hash md0) = FLEX_TRIT_SIZE_243 e" "md_solid_entry_points md0 = HASH_NULL M"
  shows "\<exists>text md'. iota_snapshot_metadata_serialize_str M e md = (RC_OK, text @ [0]) \<and> 0 \<notin> set text
    \<and> iota_snapshot_metadata_deserialize_str M e text md0 = Some (RC_OK, md')
    \<and> md_hash md' = md_hash md \<and> md_index md' = md_index md \<and> md_timestamp md' = md_timestamp md
    \<and> HASH_ENTRIES M (md_solid_entry_points md') = HASH_ENTRIES M (md_solid_entry_points md)"
  using ledger_table.metadata_text_round_trip [OF assms] .

theorem snapshot_metadata_survives_text_witness:
  "\<exists>text md'. iota_snapshot_metadata_serialize_str table_ops ENC3
       \<lparr>md_hash = null_address, md_index = 5, md_timestamp = 99, md_solid_entry_points = one_entry null_address 4\<rparr> = (RC_OK, text @ [0])
     \<and> iota_snapshot_metadata_deserialize_str table_ops ENC3 text
         \<lparr>md_hash = null_address, md_index = 0, md_timestamp = 0, md_solid_entry_points = DAList.empty\<rparr> = Some (RC_OK, md')
     \<and> md_index md' = 5"
  using snapshot_metadata_survives_text [OF alist_ledger.ledger_table_axioms, of "\<lambda>_. True" ENC3
      "\<lparr>md_hash = null_address, md_index = 5, md_timestamp = 99, md_solid_entry_points = one_entry null_address 4\<rparr>"
      "\<lparr>md_hash = null_address, md_index = 0, md_timestamp = 0, md_solid_entry_points = DAList.empty\<rparr>"]
  by (auto simp: metadata_ok_def null_address_ok HASH_COUNT_def null_address_length FLEX_TRIT_SIZE_243_def)

end
