(* ===== verification/Snapshot.thy ===== *)
theory Snapshot
  imports Prelude Errors Transaction Hash_Containers State_Delta Snapshot_Text
begin

text \<open>
  \<open>ciri/consensus/snapshot/snapshot.h\<close>, \<open>snapshot.c\<close>, \<open>snapshots_provider.c\<close> and the file functions of
  \<open>snapshot_metadata.c\<close>: the ledger with its metadata, loading it, writing it, and applying the patches of the milestones.

  A pointer that the code compares with NULL is an option. The files are a parameter: reading returns a code and
  maybe a buffer, overwriting returns a code and the new file system (\<open>ciri/utils/files.c\<close> wraps the calls of the
  operating system). \<open>sn_lock\<close> tells whether the lock of the snapshot is initialised; \<open>None\<close> is undefined behaviour:
  a lock that is used and not initialised, a text that does not fit its buffer, and what is undefined in the functions called.
\<close>

section \<open>Definitions\<close>

datatype network = IOTA_MAINNET | IOTA_TESTNET

definition SNAPSHOT_STATE_FILE_NAME :: "network \<Rightarrow> string" where
  "SNAPSHOT_STATE_FILE_NAME net = (case net of IOTA_MAINNET \<Rightarrow> ''mainnet.snapshot.state'' | IOTA_TESTNET \<Rightarrow> ''testnet.snapshot.state'')"

definition SNAPSHOT_METADATA_FILE_NAME :: "network \<Rightarrow> string" where
  "SNAPSHOT_METADATA_FILE_NAME net = (case net of IOTA_MAINNET \<Rightarrow> ''mainnet.snapshot.meta'' | IOTA_TESTNET \<Rightarrow> ''testnet.snapshot.meta'')"

definition FILE_PATH_SIZE :: nat where "FILE_PATH_SIZE = 128"

text \<open>The fields of \<open>iota_consensus_conf_t\<close> that the snapshots read.\<close>

record consensus_conf =
  cf_genesis_hash :: flex_hash
  cf_last_milestone :: int
  cf_snapshot_file :: string
  cf_snapshot_signature_skip_validation :: bool
  cf_snapshot_timestamp_sec :: int
  cf_local_snapshots_is_enabled :: bool
  cf_base_dir :: string

record ('s, 'm) snapshot =
  sn_conf :: consensus_conf
  sn_lock :: bool
  sn_state :: 's
  sn_metadata :: "'m snapshot_metadata"

record 'fs files =
  read_file :: "'fs \<Rightarrow> string \<Rightarrow> retcode \<times> cstring option"
  overwrite_file :: "'fs \<Rightarrow> string \<Rightarrow> cstring \<Rightarrow> retcode \<times> 'fs"

text \<open>A path of two components, built in an array of \<open>sz\<close> characters.\<close>

definition join_path :: "nat \<Rightarrow> string \<Rightarrow> string \<Rightarrow> string option" where
  "join_path sz base name = (let path = base @ ''/'' @ name in if length path + 1 \<le> sz then Some path else None)"

definition iota_snapshot_metadata_read_from_file ::
  "'m entry_points_ops \<Rightarrow> flex_enc \<Rightarrow> 'fs files \<Rightarrow> 'fs \<Rightarrow> 'm snapshot_metadata \<Rightarrow> string \<Rightarrow> (retcode \<times> 'm snapshot_metadata) option"
where
  "iota_snapshot_metadata_read_from_file M e F fs md metadata_file =
     (case read_file F fs metadata_file of
        (ret, buffer) \<Rightarrow>
          if ret \<noteq> RC_OK then Some (ret, md)
          else case buffer of None \<Rightarrow> Some (RC_OK, md) | Some text \<Rightarrow> iota_snapshot_metadata_deserialize_str M e text md)"

definition iota_snapshot_state_read_from_file ::
  "'s state_delta_ops \<Rightarrow> flex_enc \<Rightarrow> 'fs files \<Rightarrow> 'fs \<Rightarrow> ('s, 'm) snapshot \<Rightarrow> string \<Rightarrow> (retcode \<times> ('s, 'm) snapshot) option"
where
  "iota_snapshot_state_read_from_file U e F fs snap snapshot_file =
     (case read_file F fs snapshot_file of
        (ret, buffer) \<Rightarrow>
          if ret \<noteq> RC_OK then Some (ret, snap)
          else case buffer of
                 None \<Rightarrow> Some (RC_OK, snap)
               | Some text \<Rightarrow>
                   (case state_delta_deserialize_str U e text (sn_state snap) of
                      None \<Rightarrow> None
                    | Some (ret, st) \<Rightarrow> Some (ret, snap\<lparr>sn_state := st\<rparr>)))"

text \<open>
  One buffer for both files; \<open>strlen\<close> ends the content at the NUL. \<open>allocated\<close> tells whether \<open>calloc\<close> returns memory.
\<close>

definition write_text ::
  "'fs files \<Rightarrow> 'fs \<Rightarrow> nat \<Rightarrow> string \<Rightarrow> retcode \<times> cstring \<Rightarrow> (retcode \<times> 'fs) option"
where
  "write_text F fs sz path res =
     (if length (snd res) > sz then None
      else if fst res \<noteq> RC_OK then Some (fst res, fs)
      else Some (overwrite_file F fs path (takeWhile (\<lambda>c. c \<noteq> 0) (snd res))))"

definition iota_snapshot_write_to_file ::
  "'s state_delta_ops \<Rightarrow> 'm entry_points_ops \<Rightarrow> network \<Rightarrow> flex_enc \<Rightarrow> 'fs files \<Rightarrow> bool \<Rightarrow> 'fs \<Rightarrow> ('s, 'm) snapshot \<Rightarrow> string
    \<Rightarrow> (retcode \<times> 'fs) option"
where
  "iota_snapshot_write_to_file U M net e F allocated fs snap snapshot_file_base =
     (let state_size = state_delta_serialized_str_size U (sn_state snap);
          metadata_size = iota_snapshot_metadata_serialized_str_size M (sn_metadata snap);
          sz = max state_size metadata_size
      in if \<not> allocated then Some (RC_OOM, fs)
         else case (join_path FILE_PATH_SIZE snapshot_file_base (SNAPSHOT_STATE_FILE_NAME net),
                    join_path FILE_PATH_SIZE snapshot_file_base (SNAPSHOT_METADATA_FILE_NAME net)) of
                (Some state_path, Some metadata_path) \<Rightarrow>
                  (case write_text F fs sz state_path (state_delta_serialize_str U e (sn_state snap)) of
                     None \<Rightarrow> None
                   | Some (ret, fs) \<Rightarrow>
                       if ret \<noteq> RC_OK then Some (ret, fs)
                       else write_text F fs sz metadata_path (iota_snapshot_metadata_serialize_str M e (sn_metadata snap)))
              | _ \<Rightarrow> None)"

definition iota_snapshot_reset ::
  "'s state_delta_ops \<Rightarrow> 'm entry_points_ops \<Rightarrow> ('s, 'm) snapshot option \<Rightarrow> consensus_conf \<Rightarrow> retcode \<times> ('s, 'm) snapshot option"
where
  "iota_snapshot_reset U M snapp conf =
     (case snapp of
        None \<Rightarrow> (RC_NULL_PARAM, None)
      | Some snap \<Rightarrow>
          (RC_OK, Some (snap\<lparr>sn_lock := True, sn_conf := conf, sn_state := HASH_NULL U,
                          sn_metadata := iota_snapshot_metadata_reset M (sn_metadata snap)\<rparr>)))"

text \<open>
  \<open>signature\<close> is what \<open>iota_file_signature_validate\<close> returns for the files of the configuration: a code and the verdict.
\<close>

definition iota_snapshot_load_built_in_snapshot ::
  "'s state_delta_ops \<Rightarrow> 'm entry_points_ops \<Rightarrow> network \<Rightarrow> flex_enc \<Rightarrow> 'fs files \<Rightarrow> 'fs \<Rightarrow> retcode \<times> bool \<Rightarrow> ('s, 'm) snapshot \<Rightarrow> consensus_conf
    \<Rightarrow> (retcode \<times> ('s, 'm) snapshot) option"
where
  "iota_snapshot_load_built_in_snapshot U M net e F fs signature snap conf =
     (let solid_entry_points = snd (hash_map_add M (HASH_NULL M) (cf_genesis_hash conf) (cf_last_milestone conf));
          snap = snap\<lparr>sn_metadata := snd (iota_snapshot_metadata_init M (sn_metadata snap) (cf_genesis_hash conf) (cf_last_milestone conf)
                       (cf_snapshot_timestamp_sec conf) solid_entry_points)\<rparr>
      in if net = IOTA_MAINNET \<and> \<not> cf_snapshot_signature_skip_validation (sn_conf snap) \<and> fst signature \<noteq> RC_OK
         then Some (fst signature, snap)
         else if net = IOTA_MAINNET \<and> \<not> cf_snapshot_signature_skip_validation (sn_conf snap) \<and> \<not> snd signature
         then Some (RC_SNAPSHOT_INVALID_SIGNATURE, snap)
         else iota_snapshot_state_read_from_file U e F fs snap (cf_snapshot_file conf))"

text \<open>The code of a failed metadata file is lost: \<open>ret\<close> is assigned the comparison, so 1.\<close>

definition iota_snapshot_load_local_snapshot ::
  "'s state_delta_ops \<Rightarrow> 'm entry_points_ops \<Rightarrow> network \<Rightarrow> flex_enc \<Rightarrow> 'fs files \<Rightarrow> 'fs \<Rightarrow> ('s, 'm) snapshot \<Rightarrow> consensus_conf
    \<Rightarrow> (retcode \<times> ('s, 'm) snapshot) option"
where
  "iota_snapshot_load_local_snapshot U M net e F fs snap conf =
     (case join_path 256 (cf_base_dir conf) (SNAPSHOT_METADATA_FILE_NAME net) of
        None \<Rightarrow> None
      | Some file_path \<Rightarrow>
          (case iota_snapshot_metadata_read_from_file M e F fs (sn_metadata snap) file_path of
             None \<Rightarrow> None
           | Some (ret, md) \<Rightarrow>
               (let snap = snap\<lparr>sn_metadata := md\<rparr>
                in if ret \<noteq> RC_OK then Some (1, snap)
                   else case join_path 256 (cf_base_dir conf) (SNAPSHOT_STATE_FILE_NAME net) of
                          None \<Rightarrow> None
                        | Some file_path \<Rightarrow> iota_snapshot_state_read_from_file U e F fs snap file_path)))"

definition iota_snapshot_destroy ::
  "'s state_delta_ops \<Rightarrow> 'm entry_points_ops \<Rightarrow> ('s, 'm) snapshot option \<Rightarrow> retcode \<times> ('s, 'm) snapshot option"
where
  "iota_snapshot_destroy U M snapp =
     (case snapp of
        None \<Rightarrow> (RC_NULL_PARAM, None)
      | Some snap \<Rightarrow>
          (RC_OK, Some (snap\<lparr>sn_state := state_delta_destroy U (sn_state snap), sn_lock := False,
                          sn_metadata := snd (iota_snapshot_metadata_destroy M (sn_metadata snap))\<rparr>)))"

definition iota_snapshot_init ::
  "'s state_delta_ops \<Rightarrow> 'm entry_points_ops \<Rightarrow> network \<Rightarrow> flex_enc \<Rightarrow> 'fs files \<Rightarrow> 'fs \<Rightarrow> retcode \<times> bool \<Rightarrow> ('s, 'm) snapshot option \<Rightarrow> consensus_conf
    \<Rightarrow> (retcode \<times> ('s, 'm) snapshot option) option"
where
  "iota_snapshot_init U M net e F fs signature snapp conf =
     (case iota_snapshot_reset U M snapp conf of
        (ret, None) \<Rightarrow> Some (ret, None)
      | (ret, Some snap) \<Rightarrow>
          (case (if \<not> cf_local_snapshots_is_enabled (sn_conf snap) then Some (RC_OK, snap)
                 else iota_snapshot_load_local_snapshot U M net e F fs snap conf) of
             None \<Rightarrow> None
           | Some (ret, snap) \<Rightarrow>
               if cf_local_snapshots_is_enabled conf \<and> ret = RC_OK then Some (RC_OK, Some snap)
               else let snap = (if ret \<noteq> RC_OK then the (snd (iota_snapshot_destroy U M (Some snap))) else snap)
                    in map_option (map_prod id Some) (iota_snapshot_load_built_in_snapshot U M net e F fs signature snap conf)))"

definition iota_snapshot_get_index :: "('s, 'm) snapshot \<Rightarrow> int option" where
  "iota_snapshot_get_index snap = (if sn_lock snap then Some (md_index (sn_metadata snap)) else None)"

text \<open>\<open>balance\<close> and \<open>hash\<close> may be NULL; the result carries the new value of \<open>*balance\<close>.\<close>

definition iota_snapshot_get_balance ::
  "'s state_delta_ops \<Rightarrow> ('s, 'm) snapshot option \<Rightarrow> flex_hash option \<Rightarrow> int option \<Rightarrow> (retcode \<times> int option) option"
where
  "iota_snapshot_get_balance U snapp hashp balancep =
     (case (snapp, hashp, balancep) of
        (Some snap, Some hash, Some bal) \<Rightarrow>
          if \<not> sn_lock snap then None
          else (case state_delta_find U (sn_state snap) hash of
                  None \<Rightarrow> Some (RC_SNAPSHOT_BALANCE_NOT_FOUND, Some bal)
                | Some value \<Rightarrow> Some (RC_OK, Some value))
      | _ \<Rightarrow> Some (RC_NULL_PARAM, balancep))"

definition iota_snapshot_create_patch ::
  "'s state_delta_ops \<Rightarrow> ('s, 'm) snapshot option \<Rightarrow> 's \<Rightarrow> 's \<Rightarrow> (retcode \<times> 's) option"
where
  "iota_snapshot_create_patch U snapp delta patch =
     (case snapp of
        None \<Rightarrow> Some (RC_NULL_PARAM, patch)
      | Some snap \<Rightarrow>
          if \<not> sn_lock snap then None else state_delta_create_patch U (sn_state snap) delta (HASH_NULL U))"

definition iota_snapshot_apply_patch_no_lock ::
  "'s state_delta_ops \<Rightarrow> ('s, 'm) snapshot \<Rightarrow> 's \<Rightarrow> int \<Rightarrow> (retcode \<times> ('s, 'm) snapshot) option"
where
  "iota_snapshot_apply_patch_no_lock U snap patch index =
     (let snap = snap\<lparr>sn_metadata := (sn_metadata snap)\<lparr>md_index := index\<rparr>\<rparr>
      in case state_delta_apply_patch U (sn_state snap) patch of
           None \<Rightarrow> None
         | Some (ret, st) \<Rightarrow> Some (ret, snap\<lparr>sn_state := st\<rparr>))"

definition iota_snapshot_apply_patch ::
  "'s state_delta_ops \<Rightarrow> ('s, 'm) snapshot option \<Rightarrow> 's \<Rightarrow> int \<Rightarrow> (retcode \<times> ('s, 'm) snapshot option) option"
where
  "iota_snapshot_apply_patch U snapp patch index =
     (case snapp of
        None \<Rightarrow> Some (RC_NULL_PARAM, None)
      | Some snap \<Rightarrow>
          (case state_delta_sum U patch of
             None \<Rightarrow> None
           | Some sm \<Rightarrow>
               if sm \<noteq> 0 then Some (RC_SNAPSHOT_INCONSISTENT_PATCH, Some snap)
               else if \<not> sn_lock snap then None
               else map_option (map_prod id Some) (iota_snapshot_apply_patch_no_lock U snap patch index)))"

text \<open>The code always returns RC_OK when the pointers are not NULL, also when a copy fails.\<close>

definition iota_snapshot_copy ::
  "'s state_delta_ops \<Rightarrow> 'm entry_points_ops \<Rightarrow> ('s, 'm) snapshot option \<Rightarrow> ('s, 'm) snapshot option \<Rightarrow> retcode \<times> ('s, 'm) snapshot option"
where
  "iota_snapshot_copy U M srcp dstp =
     (case (srcp, dstp) of
        (Some src, Some dst) \<Rightarrow>
          (let dst = dst\<lparr>sn_conf := sn_conf src\<rparr>;
               dst = dst\<lparr>sn_metadata := snd (iota_snapshot_metadata_destroy M (sn_metadata dst)),
                         sn_state := state_delta_destroy U (sn_state dst)\<rparr>;
               (ret, st) = state_delta_copy U (sn_state src) (sn_state dst);
               dst = dst\<lparr>sn_state := st\<rparr>
           in if ret \<noteq> RC_OK then (RC_OK, Some (dst\<lparr>sn_state := state_delta_destroy U st\<rparr>))
              else (RC_OK, Some (dst\<lparr>sn_metadata := snd (iota_snapshot_metadata_init M (sn_metadata dst) (md_hash (sn_metadata src))
                     (md_index (sn_metadata src)) (md_timestamp (sn_metadata src)) (md_solid_entry_points (sn_metadata src)))\<rparr>)))
      | _ \<Rightarrow> (RC_NULL_PARAM, dstp))"

definition iota_snapshot_solid_entry_points_set ::
  "'m entry_points_ops \<Rightarrow> ('k, flex_hash, unit) uthash \<Rightarrow> ('s, 'm) snapshot \<Rightarrow> 'k \<Rightarrow> 'k option"
where
  "iota_snapshot_solid_entry_points_set M S snap keys =
     (if sn_lock snap then Some (hash_map_keys M S (md_solid_entry_points (sn_metadata snap)) keys) else None)"

definition iota_snapshot_has_solid_entry_point :: "'m entry_points_ops \<Rightarrow> ('s, 'm) snapshot \<Rightarrow> flex_hash \<Rightarrow> bool option" where
  "iota_snapshot_has_solid_entry_point M snap hash =
     (if sn_lock snap then Some (hash_map_contains M (md_solid_entry_points (sn_metadata snap)) hash) else None)"

subsection \<open>The provider\<close>

record ('s, 'm) snapshots_provider =
  pr_initial_snapshot :: "('s, 'm) snapshot"
  pr_latest_snapshot :: "('s, 'm) snapshot"

definition provider_destroy_both ::
  "'s state_delta_ops \<Rightarrow> 'm entry_points_ops \<Rightarrow> ('s, 'm) snapshots_provider \<Rightarrow> ('s, 'm) snapshots_provider"
where
  "provider_destroy_both U M sp =
     sp\<lparr>pr_initial_snapshot := the (snd (iota_snapshot_destroy U M (Some (pr_initial_snapshot sp)))),
        pr_latest_snapshot := the (snd (iota_snapshot_destroy U M (Some (pr_latest_snapshot sp))))\<rparr>"

text \<open>
  After an error the cleanup destroys both snapshots, also the latest one when it has not been reset yet.
\<close>

definition iota_snapshots_provider_init ::
  "'s state_delta_ops \<Rightarrow> 'm entry_points_ops \<Rightarrow> network \<Rightarrow> flex_enc \<Rightarrow> 'fs files \<Rightarrow> 'fs \<Rightarrow> retcode \<times> bool \<Rightarrow> ('s, 'm) snapshots_provider
    \<Rightarrow> consensus_conf \<Rightarrow> (retcode \<times> ('s, 'm) snapshots_provider) option"
where
  "iota_snapshots_provider_init U M net e F fs signature sp conf =
     (let sp = sp\<lparr>pr_initial_snapshot := the (snd (iota_snapshot_reset U M (Some (pr_initial_snapshot sp)) conf))\<rparr>
      in case iota_snapshot_init U M net e F fs signature (Some (pr_initial_snapshot sp)) conf of
           None \<Rightarrow> None
         | Some (ret, snapp) \<Rightarrow>
             (let sp = sp\<lparr>pr_initial_snapshot := the snapp\<rparr>
              in if ret \<noteq> RC_OK then Some (ret, provider_destroy_both U M sp)
                 else let latest = the (snd (iota_snapshot_reset U M (Some (pr_latest_snapshot sp)) conf));
                          (ret, latestp) = iota_snapshot_copy U M (Some (pr_initial_snapshot sp)) (Some latest);
                          sp = sp\<lparr>pr_latest_snapshot := the latestp\<rparr>
                      in if ret \<noteq> RC_OK then Some (ret, provider_destroy_both U M sp) else Some (ret, sp)))"

definition iota_snapshots_provider_destroy ::
  "'s state_delta_ops \<Rightarrow> 'm entry_points_ops \<Rightarrow> ('s, 'm) snapshots_provider \<Rightarrow> retcode \<times> ('s, 'm) snapshots_provider"
where
  "iota_snapshots_provider_destroy U M sp = (RC_OK, provider_destroy_both U M sp)"

definition iota_snapshots_provider_write_snapshot_to_file ::
  "'s state_delta_ops \<Rightarrow> 'm entry_points_ops \<Rightarrow> network \<Rightarrow> flex_enc \<Rightarrow> 'fs files \<Rightarrow> bool \<Rightarrow> 'fs \<Rightarrow> ('s, 'm) snapshot \<Rightarrow> string
    \<Rightarrow> (retcode \<times> 'fs) option"
where
  "iota_snapshots_provider_write_snapshot_to_file U M net e F allocated fs snap file_path_base =
     (if sn_lock snap then iota_snapshot_write_to_file U M net e F allocated fs snap file_path_base else None)"

section \<open>The ledger invariant\<close>

text \<open>No balance is negative, no null balance is stored, and the balances add up to the supply.\<close>

definition ledger_ok :: "'s state_delta_ops \<Rightarrow> 's \<Rightarrow> bool" where
  "ledger_ok U s \<longleftrightarrow> list_all (\<lambda>x. 0 \<le> snd x) (HASH_ENTRIES U s) \<and> ledger_reduced U s \<and> ledger_total U s = IOTA_SUPPLY"

context ledger_table
begin

lemma nonneg_balances: "list_all (\<lambda>x. 0 \<le> snd x) (HASH_ENTRIES U s) \<longleftrightarrow> (\<forall>h. 0 \<le> ledger_balance U s h)"
proof
  show "list_all (\<lambda>x. 0 \<le> snd x) (HASH_ENTRIES U s) \<Longrightarrow> \<forall>h. 0 \<le> ledger_balance U s h"
    by (auto simp: ledger_balance_def find_entries list_all_iff split: option.split dest!: map_of_SomeD)
  assume a: "\<forall>h. 0 \<le> ledger_balance U s h"
  have "0 \<le> v" if "(h, v) \<in> set (HASH_ENTRIES U s)" for h v
    using that a [rule_format, of h] by (simp add: ledger_balance_def find_some_iff [symmetric])
  then show "list_all (\<lambda>x. 0 \<le> snd x) (HASH_ENTRIES U s)" by (auto simp: list_all_iff)
qed

lemma create_patch_range:
  "create_patch_loop U t es p = Some (RC_OK, p') \<Longrightarrow> (h, v) \<in> set es \<Longrightarrow>
     INT64_MIN \<le> ledger_balance U t h + v \<and> ledger_balance U t h + v \<le> INT64_MAX"
proof (induction es arbitrary: p)
  case (Cons x es)
  have b: "(case state_delta_find U t k of Some w \<Rightarrow> w | None \<Rightarrow> 0) = ledger_balance U t k" for k
    by (simp add: state_delta_find_def ledger_balance_def split: option.split)
  from Cons.prems(1) obtain w q where w: "add_int64 (ledger_balance U t (fst x)) (snd x) = Some w"
      "create_patch_loop U t es q = Some (RC_OK, p')"
    by (auto simp: b split: option.splits if_splits prod.splits)
  show ?case
  proof (cases "(h, v) = x")
    case True
    then show ?thesis using w(1) by (auto simp: add_int64_def split: if_splits)
  next
    case False
    then show ?thesis using Cons.IH [OF w(2)] Cons.prems(2) by simp
  qed
qed simp

lemma apply_keeps_ledger:
  assumes ok: "ledger_ok U s" and room: "\<And>t. HASH_ROOM U t"
    and p: "state_delta_create_patch U s d (HASH_NULL U) = Some (RC_OK, p)" "fst (state_delta_is_consistent U p)"
    and z: "ledger_total U d = 0"
  shows "\<exists>s'. state_delta_apply_patch U s d = Some (RC_OK, s') \<and> ledger_ok U s'
    \<and> ledger_balance U s' = (\<lambda>h. ledger_balance U s h + ledger_balance U d h)"
proof -
  obtain s' where s': "state_delta_apply_patch U s d = Some (RC_OK, s')"
    using apply_patch_loop_defined [of "HASH_ENTRIES U d" s] create_patch_range [OF p(1) [unfolded state_delta_create_patch_def]] room
    by (auto simp: state_delta_apply_patch_def)
  then have b: "ledger_balance U s' = (\<lambda>h. ledger_balance U s h + ledger_balance U d h)"
      "ledger_total U s' = ledger_total U s + ledger_total U d" "ledger_reduced U s'"
    using apply_patch_loop_correct [of "HASH_ENTRIES U d" s RC_OK s'] ok
    by (auto simp: state_delta_apply_patch_def ledger_ok_def balance_entries [of d] ledger_total_def [of U d])
  have "0 \<le> ledger_balance U s' h" for h
  proof (cases "h \<in> set (HASH_KEYS U d)")
    case True
    then show ?thesis using patch_consistent(1) [OF p(1)] p(2) b(1) by simp
  next
    case False
    then have "ledger_balance U d h = 0" by (simp add: ledger_balance_def find_none_iff [THEN iffD2])
    then show ?thesis using ok b(1) by (auto simp: ledger_ok_def nonneg_balances)
  qed
  with b s' z ok show ?thesis by (auto simp: ledger_ok_def nonneg_balances)
qed

end

text \<open>Files hold what was written to them, and writing one leaves the others as they are.\<close>

definition files_ok :: "'fs files \<Rightarrow> bool" where
  "files_ok F \<longleftrightarrow> (\<forall>fs path content fs'. overwrite_file F fs path content = (RC_OK, fs') \<longrightarrow>
     read_file F fs' path = (RC_OK, Some content) \<and> (\<forall>other. other \<noteq> path \<longrightarrow> read_file F fs' other = read_file F fs other))"

lemma no_nul_takeWhile: "0 \<notin> set xs \<Longrightarrow> takeWhile (\<lambda>c. c \<noteq> 0) (xs @ [0]) = xs" for xs :: "int list"
  by (induction xs) auto

section \<open>Properties\<close>

text \<open>
  C1. The ledger stays sound. In a snapshot with nonnegative balances that add up to the supply, a delta that adds up to zero and
  whose patch is found consistent is applied with RC_OK, every balance changes by the delta, and the result is again such a snapshot,
  with the index of the milestone. A delta that does not add up to zero is refused and changes nothing.
\<close>

theorem snapshot_apply_patch_keeps_ledger:
  assumes "ledger_table U" "\<And>t. HASH_ROOM U t" "sn_lock snap" "ledger_ok U (sn_state snap)"
    and "iota_snapshot_create_patch U (Some snap) d q = Some (RC_OK, p)" "fst (state_delta_is_consistent U p)"
    and "state_delta_sum U d = Some m"
  shows "if m = 0
    then \<exists>st. iota_snapshot_apply_patch U (Some snap) d index
           = Some (RC_OK, Some (snap\<lparr>sn_metadata := (sn_metadata snap)\<lparr>md_index := index\<rparr>, sn_state := st\<rparr>))
         \<and> ledger_ok U st \<and> ledger_balance U st = (\<lambda>h. ledger_balance U (sn_state snap) h + ledger_balance U d h)
    else iota_snapshot_apply_patch U (Some snap) d index = Some (RC_SNAPSHOT_INCONSISTENT_PATCH, Some snap)"
proof (cases "m = 0")
  case True
  then have "ledger_total U d = 0"
    using ledger_table.sum_loop_correct [OF assms(1), of "HASH_ENTRIES U d" 0] assms(7) by (simp add: state_delta_sum_def ledger_total_def)
  moreover have "state_delta_create_patch U (sn_state snap) d (HASH_NULL U) = Some (RC_OK, p)"
    using assms(3,5) by (simp add: iota_snapshot_create_patch_def)
  ultimately obtain st where "state_delta_apply_patch U (sn_state snap) d = Some (RC_OK, st)" "ledger_ok U st"
      "ledger_balance U st = (\<lambda>h. ledger_balance U (sn_state snap) h + ledger_balance U d h)"
    using ledger_table.apply_keeps_ledger [OF assms(1,4,2) _ assms(6)] by blast
  with True assms(3,7) show ?thesis
    by (auto simp: iota_snapshot_apply_patch_def iota_snapshot_apply_patch_no_lock_def intro!: exI [of _ st])
qed (use assms(7) in \<open>simp add: iota_snapshot_apply_patch_def\<close>)

definition example_conf :: consensus_conf where
  "example_conf = \<lparr>cf_genesis_hash = null_address, cf_last_milestone = 3, cf_snapshot_file = ''snapshot.txt'',
     cf_snapshot_signature_skip_validation = True, cf_snapshot_timestamp_sec = 77, cf_local_snapshots_is_enabled = True,
     cf_base_dir = ''local''\<rparr>"

definition example_snapshot :: "((flex_hash, int) alist, (flex_hash, int) alist) snapshot" where
  "example_snapshot = \<lparr>sn_conf = example_conf, sn_lock = True, sn_state = one_entry null_address IOTA_SUPPLY,
     sn_metadata = \<lparr>md_hash = null_address, md_index = 5, md_timestamp = 99, md_solid_entry_points = one_entry null_address 4\<rparr>\<rparr>"

lemma example_snapshot_simps [simp]: "sn_lock example_snapshot" "sn_state example_snapshot = one_entry null_address IOTA_SUPPLY"
  "ledger_ok table_ops (one_entry null_address IOTA_SUPPLY)"
  by (simp_all add: example_snapshot_def ledger_ok_def ledger_reduced_def ledger_total_def IOTA_SUPPLY_def)

theorem snapshot_apply_patch_keeps_ledger_witness:
  "\<exists>snap'. iota_snapshot_apply_patch table_ops (Some example_snapshot) DAList.empty 6 = Some (RC_OK, Some snap')
     \<and> md_index (sn_metadata snap') = 6 \<and> ledger_ok table_ops (sn_state snap')"
proof -
  have p: "iota_snapshot_create_patch table_ops (Some example_snapshot) DAList.empty DAList.empty = Some (RC_OK, DAList.empty)"
    by (simp add: iota_snapshot_create_patch_def state_delta_create_patch_def)
  have c: "fst (state_delta_is_consistent table_ops DAList.empty)" "state_delta_sum table_ops DAList.empty = Some 0"
    by (simp_all add: state_delta_is_consistent_def state_delta_sum_def)
  from snapshot_apply_patch_keeps_ledger [OF alist_ledger.ledger_table_axioms _ _ _ p c, of 6] show ?thesis by auto
qed


text \<open>A file system for the witnesses: files in memory.\<close>

definition memory_files :: "(string \<Rightarrow> cstring option) files" where
  "memory_files = \<lparr>read_file = (\<lambda>fs path. case fs path of None \<Rightarrow> (RC_UTILS_FILE_DOES_NOT_EXITS, None) | Some c \<Rightarrow> (RC_OK, Some c)),
     overwrite_file = (\<lambda>fs path content. (RC_OK, fs(path := Some content)))\<rparr>"

lemma memory_files_ok: "files_ok memory_files"
  by (auto simp: files_ok_def memory_files_def)

lemma example_write:
  "\<exists>fs'. iota_snapshot_write_to_file table_ops table_ops IOTA_TESTNET ENC3 memory_files True (\<lambda>_. None) example_snapshot (cf_base_dir example_conf)
     = Some (RC_OK, fs')"
proof -
  let ?md = "\<lparr>md_hash = null_address, md_index = 5, md_timestamp = 99, md_solid_entry_points = one_entry null_address 4\<rparr>"
  have d: "length (print_uint64 5) = 1" "length (print_uint64 99) = 2" "length (print_uint64 1) = 1" "length (print_uint64 0) = 1"
      "length (print_uint64 4) = 1" "length (print_int64 IOTA_SUPPLY) = 16"
    by (simp_all add: print_uint64_def print_int64_def IOTA_SUPPLY_def decimal.simps)
  have sz: "iota_snapshot_metadata_serialized_str_size table_ops ?md = 227" "state_delta_serialized_str_size table_ops (one_entry null_address IOTA_SUPPLY) = 99"
    by (simp_all add: iota_snapshot_metadata_serialized_str_size_def state_delta_serialized_str_size_def state_delta_size_def hash_map_size_def
      HASH_COUNT_def NUM_TRYTES_HASH_def NUM_TRYTES_ADDRESS_def MAX_CHARS_UINT64_def)
  obtain str where s: "state_delta_serialize_str table_ops ENC3 (one_entry null_address IOTA_SUPPLY) = (RC_OK, str)" "length str = 100"
    using serialize_str_loop_eq [of ENC3 "[(null_address, IOTA_SUPPLY)]" "[]"] d
    by (simp add: null_address_ok state_delta_serialize_str_def entry_line_def)
  obtain mstr where m: "iota_snapshot_metadata_serialize_str table_ops ENC3 ?md = (RC_OK, mstr)" "length mstr \<le> 227"
    using metadata_text_eq [of ENC3 ?md table_ops] d by (simp add: null_address_ok point_line_def HASH_COUNT_def)
  have j: "join_path FILE_PATH_SIZE ''local'' (SNAPSHOT_STATE_FILE_NAME IOTA_TESTNET) \<noteq> None"
      "join_path FILE_PATH_SIZE ''local'' (SNAPSHOT_METADATA_FILE_NAME IOTA_TESTNET) \<noteq> None"
    by (simp_all add: join_path_def FILE_PATH_SIZE_def SNAPSHOT_STATE_FILE_NAME_def SNAPSHOT_METADATA_FILE_NAME_def)
  show ?thesis
    using s m sz j unfolding iota_snapshot_write_to_file_def
    by (auto simp: example_snapshot_def example_conf_def write_text_def memory_files_def Let_def)
qed


text \<open>
  Copying a snapshot. When memory does not run out the copy has the entries of the ledger in their order and all the metadata, and
  keeps its own lock. When the ledger cannot be copied the code returns RC_OK all the same, with an empty ledger.
\<close>

theorem snapshot_copy_correct:
  assumes "ledger_table U" "ledger_table M" "\<And>t. HASH_ROOM M t"
  shows "((\<forall>t. HASH_ROOM U t) \<longrightarrow> (\<exists>dst'. iota_snapshot_copy U M (Some src) (Some dst) = (RC_OK, Some dst')
        \<and> HASH_ENTRIES U (sn_state dst') = HASH_ENTRIES U (sn_state src) \<and> sn_lock dst' = sn_lock dst \<and> sn_conf dst' = sn_conf src
        \<and> md_hash (sn_metadata dst') = md_hash (sn_metadata src) \<and> md_index (sn_metadata dst') = md_index (sn_metadata src)
        \<and> md_timestamp (sn_metadata dst') = md_timestamp (sn_metadata src)
        \<and> HASH_ENTRIES M (md_solid_entry_points (sn_metadata dst')) = HASH_ENTRIES M (md_solid_entry_points (sn_metadata src))))
    \<and> (fst (state_delta_copy U (sn_state src) (HASH_NULL U)) \<noteq> RC_OK \<longrightarrow>
        (\<exists>dst'. iota_snapshot_copy U M (Some src) (Some dst) = (RC_OK, Some dst') \<and> sn_state dst' = HASH_NULL U))"
proof (intro conjI impI, goal_cases)
  case 1
  obtain st where st: "hash_map_copy U (sn_state src) (HASH_NULL U) = (RC_OK, st)" "HASH_ENTRIES U st = HASH_ENTRIES U (sn_state src)"
    using uthash_laws.hash_map_copy_new [OF ledger_table.axioms [OF assms(1)]] 1 by blast
  obtain mt where "hash_map_copy M (md_solid_entry_points (sn_metadata src)) (HASH_NULL M) = (RC_OK, mt)"
      "HASH_ENTRIES M mt = HASH_ENTRIES M (md_solid_entry_points (sn_metadata src))"
    using uthash_laws.hash_map_copy_new [OF ledger_table.axioms [OF assms(2)]] assms(3) by blast
  with st show ?case
    by (simp add: iota_snapshot_copy_def state_delta_destroy_def hash_map_free_def state_delta_copy_def iota_snapshot_metadata_init_def)
next
  case 2
  then obtain ret st where "hash_map_copy U (sn_state src) (HASH_NULL U) = (ret, st)" "ret \<noteq> RC_OK"
    by (cases "hash_map_copy U (sn_state src) (HASH_NULL U)") (auto simp: state_delta_copy_def)
  then show ?case by (simp add: iota_snapshot_copy_def state_delta_destroy_def hash_map_free_def state_delta_copy_def Let_def)
qed

theorem snapshot_copy_correct_witness:
  "(\<exists>dst'. iota_snapshot_copy table_ops table_ops (Some example_snapshot) (Some example_snapshot) = (RC_OK, Some dst')
      \<and> HASH_ENTRIES table_ops (sn_state dst') = [(null_address, IOTA_SUPPLY)])
   \<and> (\<exists>dst'. iota_snapshot_copy (alist_uthash (\<lambda>_. False)) table_ops (Some example_snapshot) (Some example_snapshot) = (RC_OK, Some dst')
      \<and> sn_state dst' = DAList.empty)"
proof -
  have "fst (state_delta_copy (alist_uthash (\<lambda>_. False)) (sn_state example_snapshot) DAList.empty) \<noteq> RC_OK"
    by (simp add: state_delta_copy_def hash_map_copy_def) (simp add: alist_uthash_def hash_map_add_def lookup.rep_eq)
  moreover have "HASH_NULL (alist_uthash r) = DAList.empty" for r :: "(flex_hash, int) alist \<Rightarrow> bool" by (simp add: alist_uthash_def)
  ultimately show ?thesis
    using snapshot_copy_correct [OF alist_ledger.ledger_table_axioms alist_ledger.ledger_table_axioms, of "\<lambda>_. True" "\<lambda>_. True" example_snapshot example_snapshot]
      snapshot_copy_correct [OF alist_ledger.ledger_table_axioms alist_ledger.ledger_table_axioms, of "\<lambda>_. True" "\<lambda>_. False" example_snapshot example_snapshot]
    by auto
qed


end
