(* ===== verification/Node_Caches.thy ===== *)
theory Node_Caches
  imports Prelude Errors Flex_Trit Transaction Hash_Containers
begin

text \<open>
  \<open>ciri/node/tips_cache.c\<close> and \<open>recent_seen_bytes_cache.c\<close>: caches of fixed capacity from which the oldest entry is
  dropped. Each operation holds the lock of the set it changes, so the operations are modelled as atomic on one set; the
  pointers that are compared with NULL are options. The generated map from digests to hashes (\<open>map.c.tpl\<close>) is a uthash table.
\<close>

section \<open>The cache of the tips\<close>

record 't tips_cache =
  tc_tips :: 't
  tc_solid_tips :: 't
  tc_capacity :: nat

type_synonym ('t, 'k) set_ops = "('t, 'k, unit) uthash"

text \<open>The head pointer of a set, \<open>*set\<close>, is its oldest entry.\<close>

definition set_head :: "('t, 'k) set_ops \<Rightarrow> 't \<Rightarrow> 'k option" where
  "set_head U s = (case HASH_KEYS U s of [] \<Rightarrow> None | k # _ \<Rightarrow> Some k)"

definition tips_cache_fifo_add :: "('t, 'k) set_ops \<Rightarrow> 't option \<Rightarrow> nat \<Rightarrow> 'k option \<Rightarrow> retcode \<times> 't option" where
  "tips_cache_fifo_add U setp capacity tipp =
     (case (setp, tipp) of
        (Some s, Some tip) \<Rightarrow>
          (let (ret, s) = (if hash_set_size U s \<ge> capacity then hash_set_remove_entry U s (set_head U s) else (RC_OK, s))
           in if ret \<noteq> RC_OK then (ret, Some s) else map_prod id Some (hash_set_add U s tip))
      | _ \<Rightarrow> (RC_NULL_PARAM, setp))"

text \<open>\<open>null_hash\<close> is the hash of null trits, \<open>index\<close> the number the generator draws.\<close>

definition tips_cache_random_tip_from_set ::
  "('t, 'k) set_ops \<Rightarrow> 'k \<Rightarrow> nat \<Rightarrow> 't option \<Rightarrow> 'k option \<Rightarrow> retcode \<times> 'k option"
where
  "tips_cache_random_tip_from_set U null_hash index setp tipp =
     (case (setp, tipp) of
        (Some s, Some tip) \<Rightarrow>
          if hash_set_size U s = 0 then (RC_OK, Some null_hash) else map_prod id Some (hash_set_random_hash U index s tip)
      | _ \<Rightarrow> (RC_NULL_PARAM, tipp))"

definition tips_cache_init :: "('t, 'k) set_ops \<Rightarrow> 't tips_cache option \<Rightarrow> nat \<Rightarrow> retcode \<times> 't tips_cache option" where
  "tips_cache_init U cachep capacity =
     (case cachep of
        None \<Rightarrow> (RC_NULL_PARAM, None)
      | Some cache \<Rightarrow> (RC_OK, Some (cache\<lparr>tc_tips := HASH_NULL U, tc_solid_tips := HASH_NULL U, tc_capacity := capacity\<rparr>)))"

definition tips_cache_destroy :: "('t, 'k) set_ops \<Rightarrow> 't tips_cache option \<Rightarrow> retcode \<times> 't tips_cache option" where
  "tips_cache_destroy U cachep =
     (case cachep of
        None \<Rightarrow> (RC_NULL_PARAM, None)
      | Some cache \<Rightarrow> (RC_OK, Some (cache\<lparr>tc_tips := hash_set_free U (tc_tips cache), tc_solid_tips := hash_set_free U (tc_solid_tips cache)\<rparr>)))"

primrec push_all :: "('k list \<Rightarrow> bool) \<Rightarrow> 'k list \<Rightarrow> 'k list \<Rightarrow> retcode \<times> 'k list" where
  "push_all room [] stack = (RC_OK, stack)"
| "push_all room (hash # hashes) stack =
     (let (ret, stack) = hash_stack_push room stack hash in if ret \<noteq> RC_OK then (ret, stack) else push_all room hashes stack)"

definition tips_cache_get_tips ::
  "('t, 'k) set_ops \<Rightarrow> ('k list \<Rightarrow> bool) \<Rightarrow> 't tips_cache option \<Rightarrow> 'k list option \<Rightarrow> retcode \<times> 'k list option"
where
  "tips_cache_get_tips U room cachep tipsp =
     (case (cachep, tipsp) of
        (Some cache, Some tips) \<Rightarrow>
          (let (ret, tips) = push_all room (HASH_KEYS U (tc_tips cache)) tips
           in if ret \<noteq> RC_OK then (ret, Some tips) else map_prod id Some (push_all room (HASH_KEYS U (tc_solid_tips cache)) tips))
      | _ \<Rightarrow> (RC_NULL_PARAM, tipsp))"

definition tips_cache_add :: "('t, 'k) set_ops \<Rightarrow> 't tips_cache option \<Rightarrow> 'k option \<Rightarrow> retcode \<times> 't tips_cache option" where
  "tips_cache_add U cachep tipp =
     (case (cachep, tipp) of
        (Some cache, Some tip) \<Rightarrow>
          (let (ret, s) = tips_cache_fifo_add U (Some (tc_tips cache)) (tc_capacity cache) (Some tip)
           in (ret, Some (cache\<lparr>tc_tips := the s\<rparr>)))
      | _ \<Rightarrow> (RC_NULL_PARAM, cachep))"

definition tips_cache_remove :: "('t, 'k) set_ops \<Rightarrow> 't tips_cache option \<Rightarrow> 'k option \<Rightarrow> retcode \<times> 't tips_cache option" where
  "tips_cache_remove U cachep tipp =
     (case (cachep, tipp) of
        (Some cache, Some tip) \<Rightarrow>
          (let (ret, s) = hash_set_remove U (tc_tips cache) tip;
               cache = cache\<lparr>tc_tips := s\<rparr>
           in if ret \<noteq> RC_OK then (ret, Some cache)
              else let (ret, s) = hash_set_remove U (tc_solid_tips cache) tip in (ret, Some (cache\<lparr>tc_solid_tips := s\<rparr>)))
      | _ \<Rightarrow> (RC_NULL_PARAM, cachep))"

definition tips_cache_set_solid :: "('t, 'k) set_ops \<Rightarrow> 't tips_cache option \<Rightarrow> 'k option \<Rightarrow> retcode \<times> 't tips_cache option" where
  "tips_cache_set_solid U cachep tipp =
     (case (cachep, tipp) of
        (Some cache, Some tip) \<Rightarrow>
          (let solidify = hash_set_contains U (tc_tips cache) tip;
               (ret, s) = (if solidify then hash_set_remove U (tc_tips cache) tip else (RC_OK, tc_tips cache));
               cache = cache\<lparr>tc_tips := s\<rparr>
           in if ret \<noteq> RC_OK then (ret, Some cache)
              else if solidify
                   then let (ret, s) = tips_cache_fifo_add U (Some (tc_solid_tips cache)) (tc_capacity cache) (Some tip)
                        in (ret, Some (cache\<lparr>tc_solid_tips := the s\<rparr>))
                   else (ret, Some cache))
      | _ \<Rightarrow> (RC_NULL_PARAM, cachep))"

text \<open>The functions return a \<open>size_t\<close>, the code \<open>RC_NULL_PARAM\<close> for a NULL pointer included.\<close>

definition tips_cache_non_solid_size :: "('t, 'k) set_ops \<Rightarrow> 't tips_cache option \<Rightarrow> int" where
  "tips_cache_non_solid_size U cachep = (case cachep of None \<Rightarrow> RC_NULL_PARAM | Some cache \<Rightarrow> int (hash_set_size U (tc_tips cache)))"

definition tips_cache_solid_size :: "('t, 'k) set_ops \<Rightarrow> 't tips_cache option \<Rightarrow> int" where
  "tips_cache_solid_size U cachep = (case cachep of None \<Rightarrow> RC_NULL_PARAM | Some cache \<Rightarrow> int (hash_set_size U (tc_solid_tips cache)))"

definition tips_cache_size :: "('t, 'k) set_ops \<Rightarrow> 't tips_cache option \<Rightarrow> int" where
  "tips_cache_size U cachep =
     (case cachep of
        None \<Rightarrow> RC_NULL_PARAM
      | Some cache \<Rightarrow> int (hash_set_size U (tc_tips cache)) + int (hash_set_size U (tc_solid_tips cache)))"

definition tips_cache_random_tip ::
  "('t, 'k) set_ops \<Rightarrow> 'k \<Rightarrow> nat \<Rightarrow> 't tips_cache option \<Rightarrow> 'k option \<Rightarrow> retcode \<times> 'k option"
where
  "tips_cache_random_tip U null_hash index cachep tipp =
     (case (cachep, tipp) of
        (Some cache, Some tip) \<Rightarrow> tips_cache_random_tip_from_set U null_hash index (Some (tc_tips cache)) (Some tip)
      | _ \<Rightarrow> (RC_NULL_PARAM, tipp))"

definition tips_cache_random_solid_tip ::
  "('t, 'k) set_ops \<Rightarrow> 'k \<Rightarrow> nat \<Rightarrow> 't tips_cache option \<Rightarrow> 'k option \<Rightarrow> retcode \<times> 'k option"
where
  "tips_cache_random_solid_tip U null_hash index cachep tipp =
     (case (cachep, tipp) of
        (Some cache, Some tip) \<Rightarrow> tips_cache_random_tip_from_set U null_hash index (Some (tc_solid_tips cache)) (Some tip)
      | _ \<Rightarrow> (RC_NULL_PARAM, tipp))"

section \<open>The cache of the bytes seen\<close>

record 't recent_seen_bytes_cache =
  rs_map :: 't
  rs_capacity :: nat
  rs_miss :: u64
  rs_hit :: u64

type_synonym 't digest_ops = "('t, u64, flex_trit list) uthash"

definition recent_seen_bytes_cache_init ::
  "'t digest_ops \<Rightarrow> 't recent_seen_bytes_cache option \<Rightarrow> nat \<Rightarrow> retcode \<times> 't recent_seen_bytes_cache option"
where
  "recent_seen_bytes_cache_init U cachep capacity =
     (case cachep of
        None \<Rightarrow> (RC_NULL_PARAM, None)
      | Some cache \<Rightarrow> (RC_OK, Some (cache\<lparr>rs_capacity := capacity, rs_miss := 0, rs_hit := 0, rs_map := HASH_NULL U\<rparr>)))"

definition recent_seen_bytes_cache_destroy ::
  "'t digest_ops \<Rightarrow> 't recent_seen_bytes_cache option \<Rightarrow> retcode \<times> 't recent_seen_bytes_cache option"
where
  "recent_seen_bytes_cache_destroy U cachep =
     (case cachep of None \<Rightarrow> (RC_NULL_PARAM, None) | Some cache \<Rightarrow> (RC_OK, Some (cache\<lparr>rs_map := HASH_NULL U\<rparr>)))"

text \<open>
  The outputs are the hash, which keeps its value on a miss, and \<open>*found\<close>; the counters wrap. The pointers may be NULL.
\<close>

definition recent_seen_bytes_cache_get ::
  "'t digest_ops \<Rightarrow> 't recent_seen_bytes_cache option \<Rightarrow> u64 \<Rightarrow> flex_trit list option \<Rightarrow> bool option
    \<Rightarrow> retcode \<times> 't recent_seen_bytes_cache option \<times> flex_trit list option \<times> bool option"
where
  "recent_seen_bytes_cache_get U cachep digest hashp foundp =
     (case (cachep, hashp, foundp) of
        (Some cache, Some hash, Some _) \<Rightarrow>
          (case HASH_FIND U (rs_map cache) digest of
             Some value \<Rightarrow> (RC_OK, Some (cache\<lparr>rs_hit := rs_hit cache + 1\<rparr>), Some value, Some True)
           | None \<Rightarrow> (RC_OK, Some (cache\<lparr>rs_miss := rs_miss cache + 1\<rparr>), Some hash, Some False))
      | _ \<Rightarrow> (RC_NULL_PARAM, cachep, hashp, foundp))"

definition recent_seen_bytes_cache_put ::
  "'t digest_ops \<Rightarrow> 't recent_seen_bytes_cache option \<Rightarrow> u64 \<Rightarrow> flex_trit list option \<Rightarrow> retcode \<times> 't recent_seen_bytes_cache option"
where
  "recent_seen_bytes_cache_put U cachep digest hashp =
     (case (cachep, hashp) of
        (Some cache, Some hash) \<Rightarrow>
          if HASH_FIND U (rs_map cache) digest = None
          then let m = (if HASH_COUNT U (rs_map cache) \<ge> rs_capacity cache
                        then case HASH_KEYS U (rs_map cache) of [] \<Rightarrow> rs_map cache | k # _ \<Rightarrow> HASH_DEL U (rs_map cache) k
                        else rs_map cache)
               in if HASH_ROOM U m then (RC_OK, Some (cache\<lparr>rs_map := HASH_ADD U m digest hash\<rparr>))
                  else (RC_OOM, Some (cache\<lparr>rs_map := m\<rparr>))
          else (RC_OK, Some cache)
      | _ \<Rightarrow> (RC_NULL_PARAM, cachep))"

text \<open>The digest is XXH64 of the bytes of a transaction, with seed 0; the hash function is a parameter.\<close>

definition GOSSIP_TX_BYTES_LENGTH :: nat where "GOSSIP_TX_BYTES_LENGTH = 1604"

definition recent_seen_bytes_cache_hash :: "(byte list \<Rightarrow> u64) \<Rightarrow> byte list option \<Rightarrow> u64 option \<Rightarrow> retcode \<times> u64 option" where
  "recent_seen_bytes_cache_hash XXH64 bytesp digestp =
     (case (bytesp, digestp) of
        (Some bytes, Some _) \<Rightarrow> (RC_OK, Some (XXH64 (take GOSSIP_TX_BYTES_LENGTH bytes)))
      | _ \<Rightarrow> (RC_NULL_PARAM, digestp))"

definition recent_seen_bytes_cache_size :: "'t digest_ops \<Rightarrow> 't recent_seen_bytes_cache \<Rightarrow> nat" where
  "recent_seen_bytes_cache_size U cache = HASH_COUNT U (rs_map cache)"

section \<open>The abstract queue\<close>

text \<open>What a set of fixed capacity does to the list of its keys, oldest first.\<close>

definition fifo_insert :: "nat \<Rightarrow> 'k \<Rightarrow> 'k list \<Rightarrow> 'k list" where
  "fifo_insert cap x xs = (let xs = (if cap \<le> length xs then tl xs else xs) in if x \<in> set xs then xs else xs @ [x])"

lemma fifo_insert_length: "length xs \<le> max 1 cap \<Longrightarrow> length (fifo_insert cap x xs) \<le> max 1 cap"
  by (auto simp: fifo_insert_def Let_def)

lemma filter_notin: "x \<notin> set xs \<Longrightarrow> filter (\<lambda>y. y \<noteq> x) xs = xs"
  by (induction xs) auto

context uthash_laws
begin

lemma keys_simps: "HASH_KEYS U (HASH_NULL U) = []" "HASH_KEYS U (HASH_DEL U t k) = filter (\<lambda>x. x \<noteq> k) (HASH_KEYS U t)"
  "HASH_FIND U t k = None \<Longrightarrow> HASH_KEYS U (HASH_ADD U t k v) = HASH_KEYS U t @ [k]" "distinct (HASH_KEYS U t)"
  "HASH_COUNT U t = length (HASH_KEYS U t)"
proof -
  show "HASH_KEYS U (HASH_DEL U t k) = filter (\<lambda>x. x \<noteq> k) (HASH_KEYS U t)"
    by (simp add: HASH_KEYS_def del_entries filter_map comp_def)
qed (simp_all add: HASH_KEYS_def HASH_COUNT_def add_entries)

lemma del_head: "HASH_KEYS U t = k # ks \<Longrightarrow> HASH_KEYS U (HASH_DEL U t k) = ks"
proof -
  assume a: "HASH_KEYS U t = k # ks"
  then have "k \<notin> set ks" using keys_simps(4) [of t] by simp
  then show ?thesis using a by (simp add: keys_simps(2) filter_notin)
qed

end

text \<open>Sets of tips.\<close>

locale tip_table = uthash_laws U for U :: "('t, 'k, unit) uthash"
begin

lemma set_add_keys:
  "hash_set_add U s x = (ret, s') \<Longrightarrow>
     ret = RC_OK \<and> HASH_KEYS U s' = (if x \<in> set (HASH_KEYS U s) then HASH_KEYS U s else HASH_KEYS U s @ [x])
     \<or> ret = RC_OOM \<and> s' = s \<and> x \<notin> set (HASH_KEYS U s) \<and> \<not> HASH_ROOM U s"
  by (auto simp: hash_set_add_def hash_set_contains_def find_none_iff keys_simps(3) split: if_splits)

lemma set_remove_keys: "hash_set_remove U s x = (RC_OK, s') \<Longrightarrow> HASH_KEYS U s' = filter (\<lambda>y. y \<noteq> x) (HASH_KEYS U s)"
  by (auto simp: hash_set_remove_def hash_set_remove_entry_def keys_simps find_none_iff filter_notin split: option.splits if_splits)

lemma set_remove_ok: "\<exists>s'. hash_set_remove U s x = (RC_OK, s')"
  by (simp add: hash_set_remove_def hash_set_remove_entry_def split: option.split)

lemma fifo_add_keys:
  assumes "tips_cache_fifo_add U (Some s) cap (Some x) = (ret, sp)"
  shows "\<exists>s'. sp = Some s' \<and> (ret = RC_OK \<and> HASH_KEYS U s' = fifo_insert cap x (HASH_KEYS U s)
    \<or> ret = RC_OOM \<and> HASH_KEYS U s' = (if cap \<le> length (HASH_KEYS U s) then tl (HASH_KEYS U s) else HASH_KEYS U s))"
proof -
  define s1 where "s1 = (if cap \<le> length (HASH_KEYS U s) then snd (hash_set_remove_entry U s (set_head U s)) else s)"
  have k: "HASH_KEYS U s1 = (if cap \<le> length (HASH_KEYS U s) then tl (HASH_KEYS U s) else HASH_KEYS U s)"
    using del_head [of s] by (auto simp: s1_def hash_set_remove_entry_def set_head_def keys_simps(5) split: list.split)
  obtain r s' where a: "hash_set_add U s1 x = (r, s')" by (cases "hash_set_add U s1 x")
  have "fst (hash_set_remove_entry U s (set_head U s)) = RC_OK" by (simp add: hash_set_remove_entry_def split: option.split)
  then have "tips_cache_fifo_add U (Some s) cap (Some x) = (r, Some s')"
    using a by (cases "hash_set_remove_entry U s (set_head U s)")
      (auto simp: tips_cache_fifo_add_def hash_set_size_def keys_simps(5) s1_def split: if_splits)
  with set_add_keys [OF a] k assms show ?thesis by (auto simp: fifo_insert_def Let_def)
qed

end

interpretation alist_tips: tip_table "alist_uthash room" for room
  by (rule tip_table.intro, rule alist_table.uthash_laws_axioms)

section \<open>Runs\<close>

text \<open>The states a cache can be in: initialised with a capacity, then changed by operations that may run out of memory.\<close>

inductive tips_reachable :: "('t, 'k) set_ops \<Rightarrow> nat \<Rightarrow> 't tips_cache \<Rightarrow> bool" for U cap where
  init: "tips_cache_init U (Some c) cap = (ret, Some c') \<Longrightarrow> tips_reachable U cap c'"
| add: "tips_reachable U cap c \<Longrightarrow> tips_cache_add U (Some c) (Some tip) = (ret, Some c') \<Longrightarrow> tips_reachable U cap c'"
| remove: "tips_reachable U cap c \<Longrightarrow> tips_cache_remove U (Some c) (Some tip) = (ret, Some c') \<Longrightarrow> tips_reachable U cap c'"
| set_solid: "tips_reachable U cap c \<Longrightarrow> tips_cache_set_solid U (Some c) (Some tip) = (ret, Some c') \<Longrightarrow> tips_reachable U cap c'"

context tip_table
begin

lemma add_steps:
  assumes "tips_cache_add U (Some c) (Some tip) = (ret, cp)"
  shows "\<exists>s. tips_cache_fifo_add U (Some (tc_tips c)) (tc_capacity c) (Some tip) = (ret, Some s) \<and> cp = Some (c\<lparr>tc_tips := s\<rparr>)"
proof -
  obtain r sp where f: "tips_cache_fifo_add U (Some (tc_tips c)) (tc_capacity c) (Some tip) = (r, sp)"
    by (cases "tips_cache_fifo_add U (Some (tc_tips c)) (tc_capacity c) (Some tip)")
  then obtain s where "sp = Some s" using fifo_add_keys [OF f] by blast
  with f assms show ?thesis by (simp add: tips_cache_add_def)
qed

lemma remove_steps:
  assumes "tips_cache_remove U (Some c) (Some tip) = (ret, cp)"
  shows "\<exists>s s'. ret = RC_OK \<and> hash_set_remove U (tc_tips c) tip = (RC_OK, s) \<and> hash_set_remove U (tc_solid_tips c) tip = (RC_OK, s')
    \<and> cp = Some (c\<lparr>tc_tips := s, tc_solid_tips := s'\<rparr>)"
  using assms set_remove_ok [of "tc_tips c" tip] set_remove_ok [of "tc_solid_tips c" tip] by (auto simp: tips_cache_remove_def Let_def)

lemma set_solid_steps:
  assumes "tips_cache_set_solid U (Some c) (Some tip) = (ret, cp)"
  shows "if tip \<in> set (HASH_KEYS U (tc_tips c))
    then \<exists>s s'. hash_set_remove U (tc_tips c) tip = (RC_OK, s)
      \<and> tips_cache_fifo_add U (Some (tc_solid_tips c)) (tc_capacity c) (Some tip) = (ret, Some s')
      \<and> cp = Some (c\<lparr>tc_tips := s, tc_solid_tips := s'\<rparr>)
    else ret = RC_OK \<and> cp = Some c"
proof -
  obtain s where s: "hash_set_remove U (tc_tips c) tip = (RC_OK, s)" using set_remove_ok by blast
  obtain r sp where f: "tips_cache_fifo_add U (Some (tc_solid_tips c)) (tc_capacity c) (Some tip) = (r, sp)"
    by (cases "tips_cache_fifo_add U (Some (tc_solid_tips c)) (tc_capacity c) (Some tip)")
  then obtain s' where "sp = Some s'" using fifo_add_keys [OF f] by blast
  then show ?thesis using f s assms
    by (auto simp: tips_cache_set_solid_def hash_set_contains_def find_none_iff Let_def split: if_splits)
qed

lemma fifo_add_bound:
  assumes "tips_cache_fifo_add U (Some s) cap (Some x) = (ret, Some s')" "length (HASH_KEYS U s) \<le> max 1 cap"
  shows "length (HASH_KEYS U s') \<le> max 1 cap"
  using fifo_add_keys [OF assms(1)] fifo_insert_length [OF assms(2)] assms(2) by auto

lemma reachable_bounded:
  "tips_reachable U cap c \<Longrightarrow> tc_capacity c = cap \<and> length (HASH_KEYS U (tc_tips c)) \<le> max 1 cap
     \<and> length (HASH_KEYS U (tc_solid_tips c)) \<le> max 1 cap"
proof (induction rule: tips_reachable.induct)
  case (init c ret c')
  then show ?case by (auto simp: tips_cache_init_def keys_simps(1))
next
  case (add c tip ret c')
  then show ?case using add_steps [OF add.hyps(2)] fifo_add_bound by auto
next
  case (remove c tip ret c')
  obtain s s' where r: "hash_set_remove U (tc_tips c) tip = (RC_OK, s)" "hash_set_remove U (tc_solid_tips c) tip = (RC_OK, s')"
    "c' = c\<lparr>tc_tips := s, tc_solid_tips := s'\<rparr>" using remove_steps [OF remove.hyps(2)] by auto
  have "length (filter P xs) \<le> max 1 cap" if "length xs \<le> max 1 cap" for P and xs :: "'k list"
    using that length_filter_le [of P xs] by (rule le_trans [rotated])
  then show ?case using r set_remove_keys [OF r(1)] set_remove_keys [OF r(2)] remove.IH by simp
next
  case (set_solid c tip ret c')
  show ?case
  proof (cases "tip \<in> set (HASH_KEYS U (tc_tips c))")
    case True
    then obtain s s' where r: "hash_set_remove U (tc_tips c) tip = (RC_OK, s)"
      "tips_cache_fifo_add U (Some (tc_solid_tips c)) (tc_capacity c) (Some tip) = (ret, Some s')" "c' = c\<lparr>tc_tips := s, tc_solid_tips := s'\<rparr>"
      using set_solid_steps [OF set_solid.hyps(2)] by auto
    have "length (HASH_KEYS U s) \<le> length (HASH_KEYS U (tc_tips c))" using set_remove_keys [OF r(1)] by simp
    then show ?thesis using r fifo_add_bound [OF r(2)] set_solid.IH by auto
  qed (use set_solid set_solid_steps [OF set_solid.hyps(2)] in auto)
qed

end

section \<open>Properties\<close>


abbreviation tips_ops :: "((nat, unit) alist, nat) set_ops" where
  "tips_ops \<equiv> alist_uthash (\<lambda>_. True)"


text \<open>
  C12. The operations implement queues of distinct tips, oldest first. Adding inserts the tip at the end after dropping the oldest one of a
  full set; solidifying moves a tip of the first set to the end of the second in the same way and leaves unknown tips alone; removing takes the tip
  out of both sets. Listing the tips pushes all of them.
\<close>

theorem tips_cache_is_fifo:
  assumes "tip_table U"
  shows "(tips_cache_add U (Some c) (Some tip) = (RC_OK, Some c') \<longrightarrow>
        HASH_KEYS U (tc_tips c') = fifo_insert (tc_capacity c) tip (HASH_KEYS U (tc_tips c)) \<and> tc_solid_tips c' = tc_solid_tips c)
    \<and> (tips_cache_remove U (Some c) (Some tip) = (RC_OK, Some c') \<longrightarrow>
        HASH_KEYS U (tc_tips c') = filter (\<lambda>x. x \<noteq> tip) (HASH_KEYS U (tc_tips c))
        \<and> HASH_KEYS U (tc_solid_tips c') = filter (\<lambda>x. x \<noteq> tip) (HASH_KEYS U (tc_solid_tips c)))
    \<and> (tips_cache_set_solid U (Some c) (Some tip) = (RC_OK, Some c') \<longrightarrow>
        HASH_KEYS U (tc_tips c') = filter (\<lambda>x. x \<noteq> tip) (HASH_KEYS U (tc_tips c))
        \<and> HASH_KEYS U (tc_solid_tips c') = (if tip \<in> set (HASH_KEYS U (tc_tips c))
            then fifo_insert (tc_capacity c) tip (HASH_KEYS U (tc_solid_tips c)) else HASH_KEYS U (tc_solid_tips c)))
    \<and> tips_cache_get_tips U (\<lambda>_. True) (Some c) (Some []) =
        (RC_OK, Some (rev (HASH_KEYS U (tc_solid_tips c)) @ rev (HASH_KEYS U (tc_tips c))))"
proof (intro conjI impI)
  have p: "push_all (\<lambda>_. True) hs st = (RC_OK, rev hs @ st)" for hs :: "'b list" and st
    by (induction hs arbitrary: st) (simp_all add: hash_stack_push_def)
  show "tips_cache_get_tips U (\<lambda>_. True) (Some c) (Some []) =
      (RC_OK, Some (rev (HASH_KEYS U (tc_solid_tips c)) @ rev (HASH_KEYS U (tc_tips c))))"
    by (simp add: tips_cache_get_tips_def p)
next
  assume "tips_cache_add U (Some c) (Some tip) = (RC_OK, Some c')"
  from tip_table.add_steps [OF assms this] tip_table.fifo_add_keys [OF assms]
  show "HASH_KEYS U (tc_tips c') = fifo_insert (tc_capacity c) tip (HASH_KEYS U (tc_tips c))" "tc_solid_tips c' = tc_solid_tips c"
    by fastforce+
next
  assume "tips_cache_remove U (Some c) (Some tip) = (RC_OK, Some c')"
  from tip_table.remove_steps [OF assms this] tip_table.set_remove_keys [OF assms]
  show "HASH_KEYS U (tc_tips c') = filter (\<lambda>x. x \<noteq> tip) (HASH_KEYS U (tc_tips c))"
      "HASH_KEYS U (tc_solid_tips c') = filter (\<lambda>x. x \<noteq> tip) (HASH_KEYS U (tc_solid_tips c))" by fastforce+
next
  assume "tips_cache_set_solid U (Some c) (Some tip) = (RC_OK, Some c')"
  note st = tip_table.set_solid_steps [OF assms this]
  show "HASH_KEYS U (tc_tips c') = filter (\<lambda>x. x \<noteq> tip) (HASH_KEYS U (tc_tips c))"
    using st tip_table.set_remove_keys [OF assms] by (fastforce simp: filter_notin split: if_splits)
  show "HASH_KEYS U (tc_solid_tips c') = (if tip \<in> set (HASH_KEYS U (tc_tips c))
      then fifo_insert (tc_capacity c) tip (HASH_KEYS U (tc_solid_tips c)) else HASH_KEYS U (tc_solid_tips c))"
    using st tip_table.fifo_add_keys [OF assms] by (fastforce split: if_splits)
qed

definition two_tips :: "(nat, unit) alist tips_cache" where
  "two_tips = \<lparr>tc_tips = DAList.update 2 () (DAList.update 1 () DAList.empty), tc_solid_tips = DAList.empty, tc_capacity = 2\<rparr>"

lemma two_tips_simps: "HASH_KEYS tips_ops (tc_tips two_tips) = [1, 2]" "tc_capacity two_tips = 2"
  by (simp_all add: two_tips_def HASH_KEYS_def alist_uthash_def DAList.update.rep_eq DAList.empty.rep_eq)

lemma two_tips_add: "\<exists>c'. tips_cache_add tips_ops (Some two_tips) (Some tip) = (RC_OK, Some c')"
  by (simp add: tips_cache_add_def tips_cache_fifo_add_def hash_set_remove_entry_def hash_set_add_def hash_set_contains_def split: option.split)
    (simp add: alist_uthash_def)

theorem tips_cache_is_fifo_witness:
  "\<exists>c'. tips_cache_add tips_ops (Some two_tips) (Some 3) = (RC_OK, Some c') \<and> HASH_KEYS tips_ops (tc_tips c') = [2, 3]"
proof -
  obtain c' where c': "tips_cache_add tips_ops (Some two_tips) (Some 3) = (RC_OK, Some c')" using two_tips_add by blast
  from tips_cache_is_fifo [OF alist_tips.tip_table_axioms, of "\<lambda>_. True" two_tips 3 c'] c'
  show ?thesis by (auto simp: two_tips_simps fifo_insert_def)
qed

text \<open>
  Adding a tip that is known to a full cache drops the oldest tip although nothing is added: of the tips 1 and 2 only 2 is left after
  2 is added again.
\<close>

theorem tips_cache_add_known_evicts:
  "\<exists>c'. tips_cache_add tips_ops (Some two_tips) (Some 2) = (RC_OK, Some c') \<and> HASH_KEYS tips_ops (tc_tips c') = [2]"
proof -
  obtain c' where c': "tips_cache_add tips_ops (Some two_tips) (Some 2) = (RC_OK, Some c')" using two_tips_add by blast
  obtain s where "tips_cache_fifo_add tips_ops (Some (tc_tips two_tips)) 2 (Some 2) = (RC_OK, Some s)" "c' = two_tips\<lparr>tc_tips := s\<rparr>"
    using alist_tips.add_steps [OF c'] by (auto simp: two_tips_simps)
  with alist_tips.fifo_add_keys c' show ?thesis by (fastforce simp: two_tips_simps fifo_insert_def)
qed

text \<open>
  The cache of the bytes seen finds what was put: after a successful put of a digest that was unknown, get finds its hash and counts a hit; a known
  digest keeps its hash and drops nothing. At most the oldest digest is dropped, and only from a full cache, so the size stays within the capacity.
\<close>

theorem recent_seen_bytes_put_get:
  assumes "uthash_laws U" "recent_seen_bytes_cache_put U (Some c) d (Some h) = (RC_OK, Some c')"
  shows "recent_seen_bytes_cache_get U (Some c') d (Some x) (Some b) =
      (RC_OK, Some (c'\<lparr>rs_hit := rs_hit c' + 1\<rparr>), Some (case HASH_FIND U (rs_map c) d of None \<Rightarrow> h | Some h' \<Rightarrow> h'), Some True)
    \<and> HASH_KEYS U (rs_map c') = (if d \<in> set (HASH_KEYS U (rs_map c)) then HASH_KEYS U (rs_map c)
        else fifo_insert (rs_capacity c) d (HASH_KEYS U (rs_map c)))
    \<and> (\<forall>k. k \<in> set (HASH_KEYS U (rs_map c')) \<longrightarrow> k \<noteq> d \<longrightarrow> HASH_FIND U (rs_map c') k = HASH_FIND U (rs_map c) k)
    \<and> (recent_seen_bytes_cache_size U c \<le> max 1 (rs_capacity c) \<longrightarrow> recent_seen_bytes_cache_size U c' \<le> max 1 (rs_capacity c))"
proof (cases "HASH_FIND U (rs_map c) d")
  case (Some h')
  then have "c' = c" "d \<in> set (HASH_KEYS U (rs_map c))"
    using assms(2) uthash_laws.find_none_iff [OF assms(1), of "rs_map c" d] by (auto simp: recent_seen_bytes_cache_put_def)
  with Some show ?thesis by (simp add: recent_seen_bytes_cache_get_def)
next
  case None
  define m where "m = (if HASH_COUNT U (rs_map c) \<ge> rs_capacity c
    then case HASH_KEYS U (rs_map c) of [] \<Rightarrow> rs_map c | k # _ \<Rightarrow> HASH_DEL U (rs_map c) k else rs_map c)"
  have c': "c' = c\<lparr>rs_map := HASH_ADD U m d h\<rparr>"
    using None assms(2) by (auto simp: recent_seen_bytes_cache_put_def Let_def m_def [symmetric] split: if_splits)
  note ks = uthash_laws.keys_simps [OF assms(1)]
  have nk: "d \<notin> set (HASH_KEYS U (rs_map c))" using None uthash_laws.find_none_iff [OF assms(1)] by metis
  have km: "HASH_KEYS U m = (if rs_capacity c \<le> length (HASH_KEYS U (rs_map c)) then tl (HASH_KEYS U (rs_map c)) else HASH_KEYS U (rs_map c))"
    using uthash_laws.del_head [OF assms(1), of "rs_map c"] by (auto simp: m_def ks(5) split: list.split)
  then have nm: "d \<notin> set (HASH_KEYS U m)" using nk by (cases "HASH_KEYS U (rs_map c)") (auto split: if_splits)
  then have fm: "HASH_FIND U m d = None" using uthash_laws.find_none_iff [OF assms(1)] by metis
  have kc: "HASH_KEYS U (rs_map c') = fifo_insert (rs_capacity c) d (HASH_KEYS U (rs_map c))"
    using ks(3) [OF fm, of h] km nm c' by (simp add: fifo_insert_def Let_def)
  have "HASH_FIND U (rs_map c') k = HASH_FIND U (rs_map c) k" if "k \<in> set (HASH_KEYS U (rs_map c'))" "k \<noteq> d" for k
  proof -
    have e: "HASH_FIND U (rs_map c') k = HASH_FIND U m k" using uthash_laws.find_add [OF assms(1) fm, of h k] c' that by simp
    have "k \<in> set (HASH_KEYS U m)" using that ks(3) [OF fm, of h] c' by simp
    then have "HASH_FIND U m k = HASH_FIND U (rs_map c) k"
      using uthash_laws.find_del [OF assms(1)] ks(2) by (auto simp: m_def split: list.splits if_splits)
    with e show ?thesis by simp
  qed
  moreover have "HASH_FIND U (rs_map c') d = Some h" using uthash_laws.find_add [OF assms(1) fm, of h d] c' by simp
  moreover have "length (HASH_KEYS U (rs_map c)) \<le> max 1 (rs_capacity c) \<Longrightarrow> length (HASH_KEYS U (rs_map c')) \<le> max 1 (rs_capacity c)"
    unfolding kc by (rule fifo_insert_length)
  ultimately show ?thesis using None nk kc
    by (simp add: recent_seen_bytes_cache_get_def recent_seen_bytes_cache_size_def ks(5))
qed

theorem recent_seen_bytes_put_get_witness:
  "\<exists>c'. recent_seen_bytes_cache_put (alist_uthash (\<lambda>_. True)) (Some \<lparr>rs_map = DAList.empty, rs_capacity = 4, rs_miss = 0, rs_hit = 0\<rparr>) 9 (Some [1])
       = (RC_OK, Some c')
     \<and> snd (snd (recent_seen_bytes_cache_get (alist_uthash (\<lambda>_. True)) (Some c') 9 (Some [0]) (Some False))) = (Some [1], Some True)"
proof -
  let ?U = "alist_uthash (\<lambda>_. True)" and ?c = "\<lparr>rs_map = DAList.empty, rs_capacity = 4, rs_miss = 0, rs_hit = 0\<rparr>"
  have "recent_seen_bytes_cache_put ?U (Some ?c) 9 (Some [1]) = (RC_OK, Some (?c\<lparr>rs_map := DAList.update 9 [1] DAList.empty\<rparr>))"
    by (simp add: recent_seen_bytes_cache_put_def alist_uthash_def HASH_COUNT_def DAList.lookup.rep_eq DAList.empty.rep_eq)
  from recent_seen_bytes_put_get [OF alist_table.uthash_laws_axioms this, of "[0]" False] this
  show ?thesis by (auto simp: alist_uthash_def DAList.lookup.rep_eq DAList.empty.rep_eq)
qed

end
