(* ===== verification/Requester.thy ===== *)
theory Requester
  imports Prelude Errors Flex_Trit Transaction Hash_Containers Node_Caches
begin

text \<open>
  \<open>ciri/node/pipeline/transaction_requester.c\<close>: the transactions the node asks its neighbours for. \<open>hashes\<close> is a bounded queue of hashes still
  to be requested, \<open>requested_hashes\<close> the set of those that have been. Each step holds the lock of the set it changes. The tangle, a
  database, is a parameter: what \<open>iota_tangle_transaction_exist\<close> answers for a hash.
\<close>

section \<open>Definitions\<close>

record 't transaction_requester =
  rq_running :: bool
  rq_queue_size :: nat
  rq_hashes :: 't
  rq_requested_hashes :: 't

type_synonym 't hash_set_ops = "('t, flex_trit list, unit) uthash"

text \<open>\<open>queue_size\<close> is \<open>node->conf.requester_queue_size\<close>; \<open>None\<close> is a NULL node.\<close>

definition requester_init ::
  "'t hash_set_ops \<Rightarrow> 't transaction_requester option \<Rightarrow> nat option \<Rightarrow> retcode \<times> 't transaction_requester option"
where
  "requester_init U rqp nodep =
     (case (rqp, nodep) of
        (Some rq, Some queue_size) \<Rightarrow>
          (RC_OK, Some (rq\<lparr>rq_running := False, rq_queue_size := queue_size, rq_hashes := HASH_NULL U, rq_requested_hashes := HASH_NULL U\<rparr>))
      | _ \<Rightarrow> (RC_NULL_PARAM, rqp))"

text \<open>The set of the requested hashes is not freed.\<close>

definition requester_destroy ::
  "'t hash_set_ops \<Rightarrow> 't transaction_requester option \<Rightarrow> retcode \<times> 't transaction_requester option"
where
  "requester_destroy U rqp =
     (case rqp of
        None \<Rightarrow> (RC_NULL_PARAM, None)
      | Some rq \<Rightarrow> if rq_running rq then (RC_STILL_RUNNING, rqp) else (RC_OK, Some (rq\<lparr>rq_hashes := hash_set_free U (rq_hashes rq)\<rparr>)))"

text \<open>The second loop runs only after an error of the first.\<close>

definition requester_get_requested_transactions ::
  "'t hash_set_ops \<Rightarrow> (flex_trit list list \<Rightarrow> bool) \<Rightarrow> 't transaction_requester option \<Rightarrow> flex_trit list list option
    \<Rightarrow> retcode \<times> flex_trit list list option"
where
  "requester_get_requested_transactions U room rqp hashesp =
     (case (rqp, hashesp) of
        (Some rq, Some hashes) \<Rightarrow>
          (let (ret, hashes) = push_all room (HASH_KEYS U (rq_hashes rq)) hashes
           in if ret \<noteq> RC_OK then map_prod id Some (push_all room (HASH_KEYS U (rq_requested_hashes rq)) hashes)
              else (ret, Some hashes))
      | _ \<Rightarrow> (RC_NULL_PARAM, hashesp))"

definition requester_size :: "'t hash_set_ops \<Rightarrow> 't transaction_requester option \<Rightarrow> int" where
  "requester_size U rqp =
     (case rqp of
        None \<Rightarrow> RC_NULL_PARAM
      | Some rq \<Rightarrow> int (hash_set_size U (rq_hashes rq)) + int (hash_set_size U (rq_requested_hashes rq)))"

text \<open>For a NULL pointer the code \<open>RC_NULL_PARAM\<close> is converted to \<open>bool\<close>.\<close>

definition requester_is_full :: "'t hash_set_ops \<Rightarrow> 't transaction_requester option \<Rightarrow> bool" where
  "requester_is_full U rqp =
     (case rqp of None \<Rightarrow> RC_NULL_PARAM \<noteq> 0 | Some rq \<Rightarrow> hash_set_size U (rq_hashes rq) \<ge> rq_queue_size rq)"

definition requester_clear_request ::
  "'t hash_set_ops \<Rightarrow> 't transaction_requester option \<Rightarrow> flex_trit list option \<Rightarrow> retcode \<times> 't transaction_requester option"
where
  "requester_clear_request U rqp hashp =
     (case (rqp, hashp) of
        (Some rq, Some hash) \<Rightarrow>
          (let rq = rq\<lparr>rq_hashes := snd (hash_set_remove U (rq_hashes rq) hash)\<rparr>;
               rq = rq\<lparr>rq_requested_hashes := snd (hash_set_remove U (rq_requested_hashes rq) hash)\<rparr>
           in (RC_OK, Some rq))
      | _ \<Rightarrow> (RC_NULL_PARAM, rqp))"

definition requester_was_requested ::
  "'t hash_set_ops \<Rightarrow> 't transaction_requester option \<Rightarrow> flex_trit list option \<Rightarrow> bool option \<Rightarrow> retcode \<times> bool option"
where
  "requester_was_requested U rqp hashp was_requestedp =
     (case (rqp, hashp, was_requestedp) of
        (Some rq, Some hash, Some _) \<Rightarrow> (RC_OK, Some (hash_set_contains U (rq_requested_hashes rq) hash))
      | _ \<Rightarrow> (RC_NULL_PARAM, was_requestedp))"

definition request_transaction ::
  "'t hash_set_ops \<Rightarrow> flex_enc \<Rightarrow> (flex_trit list \<Rightarrow> retcode \<times> bool) \<Rightarrow> 't transaction_requester option \<Rightarrow> flex_trit list option
    \<Rightarrow> retcode \<times> 't transaction_requester option"
where
  "request_transaction U e exist rqp hashp =
     (case (rqp, hashp) of
        (Some rq, Some hash) \<Rightarrow>
          if flex_trits_are_null e (take (FLEX_TRIT_SIZE_243 e) hash) then (RC_OK, rqp)
          else let (ret, exists) = exist hash
               in if ret \<noteq> RC_OK then (ret, rqp)
                  else if exists then (RC_OK, rqp)
                  else let (ret, s) = (if hash_set_size U (rq_hashes rq) \<ge> rq_queue_size rq
                                       then hash_set_remove_entry U (rq_hashes rq) (set_head U (rq_hashes rq)) else (RC_OK, rq_hashes rq))
                       in if ret \<noteq> RC_OK then (ret, Some (rq\<lparr>rq_hashes := s\<rparr>))
                          else let (ret, s) = hash_set_add U s hash in (ret, Some (rq\<lparr>rq_hashes := s\<rparr>))
      | _ \<Rightarrow> (RC_NULL_PARAM, rqp))"

text \<open>The code of the addition to the requested hashes is ignored; an empty queue gives the null hash.\<close>

definition get_transaction_to_request ::
  "'t hash_set_ops \<Rightarrow> flex_enc \<Rightarrow> bool \<Rightarrow> 't transaction_requester option \<Rightarrow> flex_trit list option
    \<Rightarrow> retcode \<times> 't transaction_requester option \<times> flex_trit list option"
where
  "get_transaction_to_request U e tangle rqp hashp =
     (case (rqp, tangle, hashp) of
        (Some rq, True, Some _) \<Rightarrow>
          (case set_head U (rq_hashes rq) of
             Some head \<Rightarrow>
               (let rq = rq\<lparr>rq_hashes := snd (hash_set_remove_entry U (rq_hashes rq) (Some head))\<rparr>;
                    rq = rq\<lparr>rq_requested_hashes := snd (hash_set_add U (rq_requested_hashes rq) head)\<rparr>
                in (RC_OK, Some rq, Some head))
           | None \<Rightarrow> (RC_OK, Some rq, Some (replicate (FLEX_TRIT_SIZE_243 e) (FLEX_TRIT_NULL_VALUE e))))
      | _ \<Rightarrow> (RC_NULL_PARAM, rqp, hashp))"

section \<open>Runs\<close>

text \<open>The states of a requester; the answers of the tangle may change from step to step.\<close>

inductive requester_reachable :: "'t hash_set_ops \<Rightarrow> flex_enc \<Rightarrow> nat \<Rightarrow> 't transaction_requester \<Rightarrow> bool" for U e n where
  init: "requester_init U (Some rq) (Some n) = (ret, Some rq') \<Longrightarrow> requester_reachable U e n rq'"
| request: "requester_reachable U e n rq \<Longrightarrow> request_transaction U e exist (Some rq) (Some h) = (ret, Some rq') \<Longrightarrow> requester_reachable U e n rq'"
| get: "requester_reachable U e n rq \<Longrightarrow> get_transaction_to_request U e True (Some rq) (Some h) = (ret, Some rq', hp) \<Longrightarrow>
    requester_reachable U e n rq'"
| clear: "requester_reachable U e n rq \<Longrightarrow> requester_clear_request U (Some rq) (Some h) = (ret, Some rq') \<Longrightarrow> requester_reachable U e n rq'"

context tip_table
begin

lemma evict_add_keys:
  assumes "(if hash_set_size U s \<ge> cap then hash_set_remove_entry U s (set_head U s) else (RC_OK, s)) = (ret, s1)" "hash_set_add U s1 x = (r, s')"
  shows "ret = RC_OK" "r = RC_OK \<and> HASH_KEYS U s' = fifo_insert cap x (HASH_KEYS U s)
    \<or> r = RC_OOM \<and> HASH_KEYS U s' = (if cap \<le> length (HASH_KEYS U s) then tl (HASH_KEYS U s) else HASH_KEYS U s)"
proof -
  have "fst (hash_set_remove_entry U s (set_head U s)) = RC_OK" by (simp add: hash_set_remove_entry_def split: option.split)
  then show r: "ret = RC_OK" using assms(1) by (auto split: if_splits)
  have "tips_cache_fifo_add U (Some s) cap (Some x) = (r, Some s')" using assms r by (simp add: tips_cache_fifo_add_def)
  from fifo_add_keys [OF this] show "r = RC_OK \<and> HASH_KEYS U s' = fifo_insert cap x (HASH_KEYS U s)
    \<or> r = RC_OOM \<and> HASH_KEYS U s' = (if cap \<le> length (HASH_KEYS U s) then tl (HASH_KEYS U s) else HASH_KEYS U s)" by simp
qed

lemma remove_head_keys: "set_head U s = Some x \<Longrightarrow> HASH_KEYS U (snd (hash_set_remove_entry U s (Some x))) = tl (HASH_KEYS U s)"
  using del_head [of s x] by (auto simp: set_head_def hash_set_remove_entry_def keys_simps(5) split: list.splits)

end

text \<open>What a request does to the queue.\<close>

definition asked_for :: "flex_enc \<Rightarrow> (flex_trit list \<Rightarrow> retcode \<times> bool) \<Rightarrow> flex_trit list \<Rightarrow> bool" where
  "asked_for e exist h \<longleftrightarrow> \<not> flex_trits_are_null e (take (FLEX_TRIT_SIZE_243 e) h) \<and> exist h = (RC_OK, False)"

lemma request_keys:
  assumes "tip_table U" "request_transaction U e exist (Some rq) (Some h) = (ret, rqp)"
  shows "\<exists>s. rqp = Some (rq\<lparr>rq_hashes := s\<rparr>)
    \<and> (if asked_for e exist h then ret = RC_OK \<and> HASH_KEYS U s = fifo_insert (rq_queue_size rq) h (HASH_KEYS U (rq_hashes rq))
         \<or> ret = RC_OOM \<and> HASH_KEYS U s = (if rq_queue_size rq \<le> length (HASH_KEYS U (rq_hashes rq)) then tl (HASH_KEYS U (rq_hashes rq))
             else HASH_KEYS U (rq_hashes rq))
       else s = rq_hashes rq)"
proof (cases "asked_for e exist h")
  case False
  then have "rqp = Some (rq\<lparr>rq_hashes := rq_hashes rq\<rparr>)"
    using assms(2) by (cases "exist h") (auto simp: request_transaction_def asked_for_def split: if_splits)
  with False show ?thesis by auto
next
  case True
  obtain r1 s1 where e1: "(if hash_set_size U (rq_hashes rq) \<ge> rq_queue_size rq
      then hash_set_remove_entry U (rq_hashes rq) (set_head U (rq_hashes rq)) else (RC_OK, rq_hashes rq)) = (r1, s1)"
    by (cases "if hash_set_size U (rq_hashes rq) \<ge> rq_queue_size rq
      then hash_set_remove_entry U (rq_hashes rq) (set_head U (rq_hashes rq)) else (RC_OK, rq_hashes rq)")
  obtain r2 s2 where e2: "hash_set_add U s1 h = (r2, s2)" by (cases "hash_set_add U s1 h")
  note k = tip_table.evict_add_keys [OF assms(1) e1 e2]
  have "(ret, rqp) = (r2, Some (rq\<lparr>rq_hashes := s2\<rparr>))"
    using assms(2) True k(1) e1 e2 unfolding request_transaction_def asked_for_def by simp
  with k(2) True show ?thesis by auto
qed

lemma clear_keys:
  assumes "tip_table U" "requester_clear_request U (Some rq) (Some h) = (ret, rqp)"
  shows "\<exists>s s'. ret = RC_OK \<and> rqp = Some (rq\<lparr>rq_hashes := s, rq_requested_hashes := s'\<rparr>)
    \<and> HASH_KEYS U s = filter (\<lambda>x. x \<noteq> h) (HASH_KEYS U (rq_hashes rq))
    \<and> HASH_KEYS U s' = filter (\<lambda>x. x \<noteq> h) (HASH_KEYS U (rq_requested_hashes rq))"
proof -
  obtain s s' where "hash_set_remove U (rq_hashes rq) h = (RC_OK, s)" "hash_set_remove U (rq_requested_hashes rq) h = (RC_OK, s')"
    using tip_table.set_remove_ok [OF assms(1)] by metis
  with tip_table.set_remove_keys [OF assms(1)] assms(2) show ?thesis
    by (intro exI [of _ s] exI [of _ s']) (auto simp: requester_clear_request_def)
qed

lemma get_keys:
  assumes "tip_table U" "get_transaction_to_request U e True (Some rq) (Some h) = (ret, rqp, hp)"
  shows "\<exists>s s'. ret = RC_OK \<and> rqp = Some (rq\<lparr>rq_hashes := s, rq_requested_hashes := s'\<rparr>) \<and> HASH_KEYS U s = tl (HASH_KEYS U (rq_hashes rq))
    \<and> (case HASH_KEYS U (rq_hashes rq) of
         [] \<Rightarrow> hp = Some (replicate (FLEX_TRIT_SIZE_243 e) (FLEX_TRIT_NULL_VALUE e)) \<and> s' = rq_requested_hashes rq
       | x # _ \<Rightarrow> hp = Some x \<and> s' = snd (hash_set_add U (rq_requested_hashes rq) x))"
proof (cases "HASH_KEYS U (rq_hashes rq)")
  case Nil
  then have "set_head U (rq_hashes rq) = None" by (simp add: set_head_def)
  with assms(2) Nil show ?thesis by (auto simp: get_transaction_to_request_def intro!: exI [of _ "rq_hashes rq"])
next
  case (Cons x xs)
  then have x: "set_head U (rq_hashes rq) = Some x" by (simp add: set_head_def)
  with assms(2) Cons tip_table.remove_head_keys [OF assms(1) x] show ?thesis by (auto simp: get_transaction_to_request_def)
qed

lemma reachable_queue_bounded:
  "requester_reachable U e n rq \<Longrightarrow> tip_table U \<Longrightarrow> rq_queue_size rq = n \<and> length (HASH_KEYS U (rq_hashes rq)) \<le> max 1 n"
proof (induction rule: requester_reachable.induct)
  case (init rq ret rq')
  then show ?case using uthash_laws.keys_simps(1) [OF tip_table.axioms [OF init.prems]] by (auto simp: requester_init_def)
next
  case (request rq exist h ret rq')
  from request_keys [OF request.prems request.hyps(2)] request.IH [OF request.prems] fifo_insert_length
  show ?case by (fastforce split: if_splits)
next
  case (get rq h ret rq' hp)
  from get_keys [OF get.prems get.hyps(2)] get.IH [OF get.prems] show ?case by auto
next
  case (clear rq h ret rq')
  from clear_keys [OF clear.prems clear.hyps(2)] clear.IH [OF clear.prems] show ?case
    by (auto intro: le_trans [OF length_filter_le])
qed

section \<open>Properties\<close>

text \<open>
  C31. The requester is a bounded queue. In every reachable state at most as many hashes wait as the configured size (one, if it is zero). A hash
  that is not null and not in the tangle is queued, the oldest one being dropped from a full queue; other requests change nothing. The hash handed
  out is the oldest one and, memory permitting, is marked as requested; an empty queue gives the null hash. Clearing a hash removes it from both sets.
\<close>

theorem requester_is_bounded_fifo:
  assumes "tip_table U" "requester_reachable U e n rq" "\<And>t. HASH_ROOM U t"
  shows "hash_set_size U (rq_hashes rq) \<le> max 1 n
    \<and> (\<exists>rq'. request_transaction U e exist (Some rq) (Some h) = (if fst (exist h) \<noteq> RC_OK
            \<and> \<not> flex_trits_are_null e (take (FLEX_TRIT_SIZE_243 e) h) then fst (exist h) else RC_OK, Some rq')
        \<and> HASH_KEYS U (rq_hashes rq') = (if asked_for e exist h then fifo_insert n h (HASH_KEYS U (rq_hashes rq)) else HASH_KEYS U (rq_hashes rq)))
    \<and> (\<exists>rq' h'. get_transaction_to_request U e True (Some rq) (Some h) = (RC_OK, Some rq', Some h')
        \<and> HASH_KEYS U (rq_hashes rq') = tl (HASH_KEYS U (rq_hashes rq))
        \<and> (case HASH_KEYS U (rq_hashes rq) of [] \<Rightarrow> h' = replicate (FLEX_TRIT_SIZE_243 e) (FLEX_TRIT_NULL_VALUE e)
            | x # _ \<Rightarrow> h' = x \<and> requester_was_requested U (Some rq') (Some x) (Some b) = (RC_OK, Some True)))
    \<and> (\<exists>rq'. requester_clear_request U (Some rq) (Some h) = (RC_OK, Some rq')
        \<and> requester_was_requested U (Some rq') (Some h) (Some b) = (RC_OK, Some False) \<and> h \<notin> set (HASH_KEYS U (rq_hashes rq')))"
proof (intro conjI, goal_cases)
  case 1
  show ?case using reachable_queue_bounded [OF assms(2,1)] uthash_laws.keys_simps(5) [OF tip_table.axioms [OF assms(1)]]
    by (simp add: hash_set_size_def)
next
  case 2
  obtain ret rqp where r: "request_transaction U e exist (Some rq) (Some h) = (ret, rqp)" by (cases "request_transaction U e exist (Some rq) (Some h)")
  have ret: "ret = (if fst (exist h) \<noteq> RC_OK \<and> \<not> flex_trits_are_null e (take (FLEX_TRIT_SIZE_243 e) h) then fst (exist h) else RC_OK)"
    using r assms(3) by (cases "exist h") (auto simp: request_transaction_def hash_set_remove_entry_def hash_set_add_def split: if_splits option.splits)
  have "ret \<noteq> RC_OOM" if "asked_for e exist h" using ret that by (auto simp: asked_for_def)
  with request_keys [OF assms(1) r] reachable_queue_bounded [OF assms(2,1)] show ?case unfolding r ret by (auto split: if_splits)
next
  case 3
  obtain ret rqp hp where g: "get_transaction_to_request U e True (Some rq) (Some h) = (ret, rqp, hp)"
    by (cases "get_transaction_to_request U e True (Some rq) (Some h)")
  have "hash_set_contains U (snd (hash_set_add U s x)) x" for s x
    using assms(3) uthash_laws.find_add [OF tip_table.axioms [OF assms(1)], of s x "()" x]
    by (cases "HASH_FIND U s x") (auto simp: hash_set_add_def hash_set_contains_def)
  note added = this
  from get_keys [OF assms(1) g] obtain s s' where k: "ret = RC_OK" "rqp = Some (rq\<lparr>rq_hashes := s, rq_requested_hashes := s'\<rparr>)"
    "HASH_KEYS U s = tl (HASH_KEYS U (rq_hashes rq))" and c: "case HASH_KEYS U (rq_hashes rq) of
         [] \<Rightarrow> hp = Some (replicate (FLEX_TRIT_SIZE_243 e) (FLEX_TRIT_NULL_VALUE e)) \<and> s' = rq_requested_hashes rq
       | x # _ \<Rightarrow> hp = Some x \<and> s' = snd (hash_set_add U (rq_requested_hashes rq) x)" by blast
  show ?case
  proof (cases "HASH_KEYS U (rq_hashes rq)")
    case Nil
    with c k g show ?thesis by simp
  next
    case (Cons x xs)
    with c k g added show ?thesis by (simp add: requester_was_requested_def)
  qed
next
  case 4
  obtain ret rqp where c: "requester_clear_request U (Some rq) (Some h) = (ret, rqp)" by (cases "requester_clear_request U (Some rq) (Some h)")
  from clear_keys [OF assms(1) c] uthash_laws.find_none_iff [OF tip_table.axioms [OF assms(1)]] show ?case unfolding c
    by (auto simp: requester_was_requested_def hash_set_contains_def)
qed

theorem requester_is_bounded_fifo_witness:
  "\<exists>rq'. request_transaction (alist_uthash (\<lambda>_. True)) ENC1 (\<lambda>_. (RC_OK, False)) (Some \<lparr>rq_running = False, rq_queue_size = 2,
       rq_hashes = DAList.empty, rq_requested_hashes = DAList.empty\<rparr>) (Some [1]) = (RC_OK, Some rq')
     \<and> HASH_KEYS (alist_uthash (\<lambda>_. True)) (rq_hashes rq') = [[1]]"
proof -
  let ?U = "alist_uthash (\<lambda>_. True) :: (flex_trit list, unit) alist hash_set_ops"
  let ?rq = "\<lparr>rq_running = False, rq_queue_size = 2, rq_hashes = DAList.empty, rq_requested_hashes = DAList.empty\<rparr>"
  have r: "requester_reachable ?U ENC1 2 ?rq"
    by (rule requester_reachable.init [of _ ?rq]) (simp add: requester_init_def alist_uthash_def)
  have "asked_for ENC1 (\<lambda>_. (RC_OK, False)) [1]" "HASH_KEYS ?U DAList.empty = []" by (code_simp, simp add: alist_uthash_def DAList.empty.rep_eq HASH_KEYS_def)
  moreover have "HASH_ROOM ?U t" for t by (simp add: alist_uthash_def)
  ultimately show ?thesis
    using requester_is_bounded_fifo [OF alist_tips.tip_table_axioms r, of "\<lambda>_. (RC_OK, False)" "[1]"] by (auto simp: fifo_insert_def)
qed

text \<open>
  The list of requested transactions holds only the queued hashes: those already handed to a neighbour are left out, whatever they are, unless a push failed.
\<close>

lemma get_requested_omits_requested:
  assumes "tip_table U" "push_all room (HASH_KEYS U (rq_hashes rq)) hashes = (RC_OK, hashes')"
  shows "requester_get_requested_transactions U room (Some rq) (Some hashes) = (RC_OK, Some hashes')"
  using assms(2) by (simp add: requester_get_requested_transactions_def)

end
