(* ===== verification/Ptrit.thy ===== *)
theory Ptrit
  imports Prelude Trit_Add
begin

text \<open>
  \<open>common/trinary/ptrit.c\<close> and \<open>ptrit_incr.c\<close>: parallel trits. A \<open>ptrit_t\<close> holds one trit per bit position of two registers; position \<open>i\<close> of
  an array of them is the \<open>i\<close>-th slice, an array of trits. The register type depends on the platform (64 to 512 bits); the model takes a word of any
  length, in which the 64-bit access \<open>((uint64_t *)&p->low)[idx / 64]\<close> with the shift \<open>idx % 64\<close> is the access to bit \<open>idx\<close>. The two encodings of trits that
  the code selects when it is compiled are the argument of type \<open>ptrit_cvt\<close>.
\<close>

unbundle bit_operations_syntax

section \<open>Definitions\<close>

datatype ptrit_cvt = PTRIT_CVT_ANDN | PTRIT_CVT_ORN

text \<open>\<open>ptrit_s\<close> is the type of the registers.\<close>

record 'ptrit_s ptrit_t =
  low :: 'ptrit_s
  high :: 'ptrit_s

type_synonym 'w ptrit = "'w word ptrit_t"

abbreviation PTRIT_SIZE :: "'w::len itself \<Rightarrow> nat" where "PTRIT_SIZE _ \<equiv> LENGTH('w)"

definition NaT :: trit where "NaT = 2"

text \<open>The rows are selected by \<open>t & 3\<close>: 0, 1, NaT, -1.\<close>

definition cvt_te1_to_tep :: "ptrit_cvt \<Rightarrow> (nat \<times> nat) list" where
  "cvt_te1_to_tep cvt =
     (case cvt of PTRIT_CVT_ANDN \<Rightarrow> [(1, 1), (0, 1), (0, 0), (1, 0)] | PTRIT_CVT_ORN \<Rightarrow> [(0, 1), (1, 1), (1, 0), (0, 0)])"

definition cvt_tep_to_te1 :: "ptrit_cvt \<Rightarrow> trit list list" where
  "cvt_tep_to_te1 cvt =
     (case cvt of PTRIT_CVT_ANDN \<Rightarrow> [[NaT, 1], [- 1, 0]] | PTRIT_CVT_ORN \<Rightarrow> [[- 1, 0], [NaT, 1]])"

definition cvt_row :: "ptrit_cvt \<Rightarrow> trit \<Rightarrow> nat \<times> nat" where
  "cvt_row cvt t = cvt_te1_to_tep cvt ! nat (t AND 3)"

definition ptrit_fill :: "ptrit_cvt \<Rightarrow> trit \<Rightarrow> 'w::len ptrit" where
  "ptrit_fill cvt t = (let c = cvt_row cvt t in \<lparr>low = 0 - of_nat (fst c), high = 0 - of_nat (snd c)\<rparr>)"

definition ptrit_set :: "ptrit_cvt \<Rightarrow> 'w::len ptrit \<Rightarrow> nat \<Rightarrow> trit \<Rightarrow> 'w ptrit" where
  "ptrit_set cvt p idx t =
     (let c = cvt_row cvt t
      in p\<lparr>low := (low p AND NOT (push_bit idx 1)) OR push_bit idx (of_nat (fst c)),
           high := (high p AND NOT (push_bit idx 1)) OR push_bit idx (of_nat (snd c))\<rparr>)"

definition ptrit_get :: "ptrit_cvt \<Rightarrow> 'w::len ptrit \<Rightarrow> nat \<Rightarrow> trit" where
  "ptrit_get cvt p idx = cvt_tep_to_te1 cvt ! unat (1 AND drop_bit idx (low p)) ! unat (1 AND drop_bit idx (high p))"

text \<open>The functions on arrays: the cells they write.\<close>

definition ptrits_fill :: "ptrit_cvt \<Rightarrow> nat \<Rightarrow> trit list \<Rightarrow> 'w::len ptrit list" where
  "ptrits_fill cvt n src = map (ptrit_fill cvt) (take n src)"

definition ptrits_set_slice :: "ptrit_cvt \<Rightarrow> nat \<Rightarrow> 'w::len ptrit list \<Rightarrow> nat \<Rightarrow> trit list \<Rightarrow> 'w ptrit list" where
  "ptrits_set_slice cvt n dst idx src = map (\<lambda>(p, t). ptrit_set cvt p idx t) (zip (take n dst) src) @ drop n dst"

definition ptrits_get_slice :: "ptrit_cvt \<Rightarrow> nat \<Rightarrow> 'w::len ptrit list \<Rightarrow> nat \<Rightarrow> trit list" where
  "ptrits_get_slice cvt n src idx = map (\<lambda>p. ptrit_get cvt p idx) (take n src)"

text \<open>
  \<open>CTZ64\<close>, the number of the trailing zero bits of a 64-bit word that is not zero; and the loop over the 64-bit words of the register.
\<close>

definition CTZ64 :: "u64 \<Rightarrow> nat" where
  "CTZ64 x = length (takeWhile (\<lambda>k. \<not> bit x k) [0..<64])"

primrec find_word :: "'w::len word \<Rightarrow> nat \<Rightarrow> nat \<Rightarrow> nat" where
  "find_word t 0 w = 0"
| "find_word t (Suc n) w =
     (let x = (ucast (drop_bit (64 * w) t) :: u64) in if x = 0 then 64 + find_word t n (w + 1) else CTZ64 x)"

definition ptrits_find_zero_slice :: "ptrit_cvt \<Rightarrow> nat \<Rightarrow> 'w::len ptrit list \<Rightarrow> nat" where
  "ptrits_find_zero_slice cvt n p =
     (let t = (case cvt of
         PTRIT_CVT_ANDN \<Rightarrow> fold (\<lambda>p t. t AND (low p AND high p)) (take n p) (- 1)
       | PTRIT_CVT_ORN \<Rightarrow> NOT (fold (\<lambda>p t. t OR (NOT (high p) OR low p)) (take n p) 0))
      in find_word t (LENGTH('w) div 64) 0)"

definition ptrits_sum_slice :: "ptrit_cvt \<Rightarrow> nat \<Rightarrow> 'w::len ptrit list \<Rightarrow> nat \<Rightarrow> int" where
  "ptrits_sum_slice cvt n p idx = fold (\<lambda>p s. wrap64 (s + ptrit_get cvt p idx)) (take n p) 0"

text \<open>\<open>ptrit_incr.c\<close>.\<close>

fun trits_inc :: "trit list \<Rightarrow> trit list" where
  "trits_inc [] = []"
| "trits_inc (t # ts) = (if wrap8 (t + 1) = 2 then - 1 # trits_inc ts else wrap8 (t + 1) # ts)"

function log3_loop :: "nat \<Rightarrow> nat \<Rightarrow> nat \<Rightarrow> nat" where
  "log3_loop n k g = (if 0 < g \<and> g < n then log3_loop n (k + 1) (g * 3) else k)"
  by pat_completeness auto
termination
  by (relation "measure (\<lambda>(n, k, g). n - g)") auto

declare log3_loop.simps [simp del]

definition ptrit_log3 :: "nat \<Rightarrow> nat" where
  "ptrit_log3 n = log3_loop n 0 1"

text \<open>The loop over the slices \<open>i, ..., i + k - 1\<close>; the value is counted up in place.\<close>

primrec set_iota_loop :: "ptrit_cvt \<Rightarrow> nat \<Rightarrow> nat \<Rightarrow> nat \<Rightarrow> 'w::len ptrit list \<Rightarrow> trit list \<Rightarrow> 'w ptrit list \<times> trit list" where
  "set_iota_loop cvt n i 0 rng val = (rng, val)"
| "set_iota_loop cvt n i (Suc k) rng val =
     set_iota_loop cvt n (i + 1) k (ptrits_set_slice cvt n rng i val) (trits_inc (take n val) @ drop n val)"

definition ptrit_set_iota :: "ptrit_cvt \<Rightarrow> nat \<Rightarrow> 'w::len ptrit list \<Rightarrow> trit list \<Rightarrow> 'w ptrit list \<times> trit list" where
  "ptrit_set_iota cvt n rng val = set_iota_loop cvt n 0 (LENGTH('w)) rng val"

text \<open>Only the first byte of the carry is inspected.\<close>

fun ptrit_hincr :: "ptrit_cvt \<Rightarrow> 'w::len ptrit list \<Rightarrow> bool \<times> 'w ptrit list" where
  "ptrit_hincr cvt [] = (True, [])"
| "ptrit_hincr cvt (t # ts) =
     (let a = low t;
          l = low t XOR high t;
          (h, c) = (case cvt of PTRIT_CVT_ANDN \<Rightarrow> (a, NOT a AND l) | PTRIT_CVT_ORN \<Rightarrow> (NOT a, a AND high t));
          t = \<lparr>low = l, high = h\<rparr>
      in if take_bit 8 c = 0 then (False, t # ts)
         else let (r, ts) = ptrit_hincr cvt ts in (r, t # ts))"

section \<open>Slices\<close>

text \<open>The trit in a bit position, by cases on the two bits.\<close>

definition trit_bits :: "ptrit_cvt \<Rightarrow> trit \<Rightarrow> bool \<times> bool" where
  "trit_bits cvt t = (case cvt of PTRIT_CVT_ANDN \<Rightarrow> (t \<le> 0, 0 \<le> t) | PTRIT_CVT_ORN \<Rightarrow> (0 < t, 0 \<le> t))"

lemma unat_1_and: "unat (1 AND drop_bit k w) = (if bit w k then 1 else 0)" for w :: "'w::len word"
  by (simp add: one_and_eq mod_2_eq_odd bit_iff_odd_drop_bit)

lemma ptrit_get_bits:
  "ptrit_get cvt p i = (case cvt of
     PTRIT_CVT_ANDN \<Rightarrow> if bit (low p) i then (if bit (high p) i then 0 else - 1) else (if bit (high p) i then 1 else NaT)
   | PTRIT_CVT_ORN \<Rightarrow> if bit (low p) i then (if bit (high p) i then 1 else NaT) else (if bit (high p) i then 0 else - 1))"
  unfolding ptrit_get_def unat_1_and by (simp add: cvt_tep_to_te1_def split: ptrit_cvt.split)

lemma ptrit_get_trit: "is_trit t \<Longrightarrow> ptrit_get cvt p i = t \<longleftrightarrow> (bit (low p) i, bit (high p) i) = trit_bits cvt t"
  by (cases cvt; cases "bit (low p) i"; cases "bit (high p) i") (auto simp: ptrit_get_bits trit_bits_def NaT_def is_trit_def)

lemma cvt_row_bits: "is_trit t \<Longrightarrow> cvt_row cvt t = (of_bool (fst (trit_bits cvt t)), of_bool (snd (trit_bits cvt t)))"
  unfolding is_trit_cases by (cases cvt) (auto simp: cvt_row_def cvt_te1_to_tep_def trit_bits_def)

lemma ptrit_get_fill: "is_trit t \<Longrightarrow> i < LENGTH('w) \<Longrightarrow> ptrit_get cvt (ptrit_fill cvt t :: 'w::len ptrit) i = t"
  by (simp add: ptrit_get_trit) (auto simp: ptrit_fill_def cvt_row_bits bit_simps prod_eq_iff)

lemma ptrit_get_set:
  assumes "i < LENGTH('w)" "j < LENGTH('w)" "is_trit t"
  shows "ptrit_get cvt (ptrit_set cvt (p :: 'w::len ptrit) i t) j = (if j = i then t else ptrit_get cvt p j)"
proof (cases "j = i")
  case True
  with assms show ?thesis by (simp add: ptrit_get_trit) (auto simp: ptrit_set_def cvt_row_bits bit_simps prod_eq_iff)
next
  case False
  with assms show ?thesis by (auto simp: ptrit_get_bits ptrit_set_def cvt_row_bits bit_simps Let_def split: ptrit_cvt.split)
qed

text \<open>The slice of a whole array, and arrays without a NaT.\<close>

abbreviation pslice :: "ptrit_cvt \<Rightarrow> 'w::len ptrit list \<Rightarrow> nat \<Rightarrow> trit list" where
  "pslice cvt ps i \<equiv> map (\<lambda>p. ptrit_get cvt p i) ps"

definition ptrits_ok :: "ptrit_cvt \<Rightarrow> 'w::len ptrit list \<Rightarrow> bool" where
  "ptrits_ok cvt ps \<longleftrightarrow> (\<forall>i < LENGTH('w). valid_trits (pslice cvt ps i))"

lemma ptrits_okD: "ptrits_ok cvt (ps :: 'w::len ptrit list) \<Longrightarrow> i < LENGTH('w) \<Longrightarrow> p \<in> set ps \<Longrightarrow> is_trit (ptrit_get cvt p i)"
  by (auto simp: ptrits_ok_def list_all_iff)

lemma ptrits_ok_append [simp]: "ptrits_ok cvt (xs @ ys) \<longleftrightarrow> ptrits_ok cvt xs \<and> ptrits_ok cvt ys"
  by (auto simp: ptrits_ok_def)

lemma ptrits_ok_subset: "ptrits_ok cvt xs \<Longrightarrow> set ys \<subseteq> set xs \<Longrightarrow> ptrits_ok cvt ys"
  by (auto simp: ptrits_ok_def list_all_iff)

lemma ptrits_fill_slice: "valid_trits ts \<Longrightarrow> i < LENGTH('w) \<Longrightarrow> pslice cvt (map (ptrit_fill cvt) ts :: 'w::len ptrit list) i = ts"
  by (induction ts) (simp_all add: ptrit_get_fill)

lemma ptrits_fill_ok: "valid_trits ts \<Longrightarrow> ptrits_ok cvt (map (ptrit_fill cvt) ts :: 'w::len ptrit list)"
  unfolding ptrits_ok_def by (auto simp only: ptrits_fill_slice)

lemma ptrits_set_slice_length [simp]: "n \<le> length src \<Longrightarrow> length (ptrits_set_slice cvt n dst i src) = length dst"
  by (simp add: ptrits_set_slice_def)

lemma ptrits_set_slice_pslice:
  assumes "i < LENGTH('w)" "j < LENGTH('w)" "valid_trits src" "length src = n" "n \<le> length dst"
  shows "pslice cvt (ptrits_set_slice cvt n (dst :: 'w::len ptrit list) i src) j
    = (if j = i then src @ drop n (pslice cvt dst j) else pslice cvt dst j)"
proof (rule nth_equalityI)
  show "length (pslice cvt (ptrits_set_slice cvt n dst i src) j) = length (if j = i then src @ drop n (pslice cvt dst j) else pslice cvt dst j)"
    using assms(4,5) by simp
  fix k assume "k < length (pslice cvt (ptrits_set_slice cvt n dst i src) j)"
  then have k: "k < length dst" using assms(4) by simp
  show "pslice cvt (ptrits_set_slice cvt n dst i src) j ! k = (if j = i then src @ drop n (pslice cvt dst j) else pslice cvt dst j) ! k"
  proof (cases "k < n")
    case True
    then have "is_trit (src ! k)" using assms(3,4) by (simp add: list_all_length)
    with True k assms show ?thesis by (simp add: ptrits_set_slice_def nth_append ptrit_get_set)
  next
    case False
    with k assms(4,5) show ?thesis by (simp add: ptrits_set_slice_def nth_append)
  qed
qed

section \<open>Searching and adding up a slice\<close>

lemma CTZ64_props:
  assumes "x \<noteq> 0"
  shows "CTZ64 x < 64" "bit x (CTZ64 x)" "k < CTZ64 x \<Longrightarrow> \<not> bit x k"
proof -
  let ?P = "\<lambda>k. \<not> bit x k"
  from assms obtain m where "bit x m" "m < 64" by (auto simp: bit_eq_iff)
  then have "\<exists>k \<in> set [0..<64]. \<not> ?P k" by auto
  then have l: "length (takeWhile ?P [0..<64]) < 64"
    by (metis diff_zero length_takeWhile_le length_upt linorder_le_less_linear order_antisym takeWhile_eq_all_conv takeWhile_eq_take take_all_iff)
  then show "CTZ64 x < 64" by (simp add: CTZ64_def)
  from nth_length_takeWhile [of ?P "[0..<64]"] l show "bit x (CTZ64 x)" by (simp add: CTZ64_def)
  assume "k < CTZ64 x"
  then have k: "k < length (takeWhile ?P [0..<64])" by (simp add: CTZ64_def)
  from takeWhile_nth [OF k] l k have "takeWhile ?P [0..<64] ! k = k" by simp
  moreover note nth_mem [OF k]
  ultimately show "\<not> bit x k" by (metis set_takeWhileD)
qed

lemma find_word_correct:
  "64 * (w + n) \<le> LENGTH('w) \<Longrightarrow> find_word (t :: 'w::len word) n w \<le> 64 * n
    \<and> (\<forall>k < find_word t n w. \<not> bit t (64 * w + k)) \<and> (find_word t n w < 64 * n \<longrightarrow> bit t (64 * w + find_word t n w))"
proof (induction n arbitrary: w)
  case (Suc n)
  let ?x = "ucast (drop_bit (64 * w) t) :: u64"
  have b: "bit ?x k \<longleftrightarrow> k < 64 \<and> bit t (64 * w + k)" for k using Suc.prems by (auto simp: bit_simps dest: bit_imp_le_length)
  show ?case
  proof (cases "?x = 0")
    case True
    then have z: "\<not> bit t (64 * w + k)" if "k < 64" for k using b [of k] that by auto
    have "\<not> bit t (64 * w + k)" if "k < 64 + find_word t n (w + 1)" for k
    proof (cases "k < 64")
      case False
      then have "k - 64 < find_word t n (w + 1)" using that by simp
      with Suc.IH [of "w + 1"] Suc.prems have "\<not> bit t (64 * (w + 1) + (k - 64))" by simp
      with False show ?thesis by simp
    qed (use z in simp)
    with True Suc.IH [of "w + 1"] Suc.prems show ?thesis by (auto simp: Let_def algebra_simps)
  next
    case False
    with CTZ64_props [OF False] b show ?thesis by (auto simp: Let_def)
  qed
qed simp

definition zero_word :: "ptrit_cvt \<Rightarrow> 'w::len ptrit list \<Rightarrow> 'w word" where
  "zero_word cvt ps = (case cvt of
         PTRIT_CVT_ANDN \<Rightarrow> fold (\<lambda>p t. t AND (low p AND high p)) ps (- 1)
       | PTRIT_CVT_ORN \<Rightarrow> NOT (fold (\<lambda>p t. t OR (NOT (high p) OR low p)) ps 0))"

lemma zero_word_bits: "i < LENGTH('w) \<Longrightarrow> bit (zero_word cvt (ps :: 'w::len ptrit list)) i \<longleftrightarrow> (\<forall>p \<in> set ps. ptrit_get cvt p i = 0)"
proof -
  assume i: "i < LENGTH('w)"
  have "bit (fold (\<lambda>p t. t AND (low p AND high p)) ps x) i \<longleftrightarrow> bit x i \<and> (\<forall>p \<in> set ps. bit (low p) i \<and> bit (high p) i)" for x
    by (induction ps arbitrary: x) (auto simp: bit_simps)
  moreover have "bit (fold (\<lambda>p t. t OR (NOT (high p) OR low p)) ps x) i \<longleftrightarrow> bit x i \<or> (\<exists>p \<in> set ps. \<not> bit (high p) i \<or> bit (low p) i)" for x
    using i by (induction ps arbitrary: x) (auto simp: bit_simps)
  ultimately show ?thesis using i by (cases cvt) (auto simp: zero_word_def ptrit_get_bits bit_simps NaT_def)
qed

lemma ptrits_find_zero_slice_correct:
  assumes "64 dvd LENGTH('w)" "r = ptrits_find_zero_slice cvt n (ps :: 'w::len ptrit list)"
  shows "r \<le> LENGTH('w)" "r < LENGTH('w) \<Longrightarrow> pslice cvt (take n ps) r = replicate (min n (length ps)) 0"
    "i < r \<Longrightarrow> pslice cvt (take n ps) i \<noteq> replicate (min n (length ps)) 0"
proof -
  have l: "64 * (LENGTH('w) div 64) = LENGTH('w)" using assms(1) by simp
  have "r = find_word (zero_word cvt (take n ps)) (LENGTH('w) div 64) 0"
    unfolding assms(2) ptrits_find_zero_slice_def zero_word_def Let_def by (cases cvt) simp_all
  note r = find_word_correct [of 0 "LENGTH('w) div 64" "zero_word cvt (take n ps)", folded this, unfolded add_0 l, OF order_refl]
  have z: "bit (zero_word cvt (take n ps)) i \<longleftrightarrow> pslice cvt (take n ps) i = replicate (min n (length ps)) 0" if "i < LENGTH('w)" for i
    using zero_word_bits [OF that, of cvt "take n ps"] by (simp add: list_eq_iff_nth_eq all_set_conv_all_nth min.commute)
  show "r \<le> LENGTH('w)" using r by simp
  show "pslice cvt (take n ps) r = replicate (min n (length ps)) 0" if "r < LENGTH('w)" using r z that by simp
  show "pslice cvt (take n ps) i \<noteq> replicate (min n (length ps)) 0" if "i < r" using r z [of i] that by simp
qed

lemma ptrits_sum_slice_correct:
  assumes "ptrits_ok cvt (ps :: 'w::len ptrit list)" "i < LENGTH('w)" "length ps < 2 ^ 62"
  shows "ptrits_sum_slice cvt n ps i = sum_list (take n (pslice cvt ps i))"
proof -
  have "fold (\<lambda>p s. wrap64 (s + ptrit_get cvt p i)) qs a = a + sum_list (pslice cvt qs i)"
    if "\<bar>a\<bar> + int (length qs) < 2 ^ 62" "\<forall>p \<in> set qs. is_trit (ptrit_get cvt p i)" for a qs
    using that
  proof (induction qs arbitrary: a)
    case (Cons q qs)
    have t: "\<bar>ptrit_get cvt q i\<bar> \<le> 1" using Cons.prems by (auto simp: is_trit_def)
    then have w: "wrap64 (a + ptrit_get cvt q i) = a + ptrit_get cvt q i" using Cons.prems(1) by (intro wrap64_id) auto
    have "\<bar>a + ptrit_get cvt q i\<bar> + int (length qs) < 2 ^ 62" using t Cons.prems(1) by simp
    from Cons.IH [OF this] Cons.prems(2) w show ?case by simp
  qed simp
  moreover have "\<forall>p \<in> set (take n ps). is_trit (ptrit_get cvt p i)" using ptrits_okD [OF assms(1,2)] by (auto dest: in_set_takeD)
  moreover have "\<bar>0\<bar> + int (length (take n ps)) < 2 ^ 62" using assms(3) by simp
  ultimately have "fold (\<lambda>p s. wrap64 (s + ptrit_get cvt p i)) (take n ps) 0 = 0 + sum_list (pslice cvt (take n ps) i)" by blast
  then show ?thesis by (simp add: ptrits_sum_slice_def take_map)
qed

section \<open>Counting\<close>

lemma trits_inc_length [simp]: "length (trits_inc ts) = length ts"
  by (induction ts rule: trits_inc.induct) auto

lemma trits_inc_step: "is_trit t \<Longrightarrow> wrap8 (t + 1) = t + 1"
  by (rule wrap8_id) (auto simp: is_trit_def)

lemma trits_inc_valid: "valid_trits ts \<Longrightarrow> valid_trits (trits_inc ts)"
  by (induction ts rule: trits_inc.induct) (auto simp: trits_inc_step is_trit_def)

text \<open>The increment adds one; from the largest number it goes to the smallest one.\<close>

lemma trits_inc_value:
  "valid_trits ts \<Longrightarrow> bt_value (trits_inc ts) = (if list_all (\<lambda>t. t = 1) ts then bt_value ts + 1 - 3 ^ length ts else bt_value ts + 1)"
proof (induction ts rule: trits_inc.induct)
  case (2 t ts)
  then show ?case by (auto simp: trits_inc_step)
qed simp

lemma list_all_ones_value: "valid_trits ts \<Longrightarrow> list_all (\<lambda>t. t = 1) ts \<longleftrightarrow> 2 * bt_value ts + 1 = 3 ^ length ts"
proof (induction ts)
  case (Cons t ts)
  then have b: "2 * \<bar>bt_value ts\<bar> < 3 ^ length ts" by (intro bt_value_bound) simp
  show ?case
  proof
    assume "list_all (\<lambda>t. t = 1) (t # ts)"
    with Cons show "2 * bt_value (t # ts) + 1 = 3 ^ length (t # ts)" by simp
  next
    assume e: "2 * bt_value (t # ts) + 1 = 3 ^ length (t # ts)"
    have "t = 1"
    proof (rule ccontr)
      assume "t \<noteq> 1"
      then have "t \<le> 0" using Cons.prems by (auto simp: is_trit_def)
      with e b show False by simp
    qed
    with e Cons show "list_all (\<lambda>t. t = 1) (t # ts)" by simp
  qed
qed simp

lemma ptrit_fill_bits: "is_trit t \<Longrightarrow> ptrit_fill cvt t = \<lparr>low = (if fst (trit_bits cvt t) then - 1 else 0), high = (if snd (trit_bits cvt t) then - 1 else 0)\<rparr>"
  by (simp add: ptrit_fill_def cvt_row_bits)

lemma take_bit_8_ones: "8 \<le> LENGTH('w) \<Longrightarrow> take_bit 8 (- 1 :: 'w::len word) \<noteq> 0"
  by (auto simp: bit_eq_iff bit_simps intro!: exI [of _ 0])

text \<open>On an array whose slices are all the same, the parallel increment is the increment of the slice.\<close>

lemma ptrit_hincr_fill:
  assumes "8 \<le> LENGTH('w)" "valid_trits ts"
  shows "ptrit_hincr cvt (map (ptrit_fill cvt) ts :: 'w::len ptrit list) = (list_all (\<lambda>t. t = 1) ts, map (ptrit_fill cvt) (trits_inc ts))"
  using assms(2)
proof (induction ts)
  case (Cons t ts)
  have t: "t = - 1 \<or> t = 0 \<or> t = 1" using Cons.prems by (simp add: is_trit_cases)
  have v: "is_trit t" "is_trit (- 1)" "is_trit 0" "is_trit 1" using Cons.prems by simp_all
  note f = ptrit_fill_bits [OF v(1)] ptrit_fill_bits [OF v(2)] ptrit_fill_bits [OF v(3)] ptrit_fill_bits [OF v(4)]
  have w: "wrap8 (t + 1) = t + 1" using Cons.prems by (simp add: trits_inc_step)
  from Cons take_bit_8_ones [OF assms(1)] show ?case
    by (cases cvt; insert t w; elim disjE) (simp_all add: f trit_bits_def Let_def wrap_simps)
qed simp

lemma set_iota_loop_slices:
  assumes "length val = n" "n \<le> length rng" "i + k \<le> LENGTH('w)" "valid_trits val"
  shows "length (fst (set_iota_loop cvt n i k (rng :: 'w::len ptrit list) val)) = length rng
    \<and> snd (set_iota_loop cvt n i k rng val) = (trits_inc ^^ k) val
    \<and> (\<forall>j < LENGTH('w). pslice cvt (fst (set_iota_loop cvt n i k rng val)) j
        = (if i \<le> j \<and> j < i + k then (trits_inc ^^ (j - i)) val @ drop n (pslice cvt rng j) else pslice cvt rng j))"
  using assms
proof (induction k arbitrary: i rng val)
  case (Suc k)
  let ?rng = "ptrits_set_slice cvt n rng i val"
  have l: "length (trits_inc val) = n" "n \<le> length ?rng" "i + 1 + k \<le> LENGTH('w)" "valid_trits (trits_inc val)"
    using Suc.prems by (simp_all add: trits_inc_valid)
  have s: "pslice cvt ?rng j = (if j = i then val @ drop n (pslice cvt rng j) else pslice cvt rng j)" if "j < LENGTH('w)" for j
    using ptrits_set_slice_pslice [OF _ that, of i val n rng] Suc.prems by simp
  have e: "set_iota_loop cvt n i (Suc k) rng val = set_iota_loop cvt n (i + 1) k ?rng (trits_inc val)" using Suc.prems(1) by simp
  have p: "(trits_inc ^^ (j - i)) val = (trits_inc ^^ (j - (i + 1))) (trits_inc val)" if "i < j" for j
    using that by (metis Suc_diff_Suc Suc_eq_plus1 comp_apply funpow_Suc_right)
  have "pslice cvt (fst (set_iota_loop cvt n (i + 1) k ?rng (trits_inc val))) j
      = (if i \<le> j \<and> j < i + Suc k then (trits_inc ^^ (j - i)) val @ drop n (pslice cvt rng j) else pslice cvt rng j)" if j: "j < LENGTH('w)" for j
  proof (cases "j = i")
    case True
    with Suc.IH [OF l] s [OF j] j show ?thesis by simp
  next
    case False
    with Suc.IH [OF l] s [OF j] j p [of j] show ?thesis by auto
  qed
  with Suc.IH [OF l] Suc.prems(1) show ?case unfolding e by (auto simp: funpow_swap1)
qed auto

lemma ptrit_set_iota_slices:
  assumes "length val = n" "n \<le> length rng" "valid_trits val"
  shows "length (fst (ptrit_set_iota cvt n (rng :: 'w::len ptrit list) val)) = length rng"
    "snd (ptrit_set_iota cvt n rng val) = (trits_inc ^^ LENGTH('w)) val"
    "i < LENGTH('w) \<Longrightarrow> pslice cvt (fst (ptrit_set_iota cvt n rng val)) i = (trits_inc ^^ i) val @ drop n (pslice cvt rng i)"
  using set_iota_loop_slices [OF assms(1,2) _ assms(3), of 0 "LENGTH('w)"] by (simp_all add: ptrit_set_iota_def)

lemma trits_inc_funpow: "valid_trits ts \<Longrightarrow> valid_trits ((trits_inc ^^ k) ts) \<and> length ((trits_inc ^^ k) ts) = length ts"
  by (induction k) (auto simp: trits_inc_valid)

text \<open>A counter that is longer than the range keeps its other trits.\<close>

lemma ptrits_set_slice_take: "ptrits_set_slice cvt n dst i (take n src) = ptrits_set_slice cvt n dst i src"
proof -
  have "zip (take n dst) (take n src) = zip (take n dst) src" by (rule nth_equalityI) auto
  then show ?thesis by (simp add: ptrits_set_slice_def)
qed

lemma set_iota_loop_longer:
  "n \<le> length val \<Longrightarrow> set_iota_loop cvt n i k rng val =
     (fst (set_iota_loop cvt n i k rng (take n val)), snd (set_iota_loop cvt n i k rng (take n val)) @ drop n val)"
proof (induction k arbitrary: i rng val)
  case (Suc k)
  have "take n (trits_inc (take n val) @ drop n val) = trits_inc (take n val)" "drop n (trits_inc (take n val) @ drop n val) = drop n val"
    using Suc.prems by simp_all
  with Suc.IH [of "trits_inc (take n val) @ drop n val"] Suc.prems show ?case by (simp add: ptrits_set_slice_take)
qed simp

lemma set_iota_loop_drop:
  "length val = n \<Longrightarrow> n \<le> length rng \<Longrightarrow> drop n (fst (set_iota_loop cvt n i k rng val)) = drop n rng"
proof (induction k arbitrary: i rng val)
  case (Suc k)
  then show ?case using Suc.IH [of "trits_inc val" "ptrits_set_slice cvt n rng i val" "i + 1"] by (simp add: ptrits_set_slice_def)
qed simp

lemma ptrit_set_iota_longer:
  assumes "n \<le> length val" "n \<le> length rng" "valid_trits (take n val)"
  shows "length (fst (ptrit_set_iota cvt n (rng :: 'w::len ptrit list) val)) = length rng"
    "snd (ptrit_set_iota cvt n rng val) = (trits_inc ^^ LENGTH('w)) (take n val) @ drop n val"
    "i < LENGTH('w) \<Longrightarrow> pslice cvt (fst (ptrit_set_iota cvt n rng val)) i = (trits_inc ^^ i) (take n val) @ drop n (pslice cvt rng i)"
    "drop n (fst (ptrit_set_iota cvt n rng val)) = drop n rng"
proof -
  have l: "length (take n val) = n" using assms(1) by simp
  have e: "fst (ptrit_set_iota cvt n rng val) = fst (ptrit_set_iota cvt n rng (take n val))"
      "snd (ptrit_set_iota cvt n rng val) = snd (ptrit_set_iota cvt n rng (take n val)) @ drop n val"
    unfolding ptrit_set_iota_def by (simp_all add: set_iota_loop_longer [OF assms(1)])
  note s = ptrit_set_iota_slices [OF l assms(2,3), where cvt = cvt]
  show "length (fst (ptrit_set_iota cvt n rng val)) = length rng"
    "snd (ptrit_set_iota cvt n rng val) = (trits_inc ^^ LENGTH('w)) (take n val) @ drop n val"
    "i < LENGTH('w) \<Longrightarrow> pslice cvt (fst (ptrit_set_iota cvt n rng val)) i = (trits_inc ^^ i) (take n val) @ drop n (pslice cvt rng i)"
    unfolding e using s by simp_all
  show "drop n (fst (ptrit_set_iota cvt n rng val)) = drop n rng"
    unfolding e using set_iota_loop_drop [OF l assms(2)] by (simp add: ptrit_set_iota_def)
qed

end
