(* ===== verification/Pcurl.thy ===== *)
theory Pcurl
  imports Prelude Curl Ptrit
begin

text \<open>
  \<open>common/crypto/curl-p/ptrit.c\<close>: Curl-P on parallel trits. The code has two layouts of the state, selected when it is compiled: two full
  buffers that change roles (\<open>PCURL_STATE_DOUBLE\<close>), or three half buffers in which three rounds are computed with a permuted layout in between
  (\<open>PCURL_STATE_SHORT\<close>, the default). Both are shown to compute, in every slice, the transformation of the scalar code.
\<close>

unbundle bit_operations_syntax

section \<open>Definitions\<close>

datatype pcurl_state = PCURL_STATE_DOUBLE | PCURL_STATE_SHORT

text \<open>The state array has \<open>2 * 729\<close> or \<open>3 * 365\<close> cells.\<close>

record 'p pcurl_t =
  pstate :: "'p list"
  round_count :: nat

type_synonym 'w pcurl = "'w ptrit pcurl_t"

definition CURL_RATE :: nat where "CURL_RATE = 243"

definition CURL_STATE_SIZE :: nat where "CURL_STATE_SIZE = 3 * CURL_RATE"

definition CURL_STATE_HALF_SIZE :: nat where "CURL_STATE_HALF_SIZE = (CURL_STATE_SIZE + 1) div 2"

definition pcurl_s2 :: "ptrit_cvt \<Rightarrow> 'w::len ptrit \<Rightarrow> 'w ptrit \<Rightarrow> 'w ptrit" where
  "pcurl_s2 cvt a b =
     (case cvt of
        PTRIT_CVT_ORN \<Rightarrow> let l = high a XOR (NOT (low b) OR low a) in \<lparr>low = l, high = low a XOR (NOT (high b) OR l)\<rparr>
      | PTRIT_CVT_ANDN \<Rightarrow> let l = high a XOR (NOT (low b) AND low a) in \<lparr>low = l, high = low a XOR (high b AND l)\<rparr>)"

text \<open>
  The body of the loop of \<open>pcurl_sbox\<close>, on the output and the pointers \<open>x\<close> and \<open>y\<close>. The unwound variants repeat the body two or four times in
  one iteration.
\<close>

definition sbox_body :: "ptrit_cvt \<Rightarrow> 'w::len ptrit list \<Rightarrow> 'w ptrit list \<times> nat \<times> nat \<Rightarrow> 'w ptrit list \<times> nat \<times> nat" where
  "sbox_body cvt s = (\<lambda>(c, x, y).
     let c = c @ [pcurl_s2 cvt (s ! y) (s ! x)]; y = y - 1;
         c = c @ [pcurl_s2 cvt (s ! x) (s ! y)]; x = x - 1
     in (c, x, y))"

definition unwound :: "nat \<Rightarrow> nat \<Rightarrow> ('a \<Rightarrow> 'a) \<Rightarrow> 'a \<Rightarrow> 'a" where
  "unwound u n body = ((body ^^ (u div 2)) ^^ (n div u))"

definition pcurl_sbox :: "ptrit_cvt \<Rightarrow> nat \<Rightarrow> 'w::len ptrit list \<Rightarrow> 'w ptrit list" where
  "pcurl_sbox cvt u s =
     (let c = [pcurl_s2 cvt (s ! 0) (s ! (CURL_STATE_HALF_SIZE - 1))]
      in fst (unwound u CURL_STATE_SIZE (sbox_body cvt s) (c, CURL_STATE_SIZE - 1, CURL_STATE_HALF_SIZE - 1)))"

text \<open>
  The short layout. The loops run over three arrays; \<open>pa\<close>, \<open>pb\<close>, \<open>pc\<close> are the positions of the pointers and \<open>aa\<close>, \<open>cc\<close>, \<open>bb\<close> those of the second ones.
  A loop of the code is unwound two or four times; a body is two of the calls.
\<close>

definition sbox_0_first :: "ptrit_cvt \<Rightarrow> 'w::len ptrit list \<Rightarrow> 'w ptrit list
    \<Rightarrow> 'w ptrit list \<times> nat \<times> nat \<times> nat \<Rightarrow> 'w ptrit list \<times> nat \<times> nat \<times> nat" where
  "sbox_0_first cvt a b = (\<lambda>(c, pa, pb, pc).
     let c = c[pc := pcurl_s2 cvt (a ! pa) (b ! pb)]; pa = pa - 1; pc = pc + 1;
         c = c[pc := pcurl_s2 cvt (b ! pb) (a ! pa)]; pb = pb - 1; pc = pc + 1
     in (c, pa, pb, pc))"

definition sbox_0_second :: "ptrit_cvt \<Rightarrow> 'w::len ptrit list
    \<Rightarrow> 'w ptrit list \<times> nat \<times> nat \<times> nat \<Rightarrow> 'w ptrit list \<times> nat \<times> nat \<times> nat" where
  "sbox_0_second cvt b = (\<lambda>(a, pa, pb, aa).
     let a = a[aa := pcurl_s2 cvt (a ! pa) (b ! pb)]; pa = pa - 1; aa = aa - 1;
         a = a[aa := pcurl_s2 cvt (b ! pb) (a ! pa)]; pb = pb - 1; aa = aa - 1
     in (a, pa, pb, aa))"

definition pcurl_sbox_0 :: "ptrit_cvt \<Rightarrow> nat \<Rightarrow> 'w::len ptrit list \<times> 'w ptrit list \<times> 'w ptrit list
    \<Rightarrow> 'w ptrit list \<times> 'w ptrit list \<times> 'w ptrit list" where
  "pcurl_sbox_0 cvt u = (\<lambda>(a, b, c).
     let pa = CURL_STATE_HALF_SIZE - 1; pb = CURL_STATE_HALF_SIZE - 1; pc = 0; aa = pa; c0 = pc;
         c = c[pc := pcurl_s2 cvt (b ! pb) (a ! pa)]; pb = pb - 1; pc = pc + 1;
         (c, pa, pb, pc) = unwound u (CURL_STATE_SIZE div 2) (sbox_0_first cvt a b) (c, pa, pb, pc);
         (a, pa, pb, aa) = unwound u (CURL_STATE_SIZE div 2) (sbox_0_second cvt b) (a, pa, pb, aa)
     in (a[aa := c ! c0], b, c))"

definition sbox_1_first :: "ptrit_cvt \<Rightarrow> 'w::len ptrit list \<Rightarrow> 'w ptrit list
    \<Rightarrow> 'w ptrit list \<times> nat \<times> nat \<times> nat \<Rightarrow> 'w ptrit list \<times> nat \<times> nat \<times> nat" where
  "sbox_1_first cvt a c = (\<lambda>(b, pa, pb, pc).
     let b = b[pb := pcurl_s2 cvt (c ! pc) (a ! pa)]; pc = pc - 1; pb = pb - 1;
         b = b[pb := pcurl_s2 cvt (a ! pa) (c ! pc)]; pa = pa + 1; pb = pb - 1
     in (b, pa, pb, pc))"

definition sbox_1_second :: "ptrit_cvt \<Rightarrow> 'w::len ptrit list
    \<Rightarrow> 'w ptrit list \<times> nat \<times> nat \<times> nat \<Rightarrow> 'w ptrit list \<times> nat \<times> nat \<times> nat" where
  "sbox_1_second cvt a = (\<lambda>(c, pa, pc, cc).
     let c = c[cc := pcurl_s2 cvt (c ! pc) (a ! pa)]; pc = pc - 1; cc = cc - 1;
         c = c[cc := pcurl_s2 cvt (a ! pa) (c ! pc)]; pa = pa + 1; cc = cc - 1
     in (c, pa, pc, cc))"

definition pcurl_sbox_1 :: "ptrit_cvt \<Rightarrow> nat \<Rightarrow> 'w::len ptrit list \<times> 'w ptrit list \<times> 'w ptrit list
    \<Rightarrow> 'w ptrit list \<times> 'w ptrit list \<times> 'w ptrit list" where
  "pcurl_sbox_1 cvt u = (\<lambda>(a, b, c).
     let pc = CURL_STATE_HALF_SIZE - 1; pa = 0; pb = CURL_STATE_HALF_SIZE - 1; cc = pc; b0 = pb;
         b = b[pb := pcurl_s2 cvt (a ! pa) (c ! pc)]; pa = pa + 1; pb = pb - 1;
         (b, pa, pb, pc) = unwound u (CURL_STATE_SIZE div 2) (sbox_1_first cvt a c) (b, pa, pb, pc);
         (c, pa, pc, cc) = unwound u (CURL_STATE_SIZE div 2) (sbox_1_second cvt a) (c, pa, pc, cc)
     in (a, b, c[cc := b ! b0]))"

definition sbox_2_first :: "ptrit_cvt \<Rightarrow> 'w::len ptrit list \<Rightarrow> 'w ptrit list
    \<Rightarrow> 'w ptrit list \<times> nat \<times> nat \<times> nat \<Rightarrow> 'w ptrit list \<times> nat \<times> nat \<times> nat" where
  "sbox_2_first cvt b c = (\<lambda>(a, pa, pb, pc).
     let a = a[pa := pcurl_s2 cvt (b ! pb) (c ! pc)]; pb = pb + 1; pa = pa + 1;
         a = a[pa := pcurl_s2 cvt (c ! pc) (b ! pb)]; pc = pc + 1; pa = pa + 1
     in (a, pa, pb, pc))"

definition sbox_2_second :: "ptrit_cvt \<Rightarrow> 'w::len ptrit list
    \<Rightarrow> 'w ptrit list \<times> nat \<times> nat \<times> nat \<Rightarrow> 'w ptrit list \<times> nat \<times> nat \<times> nat" where
  "sbox_2_second cvt c = (\<lambda>(b, pb, pc, bb).
     let b = b[bb := pcurl_s2 cvt (b ! pb) (c ! pc)]; pb = pb + 1; bb = bb + 1;
         b = b[bb := pcurl_s2 cvt (c ! pc) (b ! pb)]; pc = pc + 1; bb = bb + 1
     in (b, pb, pc, bb))"

definition pcurl_sbox_2 :: "ptrit_cvt \<Rightarrow> nat \<Rightarrow> 'w::len ptrit list \<times> 'w ptrit list \<times> 'w ptrit list
    \<Rightarrow> 'w ptrit list \<times> 'w ptrit list \<times> 'w ptrit list" where
  "pcurl_sbox_2 cvt u = (\<lambda>(a, b, c).
     let pb = 0; pc = 0; pa = 0; bb = pb; a0 = pa;
         a = a[pa := pcurl_s2 cvt (c ! pc) (b ! pb)]; pc = pc + 1; pa = pa + 1;
         (a, pa, pb, pc) = unwound u (CURL_STATE_SIZE div 2) (sbox_2_first cvt b c) (a, pa, pb, pc);
         (b, pb, pc, bb) = unwound u (CURL_STATE_SIZE div 2) (sbox_2_second cvt c) (b, pb, pc, bb)
     in (a, b[bb := a ! a0], c))"

text \<open>
  The transformations. In the short layout \<open>a\<close>, \<open>b\<close>, \<open>c\<close> are the thirds of the array and the cell of index 729 repeats the first one.
\<close>

definition split_state :: "'a list \<Rightarrow> 'a list \<times> 'a list \<times> 'a list" where
  "split_state s = (take CURL_STATE_HALF_SIZE s, slice CURL_STATE_HALF_SIZE CURL_STATE_HALF_SIZE s,
     slice (2 * CURL_STATE_HALF_SIZE) CURL_STATE_HALF_SIZE s)"

definition pcurl_transform_short :: "ptrit_cvt \<Rightarrow> nat \<Rightarrow> 'w::len pcurl \<Rightarrow> 'w pcurl" where
  "pcurl_transform_short cvt u ctx =
     (let (a, b, c) = split_state (pstate ctx);
          b = b[CURL_STATE_HALF_SIZE - 1 := a ! 0];
          (a, b, c) = ((pcurl_sbox_2 cvt u \<circ> pcurl_sbox_1 cvt u \<circ> pcurl_sbox_0 cvt u) ^^ (round_count ctx div 3)) (a, b, c)
      in ctx\<lparr>pstate := a @ b @ c\<rparr>)"

text \<open>One round of the other layout: \<open>(a, c)\<close> are the buffers in their current roles.\<close>

definition double_round :: "ptrit_cvt \<Rightarrow> nat \<Rightarrow> 'w::len ptrit list \<times> 'w ptrit list \<Rightarrow> 'w ptrit list \<times> 'w ptrit list" where
  "double_round cvt u = (\<lambda>(a, c). (pcurl_sbox cvt u a, a))"

definition pcurl_transform_double :: "ptrit_cvt \<Rightarrow> nat \<Rightarrow> 'w::len pcurl \<Rightarrow> 'w pcurl" where
  "pcurl_transform_double cvt u ctx =
     (let (a, c) = (double_round cvt u ^^ round_count ctx) (take CURL_STATE_SIZE (pstate ctx), drop CURL_STATE_SIZE (pstate ctx))
      in ctx\<lparr>pstate := if odd (round_count ctx) then a @ a else a @ c\<rparr>)"

record pcurl_conf =
  pcvt :: ptrit_cvt
  play :: pcurl_state
  unwind :: nat

definition pcurl_transform :: "pcurl_conf \<Rightarrow> 'w::len pcurl \<Rightarrow> 'w pcurl" where
  "pcurl_transform cf ctx =
     (case play cf of
        PCURL_STATE_SHORT \<Rightarrow> pcurl_transform_short (pcvt cf) (unwind cf) ctx
      | PCURL_STATE_DOUBLE \<Rightarrow> pcurl_transform_double (pcvt cf) (unwind cf) ctx)"

definition pstate_cells :: "pcurl_conf \<Rightarrow> nat" where
  "pstate_cells cf = (case play cf of PCURL_STATE_SHORT \<Rightarrow> 3 * CURL_STATE_HALF_SIZE | PCURL_STATE_DOUBLE \<Rightarrow> 2 * CURL_STATE_SIZE)"

definition pcurl_reset :: "pcurl_conf \<Rightarrow> 'w::len pcurl \<Rightarrow> 'w pcurl" where
  "pcurl_reset cf ctx =
     ctx\<lparr>pstate := replicate (pstate_cells cf)
       (case pcvt cf of PTRIT_CVT_ANDN \<Rightarrow> \<lparr>low = - 1, high = - 1\<rparr> | PTRIT_CVT_ORN \<Rightarrow> \<lparr>low = 0, high = - 1\<rparr>)\<rparr>"

definition pcurl_init :: "pcurl_conf \<Rightarrow> 'w::len pcurl \<Rightarrow> nat \<Rightarrow> 'w pcurl" where
  "pcurl_init cf ctx rounds = (pcurl_reset cf ctx)\<lparr>round_count := rounds\<rparr>"

text \<open>The loop over the full blocks and the block that may be left.\<close>

primrec pcurl_absorb_loop :: "pcurl_conf \<Rightarrow> nat \<Rightarrow> 'w::len pcurl \<Rightarrow> 'w ptrit list \<Rightarrow> 'w pcurl \<times> 'w ptrit list" where
  "pcurl_absorb_loop cf 0 ctx ptrits = (ctx, ptrits)"
| "pcurl_absorb_loop cf (Suc n) ctx ptrits =
     pcurl_absorb_loop cf n (pcurl_transform cf (ctx\<lparr>pstate := blit (pstate ctx) 0 (take CURL_RATE ptrits)\<rparr>)) (drop CURL_RATE ptrits)"

definition pcurl_absorb :: "pcurl_conf \<Rightarrow> 'w::len pcurl \<Rightarrow> 'w ptrit list \<Rightarrow> 'w pcurl" where
  "pcurl_absorb cf ctx ptrits =
     (let (ctx, rest) = pcurl_absorb_loop cf (length ptrits div CURL_RATE) ctx ptrits
      in if 0 < length ptrits mod CURL_RATE
         then pcurl_transform cf (ctx\<lparr>pstate := blit (pstate ctx) 0 (take (length ptrits mod CURL_RATE) rest)\<rparr>) else ctx)"

primrec pcurl_squeeze_loop :: "pcurl_conf \<Rightarrow> nat \<Rightarrow> 'w::len pcurl \<Rightarrow> 'w pcurl \<times> 'w ptrit list" where
  "pcurl_squeeze_loop cf 0 ctx = (ctx, [])"
| "pcurl_squeeze_loop cf (Suc n) ctx =
     (let out = take CURL_RATE (pstate ctx); (ctx, rest) = pcurl_squeeze_loop cf n (pcurl_transform cf ctx) in (ctx, out @ rest))"

definition pcurl_squeeze :: "pcurl_conf \<Rightarrow> 'w::len pcurl \<Rightarrow> nat \<Rightarrow> 'w pcurl \<times> 'w ptrit list" where
  "pcurl_squeeze cf ctx len =
     (let (ctx, out) = pcurl_squeeze_loop cf (len div CURL_RATE) ctx
      in if 0 < len mod CURL_RATE then (pcurl_transform cf ctx, out @ take (len mod CURL_RATE) (pstate ctx)) else (ctx, out))"

definition pcurl_get_hash :: "pcurl_conf \<Rightarrow> 'w::len pcurl \<Rightarrow> 'w pcurl \<times> 'w ptrit list" where
  "pcurl_get_hash cf ctx = (pcurl_reset cf ctx, take CURL_RATE (pstate ctx))"

definition pcurl_hash_data :: "pcurl_conf \<Rightarrow> 'w::len pcurl \<Rightarrow> 'w ptrit list \<Rightarrow> 'w pcurl \<times> 'w ptrit list" where
  "pcurl_hash_data cf ctx dat = pcurl_get_hash cf (pcurl_absorb cf (pcurl_reset cf ctx) dat)"

definition ptrit_curl_init :: "pcurl_conf \<Rightarrow> 'w::len pcurl \<Rightarrow> nat \<Rightarrow> 'w pcurl" where
  "ptrit_curl_init cf ctx t = pcurl_init cf ctx t"

definition ptrit_curl_absorb :: "pcurl_conf \<Rightarrow> 'w::len pcurl \<Rightarrow> 'w ptrit list \<Rightarrow> 'w pcurl" where
  "ptrit_curl_absorb cf ctx trits = pcurl_absorb cf ctx trits"

definition ptrit_curl_squeeze :: "pcurl_conf \<Rightarrow> 'w::len pcurl \<Rightarrow> nat \<Rightarrow> 'w pcurl \<times> 'w ptrit list" where
  "ptrit_curl_squeeze cf ctx len = pcurl_squeeze cf ctx len"

definition ptrit_transform :: "pcurl_conf \<Rightarrow> 'w::len pcurl \<Rightarrow> 'w pcurl" where
  "ptrit_transform cf ctx = pcurl_transform cf ctx"

definition ptrit_curl_reset :: "pcurl_conf \<Rightarrow> 'w::len pcurl \<Rightarrow> 'w pcurl" where
  "ptrit_curl_reset cf ctx = pcurl_reset cf ctx"

section \<open>The round on parallel trits\<close>

lemma pcurl_sizes [simp]: "CURL_RATE = 243" "CURL_STATE_SIZE = 729" "CURL_STATE_HALF_SIZE = 365"
  by (simp_all add: CURL_RATE_def CURL_STATE_SIZE_def CURL_STATE_HALF_SIZE_def)

definition pround :: "ptrit_cvt \<Rightarrow> 'w::len ptrit list \<Rightarrow> 'w ptrit list" where
  "pround cvt s = map (\<lambda>i. pcurl_s2 cvt (s ! (364 * i mod 729)) (s ! (364 * (i + 1) mod 729))) [0..<729]"

lemma pround_length [simp]: "length (pround cvt s) = 729"
  by (simp add: pround_def)

text \<open>In a slice without NaT, the gates compute the substitution of the scalar code.\<close>

lemma s2_table:
  "list_all (\<lambda>cvt. list_all (\<lambda>a. list_all (\<lambda>b.
     let (al, ah) = trit_bits cvt a; (bl, bh) = trit_bits cvt b in
     (case cvt of PTRIT_CVT_ORN \<Rightarrow> (let l = (ah \<noteq> (\<not> bl \<or> al)) in (l, al \<noteq> (\<not> bh \<or> l)))
      | PTRIT_CVT_ANDN \<Rightarrow> (let l = (ah \<noteq> (\<not> bl \<and> al)) in (l, al \<noteq> (bh \<and> l)))) = trit_bits cvt (balance (a * (1 + b * b) - b - 1)))
   [- 1, 0, 1]) [- 1, 0, 1]) [PTRIT_CVT_ANDN, PTRIT_CVT_ORN]"
  by code_simp

lemma pcurl_s2_slice:
  assumes "i < LENGTH('w)" "is_trit (ptrit_get cvt a i)" "is_trit (ptrit_get cvt b i)"
  shows "ptrit_get cvt (pcurl_s2 cvt (a :: 'w::len ptrit) b) i
    = (let x = ptrit_get cvt a i; y = ptrit_get cvt b i in balance (x * (1 + y * y) - y - 1))"
proof -
  let ?x = "ptrit_get cvt a i" and ?y = "ptrit_get cvt b i"
  have x: "trit_bits cvt ?x = (bit (low a) i, bit (high a) i)" and y: "trit_bits cvt ?y = (bit (low b) i, bit (high b) i)"
    using ptrit_get_trit [OF assms(2), of cvt a i] ptrit_get_trit [OF assms(3), of cvt b i] by simp_all
  have t: "trit_bits cvt (balance (?x * (1 + ?y * ?y) - ?y - 1)) = (case cvt of
        PTRIT_CVT_ORN \<Rightarrow> (let l = (bit (high a) i \<noteq> (\<not> bit (low b) i \<or> bit (low a) i)) in (l, bit (low a) i \<noteq> (\<not> bit (high b) i \<or> l)))
      | PTRIT_CVT_ANDN \<Rightarrow> (let l = (bit (high a) i \<noteq> (\<not> bit (low b) i \<and> bit (low a) i)) in (l, bit (low a) i \<noteq> (bit (high b) i \<and> l))))"
    using s2_table assms(2,3) x y unfolding is_trit_cases by (cases cvt) auto
  show ?thesis unfolding Let_def using assms(1)
    by (subst ptrit_get_trit [OF balance_trit]) (auto simp: t pcurl_s2_def Let_def bit_simps split: ptrit_cvt.split)
qed

lemma pround_slice:
  assumes "ptrits_ok cvt (s :: 'w::len ptrit list)" "length s = 729" "i < LENGTH('w)"
  shows "pslice cvt (pround cvt s) i = curl_round (pslice cvt s i)"
proof (rule nth_equalityI)
  fix j assume "j < length (pslice cvt (pround cvt s) i)"
  then have j: "j < 729" by simp
  have m: "364 * j mod 729 < 729" "364 * (j + 1) mod 729 < 729" by simp_all
  then have "s ! (364 * j mod 729) \<in> set s" "s ! (364 * (j + 1) mod 729) \<in> set s" using assms(2) by (simp_all del: mod_mod_trivial)
  with j m assms show "pslice cvt (pround cvt s) i ! j = curl_round (pslice cvt s i) ! j"
    by (simp add: pround_def curl_round_def pcurl_s2_slice ptrits_okD Let_def)
qed simp

lemma pround_ok: "ptrits_ok cvt s \<Longrightarrow> length s = 729 \<Longrightarrow> ptrits_ok cvt (pround cvt s)"
  unfolding ptrits_ok_def using pround_slice [unfolded ptrits_ok_def] by (metis curl_round_valid)

lemma prounds_slice:
  assumes "ptrits_ok cvt (s :: 'w::len ptrit list)" "length s = 729"
  shows "length ((pround cvt ^^ n) s) = 729 \<and> ptrits_ok cvt ((pround cvt ^^ n) s)
    \<and> (\<forall>i < LENGTH('w). pslice cvt ((pround cvt ^^ n) s) i = (curl_round ^^ n) (pslice cvt s i))"
  by (induction n) (use assms in \<open>simp_all add: pround_ok pround_slice\<close>)

section \<open>The two layouts\<close>

lemma index_odd: "k \<le> 364 \<Longrightarrow> 364 * (2 * k + 1) mod 729 = 364 - (k::nat)"
proof -
  assume "k \<le> 364"
  then have "364 * (2 * k + 1) = (364 - k) + k * 729" by simp
  then have "364 * (2 * k + 1) mod 729 = (364 - k) mod 729" by (metis mod_mult_self1)
  then show ?thesis by simp
qed

lemma index_even: "0 < k \<Longrightarrow> k \<le> 729 \<Longrightarrow> 364 * (2 * k) mod 729 = 729 - (k::nat)"
proof -
  assume k: "0 < k" "k \<le> 729"
  then have "364 * (2 * k) = (729 - k) + (k - 1) * 729" by (cases k) auto
  then have "364 * (2 * k) mod 729 = (729 - k) mod 729" by (metis mod_mult_self1)
  with k show ?thesis by simp
qed

text \<open>
  A round reads the cells of even and of odd number in turn, both from the end to the beginning: the \<open>k\<close>-th one of each kind is \<open>even_cell s k\<close>
  and \<open>odd_cell s k\<close>.
\<close>

definition even_cell :: "'a list \<Rightarrow> nat \<Rightarrow> 'a" where
  "even_cell s k = (if k = 0 then s ! 0 else s ! (729 - k))"

definition odd_cell :: "'a list \<Rightarrow> nat \<Rightarrow> 'a" where
  "odd_cell s k = s ! (364 - k)"

lemma pround_even: "k \<le> 364 \<Longrightarrow> pround cvt s ! (2 * k) = pcurl_s2 cvt (even_cell s k) (odd_cell s k)"
  using index_odd [of k] index_even [of k] by (cases "k = 0") (simp_all add: pround_def even_cell_def odd_cell_def)

lemma pround_odd: "k < 364 \<Longrightarrow> pround cvt s ! (2 * k + 1) = pcurl_s2 cvt (odd_cell s k) (even_cell s (k + 1))"
  using index_odd [of k] index_even [of "k + 1"] by (simp add: pround_def even_cell_def odd_cell_def)

lemma unwound_eq:
  "u \<in> {2, 4, 8} \<Longrightarrow> unwound u 729 body = body ^^ 364" "u \<in> {2, 4} \<Longrightarrow> unwound u (729 div 2) body = body ^^ 182"
  by (auto simp: unwound_def funpow_mult)

lemma sbox_body_loop:
  assumes "n \<le> 364" "length s = 729"
  shows "(sbox_body cvt s ^^ n) ([pround cvt s ! 0], 728, 364) = (take (2 * n + 1) (pround cvt s), 728 - n, 364 - n)"
  using assms(1)
proof (induction n)
  case (Suc n)
  have "s ! (364 - n) = odd_cell s n" "s ! (728 - n) = even_cell s (n + 1)" "s ! (364 - Suc n) = odd_cell s (n + 1)"
    by (simp_all add: odd_cell_def even_cell_def)
  then have b: "pcurl_s2 cvt (s ! (364 - n)) (s ! (728 - n)) = pround cvt s ! (2 * n + 1)"
      "pcurl_s2 cvt (s ! (728 - n)) (s ! (364 - Suc n)) = pround cvt s ! (2 * n + 2)"
    using pround_odd [of n cvt s] pround_even [of "n + 1" cvt s] Suc.prems by simp_all
  have "take (2 * Suc n + 1) (pround cvt s) = take (2 * n + 1) (pround cvt s) @ [pround cvt s ! (2 * n + 1), pround cvt s ! (2 * n + 2)]"
    using Suc.prems by (simp add: take_Suc_conv_app_nth)
  with Suc b show ?case by (simp add: sbox_body_def)
qed (simp add: take_Suc_conv_app_nth)

lemma pcurl_sbox_round: "u \<in> {2, 4, 8} \<Longrightarrow> length s = 729 \<Longrightarrow> pcurl_sbox cvt u s = pround cvt s"
  using sbox_body_loop [of 364 s cvt] pround_even [of 0 cvt s]
  by (simp add: pcurl_sbox_def unwound_eq even_cell_def odd_cell_def)

lemma transform_double:
  assumes "u \<in> {2, 4, 8}" "length (pstate ctx) = 2 * 729"
  shows "\<exists>r. pcurl_transform_double cvt u ctx = ctx\<lparr>pstate := (pround cvt ^^ round_count ctx) (take 729 (pstate ctx)) @ r\<rparr> \<and> length r = 729"
proof -
  have "\<exists>c. (double_round cvt u ^^ n) (a, c0) = ((pround cvt ^^ n) a, c) \<and> length c = 729 \<and> length ((pround cvt ^^ n) a) = 729"
    if "length a = 729" "length c0 = 729" for n a c0
    using that by (induction n) (auto simp: double_round_def pcurl_sbox_round [OF assms(1)])
  from this [of "take 729 (pstate ctx)" "drop 729 (pstate ctx)" "round_count ctx"] assms(2) obtain c where
    "(double_round cvt u ^^ round_count ctx) (take 729 (pstate ctx), drop 729 (pstate ctx)) = ((pround cvt ^^ round_count ctx) (take 729 (pstate ctx)), c)"
    "length c = 729" "length ((pround cvt ^^ round_count ctx) (take 729 (pstate ctx))) = 729" by auto
  then show ?thesis unfolding pcurl_transform_double_def by (cases "odd (round_count ctx)") auto
qed

text \<open>
  A loop of the short layout writes, in iteration \<open>n\<close>, the values of number \<open>2 * n + 1\<close> and \<open>2 * n + 2\<close> at the cells \<open>w (2 * n + 1)\<close> and \<open>w (2 * n + 2)\<close>
  of an array of which it still reads cells that are not overwritten yet.
\<close>

lemma pair_loop:
  assumes "\<And>n arr. n < N \<Longrightarrow> length arr = 365 \<Longrightarrow> (\<And>j. j < 365 \<Longrightarrow> j \<notin> w ` {1..2 * n} \<Longrightarrow> arr ! j = a ! j) \<Longrightarrow>
      body (arr, st n) = (arr[w (2 * n + 1) := v (2 * n + 1), w (2 * n + 2) := v (2 * n + 2)], st (n + 1))"
    and "inj_on w {1..2 * N}" "\<And>i. i \<in> {1..2 * N} \<Longrightarrow> w i < 365" "length a = 365"
  shows "\<exists>arr. (body ^^ N) (a, st 0) = (arr, st N) \<and> length arr = 365
    \<and> (\<forall>i \<in> {1..2 * N}. arr ! w i = v i) \<and> (\<forall>j < 365. j \<notin> w ` {1..2 * N} \<longrightarrow> arr ! j = a ! j)"
  using assms(1-3)
proof (induction N)
  case (Suc N)
  have "inj_on w {1..2 * N}" using Suc.prems(2) by (rule inj_on_subset) auto
  then obtain arr where arr: "(body ^^ N) (a, st 0) = (arr, st N)" "length arr = 365"
      "\<And>i. i \<in> {1..2 * N} \<Longrightarrow> arr ! w i = v i" "\<And>j. j < 365 \<Longrightarrow> j \<notin> w ` {1..2 * N} \<Longrightarrow> arr ! j = a ! j"
    using Suc.IH Suc.prems by fastforce
  let ?x = "2 * N + 1" and ?y = "2 * N + 2"
  let ?arr = "arr[w ?x := v ?x, w ?y := v ?y]"
  have e: "{1..2 * Suc N} = insert ?y (insert ?x {1..2 * N})" by auto
  have d: "w ?x \<noteq> w ?y" "w ?x \<notin> w ` {1..2 * N}" "w ?y \<notin> w ` {1..2 * N}"
    using Suc.prems(2) unfolding e by (auto simp: inj_on_def)
  have l: "w ?x < 365" "w ?y < 365" using Suc.prems(3) by simp_all
  have "(body ^^ Suc N) (a, st 0) = (?arr, st (Suc N))" using arr Suc.prems(1) [of N arr] by simp
  moreover have "?arr ! w i = v i" if "i \<in> {1..2 * Suc N}" for i
  proof (cases "i \<in> {1..2 * N}")
    case True
    then have "w i \<noteq> w ?x" "w i \<noteq> w ?y" using d(2,3) by (metis imageI)+
    with True arr(3) show ?thesis by simp
  next
    case False
    then have "i = ?x \<or> i = ?y" using that by auto
    with d(1) l arr(2) show ?thesis by auto
  qed
  moreover have "?arr ! j = a ! j" if "j < 365" "j \<notin> w ` {1..2 * Suc N}" for j
    using that arr(4) [of j] unfolding e by auto
  ultimately show ?case using arr(2) by auto
qed (use assms(4) in auto)

text \<open>The layouts between the rounds, for a state \<open>s\<close>.\<close>

definition layout_0 :: "'a list \<Rightarrow> 'a list \<Rightarrow> 'a list \<Rightarrow> bool" where
  "layout_0 s a b \<longleftrightarrow> length a = 365 \<and> length b = 365 \<and> (\<forall>k \<le> 364. b ! (364 - k) = even_cell s k \<and> a ! (364 - k) = odd_cell s k)"

definition layout_1 :: "'a list \<Rightarrow> 'a list \<Rightarrow> 'a list \<Rightarrow> bool" where
  "layout_1 s a c \<longleftrightarrow> length a = 365 \<and> length c = 365 \<and> (\<forall>k \<le> 364. a ! k = even_cell s k \<and> c ! (364 - k) = odd_cell s k)"

definition layout_2 :: "'a list \<Rightarrow> 'a list \<Rightarrow> 'a list \<Rightarrow> bool" where
  "layout_2 s b c \<longleftrightarrow> length b = 365 \<and> length c = 365 \<and> (\<forall>k \<le> 364. c ! k = even_cell s k \<and> b ! k = odd_cell s k)"

lemma cell_range: "k \<noteq> 0 \<Longrightarrow> k \<le> 364 \<Longrightarrow> 365 - k \<in> {1..(364::nat)}"
  by auto

lemma pcurl_sbox_0_correct:
  assumes "layout_0 s a b" "length c = 365" "u \<in> {2, 4}"
  shows "\<exists>a' c'. pcurl_sbox_0 cvt u (a, b, c) = (a', b, c') \<and> layout_1 (pround cvt s) a' c'"
proof -
  let ?t = "\<lambda>i. pround cvt s ! i"
  have L: "length a = 365" "length b = 365" and b: "b ! j = even_cell s (364 - j)" and a: "a ! j = odd_cell s (364 - j)" if "j \<le> 364" for j
    using assms(1) that unfolding layout_0_def by (metis diff_diff_cancel diff_le_self)+
  let ?c = "c[0 := ?t 0]"
  have "\<exists>arr. (sbox_0_first cvt a b ^^ 182) (?c, (\<lambda>n. (364 - n, 363 - n, 1 + 2 * n)) 0) = (arr, (\<lambda>n. (364 - n, 363 - n, 1 + 2 * n)) 182) \<and> length arr = 365
    \<and> (\<forall>i \<in> {1..2 * 182}. arr ! (\<lambda>i. i) i = ?t i) \<and> (\<forall>j < 365. j \<notin> (\<lambda>i. i) ` {1..2 * 182} \<longrightarrow> arr ! j = ?c ! j)"
  proof (rule pair_loop)
    fix n arr assume n: "n < (182::nat)"
    show "sbox_0_first cvt a b (arr, 364 - n, 363 - n, 1 + 2 * n)
        = (arr[2 * n + 1 := ?t (2 * n + 1), 2 * n + 2 := ?t (2 * n + 2)], 364 - (n + 1), 363 - (n + 1), 1 + 2 * (n + 1))"
      using n pround_odd [of n cvt s] pround_even [of "n + 1" cvt s] by (simp add: sbox_0_first_def a b)
  qed (use assms(2) in auto)
  then obtain c' where c': "(sbox_0_first cvt a b ^^ 182) (?c, 364, 363, 1) = (c', 182, 181, 365)" "length c' = 365"
      "\<And>i. i \<in> {1..364} \<Longrightarrow> c' ! i = ?t i" "c' ! 0 = ?t 0"
    using assms(2) by auto
  have "\<exists>arr. (sbox_0_second cvt b ^^ 182) (a, (\<lambda>n. (182 - n, 181 - n, 364 - 2 * n)) 0) = (arr, (\<lambda>n. (182 - n, 181 - n, 364 - 2 * n)) 182) \<and> length arr = 365
    \<and> (\<forall>i \<in> {1..2 * 182}. arr ! (\<lambda>i. 365 - i) i = (\<lambda>i. ?t (364 + i)) i) \<and> (\<forall>j < 365. j \<notin> (\<lambda>i. 365 - i) ` {1..2 * 182} \<longrightarrow> arr ! j = a ! j)"
  proof (rule pair_loop)
    fix n arr
    assume n: "n < (182::nat)" and keep: "\<And>j. j < 365 \<Longrightarrow> j \<notin> (\<lambda>i. 365 - i) ` {1..2 * n} \<Longrightarrow> arr ! j = a ! j"
    have k: "arr ! (182 - n) = a ! (182 - n)" "arr ! (181 - n) = a ! (181 - n)" using n by (auto intro!: keep)
    show "sbox_0_second cvt b (arr, 182 - n, 181 - n, 364 - 2 * n)
        = (arr[365 - (2 * n + 1) := ?t (364 + (2 * n + 1)), 365 - (2 * n + 2) := ?t (364 + (2 * n + 2))], 182 - (n + 1), 181 - (n + 1), 364 - 2 * (n + 1))"
      using n k pround_odd [of "182 + n" cvt s] pround_even [of "183 + n" cvt s] by (simp add: sbox_0_second_def a b)
  qed (use L in \<open>auto simp: inj_on_def\<close>)
  then obtain a' where a': "(sbox_0_second cvt b ^^ 182) (a, 182, 181, 364) = (a', 0, 0, 0)" "length a' = 365"
      "\<And>i. i \<in> {1..364} \<Longrightarrow> a' ! (365 - i) = ?t (364 + i)" by auto
  have "?t 0 = pcurl_s2 cvt (b ! 364) (a ! 364)" using pround_even [of 0 cvt s] by (simp add: a b)
  then have r: "pcurl_sbox_0 cvt u (a, b, c) = (a'[0 := c' ! 0], b, c')"
    using c'(1) a'(1) by (simp add: pcurl_sbox_0_def unwound_eq(2) [OF assms(3), simplified])
  have "a'[0 := ?t 0] ! k = even_cell (pround cvt s) k" if "k \<le> 364" for k
    using a'(3) [OF cell_range, of k] a'(2) that by (cases "k = 0") (simp_all add: even_cell_def)
  moreover have "c' ! (364 - k) = odd_cell (pround cvt s) k" if "k \<le> 364" for k
    using c'(3) [of "364 - k"] c'(4) that by (cases "k = 364") (simp_all add: odd_cell_def)
  ultimately show ?thesis using r c'(2,4) a'(2) by (auto simp: layout_1_def)
qed

lemma pcurl_sbox_1_correct:
  assumes "layout_1 s a c" "length b = 365" "u \<in> {2, 4}"
  shows "\<exists>b' c'. pcurl_sbox_1 cvt u (a, b, c) = (a, b', c') \<and> layout_2 (pround cvt s) b' c'"
proof -
  let ?t = "\<lambda>i. pround cvt s ! i"
  have L: "length a = 365" "length c = 365" and a: "\<And>k. k \<le> 364 \<Longrightarrow> a ! k = even_cell s k" using assms(1) by (simp_all add: layout_1_def)
  have c: "c ! j = odd_cell s (364 - j)" if "j \<le> 364" for j
    using assms(1) that unfolding layout_1_def by (metis diff_diff_cancel diff_le_self)
  let ?b = "b[364 := ?t 0]"
  have "\<exists>arr. (sbox_1_first cvt a c ^^ 182) (?b, (\<lambda>n. (1 + n, 363 - 2 * n, 364 - n)) 0) = (arr, (\<lambda>n. (1 + n, 363 - 2 * n, 364 - n)) 182) \<and> length arr = 365
    \<and> (\<forall>i \<in> {1..2 * 182}. arr ! (\<lambda>i. 364 - i) i = ?t i) \<and> (\<forall>j < 365. j \<notin> (\<lambda>i. 364 - i) ` {1..2 * 182} \<longrightarrow> arr ! j = ?b ! j)"
  proof (rule pair_loop)
    fix n arr assume n: "n < (182::nat)"
    show "sbox_1_first cvt a c (arr, 1 + n, 363 - 2 * n, 364 - n)
        = (arr[364 - (2 * n + 1) := ?t (2 * n + 1), 364 - (2 * n + 2) := ?t (2 * n + 2)], 1 + (n + 1), 363 - 2 * (n + 1), 364 - (n + 1))"
      using n pround_odd [of n cvt s] pround_even [of "n + 1" cvt s] by (simp add: sbox_1_first_def a c)
  qed (use assms(2) in \<open>auto simp: inj_on_def\<close>)
  moreover have "(364::nat) \<notin> (\<lambda>i. 364 - i) ` {1..2 * 182}" by auto
  ultimately obtain b' where b': "(sbox_1_first cvt a c ^^ 182) (?b, 1, 363, 364) = (b', 183, 0, 182)" "length b' = 365"
      "\<And>i. i \<in> {1..364} \<Longrightarrow> b' ! (364 - i) = ?t i" "b' ! 364 = ?t 0"
    using assms(2) by fastforce
  have "\<exists>arr. (sbox_1_second cvt a ^^ 182) (c, (\<lambda>n. (183 + n, 182 - n, 364 - 2 * n)) 0) = (arr, (\<lambda>n. (183 + n, 182 - n, 364 - 2 * n)) 182) \<and> length arr = 365
    \<and> (\<forall>i \<in> {1..2 * 182}. arr ! (\<lambda>i. 365 - i) i = (\<lambda>i. ?t (364 + i)) i) \<and> (\<forall>j < 365. j \<notin> (\<lambda>i. 365 - i) ` {1..2 * 182} \<longrightarrow> arr ! j = c ! j)"
  proof (rule pair_loop)
    fix n arr
    assume n: "n < (182::nat)" and keep: "\<And>j. j < 365 \<Longrightarrow> j \<notin> (\<lambda>i. 365 - i) ` {1..2 * n} \<Longrightarrow> arr ! j = c ! j"
    have k: "arr ! (182 - n) = c ! (182 - n)" "arr ! (181 - n) = c ! (181 - n)" using n by (auto intro!: keep)
    show "sbox_1_second cvt a (arr, 183 + n, 182 - n, 364 - 2 * n)
        = (arr[365 - (2 * n + 1) := ?t (364 + (2 * n + 1)), 365 - (2 * n + 2) := ?t (364 + (2 * n + 2))], 183 + (n + 1), 182 - (n + 1), 364 - 2 * (n + 1))"
      using n k pround_odd [of "182 + n" cvt s] pround_even [of "183 + n" cvt s] by (simp add: sbox_1_second_def a c)
  qed (use L in \<open>auto simp: inj_on_def\<close>)
  then obtain c' where c': "(sbox_1_second cvt a ^^ 182) (c, 183, 182, 364) = (c', 365, 0, 0)" "length c' = 365"
      "\<And>i. i \<in> {1..364} \<Longrightarrow> c' ! (365 - i) = ?t (364 + i)" by auto
  have "?t 0 = pcurl_s2 cvt (a ! 0) (c ! 364)" using pround_even [of 0 cvt s] by (simp add: a c)
  then have r: "pcurl_sbox_1 cvt u (a, b, c) = (a, b', c'[0 := b' ! 364])"
    using b'(1) c'(1) by (simp add: pcurl_sbox_1_def unwound_eq(2) [OF assms(3), simplified])
  have "c'[0 := ?t 0] ! k = even_cell (pround cvt s) k" if "k \<le> 364" for k
    using c'(3) [OF cell_range, of k] c'(2) that by (cases "k = 0") (simp_all add: even_cell_def)
  moreover have "b' ! k = odd_cell (pround cvt s) k" if "k \<le> 364" for k
    using b'(3) [of "364 - k"] b'(4) that by (cases "k = 364") (auto simp: odd_cell_def)
  ultimately show ?thesis using r b'(2,4) c'(2) by (auto simp: layout_2_def)
qed

lemma pcurl_sbox_2_correct:
  assumes "layout_2 s b c" "length a = 365" "u \<in> {2, 4}"
  shows "\<exists>a' b'. pcurl_sbox_2 cvt u (a, b, c) = (a', b', c) \<and> layout_0 (pround cvt s) a' b'"
proof -
  let ?t = "\<lambda>i. pround cvt s ! i"
  have L: "length b = 365" "length c = 365" and c: "\<And>k. k \<le> 364 \<Longrightarrow> c ! k = even_cell s k" and b: "\<And>k. k \<le> 364 \<Longrightarrow> b ! k = odd_cell s k"
    using assms(1) by (simp_all add: layout_2_def)
  let ?a = "a[0 := ?t 0]"
  have "\<exists>arr. (sbox_2_first cvt b c ^^ 182) (?a, (\<lambda>n. (1 + 2 * n, n, 1 + n)) 0) = (arr, (\<lambda>n. (1 + 2 * n, n, 1 + n)) 182) \<and> length arr = 365
    \<and> (\<forall>i \<in> {1..2 * 182}. arr ! (\<lambda>i. i) i = ?t i) \<and> (\<forall>j < 365. j \<notin> (\<lambda>i. i) ` {1..2 * 182} \<longrightarrow> arr ! j = ?a ! j)"
  proof (rule pair_loop)
    fix n arr assume n: "n < (182::nat)"
    show "sbox_2_first cvt b c (arr, 1 + 2 * n, n, 1 + n)
        = (arr[2 * n + 1 := ?t (2 * n + 1), 2 * n + 2 := ?t (2 * n + 2)], 1 + 2 * (n + 1), n + 1, 1 + (n + 1))"
      using n pround_odd [of n cvt s] pround_even [of "n + 1" cvt s] by (simp add: sbox_2_first_def b c)
  qed (use assms(2) in auto)
  then obtain a' where a': "(sbox_2_first cvt b c ^^ 182) (?a, 1, 0, 1) = (a', 365, 182, 183)" "length a' = 365"
      "\<And>i. i \<in> {1..364} \<Longrightarrow> a' ! i = ?t i" "a' ! 0 = ?t 0"
    using assms(2) by auto
  have "\<exists>arr. (sbox_2_second cvt c ^^ 182) (b, (\<lambda>n. (182 + n, 183 + n, 2 * n)) 0) = (arr, (\<lambda>n. (182 + n, 183 + n, 2 * n)) 182) \<and> length arr = 365
    \<and> (\<forall>i \<in> {1..2 * 182}. arr ! (\<lambda>i. i - 1) i = (\<lambda>i. ?t (364 + i)) i) \<and> (\<forall>j < 365. j \<notin> (\<lambda>i. i - 1) ` {1..2 * 182} \<longrightarrow> arr ! j = b ! j)"
  proof (rule pair_loop)
    fix n arr
    assume n: "n < (182::nat)" and keep: "\<And>j. j < 365 \<Longrightarrow> j \<notin> (\<lambda>i. i - 1) ` {1..2 * n} \<Longrightarrow> arr ! j = b ! j"
    have k: "arr ! (182 + n) = b ! (182 + n)" "arr ! (183 + n) = b ! (183 + n)" using n by (auto intro!: keep)
    show "sbox_2_second cvt c (arr, 182 + n, 183 + n, 2 * n)
        = (arr[2 * n + 1 - 1 := ?t (364 + (2 * n + 1)), 2 * n + 2 - 1 := ?t (364 + (2 * n + 2))], 182 + (n + 1), 183 + (n + 1), 2 * (n + 1))"
      using n k pround_odd [of "182 + n" cvt s] pround_even [of "183 + n" cvt s] by (simp add: sbox_2_second_def b c)
  qed (use L in \<open>auto simp: inj_on_def\<close>)
  then obtain b' where b': "(sbox_2_second cvt c ^^ 182) (b, 182, 183, 0) = (b', 364, 365, 364)" "length b' = 365"
      "\<And>i. i \<in> {1..364} \<Longrightarrow> b' ! (i - 1) = ?t (364 + i)" by auto
  have "?t 0 = pcurl_s2 cvt (c ! 0) (b ! 0)" using pround_even [of 0 cvt s] by (simp add: b c)
  then have r: "pcurl_sbox_2 cvt u (a, b, c) = (a', b'[364 := a' ! 0], c)"
    using a'(1) b'(1) by (simp add: pcurl_sbox_2_def unwound_eq(2) [OF assms(3), simplified])
  have "b'[364 := ?t 0] ! (364 - k) = even_cell (pround cvt s) k" if "k \<le> 364" for k
    using b'(3) [OF cell_range, of k] b'(2) that by (cases "k = 0") (simp_all add: even_cell_def)
  moreover have "a' ! (364 - k) = odd_cell (pround cvt s) k" if "k \<le> 364" for k
    using a'(3) [of "364 - k"] a'(4) that by (cases "k = 364") (auto simp: odd_cell_def)
  ultimately show ?thesis using r b'(2) a'(2,4) by (auto simp: layout_0_def)
qed

lemma layout_0_cells: "layout_0 s a b \<Longrightarrow> length s = 729 \<Longrightarrow> a @ take 364 b = s"
proof (rule nth_equalityI)
  assume l: "layout_0 s a b" "length s = 729"
  then show "length (a @ take 364 b) = length s" by (simp add: layout_0_def)
  have c: "b ! (364 - k) = even_cell s k" "a ! (364 - k) = odd_cell s k" if "k \<le> 364" for k using l(1) that by (auto simp: layout_0_def)
  fix i assume "i < length (a @ take 364 b)"
  then have i: "i < 729" "length a = 365" "length b = 365" using l by (auto simp: layout_0_def)
  show "(a @ take 364 b) ! i = s ! i"
  proof (cases "i < 365")
    case True
    with c(2) [of "364 - i"] i show ?thesis by (simp add: nth_append odd_cell_def)
  next
    case False
    with c(1) [of "729 - i"] i show ?thesis by (simp add: nth_append even_cell_def)
  qed
qed

lemma transform_short:
  assumes "u \<in> {2, 4}" "length (pstate (ctx :: 'w::len pcurl)) = 3 * 365" "3 dvd round_count ctx"
  shows "\<exists>r. pcurl_transform_short cvt u ctx = ctx\<lparr>pstate := (pround cvt ^^ round_count ctx) (take 729 (pstate ctx)) @ r\<rparr> \<and> length r = 366"
proof -
  let ?s = "pstate ctx"
  define f :: "'w ptrit list \<times> 'w ptrit list \<times> 'w ptrit list \<Rightarrow> 'w ptrit list \<times> 'w ptrit list \<times> 'w ptrit list"
    where "f = pcurl_sbox_2 cvt u \<circ> pcurl_sbox_1 cvt u \<circ> pcurl_sbox_0 cvt u"
  have step: "\<exists>a' b' c'. f (a, b, c) = (a', b', c') \<and> layout_0 (pround cvt (pround cvt (pround cvt s))) a' b' \<and> length c' = 365"
    if "layout_0 s a b" "length c = 365" for s a b c
  proof -
    from pcurl_sbox_0_correct [OF that assms(1)] obtain a1 c1 where 1: "pcurl_sbox_0 cvt u (a, b, c) = (a1, b, c1)" "layout_1 (pround cvt s) a1 c1"
      by blast
    moreover have "length b = 365" "length a1 = 365" using that(1) 1(2) by (simp_all add: layout_0_def layout_1_def)
    moreover from pcurl_sbox_1_correct [OF 1(2) this(1) assms(1)] obtain b2 c2 where
      2: "pcurl_sbox_1 cvt u (a1, b, c1) = (a1, b2, c2)" "layout_2 (pround cvt (pround cvt s)) b2 c2" by blast
    moreover from pcurl_sbox_2_correct [OF 2(2) calculation(4) assms(1)] obtain a3 b3 where
      "pcurl_sbox_2 cvt u (a1, b2, c2) = (a3, b3, c2)" "layout_0 (pround cvt (pround cvt (pround cvt s))) a3 b3" by blast
    ultimately show ?thesis by (auto simp: layout_2_def f_def)
  qed
  have rounds: "\<exists>a' b' c'. (f ^^ n) (a, b, c) = (a', b', c') \<and> layout_0 ((pround cvt ^^ (3 * n)) s) a' b' \<and> length c' = 365"
    if "layout_0 s a b" "length c = 365" for s a b c n
  proof (induction n)
    case (Suc n)
    then obtain a' b' c' where "(f ^^ n) (a, b, c) = (a', b', c')" "layout_0 ((pround cvt ^^ (3 * n)) s) a' b'" "length c' = 365" by blast
    with step [OF this(2,3)] show ?case by (simp add: numeral_3_eq_3)
  qed (use that in simp)
  let ?a = "take 365 ?s" and ?b = "(slice 365 365 ?s)[364 := ?s ! 0]" and ?c = "slice 730 365 ?s"
  have "layout_0 (take 729 ?s) ?a ?b"
    using assms(2) by (auto simp: layout_0_def even_cell_def odd_cell_def nth_slice)
  from rounds [OF this, of ?c "round_count ctx div 3"] assms(2,3) obtain a' b' c' where
    r: "(f ^^ (round_count ctx div 3)) (?a, ?b, ?c) = (a', b', c')" and
    l: "layout_0 ((pround cvt ^^ round_count ctx) (take 729 ?s)) a' b'" "length c' = 365" by auto
  have "length ((pround cvt ^^ n) (take 729 ?s)) = 729" for n using assms(2) by (cases n) simp_all
  with layout_0_cells [OF l(1)] have "a' @ b' = (pround cvt ^^ round_count ctx) (take 729 ?s) @ drop 364 b'"
    by (metis append_assoc append_take_drop_id)
  moreover have "length (drop 364 b') = 1" using l(1) by (simp add: layout_0_def)
  ultimately show ?thesis using r l(2) by (intro exI [of _ "drop 364 b' @ c'"]) (simp add: pcurl_transform_short_def split_state_def f_def)
qed

section \<open>Refinement of the scalar sponge\<close>

definition conf_ok :: "pcurl_conf \<Rightarrow> bool" where
  "conf_ok cf \<longleftrightarrow> unwind cf \<in> (case play cf of PCURL_STATE_SHORT \<Rightarrow> {2, 4} | PCURL_STATE_DOUBLE \<Rightarrow> {2, 4, 8})"

definition pcurl_ok :: "pcurl_conf \<Rightarrow> 'w::len pcurl \<Rightarrow> bool" where
  "pcurl_ok cf ctx \<longleftrightarrow> length (pstate ctx) = pstate_cells cf \<and> ptrits_ok (pcvt cf) (take 729 (pstate ctx))
     \<and> (play cf = PCURL_STATE_SHORT \<longrightarrow> 3 dvd round_count ctx)"

text \<open>The \<open>i\<close>-th slice of a parallel sponge is a scalar sponge.\<close>

definition curl_slice :: "pcurl_conf \<Rightarrow> nat \<Rightarrow> 'w::len pcurl \<Rightarrow> Curl" where
  "curl_slice cf i ctx = \<lparr>state = pslice (pcvt cf) (take 729 (pstate ctx)) i, curl_type = round_count ctx\<rparr>"

lemma pstate_cells_simps: "pstate_cells cf = (case play cf of PCURL_STATE_SHORT \<Rightarrow> 1095 | PCURL_STATE_DOUBLE \<Rightarrow> 1458)" "729 \<le> pstate_cells cf"
  by (simp_all add: pstate_cells_def split: pcurl_state.split)

lemma pcurl_transform_rounds:
  assumes "conf_ok cf" "pcurl_ok cf ctx"
  shows "\<exists>r. pcurl_transform cf ctx = ctx\<lparr>pstate := (pround (pcvt cf) ^^ round_count ctx) (take 729 (pstate ctx)) @ r\<rparr>
    \<and> length r = pstate_cells cf - 729"
proof (cases "play cf")
  case PCURL_STATE_DOUBLE
  with assms transform_double [of "unwind cf" ctx "pcvt cf"] show ?thesis
    by (simp add: conf_ok_def pcurl_ok_def pcurl_transform_def pstate_cells_simps)
next
  case PCURL_STATE_SHORT
  with assms transform_short [of "unwind cf" ctx "pcvt cf"] show ?thesis
    by (simp add: conf_ok_def pcurl_ok_def pcurl_transform_def pstate_cells_simps)
qed

lemma curl_slice_ok: "pcurl_ok cf (ctx :: 'w::len pcurl) \<Longrightarrow> i < LENGTH('w) \<Longrightarrow> curl_ok (curl_slice cf i ctx)"
  using pstate_cells_simps(2) [of cf] by (simp add: curl_ok_def curl_slice_def pcurl_ok_def ptrits_ok_def min_def)

lemma transform_slice:
  assumes "conf_ok cf" "pcurl_ok cf (ctx :: 'w::len pcurl)"
  shows "pcurl_ok cf (pcurl_transform cf ctx)" "i < LENGTH('w) \<Longrightarrow> curl_slice cf i (pcurl_transform cf ctx) = transform (curl_slice cf i ctx)"
proof -
  let ?s = "take 729 (pstate ctx)"
  from pcurl_transform_rounds [OF assms] obtain r where
    r: "pcurl_transform cf ctx = ctx\<lparr>pstate := (pround (pcvt cf) ^^ round_count ctx) ?s @ r\<rparr>" "length r = pstate_cells cf - 729" by blast
  have s: "ptrits_ok (pcvt cf) ?s" "length ?s = 729" using assms(2) pstate_cells_simps(2) [of cf] by (simp_all add: pcurl_ok_def)
  note p = prounds_slice [OF s, of "round_count ctx"]
  show "pcurl_ok cf (pcurl_transform cf ctx)" using assms(2) p r pstate_cells_simps(2) [of cf] by (auto simp: pcurl_ok_def)
  assume i: "i < LENGTH('w)"
  show "curl_slice cf i (pcurl_transform cf ctx) = transform (curl_slice cf i ctx)"
    unfolding transform_correct [OF curl_slice_ok [OF assms(2) i]] using p i by (simp add: r curl_slice_def)
qed

lemma blit_slice:
  assumes "pcurl_ok cf (ctx :: 'w::len pcurl)" "ptrits_ok (pcvt cf) ps" "length ps \<le> 243"
  shows "pcurl_ok cf (ctx\<lparr>pstate := blit (pstate ctx) 0 ps\<rparr>)"
    "curl_slice cf i (ctx\<lparr>pstate := blit (pstate ctx) 0 ps\<rparr>)
      = (curl_slice cf i ctx)\<lparr>state := blit (state (curl_slice cf i ctx)) 0 (pslice (pcvt cf) ps i)\<rparr>"
proof -
  have e: "take 729 (blit (pstate ctx) 0 ps) = blit (take 729 (pstate ctx)) 0 ps" using assms(3) by (simp add: blit_def min_def drop_take)
  have "set (drop (length ps) (take 729 (pstate ctx))) \<subseteq> set (take 729 (pstate ctx))" by (rule set_drop_subset)
  then show "pcurl_ok cf (ctx\<lparr>pstate := blit (pstate ctx) 0 ps\<rparr>)"
    using assms pstate_cells_simps(2) [of cf] by (auto simp: pcurl_ok_def e) (auto simp: blit_def elim: ptrits_ok_subset)
  show "curl_slice cf i (ctx\<lparr>pstate := blit (pstate ctx) 0 ps\<rparr>)
      = (curl_slice cf i ctx)\<lparr>state := blit (state (curl_slice cf i ctx)) 0 (pslice (pcvt cf) ps i)\<rparr>"
    by (simp add: curl_slice_def e) (simp add: blit_def drop_map)
qed

lemma absorb_loop_slice:
  assumes "conf_ok cf" "pcurl_ok cf (ctx :: 'w::len pcurl)" "ptrits_ok (pcvt cf) ps" "243 * n \<le> length ps"
  shows "pcurl_ok cf (fst (pcurl_absorb_loop cf n ctx ps)) \<and> snd (pcurl_absorb_loop cf n ctx ps) = drop (243 * n) ps
    \<and> (\<forall>i < LENGTH('w). curl_slice cf i (fst (pcurl_absorb_loop cf n ctx ps)) = curl_absorb_loop n (curl_slice cf i ctx) (pslice (pcvt cf) ps i))"
  using assms(2-4)
proof (induction n arbitrary: ctx ps)
  case (Suc n)
  let ?b = "ctx\<lparr>pstate := blit (pstate ctx) 0 (take 243 ps)\<rparr>"
  have t: "ptrits_ok (pcvt cf) (take 243 ps)" "length (take 243 ps) \<le> 243" using ptrits_ok_subset [OF Suc.prems(2) set_take_subset] by simp_all
  note b = blit_slice [OF Suc.prems(1) t] and tr = transform_slice [OF assms(1) blit_slice(1) [OF Suc.prems(1) t]]
  from Suc.IH [OF tr(1) ptrits_ok_subset [OF Suc.prems(2) set_drop_subset], of 243] Suc.prems(3) tr(2) b(2) show ?case
    by (auto simp: take_map drop_map add.commute)
qed simp

lemma absorb_slice:
  assumes "conf_ok cf" "pcurl_ok cf (ctx :: 'w::len pcurl)" "ptrits_ok (pcvt cf) ps"
  shows "pcurl_ok cf (pcurl_absorb cf ctx ps)"
    "i < LENGTH('w) \<Longrightarrow> curl_slice cf i (pcurl_absorb cf ctx ps) = curl_absorb (curl_slice cf i ctx) (pslice (pcvt cf) ps i)"
proof -
  let ?n = "length ps div 243" and ?m = "length ps mod 243"
  obtain c rest where l: "pcurl_absorb_loop cf ?n ctx ps = (c, rest)" by fastforce
  note a = absorb_loop_slice [OF assms, of ?n, unfolded l, simplified]
  let ?rest = "take ?m rest"
  have rest: "ptrits_ok (pcvt cf) ?rest" "length ?rest \<le> 243" "?rest = rest"
    using ptrits_ok_subset [OF assms(3) set_drop_subset] a
    by (simp_all add: minus_mult_div_eq_mod less_imp_le)
  have b: "pcurl_ok cf c" using a by simp
  note tr = transform_slice [OF assms(1) blit_slice(1) [OF b rest(1,2)]]
  show "pcurl_ok cf (pcurl_absorb cf ctx ps)" using b tr(1) by (simp add: pcurl_absorb_def l)
  assume i: "i < LENGTH('w)"
  have x: "pslice (pcvt cf) ps i = pslice (pcvt cf) (take (243 * ?n) ps) i @ pslice (pcvt cf) rest i" "length (take (243 * ?n) ps) = 243 * ?n"
    using a by (simp_all add: map_append [symmetric] del: map_append) 
  show "curl_slice cf i (pcurl_absorb cf ctx ps) = curl_absorb (curl_slice cf i ctx) (pslice (pcvt cf) ps i)"
  proof (cases "?m = 0")
    case True
    with a i show ?thesis by (simp add: pcurl_absorb_def l curl_absorb_def num_chunks_def)
  next
    case False
    have "curl_absorb (curl_slice cf i ctx) (pslice (pcvt cf) ps i)
        = curl_absorb_loop 1 (curl_absorb_loop ?n (curl_slice cf i ctx) (pslice (pcvt cf) (take (243 * ?n) ps) i)) (pslice (pcvt cf) rest i)"
    proof -
      have "num_chunks (length (pslice (pcvt cf) ps i)) = ?n + 1" using False by (simp add: num_chunks_def)
      moreover have "length (pslice (pcvt cf) (take (243 * ?n) ps) i) = 243 * ?n" by simp
      ultimately show ?thesis unfolding curl_absorb_def by (simp only: curl_absorb_loop_append x(1))
    qed
    moreover have "curl_absorb_loop ?n (curl_slice cf i ctx) (pslice (pcvt cf) (take (243 * ?n) ps) i) = curl_slice cf i c"
      using a i curl_absorb_loop_append [of "pslice (pcvt cf) (take (243 * ?n) ps) i" ?n 0 _ "pslice (pcvt cf) rest i", folded x(1)] by simp
    ultimately show ?thesis using False tr(2) [OF i] blit_slice(2) [OF b rest(1,2), of i] rest(3)
      by (simp add: pcurl_absorb_def l)
  qed
qed

lemma squeeze_loop_slice:
  assumes "conf_ok cf" "pcurl_ok cf (ctx :: 'w::len pcurl)"
  shows "pcurl_ok cf (fst (pcurl_squeeze_loop cf n ctx)) \<and> length (snd (pcurl_squeeze_loop cf n ctx)) = 243 * n
    \<and> (\<forall>i < LENGTH('w). \<forall>m. curl_squeeze_loop (n + m) (curl_slice cf i ctx) (243 * n + len)
        = (let (c, out) = curl_squeeze_loop m (curl_slice cf i (fst (pcurl_squeeze_loop cf n ctx))) len
           in (c, pslice (pcvt cf) (snd (pcurl_squeeze_loop cf n ctx)) i @ out)))"
  using assms(2)
proof (induction n arbitrary: ctx)
  case (Suc n)
  note t = transform_slice [OF assms(1) Suc.prems] and ih = Suc.IH [OF transform_slice(1) [OF assms(1) Suc.prems]]
  obtain c out where l: "pcurl_squeeze_loop cf n (pcurl_transform cf ctx) = (c, out)" by fastforce
  have "length (take 243 (pstate ctx)) = 243" using Suc.prems pstate_cells_simps(2) [of cf] by (simp add: pcurl_ok_def)
  moreover have "take 243 (state (curl_slice cf i ctx)) = pslice (pcvt cf) (take 243 (pstate ctx)) i" for i
    by (simp add: curl_slice_def take_map min_def)
  ultimately show ?case using ih t(2) [symmetric] unfolding l by (auto simp: l Let_def split: prod.splits)
qed simp

lemma squeeze_slice:
  assumes "conf_ok cf" "pcurl_ok cf (ctx :: 'w::len pcurl)"
  shows "pcurl_ok cf (fst (pcurl_squeeze cf ctx len))"
    "i < LENGTH('w) \<Longrightarrow> curl_squeeze (curl_slice cf i ctx) len
      = (curl_slice cf i (fst (pcurl_squeeze cf ctx len)), pslice (pcvt cf) (snd (pcurl_squeeze cf ctx len)) i)"
proof -
  let ?n = "len div 243" and ?m = "len mod 243"
  obtain c out where l: "pcurl_squeeze_loop cf ?n ctx = (c, out)" by fastforce
  note a = squeeze_loop_slice [OF assms, of ?n ?m, unfolded l fst_conv snd_conv]
  have c: "pcurl_ok cf c" using a by simp
  show "pcurl_ok cf (fst (pcurl_squeeze cf ctx len))" using c transform_slice(1) [OF assms(1) c] by (simp add: pcurl_squeeze_def l)
  assume i: "i < LENGTH('w)"
  have e: "243 * ?n + ?m = len" by simp
  have q: "curl_squeeze (curl_slice cf i ctx) len = (let (c', o') = curl_squeeze_loop (if ?m = 0 then 0 else 1) (curl_slice cf i c) ?m
      in (c', pslice (pcvt cf) out i @ o'))"
    using a i unfolding e curl_squeeze_def num_chunks_def by simp
  have "take ?m (state (curl_slice cf i c)) = pslice (pcvt cf) (take ?m (pstate c)) i"
    using mod_less_divisor [of 243 len] by (simp add: curl_slice_def take_map)
  with transform_slice(2) [OF assms(1) c i] show "curl_squeeze (curl_slice cf i ctx) len
      = (curl_slice cf i (fst (pcurl_squeeze cf ctx len)), pslice (pcvt cf) (snd (pcurl_squeeze cf ctx len)) i)"
    unfolding q by (simp add: pcurl_squeeze_def l)
qed

lemma reset_slice:
  assumes "play cf = PCURL_STATE_SHORT \<longrightarrow> 3 dvd round_count (ctx :: 'w::len pcurl)"
  shows "pcurl_ok cf (pcurl_reset cf ctx)" "i < LENGTH('w) \<Longrightarrow> curl_slice cf i (pcurl_reset cf ctx) = curl_reset (curl_slice cf i ctx)"
proof -
  let ?z = "(case pcvt cf of PTRIT_CVT_ANDN \<Rightarrow> \<lparr>low = - 1, high = - 1\<rparr> | PTRIT_CVT_ORN \<Rightarrow> \<lparr>low = 0, high = - 1\<rparr>) :: 'w ptrit"
  have z: "ptrit_get (pcvt cf) ?z i = 0" if "i < LENGTH('w)" for i
    using that by (auto simp: ptrit_get_bits bit_simps split: ptrit_cvt.split)
  have t: "take 729 (pstate (pcurl_reset cf ctx)) = replicate 729 ?z" using pstate_cells_simps(2) [of cf] by (simp add: pcurl_reset_def)
  show "pcurl_ok cf (pcurl_reset cf ctx)" using assms z unfolding pcurl_ok_def t by (auto simp: ptrits_ok_def list_all_iff pcurl_reset_def)
  assume "i < LENGTH('w)"
  with z show "curl_slice cf i (pcurl_reset cf ctx) = curl_reset (curl_slice cf i ctx)"
    unfolding curl_slice_def t by (simp add: curl_reset_def pcurl_reset_def)
qed

section \<open>Properties\<close>

text \<open>
  C34. The parallel transformation is the scalar one in every slice, in both layouts of the state, both encodings of trits and for every
  unwinding of the loops; it keeps the state free of NaT.
\<close>

theorem pcurl_transform_is_curl:
  assumes "conf_ok cf" "pcurl_ok cf (ctx :: 'w::len pcurl)" "i < LENGTH('w)"
  shows "pcurl_ok cf (pcurl_transform cf ctx) \<and> curl_slice cf i (pcurl_transform cf ctx) = transform (curl_slice cf i ctx)"
  using transform_slice [OF assms(1,2)] assms(3) by blast

definition pcurl_default :: pcurl_conf where
  "pcurl_default = \<lparr>pcvt = PTRIT_CVT_ANDN, play = PCURL_STATE_SHORT, unwind = 2\<rparr>"

definition pcurl_null :: "64 pcurl" where
  "pcurl_null = pcurl_init pcurl_default \<lparr>pstate = [], round_count = 0\<rparr> 27"

lemma pcurl_null_ok: "conf_ok pcurl_default" "pcurl_ok pcurl_default pcurl_null"
proof -
  show "conf_ok pcurl_default" by (simp add: conf_ok_def pcurl_default_def)
  have "pcurl_null = pcurl_reset pcurl_default \<lparr>pstate = [], round_count = 27\<rparr>"
    by (simp add: pcurl_null_def pcurl_init_def pcurl_reset_def)
  with reset_slice(1) [of pcurl_default "\<lparr>pstate = [], round_count = 27\<rparr> :: 64 pcurl"] show "pcurl_ok pcurl_default pcurl_null" by simp
qed

theorem pcurl_transform_is_curl_witness:
  "curl_slice pcurl_default 63 (pcurl_transform pcurl_default pcurl_null) = transform (curl_slice pcurl_default 63 pcurl_null)"
  using pcurl_transform_is_curl [OF pcurl_null_ok, of 63] by simp

text \<open>
  The parallel sponge refines the scalar one: absorbing, squeezing, resetting and hashing act in every slice as the functions of
  the scalar sponge on the slice of the state and of the input.
\<close>

theorem pcurl_sponge_refines:
  assumes "conf_ok cf" "pcurl_ok cf (ctx :: 'w::len pcurl)" "ptrits_ok (pcvt cf) ps" "i < LENGTH('w)"
  shows "curl_slice cf i (pcurl_absorb cf ctx ps) = curl_absorb (curl_slice cf i ctx) (pslice (pcvt cf) ps i)
    \<and> (curl_slice cf i (fst (pcurl_squeeze cf ctx len)), pslice (pcvt cf) (snd (pcurl_squeeze cf ctx len)) i) = curl_squeeze (curl_slice cf i ctx) len
    \<and> curl_slice cf i (pcurl_reset cf ctx) = curl_reset (curl_slice cf i ctx)
    \<and> pslice (pcvt cf) (snd (pcurl_hash_data cf ctx ps)) i = take 243 (state (curl_absorb (curl_reset (curl_slice cf i ctx)) (pslice (pcvt cf) ps i)))
    \<and> pcurl_ok cf (pcurl_absorb cf ctx ps) \<and> pcurl_ok cf (fst (pcurl_squeeze cf ctx len)) \<and> pcurl_ok cf (fst (pcurl_hash_data cf ctx ps))"
proof -
  have r3: "play cf = PCURL_STATE_SHORT \<longrightarrow> 3 dvd round_count ctx" using assms(2) by (simp add: pcurl_ok_def)
  note r = reset_slice [OF r3] and a = absorb_slice [OF assms(1) reset_slice(1) [OF r3] assms(3)]
  have h: "take 243 (state (curl_slice cf i c)) = pslice (pcvt cf) (take 243 (pstate c)) i" for c :: "'w pcurl"
    by (simp add: curl_slice_def take_map min_def)
  have "pslice (pcvt cf) (snd (pcurl_hash_data cf ctx ps)) i = take 243 (state (curl_absorb (curl_reset (curl_slice cf i ctx)) (pslice (pcvt cf) ps i)))"
    unfolding r(2) [OF assms(4), symmetric] a(2) [OF assms(4), symmetric] h by (simp add: pcurl_hash_data_def pcurl_get_hash_def)
  moreover have "pcurl_ok cf (fst (pcurl_hash_data cf ctx ps))"
    using reset_slice(1) [of cf "pcurl_absorb cf (pcurl_reset cf ctx) ps"] a(1) by (simp add: pcurl_hash_data_def pcurl_get_hash_def pcurl_ok_def)
  ultimately show ?thesis
    using absorb_slice [OF assms(1-3)] squeeze_slice [OF assms(1,2)] r(2) assms(4) by simp
qed

theorem pcurl_sponge_refines_witness:
  "curl_slice pcurl_default 5 (pcurl_absorb pcurl_default pcurl_null (map (ptrit_fill PTRIT_CVT_ANDN) [1, 0, - 1]))
    = curl_absorb (curl_slice pcurl_default 5 pcurl_null) [1, 0, - 1]"
proof -
  let ?p = "map (ptrit_fill PTRIT_CVT_ANDN) [1, 0, - 1] :: 64 ptrit list"
  have v: "valid_trits [1, 0, - 1]" by simp
  have "ptrits_ok (pcvt pcurl_default) ?p" using ptrits_fill_ok [OF v, of PTRIT_CVT_ANDN, where 'w = 64] by (simp add: pcurl_default_def)
  from pcurl_sponge_refines [OF pcurl_null_ok this, of 5] ptrits_fill_slice [OF v, of 5 PTRIT_CVT_ANDN, where 'w = 64] show ?thesis
    by (simp add: pcurl_default_def)
qed

end
