(* ===== verification/Pearl_Diver.thy ===== *)
theory Pearl_Diver
  imports Prelude Curl Ptrit Pcurl
begin

text \<open>
  \<open>common/crypto/curl-p/pearl_diver.c\<close>, \<open>hamming.c\<close> and \<open>hashcash.c\<close>: the search for a nonce. Every thread owns a parallel sponge whose slices differ in
  the first trits of the range; it transforms a copy, tests it, and counts the rest of the range up. The threads share one status behind a lock. The
  model is a step relation in which any thread may take the next step; a step is what a thread does between two accesses to the shared
  status. The results are shown for every schedule, every number of threads and every failure to start some of them.
\<close>

section \<open>Definitions\<close>

datatype PearlDiverStatus = PEARL_DIVER_SUCCESS | PEARL_DIVER_RUNNING | PEARL_DIVER_INTERRUPTED | PEARL_DIVER_ERROR

datatype search_status = SEARCH_RUNNING | SEARCH_INTERRUPT | SEARCH_FINISHED | SEARCH_NOT_FOUND

record 'p search_instance =
  inst_pcurl :: "'p pcurl_t"
  inst_begin :: nat
  inst_end :: nat
  inst_result :: int
  inst_status :: search_status

text \<open>The loop over the instances; every one gets the next values of the counter.\<close>

primrec init_insts ::
  "ptrit_cvt \<Rightarrow> nat \<Rightarrow> 'w::len pcurl \<Rightarrow> nat \<Rightarrow> nat \<Rightarrow> nat \<Rightarrow> trit list \<Rightarrow> 'w ptrit search_instance list"
where
  "init_insts cvt 0 pcurl bgn end' n_log3 val = []"
| "init_insts cvt (Suc n) pcurl bgn end' n_log3 val =
     (let (rng, val) = ptrit_set_iota cvt n_log3 (drop bgn (pstate pcurl)) val
      in \<lparr>inst_pcurl = pcurl\<lparr>pstate := take bgn (pstate pcurl) @ rng\<rparr>, inst_begin = bgn + n_log3, inst_end = end',
           inst_result = - 1, inst_status = SEARCH_RUNNING\<rparr> # init_insts cvt n pcurl bgn end' n_log3 val)"

definition init_inst :: "ptrit_cvt \<Rightarrow> nat \<Rightarrow> 'w::len pcurl \<Rightarrow> nat \<Rightarrow> nat \<Rightarrow> 'w ptrit search_instance list" where
  "init_inst cvt n pcurl bgn end' =
     (let n_log3 = min (ptrit_log3 (LENGTH('w) * n)) (end' - bgn);
          val = replicate CURL_STATE_SIZE (- 1);
          pcurl = pcurl\<lparr>pstate := blit (pstate pcurl) (bgn + n_log3) (ptrits_fill cvt (end' - (bgn + n_log3)) val)\<rparr>
      in init_insts cvt n pcurl bgn end' n_log3 val)"

text \<open>Where a thread is in its loop: before it reads the shared status, before the test, before it reports, before it counts, after the loop.\<close>

datatype search_pc = AT_CHECK | AT_TEST | AT_REPORT | AT_COUNT | AT_EXIT

type_synonym 'w search_thread = "search_pc \<times> 'w ptrit search_instance"

definition run_search_thread ::
  "pcurl_conf \<Rightarrow> ('w::len pcurl \<Rightarrow> int) \<Rightarrow> search_status \<Rightarrow> 'w search_thread \<Rightarrow> search_status \<times> 'w search_thread"
where
  "run_search_thread cf test overall = (\<lambda>(pc, inst).
     case pc of
       AT_CHECK \<Rightarrow> (overall, if overall \<noteq> SEARCH_RUNNING then AT_EXIT else AT_TEST, inst\<lparr>inst_status := overall\<rparr>)
     | AT_TEST \<Rightarrow>
         (let inst = inst\<lparr>inst_result := test (ptrit_transform cf (inst_pcurl inst))\<rparr>
          in (overall, if inst_result inst \<ge> 0 then AT_REPORT else AT_COUNT, inst))
     | AT_REPORT \<Rightarrow> (SEARCH_FINISHED, AT_EXIT, inst)
     | AT_COUNT \<Rightarrow>
         (let ps = pstate (inst_pcurl inst);
              (overflow, rng) = ptrit_hincr (pcvt cf) (slice (inst_begin inst) (inst_end inst - inst_begin inst) ps);
              inst = inst\<lparr>inst_pcurl := (inst_pcurl inst)\<lparr>pstate := blit ps (inst_begin inst) rng\<rparr>\<rparr>
          in if overflow then (overall, AT_EXIT, inst\<lparr>inst_status := SEARCH_NOT_FOUND\<rparr>) else (overall, AT_CHECK, inst))
     | AT_EXIT \<Rightarrow> (overall, AT_EXIT, inst))"

inductive search_step ::
  "pcurl_conf \<Rightarrow> ('w::len pcurl \<Rightarrow> int) \<Rightarrow> search_status \<times> 'w search_thread list \<Rightarrow> search_status \<times> 'w search_thread list \<Rightarrow> bool"
  for cf test where
  step: "i < length threads \<Longrightarrow> fst (threads ! i) \<noteq> AT_EXIT \<Longrightarrow> run_search_thread cf test overall (threads ! i) = (overall', t) \<Longrightarrow>
    search_step cf test (overall, threads) (overall', threads[i := t])"

text \<open>\<open>pt_start\<close>: \<open>created\<close> says which threads could be started; the others keep the result -1.\<close>

definition pt_start :: "bool list \<Rightarrow> 'w::len ptrit search_instance list \<Rightarrow> 'w search_thread list" where
  "pt_start created insts = map (\<lambda>(c, inst). (if c then AT_CHECK else AT_EXIT, inst)) (zip created insts)"

text \<open>The parallel sponge with the state of the scalar one in all slices.\<close>

definition search_pcurl :: "pcurl_conf \<Rightarrow> 'w::len pcurl \<Rightarrow> Curl \<Rightarrow> 'w pcurl" where
  "search_pcurl cf pcurl ctx =
     (let pcurl = ptrit_curl_init cf pcurl (curl_type ctx)
      in pcurl\<lparr>pstate := blit (pstate pcurl) 0 (ptrits_fill (pcvt cf) STATE_LENGTH (state ctx))\<rparr>)"

text \<open>The results are inspected from the last thread to the first.\<close>

definition search_collect :: "pcurl_conf \<Rightarrow> Curl \<Rightarrow> nat \<Rightarrow> nat \<Rightarrow> 'w::len search_thread list \<Rightarrow> PearlDiverStatus \<times> Curl" where
  "search_collect cf ctx bgn end' threads =
     (case find (\<lambda>t. inst_result (snd t) \<ge> 0) (rev threads) of
        None \<Rightarrow> (PEARL_DIVER_ERROR, ctx)
      | Some t \<Rightarrow> (PEARL_DIVER_SUCCESS, ctx\<lparr>state := blit (state ctx) bgn
          (ptrits_get_slice (pcvt cf) (end' - bgn) (drop bgn (pstate (inst_pcurl (snd t)))) (nat (inst_result (snd t))))\<rparr>))"

text \<open>
  \<open>pd_search_n\<close> as a relation between the call and what it returns. \<open>pcurl\<close> is the uninitialised variable of that name; the first rule is a
  failure of an allocation or of the lock. All threads that were started have left their loop when the results are collected.
\<close>

inductive pd_search_n ::
  "pcurl_conf \<Rightarrow> 'w::len pcurl \<Rightarrow> ('w pcurl \<Rightarrow> int) \<Rightarrow> Curl \<Rightarrow> nat \<Rightarrow> nat \<Rightarrow> nat \<Rightarrow> PearlDiverStatus \<times> Curl \<Rightarrow> bool"
  for cf pcurl test ctx bgn end' n_procs where
  no_memory: "pd_search_n cf pcurl test ctx bgn end' n_procs (PEARL_DIVER_ERROR, ctx)"
| joined: "length created = n_procs \<Longrightarrow>
    (search_step cf test)\<^sup>*\<^sup>* (SEARCH_RUNNING, pt_start created (init_inst (pcvt cf) n_procs (search_pcurl cf pcurl ctx) bgn end')) (overall, threads) \<Longrightarrow>
    list_all (\<lambda>t. fst t = AT_EXIT) threads \<Longrightarrow>
    pd_search_n cf pcurl test ctx bgn end' n_procs (search_collect cf ctx bgn end' threads)"

text \<open>\<open>system_cpu_available\<close>, a call of the operating system, gives the number of threads.\<close>

definition pd_search ::
  "nat \<Rightarrow> pcurl_conf \<Rightarrow> 'w::len pcurl \<Rightarrow> ('w pcurl \<Rightarrow> int) \<Rightarrow> Curl \<Rightarrow> nat \<Rightarrow> nat \<Rightarrow> PearlDiverStatus \<times> Curl \<Rightarrow> bool"
where
  "pd_search cpus cf pcurl test ctx bgn end' = pd_search_n cf pcurl test ctx bgn end' cpus"

text \<open>
  \<open>hamming.c\<close>. The inner loop, with \<open>r\<close> iterations left and \<open>j\<close> done; it gives the value of \<open>j\<close> after the loop.
\<close>

primrec hamming_loop :: "ptrit_cvt \<Rightarrow> nat \<Rightarrow> nat \<Rightarrow> nat \<Rightarrow> 'w::len ptrit list \<Rightarrow> int \<Rightarrow> nat" where
  "hamming_loop cvt i 0 j p acc = j + 1"
| "hamming_loop cvt i (Suc r) j p acc =
     (let acc = wrap64 (acc + ptrits_sum_slice cvt (HASH_LENGTH_TRIT div 3) p i);
          p = drop (HASH_LENGTH_TRIT div 3) p
      in if acc = 0 then j + 1 else hamming_loop cvt i r (j + 1) p acc)"

definition hamming_test :: "pcurl_conf \<Rightarrow> nat \<Rightarrow> 'w::len pcurl \<Rightarrow> int" where
  "hamming_test cf security pcurl =
     (case find (\<lambda>i. security = hamming_loop (pcvt cf) i security 0 (pstate pcurl) 0) [0..<LENGTH('w)] of
        None \<Rightarrow> - 1
      | Some i \<Rightarrow> int i)"

definition hamming ::
  "nat \<Rightarrow> pcurl_conf \<Rightarrow> 'w::len pcurl \<Rightarrow> Curl \<Rightarrow> nat \<Rightarrow> nat \<Rightarrow> nat \<Rightarrow> PearlDiverStatus \<times> Curl \<Rightarrow> bool"
where
  "hamming cpus cf pcurl ctx bgn end' security = pd_search cpus cf pcurl (hamming_test cf security) ctx bgn end'"

text \<open>\<open>hashcash.c\<close>.\<close>

definition hashcash_test :: "pcurl_conf \<Rightarrow> nat \<Rightarrow> 'w::len pcurl \<Rightarrow> int" where
  "hashcash_test cf mwm pcurl =
     (let p = drop (HASH_LENGTH_TRIT - mwm) (pstate pcurl);
          i = ptrits_find_zero_slice (pcvt cf) mwm p
      in if LENGTH('w) = i then - 1 else int i)"

definition hashcash ::
  "nat \<Rightarrow> pcurl_conf \<Rightarrow> 'w::len pcurl \<Rightarrow> Curl \<Rightarrow> nat \<Rightarrow> nat \<Rightarrow> nat \<Rightarrow> PearlDiverStatus \<times> Curl \<Rightarrow> bool"
where
  "hashcash cpus cf pcurl ctx bgn end' min_weight = pd_search cpus cf pcurl (hashcash_test cf min_weight) ctx bgn end'"

section \<open>The instances\<close>

text \<open>
  What a search keeps of an instance: the range after the fixed part is the same in all slices, the other cells outside of the whole range are
  those of the scalar sponge.
\<close>

definition inst_counter :: "ptrit_cvt \<Rightarrow> 'w::len ptrit search_instance \<Rightarrow> trit list" where
  "inst_counter cvt inst = pslice cvt (slice (inst_begin inst) (inst_end inst - inst_begin inst) (pstate (inst_pcurl inst))) 0"

definition inst_ok :: "pcurl_conf \<Rightarrow> Curl \<Rightarrow> nat \<Rightarrow> nat \<Rightarrow> 'w::len ptrit search_instance \<Rightarrow> bool" where
  "inst_ok cf ctx bgn end' inst \<longleftrightarrow>
     bgn \<le> inst_begin inst \<and> inst_begin inst \<le> inst_end inst \<and> inst_end inst = end'
     \<and> length (pstate (inst_pcurl inst)) = pstate_cells cf \<and> round_count (inst_pcurl inst) = curl_type ctx
     \<and> valid_trits (inst_counter (pcvt cf) inst)
     \<and> slice (inst_begin inst) (inst_end inst - inst_begin inst) (pstate (inst_pcurl inst)) = map (ptrit_fill (pcvt cf)) (inst_counter (pcvt cf) inst)
     \<and> (\<forall>i < LENGTH('w). \<exists>v. valid_trits v \<and> length v = end' - bgn
          \<and> pslice (pcvt cf) (take 729 (pstate (inst_pcurl inst))) i = blit (state ctx) bgn v)"

lemma blit_blit_next: "b + length v + length m \<le> length s \<Longrightarrow> blit (blit s (b + length v) m) b v = blit s b (v @ m)"
  by (simp add: blit_def min_def ac_simps)

lemma take_blit_cells: "off + length ys \<le> n \<Longrightarrow> n \<le> length xs \<Longrightarrow> take n (blit xs off ys) = blit (take n xs) off ys"
  by (auto simp: blit_def drop_take min_absorb1 min_absorb2)

lemma init_insts_ok:
  assumes "curl_ok ctx" "bgn + k \<le> end'" "end' \<le> 729" "k \<le> length val" "valid_trits (take k val)"
    and "length (pstate (pcurl :: 'w::len pcurl)) = pstate_cells cf" "round_count pcurl = curl_type ctx"
    and "\<And>i. i < LENGTH('w) \<Longrightarrow> pslice (pcvt cf) (take 729 (pstate pcurl)) i = blit (state ctx) (bgn + k) (replicate (end' - (bgn + k)) (- 1))"
    and "slice (bgn + k) (end' - (bgn + k)) (pstate pcurl) = map (ptrit_fill (pcvt cf)) (replicate (end' - (bgn + k)) (- 1))"
    and "inst \<in> set (init_insts (pcvt cf) n pcurl bgn end' k val)"
  shows "inst_ok cf ctx bgn end' inst \<and> inst_result inst = - 1"
  using assms(4,5,10)
proof (induction n arbitrary: val)
  case (Suc n)
  let ?ps = "pstate pcurl" and ?m = "replicate (end' - (bgn + k)) (- 1 :: trit)"
  obtain rng val' where io: "ptrit_set_iota (pcvt cf) k (drop bgn ?ps) val = (rng, val')" by fastforce
  have L: "bgn + k \<le> length ?ps" "length (state ctx) = 729" "729 \<le> length ?ps"
    using assms(1-3,6) pstate_cells_simps(2) [of cf] by (simp_all add: curl_ok_def)
  have kd: "k \<le> length (drop bgn ?ps)" "length (take k val) = k" using L Suc.prems(1) by simp_all
  note r = ptrit_set_iota_longer [OF Suc.prems(1) kd(1) Suc.prems(2), where cvt = "pcvt cf", unfolded io fst_conv snd_conv]
  have v': "k \<le> length val'" "valid_trits (take k val')" using r(2) trits_inc_funpow [OF Suc.prems(2)] kd(2) by simp_all
  let ?i = "\<lparr>inst_pcurl = pcurl\<lparr>pstate := take bgn ?ps @ rng\<rparr>, inst_begin = bgn + k, inst_end = end',
           inst_result = - 1, inst_status = SEARCH_RUNNING\<rparr>"
  from Suc.prems(3) io have "inst = ?i \<or> inst \<in> set (init_insts (pcvt cf) n pcurl bgn end' k val')" by simp
  then show ?case
  proof
    assume i: "inst = ?i"
    have "slice (bgn + k) (end' - (bgn + k)) (take bgn ?ps @ rng) = slice (bgn + k) (end' - (bgn + k)) ?ps"
      using r(4) L by (simp add: slice_def add.commute)
    then have c: "slice (bgn + k) (end' - (bgn + k)) (take bgn ?ps @ rng) = map (ptrit_fill (pcvt cf)) ?m" using assms(9) by simp
    have ic: "inst_counter (pcvt cf) inst = ?m" unfolding inst_counter_def i using c ptrits_fill_slice [of ?m 0 "pcvt cf", where 'w = 'w]
      by (simp add: list_all_iff)
    have "\<exists>v. valid_trits v \<and> length v = end' - bgn \<and> pslice (pcvt cf) (take 729 (take bgn ?ps @ rng)) j = blit (state ctx) bgn v" if j: "j < LENGTH('w)" for j
    proof (intro exI conjI)
      let ?v = "(trits_inc ^^ j) (take k val)"
      have v: "valid_trits ?v" "length ?v = k" using trits_inc_funpow [OF Suc.prems(2), of j] kd(2) by auto
      show "valid_trits (?v @ ?m)" using v by (auto simp: list_all_iff)
      show "length (?v @ ?m) = end' - bgn" using v assms(2) by simp
      have S: "take 729 (pslice (pcvt cf) ?ps j) = blit (state ctx) (bgn + k) ?m" using assms(8) [OF j] by (simp add: take_map)
      have "pslice (pcvt cf) (take 729 (take bgn ?ps @ rng)) j = take 729 (take bgn (pslice (pcvt cf) ?ps j) @ ?v @ drop (bgn + k) (pslice (pcvt cf) ?ps j))"
      proof -
        have "pslice (pcvt cf) (take bgn ?ps @ rng) j = take bgn (pslice (pcvt cf) ?ps j) @ ?v @ drop (bgn + k) (pslice (pcvt cf) ?ps j)"
          using r(3) [OF j] by (simp add: take_map drop_map add.commute)
        then show ?thesis by (simp only: take_map [symmetric])
      qed
      also have "\<dots> = take 729 (blit (pslice (pcvt cf) ?ps j) bgn ?v)" by (simp add: blit_def v(2))
      also have "\<dots> = blit (take 729 (pslice (pcvt cf) ?ps j)) bgn ?v" by (rule take_blit_cells) (use L v(2) assms(2,3) in simp_all)
      also have "\<dots> = blit (blit (state ctx) (bgn + k) ?m) bgn ?v" unfolding S ..
      finally show "pslice (pcvt cf) (take 729 (take bgn ?ps @ rng)) j = blit (state ctx) bgn (?v @ ?m)"
        using blit_blit_next [of bgn ?v ?m "state ctx"] v L assms(2,3) by simp
    qed
    then show ?thesis using ic c L r(1) assms(2,6,7) unfolding inst_ok_def i by (auto simp: list_all_iff)
  qed (use Suc.IH [OF v'] in blast)
qed simp

lemma init_inst_ok:
  assumes "curl_ok ctx" "bgn \<le> end'" "end' \<le> 729"
    and "inst \<in> set (init_inst (pcvt cf) n (search_pcurl cf pcurl ctx :: 'w::len pcurl) bgn end')"
  shows "inst_ok cf ctx bgn end' inst \<and> inst_result inst = - 1"
proof -
  define k where "k = min (ptrit_log3 (LENGTH('w) * n)) (end' - bgn)"
  let ?m = "replicate (end' - (bgn + k)) (- 1 :: trit)"
  have k: "bgn + k \<le> end'" using assms(2) by (simp add: k_def)
  have st: "length (state ctx) = 729" "valid_trits (state ctx)" using assms(1) by (simp_all add: curl_ok_def)
  let ?p = "search_pcurl cf pcurl ctx"
  have lp: "length (pstate ?p) = pstate_cells cf" "round_count ?p = curl_type ctx"
    using pstate_cells_simps(2) [of cf] st by (simp_all add: search_pcurl_def ptrit_curl_init_def pcurl_init_def pcurl_reset_def ptrits_fill_def Let_def)
  have tp: "take 729 (pstate ?p) = map (ptrit_fill (pcvt cf)) (state ctx)"
    using st by (simp add: search_pcurl_def ptrits_fill_def Let_def blit_def)
  let ?f = "map (ptrit_fill (pcvt cf)) ?m :: 'w ptrit list"
  let ?q = "?p\<lparr>pstate := blit (pstate ?p) (bgn + k) ?f\<rparr>"
  have f: "ptrits_fill (pcvt cf) (end' - (bgn + k)) (replicate CURL_STATE_SIZE (- 1)) = ?f" using assms(3) by (simp add: ptrits_fill_def)
  have l3: "bgn + k + length ?f \<le> 729" "729 \<le> length (pstate ?p)" using k assms(3) lp pstate_cells_simps(2) [of cf] by simp_all
  have "take 729 (pstate ?q) = blit (take 729 (pstate ?p)) (bgn + k) ?f" using l3 by (simp add: take_blit_cells)
  also have "\<dots> = map (ptrit_fill (pcvt cf)) (blit (state ctx) (bgn + k) ?m)" unfolding tp by (simp add: blit_def take_map drop_map)
  finally have tq: "take 729 (pstate ?q) = map (ptrit_fill (pcvt cf)) (blit (state ctx) (bgn + k) ?m)" .
  have "valid_trits (blit (state ctx) (bgn + k) ?m)" using st(2) by (intro list_all_blit) (simp_all add: list_all_iff)
  then have sl: "pslice (pcvt cf) (take 729 (pstate ?q)) i = blit (state ctx) (bgn + k) ?m" if "i < LENGTH('w)" for i
    unfolding tq using that by (rule ptrits_fill_slice)
  have mid: "slice (bgn + k) (end' - (bgn + k)) (pstate ?q) = ?f" using slice_blit_same [of "bgn + k" "pstate ?p" ?f] l3 by simp
  show ?thesis
  proof (rule init_insts_ok [OF assms(1) k assms(3)])
    show "inst \<in> set (init_insts (pcvt cf) n ?q bgn end' k (replicate CURL_STATE_SIZE (- 1)))"
      using assms(4) unfolding init_inst_def Let_def k_def [symmetric] f .
    show "length (pstate ?q) = pstate_cells cf" using lp l3 by simp
  qed (use k assms(3) lp sl mid in \<open>simp_all add: list_all_iff\<close>)
qed

section \<open>Runs of a search\<close>

text \<open>What a test promises: a result that is not negative is a slice whose state is good.\<close>

locale search_test =
  fixes cf :: pcurl_conf and test :: "'w::len pcurl \<Rightarrow> int" and good :: "trit list \<Rightarrow> bool"
  assumes conf: "conf_ok cf"
    and width: "8 \<le> LENGTH('w)"
    and test_law: "pcurl_ok cf p \<Longrightarrow> 0 \<le> test p \<Longrightarrow> nat (test p) < LENGTH('w) \<and> good (state (curl_slice cf (nat (test p)) p))"

definition search_range :: "pcurl_conf \<Rightarrow> Curl \<Rightarrow> nat \<Rightarrow> nat \<Rightarrow> bool" where
  "search_range cf ctx bgn end' \<longleftrightarrow> curl_ok ctx \<and> bgn \<le> end' \<and> end' \<le> 729 \<and> (play cf = PCURL_STATE_SHORT \<longrightarrow> 3 dvd curl_type ctx)"

definition thread_ok :: "pcurl_conf \<Rightarrow> ('w::len pcurl \<Rightarrow> int) \<Rightarrow> Curl \<Rightarrow> nat \<Rightarrow> nat \<Rightarrow> 'w search_thread \<Rightarrow> bool" where
  "thread_ok cf test ctx bgn end' = (\<lambda>(pc, inst). inst_ok cf ctx bgn end' inst
     \<and> (0 \<le> inst_result inst \<longrightarrow> pc \<in> {AT_REPORT, AT_EXIT} \<and> test (ptrit_transform cf (inst_pcurl inst)) = inst_result inst))"

text \<open>How many steps a thread can still take.\<close>

definition thread_measure :: "ptrit_cvt \<Rightarrow> 'w::len search_thread \<Rightarrow> nat" where
  "thread_measure cvt = (\<lambda>(pc, inst).
     if pc = AT_EXIT then 0
     else 4 * nat (3 ^ length (inst_counter cvt inst) - 1 - 2 * bt_value (inst_counter cvt inst))
       + (case pc of AT_CHECK \<Rightarrow> 3 | AT_TEST \<Rightarrow> 2 | _ \<Rightarrow> 1))"

definition search_measure :: "ptrit_cvt \<Rightarrow> 'w::len search_thread list \<Rightarrow> nat" where
  "search_measure cvt threads = sum_list (map (thread_measure cvt) threads)"

lemma blit_blit_suffix:
  assumes "bgn \<le> b" "b + length w = bgn + length v" "bgn + length v \<le> length s"
  shows "blit (blit s bgn v) b w = blit s bgn (take (b - bgn) v @ w)"
proof -
  have "take b (take bgn s @ v @ drop (bgn + length v) s) = take bgn s @ take (b - bgn) v"
    "drop (b + length w) (take bgn s @ v @ drop (bgn + length v) s) = drop (bgn + length v) s"
    using assms by auto
  then show ?thesis using assms by (simp add: blit_def)
qed

lemma inst_updates [simp]:
  "inst_counter cvt (inst\<lparr>inst_status := x\<rparr>) = inst_counter cvt inst" "inst_counter cvt (inst\<lparr>inst_result := y\<rparr>) = inst_counter cvt inst"
  "inst_ok cf ctx bgn end' (inst\<lparr>inst_status := x\<rparr>) = inst_ok cf ctx bgn end' inst"
  "inst_ok cf ctx bgn end' (inst\<lparr>inst_result := y\<rparr>) = inst_ok cf ctx bgn end' inst"
  by (simp_all add: inst_ok_def inst_counter_def)

lemma inst_pcurl_ok:
  assumes "search_range cf ctx bgn end'" "inst_ok cf ctx bgn end' (inst :: 'w::len ptrit search_instance)"
  shows "pcurl_ok cf (inst_pcurl inst)"
proof -
  have "valid_trits (pslice (pcvt cf) (take 729 (pstate (inst_pcurl inst))) i)" if "i < LENGTH('w)" for i
  proof -
    from assms(2) that obtain v where "valid_trits v" "pslice (pcvt cf) (take 729 (pstate (inst_pcurl inst))) i = blit (state ctx) bgn v"
      unfolding inst_ok_def by blast
    moreover have "valid_trits (state ctx)" using assms(1) by (simp add: search_range_def curl_ok_def)
    ultimately show ?thesis by (simp only: list_all_blit)
  qed
  with assms show ?thesis by (simp add: pcurl_ok_def ptrits_ok_def inst_ok_def search_range_def)
qed

text \<open>Counting up changes the counter and keeps the rest.\<close>

lemma count_ok:
  assumes "search_range cf ctx bgn end'" "inst_ok cf ctx bgn end' (inst :: 'w::len ptrit search_instance)" "8 \<le> LENGTH('w)"
    and "ptrit_hincr (pcvt cf) (slice (inst_begin inst) (inst_end inst - inst_begin inst) (pstate (inst_pcurl inst))) = (overflow, rng)"
    and "inst' = inst\<lparr>inst_pcurl := (inst_pcurl inst)\<lparr>pstate := blit (pstate (inst_pcurl inst)) (inst_begin inst) rng\<rparr>\<rparr>"
  shows "overflow \<longleftrightarrow> list_all (\<lambda>t. t = 1) (inst_counter (pcvt cf) inst)"
    "inst_counter (pcvt cf) inst' = trits_inc (inst_counter (pcvt cf) inst)" "inst_ok cf ctx bgn end' inst'"
proof -
  let ?ts = "inst_counter (pcvt cf) inst" and ?ps = "pstate (inst_pcurl inst)" and ?b = "inst_begin inst"
  have ok: "bgn \<le> ?b" "?b \<le> end'" "inst_end inst = end'" "length ?ps = pstate_cells cf" "valid_trits ?ts"
      "slice ?b (end' - ?b) ?ps = map (ptrit_fill (pcvt cf)) ?ts"
    using assms(2) by (auto simp: inst_ok_def)
  have st: "length (state ctx) = 729" "valid_trits (state ctx)" "end' \<le> 729" using assms(1) by (simp_all add: search_range_def curl_ok_def)
  have big: "729 \<le> length ?ps" using ok(4) pstate_cells_simps(2) [of cf] by simp
  have l: "length ?ts = end' - ?b" using ok(2,3) st(3) big by (simp add: inst_counter_def)
  have h: "overflow = list_all (\<lambda>t. t = 1) ?ts" "rng = map (ptrit_fill (pcvt cf)) (trits_inc ?ts)"
    using assms(4) [unfolded ok(3,6) ptrit_hincr_fill [OF assms(3) ok(5)]] by blast+
  then show "overflow \<longleftrightarrow> list_all (\<lambda>t. t = 1) ?ts" by simp
  have lr: "?b + length rng = end'" using h(2) l ok by simp
  have v: "valid_trits (trits_inc ?ts)" using ok(5) by (rule trits_inc_valid)
  have mid: "slice ?b (end' - ?b) (blit ?ps ?b rng) = rng" 
  proof -
    have "end' - ?b = length rng" "?b \<le> length ?ps" using lr big st(3) by simp_all
    then show ?thesis by (simp only: slice_blit_same)
  qed
  have c': "inst_counter (pcvt cf) inst' = pslice (pcvt cf) rng 0" using mid ok(3) by (simp add: inst_counter_def assms(5))
  show c: "inst_counter (pcvt cf) inst' = trits_inc ?ts" unfolding c' h(2) by (rule ptrits_fill_slice [OF v]) simp
  have "\<exists>w. valid_trits w \<and> length w = end' - bgn \<and> pslice (pcvt cf) (take 729 (blit ?ps ?b rng)) i = blit (state ctx) bgn w" if i: "i < LENGTH('w)" for i
  proof -
    from assms(2) i obtain w where w: "valid_trits w" "length w = end' - bgn" "pslice (pcvt cf) (take 729 ?ps) i = blit (state ctx) bgn w"
      unfolding inst_ok_def by blast
    have "pslice (pcvt cf) (take 729 (blit ?ps ?b rng)) i = blit (pslice (pcvt cf) (take 729 ?ps) i) ?b (pslice (pcvt cf) rng i)"
      using lr st(3) big by (simp add: take_blit_cells) (simp add: blit_def take_map drop_map)
    also have "\<dots> = blit (blit (state ctx) bgn w) ?b (trits_inc ?ts)" unfolding w(3) h(2) ptrits_fill_slice [OF v i] ..
    also have "\<dots> = blit (state ctx) bgn (take (?b - bgn) w @ trits_inc ?ts)"
      by (rule blit_blit_suffix) (use w ok lr h(2) st in auto)
    finally show ?thesis using w v l ok
      by (intro exI [of _ "take (?b - bgn) w @ trits_inc ?ts"]) (simp add: valid_trits_take)
  qed
  then show "inst_ok cf ctx bgn end' inst'"
    using assms(2) c mid h(2) lr big st(3) v unfolding inst_ok_def assms(5) by simp
qed

context search_test
begin

lemma thread_step_ok:
  assumes "search_range cf ctx bgn end'" "thread_ok cf test ctx bgn end' t" "run_search_thread cf test overall t = (overall', t')"
  shows "thread_ok cf test ctx bgn end' t'"
proof -
  obtain pc inst where t: "t = (pc, inst)" by fastforce
  have i: "inst_ok cf ctx bgn end' inst" using assms(2) by (simp add: thread_ok_def t)
  show ?thesis
  proof (cases pc)
    case AT_COUNT
    let ?ps = "pstate (inst_pcurl inst)"
    obtain ov rng where h: "ptrit_hincr (pcvt cf) (slice (inst_begin inst) (inst_end inst - inst_begin inst) ?ps) = (ov, rng)" by fastforce
    note c = count_ok(3) [OF assms(1) i width h refl]
    with assms(2,3) c h AT_COUNT show ?thesis by (auto simp: run_search_thread_def thread_ok_def t Let_def split: if_splits)
  qed (use assms(2,3) i in \<open>auto simp: run_search_thread_def thread_ok_def t Let_def split: if_splits\<close>)
qed

lemma thread_step_measure:
  assumes "search_range cf ctx bgn end'" "thread_ok cf test ctx bgn end' t" "run_search_thread cf test overall t = (overall', t')" "fst t \<noteq> AT_EXIT"
  shows "thread_measure (pcvt cf) t' < thread_measure (pcvt cf) t"
proof -
  obtain pc inst where t: "t = (pc, inst)" by fastforce
  have i: "inst_ok cf ctx bgn end' inst" using assms(2) by (simp add: thread_ok_def t)
  show ?thesis
  proof (cases pc)
    case AT_COUNT
    let ?ps = "pstate (inst_pcurl inst)" and ?ts = "inst_counter (pcvt cf) inst"
    obtain ov rng where h: "ptrit_hincr (pcvt cf) (slice (inst_begin inst) (inst_end inst - inst_begin inst) ?ps) = (ov, rng)" by fastforce
    note c = count_ok [OF assms(1) i width h refl]
    have v: "valid_trits ?ts" using i by (simp add: inst_ok_def)
    have "2 * bt_value ?ts + 1 < 3 ^ length ?ts" if "\<not> ov"
      using that c(1) list_all_ones_value [OF v] bt_value_bound [OF v] by linarith
    with assms(3) c(1,2) trits_inc_value [OF v] h AT_COUNT show ?thesis
      by (auto simp: run_search_thread_def thread_measure_def t Let_def split: if_splits)
  qed (use assms(3,4) in \<open>auto simp: run_search_thread_def thread_measure_def t Let_def split: if_splits\<close>)
qed

lemma search_step_ok:
  assumes "search_range cf ctx bgn end'" "search_step cf test s s'" "list_all (thread_ok cf test ctx bgn end') (snd s)"
  shows "list_all (thread_ok cf test ctx bgn end') (snd s')" "search_measure (pcvt cf) (snd s') < search_measure (pcvt cf) (snd s)"
proof -
  from assms(2) obtain i threads overall overall' t where
    s: "s = (overall, threads)" "s' = (overall', threads[i := t])" and
    i: "i < length threads" "fst (threads ! i) \<noteq> AT_EXIT" "run_search_thread cf test overall (threads ! i) = (overall', t)"
    by (auto elim: search_step.cases)
  have ok: "thread_ok cf test ctx bgn end' (threads ! i)" using assms(3) i(1) by (simp add: s list_all_length)
  have "thread_ok cf test ctx bgn end' t" using thread_step_ok [OF assms(1) ok i(3)] .
  then show "list_all (thread_ok cf test ctx bgn end') (snd s')"
    using assms(3) by (auto simp: s list_all_iff dest!: set_update_subset_insert [THEN subsetD])
  have "thread_measure (pcvt cf) t < thread_measure (pcvt cf) (threads ! i)" using thread_step_measure [OF assms(1) ok i(3,2)] .
  with i(1) show "search_measure (pcvt cf) (snd s') < search_measure (pcvt cf) (snd s)"
    using elem_le_sum_list [of i "map (thread_measure (pcvt cf)) threads"]
    by (simp add: s search_measure_def map_update sum_list_update)
qed

lemma search_steps_ok:
  assumes "search_range cf ctx bgn end'" "(search_step cf test)\<^sup>*\<^sup>* s s'" "list_all (thread_ok cf test ctx bgn end') (snd s)"
  shows "list_all (thread_ok cf test ctx bgn end') (snd s')"
  using assms(2,3) by (induction rule: rtranclp_induct) (use search_step_ok(1) [OF assms(1)] in blast)+

lemma pt_start_ok:
  assumes "search_range cf ctx bgn end'"
  shows "list_all (thread_ok cf test ctx bgn end') (pt_start created (init_inst (pcvt cf) n (search_pcurl cf pcurl ctx) bgn end'))"
proof -
  have "inst_ok cf ctx bgn end' inst \<and> inst_result inst = - 1" if "inst \<in> set (init_inst (pcvt cf) n (search_pcurl cf pcurl ctx :: 'w pcurl) bgn end')" for inst
    using init_inst_ok [of ctx bgn end' inst] that assms by (simp add: search_range_def)
  then show ?thesis by (auto simp: pt_start_def list_all_iff thread_ok_def dest!: set_zip_rightD)
qed

text \<open>A search that reports success has put a nonce into the range whose transformed state is good.\<close>

lemma search_sound:
  assumes "search_range cf ctx bgn end'" "pd_search_n cf pcurl test ctx bgn end' n (st, ctx')"
  shows "(st = PEARL_DIVER_SUCCESS \<and> (\<exists>nonce. valid_trits nonce \<and> length nonce = end' - bgn \<and> ctx' = ctx\<lparr>state := blit (state ctx) bgn nonce\<rparr>)
      \<and> good (state (transform ctx'))) \<or> (st = PEARL_DIVER_ERROR \<and> ctx' = ctx)"
  using assms(2)
proof (cases rule: pd_search_n.cases)
  case (joined created overall threads)
  have ok: "list_all (thread_ok cf test ctx bgn end') threads"
    using search_steps_ok [OF assms(1) joined(3)] pt_start_ok [OF assms(1)] by simp
  show ?thesis
  proof (cases "find (\<lambda>t. 0 \<le> inst_result (snd t)) (rev threads)")
    case None
    with joined(1) show ?thesis by (simp add: search_collect_def)
  next
    case (Some t)
    then have r0: "0 \<le> inst_result (snd t)" and "t \<in> set (rev threads)" unfolding find_Some_iff by (auto intro: nth_mem simp del: set_rev)
    then have "t \<in> set threads" by simp
    with ok have t: "thread_ok cf test ctx bgn end' t" by (simp add: list_all_iff)
    obtain pc inst where ti: "t = (pc, inst)" by fastforce
    define r where "r = nat (inst_result inst)"
    have i: "inst_ok cf ctx bgn end' inst" and res: "test (ptrit_transform cf (inst_pcurl inst)) = inst_result inst"
      using t r0 by (simp_all add: thread_ok_def ti)
    note p = inst_pcurl_ok [OF assms(1) i]
    have q: "pcurl_ok cf (ptrit_transform cf (inst_pcurl inst))" using transform_slice(1) [OF conf p] by (simp add: ptrit_transform_def)
    have law: "r < LENGTH('w)" "good (state (curl_slice cf r (ptrit_transform cf (inst_pcurl inst))))"
      using test_law [OF q] res r0 by (simp_all add: r_def ti)
    from i law(1) obtain v where v: "valid_trits v" "length v = end' - bgn" "pslice (pcvt cf) (take 729 (pstate (inst_pcurl inst))) r = blit (state ctx) bgn v"
      unfolding inst_ok_def by blast
    have st: "length (state ctx) = 729" "bgn \<le> end'" "end' \<le> 729" using assms(1) by (simp_all add: search_range_def curl_ok_def)
    have "ptrits_get_slice (pcvt cf) (end' - bgn) (drop bgn (pstate (inst_pcurl inst))) r = slice bgn (end' - bgn) (pslice (pcvt cf) (take 729 (pstate (inst_pcurl inst))) r)"
      using st by (simp add: ptrits_get_slice_def slice_def take_map drop_map drop_take min_def)
    also have "\<dots> = v" unfolding v(3) using slice_blit_same [of bgn "state ctx" v] v(2) st by simp
    finally have e: "ctx' = ctx\<lparr>state := blit (state ctx) bgn v\<rparr>" "st = PEARL_DIVER_SUCCESS"
      using joined(1) Some by (simp_all add: search_collect_def ti r_def)
    have "curl_slice cf r (inst_pcurl inst) = ctx'" using i v(3) by (simp add: curl_slice_def e inst_ok_def)
    with transform_slice(2) [OF conf p law(1)] law(2) e v show ?thesis by (auto simp: ptrit_transform_def)
  qed
qed simp

text \<open>Every schedule ends, after a number of steps that the start bounds; no schedule gets stuck before all threads have left their loops.\<close>

lemma search_bounded:
  assumes "search_range cf ctx bgn end'" "(search_step cf test ^^ k) s s'" "list_all (thread_ok cf test ctx bgn end') (snd s)"
  shows "k + search_measure (pcvt cf) (snd s') \<le> search_measure (pcvt cf) (snd s)"
  using assms(2,3)
proof (induction k arbitrary: s)
  case (Suc k)
  then obtain u where u: "search_step cf test s u" "(search_step cf test ^^ k) u s'" by (meson relpowp_Suc_D2)
  from search_step_ok [OF assms(1) u(1) Suc.prems(2)] Suc.IH [OF u(2)] show ?case by simp
qed simp

lemma search_terminates:
  assumes "search_range cf ctx bgn end'" "list_all (thread_ok cf test ctx bgn end') (snd s)"
  shows "\<exists>overall threads. (search_step cf test)\<^sup>*\<^sup>* s (overall, threads) \<and> list_all (\<lambda>t. fst t = AT_EXIT) threads"
  using assms(2)
proof (induction "search_measure (pcvt cf) (snd s)" arbitrary: s rule: less_induct)
  case less
  obtain overall threads where s: "s = (overall, threads)" by fastforce
  show ?case
  proof (cases "list_all (\<lambda>t. fst t = AT_EXIT) threads")
    case False
    then obtain i where i: "i < length threads" "fst (threads ! i) \<noteq> AT_EXIT" by (auto simp: list_all_length)
    obtain overall' t where "run_search_thread cf test overall (threads ! i) = (overall', t)" by (metis surj_pair)
    with i have st: "search_step cf test s (overall', threads[i := t])" unfolding s by (rule search_step.step)
    from less.hyps [OF search_step_ok(2) [OF assms(1) st less.prems] search_step_ok(1) [OF assms(1) st less.prems]] st
    show ?thesis by (meson converse_rtranclp_into_rtranclp)
  qed (auto simp: s)
qed

end

section \<open>The tests\<close>

definition window_sum :: "nat \<Rightarrow> trit list \<Rightarrow> int" where
  "window_sum k s = sum_list (take (81 * k) s)"

text \<open>The sum of the first \<open>k\<close> thirds of a hash is zero, and no shorter one is.\<close>

definition zero_window :: "nat \<Rightarrow> trit list \<Rightarrow> bool" where
  "zero_window k s \<longleftrightarrow> 0 < k \<and> window_sum k s = 0 \<and> (\<forall>j \<in> {1..<k}. window_sum j s \<noteq> 0)"

lemma sum_list_trits_bound: "valid_trits ts \<Longrightarrow> \<bar>sum_list ts\<bar> \<le> int (length ts)"
proof (induction ts)
  case (Cons t ts)
  then have "\<bar>t\<bar> \<le> 1" "\<bar>sum_list ts\<bar> \<le> int (length ts)" by (auto simp: is_trit_def)
  then show ?case by simp
qed simp

lemma hamming_loop_zero:
  assumes "ptrits_ok cvt (take 729 (ps :: 'w::len ptrit list))" "729 \<le> length ps" "i < LENGTH('w)" "s = pslice cvt (take 729 ps) i"
    and "j + r \<le> 3" "acc = window_sum j s" "\<forall>k \<in> {1..j}. window_sum k s \<noteq> 0" "hamming_loop cvt i r j (drop (81 * j) ps) acc = j + r"
  shows "zero_window (j + r) s"
  using assms(5-8)
proof (induction r arbitrary: j acc)
  case (Suc r)
  let ?p = "drop (81 * j) ps"
  have s: "valid_trits s" "length s = 729" using assms(1-4) by (simp_all add: ptrits_ok_def)
  have j: "81 * j + 81 \<le> 729" using Suc.prems(1) by simp
  have tp: "take 81 ?p = slice (81 * j) 81 (take 729 ps)" using j by (simp add: slice_def drop_take min_def)
  then have "ptrits_ok cvt (take 81 ?p)" using ptrits_ok_subset [OF assms(1) set_slice_subset] by simp
  then have "ptrits_sum_slice cvt 81 ?p i = sum_list (pslice cvt (take 81 ?p) i)"
    using ptrits_sum_slice_correct [of cvt "take 81 ?p" i 81] assms(3) by (simp add: ptrits_sum_slice_def)
  also have "pslice cvt (take 81 ?p) i = slice (81 * j) 81 s" unfolding tp assms(4) by (simp add: slice_def take_map drop_map)
  finally have "ptrits_sum_slice cvt 81 ?p i = sum_list (slice (81 * j) 81 s)" .
  moreover have "take (81 * (j + 1)) s = take (81 * j) s @ slice (81 * j) 81 s" unfolding slice_def by (simp only: distrib_left mult_1_right take_add)
  ultimately have sm: "acc + ptrits_sum_slice cvt 81 ?p i = window_sum (j + 1) s" using Suc.prems(2) by (simp add: window_sum_def)
  have "\<bar>window_sum (j + 1) s\<bar> \<le> 729"
    using sum_list_trits_bound [OF valid_trits_take [OF s(1)], of "81 * (j + 1)"] s(2) by (simp add: window_sum_def)
  then have w: "wrap64 (window_sum (j + 1) s) = window_sum (j + 1) s" by (intro wrap64_id) auto
  have d: "HASH_LENGTH_TRIT div 3 = 81" "drop 81 ?p = drop (81 * (j + 1)) ps" by (simp_all add: add.commute)
  have step: "hamming_loop cvt i (Suc r) j ?p acc
      = (if window_sum (j + 1) s = 0 then j + 1 else hamming_loop cvt i r (j + 1) (drop (81 * (j + 1)) ps) (window_sum (j + 1) s))"
    unfolding hamming_loop.simps Let_def d sm w ..
  show ?case
  proof (cases "window_sum (j + 1) s = 0")
    case True
    with Suc.prems(4) step have "r = 0" by simp
    with True Suc.prems(3) show ?thesis by (auto simp: zero_window_def)
  next
    case False
    with Suc.prems(4) step have "hamming_loop cvt i r (j + 1) (drop (81 * (j + 1)) ps) (window_sum (j + 1) s) = j + 1 + r" by simp
    moreover have "\<forall>k \<in> {1..j + 1}. window_sum k s \<noteq> 0" using Suc.prems(3) False by (auto simp: le_Suc_eq)
    moreover have "j + 1 + r \<le> 3" using Suc.prems(1) by simp
    ultimately have "zero_window (j + 1 + r) s" by (intro Suc.IH [OF _ refl])
    then show ?thesis by simp
  qed
qed simp

lemma hamming_search_test:
  assumes "conf_ok cf" "8 \<le> LENGTH('w::len)"
  shows "search_test cf (hamming_test cf security :: 'w pcurl \<Rightarrow> int) (\<lambda>s. security \<le> 3 \<longrightarrow> zero_window security s)"
proof (rule search_test.intro [OF assms], intro conjI impI)
  fix p :: "'w pcurl" assume p: "pcurl_ok cf p" "0 \<le> hamming_test cf security p"
  then obtain i where "find (\<lambda>i. security = hamming_loop (pcvt cf) i security 0 (pstate p) 0) [0..<LENGTH('w)] = Some i"
    and e: "hamming_test cf security p = int i" by (auto simp: hamming_test_def split: option.splits)
  then have i: "i < LENGTH('w)" "security = hamming_loop (pcvt cf) i security 0 (pstate p) 0" by (auto simp: find_Some_iff)
  with e show "nat (hamming_test cf security p) < LENGTH('w)" by simp
  assume "security \<le> 3"
  with i p(1) pstate_cells_simps(2) [of cf] show "zero_window security (state (curl_slice cf (nat (hamming_test cf security p)) p))"
    using hamming_loop_zero [of "pcvt cf" "pstate p" i _ 0 security 0] by (simp add: e curl_slice_def pcurl_ok_def window_sum_def)
qed

lemma hashcash_search_test:
  assumes "conf_ok cf" "64 dvd LENGTH('w::len)"
  shows "search_test cf (hashcash_test cf mwm :: 'w pcurl \<Rightarrow> int) (\<lambda>s. mwm \<le> 243 \<longrightarrow> slice (243 - mwm) mwm s = replicate mwm 0)"
proof (rule search_test.intro [OF assms(1)], goal_cases)
  case 1
  show ?case using assms(2) len_gt_0 [where ?'a = 'w] by (auto dest!: dvd_imp_le)
next
  case (2 p)
  let ?p = "drop (243 - mwm) (pstate p)"
  note f = ptrits_find_zero_slice_correct [OF assms(2) refl, where cvt = "pcvt cf" and n = mwm and ps = ?p]
  from 2(2) f(1) have r: "hashcash_test cf mwm p = int (ptrits_find_zero_slice (pcvt cf) mwm ?p)" "ptrits_find_zero_slice (pcvt cf) mwm ?p < LENGTH('w)"
    by (auto simp: hashcash_test_def Let_def split: if_splits)
  have l: "729 \<le> length (pstate p)" using 2(1) pstate_cells_simps(2) [of cf] by (simp add: pcurl_ok_def)
  have "slice (243 - mwm) mwm (state (curl_slice cf i p)) = pslice (pcvt cf) (take mwm ?p) i" if "mwm \<le> 243" for i
    using that by (simp add: curl_slice_def slice_def take_map drop_map drop_take min_def)
  with f(2) r l show ?case by (auto simp: min_def)
qed

lemma pcurl_default_ok: "conf_ok pcurl_default"
  by (simp add: conf_ok_def pcurl_default_def)

interpretation hamming_search: search_test pcurl_default "hamming_test pcurl_default security :: 64 pcurl \<Rightarrow> int"
    "\<lambda>s. security \<le> 3 \<longrightarrow> zero_window security s" for security
  by (rule hamming_search_test) (simp_all add: pcurl_default_ok)

interpretation hashcash_search: search_test pcurl_default "hashcash_test pcurl_default mwm :: 64 pcurl \<Rightarrow> int"
    "\<lambda>s. mwm \<le> 243 \<longrightarrow> slice (243 - mwm) mwm s = replicate mwm 0" for mwm
  by (rule hashcash_search_test) (simp_all add: pcurl_default_ok)

section \<open>Properties\<close>

text \<open>
  C32. A search for a nonce is sound under every schedule of its threads: if \<open>hashcash\<close> reports success, it has changed only the range of the
  nonce, and the transformed state ends its hash with as many zeros as required; if \<open>hamming\<close> does, the sums of the thirds of the hash are zero for the
  first time after \<open>security\<close> of them. Otherwise both report an error and change nothing.
\<close>

theorem pearl_diver_sound:
  assumes "conf_ok cf" "64 dvd LENGTH('w::len)" "search_range cf ctx bgn end'"
  shows "(hashcash cpus cf (pcurl :: 'w pcurl) ctx bgn end' mwm (st, ctx') \<and> mwm \<le> 243 \<longrightarrow>
      (st = PEARL_DIVER_SUCCESS \<and> (\<exists>nonce. valid_trits nonce \<and> length nonce = end' - bgn \<and> ctx' = ctx\<lparr>state := blit (state ctx) bgn nonce\<rparr>)
        \<and> slice (243 - mwm) mwm (state (transform ctx')) = replicate mwm 0) \<or> (st = PEARL_DIVER_ERROR \<and> ctx' = ctx))
    \<and> (hamming cpus cf pcurl ctx bgn end' security (st, ctx') \<and> security \<le> 3 \<longrightarrow>
      (st = PEARL_DIVER_SUCCESS \<and> (\<exists>nonce. valid_trits nonce \<and> length nonce = end' - bgn \<and> ctx' = ctx\<lparr>state := blit (state ctx) bgn nonce\<rparr>)
        \<and> zero_window security (state (transform ctx'))) \<or> (st = PEARL_DIVER_ERROR \<and> ctx' = ctx))"
proof -
  have "8 \<le> LENGTH('w)" using assms(2) len_gt_0 [where ?'a = 'w] by (auto dest!: dvd_imp_le)
  note h = search_test.search_sound [OF hamming_search_test [OF assms(1) this] assms(3)]
  note c = search_test.search_sound [OF hashcash_search_test [OF assms(1,2)] assms(3)]
  show ?thesis unfolding hashcash_def hamming_def pd_search_def using h [of pcurl] c [of pcurl] by blast
qed

text \<open>A run of one thread: with a weight of zero the first slice passes.\<close>

abbreviation zero_curl :: Curl where "zero_curl \<equiv> \<lparr>state = replicate 729 0, curl_type = 81\<rparr>"

lemma zero_curl_range: "search_range pcurl_default zero_curl 162 243"
  by (simp add: search_range_def curl_ok_def pcurl_default_def)

lemma hashcash_weightless: "hashcash_test pcurl_default 0 (p :: 64 pcurl) = 0"
  by (simp add: hashcash_test_def ptrits_find_zero_slice_def pcurl_default_def) code_simp

lemma hashcash_run: "\<exists>ctx'. hashcash 1 pcurl_default pcurl_null ctx 162 243 0 (PEARL_DIVER_SUCCESS, ctx')"
proof -
  let ?test = "hashcash_test pcurl_default 0 :: 64 pcurl \<Rightarrow> int"
  define insts where "insts = init_inst (pcvt pcurl_default) 1 (search_pcurl pcurl_default pcurl_null ctx) 162 243"
  have "length insts = 1" by (simp add: insts_def init_inst_def Let_def split_beta)
  then obtain inst where i: "insts = [inst]" by (auto simp: length_Suc_conv)
  let ?i = "inst\<lparr>inst_status := SEARCH_RUNNING, inst_result := 0\<rparr>"
  have s: "search_step pcurl_default ?test (o1, [t]) (o2, [t'])" if "fst t \<noteq> AT_EXIT" "run_search_thread pcurl_default ?test o1 t = (o2, t')" for o1 o2 t t'
    using search_step.step [of 0 "[t]" pcurl_default ?test o1 o2 t'] that by simp
  have "search_step pcurl_default ?test (SEARCH_RUNNING, [(AT_CHECK, inst)]) (SEARCH_RUNNING, [(AT_TEST, inst\<lparr>inst_status := SEARCH_RUNNING\<rparr>)])"
    "search_step pcurl_default ?test (SEARCH_RUNNING, [(AT_TEST, inst\<lparr>inst_status := SEARCH_RUNNING\<rparr>)]) (SEARCH_RUNNING, [(AT_REPORT, ?i)])"
    "search_step pcurl_default ?test (SEARCH_RUNNING, [(AT_REPORT, ?i)]) (SEARCH_FINISHED, [(AT_EXIT, ?i)])"
    by (intro s; simp add: run_search_thread_def hashcash_weightless)+
  then have run: "(search_step pcurl_default ?test)\<^sup>*\<^sup>* (SEARCH_RUNNING, pt_start [True] insts) (SEARCH_FINISHED, [(AT_EXIT, ?i)])"
    by (simp add: pt_start_def i)
  from pd_search_n.joined [of "[True]", OF _ run [unfolded insts_def]] show ?thesis
    by (auto simp: hashcash_def pd_search_def search_collect_def)
qed

lemma hashcash_returns:
  assumes "conf_ok cf" "64 dvd LENGTH('w::len)" "search_range cf ctx bgn end'"
  shows "\<exists>r. hashcash cpus cf (pcurl :: 'w pcurl) ctx bgn end' mwm r"
proof -
  note t = hashcash_search_test [OF assms(1,2), of mwm]
  let ?created = "replicate cpus True"
  let ?s = "(SEARCH_RUNNING, pt_start ?created (init_inst (pcvt cf) cpus (search_pcurl cf pcurl ctx) bgn end'))"
  have "list_all (thread_ok cf (hashcash_test cf mwm) ctx bgn end') (snd ?s)" using search_test.pt_start_ok [OF t assms(3)] by simp
  from search_test.search_terminates [OF t assms(3) this] obtain overall threads where
    e: "(search_step cf (hashcash_test cf mwm))\<^sup>*\<^sup>* ?s (overall, threads)" "list_all (\<lambda>t. fst t = AT_EXIT) threads" by blast
  show ?thesis unfolding hashcash_def pd_search_def by (rule exI, rule pd_search_n.joined [OF _ e]) simp
qed

theorem pearl_diver_sound_witness:
  "\<exists>ctx' nonce. hashcash 1 pcurl_default pcurl_null zero_curl 162 243 0 (PEARL_DIVER_SUCCESS, ctx') \<and> length nonce = 81
     \<and> state ctx' = blit (replicate 729 0) 162 nonce"
proof -
  obtain ctx' where r: "hashcash 1 pcurl_default pcurl_null zero_curl 162 243 0 (PEARL_DIVER_SUCCESS, ctx')" using hashcash_run by blast
  from pearl_diver_sound [OF pcurl_default_ok _ zero_curl_range, of 1 pcurl_null 0 PEARL_DIVER_SUCCESS ctx' 0] r
  obtain nonce where "length nonce = 81" "ctx' = zero_curl\<lparr>state := blit (state zero_curl) 162 nonce\<rparr>" by auto
  with r show ?thesis by (intro exI [of _ ctx'] exI [of _ nonce]) simp
qed

text \<open>
  C33. A search ends: from the start with any set of started threads, every schedule has at most as many steps as the measure of the start
  says, and some continuation of every schedule reaches the state in which all threads have left their loops. So the call returns.
\<close>

theorem pearl_diver_terminates:
  assumes "conf_ok cf" "64 dvd LENGTH('w::len)" "search_range cf ctx bgn end'"
    and "s = (SEARCH_RUNNING, pt_start created (init_inst (pcvt cf) cpus (search_pcurl cf (pcurl :: 'w pcurl) ctx) bgn end'))"
    and "length created = cpus" "(search_step cf (hashcash_test cf mwm) ^^ k) s s'"
  shows "k \<le> search_measure (pcvt cf) (snd s)
    \<and> (\<exists>overall threads. (search_step cf (hashcash_test cf mwm))\<^sup>*\<^sup>* s' (overall, threads) \<and> list_all (\<lambda>t. fst t = AT_EXIT) threads
      \<and> hashcash cpus cf pcurl ctx bgn end' mwm (search_collect cf ctx bgn end' threads))"
proof -
  note t = hashcash_search_test [OF assms(1,2), of mwm]
  have ok: "list_all (thread_ok cf (hashcash_test cf mwm) ctx bgn end') (snd s)"
    unfolding assms(4) using search_test.pt_start_ok [OF t assms(3)] by simp
  have run: "(search_step cf (hashcash_test cf mwm))\<^sup>*\<^sup>* s s'" using assms(6) by (rule relpowp_imp_rtranclp)
  from search_test.search_terminates [OF t assms(3) search_test.search_steps_ok [OF t assms(3) run ok]]
  obtain overall threads where e: "(search_step cf (hashcash_test cf mwm))\<^sup>*\<^sup>* s' (overall, threads)" "list_all (\<lambda>t. fst t = AT_EXIT) threads" by blast
  have "hashcash cpus cf pcurl ctx bgn end' mwm (search_collect cf ctx bgn end' threads)" unfolding hashcash_def pd_search_def
    by (rule pd_search_n.joined [OF assms(5) rtranclp_trans [OF run [unfolded assms(4)] e(1)] e(2)])
  with search_test.search_bounded [OF t assms(3,6) ok] e show ?thesis by auto
qed

theorem pearl_diver_terminates_witness:
  "\<exists>overall threads. (search_step pcurl_default (hashcash_test pcurl_default 14))\<^sup>*\<^sup>*
     (SEARCH_RUNNING, pt_start [True, False] (init_inst (pcvt pcurl_default) 2 (search_pcurl pcurl_default pcurl_null zero_curl) 162 243)) (overall, threads)
     \<and> list_all (\<lambda>t. fst t = AT_EXIT) threads"
proof -
  let ?s = "(SEARCH_RUNNING, pt_start [True, False] (init_inst (pcvt pcurl_default) 2 (search_pcurl pcurl_default pcurl_null zero_curl) 162 243))"
  have "(search_step pcurl_default (hashcash_test pcurl_default 14) ^^ 0) ?s ?s" by simp
  from pearl_diver_terminates [OF pcurl_default_ok _ zero_curl_range refl _ this] show ?thesis by auto
qed

end
