(* ===== verification/Iss_V2.thy ===== *)
theory Iss_V2
  imports Prelude Trit_Add Curl Sponge_Contract Sponge Iss
begin

text \<open>
  \<open>common/crypto/iss/v2\<close>: the second version of the signing scheme, used by the messaging prototype. Instead of normalising the hash, a hash is
  signed whose first thirds add up to zero; their number is the window, and the fragments of the signature run through the window in a circle.
  As in \<open>Iss\<close>, the templates take the sponge functions as the record \<open>hash_ops\<close>, and a result \<open>None\<close> is a failed assertion of the sponge.
\<close>

section \<open>Definitions\<close>

definition ISS_CHUNK_LENGTH :: nat where "ISS_CHUNK_LENGTH = HASH_LENGTH_TRIT div 3"

definition ISS2_subseed :: "'s hash_ops \<Rightarrow> 's \<Rightarrow> trit list \<Rightarrow> int \<Rightarrow> ('s \<times> trit list) option" where
  "ISS2_subseed ops st seed index =
     (let out = take HASH_LENGTH_TRIT seed;
          out = snd (add_assign out index)
      in hash_step ops st out HASH_LENGTH_TRIT)"

text \<open>\<open>key\<close> is squeezed at once; then every chunk is hashed in place.\<close>

definition ISS2_key :: "'s hash_ops \<Rightarrow> 's \<Rightarrow> trit list \<Rightarrow> nat \<Rightarrow> (int \<times> 's \<times> trit list) option" where
  "ISS2_key ops st subseed key_length =
     (if key_length mod HASH_LENGTH_TRIT \<noteq> 0 then Some (- 1, st, [])
      else case hash_step ops st (take HASH_LENGTH_TRIT subseed) key_length of
             None \<Rightarrow> None
           | Some (st, key) \<Rightarrow>
               (case hash_chunks ops (\<lambda>_. 1) 0 (key_length div HASH_LENGTH_TRIT) st key of
                  None \<Rightarrow> None
                | Some (st, key) \<Rightarrow> Some (0, st, key)))"

text \<open>\<open>digest\<close> leaves the chunk as it is when \<open>count\<close> is out of range; its return value is ignored by the callers.\<close>

definition digest_count :: "int \<Rightarrow> nat" where
  "digest_count count = (if count \<ge> 27 \<or> count < 0 then 0 else nat count)"

definition ISS2_digest :: "'s hash_ops \<Rightarrow> 's \<Rightarrow> trit list \<Rightarrow> int \<Rightarrow> (int \<times> 's \<times> trit list) option" where
  "ISS2_digest ops st chunk count =
     (if count \<ge> 27 \<or> count < 0 then Some (1, st, chunk)
      else map_option (\<lambda>(st, chunk). (0, st, chunk)) (hash_times ops (nat count) st chunk))"

definition ISS2_key_digest :: "'s hash_ops \<Rightarrow> 's \<Rightarrow> trit list \<Rightarrow> nat \<Rightarrow> (int \<times> 's \<times> trit list \<times> trit list) option" where
  "ISS2_key_digest ops st key key_length =
     (if key_length mod HASH_LENGTH_TRIT \<noteq> 0 then Some (- 1, st, key, [])
      else case hash_chunks ops (\<lambda>_. digest_count 26) 0 (key_length div HASH_LENGTH_TRIT) st key of
             None \<Rightarrow> None
           | Some (st, key) \<Rightarrow>
               (case hash_step ops st key HASH_LENGTH_TRIT of None \<Rightarrow> None | Some (st, digest) \<Rightarrow> Some (0, st, key, digest)))"

definition ISS2_address :: "'s hash_ops \<Rightarrow> 's \<Rightarrow> trit list \<Rightarrow> nat \<Rightarrow> ('s \<times> trit list) option" where
  "ISS2_address ops st digest len = hash_step ops st (take len digest) HASH_LENGTH_TRIT"

text \<open>The loop of \<open>signed_window\<close>, with \<open>n\<close> thirds left and \<open>i\<close> the number of the next one.\<close>

primrec signed_window_loop :: "nat \<Rightarrow> nat \<Rightarrow> int \<Rightarrow> trit list \<Rightarrow> nat" where
  "signed_window_loop 0 i acc hash = 0"
| "signed_window_loop (Suc n) i acc hash =
     (let acc = wrap64 (acc + sum_list (take (HASH_LENGTH_TRIT div 3) hash))
      in if acc = 0 then i else signed_window_loop n (i + 1) acc (drop (HASH_LENGTH_TRIT div 3) hash))"

definition signed_window :: "trit list \<Rightarrow> nat" where
  "signed_window hash = signed_window_loop 3 1 0 hash"

text \<open>
  The two nested loops over the \<open>n\<close> chunks that are left of a signature: the inner one hashes up to 27 chunks with the trytes of the fragment \<open>i\<close> of the
  hash, then the next fragment of the window follows. \<open>count\<close> gives the number of rounds for a tryte.
\<close>

function window_loop ::
  "'s hash_ops \<Rightarrow> (nat \<Rightarrow> int) \<Rightarrow> nat \<Rightarrow> nat \<Rightarrow> nat \<Rightarrow> 's \<Rightarrow> trit list \<Rightarrow> ('s \<times> trit list) option"
where
  "window_loop ops count window i n st sig =
     (if n = 0 then Some (st, [])
      else case hash_chunks ops (\<lambda>j. digest_count (count j)) (i * 27) (min 27 n) st sig of
             None \<Rightarrow> None
           | Some (st, part) \<Rightarrow>
               (case window_loop ops count window ((i + 1) mod window) (n - 27) st (drop (243 * 27) sig) of
                  None \<Rightarrow> None
                | Some (st, rest) \<Rightarrow> Some (st, part @ rest)))"
  by pat_completeness auto
termination
  by (relation "measure (\<lambda>(ops, count, window, i, n, st, sig). n)") auto

declare window_loop.simps [simp del]

text \<open>The tryte \<open>s = hash[j] + hash[j + 1] * 3 + hash[j + 2] * 9\<close> is \<open>HASH_TRYTE_VAL\<close> of \<open>Iss\<close>, at \<open>j div 3\<close>.\<close>

definition ISS2_signature ::
  "'s hash_ops \<Rightarrow> 's \<Rightarrow> trit list \<Rightarrow> nat \<Rightarrow> trit list \<Rightarrow> nat \<Rightarrow> (int \<times> 's \<times> trit list) option"
where
  "ISS2_signature ops st hash start_offset key key_len =
     (let sig = take key_len key; window = signed_window hash
      in if window = 0 then Some (1, st, sig)
         else map_option (\<lambda>(st, sig). (0, st, sig))
           (window_loop ops (\<lambda>j. TRYTE_VALUE_MAX - HASH_TRYTE_VAL hash j) window (start_offset mod window) ((key_len + 242) div 243) st sig))"

text \<open>
  All \<open>window\<close> fragments from the start of the array are absorbed, whatever \<open>sig_len\<close> is; \<open>sig\<close> is the whole array. The result holds
  the new contents of the array and the digest.
\<close>

definition ISS2_sig_digest ::
  "'s hash_ops \<Rightarrow> 's \<Rightarrow> trit list \<Rightarrow> nat \<Rightarrow> trit list \<Rightarrow> nat \<Rightarrow> (int \<times> 's \<times> trit list \<times> trit list) option"
where
  "ISS2_sig_digest ops st hash offset sig sig_len =
     (let window = signed_window hash
      in if window = 0 then Some (1, st, sig, [])
         else case window_loop ops (\<lambda>j. HASH_TRYTE_VAL hash j - TRYTE_VALUE_MIN) window (offset mod window) ((sig_len + 242) div 243) st sig of
                None \<Rightarrow> None
              | Some (st, part) \<Rightarrow>
                  let sig = part @ drop (length part) sig
                  in (case hash_step ops st (take (window * ISS_KEY_LENGTH) sig) HASH_LENGTH_TRIT of
                        None \<Rightarrow> None
                      | Some (st, dig) \<Rightarrow> Some (0, st, sig, dig)))"

section \<open>The window\<close>

lemma sum_list_valid_bound: "valid_trits ts \<Longrightarrow> \<bar>sum_list ts\<bar> \<le> int (length ts)"
proof (induction ts)
  case (Cons t ts)
  then have "\<bar>t\<bar> \<le> 1" "\<bar>sum_list ts\<bar> \<le> int (length ts)" by (auto simp: is_trit_def)
  then show ?case by simp
qed simp

text \<open>The window is the least number of thirds, up to three, whose sum is zero.\<close>

lemma signed_window_loop_correct:
  assumes "valid_trits hash" "\<bar>acc\<bar> + int (length hash) < 2 ^ 62"
  shows "signed_window_loop n i acc hash = (case find (\<lambda>k. acc + sum_list (take (81 * k) hash) = 0) [1..<n + 1] of None \<Rightarrow> 0 | Some k \<Rightarrow> i + k - 1)"
  using assms
proof (induction n arbitrary: i acc hash)
  case (Suc n)
  let ?a = "acc + sum_list (take 81 hash)"
  have b: "\<bar>sum_list (take 81 hash)\<bar> \<le> int (length (take 81 hash))" using Suc.prems(1) by (intro sum_list_valid_bound valid_trits_take)
  then have w: "wrap64 ?a = ?a" using Suc.prems(2) by (intro wrap64_id) auto
  have v: "valid_trits (drop 81 hash)" "\<bar>?a\<bar> + int (length (drop 81 hash)) < 2 ^ 62"
    using Suc.prems b by (auto simp: valid_trits_drop)
  have s: "sum_list (take (81 * Suc k) hash) = sum_list (take 81 hash) + sum_list (take (81 * k) (drop 81 hash))" for k
    by (simp add: take_add)
  have "find (\<lambda>k. acc + sum_list (take (81 * k) hash) = 0) [1..<Suc n + 1]
      = (if ?a = 0 then Some 1 else find (\<lambda>k. acc + sum_list (take (81 * k) hash) = 0) (map Suc [1..<n + 1]))"
    by (simp add: upt_conv_Cons map_Suc_upt del: upt_Suc)
  also have "find (\<lambda>k. acc + sum_list (take (81 * k) hash) = 0) (map Suc ks) = map_option Suc (find (\<lambda>k. ?a + sum_list (take (81 * k) (drop 81 hash)) = 0) ks)" for ks
    by (induction ks) (simp_all add: s add.assoc del: mult_Suc_right)
  finally show ?case using Suc.IH [OF v, of "i + 1"] w by (auto simp: Let_def split: option.splits)
qed simp

lemma signed_window_correct:
  assumes "valid_trits hash" "length hash < 2 ^ 62"
  shows "signed_window hash = (case find (\<lambda>k. sum_list (take (81 * k) hash) = 0) [1..<4] of None \<Rightarrow> 0 | Some k \<Rightarrow> k)"
proof -
  have "signed_window hash = (case find (\<lambda>k. 0 + sum_list (take (81 * k) hash) = 0) [1..<3 + 1] of None \<Rightarrow> 0 | Some k \<Rightarrow> 1 + k - 1)"
    unfolding signed_window_def by (rule signed_window_loop_correct) (use assms in simp_all)
  then show ?thesis by (auto simp del: upt_Suc split: option.splits)
qed

lemma signed_window_le: "valid_trits hash \<Longrightarrow> length hash < 2 ^ 62 \<Longrightarrow> signed_window hash \<le> 3"
  by (auto simp: signed_window_correct find_Some_iff nth_append split: option.split)

section \<open>Verification recovers the digest\<close>

text \<open>The nested loops hash chunk \<open>k\<close> with the tryte \<open>k mod 27\<close> of the fragment \<open>k div 27\<close>, counted from the offset around the window.\<close>

definition window_tryte :: "nat \<Rightarrow> nat \<Rightarrow> nat \<Rightarrow> nat" where
  "window_tryte window i k = (i + k div 27) mod window * 27 + k mod 27"

lemma window_loop_chunks:
  "i < window \<Longrightarrow> window_loop ops count window i n st sig = hash_chunks ops (\<lambda>k. digest_count (count (window_tryte window i k))) 0 n st sig"
proof (induction n arbitrary: i st sig rule: less_induct)
  case (less n)
  let ?c = "\<lambda>i k. digest_count (count (window_tryte window i k))"
  show ?case
  proof (cases "n = 0")
    case False
    let ?m = "min 27 n"
    have n: "n = ?m + (n - 27)" by simp
    have first: "hash_chunks ops (\<lambda>j. digest_count (count j)) (i * 27) ?m st sig = hash_chunks ops (?c i) 0 ?m st sig"
    proof -
      have "hash_chunks ops (\<lambda>j. digest_count (count j)) (0 + i * 27) ?m st sig = hash_chunks ops (\<lambda>j. digest_count (count (j + i * 27))) 0 ?m st sig"
        by (rule hash_chunks_shift)
      also have "\<dots> = hash_chunks ops (?c i) 0 ?m st sig"
        by (rule hash_chunks_cong) (use less.prems in \<open>simp add: window_tryte_def add.commute\<close>)
      finally show ?thesis by simp
    qed
    have "window_tryte window ((i + 1) mod window) k = window_tryte window i (k + 27)" for k
    proof -
      have "(k + 27) div 27 = k div 27 + 1" by simp
      then show ?thesis by (simp add: window_tryte_def mod_simps)
    qed
    then have second: "hash_chunks ops (?c i) (0 + 27) (n - 27) s xs = hash_chunks ops (?c ((i + 1) mod window)) 0 (n - 27) s xs" for s xs
      unfolding hash_chunks_shift by simp
    have "(i + 1) mod window < window" using less.prems by simp
    with less.IH [OF _ this, of "n - 27"] False
    have ih: "window_loop ops count window ((i + 1) mod window) (n - 27) s xs = hash_chunks ops (?c ((i + 1) mod window)) 0 (n - 27) s xs" for s xs by simp
    show ?thesis
    proof (cases "27 \<le> n")
      case True
      have "hash_chunks ops (?c i) 0 n st sig = hash_chunks ops (?c i) 0 (27 + (n - 27)) st sig" using True by simp
      also have "\<dots> = (case hash_chunks ops (?c i) 0 27 st sig of None \<Rightarrow> None | Some (st, a) \<Rightarrow>
         (case hash_chunks ops (?c ((i + 1) mod window)) 0 (n - 27) st (drop (243 * 27) sig) of None \<Rightarrow> None | Some (st, b) \<Rightarrow> Some (st, a @ b)))"
        unfolding hash_chunks_add second ..
      finally show ?thesis using True False unfolding window_loop.simps [of ops count window i n] first ih by (simp add: min_absorb1)
    next
      case False
      with \<open>n \<noteq> 0\<close> first show ?thesis
        by (auto simp: window_loop.simps [of ops count window i n] window_loop.simps [of ops count window _ 0] split: option.split)
    qed
  qed (simp add: window_loop.simps)
qed

lemma digest_counts:
  assumes "valid_trits hash" "3 * j + 3 \<le> length hash"
  shows "digest_count (TRYTE_VALUE_MAX - HASH_TRYTE_VAL hash j) + digest_count (HASH_TRYTE_VAL hash j - TRYTE_VALUE_MIN) = 26"
  using HASH_TRYTE_VAL_bounds [OF assms] by (simp add: digest_count_def TRYTE_VALUE_MAX_def TRYTE_VALUE_MIN_def)

context sponge_contract
begin

lemma window_signature_recovers_digest:
  assumes "fresh st" "valid_trits hash" "length hash = 243" "signed_window hash = w" "0 < w"
    and "valid_trits key" "length key = w * ISS_KEY_LENGTH"
  shows "(case ISS2_signature ops st hash off key (w * ISS_KEY_LENGTH) of
      None \<Rightarrow> None
    | Some (_, st', sig) \<Rightarrow> map_option (\<lambda>(rc, st, _, dig). (rc, st, dig)) (ISS2_sig_digest ops st' hash off sig (w * ISS_KEY_LENGTH)))
    = map_option (\<lambda>(rc, st, _, dig). (rc, st, dig)) (ISS2_key_digest ops st key (w * ISS_KEY_LENGTH))"
proof -
  let ?i = "off mod w" and ?n = "27 * w"
  let ?a = "\<lambda>k. digest_count (TRYTE_VALUE_MAX - HASH_TRYTE_VAL hash (window_tryte w ?i k))"
  let ?b = "\<lambda>k. digest_count (HASH_TRYTE_VAL hash (window_tryte w ?i k) - TRYTE_VALUE_MIN)"
  have i: "?i < w" using assms(5) by simp
  have w3: "w \<le> 3" using signed_window_le [OF assms(2)] assms(3,4) by simp
  have l: "length key = 243 * ?n" using assms(7) by (simp add: ISS_KEY_LENGTH_def)
  have n: "(w * ISS_KEY_LENGTH + 242) div 243 = ?n" "w * ISS_KEY_LENGTH div 243 = ?n" "w * ISS_KEY_LENGTH mod 243 = 0"
    by (simp_all add: ISS_KEY_LENGTH_def)
  have "?a k + ?b k = 26" for k
  proof (rule digest_counts [OF assms(2)])
    have "(?i + k div 27) mod w < w" "k mod 27 < 27" using assms(5) by simp_all
    moreover have "3 * (x * 27 + y) + 3 \<le> 243" if "x < w" "y < 27" for x y :: nat using that w3 by simp
    ultimately show "3 * window_tryte w ?i k + 3 \<le> length hash" unfolding window_tryte_def assms(3) by blast
  qed
  then have c: "hash_chunks ops (\<lambda>k. ?a k + ?b k) 0 ?n st key = hash_chunks ops (\<lambda>_. digest_count 26) 0 ?n st key"
    by (intro hash_chunks_cong) (simp add: digest_count_def)
  have kd: "map_option (\<lambda>(rc, st, _, dig). (rc, st, dig)) (ISS2_key_digest ops st key (w * ISS_KEY_LENGTH))
      = (case hash_chunks ops (\<lambda>_. digest_count 26) 0 ?n st key of None \<Rightarrow> None | Some (s, ys) \<Rightarrow> map_option (\<lambda>(s, d). (0, s, d)) (hash_step ops s ys 243))"
    unfolding ISS2_key_digest_def STATE_LENGTH_simp n by (auto split: option.splits)
  have sg: "ISS2_signature ops st hash off key (w * ISS_KEY_LENGTH) = map_option (\<lambda>(s, x). (0, s, x)) (hash_chunks ops ?a 0 ?n st key)"
    unfolding ISS2_signature_def n assms(4) Let_def window_loop_chunks [OF i] using assms(5,7) by simp
  have sd: "map_option (\<lambda>(rc, st, _, dig). (rc, st, dig)) (ISS2_sig_digest ops s hash off sig (w * ISS_KEY_LENGTH))
      = (case hash_chunks ops ?b 0 ?n s sig of None \<Rightarrow> None | Some (s, ys) \<Rightarrow> map_option (\<lambda>(s, d). (0, s, d)) (hash_step ops s ys 243))"
    if sig: "fresh s" "valid_trits sig" "length sig = 243 * ?n" for s sig
  proof (cases "hash_chunks ops ?b 0 ?n s sig")
    case None
    then show ?thesis unfolding ISS2_sig_digest_def n assms(4) Let_def window_loop_chunks [OF i] using assms(5) by simp
  next
    case (Some p)
    then obtain ys where ys: "hash_chunks ops ?b 0 ?n s sig = Some (s, ys)" "length ys = 243 * ?n" using hash_chunks_fresh [OF sig] by (cases p) auto
    then have "take (w * ISS_KEY_LENGTH) (ys @ drop (length ys) sig) = ys" using sig(3) by (simp add: ISS_KEY_LENGTH_def)
    with ys show ?thesis unfolding ISS2_sig_digest_def n assms(4) Let_def window_loop_chunks [OF i] using assms(5) by (auto split: option.splits)
  qed
  show ?thesis
  proof (cases "hash_chunks ops ?a 0 ?n st key")
    case None
    with c hash_chunks_compose [OF assms(1,6) l, where a = ?a and b = ?b and i = 0] show ?thesis unfolding sg kd by simp
  next
    case (Some p)
    then obtain sig where s: "hash_chunks ops ?a 0 ?n st key = Some (st, sig)" "valid_trits sig" "length sig = 243 * ?n"
      using hash_chunks_fresh [OF assms(1,6) l] by (cases p) auto
    with c hash_chunks_compose [OF assms(1,6) l, where a = ?a and b = ?b and i = 0] show ?thesis unfolding sg kd by (simp add: sd [OF assms(1) s(2,3)])
  qed
qed

end

section \<open>Properties\<close>

text \<open>
  C29. Signatures of the second version verify, for Curl and for Kerl: if the first \<open>w\<close> thirds of a hash add up to zero and \<open>w\<close> is the least such number,
  signing a key of \<open>w\<close> fragments and computing the digest of the signature gives the digest of the key, whatever fragment the signature starts with.
\<close>

theorem iss2_signature_verifies:
  assumes "valid_trits hash" "length hash = 243" "signed_window hash = w" "0 < w" "valid_trits key" "length key = w * ISS_KEY_LENGTH"
  shows "(case ISS2_signature curl_ops (curl_reset c) hash off key (w * ISS_KEY_LENGTH) of
        None \<Rightarrow> None
      | Some (_, st, sig) \<Rightarrow> map_option (\<lambda>(rc, st, _, dig). (rc, st, dig)) (ISS2_sig_digest curl_ops st hash off sig (w * ISS_KEY_LENGTH)))
      = map_option (\<lambda>(rc, st, _, dig). (rc, st, dig)) (ISS2_key_digest curl_ops (curl_reset c) key (w * ISS_KEY_LENGTH))
    \<and> (case ISS2_signature (kerl_ops K stack) (kerl_init K) hash off key (w * ISS_KEY_LENGTH) of
        None \<Rightarrow> None
      | Some (_, st, sig) \<Rightarrow> map_option (\<lambda>(rc, st, _, dig). (rc, st, dig)) (ISS2_sig_digest (kerl_ops K stack) st hash off sig (w * ISS_KEY_LENGTH)))
      = map_option (\<lambda>(rc, st, _, dig). (rc, st, dig)) (ISS2_key_digest (kerl_ops K stack) (kerl_init K) key (w * ISS_KEY_LENGTH))"
proof -
  have c: "curl.fresh (curl_reset c)" unfolding curl.fresh_def by (simp add: curl_ops_def curl_reset_def curl_ok_def)
  have k: "kerl.fresh K stack (kerl_init K)" unfolding kerl.fresh_def by (simp add: kerl_ops_def kerl_reset_def)
  show ?thesis by (rule conjI [OF curl.window_signature_recovers_digest [OF c assms] kerl.window_signature_recovers_digest [OF k assms]])
qed

theorem iss2_signature_verifies_witness:
  "(case ISS2_signature curl_ops (curl_reset \<lparr>state = [], curl_type = 27\<rparr>) (replicate 243 0) 5 (replicate 6561 1) (1 * ISS_KEY_LENGTH) of
        None \<Rightarrow> None
      | Some (_, st, sig) \<Rightarrow> map_option (\<lambda>(rc, st, _, dig). (rc, st, dig)) (ISS2_sig_digest curl_ops st (replicate 243 0) 5 sig (1 * ISS_KEY_LENGTH)))
      = map_option (\<lambda>(rc, st, _, dig). (rc, st, dig)) (ISS2_key_digest curl_ops (curl_reset \<lparr>state = [], curl_type = 27\<rparr>) (replicate 6561 1) (1 * ISS_KEY_LENGTH))"
proof -
  have "find (\<lambda>k. sum_list (take (81 * k) (replicate 243 (0 :: int))) = 0) [1..<4] = Some 1" by (simp add: upt_conv_Cons sum_list_replicate)
  then have w: "signed_window (replicate 243 0) = 1" by (subst signed_window_correct) simp_all
  have v: "valid_trits (replicate n x)" if "is_trit x" for n x using that by (auto simp: list_all_iff)
  have l: "length (replicate 243 (0 :: trit)) = 243" "length (replicate 6561 (1 :: trit)) = 1 * ISS_KEY_LENGTH"
    by (simp_all only: length_replicate ISS_KEY_LENGTH_def)
  show ?thesis by (rule iss2_signature_verifies [OF v l(1) w zero_less_one v l(2), THEN conjunct1]) simp_all
qed

end
