(* ===== verification/Merkle.thy ===== *)
theory Merkle
  imports Prelude Curl Sponge_Contract Sponge Iss Iss_V2
begin

text \<open>
  \<open>utils/merkle.c\<close>: a Merkle tree over one-time addresses, stored as an array of hashes in depth-first order. Sizes and indexes are natural numbers; the
  code computes powers of two as shifts of an \<open>int\<close>, which is the same below \<open>2 ^ 31\<close>: the theorems are about trees of depth less than 30.
\<close>

section \<open>Definitions\<close>

definition merkle_null_hash :: "trit list" where "merkle_null_hash = replicate HASH_LENGTH_TRIT 0"

definition binary_tree_size :: "nat \<Rightarrow> nat \<Rightarrow> nat" where
  "binary_tree_size acc depth = 2 ^ (depth + 1) - 1 + acc"

function merkle_size_loop :: "nat \<Rightarrow> nat \<Rightarrow> nat" where
  "merkle_size_loop acc count = (if count \<ge> 2 then merkle_size_loop (acc + count) ((count + 1) div 2) else acc)"
  by pat_completeness auto
termination
  by (relation "measure snd") auto

declare merkle_size_loop.simps [simp del]

definition merkle_size :: "nat \<Rightarrow> nat" where
  "merkle_size leaf_count = (if leaf_count = 0 then 0 else if leaf_count = 1 then 1 else merkle_size_loop 1 leaf_count)"

lemma binary_tree_size_gt: "depth < binary_tree_size 0 depth"
  using less_exp [of "depth + 1"] by (simp add: binary_tree_size_def)

function merkle_depth_loop :: "nat \<Rightarrow> nat \<Rightarrow> nat" where
  "merkle_depth_loop node_count depth = (if binary_tree_size 0 depth < node_count then merkle_depth_loop node_count (depth + 1) else depth)"
  by pat_completeness auto
termination
  by (relation "measure (\<lambda>(n, d). n - d)") (auto dest: less_trans [OF binary_tree_size_gt])

declare merkle_depth_loop.simps [simp del]

definition merkle_depth :: "nat \<Rightarrow> nat" where
  "merkle_depth node_count = merkle_depth_loop node_count 0 + 1"

text \<open>\<open>n\<close> iterations are left, the cursor is at \<open>depth_cursor\<close>.\<close>

primrec node_index_loop :: "nat \<Rightarrow> nat \<Rightarrow> nat \<Rightarrow> nat \<Rightarrow> nat \<Rightarrow> nat \<Rightarrow> nat" where
  "node_index_loop tree_depth width_of_leaves 0 depth_cursor index width_cursor = index"
| "node_index_loop tree_depth width_of_leaves (Suc n) depth_cursor index width_cursor =
     (if width_cursor \<ge> width_of_leaves div 2 ^ depth_cursor
      then node_index_loop tree_depth width_of_leaves n (depth_cursor + 1) (index + (2 ^ (tree_depth - depth_cursor + 1) - 1))
             (width_cursor - width_of_leaves div 2 ^ depth_cursor)
      else node_index_loop tree_depth width_of_leaves n (depth_cursor + 1) index width_cursor)"

definition merkle_node_index_traverse :: "nat \<Rightarrow> nat \<Rightarrow> nat \<Rightarrow> nat \<Rightarrow> nat" where
  "merkle_node_index_traverse acc depth width tree_depth =
     (if tree_depth = 0 then 0 else node_index_loop tree_depth (2 ^ depth) depth 1 (depth + acc) width)"

definition merkle_node_index :: "nat \<Rightarrow> nat \<Rightarrow> nat \<Rightarrow> nat" where
  "merkle_node_index depth width tree_depth = merkle_node_index_traverse 0 depth width tree_depth"

text \<open>The subtraction is that of \<open>size_t\<close>.\<close>

definition merkle_leaf_index :: "nat \<Rightarrow> nat \<Rightarrow> nat" where
  "merkle_leaf_index leaf_index leaf_count = nat ((int leaf_count - int leaf_index - 1) mod 2 ^ 64)"

text \<open>The address of a leaf: subseed, key, digest and address, all in the same key array.\<close>

definition leaf_address :: "Curl \<Rightarrow> trit list \<Rightarrow> int \<Rightarrow> nat \<Rightarrow> (Curl \<times> trit list) option" where
  "leaf_address c seed index key_size =
     (case ISS2_subseed curl_ops c seed index of
        None \<Rightarrow> None
      | Some (c, subseed) \<Rightarrow>
          (case ISS2_key curl_ops c subseed key_size of
             None \<Rightarrow> None
           | Some (_, c, key) \<Rightarrow>
               (case ISS2_key_digest curl_ops c key key_size of
                  None \<Rightarrow> None
                | Some (_, c, _, digest) \<Rightarrow> ISS2_address curl_ops c digest HASH_LENGTH_TRIT)))"

primrec create_leaves :: "nat \<Rightarrow> nat \<Rightarrow> nat \<Rightarrow> nat \<Rightarrow> trit list \<Rightarrow> int \<Rightarrow> nat \<Rightarrow> Curl \<Rightarrow> trit list \<Rightarrow> (Curl \<times> trit list) option" where
  "create_leaves td base_size 0 leaf_index seed offset key_size c tree = Some (c, tree)"
| "create_leaves td base_size (Suc n) leaf_index seed offset key_size c tree =
     (case leaf_address c seed (wrap64 (offset + int (merkle_leaf_index leaf_index base_size))) key_size of
        None \<Rightarrow> None
      | Some (c, address) \<Rightarrow>
          create_leaves td base_size n (leaf_index + 1) seed offset key_size c
            (blit tree (HASH_LENGTH_TRIT * merkle_node_index td leaf_index td) address))"

text \<open>The pairs of one level; the width is \<open>2 * k\<close>.\<close>

definition tree_node :: "nat \<Rightarrow> trit list \<Rightarrow> nat \<Rightarrow> nat \<Rightarrow> trit list" where
  "tree_node td tree depth width = slice (HASH_LENGTH_TRIT * merkle_node_index depth width td) HASH_LENGTH_TRIT tree"

primrec hash_level :: "nat \<Rightarrow> nat \<Rightarrow> nat \<Rightarrow> nat \<Rightarrow> nat \<Rightarrow> Curl \<Rightarrow> trit list \<Rightarrow> (Curl \<times> trit list) option" where
  "hash_level td depth cur_size 0 k c tree = Some (c, tree)"
| "hash_level td depth cur_size (Suc n) k c tree =
     (let width = 2 * k
      in case (if width < cur_size - 1 then hash_pair curl_ops c (tree_node td tree depth (width + 1)) (tree_node td tree depth width)
               else hash_pair curl_ops c (tree_node td tree depth width) merkle_null_hash) of
           None \<Rightarrow> None
         | Some (c, h) \<Rightarrow>
             hash_level td depth cur_size n (k + 1) c (blit tree (HASH_LENGTH_TRIT * merkle_node_index (depth - 1) (width div 2) td) h))"

primrec hash_tree :: "nat \<Rightarrow> nat \<Rightarrow> nat \<Rightarrow> Curl \<Rightarrow> trit list \<Rightarrow> (Curl \<times> trit list) option" where
  "hash_tree td 0 cur_size c tree = Some (c, tree)"
| "hash_tree td (Suc d) cur_size c tree =
     (case hash_level td (Suc d) cur_size ((cur_size + 1) div 2) 0 c tree of
        None \<Rightarrow> None
      | Some (c, tree) \<Rightarrow> hash_tree td d ((cur_size + 1) div 2) c tree)"

definition power_of_two :: "nat \<Rightarrow> bool" where
  "power_of_two n \<longleftrightarrow> and n (n - 1) = 0"

definition merkle_create ::
  "trit list \<Rightarrow> nat \<Rightarrow> trit list \<Rightarrow> int \<Rightarrow> nat \<Rightarrow> Curl \<Rightarrow> (int \<times> Curl \<times> trit list) option"
where
  "merkle_create tree base_size seed offset security c =
     (let key_size = security * ISS_KEY_LENGTH
      in if base_size \<noteq> 0 \<and> \<not> power_of_two base_size then Some (- 1, c, tree)
         else let td = merkle_depth (merkle_size base_size) - 1
              in case create_leaves td base_size base_size 0 seed offset key_size c tree of
                   None \<Rightarrow> None
                 | Some (c, tree) \<Rightarrow>
                     map_option (\<lambda>(c, tree). (0, c, tree)) (hash_tree td td base_size c tree))"

definition NULL_SIBLING :: int where "NULL_SIBLING = 1"
definition NULL_TREE :: int where "NULL_TREE = 2"
definition LEAF_INDEX_OUT_OF_BOUNDS :: int where "LEAF_INDEX_OUT_OF_BOUNDS = 3"
definition DEPTH_OUT_OF_BOUNDS :: int where "DEPTH_OUT_OF_BOUNDS = 4"

primrec branch_loop :: "trit list \<Rightarrow> nat \<Rightarrow> nat \<Rightarrow> nat \<Rightarrow> nat \<Rightarrow> nat \<Rightarrow> trit list \<Rightarrow> trit list" where
  "branch_loop tree tree_length td 0 i sibling_index siblings = siblings"
| "branch_loop tree tree_length td (Suc d) i sibling_index siblings =
     (let sibling_index = (if odd sibling_index then sibling_index - 1 else sibling_index + 1);
          site_index = HASH_LENGTH_TRIT * merkle_node_index (Suc d) sibling_index td;
          hash = (if site_index \<ge> tree_length then merkle_null_hash else slice site_index HASH_LENGTH_TRIT tree)
      in branch_loop tree tree_length td d (i + 1) (sibling_index div 2) (blit siblings (i * HASH_LENGTH_TRIT) hash))"

definition merkle_branch ::
  "trit list option \<Rightarrow> trit list option \<Rightarrow> nat \<Rightarrow> nat \<Rightarrow> nat \<Rightarrow> nat \<Rightarrow> int \<times> trit list option"
where
  "merkle_branch treep siblingsp tree_length tree_depth leaf_index leaf_count =
     (case siblingsp of
        None \<Rightarrow> (NULL_SIBLING, siblingsp)
      | Some siblings \<Rightarrow>
          (case treep of
             None \<Rightarrow> (NULL_TREE, siblingsp)
           | Some tree \<Rightarrow>
               if HASH_LENGTH_TRIT * merkle_node_index (tree_depth - 1) leaf_index (tree_depth - 1) \<ge> tree_length
               then (LEAF_INDEX_OUT_OF_BOUNDS, siblingsp)
               else if tree_depth > merkle_depth (tree_length div HASH_LENGTH_TRIT) then (DEPTH_OUT_OF_BOUNDS, siblingsp)
               else (0, Some (branch_loop tree tree_length (tree_depth - 1) (tree_depth - 1) 0 (merkle_leaf_index leaf_index leaf_count) siblings))))"

text \<open>The loop is the one of \<open>iss_merkle_root\<close>, with Curl.\<close>

definition merkle_root :: "trit list \<Rightarrow> trit list \<Rightarrow> nat \<Rightarrow> nat \<Rightarrow> Curl \<Rightarrow> (Curl \<times> trit list) option" where
  "merkle_root hash siblings siblings_number leaf_index c =
     merkle_loop curl_ops 0 c hash (map (\<lambda>i. slice (i * HASH_LENGTH_TRIT) HASH_LENGTH_TRIT siblings) [0..<siblings_number]) leaf_index"

section \<open>Sizes\<close>

lemma merkle_size_loop_power: "merkle_size_loop acc (2 ^ k) = acc + (2 ^ (k + 1) - 2)"
proof (induction k arbitrary: acc)
  case (Suc k)
  have "2 \<le> (2 :: nat) ^ Suc k" by simp
  moreover have "(2 ^ Suc k + 1) div 2 = (2 :: nat) ^ k" by simp
  ultimately have "merkle_size_loop acc (2 ^ Suc k) = merkle_size_loop (acc + 2 ^ Suc k) (2 ^ k)" by (subst merkle_size_loop.simps) simp
  then show ?case unfolding Suc by simp
qed (simp add: merkle_size_loop.simps)

lemma merkle_size_power: "merkle_size (2 ^ k) = 2 ^ (k + 1) - 1"
proof (cases k)
  case (Suc j)
  then have "2 \<le> (2 :: nat) ^ k" "k \<noteq> 0" by simp_all
  then show ?thesis unfolding merkle_size_def merkle_size_loop_power by auto
qed (simp add: merkle_size_def)

lemma merkle_depth_power: "merkle_depth (2 ^ (k + 1) - 1) = k + 1"
proof -
  have "merkle_depth_loop (2 ^ (k + 1) - 1) j = k" if "j \<le> k" for j
    using that
  proof (induction "k - j" arbitrary: j)
    case 0
    then show ?case by (simp add: merkle_depth_loop.simps binary_tree_size_def)
  next
    case (Suc x)
    then have j: "j < k" by simp
    then have "(2 :: nat) ^ (j + 1) < 2 ^ (k + 1)" by (intro power_strict_increasing) auto
    then have "binary_tree_size 0 j < 2 ^ (k + 1) - 1" unfolding binary_tree_size_def using one_le_power [of "2 :: nat" "j + 1"] by linarith
    then have "merkle_depth_loop (2 ^ (k + 1) - 1) j = merkle_depth_loop (2 ^ (k + 1) - 1) (j + 1)" by (subst merkle_depth_loop.simps) simp
    with Suc.hyps(1) [of "j + 1"] Suc.hyps(2) j show ?case by simp
  qed
  from this [of 0] show ?thesis by (simp add: merkle_depth_def)
qed

section \<open>Positions\<close>

text \<open>The number of nodes of a perfect tree with \<open>k\<close> levels below the root, and the sum that the loop adds up: one subtree for every turn to the right.\<close>

definition full :: "nat \<Rightarrow> nat" where
  "full k = 2 ^ (k + 1) - 1"

lemma full_simps [simp]: "full 0 = 1" "full (Suc k) = 2 * full k + 1"
proof -
  have "1 \<le> (2 :: nat) ^ k" by simp
  then have "2 * (2 * 2 ^ k) - 1 = 2 * (2 * 2 ^ k - 1) + (1 :: nat)" by linarith
  then show "full 0 = 1" "full (Suc k) = 2 * full k + 1" by (simp_all add: full_def)
qed

lemma full_pos: "0 < full k"
  by (induction k) simp_all

primrec turns :: "nat \<Rightarrow> nat \<Rightarrow> nat \<Rightarrow> nat" where
  "turns k 0 w = 0"
| "turns k (Suc n) w = (if w \<ge> 2 ^ n then full (k + n) + turns k n (w - 2 ^ n) else turns k n w)"

lemma node_index_loop_turns:
  "depth \<le> td \<Longrightarrow> n \<le> depth \<Longrightarrow> c = depth - n + 1 \<Longrightarrow> node_index_loop td (2 ^ depth) n c index w = index + turns (td - depth) n w"
proof (induction n arbitrary: c index w)
  case (Suc n)
  have "depth = c + n" using Suc.prems by simp
  then have p: "(2 :: nat) ^ depth div 2 ^ c = 2 ^ n" by (simp add: power_add)
  have e: "2 ^ (td - c + 1) - 1 = full (td - depth + n)" using Suc.prems by (simp add: full_def)
  have c: "c + 1 = depth - n + 1" "n \<le> depth" using Suc.prems by simp_all
  show ?case unfolding node_index_loop.simps p e turns.simps by (simp only: Suc.IH [OF Suc.prems(1) c(2,1)] add.assoc split: if_split) simp
qed simp

lemma node_index_turns: "d \<le> td \<Longrightarrow> merkle_node_index d w td = d + turns (td - d) d w"
  using node_index_loop_turns [of d td d 1 d w] by (cases "td = 0") (simp_all add: merkle_node_index_def merkle_node_index_traverse_def)

lemma turns_child: "b < 2 \<Longrightarrow> w < 2 ^ n \<Longrightarrow> turns k (Suc n) (2 * w + b) = turns (Suc k) n w + b * full k"
proof (induction n arbitrary: w)
  case 0
  then show ?case by (cases b) auto
next
  case (Suc n)
  have g: "2 * w + b \<ge> 2 ^ Suc n \<longleftrightarrow> w \<ge> 2 ^ n" using Suc.prems(1) by auto
  have e: "k + Suc n = Suc k + n" by simp
  show ?case
  proof (cases "w \<ge> 2 ^ n")
    case True
    then have d: "2 * w + b - 2 ^ Suc n = 2 * (w - 2 ^ n) + b" "w - 2 ^ n < 2 ^ n" using Suc.prems(2) by auto
    have "turns k (Suc (Suc n)) (2 * w + b) = full (Suc k + n) + turns k (Suc n) (2 * (w - 2 ^ n) + b)"
      unfolding turns.simps(2) [of k "Suc n"] d e using True g by simp
    also have "\<dots> = full (Suc k + n) + (turns (Suc k) n (w - 2 ^ n) + b * full k)"
      by (simp only: Suc.IH [OF Suc.prems(1) d(2)])
    also have "\<dots> = turns (Suc k) (Suc n) w + b * full k" unfolding turns.simps(2) [of "Suc k" n] using True by simp
    finally show ?thesis .
  next
    case False
    then have "turns k (Suc (Suc n)) (2 * w + b) = turns k (Suc n) (2 * w + b)" using g unfolding turns.simps(2) [of k "Suc n"] by simp
    with False Suc.IH [OF Suc.prems(1), of w] show ?thesis unfolding turns.simps(2) [of "Suc k" n] by simp
  qed
qed

lemma turns_bound: "turns k n w + full k + n \<le> full (k + n)"
proof (induction n arbitrary: w)
  case (Suc n)
  from Suc.IH [of w] Suc.IH [of "w - 2 ^ n"] show ?case by simp
qed simp

lemma turns_separate: "w < w' \<Longrightarrow> w' < 2 ^ n \<Longrightarrow> turns k n w + full k \<le> turns k n w'"
proof (induction n arbitrary: w w')
  case (Suc n)
  consider "w' < 2 ^ n" | "w < 2 ^ n" "2 ^ n \<le> w'" | "2 ^ n \<le> w" by linarith
  then show ?case
  proof cases
    case 1
    with Suc.IH [of w w'] Suc.prems show ?thesis by simp
  next
    case 2
    with turns_bound [of k n w] show ?thesis by simp
  next
    case 3
    with Suc.IH [of "w - 2 ^ n" "w' - 2 ^ n"] Suc.prems show ?thesis by simp
  qed
qed simp

lemma node_index_child:
  assumes "Suc d \<le> td" "w < 2 ^ d" "b < 2"
  shows "merkle_node_index (Suc d) (2 * w + b) td = merkle_node_index d w td + 1 + b * full (td - Suc d)"
proof -
  have "td - d = Suc (td - Suc d)" using assms(1) by simp
  with turns_child [OF assms(3,2), of "td - Suc d"] assms(1) show ?thesis by (simp add: node_index_turns)
qed

lemma node_index_bound:
  assumes "d \<le> td"
  shows "merkle_node_index d w td + full (td - d) \<le> full td"
  using turns_bound [of "td - d" d w] assms by (simp add: node_index_turns)

lemma node_index_separate:
  assumes "d \<le> td" "w < w'" "w' < 2 ^ d"
  shows "merkle_node_index d w td + full (td - d) \<le> merkle_node_index d w' td"
  using turns_separate [OF assms(2,3), of "td - d"] assms(1) by (simp add: node_index_turns)

lemma node_index_descendant:
  "d \<le> d' \<Longrightarrow> d' \<le> td \<Longrightarrow> w < 2 ^ d' \<Longrightarrow>
    merkle_node_index d (w div 2 ^ (d' - d)) td + (d' - d) \<le> merkle_node_index d' w td
    \<and> merkle_node_index d' w td + full (td - d') \<le> merkle_node_index d (w div 2 ^ (d' - d)) td + full (td - d)"
proof (induction d' arbitrary: w rule: dec_induct)
  case (step n)
  let ?p = "w div 2" and ?b = "w mod 2"
  have p: "?p < 2 ^ n" using step.prems(2) by auto
  have q: "w div 2 ^ (Suc n - d) = ?p div 2 ^ (n - d)" using step.hyps by (simp add: Suc_diff_le div_mult2_eq)
  have c: "merkle_node_index (Suc n) w td = merkle_node_index n ?p td + 1 + ?b * full (td - Suc n)"
    using node_index_child [OF step.prems(1) p, of ?b] by simp
  have b: "?b * full (td - Suc n) \<le> full (td - Suc n)" by (cases "even w") (auto simp: odd_iff_mod_2_eq_one)
  have "full (td - n) = 2 * full (td - Suc n) + 1" using step.prems(1) full_simps(2) [of "td - Suc n"] by (simp add: Suc_diff_Suc)
  with step.IH [OF _ p] step.prems(1) step.hyps(1) b show ?case unfolding q c by linarith
qed simp

lemma node_index_distinct_depths:
  assumes "d < d'" "d' \<le> td" "w < 2 ^ d" "w' < 2 ^ d'"
  shows "merkle_node_index d w td \<noteq> merkle_node_index d' w' td"
proof -
  let ?a = "w' div 2 ^ (d' - d)"
  have a: "?a < 2 ^ d" using assms(1,4) by (simp add: div_less_iff_less_mult flip: power_add)
  have n: "merkle_node_index d ?a td + (d' - d) \<le> merkle_node_index d' w' td"
    "merkle_node_index d' w' td + full (td - d') \<le> merkle_node_index d ?a td + full (td - d)"
    using node_index_descendant [of d d' td w'] assms by simp_all
  consider "w = ?a" | "w < ?a" | "?a < w" by linarith
  then show ?thesis
    using n assms full_pos [of "td - d'"] full_pos [of "td - d"] node_index_separate [of d td w ?a] node_index_separate [of d td ?a w] a
    by cases auto
qed

lemma node_index_eq_iff:
  assumes "d \<le> td" "w < 2 ^ d" "d' \<le> td" "w' < 2 ^ d'"
  shows "merkle_node_index d w td = merkle_node_index d' w' td \<longleftrightarrow> d = d' \<and> w = w'"
proof (cases "d = d'")
  case True
  with assms node_index_separate [of d td w w'] node_index_separate [of d td w' w] full_pos [of "td - d"] show ?thesis
    by (cases w w' rule: linorder_cases) auto
next
  case False
  with assms node_index_distinct_depths [of d d' td w w'] node_index_distinct_depths [of d' d td w' w] show ?thesis by (cases d d' rule: linorder_cases) auto
qed

lemma node_index_less: "d \<le> td \<Longrightarrow> merkle_node_index d w td < full td"
  using node_index_bound [of d td w] full_pos [of "td - d"] by linarith

section \<open>Nodes of the array\<close>

lemma tree_node_blit:
  assumes "length tree = HASH_LENGTH_TRIT * full td" "length h = HASH_LENGTH_TRIT" "d \<le> td" "w < 2 ^ d" "d' \<le> td" "w' < 2 ^ d'"
  shows "tree_node td (blit tree (HASH_LENGTH_TRIT * merkle_node_index d w td) h) d' w' = (if d' = d \<and> w' = w then h else tree_node td tree d' w')"
    "length (blit tree (HASH_LENGTH_TRIT * merkle_node_index d w td) h) = length tree"
proof -
  let ?i = "merkle_node_index d w td" and ?j = "merkle_node_index d' w' td"
  have i: "?i < full td" "?j < full td" using assms by (simp_all add: node_index_less)
  then have l: "243 * ?i + 243 \<le> length tree" using assms(1) by simp
  then show "length (blit tree (HASH_LENGTH_TRIT * ?i) h) = length tree" using assms(2) by (simp add: blit_def)
  consider "?i = ?j" | "?i < ?j" | "?j < ?i" by linarith
  then show "tree_node td (blit tree (HASH_LENGTH_TRIT * ?i) h) d' w' = (if d' = d \<and> w' = w then h else tree_node td tree d' w')"
  proof cases
    case 1
    then have "d' = d \<and> w' = w" using node_index_eq_iff [OF assms(3-6)] by simp
    moreover have "slice (243 * ?i) (length h) (blit tree (243 * ?i) h) = h" using l by (intro slice_blit_same) simp
    ultimately show ?thesis using assms(2) by (simp add: tree_node_def)
  next
    case 2
    with node_index_eq_iff [OF assms(3-6)] l assms(2) show ?thesis by (auto simp: tree_node_def intro!: slice_blit_after)
  next
    case 3
    with node_index_eq_iff [OF assms(3-6)] l assms(2) show ?thesis by (auto simp: tree_node_def intro!: slice_blit_before)
  qed
qed

lemma tree_node_length:
  "length tree = HASH_LENGTH_TRIT * full td \<Longrightarrow> d \<le> td \<Longrightarrow> w < 2 ^ d \<Longrightarrow> length (tree_node td tree d w) = HASH_LENGTH_TRIT"
  using node_index_less [of d td w] by (simp add: tree_node_def)

section \<open>Creation\<close>

text \<open>The hash of two nodes from a fresh state, and the hash that belongs at height \<open>k\<close> above the leaves \<open>L\<close>.\<close>

definition node_hash :: "Curl \<Rightarrow> trit list \<Rightarrow> trit list \<Rightarrow> trit list" where
  "node_hash c a b = snd (curl_squeeze (curl_absorb (curl_absorb c a) b) HASH_LENGTH_TRIT)"

primrec height_hash :: "Curl \<Rightarrow> (nat \<Rightarrow> trit list) \<Rightarrow> nat \<Rightarrow> nat \<Rightarrow> trit list" where
  "height_hash c L 0 w = L w"
| "height_hash c L (Suc k) w = node_hash c (height_hash c L k (2 * w + 1)) (height_hash c L k (2 * w))"

abbreviation fresh_curl :: "Curl \<Rightarrow> bool" where
  "fresh_curl c \<equiv> curl.fresh c"

lemma hash_pair_curl:
  assumes "fresh_curl c" "valid_trits a" "valid_trits b"
  shows "hash_pair curl_ops c a b = Some (c, node_hash c a b)" "valid_trits (node_hash c a b)" "length (node_hash c a b) = HASH_LENGTH_TRIT"
proof -
  have "\<exists>s. hash_pair curl_ops c a b = Some (s, node_hash c a b)" by (simp add: hash_pair_def hash_step_def curl_ops_def node_hash_def split_beta)
  then obtain s where s: "hash_pair curl_ops c a b = Some (s, node_hash c a b)" ..
  from s curl.hash_pair_fresh [OF assms s] show "hash_pair curl_ops c a b = Some (c, node_hash c a b)" "valid_trits (node_hash c a b)" "length (node_hash c a b) = HASH_LENGTH_TRIT"
    by simp_all
qed

lemma hash_step_curl:
  assumes "fresh_curl c" "valid_trits a"
  obtains out where "hash_step curl_ops c a n = Some (c, out)" "valid_trits out" "length out = n"
proof -
  have "\<exists>s out. hash_step curl_ops c a n = Some (s, out)" by (simp add: hash_step_def curl_ops_def split_beta)
  then obtain s out where s: "hash_step curl_ops c a n = Some (s, out)" by blast
  show ?thesis by (rule that) (use s curl.hash_step_fresh [OF assms s] in auto)
qed

lemma hash_times_curl: "\<exists>s out. hash_times curl_ops n st x = Some (s, out)"
  by (induction n arbitrary: st x) (auto simp: hash_step_def curl_ops_def split_beta)

lemma hash_chunks_curl:
  assumes "fresh_curl c" "valid_trits xs" "length xs = 243 * n"
  obtains ys where "hash_chunks curl_ops count i n c xs = Some (c, ys)" "valid_trits ys" "length ys = 243 * n"
proof -
  have "\<exists>s ys. hash_chunks curl_ops count i n st xs = Some (s, ys)" for st xs
  proof (induction n arbitrary: i st xs)
    case (Suc n)
    obtain s y where 1: "hash_times curl_ops (count i) st (take 243 xs) = Some (s, y)" using hash_times_curl by blast
    obtain s' ys where "hash_chunks curl_ops count (i + 1) n s (drop 243 xs) = Some (s', ys)" using Suc.IH by blast
    with 1 show ?case by simp
  qed simp
  then obtain s ys where s: "hash_chunks curl_ops count i n c xs = Some (s, ys)" by blast
  show ?thesis by (rule that) (use s curl.hash_chunks_fresh [OF assms s] in auto)
qed

lemma leaf_address_curl:
  assumes "fresh_curl c" "valid_trits seed" "0 \<le> index" "index < INT64_MAX" "key_size mod 243 = 0"
  obtains a where "leaf_address c seed index key_size = Some (c, a)" "valid_trits a" "length a = HASH_LENGTH_TRIT"
proof -
  obtain rc sum where sum: "add_assign (take 243 seed) index = (rc, sum)" by fastforce
  then have v: "valid_trits sum" using add_assign_nonneg(2) [OF valid_trits_take [OF assms(2)] assms(3,4) sum] by simp
  obtain sub where sub: "hash_step curl_ops c sum 243 = Some (c, sub)" "valid_trits sub" using hash_step_curl [OF assms(1) v] by metis
  obtain k0 where k0: "hash_step curl_ops c (take 243 sub) key_size = Some (c, k0)" "valid_trits k0" "length k0 = key_size"
    using hash_step_curl [OF assms(1) valid_trits_take [OF sub(2)]] by metis
  have l: "key_size = 243 * (key_size div 243)" using assms(5) by auto
  obtain k1 where k1: "hash_chunks curl_ops (\<lambda>_. 1) 0 (key_size div 243) c k0 = Some (c, k1)" "valid_trits k1" "length k1 = 243 * (key_size div 243)"
    using hash_chunks_curl [OF assms(1) k0(2)] k0(3) l by metis
  obtain k2 where k2: "hash_chunks curl_ops (\<lambda>_. digest_count 26) 0 (key_size div 243) c k1 = Some (c, k2)" "valid_trits k2"
    using hash_chunks_curl [OF assms(1) k1(2,3)] by metis
  obtain dig where dig: "hash_step curl_ops c k2 243 = Some (c, dig)" "valid_trits dig" using hash_step_curl [OF assms(1) k2(2)] by metis
  obtain a where a: "hash_step curl_ops c (take 243 dig) 243 = Some (c, a)" "valid_trits a" "length a = 243"
    using hash_step_curl [OF assms(1) valid_trits_take [OF dig(2)]] by metis
  show ?thesis
    by (rule that [of a])
      (use sum sub k0 k1 k2 dig a assms(5) in \<open>simp_all add: leaf_address_def ISS2_subseed_def ISS2_key_def ISS2_key_digest_def ISS2_address_def\<close>)
qed

text \<open>The address with the index \<open>index\<close>, and the one that the leaf at position \<open>w\<close> holds.\<close>

definition address_of :: "Curl \<Rightarrow> trit list \<Rightarrow> nat \<Rightarrow> int \<Rightarrow> trit list" where
  "address_of c seed key_size index = (case leaf_address c seed index key_size of None \<Rightarrow> [] | Some (_, a) \<Rightarrow> a)"

definition leaf_of :: "Curl \<Rightarrow> trit list \<Rightarrow> nat \<Rightarrow> int \<Rightarrow> nat \<Rightarrow> nat \<Rightarrow> trit list" where
  "leaf_of c seed key_size offset td w = address_of c seed key_size (offset + int (2 ^ td - 1 - w))"

definition leaves_ok :: "Curl \<Rightarrow> trit list \<Rightarrow> nat \<Rightarrow> int \<Rightarrow> nat \<Rightarrow> bool" where
  "leaves_ok c seed key_size offset td \<longleftrightarrow>
     fresh_curl c \<and> valid_trits seed \<and> key_size mod HASH_LENGTH_TRIT = 0 \<and> 0 \<le> offset \<and> offset + 2 ^ td < INT64_MAX"

lemma merkle_leaf_index_less: "i < n \<Longrightarrow> n < 2 ^ 64 \<Longrightarrow> merkle_leaf_index i n = n - 1 - i"
  by (simp add: merkle_leaf_index_def of_nat_diff)

lemma leaf_of_correct:
  assumes "leaves_ok c seed key_size offset td" "w < 2 ^ td"
  shows "leaf_address c seed (wrap64 (offset + int (merkle_leaf_index w (2 ^ td)))) key_size = Some (c, leaf_of c seed key_size offset td w)"
    "valid_trits (leaf_of c seed key_size offset td w)" "length (leaf_of c seed key_size offset td w) = HASH_LENGTH_TRIT"
proof -
  let ?i = "offset + int (2 ^ td - 1 - w)"
  have a: "fresh_curl c" "valid_trits seed" "key_size mod 243 = 0" "0 \<le> offset" "offset + 2 ^ td < INT64_MAX"
    using assms(1) by (simp_all add: leaves_ok_def)
  have "int (2 ^ td - 1 - w) < 2 ^ td" by (simp add: of_nat_diff less_imp_diff_less)
  then have i: "0 \<le> ?i" "?i < INT64_MAX" using a(4,5) by linarith+
  have "int (2 ^ td) < int (2 ^ 64)" using a(4,5) by simp
  then have "merkle_leaf_index w (2 ^ td) = 2 ^ td - 1 - w" unfolding of_nat_less_iff by (rule merkle_leaf_index_less [OF assms(2)])
  moreover have "wrap64 ?i = ?i" using i by (intro wrap64_id) simp_all
  ultimately have e: "wrap64 (offset + int (merkle_leaf_index w (2 ^ td))) = ?i" by simp
  obtain x where x: "leaf_address c seed ?i key_size = Some (c, x)" "valid_trits x" "length x = HASH_LENGTH_TRIT"
    using leaf_address_curl [OF a(1,2) i a(3)] by metis
  then show "leaf_address c seed (wrap64 (offset + int (merkle_leaf_index w (2 ^ td)))) key_size = Some (c, leaf_of c seed key_size offset td w)"
    "valid_trits (leaf_of c seed key_size offset td w)" "length (leaf_of c seed key_size offset td w) = HASH_LENGTH_TRIT"
    unfolding e by (simp_all add: leaf_of_def address_of_def)
qed

lemma create_leaves_correct:
  assumes "leaves_ok c seed key_size offset td" "i + n \<le> 2 ^ td" "length tree = HASH_LENGTH_TRIT * full td"
  shows "\<exists>tree'. create_leaves td (2 ^ td) n i seed offset key_size c tree = Some (c, tree') \<and> length tree' = length tree
    \<and> (\<forall>d w. d \<le> td \<longrightarrow> w < 2 ^ d \<longrightarrow>
         tree_node td tree' d w = (if d = td \<and> i \<le> w \<and> w < i + n then leaf_of c seed key_size offset td w else tree_node td tree d w))"
  using assms(2,3)
proof (induction n arbitrary: i tree)
  case (Suc n)
  then have i: "i < 2 ^ td" by simp
  note leaf = leaf_of_correct [OF assms(1) i]
  let ?t = "blit tree (HASH_LENGTH_TRIT * merkle_node_index td i td) (leaf_of c seed key_size offset td i)"
  note node = tree_node_blit [OF Suc.prems(2) leaf(3) order_refl i]
  have "length ?t = HASH_LENGTH_TRIT * full td" using node(2) [OF order_refl i] Suc.prems(2) by simp
  with Suc.IH [of "i + 1" ?t] Suc.prems(1) obtain tree' where
    t: "create_leaves td (2 ^ td) n (i + 1) seed offset key_size c ?t = Some (c, tree')" "length tree' = length ?t"
      "\<And>d w. d \<le> td \<Longrightarrow> w < 2 ^ d \<Longrightarrow>
         tree_node td tree' d w = (if d = td \<and> i + 1 \<le> w \<and> w < i + 1 + n then leaf_of c seed key_size offset td w else tree_node td ?t d w)"
    by auto
  have "tree_node td tree' d w = (if d = td \<and> i \<le> w \<and> w < i + Suc n then leaf_of c seed key_size offset td w else tree_node td tree d w)"
    if "d \<le> td" "w < 2 ^ d" for d w
    using t(3) [OF that] node(1) [OF that] by (auto simp: not_less_eq_eq)
  with t(1,2) leaf(1) node(2) [OF order_refl i] show ?case by simp
qed auto

lemma hash_level_correct:
  assumes "fresh_curl c" "Suc d \<le> td" "k + n \<le> 2 ^ d" "length tree = HASH_LENGTH_TRIT * full td"
    "\<And>w. w < 2 ^ Suc d \<Longrightarrow> valid_trits (tree_node td tree (Suc d) w)"
  shows "\<exists>tree'. hash_level td (Suc d) (2 ^ Suc d) n k c tree = Some (c, tree') \<and> length tree' = length tree
    \<and> (\<forall>d' w. d' \<le> td \<longrightarrow> w < 2 ^ d' \<longrightarrow>
         tree_node td tree' d' w = (if d' = d \<and> k \<le> w \<and> w < k + n then node_hash c (tree_node td tree (Suc d) (2 * w + 1)) (tree_node td tree (Suc d) (2 * w))
           else tree_node td tree d' w))"
  using assms(3-5)
proof (induction n arbitrary: k tree)
  case (Suc n)
  then have k: "k < 2 ^ d" "2 * k + 1 < 2 ^ Suc d" "2 * k < 2 ^ Suc d" by simp_all
  let ?a = "tree_node td tree (Suc d) (2 * k + 1)" and ?b = "tree_node td tree (Suc d) (2 * k)"
  note h = hash_pair_curl [OF assms(1) Suc.prems(3) [OF k(2)] Suc.prems(3) [OF k(3)]]
  have d: "d \<le> td" using assms(2) by simp
  let ?t = "blit tree (HASH_LENGTH_TRIT * merkle_node_index d k td) (node_hash c ?a ?b)"
  note node = tree_node_blit [OF Suc.prems(2) h(3) d k(1)]
  have l: "length ?t = HASH_LENGTH_TRIT * full td" using node(2) [OF d k(1)] Suc.prems(2) by simp
  have child: "tree_node td ?t (Suc d) w = tree_node td tree (Suc d) w" if "w < 2 ^ Suc d" for w using node(1) [OF assms(2) that] by simp
  have ih: "\<exists>tree'. hash_level td (Suc d) (2 ^ Suc d) n (k + 1) c ?t = Some (c, tree') \<and> length tree' = length ?t
    \<and> (\<forall>d' w. d' \<le> td \<longrightarrow> w < 2 ^ d' \<longrightarrow>
         tree_node td tree' d' w = (if d' = d \<and> k + 1 \<le> w \<and> w < k + 1 + n then node_hash c (tree_node td ?t (Suc d) (2 * w + 1)) (tree_node td ?t (Suc d) (2 * w))
           else tree_node td ?t d' w))"
    by (rule Suc.IH) (use l child Suc.prems in simp_all)
  then obtain tree' where
    t: "hash_level td (Suc d) (2 ^ Suc d) n (k + 1) c ?t = Some (c, tree')" "length tree' = length ?t"
      "\<And>d' w. d' \<le> td \<Longrightarrow> w < 2 ^ d' \<Longrightarrow>
         tree_node td tree' d' w = (if d' = d \<and> k + 1 \<le> w \<and> w < k + 1 + n then node_hash c (tree_node td ?t (Suc d) (2 * w + 1)) (tree_node td ?t (Suc d) (2 * w))
           else tree_node td ?t d' w)"
    by auto
  have "tree_node td tree' d' w = (if d' = d \<and> k \<le> w \<and> w < k + Suc n
      then node_hash c (tree_node td tree (Suc d) (2 * w + 1)) (tree_node td tree (Suc d) (2 * w)) else tree_node td tree d' w)"
    if "d' \<le> td" "w < 2 ^ d'" for d' w
    using t(3) [OF that] node(1) [OF that] child [of "2 * w + 1"] child [of "2 * w"] that by (auto simp: not_less_eq_eq)
  moreover have "2 * k < 2 ^ Suc d - 1" using k(2) by linarith
  then have "hash_level td (Suc d) (2 ^ Suc d) (Suc n) k c tree = Some (c, tree')" using h(1) t(1) by (simp add: Let_def)
  ultimately show ?case using t(2) node(2) [OF d k(1)] by auto
qed auto

lemma hash_tree_correct:
  assumes "fresh_curl c"
  shows "d \<le> td \<Longrightarrow> length tree = HASH_LENGTH_TRIT * full td \<Longrightarrow> (\<And>w. w < 2 ^ td \<Longrightarrow> valid_trits (L w)) \<Longrightarrow>
    (\<And>d' w. d \<le> d' \<Longrightarrow> d' \<le> td \<Longrightarrow> w < 2 ^ d' \<Longrightarrow> tree_node td tree d' w = height_hash c L (td - d') w \<and> valid_trits (height_hash c L (td - d') w)) \<Longrightarrow>
    \<exists>tree'. hash_tree td d (2 ^ d) c tree = Some (c, tree') \<and> length tree' = length tree
      \<and> (\<forall>d' w. d' \<le> td \<longrightarrow> w < 2 ^ d' \<longrightarrow> tree_node td tree' d' w = height_hash c L (td - d') w)"
proof (induction d arbitrary: tree)
  case (Suc d)
  have v: "valid_trits (tree_node td tree (Suc d) w)" if "w < 2 ^ Suc d" for w using Suc.prems(4) [OF order_refl Suc.prems(1) that] by simp
  from hash_level_correct [OF assms Suc.prems(1) _ Suc.prems(2) v, where k = 0 and n = "2 ^ d"] obtain t where
    t: "hash_level td (Suc d) (2 ^ Suc d) (2 ^ d) 0 c tree = Some (c, t)" "length t = length tree"
      "\<And>d' w. d' \<le> td \<Longrightarrow> w < 2 ^ d' \<Longrightarrow> tree_node td t d' w =
         (if d' = d \<and> w < 2 ^ d then node_hash c (tree_node td tree (Suc d) (2 * w + 1)) (tree_node td tree (Suc d) (2 * w)) else tree_node td tree d' w)"
    by auto
  have td: "td - d = Suc (td - Suc d)" using Suc.prems(1) by simp
  have n: "tree_node td t d' w = height_hash c L (td - d') w \<and> valid_trits (height_hash c L (td - d') w)" if "d \<le> d'" "d' \<le> td" "w < 2 ^ d'" for d' w
  proof (cases "d' = d")
    case True
    with that(3) have "2 * w + 1 < 2 ^ Suc d" "2 * w < 2 ^ Suc d" by simp_all
    from Suc.prems(4) [OF order_refl Suc.prems(1) this(1)] Suc.prems(4) [OF order_refl Suc.prems(1) this(2)] hash_pair_curl(2) [OF assms] t(3) [OF that(2,3)] True that(3)
    show ?thesis by (simp add: td)
  next
    case False
    with t(3) [OF that(2,3)] Suc.prems(4) [of d' w] that show ?thesis by simp
  qed
  have "\<exists>tree'. hash_tree td d (2 ^ d) c t = Some (c, tree') \<and> length tree' = length t
      \<and> (\<forall>d' w. d' \<le> td \<longrightarrow> w < 2 ^ d' \<longrightarrow> tree_node td tree' d' w = height_hash c L (td - d') w)"
    by (rule Suc.IH [OF _ _ Suc.prems(3) n]) (use Suc.prems(1,2) t(2) in simp_all)
  moreover have "(2 ^ Suc d + 1) div 2 = (2 :: nat) ^ d" by simp
  ultimately show ?case using t(1,2) by simp
qed simp

lemma power_of_two_power: "power_of_two (2 ^ k)"
proof -
  have "and (2 ^ k) (2 ^ k - 1) = take_bit k (2 ^ k :: nat)" unfolding take_bit_eq_mask mask_eq_exp_minus_1 ..
  then show ?thesis by (simp add: power_of_two_def take_bit_eq_mod)
qed

lemma merkle_create_correct:
  assumes "leaves_ok c seed (security * ISS_KEY_LENGTH) offset td" "length tree = HASH_LENGTH_TRIT * merkle_size (2 ^ td)"
  shows "\<exists>tree'. merkle_create tree (2 ^ td) seed offset security c = Some (0, c, tree') \<and> length tree' = length tree
    \<and> (\<forall>d w. d \<le> td \<longrightarrow> w < 2 ^ d \<longrightarrow> tree_node td tree' d w = height_hash c (leaf_of c seed (security * ISS_KEY_LENGTH) offset td) (td - d) w)"
proof -
  let ?ks = "security * ISS_KEY_LENGTH"
  let ?L = "leaf_of c seed ?ks offset td"
  have f: "fresh_curl c" using assms(1) by (simp add: leaves_ok_def)
  have l: "length tree = HASH_LENGTH_TRIT * full td" using assms(2) by (simp add: merkle_size_power full_def)
  obtain t where t: "create_leaves td (2 ^ td) (2 ^ td) 0 seed offset ?ks c tree = Some (c, t)" "length t = length tree"
      "\<And>d w. d \<le> td \<Longrightarrow> w < 2 ^ d \<Longrightarrow> tree_node td t d w = (if d = td \<and> w < 2 ^ td then ?L w else tree_node td tree d w)"
    using create_leaves_correct [OF assms(1) _ l, of 0 "2 ^ td"] by auto
  have v: "valid_trits (?L w)" if "w < 2 ^ td" for w by (rule leaf_of_correct(2) [OF assms(1) that])
  have n: "tree_node td t d w = height_hash c ?L (td - d) w \<and> valid_trits (height_hash c ?L (td - d) w)" if "td \<le> d" "d \<le> td" "w < 2 ^ d" for d w
    using that t(3) [of d w] v by simp
  have "\<exists>tree'. hash_tree td td (2 ^ td) c t = Some (c, tree') \<and> length tree' = length t
      \<and> (\<forall>d w. d \<le> td \<longrightarrow> w < 2 ^ d \<longrightarrow> tree_node td tree' d w = height_hash c ?L (td - d) w)"
    by (rule hash_tree_correct [OF f order_refl _ v n]) (use l t(2) in simp_all)
  then obtain t' where t': "hash_tree td td (2 ^ td) c t = Some (c, t')" "length t' = length t"
    "\<forall>d w. d \<le> td \<longrightarrow> w < 2 ^ d \<longrightarrow> tree_node td t' d w = height_hash c ?L (td - d) w" by blast
  have "merkle_depth (merkle_size (2 ^ td)) - 1 = td" by (simp only: merkle_size_power merkle_depth_power add_diff_cancel_right')
  with t(1) t'(1) have "merkle_create tree (2 ^ td) seed offset security c = Some (0, c, t')" by (simp add: merkle_create_def power_of_two_power Let_def)
  with t(2) t'(2,3) show ?thesis by auto
qed

section \<open>Branch and root\<close>

text \<open>The other child of the parent.\<close>

definition sibling :: "nat \<Rightarrow> nat" where
  "sibling w = (if odd w then w - 1 else w + 1)"

lemma sibling_simps: "sibling w div 2 = w div 2" "w < 2 ^ Suc k \<Longrightarrow> sibling w < 2 ^ Suc k"
proof -
  show "sibling w div 2 = w div 2" by (auto simp: sibling_def elim: oddE)
  have "w + 1 \<noteq> 2 ^ Suc k" if "even w" using that by (metis even_Suc even_power Suc_eq_plus1 dvd_refl zero_less_Suc)
  then show "w < 2 ^ Suc k \<Longrightarrow> sibling w < 2 ^ Suc k" by (fastforce simp: sibling_def)
qed

lemma branch_loop_correct:
  assumes "length tree = HASH_LENGTH_TRIT * full td"
  shows "d \<le> td \<Longrightarrow> w < 2 ^ d \<Longrightarrow> HASH_LENGTH_TRIT * (i + d) \<le> length siblings \<Longrightarrow>
    length (branch_loop tree (length tree) td d i w siblings) = length siblings
    \<and> (\<forall>j < i + d. slice (j * HASH_LENGTH_TRIT) HASH_LENGTH_TRIT (branch_loop tree (length tree) td d i w siblings)
         = (if j < i then slice (j * HASH_LENGTH_TRIT) HASH_LENGTH_TRIT siblings else tree_node td tree (d - (j - i)) (sibling (w div 2 ^ (j - i)))))"
proof (induction d arbitrary: i w siblings)
  case (Suc d)
  have s: "sibling w < 2 ^ Suc d" using Suc.prems(2) by (rule sibling_simps(2))
  let ?h = "tree_node td tree (Suc d) (sibling w)"
  let ?s = "blit siblings (i * HASH_LENGTH_TRIT) ?h"
  have h: "length ?h = 243" using tree_node_length [OF assms Suc.prems(1) s] by simp
  have "\<not> length tree \<le> HASH_LENGTH_TRIT * merkle_node_index (Suc d) (sibling w) td" using node_index_less [OF Suc.prems(1), of "sibling w"] assms by simp
  then have e: "branch_loop tree (length tree) td (Suc d) i w siblings = branch_loop tree (length tree) td d (i + 1) (w div 2) ?s"
    using sibling_simps(1) [of w] by (simp add: Let_def sibling_def tree_node_def split: if_splits)
  have l: "length ?s = length siblings" using h Suc.prems(3) by (intro length_blit) simp
  have w: "w div 2 < 2 ^ d" using Suc.prems(2) by auto
  note ih = Suc.IH [of "w div 2" "i + 1" ?s]
  have "slice (j * 243) 243 (branch_loop tree (length tree) td d (i + 1) (w div 2) ?s)
      = (if j < i then slice (j * 243) 243 siblings else tree_node td tree (Suc d - (j - i)) (sibling (w div 2 ^ (j - i))))" if j: "j < i + Suc d" for j
  proof -
    consider "j < i" | "j = i" | "i < j" by linarith
    then show ?thesis
    proof cases
      case 1
      then have "slice (j * 243) 243 ?s = slice (j * 243) 243 siblings" using Suc.prems(3) by (intro slice_blit_before) simp_all
      with 1 ih w l Suc.prems show ?thesis by simp
    next
      case 2
      have "slice (i * 243) (length ?h) ?s = ?h" using Suc.prems(3) by (simp del: length_blit)
      with 2 ih w l h Suc.prems show ?thesis by simp
    next
      case 3
      then have "j - i = Suc (j - (i + 1))" by simp
      then have "w div 2 div 2 ^ (j - (i + 1)) = w div 2 ^ (j - i)" "Suc d - (j - i) = d - (j - (i + 1))" by (simp_all add: div_mult2_eq)
      with 3 ih w l Suc.prems j show ?thesis by simp
    qed
  qed
  with ih w l Suc.prems show ?case unfolding e by simp
qed simp

text \<open>The leaf with the number \<open>i\<close> is at the position \<open>2 ^ td - 1 - i\<close>, whose bits are the complement of those of \<open>i\<close>.\<close>

lemma complement_bit: "i < 2 ^ td \<Longrightarrow> j < td \<Longrightarrow> odd (i div 2 ^ j) \<longleftrightarrow> even ((2 ^ td - 1 - i) div 2 ^ j :: nat)"
proof (induction j arbitrary: i td)
  case 0
  then obtain t where t: "td = Suc t" by (cases td) auto
  have "2 ^ td - 1 - i + i + 1 = (2 :: nat) ^ td" using 0(1) by linarith
  then have "odd (2 ^ td - 1 - i + i)" unfolding t by (metis even_Suc Suc_eq_plus1 power_Suc dvd_triv_left)
  then show ?case by simp
next
  case (Suc j)
  then obtain t where t: "td = Suc t" by (cases td) auto
  have "i div 2 < 2 ^ t" "j < t" using Suc.prems unfolding t by auto
  moreover have "(2 ^ td - 1 - i) div 2 = 2 ^ t - 1 - i div 2" using Suc.prems(1) unfolding t by simp
  ultimately show ?case using Suc.IH [of "i div 2" t] by (simp add: div_mult2_eq)
qed

lemma height_hash_ok:
  assumes "fresh_curl c" "\<And>w. w < 2 ^ td \<Longrightarrow> valid_trits (L w)"
  shows "k \<le> td \<Longrightarrow> w < 2 ^ (td - k) \<Longrightarrow> valid_trits (height_hash c L k w)"
proof (induction k arbitrary: w)
  case (Suc k)
  then have "(2 :: nat) ^ (td - k) = 2 * 2 ^ (td - Suc k)" by (simp add: Suc_diff_Suc flip: power_Suc)
  with Suc have "valid_trits (height_hash c L k (2 * w + 1))" "valid_trits (height_hash c L k (2 * w))" by simp_all
  then show ?case by (simp add: hash_pair_curl(2) [OF assms(1)])
qed (simp add: assms(2))

lemma height_hash_parent:
  "height_hash c L (Suc k) (w div 2) = (if even w then node_hash c (height_hash c L k (sibling w)) (height_hash c L k w)
     else node_hash c (height_hash c L k w) (height_hash c L k (sibling w)))"
  by (auto simp: sibling_def elim: oddE)

lemma merkle_loop_root:
  assumes "fresh_curl c" "\<And>w. w < 2 ^ td \<Longrightarrow> valid_trits (L w)" "i < 2 ^ td" "p = 2 ^ td - 1 - i" "j \<le> td"
  shows "merkle_loop curl_ops j c (height_hash c L j (p div 2 ^ j)) (map (\<lambda>m. height_hash c L m (sibling (p div 2 ^ m))) [j..<td]) i
    = Some (c, height_hash c L td 0)"
  using assms(5)
proof (induction j rule: inc_induct)
  case base
  have "p div 2 ^ td = 0" using assms(3,4) by simp
  then show ?case by simp
next
  case (step j)
  let ?w = "p div 2 ^ j"
  have td: "td - j = Suc (td - Suc j)" using step.hyps by simp
  have p: "p < 2 ^ j * 2 ^ (td - j)" using assms(3,4) step.hyps by (simp flip: power_add)
  have w: "?w < 2 ^ (td - j)" using p by (simp add: div_less_iff_less_mult mult.commute)
  have v: "valid_trits (height_hash c L j ?w)" "valid_trits (height_hash c L j (sibling ?w))"
    using w sibling_simps(2) [of ?w "td - Suc j"] step.hyps unfolding td [symmetric]
    by (auto intro!: height_hash_ok [where td = td, OF assms(1,2)])
  have b: "odd (i div 2 ^ j) \<longleftrightarrow> even ?w" unfolding assms(4) by (rule complement_bit [OF assms(3) step.hyps(2)])
  have "?w div 2 = p div 2 ^ Suc j" unfolding power_Suc2 div_mult2_eq ..
  with step.IH step.hyps b hash_pair_curl(1) [OF assms(1) v] hash_pair_curl(1) [OF assms(1) v(2,1)] height_hash_parent [of c L j ?w]
  show ?case by (cases "even ?w") (simp_all add: upt_conv_Cons del: height_hash.simps)
qed

text \<open>
  The bound that \<open>merkle_branch\<close> checks its leaf index against does not bound it: for a perfect tree the computed position is inside the array for
  every leaf index, those past the last leaf included.
\<close>

lemma merkle_branch_accepts_any_leaf:
  assumes "length tree = HASH_LENGTH_TRIT * merkle_size (2 ^ td)"
  shows "fst (merkle_branch (Some tree) (Some siblings) (length tree) (td + 1) i (2 ^ td)) = 0"
proof -
  have l: "length tree = HASH_LENGTH_TRIT * full td" using assms by (simp add: merkle_size_power full_def)
  have "\<not> length tree \<le> HASH_LENGTH_TRIT * merkle_node_index td i td" using node_index_less [of td td i] l by simp
  moreover have "merkle_depth (length tree div 243) = td + 1" using merkle_depth_power [of td] l by (simp add: full_def)
  ultimately show ?thesis by (simp add: merkle_branch_def)
qed

section \<open>Properties\<close>

text \<open>
  Positions: in a perfect tree of depth less than 30, \<open>merkle_node_index\<close> gives every node its own position, and the positions are exactly the
  \<open>merkle_size\<close> hashes of the array; the children of a node come after it, the left one directly and the right one after the whole left subtree.
\<close>

theorem merkle_node_index_bijective:
  assumes "td < 30"
  shows "bij_betw (\<lambda>(d, w). merkle_node_index d w td) {(d, w). d \<le> td \<and> w < 2 ^ d} {..<merkle_size (2 ^ td)}
    \<and> (\<forall>d < td. \<forall>w < 2 ^ d. merkle_node_index (d + 1) (2 * w) td = merkle_node_index d w td + 1
         \<and> merkle_node_index (d + 1) (2 * w + 1) td = merkle_node_index d w td + 1 + merkle_size (2 ^ (td - d - 1)))"
proof -
  let ?f = "\<lambda>(d, w). merkle_node_index d w td" and ?A = "SIGMA d : {..td}. {..<(2 :: nat) ^ d}"
  have A: "{(d, w). d \<le> td \<and> w < 2 ^ d} = ?A" by auto
  have size: "merkle_size (2 ^ k) = full k" for k by (simp add: merkle_size_power full_def)
  have inj: "inj_on ?f ?A" by (auto simp: inj_on_def node_index_eq_iff)
  have "card ?A = (\<Sum>d\<le>td. 2 ^ d)" by simp
  also have "\<dots> = full td" by (induction td) (simp_all add: full_def)
  finally have "card (?f ` ?A) = card {..<full td}" using card_image [OF inj] by simp
  moreover have "?f ` ?A \<subseteq> {..<full td}" by (auto simp: node_index_less)
  ultimately have "?f ` ?A = {..<full td}" by (intro card_subset_eq) simp_all
  with inj have "bij_betw ?f {(d, w). d \<le> td \<and> w < 2 ^ d} {..<merkle_size (2 ^ td)}" unfolding A size by (simp add: bij_betw_def)
  moreover have "merkle_node_index (d + 1) (2 * w) td = merkle_node_index d w td + 1
         \<and> merkle_node_index (d + 1) (2 * w + 1) td = merkle_node_index d w td + 1 + merkle_size (2 ^ (td - d - 1))" if "d < td" "w < 2 ^ d" for d w
    using node_index_child [of d td w 0] node_index_child [of d td w 1] that by (simp add: size)
  ultimately show ?thesis by blast
qed

theorem merkle_node_index_bijective_witness: "merkle_node_index 1 1 2 = merkle_node_index 0 0 2 + 1 + merkle_size 2"
  using merkle_node_index_bijective [of 2] by (auto dest: spec [of _ 0])

text \<open>
  C30. Authentication by a Merkle tree, from end to end: for \<open>2 ^ td\<close> leaves, \<open>merkle_create\<close> succeeds, \<open>merkle_branch\<close> finds the siblings of every leaf,
  and \<open>merkle_root\<close> computes from the address with the index \<open>offset + i\<close>, those siblings and \<open>i\<close> the hash at the start of the tree array.
\<close>

theorem merkle_branch_reaches_root:
  assumes "td < 30" "valid_trits seed" "0 \<le> offset" "offset + 2 ^ td < INT64_MAX" "i < 2 ^ td"
    and "length tree = HASH_LENGTH_TRIT * merkle_size (2 ^ td)" "length siblings = HASH_LENGTH_TRIT * td"
  shows "\<exists>tree' siblings' address.
      merkle_create tree (2 ^ td) seed offset security (curl_reset c) = Some (0, curl_reset c, tree')
    \<and> merkle_branch (Some tree') (Some siblings) (length tree') (td + 1) i (2 ^ td) = (0, Some siblings')
    \<and> leaf_address (curl_reset c) seed (offset + int i) (security * ISS_KEY_LENGTH) = Some (curl_reset c, address)
    \<and> merkle_root address siblings' td i (curl_reset c) = Some (curl_reset c, take HASH_LENGTH_TRIT tree')"
proof -
  let ?c = "curl_reset c" and ?p = "2 ^ td - 1 - i"
  let ?L = "leaf_of ?c seed (security * ISS_KEY_LENGTH) offset td"
  have f: "fresh_curl ?c" unfolding curl.fresh_def by (simp add: curl_ops_def curl_reset_def curl_ok_def)
  then have ok: "leaves_ok ?c seed (security * ISS_KEY_LENGTH) offset td" using assms(2-4) by (simp add: leaves_ok_def ISS_KEY_LENGTH_def)
  obtain t where t: "merkle_create tree (2 ^ td) seed offset security ?c = Some (0, ?c, t)" "length t = length tree"
    "\<And>d w. d \<le> td \<Longrightarrow> w < 2 ^ d \<Longrightarrow> tree_node td t d w = height_hash ?c ?L (td - d) w"
    using merkle_create_correct [OF ok assms(6)] by blast
  have l: "length t = HASH_LENGTH_TRIT * full td" using t(2) assms(6) by (simp add: merkle_size_power full_def)
  have p: "?p < 2 ^ td" "2 ^ td - 1 - ?p = i" using assms(5) by (simp_all add: less_imp_diff_less)
  have "(2 :: nat) ^ td < 2 ^ 64" using assms(1) by (intro power_strict_increasing) simp_all
  then have idx: "merkle_leaf_index i (2 ^ td) = ?p" by (rule merkle_leaf_index_less [OF assms(5)])
  define s where "s = branch_loop t (length t) td td 0 ?p siblings"
  have "slice (j * 243) 243 s = height_hash ?c ?L j (sibling (?p div 2 ^ j))" if "j < td" for j
  proof -
    have "td - j = Suc (td - Suc j)" using that by simp
    moreover have "?p div 2 ^ j < 2 ^ (td - j)" using p(1) that by (simp add: div_less_iff_less_mult flip: power_add)
    ultimately have "sibling (?p div 2 ^ j) < 2 ^ (td - j)" using sibling_simps(2) by metis
    with t(3) [of "td - j" "sibling (?p div 2 ^ j)"] branch_loop_correct [OF l order_refl p(1), of 0 siblings] that assms(7) show ?thesis by (simp add: s_def)
  qed
  then have sib: "map (\<lambda>j. slice (j * 243) 243 s) [0..<td] = map (\<lambda>j. height_hash ?c ?L j (sibling (?p div 2 ^ j))) [0..<td]" by simp
  have v: "valid_trits (?L w)" if "w < 2 ^ td" for w by (rule leaf_of_correct(2) [OF ok that])
  have "take 243 t = tree_node td t 0 0" by (simp add: tree_node_def node_index_turns)
  then have root: "merkle_root (?L ?p) s td i ?c = Some (?c, take 243 t)"
    using merkle_loop_root [where L = ?L and td = td and j = 0, OF f v assms(5) refl le0] t(3) [of 0 0] by (simp add: merkle_root_def sib)
  have "\<not> length t \<le> HASH_LENGTH_TRIT * merkle_node_index td i td" using node_index_less [of td td i] l by simp
  moreover have "merkle_depth (length t div 243) = td + 1" using merkle_depth_power [of td] l by (simp add: full_def)
  ultimately have br: "merkle_branch (Some t) (Some siblings) (length t) (td + 1) i (2 ^ td) = (0, Some s)"
    by (simp add: merkle_branch_def idx s_def)
  have "leaf_address ?c seed (wrap64 (offset + int i)) (security * ISS_KEY_LENGTH) = Some (?c, ?L ?p)"
    using leaf_of_correct(1) [OF ok p(1)] merkle_leaf_index_less [OF p(1) \<open>2 ^ td < 2 ^ 64\<close>] p(2) by simp
  moreover have "wrap64 (offset + int i) = offset + int i"
  proof (rule wrap64_id)
    have "int i < 2 ^ td" using assms(5) by (metis of_nat_less_iff of_nat_numeral of_nat_power)
    then show "- (2 ^ 63) \<le> offset + int i" "offset + int i < 2 ^ 63" using assms(3,4) by linarith+
  qed
  ultimately show ?thesis using t(1) br root by auto
qed

theorem merkle_branch_reaches_root_witness:
  "\<exists>tree' siblings' address.
      merkle_create (replicate (243 * 3) 0) (2 ^ 1) (replicate 243 1) 5 1 (curl_reset \<lparr>state = [], curl_type = 27\<rparr>) = Some (0, curl_reset \<lparr>state = [], curl_type = 27\<rparr>, tree')
    \<and> merkle_branch (Some tree') (Some (replicate 243 0)) (length tree') (1 + 1) 1 (2 ^ 1) = (0, Some siblings')
    \<and> leaf_address (curl_reset \<lparr>state = [], curl_type = 27\<rparr>) (replicate 243 1) (5 + int 1) (1 * ISS_KEY_LENGTH) = Some (curl_reset \<lparr>state = [], curl_type = 27\<rparr>, address)
    \<and> merkle_root address siblings' 1 1 (curl_reset \<lparr>state = [], curl_type = 27\<rparr>) = Some (curl_reset \<lparr>state = [], curl_type = 27\<rparr>, take HASH_LENGTH_TRIT tree')"
proof -
  have "merkle_size (2 ^ 1) = 3" using merkle_size_power [of 1] by simp
  then show ?thesis by (intro merkle_branch_reaches_root) (auto simp: list_all_iff)
qed

end
