(* ===== verification/Pow.thy ===== *)
theory Pow
  imports Prelude Errors Trit_Tryte Flex_Trit Curl Kerl Transaction Bundle Pearl_Diver
begin

unbundle bit_operations_syntax

text \<open>
  \<open>common/helpers/pow.c\<close>, \<open>digest.c\<close> and \<open>checksum.c\<close>: proof of work for trytes, packed trits and bundles, digests and checksums. The search for a nonce is
  an argument, \<open>search ctx bgn end mwm\<close>; the theorems are about functions that give, for every call, one of the results that \<open>hashcash\<close> of \<open>Pearl_Diver\<close> can
  have. \<open>oom i\<close> says that the allocation number \<open>i\<close> of a call fails. A result \<open>None\<close> is a failed assertion or undefined behaviour, \<open>Some None\<close> is NULL.
\<close>

section \<open>Definitions\<close>

type_synonym nonce_search = "Curl \<Rightarrow> nat \<Rightarrow> nat \<Rightarrow> nat \<Rightarrow> PearlDiverStatus \<times> Curl"

definition NONCE_LENGTH :: nat where "NONCE_LENGTH = 27 * 3"

text \<open>The result of \<open>calloc\<close> is not checked before the nonce is copied; an input of less than 243 trits is read before its start.\<close>

definition do_pow :: "nonce_search \<Rightarrow> bool \<Rightarrow> Curl \<Rightarrow> trit list \<Rightarrow> nat \<Rightarrow> (Curl \<times> trit list option) option" where
  "do_pow search failed curl trits_in mwm =
     (let trits_len = length trits_in
      in if trits_len < HASH_LENGTH_TRIT then None
         else let curl = curl_absorb curl (take (trits_len - HASH_LENGTH_TRIT) trits_in);
                  curl = curl\<lparr>state := blit (state curl) 0 (drop (trits_len - HASH_LENGTH_TRIT) trits_in)\<rparr>;
                  (status, curl) = search curl (HASH_LENGTH_TRIT - NONCE_LENGTH) HASH_LENGTH_TRIT mwm
              in if status = PEARL_DIVER_SUCCESS
                 then if failed then None else Some (curl, Some (slice (HASH_LENGTH_TRIT - NONCE_LENGTH) NONCE_LENGTH (state curl)))
                 else Some (curl, None))"

text \<open>\<open>curl_init(&curl); curl.type = CURL_P_81;\<close>\<close>

definition curl_81 :: Curl where
  "curl_81 = (curl_init \<lparr>state = [], curl_type = 0\<rparr>)\<lparr>curl_type := CURL_P_81\<rparr>"

definition iota_pow_trytes :: "nonce_search \<Rightarrow> (nat \<Rightarrow> bool) \<Rightarrow> tryte list \<Rightarrow> nat \<Rightarrow> tryte list option option" where
  "iota_pow_trytes search oom trytes_in mwm =
     (if oom 0 then Some None
      else case do_pow search (oom 1) curl_81 (trytes_to_trits trytes_in) mwm of
             None \<Rightarrow> None
           | Some (_, None) \<Rightarrow> Some None
           | Some (_, Some nonce_trits) \<Rightarrow> if oom 2 then Some None else Some (Some (trits_to_trytes (take NUM_TRITS_NONCE nonce_trits))))"

definition iota_pow_flex :: "flex_enc \<Rightarrow> nonce_search \<Rightarrow> (nat \<Rightarrow> bool) \<Rightarrow> flex_trit list \<Rightarrow> nat \<Rightarrow> nat \<Rightarrow> flex_trit list option option" where
  "iota_pow_flex e search oom flex_trits_in num_trits mwm =
     (if oom 0 then Some None
      else let trits = snd (flex_trits_to_trits e (replicate num_trits 0) num_trits flex_trits_in num_trits num_trits)
           in case do_pow search (oom 1) curl_81 trits mwm of
                None \<Rightarrow> None
              | Some (_, None) \<Rightarrow> Some None
              | Some (_, Some nonce_trits) \<Rightarrow>
                  if oom 2 then Some None
                  else Some (Some (snd (flex_trits_from_trits e (replicate NUM_TRITS_NONCE 0) NUM_TRITS_NONCE nonce_trits NUM_TRITS_NONCE NUM_TRITS_NONCE))))"

text \<open>\<open>trytes\<close> is the string up to its NUL.\<close>

definition TRYTE_LENGTH :: nat where "TRYTE_LENGTH = 2673"

definition iota_digest :: "(nat \<Rightarrow> bool) \<Rightarrow> tryte list \<Rightarrow> tryte list option" where
  "iota_digest oom trytes =
     (let length = min (length trytes) TRYTE_LENGTH
      in if oom 0 then None
         else let trits_hash = snd (curl_digest (trytes_to_trits (take length trytes)) curl_81)
              in if oom 1 then None else Some (trits_to_trytes trits_hash))"

text \<open>The hash is written to an array that is sized for the input: an input of less than 243 trits gives one that is too short.\<close>

definition iota_flex_digest :: "flex_enc \<Rightarrow> (nat \<Rightarrow> bool) \<Rightarrow> flex_trit list \<Rightarrow> nat \<Rightarrow> flex_trit list option" where
  "iota_flex_digest e oom flex_trits num_trits =
     (if oom 0 then None
      else let trits = snd (flex_trits_to_trits e (replicate num_trits 0) num_trits flex_trits num_trits num_trits);
               trits_hash = snd (curl_digest trits curl_81);
               flex_len = NUM_FLEX_TRITS_FOR_TRITS e num_trits
           in if oom 1 then None
              else Some (snd (flex_trits_from_trits e (replicate flex_len 0) HASH_LENGTH_TRIT trits_hash HASH_LENGTH_TRIT HASH_LENGTH_TRIT)))"

text \<open>A checksum longer than the hash starts before the array.\<close>

definition iota_checksum ::
  "'k keccak \<Rightarrow> (nat \<Rightarrow> u8) \<Rightarrow> (nat \<Rightarrow> bool) \<Rightarrow> tryte list \<Rightarrow> nat \<Rightarrow> nat \<Rightarrow> tryte list option option"
where
  "iota_checksum K stack oom input input_length checksum_length =
     (if checksum_length = 0 \<or> oom 0 then Some None
      else case kerl_hash K stack (trytes_to_trits (take input_length input)) of
             None \<Rightarrow> None
           | Some (_, trits_hash) \<Rightarrow>
               if oom 1 then Some None
               else if HASH_LENGTH_TRIT < checksum_length * 3 then None
               else Some (Some (trits_to_trytes (drop (HASH_LENGTH_TRIT - checksum_length * 3) trits_hash))))"

definition iota_flex_checksum ::
  "'k keccak \<Rightarrow> (nat \<Rightarrow> u8) \<Rightarrow> flex_enc \<Rightarrow> (nat \<Rightarrow> bool) \<Rightarrow> flex_trit list \<Rightarrow> nat \<Rightarrow> nat \<Rightarrow> flex_trit list option option"
where
  "iota_flex_checksum K stack e oom flex_trits num_trits checksum_length =
     (if checksum_length = 0 \<or> oom 0 then Some None
      else let trits = snd (flex_trits_to_trits e (replicate num_trits 0) num_trits flex_trits num_trits num_trits)
           in case kerl_hash K stack trits of
                None \<Rightarrow> None
              | Some (_, trits_hash) \<Rightarrow>
                  let flex_len = NUM_FLEX_TRITS_FOR_TRITS e num_trits
                  in if oom 1 then Some None
                     else if HASH_LENGTH_TRIT < checksum_length then None
                     else Some (Some (snd (flex_trits_from_trits e (replicate flex_len 0) HASH_LENGTH_TRIT
                                             (drop (HASH_LENGTH_TRIT - checksum_length) trits_hash) HASH_LENGTH_TRIT checksum_length))))"

text \<open>
  The parts of one iteration of \<open>iota_pow_bundle\<close>: the references and timestamps, the tag, the nonce. \<open>ctrunk\<close> is the hash of the transaction that was
  completed before, NULL at first.
\<close>

definition find_index :: "int \<Rightarrow> bundle_transactions \<Rightarrow> nat option" where
  "find_index cur_idx bundle = find (\<lambda>k. tx_current_index (essence (bundle ! k)) = cur_idx) [0..<length bundle]"

definition set_references ::
  "flex_enc \<Rightarrow> iota_transaction \<Rightarrow> flex_trit list \<Rightarrow> flex_trit list \<Rightarrow> flex_trit list option \<Rightarrow> iota_transaction option"
where
  "set_references e tx trunk branch ctrunk =
     (case (transaction_current_index tx, transaction_last_index tx) of
        (Some i, Some l) \<Rightarrow>
          if i = l then Some (transaction_set_branch e (transaction_set_trunk e tx trunk) branch)
          else (case ctrunk of None \<Rightarrow> None | Some ctrunk \<Rightarrow> Some (transaction_set_branch e (transaction_set_trunk e tx ctrunk) trunk))
      | _ \<Rightarrow> None)"

definition set_attachment_times :: "iota_transaction \<Rightarrow> int \<Rightarrow> iota_transaction" where
  "set_attachment_times tx now =
     transaction_set_attachment_timestamp_upper
       (transaction_set_attachment_timestamp_lower (transaction_set_attachment_timestamp tx now) 0) 3812798742493"

text \<open>Only the first 27 trits of the tag are tested and copied.\<close>

definition copy_tag :: "flex_enc \<Rightarrow> iota_transaction \<Rightarrow> iota_transaction option" where
  "copy_tag e tx =
     (case transaction_tag tx of
        None \<Rightarrow> None
      | Some tag \<Rightarrow>
          if flex_trits_are_null e (take (FLEX_TRIT_SIZE_27 e) tag)
          then (case transaction_obsolete_tag tx of
                  None \<Rightarrow> None
                | Some obsolete \<Rightarrow> Some (attachment_update (tx_tag_update (\<lambda>_. blit tag 0 (take (FLEX_TRIT_SIZE_27 e) obsolete))) tx))
          else Some tx)"

text \<open>One iteration: \<open>Inl rc\<close> is a return, \<open>Inr\<close> holds the next \<open>ctrunk\<close> and the bundle.\<close>

definition pow_iteration ::
  "flex_enc \<Rightarrow> nonce_search \<Rightarrow> (nat \<Rightarrow> bool) \<Rightarrow> int \<Rightarrow> flex_trit list \<Rightarrow> flex_trit list \<Rightarrow> nat \<Rightarrow> nat \<Rightarrow> flex_trit list option \<Rightarrow> bundle_transactions
     \<Rightarrow> (retcode \<times> bundle_transactions + flex_trit list option \<times> bundle_transactions) option"
where
  "pow_iteration e search oom now trunk branch mwm cur_idx ctrunk bundle =
     (case find_index (int cur_idx) bundle of
        None \<Rightarrow> Some (Inl (RC_HELPERS_POW_INVALID_TX, bundle))
      | Some k \<Rightarrow>
          (case set_references e (bundle ! k) trunk branch ctrunk of
             None \<Rightarrow> None
           | Some tx \<Rightarrow>
               (case copy_tag e (set_attachment_times tx now) of
                  None \<Rightarrow> None
                | Some tx \<Rightarrow>
                    (case iota_pow_flex e search oom (snd (transaction_serialize_on_flex_trits e tx)) NUM_TRITS_SERIALIZED_TRANSACTION mwm of
                       None \<Rightarrow> None
                     | Some None \<Rightarrow> Some (Inl (RC_OOM, bundle[k := tx]))
                     | Some (Some nonce) \<Rightarrow>
                         let tx = transaction_set_nonce e tx nonce; bundle = bundle[k := tx]
                         in if cur_idx \<noteq> 0
                            then (case iota_flex_digest e (\<lambda>i. oom (i + 3)) (snd (transaction_serialize_on_flex_trits e tx)) NUM_TRITS_SERIALIZED_TRANSACTION of
                                    None \<Rightarrow> Some (Inl (RC_OOM, bundle))
                                  | Some hash \<Rightarrow> Some (Inr (Some hash, bundle)))
                            else Some (Inr (ctrunk, bundle))))))"

primrec pow_loop ::
  "flex_enc \<Rightarrow> (nat \<Rightarrow> nonce_search) \<Rightarrow> (nat \<Rightarrow> nat \<Rightarrow> bool) \<Rightarrow> (nat \<Rightarrow> int) \<Rightarrow> flex_trit list \<Rightarrow> flex_trit list \<Rightarrow> nat \<Rightarrow> nat \<Rightarrow> flex_trit list option
     \<Rightarrow> bundle_transactions \<Rightarrow> (retcode \<times> bundle_transactions) option"
where
  "pow_loop e search oom now trunk branch mwm 0 ctrunk bundle =
     (case pow_iteration e (search 0) (oom 0) (now 0) trunk branch mwm 0 ctrunk bundle of
        None \<Rightarrow> None
      | Some (Inl r) \<Rightarrow> Some r
      | Some (Inr (_, bundle)) \<Rightarrow> Some (RC_OK, bundle))"
| "pow_loop e search oom now trunk branch mwm (Suc i) ctrunk bundle =
     (case pow_iteration e (search (Suc i)) (oom (Suc i)) (now (Suc i)) trunk branch mwm (Suc i) ctrunk bundle of
        None \<Rightarrow> None
      | Some (Inl r) \<Rightarrow> Some r
      | Some (Inr (ctrunk, bundle)) \<Rightarrow> pow_loop e search oom now trunk branch mwm i ctrunk bundle)"

text \<open>\<open>search\<close>, \<open>oom\<close> and \<open>now\<close> are numbered by the index of the transaction.\<close>

definition iota_pow_bundle ::
  "flex_enc \<Rightarrow> (nat \<Rightarrow> nonce_search) \<Rightarrow> (nat \<Rightarrow> nat \<Rightarrow> bool) \<Rightarrow> (nat \<Rightarrow> int) \<Rightarrow> bundle_transactions option \<Rightarrow> flex_trit list option \<Rightarrow> flex_trit list option \<Rightarrow> nat
     \<Rightarrow> (retcode \<times> bundle_transactions option) option"
where
  "iota_pow_bundle e search oom now bundlep trunkp branchp mwm =
     (case (bundlep, trunkp, branchp) of
        (Some bundle, Some trunk, Some branch) \<Rightarrow>
          if bundle = [] then Some (RC_OK, bundlep)
          else map_option (\<lambda>(rc, bundle). (rc, Some bundle))
                 (pow_loop e search oom now trunk branch mwm (nat (uwrap64 (tx_last_index (essence (hd bundle))))) None bundle)
      | _ \<Rightarrow> Some (RC_NULL_PARAM, bundlep))"

section \<open>Packed results in longer arrays\<close>

lemma set_trits4_append:
  "NUM_FLEX_TRITS_FOR_TRITS ENC4 to_len \<le> length a \<Longrightarrow> set_trits4 (a @ b) to_len i ts = set_trits4 a to_len i ts @ b"
proof (induction ts arbitrary: a i)
  case (Cons t ts)
  have "i div 4 < length a" if "i < to_len"
    using that Cons.prems by (simp add: NUM_FLEX_TRITS_FOR_TRITS_def)
  then have "snd (flex_trits_set_at ENC4 (a @ b) to_len i t) = snd (flex_trits_set_at ENC4 a to_len i t) @ b"
    by (simp add: flex_trits_set_at_def Let_def list_update_append nth_append)
  moreover have "length (snd (flex_trits_set_at ENC4 a to_len i t)) = length a" by (simp add: flex_trits_set_at_def Let_def)
  ultimately show ?case using Cons.IH [of "snd (flex_trits_set_at ENC4 a to_len i t)" "i + 1"] Cons.prems by simp
qed simp

lemma blit_append: "off + length ys \<le> length a \<Longrightarrow> blit (a @ b) off ys = blit a off ys @ b"
  by (simp add: blit_def)

lemma flex_trits_from_trits_append:
  assumes "length a = NUM_FLEX_TRITS_FOR_TRITS e dlen" "valid_trits ts"
  shows "snd (flex_trits_from_trits e (a @ b) dlen ts n num) = snd (flex_trits_from_trits e a dlen ts n num) @ b"
proof (cases "num > n \<or> num > dlen \<or> num = 0")
  case False
  let ?c = "flex_clear e a dlen"
  have c: "flex_clear e (a @ b) dlen = ?c @ b" "length ?c = NUM_FLEX_TRITS_FOR_TRITS e dlen"
    using assms(1) by (simp_all add: flex_clear_def blit_append)
  have m: "num_cells w m \<le> num_cells w dlen" if "m \<le> dlen" "0 < w" for w m using that by (simp add: num_cells_def div_le_mono)
  have l: "length (take num ts) \<le> dlen" using False by (simp add: min.coboundedI2)
  show ?thesis
  proof (cases e)
    case ENC1
    with False c l show ?thesis by (simp add: flex_trits_from_trits_def Let_def blit_append NUM_FLEX_TRITS_FOR_TRITS_def)
  next
    case ENC3
    have "length (trits_to_trytes (take num ts)) \<le> length ?c" using m [OF l, of 3] ENC3 c(2) by (simp add: NUM_FLEX_TRITS_cells NUM_TRITS_PER_FLEX_TRIT_def trits_to_trytes_length num_trytes_for_trits_def num_cells_def)
    with False c ENC3 show ?thesis by (simp add: flex_trits_from_trits_def Let_def blit_append)
  next
    case ENC4
    with False c show ?thesis by (simp add: flex_trits_from_trits_def Let_def set_trits4_append)
  next
    case ENC5
    have "length (trits_to_bytes (take num ts)) \<le> length ?c" using m [OF l, of 5] ENC5 c(2) by (simp add: NUM_FLEX_TRITS_cells NUM_TRITS_PER_FLEX_TRIT_def trits_to_bytes_length MIN_BYTES_def num_cells_def)
    with False c ENC5 show ?thesis by (simp add: flex_trits_from_trits_def Let_def blit_append)
  qed
qed (auto simp: flex_trits_from_trits_def)

text \<open>The cells of the packed array are the packed trits.\<close>

lemma flex_trits_from_trits_pack:
  assumes "NUM_FLEX_TRITS_FOR_TRITS e n \<le> length dst" "valid_trits ts" "length ts = n" "0 < n"
  shows "take (NUM_FLEX_TRITS_FOR_TRITS e n) (snd (flex_trits_from_trits e dst n ts n n)) = flex_pack e ts"
proof -
  let ?k = "NUM_FLEX_TRITS_FOR_TRITS e n"
  let ?a = "take ?k dst" and ?b = "drop ?k dst"
  have a: "length ?a = ?k" using assms(1) by simp
  obtain d where d: "flex_trits_from_trits e ?a n ts n n = (n, d)" "flex_ok e d n"
      "flex_abs e d = take n ts @ replicate (NUM_TRITS_PER_FLEX_TRIT e * ?k - n) 0"
    using flex_trits_from_trits_abs [OF a assms(2), of n] assms(3,4) by auto
  have "flex_canonical e d n" "flex_field e d n = ts" using d(2,3) assms(3) by (simp_all add: flex_canonical_def flex_field_def list_all_iff)
  then have "d = flex_pack e ts" using flex_pack_field by metis
  moreover have "snd (flex_trits_from_trits e dst n ts n n) = d @ ?b"
    using flex_trits_from_trits_append [OF a assms(2), of ?b n n] d(1) by simp
  ultimately show ?thesis using d(2) by (simp add: flex_ok_def)
qed

lemma flex_trits_to_trits_field:
  assumes "flex_ok e cs n" "0 < n" "3 dvd n"
  shows "snd (flex_trits_to_trits e (replicate n 0) n cs n n) = flex_field e cs n"
proof -
  have "3 * NUM_FLEX_TRITS_FOR_TRITS ENC3 n = n" using assms(3) by (auto simp: NUM_FLEX_TRITS_FOR_TRITS_def)
  then have r: "3 * NUM_FLEX_TRITS_FOR_TRITS e n \<le> length (replicate n (0 :: trit))" if "e = ENC3" using that by simp
  have "\<exists>ts. flex_trits_to_trits e (replicate n 0) (length (replicate n (0 :: trit))) cs n n = (NUM_FLEX_TRITS_FOR_TRITS e n, ts)
      \<and> length ts = length (replicate n (0 :: trit)) \<and> valid_trits ts \<and> take n ts = take n (flex_abs e cs)"
    by (rule flex_trits_to_trits_abs [OF assms(1,2) order_refl _ r]) simp_all
  then show ?thesis by (auto simp: flex_field_def)
qed

section \<open>The nonce\<close>

text \<open>\<open>search\<close> gives, where \<open>do_pow\<close> calls it, results that the threads of \<open>hashcash\<close> can have.\<close>

definition hashcash_results :: "nat \<Rightarrow> pcurl_conf \<Rightarrow> 'w::len pcurl \<Rightarrow> nonce_search \<Rightarrow> bool" where
  "hashcash_results cpus cf pcurl search \<longleftrightarrow>
     (\<forall>ctx mwm. curl_ok ctx \<longrightarrow> curl_type ctx = 81 \<longrightarrow> hashcash cpus cf pcurl ctx 162 243 mwm (search ctx 162 243 mwm))"

lemma search_result:
  assumes "conf_ok cf" "64 dvd LENGTH('w::len)" "hashcash_results cpus cf (pcurl :: 'w pcurl) search" "curl_ok ctx" "curl_type ctx = 81" "mwm \<le> 243"
    and "search ctx 162 243 mwm = (PEARL_DIVER_SUCCESS, ctx')"
  obtains nonce where "valid_trits nonce" "length nonce = 81" "ctx' = ctx\<lparr>state := blit (state ctx) 162 nonce\<rparr>"
    "slice (243 - mwm) mwm (state (transform ctx')) = replicate mwm 0"
proof -
  have "8 \<le> LENGTH('w)" using assms(2) len_gt_0 [where ?'a = 'w] by (auto dest!: dvd_imp_le)
  have r: "search_range cf ctx 162 243" using assms(4,5) by (simp add: search_range_def)
  have "pd_search_n cf pcurl (hashcash_test cf mwm) ctx 162 243 cpus (PEARL_DIVER_SUCCESS, ctx')"
    using assms(3-5,7) unfolding hashcash_results_def hashcash_def pd_search_def by metis
  from search_test.search_sound [OF hashcash_search_test [OF assms(1,2)] r this] assms(6) that show ?thesis by auto
qed

lemma curl_81_ok: "curl_ok curl_81" "curl_type curl_81 = 81" "curl_81 = \<lparr>state = replicate STATE_LENGTH 0, curl_type = CURL_P_81\<rparr>"
  by (simp_all add: curl_81_def curl_init_def curl_ok_def CURL_P_81_def)

lemma trailing_zeros_ge:
  assumes "m \<le> length ts" "drop (length ts - m) ts = replicate m 0"
  shows "m \<le> trailing_zeros ts"
proof -
  have "rev ts = replicate m 0 @ rev (take (length ts - m) ts)"
    using append_take_drop_id [of "length ts - m" ts] assms(2) by (metis rev_append rev_replicate)
  then show ?thesis by (simp add: trailing_zeros_def takeWhile_append)
qed

lemma do_pow_sound:
  assumes "conf_ok cf" "64 dvd LENGTH('w::len)" "hashcash_results cpus cf (pcurl :: 'w pcurl) search" "mwm \<le> 243"
    and "valid_trits ts" "length ts = 243 * Suc k" "do_pow search failed curl_81 ts mwm = Some (c, Some nonce)"
  shows "valid_trits nonce" "length nonce = 81" "mwm \<le> trailing_zeros (transaction_digest (take (length ts - 81) ts @ nonce))"
proof -
  let ?A = "take (243 * k) ts" and ?B = "drop (243 * k) ts"
  define ctx where "ctx = (curl_absorb curl_81 ?A)\<lparr>state := blit (state (curl_absorb curl_81 ?A)) 0 ?B\<rparr>"
  have v: "valid_trits ?A" "valid_trits ?B" using assms(5) by (simp_all add: valid_trits_take valid_trits_drop)
  have B: "length ?B = 243" "length ?A = 243 * k" using assms(6) by simp_all
  note ok = curl_absorb_ok [OF curl_81_ok(1) v(1)]
  have ctx: "curl_ok ctx" "curl_type ctx = 81"
    using ok v(2) B curl_81_ok(2) by (simp_all add: ctx_def curl_ok_def list_all_blit)
  obtain st where s: "search ctx 162 243 mwm = (PEARL_DIVER_SUCCESS, st)" "nonce = slice 162 81 (state st)"
    using assms(7) assms(6) by (auto simp: do_pow_def Let_def NONCE_LENGTH_def ctx_def split: prod.splits if_splits)
  obtain x where x: "valid_trits x" "length x = 81" "st = ctx\<lparr>state := blit (state ctx) 162 x\<rparr>"
      "slice (243 - mwm) mwm (state (transform st)) = replicate mwm 0"
    using search_result [OF assms(1-3) ctx assms(4) s(1)] by metis
  have l: "length (state ctx) = 729" using ctx(1) by (simp add: curl_ok_def)
  have "slice 162 (length x) (blit (state ctx) 162 x) = x" using l by (intro slice_blit_same) simp
  then have n: "nonce = x" using s(2) x by simp
  then show "valid_trits nonce" "length nonce = 81" using x by simp_all
  let ?ts = "take (length ts - 81) ts @ nonce"
  have "length ts - 81 = 243 * k + 162" using assms(6) by simp
  then have t: "?ts = ?A @ (take 162 ?B @ nonce)" by (simp only: take_add append_assoc)
  have "blit (blit S 0 ?B) 162 x = blit S 0 (take 162 ?B @ x)" if "length S = 729" for S
    using that B x(2) by (simp add: blit_def)
  then have st: "state st = blit (state (curl_absorb curl_81 ?A)) 0 (take 162 ?B @ nonce)"
    using ok(1) x(3) n by (simp add: ctx_def curl_ok_def)
  have st': "st = (curl_absorb curl_81 ?A)\<lparr>state := blit (state (curl_absorb curl_81 ?A)) 0 (take 162 ?B @ nonce)\<rparr>"
    using st x(3) by (simp add: ctx_def)
  have "curl_absorb curl_81 ?ts = curl_absorb (curl_absorb curl_81 ?A) (take 162 ?B @ nonce)" unfolding t using B by (intro curl_absorb_append) simp
  also have "\<dots> = transform st" using B x(2) n st' by (simp add: curl_absorb_def num_chunks_def)
  finally have "transaction_digest ?ts = take 243 (state (transform st))"
    unfolding transaction_digest_def curl_digest_def curl_81_ok(3) [symmetric] by (simp add: curl_squeeze_def num_chunks_def split_beta)
  moreover have "length (state (transform st)) = 729"
    using transform_ok [of st] x ctx(1) by (simp add: curl_ok_def list_all_blit)
  ultimately show "mwm \<le> trailing_zeros (transaction_digest ?ts)"
    using x(4) assms(4) by (intro trailing_zeros_ge) (simp_all add: slice_def drop_take)
qed

lemma iota_pow_flex_sound:
  assumes "conf_ok cf" "64 dvd LENGTH('w::len)" "hashcash_results cpus cf (pcurl :: 'w pcurl) search" "mwm \<le> 243"
    and "flex_ok e cs 8019" "iota_pow_flex e search oom cs 8019 mwm = Some (Some nonce)"
  obtains x where "take (FLEX_TRIT_SIZE_81 e) nonce = flex_pack e x" "valid_trits x" "length x = 81"
    "mwm \<le> trailing_zeros (transaction_digest (take (8019 - 81) (flex_field e cs 8019) @ x))"
proof -
  let ?ts = "flex_field e cs 8019"
  have ts: "snd (flex_trits_to_trits e (replicate 8019 0) 8019 cs 8019 8019) = ?ts" "valid_trits ?ts" "length ?ts = 243 * Suc 32"
    using flex_trits_to_trits_field [OF assms(5)] flex_field_valid [OF assms(5)] flex_field_length [OF assms(5)] by simp_all
  obtain c x where x: "do_pow search (oom 1) curl_81 ?ts mwm = Some (c, Some x)"
      "nonce = snd (flex_trits_from_trits e (replicate 81 0) 81 x 81 81)"
    using assms(6) by (auto simp: iota_pow_flex_def Let_def ts(1) NUM_TRITS_NONCE_def split: if_splits option.splits)
  note sound = do_pow_sound [OF assms(1-4) ts(2,3) x(1)]
  have "NUM_FLEX_TRITS_FOR_TRITS e 81 \<le> length (replicate 81 (0 :: int))" by (cases e) (simp_all add: NUM_FLEX_TRITS_FOR_TRITS_def)
  then have "take (NUM_FLEX_TRITS_FOR_TRITS e 81) nonce = flex_pack e x" unfolding x(2) by (rule flex_trits_from_trits_pack [OF _ sound(1,2)]) simp
  with sound ts(3) that [of x] show ?thesis by (simp add: FLEX_TRIT_SIZE_eq)
qed

lemma iota_flex_digest_correct:
  assumes "flex_ok e cs 8019" "iota_flex_digest e oom cs 8019 = Some h"
  shows "take (FLEX_TRIT_SIZE_243 e) h = flex_pack e (transaction_digest (flex_field e cs 8019))"
proof -
  let ?d = "transaction_digest (flex_field e cs 8019)"
  have h: "h = snd (flex_trits_from_trits e (replicate (NUM_FLEX_TRITS_FOR_TRITS e 8019) 0) 243 ?d 243 243)"
    using assms(2) flex_trits_to_trits_field [OF assms(1)]
    by (auto simp: iota_flex_digest_def Let_def transaction_digest_def curl_81_ok(3) split: if_splits)
  have "NUM_FLEX_TRITS_FOR_TRITS e 243 \<le> length (replicate (NUM_FLEX_TRITS_FOR_TRITS e 8019) (0 :: int))"
    by (cases e) (simp_all add: NUM_FLEX_TRITS_FOR_TRITS_def)
  moreover have "valid_trits ?d" "length ?d = 243"
    using curl_squeeze_ok [OF curl_absorb_ok(1) [OF curl_81_ok(1) flex_field_valid [OF assms(1)]], of 243]
    by (simp_all add: transaction_digest_def curl_digest_def curl_81_ok(3))
  ultimately show ?thesis unfolding h using flex_trits_from_trits_pack [of e 243 _ ?d] by (simp add: FLEX_TRIT_SIZE_eq)
qed

section \<open>Bundles\<close>

lemma transaction_trits_nonce:
  assumes "transaction_ok e tx" "flex_ok e nonce 81" "essence tx' = essence tx" "data tx' = data tx" "attachment tx' = attachment tx\<lparr>tx_nonce := nonce\<rparr>"
  shows "transaction_trits e tx' = take (8019 - 81) (transaction_trits e tx) @ flex_field e nonce 81"
proof -
  have s: "transaction_trits e t = concat (butlast (transaction_fields e t)) @ flex_field e (tx_nonce (attachment t)) 81" for t
    by (simp add: transaction_trits_def transaction_fields_def)
  have b: "butlast (transaction_fields e tx') = butlast (transaction_fields e tx)" using assms(3-5) by (simp add: transaction_fields_def)
  have "flex_ok e (tx_nonce (attachment tx)) 81" using assms(1) by (simp add: transaction_ok_def all_arrays_def)
  then have "length (concat (butlast (transaction_fields e tx))) = 8019 - 81"
    using s [of tx] transaction_trits_length [OF assms(1)] by (simp add: flex_field_length)
  then show ?thesis unfolding s b using assms(5) by simp
qed

lemma flex_ok_blit:
  assumes "flex_ok e a n" "flex_ok e b n"
  shows "flex_ok e (blit a 0 (take k b)) n"
proof -
  have "length (blit a 0 (take k b)) = length a" using assms by (simp add: flex_ok_def blit_def)
  with assms show ?thesis by (auto simp: flex_ok_def list_all_iff dest: in_set_takeD in_set_dropD simp: blit_def)
qed

lemma set_references_correct:
  assumes "set_references e tx trunk branch ctrunk = Some tx'"
  shows "essence tx' = essence tx \<and> data tx' = data tx \<and> consensus tx' = consensus tx
    \<and> (if tx_current_index (essence tx) = tx_last_index (essence tx)
       then attachment tx' = attachment tx\<lparr>tx_trunk := take (FLEX_TRIT_SIZE_243 e) trunk, tx_branch := take (FLEX_TRIT_SIZE_243 e) branch\<rparr>
       else ctrunk \<noteq> None \<and> attachment tx' = attachment tx\<lparr>tx_trunk := take (FLEX_TRIT_SIZE_243 e) (the ctrunk), tx_branch := take (FLEX_TRIT_SIZE_243 e) trunk\<rparr>)"
  using assms
  by (auto simp: set_references_def transaction_current_index_def transaction_last_index_def transaction_set_branch_def transaction_set_trunk_def
      load_attachment_def split: if_splits option.splits)

lemma copy_tag_correct:
  assumes "copy_tag e tx = Some tx'"
  shows "essence tx' = essence tx \<and> data tx' = data tx \<and> consensus tx' = consensus tx
    \<and> attachment tx' = attachment tx\<lparr>tx_tag := (if flex_trits_are_null e (take (FLEX_TRIT_SIZE_27 e) (tx_tag (attachment tx)))
         then blit (tx_tag (attachment tx)) 0 (take (FLEX_TRIT_SIZE_27 e) (tx_obsolete_tag (essence tx))) else tx_tag (attachment tx))\<rparr>"
  using assms by (auto simp: copy_tag_def transaction_tag_def transaction_obsolete_tag_def split: if_splits option.splits)

lemma set_attachment_times_correct:
  "essence (set_attachment_times tx now) = essence tx" "data (set_attachment_times tx now) = data tx" "consensus (set_attachment_times tx now) = consensus tx"
  "attachment (set_attachment_times tx now) = attachment tx\<lparr>tx_attachment_timestamp := now, tx_attachment_timestamp_lower := 0,
     tx_attachment_timestamp_upper := 3812798742493\<rparr>"
  by (simp_all add: set_attachment_times_def transaction_set_attachment_timestamp_def transaction_set_attachment_timestamp_lower_def
      transaction_set_attachment_timestamp_upper_def load_attachment_def)

text \<open>
  What an iteration leaves: the same content, a hash of the required weight, and the references. \<open>ref\<close> is the trunk of a transaction that is not
  the last one.
\<close>

definition attached_ok ::
  "flex_enc \<Rightarrow> nat \<Rightarrow> flex_trit list \<Rightarrow> flex_trit list \<Rightarrow> flex_trit list \<Rightarrow> iota_transaction \<Rightarrow> iota_transaction \<Rightarrow> bool"
where
  "attached_ok e mwm trunk branch ref tx tx' \<longleftrightarrow>
     essence tx' = essence tx \<and> data tx' = data tx \<and> transaction_ok e tx' \<and> mwm \<le> trailing_zeros (transaction_digest (transaction_trits e tx'))
     \<and> (if tx_current_index (essence tx) = tx_last_index (essence tx) then tx_trunk (attachment tx') = trunk \<and> tx_branch (attachment tx') = branch
        else tx_trunk (attachment tx') = ref \<and> tx_branch (attachment tx') = trunk)"

definition indexed_bundle :: "bundle_transactions \<Rightarrow> bool" where
  "indexed_bundle bundle \<longleftrightarrow>
     (\<forall>k < length bundle. tx_current_index (essence (bundle ! k)) = int k \<and> tx_last_index (essence (bundle ! k)) = int (length bundle - 1))"

lemma find_index_indexed:
  assumes "indexed_bundle bundle" "c < length bundle"
  shows "find_index (int c) bundle = Some c"
proof -
  have "find (\<lambda>k. tx_current_index (essence (bundle ! k)) = int c) [0..<length bundle] = find (\<lambda>k. k = c) [0..<length bundle]"
    using assms(1) by (intro find_cong) (auto simp: indexed_bundle_def)
  also have "\<dots> = Some c" unfolding find_Some_iff using assms(2) by (intro exI [of _ c]) simp
  finally show ?thesis by (simp add: find_index_def)
qed

lemma prepared_ok:
  assumes "transaction_ok e tx" "flex_ok e trunk 243" "flex_ok e branch 243" "set_references e tx trunk branch ctrunk = Some t1"
    and "tx_current_index (essence tx) \<noteq> tx_last_index (essence tx) \<Longrightarrow> flex_ok e (take (FLEX_TRIT_SIZE_243 e) (the ctrunk)) 243"
    and "copy_tag e (set_attachment_times t1 now) = Some t2"
  shows "transaction_ok e t2"
proof -
  have "take (FLEX_TRIT_SIZE_243 e) trunk = trunk" "take (FLEX_TRIT_SIZE_243 e) branch = branch"
    using assms(2,3) by (simp_all add: flex_ok_def FLEX_TRIT_SIZE_eq)
  with assms(1-3,5) set_references_correct [OF assms(4)] copy_tag_correct [OF assms(6)] set_attachment_times_correct [of t1 now] show ?thesis
    by (auto simp: transaction_ok_def all_arrays_def int64_value_def flex_ok_blit split: if_splits)
qed

lemma pow_iteration_correct:
  assumes "conf_ok cf" "64 dvd LENGTH('w::len)" "hashcash_results cpus cf (pcurl :: 'w pcurl) search" "mwm \<le> 243"
    and "flex_ok e trunk 243" "flex_ok e branch 243" "indexed_bundle bundle" "c < length bundle" "transaction_ok e (bundle ! c)"
    and "c \<noteq> length bundle - 1 \<Longrightarrow> ctrunk = Some h \<and> flex_ok e (take (FLEX_TRIT_SIZE_243 e) h) 243"
    and "pow_iteration e search oom now trunk branch mwm c ctrunk bundle = Some (Inr (ctrunk', bundle'))"
  obtains tx where "bundle' = bundle[c := tx]" "attached_ok e mwm trunk branch (take (FLEX_TRIT_SIZE_243 e) h) (bundle ! c) tx"
    "c \<noteq> 0 \<Longrightarrow> \<exists>h'. ctrunk' = Some h' \<and> take (FLEX_TRIT_SIZE_243 e) h' = flex_pack e (transaction_digest (transaction_trits e tx))"
proof -
  let ?t0 = "bundle ! c"
  obtain t1 t2 nonce where t1: "set_references e ?t0 trunk branch ctrunk = Some t1" and t2: "copy_tag e (set_attachment_times t1 now) = Some t2"
      and n: "iota_pow_flex e search oom (snd (transaction_serialize_on_flex_trits e t2)) 8019 mwm = Some (Some nonce)"
    using assms(11) find_index_indexed [OF assms(7,8)]
    by (auto simp: pow_iteration_def Let_def NUM_TRITS_SERIALIZED_TRANSACTION_def split: option.splits if_splits)
  define t3 where "t3 = transaction_set_nonce e t2 nonce"
  have b: "bundle' = bundle[c := t3]" and d: "c \<noteq> 0 \<Longrightarrow> iota_flex_digest e (\<lambda>i. oom (i + 3)) (snd (transaction_serialize_on_flex_trits e t3)) 8019 = ctrunk' \<and> (\<exists>h. ctrunk' = Some h)"
    using assms(11) find_index_indexed [OF assms(7,8)] t1 t2 n
    by (auto simp: pow_iteration_def Let_def NUM_TRITS_SERIALIZED_TRANSACTION_def t3_def split: option.splits if_splits) metis
  have size: "length xs = FLEX_TRIT_SIZE_243 e" if "flex_ok e xs 243" for xs using that by (simp add: flex_ok_def FLEX_TRIT_SIZE_eq)
  have last: "tx_current_index (essence ?t0) = tx_last_index (essence ?t0) \<longleftrightarrow> c = length bundle - 1" using assms(7,8) by (auto simp: indexed_bundle_def)
  note r1 = set_references_correct [OF t1] and r2 = copy_tag_correct [OF t2] and times = set_attachment_times_correct [of t1 now]
  have ok2: "transaction_ok e t2" using prepared_ok [OF assms(9,5,6) t1 _ t2] assms(10) last by auto
  then obtain cs where cs: "snd (transaction_serialize_on_flex_trits e t2) = cs" "flex_ok e cs 8019" "flex_field e cs 8019 = transaction_trits e t2"
    using transaction_serialize_correct [OF ok2] by (auto simp: transaction_serialize_on_flex_trits_def)
  obtain x where x: "take (FLEX_TRIT_SIZE_81 e) nonce = flex_pack e x" "valid_trits x" "length x = 81"
      "mwm \<le> trailing_zeros (transaction_digest (take (8019 - 81) (transaction_trits e t2) @ x))"
    using iota_pow_flex_sound [OF assms(1-4) cs(2)] n cs by metis
  have p: "flex_ok e (flex_pack e x) 81" "flex_field e (flex_pack e x) 81 = x"
    using flex_pack_canonical [OF x(2,3)] by (simp_all add: flex_canonical_def)
  have r3: "essence t3 = essence t2" "data t3 = data t2" "consensus t3 = consensus t2" "attachment t3 = attachment t2\<lparr>tx_nonce := flex_pack e x\<rparr>"
    using x(1) by (simp_all add: t3_def transaction_set_nonce_def load_attachment_def)
  have ok3: "transaction_ok e t3" using ok2 p(1) r3 by (simp add: transaction_ok_def all_arrays_def int64_value_def)
  have w: "mwm \<le> trailing_zeros (transaction_digest (transaction_trits e t3))"
    using transaction_trits_nonce [OF ok2 p(1) r3(1,2,4)] p(2) x(4) by simp
  have "attached_ok e mwm trunk branch (take (FLEX_TRIT_SIZE_243 e) h) ?t0 t3"
    using ok3 w r1 r2 r3 times assms(5,6,10) last size by (auto simp: attached_ok_def split: if_splits)
  moreover have "\<exists>h'. ctrunk' = Some h' \<and> take (FLEX_TRIT_SIZE_243 e) h' = flex_pack e (transaction_digest (transaction_trits e t3))" if "c \<noteq> 0"
  proof -
    obtain cs' where cs': "snd (transaction_serialize_on_flex_trits e t3) = cs'" "flex_ok e cs' 8019" "flex_field e cs' 8019 = transaction_trits e t3"
      using transaction_serialize_correct [OF ok3] by (auto simp: transaction_serialize_on_flex_trits_def)
    with d [OF that] iota_flex_digest_correct [OF cs'(2)] show ?thesis by auto
  qed
  ultimately show ?thesis using b that by blast
qed

lemma pow_codes: "RC_OK \<noteq> RC_OOM" "RC_OK \<noteq> RC_HELPERS_POW_INVALID_TX" "RC_NULL_PARAM \<noteq> RC_OK"
  by code_simp+

lemma pow_iteration_error:
  assumes "pow_iteration e search oom now trunk branch mwm c ctrunk bundle = Some (Inl (rc, bundle'))"
  shows "rc = RC_OOM \<or> rc = RC_HELPERS_POW_INVALID_TX"
  using assms by (auto simp: pow_iteration_def Let_def split: option.splits if_splits)

text \<open>The trunk of the transaction \<open>k\<close>: the hash of the next one.\<close>

abbreviation next_hash :: "flex_enc \<Rightarrow> bundle_transactions \<Rightarrow> nat \<Rightarrow> flex_trit list" where
  "next_hash e bundle k \<equiv> flex_pack e (transaction_digest (transaction_trits e (bundle ! Suc k)))"

lemma indexed_update: "indexed_bundle bundle \<Longrightarrow> essence tx = essence (bundle ! c) \<Longrightarrow> indexed_bundle (bundle[c := tx])"
  unfolding indexed_bundle_def length_list_update by (metis nth_list_update_eq nth_list_update_neq)

lemma digest_flex_ok: "transaction_ok e tx \<Longrightarrow> flex_ok e (flex_pack e (transaction_digest (transaction_trits e tx))) 243"
proof -
  assume "transaction_ok e tx"
  then have "valid_trits (transaction_trits e tx)" using transaction_serialize_correct flex_field_valid by metis
  from curl_squeeze_ok [OF curl_absorb_ok(1) [OF curl_81_ok(1) this], of 243]
  have "valid_trits (transaction_digest (transaction_trits e tx))" "length (transaction_digest (transaction_trits e tx)) = 243"
    by (simp_all add: transaction_digest_def curl_digest_def curl_81_ok(3))
  from flex_pack_canonical(1) [OF this] show ?thesis by (simp add: flex_canonical_def)
qed

lemma pow_loop_correct:
  assumes "conf_ok cf" "64 dvd LENGTH('w::len)" "\<And>i. hashcash_results cpus cf (pcurl :: 'w pcurl) (search i)" "mwm \<le> 243"
    and "flex_ok e trunk 243" "flex_ok e branch 243"
  shows "indexed_bundle txs \<Longrightarrow> c < length txs \<Longrightarrow> list_all (transaction_ok e) txs \<Longrightarrow>
    (Suc c < length txs \<Longrightarrow> \<exists>h. ctrunk = Some h \<and> take (FLEX_TRIT_SIZE_243 e) h = next_hash e txs c) \<Longrightarrow>
    pow_loop e search oom now trunk branch mwm c ctrunk txs = Some (RC_OK, txs') \<Longrightarrow>
    length txs' = length txs
    \<and> (\<forall>k < length txs. if k \<le> c then attached_ok e mwm trunk branch (next_hash e txs' k) (txs ! k) (txs' ! k) else txs' ! k = txs ! k)"
proof (induction c arbitrary: ctrunk txs)
  case 0
  obtain ct b where it: "pow_iteration e (search 0) (oom 0) (now 0) trunk branch mwm 0 ctrunk txs = Some (Inr (ct, b))" and b: "b = txs'"
    using "0.prems"(5) pow_codes pow_iteration_error by (fastforce split: option.splits sum.splits)
  have ok: "transaction_ok e (txs ! 0)" using "0.prems"(2,3) by (simp add: list_all_length)
  obtain h where h: "0 \<noteq> length txs - 1 \<Longrightarrow> ctrunk = Some h \<and> take (FLEX_TRIT_SIZE_243 e) h = next_hash e txs 0"
    using "0.prems"(4) by (cases "Suc 0 < length txs") auto
  have h': "ctrunk = Some h \<and> flex_ok e (take (FLEX_TRIT_SIZE_243 e) h) 243" if "0 \<noteq> length txs - 1"
    using h [OF that] digest_flex_ok [of e "txs ! Suc 0"] "0.prems"(3) that by (auto simp: list_all_length)
  obtain tx where tx: "b = txs[0 := tx]" "attached_ok e mwm trunk branch (take (FLEX_TRIT_SIZE_243 e) h) (txs ! 0) tx"
    using pow_iteration_correct [OF assms(1-2) assms(3) assms(4-6) "0.prems"(1,2) ok h' it] by metis
  have "attached_ok e mwm trunk branch (next_hash e txs' 0) (txs ! 0) tx"
  proof (cases "length txs = 1")
    case True
    with tx(2) "0.prems"(1) show ?thesis by (auto simp: attached_ok_def indexed_bundle_def)
  next
    case False
    with "0.prems"(2) have "0 \<noteq> length txs - 1" by linarith
    with h [OF this] tx b show ?thesis by simp
  qed
  then show ?case using tx(1) b "0.prems"(2) by (auto simp: nth_list_update)
next
  case (Suc c)
  obtain ct b where it: "pow_iteration e (search (Suc c)) (oom (Suc c)) (now (Suc c)) trunk branch mwm (Suc c) ctrunk txs = Some (Inr (ct, b))"
      and rest: "pow_loop e search oom now trunk branch mwm c ct b = Some (RC_OK, txs')"
    using Suc.prems(5) pow_codes pow_iteration_error by (fastforce split: option.splits sum.splits)
  have ok: "transaction_ok e (txs ! Suc c)" using Suc.prems(2,3) by (simp add: list_all_length)
  obtain h where h: "Suc c \<noteq> length txs - 1 \<Longrightarrow> ctrunk = Some h \<and> take (FLEX_TRIT_SIZE_243 e) h = next_hash e txs (Suc c)"
    using Suc.prems(2,4) by (cases "Suc (Suc c) < length txs") auto
  have h': "ctrunk = Some h \<and> flex_ok e (take (FLEX_TRIT_SIZE_243 e) h) 243" if "Suc c \<noteq> length txs - 1"
    using h [OF that] digest_flex_ok [of e "txs ! Suc (Suc c)"] Suc.prems(2,3) that by (auto simp: list_all_length)
  obtain tx where tx: "b = txs[Suc c := tx]" "attached_ok e mwm trunk branch (take (FLEX_TRIT_SIZE_243 e) h) (txs ! Suc c) tx"
      "\<exists>h'. ct = Some h' \<and> take (FLEX_TRIT_SIZE_243 e) h' = flex_pack e (transaction_digest (transaction_trits e tx))"
    using pow_iteration_correct [OF assms(1-2) assms(3) assms(4-6) Suc.prems(1,2) ok h' it] by (metis nat.distinct(1))
  have b: "indexed_bundle b" "c < length b" "list_all (transaction_ok e) b" "length b = length txs"
    using tx(1,2) Suc.prems(1-3) by (auto simp: attached_ok_def list_all_length nth_list_update intro!: indexed_update)
  have "\<exists>h. ct = Some h \<and> take (FLEX_TRIT_SIZE_243 e) h = next_hash e b c" using tx(1,3) Suc.prems(2) by simp
  from Suc.IH [OF b(1-3) this rest] b(4)
  have ih: "length txs' = length txs" "\<And>k. k < length txs \<Longrightarrow>
      if k \<le> c then attached_ok e mwm trunk branch (next_hash e txs' k) (b ! k) (txs' ! k) else txs' ! k = b ! k" by auto
  have "attached_ok e mwm trunk branch (next_hash e txs' (Suc c)) (txs ! Suc c) (txs' ! Suc c)"
  proof (cases "Suc c = length txs - 1")
    case True
    with tx(1,2) ih(2) [OF Suc.prems(2)] Suc.prems(1,2) show ?thesis by (auto simp: attached_ok_def indexed_bundle_def)
  next
    case False
    with Suc.prems(2) have "Suc (Suc c) < length txs" by simp
    with tx(1,2) ih(2) [OF Suc.prems(2)] ih(2) [of "Suc (Suc c)"] h [OF False] show ?thesis by simp
  qed
  then have "if k \<le> Suc c then attached_ok e mwm trunk branch (next_hash e txs' k) (txs ! k) (txs' ! k) else txs' ! k = txs ! k"
    if "k < length txs" for k
    using ih(2) [OF that] tx(1) by (cases k "Suc c" rule: linorder_cases) auto
  with ih(1) show ?case by blast
qed

section \<open>Properties\<close>

text \<open>
  C28. Proof of work of a bundle: if the call returns RC_OK for a bundle whose transactions are numbered from zero, then every transaction keeps its essence
  and message, its trits hash to a hash with at least \<open>mwm\<close> trailing zeros, the last one refers to the given trunk and branch, and every other one refers to
  the hash of its successor as trunk and to the given trunk as branch. This holds whatever results of \<open>hashcash\<close> the searches had.
\<close>

theorem pow_bundle_attaches:
  assumes "conf_ok cf" "64 dvd LENGTH('w::len)" "\<And>i. hashcash_results cpus cf (pcurl :: 'w pcurl) (search i)" "mwm \<le> 243"
    and "flex_ok e trunk 243" "flex_ok e branch 243" "indexed_bundle txs" "list_all (transaction_ok e) txs" "length txs < 2 ^ 64" "k < length txs"
    and "iota_pow_bundle e search oom now (Some txs) (Some trunk) (Some branch) mwm = Some (RC_OK, Some txs')"
  shows "length txs' = length txs \<and> essence (txs' ! k) = essence (txs ! k) \<and> data (txs' ! k) = data (txs ! k)
    \<and> mwm \<le> trailing_zeros (transaction_digest (transaction_trits e (txs' ! k)))
    \<and> tx_trunk (attachment (txs' ! k)) = (if k = length txs - 1 then trunk else flex_pack e (transaction_digest (transaction_trits e (txs' ! (k + 1)))))
    \<and> tx_branch (attachment (txs' ! k)) = (if k = length txs - 1 then branch else trunk)"
proof -
  have ne: "txs \<noteq> []" "length txs - 1 < length txs" using assms(10) by auto
  then have "tx_last_index (essence (hd txs)) = int (length txs - 1)" using assms(7) unfolding indexed_bundle_def by (metis hd_conv_nth length_greater_0_conv)
  moreover have "uwrap64 (int (length txs - 1)) = int (length txs - 1)" using assms(9) by (intro mod_pos_pos_trivial) simp_all
  ultimately have "pow_loop e search oom now trunk branch mwm (length txs - 1) None txs = Some (RC_OK, txs')"
    using assms(11) ne(1) by (auto simp: iota_pow_bundle_def simp del: of_nat_diff)
  from pow_loop_correct [OF assms(1-3) assms(4-7) ne(2) assms(8) _ this] assms(10)
  have r: "length txs' = length txs" "attached_ok e mwm trunk branch (next_hash e txs' k) (txs ! k) (txs' ! k)" by auto
  moreover have "tx_current_index (essence (txs ! k)) = tx_last_index (essence (txs ! k)) \<longleftrightarrow> k = length txs - 1"
    using assms(7,10) by (auto simp: indexed_bundle_def)
  ultimately show ?thesis by (auto simp: attached_ok_def)
qed

text \<open>The searches of the witness: a weight of zero is always reached.\<close>

definition weightless_search :: nonce_search where
  "weightless_search ctx bgn end' mwm =
     (SOME r. hashcash 1 pcurl_default pcurl_null ctx bgn end' mwm r \<and> (mwm = 0 \<longrightarrow> fst r = PEARL_DIVER_SUCCESS))"

lemma weightless_search_results:
  assumes "curl_ok ctx" "curl_type ctx = 81"
  shows "hashcash 1 pcurl_default pcurl_null ctx 162 243 mwm (weightless_search ctx 162 243 mwm)
    \<and> (mwm = 0 \<longrightarrow> fst (weightless_search ctx 162 243 mwm) = PEARL_DIVER_SUCCESS)"
proof -
  have "search_range pcurl_default ctx 162 243" using assms by (simp add: search_range_def)
  then have "\<exists>r. hashcash 1 pcurl_default pcurl_null ctx 162 243 mwm r \<and> (mwm = 0 \<longrightarrow> fst r = PEARL_DIVER_SUCCESS)"
    using hashcash_returns [where ?'w = 64 and cpus = 1 and pcurl = pcurl_null and mwm = mwm, OF pcurl_default_ok] hashcash_run [of ctx]
    by (cases "mwm = 0") fastforce+
  then show ?thesis unfolding weightless_search_def by (rule someI_ex)
qed

lemma weightless_pow:
  assumes "valid_trits ts" "length ts = 8019"
  shows "\<exists>c nonce. do_pow weightless_search False curl_81 ts 0 = Some (c, Some nonce)"
proof -
  let ?A = "take 7776 ts" and ?B = "drop 7776 ts"
  let ?ctx = "(curl_absorb curl_81 ?A)\<lparr>state := blit (state (curl_absorb curl_81 ?A)) 0 ?B\<rparr>"
  have v: "valid_trits ?A" "valid_trits ?B" "length ?B = 243" using assms by (simp_all add: valid_trits_take valid_trits_drop)
  have "curl_ok ?ctx" "curl_type ?ctx = 81"
    using curl_absorb_ok [OF curl_81_ok(1) v(1)] v(2,3) curl_81_ok(2) by (simp_all add: curl_ok_def list_all_blit)
  from weightless_search_results [OF this, of 0] assms(2) show ?thesis by (auto simp: do_pow_def Let_def NONCE_LENGTH_def split_beta)
qed

definition sample_tx :: iota_transaction where
  "sample_tx = (transaction_reset ENC1)\<lparr>loaded_columns_mask := \<lparr>mask_essence = 255, mask_attachment = 255, mask_consensus = 255, mask_data = 255, mask_metadata = 255\<rparr>\<rparr>"

lemma sample_tx_ok: "transaction_ok ENC1 sample_tx" "indexed_bundle [sample_tx]"
proof -
  have "transaction_ok ENC1 (transaction_reset ENC1)" by (rule transaction_canonical_ok [OF transaction_reset_canonical])
  then show "transaction_ok ENC1 sample_tx" by (simp add: sample_tx_def transaction_ok_def all_arrays_def int64_value_def)
  show "indexed_bundle [sample_tx]" by (simp add: indexed_bundle_def sample_tx_def transaction_reset_def Let_def)
qed

lemma flex_ok_ENC1: "valid_trits ts \<Longrightarrow> length ts = n \<Longrightarrow> flex_ok ENC1 ts n"
  by (simp add: flex_ok_def NUM_FLEX_TRITS_FOR_TRITS_def list_all_iff flex_cell_ok_def)

lemma sample_pow:
  assumes "flex_ok ENC1 trunk 243" "flex_ok ENC1 branch 243"
  shows "\<exists>txs'. iota_pow_bundle ENC1 (\<lambda>_. weightless_search) (\<lambda>_ _. False) (\<lambda>_. 7) (Some [sample_tx]) (Some trunk) (Some branch) 0 = Some (RC_OK, Some txs')"
proof -
  have i: "transaction_current_index sample_tx = Some 0" "transaction_last_index sample_tx = Some 0"
    by (simp_all add: transaction_current_index_def transaction_last_index_def sample_tx_def transaction_reset_def Let_def column_loaded_def mask_defs)
  let ?t1 = "transaction_set_branch ENC1 (transaction_set_trunk ENC1 sample_tx trunk) branch"
  have t1: "set_references ENC1 sample_tx trunk branch None = Some ?t1" using i by (simp add: set_references_def)
  have "\<exists>t2. copy_tag ENC1 (set_attachment_times ?t1 7) = Some t2"
    by (simp add: copy_tag_def transaction_tag_def transaction_obsolete_tag_def set_attachment_times_def transaction_setter_defs load_attachment_def
        sample_tx_def column_loaded_def mask_defs)
  then obtain t2 where t2: "copy_tag ENC1 (set_attachment_times ?t1 7) = Some t2" ..
  have "transaction_ok ENC1 t2" using prepared_ok [OF sample_tx_ok(1) assms t1 _ t2] sample_tx_ok(2) by (simp add: indexed_bundle_def)
  then obtain cs where cs: "snd (transaction_serialize_on_flex_trits ENC1 t2) = cs" "flex_ok ENC1 cs 8019"
    using transaction_serialize_correct by (fastforce simp: transaction_serialize_on_flex_trits_def)
  have ts: "snd (flex_trits_to_trits ENC1 (replicate 8019 0) 8019 cs 8019 8019) = flex_field ENC1 cs 8019"
    by (rule flex_trits_to_trits_field [OF cs(2)]) simp_all
  obtain c nonce where "do_pow weightless_search False curl_81 (flex_field ENC1 cs 8019) 0 = Some (c, Some nonce)"
    using weightless_pow [OF flex_field_valid flex_field_length, OF cs(2) cs(2)] by blast
  then have "\<exists>n. iota_pow_flex ENC1 weightless_search (\<lambda>_. False) cs 8019 0 = Some (Some n)" by (simp add: iota_pow_flex_def Let_def ts)
  with t1 t2 cs(1) find_index_indexed [OF sample_tx_ok(2), of 0] show ?thesis
    by (auto simp: iota_pow_bundle_def pow_iteration_def NUM_TRITS_SERIALIZED_TRANSACTION_def Let_def)
      (auto simp: sample_tx_def transaction_reset_def Let_def pow_iteration_def NUM_TRITS_SERIALIZED_TRANSACTION_def)
qed

theorem pow_bundle_attaches_witness:
  "\<exists>txs'. iota_pow_bundle ENC1 (\<lambda>_. weightless_search) (\<lambda>_ _. False) (\<lambda>_. 7) (Some [sample_tx]) (Some (replicate 243 1)) (Some (replicate 243 0)) 0 = Some (RC_OK, Some txs')
     \<and> length txs' = 1 \<and> tx_trunk (attachment (txs' ! 0)) = replicate 243 1"
proof -
  have f: "flex_ok ENC1 (replicate 243 1) 243" "flex_ok ENC1 (replicate 243 0) 243" by (intro flex_ok_ENC1; simp add: list_all_iff)+
  from sample_pow [OF f] obtain txs' where
    r: "iota_pow_bundle ENC1 (\<lambda>_. weightless_search) (\<lambda>_ _. False) (\<lambda>_. 7) (Some [sample_tx]) (Some (replicate 243 1)) (Some (replicate 243 0)) 0 = Some (RC_OK, Some txs')" ..
  have "hashcash_results 1 pcurl_default pcurl_null weightless_search" using weightless_search_results by (auto simp: hashcash_results_def)
  from pow_bundle_attaches [OF pcurl_default_ok _ this _ f sample_tx_ok(2) _ _ _ r, of 0] sample_tx_ok(1) r show ?thesis by (intro exI [of _ txs']) simp
qed

end
