(* ===== verification/Tangle.thy ===== *)
theory Tangle
  imports Prelude Errors Flex_Trit Transaction Bundle Hash_Containers State_Delta
begin

unbundle bit_operations_syntax

text \<open>
  \<open>ciri/consensus/tangle/tangle.c\<close> and \<open>ciri/storage/pack.c\<close>, with the part of \<open>ciri/storage/sql/sqlite3/storage.c\<close> that turns rows into models. The database
  engine is not part of the repository: the record \<open>storage\<close> says which rows a statement yields and what an update leaves, with the code that binding the
  arguments or executing the statement gives. A pack of one transaction is an option: \<open>None\<close> is \<open>num_loaded = 0\<close>, with the transaction as it was.
\<close>

section \<open>Definitions\<close>

record iota_milestone =
  ms_index :: int
  ms_hash :: flex_hash

record ('db, 't) storage =
  select_by_hash :: "'db \<Rightarrow> flex_hash \<Rightarrow> retcode \<times> iota_transaction list"
  select_approvers :: "'db \<Rightarrow> flex_hash \<Rightarrow> int \<Rightarrow> retcode \<times> flex_hash list"
  update_snapshot_index :: "'db \<Rightarrow> flex_hash list \<Rightarrow> int \<Rightarrow> retcode \<times> 'db"
  update_validity :: "'db \<Rightarrow> flex_hash list \<Rightarrow> int \<Rightarrow> retcode \<times> 'db"
  select_milestone_by_index :: "'db \<Rightarrow> int \<Rightarrow> retcode \<times> iota_milestone list"
  load_delta :: "'db \<Rightarrow> int \<Rightarrow> retcode \<times> 't"
  store_delta :: "'db \<Rightarrow> int \<Rightarrow> 't \<Rightarrow> retcode \<times> 'db"
  update_solidity :: "'db \<Rightarrow> flex_hash list \<Rightarrow> bool \<Rightarrow> retcode \<times> 'db"
  count_approvers :: "'db \<Rightarrow> flex_hash \<Rightarrow> retcode \<times> nat"
  exists_hash :: "'db \<Rightarrow> flex_hash \<Rightarrow> retcode \<times> bool"

subsection \<open>Rows\<close>

text \<open>The columns of a row are the fields of a transaction; each function copies one group of them.\<close>

definition select_transactions_populate_essence :: "iota_transaction \<Rightarrow> iota_transaction \<Rightarrow> iota_transaction" where
  "select_transactions_populate_essence row tx =
     load_essence (MASK_ESSENCE_ADDRESS OR MASK_ESSENCE_VALUE OR MASK_ESSENCE_OBSOLETE_TAG OR MASK_ESSENCE_TIMESTAMP OR MASK_ESSENCE_CURRENT_INDEX
       OR MASK_ESSENCE_LAST_INDEX OR MASK_ESSENCE_BUNDLE) (tx\<lparr>essence := essence row\<rparr>)"

definition select_transactions_populate_attachment :: "iota_transaction \<Rightarrow> iota_transaction \<Rightarrow> iota_transaction" where
  "select_transactions_populate_attachment row tx =
     load_attachment (MASK_ATTACHMENT_TRUNK OR MASK_ATTACHMENT_BRANCH OR MASK_ATTACHMENT_TIMESTAMP OR MASK_ATTACHMENT_TIMESTAMP_LOWER
       OR MASK_ATTACHMENT_TIMESTAMP_UPPER OR MASK_ATTACHMENT_NONCE OR MASK_ATTACHMENT_TAG) (tx\<lparr>attachment := attachment row\<rparr>)"

definition select_transactions_populate_consensus :: "iota_transaction \<Rightarrow> iota_transaction \<Rightarrow> iota_transaction" where
  "select_transactions_populate_consensus row tx = load_consensus MASK_CONSENSUS_HASH (tx\<lparr>consensus := consensus row\<rparr>)"

definition select_transactions_populate_data :: "iota_transaction \<Rightarrow> iota_transaction \<Rightarrow> iota_transaction" where
  "select_transactions_populate_data row tx = load_data MASK_DATA_SIG_OR_MSG (tx\<lparr>data := data row\<rparr>)"

definition select_transactions_populate_metadata :: "iota_transaction \<Rightarrow> iota_transaction \<Rightarrow> iota_transaction" where
  "select_transactions_populate_metadata row tx =
     load_metadata (MASK_METADATA_SNAPSHOT_INDEX OR MASK_METADATA_SOLID OR MASK_METADATA_VALIDITY OR MASK_METADATA_ARRIVAL_TIMESTAMP) (tx\<lparr>metadata := metadata row\<rparr>)"

datatype storage_load_model =
  MODEL_TRANSACTION | MODEL_TRANSACTION_ESSENCE_METADATA | MODEL_TRANSACTION_ESSENCE_ATTACHMENT_METADATA
| MODEL_TRANSACTION_ESSENCE_CONSENSUS | MODEL_TRANSACTION_METADATA

definition load_model :: "flex_enc \<Rightarrow> storage_load_model \<Rightarrow> iota_transaction \<Rightarrow> iota_transaction" where
  "load_model e model row =
     (let tx = transaction_reset e
      in case model of
           MODEL_TRANSACTION \<Rightarrow>
             select_transactions_populate_data row (select_transactions_populate_consensus row
               (select_transactions_populate_attachment row (select_transactions_populate_essence row tx)))
         | MODEL_TRANSACTION_ESSENCE_METADATA \<Rightarrow> select_transactions_populate_metadata row (select_transactions_populate_essence row tx)
         | MODEL_TRANSACTION_ESSENCE_ATTACHMENT_METADATA \<Rightarrow>
             select_transactions_populate_metadata row (select_transactions_populate_attachment row (select_transactions_populate_essence row tx))
         | MODEL_TRANSACTION_ESSENCE_CONSENSUS \<Rightarrow> select_transactions_populate_consensus row (select_transactions_populate_essence row tx)
         | MODEL_TRANSACTION_METADATA \<Rightarrow> select_transactions_populate_metadata row tx)"

text \<open>The loop over the rows with a pack of capacity one, and with a pack of hashes: \<open>capacity\<close> is also the greatest number of records.\<close>

definition load_single :: "flex_enc \<Rightarrow> storage_load_model \<Rightarrow> iota_transaction list \<Rightarrow> iota_transaction option" where
  "load_single e model rows = (case rows of [] \<Rightarrow> None | row # _ \<Rightarrow> Some (load_model e model row))"

definition execute_statement_load_hashes :: "flex_hash list \<Rightarrow> nat \<Rightarrow> flex_hash list \<times> bool" where
  "execute_statement_load_hashes rows capacity = (take capacity rows, capacity < length rows)"

subsection \<open>The tangle\<close>

datatype partial_transaction_model =
  PARTIAL_TX_MODEL_METADATA | PARTIAL_TX_MODEL_ESSENCE_METADATA | PARTIAL_TX_MODEL_ESSENCE_ATTACHMENT_METADATA | PARTIAL_TX_MODEL_ESSENCE_CONSENSUS

definition storage_load :: "flex_enc \<Rightarrow> ('db, 't) storage \<Rightarrow> 'db \<Rightarrow> flex_hash \<Rightarrow> storage_load_model \<Rightarrow> retcode \<times> iota_transaction option" where
  "storage_load e S db hash model =
     (case select_by_hash S db hash of (ret, rows) \<Rightarrow> if ret \<noteq> RC_OK then (ret, None) else (RC_OK, load_single e model rows))"

definition iota_tangle_transaction_load :: "flex_enc \<Rightarrow> ('db, 't) storage \<Rightarrow> 'db \<Rightarrow> flex_hash \<Rightarrow> retcode \<times> iota_transaction option" where
  "iota_tangle_transaction_load e S db key = storage_load e S db key MODEL_TRANSACTION"

definition iota_tangle_transaction_load_partial ::
  "flex_enc \<Rightarrow> ('db, 't) storage \<Rightarrow> 'db \<Rightarrow> flex_hash \<Rightarrow> partial_transaction_model \<Rightarrow> retcode \<times> iota_transaction option"
where
  "iota_tangle_transaction_load_partial e S db hash models_mask =
     storage_load e S db hash
       (case models_mask of
          PARTIAL_TX_MODEL_METADATA \<Rightarrow> MODEL_TRANSACTION_METADATA
        | PARTIAL_TX_MODEL_ESSENCE_METADATA \<Rightarrow> MODEL_TRANSACTION_ESSENCE_METADATA
        | PARTIAL_TX_MODEL_ESSENCE_ATTACHMENT_METADATA \<Rightarrow> MODEL_TRANSACTION_ESSENCE_ATTACHMENT_METADATA
        | PARTIAL_TX_MODEL_ESSENCE_CONSENSUS \<Rightarrow> MODEL_TRANSACTION_ESSENCE_CONSENSUS)"

text \<open>
  Doubling the pack until all rows fit. \<open>room n\<close> says that memory for \<open>n\<close> hashes is available. A pack of capacity zero stays as it is when it is
  doubled, and the loop does not end: the result is \<open>None\<close>.
\<close>

definition hash_pack_resize :: "(nat \<Rightarrow> bool) \<Rightarrow> nat \<Rightarrow> nat \<Rightarrow> retcode \<times> nat" where
  "hash_pack_resize room capacity resize_factor =
     (if resize_factor < 1 then (RC_OK, capacity)
      else let capacity = capacity * resize_factor in if room capacity then (RC_OK, capacity) else (RC_OOM, capacity))"

partial_function (option) load_all_hashes :: "(nat \<Rightarrow> bool) \<Rightarrow> flex_hash list \<Rightarrow> nat \<Rightarrow> (retcode \<times> flex_hash list \<times> nat) option" where
  "load_all_hashes room rows capacity =
     (case execute_statement_load_hashes rows capacity of
        (models, insufficient) \<Rightarrow>
          if insufficient
          then case hash_pack_resize room capacity 2 of
                 (ret, capacity) \<Rightarrow> if ret = RC_OK then load_all_hashes room rows capacity else Some (ret, models, capacity)
          else Some (RC_OK, models, capacity))"

definition iota_tangle_transaction_load_hashes_of_approvers ::
  "('db, 't) storage \<Rightarrow> (nat \<Rightarrow> bool) \<Rightarrow> 'db \<Rightarrow> flex_hash \<Rightarrow> nat \<Rightarrow> int \<Rightarrow> (retcode \<times> flex_hash list \<times> nat) option"
where
  "iota_tangle_transaction_load_hashes_of_approvers S room db approvee_hash capacity before_timestamp =
     (case select_approvers S db approvee_hash before_timestamp of
        (ret, rows) \<Rightarrow> if ret \<noteq> RC_OK then Some (ret, [], capacity) else load_all_hashes room rows capacity)"

text \<open>
  \<open>iota_tangle_bundle_load\<close>. \<open>bundle_hash\<close> is a pointer into \<open>curr_tx\<close>, which every load overwrites: it is read, through the pointer, at the time of the
  comparison. \<open>None\<close> is a failed assertion of an accessor, or a loop that does not end.
\<close>

definition bundle_hash_pointer :: "iota_transaction \<Rightarrow> flex_trit list" where
  "bundle_hash_pointer curr_tx = tx_bundle (essence curr_tx)"

partial_function (option) bundle_load_loop ::
  "flex_enc \<Rightarrow> ('db, 't) storage \<Rightarrow> 'db \<Rightarrow> int \<Rightarrow> int \<Rightarrow> iota_transaction option \<Rightarrow> bundle_transactions \<Rightarrow> (retcode \<times> bundle_transactions) option"
where
  "bundle_load_loop e S db last_index curr_index loaded txs =
     (case loaded of
        None \<Rightarrow> Some (RC_OK, txs)
      | Some curr_tx \<Rightarrow>
          if \<not> curr_index \<le> last_index then Some (RC_OK, txs)
          else if transaction_bundle curr_tx = None then None
          else if transaction_bundle curr_tx \<noteq> Some (bundle_hash_pointer curr_tx) then Some (RC_OK, txs)
          else case transaction_trunk curr_tx of
                 None \<Rightarrow> None
               | Some curr_trunk \<Rightarrow>
                   (case iota_tangle_transaction_load e S db curr_trunk of
                      (ret, loaded) \<Rightarrow>
                        if ret \<noteq> RC_OK then Some (ret, bundle_transactions_add txs curr_tx)
                        else bundle_load_loop e S db last_index (uwrap64 (curr_index + 1)) loaded (bundle_transactions_add txs curr_tx)))"

definition iota_tangle_bundle_load ::
  "flex_enc \<Rightarrow> ('db, 't) storage \<Rightarrow> 'db \<Rightarrow> flex_hash \<Rightarrow> bundle_transactions \<Rightarrow> (retcode \<times> bundle_transactions) option"
where
  "iota_tangle_bundle_load e S db tail_hash txs =
     (case iota_tangle_transaction_load e S db tail_hash of
        (ret, loaded) \<Rightarrow>
          if ret \<noteq> RC_OK then Some (ret, txs)
          else case loaded of
                 None \<Rightarrow> Some (RC_TANGLE_TAIL_NOT_FOUND, txs)
               | Some curr_tx \<Rightarrow>
                   (case (transaction_current_index curr_tx, transaction_last_index curr_tx) of
                      (Some curr_index, Some last_index) \<Rightarrow>
                        if curr_index \<noteq> 0 then Some (RC_TANGLE_NOT_A_TAIL, txs)
                        else bundle_load_loop e S db last_index curr_index loaded txs
                    | _ \<Rightarrow> None))"

text \<open>
  \<open>iota_tangle_find_tail\<close>. \<open>curr_tx\<close> points to the first transaction (\<open>aliased\<close> false) or to \<open>next_tx\<close>, into which every approver is loaded. The inner loop
  runs over the approvers, the outer one over the indexes below that of the transaction, which is converted to 32 bits.
\<close>

record tail_search =
  curr_tx_s :: iota_transaction
  next_tx_s :: iota_transaction
  aliased :: bool

definition curr_of :: "tail_search \<Rightarrow> iota_transaction" where
  "curr_of s = (if aliased s then next_tx_s s else curr_tx_s s)"

primrec approver_loop ::
  "flex_enc \<Rightarrow> ('db, 't) storage \<Rightarrow> 'db \<Rightarrow> nat \<Rightarrow> flex_hash list \<Rightarrow> tail_search \<Rightarrow> (retcode \<times> bool \<times> tail_search) option"
where
  "approver_loop e S db index [] s = Some (RC_OK, False, s)"
| "approver_loop e S db index (approver_hash # hashes) s =
     (case iota_tangle_transaction_load_partial e S db approver_hash PARTIAL_TX_MODEL_ESSENCE_CONSENSUS of
        (ret, loaded) \<Rightarrow>
          if ret \<noteq> RC_OK then Some (ret, False, s)
          else case loaded of
                 None \<Rightarrow> Some (RC_OK, False, s)
               | Some tx \<Rightarrow>
                   let s = s\<lparr>next_tx_s := tx\<rparr>
                   in (case (transaction_current_index (next_tx_s s), transaction_bundle (next_tx_s s), transaction_bundle (curr_of s)) of
                         (Some i, Some next_bundle, Some curr_bundle) \<Rightarrow>
                           if i = int index \<and> next_bundle = curr_bundle then Some (RC_OK, True, s\<lparr>aliased := True\<rparr>)
                           else approver_loop e S db index hashes s
                       | _ \<Rightarrow> None))"

primrec find_tail_loop ::
  "flex_enc \<Rightarrow> ('db, 't) storage \<Rightarrow> (nat \<Rightarrow> bool) \<Rightarrow> 'db \<Rightarrow> nat \<Rightarrow> nat \<Rightarrow> tail_search \<Rightarrow> (retcode \<times> tail_search) option"
where
  "find_tail_loop e S room db capacity 0 s = Some (RC_OK, s)"
| "find_tail_loop e S room db capacity (Suc index) s =
     (case transaction_hash (curr_of s) of
        None \<Rightarrow> None
      | Some hash \<Rightarrow>
          (case iota_tangle_transaction_load_hashes_of_approvers S room db hash capacity 0 of
             None \<Rightarrow> None
           | Some (ret, hashes, capacity) \<Rightarrow>
               if ret \<noteq> RC_OK then Some (ret, s)
               else case approver_loop e S db index hashes s of
                      None \<Rightarrow> None
                    | Some (ret, found_approver, s) \<Rightarrow>
                        if found_approver then find_tail_loop e S room db capacity index s else Some (ret, s)))"

definition iota_tangle_find_tail ::
  "flex_enc \<Rightarrow> ('db, 't) storage \<Rightarrow> (nat \<Rightarrow> bool) \<Rightarrow> 'db \<Rightarrow> flex_hash \<Rightarrow> (retcode \<times> flex_hash option) option"
where
  "iota_tangle_find_tail e S room db start_hash =
     (case iota_tangle_transaction_load_partial e S db start_hash PARTIAL_TX_MODEL_ESSENCE_CONSENSUS of
        (ret, loaded) \<Rightarrow>
          if ret \<noteq> RC_OK then Some (ret, None)
          else case loaded of
                 None \<Rightarrow> Some (RC_OK, None)
               | Some tx \<Rightarrow>
                   if \<not> room 8 then Some (RC_OOM, None)
                   else case transaction_current_index tx of
                          None \<Rightarrow> None
                        | Some i \<Rightarrow>
                            (case find_tail_loop e S room db 8 (nat (i mod 2 ^ 32)) \<lparr>curr_tx_s = tx, next_tx_s = transaction_reset e, aliased = False\<rparr> of
                               None \<Rightarrow> None
                             | Some (ret, s) \<Rightarrow>
                                 (case (transaction_current_index (curr_of s), transaction_hash (curr_of s)) of
                                    (Some i, Some hash) \<Rightarrow> Some (ret, if i = 0 then Some hash else None)
                                  | _ \<Rightarrow> None)))"

section \<open>Packs\<close>

text \<open>All rows are delivered, however many there are.\<close>

lemma load_all_hashes_correct:
  assumes "\<And>n. room n"
  shows "0 < capacity \<Longrightarrow> \<exists>capacity'. load_all_hashes room rows capacity = Some (RC_OK, rows, capacity') \<and> 0 < capacity'"
proof (induction "length rows - capacity" arbitrary: capacity rule: less_induct)
  case less
  show ?case
  proof (cases "capacity < length rows")
    case True
    then have "length rows - capacity * 2 < length rows - capacity" "0 < capacity * 2" using less.prems by auto
    from less.hyps [OF this] True show ?thesis
      by (subst load_all_hashes.simps) (simp add: execute_statement_load_hashes_def hash_pack_resize_def assms Let_def)
  next
    case False
    with less.prems show ?thesis by (subst load_all_hashes.simps) (simp add: execute_statement_load_hashes_def)
  qed
qed

section \<open>Loading a bundle\<close>

lemma load_model_fields:
  "essence (load_model e MODEL_TRANSACTION row) = essence row" "attachment (load_model e MODEL_TRANSACTION row) = attachment row"
  "consensus (load_model e MODEL_TRANSACTION row) = consensus row" "data (load_model e MODEL_TRANSACTION row) = data row"
  by (simp_all add: load_model_def Let_def select_transactions_populate_data_def select_transactions_populate_consensus_def
      select_transactions_populate_attachment_def select_transactions_populate_essence_def load_defs)

lemma load_model_accessors:
  "transaction_bundle (load_model e MODEL_TRANSACTION row) = Some (tx_bundle (essence row))"
  "transaction_trunk (load_model e MODEL_TRANSACTION row) = Some (tx_trunk (attachment row))"
  "transaction_current_index (load_model e MODEL_TRANSACTION row) = Some (tx_current_index (essence row))"
  "transaction_last_index (load_model e MODEL_TRANSACTION row) = Some (tx_last_index (essence row))"
  by (simp_all add: load_model_def Let_def select_transactions_populate_data_def select_transactions_populate_consensus_def
      select_transactions_populate_attachment_def select_transactions_populate_essence_def load_defs transaction_getter_defs column_loaded_def
      transaction_reset_def mask_defs)

text \<open>The transactions that are reached from a hash by following the trunks, at most \<open>n\<close>, up to the first that is missing.\<close>

primrec trunk_chain :: "flex_enc \<Rightarrow> ('db, 't) storage \<Rightarrow> 'db \<Rightarrow> nat \<Rightarrow> flex_hash \<Rightarrow> bundle_transactions" where
  "trunk_chain e S db 0 hash = []"
| "trunk_chain e S db (Suc n) hash =
     (case snd (iota_tangle_transaction_load e S db hash) of None \<Rightarrow> [] | Some tx \<Rightarrow> tx # trunk_chain e S db n (tx_trunk (attachment tx)))"

lemma loaded_is_model: "iota_tangle_transaction_load e S db hash = (ret, Some tx) \<Longrightarrow> \<exists>row. tx = load_model e MODEL_TRANSACTION row"
  by (auto simp: iota_tangle_transaction_load_def storage_load_def load_single_def split: prod.splits if_splits list.splits)

lemma bundle_load_loop_correct:
  assumes "\<And>hash. fst (select_by_hash S db hash) = RC_OK" "last_index < 2 ^ 64 - 1"
  shows "0 \<le> curr_index \<Longrightarrow> n = nat (last_index + 1 - curr_index) \<Longrightarrow> iota_tangle_transaction_load e S db hash = (RC_OK, loaded) \<Longrightarrow>
    bundle_load_loop e S db last_index curr_index loaded txs = Some (RC_OK, txs @ trunk_chain e S db n hash)"
proof (induction n arbitrary: curr_index hash loaded txs)
  case 0
  then show ?case by (subst bundle_load_loop.simps) (auto split: option.split)
next
  case (Suc n)
  show ?case
  proof (cases loaded)
    case None
    with Suc.prems(3) show ?thesis by (subst bundle_load_loop.simps) simp
  next
    case (Some tx)
    with Suc.prems(3) loaded_is_model obtain row where tx: "tx = load_model e MODEL_TRANSACTION row" by metis
    have i: "curr_index \<le> last_index" "uwrap64 (curr_index + 1) = curr_index + 1" using Suc.prems(1,2) assms(2) by auto
    obtain loaded' where l: "iota_tangle_transaction_load e S db (tx_trunk (attachment tx)) = (RC_OK, loaded')"
      using assms(1) by (auto simp: iota_tangle_transaction_load_def storage_load_def split_beta)
    have "bundle_load_loop e S db last_index (curr_index + 1) loaded' (txs @ [tx]) = Some (RC_OK, (txs @ [tx]) @ trunk_chain e S db n (tx_trunk (attachment tx)))"
      by (rule Suc.IH [OF _ _ l]) (use Suc.prems(1,2) in auto)
    with Some i l Suc.prems(3) show ?thesis
      by (subst bundle_load_loop.simps) (simp add: tx load_model_accessors load_model_fields bundle_hash_pointer_def bundle_transactions_add_def)
  qed
qed

section \<open>A database\<close>

text \<open>The laws hold for a list of rows with their hashes, without milestones; \<open>d\<close> is the delta that loading gives.\<close>

definition list_storage :: "'t \<Rightarrow> ((flex_hash \<times> iota_transaction) list, 't) storage" where
  "list_storage d =
     \<lparr>select_by_hash = \<lambda>db hash. (RC_OK, map snd (filter (\<lambda>r. fst r = hash) db)),
      select_approvers = \<lambda>db hash before. (RC_OK, map fst (filter (\<lambda>r. tx_trunk (attachment (snd r)) = hash \<or> tx_branch (attachment (snd r)) = hash) db)),
      update_snapshot_index = \<lambda>db hashes index.
        (RC_OK, map (\<lambda>r. if fst r \<in> set hashes then (fst r, metadata_update (tx_snapshot_index_update (\<lambda>_. index)) (snd r)) else r) db),
      update_validity = \<lambda>db hashes validity.
        (RC_OK, map (\<lambda>r. if fst r \<in> set hashes then (fst r, metadata_update (tx_validity_update (\<lambda>_. validity)) (snd r)) else r) db),
      select_milestone_by_index = \<lambda>db index. (RC_OK, []),
      load_delta = \<lambda>db index. (RC_OK, d),
      store_delta = \<lambda>db index delta. (RC_OK, db),
      update_solidity = \<lambda>db hashes solid.
        (RC_OK, map (\<lambda>r. if fst r \<in> set hashes then (fst r, metadata_update (tx_solid_update (\<lambda>_. solid)) (snd r)) else r) db),
      count_approvers = \<lambda>db hash. (RC_OK, length (filter (\<lambda>r. tx_trunk (attachment (snd r)) = hash \<or> tx_branch (attachment (snd r)) = hash) db)),
      exists_hash = \<lambda>db hash. (RC_OK, hash \<in> fst ` set db)\<rparr>"

text \<open>A row with a position in a bundle, a bundle hash, a trunk and its own hash.\<close>

definition sample_row :: "int \<Rightarrow> int \<Rightarrow> flex_hash \<Rightarrow> flex_hash \<Rightarrow> flex_hash \<Rightarrow> flex_hash \<times> iota_transaction" where
  "sample_row i l b trunk h =
     (h, (transaction_reset ENC1)\<lparr>
        essence := (essence (transaction_reset ENC1))\<lparr>tx_current_index := i, tx_last_index := l, tx_bundle := b\<rparr>,
        attachment := (attachment (transaction_reset ENC1))\<lparr>tx_trunk := trunk, tx_branch := trunk\<rparr>,
        consensus := \<lparr>tx_hash = h\<rparr>\<rparr>)"

lemma sample_row_fields [simp]:
  "fst (sample_row i l b trunk h) = h" "tx_current_index (essence (snd (sample_row i l b trunk h))) = i"
  "tx_last_index (essence (snd (sample_row i l b trunk h))) = l" "tx_bundle (essence (snd (sample_row i l b trunk h))) = b"
  "tx_trunk (attachment (snd (sample_row i l b trunk h))) = trunk" "tx_branch (attachment (snd (sample_row i l b trunk h))) = trunk"
  "tx_hash (consensus (snd (sample_row i l b trunk h))) = h"
  by (simp_all add: sample_row_def)

lemma load_model_essence_consensus:
  "transaction_bundle (load_model e MODEL_TRANSACTION_ESSENCE_CONSENSUS row) = Some (tx_bundle (essence row))"
  "transaction_current_index (load_model e MODEL_TRANSACTION_ESSENCE_CONSENSUS row) = Some (tx_current_index (essence row))"
  "transaction_hash (load_model e MODEL_TRANSACTION_ESSENCE_CONSENSUS row) = Some (tx_hash (consensus row))"
  by (simp_all add: load_model_def Let_def select_transactions_populate_consensus_def select_transactions_populate_essence_def load_defs
      transaction_getter_defs column_loaded_def transaction_reset_def mask_defs)

text \<open>
  After the first approver \<open>curr_tx\<close> and \<open>next_tx\<close> are the same transaction, so that bundle hashes are no longer compared: the search from \<open>[3]\<close>, a transaction
  of the bundle \<open>[7]\<close>, ends at \<open>[1]\<close>, the tail of the bundle \<open>[8]\<close>.
\<close>

lemma find_tail_of_another_bundle:
  "iota_tangle_find_tail ENC1 (list_storage d) (\<lambda>_. True) [sample_row 0 2 [8] [2] [1], sample_row 1 2 [7] [3] [2], sample_row 2 2 [7] [9] [3]] [3] = Some (RC_OK, Some [1])"
proof -
  let ?db = "[sample_row 0 2 [8] [2] [1], sample_row 1 2 [7] [3] [2], sample_row 2 2 [7] [9] [3]]"
  have l: "load_all_hashes (\<lambda>_. True) [h] 8 = Some (RC_OK, [h], 8)" for h
    by (subst load_all_hashes.simps) (simp add: execute_statement_load_hashes_def)
  have s: "find_tail_loop ENC1 (list_storage d) (\<lambda>_. True) ?db 8 (Suc (Suc 0)) \<lparr>curr_tx_s = load_model ENC1 MODEL_TRANSACTION_ESSENCE_CONSENSUS (snd (sample_row 2 2 [7] [9] [3])),
      next_tx_s = x, aliased = False\<rparr> = Some (RC_OK, \<lparr>curr_tx_s = load_model ENC1 MODEL_TRANSACTION_ESSENCE_CONSENSUS (snd (sample_row 2 2 [7] [9] [3])),
      next_tx_s = load_model ENC1 MODEL_TRANSACTION_ESSENCE_CONSENSUS (snd (sample_row 0 2 [8] [2] [1])), aliased = True\<rparr>)" for x
    by (simp add: curr_of_def load_model_essence_consensus iota_tangle_transaction_load_hashes_of_approvers_def list_storage_def l Let_def
        iota_tangle_transaction_load_partial_def storage_load_def load_single_def)
  from s [folded numeral_2_eq_2] show ?thesis
    by (simp add: iota_tangle_find_tail_def iota_tangle_transaction_load_partial_def storage_load_def load_single_def load_model_essence_consensus curr_of_def
        list_storage_def [of d, THEN arg_cong, of select_by_hash] del: find_tail_loop.simps)
qed

section \<open>Properties\<close>

lemma bundle_load_chain:
  assumes "\<And>hash. fst (select_by_hash S db hash) = RC_OK" "snd (select_by_hash S db tail_hash) = [row]"
    and "tx_current_index (essence row) = 0" "0 \<le> tx_last_index (essence row)" "tx_last_index (essence row) < 2 ^ 64 - 1"
  shows "iota_tangle_bundle_load e S db tail_hash [] = Some (RC_OK, trunk_chain e S db (nat (tx_last_index (essence row)) + 1) tail_hash)"
proof -
  let ?tx = "load_model e MODEL_TRANSACTION row"
  have l: "iota_tangle_transaction_load e S db tail_hash = (RC_OK, Some ?tx)"
    using assms(1) [of tail_hash] assms(2) by (simp add: iota_tangle_transaction_load_def storage_load_def load_single_def split_beta)
  have "bundle_load_loop e S db (tx_last_index (essence row)) 0 (Some ?tx) [] = Some (RC_OK, [] @ trunk_chain e S db (nat (tx_last_index (essence row)) + 1) tail_hash)"
    by (rule bundle_load_loop_correct [OF assms(1,5) _ _ l]) (use assms(4) in auto)
  with l assms(3) show ?thesis by (simp add: iota_tangle_bundle_load_def load_model_accessors)
qed

text \<open>
  C27. Loading the bundle of a tail ends and gives the tail and the transactions that are reached from it by following trunks, up to the last index or the
  first that is missing. Their bundle hashes are not compared: the code compares the hash of each transaction with itself.
\<close>

theorem bundle_load_follows_trunks:
  assumes "\<And>hash. fst (select_by_hash S db hash) = RC_OK" "snd (select_by_hash S db tail_hash) = [row]"
    and "tx_current_index (essence row) = 0" "0 \<le> tx_last_index (essence row)" "tx_last_index (essence row) < 2 ^ 64 - 1"
  shows "iota_tangle_bundle_load e S db tail_hash [] = Some (RC_OK, trunk_chain e S db (nat (tx_last_index (essence row)) + 1) tail_hash)"
  by (rule bundle_load_chain [OF assms])

theorem bundle_load_follows_trunks_witness:
  "\<exists>txs. iota_tangle_bundle_load ENC1 (list_storage ()) [sample_row 0 1 [7] [2] [1], sample_row 1 1 [8] [9] [2]] [1] [] = Some (RC_OK, txs)
     \<and> map (\<lambda>tx. tx_bundle (essence tx)) txs = [[7], [8]]"
proof -
  let ?db = "[sample_row 0 1 [7] [2] [1], sample_row 1 1 [8] [9] [2]]"
  have "iota_tangle_bundle_load ENC1 (list_storage ()) ?db [1] [] = Some (RC_OK, trunk_chain ENC1 (list_storage ()) ?db (nat (tx_last_index (essence (snd (sample_row 0 1 [7] [2] [1])))) + 1) [1])"
    by (rule bundle_load_follows_trunks) (simp_all add: list_storage_def)
  then show ?thesis
    by (simp add: iota_tangle_transaction_load_def storage_load_def load_single_def load_model_fields list_storage_def numeral_2_eq_2)
qed

end
