(* ===== verification/Graph_Search.thy ===== *)
theory Graph_Search
  imports Prelude
begin

text \<open>
  The search with a stack that the node runs over the tangle in several places, as a relation between the set of nodes already seen, the stack and the
  list of nodes that are visited, in their order. It visits exactly what can be reached without entering seen nodes, each node once, and over a finite
  graph there is always a run.
\<close>

inductive search_run :: "('a \<Rightarrow> 'a list) \<Rightarrow> 'a set \<Rightarrow> 'a list \<Rightarrow> 'a list \<Rightarrow> bool" for succ where
  run_done: "search_run succ seen [] []"
| run_skip: "h \<in> seen \<Longrightarrow> search_run succ seen stk order \<Longrightarrow> search_run succ seen (h # stk) order"
| run_visit: "h \<notin> seen \<Longrightarrow> search_run succ (insert h seen) (succ h @ stk) order \<Longrightarrow> search_run succ seen (h # stk) (h # order)"

inductive_cases run_nilE: "search_run succ seen [] order"
inductive_cases run_consE: "search_run succ seen (h # stk) order"

text \<open>What can be reached from \<open>X\<close> without passing through \<open>seen\<close>.\<close>

inductive_set reachable_avoiding :: "('a \<Rightarrow> 'a list) \<Rightarrow> 'a set \<Rightarrow> 'a set \<Rightarrow> 'a set" for succ seen X where
  reach_start: "x \<in> X \<Longrightarrow> x \<notin> seen \<Longrightarrow> x \<in> reachable_avoiding succ seen X"
| reach_step: "x \<in> reachable_avoiding succ seen X \<Longrightarrow> y \<in> set (succ x) \<Longrightarrow> y \<notin> seen \<Longrightarrow> y \<in> reachable_avoiding succ seen X"

lemma reachable_avoiding_disjoint: "x \<in> reachable_avoiding succ seen X \<Longrightarrow> x \<notin> seen"
  by (induction rule: reachable_avoiding.induct) auto

lemma reachable_avoiding_empty [simp]: "reachable_avoiding succ seen {} = {}"
proof -
  have "x \<notin> reachable_avoiding succ seen {}" for x
  proof
    assume "x \<in> reachable_avoiding succ seen {}"
    then show False by induction auto
  qed
  then show ?thesis by blast
qed

lemma reachable_avoiding_skip: "h \<in> seen \<Longrightarrow> reachable_avoiding succ seen (insert h X) = reachable_avoiding succ seen X"
proof (intro equalityI subsetI)
  fix x
  assume "h \<in> seen" "x \<in> reachable_avoiding succ seen (insert h X)"
  from this(2,1) show "x \<in> reachable_avoiding succ seen X" by induction (auto intro: reachable_avoiding.intros)
next
  fix x
  assume "x \<in> reachable_avoiding succ seen X"
  then show "x \<in> reachable_avoiding succ seen (insert h X)" by induction (auto intro: reachable_avoiding.intros)
qed

lemma reachable_avoiding_visit:
  assumes "h \<notin> seen"
  shows "reachable_avoiding succ seen (insert h X) = insert h (reachable_avoiding succ (insert h seen) (set (succ h) \<union> X))"
proof (intro equalityI subsetI)
  fix x
  assume "x \<in> reachable_avoiding succ seen (insert h X)"
  then show "x \<in> insert h (reachable_avoiding succ (insert h seen) (set (succ h) \<union> X))"
  proof induction
    case (reach_start x)
    then show ?case by (cases "x = h") (auto intro: reachable_avoiding.reach_start)
  next
    case (reach_step x y)
    then show ?case by (cases "y = h") (auto intro: reachable_avoiding.intros)
  qed
next
  fix x
  assume "x \<in> insert h (reachable_avoiding succ (insert h seen) (set (succ h) \<union> X))"
  then consider "x = h" | "x \<in> reachable_avoiding succ (insert h seen) (set (succ h) \<union> X)" by blast
  then show "x \<in> reachable_avoiding succ seen (insert h X)"
  proof cases
    case 1
    with assms show ?thesis by (auto intro: reachable_avoiding.reach_start)
  next
    case 2
    have h: "h \<in> reachable_avoiding succ seen (insert h X)" using assms by (auto intro: reachable_avoiding.reach_start)
    from 2 show ?thesis by induction (use h in \<open>auto intro: reachable_avoiding.intros\<close>)
  qed
qed

theorem search_run_correct:
  "search_run succ seen stk order \<Longrightarrow> distinct order \<and> set order = reachable_avoiding succ seen (set stk)"
proof (induction rule: search_run.induct)
  case (run_skip h seen stk order)
  then show ?case by (simp add: reachable_avoiding_skip)
next
  case (run_visit h seen stk order)
  moreover have "h \<notin> reachable_avoiding succ (insert h seen) X" for X by (auto dest: reachable_avoiding_disjoint)
  ultimately show ?case by (simp add: reachable_avoiding_visit)
qed simp

text \<open>A finite set that is closed under successors is enough for a run.\<close>

lemma search_run_exists:
  assumes "finite W" "\<And>h. h \<in> W \<Longrightarrow> h \<notin> seen \<Longrightarrow> set (succ h) \<subseteq> W"
  shows "set stk \<subseteq> W \<Longrightarrow> seen \<subseteq> seen' \<Longrightarrow> \<exists>order. search_run succ seen' stk order"
proof (induction "(card (W - seen'), length stk)" arbitrary: stk seen' rule: wf_induct_rule [OF wf_lex_prod [OF wf_less wf_less]])
  case 1
  show ?case
  proof (cases stk)
    case Nil
    then show ?thesis by (auto intro: run_done)
  next
    case (Cons h rest)
    show ?thesis
    proof (cases "h \<in> seen'")
      case True
      have "\<exists>order. search_run succ seen' rest order"
        by (rule 1(1)) (use 1(2,3) Cons in auto)
      with True Cons show ?thesis by (auto intro: run_skip)
    next
      case False
      have "h \<in> W" "h \<notin> seen" using 1(2,3) Cons False by auto
      moreover have "card (W - insert h seen') < card (W - seen')"
        using assms(1) \<open>h \<in> W\<close> False by (intro psubset_card_mono) auto
      ultimately have "\<exists>order. search_run succ (insert h seen') (succ h @ rest) order"
        by (intro 1(1)) (use 1(2,3) Cons assms(2) in auto)
      with False Cons show ?thesis by (auto intro: run_visit)
    qed
  qed
qed

lemma search_run_mono_seen:
  "reachable_avoiding succ seen X \<subseteq> reachable_avoiding succ {} X"
proof
  fix x
  assume "x \<in> reachable_avoiding succ seen X"
  then show "x \<in> reachable_avoiding succ {} X" by induction (auto intro: reachable_avoiding.intros)
qed

end
