(* ===== verification/Traversal.thy ===== *)
theory Traversal
  imports Prelude Errors Transaction Hash_Containers State_Delta Tangle Graph_Search
begin

text \<open>
  \<open>ciri/consensus/tangle/traversal.c\<close>: depth-first traversals of the tangle, to the past along trunk and branch and to the future along the approvers. The
  visitor \<open>func\<close> gets the hash, whether a transaction was loaded, the transaction, its own data and the two flags, which it may leave as they are. A transaction
  that is not in the database leaves the variable \<open>tx\<close> with what the previous load wrote. \<open>U\<close> is the table of the analysed hashes, \<open>room\<close> the
  memory for the stack. The database is part of the visitor's data, \<open>db_of\<close> finds it there, since a visitor may write to it. \<open>None\<close> is a failed assertion of an accessor, or a loop that does not end.
\<close>

section \<open>Definitions\<close>

type_synonym 'd visitor = "flex_hash \<Rightarrow> bool \<Rightarrow> iota_transaction \<Rightarrow> 'd \<Rightarrow> bool \<Rightarrow> bool \<Rightarrow> (retcode \<times> 'd \<times> bool \<times> bool) option"

definition overwrite :: "iota_transaction option \<Rightarrow> iota_transaction \<Rightarrow> iota_transaction" where
  "overwrite loaded tx = (case loaded of None \<Rightarrow> tx | Some tx \<Rightarrow> tx)"

text \<open>\<open>transaction_branch\<close> is pushed first.\<close>

definition push_parents :: "(flex_hash list \<Rightarrow> bool) \<Rightarrow> iota_transaction \<Rightarrow> flex_hash list \<Rightarrow> (retcode \<times> flex_hash list) option" where
  "push_parents room tx stk =
     (case (transaction_branch tx, transaction_trunk tx) of
        (Some branch, Some trunk) \<Rightarrow>
          (case hash_stack_push room stk branch of (ret, stk) \<Rightarrow> if ret \<noteq> RC_OK then Some (ret, stk) else Some (hash_stack_push room stk trunk))
      | _ \<Rightarrow> None)"

partial_function (option) dfs_to_past_loop ::
  "('t, flex_hash, unit) uthash \<Rightarrow> (flex_hash list \<Rightarrow> bool) \<Rightarrow> ('d \<Rightarrow> flex_hash \<Rightarrow> retcode \<times> iota_transaction option) \<Rightarrow> 'd visitor
     \<Rightarrow> flex_hash list \<Rightarrow> 't \<Rightarrow> 'd \<Rightarrow> iota_transaction \<Rightarrow> bool \<Rightarrow> bool \<Rightarrow> (retcode \<times> 't \<times> 'd) option"
where
  "dfs_to_past_loop U room load func stk analyzed d tx should_branch should_stop =
     (case stk of
        [] \<Rightarrow> Some (RC_OK, analyzed, d)
      | hash # stk \<Rightarrow>
          if hash_set_contains U analyzed hash then dfs_to_past_loop U room load func stk analyzed d tx should_branch should_stop
          else case load d hash of
            (ret, loaded) \<Rightarrow>
              if ret \<noteq> RC_OK then Some (ret, analyzed, d)
              else (case func hash (loaded \<noteq> None) (overwrite loaded tx) d should_branch should_stop of
                      None \<Rightarrow> None
                    | Some (ret, d, should_branch, should_stop) \<Rightarrow>
                        if ret \<noteq> RC_OK then Some (ret, analyzed, d)
                        else if should_stop then Some (RC_OK, analyzed, d)
                        else (case (if should_branch then push_parents room (overwrite loaded tx) stk else Some (RC_OK, stk)) of
                                None \<Rightarrow> None
                              | Some (ret, stk) \<Rightarrow>
                                  if ret \<noteq> RC_OK then Some (ret, analyzed, d)
                                  else (case hash_set_add U analyzed hash of
                                          (ret, analyzed) \<Rightarrow>
                                            if ret \<noteq> RC_OK then Some (ret, analyzed, d)
                                            else dfs_to_past_loop U room load func stk analyzed d (overwrite loaded tx) should_branch should_stop))))"

text \<open>\<open>tx\<close> is the uninitialised variable. The table of the caller is used in place, a local one is freed.\<close>

definition tangle_traversal_dfs_to_past ::
  "flex_enc \<Rightarrow> ('db, 'l) storage \<Rightarrow> ('t, flex_hash, unit) uthash \<Rightarrow> (flex_hash list \<Rightarrow> bool) \<Rightarrow> iota_transaction \<Rightarrow> ('d \<Rightarrow> 'db) \<Rightarrow> 'd visitor \<Rightarrow> flex_hash
     \<Rightarrow> flex_hash \<Rightarrow> 't option \<Rightarrow> 'd \<Rightarrow> (retcode \<times> 't option \<times> 'd) option"
where
  "tangle_traversal_dfs_to_past e S U room tx db_of func entry_point genesis_hash analyzed_hashes_param d =
     (let analyzed = (case analyzed_hashes_param of None \<Rightarrow> HASH_NULL U | Some t \<Rightarrow> t)
      in case hash_stack_push room [] entry_point of
           (ret, stk) \<Rightarrow>
             if ret \<noteq> RC_OK then Some (ret, analyzed_hashes_param, d)
             else (case hash_set_add U analyzed genesis_hash of
                     (ret, analyzed) \<Rightarrow>
                       if ret \<noteq> RC_OK then Some (ret, map_option (\<lambda>_. analyzed) analyzed_hashes_param, d)
                       else map_option (\<lambda>(ret, analyzed, d). (ret, map_option (\<lambda>_. analyzed) analyzed_hashes_param, d))
                         (dfs_to_past_loop U room (\<lambda>d h. iota_tangle_transaction_load_partial e S (db_of d) h PARTIAL_TX_MODEL_ESSENCE_ATTACHMENT_METADATA) func
                            stk analyzed d tx True False)))"

text \<open>The loaded approvers are pushed from the last to the first. \<open>approvers hash capacity\<close> loads them into the pack.\<close>

primrec push_all_hashes :: "(flex_hash list \<Rightarrow> bool) \<Rightarrow> flex_hash list \<Rightarrow> flex_hash list \<Rightarrow> retcode \<times> flex_hash list" where
  "push_all_hashes room [] stk = (RC_OK, stk)"
| "push_all_hashes room (h # hs) stk = (case hash_stack_push room stk h of (ret, stk) \<Rightarrow> if ret \<noteq> RC_OK then (ret, stk) else push_all_hashes room hs stk)"

text \<open>One iteration for a hash that is not analysed yet: \<open>Inl\<close> leaves the loop, \<open>Inr\<close> goes on with the new stack, pack, table, data, transaction and flags.\<close>

definition dfs_to_future_visit ::
  "('t, flex_hash, unit) uthash \<Rightarrow> (flex_hash list \<Rightarrow> bool) \<Rightarrow> ('d \<Rightarrow> flex_hash \<Rightarrow> retcode \<times> iota_transaction option)
     \<Rightarrow> ('d \<Rightarrow> flex_hash \<Rightarrow> nat \<Rightarrow> (retcode \<times> flex_hash list \<times> nat) option) \<Rightarrow> 'd visitor
     \<Rightarrow> flex_hash \<Rightarrow> flex_hash list \<Rightarrow> nat \<Rightarrow> 't \<Rightarrow> 'd \<Rightarrow> iota_transaction \<Rightarrow> bool \<Rightarrow> bool
     \<Rightarrow> (retcode \<times> 't \<times> 'd + flex_hash list \<times> nat \<times> 't \<times> 'd \<times> iota_transaction \<times> bool \<times> bool) option"
where
  "dfs_to_future_visit U room load approvers func hash stk capacity analyzed d tx should_branch should_stop =
     (case load d hash of
        (ret, loaded) \<Rightarrow>
          if ret \<noteq> RC_OK then Some (Inl (ret, analyzed, d))
          else (case func hash (loaded \<noteq> None) (overwrite loaded tx) d should_branch should_stop of
                  None \<Rightarrow> None
                | Some (ret, d, should_branch, should_stop) \<Rightarrow>
                    if ret \<noteq> RC_OK then Some (Inl (ret, analyzed, d))
                    else (case hash_set_add U analyzed hash of
                            (ret, analyzed) \<Rightarrow>
                              if ret \<noteq> RC_OK then Some (Inl (ret, analyzed, d))
                              else if should_stop then Some (Inl (RC_OK, analyzed, d))
                              else if should_branch
                              then (case approvers d hash capacity of
                                      None \<Rightarrow> None
                                    | Some (ret, hashes, capacity) \<Rightarrow>
                                        if ret \<noteq> RC_OK then Some (Inl (ret, analyzed, d))
                                        else (case push_all_hashes room (rev hashes) stk of
                                                (ret, stk) \<Rightarrow>
                                                  if ret \<noteq> RC_OK then Some (Inl (ret, analyzed, d))
                                                  else Some (Inr (stk, capacity, analyzed, d, overwrite loaded tx, should_branch, should_stop))))
                              else Some (Inr (stk, capacity, analyzed, d, overwrite loaded tx, should_branch, should_stop)))))"

text \<open>\<open>vars\<close> are the transaction and the two flags.\<close>

partial_function (option) dfs_to_future_loop ::
  "('t, flex_hash, unit) uthash \<Rightarrow> (flex_hash list \<Rightarrow> bool) \<Rightarrow> ('d \<Rightarrow> flex_hash \<Rightarrow> retcode \<times> iota_transaction option)
     \<Rightarrow> ('d \<Rightarrow> flex_hash \<Rightarrow> nat \<Rightarrow> (retcode \<times> flex_hash list \<times> nat) option) \<Rightarrow> 'd visitor
     \<Rightarrow> flex_hash list \<Rightarrow> nat \<Rightarrow> 't \<Rightarrow> 'd \<Rightarrow> iota_transaction \<times> bool \<times> bool \<Rightarrow> (retcode \<times> 't \<times> 'd) option"
where
  "dfs_to_future_loop U room load approvers func stk capacity analyzed d vars =
     (case stk of
        [] \<Rightarrow> Some (RC_OK, analyzed, d)
      | hash # stk \<Rightarrow>
          if hash_set_contains U analyzed hash then dfs_to_future_loop U room load approvers func stk capacity analyzed d vars
          else (case dfs_to_future_visit U room load approvers func hash stk capacity analyzed d (fst vars) (fst (snd vars)) (snd (snd vars)) of
                  None \<Rightarrow> None
                | Some (Inl r) \<Rightarrow> Some r
                | Some (Inr (stk, capacity, analyzed, d, vars)) \<Rightarrow> dfs_to_future_loop U room load approvers func stk capacity analyzed d vars))"

definition tangle_traversal_dfs_to_future ::
  "flex_enc \<Rightarrow> ('db, 'l) storage \<Rightarrow> ('t, flex_hash, unit) uthash \<Rightarrow> (flex_hash list \<Rightarrow> bool) \<Rightarrow> (nat \<Rightarrow> bool) \<Rightarrow> iota_transaction \<Rightarrow> ('d \<Rightarrow> 'db) \<Rightarrow> 'd visitor
     \<Rightarrow> flex_hash \<Rightarrow> 't option \<Rightarrow> 'd \<Rightarrow> (retcode \<times> 't option \<times> 'd) option"
where
  "tangle_traversal_dfs_to_future e S U room pack_room tx db_of func entry_point analyzed_hashes_param d =
     (let analyzed = (case analyzed_hashes_param of None \<Rightarrow> HASH_NULL U | Some t \<Rightarrow> t)
      in case hash_stack_push room [] entry_point of
           (ret, stk) \<Rightarrow>
             if ret \<noteq> RC_OK then Some (ret, analyzed_hashes_param, d)
             else if \<not> pack_room 8 then Some (RC_OOM, analyzed_hashes_param, d)
             else map_option (\<lambda>(ret, analyzed, d). (ret, map_option (\<lambda>_. analyzed) analyzed_hashes_param, d))
                    (dfs_to_future_loop U room (\<lambda>d h. iota_tangle_transaction_load_partial e S (db_of d) h PARTIAL_TX_MODEL_ESSENCE_ATTACHMENT_METADATA)
                       (\<lambda>d h capacity. iota_tangle_transaction_load_hashes_of_approvers S pack_room (db_of d) h capacity 0) func stk 8 analyzed d (tx, True, False)))"

section \<open>Visitors\<close>

text \<open>
  What the traversals need of the database and the visitor: as long as the data satisfy \<open>I vs d\<close>, where \<open>vs\<close> are the hashes visited so far, the next one has a row, and the visitor
  accepts it, changes its data to \<open>step h d\<close>, keeps \<open>I\<close> and asks for the neighbours exactly if \<open>P h\<close> holds. \<open>V\<close> are the hashes that may be visited.
\<close>

locale tangle_visit = uthash_laws U for U :: "('t, flex_hash, unit) uthash" +
  fixes load :: "'d \<Rightarrow> flex_hash \<Rightarrow> retcode \<times> iota_transaction option" and func :: "'d visitor"
    and V :: "flex_hash set" and T :: "'d \<Rightarrow> flex_hash \<Rightarrow> iota_transaction" and step :: "flex_hash \<Rightarrow> 'd \<Rightarrow> 'd" and P :: "flex_hash \<Rightarrow> bool" and I :: "flex_hash list \<Rightarrow> 'd \<Rightarrow> bool"
  assumes table_room: "HASH_ROOM U t"
    and load_row: "h \<in> V \<Longrightarrow> I vs d \<Longrightarrow> load d h = (RC_OK, Some (T d h))"
    and visit_row: "h \<in> V \<Longrightarrow> h \<notin> set vs \<Longrightarrow> I vs d \<Longrightarrow> func h True (T d h) d b False = Some (RC_OK, step h d, P h, False)"
    and step_keeps: "h \<in> V \<Longrightarrow> h \<notin> set vs \<Longrightarrow> I vs d \<Longrightarrow> I (vs @ [h]) (step h d)"
begin

lemma contains_iff: "hash_set_contains U t h \<longleftrightarrow> h \<in> set (HASH_KEYS U t)"
  using find_none_iff by (auto simp: hash_set_contains_def)

lemma add_new: "h \<notin> set (HASH_KEYS U t) \<Longrightarrow> \<exists>t'. hash_set_add U t h = (RC_OK, t') \<and> HASH_KEYS U t' = HASH_KEYS U t @ [h]"
  using find_none_iff [of t h] add_entries [of t h "()"] by (auto simp: hash_set_add_def hash_set_contains_def table_room HASH_KEYS_def)

lemma add_any: "\<exists>t'. hash_set_add U t h = (RC_OK, t') \<and> set (HASH_KEYS U t') = insert h (set (HASH_KEYS U t))"
proof (cases "h \<in> set (HASH_KEYS U t)")
  case True
  then show ?thesis by (auto simp: hash_set_add_def contains_iff)
next
  case False
  then show ?thesis using add_new [OF False] by auto
qed

lemma past_loop_visits:
  assumes "search_run (\<lambda>h. if P h then [trunk h, branch h] else []) seen stk order" "seen = set (HASH_KEYS U analyzed)" "set order \<subseteq> V" "set vs \<subseteq> seen" "I vs d"
    and "\<And>h vs d. h \<in> V \<Longrightarrow> I vs d \<Longrightarrow> transaction_trunk (T d h) = Some (trunk h) \<and> transaction_branch (T d h) = Some (branch h)"
  shows "\<exists>analyzed'. dfs_to_past_loop U (\<lambda>_. True) load func stk analyzed d tx b False = Some (RC_OK, analyzed', fold step order d)
    \<and> HASH_KEYS U analyzed' = HASH_KEYS U analyzed @ order \<and> I (vs @ order) (fold step order d)"
  using assms(1-5)
proof (induction arbitrary: analyzed vs d tx b rule: search_run.induct)
  case (run_done seen)
  then show ?case by (subst dfs_to_past_loop.simps) simp
next
  case (run_skip h seen stk order)
  from run_skip.IH [OF run_skip.prems] run_skip.hyps(1) run_skip.prems(1) show ?case by (subst dfs_to_past_loop.simps) (simp add: contains_iff)
next
  case (run_visit h seen stk order)
  let ?succ = "if P h then [trunk h, branch h] else []"
  have h: "h \<in> V" using run_visit.prems(2) by simp
  obtain t where t: "hash_set_add U analyzed h = (RC_OK, t)" "HASH_KEYS U t = HASH_KEYS U analyzed @ [h]"
    using add_new run_visit.hyps(1) run_visit.prems(1) by metis
  have n: "h \<notin> set vs" using run_visit.hyps(1) run_visit.prems(3) by blast
  have "insert h seen = set (HASH_KEYS U t)" "set order \<subseteq> V" "set (vs @ [h]) \<subseteq> insert h seen" "I (vs @ [h]) (step h d)"
    using t(2) run_visit.prems step_keeps h n by auto
  from run_visit.IH [OF this, of "T d h" "P h"] obtain a where
    a: "dfs_to_past_loop U (\<lambda>_. True) load func (?succ @ stk) t (step h d) (T d h) (P h) False = Some (RC_OK, a, fold step order (step h d))"
      "HASH_KEYS U a = HASH_KEYS U t @ order" "I (vs @ h # order) (fold step order (step h d))" by auto
  have p: "(if P h then push_parents (\<lambda>_. True) (T d h) stk else Some (RC_OK, stk)) = Some (RC_OK, ?succ @ stk)"
    using assms(6) [OF h run_visit.prems(4)] by (simp add: push_parents_def hash_stack_push_def)
  have "dfs_to_past_loop U (\<lambda>_. True) load func (h # stk) analyzed d tx b False = dfs_to_past_loop U (\<lambda>_. True) load func (?succ @ stk) t (step h d) (T d h) (P h) False"
    using run_visit.hyps(1) run_visit.prems(1) p
    by (subst dfs_to_past_loop.simps)
      (cases "P h"; simp add: contains_iff load_row [OF h run_visit.prems(4)] visit_row [OF h n run_visit.prems(4)] overwrite_def t(1))
  with a t(2) show ?case by simp
qed

lemma push_all_hashes_room: "push_all_hashes (\<lambda>_. True) hs stk = (RC_OK, rev hs @ stk)"
  by (induction hs arbitrary: stk) (simp_all add: hash_stack_push_def)

lemma future_loop_visits:
  assumes "search_run (\<lambda>h. if P h then A h else []) seen stk order" "seen = set (HASH_KEYS U analyzed)" "set order \<subseteq> V" "0 < capacity" "set vs \<subseteq> seen" "I vs d"
    and "\<And>h vs d n. h \<in> V \<Longrightarrow> I vs d \<Longrightarrow> 0 < n \<Longrightarrow> \<exists>n'. approvers d h n = Some (RC_OK, A h, n') \<and> 0 < n'"
  shows "\<exists>analyzed'. dfs_to_future_loop U (\<lambda>_. True) load approvers func stk capacity analyzed d (tx, b, False) = Some (RC_OK, analyzed', fold step order d)
    \<and> HASH_KEYS U analyzed' = HASH_KEYS U analyzed @ order \<and> I (vs @ order) (fold step order d)"
  using assms(1-6)
proof (induction arbitrary: capacity analyzed vs d tx b rule: search_run.induct)
  case (run_done seen)
  then show ?case by (subst dfs_to_future_loop.simps) simp
next
  case (run_skip h seen stk order)
  from run_skip.IH [OF run_skip.prems] run_skip.hyps(1) run_skip.prems(1) show ?case by (subst dfs_to_future_loop.simps) (simp add: contains_iff)
next
  case (run_visit h seen stk order)
  have h: "h \<in> V" using run_visit.prems(2) by simp
  have new: "h \<notin> set vs" using run_visit.hyps(1) run_visit.prems(4) by blast
  note d = step_keeps [OF h new run_visit.prems(5)]
  obtain t where t: "hash_set_add U analyzed h = (RC_OK, t)" "HASH_KEYS U t = HASH_KEYS U analyzed @ [h]"
    using add_new run_visit.hyps(1) run_visit.prems(1) by metis
  obtain n' where n: "approvers (step h d) h capacity = Some (RC_OK, A h, n')" "0 < n'" using assms(7) [OF h d run_visit.prems(3)] by blast
  let ?n = "if P h then n' else capacity"
  have k: "insert h seen = set (HASH_KEYS U t)" "set order \<subseteq> V" "0 < ?n" "set (vs @ [h]) \<subseteq> insert h seen" using t(2) run_visit.prems n(2) by auto
  from run_visit.IH [OF k d, of "T d h" "P h"] obtain a where
    a: "dfs_to_future_loop U (\<lambda>_. True) load approvers func ((if P h then A h else []) @ stk) ?n t (step h d) (T d h, P h, False) = Some (RC_OK, a, fold step order (step h d))"
      "HASH_KEYS U a = HASH_KEYS U t @ order" "I (vs @ h # order) (fold step order (step h d))" by auto
  have "dfs_to_future_visit U (\<lambda>_. True) load approvers func h stk capacity analyzed d tx b False
      = Some (Inr ((if P h then A h else []) @ stk, ?n, t, step h d, T d h, P h, False))"
    by (simp add: dfs_to_future_visit_def load_row [OF h run_visit.prems(5)] visit_row [OF h new run_visit.prems(5)] overwrite_def t(1) n(1) push_all_hashes_room)
  then have "dfs_to_future_loop U (\<lambda>_. True) load approvers func (h # stk) capacity analyzed d (tx, b, False)
      = dfs_to_future_loop U (\<lambda>_. True) load approvers func ((if P h then A h else []) @ stk) ?n t (step h d) (T d h, P h, False)"
    using run_visit.hyps(1) run_visit.prems(1) by (subst dfs_to_future_loop.simps) (simp add: contains_iff)
  with a t(2) show ?case by simp
qed

end

section \<open>Rows\<close>

abbreviation visit_model :: "flex_enc \<Rightarrow> iota_transaction \<Rightarrow> iota_transaction" where
  "visit_model e row \<equiv> load_model e MODEL_TRANSACTION_ESSENCE_ATTACHMENT_METADATA row"

lemma visit_model_fields:
  "essence (visit_model e row) = essence row" "attachment (visit_model e row) = attachment row" "metadata (visit_model e row) = metadata row"
  by (simp_all add: load_model_def Let_def select_transactions_populate_metadata_def select_transactions_populate_attachment_def
      select_transactions_populate_essence_def load_defs)

lemma visit_model_accessors:
  "transaction_trunk (visit_model e row) = Some (tx_trunk (attachment row))" "transaction_branch (visit_model e row) = Some (tx_branch (attachment row))"
  "transaction_current_index (visit_model e row) = Some (tx_current_index (essence row))"
  "transaction_snapshot_index (visit_model e row) = Some (tx_snapshot_index (metadata row))"
  by (simp_all add: load_model_def Let_def select_transactions_populate_metadata_def select_transactions_populate_attachment_def
      select_transactions_populate_essence_def load_defs transaction_getter_defs column_loaded_def transaction_reset_def mask_defs)

text \<open>
  The part of the tangle that a traversal can see: finitely many hashes, each with one row, whose references \<open>trunk h\<close> and \<open>branch h\<close> are among them. The
  visitor may change other columns of the rows.
\<close>

definition closed_tangle ::
  "('db, 'l) storage \<Rightarrow> flex_hash set \<Rightarrow> flex_hash set \<Rightarrow> (flex_hash \<Rightarrow> flex_hash) \<Rightarrow> (flex_hash \<Rightarrow> flex_hash) \<Rightarrow> 'db \<Rightarrow> bool"
where
  "closed_tangle S W seen trunk branch db \<longleftrightarrow> finite W \<and>
     (\<forall>h \<in> W - seen. trunk h \<in> W \<and> branch h \<in> W \<and>
        (\<exists>row. select_by_hash S db h = (RC_OK, [row]) \<and> tx_trunk (attachment row) = trunk h \<and> tx_branch (attachment row) = branch h))"

definition row_of :: "('db, 'l) storage \<Rightarrow> 'db \<Rightarrow> flex_hash \<Rightarrow> iota_transaction" where
  "row_of S db h = hd (snd (select_by_hash S db h))"

abbreviation visitor_load :: "flex_enc \<Rightarrow> ('db, 'l) storage \<Rightarrow> ('d \<Rightarrow> 'db) \<Rightarrow> 'd \<Rightarrow> flex_hash \<Rightarrow> retcode \<times> iota_transaction option" where
  "visitor_load e S db_of \<equiv> \<lambda>d h. iota_tangle_transaction_load_partial e S (db_of d) h PARTIAL_TX_MODEL_ESSENCE_ATTACHMENT_METADATA"

lemma tangle_visit_rows:
  assumes "uthash_laws U" "\<And>t. HASH_ROOM U t" "\<And>h vs d. h \<in> V \<Longrightarrow> I vs d \<Longrightarrow> \<exists>row. select_by_hash S (db_of d) h = (RC_OK, [row])"
    and "\<And>h vs d b row. h \<in> V \<Longrightarrow> h \<notin> set vs \<Longrightarrow> I vs d \<Longrightarrow> select_by_hash S (db_of d) h = (RC_OK, [row]) \<Longrightarrow>
      func h True (visit_model e row) d b False = Some (RC_OK, step h d, P h, False) \<and> I (vs @ [h]) (step h d)"
  shows "tangle_visit U (visitor_load e S db_of) func V (\<lambda>d h. visit_model e (row_of S (db_of d) h)) step P I"
  unfolding tangle_visit_def tangle_visit_axioms_def
proof (intro conjI allI impI assms(1,2), goal_cases)
  case (1 h vs d)
  with assms(3) obtain row where "select_by_hash S (db_of d) h = (RC_OK, [row])" by blast
  then show ?case by (simp add: iota_tangle_transaction_load_partial_def storage_load_def load_single_def row_of_def)
next
  case (2 h vs d b)
  with assms(3) obtain row where "select_by_hash S (db_of d) h = (RC_OK, [row])" by blast
  with assms(4) 2 show ?case by (simp add: row_of_def)
next
  case (3 h vs d)
  with assms(3) obtain row where "select_by_hash S (db_of d) h = (RC_OK, [row])" by blast
  with assms(4) 3 show ?case by blast
qed

text \<open>The tables of the analysed hashes.\<close>

lemma hash_set_add_room:
  assumes "uthash_laws H" "HASH_ROOM H t"
  shows "hash_set_add H t h = (RC_OK, snd (hash_set_add H t h))" "set (HASH_KEYS H (snd (hash_set_add H t h))) = insert h (set (HASH_KEYS H t))"
  using uthash_laws.find_none_iff [OF assms(1), of t h] uthash_laws.add_entries [OF assms(1), of t h "()"] assms(2)
  by (auto simp: hash_set_add_def hash_set_contains_def HASH_KEYS_def)

lemma hash_map_keys_keys:
  assumes "uthash_laws H" "\<And>t. HASH_ROOM H t"
  shows "set (HASH_KEYS H (hash_map_keys M H mp keys)) = set (HASH_KEYS M mp) \<union> set (HASH_KEYS H keys)"
proof -
  have "set (HASH_KEYS H (fold (\<lambda>hash keys. snd (hash_set_add H keys hash)) ks t)) = set ks \<union> set (HASH_KEYS H t)" for ks t
    by (induction ks arbitrary: t) (auto simp: hash_set_add_room(2) [OF assms])
  then show ?thesis by (simp add: hash_map_keys_def)
qed

text \<open>The run of a traversal over the rows, and the hashes that it visits.\<close>

lemma tangle_run:
  assumes "finite W" "entry \<in> W" "\<And>h. h \<in> W \<Longrightarrow> h \<notin> seen \<Longrightarrow> set (succ h) \<subseteq> W"
  obtains order where "search_run succ seen [entry] order" "set order \<subseteq> W - seen" "distinct order" "set order = reachable_avoiding succ seen {entry}"
proof -
  obtain order where run: "search_run succ seen [entry] order" using search_run_exists [where W = W and seen = seen and succ = succ and stk = "[entry]" and seen' = seen, OF assms(1,3)] assms(2) by auto
  note o = search_run_correct [OF run]
  have "x \<in> W" if "x \<in> reachable_avoiding succ seen {entry}" for x
    using that by induction (use assms(2,3) reachable_avoiding_disjoint [of _ succ seen] in \<open>blast+\<close>)
  with o have "set order \<subseteq> W - seen" by (auto dest: reachable_avoiding_disjoint)
  with run o that show ?thesis by auto
qed

section \<open>Properties\<close>

text \<open>The traversal with the laws of the visitor, for its use in other theories.\<close>

lemma dfs_to_past_visits:
  assumes "uthash_laws U" "\<And>t. HASH_ROOM U t" "seen = insert genesis (set (HASH_KEYS U A))"
    and "\<And>vs d. I vs d \<Longrightarrow> closed_tangle S W seen trunk branch (db_of d)" "I [] d" "entry \<in> W"
    and "\<And>h vs d b row. h \<in> W - seen \<Longrightarrow> h \<notin> set vs \<Longrightarrow> I vs d \<Longrightarrow> select_by_hash S (db_of d) h = (RC_OK, [row]) \<Longrightarrow>
      func h True (visit_model e row) d b False = Some (RC_OK, step h d, P h, False) \<and> I (vs @ [h]) (step h d)"
  shows "\<exists>A' order. tangle_traversal_dfs_to_past e S U (\<lambda>_. True) tx db_of func entry genesis (Some A) d = Some (RC_OK, Some A', fold step order d)
    \<and> distinct order \<and> I order (fold step order d) \<and> set (HASH_KEYS U A') = seen \<union> set order \<and> set order \<subseteq> W - seen
    \<and> set order = reachable_avoiding (\<lambda>h. if P h then [trunk h, branch h] else []) seen {entry}"
proof -
  let ?load = "visitor_load e S db_of" and ?T = "\<lambda>d h. visit_model e (row_of S (db_of d) h)" and ?V = "W - seen"
  let ?succ = "\<lambda>h. if P h then [trunk h, branch h] else []"
  have c: "finite W" "\<And>h. h \<in> W \<Longrightarrow> h \<notin> seen \<Longrightarrow> set (?succ h) \<subseteq> W"
    using assms(4) [OF assms(5)] by (auto simp: closed_tangle_def)
  have rows: "\<exists>row. select_by_hash S (db_of d) h = (RC_OK, [row]) \<and> tx_trunk (attachment row) = trunk h \<and> tx_branch (attachment row) = branch h"
    if "h \<in> ?V" "I vs d" for h vs d using assms(4) [OF that(2)] that(1) by (auto simp: closed_tangle_def)
  have tv: "tangle_visit U ?load func ?V ?T step P I" by (rule tangle_visit_rows) (use assms(1,2,7) rows in blast)+
  have refs: "transaction_trunk (?T d h) = Some (trunk h) \<and> transaction_branch (?T d h) = Some (branch h)" if "h \<in> ?V" "I vs d" for h vs d
    using rows [OF that] by (auto simp: visit_model_accessors row_of_def)
  obtain A1 where A1: "hash_set_add U A genesis = (RC_OK, A1)" "set (HASH_KEYS U A1) = seen"
    using tangle_visit.add_any [OF tv, of A genesis] assms(3) by auto
  obtain order where run: "search_run ?succ seen [entry] order" and V: "set order \<subseteq> ?V"
      and o: "distinct order" "set order = reachable_avoiding ?succ seen {entry}"
    using tangle_run [of W entry seen ?succ] c assms(6) by blast
  have "\<exists>A2. dfs_to_past_loop U (\<lambda>_. True) ?load func [entry] A1 d tx True False = Some (RC_OK, A2, fold step order d)
      \<and> HASH_KEYS U A2 = HASH_KEYS U A1 @ order \<and> I ([] @ order) (fold step order d)"
    by (rule tangle_visit.past_loop_visits [OF tv run A1(2) [symmetric] V _ assms(5)]) (use refs in auto)
  then obtain A2 where "dfs_to_past_loop U (\<lambda>_. True) ?load func [entry] A1 d tx True False = Some (RC_OK, A2, fold step order d)"
      "HASH_KEYS U A2 = HASH_KEYS U A1 @ order" "I order (fold step order d)" by auto
  with A1 o V show ?thesis by (auto simp: tangle_traversal_dfs_to_past_def Let_def hash_stack_push_def)
qed

text \<open>
  C26. The traversal to the past ends and visits exactly the transactions that can be reached from the entry point over trunk and branch of the transactions
  for which the visitor asks to go on, without passing through hashes analysed before or the genesis; it visits each of them once and adds them to the table.
  The visitor may change the database as long as the references stay.
\<close>

theorem traversal_to_past_visits_reachable:
  assumes "uthash_laws U" "\<And>t. HASH_ROOM U t" "seen = insert genesis (set (HASH_KEYS U A))"
    and "\<And>vs d. I vs d \<Longrightarrow> closed_tangle S W seen trunk branch (db_of d)" "I [] d" "entry \<in> W"
    and "\<And>h vs d b row. h \<in> W - seen \<Longrightarrow> h \<notin> set vs \<Longrightarrow> I vs d \<Longrightarrow> select_by_hash S (db_of d) h = (RC_OK, [row]) \<Longrightarrow>
      func h True (visit_model e row) d b False = Some (RC_OK, step h d, P h, False) \<and> I (vs @ [h]) (step h d)"
  shows "\<exists>A' order. tangle_traversal_dfs_to_past e S U (\<lambda>_. True) tx db_of func entry genesis (Some A) d = Some (RC_OK, Some A', fold step order d)
    \<and> distinct order \<and> I order (fold step order d) \<and> set (HASH_KEYS U A') = seen \<union> set order
    \<and> set order = reachable_avoiding (\<lambda>h. if P h then [trunk h, branch h] else []) seen {entry}"
  using dfs_to_past_visits [of U seen genesis A I S W trunk branch db_of d entry func e step P tx] assms by blast

theorem traversal_to_past_visits_reachable_witness:
  "\<exists>A' order. tangle_traversal_dfs_to_past ENC1 (list_storage ()) (alist_uthash (\<lambda>_. True)) (\<lambda>_. True) (transaction_reset ENC1)
       (\<lambda>_. [sample_row 0 0 [7] [2] [1], sample_row 0 0 [8] [9] [2]]) (\<lambda>h l t d b s. Some (RC_OK, Suc d, True, False)) [1] [9] (Some DAList.empty) 0
       = Some (RC_OK, Some A', fold (\<lambda>_. Suc) order 0) \<and> distinct order
       \<and> fold (\<lambda>_. Suc) order 0 = length order \<and> set (HASH_KEYS (alist_uthash (\<lambda>_. True)) A') = {[9]} \<union> set order
       \<and> set order = reachable_avoiding (\<lambda>h. if True then [if h = [1] then [2] else [9], if h = [1] then [2] else [9]] else []) {[9]} {[1] :: flex_hash}"
  by (rule traversal_to_past_visits_reachable [where e = ENC1 and step = "\<lambda>_. Suc" and W = "{[1], [2], [9]}" and I = "\<lambda>vs d. d = length vs"])
    (simp_all add: alist_table.uthash_laws_axioms, auto simp: HASH_KEYS_def alist_uthash_def DAList.empty.rep_eq closed_tangle_def list_storage_def)

text \<open>
  The traversal to the future ends and visits exactly the entry point and the transactions that approve it directly or indirectly, through
  transactions for which the visitor asks to go on, each of them once; a pack that is too small for the approvers is enlarged.
\<close>

theorem traversal_to_future_visits_approvers:
  assumes "uthash_laws U" "\<And>t. HASH_ROOM U t" "finite W" "entry \<in> W" "I [] d"
    and "\<And>h vs d. h \<in> W \<Longrightarrow> I vs d \<Longrightarrow> (\<exists>row. select_by_hash S (db_of d) h = (RC_OK, [row]))
      \<and> select_approvers S (db_of d) h 0 = (RC_OK, approvers h) \<and> set (approvers h) \<subseteq> W"
    and "\<And>h vs d b row. h \<in> W \<Longrightarrow> h \<notin> set vs \<Longrightarrow> I vs d \<Longrightarrow> select_by_hash S (db_of d) h = (RC_OK, [row]) \<Longrightarrow>
      func h True (visit_model e row) d b False = Some (RC_OK, step h d, P h, False) \<and> I (vs @ [h]) (step h d)"
  shows "\<exists>order. tangle_traversal_dfs_to_future e S U (\<lambda>_. True) (\<lambda>_. True) tx db_of func entry None d = Some (RC_OK, None, fold step order d)
    \<and> distinct order \<and> I order (fold step order d) \<and> set order = reachable_avoiding (\<lambda>h. if P h then approvers h else []) {} {entry}"
proof -
  let ?load = "visitor_load e S db_of" and ?T = "\<lambda>d h. visit_model e (row_of S (db_of d) h)"
  let ?app = "\<lambda>d h capacity. iota_tangle_transaction_load_hashes_of_approvers S (\<lambda>_. True) (db_of d) h capacity 0"
  let ?succ = "\<lambda>h. if P h then approvers h else []"
  have tv: "tangle_visit U ?load func W ?T step P I" by (rule tangle_visit_rows) (use assms(1,2,6,7) in blast)+
  obtain order where run: "search_run ?succ {} [entry] order" and V: "set order \<subseteq> W" and o: "distinct order" "set order = reachable_avoiding ?succ {} {entry}"
  proof (rule tangle_run [of W entry "{}" ?succ])
    show "set (?succ h) \<subseteq> W" if "h \<in> W" for h using assms(6) [OF that assms(5)] by auto
  qed (use assms(3,4) in auto)
  have null: "{} = set (HASH_KEYS U (HASH_NULL U))" using uthash_laws.null_entries [OF assms(1)] by (simp add: HASH_KEYS_def)
  have app: "\<exists>n'. ?app d h n = Some (RC_OK, approvers h, n') \<and> 0 < n'" if "h \<in> W" "I vs d" "0 < n" for h vs d n
    using load_all_hashes_correct [of "\<lambda>_. True" n "approvers h"] assms(6) [OF that(1,2)] that(3)
    by (simp add: iota_tangle_transaction_load_hashes_of_approvers_def)
  have "\<exists>A2. dfs_to_future_loop U (\<lambda>_. True) ?load ?app func [entry] 8 (HASH_NULL U) d (tx, True, False) = Some (RC_OK, A2, fold step order d)
      \<and> HASH_KEYS U A2 = HASH_KEYS U (HASH_NULL U) @ order \<and> I ([] @ order) (fold step order d)"
    by (rule tangle_visit.future_loop_visits [OF tv run null V _ _ assms(5) app]) simp_all
  with o show ?thesis by (auto simp: tangle_traversal_dfs_to_future_def Let_def hash_stack_push_def)
qed

theorem traversal_to_future_visits_approvers_witness:
  "\<exists>order. tangle_traversal_dfs_to_future ENC1 (list_storage ()) (alist_uthash (\<lambda>_. True) :: ((flex_hash, unit) alist, flex_hash, unit) uthash) (\<lambda>_. True) (\<lambda>_. True)
       (transaction_reset ENC1) (\<lambda>_. [sample_row 0 0 [7] [2] [1], sample_row 0 0 [8] [9] [2]]) (\<lambda>h l t d b s. Some (RC_OK, Suc d, True, False)) [2] None 0
       = Some (RC_OK, None, fold (\<lambda>_. Suc) order 0) \<and> distinct order \<and> fold (\<lambda>_. Suc) order 0 = length order
       \<and> set order = reachable_avoiding (\<lambda>h. if True then if h = [2] then [[1]] else [] else []) {} {[2] :: flex_hash}"
  by (rule traversal_to_future_visits_approvers [where e = ENC1 and step = "\<lambda>_. Suc" and W = "{[1], [2]}" and I = "\<lambda>vs d. d = length vs"])
    (simp_all add: alist_table.uthash_laws_axioms, auto simp: alist_uthash_def list_storage_def)

end
