(* ===== verification/Ledger_Validator.thy ===== *)
theory Ledger_Validator
  imports Prelude Errors Flex_Trit Transaction Bundle Hash_Containers State_Delta Snapshot Tangle Traversal
begin

text \<open>
  \<open>ciri/consensus/bundle_validator/bundle_validator.c\<close> and \<open>ciri/consensus/ledger_validator/ledger_validator.c\<close>: how a milestone changes the ledger, and how the
  consistency of tips is decided. The record \<open>node\<close> gathers what the code calls outside the repository: Keccak and the contents of its buffers, the database,
  the hash tables, the memory for stacks, and the contents of an uninitialised transaction. \<open>None\<close> is a failed assertion of an accessor, a use of a destroyed lock, a
  signed overflow, or a loop that does not end.
\<close>

section \<open>Definitions\<close>

record ('db, 's, 'm, 't, 'k) node =
  nd_keccak :: "'k keccak"
  nd_stack :: "nat \<Rightarrow> u8"
  nd_enc :: flex_enc
  nd_storage :: "('db, 's) storage"
  nd_ledger :: "'s state_delta_ops"
  nd_points :: "'m entry_points_ops"
  nd_set :: "('t, flex_hash, unit) uthash"
  nd_room :: "flex_hash list \<Rightarrow> bool"
  nd_tx :: iota_transaction

subsection \<open>Bundles\<close>

text \<open>The value of a status in the database.\<close>

primrec bundle_status_code :: "bundle_status \<Rightarrow> int" where
  "bundle_status_code BUNDLE_NOT_INITIALIZED = 0"
| "bundle_status_code BUNDLE_VALID = 1"
| "bundle_status_code BUNDLE_EMPTY = 2"
| "bundle_status_code BUNDLE_INCOMPLETE = 3"
| "bundle_status_code BUNDLE_INVALID_TX = 4"
| "bundle_status_code BUNDLE_INVALID_INPUT_ADDRESS = 5"
| "bundle_status_code BUNDLE_INVALID_VALUE = 6"
| "bundle_status_code BUNDLE_INVALID_HASH = 7"
| "bundle_status_code BUNDLE_INVALID_SIGNATURE = 8"

definition iota_tangle_bundle_update_validity :: "('db, 's) storage \<Rightarrow> 'db \<Rightarrow> bundle_transactions \<Rightarrow> bundle_status \<Rightarrow> (retcode \<times> 'db) option" where
  "iota_tangle_bundle_update_validity S db txs status =
     map_option (\<lambda>hashes. update_validity S db hashes (bundle_status_code status)) (those (map transaction_hash txs))"

text \<open>The status of a bundle is the one stored with its tail, or that of \<open>bundle_validate\<close>, which is then stored unless the bundle is incomplete.\<close>

definition iota_consensus_bundle_validator_validate ::
  "('db, 's, 'm, 't, 'k) node \<Rightarrow> 'db \<Rightarrow> flex_hash \<Rightarrow> bundle_transactions \<Rightarrow> (retcode \<times> 'db \<times> bundle_transactions \<times> int) option"
where
  "iota_consensus_bundle_validator_validate nd db tail_hash txs =
     (case iota_tangle_bundle_load (nd_enc nd) (nd_storage nd) db tail_hash txs of
        None \<Rightarrow> None
      | Some (ret, txs) \<Rightarrow>
          if ret \<noteq> RC_OK then Some (ret, db, txs, bundle_status_code BUNDLE_NOT_INITIALIZED)
          else if txs = [] then Some (RC_OK, db, txs, bundle_status_code BUNDLE_EMPTY)
          else (case iota_tangle_transaction_load_partial (nd_enc nd) (nd_storage nd) db tail_hash PARTIAL_TX_MODEL_METADATA of
                  (ret, loaded) \<Rightarrow>
                    if ret \<noteq> RC_OK then Some (ret, db, txs, bundle_status_code BUNDLE_NOT_INITIALIZED)
                    else (case transaction_validity (overwrite loaded (nd_tx nd)) of
                            None \<Rightarrow> None
                          | Some status \<Rightarrow>
                              if status \<noteq> bundle_status_code BUNDLE_NOT_INITIALIZED then Some (RC_OK, db, txs, status)
                              else (case bundle_validate (nd_keccak nd) (nd_stack nd) (nd_enc nd) (Some txs) BUNDLE_NOT_INITIALIZED of
                                      None \<Rightarrow> None
                                    | Some (ret, status) \<Rightarrow>
                                        if ret \<noteq> RC_OK \<or> status = BUNDLE_INCOMPLETE then Some (ret, db, txs, bundle_status_code status)
                                        else map_option (\<lambda>(ret, db). (ret, db, txs, bundle_status_code status))
                                               (iota_tangle_bundle_update_validity (nd_storage nd) db txs status)))))"

subsection \<open>The state of the validator\<close>

text \<open>The fields of the milestone tracker that the validator uses.\<close>

record ('s, 'm) milestone_tracker =
  mt_snapshots_provider :: "('s, 'm) snapshots_provider"
  mt_latest_solid_milestone_index :: int
  mt_latest_solid_milestone :: flex_hash

record ('s, 'm) ledger_validator =
  lv_conf :: consensus_conf
  lv_milestone_tracker :: "('s, 'm) milestone_tracker"

abbreviation initial_snapshot :: "('s, 'm) ledger_validator \<Rightarrow> ('s, 'm) snapshot" where
  "initial_snapshot lv \<equiv> pr_initial_snapshot (mt_snapshots_provider (lv_milestone_tracker lv))"

abbreviation latest_snapshot :: "('s, 'm) ledger_validator \<Rightarrow> ('s, 'm) snapshot" where
  "latest_snapshot lv \<equiv> pr_latest_snapshot (mt_snapshots_provider (lv_milestone_tracker lv))"

abbreviation set_latest_snapshot :: "('s, 'm) snapshot \<Rightarrow> ('s, 'm) milestone_tracker \<Rightarrow> ('s, 'm) milestone_tracker" where
  "set_latest_snapshot snap \<equiv> mt_snapshots_provider_update (pr_latest_snapshot_update (\<lambda>_. snap))"

subsection \<open>Marking the confirmed transactions\<close>

definition update_snapshot_milestone_do_func :: "('t, flex_hash, unit) uthash \<Rightarrow> 't visitor" where
  "update_snapshot_milestone_do_func H hash loaded tx hashes should_branch should_stop =
     (if \<not> loaded then Some (RC_LEDGER_VALIDATOR_COULD_NOT_LOAD_MILESTONE, hashes, should_branch, True)
      else case transaction_snapshot_index tx of
             None \<Rightarrow> None
           | Some snapshot_index \<Rightarrow>
               if snapshot_index = 0
               then (case hash_set_add H hashes hash of (ret, hashes) \<Rightarrow> Some (ret, hashes, True, if ret \<noteq> RC_OK then True else should_stop))
               else Some (RC_OK, hashes, False, should_stop))"

definition update_snapshot_milestone ::
  "('db, 's, 'm, 't, 'k) node \<Rightarrow> ('s, 'm) ledger_validator \<Rightarrow> 'db \<Rightarrow> flex_hash \<Rightarrow> int \<Rightarrow> (retcode \<times> 'db) option"
where
  "update_snapshot_milestone nd lv db hash index =
     (case iota_snapshot_solid_entry_points_set (nd_points nd) (nd_set nd) (initial_snapshot lv) (HASH_NULL (nd_set nd)) of
        None \<Rightarrow> None
      | Some analyzed_hashes \<Rightarrow>
          (case tangle_traversal_dfs_to_past (nd_enc nd) (nd_storage nd) (nd_set nd) (nd_room nd) (nd_tx nd) (\<lambda>_. db)
                  (update_snapshot_milestone_do_func (nd_set nd)) hash (cf_genesis_hash (lv_conf lv)) (Some analyzed_hashes) (HASH_NULL (nd_set nd)) of
             None \<Rightarrow> None
           | Some (ret, _, hashes_to_update) \<Rightarrow>
               if ret \<noteq> RC_OK then Some (ret, db)
               else Some (update_snapshot_index (nd_storage nd) db (HASH_KEYS (nd_set nd) hashes_to_update) index)))"

subsection \<open>The delta of a milestone\<close>

primrec sum_bundle :: "'s state_delta_ops \<Rightarrow> bundle_transactions \<Rightarrow> 's \<Rightarrow> (retcode \<times> 's) option" where
  "sum_bundle U [] delta = Some (RC_OK, delta)"
| "sum_bundle U (tx # txs) delta =
     (case (transaction_address tx, transaction_value tx) of
        (Some address, Some value) \<Rightarrow>
          (case state_delta_add_or_sum U delta address value of
             None \<Rightarrow> None
           | Some (ret, delta) \<Rightarrow> if ret \<noteq> RC_OK then Some (ret, delta) else sum_bundle U txs delta)
      | _ \<Rightarrow> None)"

text \<open>The data of the visitor: the parameters that change, and the database.\<close>

record ('db, 's) delta_params =
  dp_valid_delta :: bool
  dp_delta :: 's
  dp_db :: 'db

text \<open>Whether the pack holds a transaction is not tested.\<close>

definition get_latest_delta_do_func :: "('db, 's, 'm, 't, 'k) node \<Rightarrow> int \<Rightarrow> ('db, 's) delta_params visitor" where
  "get_latest_delta_do_func nd latest_snapshot_index hash loaded tx params should_branch should_stop =
     (case transaction_snapshot_index tx of
        None \<Rightarrow> None
      | Some snapshot_index \<Rightarrow>
          if \<not> (snapshot_index = 0 \<or> snapshot_index > latest_snapshot_index) then Some (RC_OK, params, False, False)
          else (case transaction_current_index tx of
                  None \<Rightarrow> None
                | Some current_index \<Rightarrow>
                    if current_index \<noteq> 0 then Some (RC_OK, params, True, False)
                    else (case iota_consensus_bundle_validator_validate nd (dp_db params) hash bundle_transactions_new of
                            None \<Rightarrow> None
                          | Some (ret, db, txs, status) \<Rightarrow>
                              (let params = params\<lparr>dp_db := db\<rparr>
                               in if ret \<noteq> RC_OK then Some (ret, params\<lparr>dp_valid_delta := False\<rparr>, True, True)
                                  else if status \<noteq> bundle_status_code BUNDLE_VALID \<or> bundle_at txs 0 = None
                                  then Some (RC_OK, params\<lparr>dp_valid_delta := False\<rparr>, True, True)
                                  else (case sum_bundle (nd_ledger nd) txs (dp_delta params) of
                                          None \<Rightarrow> None
                                        | Some (ret, delta) \<Rightarrow>
                                            (let params = params\<lparr>dp_delta := delta\<rparr>
                                             in if ret \<noteq> RC_OK then Some (ret, params\<lparr>dp_valid_delta := False\<rparr>, True, True)
                                                else Some (RC_OK, params, True, False)))))))"

definition get_latest_delta ::
  "('db, 's, 'm, 't, 'k) node \<Rightarrow> ('s, 'm) ledger_validator \<Rightarrow> 'db \<Rightarrow> 't \<Rightarrow> 's \<Rightarrow> flex_hash \<Rightarrow> int
     \<Rightarrow> (retcode \<times> 't \<times> ('db, 's) delta_params) option"
where
  "get_latest_delta nd lv db analyzed_hashes delta tip latest_snapshot_index =
     (case iota_snapshot_solid_entry_points_set (nd_points nd) (nd_set nd) (initial_snapshot lv) analyzed_hashes of
        None \<Rightarrow> None
      | Some analyzed_hashes \<Rightarrow>
          map_option (\<lambda>(ret, analyzed, params). (ret, the analyzed, params))
            (tangle_traversal_dfs_to_past (nd_enc nd) (nd_storage nd) (nd_set nd) (nd_room nd) (nd_tx nd) dp_db (get_latest_delta_do_func nd latest_snapshot_index)
               tip (cf_genesis_hash (lv_conf lv)) (Some analyzed_hashes) \<lparr>dp_valid_delta = True, dp_delta = delta, dp_db = db\<rparr>))"

subsection \<open>Building the snapshot from the stored deltas\<close>

text \<open>One milestone: \<open>Inl\<close> leaves the loop with a code. The state are the latest snapshot, the consistent index and the consistent hash.\<close>

definition build_step ::
  "'s state_delta_ops \<Rightarrow> ('db, 's) storage \<Rightarrow> 'db \<Rightarrow> iota_milestone \<Rightarrow> ('s, 'm) snapshot \<times> int \<times> flex_hash
     \<Rightarrow> (retcode \<times> ('s, 'm) snapshot \<times> int \<times> flex_hash) option"
where
  "build_step U S db milestone st =
     (case load_delta S db (ms_index milestone) of
        (ret, delta) \<Rightarrow>
          if ret \<noteq> RC_OK then Some (ret, st)
          else if state_delta_empty U delta then Some (RC_OK, st)
          else (case iota_snapshot_create_patch U (Some (fst st)) delta (HASH_NULL U) of
                  None \<Rightarrow> None
                | Some (ret, patch) \<Rightarrow>
                    if ret \<noteq> RC_OK then Some (ret, st)
                    else if fst (state_delta_is_consistent U patch)
                    then (case iota_snapshot_apply_patch U (Some (fst st)) delta (ms_index milestone) of
                            None \<Rightarrow> None
                          | Some (ret, snapp) \<Rightarrow>
                              if ret \<noteq> RC_OK then Some (ret, the snapp, snd st) else Some (RC_OK, the snapp, ms_index milestone, ms_hash milestone))
                    else Some (RC_LEDGER_VALIDATOR_INCONSISTENT_DELTA, st)))"

partial_function (option) build_loop ::
  "'s state_delta_ops \<Rightarrow> ('db, 's) storage \<Rightarrow> 'db \<Rightarrow> int \<Rightarrow> ('s, 'm) snapshot \<times> int \<times> flex_hash \<Rightarrow> (retcode \<times> ('s, 'm) snapshot \<times> int \<times> flex_hash) option"
where
  "build_loop U S db index st =
     (case select_milestone_by_index S db index of
        (ret, ms) \<Rightarrow>
          if ret \<noteq> RC_OK then Some (ret, st)
          else (case ms of
                  [] \<Rightarrow> Some (RC_OK, st)
                | milestone # _ \<Rightarrow>
                    (case build_step U S db milestone st of
                       None \<Rightarrow> None
                     | Some (ret, st) \<Rightarrow> if ret \<noteq> RC_OK then Some (ret, st) else build_loop U S db (uwrap64 (ms_index milestone + 1)) st)))"

definition build_snapshot ::
  "('db, 's, 'm, 't, 'k) node \<Rightarrow> ('s, 'm) milestone_tracker \<Rightarrow> 'db \<Rightarrow> (retcode \<times> ('s, 'm) milestone_tracker) option"
where
  "build_snapshot nd mt db =
     map_option (\<lambda>(ret, snap, consistent_index, consistent_hash).
         (ret, (set_latest_snapshot snap mt)\<lparr>mt_latest_solid_milestone_index := consistent_index, mt_latest_solid_milestone := consistent_hash\<rparr>))
       (build_loop (nd_ledger nd) (nd_storage nd) db (uwrap64 (md_index (sn_metadata (pr_initial_snapshot (mt_snapshots_provider mt))) + 1))
          (pr_latest_snapshot (mt_snapshots_provider mt), mt_latest_solid_milestone_index mt, mt_latest_solid_milestone mt))"

subsection \<open>The public functions\<close>

definition iota_consensus_ledger_validator_init ::
  "('db, 's, 'm, 't, 'k) node \<Rightarrow> 'db \<Rightarrow> consensus_conf \<Rightarrow> ('s, 'm) milestone_tracker \<Rightarrow> (retcode \<times> ('s, 'm) ledger_validator) option"
where
  "iota_consensus_ledger_validator_init nd db conf mt =
     map_option (\<lambda>(ret, mt). (ret, \<lparr>lv_conf = conf, lv_milestone_tracker = mt\<rparr>)) (build_snapshot nd mt db)"

definition iota_consensus_ledger_validator_update_snapshot ::
  "('db, 's, 'm, 't, 'k) node \<Rightarrow> ('s, 'm) ledger_validator \<Rightarrow> 'db \<Rightarrow> iota_milestone \<Rightarrow> (retcode \<times> bool \<times> ('s, 'm) ledger_validator \<times> 'db) option"
where
  "iota_consensus_ledger_validator_update_snapshot nd lv db milestone =
     (let U = nd_ledger nd; S = nd_storage nd in
      case iota_tangle_transaction_load_partial (nd_enc nd) S db (ms_hash milestone) PARTIAL_TX_MODEL_METADATA of
        (ret, loaded) \<Rightarrow>
          if ret \<noteq> RC_OK then Some (ret, False, lv, db)
          else (case loaded of
                  None \<Rightarrow> Some (RC_LEDGER_VALIDATOR_INVALID_TRANSACTION, False, lv, db)
                | Some tx \<Rightarrow>
                    (case (transaction_solid tx, transaction_snapshot_index tx) of
                       (Some solid, Some snapshot_index) \<Rightarrow>
                         if \<not> solid then Some (RC_LEDGER_VALIDATOR_TRANSACTION_NOT_SOLID, False, lv, db)
                         else if snapshot_index \<noteq> 0 then Some (RC_OK, True, lv, db)
                         else (case iota_snapshot_get_index (latest_snapshot lv) of None \<Rightarrow> None | Some latest_index \<Rightarrow>
                              (case get_latest_delta nd lv db (HASH_NULL (nd_set nd)) (HASH_NULL U) (ms_hash milestone) latest_index of
                                 None \<Rightarrow> None
                               | Some (ret, _, params) \<Rightarrow>
                                   (let db = dp_db params; delta = dp_delta params
                                    in if ret \<noteq> RC_OK then Some (ret, False, lv, db)
                                       else if \<not> dp_valid_delta params then Some (RC_OK, False, lv, db)
                                       else (case iota_snapshot_create_patch U (Some (latest_snapshot lv)) delta (HASH_NULL U) of
                                               None \<Rightarrow> None
                                             | Some (ret, patch) \<Rightarrow>
                                                 if ret \<noteq> RC_OK then Some (ret, False, lv, db)
                                                 else if \<not> fst (state_delta_is_consistent U patch) then Some (RC_OK, False, lv, db)
                                                 else (case update_snapshot_milestone nd lv db (ms_hash milestone) (ms_index milestone) of
                                                         None \<Rightarrow> None
                                                       | Some (ret, db) \<Rightarrow>
                                                           if ret \<noteq> RC_OK then Some (ret, True, lv, db)
                                                           else (case (if state_delta_empty U delta then (RC_OK, db) else store_delta S db (ms_index milestone) delta) of
                                                                   (ret, db) \<Rightarrow>
                                                                     if ret \<noteq> RC_OK then Some (ret, True, lv, db)
                                                                     else map_option (\<lambda>(ret, snapp).
                                                                            (ret, True, lv\<lparr>lv_milestone_tracker := set_latest_snapshot (the snapp) (lv_milestone_tracker lv)\<rparr>, db))
                                                                          (iota_snapshot_apply_patch U (Some (latest_snapshot lv)) delta (ms_index milestone))))))))
                     | _ \<Rightarrow> None)))"

text \<open>
  \<open>iota_consensus_ledger_validator_update_delta\<close>. The transaction is read also when none was loaded. The result are the code, whether the tip is consistent, the
  analysed hashes, the delta and the database.
\<close>

definition iota_consensus_ledger_validator_update_delta ::
  "('db, 's, 'm, 't, 'k) node \<Rightarrow> ('s, 'm) ledger_validator \<Rightarrow> 'db \<Rightarrow> 't \<Rightarrow> 's \<Rightarrow> flex_hash \<Rightarrow> (retcode \<times> bool \<times> 't \<times> 's \<times> 'db) option"
where
  "iota_consensus_ledger_validator_update_delta nd lv db analyzed_hashes delta tip =
     (let U = nd_ledger nd; S = nd_storage nd in
      case iota_tangle_transaction_load_partial (nd_enc nd) S db tip PARTIAL_TX_MODEL_METADATA of
        (ret, loaded) \<Rightarrow>
          if ret \<noteq> RC_OK then Some (ret, False, analyzed_hashes, delta, db)
          else (case transaction_solid (overwrite loaded (nd_tx nd)) of
                  None \<Rightarrow> None
                | Some solid \<Rightarrow>
                    if \<not> solid then Some (RC_LEDGER_VALIDATOR_TRANSACTION_NOT_SOLID, False, analyzed_hashes, delta, db)
                    else if hash_set_contains (nd_set nd) analyzed_hashes tip then Some (RC_OK, True, analyzed_hashes, delta, db)
                    else (case hash_set_append (nd_set nd) analyzed_hashes (HASH_NULL (nd_set nd)) of
                            (ret, visited_hashes) \<Rightarrow>
                              if ret \<noteq> RC_OK then Some (ret, False, analyzed_hashes, delta, db)
                              else (case iota_snapshot_get_index (latest_snapshot lv) of None \<Rightarrow> None | Some latest_index \<Rightarrow>
                                   (case get_latest_delta nd lv db visited_hashes (HASH_NULL U) tip latest_index of
                                      None \<Rightarrow> None
                                    | Some (ret, visited_hashes, params) \<Rightarrow>
                                        if ret \<noteq> RC_OK then Some (ret, False, analyzed_hashes, delta, dp_db params)
                                        else if \<not> dp_valid_delta params then Some (RC_OK, False, analyzed_hashes, delta, dp_db params)
                                        else map_option (\<lambda>(ret, is_consistent, analyzed_hashes, delta). (ret, is_consistent, analyzed_hashes, delta, dp_db params))
                                          (case state_delta_apply_patch U (dp_delta params) delta of
                                             None \<Rightarrow> None
                                           | Some (ret, tip_state) \<Rightarrow>
                                               if ret \<noteq> RC_OK then Some (ret, False, analyzed_hashes, delta)
                                               else (case iota_snapshot_create_patch U (Some (latest_snapshot lv)) tip_state (HASH_NULL U) of
                                                       None \<Rightarrow> None
                                                     | Some (ret, patch) \<Rightarrow>
                                                         if ret \<noteq> RC_OK \<or> \<not> fst (state_delta_is_consistent U patch) then Some (ret, False, analyzed_hashes, delta)
                                                         else (case state_delta_merge_patch U delta tip_state of
                                                                 (ret, delta) \<Rightarrow>
                                                                   if ret \<noteq> RC_OK then Some (ret, False, analyzed_hashes, delta)
                                                                   else (case hash_set_append (nd_set nd) visited_hashes analyzed_hashes of
                                                                           (ret, analyzed_hashes) \<Rightarrow> Some (ret, ret = RC_OK, analyzed_hashes, delta))))))))))"

primrec check_consistency_loop ::
  "('db, 's, 'm, 't, 'k) node \<Rightarrow> ('s, 'm) ledger_validator \<Rightarrow> flex_hash list \<Rightarrow> 'db \<Rightarrow> 't \<Rightarrow> 's \<Rightarrow> (retcode \<times> bool \<times> 't \<times> 's \<times> 'db) option"
where
  "check_consistency_loop nd lv [] db analyzed_hashes delta = Some (RC_OK, True, analyzed_hashes, delta, db)"
| "check_consistency_loop nd lv (hash # hashes) db analyzed_hashes delta =
     (case iota_consensus_ledger_validator_update_delta nd lv db analyzed_hashes delta hash of
        None \<Rightarrow> None
      | Some (ret, is_consistent, analyzed_hashes, delta, db) \<Rightarrow>
          if ret \<noteq> RC_OK then Some (ret, False, analyzed_hashes, delta, db)
          else if \<not> is_consistent then Some (RC_OK, False, analyzed_hashes, delta, db)
          else check_consistency_loop nd lv hashes db analyzed_hashes delta)"

text \<open>The table of the hashes and the delta are freed.\<close>

definition iota_consensus_ledger_validator_check_consistency ::
  "('db, 's, 'm, 't, 'k) node \<Rightarrow> ('s, 'm) ledger_validator \<Rightarrow> 'db \<Rightarrow> flex_hash list \<Rightarrow> (retcode \<times> bool \<times> 'db) option"
where
  "iota_consensus_ledger_validator_check_consistency nd lv db hashes =
     map_option (\<lambda>(ret, is_consistent, _, _, db). (ret, is_consistent, db))
       (check_consistency_loop nd lv hashes db (HASH_NULL (nd_set nd)) (HASH_NULL (nd_ledger nd)))"

section \<open>The ledger of the validator\<close>

text \<open>Snapshots that can be used: the lock exists, no balance is negative and the balances add up to the supply.\<close>

definition snapshot_ok :: "'s state_delta_ops \<Rightarrow> ('s, 'm) snapshot \<Rightarrow> bool" where
  "snapshot_ok U snap \<longleftrightarrow> sn_lock snap \<and> ledger_ok U (sn_state snap)"

lemma apply_checked_patch:
  assumes "ledger_table U" "\<And>t. HASH_ROOM U t" "snapshot_ok U snap"
    and "iota_snapshot_create_patch U (Some snap) d q = Some (RC_OK, p)" "fst (state_delta_is_consistent U p)"
    and "iota_snapshot_apply_patch U (Some snap) d index = Some (ret, snapp)"
  shows "\<exists>snap'. snapp = Some snap' \<and> snapshot_ok U snap' \<and>
    (if ret = RC_OK then ledger_total U d = 0 \<and> md_index (sn_metadata snap') = index
         \<and> ledger_balance U (sn_state snap') = (\<lambda>h. ledger_balance U (sn_state snap) h + ledger_balance U d h)
     else snap' = snap)"
proof -
  obtain m where m: "state_delta_sum U d = Some m" using assms(6) by (auto simp: iota_snapshot_apply_patch_def split: option.splits)
  show ?thesis
  proof (cases "m = 0")
    case True
    then have z: "ledger_total U d = 0"
      using ledger_table.sum_loop_correct [OF assms(1), of "HASH_ENTRIES U d" 0] m by (simp add: state_delta_sum_def ledger_total_def)
    have ok: "sn_lock snap" "ledger_ok U (sn_state snap)" using assms(3) by (simp_all add: snapshot_ok_def)
    have "state_delta_create_patch U (sn_state snap) d (HASH_NULL U) = Some (RC_OK, p)"
      using ok(1) assms(4) by (simp add: iota_snapshot_create_patch_def)
    from ledger_table.apply_keeps_ledger [OF assms(1) ok(2) assms(2) this assms(5) z]
    obtain st where "state_delta_apply_patch U (sn_state snap) d = Some (RC_OK, st)" "ledger_ok U st"
      "ledger_balance U st = (\<lambda>h. ledger_balance U (sn_state snap) h + ledger_balance U d h)" by blast
    with True z ok(1) m assms(6) show ?thesis
      by (auto simp: iota_snapshot_apply_patch_def iota_snapshot_apply_patch_no_lock_def snapshot_ok_def)
  next
    case False
    have "RC_SNAPSHOT_INCONSISTENT_PATCH \<noteq> RC_OK" by (simp add: RC_SNAPSHOT_INCONSISTENT_PATCH_def RC_MODULE_SNAPSHOT_def RC_SEVERITY_MAJOR_def RC_OK_def)
    with False m assms(3,6) show ?thesis by (simp add: iota_snapshot_apply_patch_def)
  qed
qed

lemma build_step_keeps:
  assumes "ledger_table U" "\<And>t. HASH_ROOM U t" "snapshot_ok U (fst st)" "build_step U S db m st = Some (ret, st')"
  shows "snapshot_ok U (fst st')"
  using assms(3,4) apply_checked_patch [OF assms(1-3), of "snd (load_delta S db (ms_index m))" "HASH_NULL U" _ "ms_index m"]
  by (fastforce simp: build_step_def split: prod.splits if_splits option.splits)

lemma build_loop_keeps:
  assumes "build_loop U S db i st = Some r" "ledger_table U" "\<And>t. HASH_ROOM U t" "snapshot_ok U (fst st)"
  shows "snapshot_ok U (fst (snd r))"
proof (rule build_loop.raw_induct [where P = "\<lambda>U S db i st r. ledger_table U \<longrightarrow> (\<forall>t. HASH_ROOM U t) \<longrightarrow> snapshot_ok U (fst st) \<longrightarrow> snapshot_ok U (fst (snd r))",
      rule_format, OF _ assms], goal_cases)
  case (1 loop U S db i st r)
  from 1(2) obtain rm ms where ms: "select_milestone_by_index S db i = (rm, ms)" by (cases "select_milestone_by_index S db i")
  show ?case
  proof (cases "rm \<noteq> RC_OK \<or> ms = []")
    case True
    with 1(2,5) ms show ?thesis by (auto split: if_splits)
  next
    case False
    then obtain m where m: "rm = RC_OK" "hd ms = m" "ms \<noteq> []" by blast
    with 1(2) ms obtain rs st1 where st: "build_step U S db m st = Some (rs, st1)"
        "(if rs \<noteq> RC_OK then Some (rs, st1) else loop U S db (uwrap64 (ms_index m + 1)) st1) = Some r"
      by (cases ms) (auto split: option.splits)
    with build_step_keeps [OF 1(3,4,5) st(1)] 1(1,3,4) show ?thesis by (auto split: if_splits)
  qed
qed

lemma update_snapshot_cases:
  assumes "iota_consensus_ledger_validator_update_snapshot nd lv db milestone = Some (ret, has_snapshot, lv', db')"
  shows "lv' = lv \<or> (\<exists>delta patch snapp. has_snapshot
     \<and> iota_snapshot_create_patch (nd_ledger nd) (Some (latest_snapshot lv)) delta (HASH_NULL (nd_ledger nd)) = Some (RC_OK, patch)
     \<and> fst (state_delta_is_consistent (nd_ledger nd) patch)
     \<and> iota_snapshot_apply_patch (nd_ledger nd) (Some (latest_snapshot lv)) delta (ms_index milestone) = Some (ret, snapp)
     \<and> lv' = lv\<lparr>lv_milestone_tracker := set_latest_snapshot (the snapp) (lv_milestone_tracker lv)\<rparr>)"
  using assms unfolding iota_consensus_ledger_validator_update_snapshot_def Let_def
  by (auto split: prod.splits option.splits if_splits)

text \<open>
  The states of the validator: the snapshot is built from the stored deltas, then milestones are applied. The database may change between the calls.
\<close>

inductive validator_states :: "('db, 's, 'm, 't, 'k) node \<Rightarrow> ('s, 'm) milestone_tracker \<Rightarrow> ('s, 'm) ledger_validator \<Rightarrow> bool" for nd mt where
  states_init: "iota_consensus_ledger_validator_init nd db conf mt = Some (RC_OK, lv) \<Longrightarrow> validator_states nd mt lv"
| states_update: "validator_states nd mt lv \<Longrightarrow> iota_consensus_ledger_validator_update_snapshot nd lv db milestone = Some (ret, has_snapshot, lv', db')
    \<Longrightarrow> validator_states nd mt lv'"

lemma update_snapshot_keeps:
  assumes "ledger_table (nd_ledger nd)" "\<And>t. HASH_ROOM (nd_ledger nd) t" "snapshot_ok (nd_ledger nd) (latest_snapshot lv)"
    and "iota_consensus_ledger_validator_update_snapshot nd lv db milestone = Some (ret, has_snapshot, lv', db')"
  shows "snapshot_ok (nd_ledger nd) (latest_snapshot lv') \<and> initial_snapshot lv' = initial_snapshot lv \<and>
    (lv' = lv \<or> ret = RC_OK \<and> has_snapshot \<and> md_index (sn_metadata (latest_snapshot lv')) = ms_index milestone)"
  using update_snapshot_cases [OF assms(4)]
proof (elim disjE exE conjE)
  assume "lv' = lv"
  with assms(3) show ?thesis by simp
next
  fix delta patch snapp
  assume u: "has_snapshot"
      "iota_snapshot_create_patch (nd_ledger nd) (Some (latest_snapshot lv)) delta (HASH_NULL (nd_ledger nd)) = Some (RC_OK, patch)"
      "fst (state_delta_is_consistent (nd_ledger nd) patch)"
      "iota_snapshot_apply_patch (nd_ledger nd) (Some (latest_snapshot lv)) delta (ms_index milestone) = Some (ret, snapp)"
    and lv': "lv' = lv\<lparr>lv_milestone_tracker := set_latest_snapshot (the snapp) (lv_milestone_tracker lv)\<rparr>"
  from apply_checked_patch [OF assms(1-3) u(2-4)] obtain snap where s: "snapp = Some snap" "snapshot_ok (nd_ledger nd) snap"
      "if ret = RC_OK then md_index (sn_metadata snap) = ms_index milestone else snap = latest_snapshot lv" by (auto split: if_splits)
  have "set_latest_snapshot (latest_snapshot lv) (lv_milestone_tracker lv) = lv_milestone_tracker lv" by simp
  with s lv' u(1) show ?thesis by (cases "ret = RC_OK") auto
qed

end
