(* ===== verification/Ledger_Update.thy ===== *)
theory Ledger_Update
  imports Ledger_Validator
begin

text \<open>
  What a milestone does to the ledger: the delta of \<open>get_latest_delta\<close> is the sum of the values of the bundles in the unconfirmed past of the milestone, and
  \<open>iota_consensus_ledger_validator_update_snapshot\<close> adds it to the ledger and marks the transactions. \<open>row h\<close> is the row of \<open>h\<close>, up to the columns that a
  validation changes.
\<close>

section \<open>Sums of bundles\<close>

definition bundle_delta :: "bundle_transactions \<Rightarrow> flex_hash \<Rightarrow> int" where
  "bundle_delta txs a = sum_list (map (\<lambda>tx. if tx_address (essence tx) = a then tx_value (essence tx) else 0) txs)"

definition moved :: "bundle_transactions \<Rightarrow> int" where
  "moved txs = sum_list (map (\<lambda>tx. \<bar>tx_value (essence tx)\<bar>) txs)"

lemma bundle_delta_simps [simp]:
  "bundle_delta [] = (\<lambda>_. 0)" "bundle_delta (tx # txs) a = (if tx_address (essence tx) = a then tx_value (essence tx) else 0) + bundle_delta txs a"
  "bundle_delta (txs @ txs') a = bundle_delta txs a + bundle_delta txs' a"
  by (auto simp: bundle_delta_def)

lemma moved_simps [simp]: "moved [] = 0" "moved (tx # txs) = \<bar>tx_value (essence tx)\<bar> + moved txs" "moved (txs @ txs') = moved txs + moved txs'"
  by (auto simp: moved_def)

lemma moved_nonneg [simp]: "0 \<le> moved txs"
  by (induction txs) auto

lemma bundle_delta_moved: "\<bar>bundle_delta txs a\<bar> \<le> moved txs"
  by (induction txs) auto

lemma bundle_delta_moved_sum: "finite K \<Longrightarrow> (\<Sum>a \<in> K. \<bar>bundle_delta txs a\<bar>) \<le> moved txs"
proof (induction txs)
  case (Cons tx txs)
  let ?v = "\<lambda>a. if tx_address (essence tx) = a then tx_value (essence tx) else 0"
  have "(\<Sum>a \<in> K. \<bar>bundle_delta (tx # txs) a\<bar>) \<le> (\<Sum>a \<in> K. \<bar>?v a\<bar> + \<bar>bundle_delta txs a\<bar>)" by (intro sum_mono) auto
  also have "\<dots> = (\<Sum>a \<in> K. if tx_address (essence tx) = a then \<bar>tx_value (essence tx)\<bar> else 0) + (\<Sum>a \<in> K. \<bar>bundle_delta txs a\<bar>)"
    by (simp add: sum.distrib if_distrib [of abs] cong: if_cong)
  also have "(\<Sum>a \<in> K. if tx_address (essence tx) = a then \<bar>tx_value (essence tx)\<bar> else 0) \<le> \<bar>tx_value (essence tx)\<bar>"
    using Cons.prems by (simp add: sum.delta)
  finally show ?case using Cons by simp
qed simp

definition values_loaded :: "bundle_transactions \<Rightarrow> bool" where
  "values_loaded txs \<longleftrightarrow> (\<forall>tx \<in> set txs. transaction_address tx = Some (tx_address (essence tx)) \<and> transaction_value tx = Some (tx_value (essence tx)))"

context ledger_table
begin

lemma sum_bundle_correct:
  assumes "\<And>t. HASH_ROOM U t" "values_loaded txs" "\<And>a. \<bar>ledger_balance U t a\<bar> + moved txs \<le> INT64_MAX"
  shows "\<exists>t'. sum_bundle U txs t = Some (RC_OK, t') \<and> ledger_balance U t' = (\<lambda>a. ledger_balance U t a + bundle_delta txs a)
    \<and> ledger_total U t' = ledger_total U t + sum_list (values_of txs) \<and> (ledger_reduced U t \<longrightarrow> ledger_reduced U t')"
  using assms(2,3)
proof (induction txs arbitrary: t)
  case Nil
  then show ?case by (simp add: values_of_def)
next
  case (Cons tx txs)
  let ?h = "tx_address (essence tx)" and ?v = "tx_value (essence tx)"
  have "INT64_MIN \<le> ledger_balance U t ?h + ?v" "ledger_balance U t ?h + ?v \<le> INT64_MAX"
    using Cons.prems(2) [of ?h] moved_nonneg [of txs] by (simp_all del: moved_nonneg)
  then obtain ret t1 where t1: "state_delta_add_or_sum U t ?h ?v = Some (ret, t1)" "ret = RC_OK"
    using add_or_sum_defined [of t ?h ?v] assms(1) by auto
  note b = add_or_sum_correct [OF t1(1)]
  have b1: "ledger_balance U t1 = (ledger_balance U t)(?h := ledger_balance U t ?h + ?v)" "ledger_total U t1 = ledger_total U t + ?v"
      "ledger_reduced U t \<longrightarrow> ledger_reduced U t1" using b t1(2) by auto
  have "\<bar>ledger_balance U t1 a\<bar> + moved txs \<le> INT64_MAX" for a
    using Cons.prems(2) [of a] b1(1) by (cases "a = ?h") auto
  with Cons.IH [of t1] Cons.prems(1) obtain t' where "sum_bundle U txs t1 = Some (RC_OK, t')"
      "ledger_balance U t' = (\<lambda>a. ledger_balance U t1 a + bundle_delta txs a)" "ledger_total U t' = ledger_total U t1 + sum_list (values_of txs)"
      "ledger_reduced U t1 \<longrightarrow> ledger_reduced U t'" by (auto simp: values_loaded_def)
  then show ?case using Cons.prems(1) t1 b1 by (auto simp: values_loaded_def values_of_def fun_eq_iff)
qed

lemma create_patch_defined:
  assumes "\<And>t. HASH_ROOM U t" "\<And>a. INT64_MIN \<le> ledger_balance U s a + ledger_balance U d a \<and> ledger_balance U s a + ledger_balance U d a \<le> INT64_MAX"
  shows "\<exists>p. state_delta_create_patch U s d (HASH_NULL U) = Some (RC_OK, p)"
proof -
  have b: "(case state_delta_find U s k of Some w \<Rightarrow> w | None \<Rightarrow> 0) = ledger_balance U s k" for k
    by (simp add: state_delta_find_def ledger_balance_def split: option.split)
  have "\<exists>p. create_patch_loop U s es q = Some (RC_OK, p)"
    if "\<forall>(h, v) \<in> set es. INT64_MIN \<le> ledger_balance U s h + v \<and> ledger_balance U s h + v \<le> INT64_MAX" for es q
    using that by (induction es arbitrary: q) (auto simp: b add_int64_def state_delta_add_def hash_map_add_def assms(1) split: option.split)
  moreover have "\<forall>(h, v) \<in> set (HASH_ENTRIES U d). INT64_MIN \<le> ledger_balance U s h + v \<and> ledger_balance U s h + v \<le> INT64_MAX"
    using assms(2) by (auto simp: find_some_iff [symmetric]) (force simp: ledger_balance_def split: option.splits)+
  ultimately show ?thesis by (simp add: state_delta_create_patch_def)
qed

end

section \<open>The delta of a milestone\<close>

text \<open>A database whose rows are those of \<open>row\<close>, up to the columns that a validation changes.\<close>

definition rows_agree :: "('db, 's) storage \<Rightarrow> flex_hash set \<Rightarrow> (flex_hash \<Rightarrow> iota_transaction) \<Rightarrow> 'db \<Rightarrow> bool" where
  "rows_agree S W row db \<longleftrightarrow> (\<forall>h \<in> W. \<exists>r. select_by_hash S db h = (RC_OK, [r]) \<and> essence r = essence (row h) \<and> attachment r = attachment (row h)
     \<and> tx_snapshot_index (metadata r) = tx_snapshot_index (metadata (row h)))"

definition references_within :: "flex_hash set \<Rightarrow> flex_hash set \<Rightarrow> (flex_hash \<Rightarrow> iota_transaction) \<Rightarrow> bool" where
  "references_within W seen row \<longleftrightarrow> finite W \<and> (\<forall>h \<in> W - seen. tx_trunk (attachment (row h)) \<in> W \<and> tx_branch (attachment (row h)) \<in> W)"

lemma rows_agree_closed:
  "rows_agree S (W - seen) row db \<Longrightarrow> references_within W seen row \<Longrightarrow>
     closed_tangle S W seen (\<lambda>h. tx_trunk (attachment (row h))) (\<lambda>h. tx_branch (attachment (row h))) db"
  by (fastforce simp: rows_agree_def references_within_def closed_tangle_def)

definition unconfirmed :: "int \<Rightarrow> iota_transaction \<Rightarrow> bool" where
  "unconfirmed latest_index r \<longleftrightarrow> tx_snapshot_index (metadata r) = 0 \<or> tx_snapshot_index (metadata r) > latest_index"

definition past_of :: "(iota_transaction \<Rightarrow> bool) \<Rightarrow> (flex_hash \<Rightarrow> iota_transaction) \<Rightarrow> flex_hash set \<Rightarrow> flex_hash \<Rightarrow> flex_hash set" where
  "past_of Q row seen h = reachable_avoiding (\<lambda>h. if Q (row h) then [tx_trunk (attachment (row h)), tx_branch (attachment (row h))] else []) seen {h}"

text \<open>The transactions that the visit of \<open>h\<close> adds to the delta: its bundle, if it is an unconfirmed tail.\<close>

definition visited_txs :: "int \<Rightarrow> (flex_hash \<Rightarrow> iota_transaction) \<Rightarrow> (flex_hash \<Rightarrow> bundle_transactions) \<Rightarrow> flex_hash \<Rightarrow> bundle_transactions" where
  "visited_txs latest_index row B h = (if unconfirmed latest_index (row h) \<and> tx_current_index (essence (row h)) = 0 then B h else [])"

lemma bundle_delta_concat: "distinct hs \<Longrightarrow> bundle_delta (concat (map f hs)) a = (\<Sum>h \<in> set hs. bundle_delta (f h) a)"
  by (induction hs) auto

lemma moved_concat: "distinct hs \<Longrightarrow> moved (concat (map f hs)) = (\<Sum>h \<in> set hs. moved (f h))"
  by (induction hs) auto

lemma moved_within: "distinct hs \<Longrightarrow> set hs \<subseteq> V \<Longrightarrow> finite V \<Longrightarrow> moved (concat (map f hs)) \<le> (\<Sum>h \<in> V. moved (f h))"
  by (simp add: moved_concat sum_mono2)

text \<open>Tails whose bundles are accepted by the validator, in every database in which \<open>J\<close> holds.\<close>

definition tails_valid ::
  "('db, 's, 'm, 't, 'k) node \<Rightarrow> ('db \<Rightarrow> bool) \<Rightarrow> flex_hash set \<Rightarrow> int \<Rightarrow> (flex_hash \<Rightarrow> iota_transaction) \<Rightarrow> (flex_hash \<Rightarrow> bundle_transactions) \<Rightarrow> bool"
where
  "tails_valid nd J V latest_index row B \<longleftrightarrow>
     (\<forall>h \<in> V. unconfirmed latest_index (row h) \<and> tx_current_index (essence (row h)) = 0 \<longrightarrow> B h \<noteq> [] \<and> values_loaded (B h) \<and>
        (\<forall>db. J db \<longrightarrow> (\<exists>db'. iota_consensus_bundle_validator_validate nd db h bundle_transactions_new
           = Some (RC_OK, db', B h, bundle_status_code BUNDLE_VALID) \<and> J db')))"

definition delta_step :: "('db, 's, 'm, 't, 'k) node \<Rightarrow> int \<Rightarrow> flex_hash \<Rightarrow> ('db, 's) delta_params \<Rightarrow> ('db, 's) delta_params" where
  "delta_step nd latest_index h d =
     fst (snd (the (get_latest_delta_do_func nd latest_index h True (visit_model (nd_enc nd) (row_of (nd_storage nd) (dp_db d) h)) d False False)))"

definition delta_inv ::
  "('db, 's, 'm, 't, 'k) node \<Rightarrow> ('db \<Rightarrow> bool) \<Rightarrow> flex_hash set \<Rightarrow> int \<Rightarrow> (flex_hash \<Rightarrow> iota_transaction) \<Rightarrow> (flex_hash \<Rightarrow> bundle_transactions)
     \<Rightarrow> flex_hash list \<Rightarrow> ('db, 's) delta_params \<Rightarrow> bool"
where
  "delta_inv nd J V latest_index row B vs d \<longleftrightarrow> distinct vs \<and> set vs \<subseteq> V \<and> dp_valid_delta d \<and> J (dp_db d) \<and> ledger_reduced (nd_ledger nd) (dp_delta d)
     \<and> ledger_balance (nd_ledger nd) (dp_delta d) = bundle_delta (concat (map (visited_txs latest_index row B) vs))
     \<and> ledger_total (nd_ledger nd) (dp_delta d) = sum_list (values_of (concat (map (visited_txs latest_index row B) vs)))"

text \<open>One visit adds one bundle.\<close>

lemma delta_visit:
  assumes "ledger_table (nd_ledger nd)" "\<And>t. HASH_ROOM (nd_ledger nd) t" "finite V"
    and "\<And>db. J db \<Longrightarrow> rows_agree (nd_storage nd) V row db" "tails_valid nd J V li row B" "(\<Sum>h \<in> V. moved (visited_txs li row B h)) \<le> INT64_MAX"
    and h: "h \<in> V" "h \<notin> set vs" and I: "delta_inv nd J V li row B vs d" and r: "select_by_hash (nd_storage nd) (dp_db d) h = (RC_OK, [r])"
  shows "get_latest_delta_do_func nd li h True (visit_model (nd_enc nd) r) d b s = Some (RC_OK, delta_step nd li h d, unconfirmed li (row h), False)
    \<and> delta_inv nd J V li row B (vs @ [h]) (delta_step nd li h d)"
proof -
  note Id = I [unfolded delta_inv_def]
  have c: "transaction_snapshot_index (visit_model (nd_enc nd) r) = Some (tx_snapshot_index (metadata (row h)))"
      "transaction_current_index (visit_model (nd_enc nd) r) = Some (tx_current_index (essence (row h)))"
    using assms(4) [of "dp_db d"] Id h(1) r by (fastforce simp: visit_model_accessors rows_agree_def)+
  have row: "row_of (nd_storage nd) (dp_db d) h = r" using r by (simp add: row_of_def)
  show ?thesis
  proof (cases "unconfirmed li (row h) \<and> tx_current_index (essence (row h)) = 0")
    case False
    then show ?thesis using c row h Id
      by (auto simp: get_latest_delta_do_func_def delta_step_def delta_inv_def visited_txs_def unconfirmed_def)
  next
    case True
    let ?t = "concat (map (visited_txs li row B) vs)"
    have v: "visited_txs li row B h = B h" using True by (simp add: visited_txs_def)
    obtain db' where db': "iota_consensus_bundle_validator_validate nd (dp_db d) h bundle_transactions_new
        = Some (RC_OK, db', B h, bundle_status_code BUNDLE_VALID)" "J db'" "B h \<noteq> []" "values_loaded (B h)"
      using assms(5) Id True h(1) unfolding tails_valid_def by blast
    have "moved (concat (map (visited_txs li row B) (vs @ [h]))) \<le> INT64_MAX"
      by (rule order_trans [OF moved_within [of _ V] assms(6)]) (use Id h assms(3) in auto)
    then have "\<bar>ledger_balance (nd_ledger nd) (dp_delta d) a\<bar> + moved (B h) \<le> INT64_MAX" for a
      using bundle_delta_moved [of ?t a] Id v by simp
    from ledger_table.sum_bundle_correct [OF assms(1,2) db'(4) this] obtain t' where t': "sum_bundle (nd_ledger nd) (B h) (dp_delta d) = Some (RC_OK, t')"
        "ledger_balance (nd_ledger nd) t' = (\<lambda>a. ledger_balance (nd_ledger nd) (dp_delta d) a + bundle_delta (B h) a)"
        "ledger_total (nd_ledger nd) t' = ledger_total (nd_ledger nd) (dp_delta d) + sum_list (values_of (B h))"
        "ledger_reduced (nd_ledger nd) (dp_delta d) \<longrightarrow> ledger_reduced (nd_ledger nd) t'" by blast
    have f: "get_latest_delta_do_func nd li h True (visit_model (nd_enc nd) r) d b s = Some (RC_OK, d\<lparr>dp_db := db', dp_delta := t'\<rparr>, True, False)" for b s
      using True c db' t'(1) by (auto simp: get_latest_delta_do_func_def unconfirmed_def bundle_at_def)
    have "delta_inv nd J V li row B (vs @ [h]) (d\<lparr>dp_db := db', dp_delta := t'\<rparr>)"
      using Id h t' v db'(2) by (auto simp: delta_inv_def values_of_def fun_eq_iff)
    with f True row show ?thesis by (simp add: delta_step_def)
  qed
qed

text \<open>What the validator assumes of its tables and of the memory.\<close>

definition node_ok :: "('db, 's, 'm, 't, 'k) node \<Rightarrow> bool" where
  "node_ok nd \<longleftrightarrow> ledger_table (nd_ledger nd) \<and> uthash_laws (nd_set nd) \<and> (\<forall>t. HASH_ROOM (nd_ledger nd) t) \<and> (\<forall>t. HASH_ROOM (nd_set nd) t) \<and> nd_room nd = (\<lambda>_. True)"

definition entry_points :: "('db, 's, 'm, 't, 'k) node \<Rightarrow> ('s, 'm) ledger_validator \<Rightarrow> flex_hash set" where
  "entry_points nd lv = insert (cf_genesis_hash (lv_conf lv)) (set (HASH_KEYS (nd_points nd) (md_solid_entry_points (sn_metadata (initial_snapshot lv)))))"

lemma get_latest_delta_visits:
  assumes "node_ok nd" "sn_lock (initial_snapshot lv)" "seen = entry_points nd lv \<union> set (HASH_KEYS (nd_set nd) A)"
    and "references_within W seen row" "tip \<in> W" "\<And>db. J db \<Longrightarrow> rows_agree (nd_storage nd) (W - seen) row db" "J db"
    and "tails_valid nd J (W - seen) li row B" "(\<Sum>h \<in> W - seen. moved (visited_txs li row B h)) \<le> INT64_MAX"
  shows "\<exists>A' order params. get_latest_delta nd lv db A (HASH_NULL (nd_ledger nd)) tip li = Some (RC_OK, A', params)
    \<and> set (HASH_KEYS (nd_set nd) A') = seen \<union> set order \<and> set order = past_of (unconfirmed li) row seen tip
    \<and> delta_inv nd J (W - seen) li row B order params"
proof -
  have n: "ledger_table (nd_ledger nd)" "uthash_laws (nd_set nd)" "\<And>t. HASH_ROOM (nd_ledger nd) t" "\<And>t. HASH_ROOM (nd_set nd) t" "nd_room nd = (\<lambda>_. True)"
    using assms(1) by (simp_all add: node_ok_def)
  let ?A = "hash_map_keys (nd_points nd) (nd_set nd) (md_solid_entry_points (sn_metadata (initial_snapshot lv))) A"
  let ?d = "\<lparr>dp_valid_delta = True, dp_delta = HASH_NULL (nd_ledger nd), dp_db = db\<rparr>"
  have seen: "seen = insert (cf_genesis_hash (lv_conf lv)) (set (HASH_KEYS (nd_set nd) ?A))"
    using assms(3) by (auto simp: entry_points_def hash_map_keys_keys [OF n(2,4)])
  have fin: "finite (W - seen)" using assms(4) by (simp add: references_within_def)
  have start: "delta_inv nd J (W - seen) li row B [] ?d"
    using assms(7) ledger_table.balance_null [OF n(1)] by (simp add: delta_inv_def values_of_def)
  have "\<exists>A' order. tangle_traversal_dfs_to_past (nd_enc nd) (nd_storage nd) (nd_set nd) (\<lambda>_. True) (nd_tx nd) dp_db (get_latest_delta_do_func nd li)
        tip (cf_genesis_hash (lv_conf lv)) (Some ?A) ?d = Some (RC_OK, Some A', fold (delta_step nd li) order ?d)
    \<and> distinct order \<and> delta_inv nd J (W - seen) li row B order (fold (delta_step nd li) order ?d) \<and> set (HASH_KEYS (nd_set nd) A') = seen \<union> set order
    \<and> set order \<subseteq> W - seen \<and> set order = reachable_avoiding (\<lambda>h. if unconfirmed li (row h) then [tx_trunk (attachment (row h)), tx_branch (attachment (row h))] else []) seen {tip}"
  proof (rule dfs_to_past_visits [where I = "delta_inv nd J (W - seen) li row B", OF n(2,4) seen _ start assms(5)], goal_cases)
    case (1 vs d)
    with assms(6) [of "dp_db d"] rows_agree_closed [OF _ assms(4)] show ?case by (simp add: delta_inv_def)
  next
    case (2 h vs d b r)
    then show ?case by (intro delta_visit [OF n(1,3) fin assms(6,8,9)])
  qed
  then obtain A' order where o: "tangle_traversal_dfs_to_past (nd_enc nd) (nd_storage nd) (nd_set nd) (\<lambda>_. True) (nd_tx nd) dp_db (get_latest_delta_do_func nd li)
        tip (cf_genesis_hash (lv_conf lv)) (Some ?A) ?d = Some (RC_OK, Some A', fold (delta_step nd li) order ?d)"
      "delta_inv nd J (W - seen) li row B order (fold (delta_step nd li) order ?d)" "set (HASH_KEYS (nd_set nd) A') = seen \<union> set order"
      "set order = past_of (unconfirmed li) row seen tip" unfolding past_of_def by blast
  have "get_latest_delta nd lv db A (HASH_NULL (nd_ledger nd)) tip li = Some (RC_OK, A', fold (delta_step nd li) order ?d)"
    using o(1) by (simp add: get_latest_delta_def iota_snapshot_solid_entry_points_set_def assms(2) n(5))
  with o(2-4) show ?thesis by blast
qed

section \<open>Marking the transactions\<close>

definition mark_step :: "('t, flex_hash, unit) uthash \<Rightarrow> (flex_hash \<Rightarrow> iota_transaction) \<Rightarrow> flex_hash \<Rightarrow> 't \<Rightarrow> 't" where
  "mark_step H row h hashes = (if tx_snapshot_index (metadata (row h)) = 0 then snd (hash_set_add H hashes h) else hashes)"

lemma mark_visit:
  assumes "uthash_laws H" "\<And>t. HASH_ROOM H t" "tx_snapshot_index (metadata r) = tx_snapshot_index (metadata (row h))"
  shows "update_snapshot_milestone_do_func H h True (visit_model e r) hashes b False = Some (RC_OK, mark_step H row h hashes, tx_snapshot_index (metadata (row h)) = 0, False)"
  using assms(3) hash_set_add_room(1) [OF assms(1,2), of hashes h]
  by (auto simp: update_snapshot_milestone_do_func_def mark_step_def visit_model_accessors split: prod.splits)

text \<open>Over a list as hash table the visitor satisfies the laws for all hashes that have one row.\<close>

interpretation marking: tangle_visit "alist_uthash (\<lambda>_. True)" "visitor_load e S (\<lambda>_. db)" "update_snapshot_milestone_do_func (alist_uthash (\<lambda>_. True))"
    "{h. \<exists>row. select_by_hash S db h = (RC_OK, [row])}" "\<lambda>d h. visit_model e (row_of S db h)" "mark_step (alist_uthash (\<lambda>_. True)) (row_of S db)"
    "\<lambda>h. tx_snapshot_index (metadata (row_of S db h)) = 0" "\<lambda>vs d. True" for e S db
proof (rule tangle_visit_rows)
  show room: "HASH_ROOM (alist_uthash (\<lambda>_. True)) t" for t :: "(flex_hash, unit) alist" by (simp add: alist_uthash_def)
  show "update_snapshot_milestone_do_func (alist_uthash (\<lambda>_. True)) h True (visit_model e row) d b False
      = Some (RC_OK, mark_step (alist_uthash (\<lambda>_. True)) (row_of S db) h d, tx_snapshot_index (metadata (row_of S db h)) = 0, False) \<and> True"
    if "select_by_hash S db h = (RC_OK, [row])" for h d b row
    using that mark_visit [OF alist_table.uthash_laws_axioms room, of row "row_of S db" h] by (simp add: row_of_def)
qed (auto simp: alist_table.uthash_laws_axioms)

lemma mark_milestone:
  assumes "node_ok nd" "sn_lock (initial_snapshot lv)" "seen = entry_points nd lv" "references_within W seen row" "hash \<in> W"
    and "rows_agree (nd_storage nd) (W - seen) row db"
  shows "\<exists>hs. update_snapshot_milestone nd lv db hash index = Some (update_snapshot_index (nd_storage nd) db hs index)
    \<and> set hs = {h \<in> past_of (\<lambda>r. tx_snapshot_index (metadata r) = 0) row seen hash. tx_snapshot_index (metadata (row h)) = 0}"
proof -
  have n: "uthash_laws (nd_set nd)" "\<And>t. HASH_ROOM (nd_set nd) t" "nd_room nd = (\<lambda>_. True)" using assms(1) by (simp_all add: node_ok_def)
  let ?H = "nd_set nd" and ?zero = "\<lambda>h. tx_snapshot_index (metadata (row h)) = 0"
  let ?A = "hash_map_keys (nd_points nd) ?H (md_solid_entry_points (sn_metadata (initial_snapshot lv))) (HASH_NULL ?H)"
  let ?I = "\<lambda>vs d. set (HASH_KEYS ?H d) = {h \<in> set vs. ?zero h}"
  have null: "set (HASH_KEYS ?H (HASH_NULL ?H)) = {}" using uthash_laws.null_entries [OF n(1)] by (simp add: HASH_KEYS_def)
  have seen: "seen = insert (cf_genesis_hash (lv_conf lv)) (set (HASH_KEYS ?H ?A))"
    using assms(3) null by (auto simp: entry_points_def hash_map_keys_keys [OF n(1,2)])
  have "\<exists>A' order. tangle_traversal_dfs_to_past (nd_enc nd) (nd_storage nd) ?H (\<lambda>_. True) (nd_tx nd) (\<lambda>_. db) (update_snapshot_milestone_do_func ?H)
        hash (cf_genesis_hash (lv_conf lv)) (Some ?A) (HASH_NULL ?H) = Some (RC_OK, Some A', fold (mark_step ?H row) order (HASH_NULL ?H))
    \<and> distinct order \<and> ?I order (fold (mark_step ?H row) order (HASH_NULL ?H)) \<and> set (HASH_KEYS ?H A') = seen \<union> set order \<and> set order \<subseteq> W - seen
    \<and> set order = reachable_avoiding (\<lambda>h. if ?zero h then [tx_trunk (attachment (row h)), tx_branch (attachment (row h))] else []) seen {hash}"
  proof (rule dfs_to_past_visits [where I = ?I, OF n(1,2) seen _ _ assms(5)], goal_cases)
    case (1 vs d)
    with rows_agree_closed [OF assms(6,4)] show ?case by simp
  next
    case 2
    then show ?case by (simp add: null)
  next
    case (3 h vs d b r)
    have "\<exists>r. select_by_hash (nd_storage nd) db h = (RC_OK, [r]) \<and> tx_snapshot_index (metadata r) = tx_snapshot_index (metadata (row h))"
      using assms(6) 3(1) unfolding rows_agree_def by blast
    with 3(4) have "tx_snapshot_index (metadata r) = tx_snapshot_index (metadata (row h))" by auto
    from mark_visit [where row = row and h = h, OF n(1,2) this] 3(3) show ?case by (auto simp: mark_step_def hash_set_add_room(2) [OF n(1,2)])
  qed
  then obtain A' order where "tangle_traversal_dfs_to_past (nd_enc nd) (nd_storage nd) ?H (\<lambda>_. True) (nd_tx nd) (\<lambda>_. db) (update_snapshot_milestone_do_func ?H)
        hash (cf_genesis_hash (lv_conf lv)) (Some ?A) (HASH_NULL ?H) = Some (RC_OK, Some A', fold (mark_step ?H row) order (HASH_NULL ?H))"
      and o: "?I order (fold (mark_step ?H row) order (HASH_NULL ?H))" "set order = past_of (\<lambda>r. tx_snapshot_index (metadata r) = 0) row seen hash"
    unfolding past_of_def by blast
  then have "update_snapshot_milestone nd lv db hash index
      = Some (update_snapshot_index (nd_storage nd) db (HASH_KEYS ?H (fold (mark_step ?H row) order (HASH_NULL ?H))) index)"
    by (simp add: update_snapshot_milestone_def iota_snapshot_solid_entry_points_set_def assms(2) n(3))
  with o show ?thesis by (intro exI [of _ "HASH_KEYS ?H (fold (mark_step ?H row) order (HASH_NULL ?H))"]) auto
qed

section \<open>The patch of a milestone\<close>

context ledger_table
begin

lemma sum_loop_defined: "\<bar>acc\<bar> + sum_list (map (\<lambda>e. \<bar>snd e\<bar>) es) \<le> INT64_MAX \<Longrightarrow> \<exists>r. sum_loop es acc = Some r"
proof (induction es arbitrary: acc)
  case (Cons e es)
  have n: "0 \<le> sum_list (map (\<lambda>e. \<bar>snd e\<bar>) es)" by (intro sum_list_nonneg) auto
  then have "add_int64 acc (snd e) = Some (acc + snd e)" using Cons.prems by (auto simp: add_int64_def)
  moreover have "\<bar>acc + snd e\<bar> + sum_list (map (\<lambda>e. \<bar>snd e\<bar>) es) \<le> INT64_MAX" using Cons.prems by simp
  ultimately show ?case using Cons.IH by simp
qed simp

lemma sum_entries: "sum_list (map (\<lambda>e. \<bar>snd e\<bar>) (HASH_ENTRIES U t)) = (\<Sum>a \<in> set (HASH_KEYS U t). \<bar>ledger_balance U t a\<bar>)"
proof -
  have "snd e = ledger_balance U t (fst e)" if "e \<in> set (HASH_ENTRIES U t)" for e
    using that find_some_iff [of t "fst e" "snd e"] by (simp add: ledger_balance_def)
  then have "map (\<lambda>e. \<bar>snd e\<bar>) (HASH_ENTRIES U t) = map (\<lambda>a. \<bar>ledger_balance U t a\<bar>) (HASH_KEYS U t)" by (simp add: HASH_KEYS_def)
  moreover have "distinct (HASH_KEYS U t)" using keys_distinct [of t] by (simp add: HASH_KEYS_def)
  ultimately show ?thesis by (simp only: sum_list_distinct_conv_sum_set)
qed

lemma balance_le_total:
  assumes "ledger_ok U s"
  shows "ledger_balance U s a \<le> IOTA_SUPPLY"
proof (cases "HASH_FIND U s a")
  case None
  then show ?thesis by (simp add: ledger_balance_def IOTA_SUPPLY_def)
next
  case (Some v)
  then have "v \<in> set (map snd (HASH_ENTRIES U s))" by (force simp: find_some_iff)
  then have "v \<le> sum_list (map snd (HASH_ENTRIES U s))"
    using assms by (intro member_le_sum_list) (auto simp: ledger_ok_def list_all_iff)
  with Some assms show ?thesis by (simp add: ledger_balance_def ledger_ok_def ledger_total_def)
qed

text \<open>A delta of bundles that add up to zero: the check decides, and an accepted patch is applied.\<close>

lemma patch_of_bundles:
  assumes "\<And>t. HASH_ROOM U t" "snapshot_ok U snap" "ledger_balance U d = bundle_delta txs" "ledger_total U d = 0" "moved txs \<le> INT64_MAX - IOTA_SUPPLY"
  shows "\<exists>p. iota_snapshot_create_patch U (Some snap) d q = Some (RC_OK, p)
    \<and> (fst (state_delta_is_consistent U p) \<longleftrightarrow> (\<forall>a. 0 \<le> ledger_balance U (sn_state snap) a + bundle_delta txs a))
    \<and> (fst (state_delta_is_consistent U p) \<longrightarrow> (\<exists>snap'. iota_snapshot_apply_patch U (Some snap) d index = Some (RC_OK, Some snap')
         \<and> md_index (sn_metadata snap') = index \<and> ledger_balance U (sn_state snap') = (\<lambda>a. ledger_balance U (sn_state snap) a + bundle_delta txs a)))"
proof -
  have ok: "sn_lock snap" "ledger_ok U (sn_state snap)" using assms(2) by (simp_all add: snapshot_ok_def)
  have pos: "0 \<le> ledger_balance U (sn_state snap) a" for a using ok(2) nonneg_balances by (simp add: ledger_ok_def)
  have "INT64_MIN \<le> ledger_balance U (sn_state snap) a + ledger_balance U d a \<and> ledger_balance U (sn_state snap) a + ledger_balance U d a \<le> INT64_MAX" for a
    using bundle_delta_moved [of txs a] assms(3,5) pos [of a] balance_le_total [OF ok(2), of a] by (auto simp: IOTA_SUPPLY_def)
  from create_patch_defined [OF assms(1) this] obtain p where p: "state_delta_create_patch U (sn_state snap) d (HASH_NULL U) = Some (RC_OK, p)" by blast
  then have cp: "iota_snapshot_create_patch U (Some snap) d q = Some (RC_OK, p)" using ok(1) by (simp add: iota_snapshot_create_patch_def)
  have "ledger_balance U d a = 0" if "a \<notin> set (HASH_KEYS U d)" for a using that by (simp add: ledger_balance_def find_none_iff [THEN iffD2])
  then have con: "fst (state_delta_is_consistent U p) \<longleftrightarrow> (\<forall>a. 0 \<le> ledger_balance U (sn_state snap) a + bundle_delta txs a)"
    using patch_consistent(1) [OF p] pos assms(3) by (metis add.right_neutral)
  have "\<exists>r. state_delta_sum U d = Some r" unfolding state_delta_sum_def
    by (rule sum_loop_defined) (use bundle_delta_moved_sum [of "set (HASH_KEYS U d)" txs] assms(3,5) in \<open>simp add: sum_entries IOTA_SUPPLY_def\<close>)
  then have sum: "state_delta_sum U d = Some 0" using sum_loop_correct [of "HASH_ENTRIES U d" 0] assms(4) by (auto simp: state_delta_sum_def ledger_total_def)
  have "\<exists>snap'. iota_snapshot_apply_patch U (Some snap) d index = Some (RC_OK, Some snap') \<and> md_index (sn_metadata snap') = index
      \<and> ledger_balance U (sn_state snap') = (\<lambda>a. ledger_balance U (sn_state snap) a + bundle_delta txs a)" if "fst (state_delta_is_consistent U p)"
    using apply_keeps_ledger [OF ok(2) assms(1) p that assms(4)] sum ok(1) assms(3)
    by (auto simp: iota_snapshot_apply_patch_def iota_snapshot_apply_patch_no_lock_def)
  with cp con show ?thesis by blast
qed

end

lemma metadata_model:
  "transaction_solid (load_model e MODEL_TRANSACTION_METADATA r) = Some (tx_solid (metadata r))"
  "transaction_snapshot_index (load_model e MODEL_TRANSACTION_METADATA r) = Some (tx_snapshot_index (metadata r))"
  "transaction_validity (load_model e MODEL_TRANSACTION_METADATA r) = Some (tx_validity (metadata r))"
  by (simp_all add: load_model_def Let_def select_transactions_populate_metadata_def load_defs transaction_getter_defs column_loaded_def transaction_reset_def mask_defs)

lemma loaded_values:
  "transaction_address (load_model e MODEL_TRANSACTION r) = Some (tx_address (essence r))"
  "transaction_value (load_model e MODEL_TRANSACTION r) = Some (tx_value (essence r))"
  by (simp_all add: load_model_def Let_def select_transactions_populate_data_def select_transactions_populate_consensus_def select_transactions_populate_attachment_def
      select_transactions_populate_essence_def load_defs transaction_getter_defs column_loaded_def transaction_reset_def mask_defs)

text \<open>What the milestone adds to the balance of an address.\<close>

definition milestone_delta ::
  "int \<Rightarrow> (flex_hash \<Rightarrow> iota_transaction) \<Rightarrow> (flex_hash \<Rightarrow> bundle_transactions) \<Rightarrow> flex_hash set \<Rightarrow> flex_hash \<Rightarrow> flex_hash \<Rightarrow> int"
where
  "milestone_delta li row B seen tip a = (\<Sum>h \<in> past_of (unconfirmed li) row seen tip. bundle_delta (visited_txs li row B h) a)"

lemma delta_inv_result:
  assumes "delta_inv nd J V li row B order params" "set order = past_of (unconfirmed li) row seen tip" "finite V"
    and "\<And>h. h \<in> V \<Longrightarrow> sum_list (values_of (visited_txs li row B h)) = 0"
  shows "dp_valid_delta params" "J (dp_db params)" "ledger_total (nd_ledger nd) (dp_delta params) = 0"
    "ledger_balance (nd_ledger nd) (dp_delta params) = bundle_delta (concat (map (visited_txs li row B) order))"
    "bundle_delta (concat (map (visited_txs li row B) order)) = milestone_delta li row B seen tip"
    "moved (concat (map (visited_txs li row B) order)) \<le> (\<Sum>h \<in> V. moved (visited_txs li row B h))"
proof -
  note I = assms(1) [unfolded delta_inv_def]
  show "dp_valid_delta params" "J (dp_db params)"
    "ledger_balance (nd_ledger nd) (dp_delta params) = bundle_delta (concat (map (visited_txs li row B) order))" using I by auto
  have "sum_list (values_of (concat (map (visited_txs li row B) hs))) = 0" if "set hs \<subseteq> V" for hs
    using that assms(4) by (induction hs) (auto simp: values_of_def)
  then show "ledger_total (nd_ledger nd) (dp_delta params) = 0" using I by simp
  show "bundle_delta (concat (map (visited_txs li row B) order)) = milestone_delta li row B seen tip"
    using I assms(2) by (simp add: fun_eq_iff milestone_delta_def bundle_delta_concat)
  show "moved (concat (map (visited_txs li row B) order)) \<le> (\<Sum>h \<in> V. moved (visited_txs li row B h))"
    using I assms(3) by (simp add: moved_within)
qed

text \<open>The calls of \<open>iota_consensus_ledger_validator_update_snapshot\<close>: the delta, the patch, the marks.\<close>

lemma milestone_calls:
  assumes "node_ok nd" "sn_lock (initial_snapshot lv)" "snapshot_ok (nd_ledger nd) (latest_snapshot lv)" "seen = entry_points nd lv"
    and "references_within W seen row" "ms_hash m \<in> W"
    and "\<And>db. J db \<Longrightarrow> rows_agree (nd_storage nd) (W - seen) row db" "J db" "tails_valid nd J (W - seen) li row B"
    and "\<And>h. h \<in> W - seen \<Longrightarrow> sum_list (values_of (visited_txs li row B h)) = 0"
    and "(\<Sum>h \<in> W - seen. moved (visited_txs li row B h)) \<le> INT64_MAX - IOTA_SUPPLY"
  obtains A' params p hs where
    "get_latest_delta nd lv db (HASH_NULL (nd_set nd)) (HASH_NULL (nd_ledger nd)) (ms_hash m) li = Some (RC_OK, A', params)" "dp_valid_delta params" "J (dp_db params)"
    "ledger_balance (nd_ledger nd) (dp_delta params) = milestone_delta li row B seen (ms_hash m)"
    "iota_snapshot_create_patch (nd_ledger nd) (Some (latest_snapshot lv)) (dp_delta params) (HASH_NULL (nd_ledger nd)) = Some (RC_OK, p)"
    "fst (state_delta_is_consistent (nd_ledger nd) p)
       \<longleftrightarrow> (\<forall>a. 0 \<le> ledger_balance (nd_ledger nd) (sn_state (latest_snapshot lv)) a + milestone_delta li row B seen (ms_hash m) a)"
    "fst (state_delta_is_consistent (nd_ledger nd) p) \<longrightarrow>
       (\<exists>snap'. iota_snapshot_apply_patch (nd_ledger nd) (Some (latest_snapshot lv)) (dp_delta params) (ms_index m) = Some (RC_OK, Some snap')
          \<and> md_index (sn_metadata snap') = ms_index m \<and> ledger_balance (nd_ledger nd) (sn_state snap')
             = (\<lambda>a. ledger_balance (nd_ledger nd) (sn_state (latest_snapshot lv)) a + milestone_delta li row B seen (ms_hash m) a))"
    "update_snapshot_milestone nd lv (dp_db params) (ms_hash m) (ms_index m) = Some (update_snapshot_index (nd_storage nd) (dp_db params) hs (ms_index m))"
    "set hs = {h \<in> past_of (\<lambda>r. tx_snapshot_index (metadata r) = 0) row seen (ms_hash m). tx_snapshot_index (metadata (row h)) = 0}"
proof -
  let ?U = "nd_ledger nd" and ?snap = "latest_snapshot lv" and ?D = "milestone_delta li row B seen (ms_hash m)"
  have n: "ledger_table ?U" "\<And>t. HASH_ROOM ?U t" "uthash_laws (nd_set nd)" using assms(1) by (simp_all add: node_ok_def)
  have seen: "seen = entry_points nd lv \<union> set (HASH_KEYS (nd_set nd) (HASH_NULL (nd_set nd)))"
    using assms(4) uthash_laws.null_entries [OF n(3)] by (simp add: HASH_KEYS_def)
  have fin: "finite (W - seen)" using assms(5) by (simp add: references_within_def)
  have bound: "(\<Sum>h \<in> W - seen. moved (visited_txs li row B h)) \<le> INT64_MAX" using assms(11) by (simp add: IOTA_SUPPLY_def)
  obtain A' order params where g: "get_latest_delta nd lv db (HASH_NULL (nd_set nd)) (HASH_NULL ?U) (ms_hash m) li = Some (RC_OK, A', params)"
      and o: "set order = past_of (unconfirmed li) row seen (ms_hash m)" and I: "delta_inv nd J (W - seen) li row B order params"
    using get_latest_delta_visits [OF assms(1,2) seen assms(5,6,7,8,9) bound] by blast
  note d = delta_inv_result [OF I o fin assms(10)]
  have bal: "ledger_balance ?U (dp_delta params) = bundle_delta (concat (map (visited_txs li row B) order))"
      "bundle_delta (concat (map (visited_txs li row B) order)) = ?D" by (rule d(4), simp, rule d(5), simp)
  have tot: "ledger_total ?U (dp_delta params) = 0" by (rule d(3)) simp
  have valid: "dp_valid_delta params" "J (dp_db params)" by (rule d(1), simp, rule d(2), simp)
  have mv: "moved (concat (map (visited_txs li row B) order)) \<le> INT64_MAX - IOTA_SUPPLY" by (rule order_trans [OF d(6) assms(11)]) simp
  have D: "ledger_balance ?U (dp_delta params) = ?D" using bal by simp
  from ledger_table.patch_of_bundles [OF n(1,2) assms(3) bal(1) tot mv, of "HASH_NULL ?U" "ms_index m", unfolded bal(2)]
    mark_milestone [OF assms(1,2,4,5,6) assms(7) [OF valid(2)], of "ms_index m"] g valid D that
  show thesis by blast
qed

section \<open>Properties\<close>

text \<open>
  C3. A solid milestone that is not confirmed yet changes the ledger by the bundles in its unconfirmed past. If the bundles are accepted by the validator, add up
  to zero and leave no balance negative, every balance changes by the sum of their values for its address, the snapshot gets the index of the milestone, the
  unconfirmed transactions of the past are marked with it and the delta is stored. If a balance would become negative, the snapshot stays as it is.
\<close>

theorem milestone_changes_ledger:
  assumes "node_ok nd" "sn_lock (initial_snapshot lv)" "snapshot_ok (nd_ledger nd) (latest_snapshot lv)" "seen = entry_points nd lv"
    and "li = md_index (sn_metadata (latest_snapshot lv))" "references_within W seen row" "ms_hash m \<in> W"
    and "\<And>db. J db \<Longrightarrow> rows_agree (nd_storage nd) (W - seen) row db" "J db" "tails_valid nd J (W - seen) li row B"
    and "\<And>h. h \<in> W - seen \<Longrightarrow> sum_list (values_of (visited_txs li row B h)) = 0"
    and "(\<Sum>h \<in> W - seen. moved (visited_txs li row B h)) \<le> INT64_MAX - IOTA_SUPPLY"
    and "select_by_hash (nd_storage nd) db (ms_hash m) = (RC_OK, [r])" "tx_solid (metadata r)" "tx_snapshot_index (metadata r) = 0"
    and "\<And>db hs. fst (update_snapshot_index (nd_storage nd) db hs (ms_index m)) = RC_OK" "\<And>db d. fst (store_delta (nd_storage nd) db (ms_index m) d) = RC_OK"
  shows "if \<forall>a. 0 \<le> ledger_balance (nd_ledger nd) (sn_state (latest_snapshot lv)) a + milestone_delta li row B seen (ms_hash m) a
    then \<exists>snap' db1 hs db2 delta. J db1
      \<and> set hs = {h \<in> past_of (\<lambda>r. tx_snapshot_index (metadata r) = 0) row seen (ms_hash m). tx_snapshot_index (metadata (row h)) = 0}
      \<and> update_snapshot_index (nd_storage nd) db1 hs (ms_index m) = (RC_OK, db2)
      \<and> ledger_balance (nd_ledger nd) delta = milestone_delta li row B seen (ms_hash m)
      \<and> iota_consensus_ledger_validator_update_snapshot nd lv db m
        = Some (RC_OK, True, lv\<lparr>lv_milestone_tracker := set_latest_snapshot snap' (lv_milestone_tracker lv)\<rparr>,
            if state_delta_empty (nd_ledger nd) delta then db2 else snd (store_delta (nd_storage nd) db2 (ms_index m) delta))
      \<and> md_index (sn_metadata snap') = ms_index m
      \<and> ledger_balance (nd_ledger nd) (sn_state snap')
        = (\<lambda>a. ledger_balance (nd_ledger nd) (sn_state (latest_snapshot lv)) a + milestone_delta li row B seen (ms_hash m) a)
    else \<exists>db1. J db1 \<and> iota_consensus_ledger_validator_update_snapshot nd lv db m = Some (RC_OK, False, lv, db1)"
proof -
  let ?U = "nd_ledger nd" and ?S = "nd_storage nd" and ?snap = "latest_snapshot lv" and ?D = "milestone_delta li row B seen (ms_hash m)"
  obtain A' params p hs where g: "get_latest_delta nd lv db (HASH_NULL (nd_set nd)) (HASH_NULL ?U) (ms_hash m) li = Some (RC_OK, A', params)"
      and valid: "dp_valid_delta params" "J (dp_db params)" and D: "ledger_balance ?U (dp_delta params) = ?D"
      and p: "iota_snapshot_create_patch ?U (Some ?snap) (dp_delta params) (HASH_NULL ?U) = Some (RC_OK, p)"
        "fst (state_delta_is_consistent ?U p) \<longleftrightarrow> (\<forall>a. 0 \<le> ledger_balance ?U (sn_state ?snap) a + ?D a)"
        "fst (state_delta_is_consistent ?U p) \<longrightarrow> (\<exists>snap'. iota_snapshot_apply_patch ?U (Some ?snap) (dp_delta params) (ms_index m) = Some (RC_OK, Some snap')
           \<and> md_index (sn_metadata snap') = ms_index m \<and> ledger_balance ?U (sn_state snap') = (\<lambda>a. ledger_balance ?U (sn_state ?snap) a + ?D a))"
      and hs: "update_snapshot_milestone nd lv (dp_db params) (ms_hash m) (ms_index m) = Some (update_snapshot_index ?S (dp_db params) hs (ms_index m))"
        "set hs = {h \<in> past_of (\<lambda>r. tx_snapshot_index (metadata r) = 0) row seen (ms_hash m). tx_snapshot_index (metadata (row h)) = 0}"
    by (rule milestone_calls [OF assms(1-4,6-12)])
  obtain db2 where db2: "update_snapshot_index ?S (dp_db params) hs (ms_index m) = (RC_OK, db2)" using assms(16) by (metis prod.collapse)
  have load: "iota_tangle_transaction_load_partial (nd_enc nd) ?S db (ms_hash m) PARTIAL_TX_MODEL_METADATA = (RC_OK, Some (load_model (nd_enc nd) MODEL_TRANSACTION_METADATA r))"
    using assms(13) by (simp add: iota_tangle_transaction_load_partial_def storage_load_def load_single_def)
  have li: "iota_snapshot_get_index ?snap = Some li" using assms(3,5) by (simp add: iota_snapshot_get_index_def snapshot_ok_def)
  note run = iota_consensus_ledger_validator_update_snapshot_def Let_def load metadata_model assms(14,15) li g valid p(1)
  show ?thesis
  proof (cases "\<forall>a. 0 \<le> ledger_balance ?U (sn_state ?snap) a + ?D a")
    case True
    then obtain snap' where s: "iota_snapshot_apply_patch ?U (Some ?snap) (dp_delta params) (ms_index m) = Some (RC_OK, Some snap')"
        "md_index (sn_metadata snap') = ms_index m" "ledger_balance ?U (sn_state snap') = (\<lambda>a. ledger_balance ?U (sn_state ?snap) a + ?D a)"
      using p(2,3) by blast
    obtain db3 where db3: "store_delta ?S db2 (ms_index m) (dp_delta params) = (RC_OK, db3)" using assms(17) by (metis prod.collapse)
    have "iota_consensus_ledger_validator_update_snapshot nd lv db m
        = Some (RC_OK, True, lv\<lparr>lv_milestone_tracker := set_latest_snapshot snap' (lv_milestone_tracker lv)\<rparr>,
            if state_delta_empty ?U (dp_delta params) then db2 else snd (store_delta ?S db2 (ms_index m) (dp_delta params)))"
      using True p(2) hs(1) db2 db3 s(1) by (simp add: run)
    with s(2,3) hs(2) db2 valid(2) D show ?thesis unfolding if_P [OF True] by blast
  next
    case False
    then have "iota_consensus_ledger_validator_update_snapshot nd lv db m = Some (RC_OK, False, lv, dp_db params)" using p(2) by (simp add: run)
    with False valid(2) show ?thesis by auto
  qed
qed

text \<open>
  For the witnesses: bundles of two transactions that move \<open>n\<close> tokens from \<open>src\<close> to \<open>dst\<close>, over rows that are marked valid and solid, and a node over a list of rows.
\<close>

definition transfer_row :: "int \<Rightarrow> flex_hash \<Rightarrow> flex_hash \<Rightarrow> int \<Rightarrow> iota_transaction" where
  "transfer_row i trunk address value = (transaction_reset ENC1)\<lparr>
     essence := (essence (transaction_reset ENC1))\<lparr>tx_address := address, tx_value := value, tx_current_index := i, tx_last_index := 1\<rparr>,
     attachment := (attachment (transaction_reset ENC1))\<lparr>tx_trunk := trunk, tx_branch := trunk\<rparr>,
     metadata := \<lparr>tx_snapshot_index = 0, tx_solid = True, tx_validity = 1, tx_arrival_timestamp = 0\<rparr>\<rparr>"

lemma transfer_row_fields [simp]:
  "tx_address (essence (transfer_row i trunk address value)) = address" "tx_value (essence (transfer_row i trunk address value)) = value"
  "tx_current_index (essence (transfer_row i trunk address value)) = i" "tx_last_index (essence (transfer_row i trunk address value)) = 1"
  "tx_trunk (attachment (transfer_row i trunk address value)) = trunk" "tx_branch (attachment (transfer_row i trunk address value)) = trunk"
  "metadata (transfer_row i trunk address value) = \<lparr>tx_snapshot_index = 0, tx_solid = True, tx_validity = 1, tx_arrival_timestamp = 0\<rparr>"
  by (simp_all add: transfer_row_def)

definition transfer_rows :: "flex_hash \<Rightarrow> flex_hash \<Rightarrow> flex_hash \<Rightarrow> flex_hash \<Rightarrow> int \<Rightarrow> (flex_hash \<times> iota_transaction) list" where
  "transfer_rows h1 h2 src dst n = [(h1, transfer_row 0 h2 dst n), (h2, transfer_row 1 null_address src (- n))]"

definition transfer_map :: "flex_hash \<Rightarrow> flex_hash \<Rightarrow> flex_hash \<Rightarrow> flex_hash \<Rightarrow> int \<Rightarrow> flex_hash \<Rightarrow> iota_transaction" where
  "transfer_map h1 h2 src dst n h = (if h = h1 then transfer_row 0 h2 dst n else transfer_row 1 null_address src (- n))"

definition transfer_txs :: "flex_hash \<Rightarrow> flex_hash \<Rightarrow> flex_hash \<Rightarrow> int \<Rightarrow> bundle_transactions" where
  "transfer_txs h2 src dst n = [load_model ENC1 MODEL_TRANSACTION (transfer_row 0 h2 dst n), load_model ENC1 MODEL_TRANSACTION (transfer_row 1 null_address src (- n))]"

definition sample_node ::
  "((flex_hash \<times> iota_transaction) list, (flex_hash, int) alist, (flex_hash, int) alist, (flex_hash, unit) alist, nat) node"
where
  "sample_node = \<lparr>nd_keccak = null_keccak, nd_stack = \<lambda>_. 0, nd_enc = ENC1, nd_storage = list_storage DAList.empty, nd_ledger = table_ops, nd_points = table_ops,
     nd_set = alist_uthash (\<lambda>_. True), nd_room = \<lambda>_. True, nd_tx = transaction_reset ENC1\<rparr>"

definition sample_tracker :: "((flex_hash, int) alist, (flex_hash, int) alist) milestone_tracker" where
  "sample_tracker = \<lparr>mt_snapshots_provider = \<lparr>pr_initial_snapshot = example_snapshot, pr_latest_snapshot = example_snapshot\<rparr>,
     mt_latest_solid_milestone_index = 5, mt_latest_solid_milestone = null_address\<rparr>"

definition sample_validator :: "((flex_hash, int) alist, (flex_hash, int) alist) ledger_validator" where
  "sample_validator = \<lparr>lv_conf = example_conf, lv_milestone_tracker = sample_tracker\<rparr>"

lemma sample_node_fields [simp]:
  "nd_storage sample_node = list_storage DAList.empty" "nd_ledger sample_node = table_ops" "nd_enc sample_node = ENC1" "nd_set sample_node = alist_uthash (\<lambda>_. True)"
  by (simp_all add: sample_node_def)

lemma sample_node_ok: "node_ok sample_node"
  by (simp add: node_ok_def sample_node_def alist_ledger.ledger_table_axioms alist_table.uthash_laws_axioms) (simp add: alist_uthash_def)

lemma sample_validator_fields [simp]:
  "latest_snapshot sample_validator = example_snapshot" "initial_snapshot sample_validator = example_snapshot" "md_index (sn_metadata example_snapshot) = 5"
  "snapshot_ok table_ops example_snapshot"
  by (simp_all add: sample_validator_def sample_tracker_def snapshot_ok_def) (simp add: example_snapshot_def)

lemma sample_entry_points: "entry_points sample_node sample_validator = {null_address}"
  by (simp add: entry_points_def sample_node_def sample_validator_def sample_tracker_def example_conf_def example_snapshot_def HASH_KEYS_def alist_uthash_def)

lemma null_address_other: "null_address \<noteq> [x]"
  by (rule notI, drule arg_cong [of _ _ length], simp add: null_address_length)

text \<open>A database that holds the rows of a transfer.\<close>

definition transfer_in :: "(flex_hash \<times> iota_transaction) list \<Rightarrow> flex_hash \<Rightarrow> flex_hash \<Rightarrow> flex_hash \<Rightarrow> flex_hash \<Rightarrow> int \<Rightarrow> bool" where
  "transfer_in db h1 h2 src dst n \<longleftrightarrow> filter (\<lambda>r. fst r = h1) db = [(h1, transfer_row 0 h2 dst n)]
     \<and> filter (\<lambda>r. fst r = h2) db = [(h2, transfer_row 1 null_address src (- n))] \<and> h1 \<noteq> h2"

lemma transfer_select:
  assumes "transfer_in db h1 h2 src dst n"
  shows "select_by_hash (list_storage d) db h1 = (RC_OK, [transfer_row 0 h2 dst n])"
    "select_by_hash (list_storage d) db h2 = (RC_OK, [transfer_row 1 null_address src (- n)])"
  using assms by (auto simp: list_storage_def transfer_in_def)

lemma transfer_bundle:
  assumes "transfer_in db h1 h2 src dst n"
  shows "iota_consensus_bundle_validator_validate sample_node db h1 bundle_transactions_new = Some (RC_OK, db, transfer_txs h2 src dst n, bundle_status_code BUNDLE_VALID)"
proof -
  let ?S = "list_storage (DAList.empty :: (flex_hash, int) alist)"
  have all: "fst (select_by_hash ?S db h) = RC_OK" for h by (simp add: list_storage_def)
  have "iota_tangle_bundle_load ENC1 ?S db h1 [] = Some (RC_OK, trunk_chain ENC1 ?S db 2 h1)"
    using bundle_load_chain [of ?S db h1 "transfer_row 0 h2 dst n" ENC1, OF all] by (simp add: transfer_select [OF assms] numeral_2_eq_2)
  moreover have "trunk_chain ENC1 ?S db 2 h1 = transfer_txs h2 src dst n"
    by (simp add: numeral_2_eq_2 iota_tangle_transaction_load_def storage_load_def transfer_select [OF assms] load_single_def load_model_fields transfer_txs_def)
  ultimately show ?thesis
    by (simp add: iota_consensus_bundle_validator_validate_def bundle_transactions_new_def iota_tangle_transaction_load_partial_def storage_load_def
        transfer_select [OF assms] load_single_def overwrite_def metadata_model transfer_txs_def)
qed

lemma transfer_moves:
  "bundle_delta (transfer_txs h2 src dst n) = (\<lambda>a. (if a = dst then n else 0) - (if a = src then n else 0))" "moved (transfer_txs h2 src dst n) = 2 * \<bar>n\<bar>"
  "sum_list (values_of (transfer_txs h2 src dst n)) = 0" "transfer_txs h2 src dst n \<noteq> []" "values_loaded (transfer_txs h2 src dst n)"
  by (auto simp: transfer_txs_def load_model_fields loaded_values fun_eq_iff values_of_def values_loaded_def)

text \<open>The hypotheses of the properties, for a tip that is a transfer.\<close>

lemma transfer_tip:
  assumes "transfer_in db h1 h2 src dst n" "null_address \<in> seen" "h1 \<notin> seen" "h2 \<notin> seen" "W = {h1, h2, null_address}"
    and "row = transfer_map h1 h2 src dst n" "B = (\<lambda>_. transfer_txs h2 src dst n)"
  shows "references_within W seen row" "rows_agree (list_storage DAList.empty) (W - seen) row db" "tails_valid sample_node (\<lambda>db'. db' = db) (W - seen) li row B"
    "\<forall>h. sum_list (values_of (visited_txs li row B h)) = 0" "(\<Sum>h \<in> W - seen. moved (visited_txs li row B h)) = 2 * \<bar>n\<bar>"
    "past_of (unconfirmed li) row seen h1 = {h1, h2}" "milestone_delta li row B seen h1 = (\<lambda>a. (if a = dst then n else 0) - (if a = src then n else 0))"
proof -
  have d: "h1 \<noteq> h2" using assms(1) by (simp add: transfer_in_def)
  have V: "W - seen = {h1, h2}" using assms(2-5) by auto
  have r: "row h1 = transfer_row 0 h2 dst n" "row h2 = transfer_row 1 null_address src (- n)" using d assms(6) by (auto simp: transfer_map_def)
  have u: "unconfirmed li (transfer_row i trunk address v)" for i trunk address v by (simp add: unconfirmed_def)
  have v: "visited_txs li row B h1 = transfer_txs h2 src dst n" "visited_txs li row B h2 = []" using r u by (simp_all add: visited_txs_def assms(7))
  show "references_within W seen row" unfolding references_within_def V using r by (simp add: assms(5))
  show "rows_agree (list_storage DAList.empty) (W - seen) row db" unfolding rows_agree_def V using r by (simp add: transfer_select [OF assms(1)])
  show "tails_valid sample_node (\<lambda>db'. db' = db) (W - seen) li row B"
    unfolding tails_valid_def V using r transfer_bundle [OF assms(1)] transfer_moves(4,5) by (simp add: assms(7))
  show "\<forall>h. sum_list (values_of (visited_txs li row B h)) = 0" by (simp add: visited_txs_def assms(7) transfer_moves(3)) (simp add: values_of_def)
  show "(\<Sum>h \<in> W - seen. moved (visited_txs li row B h)) = 2 * \<bar>n\<bar>" unfolding V using d by (simp add: v transfer_moves)
  show p: "past_of (unconfirmed li) row seen h1 = {h1, h2}"
    using assms(2-4) d by (simp add: past_of_def u r reachable_avoiding_visit reachable_avoiding_skip)
  show "milestone_delta li row B seen h1 = (\<lambda>a. (if a = dst then n else 0) - (if a = src then n else 0))"
    using d by (simp add: fun_eq_iff milestone_delta_def p v transfer_moves)
qed

theorem milestone_changes_ledger_witness:
  "\<exists>lv' db'. iota_consensus_ledger_validator_update_snapshot sample_node sample_validator (transfer_rows [1] [2] null_address [5] 5) \<lparr>ms_index = 6, ms_hash = [1]\<rparr>
       = Some (RC_OK, True, lv', db')
     \<and> ledger_balance table_ops (sn_state (latest_snapshot lv')) [5] = 5 \<and> md_index (sn_metadata (latest_snapshot lv')) = 6"
proof -
  let ?db = "transfer_rows [1] [2] null_address [5] 5" and ?m = "\<lparr>ms_index = 6, ms_hash = [1]\<rparr>" and ?seen = "{null_address}"
  let ?row = "transfer_map [1] [2] null_address [5] 5" and ?B = "\<lambda>_ :: flex_hash. transfer_txs [2] null_address [5] 5"
  have db: "transfer_in ?db [1] [2] null_address [5] 5" by (simp add: transfer_in_def transfer_rows_def)
  note other = null_address_other null_address_other [symmetric]
  have seen: "null_address \<in> ?seen" "[1] \<notin> ?seen" "[2] \<notin> ?seen" using other by auto
  note t = transfer_tip [OF db seen refl refl refl]
  have rows: "rows_agree (nd_storage sample_node) ({[1], [2], null_address} - ?seen) ?row db" if "db = ?db" for db using t(2) that by simp
  have zero: "sum_list (values_of (visited_txs 5 ?row ?B h)) = 0" for h using t(4) by blast
  have bound: "(\<Sum>h \<in> {[1], [2], null_address} - ?seen. moved (visited_txs 5 ?row ?B h)) \<le> INT64_MAX - IOTA_SUPPLY" unfolding t(5) by (simp add: IOTA_SUPPLY_def)
  have stored: "fst (update_snapshot_index (nd_storage sample_node) db hs i) = RC_OK" "fst (store_delta (nd_storage sample_node) db i d) = RC_OK" for db hs i d
    by (simp_all add: list_storage_def)
  have sel: "select_by_hash (nd_storage sample_node) ?db (ms_hash ?m) = (RC_OK, [transfer_row 0 [2] [5] 5])" using transfer_select(1) [OF db] by simp
  from milestone_changes_ledger [where lv = sample_validator and li = 5 and m = ?m and r = "transfer_row 0 [2] [5] 5" and J = "\<lambda>db. db = ?db" and B = ?B,
      OF sample_node_ok _ _ sample_entry_points [symmetric] _ t(1) _ rows refl t(3) zero bound sel _ _ stored]
  show ?thesis by (auto simp: t(7) IOTA_SUPPLY_def one_entry_balance other split: if_splits)
qed

text \<open>
  C2. Whatever the database answers, the ledger of the validator stays sound: after the snapshot has been built from the stored deltas and after any
  sequence of milestones, no balance is negative and the balances add up to the supply.
\<close>

theorem ledger_validator_keeps_supply:
  assumes "validator_states nd mt lv" "ledger_table (nd_ledger nd)" "\<And>t. HASH_ROOM (nd_ledger nd) t"
    and "sn_lock (pr_latest_snapshot (mt_snapshots_provider mt))" "ledger_ok (nd_ledger nd) (sn_state (pr_latest_snapshot (mt_snapshots_provider mt)))"
  shows "(\<forall>h. 0 \<le> ledger_balance (nd_ledger nd) (sn_state (latest_snapshot lv)) h) \<and> ledger_total (nd_ledger nd) (sn_state (latest_snapshot lv)) = IOTA_SUPPLY"
proof -
  have start: "snapshot_ok (nd_ledger nd) (pr_latest_snapshot (mt_snapshots_provider mt))" using assms(4,5) by (simp add: snapshot_ok_def)
  from assms(1) have "snapshot_ok (nd_ledger nd) (latest_snapshot lv)"
  proof induction
    case (states_init db conf lv)
    then obtain r where r: "build_loop (nd_ledger nd) (nd_storage nd) db (uwrap64 (md_index (sn_metadata (pr_initial_snapshot (mt_snapshots_provider mt))) + 1))
          (pr_latest_snapshot (mt_snapshots_provider mt), mt_latest_solid_milestone_index mt, mt_latest_solid_milestone mt) = Some r"
        "latest_snapshot lv = fst (snd r)"
      by (auto simp: iota_consensus_ledger_validator_init_def build_snapshot_def)
    with build_loop_keeps [OF r(1) assms(2,3)] start show ?case by simp
  next
    case (states_update lv db milestone ret has_snapshot lv' db')
    with update_snapshot_keeps [OF assms(2,3)] show ?case by blast
  qed
  then show ?thesis by (auto simp: snapshot_ok_def ledger_ok_def ledger_table.nonneg_balances [OF assms(2)])
qed

theorem ledger_validator_keeps_supply_witness:
  "\<exists>lv. validator_states sample_node sample_tracker lv \<and> ledger_total table_ops (sn_state (latest_snapshot lv)) = IOTA_SUPPLY"
proof -
  have "build_loop table_ops (list_storage DAList.empty) [] i (example_snapshot, 5, null_address) = Some (RC_OK, example_snapshot, 5, null_address)" for i
    by (subst build_loop.simps) (simp add: list_storage_def)
  then have "iota_consensus_ledger_validator_init sample_node [] example_conf sample_tracker = Some (RC_OK, sample_validator)"
    by (simp add: iota_consensus_ledger_validator_init_def build_snapshot_def sample_node_def sample_tracker_def sample_validator_def)
  then have s: "validator_states sample_node sample_tracker sample_validator" by (rule states_init)
  have l: "nd_ledger sample_node = table_ops" by (simp add: sample_node_def)
  have "(\<forall>h. 0 \<le> ledger_balance (nd_ledger sample_node) (sn_state (latest_snapshot sample_validator)) h)
      \<and> ledger_total (nd_ledger sample_node) (sn_state (latest_snapshot sample_validator)) = IOTA_SUPPLY"
    by (rule ledger_validator_keeps_supply [OF s]) (simp_all add: l sample_tracker_def alist_ledger.ledger_table_axioms)
  with s l show ?thesis by auto
qed

end
