(* ===== verification/Tip_Consistency.thy ===== *)
theory Tip_Consistency
  imports Ledger_Update
begin

text \<open>
  The consistency of tips: \<open>iota_consensus_ledger_validator_update_delta\<close> and \<open>_check_consistency\<close> of \<open>ciri/consensus/ledger_validator/ledger_validator.c\<close>. The walk that
  selects tips keeps a delta of the bundles seen so far and extends it tip by tip.
\<close>

section \<open>Combining two deltas\<close>

context ledger_table
begin

lemma apply_then_merge:
  assumes "\<And>t. HASH_ROOM U t" "ledger_reduced U t"
    and "\<And>a. INT64_MIN \<le> ledger_balance U t a + ledger_balance U d a \<and> ledger_balance U t a + ledger_balance U d a \<le> INT64_MAX"
  shows "\<exists>t' m. state_delta_apply_patch U t d = Some (RC_OK, t') \<and> ledger_balance U t' = (\<lambda>a. ledger_balance U t a + ledger_balance U d a)
    \<and> state_delta_merge_patch U d t' = (RC_OK, m)
    \<and> ledger_balance U m = (\<lambda>a. if ledger_balance U t a + ledger_balance U d a = 0 then ledger_balance U d a else ledger_balance U t a + ledger_balance U d a)"
proof -
  have dist: "distinct (map fst (HASH_ENTRIES U t))" for t using keys_distinct [of t] .
  have "INT64_MIN \<le> ledger_balance U t h + v \<and> ledger_balance U t h + v \<le> INT64_MAX" if "(h, v) \<in> set (HASH_ENTRIES U d)" for h v
    using that assms(3) [of h] find_some_iff [of d h v] by (simp add: ledger_balance_def [of U d])
  then obtain t' where t': "state_delta_apply_patch U t d = Some (RC_OK, t')"
    using apply_patch_loop_defined [of "HASH_ENTRIES U d" t] assms(1) dist by (auto simp: state_delta_apply_patch_def)
  then have b: "ledger_balance U t' = (\<lambda>a. ledger_balance U t a + ledger_balance U d a)" "ledger_reduced U t'"
    using apply_patch_loop_correct [of "HASH_ENTRIES U d" t RC_OK t'] dist assms(2) by (auto simp: state_delta_apply_patch_def balance_entries [of d])
  obtain ret m where m: "state_delta_merge_patch U d t' = (ret, m)" by (cases "state_delta_merge_patch U d t'")
  then have "ret = RC_OK" "ledger_balance U m = (\<lambda>h. case HASH_FIND U t' h of Some v \<Rightarrow> v | None \<Rightarrow> ledger_balance U d h)"
    using merge_patch_loop_correct [of "HASH_ENTRIES U t'" d ret m] dist assms(1) by (auto simp: state_delta_merge_patch_def find_entries)
  moreover have "v \<noteq> 0" if "HASH_FIND U t' h = Some v" for h v
    using that b(2) by (force simp: find_some_iff ledger_reduced_def list_all_iff)
  then have "(case HASH_FIND U t' h of Some v \<Rightarrow> v | None \<Rightarrow> ledger_balance U d h) = (if ledger_balance U t' h = 0 then ledger_balance U d h else ledger_balance U t' h)" for h
    by (auto simp: ledger_balance_def [of U t'] split: option.splits)
  ultimately show ?thesis using t' b(1) m by auto
qed

lemma checked_delta:
  assumes "\<And>t. HASH_ROOM U t" "snapshot_ok U snap" "\<And>a. \<bar>ledger_balance U d a\<bar> \<le> INT64_MAX - IOTA_SUPPLY"
  shows "\<exists>p. iota_snapshot_create_patch U (Some snap) d q = Some (RC_OK, p)
    \<and> (fst (state_delta_is_consistent U p) \<longleftrightarrow> (\<forall>a. 0 \<le> ledger_balance U (sn_state snap) a + ledger_balance U d a))"
proof -
  have ok: "sn_lock snap" "ledger_ok U (sn_state snap)" using assms(2) by (simp_all add: snapshot_ok_def)
  have pos: "0 \<le> ledger_balance U (sn_state snap) a" for a using ok(2) nonneg_balances by (simp add: ledger_ok_def)
  have "INT64_MIN \<le> ledger_balance U (sn_state snap) a + ledger_balance U d a \<and> ledger_balance U (sn_state snap) a + ledger_balance U d a \<le> INT64_MAX" for a
    using assms(3) [of a] pos [of a] balance_le_total [OF ok(2), of a] by (auto simp: IOTA_SUPPLY_def)
  from create_patch_defined [OF assms(1) this] obtain p where p: "state_delta_create_patch U (sn_state snap) d (HASH_NULL U) = Some (RC_OK, p)" by blast
  have "ledger_balance U d a = 0" if "a \<notin> set (HASH_KEYS U d)" for a using that by (simp add: ledger_balance_def find_none_iff [THEN iffD2])
  then have "fst (state_delta_is_consistent U p) \<longleftrightarrow> (\<forall>a. 0 \<le> ledger_balance U (sn_state snap) a + ledger_balance U d a)"
    using patch_consistent(1) [OF p] pos by (metis add.right_neutral)
  with p ok(1) show ?thesis by (simp add: iota_snapshot_create_patch_def)
qed

end

lemma hash_set_append_room:
  assumes "uthash_laws H" "\<And>t. HASH_ROOM H t"
  shows "\<exists>t. hash_set_append H s1 s2 = (RC_OK, t) \<and> set (HASH_KEYS H t) = set (HASH_KEYS H s1) \<union> set (HASH_KEYS H s2)"
proof -
  have "\<exists>t. set_append_loop H hs s = (RC_OK, t) \<and> set (HASH_KEYS H t) = set hs \<union> set (HASH_KEYS H s)" for hs s
  proof (induction hs arbitrary: s)
    case (Cons h hs)
    obtain s' where "hash_set_add H s h = (RC_OK, s')" "set (HASH_KEYS H s') = insert h (set (HASH_KEYS H s))"
      using hash_set_add_room [OF assms, of s h] by blast
    with Cons.IH [of s'] show ?case by auto
  qed simp
  then show ?thesis by (simp add: hash_set_append_def)
qed

text \<open>The calls of \<open>iota_consensus_ledger_validator_update_delta\<close>.\<close>

lemma update_delta_calls:
  assumes "node_ok nd" "sn_lock (initial_snapshot lv)" "snapshot_ok (nd_ledger nd) (latest_snapshot lv)" "seen = entry_points nd lv \<union> set (HASH_KEYS (nd_set nd) A)"
    and "references_within W seen row" "tip \<in> W"
    and "\<And>db. J db \<Longrightarrow> rows_agree (nd_storage nd) (W - seen) row db" "J db" "tails_valid nd J (W - seen) li row B"
    and "\<And>h. h \<in> W - seen \<Longrightarrow> sum_list (values_of (visited_txs li row B h)) = 0"
    and "\<And>a. \<bar>ledger_balance (nd_ledger nd) delta a\<bar> + (\<Sum>h \<in> W - seen. moved (visited_txs li row B h)) \<le> INT64_MAX - IOTA_SUPPLY"
  obtains V V' params tip_state p m A' where
    "hash_set_append (nd_set nd) A (HASH_NULL (nd_set nd)) = (RC_OK, V)"
    "get_latest_delta nd lv db V (HASH_NULL (nd_ledger nd)) tip li = Some (RC_OK, V', params)" "dp_valid_delta params" "J (dp_db params)"
    "state_delta_apply_patch (nd_ledger nd) (dp_delta params) delta = Some (RC_OK, tip_state)"
    "iota_snapshot_create_patch (nd_ledger nd) (Some (latest_snapshot lv)) tip_state (HASH_NULL (nd_ledger nd)) = Some (RC_OK, p)"
    "fst (state_delta_is_consistent (nd_ledger nd) p) \<longleftrightarrow>
       (\<forall>a. 0 \<le> ledger_balance (nd_ledger nd) (sn_state (latest_snapshot lv)) a + (milestone_delta li row B seen tip a + ledger_balance (nd_ledger nd) delta a))"
    "state_delta_merge_patch (nd_ledger nd) delta tip_state = (RC_OK, m)"
    "ledger_balance (nd_ledger nd) m = (\<lambda>a. if milestone_delta li row B seen tip a + ledger_balance (nd_ledger nd) delta a = 0
       then ledger_balance (nd_ledger nd) delta a else milestone_delta li row B seen tip a + ledger_balance (nd_ledger nd) delta a)"
    "hash_set_append (nd_set nd) V' A = (RC_OK, A')" "set (HASH_KEYS (nd_set nd) A') = seen \<union> past_of (unconfirmed li) row seen tip"
proof -
  let ?U = "nd_ledger nd" and ?H = "nd_set nd" and ?S = "nd_storage nd" and ?snap = "latest_snapshot lv" and ?D = "milestone_delta li row B seen tip"
  have n: "ledger_table ?U" "\<And>t. HASH_ROOM ?U t" "uthash_laws ?H" "\<And>t. HASH_ROOM ?H t" using assms(1) by (simp_all add: node_ok_def)
  have fin: "finite (W - seen)" using assms(5) by (simp add: references_within_def)
  have bound: "(\<Sum>h \<in> W - seen. moved (visited_txs li row B h)) \<le> INT64_MAX" using assms(11) [of "[]"] by (simp add: IOTA_SUPPLY_def)
  obtain V where V: "hash_set_append ?H A (HASH_NULL ?H) = (RC_OK, V)" "set (HASH_KEYS ?H V) = set (HASH_KEYS ?H A)"
    using hash_set_append_room [OF n(3,4), of A "HASH_NULL ?H"] uthash_laws.null_entries [OF n(3)] by (auto simp: HASH_KEYS_def)
  have seen: "seen = entry_points nd lv \<union> set (HASH_KEYS ?H V)" using assms(4) V(2) by simp
  obtain V' order params where g: "get_latest_delta nd lv db V (HASH_NULL ?U) tip li = Some (RC_OK, V', params)"
      "set (HASH_KEYS ?H V') = seen \<union> set order"
      and o: "set order = past_of (unconfirmed li) row seen tip" and I: "delta_inv nd J (W - seen) li row B order params"
    using get_latest_delta_visits [OF assms(1,2) seen assms(5,6,7,8,9) bound] by blast
  note d = delta_inv_result [OF I o fin assms(10)]
  have bal: "ledger_balance ?U (dp_delta params) = ?D" and valid: "dp_valid_delta params" "J (dp_db params)"
    and mv: "moved (concat (map (visited_txs li row B) order)) \<le> (\<Sum>h \<in> W - seen. moved (visited_txs li row B h))" using d by simp_all
  have red: "ledger_reduced ?U (dp_delta params)" using I by (simp add: delta_inv_def)
  have sum: "\<bar>?D a + ledger_balance ?U delta a\<bar> \<le> INT64_MAX - IOTA_SUPPLY" for a
    using bundle_delta_moved [of "concat (map (visited_txs li row B) order)" a] mv assms(11) [of a] d(5) by (simp add: IOTA_SUPPLY_def)
  have "INT64_MIN \<le> ledger_balance ?U (dp_delta params) a + ledger_balance ?U delta a
      \<and> ledger_balance ?U (dp_delta params) a + ledger_balance ?U delta a \<le> INT64_MAX" for a
    using sum [of a] bal by (auto simp: IOTA_SUPPLY_def)
  from ledger_table.apply_then_merge [OF n(1,2) red this] obtain tip_state m where
    t: "state_delta_apply_patch ?U (dp_delta params) delta = Some (RC_OK, tip_state)" "ledger_balance ?U tip_state = (\<lambda>a. ?D a + ledger_balance ?U delta a)"
      "state_delta_merge_patch ?U delta tip_state = (RC_OK, m)"
      "ledger_balance ?U m = (\<lambda>a. if ?D a + ledger_balance ?U delta a = 0 then ledger_balance ?U delta a else ?D a + ledger_balance ?U delta a)"
    unfolding bal by blast
  obtain p where p: "iota_snapshot_create_patch ?U (Some ?snap) tip_state (HASH_NULL ?U) = Some (RC_OK, p)"
      "fst (state_delta_is_consistent ?U p) \<longleftrightarrow> (\<forall>a. 0 \<le> ledger_balance ?U (sn_state ?snap) a + (?D a + ledger_balance ?U delta a))"
    using ledger_table.checked_delta [OF n(1,2) assms(3), of tip_state] sum unfolding t(2) by blast
  obtain A' where A': "hash_set_append ?H V' A = (RC_OK, A')" "set (HASH_KEYS ?H A') = seen \<union> past_of (unconfirmed li) row seen tip"
    using hash_set_append_room [OF n(3,4), of V' A] g(2) o assms(4) by auto
  show thesis by (rule that [OF V(1) g(1) valid t(1) p t(3,4) A'])
qed

lemma update_delta_step:
  assumes "node_ok nd" "sn_lock (initial_snapshot lv)" "snapshot_ok (nd_ledger nd) (latest_snapshot lv)" "seen = entry_points nd lv \<union> set (HASH_KEYS (nd_set nd) A)"
    and "li = md_index (sn_metadata (latest_snapshot lv))" "references_within W seen row" "tip \<in> W" "tip \<notin> set (HASH_KEYS (nd_set nd) A)"
    and "\<And>db. J db \<Longrightarrow> rows_agree (nd_storage nd) (W - seen) row db" "J db" "tails_valid nd J (W - seen) li row B"
    and "\<And>h. h \<in> W - seen \<Longrightarrow> sum_list (values_of (visited_txs li row B h)) = 0"
    and "\<And>a. \<bar>ledger_balance (nd_ledger nd) delta a\<bar> + (\<Sum>h \<in> W - seen. moved (visited_txs li row B h)) \<le> INT64_MAX - IOTA_SUPPLY"
    and "select_by_hash (nd_storage nd) db tip = (RC_OK, [r])" "tx_solid (metadata r)"
  shows "if \<forall>a. 0 \<le> ledger_balance (nd_ledger nd) (sn_state (latest_snapshot lv)) a + (milestone_delta li row B seen tip a + ledger_balance (nd_ledger nd) delta a)
    then \<exists>A' delta' db'. iota_consensus_ledger_validator_update_delta nd lv db A delta tip = Some (RC_OK, True, A', delta', db') \<and> J db'
      \<and> set (HASH_KEYS (nd_set nd) A') = seen \<union> past_of (unconfirmed li) row seen tip
      \<and> ledger_balance (nd_ledger nd) delta' = (\<lambda>a. if milestone_delta li row B seen tip a + ledger_balance (nd_ledger nd) delta a = 0
            then ledger_balance (nd_ledger nd) delta a else milestone_delta li row B seen tip a + ledger_balance (nd_ledger nd) delta a)
    else \<exists>db'. iota_consensus_ledger_validator_update_delta nd lv db A delta tip = Some (RC_OK, False, A, delta, db') \<and> J db'"
proof -
  let ?U = "nd_ledger nd" and ?H = "nd_set nd" and ?S = "nd_storage nd" and ?snap = "latest_snapshot lv" and ?D = "milestone_delta li row B seen tip"
  obtain V V' params tip_state p m A' where c: "hash_set_append ?H A (HASH_NULL ?H) = (RC_OK, V)"
      "get_latest_delta nd lv db V (HASH_NULL ?U) tip li = Some (RC_OK, V', params)" "dp_valid_delta params"
      "state_delta_apply_patch ?U (dp_delta params) delta = Some (RC_OK, tip_state)"
      "iota_snapshot_create_patch ?U (Some ?snap) tip_state (HASH_NULL ?U) = Some (RC_OK, p)"
    and J: "J (dp_db params)"
    and p: "fst (state_delta_is_consistent ?U p) \<longleftrightarrow> (\<forall>a. 0 \<le> ledger_balance ?U (sn_state ?snap) a + (?D a + ledger_balance ?U delta a))"
    and m: "state_delta_merge_patch ?U delta tip_state = (RC_OK, m)"
      "ledger_balance ?U m = (\<lambda>a. if ?D a + ledger_balance ?U delta a = 0 then ledger_balance ?U delta a else ?D a + ledger_balance ?U delta a)"
    and A': "hash_set_append ?H V' A = (RC_OK, A')" "set (HASH_KEYS ?H A') = seen \<union> past_of (unconfirmed li) row seen tip"
    by (rule update_delta_calls [OF assms(1-4,6,7,9-13)])
  have load: "iota_tangle_transaction_load_partial (nd_enc nd) ?S db tip PARTIAL_TX_MODEL_METADATA = (RC_OK, Some (load_model (nd_enc nd) MODEL_TRANSACTION_METADATA r))"
    using assms(14) by (simp add: iota_tangle_transaction_load_partial_def storage_load_def load_single_def)
  have li: "iota_snapshot_get_index ?snap = Some li" using assms(3,5) by (simp add: iota_snapshot_get_index_def snapshot_ok_def)
  have new: "\<not> hash_set_contains ?H A tip" using assms(1,8) uthash_laws.find_none_iff [of ?H A tip] by (auto simp: node_ok_def hash_set_contains_def)
  note run = iota_consensus_ledger_validator_update_delta_def Let_def load overwrite_def metadata_model assms(15) li new c
  show ?thesis
  proof (cases "\<forall>a. 0 \<le> ledger_balance ?U (sn_state ?snap) a + (?D a + ledger_balance ?U delta a)")
    case True
    then have "iota_consensus_ledger_validator_update_delta nd lv db A delta tip = Some (RC_OK, True, A', m, dp_db params)"
      using p m(1) A'(1) by (simp add: run)
    with m(2) A'(2) J show ?thesis unfolding if_P [OF True] by blast
  next
    case False
    then have "iota_consensus_ledger_validator_update_delta nd lv db A delta tip = Some (RC_OK, False, A, delta, dp_db params)" using p by (simp add: run)
    with J show ?thesis unfolding if_not_P [OF False] by blast
  qed
qed

text \<open>
  Walks over transfers. A tip that moves tokens is accepted if the ledger and the delta of the walk cover it.
\<close>

lemma transfer_step:
  assumes db: "transfer_in db h1 h2 src dst n" and A: "{h1, h2} \<inter> ({null_address} \<union> set (HASH_KEYS (alist_uthash (\<lambda>_. True)) A)) = {}"
    and bound: "\<And>a. \<bar>ledger_balance table_ops delta a\<bar> + 2 * \<bar>n\<bar> \<le> INT64_MAX - IOTA_SUPPLY"
    and pos: "\<And>a. 0 \<le> (if a = null_address then IOTA_SUPPLY else 0) + ((if a = dst then n else 0) - (if a = src then n else 0) + ledger_balance table_ops delta a)"
  shows "\<exists>A' delta'. iota_consensus_ledger_validator_update_delta sample_node sample_validator db A delta h1 = Some (RC_OK, True, A', delta', db)
    \<and> set (HASH_KEYS (alist_uthash (\<lambda>_. True)) A') = {null_address} \<union> set (HASH_KEYS (alist_uthash (\<lambda>_. True)) A) \<union> {h1, h2}
    \<and> ledger_balance table_ops delta' = (\<lambda>a. let s = (if a = dst then n else 0) - (if a = src then n else 0) + ledger_balance table_ops delta a
         in if s = 0 then ledger_balance table_ops delta a else s)"
proof -
  let ?seen = "insert null_address (set (HASH_KEYS (alist_uthash (\<lambda>_. True)) A))" and ?W = "{h1, h2, null_address}"
  let ?row = "transfer_map h1 h2 src dst n" and ?B = "\<lambda>_ :: flex_hash. transfer_txs h2 src dst n"
  have seen: "null_address \<in> ?seen" "h1 \<notin> ?seen" "h2 \<notin> ?seen" using A by auto
  have eq: "?seen = entry_points sample_node sample_validator \<union> set (HASH_KEYS (nd_set sample_node) A)" by (simp add: sample_entry_points)
  note t = transfer_tip [OF db seen refl refl refl]
  have rows: "rows_agree (nd_storage sample_node) (?W - ?seen) ?row db'" if "db' = db" for db' using t(2) that by simp
  have zero: "sum_list (values_of (visited_txs 5 ?row ?B h)) = 0" for h using t(4) by blast
  have room: "\<bar>ledger_balance (nd_ledger sample_node) delta a\<bar> + (\<Sum>h \<in> ?W - ?seen. moved (visited_txs 5 ?row ?B h)) \<le> INT64_MAX - IOTA_SUPPLY" for a
    unfolding t(5) using bound [of a] by simp
  have sel: "select_by_hash (nd_storage sample_node) db h1 = (RC_OK, [transfer_row 0 h2 dst n])" using transfer_select(1) [OF db] by simp
  have new: "h1 \<notin> set (HASH_KEYS (nd_set sample_node) A)" using seen(2) by simp
  from update_delta_step [where lv = sample_validator and li = 5 and tip = h1 and J = "\<lambda>db'. db' = db" and B = ?B and delta = delta,
      OF sample_node_ok _ _ eq _ t(1) _ new rows refl t(3) zero room sel] pos
  show ?thesis by (simp add: t(6,7) one_entry_balance Let_def cong: if_cong)
qed

text \<open>
  A walk accepts the same five tokens twice: they are moved from the genesis address to \<open>[5]\<close>, from there to \<open>[6]\<close> and, once more, to \<open>[7]\<close>. After the second
  transfer the delta still holds the five tokens of \<open>[5]\<close>.
\<close>

definition double_spend :: "(flex_hash \<times> iota_transaction) list" where
  "double_spend = transfer_rows [1] [2] null_address [5] 5 @ transfer_rows [11] [12] [5] [6] 5 @ transfer_rows [21] [22] [5] [7] 5"

lemma check_consistency_accepts_double_spend:
  "iota_consensus_ledger_validator_check_consistency sample_node sample_validator double_spend [[1], [11], [21]] = Some (RC_OK, True, double_spend)"
proof -
  note other = null_address_other null_address_other [symmetric]
  let ?keys = "\<lambda>A. set (HASH_KEYS (alist_uthash (\<lambda>_. True) :: ((flex_hash, unit) alist, flex_hash, unit) uthash) A)"
  have db: "transfer_in double_spend [1] [2] null_address [5] 5" "transfer_in double_spend [11] [12] [5] [6] 5" "transfer_in double_spend [21] [22] [5] [7] 5"
    by (simp_all add: transfer_in_def double_spend_def transfer_rows_def)
  have null: "?keys DAList.empty = {}" "ledger_balance table_ops DAList.empty = (\<lambda>_. 0)"
    using alist_ledger.balance_null(1) [of "\<lambda>_. True"] by (simp_all add: HASH_KEYS_def alist_uthash_def)
  let ?f1 = "\<lambda>a. if a = [5] then 5 else if a = null_address then - 5 else 0 :: int" and ?f2 = "\<lambda>a. if a = [5] \<or> a = [6] then 5 else if a = null_address then - 5 else 0 :: int"
  have step: "\<exists>A' d'. iota_consensus_ledger_validator_update_delta sample_node sample_validator double_spend A d h1 = Some (RC_OK, True, A', d', double_spend)
      \<and> ?keys A' = {null_address} \<union> ?keys A \<union> {h1, h2} \<and> ledger_balance table_ops d' = f"
    if "transfer_in double_spend h1 h2 src dst 5" "{h1, h2} \<inter> ({null_address} \<union> ?keys A) = {}"
      "\<And>a. \<bar>ledger_balance table_ops d a\<bar> \<le> 5" "\<And>a. 0 \<le> (if a = null_address then 5 else 0) + ((if a = dst then 5 else 0) - (if a = src then 5 else 0) + ledger_balance table_ops d a)"
      "\<And>a. (let s = (if a = dst then 5 else 0) - (if a = src then 5 else 0) + ledger_balance table_ops d a in if s = 0 then ledger_balance table_ops d a else s) = f a"
    for A d h1 h2 src dst f
  proof -
    have b: "\<bar>ledger_balance table_ops d a\<bar> + 2 * \<bar>5\<bar> \<le> INT64_MAX - IOTA_SUPPLY" for a using that(3) [of a] by (simp add: IOTA_SUPPLY_def)
    have q: "0 \<le> (if a = null_address then IOTA_SUPPLY else 0) + ((if a = dst then 5 else 0) - (if a = src then 5 else 0) + ledger_balance table_ops d a)" for a
      using that(4) [of a] by (auto simp: IOTA_SUPPLY_def split: if_splits)
    from transfer_step [OF that(1,2) b q] show ?thesis unfolding that(5) by blast
  qed
  have "\<exists>A' d'. iota_consensus_ledger_validator_update_delta sample_node sample_validator double_spend DAList.empty DAList.empty [1] = Some (RC_OK, True, A', d', double_spend)
      \<and> ?keys A' = {null_address} \<union> ?keys DAList.empty \<union> {[1], [2]} \<and> ledger_balance table_ops d' = ?f1"
    by (rule step [OF db(1)]) (use other in \<open>auto simp: null Let_def\<close>)
  then obtain A1 d1 where s1: "iota_consensus_ledger_validator_update_delta sample_node sample_validator double_spend DAList.empty DAList.empty [1] = Some (RC_OK, True, A1, d1, double_spend)"
      "?keys A1 = {null_address, [1], [2]}" "ledger_balance table_ops d1 = ?f1" using null by auto
  have "\<exists>A' d'. iota_consensus_ledger_validator_update_delta sample_node sample_validator double_spend A1 d1 [11] = Some (RC_OK, True, A', d', double_spend)
      \<and> ?keys A' = {null_address} \<union> ?keys A1 \<union> {[11], [12]} \<and> ledger_balance table_ops d' = ?f2"
    by (rule step [OF db(2)]) (use other in \<open>auto simp: s1 Let_def\<close>)
  then obtain A2 d2 where s2: "iota_consensus_ledger_validator_update_delta sample_node sample_validator double_spend A1 d1 [11] = Some (RC_OK, True, A2, d2, double_spend)"
      "?keys A2 = {null_address, [1], [2], [11], [12]}" "ledger_balance table_ops d2 = ?f2" using s1(2) by auto
  have "\<exists>A' d'. iota_consensus_ledger_validator_update_delta sample_node sample_validator double_spend A2 d2 [21] = Some (RC_OK, True, A', d', double_spend)
      \<and> ?keys A' = {null_address} \<union> ?keys A2 \<union> {[21], [22]} \<and> ledger_balance table_ops d' = (\<lambda>a. if a = [7] then 5 else ?f2 a)"
    by (rule step [OF db(3)]) (use other in \<open>auto simp: s2 Let_def\<close>)
  then obtain A3 d3 where s3: "iota_consensus_ledger_validator_update_delta sample_node sample_validator double_spend A2 d2 [21] = Some (RC_OK, True, A3, d3, double_spend)"
    by blast
  show ?thesis
    using s1(1) s2(1) s3 by (simp add: iota_consensus_ledger_validator_check_consistency_def sample_node_def alist_uthash_def)
qed

section \<open>Properties\<close>

text \<open>
  C15. Extending the delta of a walk by a tip: the tip is found consistent exactly if the ledger, the delta so far and the bundles in the unconfirmed past of the tip
  that were not seen yet leave no balance negative, and these transactions are then recorded as seen. The new delta, however, is the sum of the two deltas only for
  addresses whose sum is not null: where the tip cancels the delta the old entry stays.
\<close>

theorem update_delta_result:
  assumes "node_ok nd" "sn_lock (initial_snapshot lv)" "snapshot_ok (nd_ledger nd) (latest_snapshot lv)" "seen = entry_points nd lv \<union> set (HASH_KEYS (nd_set nd) A)"
    and "li = md_index (sn_metadata (latest_snapshot lv))" "references_within W seen row" "tip \<in> W" "tip \<notin> set (HASH_KEYS (nd_set nd) A)"
    and "\<And>db. J db \<Longrightarrow> rows_agree (nd_storage nd) (W - seen) row db" "J db" "tails_valid nd J (W - seen) li row B"
    and "\<And>h. h \<in> W - seen \<Longrightarrow> sum_list (values_of (visited_txs li row B h)) = 0"
    and "\<And>a. \<bar>ledger_balance (nd_ledger nd) delta a\<bar> + (\<Sum>h \<in> W - seen. moved (visited_txs li row B h)) \<le> INT64_MAX - IOTA_SUPPLY"
    and "select_by_hash (nd_storage nd) db tip = (RC_OK, [r])" "tx_solid (metadata r)"
  shows "if \<forall>a. 0 \<le> ledger_balance (nd_ledger nd) (sn_state (latest_snapshot lv)) a + (milestone_delta li row B seen tip a + ledger_balance (nd_ledger nd) delta a)
    then \<exists>A' delta' db'. iota_consensus_ledger_validator_update_delta nd lv db A delta tip = Some (RC_OK, True, A', delta', db') \<and> J db'
      \<and> set (HASH_KEYS (nd_set nd) A') = seen \<union> past_of (unconfirmed li) row seen tip
      \<and> ledger_balance (nd_ledger nd) delta' = (\<lambda>a. if milestone_delta li row B seen tip a + ledger_balance (nd_ledger nd) delta a = 0
            then ledger_balance (nd_ledger nd) delta a else milestone_delta li row B seen tip a + ledger_balance (nd_ledger nd) delta a)
    else \<exists>db'. iota_consensus_ledger_validator_update_delta nd lv db A delta tip = Some (RC_OK, False, A, delta, db') \<and> J db'"
  by (rule update_delta_step [OF assms])

theorem update_delta_result_witness:
  "\<exists>A' delta' db'. iota_consensus_ledger_validator_update_delta sample_node sample_validator (transfer_rows [1] [2] null_address [5] 5) DAList.empty DAList.empty [1]
     = Some (RC_OK, True, A', delta', db') \<and> ledger_balance table_ops delta' [5] = 5"
proof -
  let ?db = "transfer_rows [1] [2] null_address [5] 5" and ?row = "transfer_map [1] [2] null_address [5] 5" and ?B = "\<lambda>_ :: flex_hash. transfer_txs [2] null_address [5] 5"
  let ?seen = "{null_address}" and ?W = "{[1], [2], null_address}"
  have db: "transfer_in ?db [1] [2] null_address [5] 5" by (simp add: transfer_in_def transfer_rows_def)
  note other = null_address_other null_address_other [symmetric]
  have seen: "null_address \<in> ?seen" "[1] \<notin> ?seen" "[2] \<notin> ?seen" using other by auto
  note t = transfer_tip [OF db seen refl refl refl]
  have null: "set (HASH_KEYS (nd_set sample_node) DAList.empty) = {}" "ledger_balance table_ops DAList.empty = (\<lambda>_. 0)"
    using alist_ledger.balance_null(1) [of "\<lambda>_. True"] by (simp_all add: HASH_KEYS_def alist_uthash_def)
  have eq: "?seen = entry_points sample_node sample_validator \<union> set (HASH_KEYS (nd_set sample_node) DAList.empty)" using null(1) by (simp add: sample_entry_points)
  have rows: "rows_agree (nd_storage sample_node) (?W - ?seen) ?row db" if "db = ?db" for db using t(2) that by simp
  have zero: "sum_list (values_of (visited_txs 5 ?row ?B h)) = 0" for h using t(4) by blast
  have room: "\<bar>ledger_balance (nd_ledger sample_node) DAList.empty a\<bar> + (\<Sum>h \<in> ?W - ?seen. moved (visited_txs 5 ?row ?B h)) \<le> INT64_MAX - IOTA_SUPPLY" for a
    unfolding t(5) by (simp add: null IOTA_SUPPLY_def)
  have sel: "select_by_hash (nd_storage sample_node) ?db [1] = (RC_OK, [transfer_row 0 [2] [5] 5])" using transfer_select(1) [OF db] by simp
  have new: "[1] \<notin> set (HASH_KEYS (nd_set sample_node) DAList.empty)" unfolding null(1) by simp
  from update_delta_result [where lv = sample_validator and li = 5 and tip = "[1]" and J = "\<lambda>db. db = ?db" and B = ?B and delta = DAList.empty,
      OF sample_node_ok _ _ eq _ t(1) _ new rows refl t(3) zero room sel]
  show ?thesis by (auto simp: t(7) one_entry_balance null IOTA_SUPPLY_def other split: if_splits)
qed

end
