(* ===== verification/Solidifier.thy ===== *)
theory Solidifier
  imports Prelude Errors Flex_Trit Transaction Hash_Containers State_Delta Snapshot Node_Caches Requester Tangle Graph_Search Traversal Ledger_Validator Ledger_Update
begin

text \<open>
  \<open>ciri/consensus/transaction_solidifier/transaction_solidifier.c\<close>: which transactions have all their past in the database. The record \<open>node\<close> of the ledger validator
  gives the tables and the database. Every function that holds the lock is one step. The thread that propagates solidity calls
  \<open>propagate_solid_transactions\<close> as long as there are new solid transactions.
\<close>

section \<open>Definitions\<close>

record ('s, 'm, 't) transaction_solidifier =
  ts_conf :: consensus_conf
  ts_requester :: "'t transaction_requester option"
  ts_snapshots_provider :: "('s, 'm) snapshots_provider"
  ts_running :: bool
  ts_newly_set_solid_transactions :: 't
  ts_tips :: "'t tips_cache"

definition iota_consensus_transaction_solidifier_init ::
  "('db, 's, 'm, 't, 'k) node \<Rightarrow> consensus_conf \<Rightarrow> 't transaction_requester option \<Rightarrow> ('s, 'm) snapshots_provider \<Rightarrow> 't tips_cache
     \<Rightarrow> retcode \<times> ('s, 'm, 't) transaction_solidifier"
where
  "iota_consensus_transaction_solidifier_init nd conf rq sp tips =
     (RC_OK, \<lparr>ts_conf = conf, ts_requester = rq, ts_snapshots_provider = sp, ts_running = False, ts_newly_set_solid_transactions = HASH_NULL (nd_set nd), ts_tips = tips\<rparr>)"

definition iota_consensus_transaction_solidifier_destroy ::
  "('db, 's, 'm, 't, 'k) node \<Rightarrow> ('s, 'm, 't) transaction_solidifier option \<Rightarrow> retcode \<times> ('s, 'm, 't) transaction_solidifier option"
where
  "iota_consensus_transaction_solidifier_destroy nd tsp =
     (case tsp of
        None \<Rightarrow> (RC_NULL_PARAM, None)
      | Some ts \<Rightarrow> if ts_running ts then (RC_STILL_RUNNING, tsp)
                  else (RC_OK, Some (ts\<lparr>ts_requester := None, ts_newly_set_solid_transactions := HASH_NULL (nd_set nd)\<rparr>)))"

subsection \<open>Checking the past of a transaction\<close>

record 't solidity_params =
  so_is_solid :: bool
  so_candidates :: 't
  so_max_analyzed :: int
  so_requester :: "'t transaction_requester option"

text \<open>\<open>seps\<close> is the set of the solid entry points. Decrementing the least \<open>int\<close> is undefined.\<close>

definition check_solidity_do_func :: "('db, 's, 'm, 't, 'k) node \<Rightarrow> 'db \<Rightarrow> 't \<Rightarrow> 't solidity_params visitor" where
  "check_solidity_do_func nd db seps hash loaded tx params should_branch should_stop =
     (if so_max_analyzed params = 0 then Some (RC_OK, params\<lparr>so_is_solid := False\<rparr>, False, True)
      else if so_max_analyzed params = - (2 ^ 31) then None
      else let params = params\<lparr>so_max_analyzed := so_max_analyzed params - 1\<rparr>
           in if loaded
              then (case transaction_solid tx of
                      None \<Rightarrow> None
                    | Some solid \<Rightarrow>
                        if \<not> solid
                        then (case hash_set_add (nd_set nd) (so_candidates params) hash of (ret, c) \<Rightarrow> Some (ret, params\<lparr>so_candidates := c\<rparr>, True, False))
                        else Some (RC_OK, params, False, False))
              else if \<not> hash_set_contains (nd_set nd) seps hash
              then (case request_transaction (nd_set nd) (nd_enc nd) (exists_hash (nd_storage nd) db) (so_requester params) (Some hash) of
                      (ret, rq) \<Rightarrow> Some (ret, params\<lparr>so_is_solid := False, so_requester := rq\<rparr>, False, False))
              else Some (RC_OK, params, False, False))"

text \<open>
  \<open>is_solid\<close> is the variable of the caller. It is not set when the traversal finds that the transaction is not solid. The codes of the two copies of sets are
  ignored.
\<close>

definition iota_consensus_transaction_solidifier_check_solidity ::
  "('db, 's, 'm, 't, 'k) node \<Rightarrow> ('s, 'm, 't) transaction_solidifier \<Rightarrow> 'db \<Rightarrow> flex_hash \<Rightarrow> int \<Rightarrow> bool
     \<Rightarrow> (retcode \<times> bool \<times> ('s, 'm, 't) transaction_solidifier \<times> 'db) option"
where
  "iota_consensus_transaction_solidifier_check_solidity nd ts db hash max_analyzed is_solid =
     (case iota_tangle_transaction_load_partial (nd_enc nd) (nd_storage nd) db hash PARTIAL_TX_MODEL_ESSENCE_ATTACHMENT_METADATA of
        (ret, loaded) \<Rightarrow>
          if ret \<noteq> RC_OK then Some (ret, is_solid, ts, db)
          else (case transaction_solid (overwrite loaded (nd_tx nd)) of
                  None \<Rightarrow> None
                | Some True \<Rightarrow> Some (RC_OK, True, ts, db)
                | Some False \<Rightarrow>
                    (case iota_snapshot_solid_entry_points_set (nd_points nd) (nd_set nd) (pr_initial_snapshot (ts_snapshots_provider ts)) (HASH_NULL (nd_set nd)) of
                       None \<Rightarrow> None
                     | Some analyzed_hashes \<Rightarrow>
                         (let seps = snd (hash_set_append (nd_set nd) analyzed_hashes (HASH_NULL (nd_set nd)));
                              params = \<lparr>so_is_solid = True, so_candidates = HASH_NULL (nd_set nd),
                                 so_max_analyzed = wrap32 (max_analyzed + int (hash_set_size (nd_set nd) seps)), so_requester = ts_requester ts\<rparr>
                          in case tangle_traversal_dfs_to_past (nd_enc nd) (nd_storage nd) (nd_set nd) (nd_room nd) (nd_tx nd) (\<lambda>_. db)
                                    (check_solidity_do_func nd db seps) hash (cf_genesis_hash (ts_conf ts)) (Some analyzed_hashes) params of
                               None \<Rightarrow> None
                             | Some (ret, _, params) \<Rightarrow>
                                 (let ts = ts\<lparr>ts_requester := so_requester params\<rparr>
                                  in if ret \<noteq> RC_OK then Some (ret, False, ts, db)
                                     else if so_is_solid params
                                     then (case update_solidity (nd_storage nd) db (HASH_KEYS (nd_set nd) (so_candidates params)) True of
                                             (ret, db) \<Rightarrow> Some (ret, True, ts\<lparr>ts_newly_set_solid_transactions :=
                                                snd (hash_set_append (nd_set nd) (so_candidates params) (ts_newly_set_solid_transactions ts))\<rparr>, db))
                                     else Some (RC_OK, is_solid, ts, db))))))"

subsection \<open>One transaction\<close>

definition check_approvee_solid_state ::
  "('db, 's, 'm, 't, 'k) node \<Rightarrow> ('s, 'm, 't) transaction_solidifier \<Rightarrow> 'db \<Rightarrow> flex_hash \<Rightarrow> (retcode \<times> bool) option"
where
  "check_approvee_solid_state nd ts db approvee =
     (case iota_snapshot_has_solid_entry_point (nd_points nd) (pr_initial_snapshot (ts_snapshots_provider ts)) approvee of
        None \<Rightarrow> None
      | Some True \<Rightarrow> Some (RC_OK, True)
      | Some False \<Rightarrow>
          (case iota_tangle_transaction_load_partial (nd_enc nd) (nd_storage nd) db approvee PARTIAL_TX_MODEL_METADATA of
             (ret, loaded) \<Rightarrow>
               if ret \<noteq> RC_OK then Some (ret, False)
               else (case loaded of
                       None \<Rightarrow> Some (ret, False)
                     | Some curr_tx \<Rightarrow> if approvee = cf_genesis_hash (ts_conf ts) then Some (ret, True) else map_option (Pair ret) (transaction_solid curr_tx))))"

definition check_transaction_and_update_solid_state ::
  "('db, 's, 'm, 't, 'k) node \<Rightarrow> ('s, 'm, 't) transaction_solidifier \<Rightarrow> 'db \<Rightarrow> flex_hash \<Rightarrow> (retcode \<times> bool \<times> 'db) option"
where
  "check_transaction_and_update_solid_state nd ts db hash =
     (case iota_snapshot_has_solid_entry_point (nd_points nd) (pr_initial_snapshot (ts_snapshots_provider ts)) hash of
        None \<Rightarrow> None
      | Some True \<Rightarrow> Some (RC_OK, False, db)
      | Some False \<Rightarrow>
          (case iota_tangle_transaction_load_partial (nd_enc nd) (nd_storage nd) db hash PARTIAL_TX_MODEL_ESSENCE_ATTACHMENT_METADATA of
             (ret, None) \<Rightarrow> Some (ret, False, db)
           | (ret, Some tx) \<Rightarrow>
               if ret \<noteq> RC_OK then Some (ret, False, db)
               else (case (transaction_solid tx, transaction_trunk tx, transaction_branch tx) of
                       (Some True, _, _) \<Rightarrow> Some (ret, False, db)
                     | (Some False, Some trunk, Some branch) \<Rightarrow>
                         (case check_approvee_solid_state nd ts db trunk of
                            None \<Rightarrow> None
                          | Some (ret, is_trunk_solid) \<Rightarrow>
                              if ret \<noteq> RC_OK then Some (ret, False, db)
                              else (case check_approvee_solid_state nd ts db branch of
                                      None \<Rightarrow> None
                                    | Some (ret, is_branch_solid) \<Rightarrow>
                                        if ret \<noteq> RC_OK then Some (ret, False, db)
                                        else if is_trunk_solid \<and> is_branch_solid
                                        then (case update_solidity (nd_storage nd) db [hash] True of (ret, db) \<Rightarrow> Some (ret, True, db))
                                        else Some (ret, False, db)))
                     | _ \<Rightarrow> None)))"

definition add_new_solid_transaction ::
  "('db, 's, 'm, 't, 'k) node \<Rightarrow> ('s, 'm, 't) transaction_solidifier \<Rightarrow> flex_hash \<Rightarrow> retcode \<times> ('s, 'm, 't) transaction_solidifier"
where
  "add_new_solid_transaction nd ts hash =
     (case hash_set_add (nd_set nd) (ts_newly_set_solid_transactions ts) hash of
        (ret, newly) \<Rightarrow>
          (let ts = ts\<lparr>ts_newly_set_solid_transactions := newly\<rparr>
           in if ret \<noteq> RC_OK then (ret, ts)
              else case tips_cache_set_solid (nd_set nd) (Some (ts_tips ts)) (Some hash) of (ret, tips) \<Rightarrow> (ret, ts\<lparr>ts_tips := the tips\<rparr>)))"

definition iota_consensus_transaction_solidifier_check_and_update_solid_state ::
  "('db, 's, 'm, 't, 'k) node \<Rightarrow> ('s, 'm, 't) transaction_solidifier \<Rightarrow> 'db \<Rightarrow> flex_hash \<Rightarrow> (retcode \<times> ('s, 'm, 't) transaction_solidifier \<times> 'db) option"
where
  "iota_consensus_transaction_solidifier_check_and_update_solid_state nd ts db hash =
     (if ts_requester ts = None then Some (RC_OK, ts, db)
      else case check_transaction_and_update_solid_state nd ts db hash of
             None \<Rightarrow> None
           | Some (ret, is_new_solid, db) \<Rightarrow>
               if ret \<noteq> RC_OK then Some (ret, ts, db)
               else if is_new_solid then (case add_new_solid_transaction nd ts hash of (ret, ts) \<Rightarrow> Some (ret, ts, db))
               else Some (ret, ts, db))"

subsection \<open>Propagation\<close>

primrec propagate_approvers ::
  "('db, 's, 'm, 't, 'k) node \<Rightarrow> 't \<Rightarrow> flex_hash list \<Rightarrow> ('s, 'm, 't) transaction_solidifier \<Rightarrow> 'db \<Rightarrow> (retcode \<times> ('s, 'm, 't) transaction_solidifier \<times> 'db) option"
where
  "propagate_approvers nd to_propagate [] ts db = Some (RC_OK, ts, db)"
| "propagate_approvers nd to_propagate (approver # approvers) ts db =
     (if hash_set_contains (nd_set nd) to_propagate approver then propagate_approvers nd to_propagate approvers ts db
      else case iota_consensus_transaction_solidifier_check_and_update_solid_state nd ts db approver of
             None \<Rightarrow> None
           | Some (ret, ts, db) \<Rightarrow> if ret \<noteq> RC_OK then Some (ret, ts, db) else propagate_approvers nd to_propagate approvers ts db)"

text \<open>\<open>running\<close> says, for every transaction, whether the flag is still set when the loop tests it.\<close>

primrec propagate_loop ::
  "('db, 's, 'm, 't, 'k) node \<Rightarrow> (nat \<Rightarrow> bool) \<Rightarrow> (flex_hash \<Rightarrow> bool) \<Rightarrow> 't \<Rightarrow> flex_hash list \<Rightarrow> nat \<Rightarrow> ('s, 'm, 't) transaction_solidifier \<Rightarrow> 'db
     \<Rightarrow> (retcode \<times> ('s, 'm, 't) transaction_solidifier \<times> 'db) option"
where
  "propagate_loop nd pack_room running to_propagate [] capacity ts db = Some (RC_OK, ts, db)"
| "propagate_loop nd pack_room running to_propagate (hash # hashes) capacity ts db =
     (if \<not> running hash then Some (RC_OK, ts, db)
      else case iota_tangle_transaction_load_hashes_of_approvers (nd_storage nd) pack_room db hash capacity 0 of
             None \<Rightarrow> None
           | Some (ret, approvers, capacity) \<Rightarrow>
               if ret \<noteq> RC_OK then Some (ret, ts, db)
               else (case propagate_approvers nd to_propagate approvers ts db of
                       None \<Rightarrow> None
                     | Some (ret, ts, db) \<Rightarrow>
                         if ret \<noteq> RC_OK then Some (ret, ts, db) else propagate_loop nd pack_room running to_propagate hashes capacity ts db))"

definition propagate_solid_transactions ::
  "('db, 's, 'm, 't, 'k) node \<Rightarrow> (nat \<Rightarrow> bool) \<Rightarrow> (flex_hash \<Rightarrow> bool) \<Rightarrow> ('s, 'm, 't) transaction_solidifier \<Rightarrow> 'db
     \<Rightarrow> (retcode \<times> ('s, 'm, 't) transaction_solidifier \<times> 'db) option"
where
  "propagate_solid_transactions nd pack_room running ts db =
     (let to_propagate = ts_newly_set_solid_transactions ts;
          ts = ts\<lparr>ts_newly_set_solid_transactions := HASH_NULL (nd_set nd)\<rparr>
      in if \<not> pack_room 32 then Some (RC_OOM, ts, db)
         else propagate_loop nd pack_room running to_propagate (HASH_KEYS (nd_set nd) to_propagate) 32 ts db)"

definition iota_consensus_transaction_solidifier_update_status ::
  "('db, 's, 'm, 't, 'k) node \<Rightarrow> ('s, 'm, 't) transaction_solidifier \<Rightarrow> 'db \<Rightarrow> iota_transaction \<Rightarrow> (retcode \<times> ('s, 'm, 't) transaction_solidifier \<times> 'db) option"
where
  "iota_consensus_transaction_solidifier_update_status nd ts db tx =
     (case (transaction_hash tx, transaction_trunk tx, transaction_branch tx) of
        (Some hash, Some trunk, Some branch) \<Rightarrow>
          (let (ret, rq) = requester_clear_request (nd_set nd) (ts_requester ts) (Some hash);
               ts = ts\<lparr>ts_requester := rq\<rparr>
           in if ret \<noteq> RC_OK then Some (ret, ts, db)
              else let (ret, approvers_count) = count_approvers (nd_storage nd) db hash
                   in if ret \<noteq> RC_OK then Some (ret, ts, db)
                      else let (ret, tips) = (if approvers_count = 0 then tips_cache_add (nd_set nd) (Some (ts_tips ts)) (Some hash) else (RC_OK, Some (ts_tips ts)));
                               ts = ts\<lparr>ts_tips := the tips\<rparr>
                           in if ret \<noteq> RC_OK then Some (ret, ts, db)
                              else let (ret, tips) = tips_cache_remove (nd_set nd) (Some (ts_tips ts)) (Some trunk);
                                       ts = ts\<lparr>ts_tips := the tips\<rparr>
                                   in if ret \<noteq> RC_OK then Some (ret, ts, db)
                                      else let (ret, tips) = tips_cache_remove (nd_set nd) (Some (ts_tips ts)) (Some branch);
                                               ts = ts\<lparr>ts_tips := the tips\<rparr>
                                           in if ret \<noteq> RC_OK then Some (ret, ts, db)
                                              else iota_consensus_transaction_solidifier_check_and_update_solid_state nd ts db hash)
      | _ \<Rightarrow> None)"

section \<open>Solid rows\<close>

definition row_at :: "('db, 'l) storage \<Rightarrow> 'db \<Rightarrow> flex_hash \<Rightarrow> iota_transaction option" where
  "row_at S db h = (case select_by_hash S db h of (ret, rows) \<Rightarrow> if ret \<noteq> RC_OK \<or> rows = [] then None else Some (hd rows))"

definition solid_row :: "('db, 'l) storage \<Rightarrow> 'db \<Rightarrow> flex_hash \<Rightarrow> bool" where
  "solid_row S db h = (case row_at S db h of None \<Rightarrow> False | Some row \<Rightarrow> tx_solid (metadata row))"

text \<open>
  What the code relies on: an update of the solid flag sets the flag of the given rows, all of them or, after an error, none (\<open>update_transactions\<close> runs in a
  transaction of the database and rolls back), and changes nothing else.
\<close>

locale solidity_storage =
  fixes S :: "('db, 'l) storage"
  assumes update_done: "update_solidity S db hashes True = (RC_OK, db') \<Longrightarrow>
      row_at S db' h = (if h \<in> set hashes then map_option (metadata_update (tx_solid_update (\<lambda>_. True))) (row_at S db h) else row_at S db h)"
    and update_failed: "update_solidity S db hashes True = (ret, db') \<Longrightarrow> ret \<noteq> RC_OK \<Longrightarrow> (\<forall>h. row_at S db' h = row_at S db h)
      \<or> (\<forall>h. row_at S db' h = (if h \<in> set hashes then map_option (metadata_update (tx_solid_update (\<lambda>_. True))) (row_at S db h) else row_at S db h))"
begin

lemma update_cases:
  assumes "update_solidity S db hashes True = (ret, db')"
  shows "(\<forall>h. row_at S db' h = row_at S db h)
    \<or> (\<forall>h. row_at S db' h = (if h \<in> set hashes then map_option (metadata_update (tx_solid_update (\<lambda>_. True))) (row_at S db h) else row_at S db h))"
  using assms update_done update_failed by (cases "ret = RC_OK") blast+

end

lemma list_storage_row_at: "row_at (list_storage d) db h = map_of db h"
  by (induction db) (auto simp: row_at_def list_storage_def)

interpretation row_list: solidity_storage "list_storage d" for d
proof (unfold_locales, goal_cases)
  case (1 db hashes db' h)
  have "map_of (map (\<lambda>r. if fst r \<in> set hashes then (fst r, f (snd r)) else r) db) h = (if h \<in> set hashes then map_option f (map_of db h) else map_of db h)"
    for f :: "iota_transaction \<Rightarrow> iota_transaction" by (induction db) auto
  with 1 show ?case unfolding list_storage_row_at by (auto simp: list_storage_def)
next
  case (2 db hashes ret db')
  then show ?case by (auto simp: list_storage_def)
qed

text \<open>
  The invariant: the references of a solid row are solid entry points, the genesis, or solid rows. Equivalently, the whole past of a solid row, up to the entry
  points, is in the database and solid.
\<close>

definition grounded :: "('db, 'l) storage \<Rightarrow> flex_hash set \<Rightarrow> 'db \<Rightarrow> flex_hash \<Rightarrow> bool" where
  "grounded S E db h \<longleftrightarrow> h \<in> E \<or> solid_row S db h"

definition solid_closed :: "('db, 'l) storage \<Rightarrow> flex_hash set \<Rightarrow> 'db \<Rightarrow> bool" where
  "solid_closed S E db \<longleftrightarrow> (\<forall>h row. row_at S db h = Some row \<longrightarrow> tx_solid (metadata row) \<longrightarrow> h \<notin> E \<longrightarrow>
     grounded S E db (tx_trunk (attachment row)) \<and> grounded S E db (tx_branch (attachment row)))"

definition parents_of :: "('db, 'l) storage \<Rightarrow> 'db \<Rightarrow> flex_hash \<Rightarrow> flex_hash list" where
  "parents_of S db h = (case row_at S db h of None \<Rightarrow> [] | Some row \<Rightarrow> [tx_trunk (attachment row), tx_branch (attachment row)])"

definition past_solid :: "('db, 'l) storage \<Rightarrow> flex_hash set \<Rightarrow> 'db \<Rightarrow> flex_hash \<Rightarrow> bool" where
  "past_solid S E db h \<longleftrightarrow> (\<forall>g \<in> reachable_avoiding (parents_of S db) E {h}. solid_row S db g)"

lemma solid_row_iff: "solid_row S db h \<longleftrightarrow> (\<exists>row. row_at S db h = Some row \<and> tx_solid (metadata row))"
  by (auto simp: solid_row_def split: option.splits)

lemma solid_closed_iff: "solid_closed S E db \<longleftrightarrow> (\<forall>h. solid_row S db h \<longrightarrow> past_solid S E db h)"
proof (intro iffI allI impI)
  fix h assume c: "solid_closed S E db" and "solid_row S db h"
  have "solid_row S db g" if "g \<in> reachable_avoiding (parents_of S db) E {h}" for g
    using that
  proof (induction rule: reachable_avoiding.induct)
    case (reach_start x)
    then show ?case using \<open>solid_row S db h\<close> by simp
  next
    case (reach_step x y)
    then have "x \<notin> E" by (blast dest: reachable_avoiding_disjoint)
    moreover from reach_step obtain row where "row_at S db x = Some row" "tx_solid (metadata row)" "y = tx_trunk (attachment row) \<or> y = tx_branch (attachment row)"
      by (auto simp: solid_row_iff parents_of_def)
    ultimately have "grounded S E db y" using c unfolding solid_closed_def by blast
    with reach_step.hyps(3) show ?case by (simp add: grounded_def)
  qed
  then show "past_solid S E db h" by (simp add: past_solid_def)
next
  assume p: "\<forall>h. solid_row S db h \<longrightarrow> past_solid S E db h"
  have "grounded S E db y" if "row_at S db h = Some row" "tx_solid (metadata row)" "h \<notin> E" "y \<in> {tx_trunk (attachment row), tx_branch (attachment row)}" for h row y
  proof (cases "y \<in> E")
    case False
    have "h \<in> reachable_avoiding (parents_of S db) E {h}" using that(3) by (blast intro: reach_start)
    then have "y \<in> reachable_avoiding (parents_of S db) E {h}" using that False by (auto simp: parents_of_def intro: reach_step)
    with p that show ?thesis by (auto simp: past_solid_def solid_row_iff grounded_def)
  qed (simp add: grounded_def)
  then show "solid_closed S E db" by (simp add: solid_closed_def)
qed

text \<open>Marking rows whose references are grounded or marked with them keeps the invariant.\<close>

lemma solid_row_update:
  assumes "\<And>h. row_at S db' h = (if h \<in> X then map_option (metadata_update (tx_solid_update (\<lambda>_. True))) (row_at S db h) else row_at S db h)"
  shows "solid_row S db' h \<longleftrightarrow> solid_row S db h \<or> h \<in> X \<and> row_at S db h \<noteq> None"
  using assms [of h] by (auto simp: solid_row_iff)

lemma solid_closed_update:
  assumes "solid_closed S E db" "\<And>h. row_at S db' h = (if h \<in> X then map_option (metadata_update (tx_solid_update (\<lambda>_. True))) (row_at S db h) else row_at S db h)"
    and "\<And>h row. h \<in> X \<Longrightarrow> row_at S db h = Some row \<Longrightarrow>
      (\<forall>g \<in> {tx_trunk (attachment row), tx_branch (attachment row)}. grounded S E db g \<or> g \<in> X \<and> row_at S db g \<noteq> None)"
  shows "solid_closed S E db'"
  unfolding solid_closed_def
proof (intro allI impI)
  fix h row' assume r: "row_at S db' h = Some row'" "tx_solid (metadata row')" "h \<notin> E"
  then obtain row where row: "row_at S db h = Some row" "attachment row' = attachment row" "h \<in> X \<or> tx_solid (metadata row)"
    using assms(2) [of h] by (auto split: if_splits)
  have "\<forall>g \<in> {tx_trunk (attachment row), tx_branch (attachment row)}. grounded S E db g \<or> g \<in> X \<and> row_at S db g \<noteq> None"
  proof (cases "h \<in> X")
    case True
    with assms(3) row(1) show ?thesis by blast
  next
    case False
    with row r(3) assms(1) show ?thesis by (simp add: solid_closed_def)
  qed
  then show "grounded S E db' (tx_trunk (attachment row')) \<and> grounded S E db' (tx_branch (attachment row'))"
    using row(2) by (auto simp: grounded_def solid_row_update [OF assms(2)])
qed

lemma grounded_same: "(\<And>h. row_at S db' h = row_at S db h) \<Longrightarrow> grounded S E db' h = grounded S E db h"
  by (simp add: grounded_def solid_row_def)

lemma solid_closed_same: "(\<And>h. row_at S db' h = row_at S db h) \<Longrightarrow> solid_closed S E db' = solid_closed S E db"
  using grounded_same [of S db' db E] by (simp add: solid_closed_def)

context solidity_storage
begin

lemma update_keeps_closed:
  assumes "update_solidity S db hashes True = (ret, db')" "solid_closed S E db"
    and "\<And>h row. h \<in> set hashes \<Longrightarrow> row_at S db h = Some row \<Longrightarrow>
      (\<forall>g \<in> {tx_trunk (attachment row), tx_branch (attachment row)}. grounded S E db g \<or> g \<in> set hashes \<and> row_at S db g \<noteq> None)"
  shows "solid_closed S E db'"
proof (cases "\<forall>h. row_at S db' h = row_at S db h")
  case True
  with assms(2) solid_closed_same [of S db' db E] show ?thesis by simp
next
  case False
  with update_cases [OF assms(1)] have u: "\<forall>h. row_at S db' h = (if h \<in> set hashes then map_option (metadata_update (tx_solid_update (\<lambda>_. True))) (row_at S db h) else row_at S db h)"
    by blast
  show ?thesis by (rule solid_closed_update [OF assms(2) u [THEN spec] assms(3)])
qed

end

section \<open>The traversal\<close>

lemma load_row_at:
  "iota_tangle_transaction_load_partial e S db h PARTIAL_TX_MODEL_ESSENCE_ATTACHMENT_METADATA = (RC_OK, loaded) \<Longrightarrow> loaded = map_option (visit_model e) (row_at S db h)"
  "iota_tangle_transaction_load_partial e S db h PARTIAL_TX_MODEL_METADATA = (RC_OK, loaded) \<Longrightarrow> loaded = map_option (load_model e MODEL_TRANSACTION_METADATA) (row_at S db h)"
  by (auto simp: iota_tangle_transaction_load_partial_def storage_load_def load_single_def row_at_def split: prod.splits if_splits list.splits)

lemma solid_of_model:
  "transaction_solid (visit_model e row) = Some (tx_solid (metadata row))"
  "transaction_solid (load_model e MODEL_TRANSACTION_METADATA row) = Some (tx_solid (metadata row))"
  by (simp_all add: load_model_def Let_def select_transactions_populate_metadata_def select_transactions_populate_attachment_def
      select_transactions_populate_essence_def load_defs transaction_getter_defs column_loaded_def transaction_reset_def mask_defs)

text \<open>Additions to a table, with or without memory for them.\<close>

lemma hash_set_add_ok:
  assumes "uthash_laws U" "hash_set_add U t h = (RC_OK, t')"
  shows "set (HASH_KEYS U t') = insert h (set (HASH_KEYS U t))"
  using assms uthash_laws.find_none_iff [OF assms(1), of t h] uthash_laws.add_entries [OF assms(1), of t h "()"]
  by (auto simp: hash_set_add_def hash_set_contains_def HASH_KEYS_def split: if_splits option.splits)

lemma hash_set_add_subset:
  assumes "uthash_laws U"
  shows "set (HASH_KEYS U (snd (hash_set_add U t h))) \<subseteq> insert h (set (HASH_KEYS U t))"
  using uthash_laws.find_none_iff [OF assms(1), of t h] uthash_laws.add_entries [OF assms(1), of t h "()"]
  by (auto simp: hash_set_add_def hash_set_contains_def HASH_KEYS_def split: if_splits option.splits)

lemma hash_set_append_subset:
  assumes "uthash_laws U"
  shows "set (HASH_KEYS U (snd (hash_set_append U s t))) \<subseteq> set (HASH_KEYS U s) \<union> set (HASH_KEYS U t)"
proof -
  have "set (HASH_KEYS U (snd (set_append_loop U hs t))) \<subseteq> set hs \<union> set (HASH_KEYS U t)" for hs t
  proof (induction hs arbitrary: t)
    case (Cons h hs)
    show ?case using hash_set_add_subset [OF assms, of t h] Cons.IH [of "snd (hash_set_add U t h)"] by (auto simp: split_beta Let_def)
  qed simp
  then show ?thesis by (auto simp: hash_set_append_def)
qed

lemma hash_map_keys_subset:
  assumes "uthash_laws H"
  shows "set (HASH_KEYS H (hash_map_keys M H mp t)) \<subseteq> set (HASH_KEYS M mp) \<union> set (HASH_KEYS H t)"
proof -
  have "set (HASH_KEYS H (fold (\<lambda>hash keys. snd (hash_set_add H keys hash)) ks t)) \<subseteq> set ks \<union> set (HASH_KEYS H t)" for ks t
  proof (induction ks arbitrary: t)
    case (Cons h ks)
    show ?case using hash_set_add_subset [OF assms, of t h] Cons.IH [of "snd (hash_set_add H t h)"] by auto
  qed simp
  then show ?thesis by (simp add: hash_map_keys_def)
qed

text \<open>
  The invariant of the traversal: as long as nothing is missing, every analysed hash is grounded or a candidate, and the references of the candidates are analysed or
  on the stack.
\<close>

definition solidity_inv ::
  "('db, 's, 'm, 't, 'k) node \<Rightarrow> flex_hash set \<Rightarrow> 'db \<Rightarrow> flex_hash list \<Rightarrow> 't \<Rightarrow> 't solidity_params \<Rightarrow> bool"
where
  "solidity_inv nd E db stk analyzed params \<longleftrightarrow> (so_is_solid params \<longrightarrow>
     (\<forall>h \<in> set (HASH_KEYS (nd_set nd) analyzed). grounded (nd_storage nd) E db h \<or> h \<in> set (HASH_KEYS (nd_set nd) (so_candidates params)))
   \<and> (\<forall>h \<in> set (HASH_KEYS (nd_set nd) (so_candidates params)). \<exists>row. row_at (nd_storage nd) db h = Some row
        \<and> {tx_trunk (attachment row), tx_branch (attachment row)} \<subseteq> set (HASH_KEYS (nd_set nd) analyzed) \<union> set stk))"

lemma check_solidity_cases:
  assumes "check_solidity_do_func nd db seps h (loaded \<noteq> None) (overwrite loaded tx) params b st = Some (RC_OK, params', branch, False)"
    and "loaded = map_option (visit_model e) row" "so_is_solid params'"
  shows "so_is_solid params \<and>
    (case row of
       None \<Rightarrow> hash_set_contains (nd_set nd) seps h \<and> \<not> branch \<and> so_candidates params' = so_candidates params
     | Some row \<Rightarrow> if tx_solid (metadata row) then \<not> branch \<and> so_candidates params' = so_candidates params
                   else branch \<and> hash_set_add (nd_set nd) (so_candidates params) h = (RC_OK, so_candidates params'))"
  using assms by (cases row) (auto simp: check_solidity_do_func_def overwrite_def solid_of_model Let_def split: if_splits prod.splits)

lemma check_solidity_visit:
  assumes "uthash_laws (nd_set nd)" "set (HASH_KEYS (nd_set nd) seps) \<subseteq> E" "solidity_inv nd E db (h # stk) analyzed params"
    and "loaded = map_option (visit_model (nd_enc nd)) (row_at (nd_storage nd) db h)"
    and "check_solidity_do_func nd db seps h (loaded \<noteq> None) (overwrite loaded tx) params b st = Some (RC_OK, params', branch, False)"
    and "(if branch then push_parents room (overwrite loaded tx) stk else Some (RC_OK, stk)) = Some (RC_OK, stk')"
    and "hash_set_add (nd_set nd) analyzed h = (RC_OK, analyzed')"
  shows "solidity_inv nd E db stk' analyzed' params'"
proof (cases "so_is_solid params'")
  case True
  note a = hash_set_add_ok [OF assms(1,7)] and v = check_solidity_cases [OF assms(5,4) True]
  have inv: "\<forall>h \<in> set (HASH_KEYS (nd_set nd) analyzed). grounded (nd_storage nd) E db h \<or> h \<in> set (HASH_KEYS (nd_set nd) (so_candidates params))"
      "\<forall>g \<in> set (HASH_KEYS (nd_set nd) (so_candidates params)). \<exists>row. row_at (nd_storage nd) db g = Some row
        \<and> {tx_trunk (attachment row), tx_branch (attachment row)} \<subseteq> set (HASH_KEYS (nd_set nd) analyzed) \<union> set (h # stk)"
    using assms(3) v by (simp_all add: solidity_inv_def)
  show ?thesis
  proof (cases "\<exists>row. row_at (nd_storage nd) db h = Some row \<and> \<not> tx_solid (metadata row)")
    case True
    then obtain row where row: "row_at (nd_storage nd) db h = Some row" "\<not> tx_solid (metadata row)" by blast
    with v have br: "branch" and c: "hash_set_add (nd_set nd) (so_candidates params) h = (RC_OK, so_candidates params')" by auto
    have stk: "stk' = tx_trunk (attachment row) # tx_branch (attachment row) # stk"
      using assms(4,6) br row by (auto simp: push_parents_def overwrite_def visit_model_accessors hash_stack_push_def split: if_splits)
    show ?thesis using inv row(1) by (fastforce simp: solidity_inv_def a hash_set_add_ok [OF assms(1) c] stk)
  next
    case False
    then have "\<not> branch" "so_candidates params' = so_candidates params" and g: "grounded (nd_storage nd) E db h"
      using v assms(2) uthash_laws.find_none_iff [OF assms(1), of seps h] by (auto simp: grounded_def solid_row_def hash_set_contains_def split: option.splits if_splits)
    then show ?thesis using inv assms(6) by (fastforce simp: solidity_inv_def a)
  qed
qed (simp add: solidity_inv_def)

lemma check_solidity_stops: "check_solidity_do_func nd db seps h loaded tx params b st = Some (ret, params', branch, True) \<Longrightarrow> \<not> so_is_solid params'"
  by (auto simp: check_solidity_do_func_def Let_def split: if_splits prod.splits option.splits)

lemma check_solidity_loop:
  assumes "dfs_to_past_loop (nd_set nd) room (visitor_load (nd_enc nd) (nd_storage nd) (\<lambda>_. db)) (check_solidity_do_func nd db seps) stk analyzed params tx b st = Some r"
    and "fst r = RC_OK" "uthash_laws (nd_set nd)" "set (HASH_KEYS (nd_set nd) seps) \<subseteq> E" "solidity_inv nd E db stk analyzed params"
  shows "\<exists>analyzed'. solidity_inv nd E db [] analyzed' (snd (snd r))"
proof (rule dfs_to_past_loop.raw_induct [where P = "\<lambda>U room load func stk analyzed params tx b st r. U = nd_set nd \<longrightarrow>
      load = visitor_load (nd_enc nd) (nd_storage nd) (\<lambda>_. db) \<longrightarrow> func = check_solidity_do_func nd db seps \<longrightarrow> fst r = RC_OK \<longrightarrow> solidity_inv nd E db stk analyzed params
        \<longrightarrow> (\<exists>analyzed'. solidity_inv nd E db [] analyzed' (snd (snd r)))", rule_format, OF _ assms(1) refl refl refl assms(2,5)], goal_cases)
  case (1 loop U room load func stk analyzed params tx b st r)
  note IH = 1(1) [OF _ 1(3-6)] and run = 1(2) [unfolded 1(3-5)] and inv = 1(7)
  show ?case
  proof (cases stk)
    case Nil
    with run inv show ?thesis by auto
  next
    case (Cons h stk0)
    show ?thesis
    proof (cases "hash_set_contains (nd_set nd) analyzed h")
      case True
      then have "h \<in> set (HASH_KEYS (nd_set nd) analyzed)" using uthash_laws.find_none_iff [OF assms(3), of analyzed h] by (auto simp: hash_set_contains_def)
      with inv have "solidity_inv nd E db stk0 analyzed params" unfolding Cons solidity_inv_def by (simp add: insert_absorb)
      with True run show ?thesis unfolding Cons by (auto intro!: IH simp: 1(3-5))
    next
      case False
      obtain ret loaded where l: "visitor_load (nd_enc nd) (nd_storage nd) (\<lambda>_. db) params h = (ret, loaded)" by (cases "visitor_load (nd_enc nd) (nd_storage nd) (\<lambda>_. db) params h")
      with run False 1(6) have ret: "ret = RC_OK" unfolding Cons by (auto split: if_splits)
      from run False l 1(6) obtain params' br stop where f: "check_solidity_do_func nd db seps h (loaded \<noteq> None) (overwrite loaded tx) params b st = Some (RC_OK, params', br, stop)"
        unfolding Cons ret by (auto split: if_splits option.splits)
      show ?thesis
      proof (cases stop)
        case True
        with run False l f check_solidity_stops [of nd db seps h "loaded \<noteq> None" "overwrite loaded tx" params b st] show ?thesis
          unfolding Cons ret by (auto simp: solidity_inv_def)
      next
        case False
        note stop = this
        from run \<open>\<not> hash_set_contains (nd_set nd) analyzed h\<close> l f 1(6) obtain stk' analyzed' where
            p: "(if br then push_parents room (overwrite loaded tx) stk0 else Some (RC_OK, stk0)) = Some (RC_OK, stk')"
              "hash_set_add (nd_set nd) analyzed h = (RC_OK, analyzed')"
            and next_run: "loop (nd_set nd) room (visitor_load (nd_enc nd) (nd_storage nd) (\<lambda>_. db)) (check_solidity_do_func nd db seps) stk' analyzed' params' (overwrite loaded tx) br stop = Some r"
          unfolding Cons ret by (auto simp: stop split: if_splits option.splits prod.splits)
        have "solidity_inv nd E db stk' analyzed' params'"
          by (rule check_solidity_visit [OF assms(3,4) inv [unfolded Cons] load_row_at(1) _ p]) (use l f stop ret in simp_all)
        with next_run show ?thesis by (intro IH) (simp_all add: 1(3-5))
      qed
    qed
  qed
qed

section \<open>The operations\<close>

definition solid_points :: "('db, 's, 'm, 't, 'k) node \<Rightarrow> ('s, 'm, 't) transaction_solidifier \<Rightarrow> flex_hash set" where
  "solid_points nd ts = insert (cf_genesis_hash (ts_conf ts))
     (set (HASH_KEYS (nd_points nd) (md_solid_entry_points (sn_metadata (pr_initial_snapshot (ts_snapshots_provider ts))))))"

text \<open>What the solidifier assumes of the node, and what its operations keep: \<open>E\<close> are the entry points with the genesis.\<close>

definition solidifier_node :: "('db, 's, 'm, 't, 'k) node \<Rightarrow> bool" where
  "solidifier_node nd \<longleftrightarrow> uthash_laws (nd_set nd) \<and> uthash_laws (nd_points nd) \<and> solidity_storage (nd_storage nd)"

definition solidifier_ok :: "('db, 's, 'm, 't, 'k) node \<Rightarrow> flex_hash set \<Rightarrow> ('s, 'm, 't) transaction_solidifier \<Rightarrow> 'db \<Rightarrow> bool" where
  "solidifier_ok nd E ts db \<longleftrightarrow> solid_points nd ts = E \<and> solid_closed (nd_storage nd) E db"

lemma solid_points_update [simp]:
  "solid_points nd (ts\<lparr>ts_requester := rq\<rparr>) = solid_points nd ts" "solid_points nd (ts\<lparr>ts_newly_set_solid_transactions := n\<rparr>) = solid_points nd ts"
  "solid_points nd (ts\<lparr>ts_tips := tips\<rparr>) = solid_points nd ts"
  by (simp_all add: solid_points_def)

lemma check_solidity_past:
  assumes "solidifier_node nd" "E = solid_points nd ts"
    and "iota_snapshot_solid_entry_points_set (nd_points nd) (nd_set nd) (pr_initial_snapshot (ts_snapshots_provider ts)) (HASH_NULL (nd_set nd)) = Some A"
    and "tangle_traversal_dfs_to_past (nd_enc nd) (nd_storage nd) (nd_set nd) (nd_room nd) (nd_tx nd) (\<lambda>_. db)
        (check_solidity_do_func nd db (snd (hash_set_append (nd_set nd) A (HASH_NULL (nd_set nd))))) h (cf_genesis_hash (ts_conf ts)) (Some A) params = Some (RC_OK, A', params')"
    and "HASH_KEYS (nd_set nd) (so_candidates params) = []"
  shows "\<exists>analyzed. solidity_inv nd E db [] analyzed params'"
proof -
  have U: "uthash_laws (nd_set nd)" using assms(1) by (simp add: solidifier_node_def)
  have null: "HASH_KEYS (nd_set nd) (HASH_NULL (nd_set nd)) = []" by (simp add: HASH_KEYS_def uthash_laws.null_entries [OF U])
  let ?seps = "snd (hash_set_append (nd_set nd) A (HASH_NULL (nd_set nd)))"
  have A: "set (HASH_KEYS (nd_set nd) A) \<subseteq> E"
    using assms(2,3) hash_map_keys_subset [OF U, of "nd_points nd" "md_solid_entry_points (sn_metadata (pr_initial_snapshot (ts_snapshots_provider ts)))" "HASH_NULL (nd_set nd)"]
    by (auto simp: iota_snapshot_solid_entry_points_set_def solid_points_def null split: if_splits)
  have seps: "set (HASH_KEYS (nd_set nd) ?seps) \<subseteq> E" using A hash_set_append_subset [OF U, of A "HASH_NULL (nd_set nd)"] by (auto simp: null)
  from assms(4) obtain A1 r where A1: "hash_set_add (nd_set nd) A (cf_genesis_hash (ts_conf ts)) = (RC_OK, A1)"
      and run: "dfs_to_past_loop (nd_set nd) (nd_room nd) (visitor_load (nd_enc nd) (nd_storage nd) (\<lambda>_. db)) (check_solidity_do_func nd db ?seps) [h] A1 params (nd_tx nd) True False = Some r"
        "fst r = RC_OK" "snd (snd r) = params'"
    by (auto simp: tangle_traversal_dfs_to_past_def hash_stack_push_def Let_def split: if_splits prod.splits)
  have "solidity_inv nd E db [h] A1 params"
    using A assms(2) hash_set_add_ok [OF U A1] by (auto simp: solidity_inv_def assms(5) grounded_def solid_points_def)
  from check_solidity_loop [OF run(1,2) U seps this] run(3) show ?thesis by simp
qed

lemma solidity_inv_done:
  assumes "solidity_inv nd E db [] analyzed params" "so_is_solid params" "h \<in> set (HASH_KEYS (nd_set nd) (so_candidates params))" "row_at (nd_storage nd) db h = Some row"
    "g \<in> {tx_trunk (attachment row), tx_branch (attachment row)}"
  shows "grounded (nd_storage nd) E db g \<or> g \<in> set (HASH_KEYS (nd_set nd) (so_candidates params)) \<and> row_at (nd_storage nd) db g \<noteq> None"
proof -
  let ?C = "set (HASH_KEYS (nd_set nd) (so_candidates params))"
  have c: "\<exists>row. row_at (nd_storage nd) db x = Some row \<and> {tx_trunk (attachment row), tx_branch (attachment row)} \<subseteq> set (HASH_KEYS (nd_set nd) analyzed)" if "x \<in> ?C" for x
    using assms(1,2) that by (simp add: solidity_inv_def)
  have "g \<in> set (HASH_KEYS (nd_set nd) analyzed)" using c [OF assms(3)] assms(4,5) by auto
  then have "grounded (nd_storage nd) E db g \<or> g \<in> ?C" using assms(1,2) by (simp add: solidity_inv_def)
  with c [of g] show ?thesis by auto
qed

lemma check_solidity_result:
  assumes "iota_consensus_transaction_solidifier_check_solidity nd ts db hash max_analyzed b = Some (ret, b', ts', db')"
  obtains (kept) "db' = db" "solid_points nd ts' = solid_points nd ts"
  | (marked) A A' params params' where
      "iota_snapshot_solid_entry_points_set (nd_points nd) (nd_set nd) (pr_initial_snapshot (ts_snapshots_provider ts)) (HASH_NULL (nd_set nd)) = Some A"
      "tangle_traversal_dfs_to_past (nd_enc nd) (nd_storage nd) (nd_set nd) (nd_room nd) (nd_tx nd) (\<lambda>_. db)
        (check_solidity_do_func nd db (snd (hash_set_append (nd_set nd) A (HASH_NULL (nd_set nd))))) hash (cf_genesis_hash (ts_conf ts)) (Some A) params = Some (RC_OK, A', params')"
      "so_candidates params = HASH_NULL (nd_set nd)" "so_is_solid params'"
      "update_solidity (nd_storage nd) db (HASH_KEYS (nd_set nd) (so_candidates params')) True = (ret, db')" "solid_points nd ts' = solid_points nd ts"
proof -
  let ?P = "\<lambda>A. \<lparr>so_is_solid = True, so_candidates = HASH_NULL (nd_set nd),
    so_max_analyzed = wrap32 (max_analyzed + int (hash_set_size (nd_set nd) (snd (hash_set_append (nd_set nd) A (HASH_NULL (nd_set nd)))))), so_requester = ts_requester ts\<rparr>"
  let ?T = "\<lambda>A. tangle_traversal_dfs_to_past (nd_enc nd) (nd_storage nd) (nd_set nd) (nd_room nd) (nd_tx nd) (\<lambda>_. db)
    (check_solidity_do_func nd db (snd (hash_set_append (nd_set nd) A (HASH_NULL (nd_set nd))))) hash (cf_genesis_hash (ts_conf ts)) (Some A) (?P A)"
  have points: "solid_points nd ts' = solid_points nd ts"
    using assms unfolding iota_consensus_transaction_solidifier_check_solidity_def Let_def by (auto split: prod.splits if_splits option.splits bool.splits)
  have "db' = db \<or> (\<exists>A A' params'.
      iota_snapshot_solid_entry_points_set (nd_points nd) (nd_set nd) (pr_initial_snapshot (ts_snapshots_provider ts)) (HASH_NULL (nd_set nd)) = Some A
    \<and> ?T A = Some (RC_OK, A', params') \<and> so_is_solid params'
    \<and> update_solidity (nd_storage nd) db (HASH_KEYS (nd_set nd) (so_candidates params')) True = (ret, db'))"
    using assms unfolding iota_consensus_transaction_solidifier_check_solidity_def Let_def
    by (simp split: prod.splits if_splits option.splits bool.splits)
  then show ?thesis
  proof (elim disjE exE conjE)
    assume "db' = db"
    then show thesis using points by (rule kept)
  next
    fix A A' params'
    assume "iota_snapshot_solid_entry_points_set (nd_points nd) (nd_set nd) (pr_initial_snapshot (ts_snapshots_provider ts)) (HASH_NULL (nd_set nd)) = Some A"
      "?T A = Some (RC_OK, A', params')" "so_is_solid params'"
      "update_solidity (nd_storage nd) db (HASH_KEYS (nd_set nd) (so_candidates params')) True = (ret, db')"
    from marked [OF this(1,2) _ this(3,4) points] show thesis by simp
  qed
qed

lemma check_solidity_keeps:
  assumes "solidifier_node nd" "solidifier_ok nd E ts db"
    and "iota_consensus_transaction_solidifier_check_solidity nd ts db hash max_analyzed b = Some (ret, b', ts', db')"
  shows "solidifier_ok nd E ts' db'"
  using assms(3)
proof (cases rule: check_solidity_result)
  case kept
  with assms(2) show ?thesis by (simp add: solidifier_ok_def)
next
  case (marked A A' params params')
  have U: "uthash_laws (nd_set nd)" and S: "solidity_storage (nd_storage nd)" using assms(1) by (simp_all add: solidifier_node_def)
  have E: "E = solid_points nd ts" and c: "solid_closed (nd_storage nd) E db" using assms(2) by (simp_all add: solidifier_ok_def)
  obtain analyzed where inv: "solidity_inv nd E db [] analyzed params'"
    using check_solidity_past [OF assms(1) E marked(1,2)] marked(3) by (auto simp: HASH_KEYS_def uthash_laws.null_entries [OF U])
  have "solid_closed (nd_storage nd) E db'"
    by (rule solidity_storage.update_keeps_closed [OF S marked(5) c]) (use solidity_inv_done [OF inv marked(4)] in blast)
  with marked(6) E show ?thesis by (simp add: solidifier_ok_def)
qed

lemma some_map_option: "Some x = map_option f r \<longleftrightarrow> (\<exists>y. r = Some y \<and> x = f y)"
  by (cases r) auto

lemma check_approvee_grounded:
  assumes "solidifier_node nd" "check_approvee_solid_state nd ts db approvee = Some (ret, True)"
  shows "ret = RC_OK \<and> grounded (nd_storage nd) (solid_points nd ts) db approvee"
proof -
  let ?M = "md_solid_entry_points (sn_metadata (pr_initial_snapshot (ts_snapshots_provider ts)))"
  have "HASH_FIND (nd_points nd) ?M approvee = None \<longleftrightarrow> approvee \<notin> set (HASH_KEYS (nd_points nd) ?M)"
    using assms(1) by (simp add: solidifier_node_def uthash_laws.find_none_iff)
  with assms(2) show ?thesis
    by (auto simp: check_approvee_solid_state_def iota_snapshot_has_solid_entry_point_def hash_map_contains_def grounded_def solid_points_def solid_row_iff solid_of_model
        some_map_option dest!: load_row_at(2) split: option.splits bool.splits prod.splits if_splits)
qed

lemma check_transaction_cases:
  assumes "check_transaction_and_update_solid_state nd ts db hash = Some (ret, new, db')"
  shows "db' = db \<or> (\<exists>row. row_at (nd_storage nd) db hash = Some row
     \<and> check_approvee_solid_state nd ts db (tx_trunk (attachment row)) = Some (RC_OK, True)
     \<and> check_approvee_solid_state nd ts db (tx_branch (attachment row)) = Some (RC_OK, True) \<and> update_solidity (nd_storage nd) db [hash] True = (ret, db'))"
  using assms unfolding check_transaction_and_update_solid_state_def
  by (auto simp: visit_model_accessors solid_of_model some_map_option dest!: load_row_at(1) split: option.splits bool.splits prod.splits if_splits)

lemma check_transaction_keeps:
  assumes "solidifier_node nd" "solidifier_ok nd E ts db" "check_transaction_and_update_solid_state nd ts db hash = Some (ret, new, db')"
  shows "solidifier_ok nd E ts db'"
  using check_transaction_cases [OF assms(3)]
proof (elim disjE exE conjE)
  fix row
  assume row: "row_at (nd_storage nd) db hash = Some row" and u: "update_solidity (nd_storage nd) db [hash] True = (ret, db')"
    and "check_approvee_solid_state nd ts db (tx_trunk (attachment row)) = Some (RC_OK, True)" "check_approvee_solid_state nd ts db (tx_branch (attachment row)) = Some (RC_OK, True)"
  then have g: "grounded (nd_storage nd) E db x" if "x \<in> {tx_trunk (attachment row), tx_branch (attachment row)}" for x
    using that check_approvee_grounded [OF assms(1)] assms(2) by (auto simp: solidifier_ok_def)
  have S: "solidity_storage (nd_storage nd)" and c: "solid_closed (nd_storage nd) E db" using assms(1,2) by (simp_all add: solidifier_node_def solidifier_ok_def)
  have "solid_closed (nd_storage nd) E db'" by (rule solidity_storage.update_keeps_closed [OF S u c]) (use row g in auto)
  with assms(2) show ?thesis by (simp add: solidifier_ok_def)
qed (use assms(2) in simp)

lemma add_new_solid_points: "solid_points nd (snd (add_new_solid_transaction nd ts hash)) = solid_points nd ts"
  by (auto simp: add_new_solid_transaction_def Let_def split: prod.splits)

lemma check_and_update_keeps:
  assumes "solidifier_node nd" "solidifier_ok nd E ts db"
    and "iota_consensus_transaction_solidifier_check_and_update_solid_state nd ts db hash = Some (ret, ts', db')"
  shows "solidifier_ok nd E ts' db'"
proof (cases "ts_requester ts = None")
  case False
  then obtain r new where r: "check_transaction_and_update_solid_state nd ts db hash = Some (r, new, db')" "solid_points nd ts' = solid_points nd ts"
    using assms(3) add_new_solid_points [of nd ts hash]
    by (auto simp: iota_consensus_transaction_solidifier_check_and_update_solid_state_def split: option.splits prod.splits if_splits)
  from check_transaction_keeps [OF assms(1,2) r(1)] r(2) show ?thesis by (simp add: solidifier_ok_def)
qed (use assms in \<open>auto simp: iota_consensus_transaction_solidifier_check_and_update_solid_state_def\<close>)

lemma propagate_approvers_keeps:
  assumes "solidifier_node nd"
  shows "solidifier_ok nd E ts db \<Longrightarrow> propagate_approvers nd to_propagate approvers ts db = Some (ret, ts', db') \<Longrightarrow> solidifier_ok nd E ts' db'"
  by (induction approvers arbitrary: ts db) (auto dest: check_and_update_keeps [OF assms, rotated] split: if_splits option.splits prod.splits)

lemma propagate_loop_keeps:
  assumes "solidifier_node nd"
  shows "solidifier_ok nd E ts db \<Longrightarrow> propagate_loop nd pack_room running to_propagate hashes capacity ts db = Some (ret, ts', db') \<Longrightarrow> solidifier_ok nd E ts' db'"
  by (induction hashes arbitrary: capacity ts db) (auto dest: propagate_approvers_keeps [OF assms, rotated] split: if_splits option.splits prod.splits)

lemma propagate_keeps:
  assumes "solidifier_node nd" "solidifier_ok nd E ts db" "propagate_solid_transactions nd pack_room running ts db = Some (ret, ts', db')"
  shows "solidifier_ok nd E ts' db'"
proof -
  have "solidifier_ok nd E (ts\<lparr>ts_newly_set_solid_transactions := HASH_NULL (nd_set nd)\<rparr>) db" using assms(2) by (simp add: solidifier_ok_def)
  with propagate_loop_keeps [OF assms(1)] assms(3) show ?thesis by (auto simp: propagate_solid_transactions_def Let_def split: if_splits)
qed

lemma update_status_keeps:
  assumes "solidifier_node nd" "solidifier_ok nd E ts db" "iota_consensus_transaction_solidifier_update_status nd ts db tx = Some (ret, ts', db')"
  shows "solidifier_ok nd E ts' db'"
proof -
  have "solidifier_ok nd E ts1 db" if "solid_points nd ts1 = solid_points nd ts" for ts1 using assms(2) that by (simp add: solidifier_ok_def)
  with assms(3) show ?thesis unfolding iota_consensus_transaction_solidifier_update_status_def Let_def
    by (auto elim!: check_and_update_keeps [OF assms(1), rotated] split: option.splits prod.splits if_splits)
qed

section \<open>Runs\<close>

text \<open>
  The other parts of the node store new transactions, which are not solid, and change other columns; they do not delete rows.
\<close>

definition rows_extended :: "('db, 'l) storage \<Rightarrow> 'db \<Rightarrow> 'db \<Rightarrow> bool" where
  "rows_extended S db db' \<longleftrightarrow>
     (\<forall>h row. row_at S db h = Some row \<longrightarrow> (\<exists>row'. row_at S db' h = Some row' \<and> attachment row' = attachment row \<and> tx_solid (metadata row') = tx_solid (metadata row)))
   \<and> (\<forall>h. row_at S db h = None \<longrightarrow> \<not> solid_row S db' h)"

lemma rows_extended_solid: "rows_extended S db db' \<Longrightarrow> solid_row S db' h = solid_row S db h"
  unfolding rows_extended_def solid_row_iff by (cases "row_at S db h") fastforce+

lemma rows_extended_closed:
  assumes "rows_extended S db db'" "solid_closed S E db"
  shows "solid_closed S E db'"
  unfolding solid_closed_def
proof (intro allI impI)
  fix h row' assume r: "row_at S db' h = Some row'" "tx_solid (metadata row')" "h \<notin> E"
  then have "solid_row S db h" using rows_extended_solid [OF assms(1), of h] by (auto simp: solid_row_iff)
  then obtain row where row: "row_at S db h = Some row" "tx_solid (metadata row)" by (auto simp: solid_row_iff)
  with assms(1) r have "attachment row' = attachment row" by (force simp: rows_extended_def)
  with row assms(2) r(3) show "grounded S E db' (tx_trunk (attachment row')) \<and> grounded S E db' (tx_branch (attachment row'))"
    by (simp add: solid_closed_def grounded_def rows_extended_solid [OF assms(1)])
qed

text \<open>The calls of the solidifier and the steps of other threads in any order.\<close>

inductive solidifier_run :: "('db, 's, 'm, 't, 'k) node \<Rightarrow> ('s, 'm, 't) transaction_solidifier \<Rightarrow> 'db \<Rightarrow> ('s, 'm, 't) transaction_solidifier \<Rightarrow> 'db \<Rightarrow> bool"
  for nd ts db
where
  run_start: "solidifier_run nd ts db ts db"
| run_check: "solidifier_run nd ts db ts1 db1 \<Longrightarrow> iota_consensus_transaction_solidifier_check_solidity nd ts1 db1 hash max_analyzed b = Some (ret, b', ts2, db2)
    \<Longrightarrow> solidifier_run nd ts db ts2 db2"
| run_update: "solidifier_run nd ts db ts1 db1 \<Longrightarrow> iota_consensus_transaction_solidifier_check_and_update_solid_state nd ts1 db1 hash = Some (ret, ts2, db2)
    \<Longrightarrow> solidifier_run nd ts db ts2 db2"
| run_status: "solidifier_run nd ts db ts1 db1 \<Longrightarrow> iota_consensus_transaction_solidifier_update_status nd ts1 db1 tx = Some (ret, ts2, db2)
    \<Longrightarrow> solidifier_run nd ts db ts2 db2"
| run_propagate: "solidifier_run nd ts db ts1 db1 \<Longrightarrow> propagate_solid_transactions nd pack_room running ts1 db1 = Some (ret, ts2, db2)
    \<Longrightarrow> solidifier_run nd ts db ts2 db2"
| run_others: "solidifier_run nd ts db ts1 db1 \<Longrightarrow> rows_extended (nd_storage nd) db1 db2
    \<Longrightarrow> solidifier_run nd ts db (ts1\<lparr>ts_requester := rq, ts_tips := tips\<rparr>) db2"

lemma solidifier_run_keeps:
  assumes "solidifier_run nd ts db ts' db'" "solidifier_node nd" "solid_closed (nd_storage nd) (solid_points nd ts) db"
  shows "solidifier_ok nd (solid_points nd ts) ts' db'"
  using assms(1)
proof (induction rule: solidifier_run.induct)
  case run_start
  with assms(3) show ?case by (simp add: solidifier_ok_def)
next
  case (run_others ts1 db1 db2 rq tips)
  then show ?case using rows_extended_closed by (auto simp: solidifier_ok_def)
next
  case (run_check ts1 db1 hash max_analyzed b ret b' ts2 db2)
  show ?case by (rule check_solidity_keeps [OF assms(2) run_check.IH run_check.hyps(2)])
next
  case (run_update ts1 db1 hash ret ts2 db2)
  show ?case by (rule check_and_update_keeps [OF assms(2) run_update.IH run_update.hyps(2)])
next
  case (run_status ts1 db1 tx ret ts2 db2)
  show ?case by (rule update_status_keeps [OF assms(2) run_status.IH run_status.hyps(2)])
next
  case (run_propagate ts1 db1 pack_room running ret ts2 db2)
  show ?case by (rule propagate_keeps [OF assms(2) run_propagate.IH run_propagate.hyps(2)])
qed

section \<open>A complete past\<close>

text \<open>What the visitor does with a transaction of the database, as long as it may go on.\<close>

definition solidity_step :: "('db, 's, 'm, 't, 'k) node \<Rightarrow> 'db \<Rightarrow> flex_hash \<Rightarrow> 't solidity_params \<Rightarrow> 't solidity_params" where
  "solidity_step nd db h params =
     params\<lparr>so_max_analyzed := so_max_analyzed params - 1,
       so_candidates := if solid_row (nd_storage nd) db h then so_candidates params else snd (hash_set_add (nd_set nd) (so_candidates params) h)\<rparr>"

definition solidity_progress ::
  "('db, 's, 'm, 't, 'k) node \<Rightarrow> 'db \<Rightarrow> flex_hash set \<Rightarrow> int \<Rightarrow> flex_hash list \<Rightarrow> 't solidity_params \<Rightarrow> bool"
where
  "solidity_progress nd db V m vs params \<longleftrightarrow> distinct vs \<and> set vs \<subseteq> V \<and> so_is_solid params \<and> so_max_analyzed params = m - int (length vs)
     \<and> set (HASH_KEYS (nd_set nd) (so_candidates params)) = {h \<in> set vs. \<not> solid_row (nd_storage nd) db h}"

lemma solidity_visit:
  assumes "uthash_laws (nd_set nd)" "\<And>t. HASH_ROOM (nd_set nd) t" "finite V" "int (card V) \<le> m" "h \<in> V" "h \<notin> set vs" "solidity_progress nd db V m vs params"
    and "select_by_hash (nd_storage nd) db h = (RC_OK, [row])"
  shows "check_solidity_do_func nd db seps h True (visit_model (nd_enc nd) row) params b False
      = Some (RC_OK, solidity_step nd db h params, \<not> solid_row (nd_storage nd) db h, False) \<and> solidity_progress nd db V m (vs @ [h]) (solidity_step nd db h params)"
proof -
  have "length vs < card V" using psubset_card_mono [OF assms(3), of "set vs"] assms(5-7) distinct_card [of vs] by (auto simp: solidity_progress_def)
  then have m: "0 < so_max_analyzed params" using assms(4,7) by (simp add: solidity_progress_def)
  have s: "solid_row (nd_storage nd) db h = tx_solid (metadata row)" using assms(8) by (simp add: solid_row_def row_at_def)
  note a = hash_set_add_room [OF assms(1,2), of "so_candidates params" h]
  show ?thesis using m s assms(5-7) a
    by (auto simp: check_solidity_do_func_def Let_def solid_of_model solidity_step_def solidity_progress_def split: prod.splits)
qed

lemma entry_point_count:
  assumes "uthash_laws (nd_set nd)" "set (HASH_KEYS (nd_set nd) t) \<subseteq> E" "finite E"
  shows "hash_set_size (nd_set nd) t \<le> card E"
proof -
  have "hash_set_size (nd_set nd) t = card (set (HASH_KEYS (nd_set nd) t))"
    using distinct_card [OF uthash_laws.keys_distinct [OF assms(1), of t]] by (simp add: hash_set_size_def HASH_COUNT_def HASH_KEYS_def)
  with card_mono [OF assms(3,2)] show ?thesis by simp
qed

lemma check_solidity_complete:
  assumes "solidifier_node nd" "\<And>t. HASH_ROOM (nd_set nd) t" "nd_room nd = (\<lambda>_. True)" "sn_lock (pr_initial_snapshot (ts_snapshots_provider ts))" "E = solid_points nd ts"
    and "closed_tangle (nd_storage nd) W E trunk branch db" "hash \<in> W - E" "int (card (W - E)) \<le> max_analyzed" "max_analyzed + int (card E) < 2 ^ 31"
    and "\<And>hs. fst (update_solidity (nd_storage nd) db hs True) = RC_OK"
  shows "\<exists>ts' db'. iota_consensus_transaction_solidifier_check_solidity nd ts db hash max_analyzed b = Some (RC_OK, True, ts', db') \<and> solid_row (nd_storage nd) db' hash"
proof -
  let ?S = "nd_storage nd" and ?U = "nd_set nd" and ?V = "W - E"
  have U: "uthash_laws ?U" and S: "solidity_storage ?S" using assms(1) by (simp_all add: solidifier_node_def)
  have null: "HASH_KEYS ?U (HASH_NULL ?U) = []" by (simp add: HASH_KEYS_def uthash_laws.null_entries [OF U])
  obtain row where row: "select_by_hash ?S db hash = (RC_OK, [row])" using assms(6,7) by (auto simp: closed_tangle_def)
  have load: "iota_tangle_transaction_load_partial (nd_enc nd) ?S db hash PARTIAL_TX_MODEL_ESSENCE_ATTACHMENT_METADATA = (RC_OK, Some (visit_model (nd_enc nd) row))"
    using row by (simp add: iota_tangle_transaction_load_partial_def storage_load_def load_single_def)
  show ?thesis
  proof (cases "tx_solid (metadata row)")
    case True
    then show ?thesis using load row
      by (simp add: iota_consensus_transaction_solidifier_check_solidity_def overwrite_def solid_of_model solid_row_def row_at_def)
  next
    case False
    let ?A = "hash_map_keys (nd_points nd) ?U (md_solid_entry_points (sn_metadata (pr_initial_snapshot (ts_snapshots_provider ts)))) (HASH_NULL ?U)"
    let ?seps = "snd (hash_set_append ?U ?A (HASH_NULL ?U))"
    let ?m = "wrap32 (max_analyzed + int (hash_set_size ?U ?seps))"
    let ?d = "\<lparr>so_is_solid = True, so_candidates = HASH_NULL ?U, so_max_analyzed = ?m, so_requester = ts_requester ts\<rparr>"
    have A: "set (HASH_KEYS ?U ?A) = set (HASH_KEYS (nd_points nd) (md_solid_entry_points (sn_metadata (pr_initial_snapshot (ts_snapshots_provider ts)))))"
      by (simp add: hash_map_keys_keys [OF U assms(2)] null)
    then have seen: "E = insert (cf_genesis_hash (ts_conf ts)) (set (HASH_KEYS ?U ?A))" by (simp add: assms(5) solid_points_def)
    have "hash_set_size ?U ?seps \<le> card E"
      by (rule entry_point_count [OF U]) (use hash_set_append_subset [OF U, of ?A "HASH_NULL ?U"] seen in \<open>auto simp: null\<close>)
    then have m1: "?m = max_analyzed + int (hash_set_size ?U ?seps)" using assms(8,9) by (intro wrap32_id) auto
    then have m: "int (card ?V) \<le> ?m" using assms(8) by linarith
    have fin: "finite ?V" using assms(6) by (simp add: closed_tangle_def)
    have start: "solidity_progress nd db ?V ?m [] ?d" by (simp add: solidity_progress_def null)
    have "\<exists>A' order. tangle_traversal_dfs_to_past (nd_enc nd) ?S ?U (\<lambda>_. True) (nd_tx nd) (\<lambda>_. db) (check_solidity_do_func nd db ?seps) hash (cf_genesis_hash (ts_conf ts)) (Some ?A) ?d
          = Some (RC_OK, Some A', fold (solidity_step nd db) order ?d)
        \<and> distinct order \<and> solidity_progress nd db ?V ?m order (fold (solidity_step nd db) order ?d) \<and> set (HASH_KEYS ?U A') = E \<union> set order \<and> set order \<subseteq> W - E
        \<and> set order = reachable_avoiding (\<lambda>h. if \<not> solid_row ?S db h then [trunk h, branch h] else []) E {hash}"
      by (rule dfs_to_past_visits [where I = "solidity_progress nd db ?V ?m", OF U assms(2) seen assms(6) start])
        (use assms(7) solidity_visit [where seps = ?seps, OF U assms(2) fin m] in blast)+
    then obtain A' params' order where t: "tangle_traversal_dfs_to_past (nd_enc nd) ?S ?U (\<lambda>_. True) (nd_tx nd) (\<lambda>_. db) (check_solidity_do_func nd db ?seps) hash
          (cf_genesis_hash (ts_conf ts)) (Some ?A) ?d = Some (RC_OK, Some A', params')" and p: "solidity_progress nd db ?V ?m order params'"
        and o: "set order = reachable_avoiding (\<lambda>h. if \<not> solid_row ?S db h then [trunk h, branch h] else []) E {hash}" by blast
    obtain db' where db': "update_solidity ?S db (HASH_KEYS ?U (so_candidates params')) True = (RC_OK, db')" using assms(10) [of "HASH_KEYS ?U (so_candidates params')"]
      by (cases "update_solidity ?S db (HASH_KEYS ?U (so_candidates params')) True") simp
    have "hash \<in> set order" using assms(7) o by (blast intro: reach_start)
    then have "hash \<in> set (HASH_KEYS ?U (so_candidates params'))" using p False row by (simp add: solidity_progress_def solid_row_def row_at_def)
    then have "solid_row ?S db' hash" using solidity_storage.update_done [OF S db', of hash] row by (simp add: solid_row_def row_at_def)
    with load False t db' p show ?thesis
      by (simp add: iota_consensus_transaction_solidifier_check_solidity_def overwrite_def solid_of_model iota_snapshot_solid_entry_points_set_def assms(3,4) Let_def
          solidity_progress_def)
  qed
qed

section \<open>A sample\<close>

text \<open>Two transactions above the genesis, which is the only entry point.\<close>

definition sample_solidifier :: "((flex_hash, int) alist, (flex_hash, int) alist, (flex_hash, unit) alist) transaction_solidifier" where
  "sample_solidifier = snd (iota_consensus_transaction_solidifier_init sample_node example_conf None \<lparr>pr_initial_snapshot = example_snapshot, pr_latest_snapshot = example_snapshot\<rparr>
     \<lparr>tc_tips = DAList.empty, tc_solid_tips = DAList.empty, tc_capacity = 10\<rparr>)"

definition sample_chain :: "(flex_hash \<times> iota_transaction) list" where
  "sample_chain = [sample_row 0 0 [7] [2] [1], sample_row 0 0 [7] null_address [2]]"

lemma sample_solidifier_node: "solidifier_node sample_node"
  by (simp add: solidifier_node_def row_list.solidity_storage_axioms alist_table.uthash_laws_axioms) (simp add: sample_node_def alist_table.uthash_laws_axioms)

lemma sample_solid_points: "solid_points sample_node sample_solidifier = {null_address}"
  by (simp add: solid_points_def sample_solidifier_def iota_consensus_transaction_solidifier_init_def)
    (simp add: sample_node_def example_conf_def example_snapshot_def HASH_KEYS_def alist_uthash_def)

lemma sample_chain_rows:
  "row_at (list_storage d) sample_chain [1] = Some (snd (sample_row 0 0 [7] [2] [1]))" "row_at (list_storage d) sample_chain [2] = Some (snd (sample_row 0 0 [7] null_address [2]))"
  "row_at (list_storage d) sample_chain h \<noteq> None \<longleftrightarrow> h = [1] \<or> h = [2]"
  by (auto simp: list_storage_row_at sample_chain_def sample_row_def)

lemma sample_chain_not_solid: "\<not> solid_row (list_storage d) sample_chain h"
  by (simp add: solid_row_def list_storage_row_at sample_chain_def sample_row_def transaction_reset_def Let_def split: option.splits)

lemma sample_hash_not_null: "null_address \<noteq> [x]"
  by (simp add: null_address_def list_eq_iff_nth_eq)

lemma sample_chain_facts:
  "HASH_ROOM (nd_set sample_node) t" "nd_room sample_node = (\<lambda>_. True)" "sn_lock (pr_initial_snapshot (ts_snapshots_provider sample_solidifier))"
  "{null_address} = solid_points sample_node sample_solidifier"
  "closed_tangle (nd_storage sample_node) {[1], [2], null_address} {null_address} (\<lambda>h. if h = [1] then [2] else null_address) (\<lambda>h. if h = [1] then [2] else null_address) sample_chain"
  "[1] \<in> {[1], [2], null_address} - {null_address}" "int (card ({[1], [2], null_address} - {null_address})) \<le> 2" "2 + int (card {null_address}) < 2 ^ 31"
  "fst (update_solidity (nd_storage sample_node) db hs True) = RC_OK"
proof -
  have "{[1], [2], null_address} - {null_address} \<subseteq> {[1], [2] :: flex_hash}" by blast
  then have "card ({[1], [2], null_address} - {null_address}) \<le> card {[1], [2] :: flex_hash}" by (intro card_mono) auto
  then show "int (card ({[1], [2], null_address} - {null_address})) \<le> 2" by simp
  show "closed_tangle (nd_storage sample_node) {[1], [2], null_address} {null_address} (\<lambda>h. if h = [1] then [2] else null_address) (\<lambda>h. if h = [1] then [2] else null_address) sample_chain"
    by (auto simp: closed_tangle_def list_storage_def sample_chain_def)
  show "{null_address} = solid_points sample_node sample_solidifier" by (simp add: sample_solid_points)
qed (simp_all add: list_storage_def sample_hash_not_null [THEN not_sym] sample_solidifier_def iota_consensus_transaction_solidifier_init_def,
  simp_all add: sample_node_def alist_uthash_def)

lemma sample_chain_becomes_solid:
  "\<exists>ts' db'. iota_consensus_transaction_solidifier_check_solidity sample_node sample_solidifier sample_chain [1] 2 False = Some (RC_OK, True, ts', db')
     \<and> solid_row (nd_storage sample_node) db' [1]"
  by (rule check_solidity_complete [OF sample_solidifier_node sample_chain_facts])

section \<open>Properties\<close>



text \<open>
  C14. When the whole past of a transaction is in the database and the limit of the traversal is large enough, the check of its solidity ends, finds it solid and marks it.
\<close>

theorem complete_past_becomes_solid:
  assumes "solidifier_node nd" "\<And>t. HASH_ROOM (nd_set nd) t" "nd_room nd = (\<lambda>_. True)" "sn_lock (pr_initial_snapshot (ts_snapshots_provider ts))" "E = solid_points nd ts"
    and "closed_tangle (nd_storage nd) W E trunk branch db" "hash \<in> W - E" "int (card (W - E)) \<le> max_analyzed" "max_analyzed + int (card E) < 2 ^ 31"
    and "\<And>hs. fst (update_solidity (nd_storage nd) db hs True) = RC_OK"
  shows "\<exists>ts' db'. iota_consensus_transaction_solidifier_check_solidity nd ts db hash max_analyzed b = Some (RC_OK, True, ts', db') \<and> solid_row (nd_storage nd) db' hash"
  by (rule check_solidity_complete [OF assms])

theorem complete_past_becomes_solid_witness:
  "\<exists>ts' db'. iota_consensus_transaction_solidifier_check_solidity sample_node sample_solidifier sample_chain [1] 2 False = Some (RC_OK, True, ts', db')
     \<and> solid_row (nd_storage sample_node) db' [1]"
  by (rule complete_past_becomes_solid [OF sample_solidifier_node sample_chain_facts])

end
