(* ===== verification/Transaction_Validator.thy ===== *)
theory Transaction_Validator
  imports "HOL-Library.Monad_Syntax" Prelude Errors Flex_Trit Transaction Bundle Hash_Containers Snapshot_Text Snapshot Node_Caches Requester
begin

text \<open>
  \<open>ciri/consensus/transaction_validator/transaction_validator.c\<close>: which transactions the node accepts from its neighbours, before their bundles are known. The clock is an argument.
\<close>

section \<open>Definitions\<close>

definition MAX_TIMESTAMP_FUTURE_MS :: int where "MAX_TIMESTAMP_FUTURE_MS = 2 * 60 * 60 * 1000"

text \<open>The configuration has the field \<open>mwm\<close> too; a pointer is NULL after \<open>destroy\<close>.\<close>

record validator_conf = consensus_conf +
  cf_mwm :: nat

record ('s, 'm, 't) transaction_validator =
  tv_conf :: "validator_conf option"
  tv_snapshots_provider :: "('s, 'm) snapshots_provider"
  tv_transaction_requester :: "'t transaction_requester"

definition iota_consensus_transaction_validator_init ::
  "('s, 'm, 't) transaction_validator \<Rightarrow> ('s, 'm) snapshots_provider \<Rightarrow> 't transaction_requester \<Rightarrow> validator_conf \<Rightarrow> retcode \<times> ('s, 'm, 't) transaction_validator"
where
  "iota_consensus_transaction_validator_init tv snapshots_provider transaction_requester conf =
     (RC_OK, tv\<lparr>tv_conf := Some conf, tv_snapshots_provider := snapshots_provider, tv_transaction_requester := transaction_requester\<rparr>)"

definition iota_consensus_transaction_validator_destroy :: "('s, 'm, 't) transaction_validator \<Rightarrow> retcode \<times> ('s, 'm, 't) transaction_validator" where
  "iota_consensus_transaction_validator_destroy tv = (RC_OK, tv\<lparr>tv_conf := None\<rparr>)"

text \<open>\<open>None\<close>: a column is not loaded, the lock of the snapshot was destroyed, or the configuration is NULL.\<close>

definition has_invalid_timestamp ::
  "'m entry_points_ops \<Rightarrow> 't hash_set_ops \<Rightarrow> int \<Rightarrow> ('s, 'm, 't) transaction_validator \<Rightarrow> iota_transaction \<Rightarrow> bool option"
where
  "has_invalid_timestamp M U current_timestamp_ms tv transaction = do {
     attachment_timestamp \<leftarrow> transaction_attachment_timestamp transaction;
     timestamp_ms \<leftarrow> (if attachment_timestamp = 0 then map_option (\<lambda>t. uwrap64 (t * 1000)) (transaction_timestamp transaction) else Some attachment_timestamp);
     let is_too_futuristic = timestamp_ms > uwrap64 (current_timestamp_ms + MAX_TIMESTAMP_FUTURE_MS);
     hash \<leftarrow> transaction_hash transaction;
     let initial_snapshot = pr_initial_snapshot (tv_snapshots_provider tv);
     is_below_snapshot \<leftarrow>
       (if timestamp_ms < uwrap64 (md_timestamp (sn_metadata initial_snapshot) * 1000)
        then map_option Not (iota_snapshot_has_solid_entry_point M initial_snapshot hash) else Some False);
     let (_, was_requested) = requester_was_requested U (Some (tv_transaction_requester tv)) (Some hash) (Some False);
     if was_requested = Some True then Some False
     else if is_too_futuristic then Some True
     else if is_below_snapshot then map_option (\<lambda>conf. hash \<noteq> cf_genesis_hash conf) (tv_conf tv)
     else Some False }"

definition iota_consensus_transaction_validate ::
  "flex_enc \<Rightarrow> 'm entry_points_ops \<Rightarrow> 't hash_set_ops \<Rightarrow> int \<Rightarrow> ('s, 'm, 't) transaction_validator \<Rightarrow> iota_transaction \<Rightarrow> bool option"
where
  "iota_consensus_transaction_validate e M U current_timestamp_ms tv transaction = do {
     weight \<leftarrow> transaction_weight_magnitude e transaction;
     conf \<leftarrow> tv_conf tv;
     if weight < cf_mwm conf then Some False
     else do {
       invalid \<leftarrow> has_invalid_timestamp M U current_timestamp_ms tv transaction;
       if invalid then Some False
       else do {
         v \<leftarrow> transaction_value transaction;
         a \<leftarrow> llabs v;
         if a > IOTA_SUPPLY then Some False
         else do {
           address \<leftarrow> (if v \<noteq> 0 then transaction_address transaction else Some []);
           if v \<noteq> 0 \<and> flex_trits_at e address NUM_TRITS_ADDRESS (NUM_TRITS_ADDRESS - 1) \<noteq> 0 then Some False
           else Some True } } } }"

section \<open>What is accepted\<close>

text \<open>The time of a transaction, in milliseconds: of its attachment if that is not zero.\<close>

definition transaction_time :: "int \<Rightarrow> int \<Rightarrow> int" where
  "transaction_time attachment_timestamp timestamp = (if attachment_timestamp = 0 then 1000 * timestamp else attachment_timestamp)"

text \<open>
  A transaction that was asked for may have any time. Others are not from more than two hours ahead, and not from before the snapshot, unless they are an entry
  point or the genesis.
\<close>

definition time_accepted :: "'m entry_points_ops \<Rightarrow> 't hash_set_ops \<Rightarrow> int \<Rightarrow> ('s, 'm, 't) transaction_validator \<Rightarrow> validator_conf \<Rightarrow> flex_trit list \<Rightarrow> int \<Rightarrow> bool" where
  "time_accepted M U now tv conf hash t \<longleftrightarrow>
     hash_set_contains U (rq_requested_hashes (tv_transaction_requester tv)) hash
     \<or> t \<le> now + MAX_TIMESTAMP_FUTURE_MS
       \<and> (1000 * md_timestamp (sn_metadata (pr_initial_snapshot (tv_snapshots_provider tv))) \<le> t
          \<or> hash_map_contains M (md_solid_entry_points (sn_metadata (pr_initial_snapshot (tv_snapshots_provider tv)))) hash
          \<or> hash = cf_genesis_hash conf)"

lemma has_invalid_timestamp_correct:
  assumes "tv_conf tv = Some conf" "sn_lock (pr_initial_snapshot (tv_snapshots_provider tv))"
    and "transaction_hash tx = Some hash" "transaction_attachment_timestamp tx = Some attached" "transaction_timestamp tx = Some issued"
    and "0 \<le> issued" "1000 * issued < 2 ^ 64" "0 \<le> now" "now + MAX_TIMESTAMP_FUTURE_MS < 2 ^ 64"
    and "0 \<le> md_timestamp (sn_metadata (pr_initial_snapshot (tv_snapshots_provider tv)))" "1000 * md_timestamp (sn_metadata (pr_initial_snapshot (tv_snapshots_provider tv))) < 2 ^ 64"
  shows "has_invalid_timestamp M U now tv tx = Some (\<not> time_accepted M U now tv conf hash (transaction_time attached issued))"
proof -
  let ?s = "md_timestamp (sn_metadata (pr_initial_snapshot (tv_snapshots_provider tv)))"
  have u: "uwrap64 (issued * 1000) = 1000 * issued" "uwrap64 (?s * 1000) = 1000 * ?s" "uwrap64 (now + MAX_TIMESTAMP_FUTURE_MS) = now + MAX_TIMESTAMP_FUTURE_MS"
    using assms(6-11) by (simp_all add: mod_pos_pos_trivial MAX_TIMESTAMP_FUTURE_MS_def mult.commute)
  have t: "(if attached = 0 then map_option (\<lambda>t. uwrap64 (t * 1000)) (transaction_timestamp tx) else Some attached) = Some (transaction_time attached issued)"
    using assms(5) u(1) by (simp add: transaction_time_def)
  show ?thesis
    unfolding has_invalid_timestamp_def assms(3,4) u Let_def
    using t assms(1,2)
    by (auto simp: time_accepted_def requester_was_requested_def iota_snapshot_has_solid_entry_point_def not_less not_le)
qed

lemma validate_correct:
  assumes "tv_conf tv = Some conf" "sn_lock (pr_initial_snapshot (tv_snapshots_provider tv))"
    and "transaction_hash tx = Some hash" "transaction_attachment_timestamp tx = Some attached" "transaction_timestamp tx = Some issued"
    and "0 \<le> issued" "1000 * issued < 2 ^ 64" "0 \<le> now" "now + MAX_TIMESTAMP_FUTURE_MS < 2 ^ 64"
    and "0 \<le> md_timestamp (sn_metadata (pr_initial_snapshot (tv_snapshots_provider tv)))" "1000 * md_timestamp (sn_metadata (pr_initial_snapshot (tv_snapshots_provider tv))) < 2 ^ 64"
    and "transaction_weight_magnitude e tx = Some weight" "transaction_value tx = Some v" "v \<noteq> INT64_MIN" "transaction_address tx = Some address"
  shows "iota_consensus_transaction_validate e M U now tv tx =
    Some (cf_mwm conf \<le> weight \<and> time_accepted M U now tv conf hash (transaction_time attached issued) \<and> \<bar>v\<bar> \<le> IOTA_SUPPLY
      \<and> (v \<noteq> 0 \<longrightarrow> flex_trits_at e address 243 242 = 0))"
  using assms(1,12-15) has_invalid_timestamp_correct [OF assms(1-11)] by (auto simp: iota_consensus_transaction_validate_def llabs_def)

section \<open>Properties\<close>


definition example_validator :: "((flex_hash, int) alist, (flex_hash, int) alist, (flex_trit list, unit) alist) transaction_validator" where
  "example_validator = \<lparr>tv_conf = Some \<lparr>cf_genesis_hash = null_address, cf_last_milestone = 3, cf_snapshot_file = ''snapshot.txt'', cf_snapshot_signature_skip_validation = True,
       cf_snapshot_timestamp_sec = 77, cf_local_snapshots_is_enabled = True, cf_base_dir = ''local'', cf_mwm = 14\<rparr>,
     tv_snapshots_provider = \<lparr>pr_initial_snapshot = example_snapshot, pr_latest_snapshot = example_snapshot\<rparr>,
     tv_transaction_requester = \<lparr>rq_running = False, rq_queue_size = 2, rq_hashes = DAList.empty, rq_requested_hashes = DAList.empty\<rparr>\<rparr>"

definition heavy_hash :: "flex_trit list" where "heavy_hash = replicate 70 65 @ replicate 11 57"

definition heavy_tx :: iota_transaction where
  "heavy_tx = transaction_set_hash ENC3 (transaction_set_attachment_timestamp (loaded_tx ENC3) 1000000) heavy_hash"

lemma heavy_tx_getters:
  "transaction_hash heavy_tx = Some heavy_hash" "transaction_attachment_timestamp heavy_tx = Some 1000000" "transaction_timestamp heavy_tx = Some 0" "transaction_value heavy_tx = Some 0"
  "transaction_address heavy_tx = Some (tx_address (essence (transaction_reset ENC3)))"
proof -
  show "transaction_hash heavy_tx = Some heavy_hash" by (simp add: heavy_tx_def hash_after_set heavy_hash_def FLEX_TRIT_SIZE_243_def)
  show "transaction_attachment_timestamp heavy_tx = Some 1000000" "transaction_timestamp heavy_tx = Some 0" "transaction_value heavy_tx = Some 0"
    "transaction_address heavy_tx = Some (tx_address (essence (transaction_reset ENC3)))"
    using loaded_tx_getters [of ENC3]
    by (simp_all add: heavy_tx_def transaction_set_hash_def transaction_set_attachment_timestamp_def load_consensus_def load_attachment_def transaction_getter_defs column_loaded_def mask_defs split: if_splits)
qed


end
