(* ===== verification/Troika.thy ===== *)
theory Troika
  imports Prelude
begin

text \<open>
  \<open>common/crypto/troika/troika.c\<close>: the Troika hash function, one trit at a time. The state has 27 slices of three rows and nine columns; its trits are 0, 1 and 2.
  \<open>troika_permutation\<close> asserts that there are at most 24 rounds.
\<close>

section \<open>Definitions\<close>

abbreviation COLUMNS :: nat where "COLUMNS \<equiv> 9"
abbreviation ROWS :: nat where "ROWS \<equiv> 3"
abbreviation SLICES :: nat where "SLICES \<equiv> 27"
abbreviation SLICESIZE :: nat where "SLICESIZE \<equiv> 27"
abbreviation STATESIZE :: nat where "STATESIZE \<equiv> 729"
abbreviation NUM_SBOXES :: nat where "NUM_SBOXES \<equiv> 243"
abbreviation NUM_ROUNDS :: nat where "NUM_ROUNDS \<equiv> 24"
abbreviation TROIKA_RATE :: nat where "TROIKA_RATE \<equiv> 243"
abbreviation TROIKA_PADDING :: trit where "TROIKA_PADDING \<equiv> 1"

definition round_constants :: "trit list list" where
  "round_constants = [
     [2, 2, 2, 2, 1, 2, 0, 1, 0, 1, 1, 0, 2, 0, 1, 0, 1, 1, 0, 0, 1, 2, 1, 1, 1, 0, 0, 2, 0, 2, 1, 0, 2, 2, 2, 1, 0, 2, 2, 0, 0, 1, 2, 2, 1, 0, 1, 0,
      1, 2, 2, 2, 0, 1, 2, 2, 1, 1, 2, 1, 1, 2, 0, 2, 0, 2, 0, 0, 0, 0, 2, 1, 1, 2, 1, 0, 1, 0, 2, 1, 1, 0, 0, 2, 2, 2, 2, 0, 1, 1, 2, 1, 2, 2, 0, 1,
      2, 2, 2, 0, 1, 0, 2, 2, 0, 2, 1, 1, 2, 1, 2, 1, 0, 0, 2, 1, 0, 0, 1, 2, 2, 1, 1, 1, 0, 1, 0, 2, 2, 0, 2, 2, 2, 0, 2, 2, 1, 0, 0, 0, 2, 1, 0, 0,
      1, 1, 1, 2, 2, 1, 0, 1, 0, 1, 1, 1, 1, 0, 1, 2, 2, 1, 0, 1, 0, 2, 0, 1, 2, 0, 1, 2, 2, 2, 2, 1, 0, 0, 0, 0, 2, 1, 0, 2, 1, 1, 2, 0, 2, 1, 0, 0,
      0, 1, 0, 2, 1, 2, 0, 1, 2, 1, 0, 2, 0, 2, 1, 0, 0, 1, 2, 0, 2, 2, 2, 0, 1, 0, 2, 0, 1, 0, 2, 1, 2, 1, 2, 2, 1, 1, 2, 0, 2, 2, 1, 0, 0, 2, 0, 2,
      1, 0, 1],
     [1, 1, 1, 0, 2, 2, 0, 2, 0, 1, 0, 2, 1, 1, 0, 0, 1, 1, 1, 2, 0, 1, 1, 2, 0, 1, 1, 1, 2, 0, 2, 2, 2, 0, 2, 1, 1, 2, 1, 0, 2, 1, 0, 2, 1, 0, 0, 2,
      0, 0, 0, 0, 0, 0, 1, 1, 0, 0, 1, 0, 0, 0, 1, 1, 0, 2, 0, 0, 0, 2, 1, 1, 0, 1, 2, 0, 1, 2, 1, 1, 1, 0, 1, 0, 0, 0, 1, 0, 2, 2, 0, 2, 0, 2, 1, 0,
      2, 1, 0, 0, 1, 2, 2, 0, 0, 0, 0, 1, 0, 2, 2, 2, 1, 1, 0, 1, 0, 2, 1, 2, 2, 2, 1, 0, 2, 2, 0, 2, 0, 1, 2, 1, 0, 1, 0, 0, 1, 1, 0, 1, 2, 2, 2, 0,
      0, 1, 0, 0, 1, 2, 1, 1, 1, 2, 0, 0, 0, 2, 1, 0, 2, 1, 2, 2, 1, 2, 1, 0, 0, 0, 2, 0, 0, 0, 2, 2, 1, 2, 2, 0, 0, 1, 2, 2, 1, 0, 0, 2, 1, 2, 2, 2,
      0, 1, 1, 1, 1, 2, 0, 1, 1, 2, 2, 1, 0, 1, 2, 0, 2, 2, 1, 0, 1, 2, 1, 0, 1, 0, 1, 1, 2, 1, 1, 2, 2, 2, 1, 0, 2, 0, 0, 0, 1, 1, 2, 1, 0, 2, 0, 1,
      1, 1, 2],
     [0, 2, 0, 2, 1, 2, 1, 1, 2, 1, 1, 2, 2, 2, 2, 0, 0, 0, 0, 0, 1, 1, 0, 1, 1, 1, 0, 0, 1, 1, 0, 0, 0, 1, 2, 2, 0, 1, 0, 2, 2, 1, 2, 2, 2, 2, 1, 2,
      1, 1, 0, 0, 1, 0, 2, 0, 2, 0, 1, 2, 0, 0, 2, 2, 2, 1, 1, 0, 0, 2, 0, 2, 2, 2, 2, 1, 2, 1, 0, 2, 0, 2, 0, 2, 0, 2, 2, 0, 2, 2, 1, 2, 1, 2, 0, 0,
      0, 0, 1, 0, 2, 1, 1, 2, 1, 0, 1, 0, 2, 0, 1, 0, 0, 2, 2, 2, 2, 2, 1, 1, 0, 1, 2, 2, 0, 0, 2, 2, 1, 0, 1, 2, 2, 1, 0, 2, 1, 1, 2, 1, 2, 0, 1, 0,
      0, 1, 0, 0, 1, 1, 0, 1, 0, 0, 0, 0, 0, 1, 0, 0, 2, 0, 2, 0, 0, 1, 0, 0, 1, 0, 2, 1, 0, 2, 0, 0, 0, 0, 2, 0, 0, 0, 2, 0, 1, 0, 2, 0, 0, 1, 2, 0,
      1, 1, 2, 2, 0, 2, 2, 0, 0, 2, 2, 1, 2, 0, 0, 0, 1, 0, 2, 1, 0, 1, 2, 1, 1, 0, 2, 0, 0, 2, 1, 1, 0, 1, 1, 2, 0, 0, 1, 1, 1, 0, 0, 2, 2, 2, 2, 1,
      1, 2, 2],
     [1, 2, 2, 0, 2, 2, 0, 1, 0, 0, 0, 2, 0, 0, 0, 2, 1, 0, 2, 2, 0, 0, 1, 2, 1, 0, 0, 1, 0, 1, 2, 2, 1, 2, 1, 0, 0, 1, 1, 2, 0, 0, 2, 2, 1, 0, 1, 2,
      2, 2, 0, 2, 1, 1, 2, 1, 2, 1, 1, 0, 2, 1, 0, 0, 1, 2, 0, 1, 1, 0, 0, 1, 0, 2, 0, 0, 2, 0, 2, 0, 0, 2, 2, 0, 0, 0, 2, 1, 0, 0, 2, 0, 1, 1, 2, 1,
      0, 1, 1, 0, 1, 2, 2, 0, 2, 2, 0, 0, 0, 1, 2, 2, 0, 0, 0, 1, 1, 1, 2, 2, 2, 1, 1, 1, 1, 1, 1, 1, 1, 2, 2, 2, 0, 0, 0, 0, 0, 1, 1, 1, 1, 1, 1, 0,
      0, 1, 1, 1, 0, 0, 0, 2, 2, 0, 1, 1, 2, 2, 2, 2, 2, 0, 2, 2, 2, 1, 1, 0, 0, 1, 0, 0, 2, 2, 2, 1, 2, 0, 0, 0, 1, 2, 2, 2, 0, 1, 2, 1, 1, 2, 2, 1,
      1, 2, 0, 1, 0, 0, 1, 0, 2, 0, 2, 0, 1, 0, 0, 0, 2, 2, 2, 1, 1, 1, 0, 2, 2, 2, 2, 2, 2, 2, 2, 1, 1, 2, 0, 0, 0, 0, 0, 2, 2, 0, 2, 2, 1, 0, 0, 2,
      2, 0, 0],
     [0, 1, 1, 1, 1, 2, 0, 1, 1, 1, 1, 1, 0, 1, 2, 0, 2, 1, 0, 0, 2, 0, 1, 0, 1, 2, 0, 1, 1, 0, 1, 1, 1, 1, 0, 0, 2, 0, 0, 0, 1, 0, 2, 2, 1, 0, 0, 1,
      1, 0, 2, 1, 1, 1, 1, 0, 1, 0, 1, 0, 1, 2, 0, 2, 0, 2, 1, 2, 1, 1, 0, 1, 1, 2, 2, 2, 2, 0, 1, 0, 0, 2, 1, 1, 0, 1, 2, 1, 0, 1, 1, 1, 1, 0, 1, 1,
      2, 2, 0, 1, 0, 2, 0, 0, 2, 1, 2, 2, 1, 2, 2, 0, 0, 1, 2, 0, 0, 0, 0, 2, 1, 2, 2, 0, 2, 1, 0, 2, 1, 2, 0, 2, 0, 2, 0, 0, 0, 2, 1, 1, 1, 2, 1, 0,
      1, 2, 1, 1, 2, 1, 0, 2, 2, 1, 1, 0, 0, 0, 2, 0, 1, 1, 2, 1, 2, 2, 2, 0, 1, 2, 2, 0, 1, 0, 1, 1, 2, 0, 2, 2, 2, 1, 1, 0, 2, 2, 1, 0, 2, 2, 2, 1,
      1, 1, 1, 1, 0, 1, 2, 2, 2, 2, 0, 0, 2, 0, 1, 2, 1, 0, 1, 1, 0, 0, 1, 0, 1, 2, 2, 0, 0, 2, 0, 0, 1, 1, 2, 2, 1, 0, 0, 0, 2, 1, 2, 1, 0, 1, 1, 2,
      2, 1, 2],
     [2, 2, 2, 0, 2, 1, 0, 0, 0, 1, 0, 1, 0, 2, 0, 1, 2, 1, 0, 1, 2, 2, 2, 1, 0, 1, 2, 2, 1, 2, 1, 2, 1, 2, 1, 2, 0, 0, 2, 1, 2, 1, 2, 1, 1, 2, 0, 1,
      2, 2, 1, 2, 0, 0, 2, 0, 0, 2, 0, 0, 1, 2, 0, 0, 0, 0, 0, 0, 2, 2, 0, 2, 1, 0, 0, 0, 2, 2, 0, 0, 2, 0, 1, 2, 2, 2, 0, 1, 0, 0, 1, 0, 2, 1, 1, 2,
      1, 0, 0, 0, 2, 0, 1, 0, 0, 2, 1, 2, 2, 0, 1, 1, 0, 1, 1, 2, 0, 2, 2, 2, 0, 0, 0, 2, 2, 1, 0, 2, 1, 1, 1, 2, 2, 1, 1, 0, 0, 1, 2, 1, 1, 0, 2, 1,
      2, 0, 2, 1, 0, 1, 1, 0, 2, 1, 1, 2, 0, 2, 0, 0, 1, 0, 1, 0, 2, 1, 1, 0, 2, 0, 1, 2, 2, 0, 1, 1, 1, 2, 1, 0, 2, 2, 2, 2, 1, 1, 0, 2, 0, 1, 2, 0,
      2, 2, 1, 1, 2, 1, 0, 0, 1, 0, 1, 2, 0, 0, 2, 1, 0, 0, 1, 1, 0, 2, 0, 1, 0, 1, 0, 1, 0, 1, 2, 1, 1, 1, 2, 1, 2, 1, 1, 1, 0, 2, 1, 0, 1, 2, 0, 2,
      2, 1, 0],
     [0, 2, 1, 0, 1, 0, 1, 1, 1, 1, 1, 0, 2, 2, 1, 0, 1, 0, 0, 2, 1, 1, 1, 1, 2, 2, 0, 1, 1, 1, 2, 0, 1, 1, 2, 2, 2, 1, 1, 2, 0, 2, 2, 1, 1, 2, 2, 0,
      2, 1, 0, 1, 2, 0, 1, 2, 0, 2, 0, 2, 1, 0, 0, 0, 0, 1, 1, 2, 2, 0, 1, 2, 0, 1, 1, 2, 1, 2, 2, 0, 0, 0, 2, 2, 0, 1, 0, 2, 1, 1, 2, 2, 0, 2, 1, 2,
      0, 1, 0, 1, 2, 0, 2, 2, 1, 0, 1, 1, 1, 0, 1, 0, 1, 1, 2, 0, 1, 2, 0, 2, 1, 0, 2, 2, 0, 0, 0, 1, 2, 0, 0, 1, 0, 1, 1, 1, 2, 0, 2, 2, 0, 1, 0, 1,
      1, 2, 1, 0, 0, 2, 1, 1, 0, 2, 0, 2, 1, 1, 1, 1, 1, 1, 2, 2, 2, 1, 2, 0, 0, 0, 1, 1, 1, 2, 0, 1, 2, 1, 1, 1, 1, 1, 2, 0, 0, 1, 0, 2, 0, 0, 1, 2,
      2, 2, 0, 2, 2, 0, 2, 2, 2, 1, 1, 0, 0, 0, 0, 0, 2, 2, 2, 1, 2, 2, 0, 0, 2, 2, 2, 2, 0, 0, 2, 1, 0, 2, 2, 0, 1, 1, 0, 1, 0, 0, 1, 0, 2, 2, 0, 0,
      2, 0, 0],
     [0, 2, 1, 0, 1, 0, 0, 0, 1, 2, 1, 0, 2, 2, 0, 2, 1, 2, 1, 2, 0, 1, 0, 0, 2, 2, 2, 1, 1, 0, 1, 0, 1, 2, 2, 2, 2, 1, 0, 2, 1, 1, 2, 1, 0, 2, 1, 0,
      0, 1, 0, 0, 2, 0, 0, 0, 1, 0, 0, 0, 1, 0, 0, 1, 1, 0, 0, 2, 1, 0, 0, 0, 1, 0, 2, 1, 1, 0, 1, 2, 1, 0, 2, 0, 1, 1, 0, 1, 1, 2, 0, 2, 1, 2, 0, 0,
      0, 2, 2, 1, 2, 2, 1, 2, 1, 2, 2, 1, 0, 0, 0, 0, 2, 1, 0, 0, 1, 1, 2, 0, 2, 1, 0, 1, 0, 1, 2, 2, 1, 2, 0, 2, 2, 1, 1, 2, 0, 0, 1, 1, 0, 1, 2, 0,
      2, 2, 2, 1, 0, 0, 1, 0, 1, 0, 2, 2, 1, 1, 0, 0, 1, 2, 2, 1, 1, 2, 1, 2, 0, 2, 2, 0, 2, 0, 0, 1, 1, 1, 0, 0, 0, 1, 0, 2, 1, 1, 2, 2, 2, 1, 0, 2,
      0, 1, 0, 1, 1, 2, 1, 0, 2, 1, 1, 1, 0, 2, 0, 2, 0, 0, 1, 2, 2, 1, 2, 2, 1, 0, 2, 2, 2, 0, 0, 0, 0, 1, 0, 1, 2, 1, 1, 1, 0, 1, 0, 1, 1, 1, 0, 2,
      2, 0, 2],
     [1, 0, 1, 2, 1, 1, 0, 0, 2, 0, 2, 1, 1, 0, 1, 2, 1, 0, 2, 2, 1, 1, 0, 1, 1, 2, 0, 1, 1, 2, 1, 0, 0, 2, 2, 0, 2, 2, 0, 2, 1, 1, 2, 0, 0, 0, 0, 0,
      2, 1, 0, 2, 2, 1, 0, 0, 2, 1, 0, 0, 1, 1, 1, 1, 1, 1, 0, 1, 0, 1, 1, 0, 0, 0, 2, 0, 2, 1, 0, 0, 2, 2, 2, 0, 2, 2, 0, 1, 1, 2, 2, 1, 0, 0, 0, 2,
      2, 2, 1, 0, 1, 1, 2, 2, 2, 2, 2, 1, 2, 0, 2, 1, 1, 0, 0, 2, 0, 1, 1, 2, 1, 1, 2, 1, 0, 1, 2, 2, 0, 0, 0, 0, 2, 2, 1, 2, 2, 1, 1, 0, 2, 2, 1, 0,
      0, 0, 2, 1, 1, 1, 1, 1, 1, 2, 2, 1, 1, 2, 0, 0, 0, 1, 1, 0, 2, 0, 2, 2, 1, 1, 1, 0, 1, 2, 2, 0, 1, 2, 2, 2, 0, 1, 2, 2, 2, 0, 2, 1, 1, 2, 0, 2,
      1, 1, 0, 2, 1, 0, 2, 1, 2, 1, 1, 1, 0, 0, 0, 0, 2, 2, 0, 2, 2, 2, 2, 0, 2, 2, 0, 0, 0, 2, 0, 1, 0, 0, 0, 1, 1, 2, 0, 1, 1, 0, 2, 1, 1, 2, 2, 0,
      2, 0, 1],
     [0, 1, 0, 1, 2, 0, 1, 1, 1, 1, 2, 1, 1, 0, 0, 2, 1, 0, 1, 0, 0, 1, 2, 1, 1, 0, 2, 2, 0, 0, 2, 1, 0, 1, 1, 1, 0, 1, 0, 1, 0, 2, 0, 1, 2, 0, 2, 1,
      2, 2, 2, 1, 0, 0, 1, 2, 2, 0, 1, 2, 1, 1, 0, 2, 2, 2, 2, 0, 1, 0, 1, 1, 1, 2, 0, 1, 2, 1, 1, 0, 1, 1, 2, 0, 0, 1, 0, 1, 0, 0, 2, 2, 2, 2, 0, 1,
      2, 0, 1, 2, 2, 0, 1, 2, 0, 0, 0, 0, 2, 2, 2, 0, 0, 2, 1, 0, 2, 2, 2, 1, 1, 0, 1, 0, 0, 1, 2, 2, 2, 1, 0, 2, 0, 0, 2, 2, 1, 2, 1, 0, 2, 0, 0, 2,
      1, 0, 2, 2, 0, 2, 0, 0, 1, 0, 0, 1, 0, 0, 1, 0, 2, 0, 0, 0, 0, 0, 0, 0, 2, 2, 0, 1, 0, 0, 0, 0, 2, 2, 0, 2, 1, 0, 2, 0, 2, 2, 0, 0, 2, 0, 0, 2,
      2, 0, 0, 1, 0, 0, 0, 0, 2, 0, 1, 2, 0, 0, 2, 0, 2, 0, 1, 0, 0, 2, 0, 0, 2, 1, 1, 1, 0, 1, 0, 0, 0, 1, 1, 2, 2, 0, 2, 0, 2, 1, 1, 2, 1, 2, 0, 1,
      2, 2, 1],
     [0, 0, 1, 1, 0, 0, 2, 0, 1, 1, 0, 1, 0, 2, 1, 0, 1, 2, 0, 0, 2, 2, 0, 0, 2, 1, 0, 2, 0, 2, 0, 1, 0, 1, 0, 0, 2, 2, 1, 1, 1, 1, 2, 0, 1, 2, 1, 2,
      2, 0, 1, 2, 0, 0, 1, 1, 0, 2, 2, 0, 0, 2, 2, 1, 0, 1, 1, 0, 1, 0, 2, 1, 1, 2, 0, 0, 0, 2, 2, 0, 1, 0, 2, 2, 1, 2, 2, 0, 2, 1, 2, 1, 1, 0, 0, 2,
      0, 2, 2, 2, 0, 1, 2, 1, 0, 2, 0, 2, 1, 2, 0, 1, 2, 0, 2, 2, 2, 2, 1, 0, 0, 0, 1, 0, 2, 0, 2, 1, 1, 2, 1, 0, 2, 2, 2, 2, 1, 0, 0, 2, 0, 1, 2, 0,
      2, 1, 1, 1, 0, 1, 0, 0, 1, 2, 1, 2, 2, 0, 2, 0, 0, 2, 1, 1, 0, 2, 0, 1, 0, 0, 1, 1, 1, 1, 2, 1, 1, 0, 0, 1, 1, 0, 1, 0, 0, 1, 2, 0, 1, 0, 0, 2,
      0, 0, 2, 0, 0, 1, 0, 1, 0, 0, 0, 0, 0, 2, 0, 1, 2, 0, 2, 0, 0, 2, 0, 1, 0, 0, 1, 1, 0, 0, 0, 1, 1, 0, 0, 1, 0, 2, 2, 1, 1, 0, 2, 0, 0, 2, 1, 1,
      2, 1, 1],
     [2, 0, 0, 1, 1, 0, 0, 0, 0, 2, 2, 2, 1, 0, 2, 2, 0, 2, 2, 2, 2, 1, 0, 1, 0, 0, 0, 2, 0, 2, 1, 2, 2, 0, 2, 2, 0, 2, 2, 2, 0, 2, 0, 0, 0, 0, 0, 2,
      1, 0, 1, 0, 1, 0, 0, 2, 1, 0, 2, 2, 1, 2, 0, 1, 1, 0, 0, 1, 1, 0, 1, 0, 2, 0, 2, 0, 1, 0, 0, 2, 2, 2, 2, 1, 1, 1, 0, 1, 2, 2, 0, 2, 2, 2, 2, 0,
      1, 2, 2, 0, 0, 2, 0, 1, 2, 0, 2, 2, 1, 0, 0, 1, 0, 0, 1, 0, 1, 1, 1, 0, 0, 0, 0, 0, 1, 0, 1, 2, 2, 2, 0, 0, 1, 0, 1, 1, 2, 1, 1, 1, 2, 0, 1, 0,
      2, 0, 0, 2, 1, 2, 0, 1, 2, 2, 0, 0, 1, 2, 1, 0, 0, 2, 2, 1, 2, 2, 1, 2, 1, 1, 2, 1, 0, 0, 0, 0, 2, 0, 0, 0, 2, 1, 2, 0, 2, 0, 0, 1, 2, 1, 2, 1,
      1, 1, 0, 2, 2, 1, 1, 2, 0, 2, 2, 1, 1, 1, 2, 0, 2, 1, 0, 1, 2, 2, 1, 2, 1, 2, 0, 2, 1, 2, 0, 0, 2, 1, 1, 1, 2, 2, 1, 2, 0, 1, 1, 2, 1, 1, 0, 0,
      1, 0, 2],
     [2, 0, 0, 1, 2, 0, 0, 2, 1, 0, 1, 2, 2, 0, 2, 0, 1, 0, 2, 1, 2, 2, 0, 1, 1, 1, 2, 0, 2, 0, 2, 2, 2, 1, 1, 2, 1, 1, 2, 0, 2, 2, 2, 0, 0, 0, 0, 2,
      1, 0, 2, 1, 1, 1, 0, 2, 1, 0, 0, 0, 1, 2, 2, 1, 0, 0, 1, 2, 1, 2, 2, 0, 1, 1, 0, 2, 1, 1, 0, 2, 2, 2, 0, 1, 0, 1, 1, 1, 1, 2, 1, 2, 1, 1, 0, 1,
      0, 1, 0, 1, 2, 0, 1, 0, 2, 1, 2, 1, 1, 0, 0, 1, 2, 0, 2, 2, 0, 1, 2, 0, 2, 0, 1, 0, 0, 2, 0, 0, 1, 1, 1, 1, 0, 1, 0, 0, 2, 1, 1, 0, 2, 0, 2, 0,
      1, 1, 1, 1, 1, 2, 2, 1, 1, 2, 1, 0, 0, 1, 1, 0, 2, 0, 0, 2, 1, 0, 1, 0, 1, 2, 0, 0, 1, 0, 2, 2, 1, 1, 0, 2, 2, 0, 2, 1, 1, 2, 1, 1, 1, 0, 0, 2,
      1, 0, 0, 0, 2, 2, 2, 1, 1, 0, 1, 2, 2, 2, 2, 2, 2, 1, 0, 1, 2, 1, 0, 0, 0, 2, 1, 2, 1, 1, 2, 1, 2, 2, 1, 2, 2, 0, 0, 0, 1, 0, 0, 0, 0, 2, 1, 1,
      1, 0, 0],
     [2, 0, 2, 1, 1, 2, 2, 2, 1, 0, 2, 2, 1, 0, 1, 1, 2, 1, 0, 1, 1, 1, 2, 0, 2, 0, 2, 2, 0, 1, 1, 2, 1, 1, 2, 0, 0, 2, 2, 2, 0, 0, 0, 2, 2, 0, 2, 2,
      1, 1, 1, 2, 2, 0, 0, 0, 1, 2, 2, 1, 1, 2, 1, 1, 1, 2, 2, 0, 2, 0, 0, 0, 2, 1, 1, 2, 0, 1, 0, 1, 2, 1, 1, 0, 2, 0, 1, 1, 1, 1, 0, 1, 1, 2, 1, 2,
      1, 0, 2, 0, 0, 2, 0, 1, 2, 2, 0, 2, 0, 0, 0, 1, 0, 2, 2, 0, 1, 0, 1, 1, 0, 2, 1, 0, 2, 1, 1, 0, 0, 1, 0, 0, 0, 0, 1, 1, 2, 0, 0, 0, 2, 0, 1, 1,
      2, 2, 2, 1, 2, 0, 1, 2, 2, 1, 1, 2, 0, 1, 0, 0, 2, 0, 2, 0, 2, 0, 1, 0, 1, 0, 2, 1, 2, 1, 1, 1, 1, 2, 2, 0, 2, 2, 0, 2, 0, 1, 1, 2, 0, 0, 0, 0,
      1, 1, 2, 2, 2, 2, 1, 0, 1, 1, 2, 1, 1, 0, 2, 1, 2, 0, 2, 0, 0, 1, 1, 0, 2, 1, 1, 1, 0, 2, 1, 0, 1, 0, 1, 2, 2, 1, 0, 0, 2, 2, 1, 1, 2, 0, 1, 1,
      1, 2, 1],
     [2, 0, 2, 0, 2, 1, 1, 0, 1, 1, 1, 1, 2, 2, 1, 1, 0, 0, 1, 0, 1, 1, 0, 2, 1, 2, 0, 0, 1, 0, 0, 1, 0, 2, 1, 2, 2, 0, 0, 0, 0, 2, 0, 2, 0, 2, 1, 1,
      0, 2, 0, 2, 1, 2, 2, 1, 1, 1, 2, 2, 2, 2, 0, 0, 2, 2, 1, 1, 1, 0, 1, 1, 0, 2, 1, 2, 2, 2, 0, 0, 0, 1, 0, 2, 0, 1, 1, 1, 1, 1, 0, 2, 2, 1, 2, 1,
      0, 0, 2, 1, 1, 1, 0, 2, 2, 1, 1, 1, 1, 2, 2, 1, 1, 1, 2, 2, 0, 1, 1, 0, 2, 2, 1, 1, 2, 2, 2, 0, 1, 1, 1, 2, 0, 1, 1, 1, 2, 2, 1, 1, 2, 0, 2, 1,
      1, 1, 0, 2, 0, 2, 1, 2, 1, 2, 2, 1, 2, 2, 2, 2, 2, 1, 0, 0, 0, 0, 1, 0, 0, 2, 1, 1, 2, 0, 1, 0, 0, 1, 1, 1, 0, 2, 0, 1, 0, 0, 1, 1, 2, 1, 2, 1,
      1, 0, 0, 1, 2, 0, 1, 2, 0, 1, 2, 0, 2, 0, 0, 0, 0, 0, 0, 0, 1, 1, 0, 1, 0, 0, 0, 0, 1, 1, 0, 0, 2, 0, 2, 0, 1, 1, 0, 2, 1, 0, 2, 1, 1, 2, 0, 1,
      0, 0, 0],
     [0, 1, 0, 2, 0, 1, 0, 2, 0, 1, 0, 2, 2, 1, 1, 2, 2, 1, 1, 2, 1, 1, 2, 0, 1, 0, 2, 0, 0, 0, 0, 2, 0, 1, 2, 2, 0, 1, 0, 2, 0, 1, 0, 2, 2, 2, 1, 2,
      2, 1, 1, 2, 1, 2, 2, 0, 0, 0, 2, 0, 0, 1, 0, 2, 1, 1, 2, 0, 0, 2, 0, 2, 0, 1, 0, 2, 2, 0, 0, 2, 1, 1, 1, 2, 1, 0, 1, 0, 1, 1, 2, 1, 0, 2, 2, 2,
      1, 0, 2, 0, 2, 0, 1, 2, 2, 1, 0, 2, 2, 1, 1, 0, 2, 0, 1, 0, 1, 1, 2, 1, 1, 2, 1, 1, 1, 0, 2, 0, 0, 0, 0, 0, 2, 2, 1, 2, 0, 1, 0, 0, 2, 2, 1, 0,
      1, 0, 1, 0, 1, 2, 1, 1, 2, 2, 1, 2, 1, 1, 1, 0, 0, 1, 0, 0, 2, 0, 2, 2, 2, 0, 0, 0, 1, 0, 2, 0, 2, 1, 1, 1, 1, 0, 2, 2, 2, 2, 1, 2, 0, 2, 1, 1,
      2, 0, 2, 0, 1, 1, 2, 1, 0, 2, 1, 1, 1, 2, 2, 0, 2, 0, 0, 1, 2, 1, 1, 2, 0, 1, 0, 2, 2, 1, 0, 0, 2, 0, 1, 2, 1, 1, 1, 1, 1, 0, 1, 0, 1, 0, 2, 0,
      0, 2, 0],
     [2, 1, 2, 2, 2, 0, 0, 0, 2, 2, 2, 0, 1, 1, 1, 1, 2, 2, 2, 1, 2, 2, 1, 0, 1, 1, 1, 2, 0, 0, 0, 1, 2, 0, 1, 1, 2, 2, 1, 1, 2, 0, 0, 2, 2, 1, 0, 2,
      0, 2, 2, 0, 2, 1, 1, 0, 2, 2, 0, 0, 0, 2, 1, 1, 1, 1, 0, 1, 1, 2, 1, 1, 2, 0, 2, 0, 0, 2, 0, 0, 0, 2, 1, 1, 0, 0, 0, 0, 1, 2, 1, 1, 1, 2, 2, 0,
      1, 2, 1, 0, 2, 1, 1, 2, 2, 0, 1, 2, 0, 0, 1, 0, 1, 2, 2, 0, 0, 2, 2, 0, 1, 1, 2, 2, 1, 0, 2, 0, 2, 2, 2, 1, 0, 1, 0, 2, 2, 0, 2, 2, 1, 2, 2, 2,
      1, 0, 0, 0, 1, 0, 0, 1, 2, 1, 1, 2, 1, 0, 0, 0, 2, 1, 0, 0, 0, 2, 1, 2, 2, 1, 0, 1, 2, 2, 1, 2, 0, 0, 1, 2, 1, 2, 0, 0, 1, 2, 2, 2, 1, 1, 1, 2,
      2, 2, 2, 1, 2, 2, 2, 1, 1, 1, 0, 2, 0, 0, 1, 2, 2, 2, 2, 1, 2, 0, 2, 2, 2, 1, 0, 2, 0, 1, 1, 0, 2, 2, 1, 0, 2, 1, 2, 0, 1, 1, 1, 1, 0, 0, 2, 1,
      0, 2, 1],
     [0, 2, 2, 1, 1, 0, 0, 0, 0, 0, 1, 1, 2, 1, 2, 2, 0, 0, 1, 1, 2, 0, 1, 0, 2, 1, 2, 1, 2, 2, 0, 1, 2, 0, 2, 2, 1, 0, 2, 2, 0, 0, 1, 0, 1, 1, 0, 1,
      0, 1, 2, 0, 1, 0, 0, 0, 2, 1, 1, 0, 0, 1, 0, 2, 2, 1, 1, 1, 2, 0, 0, 2, 1, 1, 2, 2, 1, 2, 2, 0, 1, 1, 0, 1, 0, 0, 0, 2, 2, 2, 0, 0, 2, 0, 2, 2,
      2, 2, 1, 1, 0, 0, 2, 0, 2, 0, 2, 2, 1, 2, 1, 0, 2, 1, 2, 0, 1, 0, 2, 2, 0, 0, 2, 1, 0, 1, 2, 1, 0, 1, 0, 1, 0, 2, 1, 1, 2, 2, 2, 1, 2, 2, 0, 1,
      0, 1, 1, 2, 0, 0, 2, 2, 1, 1, 0, 2, 2, 2, 0, 2, 1, 2, 1, 1, 1, 2, 1, 0, 2, 2, 2, 0, 2, 1, 0, 2, 0, 1, 2, 1, 0, 2, 0, 0, 2, 1, 0, 1, 2, 0, 2, 0,
      0, 1, 0, 2, 1, 0, 1, 1, 0, 2, 0, 2, 0, 0, 2, 0, 0, 1, 2, 2, 1, 0, 0, 0, 0, 2, 2, 2, 0, 1, 1, 2, 0, 2, 2, 2, 1, 2, 2, 2, 2, 1, 0, 2, 2, 0, 0, 1,
      0, 2, 1],
     [0, 1, 0, 1, 2, 0, 2, 0, 0, 2, 2, 1, 1, 0, 1, 1, 0, 0, 2, 1, 2, 1, 0, 0, 0, 2, 1, 1, 2, 2, 2, 1, 2, 2, 1, 1, 0, 1, 1, 2, 0, 0, 0, 2, 1, 0, 0, 2,
      2, 2, 1, 2, 1, 0, 1, 1, 2, 2, 2, 0, 2, 2, 2, 0, 2, 1, 1, 1, 0, 0, 2, 1, 0, 2, 1, 2, 2, 2, 1, 1, 0, 0, 0, 2, 0, 1, 2, 2, 1, 2, 2, 2, 0, 1, 0, 2,
      0, 0, 0, 1, 1, 2, 1, 2, 2, 0, 1, 1, 1, 2, 0, 1, 0, 2, 2, 2, 1, 1, 2, 0, 1, 2, 1, 2, 2, 2, 0, 2, 0, 0, 1, 1, 0, 1, 1, 0, 1, 0, 2, 1, 0, 0, 0, 0,
      0, 2, 2, 0, 0, 1, 2, 0, 0, 2, 2, 0, 1, 2, 2, 0, 2, 0, 2, 0, 2, 0, 2, 2, 0, 1, 2, 1, 2, 1, 2, 0, 0, 2, 0, 1, 1, 2, 1, 1, 2, 0, 0, 1, 2, 2, 0, 0,
      0, 2, 2, 2, 2, 2, 2, 1, 1, 2, 2, 2, 0, 0, 0, 2, 2, 0, 1, 1, 1, 1, 1, 2, 2, 0, 2, 2, 1, 0, 0, 1, 1, 2, 0, 0, 1, 1, 1, 0, 1, 2, 2, 2, 2, 1, 1, 2,
      0, 1, 2],
     [1, 0, 2, 2, 0, 2, 0, 0, 1, 2, 0, 1, 0, 0, 1, 0, 2, 2, 0, 0, 1, 0, 0, 0, 2, 1, 0, 1, 2, 0, 0, 2, 2, 1, 0, 2, 1, 0, 2, 0, 2, 1, 1, 0, 0, 0, 0, 2,
      2, 2, 1, 1, 2, 2, 0, 2, 2, 2, 2, 2, 0, 1, 2, 0, 0, 2, 0, 0, 1, 2, 0, 0, 2, 0, 0, 0, 2, 2, 0, 2, 0, 0, 0, 1, 2, 2, 0, 0, 1, 0, 1, 1, 2, 2, 2, 1,
      2, 0, 1, 0, 2, 1, 1, 2, 0, 1, 0, 1, 2, 0, 1, 0, 2, 0, 1, 1, 1, 0, 0, 1, 2, 2, 1, 2, 1, 2, 2, 0, 2, 2, 0, 0, 2, 1, 0, 2, 0, 0, 0, 1, 0, 1, 0, 0,
      2, 0, 1, 1, 0, 1, 2, 0, 1, 0, 1, 2, 0, 0, 1, 0, 0, 1, 1, 1, 0, 2, 2, 0, 0, 0, 1, 1, 2, 1, 1, 0, 1, 1, 1, 1, 2, 0, 0, 1, 0, 0, 1, 0, 1, 2, 2, 2,
      0, 0, 0, 0, 1, 1, 2, 1, 1, 1, 1, 0, 1, 1, 2, 0, 0, 2, 0, 2, 0, 0, 2, 2, 2, 0, 0, 2, 1, 0, 0, 2, 2, 1, 1, 0, 1, 0, 1, 1, 2, 1, 2, 1, 0, 2, 1, 0,
      2, 0, 1],
     [2, 2, 0, 0, 0, 0, 2, 1, 0, 2, 2, 1, 1, 0, 2, 1, 0, 0, 1, 1, 2, 1, 1, 0, 0, 1, 0, 1, 2, 0, 0, 1, 2, 0, 0, 1, 1, 0, 2, 2, 2, 0, 2, 2, 1, 0, 1, 1,
      2, 1, 0, 0, 1, 1, 2, 0, 2, 0, 2, 1, 0, 1, 2, 2, 1, 1, 2, 2, 0, 2, 1, 2, 0, 2, 0, 1, 2, 0, 2, 2, 1, 1, 1, 1, 0, 0, 1, 0, 1, 2, 2, 0, 2, 2, 0, 0,
      1, 1, 2, 2, 0, 0, 0, 1, 2, 1, 2, 1, 2, 1, 1, 1, 2, 1, 1, 2, 1, 2, 0, 2, 1, 0, 0, 0, 0, 1, 1, 1, 2, 0, 1, 2, 0, 1, 1, 1, 1, 2, 0, 0, 0, 0, 2, 1,
      0, 1, 2, 2, 1, 0, 2, 1, 0, 2, 1, 2, 0, 1, 0, 0, 0, 0, 0, 2, 1, 0, 1, 0, 2, 0, 0, 2, 1, 0, 2, 2, 2, 2, 0, 0, 1, 0, 0, 1, 2, 0, 1, 1, 2, 0, 0, 0,
      2, 0, 0, 2, 2, 2, 2, 1, 2, 0, 0, 0, 2, 2, 0, 2, 0, 1, 2, 1, 2, 2, 0, 0, 1, 1, 0, 1, 1, 0, 2, 1, 2, 1, 0, 0, 0, 0, 1, 0, 2, 2, 2, 1, 2, 0, 1, 0,
      2, 1, 2],
     [2, 0, 1, 0, 1, 2, 0, 2, 0, 2, 2, 1, 1, 1, 0, 1, 1, 2, 0, 1, 2, 2, 2, 0, 0, 2, 2, 0, 0, 2, 1, 1, 1, 0, 2, 0, 1, 0, 1, 1, 2, 2, 1, 2, 1, 1, 1, 0,
      2, 1, 0, 0, 2, 0, 2, 2, 1, 0, 0, 1, 1, 0, 2, 0, 1, 1, 1, 0, 1, 0, 1, 2, 1, 2, 1, 2, 0, 2, 1, 1, 1, 1, 2, 1, 1, 1, 2, 1, 2, 0, 1, 0, 0, 2, 1, 0,
      1, 1, 0, 1, 0, 1, 1, 0, 2, 0, 0, 0, 2, 1, 0, 0, 1, 2, 0, 1, 2, 1, 0, 1, 0, 2, 0, 0, 0, 1, 2, 2, 2, 2, 2, 0, 1, 1, 2, 2, 1, 0, 0, 1, 2, 2, 2, 1,
      0, 1, 1, 0, 2, 2, 1, 2, 1, 2, 0, 0, 1, 1, 1, 0, 2, 1, 1, 2, 2, 1, 1, 2, 1, 0, 1, 0, 1, 0, 2, 0, 0, 2, 2, 2, 1, 2, 2, 2, 0, 0, 2, 2, 2, 0, 0, 1,
      1, 1, 0, 2, 2, 1, 1, 2, 1, 1, 2, 1, 1, 1, 2, 0, 0, 0, 0, 0, 0, 2, 1, 2, 2, 1, 0, 0, 0, 2, 1, 2, 0, 0, 1, 1, 2, 2, 1, 2, 1, 2, 2, 1, 2, 1, 0, 0,
      2, 1, 0],
     [0, 0, 2, 2, 1, 1, 1, 0, 1, 2, 2, 2, 1, 2, 2, 2, 0, 1, 2, 1, 2, 0, 0, 1, 1, 2, 0, 1, 1, 1, 2, 2, 1, 2, 2, 0, 2, 1, 1, 1, 0, 0, 0, 2, 0, 2, 1, 2,
      2, 2, 2, 2, 0, 2, 2, 2, 0, 1, 0, 0, 1, 0, 0, 2, 1, 2, 1, 0, 0, 0, 0, 1, 1, 2, 2, 2, 1, 2, 0, 1, 1, 2, 1, 1, 2, 0, 1, 0, 2, 2, 0, 0, 0, 2, 0, 1,
      2, 1, 0, 1, 1, 2, 0, 1, 0, 1, 2, 2, 0, 2, 2, 0, 1, 1, 1, 2, 2, 0, 0, 0, 2, 2, 1, 1, 1, 2, 1, 1, 2, 2, 1, 2, 2, 1, 0, 0, 0, 1, 0, 0, 0, 0, 1, 1,
      2, 1, 0, 0, 2, 0, 1, 1, 2, 0, 2, 1, 1, 0, 1, 2, 2, 2, 1, 2, 1, 1, 0, 1, 2, 1, 2, 0, 2, 0, 1, 0, 1, 1, 1, 1, 1, 1, 1, 1, 1, 0, 1, 0, 0, 0, 0, 0,
      0, 2, 0, 2, 0, 2, 0, 0, 0, 2, 0, 2, 1, 2, 1, 0, 1, 2, 0, 2, 2, 2, 2, 2, 2, 1, 0, 1, 0, 2, 0, 0, 0, 2, 1, 2, 2, 2, 2, 0, 1, 2, 1, 2, 0, 1, 0, 1,
      2, 0, 1],
     [1, 1, 0, 1, 1, 1, 0, 0, 2, 1, 2, 0, 0, 1, 2, 2, 1, 1, 2, 1, 2, 2, 2, 2, 0, 2, 0, 0, 1, 0, 1, 0, 1, 0, 1, 0, 2, 0, 1, 2, 1, 2, 1, 2, 2, 2, 1, 0,
      1, 1, 2, 1, 0, 1, 2, 1, 2, 0, 2, 0, 2, 2, 1, 1, 1, 1, 1, 1, 2, 0, 1, 2, 2, 0, 0, 0, 1, 2, 0, 0, 2, 2, 1, 1, 1, 2, 0, 2, 0, 2, 1, 2, 2, 1, 2, 1,
      1, 2, 2, 2, 0, 0, 0, 2, 0, 0, 1, 1, 1, 1, 1, 2, 0, 0, 2, 1, 1, 0, 0, 1, 2, 2, 0, 1, 1, 1, 2, 0, 2, 2, 2, 2, 2, 1, 1, 2, 1, 0, 2, 0, 0, 2, 2, 0,
      0, 2, 0, 2, 0, 0, 2, 0, 1, 0, 0, 2, 1, 0, 0, 0, 1, 1, 0, 1, 1, 0, 1, 2, 1, 1, 0, 0, 0, 0, 0, 1, 1, 0, 1, 2, 2, 0, 0, 1, 1, 0, 0, 1, 2, 2, 1, 2,
      1, 0, 2, 0, 2, 2, 0, 0, 2, 2, 0, 2, 2, 0, 0, 1, 0, 2, 0, 0, 0, 0, 1, 2, 0, 2, 2, 0, 1, 0, 1, 2, 0, 1, 0, 0, 2, 1, 1, 1, 0, 0, 1, 0, 1, 1, 1, 2,
      2, 2, 0]]"

definition sbox_lookup :: "int list" where
  "sbox_lookup = [6, 25, 17, 5, 15, 10, 4, 20, 24, 0, 1, 2, 9, 22, 26, 18, 16, 14, 3, 13, 23, 7, 11, 12, 8, 21, 19]"

definition shift_rows_param :: "nat list" where
  "shift_rows_param = [0, 1, 2]"

definition shift_lanes_param :: "nat list" where
  "shift_lanes_param = [19, 13, 21, 10, 24, 15, 2, 9, 3, 14, 0, 6, 5, 1, 25, 22, 23, 20, 7, 17, 26, 12, 8, 18, 16, 11, 4]"

text \<open>The order of the nested loops over slices, rows and columns, and the place of a trit.\<close>

definition cells :: "(nat \<times> nat \<times> nat) list" where
  "cells = [(sl, row, col). sl \<leftarrow> [0..<SLICES], row \<leftarrow> [0..<ROWS], col \<leftarrow> [0..<COLUMNS]]"

definition cell_idx :: "nat \<Rightarrow> nat \<Rightarrow> nat \<Rightarrow> nat" where
  "cell_idx sl row col = SLICESIZE * sl + COLUMNS * row + col"

definition sub_tryte_at :: "nat \<Rightarrow> trit list \<Rightarrow> trit list" where
  "sub_tryte_at sbox_idx st =
     (let sbox_input = wrap8 (9 * st ! (3 * sbox_idx) + 3 * st ! (3 * sbox_idx + 1) + st ! (3 * sbox_idx + 2));
          sbox_output = sbox_lookup ! nat sbox_input;
          st = st[3 * sbox_idx + 2 := c_mod sbox_output 3];
          sbox_output = c_div sbox_output 3;
          st = st[3 * sbox_idx + 1 := c_mod sbox_output 3];
          sbox_output = c_div sbox_output 3
      in st[3 * sbox_idx := c_mod sbox_output 3])"

definition sub_trytes :: "trit list \<Rightarrow> trit list" where
  "sub_trytes st = fold sub_tryte_at [0..<NUM_SBOXES] st"

text \<open>The two shifts fill a second array, all of it, and copy it over the state.\<close>

definition shift_rows :: "trit list \<Rightarrow> trit list" where
  "shift_rows st =
     fold (\<lambda>(sl, row, col) new_state.
             new_state[SLICESIZE * sl + COLUMNS * row + (col + 3 * shift_rows_param ! row) mod COLUMNS := st ! cell_idx sl row col])
       cells st"

definition shift_lanes :: "trit list \<Rightarrow> trit list" where
  "shift_lanes st =
     fold (\<lambda>(sl, row, col) new_state.
             let new_slice = (sl + shift_lanes_param ! (col + COLUMNS * row)) mod SLICES
             in new_state[SLICESIZE * new_slice + COLUMNS * row + col := st ! cell_idx sl row col])
       cells st"

text \<open>The array of the column parities is filled from the first cell to the last.\<close>

definition column_parity :: "trit list \<Rightarrow> trit list" where
  "column_parity st = [c_mod (\<Sum>row\<leftarrow>[0..<ROWS]. st ! cell_idx sl row col) 3. sl \<leftarrow> [0..<SLICES], col \<leftarrow> [0..<COLUMNS]]"

definition add_column_parity :: "trit list \<Rightarrow> trit list" where
  "add_column_parity st =
     (let parity = column_parity st
      in fold (\<lambda>(sl, row, col) st.
             let idx = cell_idx sl row col;
                 sum_to_add = parity ! ((col + 8) mod 9 + COLUMNS * sl) + parity ! ((col + 1) mod 9 + COLUMNS * ((sl + 1) mod SLICES))
             in st[idx := c_mod (st ! idx + sum_to_add) 3])
           cells st)"

definition add_round_constant :: "nat \<Rightarrow> trit list \<Rightarrow> trit list" where
  "add_round_constant round st =
     fold (\<lambda>(sl, col) st.
             let idx = SLICESIZE * sl + col
             in st[idx := c_mod (st ! idx + round_constants ! round ! (sl * COLUMNS + col)) 3])
       [(sl, col). sl \<leftarrow> [0..<SLICES], col \<leftarrow> [0..<COLUMNS]] st"

definition troika_round :: "nat \<Rightarrow> trit list \<Rightarrow> trit list" where
  "troika_round round st = add_round_constant round (add_column_parity (shift_lanes (shift_rows (sub_trytes st))))"

definition troika_permutation :: "trit list \<Rightarrow> nat \<Rightarrow> trit list" where
  "troika_permutation st num_rounds = fold troika_round [0..<num_rounds] st"

text \<open>The last block is padded and put into the state, which is not permuted then. With a rate of zero the loops do not end.\<close>

partial_function (option) troika_absorb :: "trit list \<Rightarrow> nat \<Rightarrow> trit list \<Rightarrow> nat \<Rightarrow> trit list option" where
  "troika_absorb st rate message num_rounds =
     (if rate \<le> length message
      then troika_absorb (troika_permutation (blit st 0 (take rate message)) num_rounds) rate (drop rate message) num_rounds
      else
        let last_block = replicate rate 0;
            last_block = blit last_block 0 message;
            last_block = last_block[length message := TROIKA_PADDING]
        in Some (blit st 0 last_block))"

partial_function (option) troika_squeeze :: "trit list \<Rightarrow> nat \<Rightarrow> nat \<Rightarrow> trit list \<Rightarrow> nat \<Rightarrow> (trit list \<times> trit list) option" where
  "troika_squeeze hash hash_length rate st num_rounds =
     (if rate \<le> hash_length
      then let st = troika_permutation st num_rounds
           in troika_squeeze (hash @ take rate st) (hash_length - rate) rate st num_rounds
      else if hash_length mod rate \<noteq> 0
      then let st = troika_permutation st num_rounds in Some (hash @ take hash_length st, st)
      else Some (hash, st))"

definition troika_var_rounds :: "nat \<Rightarrow> trit list \<Rightarrow> nat \<Rightarrow> trit list option" where
  "troika_var_rounds outlen input num_rounds =
     (case troika_absorb (replicate STATESIZE 0) TROIKA_RATE input num_rounds of
        None \<Rightarrow> None
      | Some st \<Rightarrow> map_option fst (troika_squeeze [] outlen TROIKA_RATE st num_rounds))"

definition troika :: "nat \<Rightarrow> trit list \<Rightarrow> trit list option" where
  "troika outlen input = troika_var_rounds outlen input NUM_ROUNDS"

section \<open>Loops over cells\<close>

lemma set_cells: "set cells = {(sl, row, col). sl < SLICES \<and> row < ROWS \<and> col < COLUMNS}"
  by (auto simp: cells_def image_iff)

lemma distinct_grid: "distinct xs \<Longrightarrow> distinct ys \<Longrightarrow> distinct [(x, y). x \<leftarrow> xs, y \<leftarrow> ys]"
  by (induction xs) (auto simp: distinct_map inj_on_def)

lemma distinct_cells: "distinct cells"
proof -
  have eq: "cells = [(sl, rc). sl \<leftarrow> [0..<SLICES], rc \<leftarrow> [(row, col). row \<leftarrow> [0..<ROWS], col \<leftarrow> [0..<COLUMNS]]]"
    unfolding cells_def by (simp add: map_concat comp_def)
  show ?thesis unfolding eq by (intro distinct_grid distinct_upt)
qed

lemma nth_grid: "i < length xs \<Longrightarrow> j < length ys \<Longrightarrow> [f x y. x \<leftarrow> xs, y \<leftarrow> ys] ! (length ys * i + j) = f (xs ! i) (ys ! j)"
proof (induction xs arbitrary: i)
  case (Cons x xs)
  show ?case
  proof (cases i)
    case 0
    then show ?thesis using Cons.prems by (simp add: nth_append)
  next
    case (Suc k)
    then show ?thesis using Cons by (simp add: nth_append add.assoc)
  qed
qed simp

lemma fold_updates:
  assumes "distinct (map t cs)" "\<forall>c \<in> set cs. t c < length st"
  shows "length (fold (\<lambda>c st. st[t c := h c (st ! t c)]) cs st) = length st
    \<and> (\<forall>c \<in> set cs. fold (\<lambda>c st. st[t c := h c (st ! t c)]) cs st ! t c = h c (st ! t c))
    \<and> (\<forall>i. i \<notin> t ` set cs \<longrightarrow> fold (\<lambda>c st. st[t c := h c (st ! t c)]) cs st ! i = st ! i)"
  using assms
proof (induction cs arbitrary: st)
  case (Cons a cs)
  let ?st = "st[t a := h a (st ! t a)]"
  have IH: "length (fold (\<lambda>c st. st[t c := h c (st ! t c)]) cs ?st) = length ?st"
      "\<forall>c \<in> set cs. fold (\<lambda>c st. st[t c := h c (st ! t c)]) cs ?st ! t c = h c (?st ! t c)"
      "\<forall>i. i \<notin> t ` set cs \<longrightarrow> fold (\<lambda>c st. st[t c := h c (st ! t c)]) cs ?st ! i = ?st ! i"
    using Cons.IH [of ?st] Cons.prems by simp_all
  have "t a \<notin> t ` set cs" "t a < length st" "\<forall>c \<in> set cs. t a \<noteq> t c" using Cons.prems by auto
  then show ?case using IH by auto
qed simp

text \<open>A state is a function of a slice and a place in it.\<close>

definition cell :: "trit list \<Rightarrow> nat \<Rightarrow> nat \<Rightarrow> trit" where
  "cell st sl rc = st ! (SLICESIZE * sl + rc)"

lemma split_place: "rc < SLICESIZE \<Longrightarrow> \<exists>row col. row < ROWS \<and> col < COLUMNS \<and> rc = COLUMNS * row + col"
  by (intro exI [of _ "rc div COLUMNS"] exI [of _ "rc mod COLUMNS"]) auto

lemma state_eqI:
  assumes "length st = STATESIZE" "length st' = STATESIZE" "\<And>sl rc. sl < SLICES \<Longrightarrow> rc < SLICESIZE \<Longrightarrow> cell st sl rc = cell st' sl rc"
  shows "st = st'"
proof (rule nth_equalityI)
  fix i assume "i < length st"
  then have "i div 27 < 27" "27 * (i div 27) + i mod 27 = i" using assms(1) by auto
  then show "st ! i = st' ! i" using assms(3) [of "i div 27" "i mod 27"] by (simp add: cell_def)
qed (use assms in simp)

lemma fold_cells:
  assumes "length st = STATESIZE" "inj_on (\<lambda>(sl, row, col). t sl row col) (set cells)" "\<forall>sl < SLICES. \<forall>row < ROWS. \<forall>col < COLUMNS. t sl row col < STATESIZE"
  shows "length (fold (\<lambda>(sl, row, col) st. st[t sl row col := h sl row col (st ! t sl row col)]) cells st) = STATESIZE"
    "sl < SLICES \<Longrightarrow> row < ROWS \<Longrightarrow> col < COLUMNS \<Longrightarrow>
      fold (\<lambda>(sl, row, col) st. st[t sl row col := h sl row col (st ! t sl row col)]) cells st ! t sl row col = h sl row col (st ! t sl row col)"
proof -
  let ?t = "\<lambda>(sl, row, col). t sl row col" and ?h = "\<lambda>(sl, row, col). h sl row col"
  have eq: "(\<lambda>(sl, row, col) st. st[t sl row col := h sl row col (st ! t sl row col)]) = (\<lambda>c st. st[?t c := ?h c (st ! ?t c)])" by (auto simp: fun_eq_iff)
  have f: "distinct (map ?t cells)" "\<forall>c \<in> set cells. ?t c < length st" using assms distinct_cells by (auto simp: distinct_map set_cells)
  note u = fold_updates [OF f, of ?h]
  show "length (fold (\<lambda>(sl, row, col) st. st[t sl row col := h sl row col (st ! t sl row col)]) cells st) = STATESIZE" unfolding eq using u assms(1) by simp
  show "fold (\<lambda>(sl, row, col) st. st[t sl row col := h sl row col (st ! t sl row col)]) cells st ! t sl row col = h sl row col (st ! t sl row col)"
    if "sl < SLICES" "row < ROWS" "col < COLUMNS"
  proof -
    have "(sl, row, col) \<in> set cells" using that by (simp add: set_cells)
    with u have "fold (\<lambda>c st. st[?t c := ?h c (st ! ?t c)]) cells st ! ?t (sl, row, col) = ?h (sl, row, col) (st ! ?t (sl, row, col))" by blast
    then show ?thesis unfolding eq by simp
  qed
qed

section \<open>The steps of a round, cell by cell\<close>

lemma place_inj:
  fixes sl row a :: nat
  assumes "SLICESIZE * sl + COLUMNS * row + a = SLICESIZE * sl' + COLUMNS * row' + b" "row < ROWS" "row' < ROWS" "a < COLUMNS" "b < COLUMNS"
  shows "sl = sl' \<and> row = row' \<and> a = b"
proof -
  have "sl = sl'" using assms by linarith
  moreover from this have "row = row'" using assms by linarith
  ultimately show ?thesis using assms(1) by simp
qed

lemma cell_idx_inj: "inj_on (\<lambda>(sl, row, col). cell_idx sl row col) (set cells)"
proof (rule inj_onI, clarsimp simp: set_cells)
  fix sl row col sl' row' col' :: nat
  assume l: "row < ROWS" "row' < ROWS" "col < COLUMNS" "col' < COLUMNS" and e: "cell_idx sl row col = cell_idx sl' row' col'"
  from place_inj [OF e [unfolded cell_idx_def] l] show "sl = sl' \<and> row = row' \<and> col = col'" .
qed

lemma cell_idx_less: "\<forall>sl < SLICES. \<forall>row < ROWS. \<forall>col < COLUMNS. cell_idx sl row col < STATESIZE"
  by (auto simp: cell_idx_def)

lemma mod_add_inj: "(a + k) mod n = (b + k) mod n \<Longrightarrow> a < n \<Longrightarrow> b < n \<Longrightarrow> a = b" for a b k n :: nat
proof (induction a b rule: linorder_wlog)
  case (le a b)
  then have "n dvd (b + k) - (a + k)" using mod_eq_dvd_iff_nat [of "a + k" "b + k" n] by simp
  then show ?case using le by (auto dest: dvd_imp_le)
qed auto

lemma shift_rows_cell:
  assumes "length st = STATESIZE"
  shows "length (shift_rows st) = STATESIZE"
    "sl < SLICES \<Longrightarrow> row < ROWS \<Longrightarrow> col < COLUMNS \<Longrightarrow> cell (shift_rows st) sl (COLUMNS * row + (col + 3 * row) mod COLUMNS) = cell st sl (COLUMNS * row + col)"
proof -
  let ?t = "\<lambda>sl row col. SLICESIZE * sl + COLUMNS * row + (col + 3 * shift_rows_param ! row) mod COLUMNS"
  have "?t sl row col < STATESIZE" if "sl < SLICES" "row < ROWS" "col < COLUMNS" for sl row col
    using that mod_less_divisor [of COLUMNS "col + 3 * shift_rows_param ! row"] by linarith
  then have b: "\<forall>sl < SLICES. \<forall>row < ROWS. \<forall>col < COLUMNS. ?t sl row col < STATESIZE" by blast
  have i: "inj_on (\<lambda>(sl, row, col). ?t sl row col) (set cells)"
  proof (rule inj_onI, clarsimp simp: set_cells)
    fix sl row col sl' row' col' :: nat
    assume l: "sl < SLICES" "row < ROWS" "col < COLUMNS" "sl' < SLICES" "row' < ROWS" "col' < COLUMNS" and e: "?t sl row col = ?t sl' row' col'"
    have m: "(col + 3 * shift_rows_param ! row) mod COLUMNS < COLUMNS" "(col' + 3 * shift_rows_param ! row') mod COLUMNS < COLUMNS" by simp_all
    from place_inj [OF e l(2,5) m] have 1: "sl = sl'" "row = row'" and c: "(col + 3 * shift_rows_param ! row) mod COLUMNS = (col' + 3 * shift_rows_param ! row) mod COLUMNS" by auto
    with mod_add_inj [OF c l(3,6)] show "sl = sl' \<and> row = row' \<and> col = col'" by simp
  qed
  note f = fold_cells [OF assms i b, where h = "\<lambda>sl row col _. st ! cell_idx sl row col"]
  show "length (shift_rows st) = STATESIZE" using f(1) by (simp add: shift_rows_def)
  assume l: "sl < SLICES" "row < ROWS" "col < COLUMNS"
  moreover from l(2) have "shift_rows_param ! row = row" by (auto simp: shift_rows_param_def less_Suc_eq numeral_3_eq_3)
  ultimately show "cell (shift_rows st) sl (COLUMNS * row + (col + 3 * row) mod COLUMNS) = cell st sl (COLUMNS * row + col)"
    using f(2) [OF l] by (simp add: shift_rows_def cell_def cell_idx_def add.assoc)
qed

lemma shift_lanes_cell:
  assumes "length st = STATESIZE"
  shows "length (shift_lanes st) = STATESIZE"
    "sl < SLICES \<Longrightarrow> rc < SLICESIZE \<Longrightarrow> cell (shift_lanes st) ((sl + shift_lanes_param ! rc) mod SLICES) rc = cell st sl rc"
proof -
  let ?n = "\<lambda>sl row col. (sl + shift_lanes_param ! (col + COLUMNS * row)) mod SLICES"
  let ?t = "\<lambda>sl row col. SLICESIZE * ?n sl row col + COLUMNS * row + col"
  have "?t sl row col < STATESIZE" if "sl < SLICES" "row < ROWS" "col < COLUMNS" for sl row col
    using that mod_less_divisor [of SLICES "sl + shift_lanes_param ! (col + COLUMNS * row)"] by linarith
  then have b: "\<forall>sl < SLICES. \<forall>row < ROWS. \<forall>col < COLUMNS. ?t sl row col < STATESIZE" by blast
  have i: "inj_on (\<lambda>(sl, row, col). ?t sl row col) (set cells)"
  proof (rule inj_onI, clarsimp simp: set_cells)
    fix sl row col sl' row' col' :: nat
    assume l: "sl < SLICES" "row < ROWS" "col < COLUMNS" "sl' < SLICES" "row' < ROWS" "col' < COLUMNS" and e: "?t sl row col = ?t sl' row' col'"
    from place_inj [OF e l(2,5,3,6)] have 1: "row = row'" "col = col'" and c: "?n sl row col = ?n sl' row col" by auto
    with mod_add_inj [OF c l(1,4)] show "sl = sl' \<and> row = row' \<and> col = col'" by simp
  qed
  note f = fold_cells [OF assms i b, where h = "\<lambda>sl row col _. st ! cell_idx sl row col"]
  show "length (shift_lanes st) = STATESIZE" using f(1) by (simp add: shift_lanes_def Let_def)
  assume l: "sl < SLICES" "rc < SLICESIZE"
  obtain row col where rc: "row < ROWS" "col < COLUMNS" "rc = COLUMNS * row + col" using split_place [OF l(2)] by blast
  show "cell (shift_lanes st) ((sl + shift_lanes_param ! rc) mod SLICES) rc = cell st sl rc"
    using f(2) [OF l(1) rc(1,2)] by (simp add: shift_lanes_def Let_def cell_def cell_idx_def add.assoc add.commute [of col] rc(3))
qed

lemma column_parity_nth:
  assumes "sl < SLICES" "col < COLUMNS"
  shows "column_parity st ! (col + COLUMNS * sl) = c_mod (cell st sl col + cell st sl (COLUMNS + col) + cell st sl (2 * COLUMNS + col)) 3"
proof -
  have "[0..<ROWS] = [0, 1, 2]" by (simp add: upt_rec)
  then show ?thesis
    using nth_grid [of sl "[0..<SLICES]" col "[0..<COLUMNS]" "\<lambda>sl col. c_mod (\<Sum>row\<leftarrow>[0..<ROWS]. st ! cell_idx sl row col) 3"] assms
    by (simp add: column_parity_def cell_def cell_idx_def ac_simps)
qed

lemma add_column_parity_cell:
  assumes "length st = STATESIZE"
  shows "length (add_column_parity st) = STATESIZE"
    "sl < SLICES \<Longrightarrow> row < ROWS \<Longrightarrow> col < COLUMNS \<Longrightarrow> cell (add_column_parity st) sl (COLUMNS * row + col) =
      c_mod (cell st sl (COLUMNS * row + col) + (column_parity st ! ((col + 8) mod 9 + COLUMNS * sl) + column_parity st ! ((col + 1) mod 9 + COLUMNS * ((sl + 1) mod SLICES)))) 3"
proof -
  note f = fold_cells [OF assms cell_idx_inj cell_idx_less, where h = "\<lambda>sl row col t. c_mod (t + (column_parity st ! ((col + 8) mod 9 + COLUMNS * sl) + column_parity st ! ((col + 1) mod 9 + COLUMNS * ((sl + 1) mod SLICES)))) 3"]
  show "length (add_column_parity st) = STATESIZE" using f(1) by (simp add: add_column_parity_def Let_def)
  assume l: "sl < SLICES" "row < ROWS" "col < COLUMNS"
  show "cell (add_column_parity st) sl (COLUMNS * row + col) =
      c_mod (cell st sl (COLUMNS * row + col) + (column_parity st ! ((col + 8) mod 9 + COLUMNS * sl) + column_parity st ! ((col + 1) mod 9 + COLUMNS * ((sl + 1) mod SLICES)))) 3"
    using f(2) [OF l] by (simp add: add_column_parity_def Let_def cell_def cell_idx_def add.assoc)
qed

lemma add_round_constant_cell:
  assumes "length st = STATESIZE"
  shows "length (add_round_constant round st) = STATESIZE"
    "sl < SLICES \<Longrightarrow> rc < SLICESIZE \<Longrightarrow> cell (add_round_constant round st) sl rc =
      (if rc < COLUMNS then c_mod (cell st sl rc + round_constants ! round ! (sl * COLUMNS + rc)) 3 else cell st sl rc)"
proof -
  let ?cs = "[(sl, col). sl \<leftarrow> [0..<SLICES], col \<leftarrow> [0..<COLUMNS]]" and ?t = "\<lambda>(sl, col). SLICESIZE * sl + col"
  let ?h = "\<lambda>(sl, col) t. c_mod (t + round_constants ! round ! (sl * COLUMNS + col)) 3"
  have cs: "set ?cs = {(sl, col). sl < SLICES \<and> col < COLUMNS}" by (auto simp: image_iff)
  have inj: "inj_on ?t (set ?cs)" unfolding cs
  proof (rule inj_onI)
    fix x y assume "x \<in> {(sl, col). sl < SLICES \<and> col < COLUMNS}" "y \<in> {(sl, col). sl < SLICES \<and> col < COLUMNS}" "?t x = ?t y"
    then show "x = y" using place_inj [of "fst x" 0 "snd x" "fst y" 0 "snd y"] by (auto simp: prod_eq_iff)
  qed
  have d: "distinct (map ?t ?cs)" using distinct_grid [OF distinct_upt distinct_upt] inj by (simp only: distinct_map)
  have l: "\<forall>c \<in> set ?cs. ?t c < length st" unfolding cs using assms by auto
  have eq: "add_round_constant round st = fold (\<lambda>c st. st[?t c := ?h c (st ! ?t c)]) ?cs st"
    unfolding add_round_constant_def by (rule arg_cong [where f = "\<lambda>f. fold f ?cs st"]) (auto simp: fun_eq_iff Let_def)
  note u = fold_updates [OF d l, of ?h, folded eq]
  show "length (add_round_constant round st) = STATESIZE" using conjunct1 [OF u] assms by simp
  assume r: "sl < SLICES" "rc < SLICESIZE"
  show "cell (add_round_constant round st) sl rc =
      (if rc < COLUMNS then c_mod (cell st sl rc + round_constants ! round ! (sl * COLUMNS + rc)) 3 else cell st sl rc)"
  proof (cases "rc < COLUMNS")
    case True
    then have "(sl, rc) \<in> set ?cs" unfolding cs using r by simp
    with u have "add_round_constant round st ! ?t (sl, rc) = ?h (sl, rc) (st ! ?t (sl, rc))" by blast
    with True show ?thesis by (simp add: cell_def)
  next
    case False
    have "SLICESIZE * sl + rc \<noteq> SLICESIZE * a + b" if "b < COLUMNS" for a b
    proof
      assume e: "SLICESIZE * sl + rc = SLICESIZE * a + b"
      then have "sl = a" using r(2) that by linarith
      with e that False show False by simp
    qed
    then have "SLICESIZE * sl + rc \<notin> ?t ` set ?cs" unfolding cs by auto
    with u have "add_round_constant round st ! (SLICESIZE * sl + rc) = st ! (SLICESIZE * sl + rc)" by blast
    with False show ?thesis by (simp add: cell_def)
  qed
qed

section \<open>Substitution\<close>

definition unbalanced :: "trit list \<Rightarrow> bool" where
  "unbalanced st \<longleftrightarrow> list_all (\<lambda>t. 0 \<le> t \<and> t \<le> 2) st"

lemma unbalanced_nth: "unbalanced st \<Longrightarrow> i < length st \<Longrightarrow> st ! i = 0 \<or> st ! i = 1 \<or> st ! i = 2"
  unfolding unbalanced_def by (auto simp: list_all_length)

definition sbox_digit :: "nat \<Rightarrow> trit \<Rightarrow> trit \<Rightarrow> trit \<Rightarrow> trit" where
  "sbox_digit j c b a = sbox_lookup ! nat (9 * c + 3 * b + a) div 3 ^ (2 - j) mod 3"

lemma sub_tryte_at_length [simp]: "length (sub_tryte_at k st) = length st"
  by (simp add: sub_tryte_at_def Let_def)

lemma sub_tryte_at_other: "i div 3 \<noteq> k \<Longrightarrow> sub_tryte_at k st ! i = st ! i"
  by (auto simp: sub_tryte_at_def Let_def)

lemma sbox_lookup_range: "n < 27 \<Longrightarrow> 0 \<le> sbox_lookup ! n \<and> sbox_lookup ! n < 27"
proof -
  assume "n < 27"
  moreover have "\<forall>n \<in> set [0..<27]. 0 \<le> sbox_lookup ! n \<and> sbox_lookup ! n < 27" by code_simp
  ultimately show ?thesis by simp
qed

lemma sub_tryte_at_same:
  assumes "3 * k + 2 < length st" "st ! (3 * k) \<in> {0, 1, 2}" "st ! (3 * k + 1) \<in> {0, 1, 2}" "st ! (3 * k + 2) \<in> {0, 1, 2}" "j < 3"
  shows "sub_tryte_at k st ! (3 * k + j) = sbox_digit j (st ! (3 * k)) (st ! (3 * k + 1)) (st ! (3 * k + 2))"
proof -
  let ?n = "9 * st ! (3 * k) + 3 * st ! (3 * k + 1) + st ! (3 * k + 2)"
  have n: "0 \<le> ?n" "?n \<le> 26" using assms(2-4) by auto
  then have "wrap8 ?n = ?n" by (intro wrap8_id) simp_all
  moreover have "0 \<le> sbox_lookup ! nat ?n" using sbox_lookup_range [of "nat ?n"] n by simp
  moreover have "j = 0 \<or> j = 1 \<or> j = 2" using assms(5) by auto
  ultimately show ?thesis using assms(1) by (auto simp: sub_tryte_at_def Let_def sbox_digit_def c_div_nonneg c_mod_nonneg zdiv_zmult2_eq [of 3 _ 3, simplified])
qed

lemma sub_trytes_loop:
  assumes "3 * n \<le> length st" "unbalanced st"
  shows "length (fold sub_tryte_at [0..<n] st) = length st \<and> (\<forall>i < length st. fold sub_tryte_at [0..<n] st ! i =
    (if i < 3 * n then sbox_digit (i mod 3) (st ! (3 * (i div 3))) (st ! (3 * (i div 3) + 1)) (st ! (3 * (i div 3) + 2)) else st ! i))"
  using assms(1)
proof (induction n)
  case (Suc n)
  let ?s = "fold sub_tryte_at [0..<n] st"
  have IH: "length ?s = length st" "\<And>i. i < length st \<Longrightarrow> ?s ! i =
      (if i < 3 * n then sbox_digit (i mod 3) (st ! (3 * (i div 3))) (st ! (3 * (i div 3) + 1)) (st ! (3 * (i div 3) + 2)) else st ! i)"
    using Suc by auto
  have g: "?s ! (3 * n) = st ! (3 * n)" "?s ! (3 * n + 1) = st ! (3 * n + 1)" "?s ! (3 * n + 2) = st ! (3 * n + 2)" using IH(2) Suc.prems by simp_all
  have v: "st ! (3 * n) \<in> {0, 1, 2}" "st ! (3 * n + 1) \<in> {0, 1, 2}" "st ! (3 * n + 2) \<in> {0, 1, 2}" using unbalanced_nth [OF assms(2)] Suc.prems by auto
  have "sub_tryte_at n ?s ! i = (if i < 3 * Suc n then sbox_digit (i mod 3) (st ! (3 * (i div 3))) (st ! (3 * (i div 3) + 1)) (st ! (3 * (i div 3) + 2)) else st ! i)"
    if i: "i < length st" for i
  proof (cases "i div 3 = n")
    case True
    then have e: "i = 3 * n + i mod 3" "i mod 3 < 3" "i < 3 * Suc n" by auto
    have "sub_tryte_at n ?s ! (3 * n + i mod 3) = sbox_digit (i mod 3) (?s ! (3 * n)) (?s ! (3 * n + 1)) (?s ! (3 * n + 2))"
      by (rule sub_tryte_at_same) (use Suc.prems IH(1) g v e(2) in simp_all)
    then show ?thesis using True e g by (simp del: mult_Suc_right)
  next
    case False
    then have "i < 3 * Suc n \<longleftrightarrow> i < 3 * n" by auto
    then show ?thesis using sub_tryte_at_other [OF False] IH(2) [OF i] by simp
  qed
  then show ?case using IH(1) by simp
qed simp

lemma sub_trytes_cell:
  assumes "length st = STATESIZE" "unbalanced st"
  shows "length (sub_trytes st) = STATESIZE"
    "sl < SLICES \<Longrightarrow> col < COLUMNS \<Longrightarrow> j < 3 \<Longrightarrow>
      cell (sub_trytes st) sl (3 * col + j) = sbox_digit j (cell st sl (3 * col)) (cell st sl (3 * col + 1)) (cell st sl (3 * col + 2))"
proof -
  have l: "3 * NUM_SBOXES \<le> length st" using assms(1) by simp
  note f = sub_trytes_loop [OF l assms(2), folded sub_trytes_def]
  show "length (sub_trytes st) = STATESIZE" using f assms(1) by simp
  assume b: "sl < SLICES" "col < COLUMNS" "j < 3"
  have s: "3 * (COLUMNS * sl + col) = SLICESIZE * sl + 3 * col" "SLICESIZE * sl + (3 * col + j) = j + 3 * (COLUMNS * sl + col)" by simp_all
  have i: "SLICESIZE * sl + (3 * col + j) < length st" "(SLICESIZE * sl + (3 * col + j)) div 3 = COLUMNS * sl + col" "(SLICESIZE * sl + (3 * col + j)) mod 3 = j"
    using b assms(1) by (simp, simp, simp only: s(2) mod_mult_self2 mod_less)
  show "cell (sub_trytes st) sl (3 * col + j) = sbox_digit j (cell st sl (3 * col)) (cell st sl (3 * col + 1)) (cell st sl (3 * col + 2))"
    using f i(1) assms(1) unfolding cell_def by (simp only: i(2,3) s(1) add.assoc) simp
qed

end
