(* ===== verification/Ftroika.thy ===== *)
theory Ftroika
  imports Prelude Troika
begin

text \<open>
  \<open>common/crypto/ftroika\<close>: Troika with the 27 trits of a lane in two words, one for the trits 1 and one for the trits 2. \<open>t27.h\<close> has the lanes, \<open>ftroika.c\<close> the
  functions. The fast functions compute what those of \<open>troika.c\<close> compute. The printing functions are left out.
\<close>

section \<open>Definitions\<close>

subsection \<open>Lanes\<close>

record t27_t =
  t27_p :: u32
  t27_n :: u32

definition t27_init :: "u32 \<Rightarrow> u32 \<Rightarrow> t27_t" where
  "t27_init a b = \<lparr>t27_p = a, t27_n = b\<rparr>"

definition t27_eq :: "t27_t \<Rightarrow> t27_t \<Rightarrow> bool" where
  "t27_eq a b \<longleftrightarrow> t27_p a = t27_p b \<and> t27_n a = t27_n b"

definition is_one :: "t27_t \<Rightarrow> u32" where "is_one a = t27_p a"
definition is_two :: "t27_t \<Rightarrow> u32" where "is_two a = t27_n a"
definition is_zero :: "t27_t \<Rightarrow> u32" where "is_zero a = NOT (t27_p a) AND NOT (t27_n a)"

definition t27_clean :: "t27_t \<Rightarrow> t27_t" where
  "t27_clean a = \<lparr>t27_p = t27_p a AND 0x07ffffff, t27_n = t27_n a AND 0x07ffffff\<rparr>"

definition t27_sum :: "t27_t \<Rightarrow> t27_t \<Rightarrow> t27_t" where
  "t27_sum a b =
     \<lparr>t27_p = (is_one a AND is_zero b) OR (is_zero a AND is_one b) OR (is_two a AND is_two b),
      t27_n = (is_two a AND is_zero b) OR (is_zero a AND is_two b) OR (is_one a AND is_one b)\<rparr>"

definition t27_roll :: "t27_t \<Rightarrow> nat \<Rightarrow> t27_t" where
  "t27_roll a n =
     \<lparr>t27_p = (push_bit n (t27_p a) OR drop_bit (27 - n) (t27_p a)) AND 0x07ffffff,
      t27_n = (push_bit n (t27_n a) OR drop_bit (27 - n) (t27_n a)) AND 0x07ffffff\<rparr>"

definition t27_get :: "t27_t \<Rightarrow> nat \<Rightarrow> trit" where
  "t27_get a pos =
     (let m = push_bit pos 1
      in if t27_p a AND m \<noteq> 0 then 1 else if t27_n a AND m \<noteq> 0 then 2 else 0)"

text \<open>The value is an unsigned byte: a negative trit is greater than two and ignored.\<close>

definition t27_set :: "t27_t \<Rightarrow> nat \<Rightarrow> trit \<Rightarrow> t27_t" where
  "t27_set a pos v =
     (let val = v mod 256
      in if val > 2 then a
         else
           let m = push_bit pos 1;
               unmask = NOT m;
               a = \<lparr>t27_p = t27_p a AND unmask, t27_n = t27_n a AND unmask\<rparr>
           in if val = 1 then a\<lparr>t27_p := t27_p a OR m\<rparr> else if val = 2 then a\<lparr>t27_n := t27_n a OR m\<rparr> else a)"

definition state_to_fstate :: "trit list \<Rightarrow> t27_t list \<Rightarrow> t27_t list" where
  "state_to_fstate st fstate =
     fold (\<lambda>(sl, row, col) fstate. fstate[COLUMNS * row + col := t27_set (fstate ! (COLUMNS * row + col)) sl (st ! cell_idx sl row col)]) cells fstate"

definition fstate_to_state :: "t27_t list \<Rightarrow> trit list \<Rightarrow> trit list" where
  "fstate_to_state fstate st =
     fold (\<lambda>(sl, row, col) st. st[cell_idx sl row col := t27_get (fstate ! (COLUMNS * row + col)) sl]) cells st"

subsection \<open>The permutation\<close>

definition fround_constants :: "t27_t list list" where
  "fround_constants = [
     [t27_init 119734530 1610953, t27_init 5749794 34095441, t27_init 8585540 55080601, t27_init 37884008 77409799, t27_init 54010117 84576,
      t27_init 1516630 113295913, t27_init 67149892 28728632, t27_init 18946819 46269656, t27_init 71707578 53494784],
     [t27_init 16777439 103161856, t27_init 106015553 10769436, t27_init 21266449 11549090, t27_init 25182214 106707976, t27_init 3511622 21651481,
      t27_init 99250704 98573, t27_init 86049024 8946816, t27_init 115430790 18522649, t27_init 34802142 90448384],
     [t27_init 52954114 4518880, t27_init 42049594 69225857, t27_init 64652 119014242, t27_init 2361764 79725587, t27_init 11788385 71306002,
      t27_init 104925460 18936387, t27_init 126091277 7368848, t27_init 50448421 76157720, t27_init 8389632 69472985],
     [t27_init 5267465 119801412, t27_init 219376 96215813, t27_init 69452824 31209699, t27_init 2458688 26900536, t27_init 9216196 23217449,
      t27_init 9479304 84560389, t27_init 14721540 118622586, t27_init 18134123 33751056, t27_init 17839280 8454144],
     [t27_init 50535754 83100304, t27_init 77465099 56709376, t27_init 3229283 54835588, t27_init 111780009 4473088, t27_init 78153311 1384832,
      t27_init 2200712 85617187, t27_init 3410924 71341072, t27_init 75661345 34434134, t27_init 56763059 69011456],
     [t27_init 111543554 1650793, t27_init 16908812 37251073, t27_init 104910882 1517085, t27_init 26041368 103842404, t27_init 48022528 2229055,
      t27_init 54104125 71320960, t27_init 35722818 93087928, t27_init 84559900 3190850, t27_init 27582482 37816716],
     [t27_init 68786250 54928432, t27_init 3686682 63278693, t27_init 70045 100557312, t27_init 38150276 94408058, t27_init 46798629 2394242,
      t27_init 1202190 8988112, t27_init 34308201 94384916, t27_init 17518227 3145772, t27_init 973329 136],
     [t27_init 56633740 8765490, t27_init 68419770 749061, t27_init 100942913 23267584, t27_init 79923980 51667986, t27_init 41853745 25172098,
      t27_init 39327896 75776000, t27_init 44671808 68175902, t27_init 2245138 13929772, t27_init 33650945 79037966],
     [t27_init 270473 90363412, t27_init 72887432 25346582, t27_init 100829319 16593224, t27_init 40087630 68684337, t27_init 6369457 110496512,
      t27_init 4784407 25472000, t27_init 33891012 79219770, t27_init 53838530 8936492, t27_init 68643936 525057],
     [t27_init 102302534 16841864, t27_init 50364433 75530210, t27_init 84025378 41014464, t27_init 25225495 102827176, t27_init 4194888 1050917,
      t27_init 84026756 39440496, t27_init 2102125 76284930, t27_init 219 101056512, t27_init 100738441 5820436],
     [t27_init 10228162 67365944, t27_init 5235808 8393488, t27_init 51989651 2228780, t27_init 16847505 76433508, t27_init 67651608 33591874,
      t27_init 69017778 35784448, t27_init 33587208 76568885, t27_init 117440518 4257472, t27_init 96273297 154690],
     [t27_init 124317824 1508111, t27_init 34873472 98616918, t27_init 111182400 1330494, t27_init 69374511 54871056, t27_init 27626369 38929480,
      t27_init 37879972 26052698, t27_init 71587392 44040194, t27_init 14000288 2101064, t27_init 35672064 97980170],
     [t27_init 81296 47317509, t27_init 38469910 25472072, t27_init 29738560 36700214, t27_init 3267745 117973262, t27_init 97993472 528537,
      t27_init 84567940 13731898, t27_init 77335148 21041296, t27_init 51463726 6724033, t27_init 1116193 23601996],
     [t27_init 80396928 18153737, t27_init 117581700 10059826, t27_init 21505356 101124275, t27_init 23679023 42993616, t27_init 103681057 4268108,
      t27_init 72885098 18914433, t27_init 97846858 2627621, t27_init 8422144 104538235, t27_init 83948099 40176916],
     [t27_init 6928902 67256433, t27_init 67184746 41588096, t27_init 69355878 38529, t27_init 41473220 67313922, t27_init 50647688 4336995,
      t27_init 92288643 248148, t27_init 12134919 37884008, t27_init 35146408 2601044, t27_init 9423489 17835048],
     [t27_init 68231686 6477024, t27_init 57284529 8398852, t27_init 69316740 34996770, t27_init 33696260 24642995, t27_init 46333986 85212492,
      t27_init 54665779 12422144, t27_init 47791116 311458, t27_init 44671584 72368411, t27_init 2773762 29428924],
     [t27_init 70976736 62972703, t27_init 123864709 10004498, t27_init 4202128 11157861, t27_init 4859922 61129797, t27_init 43331726 69782577,
      t27_init 83935362 49559848, t27_init 18875398 1355904, t27_init 34433676 78808178, t27_init 106038508 27888147],
     [t27_init 4627260 33570944, t27_init 4538630 121155721, t27_init 9245346 117613917, t27_init 33571009 29853970, t27_init 2392559 43652096,
      t27_init 93343744 37793194, t27_init 17309712 36148998, t27_init 3276900 118312456, t27_init 101315856 5638796],
     [t27_init 1587272 132514822, t27_init 4229205 77297034, t27_init 5767570 84216428, t27_init 110247047 21528952, t27_init 125878920 7743841,
      t27_init 42033186 73801480, t27_init 8388866 2699881, t27_init 127159080 2240724, t27_init 17324188 112468544],
     [t27_init 34341913 91345154, t27_init 105251840 2623560, t27_init 4798982 10634481, t27_init 39389184 84174433, t27_init 88113152 8667000,
      t27_init 34284722 329, t27_init 39360568 67200132, t27_init 6844996 58720546, t27_init 104799233 29368426],
     [t27_init 51429916 80362691, t27_init 88855204 262411, t27_init 8655522 71558228, t27_init 17838342 11076784, t27_init 92751916 1577424,
      t27_init 33559104 8931338, t27_init 1055746 99418513, t27_init 85018341 39885072, t27_init 63800 120587968],
     [t27_init 5517104 84070467, t27_init 118067364 5522242, t27_init 39922643 68435980, t27_init 73796250 35144996, t27_init 2528811 37838868,
      t27_init 37880008 17144593, t27_init 21317458 112754688, t27_init 113268098 20677181, t27_init 2597136 47730886],
     [t27_init 68438280 50397942, t27_init 59853500 68030786, t27_init 1475096 41965991, t27_init 85852370 37775145, t27_init 1071361 44113962,
      t27_init 68040205 62931234, t27_init 5847109 78005290, t27_init 34465024 12720668, t27_init 71860611 44513824],
     [t27_init 109057155 3197812, t27_init 2396909 16843778, t27_init 67383952 31605828, t27_init 70387369 37875732, t27_init 119275955 28228,
      t27_init 34079753 73679286, t27_init 50603056 71422530, t27_init 10385546 86017108, t27_init 227426 12060561]]"

text \<open>The macros \<open>ZERO\<close>, \<open>A\<close>, ..., \<open>Z\<close>: where the three lanes hold the digits of a number, the lowest in \<open>a\<close>.\<close>

definition is_digit :: "nat \<Rightarrow> t27_t \<Rightarrow> u32" where
  "is_digit d a = (if d = 0 then is_zero a else if d = 1 then is_one a else is_two a)"

definition tryte_lane :: "t27_t \<Rightarrow> t27_t \<Rightarrow> t27_t \<Rightarrow> nat \<Rightarrow> u32" where
  "tryte_lane a b c k = is_digit (k mod 3) a AND is_digit (k div 3 mod 3) b AND is_digit (k div 9) c"

definition ftroika_sub_tryte :: "t27_t \<Rightarrow> t27_t \<Rightarrow> t27_t \<Rightarrow> t27_t \<times> t27_t \<times> t27_t" where
  "ftroika_sub_tryte a b c =
     (let sel = tryte_lane a b c;
          x0 = \<lparr>t27_p = sel 1 OR sel 5 OR sel 6 OR sel 10 OR sel 13 OR sel 16 OR sel 19 OR sel 21 OR sel 26,
                t27_n = sel 2 OR sel 3 OR sel 7 OR sel 11 OR sel 14 OR sel 17 OR sel 20 OR sel 22 OR sel 24\<rparr>;
          x1 = \<lparr>t27_p = sel 3 OR sel 6 OR sel 13 OR sel 17 OR sel 18 OR sel 19 OR sel 20 OR sel 23 OR sel 25,
                t27_n = sel 0 OR sel 1 OR sel 2 OR sel 4 OR sel 8 OR sel 14 OR sel 16 OR sel 21 OR sel 24\<rparr>;
          x2 = \<lparr>t27_p = sel 2 OR sel 4 OR sel 5 OR sel 12 OR sel 16 OR sel 17 OR sel 19 OR sel 22 OR sel 23,
                t27_n = sel 1 OR sel 7 OR sel 8 OR sel 13 OR sel 14 OR sel 15 OR sel 20 OR sel 25 OR sel 26\<rparr>
      in (t27_clean x0, t27_clean x1, t27_clean x2))"

definition ftroika_sub_trytes :: "t27_t list \<Rightarrow> t27_t list" where
  "ftroika_sub_trytes st =
     fold (\<lambda>col st. let (a, b, c) = ftroika_sub_tryte (st ! (ROWS * col + 2)) (st ! (ROWS * col + 1)) (st ! (ROWS * col))
                    in st[ROWS * col + 2 := a, ROWS * col + 1 := b, ROWS * col := c])
       [0..<COLUMNS] st"

definition fshifts :: "nat list" where
  "fshifts = [0, 1, 2, 3, 4, 5, 6, 7, 8, 12, 13, 14, 15, 16, 17, 9, 10, 11, 24, 25, 26, 18, 19, 20, 21, 22, 23]"

text \<open>The last 18 lanes are moved; the second array is filled there and copied from there.\<close>

definition ftroika_shift_rows :: "t27_t list \<Rightarrow> t27_t list" where
  "ftroika_shift_rows st =
     (let new_state = fold (\<lambda>i new_state. new_state[fshifts ! i := st ! i]) [9..<SLICESIZE] st
      in take 9 st @ drop 9 new_state)"

definition ftroika_shift_lanes :: "t27_t list \<Rightarrow> t27_t list" where
  "ftroika_shift_lanes st = map (\<lambda>rowcol. t27_roll (st ! rowcol) (shift_lanes_param ! rowcol)) [0..<SLICESIZE]"

definition fparity :: "t27_t list \<Rightarrow> t27_t list" where
  "fparity st = map (\<lambda>col. fold (\<lambda>row col_sum. t27_sum col_sum (st ! (COLUMNS * row + col))) [0..<ROWS] (t27_init 0 0)) [0..<COLUMNS]"

definition ftroika_add_column_parity :: "t27_t list \<Rightarrow> t27_t list" where
  "ftroika_add_column_parity st =
     (let parity = fparity st
      in fold (\<lambda>(row, col) st.
             let idx = COLUMNS * row + col;
                 t1 = parity ! (if col = 0 then COLUMNS - 1 else col - 1);
                 t2 = t27_roll (parity ! (if col = COLUMNS - 1 then 0 else col + 1)) (SLICES - 1)
             in st[idx := t27_sum (st ! idx) (t27_sum t1 t2)])
           [(row, col). row \<leftarrow> [0..<ROWS], col \<leftarrow> [0..<COLUMNS]] st)"

definition ftroika_add_round_constant :: "nat \<Rightarrow> t27_t list \<Rightarrow> t27_t list" where
  "ftroika_add_round_constant round st = fold (\<lambda>col st. st[col := t27_sum (st ! col) (fround_constants ! round ! col)]) [0..<COLUMNS] st"

definition ftroika_round :: "nat \<Rightarrow> t27_t list \<Rightarrow> t27_t list" where
  "ftroika_round round st =
     ftroika_add_round_constant round (ftroika_add_column_parity (ftroika_shift_lanes (ftroika_shift_rows (ftroika_sub_trytes st))))"

definition ftroika_permutation :: "t27_t list \<Rightarrow> nat \<Rightarrow> t27_t list" where
  "ftroika_permutation st num_rounds = fold ftroika_round [0..<num_rounds] st"

subsection \<open>States\<close>

definition ftroika_and :: "u32 \<Rightarrow> t27_t list \<Rightarrow> t27_t list" where
  "ftroika_and m = map (\<lambda>a. \<lparr>t27_p = t27_p a AND m, t27_n = t27_n a AND m\<rparr>)"

definition ftroika_nullify_state :: "t27_t list \<Rightarrow> t27_t list" where
  "ftroika_nullify_state = ftroika_and 0"

definition ftroika_nullify_rate :: "t27_t list \<Rightarrow> t27_t list" where
  "ftroika_nullify_rate = ftroika_and 0x07fffe00"

definition ftroika_nullify_capacity :: "t27_t list \<Rightarrow> t27_t list" where
  "ftroika_nullify_capacity = ftroika_and 0x000001ff"

definition ftroika_compare_states :: "t27_t list \<Rightarrow> t27_t list \<Rightarrow> bool" where
  "ftroika_compare_states st other \<longleftrightarrow> list_all (\<lambda>i. t27_eq (st ! i) (other ! i)) [0..<SLICES]"

text \<open>The loops that walk through the state with two counters.\<close>

fun ft_put :: "t27_t list \<Rightarrow> nat \<Rightarrow> nat \<Rightarrow> trit list \<Rightarrow> t27_t list" where
  "ft_put st rowcol sl [] = st"
| "ft_put st rowcol sl (t # ts) =
     (let (rowcol, sl) = (if rowcol = SLICESIZE then (0, sl + 1) else (rowcol, sl))
      in ft_put (st[rowcol := t27_set (st ! rowcol) sl t]) (rowcol + 1) sl ts)"

fun ft_take :: "t27_t list \<Rightarrow> nat \<Rightarrow> nat \<Rightarrow> nat \<Rightarrow> trit list" where
  "ft_take st rowcol sl 0 = []"
| "ft_take st rowcol sl (Suc n) =
     (let (rowcol, sl) = (if rowcol = SLICESIZE then (0, sl + 1) else (rowcol, sl))
      in t27_get (st ! rowcol) sl # ft_take st (rowcol + 1) sl n)"

definition ftroika_trits_to_rate :: "t27_t list \<Rightarrow> trit list \<Rightarrow> t27_t list" where
  "ftroika_trits_to_rate st trits = ft_put st 0 0 trits"

definition ftroika_rate_to_trits :: "t27_t list \<Rightarrow> nat \<Rightarrow> trit list" where
  "ftroika_rate_to_trits st len = ft_take st 0 0 len"

partial_function (option) ftroika_absorb :: "t27_t list \<Rightarrow> nat \<Rightarrow> trit list \<Rightarrow> nat \<Rightarrow> t27_t list option" where
  "ftroika_absorb st rate message num_rounds =
     (if rate \<le> length message
      then ftroika_absorb (ftroika_permutation (ft_put st 0 0 (take rate message)) num_rounds) rate (drop rate message) num_rounds
      else
        let last_block = replicate rate 0;
            last_block = blit last_block 0 (map (\<lambda>t. t mod 256) message);
            last_block = last_block[length message := TROIKA_PADDING]
        in Some (ft_put st 0 0 last_block))"

partial_function (option) ftroika_squeeze :: "trit list \<Rightarrow> nat \<Rightarrow> nat \<Rightarrow> t27_t list \<Rightarrow> nat \<Rightarrow> (trit list \<times> t27_t list) option" where
  "ftroika_squeeze hash hash_length rate st num_rounds =
     (if rate \<le> hash_length
      then let st = ftroika_permutation st num_rounds
           in ftroika_squeeze (hash @ ft_take st 0 0 rate) (hash_length - rate) rate st num_rounds
      else if hash_length > 0
      then let st = ftroika_permutation st num_rounds in Some (hash @ ft_take st 0 0 hash_length, st)
      else Some (hash, st))"

definition ftroika_var_rounds :: "nat \<Rightarrow> trit list \<Rightarrow> nat \<Rightarrow> trit list option" where
  "ftroika_var_rounds outlen input num_rounds =
     (case ftroika_absorb (replicate SLICESIZE (t27_init 0 0)) TROIKA_RATE input num_rounds of
        None \<Rightarrow> None
      | Some st \<Rightarrow> map_option fst (ftroika_squeeze [] outlen TROIKA_RATE st num_rounds))"

definition ftroika :: "nat \<Rightarrow> trit list \<Rightarrow> trit list option" where
  "ftroika outlen input = ftroika_var_rounds outlen input NUM_ROUNDS"

definition rehash :: "t27_t list \<Rightarrow> t27_t list" where
  "rehash st =
     (let st = ftroika_nullify_capacity st;
          st = ftroika_permutation st 24;
          st = ftroika_nullify_rate st;
          st = st[0 := t27_set (st ! 0) 0 TROIKA_PADDING]
      in ftroika_permutation st 24)"

text \<open>The array of the state is not initialised: \<open>st\<close> is what it holds.\<close>

definition ftroika243_repeated :: "t27_t list \<Rightarrow> trit list \<Rightarrow> nat \<Rightarrow> trit list" where
  "ftroika243_repeated st input repeat =
     (let st = ftroika_nullify_state st;
          st = ftroika_trits_to_rate st (take 243 input);
          st = (rehash ^^ repeat) st
      in ftroika_rate_to_trits st 243)"

text \<open>Counting: the trits of the state are the digits of a number. With all trits 2 the walk leaves the lanes, which have 32 places.\<close>

partial_function (option) ftroika_increase_loop :: "t27_t list \<Rightarrow> nat \<Rightarrow> nat \<Rightarrow> t27_t list option" where
  "ftroika_increase_loop st rowcol sl =
     (if sl \<ge> 32 then None
      else
        let val = t27_get (st ! rowcol) sl
        in if val < 2 then Some (st[rowcol := t27_set (st ! rowcol) sl (val + 1)])
           else
             let st = st[rowcol := t27_set (st ! rowcol) sl 0];
                 rowcol = rowcol + 1
             in if rowcol = SLICESIZE then ftroika_increase_loop st 0 (sl + 1) else ftroika_increase_loop st rowcol sl)"

definition ftroika_increase_state :: "t27_t list \<Rightarrow> t27_t list option" where
  "ftroika_increase_state st = ftroika_increase_loop st 0 0"

subsection \<open>The permutation of MAM\<close>

text \<open>\<open>mam/troika/troika.c\<close>. The array of the lanes is not initialised: \<open>fstate\<close> is what it holds.\<close>

abbreviation MAM_TROIKA_NUM_ROUNDS :: nat where "MAM_TROIKA_NUM_ROUNDS \<equiv> 24"

definition mam_ftroika_transform :: "t27_t list \<Rightarrow> trit list \<Rightarrow> trit list" where
  "mam_ftroika_transform fstate st =
     (let st = map (\<lambda>t. t + 1) st;
          fstate = state_to_fstate st fstate;
          fstate = ftroika_permutation fstate MAM_TROIKA_NUM_ROUNDS;
          st = fstate_to_state fstate st
      in map (\<lambda>t. t - 1) st)"

definition mam_troika_transform :: "trit list \<Rightarrow> trit list" where
  "mam_troika_transform st =
     (let st = map (\<lambda>t. t + 1) st;
          st = troika_permutation st MAM_TROIKA_NUM_ROUNDS
      in map (\<lambda>t. t - 1) st)"

section \<open>Lanes, trit by trit\<close>

text \<open>A lane holds no trit twice in its 27 places; a clean one has nothing in the other five.\<close>

definition lane_ok :: "t27_t \<Rightarrow> bool" where
  "lane_ok a \<longleftrightarrow> (\<forall>i < 27. \<not> (bit (t27_p a) i \<and> bit (t27_n a) i))"

definition lane_clean :: "t27_t \<Rightarrow> bool" where
  "lane_clean a \<longleftrightarrow> (\<forall>i \<ge> 27. \<not> bit (t27_p a) i \<and> \<not> bit (t27_n a) i)"

named_theorems lane_simps \<open>the trits of lanes\<close>

lemma t27_get_bits: "t27_get a i = (if bit (t27_p a) i then 1 else if bit (t27_n a) i then 2 else 0)"
  by (simp add: t27_get_def Let_def bit_iff_and_push_bit_not_eq_0)

lemma t27_get_range: "t27_get a i \<in> {0, 1, 2}"
  by (simp add: t27_get_bits)

lemma lane_mask: "(0x07ffffff :: u32) = mask 27"
  by (simp add: mask_eq_exp_minus_1)

lemma digit_bits:
  assumes "lane_ok a" "i < 27"
  shows "bit (is_one a) i \<longleftrightarrow> t27_get a i = 1" "bit (is_two a) i \<longleftrightarrow> t27_get a i = 2" "bit (is_zero a) i \<longleftrightarrow> t27_get a i = 0"
  using assms by (auto simp: lane_ok_def t27_get_bits is_one_def is_two_def is_zero_def bit_simps)

lemma t27_sum_get [lane_simps]:
  assumes "lane_ok a" "lane_ok b" "i < 27"
  shows "t27_get (t27_sum a b) i = (t27_get a i + t27_get b i) mod 3"
  using t27_get_range [of a i] t27_get_range [of b i]
  by (subst t27_get_bits) (auto simp: t27_sum_def bit_simps digit_bits [OF assms(1,3)] digit_bits [OF assms(2,3)])

lemma t27_sum_ok [lane_simps]: "lane_ok a \<Longrightarrow> lane_ok b \<Longrightarrow> lane_ok (t27_sum a b)"
  by (subst lane_ok_def) (auto simp: t27_sum_def bit_simps digit_bits)

lemma t27_sum_clean [lane_simps]: "lane_clean a \<Longrightarrow> lane_clean b \<Longrightarrow> lane_clean (t27_sum a b)"
  by (auto simp: lane_clean_def t27_sum_def bit_simps is_one_def is_two_def is_zero_def)

lemma t27_zero [lane_simps]: "t27_get (t27_init 0 0) i = 0" "lane_ok (t27_init 0 0)" "lane_clean (t27_init 0 0)"
  by (simp_all add: t27_get_bits t27_init_def lane_ok_def lane_clean_def)

lemma roll_bits:
  fixes w :: u32
  assumes "\<forall>i \<ge> 27. \<not> bit w i" "n < 27" "i < 27"
  shows "bit ((push_bit n w OR drop_bit (27 - n) w) AND 0x07ffffff) ((i + n) mod 27) \<longleftrightarrow> bit w i"
proof (cases "i + n < 27")
  case True
  moreover have "\<not> bit w (27 - n + (i + n))" using assms by simp
  ultimately show ?thesis using assms by (auto simp: lane_mask bit_simps)
next
  case False
  then have "(i + n) mod 27 = i + n - 27" using assms by (simp add: mod_if)
  with False assms show ?thesis by (auto simp: lane_mask bit_simps)
qed

lemma t27_roll_get [lane_simps]:
  assumes "lane_clean a" "n < 27" "i < 27"
  shows "t27_get (t27_roll a n) ((i + n) mod 27) = t27_get a i"
  using assms by (simp add: t27_get_bits t27_roll_def lane_clean_def roll_bits)

lemma t27_roll_clean [lane_simps]: "lane_clean (t27_roll a n)"
  by (auto simp: lane_clean_def t27_roll_def lane_mask bit_simps)

lemma t27_roll_ok [lane_simps]:
  assumes "lane_ok a" "lane_clean a" "n < 27"
  shows "lane_ok (t27_roll a n)"
  unfolding lane_ok_def
proof (intro allI impI)
  fix j :: nat assume "j < 27"
  define i where "i = (j + (27 - n)) mod 27"
  have "i < 27" "j = (i + n) mod 27" using \<open>j < 27\<close> assms(3) by (simp_all add: i_def mod_simps)
  then show "\<not> (bit (t27_p (t27_roll a n)) j \<and> bit (t27_n (t27_roll a n)) j)"
    using assms roll_bits [of "t27_p a" n i] roll_bits [of "t27_n a" n i] by (simp add: t27_roll_def lane_clean_def lane_ok_def)
qed

lemma t27_set_get [lane_simps]:
  assumes "0 \<le> t" "t \<le> 2" "i < 32" "j < 32"
  shows "t27_get (t27_set a i t) j = (if i = j then t else t27_get a j)"
proof -
  have "t = 0 \<or> t = 1 \<or> t = 2" using assms by auto
  then show ?thesis using assms(3,4) by (auto simp: t27_get_bits t27_set_def Let_def bit_simps)
qed

lemma t27_set_bits:
  assumes "0 \<le> t" "t \<le> 2" "i < 32" "j < 32"
  shows "bit (t27_p (t27_set a i t)) j = (if i = j then t = 1 else bit (t27_p a) j)" "bit (t27_n (t27_set a i t)) j = (if i = j then t = 2 else bit (t27_n a) j)"
proof -
  have "t = 0 \<or> t = 1 \<or> t = 2" using assms by auto
  then show "bit (t27_p (t27_set a i t)) j = (if i = j then t = 1 else bit (t27_p a) j)" "bit (t27_n (t27_set a i t)) j = (if i = j then t = 2 else bit (t27_n a) j)"
    using assms(3,4) by (auto simp: t27_set_def Let_def bit_simps)
qed

lemma is_digit_bit: "lane_ok a \<Longrightarrow> i < 27 \<Longrightarrow> d < 3 \<Longrightarrow> bit (is_digit d a) i \<longleftrightarrow> t27_get a i = int d"
  using digit_bits [of a i] by (auto simp: is_digit_def)

lemma clean_bits: "i < 27 \<Longrightarrow> bit (t27_p (t27_clean a)) i = bit (t27_p a) i" "i < 27 \<Longrightarrow> bit (t27_n (t27_clean a)) i = bit (t27_n a) i" "lane_clean (t27_clean a)"
  by (auto simp: t27_clean_def lane_mask bit_simps lane_clean_def)

lemma digits_unique:
  fixes x y z :: int
  assumes "0 \<le> x" "x < 3" "0 \<le> y" "y < 3" "0 \<le> z" "k0 < 3" "k1 < 3"
  shows "nat (9 * z + 3 * y + x) = 9 * k2 + 3 * k1 + k0 \<longleftrightarrow> x = int k0 \<and> y = int k1 \<and> z = int k2"
proof
  assume "nat (9 * z + 3 * y + x) = 9 * k2 + 3 * k1 + k0"
  then have e: "9 * z + 3 * y + x = 9 * int k2 + 3 * int k1 + int k0" using assms by linarith
  have 1: "z = int k2" using e assms by linarith
  have 2: "y = int k1" using e 1 assms by linarith
  from e 1 2 show "x = int k0 \<and> y = int k1 \<and> z = int k2" by simp
qed (use assms in auto)

lemma tryte_lane_bit:
  assumes "lane_ok a" "lane_ok b" "lane_ok c" "i < 27" "k < 27"
  shows "bit (tryte_lane a b c k) i \<longleftrightarrow> nat (9 * t27_get c i + 3 * t27_get b i + t27_get a i) = k"
proof -
  have "bit (tryte_lane a b c k) i \<longleftrightarrow> t27_get a i = int (k mod 3) \<and> t27_get b i = int (k div 3 mod 3) \<and> t27_get c i = int (k div 9)"
    using assms by (simp add: tryte_lane_def bit_and_iff is_digit_bit)
  moreover have k: "9 * (k div 9) + 3 * (k div 3 mod 3) + k mod 3 = k"
    using div_mult2_eq [of k 3 3, simplified] mult_div_mod_eq [of 3 k] mult_div_mod_eq [of 3 "k div 3"] by linarith
  have "0 \<le> t27_get d i \<and> t27_get d i < 3" for d using t27_get_range [of d i] by auto
  then have "nat (9 * t27_get c i + 3 * t27_get b i + t27_get a i) = k \<longleftrightarrow> t27_get a i = int (k mod 3) \<and> t27_get b i = int (k div 3 mod 3) \<and> t27_get c i = int (k div 9)"
    using digits_unique [of "t27_get a i" "t27_get b i" "t27_get c i" "k mod 3" "k div 3 mod 3" "k div 9", unfolded k] by simp
  ultimately show ?thesis by blast
qed

text \<open>The selected numbers are those with the digit in question in the table.\<close>

definition digit_of :: "nat list \<Rightarrow> nat list \<Rightarrow> nat \<Rightarrow> trit" where
  "digit_of ps ns q = (if q \<in> set ps then 1 else if q \<in> set ns then 2 else 0)"

lemma selected_digits:
  assumes "q < 27"
  shows "digit_of [1, 5, 6, 10, 13, 16, 19, 21, 26] [2, 3, 7, 11, 14, 17, 20, 22, 24] q = sbox_lookup ! q div 3 ^ 0 mod 3"
    "digit_of [3, 6, 13, 17, 18, 19, 20, 23, 25] [0, 1, 2, 4, 8, 14, 16, 21, 24] q = sbox_lookup ! q div 3 ^ 1 mod 3"
    "digit_of [2, 4, 5, 12, 16, 17, 19, 22, 23] [1, 7, 8, 13, 14, 15, 20, 25, 26] q = sbox_lookup ! q div 3 ^ 2 mod 3"
proof -
  have "list_all (\<lambda>q. digit_of [1, 5, 6, 10, 13, 16, 19, 21, 26] [2, 3, 7, 11, 14, 17, 20, 22, 24] q = sbox_lookup ! q div 3 ^ 0 mod 3) [0..<27]" by code_simp
  then show "digit_of [1, 5, 6, 10, 13, 16, 19, 21, 26] [2, 3, 7, 11, 14, 17, 20, 22, 24] q = sbox_lookup ! q div 3 ^ 0 mod 3" using assms by (simp add: list_all_iff)
  have "list_all (\<lambda>q. digit_of [3, 6, 13, 17, 18, 19, 20, 23, 25] [0, 1, 2, 4, 8, 14, 16, 21, 24] q = sbox_lookup ! q div 3 ^ 1 mod 3) [0..<27]" by code_simp
  then show "digit_of [3, 6, 13, 17, 18, 19, 20, 23, 25] [0, 1, 2, 4, 8, 14, 16, 21, 24] q = sbox_lookup ! q div 3 ^ 1 mod 3" using assms by (simp add: list_all_iff)
  have "list_all (\<lambda>q. digit_of [2, 4, 5, 12, 16, 17, 19, 22, 23] [1, 7, 8, 13, 14, 15, 20, 25, 26] q = sbox_lookup ! q div 3 ^ 2 mod 3) [0..<27]" by code_simp
  then show "digit_of [2, 4, 5, 12, 16, 17, 19, 22, 23] [1, 7, 8, 13, 14, 15, 20, 25, 26] q = sbox_lookup ! q div 3 ^ 2 mod 3" using assms by (simp add: list_all_iff)
qed

lemma selected_lane:
  assumes "\<And>k. k < 27 \<Longrightarrow> bit (S k) i \<longleftrightarrow> q = k" "i < 27" "set ps \<inter> set ns = {}" "\<forall>k \<in> set ps. k < 27" "\<forall>k \<in> set ns. k < 27"
    "P = foldr (\<lambda>k w. S k OR w) ps 0" "N = foldr (\<lambda>k w. S k OR w) ns 0"
  shows "t27_get (t27_clean \<lparr>t27_p = P, t27_n = N\<rparr>) i = digit_of ps ns q"
    "\<not> (bit (t27_p (t27_clean \<lparr>t27_p = P, t27_n = N\<rparr>)) i \<and> bit (t27_n (t27_clean \<lparr>t27_p = P, t27_n = N\<rparr>)) i)"
proof -
  have "bit (foldr (\<lambda>k w. S k OR w) ks 0) i \<longleftrightarrow> q \<in> set ks" if "\<forall>k \<in> set ks. k < 27" for ks
    using that assms(1) by (induction ks) (auto simp: bit_or_iff)
  then have "bit P i \<longleftrightarrow> q \<in> set ps" "bit N i \<longleftrightarrow> q \<in> set ns" using assms(4-7) by simp_all
  then show "t27_get (t27_clean \<lparr>t27_p = P, t27_n = N\<rparr>) i = digit_of ps ns q"
      "\<not> (bit (t27_p (t27_clean \<lparr>t27_p = P, t27_n = N\<rparr>)) i \<and> bit (t27_n (t27_clean \<lparr>t27_p = P, t27_n = N\<rparr>)) i)"
    using assms(2,3) by (auto simp: t27_get_bits clean_bits digit_of_def)
qed

lemma sub_tryte_get:
  assumes "lane_ok a" "lane_ok b" "lane_ok c" "ftroika_sub_tryte a b c = (a', b', c')" "i < 27"
  shows "t27_get a' i = sbox_digit 2 (t27_get c i) (t27_get b i) (t27_get a i) \<and> \<not> (bit (t27_p a') i \<and> bit (t27_n a') i)"
    "t27_get b' i = sbox_digit 1 (t27_get c i) (t27_get b i) (t27_get a i) \<and> \<not> (bit (t27_p b') i \<and> bit (t27_n b') i)"
    "t27_get c' i = sbox_digit 0 (t27_get c i) (t27_get b i) (t27_get a i) \<and> \<not> (bit (t27_p c') i \<and> bit (t27_n c') i)"
proof -
  define q where "q = nat (9 * t27_get c i + 3 * t27_get b i + t27_get a i)"
  have q: "q < 27" using t27_get_range [of a i] t27_get_range [of b i] t27_get_range [of c i] by (auto simp: q_def)
  have S: "bit (tryte_lane a b c k) i \<longleftrightarrow> q = k" if "k < 27" for k using tryte_lane_bit [OF assms(1-3,5) that] by (simp add: q_def)
  note sel = selected_lane [where S = "tryte_lane a b c", OF S assms(5)]
  note e = assms(4) [unfolded ftroika_sub_tryte_def Let_def, symmetric]
  show "t27_get a' i = sbox_digit 2 (t27_get c i) (t27_get b i) (t27_get a i) \<and> \<not> (bit (t27_p a') i \<and> bit (t27_n a') i)"
    using e sel [of "[1, 5, 6, 10, 13, 16, 19, 21, 26]" "[2, 3, 7, 11, 14, 17, 20, 22, 24]"] selected_digits(1) [OF q] by (simp add: sbox_digit_def q_def or.assoc)
  show "t27_get b' i = sbox_digit 1 (t27_get c i) (t27_get b i) (t27_get a i) \<and> \<not> (bit (t27_p b') i \<and> bit (t27_n b') i)"
    using e sel [of "[3, 6, 13, 17, 18, 19, 20, 23, 25]" "[0, 1, 2, 4, 8, 14, 16, 21, 24]"] selected_digits(2) [OF q] by (simp add: sbox_digit_def q_def or.assoc)
  show "t27_get c' i = sbox_digit 0 (t27_get c i) (t27_get b i) (t27_get a i) \<and> \<not> (bit (t27_p c') i \<and> bit (t27_n c') i)"
    using e sel [of "[2, 4, 5, 12, 16, 17, 19, 22, 23]" "[1, 7, 8, 13, 14, 15, 20, 25, 26]"] selected_digits(3) [OF q] by (simp add: sbox_digit_def q_def or.assoc)
qed

section \<open>The tables\<close>

text \<open>The trits of lanes, slice by slice.\<close>

fun unslice :: "nat \<Rightarrow> (int \<times> int) list \<Rightarrow> trit list" where
  "unslice 0 ps = []"
| "unslice (Suc k) ps = map (\<lambda>(p, n). if odd p then 1 else if odd n then 2 else 0) ps @ unslice k (map (\<lambda>(p, n). (p div 2, n div 2)) ps)"

lemma unslice_nth:
  "i < k \<Longrightarrow> j < length ps \<Longrightarrow> unslice k ps ! (length ps * i + j) = (if odd (fst (ps ! j) div 2 ^ i) then 1 else if odd (snd (ps ! j) div 2 ^ i) then 2 else 0)"
proof (induction k arbitrary: i ps)
  case (Suc k)
  then show ?case
  proof (cases i)
    case 0
    then show ?thesis using Suc.prems by (simp add: nth_append split_beta)
  next
    case i: (Suc l)
    then show ?thesis using Suc.IH [of l "map (\<lambda>(p, n). (p div 2, n div 2)) ps"] Suc.prems
      by (simp add: nth_append split_beta zdiv_zmult2_eq add.assoc)
  qed
qed simp

definition lane_ints :: "t27_t \<Rightarrow> int \<times> int" where
  "lane_ints a = (uint (t27_p a), uint (t27_n a))"

definition fround_ints :: "(int \<times> int) list list" where
  "fround_ints = [
     [(119734530, 1610953), (5749794, 34095441), (8585540, 55080601), (37884008, 77409799), (54010117, 84576), (1516630, 113295913), (67149892, 28728632), (18946819, 46269656), (71707578, 53494784)],
     [(16777439, 103161856), (106015553, 10769436), (21266449, 11549090), (25182214, 106707976), (3511622, 21651481), (99250704, 98573), (86049024, 8946816), (115430790, 18522649), (34802142, 90448384)],
     [(52954114, 4518880), (42049594, 69225857), (64652, 119014242), (2361764, 79725587), (11788385, 71306002), (104925460, 18936387), (126091277, 7368848), (50448421, 76157720), (8389632, 69472985)],
     [(5267465, 119801412), (219376, 96215813), (69452824, 31209699), (2458688, 26900536), (9216196, 23217449), (9479304, 84560389), (14721540, 118622586), (18134123, 33751056), (17839280, 8454144)],
     [(50535754, 83100304), (77465099, 56709376), (3229283, 54835588), (111780009, 4473088), (78153311, 1384832), (2200712, 85617187), (3410924, 71341072), (75661345, 34434134), (56763059, 69011456)],
     [(111543554, 1650793), (16908812, 37251073), (104910882, 1517085), (26041368, 103842404), (48022528, 2229055), (54104125, 71320960), (35722818, 93087928), (84559900, 3190850), (27582482, 37816716)],
     [(68786250, 54928432), (3686682, 63278693), (70045, 100557312), (38150276, 94408058), (46798629, 2394242), (1202190, 8988112), (34308201, 94384916), (17518227, 3145772), (973329, 136)],
     [(56633740, 8765490), (68419770, 749061), (100942913, 23267584), (79923980, 51667986), (41853745, 25172098), (39327896, 75776000), (44671808, 68175902), (2245138, 13929772), (33650945, 79037966)],
     [(270473, 90363412), (72887432, 25346582), (100829319, 16593224), (40087630, 68684337), (6369457, 110496512), (4784407, 25472000), (33891012, 79219770), (53838530, 8936492), (68643936, 525057)],
     [(102302534, 16841864), (50364433, 75530210), (84025378, 41014464), (25225495, 102827176), (4194888, 1050917), (84026756, 39440496), (2102125, 76284930), (219, 101056512), (100738441, 5820436)],
     [(10228162, 67365944), (5235808, 8393488), (51989651, 2228780), (16847505, 76433508), (67651608, 33591874), (69017778, 35784448), (33587208, 76568885), (117440518, 4257472), (96273297, 154690)],
     [(124317824, 1508111), (34873472, 98616918), (111182400, 1330494), (69374511, 54871056), (27626369, 38929480), (37879972, 26052698), (71587392, 44040194), (14000288, 2101064), (35672064, 97980170)],
     [(81296, 47317509), (38469910, 25472072), (29738560, 36700214), (3267745, 117973262), (97993472, 528537), (84567940, 13731898), (77335148, 21041296), (51463726, 6724033), (1116193, 23601996)],
     [(80396928, 18153737), (117581700, 10059826), (21505356, 101124275), (23679023, 42993616), (103681057, 4268108), (72885098, 18914433), (97846858, 2627621), (8422144, 104538235), (83948099, 40176916)],
     [(6928902, 67256433), (67184746, 41588096), (69355878, 38529), (41473220, 67313922), (50647688, 4336995), (92288643, 248148), (12134919, 37884008), (35146408, 2601044), (9423489, 17835048)],
     [(68231686, 6477024), (57284529, 8398852), (69316740, 34996770), (33696260, 24642995), (46333986, 85212492), (54665779, 12422144), (47791116, 311458), (44671584, 72368411), (2773762, 29428924)],
     [(70976736, 62972703), (123864709, 10004498), (4202128, 11157861), (4859922, 61129797), (43331726, 69782577), (83935362, 49559848), (18875398, 1355904), (34433676, 78808178), (106038508, 27888147)],
     [(4627260, 33570944), (4538630, 121155721), (9245346, 117613917), (33571009, 29853970), (2392559, 43652096), (93343744, 37793194), (17309712, 36148998), (3276900, 118312456), (101315856, 5638796)],
     [(1587272, 132514822), (4229205, 77297034), (5767570, 84216428), (110247047, 21528952), (125878920, 7743841), (42033186, 73801480), (8388866, 2699881), (127159080, 2240724), (17324188, 112468544)],
     [(34341913, 91345154), (105251840, 2623560), (4798982, 10634481), (39389184, 84174433), (88113152, 8667000), (34284722, 329), (39360568, 67200132), (6844996, 58720546), (104799233, 29368426)],
     [(51429916, 80362691), (88855204, 262411), (8655522, 71558228), (17838342, 11076784), (92751916, 1577424), (33559104, 8931338), (1055746, 99418513), (85018341, 39885072), (63800, 120587968)],
     [(5517104, 84070467), (118067364, 5522242), (39922643, 68435980), (73796250, 35144996), (2528811, 37838868), (37880008, 17144593), (21317458, 112754688), (113268098, 20677181), (2597136, 47730886)],
     [(68438280, 50397942), (59853500, 68030786), (1475096, 41965991), (85852370, 37775145), (1071361, 44113962), (68040205, 62931234), (5847109, 78005290), (34465024, 12720668), (71860611, 44513824)],
     [(109057155, 3197812), (2396909, 16843778), (67383952, 31605828), (70387369, 37875732), (119275955, 28228), (34079753, 73679286), (50603056, 71422530), (10385546, 86017108), (227426, 12060561)]]"

lemma fround_ints: "map (map lane_ints) fround_constants = fround_ints"
  by (simp add: fround_constants_def lane_ints_def t27_init_def fround_ints_def)

lemma round_constants_match: "map (unslice 27) fround_ints = round_constants"
  by code_simp

fun disjoint_ints :: "nat \<Rightarrow> int \<Rightarrow> int \<Rightarrow> bool" where
  "disjoint_ints 0 p n \<longleftrightarrow> p = 0 \<and> n = 0"
| "disjoint_ints (Suc k) p n \<longleftrightarrow> \<not> (odd p \<and> odd n) \<and> disjoint_ints k (p div 2) (n div 2)"

lemma disjoint_ints_bits:
  "disjoint_ints k p n \<Longrightarrow> \<not> (odd (p div 2 ^ i) \<and> odd (n div 2 ^ i)) \<and> (k \<le> i \<longrightarrow> even (p div 2 ^ i) \<and> even (n div 2 ^ i))"
proof (induction k arbitrary: i p n)
  case (Suc k)
  show ?case
  proof (cases i)
    case 0
    then show ?thesis using Suc.prems by simp
  next
    case l: (Suc l)
    then show ?thesis using Suc.IH [of "p div 2" "n div 2" l] Suc.prems by (simp add: zdiv_zmult2_eq)
  qed
qed simp

lemma fround_disjoint: "list_all (list_all (\<lambda>(p, n). disjoint_ints 27 p n)) fround_ints"
  by code_simp

lemma fround_constants_nth:
  assumes "round < NUM_ROUNDS" "col < COLUMNS"
  shows "lane_ok (fround_constants ! round ! col)" "lane_clean (fround_constants ! round ! col)"
    "sl < SLICES \<Longrightarrow> t27_get (fround_constants ! round ! col) sl = round_constants ! round ! (sl * COLUMNS + col)"
proof -
  let ?r = "fround_constants ! round"
  have len: "length fround_constants = NUM_ROUNDS" "list_all (\<lambda>r. length r = COLUMNS) fround_constants" by (simp_all add: fround_constants_def)
  then have l: "length ?r = COLUMNS" using assms(1) by (simp add: list_all_length)
  have i: "fround_ints ! round = map lane_ints ?r" using assms(1) len(1) by (simp add: fround_ints [symmetric])
  have li: "length fround_ints = NUM_ROUNDS" using len(1) by (simp add: fround_ints [symmetric])
  have b: "even (fst (lane_ints a) div 2 ^ j) \<longleftrightarrow> \<not> bit (t27_p a) j" "even (snd (lane_ints a) div 2 ^ j) \<longleftrightarrow> \<not> bit (t27_n a) j" for a j
    using bit_iff_odd [of "uint (t27_p a)" j] bit_iff_odd [of "uint (t27_n a)" j] bit_imp_le_length [of "t27_p a" j] bit_imp_le_length [of "t27_n a" j]
    by (auto simp: lane_ints_def bit_uint_iff)
  have "fround_ints ! round \<in> set fround_ints" using assms(1) li nth_mem [of round fround_ints] by (simp only:)
  moreover have "lane_ints (?r ! col) \<in> set (fround_ints ! round)" using assms(2) l i by simp
  ultimately have "disjoint_ints 27 (fst (lane_ints (?r ! col))) (snd (lane_ints (?r ! col)))" using fround_disjoint by (fastforce simp: list_all_iff)
  from disjoint_ints_bits [OF this] show "lane_ok (?r ! col)" "lane_clean (?r ! col)" by (auto simp: b lane_ok_def lane_clean_def)
  assume sl: "sl < SLICES"
  have "unslice 27 (fround_ints ! round) ! (COLUMNS * sl + col) = t27_get (?r ! col) sl"
    using unslice_nth [OF sl, of col "map lane_ints ?r"] l assms(2) by (simp add: i b t27_get_bits)
  then show "t27_get (?r ! col) sl = round_constants ! round ! (sl * COLUMNS + col)"
    using assms(1) li by (simp add: round_constants_match [symmetric] mult.commute)
qed

section \<open>The fast functions agree with the simple ones\<close>

text \<open>A state and lanes with the same trits; after the first step of a round the lanes are clean.\<close>

definition agree :: "trit list \<Rightarrow> t27_t list \<Rightarrow> bool" where
  "agree st fs \<longleftrightarrow> length st = STATESIZE \<and> length fs = SLICESIZE \<and> (\<forall>rc < SLICESIZE. lane_ok (fs ! rc) \<and> (\<forall>sl < SLICES. cell st sl rc = t27_get (fs ! rc) sl))"

definition clean_lanes :: "t27_t list \<Rightarrow> bool" where
  "clean_lanes fs \<longleftrightarrow> (\<forall>rc < SLICESIZE. lane_clean (fs ! rc))"

lemma agree_unbalanced: "agree st fs \<Longrightarrow> unbalanced st"
proof -
  assume a: "agree st fs"
  have "0 \<le> st ! i \<and> st ! i \<le> 2" if "i < length st" for i
  proof -
    have "cell st (i div 27) (i mod 27) = t27_get (fs ! (i mod 27)) (i div 27)" using a that by (auto simp: agree_def)
    then show ?thesis using t27_get_range [of "fs ! (i mod 27)" "i div 27"] by (auto simp: cell_def)
  qed
  then show ?thesis by (simp add: unbalanced_def list_all_length)
qed

lemma fsub_loop:
  assumes "3 * n \<le> length st"
  shows "length (fold (\<lambda>col st. let (a, b, c) = ftroika_sub_tryte (st ! (ROWS * col + 2)) (st ! (ROWS * col + 1)) (st ! (ROWS * col))
                    in st[ROWS * col + 2 := a, ROWS * col + 1 := b, ROWS * col := c]) [0..<n] st) = length st
    \<and> (\<forall>i \<ge> 3 * n. fold (\<lambda>col st. let (a, b, c) = ftroika_sub_tryte (st ! (ROWS * col + 2)) (st ! (ROWS * col + 1)) (st ! (ROWS * col))
                    in st[ROWS * col + 2 := a, ROWS * col + 1 := b, ROWS * col := c]) [0..<n] st ! i = st ! i)
    \<and> (\<forall>k < n. let fs = fold (\<lambda>col st. let (a, b, c) = ftroika_sub_tryte (st ! (ROWS * col + 2)) (st ! (ROWS * col + 1)) (st ! (ROWS * col))
                    in st[ROWS * col + 2 := a, ROWS * col + 1 := b, ROWS * col := c]) [0..<n] st
        in ftroika_sub_tryte (st ! (3 * k + 2)) (st ! (3 * k + 1)) (st ! (3 * k)) = (fs ! (3 * k + 2), fs ! (3 * k + 1), fs ! (3 * k)))"
  using assms
proof (induction n)
  case (Suc n)
  let ?f = "\<lambda>col st. let (a, b, c) = ftroika_sub_tryte (st ! (ROWS * col + 2)) (st ! (ROWS * col + 1)) (st ! (ROWS * col)) in st[ROWS * col + 2 := a, ROWS * col + 1 := b, ROWS * col := c]"
  define s where "s = fold ?f [0..<n] st"
  have IH: "length s = length st" "\<forall>i \<ge> 3 * n. s ! i = st ! i"
      "\<forall>k < n. ftroika_sub_tryte (st ! (3 * k + 2)) (st ! (3 * k + 1)) (st ! (3 * k)) = (s ! (3 * k + 2), s ! (3 * k + 1), s ! (3 * k))"
    using Suc by (simp_all add: s_def Let_def)
  obtain a b c where abc: "ftroika_sub_tryte (st ! (3 * n + 2)) (st ! (3 * n + 1)) (st ! (3 * n)) = (a, b, c)" by (metis prod_cases3)
  have "fold ?f [0..<Suc n] st = ?f n s" by (simp add: s_def)
  also have "\<dots> = s[3 * n + 2 := a, 3 * n + 1 := b, 3 * n := c]" using IH(2) abc by simp
  finally have f: "fold ?f [0..<Suc n] st = s[3 * n + 2 := a, 3 * n + 1 := b, 3 * n := c]" .
  have "ftroika_sub_tryte (st ! (3 * k + 2)) (st ! (3 * k + 1)) (st ! (3 * k)) = (let fs = s[3 * n + 2 := a, 3 * n + 1 := b, 3 * n := c] in (fs ! (3 * k + 2), fs ! (3 * k + 1), fs ! (3 * k)))"
    if "k < Suc n" for k
  proof (cases "k = n")
    case True
    then show ?thesis using abc IH(1) Suc.prems by simp
  next
    case False
    then have "k < n" using that by simp
    then show ?thesis using IH(3) by simp
  qed
  moreover have "s[3 * n + 2 := a, 3 * n + 1 := b, 3 * n := c] ! i = st ! i" if "3 * Suc n \<le> i" for i using that IH(2) by simp
  ultimately show ?case unfolding f using IH(1) by (simp add: Let_def)
qed simp

lemma agreeI:
  assumes "length st = STATESIZE" "length fs = SLICESIZE" "\<And>rc. rc < SLICESIZE \<Longrightarrow> lane_ok (fs ! rc)"
    "\<And>rc sl. rc < SLICESIZE \<Longrightarrow> sl < SLICES \<Longrightarrow> cell st sl rc = t27_get (fs ! rc) sl"
  shows "agree st fs"
  using assms by (simp add: agree_def)

lemma agreeD:
  assumes "agree st fs"
  shows "length st = STATESIZE" "length fs = SLICESIZE" "rc < SLICESIZE \<Longrightarrow> lane_ok (fs ! rc)" "rc < SLICESIZE \<Longrightarrow> sl < SLICES \<Longrightarrow> cell st sl rc = t27_get (fs ! rc) sl"
  using assms by (simp_all add: agree_def)

lemma agree_sub_trytes:
  assumes "agree st fs"
  shows "agree (sub_trytes st) (ftroika_sub_trytes fs)" "clean_lanes (ftroika_sub_trytes fs)"
proof -
  note d = agreeD [OF assms] and u = agree_unbalanced [OF assms]
  have l: "3 * COLUMNS \<le> length fs" using d(2) by simp
  note f = fsub_loop [OF l, folded ftroika_sub_trytes_def]
  have lane: "lane_ok (ftroika_sub_trytes fs ! (3 * k + j)) \<and> lane_clean (ftroika_sub_trytes fs ! (3 * k + j)) \<and>
      (\<forall>sl < SLICES. cell (sub_trytes st) sl (3 * k + j) = t27_get (ftroika_sub_trytes fs ! (3 * k + j)) sl)" if k: "k < COLUMNS" and j: "j < 3" for k j
  proof -
    have e: "ftroika_sub_tryte (fs ! (3 * k + 2)) (fs ! (3 * k + 1)) (fs ! (3 * k)) = (ftroika_sub_trytes fs ! (3 * k + 2), ftroika_sub_trytes fs ! (3 * k + 1), ftroika_sub_trytes fs ! (3 * k))"
      using f k by (simp add: Let_def)
    have ok: "lane_ok (fs ! (3 * k + 2))" "lane_ok (fs ! (3 * k + 1))" "lane_ok (fs ! (3 * k))" using d(3) k by simp_all
    note g = sub_tryte_get [OF ok e]
    have c: "lane_clean (ftroika_sub_trytes fs ! (3 * k + 2))" "lane_clean (ftroika_sub_trytes fs ! (3 * k + 1))" "lane_clean (ftroika_sub_trytes fs ! (3 * k))"
      using e [symmetric] by (simp_all add: ftroika_sub_tryte_def Let_def clean_bits)
    have "cell (sub_trytes st) sl (3 * k + j) = sbox_digit j (t27_get (fs ! (3 * k)) sl) (t27_get (fs ! (3 * k + 1)) sl) (t27_get (fs ! (3 * k + 2)) sl)" if "sl < SLICES" for sl
      using sub_trytes_cell(2) [OF d(1) u that k j] d(4) [OF _ that] k by simp
    moreover have "j = 0 \<or> j = 1 \<or> j = 2" using j by auto
    ultimately show ?thesis using g c by (auto simp: lane_ok_def)
  qed
  have r: "rc = 3 * (rc div 3) + rc mod 3" "rc div 3 < COLUMNS" "rc mod 3 < 3" if "rc < SLICESIZE" for rc using that by auto
  show "agree (sub_trytes st) (ftroika_sub_trytes fs)"
  proof (rule agreeI)
    show "length (sub_trytes st) = STATESIZE" "length (ftroika_sub_trytes fs) = SLICESIZE" using sub_trytes_cell(1) [OF d(1) u] conjunct1 [OF f] d(2) by simp_all
    show "lane_ok (ftroika_sub_trytes fs ! rc)" if "rc < SLICESIZE" for rc using lane [OF r(2,3) [OF that]] r(1) [OF that] by simp
    show "cell (sub_trytes st) sl rc = t27_get (ftroika_sub_trytes fs ! rc) sl" if "rc < SLICESIZE" "sl < SLICES" for rc sl
      using lane [OF r(2,3) [OF that(1)]] r(1) [OF that(1)] that(2) by simp
  qed
  show "clean_lanes (ftroika_sub_trytes fs)" unfolding clean_lanes_def
  proof (intro allI impI)
    fix rc assume rc: "rc < SLICESIZE"
    show "lane_clean (ftroika_sub_trytes fs ! rc)" using lane [OF r(2,3) [OF rc]] r(1) [OF rc] by simp
  qed
qed

lemma fshifts_facts:
  "rc < SLICESIZE \<Longrightarrow> fshifts ! rc = COLUMNS * (rc div COLUMNS) + (rc mod COLUMNS + 3 * (rc div COLUMNS)) mod COLUMNS"
  "rc < SLICESIZE \<Longrightarrow> \<exists>i < SLICESIZE. fshifts ! i = rc"
proof -
  have "list_all (\<lambda>rc. fshifts ! rc = COLUMNS * (rc div COLUMNS) + (rc mod COLUMNS + 3 * (rc div COLUMNS)) mod COLUMNS \<and> rc \<in> set (map ((!) fshifts) [0..<SLICESIZE])) [0..<SLICESIZE]" by code_simp
  then show "rc < SLICESIZE \<Longrightarrow> fshifts ! rc = COLUMNS * (rc div COLUMNS) + (rc mod COLUMNS + 3 * (rc div COLUMNS)) mod COLUMNS"
    "rc < SLICESIZE \<Longrightarrow> \<exists>i < SLICESIZE. fshifts ! i = rc"
    by (auto simp: list_all_iff image_iff) (metis atLeastLessThan_iff less_eq_nat.simps(1))
qed

lemma fshift_rows_nth:
  assumes "length fs = SLICESIZE"
  shows "length (ftroika_shift_rows fs) = SLICESIZE" "rc < SLICESIZE \<Longrightarrow> ftroika_shift_rows fs ! (fshifts ! rc) = fs ! rc"
proof -
  have d: "distinct (map ((!) fshifts) [9..<SLICESIZE])" by code_simp
  have b: "list_all (\<lambda>i. fshifts ! i < SLICESIZE \<and> (i < 9 \<longrightarrow> fshifts ! i = i) \<and> (9 \<le> i \<longrightarrow> 9 \<le> fshifts ! i)) [0..<SLICESIZE]" by code_simp
  then have b': "\<And>i. i < SLICESIZE \<Longrightarrow> fshifts ! i < SLICESIZE" "\<And>i. i < 9 \<Longrightarrow> fshifts ! i = i" "\<And>i. i < SLICESIZE \<Longrightarrow> 9 \<le> i \<Longrightarrow> 9 \<le> fshifts ! i"
    by (auto simp: list_all_iff)
  have l: "\<forall>i \<in> set [9..<SLICESIZE]. fshifts ! i < length fs" using b'(1) assms by simp
  note u = fold_updates [where t = "(!) fshifts" and h = "\<lambda>i _. fs ! i", OF d l]
  show "length (ftroika_shift_rows fs) = SLICESIZE" using conjunct1 [OF u] assms by (simp add: ftroika_shift_rows_def Let_def)
  assume rc: "rc < SLICESIZE"
  show "ftroika_shift_rows fs ! (fshifts ! rc) = fs ! rc"
  proof (cases "rc < 9")
    case True
    then show ?thesis using b'(2) assms by (simp add: ftroika_shift_rows_def Let_def nth_append)
  next
    case False
    then have rc': "rc \<in> set [9..<SLICESIZE]" using rc by (simp only: set_upt atLeastLessThan_iff not_less simp_thms)
    have "fold (\<lambda>i new_state. new_state[fshifts ! i := fs ! i]) [9..<SLICESIZE] fs ! (fshifts ! rc) = fs ! rc" by (rule bspec [OF conjunct1 [OF conjunct2 [OF u]] rc'])
    moreover have "9 \<le> fshifts ! rc" using b'(3) rc False by simp
    ultimately show ?thesis using conjunct1 [OF u] assms by (simp add: ftroika_shift_rows_def Let_def nth_append)
  qed
qed

lemma agree_shift_rows:
  assumes "agree st fs"
  shows "agree (shift_rows st) (ftroika_shift_rows fs)" "clean_lanes fs \<Longrightarrow> clean_lanes (ftroika_shift_rows fs)"
proof -
  note d = agreeD [OF assms] and f = fshift_rows_nth [OF d(2)]
  show "agree (shift_rows st) (ftroika_shift_rows fs)"
  proof (rule agreeI)
    show "length (shift_rows st) = STATESIZE" by (rule shift_rows_cell(1) [OF d(1)])
    show "length (ftroika_shift_rows fs) = SLICESIZE" by (rule f(1))
    fix rc assume rc: "rc < SLICESIZE"
    obtain i where i: "i < SLICESIZE" "fshifts ! i = rc" using fshifts_facts(2) [OF rc] by blast
    show "lane_ok (ftroika_shift_rows fs ! rc)" using f(2) [OF i(1)] d(3) [OF i(1)] i(2) by simp
    fix sl assume sl: "sl < SLICES"
    have "i div COLUMNS < ROWS" "i mod COLUMNS < COLUMNS" "COLUMNS * (i div COLUMNS) + i mod COLUMNS = i" using i(1) by auto
    then have "cell (shift_rows st) sl (fshifts ! i) = cell st sl i"
      using shift_rows_cell(2) [OF d(1) sl, of "i div COLUMNS" "i mod COLUMNS"] fshifts_facts(1) [OF i(1)] by simp
    then show "cell (shift_rows st) sl rc = t27_get (ftroika_shift_rows fs ! rc) sl" using d(4) [OF i(1) sl] f(2) [OF i(1)] i(2) by simp
  qed
  show "clean_lanes fs \<Longrightarrow> clean_lanes (ftroika_shift_rows fs)" unfolding clean_lanes_def using f(2) fshifts_facts(2) by metis
qed

lemma agree_shift_lanes:
  assumes "agree st fs" "clean_lanes fs"
  shows "agree (shift_lanes st) (ftroika_shift_lanes fs)" "clean_lanes (ftroika_shift_lanes fs)"
proof -
  note d = agreeD [OF assms(1)] and c = assms(2) [unfolded clean_lanes_def, rule_format]
  have sh: "shift_lanes_param ! rc < 27" if "rc < SLICESIZE" for rc
  proof -
    have "list_all (\<lambda>rc. shift_lanes_param ! rc < 27) [0..<SLICESIZE]" by code_simp
    with that show ?thesis by (simp only: list_all_iff set_upt atLeastLessThan_iff) simp
  qed
  have l: "ftroika_shift_lanes fs ! rc = t27_roll (fs ! rc) (shift_lanes_param ! rc)" if "rc < SLICESIZE" for rc
    using that by (simp only: ftroika_shift_lanes_def nth_map length_upt nth_upt diff_zero add_0)
  show "agree (shift_lanes st) (ftroika_shift_lanes fs)"
  proof (rule agreeI)
    show "length (shift_lanes st) = STATESIZE" by (rule shift_lanes_cell(1) [OF d(1)])
    show "length (ftroika_shift_lanes fs) = SLICESIZE" by (simp add: ftroika_shift_lanes_def)
    fix rc assume rc: "rc < SLICESIZE"
    show "lane_ok (ftroika_shift_lanes fs ! rc)" using l [OF rc] t27_roll_ok [OF d(3) [OF rc] c [OF rc] sh [OF rc]] by simp
    fix sl assume sl: "sl < SLICES"
    define i where "i = (sl + (27 - shift_lanes_param ! rc)) mod 27"
    have i: "i < SLICES" "(i + shift_lanes_param ! rc) mod 27 = sl" using sh [OF rc] sl by (simp_all add: i_def mod_simps)
    show "cell (shift_lanes st) sl rc = t27_get (ftroika_shift_lanes fs ! rc) sl"
      using shift_lanes_cell(2) [OF d(1) i(1) rc] t27_roll_get [OF c [OF rc] sh [OF rc] i(1)] d(4) [OF rc i(1)] l [OF rc] i(2) by simp
  qed
  show "clean_lanes (ftroika_shift_lanes fs)" unfolding clean_lanes_def using l t27_roll_clean by simp
qed

lemma fparity_nth:
  assumes "agree st fs" "col < COLUMNS"
  shows "lane_ok (fparity fs ! col)" "sl < SLICES \<Longrightarrow> t27_get (fparity fs ! col) sl = column_parity st ! (col + COLUMNS * sl)"
    "clean_lanes fs \<Longrightarrow> lane_clean (fparity fs ! col)"
proof -
  note d = agreeD [OF assms(1)]
  have "[0..<ROWS] = [0, 1, 2]" by (simp add: upt_rec)
  then have p: "fparity fs ! col = t27_sum (t27_sum (t27_sum (t27_init 0 0) (fs ! col)) (fs ! (COLUMNS + col))) (fs ! (2 * COLUMNS + col))"
    using assms(2) by (simp add: fparity_def del: upt_rec_numeral)
  have ok: "lane_ok (fs ! col)" "lane_ok (fs ! (COLUMNS + col))" "lane_ok (fs ! (2 * COLUMNS + col))" using d(3) assms(2) by simp_all
  then show "lane_ok (fparity fs ! col)" by (simp add: p lane_simps)
  show "t27_get (fparity fs ! col) sl = column_parity st ! (col + COLUMNS * sl)" if sl: "sl < SLICES"
  proof -
    have g: "cell st sl col = t27_get (fs ! col) sl" "cell st sl (COLUMNS + col) = t27_get (fs ! (COLUMNS + col)) sl"
        "cell st sl (2 * COLUMNS + col) = t27_get (fs ! (2 * COLUMNS + col)) sl" using d(4) [OF _ sl] assms(2) by simp_all
    have "0 \<le> t27_get a sl" for a using t27_get_range [of a sl] by auto
    then show ?thesis unfolding column_parity_nth [OF sl assms(2)] g p using ok sl by (simp add: lane_simps c_mod_nonneg mod_simps)
  qed
  show "clean_lanes fs \<Longrightarrow> lane_clean (fparity fs ! col)" using assms(2) by (simp add: p lane_simps clean_lanes_def)
qed

text \<open>What a column gets: the parity of the column before it and that of the column behind it in the next slice.\<close>

definition fsum_to_add :: "t27_t list \<Rightarrow> nat \<Rightarrow> t27_t" where
  "fsum_to_add fs col = t27_sum (fparity fs ! ((col + 8) mod 9)) (t27_roll (fparity fs ! ((col + 1) mod 9)) 26)"

lemma fadd_column_parity_nth:
  assumes "length fs = SLICESIZE"
  shows "length (ftroika_add_column_parity fs) = SLICESIZE"
    "row < ROWS \<Longrightarrow> col < COLUMNS \<Longrightarrow> ftroika_add_column_parity fs ! (COLUMNS * row + col) = t27_sum (fs ! (COLUMNS * row + col)) (fsum_to_add fs col)"
proof -
  let ?cs = "[(row, col). row \<leftarrow> [0..<ROWS], col \<leftarrow> [0..<COLUMNS]]" and ?t = "\<lambda>(row, col). COLUMNS * row + col"
  let ?h = "\<lambda>(row, col) a. t27_sum a (t27_sum (fparity fs ! (if col = 0 then COLUMNS - 1 else col - 1)) (t27_roll (fparity fs ! (if col = COLUMNS - 1 then 0 else col + 1)) (SLICES - 1)))"
  have cs: "set ?cs = {(row, col). row < ROWS \<and> col < COLUMNS}" by (auto simp: image_iff)
  have inj: "inj_on ?t (set ?cs)" unfolding cs
  proof (rule inj_onI)
    fix x y :: "nat \<times> nat" assume "x \<in> {(row, col). row < ROWS \<and> col < COLUMNS}" "y \<in> {(row, col). row < ROWS \<and> col < COLUMNS}" "?t x = ?t y"
    then show "x = y" using place_inj [of 0 "fst x" "snd x" 0 "fst y" "snd y"] by (auto simp: prod_eq_iff)
  qed
  have ds: "distinct (map ?t ?cs)" using distinct_grid [OF distinct_upt distinct_upt] inj by (simp only: distinct_map)
  have l: "\<forall>c \<in> set ?cs. ?t c < length fs" unfolding cs using assms by auto
  have eq: "ftroika_add_column_parity fs = fold (\<lambda>c fs. fs[?t c := ?h c (fs ! ?t c)]) ?cs fs"
    unfolding ftroika_add_column_parity_def Let_def by (rule arg_cong [where f = "\<lambda>f. fold f ?cs fs"]) (auto simp: fun_eq_iff)
  note u = fold_updates [OF ds l, of ?h, folded eq]
  show "length (ftroika_add_column_parity fs) = SLICESIZE" using conjunct1 [OF u] assms by simp
  assume rc: "row < ROWS" "col < COLUMNS"
  then have "(row, col) \<in> set ?cs" unfolding cs by simp
  from bspec [OF conjunct1 [OF conjunct2 [OF u]] this]
  have "ftroika_add_column_parity fs ! (COLUMNS * row + col) = ?h (row, col) (fs ! (COLUMNS * row + col))" by simp
  moreover have "(if col = 0 then COLUMNS - 1 else col - 1) = (col + 8) mod 9" "(if col = COLUMNS - 1 then 0 else col + 1) = (col + 1) mod 9" using rc(2) by (auto simp: mod_if)
  ultimately show "ftroika_add_column_parity fs ! (COLUMNS * row + col) = t27_sum (fs ! (COLUMNS * row + col)) (fsum_to_add fs col)" by (simp add: fsum_to_add_def)
qed

lemma fsum_to_add_get:
  assumes "agree st fs" "clean_lanes fs"
  shows "lane_ok (fsum_to_add fs col)" "lane_clean (fsum_to_add fs col)"
    "sl < SLICES \<Longrightarrow> t27_get (fsum_to_add fs col) sl
      = (column_parity st ! ((col + 8) mod 9 + COLUMNS * sl) + column_parity st ! ((col + 1) mod 9 + COLUMNS * ((sl + 1) mod SLICES))) mod 3"
proof -
  note p = fparity_nth [OF assms(1)]
  have b: "(col + 8) mod 9 < COLUMNS" "(col + 1) mod 9 < COLUMNS" by simp_all
  have c: "lane_clean (fparity fs ! ((col + 8) mod 9))" "lane_clean (fparity fs ! ((col + 1) mod 9))" using p(3) assms(2) b by blast+
  have r: "lane_ok (t27_roll (fparity fs ! ((col + 1) mod 9)) 26)" using t27_roll_ok [OF p(1) [OF b(2)] c(2)] by simp
  show "lane_ok (fsum_to_add fs col)" unfolding fsum_to_add_def by (rule t27_sum_ok [OF p(1) [OF b(1)] r])
  show "lane_clean (fsum_to_add fs col)" unfolding fsum_to_add_def by (rule t27_sum_clean [OF c(1) t27_roll_clean])
  assume sl: "sl < SLICES"
  have i: "(sl + 1) mod SLICES < 27" "((sl + 1) mod SLICES + 26) mod 27 = sl" using sl by (auto simp: mod_if)
  have "t27_get (t27_roll (fparity fs ! ((col + 1) mod 9)) 26) sl = t27_get (fparity fs ! ((col + 1) mod 9)) ((sl + 1) mod SLICES)"
    using t27_roll_get [OF c(2) _ i(1), of 26] i(2) by simp
  then show "t27_get (fsum_to_add fs col) sl
      = (column_parity st ! ((col + 8) mod 9 + COLUMNS * sl) + column_parity st ! ((col + 1) mod 9 + COLUMNS * ((sl + 1) mod SLICES))) mod 3"
    unfolding fsum_to_add_def using t27_sum_get [OF p(1) [OF b(1)] r sl] p(2) [OF b(1) sl] p(2) [OF b(2) i(1)] by simp
qed

lemma agree_add_column_parity:
  assumes "agree st fs" "clean_lanes fs"
  shows "agree (add_column_parity st) (ftroika_add_column_parity fs)" "clean_lanes (ftroika_add_column_parity fs)"
proof -
  note d = agreeD [OF assms(1)] and f = fadd_column_parity_nth [OF agreeD(2) [OF assms(1)]] and g = fsum_to_add_get [OF assms]
  have lane: "\<exists>row col. row < ROWS \<and> col < COLUMNS \<and> rc = COLUMNS * row + col \<and> ftroika_add_column_parity fs ! rc = t27_sum (fs ! rc) (fsum_to_add fs col)"
    if "rc < SLICESIZE" for rc using split_place [OF that] f(2) by blast
  show "clean_lanes (ftroika_add_column_parity fs)" unfolding clean_lanes_def
    using lane assms(2) t27_sum_clean g(2) unfolding clean_lanes_def by metis
  show "agree (add_column_parity st) (ftroika_add_column_parity fs)"
  proof (rule agreeI)
    show "length (add_column_parity st) = STATESIZE" by (rule add_column_parity_cell(1) [OF d(1)])
    show "length (ftroika_add_column_parity fs) = SLICESIZE" by (rule f(1))
    fix rc assume rc: "rc < SLICESIZE"
    obtain row col where r: "row < ROWS" "col < COLUMNS" "rc = COLUMNS * row + col" "ftroika_add_column_parity fs ! rc = t27_sum (fs ! rc) (fsum_to_add fs col)"
      using lane [OF rc] by blast
    show "lane_ok (ftroika_add_column_parity fs ! rc)" unfolding r(4) by (rule t27_sum_ok [OF d(3) [OF rc] g(1)])
    fix sl assume sl: "sl < SLICES"
    have nn: "0 \<le> column_parity st ! (k + COLUMNS * j)" if "j < SLICES" "k < COLUMNS" for j k
      using fparity_nth(2) [OF assms(1) that(2,1)] t27_get_range [of "fparity fs ! k" j] by auto
    have n: "0 \<le> cell st sl rc" "0 \<le> column_parity st ! ((col + 8) mod 9 + COLUMNS * sl)" "0 \<le> column_parity st ! ((col + 1) mod 9 + COLUMNS * ((sl + 1) mod SLICES))"
      using d(4) [OF rc sl] t27_get_range [of "fs ! rc" sl] nn [of sl "(col + 8) mod 9"] nn [of "(sl + 1) mod SLICES" "(col + 1) mod 9"] sl by auto
    show "cell (add_column_parity st) sl rc = t27_get (ftroika_add_column_parity fs ! rc) sl"
      using add_column_parity_cell(2) [OF d(1) sl r(1,2)] r(3,4) t27_sum_get [OF d(3) [OF rc] g(1) sl] g(3) [OF sl] d(4) [OF rc sl] n
      by (simp add: c_mod_nonneg mod_simps)
  qed
qed

lemma agree_add_round_constant:
  assumes "agree st fs" "clean_lanes fs" "round < NUM_ROUNDS"
  shows "agree (add_round_constant round st) (ftroika_add_round_constant round fs)" "clean_lanes (ftroika_add_round_constant round fs)"
proof -
  note d = agreeD [OF assms(1)] and k = fround_constants_nth [OF assms(3)] and a = add_round_constant_cell [OF agreeD(1) [OF assms(1)]]
  have ds: "distinct (map (\<lambda>col. col) [0..<COLUMNS])" by (simp only: map_ident distinct_upt)
  have l: "\<forall>col \<in> set [0..<COLUMNS]. col < length fs" using d(2) by simp
  note u = fold_updates [OF ds l, of "\<lambda>col a. t27_sum a (fround_constants ! round ! col)", folded ftroika_add_round_constant_def]
  have low: "ftroika_add_round_constant round fs ! rc = t27_sum (fs ! rc) (fround_constants ! round ! rc)" if "rc < COLUMNS" for rc
    using bspec [OF conjunct1 [OF conjunct2 [OF u]], of rc] that by (simp only: set_upt atLeastLessThan_iff) simp
  have high: "ftroika_add_round_constant round fs ! rc = fs ! rc" if "\<not> rc < COLUMNS" for rc
    using conjunct2 [OF conjunct2 [OF u]] that by (simp only: set_upt image_ident atLeastLessThan_iff) simp
  show "agree (add_round_constant round st) (ftroika_add_round_constant round fs)"
  proof (rule agreeI)
    show "length (add_round_constant round st) = STATESIZE" by (rule a(1))
    show "length (ftroika_add_round_constant round fs) = SLICESIZE" using conjunct1 [OF u] d(2) by simp
    fix rc assume rc: "rc < SLICESIZE"
    show "lane_ok (ftroika_add_round_constant round fs ! rc)" using low [of rc] high [of rc] d(3) [OF rc] k(1) [of rc] t27_sum_ok by (cases "rc < COLUMNS") simp_all
    fix sl assume sl: "sl < SLICES"
    have n: "0 \<le> t27_get b sl" for b using t27_get_range [of b sl] by auto
    show "cell (add_round_constant round st) sl rc = t27_get (ftroika_add_round_constant round fs ! rc) sl"
    proof (cases "rc < COLUMNS")
      case True
      then show ?thesis
        using a(2) [OF sl rc] low [OF True] d(4) [OF rc sl] t27_sum_get [OF d(3) [OF rc] k(1) [OF True] sl] k(3) [OF True sl] n [of "fs ! rc"] n [of "fround_constants ! round ! rc"]
        by (simp add: c_mod_nonneg)
    next
      case False
      then show ?thesis using a(2) [OF sl rc] high [OF False] d(4) [OF rc sl] by simp
    qed
  qed
  show "clean_lanes (ftroika_add_round_constant round fs)" unfolding clean_lanes_def
  proof (intro allI impI)
    fix rc assume "rc < SLICESIZE"
    then show "lane_clean (ftroika_add_round_constant round fs ! rc)"
      using low [of rc] high [of rc] assms(2) k(2) [of rc] t27_sum_clean by (cases "rc < COLUMNS") (simp_all add: clean_lanes_def)
  qed
qed

lemma agree_round:
  assumes "agree st fs" "round < NUM_ROUNDS"
  shows "agree (troika_round round st) (ftroika_round round fs)"
proof -
  note 1 = agree_sub_trytes [OF assms(1)]
  note 2 = agree_shift_rows(1) [OF 1(1)] agree_shift_rows(2) [OF 1]
  note 3 = agree_shift_lanes [OF 2]
  note 4 = agree_add_column_parity [OF 3]
  from agree_add_round_constant(1) [OF 4 assms(2)] show ?thesis by (simp only: troika_round_def ftroika_round_def)
qed

lemma agree_permutation:
  assumes "agree st fs" "num_rounds \<le> NUM_ROUNDS"
  shows "agree (troika_permutation st num_rounds) (ftroika_permutation fs num_rounds)"
  using assms(2) unfolding troika_permutation_def ftroika_permutation_def
proof (induction num_rounds)
  case (Suc n)
  then show ?case using agree_round [of "fold troika_round [0..<n] st" "fold ftroika_round [0..<n] fs" n] by simp
qed (simp add: assms(1))

section \<open>States and hashes\<close>

lemma place_inj_cell: "SLICESIZE * sl + rc = SLICESIZE * sl' + rc' \<Longrightarrow> rc < SLICESIZE \<Longrightarrow> rc' < SLICESIZE \<Longrightarrow> sl = sl' \<and> rc = rc'" for sl rc :: nat
proof -
  assume a: "SLICESIZE * sl + rc = SLICESIZE * sl' + rc'" "rc < SLICESIZE" "rc' < SLICESIZE"
  then have "sl = sl'" by linarith
  with a show ?thesis by simp
qed

lemma agree_update:
  assumes "agree st fs" "sl < SLICES" "rc < SLICESIZE" "0 \<le> t" "t \<le> 2"
  shows "agree (st[SLICESIZE * sl + rc := t]) (fs[rc := t27_set (fs ! rc) sl t])"
proof (rule agreeI)
  note d = agreeD [OF assms(1)]
  show "length (st[SLICESIZE * sl + rc := t]) = STATESIZE" "length (fs[rc := t27_set (fs ! rc) sl t]) = SLICESIZE" using d by simp_all
  have "lane_ok (t27_set (fs ! rc) sl t)" unfolding lane_ok_def
  proof (intro allI impI)
    fix i :: nat assume "i < 27"
    then show "\<not> (bit (t27_p (t27_set (fs ! rc) sl t)) i \<and> bit (t27_n (t27_set (fs ! rc) sl t)) i)"
      using t27_set_bits [OF assms(4,5), of sl i "fs ! rc"] d(3) [OF assms(3)] assms(2) by (simp add: lane_ok_def)
  qed
  then show "lane_ok (fs[rc := t27_set (fs ! rc) sl t] ! rc')" if "rc' < SLICESIZE" for rc' using d(2,3) that by (cases "rc = rc'") simp_all
  fix rc' sl' assume r: "rc' < SLICESIZE" "sl' < SLICES"
  show "cell (st[SLICESIZE * sl + rc := t]) sl' rc' = t27_get (fs[rc := t27_set (fs ! rc) sl t] ! rc') sl'"
  proof (cases "SLICESIZE * sl + rc = SLICESIZE * sl' + rc'")
    case True
    then have "sl = sl'" "rc = rc'" using place_inj_cell assms(3) r(1) by blast+
    then show ?thesis using d(1,2) assms(2-5) by (simp add: cell_def t27_set_get)
  next
    case False
    then have "rc \<noteq> rc' \<or> sl \<noteq> sl'" by auto
    then show ?thesis using False d(2) d(4) [OF r] assms(2-5) r by (cases "rc = rc'") (simp_all add: cell_def t27_set_get)
  qed
qed

lemma agree_put:
  assumes "agree st fs" "unbalanced ts" "rowcol \<le> SLICESIZE" "SLICESIZE * sl + rowcol + length ts \<le> STATESIZE"
  shows "agree (blit st (SLICESIZE * sl + rowcol) ts) (ft_put fs rowcol sl ts)"
  using assms
proof (induction ts arbitrary: st fs rowcol sl)
  case Nil
  then show ?case by (simp add: blit_def)
next
  case (Cons t ts)
  define rc where "rc = (if rowcol = SLICESIZE then 0 else rowcol)"
  define sl' where "sl' = (if rowcol = SLICESIZE then sl + 1 else sl)"
  have pos: "SLICESIZE * sl' + rc = SLICESIZE * sl + rowcol" "rc < SLICESIZE" "sl' < SLICES" using Cons.prems(3,4) by (auto simp: rc_def sl'_def)
  have t: "0 \<le> t" "t \<le> 2" "unbalanced ts" using Cons.prems(2) by (simp_all add: unbalanced_def)
  have "agree (st[SLICESIZE * sl' + rc := t]) (fs[rc := t27_set (fs ! rc) sl' t])" by (rule agree_update [OF Cons.prems(1) pos(3,2) t(1,2)])
  then have "agree (blit (st[SLICESIZE * sl' + rc := t]) (SLICESIZE * sl' + (rc + 1)) ts) (ft_put (fs[rc := t27_set (fs ! rc) sl' t]) (rc + 1) sl' ts)"
    by (rule Cons.IH) (use t pos Cons.prems(4) in simp_all)
  moreover have "blit (st[SLICESIZE * sl' + rc := t]) (SLICESIZE * sl' + (rc + 1)) ts = blit st (SLICESIZE * sl + rowcol) (t # ts)"
    using agreeD(1) [OF Cons.prems(1)] Cons.prems(4) pos(1) by (simp add: blit_def upd_conv_take_nth_drop add.commute)
  moreover have "ft_put fs rowcol sl (t # ts) = ft_put (fs[rc := t27_set (fs ! rc) sl' t]) (rc + 1) sl' ts" by (simp add: rc_def sl'_def)
  ultimately show ?case by simp
qed

lemma agree_take:
  assumes "agree st fs" "rowcol \<le> SLICESIZE" "SLICESIZE * sl + rowcol + n \<le> STATESIZE"
  shows "ft_take fs rowcol sl n = slice (SLICESIZE * sl + rowcol) n st"
  using assms(2,3)
proof (induction n arbitrary: rowcol sl)
  case 0
  then show ?case by (simp add: slice_def)
next
  case (Suc n)
  define rc where "rc = (if rowcol = SLICESIZE then 0 else rowcol)"
  define sl' where "sl' = (if rowcol = SLICESIZE then sl + 1 else sl)"
  have pos: "SLICESIZE * sl' + rc = SLICESIZE * sl + rowcol" "rc < SLICESIZE" "sl' < SLICES" using Suc.prems by (auto simp: rc_def sl'_def)
  have "ft_take fs rowcol sl (Suc n) = t27_get (fs ! rc) sl' # ft_take fs (rc + 1) sl' n" by (simp add: rc_def sl'_def)
  also have "ft_take fs (rc + 1) sl' n = slice (SLICESIZE * sl' + (rc + 1)) n st" by (rule Suc.IH) (use pos Suc.prems in simp_all)
  also have "t27_get (fs ! rc) sl' = st ! (SLICESIZE * sl + rowcol)" using agreeD(4) [OF assms(1) pos(2,3)] pos(1) by (simp add: cell_def)
  finally show ?case using agreeD(1) [OF assms(1)] pos(1) Suc.prems(2) by (simp add: slice_def Cons_nth_drop_Suc [symmetric])
qed

lemma unbalanced_append: "unbalanced (xs @ ys) \<longleftrightarrow> unbalanced xs \<and> unbalanced ys"
  by (simp add: unbalanced_def)

lemma agree_absorb:
  assumes "agree st fs" "unbalanced message" "num_rounds \<le> NUM_ROUNDS"
  shows "\<exists>st' fs'. troika_absorb st TROIKA_RATE message num_rounds = Some st' \<and> ftroika_absorb fs TROIKA_RATE message num_rounds = Some fs' \<and> agree st' fs'"
  using assms(1,2)
proof (induction "length message" arbitrary: st fs message rule: less_induct)
  case less
  show ?case
  proof (cases "TROIKA_RATE \<le> length message")
    case True
    have u: "unbalanced (take TROIKA_RATE message)" "unbalanced (drop TROIKA_RATE message)"
      using less.prems(2) unbalanced_append [of "take TROIKA_RATE message" "drop TROIKA_RATE message"] by simp_all
    have "agree (blit st 0 (take TROIKA_RATE message)) (ft_put fs 0 0 (take TROIKA_RATE message))"
      using agree_put [OF less.prems(1) u(1), of 0 0] by simp
    from agree_permutation [OF this assms(3)] u(2) True less.hyps [of "drop TROIKA_RATE message"]
    show ?thesis using True by (subst troika_absorb.simps, subst ftroika_absorb.simps) simp
  next
    case False
    define blk where "blk = (blit (replicate TROIKA_RATE 0) 0 message)[length message := TROIKA_PADDING]"
    have m: "map (\<lambda>t. t mod 256) message = message" using less.prems(2) by (intro map_idI) (auto simp: unbalanced_def list_all_iff)
    have b: "length blk = TROIKA_RATE" "unbalanced blk" using False less.prems(2)
      by (auto simp: blk_def blit_def unbalanced_def list_all_iff dest!: set_update_subset_insert [THEN subsetD])
    have "agree (blit st 0 blk) (ft_put fs 0 0 blk)" using agree_put [OF less.prems(1) b(2), of 0 0] b(1) by simp
    then show ?thesis using False by (subst troika_absorb.simps, subst ftroika_absorb.simps) (simp add: Let_def m blk_def)
  qed
qed

lemma agree_squeeze:
  assumes "agree st fs" "num_rounds \<le> NUM_ROUNDS"
  shows "\<exists>h st' fs'. troika_squeeze hash hash_length TROIKA_RATE st num_rounds = Some (hash @ h, st') \<and> ftroika_squeeze hash hash_length TROIKA_RATE fs num_rounds = Some (hash @ h, fs')
    \<and> length h = hash_length \<and> unbalanced h"
  using assms(1)
proof (induction hash_length arbitrary: hash st fs rule: less_induct)
  case (less n)
  note a = agree_permutation [OF less.prems assms(2)]
  note d = agreeD(1) [OF a] and u = agree_unbalanced [OF a]
  have tk: "ft_take (ftroika_permutation fs num_rounds) 0 0 k = take k (troika_permutation st num_rounds)" if "k \<le> TROIKA_RATE" for k
    using agree_take [OF a, of 0 0 k] that by simp
  have ut: "unbalanced (take k (troika_permutation st num_rounds))" for k using u by (auto simp: unbalanced_def list_all_iff dest: in_set_takeD)
  show ?case
  proof (cases "TROIKA_RATE \<le> n")
    case True
    define h0 where "h0 = take TROIKA_RATE (troika_permutation st num_rounds)"
    have h0: "length h0 = TROIKA_RATE" "unbalanced h0" using d ut by (simp_all add: h0_def)
    have lt: "n - TROIKA_RATE < n" using True by simp
    obtain h st' fs' where h: "troika_squeeze (hash @ h0) (n - TROIKA_RATE) TROIKA_RATE (troika_permutation st num_rounds) num_rounds = Some ((hash @ h0) @ h, st')"
        "ftroika_squeeze (hash @ h0) (n - TROIKA_RATE) TROIKA_RATE (ftroika_permutation fs num_rounds) num_rounds = Some ((hash @ h0) @ h, fs')"
        "length h = n - TROIKA_RATE" "unbalanced h"
      using less.IH [OF lt a, of "hash @ h0"] by blast
    have "troika_squeeze hash n TROIKA_RATE st num_rounds = Some (hash @ (h0 @ h), st')" "ftroika_squeeze hash n TROIKA_RATE fs num_rounds = Some (hash @ (h0 @ h), fs')"
      using True h(1,2) tk [of TROIKA_RATE] by (simp_all add: troika_squeeze.simps [of hash n] ftroika_squeeze.simps [of hash n] Let_def h0_def)
    moreover have "length (h0 @ h) = n" "unbalanced (h0 @ h)" using h(3,4) h0 True by (simp_all add: unbalanced_append)
    ultimately show ?thesis by blast
  next
    case False
    then have tk': "ft_take (ftroika_permutation fs num_rounds) 0 0 n = take n (troika_permutation st num_rounds)" by (intro tk) simp
    show ?thesis
    proof (cases "n = 0")
      case True
      then show ?thesis by (simp add: troika_squeeze.simps [of hash n] ftroika_squeeze.simps [of hash n] unbalanced_def troika_squeeze.simps [of hash 0] ftroika_squeeze.simps [of hash 0])
    next
      case n: False
      then show ?thesis using False tk' d ut [of n] by (simp add: troika_squeeze.simps [of hash n] ftroika_squeeze.simps [of hash n] Let_def)
    qed
  qed
qed

lemma agree_zero: "agree (replicate STATESIZE 0) (replicate SLICESIZE (t27_init 0 0))"
  by (rule agreeI) (simp_all add: cell_def t27_zero)

text \<open>
  C23. The fast Troika computes the same hashes as the simple one: for every message of trits 0, 1 and 2, every number of rounds up to 24 and every length of the
  hash, both return, with the same trits.
\<close>

theorem ftroika_equals_troika:
  assumes "unbalanced input" "num_rounds \<le> NUM_ROUNDS"
  shows "\<exists>hash. troika_var_rounds outlen input num_rounds = Some hash \<and> ftroika_var_rounds outlen input num_rounds = Some hash \<and> length hash = outlen \<and> unbalanced hash"
proof -
  obtain st fs where a: "troika_absorb (replicate STATESIZE 0) TROIKA_RATE input num_rounds = Some st"
      "ftroika_absorb (replicate SLICESIZE (t27_init 0 0)) TROIKA_RATE input num_rounds = Some fs" "agree st fs"
    using agree_absorb [OF agree_zero assms] by blast
  from agree_squeeze [OF a(3) assms(2), of "[]" outlen] show ?thesis using a(1,2) by (auto simp: troika_var_rounds_def ftroika_var_rounds_def)
qed

theorem ftroika_equals_troika_witness: "\<exists>hash. troika_var_rounds 243 [0, 1, 2] 24 = Some hash \<and> ftroika_var_rounds 243 [0, 1, 2] 24 = Some hash \<and> length hash = 243 \<and> unbalanced hash"
  using ftroika_equals_troika [of "[0, 1, 2]" 24 243] by (simp add: unbalanced_def)

subsection \<open>Hashing the hash\<close>

lemma agree_and:
  assumes "agree st fs" "length st' = STATESIZE" "\<And>sl rc. sl < SLICES \<Longrightarrow> rc < SLICESIZE \<Longrightarrow> cell st' sl rc = (if bit m sl then cell st sl rc else 0)"
  shows "agree st' (ftroika_and m fs)"
proof (rule agreeI)
  note d = agreeD [OF assms(1)]
  show "length st' = STATESIZE" "length (ftroika_and m fs) = SLICESIZE" using assms(2) d(2) by (simp_all add: ftroika_and_def)
  fix rc assume rc: "rc < SLICESIZE"
  show "lane_ok (ftroika_and m fs ! rc)" using d(2) d(3) [OF rc] rc by (auto simp: ftroika_and_def lane_ok_def bit_and_iff)
  fix sl assume sl: "sl < SLICES"
  show "cell st' sl rc = t27_get (ftroika_and m fs ! rc) sl" using assms(3) [OF sl rc] d(4) [OF rc sl] d(2) rc by (simp add: ftroika_and_def t27_get_bits bit_and_iff)
qed

lemma agree_nullify:
  assumes "agree st fs"
  shows "agree (take 243 st @ replicate 486 0) (ftroika_nullify_capacity fs)" "agree (replicate 243 0 @ drop 243 st) (ftroika_nullify_rate fs)"
proof -
  have l: "length st = STATESIZE" by (rule agreeD(1) [OF assms])
  have c: "SLICESIZE * sl + rc < 243 \<longleftrightarrow> sl < 9" if "rc < SLICESIZE" for sl rc :: nat using that by auto
  have b: "bit (0x000001ff :: u32) sl \<longleftrightarrow> sl < 9" "bit (0x07fffe00 :: u32) sl \<longleftrightarrow> 9 \<le> sl" if "sl < SLICES" for sl
  proof -
    have m: "(0x000001ff :: u32) = mask 9" "(0x07fffe00 :: u32) = mask 27 AND NOT (mask 9)" by (simp_all add: mask_eq_exp_minus_1)
    show "bit (0x000001ff :: u32) sl \<longleftrightarrow> sl < 9" "bit (0x07fffe00 :: u32) sl \<longleftrightarrow> 9 \<le> sl" unfolding m using that by (auto simp: bit_and_iff bit_not_iff bit_mask_iff)
  qed
  show "agree (take 243 st @ replicate 486 0) (ftroika_nullify_capacity fs)" unfolding ftroika_nullify_capacity_def
    by (rule agree_and [OF assms]) (use l c b in \<open>auto simp: cell_def nth_append\<close>)
  show "agree (replicate 243 0 @ drop 243 st) (ftroika_nullify_rate fs)" unfolding ftroika_nullify_rate_def
    by (rule agree_and [OF assms]) (use l c b in \<open>auto simp: cell_def nth_append not_less\<close>)
qed

definition hash243 :: "trit list \<Rightarrow> trit list" where
  "hash243 x = (let st = troika_permutation (x @ replicate 486 0) 24 in troika_permutation ((1 # replicate 242 0) @ drop 243 st) 24)"

lemma agree_rehash:
  assumes "agree st fs"
  shows "agree (hash243 (take 243 st)) (rehash fs)"
proof -
  note 1 = agree_nullify(1) [OF assms]
  note 2 = agree_permutation [OF 1, of 24, simplified]
  note 3 = agree_nullify(2) [OF 2]
  have l: "length (troika_permutation (take 243 st @ replicate 486 0) 24) = STATESIZE" by (rule agreeD(1) [OF 2])
  have "agree ((replicate 243 0 @ drop 243 (troika_permutation (take 243 st @ replicate 486 0) 24))[SLICESIZE * 0 + 0 := 1])
      ((ftroika_nullify_rate (ftroika_permutation (ftroika_nullify_capacity fs) 24))[0 := t27_set (ftroika_nullify_rate (ftroika_permutation (ftroika_nullify_capacity fs) 24) ! 0) 0 1])"
    by (rule agree_update [OF 3]) simp_all
  moreover have "(replicate 243 0 @ ys)[SLICESIZE * 0 + 0 := 1] = (1 # replicate 242 0) @ ys" for ys :: "trit list" by (simp add: numeral_eq_Suc)
  ultimately have "agree ((1 # replicate 242 0) @ drop 243 (troika_permutation (take 243 st @ replicate 486 0) 24))
      ((ftroika_nullify_rate (ftroika_permutation (ftroika_nullify_capacity fs) 24))[0 := t27_set (ftroika_nullify_rate (ftroika_permutation (ftroika_nullify_capacity fs) 24) ! 0) 0 1])"
    by simp
  from agree_permutation [OF this, of 24] show ?thesis by (simp add: rehash_def hash243_def Let_def)
qed

lemma troika_243:
  assumes "length x = 243" "unbalanced x"
  shows "troika 243 x = Some (take 243 (hash243 x))" "length (hash243 x) = STATESIZE" "unbalanced (hash243 x)"
proof -
  have "agree (blit (replicate STATESIZE 0) 0 x) (ft_put (replicate SLICESIZE (t27_init 0 0)) 0 0 x)" using agree_put [OF agree_zero assms(2), of 0 0] assms(1) by simp
  moreover have b: "blit (replicate STATESIZE 0) 0 x = x @ replicate 486 0" using assms(1) by (simp add: blit_def)
  ultimately have a: "agree (x @ replicate 486 0) (ft_put (replicate SLICESIZE (t27_init 0 0)) 0 0 x)" by simp
  have "take 243 (x @ replicate 486 0) = x" using assms(1) by simp
  with agree_rehash [OF a] have h: "agree (hash243 x) (rehash (ft_put (replicate SLICESIZE (t27_init 0 0)) 0 0 x))" by simp
  show "length (hash243 x) = STATESIZE" "unbalanced (hash243 x)" using agreeD(1) [OF h] agree_unbalanced [OF h] by simp_all
  let ?st = "troika_permutation (x @ replicate 486 0) 24"
  have l: "length ?st = STATESIZE" using agreeD(1) [OF agree_permutation [OF a, of 24]] by simp
  have p: "(blit (replicate 243 0) 0 [])[0 := 1] = (1 :: trit) # replicate 242 0" by (simp add: blit_def numeral_eq_Suc)
  have "troika_absorb (replicate STATESIZE 0) TROIKA_RATE x 24 = troika_absorb ?st TROIKA_RATE [] 24" using assms(1) b by (subst troika_absorb.simps) simp
  also have "\<dots> = Some ((1 # replicate 242 0) @ drop 243 ?st)" using p l by (subst troika_absorb.simps) (simp add: blit_def)
  finally have ab: "troika_absorb (replicate STATESIZE 0) TROIKA_RATE x 24 = Some ((1 # replicate 242 0) @ drop 243 ?st)" .
  have "troika_squeeze [] 243 TROIKA_RATE ((1 # replicate 242 0) @ drop 243 ?st) 24 = Some (take 243 (hash243 x), hash243 x)"
    by (simp add: troika_squeeze.simps [of "[]" 243] troika_squeeze.simps [of _ 0] hash243_def Let_def)
  with ab show "troika 243 x = Some (take 243 (hash243 x))" by (simp add: troika_def troika_var_rounds_def)
qed

text \<open>
  Hashing 243 trits over and over in the lanes gives what hashing the result of Troika again and again gives, whatever the memory of the lanes held before.
\<close>

theorem ftroika243_repeated_iterates:
  assumes "length input = 243" "unbalanced input" "length st = SLICESIZE"
  shows "((\<lambda>h. Option.bind h (troika 243)) ^^ n) (Some input) = Some (ftroika243_repeated st input n)"
proof -
  have z: "ftroika_nullify_state st = replicate SLICESIZE (t27_init 0 0)" using assms(3) by (simp add: ftroika_nullify_state_def ftroika_and_def t27_init_def list_eq_iff_nth_eq)
  let ?f = "ft_put (replicate SLICESIZE (t27_init 0 0)) 0 0 input"
  have "\<exists>st. agree st ((rehash ^^ n) ?f) \<and> ((\<lambda>h. Option.bind h (troika 243)) ^^ n) (Some input) = Some (take 243 st)"
  proof (induction n)
    case 0
    have "agree (blit (replicate STATESIZE 0) 0 input) ?f" using agree_put [OF agree_zero assms(2), of 0 0] assms(1) by simp
    then show ?case using assms(1) by (intro exI [of _ "blit (replicate STATESIZE 0) 0 input"]) (simp add: blit_def)
  next
    case (Suc n)
    then obtain st where st: "agree st ((rehash ^^ n) ?f)" "((\<lambda>h. Option.bind h (troika 243)) ^^ n) (Some input) = Some (take 243 st)" by blast
    have "length (take 243 st) = 243" "unbalanced (take 243 st)"
      using agreeD(1) [OF st(1)] agree_unbalanced [OF st(1)] by (auto simp: unbalanced_def list_all_iff dest: in_set_takeD)
    from troika_243(1) [OF this] agree_rehash [OF st(1)] st(2) show ?case by auto
  qed
  then obtain st' where st': "agree st' ((rehash ^^ n) ?f)" "((\<lambda>h. Option.bind h (troika 243)) ^^ n) (Some input) = Some (take 243 st')" by blast
  from agree_take [OF st'(1), of 0 0 243] have "ft_take ((rehash ^^ n) ?f) 0 0 243 = take 243 st'" by simp
  then show ?thesis using st'(2) assms(1) by (simp add: ftroika243_repeated_def ftroika_trits_to_rate_def ftroika_rate_to_trits_def Let_def z)
qed

theorem ftroika243_repeated_iterates_witness:
  "((\<lambda>h. Option.bind h (troika 243)) ^^ 2) (Some (replicate 243 1)) = Some (ftroika243_repeated (replicate 27 (t27_init 7 7)) (replicate 243 1) 2)"
  by (rule ftroika243_repeated_iterates) (simp_all add: unbalanced_def list_all_iff)

section \<open>The permutation of MAM\<close>

text \<open>The lanes are not initialised, but every place of the 27 is written.\<close>

lemma put_cells_bits:
  assumes "unbalanced st" "length st = STATESIZE" "length fs = SLICESIZE" "set cs \<subseteq> set cells"
  shows "length (fold (\<lambda>(sl, row, col) fs. fs[COLUMNS * row + col := t27_set (fs ! (COLUMNS * row + col)) sl (st ! cell_idx sl row col)]) cs fs) = SLICESIZE
    \<and> (\<forall>sl < SLICES. \<forall>row < ROWS. \<forall>col < COLUMNS. (sl, row, col) \<in> set cs \<longrightarrow>
        (let a = fold (\<lambda>(sl, row, col) fs. fs[COLUMNS * row + col := t27_set (fs ! (COLUMNS * row + col)) sl (st ! cell_idx sl row col)]) cs fs ! (COLUMNS * row + col)
         in bit (t27_p a) sl = (st ! cell_idx sl row col = 1) \<and> bit (t27_n a) sl = (st ! cell_idx sl row col = 2)))"
  using assms(4)
proof (induction cs rule: rev_induct)
  case Nil
  then show ?case using assms(3) by simp
next
  case (snoc c cs)
  obtain s r k where c: "c = (s, r, k)" by (cases c) auto
  then have b: "s < SLICES" "r < ROWS" "k < COLUMNS" using snoc.prems by (auto simp: set_cells)
  let ?fs = "fold (\<lambda>(sl, row, col) fs. fs[COLUMNS * row + col := t27_set (fs ! (COLUMNS * row + col)) sl (st ! cell_idx sl row col)]) cs fs"
  have IH: "length ?fs = SLICESIZE" "\<And>sl row col. sl < SLICES \<Longrightarrow> row < ROWS \<Longrightarrow> col < COLUMNS \<Longrightarrow> (sl, row, col) \<in> set cs \<Longrightarrow>
      bit (t27_p (?fs ! (COLUMNS * row + col))) sl = (st ! cell_idx sl row col = 1) \<and> bit (t27_n (?fs ! (COLUMNS * row + col))) sl = (st ! cell_idx sl row col = 2)"
    using snoc by (auto simp: Let_def)
  have "cell_idx s r k < length st" using b assms(2) by (simp add: cell_idx_def)
  then have t: "0 \<le> st ! cell_idx s r k" "st ! cell_idx s r k \<le> 2" using unbalanced_nth [OF assms(1)] by fastforce+
  have "let a = (?fs[COLUMNS * r + k := t27_set (?fs ! (COLUMNS * r + k)) s (st ! cell_idx s r k)]) ! (COLUMNS * row + col)
      in bit (t27_p a) sl = (st ! cell_idx sl row col = 1) \<and> bit (t27_n a) sl = (st ! cell_idx sl row col = 2)"
    if l: "sl < SLICES" "row < ROWS" "col < COLUMNS" and m: "(sl, row, col) \<in> set (cs @ [c])" for sl row col
  proof (cases "COLUMNS * r + k = COLUMNS * row + col")
    case True
    then have e: "r = row" "k = col" using place_inj [of 0 r k 0 row col] b l by simp_all
    have s: "s < 32" "sl < 32" using b l by simp_all
    have x: "COLUMNS * row + col < length ?fs" using IH(1) l by simp
    show ?thesis using t27_set_bits [OF t s, of "?fs ! (COLUMNS * r + k)"] IH(2) [OF l] m e x by (auto simp: c Let_def simp del: One_nat_def)
  next
    case False
    then have "(sl, row, col) \<in> set cs" using m by (auto simp: c)
    then show ?thesis using IH(2) [OF l] False by (simp add: Let_def)
  qed
  then show ?case using IH(1) by (simp add: c)
qed

lemma agree_state_to_fstate:
  assumes "unbalanced st" "length st = STATESIZE" "length fs = SLICESIZE"
  shows "agree st (state_to_fstate st fs)"
proof -
  note f = put_cells_bits [OF assms order_refl, folded state_to_fstate_def]
  have b: "bit (t27_p (state_to_fstate st fs ! rc)) sl = (cell st sl rc = 1) \<and> bit (t27_n (state_to_fstate st fs ! rc)) sl = (cell st sl rc = 2)"
    if l: "rc < SLICESIZE" "sl < SLICES" for rc sl
  proof -
    obtain row col where r: "row < ROWS" "col < COLUMNS" "rc = COLUMNS * row + col" using split_place [OF l(1)] by blast
    then have "(sl, row, col) \<in> set cells" using l by (simp add: set_cells)
    then show ?thesis using conjunct2 [OF f] l r by (simp add: Let_def cell_def cell_idx_def add.assoc)
  qed
  show ?thesis
  proof (rule agreeI)
    show "lane_ok (state_to_fstate st fs ! rc)" if "rc < SLICESIZE" for rc unfolding lane_ok_def using b [OF that] by auto
    fix rc sl assume l: "rc < SLICESIZE" "sl < SLICES"
    then have "SLICESIZE * sl + rc < length st" using assms(2) by simp
    then have "cell st sl rc = 0 \<or> cell st sl rc = 1 \<or> cell st sl rc = 2" unfolding cell_def by (rule unbalanced_nth [OF assms(1)])
    then show "cell st sl rc = t27_get (state_to_fstate st fs ! rc) sl" using b [OF l] by (auto simp: t27_get_bits)
  qed (use assms(2) conjunct1 [OF f] in simp_all)
qed

lemma fstate_to_state_agree:
  assumes "agree st fs" "length st' = STATESIZE"
  shows "fstate_to_state fs st' = st"
proof -
  note f = fold_cells [OF assms(2) cell_idx_inj cell_idx_less, where h = "\<lambda>sl row col _. t27_get (fs ! (COLUMNS * row + col)) sl", folded fstate_to_state_def]
  show ?thesis
  proof (rule state_eqI [OF f(1) agreeD(1) [OF assms(1)]])
    fix sl rc assume l: "sl < SLICES" "rc < SLICESIZE"
    obtain row col where r: "row < ROWS" "col < COLUMNS" "rc = COLUMNS * row + col" using split_place [OF l(2)] by blast
    show "cell (fstate_to_state fs st') sl rc = cell st sl rc" using f(2) [OF l(1) r(1,2)] agreeD(4) [OF assms(1) l(2,1)] r(3) by (simp add: cell_def cell_idx_def add.assoc)
  qed
qed

lemma mam_transform_equal:
  assumes "length st = STATESIZE" "valid_trits st" "length fs = SLICESIZE"
  shows "mam_ftroika_transform fs st = mam_troika_transform st" "length (mam_troika_transform st) = STATESIZE" "valid_trits (mam_troika_transform st)"
proof -
  let ?u = "map (\<lambda>t. t + 1) st"
  have u: "unbalanced ?u" "length ?u = STATESIZE" using assms(1,2) by (auto simp: unbalanced_def list_all_iff is_trit_cases)
  have a: "agree (troika_permutation ?u 24) (ftroika_permutation (state_to_fstate ?u fs) 24)"
    by (rule agree_permutation [OF agree_state_to_fstate [OF u assms(3)]]) simp
  show "mam_ftroika_transform fs st = mam_troika_transform st"
    using fstate_to_state_agree [OF a u(2)] by (simp add: mam_ftroika_transform_def mam_troika_transform_def Let_def)
  show "length (mam_troika_transform st) = STATESIZE" "valid_trits (mam_troika_transform st)"
    using agreeD(1) [OF a] agree_unbalanced [OF a] by (auto simp: mam_troika_transform_def Let_def unbalanced_def list_all_iff is_trit_def)
qed

end
