(* ===== verification/Mam_Trits.thy ===== *)
theory Mam_Trits
  imports Prelude Errors Trit_Long "HOL-Library.Monad_Syntax"
begin

text \<open>
  \<open>mam/trits/trits.c\<close>, \<open>trits.h\<close>, \<open>buffers.c\<close> and \<open>defs.h\<close>: windows into arrays of trits. The code passes windows by value and the arrays they point to are shared, so
  the arrays live in a store, a function from the number of a block to its contents; the block 0 is NULL. Sizes and offsets are natural numbers. A result \<open>None\<close> is
  a failed assertion or an access outside of a block.
\<close>

section \<open>Definitions\<close>

type_synonym mem = "nat \<Rightarrow> trit list"

record trits_t =
  trits_n :: nat
  trits_d :: nat
  trits_p :: nat

definition MAM_ASSERT :: "bool \<Rightarrow> unit option" where
  "MAM_ASSERT b = (if b then Some () else None)"

definition mem_load :: "mem \<Rightarrow> nat \<Rightarrow> nat \<Rightarrow> nat \<Rightarrow> trit list option" where
  "mem_load m p off n = (if off + n \<le> length (m p) then Some (slice off n (m p)) else None)"

definition mem_store :: "mem \<Rightarrow> nat \<Rightarrow> nat \<Rightarrow> trit list \<Rightarrow> mem option" where
  "mem_store m p off ts = (if off + length ts \<le> length (m p) then Some (m(p := blit (m p) off ts)) else None)"

subsection \<open>Windows\<close>

definition trits_is_empty :: "trits_t \<Rightarrow> bool" where
  "trits_is_empty x \<longleftrightarrow> trits_n x = trits_d x"

definition trits_size :: "trits_t \<Rightarrow> nat" where
  "trits_size x = trits_n x - trits_d x"

definition trits_size_min :: "trits_t \<Rightarrow> nat \<Rightarrow> nat" where
  "trits_size_min x s = min (trits_size x) s"

definition trits_from_rep :: "nat \<Rightarrow> nat \<Rightarrow> trits_t" where
  "trits_from_rep n p = \<lparr>trits_n = n, trits_d = 0, trits_p = p\<rparr>"

definition trits_take :: "trits_t \<Rightarrow> nat \<Rightarrow> trits_t option" where
  "trits_take x n = do { MAM_ASSERT (trits_d x + n \<le> trits_n x); Some (x\<lparr>trits_n := trits_d x + n\<rparr>) }"

definition trits_take_min :: "trits_t \<Rightarrow> nat \<Rightarrow> trits_t" where
  "trits_take_min x n = x\<lparr>trits_n := min (trits_n x) (trits_d x + n)\<rparr>"

definition trits_drop :: "trits_t \<Rightarrow> nat \<Rightarrow> trits_t option" where
  "trits_drop x n = do { MAM_ASSERT (trits_d x + n \<le> trits_n x); Some (x\<lparr>trits_d := trits_d x + n\<rparr>) }"

definition trits_drop_min :: "trits_t \<Rightarrow> nat \<Rightarrow> trits_t" where
  "trits_drop_min x n = x\<lparr>trits_d := min (trits_n x) (trits_d x + n)\<rparr>"

definition trits_pickup :: "trits_t \<Rightarrow> nat \<Rightarrow> trits_t option" where
  "trits_pickup x n = do { MAM_ASSERT (n \<le> trits_d x); Some (x\<lparr>trits_d := trits_d x - n\<rparr>) }"

definition trits_pickup_all :: "trits_t \<Rightarrow> trits_t" where
  "trits_pickup_all x = x\<lparr>trits_d := 0\<rparr>"

definition trits_dropped_all :: "trits_t \<Rightarrow> trits_t" where
  "trits_dropped_all x = trits_pickup_all (x\<lparr>trits_n := trits_d x\<rparr>)"

text \<open>The window of the first \<open>n\<close> trits, and the buffer after them.\<close>

definition trits_advance :: "trits_t \<Rightarrow> nat \<Rightarrow> (trits_t \<times> trits_t) option" where
  "trits_advance b n = do { t \<leftarrow> trits_take b n; b \<leftarrow> trits_drop b n; Some (t, b) }"

definition trits_diff :: "trits_t \<Rightarrow> trits_t \<Rightarrow> trits_t option" where
  "trits_diff begin_t end_t = do {
     MAM_ASSERT (trits_p begin_t = trits_p end_t);
     MAM_ASSERT (trits_d begin_t \<le> trits_d end_t);
     MAM_ASSERT (trits_d begin_t \<le> trits_n begin_t);
     MAM_ASSERT (trits_d end_t \<le> trits_n end_t);
     Some (begin_t\<lparr>trits_n := trits_d end_t\<rparr>) }"

definition trits_null :: trits_t where
  "trits_null = trits_from_rep 0 0"

definition trits_is_null :: "trits_t \<Rightarrow> bool" where
  "trits_is_null x \<longleftrightarrow> trits_p x = 0"

definition trits_is_same :: "trits_t \<Rightarrow> trits_t \<Rightarrow> bool" where
  "trits_is_same x y \<longleftrightarrow> trits_p x = trits_p y \<and> trits_d x = trits_d y"

text \<open>Windows into different blocks do not overlap.\<close>

definition trits_is_overlapped :: "trits_t \<Rightarrow> trits_t \<Rightarrow> bool" where
  "trits_is_overlapped x y \<longleftrightarrow> trits_p x = trits_p y \<and> trits_d x < trits_n y \<and> trits_d y < trits_n x"

subsection \<open>Single trits and small integers\<close>

definition trits_get1 :: "mem \<Rightarrow> trits_t \<Rightarrow> trit option" where
  "trits_get1 m x = do {
     MAM_ASSERT (\<not> trits_is_empty x);
     ts \<leftarrow> mem_load m (trits_p x) (trits_d x) 1;
     MAM_ASSERT (is_trit (hd ts));
     Some (hd ts) }"

definition trits_put1 :: "mem \<Rightarrow> trits_t \<Rightarrow> trit \<Rightarrow> mem option" where
  "trits_put1 m x t = do {
     MAM_ASSERT (\<not> trits_is_empty x);
     MAM_ASSERT (is_trit t);
     mem_store m (trits_p x) (trits_d x) [t] }"

definition MAM_MODS :: "int \<Rightarrow> int \<Rightarrow> int \<Rightarrow> int" where
  "MAM_MODS t M k = c_mod (t + c_div (M - 1) 2) k - c_div (k - 1) 2"

definition MAM_DIVS :: "int \<Rightarrow> int \<Rightarrow> int \<Rightarrow> int" where
  "MAM_DIVS t M k = c_div (t + c_div (M - 1) 2) k - c_div (c_div M k - 1) 2"

abbreviation wrap16 :: "int \<Rightarrow> int" where "wrap16 \<equiv> wrap_s 16"

definition trits_get3 :: "mem \<Rightarrow> trits_t \<Rightarrow> int option" where
  "trits_get3 m x = do {
     MAM_ASSERT (3 \<le> trits_size x);
     t0 \<leftarrow> trits_get1 m x;
     x1 \<leftarrow> trits_drop x 1;
     t1 \<leftarrow> trits_get1 m x1;
     x2 \<leftarrow> trits_drop x 2;
     t2 \<leftarrow> trits_get1 m x2;
     Some (wrap8 (t0 + 3 * t1 + 9 * t2)) }"

definition trits_put3 :: "mem \<Rightarrow> trits_t \<Rightarrow> int \<Rightarrow> mem option" where
  "trits_put3 m x t = do {
     MAM_ASSERT (- 13 \<le> t \<and> t \<le> 13);
     MAM_ASSERT (3 \<le> trits_size x);
     let t0 = wrap8 (MAM_MODS t 27 3);
     let t = wrap8 (MAM_DIVS t 27 3);
     let t1 = wrap8 (MAM_MODS t 9 3);
     let t = wrap8 (MAM_DIVS t 9 3);
     m \<leftarrow> trits_put1 m x t0;
     x1 \<leftarrow> trits_drop x 1;
     m \<leftarrow> trits_put1 m x1 t1;
     x2 \<leftarrow> trits_drop x 2;
     trits_put1 m x2 t }"

definition trits_get6 :: "mem \<Rightarrow> trits_t \<Rightarrow> int option" where
  "trits_get6 m x = do {
     MAM_ASSERT (6 \<le> trits_size x);
     t0 \<leftarrow> trits_get3 m x;
     x1 \<leftarrow> trits_drop x 3;
     t1 \<leftarrow> trits_get3 m x1;
     Some (wrap16 (t0 + 27 * t1)) }"

definition trits_put6 :: "mem \<Rightarrow> trits_t \<Rightarrow> int \<Rightarrow> mem option" where
  "trits_put6 m x t = do {
     MAM_ASSERT (- 364 \<le> t \<and> t \<le> 364);
     MAM_ASSERT (6 \<le> trits_size x);
     let t0 = wrap8 (MAM_MODS t (27 * 27) 27);
     let t = wrap16 (MAM_DIVS t (27 * 27) 27);
     let t1 = wrap8 t;
     m \<leftarrow> trits_put3 m x t0;
     x1 \<leftarrow> trits_drop x 3;
     trits_put3 m x1 t1 }"

definition trits_get9 :: "mem \<Rightarrow> trits_t \<Rightarrow> int option" where
  "trits_get9 m x = do {
     MAM_ASSERT (9 \<le> trits_size x);
     t0 \<leftarrow> trits_get3 m x;
     x1 \<leftarrow> trits_drop x 3;
     t1 \<leftarrow> trits_get3 m x1;
     x2 \<leftarrow> trits_drop x 6;
     t2 \<leftarrow> trits_get3 m x2;
     Some (wrap16 (t0 + 27 * t1 + 729 * t2)) }"

definition trits_put9 :: "mem \<Rightarrow> trits_t \<Rightarrow> int \<Rightarrow> mem option" where
  "trits_put9 m x t = do {
     MAM_ASSERT (- 9841 \<le> t \<and> t \<le> 9841);
     MAM_ASSERT (9 \<le> trits_size x);
     let t0 = wrap8 (MAM_MODS t (27 * 27 * 27) 27);
     let t = wrap16 (MAM_DIVS t (27 * 27 * 27) 27);
     let t1 = wrap8 (MAM_MODS t (27 * 27) 27);
     let t = wrap16 (MAM_DIVS t (27 * 27) 27);
     let t2 = wrap8 t;
     m \<leftarrow> trits_put3 m x t0;
     x1 \<leftarrow> trits_drop x 3;
     m \<leftarrow> trits_put3 m x1 t1;
     x2 \<leftarrow> trits_drop x 6;
     trits_put3 m x2 t2 }"

definition trits_get18 :: "mem \<Rightarrow> trits_t \<Rightarrow> int option" where
  "trits_get18 m x = do {
     MAM_ASSERT (18 \<le> trits_size x);
     t0 \<leftarrow> trits_get9 m x;
     x1 \<leftarrow> trits_drop x 9;
     t1 \<leftarrow> trits_get9 m x1;
     Some (t0 + 19683 * t1) }"

text \<open>There is no assertion on the value; the sum inside of \<open>MAM_MODS\<close> must not overflow.\<close>

definition trits_put18 :: "mem \<Rightarrow> trits_t \<Rightarrow> int \<Rightarrow> mem option" where
  "trits_put18 m x t = do {
     MAM_ASSERT (18 \<le> trits_size x);
     MAM_ASSERT (t + 193710244 < 2 ^ 31);
     let t0 = wrap16 (MAM_MODS t (19683 * 19683) 19683);
     let t = wrap32 (MAM_DIVS t (19683 * 19683) 19683);
     let t1 = wrap16 t;
     m \<leftarrow> trits_put9 m x t0;
     x1 \<leftarrow> trits_drop x 9;
     trits_put9 m x1 t1 }"

subsection \<open>Characters\<close>

definition trinary_alphabet :: "int list" where
  "trinary_alphabet = [78, 79, 80, 81, 82, 83, 84, 85, 86, 87, 88, 89, 90, 57, 65, 66, 67, 68, 69, 70, 71, 72, 73, 74, 75, 76, 77]"

text \<open>\<open>None\<close>: the tryte is not assigned.\<close>

definition tryte_from_char :: "int \<Rightarrow> int option" where
  "tryte_from_char c =
     (if 78 \<le> c \<and> c \<le> 90 then Some (c - 78 - 13)
      else if 65 \<le> c \<and> c \<le> 77 then Some (c - 65 + 1)
      else if c = 57 then Some 0
      else None)"

definition tryte_to_char :: "int \<Rightarrow> int option" where
  "tryte_to_char t = do { MAM_ASSERT (- 13 \<le> t \<and> t \<le> 13); Some (trinary_alphabet ! nat (t + 13)) }"

text \<open>\<open>trits_get\<close> and \<open>trits_put\<close>: memcpy from and to the window; \<open>t\<close> is at least as long.\<close>

definition trits_get :: "mem \<Rightarrow> trits_t \<Rightarrow> trit list \<Rightarrow> trit list option" where
  "trits_get m x t = do { ts \<leftarrow> mem_load m (trits_p x) (trits_d x) (trits_size x); Some (blit t 0 ts) }"

definition trits_put :: "mem \<Rightarrow> trits_t \<Rightarrow> trit list \<Rightarrow> mem option" where
  "trits_put m x t = mem_store m (trits_p x) (trits_d x) (take (trits_size x) t)"

definition trits_get_char :: "mem \<Rightarrow> trits_t \<Rightarrow> int option" where
  "trits_get_char m x = do {
     ts \<leftarrow> trits_get m (trits_take_min x 3) [0, 0, 0];
     tryte_to_char (wrap8 (ts ! 0 + 3 * ts ! 1 + 9 * ts ! 2)) }"

definition trits_put_char :: "mem \<Rightarrow> trits_t \<Rightarrow> int \<Rightarrow> (bool \<times> mem) option" where
  "trits_put_char m x c =
     (case tryte_from_char c of
        None \<Rightarrow> Some (False, m)
      | Some i \<Rightarrow>
          let t0 = wrap8 (MAM_MODS i 27 3); i = wrap8 (MAM_DIVS i 27 3);
              t1 = wrap8 (MAM_MODS i 9 3); i = wrap8 (MAM_DIVS i 9 3);
              t2 = wrap8 (MAM_MODS i 3 3); ts = [t0, t1, t2]
          in if \<exists>k \<in> set [trits_size_min x 3..<3]. ts ! k \<noteq> 0 then Some (False, m)
             else do { m \<leftarrow> trits_put m (trits_take_min x 3) ts; Some (True, m) })"

function trits_to_str :: "mem \<Rightarrow> trits_t \<Rightarrow> int list option" where
  "trits_to_str m x =
     (if trits_is_empty x then Some []
      else do { c \<leftarrow> trits_get_char m x; cs \<leftarrow> trits_to_str m (trits_drop_min x 3); Some (c # cs) })"
  by pat_completeness auto
termination
  by (relation "measure (\<lambda>(m, x). if trits_n x = trits_d x then 0 else Suc (trits_n x - trits_d x))") (auto simp: trits_is_empty_def trits_drop_min_def)

declare trits_to_str.simps [simp del]

text \<open>\<open>s\<close> are the characters from the pointer on; reading past them is undefined.\<close>

function trits_from_str :: "mem \<Rightarrow> trits_t \<Rightarrow> int list \<Rightarrow> (bool \<times> mem) option" where
  "trits_from_str m x s =
     (if trits_is_empty x then Some (True, m)
      else case s of
             [] \<Rightarrow> None
           | c # s \<Rightarrow> do { (r, m) \<leftarrow> trits_put_char m x c; if r then trits_from_str m (trits_drop_min x 3) s else Some (False, m) })"
  by pat_completeness auto
termination
  by (relation "measure (\<lambda>(m, x, s). length s)") auto

declare trits_from_str.simps [simp del]

function trits_cmp_eq_str :: "mem \<Rightarrow> trits_t \<Rightarrow> int list \<Rightarrow> bool option" where
  "trits_cmp_eq_str m x s =
     (if trits_is_empty x then Some True
      else case s of
             [] \<Rightarrow> None
           | c # s \<Rightarrow> do { d \<leftarrow> trits_get_char m x; if d = c then trits_cmp_eq_str m (trits_drop_min x 3) s else Some False })"
  by pat_completeness auto
termination
  by (relation "measure (\<lambda>(m, x, s). length s)") auto

declare trits_cmp_eq_str.simps [simp del]

subsection \<open>Copying and filling\<close>

definition trits_set1 :: "mem \<Rightarrow> trits_t \<Rightarrow> trit \<Rightarrow> mem option" where
  "trits_set1 m x t = do { MAM_ASSERT (is_trit t); mem_store m (trits_p x) (trits_d x) (replicate (trits_size x) t) }"

definition trits_set_zero :: "mem \<Rightarrow> trits_t \<Rightarrow> mem option" where
  "trits_set_zero m x = trits_set1 m x 0"

definition trits_copy :: "mem \<Rightarrow> trits_t \<Rightarrow> trits_t \<Rightarrow> mem option" where
  "trits_copy m x y = do {
     MAM_ASSERT (trits_size x = trits_size y);
     MAM_ASSERT (trits_is_same x y \<or> \<not> trits_is_overlapped x y);
     ts \<leftarrow> mem_load m (trits_p x) (trits_d x) (trits_size x);
     mem_store m (trits_p y) (trits_d y) ts }"

definition trits_copy_min :: "mem \<Rightarrow> trits_t \<Rightarrow> trits_t \<Rightarrow> (nat \<times> mem) option" where
  "trits_copy_min m x y = do {
     let n = min (trits_size x) (trits_size y);
     x \<leftarrow> trits_take x n;
     y \<leftarrow> trits_take y n;
     m \<leftarrow> trits_copy m x y;
     Some (n, m) }"

definition trits_padc0 :: "mem \<Rightarrow> trit \<Rightarrow> trits_t \<Rightarrow> mem option" where
  "trits_padc0 m c0 y = do {
     MAM_ASSERT (\<not> trits_is_empty y);
     m \<leftarrow> trits_put1 m y c0;
     y \<leftarrow> trits_drop y 1;
     trits_set_zero m y }"

definition trits_padc :: "mem \<Rightarrow> trit \<Rightarrow> trits_t \<Rightarrow> mem option" where
  "trits_padc m c0 y = (if \<not> trits_is_empty y then trits_padc0 m c0 y else Some m)"

subsection \<open>Addition\<close>

definition MAM_TRIT_NORM :: "int \<Rightarrow> trit" where
  "MAM_TRIT_NORM t = (if t = 2 then - 1 else if t = - 2 then 1 else t)"

definition trit_add :: "trit \<Rightarrow> trit \<Rightarrow> trit" where
  "trit_add x s = MAM_TRIT_NORM (x + s)"

definition trit_sub :: "trit \<Rightarrow> trit \<Rightarrow> trit" where
  "trit_sub y s = MAM_TRIT_NORM (y - s)"

text \<open>The new values of both arguments.\<close>

definition trit_swap_add :: "trit \<Rightarrow> trit \<Rightarrow> trit \<times> trit" where
  "trit_swap_add x s = (MAM_TRIT_NORM (x + s), x)"

definition trit_swap_sub :: "trit \<Rightarrow> trit \<Rightarrow> trit \<times> trit" where
  "trit_swap_sub y s = (let x = MAM_TRIT_NORM (y - s) in (x, x))"

lemma trits_drop_decreases: "trits_drop x (Suc 0) = Some x' \<Longrightarrow> trits_n x' - trits_d x' < trits_n x - trits_d x"
  by (auto simp: trits_drop_def MAM_ASSERT_def split: if_splits)

function trits_copy_add_loop :: "mem \<Rightarrow> trits_t \<Rightarrow> trits_t \<Rightarrow> trits_t \<Rightarrow> mem option" where
  "trits_copy_add_loop m x s y =
     (if trits_is_empty x then Some m
      else do {
        tx \<leftarrow> trits_get1 m x;
        ts \<leftarrow> trits_get1 m s;
        let ty = trit_add tx ts;
        m \<leftarrow> trits_put1 m s tx;
        m \<leftarrow> trits_put1 m y ty;
        x \<leftarrow> trits_drop x 1;
        s \<leftarrow> trits_drop s 1;
        y \<leftarrow> trits_drop y 1;
        trits_copy_add_loop m x s y })"
  by pat_completeness auto
termination by (relation "measure (\<lambda>(m, x, s, y). trits_n x - trits_d x)") (auto dest: trits_drop_decreases)

declare trits_copy_add_loop.simps [simp del]

definition trits_copy_add :: "mem \<Rightarrow> trits_t \<Rightarrow> trits_t \<Rightarrow> trits_t \<Rightarrow> mem option" where
  "trits_copy_add m x s y = do {
     MAM_ASSERT (trits_size x = trits_size s);
     MAM_ASSERT (trits_size x = trits_size y);
     trits_copy_add_loop m x s y }"

function trits_copy_sub_loop :: "mem \<Rightarrow> trits_t \<Rightarrow> trits_t \<Rightarrow> trits_t \<Rightarrow> mem option" where
  "trits_copy_sub_loop m y s x =
     (if trits_is_empty x then Some m
      else do {
        ty \<leftarrow> trits_get1 m y;
        ts \<leftarrow> trits_get1 m s;
        let tx = trit_sub ty ts;
        m \<leftarrow> trits_put1 m s tx;
        m \<leftarrow> trits_put1 m x tx;
        x \<leftarrow> trits_drop x 1;
        s \<leftarrow> trits_drop s 1;
        y \<leftarrow> trits_drop y 1;
        trits_copy_sub_loop m y s x })"
  by pat_completeness auto
termination by (relation "measure (\<lambda>(m, y, s, x). trits_n x - trits_d x)") (auto dest: trits_drop_decreases)

declare trits_copy_sub_loop.simps [simp del]

definition trits_copy_sub :: "mem \<Rightarrow> trits_t \<Rightarrow> trits_t \<Rightarrow> trits_t \<Rightarrow> mem option" where
  "trits_copy_sub m y s x = do {
     MAM_ASSERT (trits_size x = trits_size s);
     MAM_ASSERT (trits_size x = trits_size y);
     trits_copy_sub_loop m y s x }"

function trits_swap_loop :: "(trit \<Rightarrow> trit \<Rightarrow> trit \<times> trit) \<Rightarrow> mem \<Rightarrow> trits_t \<Rightarrow> trits_t \<Rightarrow> mem option" where
  "trits_swap_loop f m x s =
     (if trits_is_empty x then Some m
      else do {
        tx \<leftarrow> trits_get1 m x;
        ts \<leftarrow> trits_get1 m s;
        let (tx, ts) = f tx ts;
        m \<leftarrow> trits_put1 m x tx;
        m \<leftarrow> trits_put1 m s ts;
        x \<leftarrow> trits_drop x 1;
        s \<leftarrow> trits_drop s 1;
        trits_swap_loop f m x s })"
  by pat_completeness auto
termination by (relation "measure (\<lambda>(f, m, x, s). trits_n x - trits_d x)") (auto dest: trits_drop_decreases)

declare trits_swap_loop.simps [simp del]

definition trits_swap_add :: "mem \<Rightarrow> trits_t \<Rightarrow> trits_t \<Rightarrow> mem option" where
  "trits_swap_add m x s = do { MAM_ASSERT (trits_size x = trits_size s); trits_swap_loop trit_swap_add m x s }"

definition trits_swap_sub :: "mem \<Rightarrow> trits_t \<Rightarrow> trits_t \<Rightarrow> mem option" where
  "trits_swap_sub m y s = do { MAM_ASSERT (trits_size y = trits_size s); trits_swap_loop trit_swap_sub m y s }"

definition trits_copy_add_min :: "mem \<Rightarrow> trits_t \<Rightarrow> trits_t \<Rightarrow> trits_t \<Rightarrow> (nat \<times> mem) option" where
  "trits_copy_add_min m x s y = do {
     MAM_ASSERT (trits_size x = trits_size y);
     let n = min (trits_size x) (trits_size s);
     x \<leftarrow> trits_take x n;
     s \<leftarrow> trits_take s n;
     y \<leftarrow> trits_take y n;
     m \<leftarrow> trits_copy_add m x s y;
     Some (n, m) }"

definition trits_copy_sub_min :: "mem \<Rightarrow> trits_t \<Rightarrow> trits_t \<Rightarrow> trits_t \<Rightarrow> (nat \<times> mem) option" where
  "trits_copy_sub_min m x s y = do {
     MAM_ASSERT (trits_size x = trits_size y);
     let n = min (trits_size x) (trits_size s);
     x \<leftarrow> trits_take x n;
     s \<leftarrow> trits_take s n;
     y \<leftarrow> trits_take y n;
     m \<leftarrow> trits_copy_sub m x s y;
     Some (n, m) }"

definition trits_swap_add_min :: "mem \<Rightarrow> trits_t \<Rightarrow> trits_t \<Rightarrow> (nat \<times> mem) option" where
  "trits_swap_add_min m x s = do {
     let n = min (trits_size x) (trits_size s);
     x \<leftarrow> trits_take x n;
     s \<leftarrow> trits_take s n;
     m \<leftarrow> trits_swap_add m x s;
     Some (n, m) }"

definition trits_swap_sub_min :: "mem \<Rightarrow> trits_t \<Rightarrow> trits_t \<Rightarrow> (nat \<times> mem) option" where
  "trits_swap_sub_min m x s = do {
     let n = min (trits_size x) (trits_size s);
     x \<leftarrow> trits_take x n;
     s \<leftarrow> trits_take s n;
     m \<leftarrow> trits_swap_sub m x s;
     Some (n, m) }"

subsection \<open>Comparison and increment\<close>

function trits_cmp_loop :: "mem \<Rightarrow> trits_t \<Rightarrow> trits_t \<Rightarrow> int option" where
  "trits_cmp_loop m x y =
     (if trits_is_empty x then Some 0
      else do {
        tx \<leftarrow> trits_get1 m x;
        ty \<leftarrow> trits_get1 m y;
        if tx - ty \<noteq> 0 then Some (tx - ty)
        else do { x \<leftarrow> trits_drop x 1; y \<leftarrow> trits_drop y 1; trits_cmp_loop m x y } })"
  by pat_completeness auto
termination by (relation "measure (\<lambda>(m, x, y). trits_n x - trits_d x)") (auto dest: trits_drop_decreases)

declare trits_cmp_loop.simps [simp del]

definition trits_cmp_grlex :: "mem \<Rightarrow> trits_t \<Rightarrow> trits_t \<Rightarrow> int option" where
  "trits_cmp_grlex m x y =
     (if trits_size x < trits_size y then Some (- 3)
      else if trits_size x > trits_size y then Some 3
      else trits_cmp_loop m x y)"

definition trits_cmp_eq :: "mem \<Rightarrow> trits_t \<Rightarrow> trits_t \<Rightarrow> bool option" where
  "trits_cmp_eq m x y = map_option (\<lambda>d. d = 0) (trits_cmp_grlex m x y)"

function mam_trits_inc :: "mem \<Rightarrow> trits_t \<Rightarrow> (bool \<times> mem) option" where
  "mam_trits_inc m x =
     (if trits_is_empty x then Some (False, m)
      else do {
        t \<leftarrow> trits_get1 m x;
        let t = trit_add t 1;
        m \<leftarrow> trits_put1 m x t;
        if t \<noteq> 0 then Some (True, m)
        else do { x \<leftarrow> trits_drop x 1; mam_trits_inc m x } })"
  by pat_completeness auto
termination by (relation "measure (\<lambda>(m, x). trits_n x - trits_d x)") (auto dest: trits_drop_decreases)

declare mam_trits_inc.simps [simp del]

subsection \<open>Sizes\<close>

definition MAM_TRITS_SIZE_MAX :: int where "MAM_TRITS_SIZE_MAX = 2026277576509488133"
definition MAM_TRITS_MAX_SIZE_T_TRYTES :: nat where "MAM_TRITS_MAX_SIZE_T_TRYTES = (5 * 8 + 2) div 3"

text \<open>\<open>m\<close> is a \<open>size_t\<close>.\<close>

function size_t_trytes_loop :: "int \<Rightarrow> nat \<Rightarrow> int \<Rightarrow> nat" where
  "size_t_trytes_loop n d m =
     (if d < MAM_TRITS_MAX_SIZE_T_TRYTES \<and> n > uwrap64 (m - 1) div 2 then size_t_trytes_loop n (d + 1) (uwrap64 (m * 27)) else d)"
  by pat_completeness auto
termination by (relation "measure (\<lambda>(n, d, m). MAM_TRITS_MAX_SIZE_T_TRYTES - d)") auto

declare size_t_trytes_loop.simps [simp del]

definition trits_size_t_trytes :: "int \<Rightarrow> nat option" where
  "trits_size_t_trytes n = do { MAM_ASSERT (n \<le> MAM_TRITS_SIZE_MAX); Some (size_t_trytes_loop n 0 1) }"

definition trits_sizeof_size_t :: "int \<Rightarrow> nat option" where
  "trits_sizeof_size_t n = do {
     d \<leftarrow> trits_size_t_trytes n;
     MAM_ASSERT (d \<le> MAM_TRITS_MAX_SIZE_T_TRYTES);
     Some (3 * (d + 1)) }"

text \<open>\<open>long_to_trits\<close> writes into the block behind the window; writing past its end is undefined.\<close>

definition long_to_trits_mem :: "mem \<Rightarrow> int \<Rightarrow> nat \<Rightarrow> nat \<Rightarrow> mem option" where
  "long_to_trits_mem m n p off =
     (let (size, ts) = long_to_trits (wrap64 n) (drop off (m p))
      in if off + max 3 size \<le> length (m p) then mem_store m p off ts else None)"

definition trits_encode_size_t :: "mem \<Rightarrow> int \<Rightarrow> trits_t \<Rightarrow> (mem \<times> trits_t) option" where
  "trits_encode_size_t m n buffer = do {
     k \<leftarrow> trits_sizeof_size_t n;
     MAM_ASSERT (\<not> trits_size buffer < k);
     m \<leftarrow> trits_set_zero m buffer;
     d \<leftarrow> trits_size_t_trytes n;
     MAM_ASSERT (d \<le> MAM_TRITS_MAX_SIZE_T_TRYTES);
     (t, buffer) \<leftarrow> trits_advance buffer 3;
     m \<leftarrow> trits_put3 m t (wrap8 (int d));
     if n > 0
     then do {
       m \<leftarrow> long_to_trits_mem m n (trits_p buffer) (trits_d buffer);
       (_, buffer) \<leftarrow> trits_advance buffer (d * 3);
       Some (m, buffer) }
     else Some (m, buffer) }"

text \<open>The code, the decoded size, where it is assigned, and the advanced buffer. \<open>size != (size_t)size\<close> never holds with 64 bits.\<close>

definition trits_decode_size_t :: "mem \<Rightarrow> trits_t \<Rightarrow> (retcode \<times> int option \<times> trits_t) option" where
  "trits_decode_size_t m buffer =
     (if trits_size buffer < 3 then Some (RC_MAM_PB3_EOF, None, buffer)
      else do {
        d \<leftarrow> trits_get3 m buffer;
        buffer \<leftarrow> trits_drop buffer 3;
        if d < 0 \<or> d > 13 then Some (RC_MAM_INVALID_VALUE, None, buffer)
        else if trits_size buffer < 3 * nat d then Some (RC_MAM_PB3_EOF, None, buffer)
        else do {
          ts \<leftarrow> mem_load m (trits_p buffer) (trits_d buffer) (nat d * 3);
          let size = uwrap64 (trits_to_long ts);
          (_, buffer) \<leftarrow> trits_advance buffer (nat d * 3);
          Some (RC_OK, Some size, buffer) } })"

subsection \<open>Lists of windows\<close>

record buffers_t =
  bf_head :: trits_t
  bf_tail :: "trits_t list"

definition buffers_init :: "trits_t list \<Rightarrow> buffers_t" where
  "buffers_init trits = \<lparr>bf_head = trits_null, bf_tail = trits\<rparr>"

definition buffers_is_empty :: "buffers_t \<Rightarrow> bool" where
  "buffers_is_empty b \<longleftrightarrow> trits_is_empty (bf_head b) \<and> bf_tail b = []"

function buffers_size :: "buffers_t \<Rightarrow> nat" where
  "buffers_size b =
     (if buffers_is_empty b then 0
      else trits_size (bf_head b)
        + buffers_size (case bf_tail b of [] \<Rightarrow> b\<lparr>bf_head := trits_null\<rparr> | t # ts \<Rightarrow> \<lparr>bf_head = t, bf_tail = ts\<rparr>))"
  by pat_completeness auto
termination
  by (relation "measure (\<lambda>b. 2 * length (bf_tail b) + (if trits_is_empty (bf_head b) then 0 else 1))")
    (auto simp: buffers_is_empty_def trits_null_def trits_from_rep_def trits_is_empty_def split: list.splits)

declare buffers_size.simps [simp del]

text \<open>One iteration copies what fits, and takes the next window when the head is used up.\<close>

definition buffers_step :: "mem \<Rightarrow> buffers_t \<Rightarrow> trits_t \<Rightarrow> (nat \<times> mem \<times> buffers_t \<times> trits_t) option" where
  "buffers_step m b trits = do {
     (k, m) \<leftarrow> trits_copy_min m (bf_head b) trits;
     hd' \<leftarrow> trits_drop (bf_head b) k;
     trits \<leftarrow> trits_drop trits k;
     let b = b\<lparr>bf_head := hd'\<rparr>;
     let b = (if trits_is_empty (bf_head b) then (case bf_tail b of [] \<Rightarrow> b | t # ts \<Rightarrow> \<lparr>bf_head = t, bf_tail = ts\<rparr>) else b);
     Some (k, m, b, trits) }"

lemma buffers_step_decreases:
  assumes "buffers_step m b trits = Some (k, m', b', trits')" "\<not> trits_is_empty trits" "\<not> buffers_is_empty b"
  shows "trits_size trits' + length (bf_tail b') < trits_size trits + length (bf_tail b)"
proof -
  from assms(1) obtain h where h: "trits_drop (bf_head b) k = Some h" "trits_drop trits k = Some trits'" "k = min (trits_size (bf_head b)) (trits_size trits)"
      "b' = (if trits_is_empty h then (case bf_tail b of [] \<Rightarrow> b\<lparr>bf_head := h\<rparr> | t # ts \<Rightarrow> \<lparr>bf_head = t, bf_tail = ts\<rparr>) else b\<lparr>bf_head := h\<rparr>)"
    by (auto simp: buffers_step_def trits_copy_min_def Let_def split: Option.bind_splits)
  have t: "length (bf_tail b') \<le> length (bf_tail b)" using h(4) by (auto split: list.splits)
  show ?thesis
  proof (cases "k = 0")
    case True
    with h(1,2,3) assms(2) have "trits_is_empty h" "bf_head b = h" "trits' = trits"
      by (auto simp: trits_drop_def MAM_ASSERT_def trits_size_def trits_is_empty_def split: if_splits)
    with assms(3) h(4) show ?thesis by (auto simp: buffers_is_empty_def split: list.splits)
  next
    case False
    with h(2) t show ?thesis by (auto simp: trits_drop_def MAM_ASSERT_def trits_size_def split: if_splits)
  qed
qed

function buffers_copy_to :: "mem \<Rightarrow> buffers_t \<Rightarrow> trits_t \<Rightarrow> nat \<Rightarrow> (nat \<times> mem \<times> buffers_t) option" where
  "buffers_copy_to m b trits n =
     (if trits_is_empty trits \<or> buffers_is_empty b then Some (n, m, b)
      else case buffers_step m b trits of
             None \<Rightarrow> None
           | Some (k, m, b, trits) \<Rightarrow> buffers_copy_to m b trits (n + k))"
  by pat_completeness auto
termination
  by (relation "measure (\<lambda>(m, b, trits, n). trits_size trits + length (bf_tail b))") (auto dest: buffers_step_decreases)

declare buffers_copy_to.simps [simp del]

section \<open>Reading and writing windows\<close>

text \<open>A window that lies inside of its block, its contents, and the store after its first trits are overwritten.\<close>

definition window :: "mem \<Rightarrow> trits_t \<Rightarrow> bool" where
  "window m x \<longleftrightarrow> trits_d x \<le> trits_n x \<and> trits_n x \<le> length (m (trits_p x))"

definition rd :: "mem \<Rightarrow> trits_t \<Rightarrow> trit list" where
  "rd m x = slice (trits_d x) (trits_size x) (m (trits_p x))"

definition wr :: "mem \<Rightarrow> trits_t \<Rightarrow> trit list \<Rightarrow> mem" where
  "wr m x ts = m(trits_p x := blit (m (trits_p x)) (trits_d x) ts)"

definition after :: "trits_t \<Rightarrow> nat \<Rightarrow> trits_t" where
  "after x k = x\<lparr>trits_d := trits_d x + k\<rparr>"

definition upto :: "trits_t \<Rightarrow> nat \<Rightarrow> trits_t" where
  "upto x k = x\<lparr>trits_n := trits_d x + k\<rparr>"

definition apart :: "trits_t \<Rightarrow> trits_t \<Rightarrow> bool" where
  "apart x y \<longleftrightarrow> trits_p x \<noteq> trits_p y \<or> trits_n x \<le> trits_d y \<or> trits_n y \<le> trits_d x"

named_theorems trits_simps \<open>windows, their contents and their parts\<close>

lemma MAM_ASSERT_simps [simp]: "MAM_ASSERT True = Some ()" "MAM_ASSERT False = None" "MAM_ASSERT b = Some u \<longleftrightarrow> b" "MAM_ASSERT b = None \<longleftrightarrow> \<not> b"
  by (simp_all add: MAM_ASSERT_def)

lemma window_size: "window m x \<Longrightarrow> trits_d x + trits_size x = trits_n x"
  by (simp add: window_def trits_size_def)

lemma trits_take_upto [trits_simps]: "window m x \<Longrightarrow> k \<le> trits_size x \<Longrightarrow> trits_take x k = Some (upto x k)"
  by (auto simp: trits_take_def upto_def window_def trits_size_def MAM_ASSERT_def)

lemma trits_drop_after [trits_simps]: "window m x \<Longrightarrow> k \<le> trits_size x \<Longrightarrow> trits_drop x k = Some (after x k)"
  by (auto simp: trits_drop_def after_def window_def trits_size_def MAM_ASSERT_def)

lemma window_parts [trits_simps]: "window m x \<Longrightarrow> k \<le> trits_size x \<Longrightarrow> window m (upto x k)" "window m x \<Longrightarrow> k \<le> trits_size x \<Longrightarrow> window m (after x k)"
  by (auto simp: window_def upto_def after_def trits_size_def)

lemma size_parts [trits_simps]: "trits_size (upto x k) = k" "trits_size (after x k) = trits_size x - k"
  by (auto simp: upto_def after_def trits_size_def)

lemma parts_p [simp]: "trits_p (upto x k) = trits_p x" "trits_p (after x k) = trits_p x"
  by (simp_all add: upto_def after_def)

lemma length_rd [trits_simps]: "window m x \<Longrightarrow> length (rd m x) = trits_size x"
  by (simp add: rd_def window_def trits_size_def)

lemma empty_iff [trits_simps]: "window m x \<Longrightarrow> trits_is_empty x \<longleftrightarrow> trits_size x = 0"
  by (auto simp: window_def trits_is_empty_def trits_size_def)

lemma rd_upto [trits_simps]: "k \<le> trits_size x \<Longrightarrow> rd m (upto x k) = take k (rd m x)"
  by (simp add: rd_def upto_def trits_size_def slice_def min_absorb1)

lemma rd_after [trits_simps]: "k \<le> trits_size x \<Longrightarrow> rd m (after x k) = drop k (rd m x)"
  by (simp add: rd_def after_def trits_size_def slice_def drop_take add.commute)

lemma rd_empty: "trits_size x = 0 \<Longrightarrow> rd m x = []"
  by (simp add: rd_def slice_def)

lemma rd_split: "k \<le> trits_size x \<Longrightarrow> rd m x = rd m (upto x k) @ rd m (after x k)"
  by (simp add: trits_simps)

lemma length_wr: "window m x \<Longrightarrow> length ts \<le> trits_size x \<Longrightarrow> length (wr m x ts p) = length (m p)"
  by (auto simp: wr_def window_def trits_size_def)

lemma window_wr [trits_simps]: "window m x \<Longrightarrow> length ts \<le> trits_size x \<Longrightarrow> window (wr m x ts) y = window m y"
  by (simp add: window_def [of _ y] length_wr)

lemma rd_wr_same [trits_simps]: "window m x \<Longrightarrow> length ts = trits_size x \<Longrightarrow> rd (wr m x ts) x = ts"
  by (metis fun_upd_same le_trans rd_def slice_blit_same window_def wr_def)

lemma rd_wr_apart [trits_simps]:
  assumes "window m x" "window m y" "length ts \<le> trits_size x" "apart x y"
  shows "rd (wr m x ts) y = rd m y"
proof (cases "trits_p x = trits_p y")
  case True
  with assms(4) consider "trits_n x \<le> trits_d y" | "trits_n y \<le> trits_d x" by (auto simp: apart_def)
  then show ?thesis
  proof cases
    case 1
    with True assms(1-3) show ?thesis by (simp add: rd_def wr_def window_def trits_size_def slice_blit_after)
  next
    case 2
    with True assms(1-3) show ?thesis by (simp add: rd_def wr_def window_def trits_size_def slice_blit_before)
  qed
next
  case False
  then show ?thesis by (simp add: rd_def wr_def)
qed

lemma rd_wr_prefix: "window m x \<Longrightarrow> length ts \<le> trits_size x \<Longrightarrow> rd (wr m x ts) x = ts @ drop (length ts) (rd m x)"
  by (auto simp: rd_def wr_def window_def trits_size_def slice_def blit_def drop_take add.commute)

lemma wr_rd: "window m x \<Longrightarrow> wr m x (rd m x) = m"
  by (auto simp: wr_def rd_def blit_def slice_def window_def trits_size_def fun_eq_iff)
    (metis append_take_drop_id drop_drop le_add_diff_inverse2)

lemma blit_cat: "off + length ts \<le> length xs \<Longrightarrow> blit xs off (ts @ us) = blit (blit xs off ts) (off + length ts) us"
  by (simp add: blit_def add.left_commute add.commute)

lemma wr_append: "window m x \<Longrightarrow> length ts \<le> trits_size x \<Longrightarrow> wr m x (ts @ us) = wr (wr m x ts) (after x (length ts)) us"
  by (auto simp: wr_def after_def window_def trits_size_def blit_cat)

lemma nth_blit:
  assumes "off + length ts \<le> length xs" "i < length xs"
  shows "blit xs off ts ! i = (if i < off then xs ! i else if i < off + length ts then ts ! (i - off) else xs ! i)"
proof -
  consider "i < off" | "off \<le> i" "i - off < length ts" "i < off + length ts" | "off + length ts \<le> i" "\<not> i - off < length ts" by linarith
  then show ?thesis using assms by cases (simp_all add: blit_def nth_append)
qed

lemma blit_commute:
  assumes "a + length ts \<le> b" "b + length us \<le> length xs"
  shows "blit (blit xs a ts) b us = blit (blit xs b us) a ts"
proof (rule nth_equalityI)
  fix i assume "i < length (blit (blit xs a ts) b us)"
  then have i: "i < length xs" using assms by simp
  consider "i < a" | "a \<le> i" "i < a + length ts" | "a + length ts \<le> i" "i < b" | "b \<le> i" "i < b + length us" | "b + length us \<le> i" by linarith
  then show "blit (blit xs a ts) b us ! i = blit (blit xs b us) a ts ! i" using assms i by cases (simp_all add: nth_blit)
qed (use assms in simp)

lemma wr_commute_before:
  assumes "window m x" "window m y" "length ts \<le> trits_size x" "length us \<le> trits_size y" "trits_p x = trits_p y" "trits_n x \<le> trits_d y"
  shows "wr (wr m x ts) y us = wr (wr m y us) x ts"
proof -
  have "trits_d x + length ts \<le> trits_d y" "trits_d y + length us \<le> length (m (trits_p y))" using assms by (auto simp: window_def trits_size_def)
  from blit_commute [OF this] assms(5) show ?thesis by (simp add: wr_def)
qed

lemma wr_commute:
  assumes "window m x" "window m y" "length ts \<le> trits_size x" "length us \<le> trits_size y" "apart x y"
  shows "wr (wr m x ts) y us = wr (wr m y us) x ts"
proof (cases "trits_p x = trits_p y")
  case True
  with assms(5) consider "trits_n x \<le> trits_d y" | "trits_n y \<le> trits_d x" by (auto simp: apart_def)
  then show ?thesis
  proof cases
    case 1
    show ?thesis by (rule wr_commute_before [OF assms(1-4) True 1])
  next
    case 2
    show ?thesis by (rule wr_commute_before [OF assms(2,1,4,3) True [symmetric] 2, symmetric])
  qed
next
  case False
  then show ?thesis by (simp add: wr_def fun_upd_twist)
qed

lemma apart_sym: "apart x y \<Longrightarrow> apart y x"
  by (auto simp: apart_def)

lemma apart_parts [trits_simps]:
  "apart x y \<Longrightarrow> apart (after x k) y" "apart x y \<Longrightarrow> apart x (after y k)"
  "apart x y \<Longrightarrow> k \<le> trits_size x \<Longrightarrow> trits_d x \<le> trits_n x \<Longrightarrow> apart (upto x k) y" "apart x y \<Longrightarrow> k \<le> trits_size y \<Longrightarrow> trits_d y \<le> trits_n y \<Longrightarrow> apart x (upto y k)"
  by (auto simp: apart_def after_def upto_def trits_size_def)

lemma window_le [trits_simps]: "window m x \<Longrightarrow> trits_d x \<le> trits_n x"
  by (simp add: window_def)

section \<open>The operations on windows\<close>

lemma mem_load_rd: "window m x \<Longrightarrow> mem_load m (trits_p x) (trits_d x) (trits_size x) = Some (rd m x)"
  by (simp add: mem_load_def rd_def window_def trits_size_def)

lemma mem_store_wr: "window m x \<Longrightarrow> length ts \<le> trits_size x \<Longrightarrow> mem_store m (trits_p x) (trits_d x) ts = Some (wr m x ts)"
  by (auto simp: mem_store_def wr_def window_def trits_size_def)

lemma trits_get1_hd [trits_simps]:
  assumes "window m x" "0 < trits_size x" "is_trit (hd (rd m x))"
  shows "trits_get1 m x = Some (hd (rd m x))"
proof -
  have "rd m (upto x 1) = [hd (rd m x)]" using assms(1,2) length_rd [OF assms(1)] by (cases "rd m x") (auto simp: trits_simps)
  moreover have "mem_load m (trits_p x) (trits_d x) 1 = Some (rd m (upto x 1))"
    using mem_load_rd [of m "upto x 1"] assms(1,2) by (simp add: trits_simps) (simp add: upto_def)
  ultimately show ?thesis using assms by (simp add: trits_get1_def trits_simps)
qed

lemma trits_put1_wr [trits_simps]: "window m x \<Longrightarrow> 0 < trits_size x \<Longrightarrow> is_trit t \<Longrightarrow> trits_put1 m x t = Some (wr m x [t])"
  by (simp add: trits_put1_def trits_simps mem_store_wr)

lemma trits_set_zero_wr [trits_simps]: "window m x \<Longrightarrow> trits_set_zero m x = Some (wr m x (replicate (trits_size x) 0))"
  by (simp add: trits_set_zero_def trits_set1_def mem_store_wr)

lemma not_overlapped: "apart x y \<Longrightarrow> \<not> trits_is_overlapped x y"
  by (auto simp: apart_def trits_is_overlapped_def)

lemma trits_copy_wr [trits_simps]:
  "window m x \<Longrightarrow> window m y \<Longrightarrow> trits_size x = trits_size y \<Longrightarrow> apart x y \<Longrightarrow> trits_copy m x y = Some (wr m y (rd m x))"
  using mem_load_rd [of m x] by (simp add: trits_copy_def not_overlapped mem_store_wr length_rd)

lemma trits_copy_same: "window m x \<Longrightarrow> trits_copy m x x = Some m"
  by (simp add: trits_copy_def trits_is_same_def mem_load_rd mem_store_wr length_rd wr_rd)

lemma trits_copy_min_wr:
  assumes "window m x" "window m y" "apart x y" "n = min (trits_size x) (trits_size y)"
  shows "trits_copy_min m x y = Some (n, wr m y (take n (rd m x)))"
  using assms by (simp add: trits_copy_min_def trits_simps Let_def) (simp add: wr_def upto_def)

text \<open>The loops over two or three windows: one step writes one trit into each of two windows.\<close>

lemma zip_step:
  assumes "window m s" "window m y" "0 < trits_size s" "0 < trits_size y" "apart s y" "length S' \<le> trits_size s - 1" "length Y' \<le> trits_size y - 1"
  shows "wr (wr (wr (wr m s [a]) y [b]) (after s 1) S') (after y 1) Y' = wr (wr m s (a # S')) y (b # Y')"
proof -
  have w: "window (wr m s [a]) y" "window (wr m s [a]) (after s 1)" "window (wr m s (a # S')) y" using assms by (simp_all add: trits_simps)
  have "wr (wr (wr m s [a]) y [b]) (after s 1) S' = wr (wr (wr m s [a]) (after s 1) S') y [b]"
    using assms w by (intro wr_commute) (simp_all add: trits_simps apart_sym)
  also have "\<dots> = wr (wr m s (a # S')) y [b]" using wr_append [OF assms(1), of "[a]" S'] assms(3) by simp
  finally show ?thesis using wr_append [OF w(3), of "[b]" Y'] assms(4) by simp
qed

lemma rd_Cons:
  assumes "window m x" "0 < trits_size x" "valid_trits (rd m x)"
  obtains t ts where "rd m x = t # ts" "is_trit t" "valid_trits ts" "rd m (after x 1) = ts" "trits_get1 m x = Some t"
proof -
  obtain t ts where r: "rd m x = t # ts" using length_rd [OF assms(1)] assms(2) by (cases "rd m x") auto
  with assms(3) have "is_trit t" "valid_trits ts" by simp_all
  moreover have "rd m (after x 1) = ts" using assms(2) r by (simp add: trits_simps)
  moreover have "trits_get1 m x = Some t" using trits_get1_hd [OF assms(1,2)] r \<open>is_trit t\<close> by simp
  ultimately show ?thesis using that r by blast
qed

lemma trit_add_valid [simp]: "is_trit a \<Longrightarrow> is_trit b \<Longrightarrow> is_trit (trit_add a b)" "is_trit a \<Longrightarrow> is_trit b \<Longrightarrow> is_trit (trit_sub a b)"
  by (auto simp: is_trit_cases trit_add_def trit_sub_def MAM_TRIT_NORM_def)

lemma trit_sub_add [simp]: "is_trit a \<Longrightarrow> is_trit b \<Longrightarrow> trit_sub (trit_add a b) b = a"
  by (auto simp: is_trit_cases trit_add_def trit_sub_def MAM_TRIT_NORM_def)

lemma rd_after_write:
  assumes "window m s" "window m y" "0 < trits_size s" "0 < trits_size y" "apart s y"
  shows "rd (wr (wr m s [a]) y [b]) (after s 1) = rd m (after s 1)" "rd (wr (wr m s [a]) y [b]) (after y 1) = rd m (after y 1)"
    "window (wr (wr m s [a]) y [b]) x = window m x"
proof -
  have w: "window (wr m s [a]) y" "window (wr m s [a]) s" using assms by (simp_all add: trits_simps)
  show "rd (wr (wr m s [a]) y [b]) (after s 1) = rd m (after s 1)"
    using assms w rd_wr_prefix [OF assms(1), of "[a]"] by (simp add: rd_wr_apart trits_simps apart_sym)
  show "rd (wr (wr m s [a]) y [b]) (after y 1) = rd m (after y 1)"
    using assms w rd_wr_prefix [OF w(1), of "[b]"] by (simp add: rd_wr_apart trits_simps apart_sym)
  show "window (wr (wr m s [a]) y [b]) x = window m x" using assms w by (simp add: trits_simps)
qed

lemma zip_loop_wr:
  assumes step: "\<And>m x s y. trits_is_empty x = trits_is_empty y \<Longrightarrow> L m x s y =
      (if trits_is_empty x then Some m
       else do {
         tx \<leftarrow> trits_get1 m x;
         ts \<leftarrow> trits_get1 m s;
         m \<leftarrow> trits_put1 m s (g tx ts);
         m \<leftarrow> trits_put1 m y (f tx ts);
         x \<leftarrow> trits_drop x 1;
         s \<leftarrow> trits_drop s 1;
         y \<leftarrow> trits_drop y 1;
         L m x s y })"
    and fg: "\<And>a b. is_trit a \<Longrightarrow> is_trit b \<Longrightarrow> is_trit (f a b)" "\<And>a b. is_trit a \<Longrightarrow> is_trit b \<Longrightarrow> is_trit (g a b)"
    and "window m x" "window m s" "window m y" "trits_size x = n" "trits_size s = n" "trits_size y = n" "apart x s" "apart x y" "apart s y"
    and "valid_trits (rd m x)" "valid_trits (rd m s)"
  shows "L m x s y = Some (wr (wr m s (map2 g (rd m x) (rd m s))) y (map2 f (rd m x) (rd m s)))"
  using assms(4-)
proof (induction n arbitrary: m x s y)
  case 0
  then show ?case using wr_rd [of m s] wr_rd [of m y] by (subst step) (simp_all add: empty_iff rd_empty)
next
  case (Suc n)
  then have pos: "0 < trits_size x" "0 < trits_size s" "0 < trits_size y" by simp_all
  obtain tx xs where x: "rd m x = tx # xs" "is_trit tx" "valid_trits xs" "rd m (after x 1) = xs" "trits_get1 m x = Some tx"
    using rd_Cons [OF Suc.prems(1) pos(1) Suc.prems(10)] by blast
  obtain ts ss where ss: "rd m s = ts # ss" "is_trit ts" "valid_trits ss" "rd m (after s 1) = ss" "trits_get1 m s = Some ts"
    using rd_Cons [OF Suc.prems(2) pos(2) Suc.prems(11)] by blast
  let ?m = "wr (wr m s [g tx ts]) y [f tx ts]"
  note w = rd_after_write [OF Suc.prems(2,3) pos(2,3) Suc.prems(9), of "g tx ts" "f tx ts"]
  have pos1: "1 \<le> trits_size x" "1 \<le> trits_size s" "1 \<le> trits_size y" using pos by simp_all
  note win = window_parts(2) [OF Suc.prems(1) pos1(1)] window_parts(2) [OF Suc.prems(2) pos1(2)] window_parts(2) [OF Suc.prems(3) pos1(3)]
  have wy: "window (wr m s [g tx ts]) y" using Suc.prems(2,3) pos by (simp add: window_wr)
  have rx: "rd ?m (after x 1) = xs"
    using rd_wr_apart [OF wy _ _ apart_parts(2) [OF apart_sym [OF Suc.prems(8)]], of 1 "[f tx ts]"]
      rd_wr_apart [OF Suc.prems(2) win(1) _ apart_parts(2) [OF apart_sym [OF Suc.prems(7)]], of "[g tx ts]"] win(1) Suc.prems(2) pos x(4) by (simp add: window_wr)
  have len: "length xs = n" "length ss = n" using length_rd [OF Suc.prems(1)] length_rd [OF Suc.prems(2)] Suc.prems(4,5) x(1) ss(1) by simp_all
  have "L ?m (after x 1) (after s 1) (after y 1)
      = Some (wr (wr ?m (after s 1) (map2 g (rd ?m (after x 1)) (rd ?m (after s 1)))) (after y 1) (map2 f (rd ?m (after x 1)) (rd ?m (after s 1))))"
    by (rule Suc.IH)
      (simp_all only: w win rx x(3,4) ss(3,4) size_parts Suc.prems(4-6) diff_Suc_1 apart_parts(1) [OF apart_parts(2)] Suc.prems(7-9))
  then have IH: "L ?m (after x 1) (after s 1) (after y 1) = Some (wr (wr m s (map2 g (rd m x) (rd m s))) y (map2 f (rd m x) (rd m s)))"
    using zip_step [OF Suc.prems(2,3) pos(2,3) Suc.prems(9), of "map2 g xs ss" "map2 f xs ss"] len Suc.prems(5,6) x(1,4) ss(1,4) w rx by simp
  note wy
  moreover have "trits_drop x 1 = Some (after x 1)" "trits_drop s 1 = Some (after s 1)" "trits_drop y 1 = Some (after y 1)"
    using trits_drop_after [OF Suc.prems(1)] trits_drop_after [OF Suc.prems(2)] trits_drop_after [OF Suc.prems(3)] pos by simp_all
  moreover have "\<not> trits_is_empty x" "\<not> trits_is_empty y" using Suc.prems pos by (simp_all add: empty_iff)
  ultimately show ?case using IH Suc.prems(2) pos x ss fg by (subst step) (simp_all add: trits_put1_wr)
qed

lemma copy_add_loop_wr:
  assumes "window m x" "window m s" "window m y" "trits_size x = n" "trits_size s = n" "trits_size y = n" "apart x s" "apart x y" "apart s y"
    and "valid_trits (rd m x)" "valid_trits (rd m s)"
  shows "trits_copy_add_loop m x s y = Some (wr (wr m s (rd m x)) y (map2 trit_add (rd m x) (rd m s)))"
proof -
  have "trits_copy_add_loop m x s y = Some (wr (wr m s (map2 (\<lambda>a b. a) (rd m x) (rd m s))) y (map2 trit_add (rd m x) (rd m s)))"
    by (rule zip_loop_wr [where g = "\<lambda>a b. a", OF _ _ _ assms]) (subst trits_copy_add_loop.simps, simp_all)
  moreover have "map2 (\<lambda>a b. a) (rd m x) (rd m s) = rd m x"
    using length_rd [OF assms(1)] length_rd [OF assms(2)] assms(4,5) by (simp add: list_eq_iff_nth_eq)
  ultimately show ?thesis by simp
qed

lemma copy_sub_loop_wr:
  assumes "window m y" "window m s" "window m x" "trits_size y = n" "trits_size s = n" "trits_size x = n" "apart y s" "apart y x" "apart s x"
    and "valid_trits (rd m y)" "valid_trits (rd m s)"
  shows "trits_copy_sub_loop m y s x = Some (wr (wr m s (map2 trit_sub (rd m y) (rd m s))) x (map2 trit_sub (rd m y) (rd m s)))"
proof (rule zip_loop_wr [where g = trit_sub, OF _ _ _ assms], goal_cases)
  case (1 m x s y)
  then show ?case
    by (subst trits_copy_sub_loop.simps; cases "trits_drop y 1"; cases "trits_drop s 1"; cases "trits_drop x 1") (simp_all add: Let_def)
qed simp_all

lemma swap_loop_wr:
  assumes fg: "\<And>a b. is_trit a \<Longrightarrow> is_trit b \<Longrightarrow> is_trit (fst (f a b)) \<and> is_trit (snd (f a b))"
    and "window m x" "window m s" "trits_size x = n" "trits_size s = n" "apart x s" "valid_trits (rd m x)" "valid_trits (rd m s)"
  shows "trits_swap_loop f m x s = Some (wr (wr m x (map2 (\<lambda>a b. fst (f a b)) (rd m x) (rd m s))) s (map2 (\<lambda>a b. snd (f a b)) (rd m x) (rd m s)))"
  using assms(2-)
proof (induction n arbitrary: m x s)
  case 0
  then show ?case using wr_rd [of m s] wr_rd [of m x] by (subst trits_swap_loop.simps) (simp add: empty_iff rd_empty)
next
  case (Suc n)
  then have pos: "0 < trits_size x" "0 < trits_size s" by simp_all
  obtain tx xs where x: "rd m x = tx # xs" "is_trit tx" "valid_trits xs" "rd m (after x 1) = xs" "trits_get1 m x = Some tx"
    using rd_Cons [OF Suc.prems(1) pos(1) Suc.prems(6)] by blast
  obtain ts ss where ss: "rd m s = ts # ss" "is_trit ts" "valid_trits ss" "rd m (after s 1) = ss" "trits_get1 m s = Some ts"
    using rd_Cons [OF Suc.prems(2) pos(2) Suc.prems(7)] by blast
  let ?f = "\<lambda>a b. fst (f a b)" and ?g = "\<lambda>a b. snd (f a b)"
  let ?m = "wr (wr m x [?f tx ts]) s [?g tx ts]"
  note w = rd_after_write [OF Suc.prems(1,2) pos Suc.prems(5), of "?f tx ts" "?g tx ts"]
  have pos1: "1 \<le> trits_size x" "1 \<le> trits_size s" using pos by simp_all
  note win = window_parts(2) [OF Suc.prems(1) pos1(1)] window_parts(2) [OF Suc.prems(2) pos1(2)]
  have len: "length xs = n" "length ss = n" using length_rd [OF Suc.prems(1)] length_rd [OF Suc.prems(2)] Suc.prems(3,4) x(1) ss(1) by simp_all
  have "trits_swap_loop f ?m (after x 1) (after s 1)
      = Some (wr (wr ?m (after x 1) (map2 ?f (rd ?m (after x 1)) (rd ?m (after s 1)))) (after s 1) (map2 ?g (rd ?m (after x 1)) (rd ?m (after s 1))))"
    by (rule Suc.IH)
      (simp_all only: w win x(3,4) ss(3,4) size_parts Suc.prems(3,4) diff_Suc_1 apart_parts(1) [OF apart_parts(2)] Suc.prems(5))
  then have IH: "trits_swap_loop f ?m (after x 1) (after s 1) = Some (wr (wr m x (map2 ?f (rd m x) (rd m s))) s (map2 ?g (rd m x) (rd m s)))"
    using zip_step [OF Suc.prems(1,2) pos Suc.prems(5), of "map2 ?f xs ss" "map2 ?g xs ss"] len Suc.prems(3,4) x(1,4) ss(1,4) w by simp
  have "window (wr m x [?f tx ts]) s" using Suc.prems(1,2) pos by (simp add: window_wr)
  moreover have "trits_drop x 1 = Some (after x 1)" "trits_drop s 1 = Some (after s 1)"
    using trits_drop_after [OF Suc.prems(1)] trits_drop_after [OF Suc.prems(2)] pos by simp_all
  moreover have "\<not> trits_is_empty x" using Suc.prems pos by (simp add: empty_iff)
  ultimately show ?case using IH Suc.prems(1) pos x ss fg [of tx ts] by (subst trits_swap_loop.simps) (simp add: trits_put1_wr split_beta)
qed

lemma wr_upto [simp]: "wr m (upto x k) ts = wr m x ts"
  by (simp add: wr_def upto_def)

lemma min_parts:
  assumes "window m x" "window m s" "apart x s" "valid_trits (rd m x)" "valid_trits (rd m s)" "n = min (trits_size x) (trits_size s)"
  shows "trits_take x n = Some (upto x n)" "trits_take s n = Some (upto s n)" "window m (upto x n)" "window m (upto s n)" "apart (upto x n) (upto s n)"
    "rd m (upto x n) = take n (rd m x)" "rd m (upto s n) = take n (rd m s)" "valid_trits (rd m (upto x n))" "valid_trits (rd m (upto s n))"
proof -
  have n: "n \<le> trits_size x" "n \<le> trits_size s" using assms(6) by simp_all
  show "trits_take x n = Some (upto x n)" "trits_take s n = Some (upto s n)" "window m (upto x n)" "window m (upto s n)"
    "rd m (upto x n) = take n (rd m x)" "rd m (upto s n) = take n (rd m s)"
    using n assms(1,2) by (simp_all add: trits_take_upto window_parts rd_upto)
  then show "valid_trits (rd m (upto x n))" "valid_trits (rd m (upto s n))" using assms(4,5) by (simp_all add: valid_trits_take)
  show "apart (upto x n) (upto s n)" using apart_parts(3,4) assms(1-3) n by (auto simp: window_le apart_def upto_def trits_size_def window_def)
qed

lemma map2_take_fst: "length xs = length ts \<Longrightarrow> map2 (\<lambda>a b. a) xs ts = xs"
  by (induction xs ts rule: list_induct2) simp_all

lemma trit_swap_eq: "trit_swap_add x s = (trit_add x s, x)" "trit_swap_sub x s = (trit_sub x s, trit_sub x s)"
  by (simp_all add: trit_swap_add_def trit_swap_sub_def trit_add_def trit_sub_def Let_def)

lemma swap_add_min_wr:
  assumes "window m x" "window m s" "apart x s" "valid_trits (rd m x)" "valid_trits (rd m s)" "n = min (trits_size x) (trits_size s)"
  shows "trits_swap_add_min m x s = Some (n, wr (wr m x (map2 trit_add (take n (rd m x)) (take n (rd m s)))) s (map2 (\<lambda>a b. a) (take n (rd m x)) (take n (rd m s))))"
proof -
  note p = min_parts [OF assms]
  have "trits_swap_loop trit_swap_add m (upto x n) (upto s n)
      = Some (wr (wr m (upto x n) (map2 (\<lambda>a b. fst (trit_swap_add a b)) (rd m (upto x n)) (rd m (upto s n)))) (upto s n) (map2 (\<lambda>a b. snd (trit_swap_add a b)) (rd m (upto x n)) (rd m (upto s n))))"
    by (rule swap_loop_wr [OF _ p(3,4) _ _ p(5,8,9)]) (simp_all add: trit_swap_eq size_parts)
  then show ?thesis using p assms(6) by (simp add: trits_swap_add_min_def trits_swap_add_def size_parts trit_swap_eq Let_def)
qed

lemma swap_sub_min_wr:
  assumes "window m x" "window m s" "apart x s" "valid_trits (rd m x)" "valid_trits (rd m s)" "n = min (trits_size x) (trits_size s)"
  shows "trits_swap_sub_min m x s = Some (n, wr (wr m x (map2 trit_sub (take n (rd m x)) (take n (rd m s)))) s (map2 trit_sub (take n (rd m x)) (take n (rd m s))))"
proof -
  note p = min_parts [OF assms]
  have "trits_swap_loop trit_swap_sub m (upto x n) (upto s n)
      = Some (wr (wr m (upto x n) (map2 (\<lambda>a b. fst (trit_swap_sub a b)) (rd m (upto x n)) (rd m (upto s n)))) (upto s n) (map2 (\<lambda>a b. snd (trit_swap_sub a b)) (rd m (upto x n)) (rd m (upto s n))))"
    by (rule swap_loop_wr [OF _ p(3,4) _ _ p(5,8,9)]) (simp_all add: trit_swap_eq size_parts)
  then show ?thesis using p assms(6) by (simp add: trits_swap_sub_min_def trits_swap_sub_def size_parts trit_swap_eq Let_def)
qed

lemma min_part3:
  assumes "window m x" "window m s" "window m y" "trits_size x = trits_size y" "apart x y" "apart s y" "n = min (trits_size x) (trits_size s)"
  shows "trits_take y n = Some (upto y n)" "window m (upto y n)" "apart (upto x n) (upto y n)" "apart (upto s n) (upto y n)"
proof -
  have n: "n \<le> trits_size x" "n \<le> trits_size s" "n \<le> trits_size y" using assms(4,7) by simp_all
  then show "trits_take y n = Some (upto y n)" "window m (upto y n)" using assms(3) by (simp_all add: trits_take_upto window_parts)
  show "apart (upto x n) (upto y n)" "apart (upto s n) (upto y n)" using assms(1-3,5,6) n by (auto simp: apart_def upto_def trits_size_def window_def)
qed

lemma copy_add_min_wr:
  assumes "window m x" "window m s" "window m y" "trits_size x = trits_size y" "apart x s" "apart x y" "apart s y" "valid_trits (rd m x)" "valid_trits (rd m s)"
    "n = min (trits_size x) (trits_size s)"
  shows "trits_copy_add_min m x s y = Some (n, wr (wr m s (map2 (\<lambda>a b. a) (take n (rd m x)) (take n (rd m s)))) y (map2 trit_add (take n (rd m x)) (take n (rd m s))))"
proof -
  note p = min_parts [OF assms(1,2,5,8-10)] and q = min_part3 [OF assms(1-4,6,7,10)]
  have "map2 (\<lambda>a b. a) (take n (rd m x)) (take n (rd m s)) = take n (rd m x)"
    using assms(10) length_rd [OF assms(1)] length_rd [OF assms(2)] by (intro map2_take_fst) simp
  then show ?thesis using copy_add_loop_wr [OF p(3,4) q(2) _ _ _ p(5) q(3,4) p(8,9)] p(1,2,6,7) q(1) assms(4,10)
    by (simp add: trits_copy_add_min_def trits_copy_add_def size_parts Let_def)
qed

lemma copy_sub_min_wr:
  assumes "window m x" "window m s" "window m y" "trits_size x = trits_size y" "apart x s" "apart x y" "apart s y" "valid_trits (rd m x)" "valid_trits (rd m s)"
    "n = min (trits_size x) (trits_size s)"
  shows "trits_copy_sub_min m x s y = Some (n, wr (wr m s (map2 trit_sub (take n (rd m x)) (take n (rd m s)))) y (map2 trit_sub (take n (rd m x)) (take n (rd m s))))"
proof -
  note p = min_parts [OF assms(1,2,5,8-10)] and q = min_part3 [OF assms(1-4,6,7,10)]
  show ?thesis using copy_sub_loop_wr [OF p(3,4) q(2) _ _ _ p(5) q(3,4) p(8,9)] p(1,2,6,7) q(1) assms(4,10)
    by (simp add: trits_copy_sub_min_def trits_copy_sub_def size_parts Let_def)
qed

lemma cmp_loop_rd:
  assumes "window m x" "window m y" "trits_size x = n" "trits_size y = n" "valid_trits (rd m x)" "valid_trits (rd m y)"
  shows "\<exists>d. trits_cmp_loop m x y = Some d \<and> (d = 0 \<longleftrightarrow> rd m x = rd m y)"
  using assms
proof (induction n arbitrary: x y)
  case 0
  then show ?case by (subst trits_cmp_loop.simps) (simp add: empty_iff rd_empty)
next
  case (Suc n)
  then have pos: "0 < trits_size x" "0 < trits_size y" by simp_all
  obtain tx xs where x: "rd m x = tx # xs" "is_trit tx" "valid_trits xs" "rd m (after x 1) = xs" "trits_get1 m x = Some tx"
    using rd_Cons [OF Suc.prems(1) pos(1) Suc.prems(5)] by blast
  obtain ty ys where y: "rd m y = ty # ys" "is_trit ty" "valid_trits ys" "rd m (after y 1) = ys" "trits_get1 m y = Some ty"
    using rd_Cons [OF Suc.prems(2) pos(2) Suc.prems(6)] by blast
  have "\<exists>d. trits_cmp_loop m (after x 1) (after y 1) = Some d \<and> (d = 0 \<longleftrightarrow> rd m (after x 1) = rd m (after y 1))"
    by (rule Suc.IH) (use Suc.prems pos x y in \<open>simp_all add: window_parts size_parts\<close>)
  moreover have "trits_drop x 1 = Some (after x 1)" "trits_drop y 1 = Some (after y 1)" using trits_drop_after [OF Suc.prems(1)] trits_drop_after [OF Suc.prems(2)] pos by simp_all
  moreover have "\<not> trits_is_empty x" using Suc.prems pos by (simp add: empty_iff)
  ultimately show ?case using x y by (subst trits_cmp_loop.simps) auto
qed

lemma trits_cmp_eq_rd:
  assumes "window m x" "window m y" "trits_size x = trits_size y" "valid_trits (rd m x)" "valid_trits (rd m y)"
  shows "trits_cmp_eq m x y = Some (rd m x = rd m y)"
  using cmp_loop_rd [OF assms(1,2,3) refl assms(4,5)] assms(3) by (auto simp: trits_cmp_eq_def trits_cmp_grlex_def)

end
