(* ===== verification/Mam_Sponge.thy ===== *)
theory Mam_Sponge
  imports Prelude Errors Mam_Trits
begin

text \<open>
  \<open>mam/sponge/sponge.c\<close>: the sponge of MAM. The state is a block of the store with 729 trits. The permutation of the state is an argument \<open>F\<close>,
  \<open>mam_ftroika_transform\<close> in the code.
\<close>

section \<open>Definitions\<close>

abbreviation MAM_SPONGE_RATE :: nat where "MAM_SPONGE_RATE \<equiv> 486"
abbreviation MAM_SPONGE_CONTROL :: nat where "MAM_SPONGE_CONTROL \<equiv> 6"
abbreviation MAM_SPONGE_WIDTH :: nat where "MAM_SPONGE_WIDTH \<equiv> 729"

definition MAM_SPONGE_CTL_DATA :: trit where "MAM_SPONGE_CTL_DATA = 0"
definition MAM_SPONGE_CTL_HASH :: trit where "MAM_SPONGE_CTL_HASH = 0"
definition MAM_SPONGE_CTL_KEY :: trit where "MAM_SPONGE_CTL_KEY = 1"
definition MAM_SPONGE_CTL_PRN :: trit where "MAM_SPONGE_CTL_PRN = 1"

type_synonym mam_sponge_t = nat

definition sponge_state_trits :: "mam_sponge_t \<Rightarrow> trits_t" where
  "sponge_state_trits sponge = trits_from_rep MAM_SPONGE_WIDTH sponge"

definition sponge_control_trits :: "mam_sponge_t \<Rightarrow> trits_t option" where
  "sponge_control_trits sponge = do { x \<leftarrow> trits_drop (sponge_state_trits sponge) MAM_SPONGE_RATE; trits_take x MAM_SPONGE_CONTROL }"

text \<open>The results of the two calls of \<open>trits_drop\<close> are not used.\<close>

definition put_three :: "mem \<Rightarrow> trits_t \<Rightarrow> trit \<Rightarrow> trit \<Rightarrow> trit \<Rightarrow> mem option" where
  "put_three m t a b c = do {
     m \<leftarrow> trits_put1 m t a;
     _ \<leftarrow> trits_drop t 1;
     m \<leftarrow> trits_put1 m t b;
     _ \<leftarrow> trits_drop t 1;
     trits_put1 m t c }"

definition sponge_set_control012 :: "mem \<Rightarrow> mam_sponge_t \<Rightarrow> trit \<Rightarrow> trit \<Rightarrow> trit \<Rightarrow> mem option" where
  "sponge_set_control012 m sponge c0 c1 c2 = do { x \<leftarrow> sponge_control_trits sponge; t \<leftarrow> trits_take x 3; put_three m t c0 c1 c2 }"

definition sponge_set_control345 :: "mem \<Rightarrow> mam_sponge_t \<Rightarrow> trit \<Rightarrow> trit \<Rightarrow> trit \<Rightarrow> mem option" where
  "sponge_set_control345 m sponge c3 c4 c5 = do { x \<leftarrow> sponge_control_trits sponge; t \<leftarrow> trits_drop x 3; put_three m t c3 c4 c5 }"

definition sponge_get_control1 :: "mem \<Rightarrow> mam_sponge_t \<Rightarrow> trit option" where
  "sponge_get_control1 m sponge = do { x \<leftarrow> sponge_control_trits sponge; t \<leftarrow> trits_drop x 1; trits_get1 m t }"

definition mam_sponge_outer_trits :: "mam_sponge_t \<Rightarrow> trits_t option" where
  "mam_sponge_outer_trits sponge = trits_take (sponge_state_trits sponge) MAM_SPONGE_RATE"

definition mam_sponge_init :: "mem \<Rightarrow> mam_sponge_t \<Rightarrow> mem option" where
  "mam_sponge_init m sponge = trits_set_zero m (sponge_state_trits sponge)"

definition mam_sponge_transform :: "(trit list \<Rightarrow> trit list) \<Rightarrow> mem \<Rightarrow> mam_sponge_t \<Rightarrow> mem" where
  "mam_sponge_transform F m sponge = m(sponge := F (m sponge))"

definition mam_sponge_fork :: "mem \<Rightarrow> mam_sponge_t \<Rightarrow> mam_sponge_t \<Rightarrow> mem option" where
  "mam_sponge_fork m sponge fork = trits_copy m (sponge_state_trits sponge) (sponge_state_trits fork)"

subsection \<open>Blocks\<close>

text \<open>The part of a window that goes into the rate, its size, and the rest.\<close>

definition next_block :: "trits_t \<Rightarrow> (trits_t \<times> nat \<times> trits_t) option" where
  "next_block x = do {
     let part = trits_take_min x MAM_SPONGE_RATE;
     let ni = trits_size part;
     x \<leftarrow> trits_drop x ni;
     Some (part, ni, x) }"

lemma next_block_decreases: "next_block x = Some (part, ni, x') \<Longrightarrow> \<not> trits_is_empty x' \<Longrightarrow> trits_size x' < trits_size x"
  by (auto simp: next_block_def trits_take_min_def trits_drop_def trits_size_def trits_is_empty_def MAM_ASSERT_def min_def Let_def split: if_splits Option.bind_splits)

text \<open>Before a block goes in, the control trits are set and the state is transformed, but only if a block was absorbed before.\<close>

definition enter_block :: "(trit list \<Rightarrow> trit list) \<Rightarrow> mem \<Rightarrow> mam_sponge_t \<Rightarrow> trit \<Rightarrow> trit \<Rightarrow> trit \<Rightarrow> mem option" where
  "enter_block F m sponge c0 c1 c2 = do {
     c \<leftarrow> sponge_get_control1 m sponge;
     if c \<noteq> 0 then do { m \<leftarrow> sponge_set_control345 m sponge c0 c1 c2; Some (mam_sponge_transform F m sponge) } else Some m }"

function mam_sponge_absorb_loop :: "(trit list \<Rightarrow> trit list) \<Rightarrow> mem \<Rightarrow> mam_sponge_t \<Rightarrow> trit \<Rightarrow> trits_t \<Rightarrow> trits_t \<Rightarrow> mem option" where
  "mam_sponge_absorb_loop F m sponge c2 s1 data_t =
     (case next_block data_t of
        None \<Rightarrow> None
      | Some (part, ni, data_t) \<Rightarrow>
          (case (do {
             let c0 = (if ni < MAM_SPONGE_RATE then 0 else 1);
             let c1 = (if trits_is_empty data_t then - 1 else 1);
             m \<leftarrow> enter_block F m sponge c0 c1 c2;
             dst \<leftarrow> trits_take s1 ni;
             m \<leftarrow> trits_copy m part dst;
             pad \<leftarrow> trits_drop s1 ni;
             m \<leftarrow> trits_padc m 1 pad;
             sponge_set_control012 m sponge c0 c1 c2 }) of
             None \<Rightarrow> None
           | Some m \<Rightarrow> if trits_is_empty data_t then Some m else mam_sponge_absorb_loop F m sponge c2 s1 data_t))"
  by pat_completeness auto
termination by (relation "measure (\<lambda>(F, m, sponge, c2, s1, data_t). trits_size data_t)") (auto dest: next_block_decreases)

declare mam_sponge_absorb_loop.simps [simp del]

definition mam_sponge_absorb :: "(trit list \<Rightarrow> trit list) \<Rightarrow> mem \<Rightarrow> mam_sponge_t \<Rightarrow> trit \<Rightarrow> trits_t \<Rightarrow> mem option" where
  "mam_sponge_absorb F m sponge c2 data_t = do {
     MAM_ASSERT (c2 = MAM_SPONGE_CTL_DATA \<or> c2 = MAM_SPONGE_CTL_KEY);
     s1 \<leftarrow> mam_sponge_outer_trits sponge;
     mam_sponge_absorb_loop F m sponge c2 s1 data_t }"

text \<open>\<open>n\<close> is the number of trits that are left in the list of windows.\<close>

function mam_sponge_absorbn_loop :: "(trit list \<Rightarrow> trit list) \<Rightarrow> mem \<Rightarrow> mam_sponge_t \<Rightarrow> trit \<Rightarrow> trits_t \<Rightarrow> buffers_t \<Rightarrow> nat \<Rightarrow> mem option" where
  "mam_sponge_absorbn_loop F m sponge c2 outer buffers n =
     (let ni = (if n < MAM_SPONGE_RATE then n else MAM_SPONGE_RATE);
          n = n - ni;
          c0 = (if ni < MAM_SPONGE_RATE then 0 else 1);
          c1 = (if n = 0 then - 1 else 1)
      in case (do {
             m \<leftarrow> enter_block F m sponge c0 c1 c2;
             dst \<leftarrow> trits_take outer ni;
             (_, m, buffers) \<leftarrow> buffers_copy_to m buffers dst 0;
             pad \<leftarrow> trits_drop outer ni;
             m \<leftarrow> trits_padc m 1 pad;
             m \<leftarrow> sponge_set_control012 m sponge c0 c1 c2;
             Some (m, buffers) }) of
           None \<Rightarrow> None
         | Some (m, buffers) \<Rightarrow> if 0 < n then mam_sponge_absorbn_loop F m sponge c2 outer buffers n else Some m)"
  by pat_completeness auto
termination by (relation "measure (\<lambda>(F, m, sponge, c2, outer, buffers, n). n)") (auto split: if_splits)

declare mam_sponge_absorbn_loop.simps [simp del]

definition mam_sponge_absorbn :: "(trit list \<Rightarrow> trit list) \<Rightarrow> mem \<Rightarrow> mam_sponge_t \<Rightarrow> trit \<Rightarrow> trits_t list \<Rightarrow> mem option" where
  "mam_sponge_absorbn F m sponge c2 data_blocks = do {
     MAM_ASSERT (c2 = MAM_SPONGE_CTL_DATA \<or> c2 = MAM_SPONGE_CTL_KEY);
     let buffers = buffers_init data_blocks;
     outer \<leftarrow> mam_sponge_outer_trits sponge;
     mam_sponge_absorbn_loop F m sponge c2 outer buffers (buffers_size buffers) }"

function mam_sponge_squeeze_loop :: "(trit list \<Rightarrow> trit list) \<Rightarrow> mem \<Rightarrow> mam_sponge_t \<Rightarrow> trit \<Rightarrow> trits_t \<Rightarrow> trits_t \<Rightarrow> mem option" where
  "mam_sponge_squeeze_loop F m sponge c2 outer squeezed =
     (case next_block squeezed of
        None \<Rightarrow> None
      | Some (part, ni, squeezed) \<Rightarrow>
          (case (do {
             let c1 = (if trits_is_empty squeezed then - 1 else 1);
             m \<leftarrow> sponge_set_control345 m sponge (- 1) c1 c2;
             let m = mam_sponge_transform F m sponge;
             src \<leftarrow> trits_take outer ni;
             m \<leftarrow> trits_copy m src part;
             m \<leftarrow> trits_set_zero m src;
             pad \<leftarrow> trits_drop outer ni;
             m \<leftarrow> trits_padc m 1 pad;
             sponge_set_control012 m sponge (- 1) c1 c2 }) of
             None \<Rightarrow> None
           | Some m \<Rightarrow> if trits_is_empty squeezed then Some m else mam_sponge_squeeze_loop F m sponge c2 outer squeezed))"
  by pat_completeness auto
termination by (relation "measure (\<lambda>(F, m, sponge, c2, outer, squeezed). trits_size squeezed)") (auto dest: next_block_decreases)

declare mam_sponge_squeeze_loop.simps [simp del]

definition mam_sponge_squeeze :: "(trit list \<Rightarrow> trit list) \<Rightarrow> mem \<Rightarrow> mam_sponge_t \<Rightarrow> trit \<Rightarrow> trits_t \<Rightarrow> mem option" where
  "mam_sponge_squeeze F m sponge c2 squeezed = do { outer \<leftarrow> mam_sponge_outer_trits sponge; mam_sponge_squeeze_loop F m sponge c2 outer squeezed }"

text \<open>
  Encryption and decryption differ in the operation on the two parts and the state. The sizes of both windows are equal, so it does not matter which of them
  the size of a part is taken from.
\<close>

function mam_sponge_crypt_loop ::
  "(mem \<Rightarrow> trits_t \<Rightarrow> trits_t \<Rightarrow> mem option) \<Rightarrow> (mem \<Rightarrow> trits_t \<Rightarrow> trits_t \<Rightarrow> trits_t \<Rightarrow> mem option) \<Rightarrow> (trit list \<Rightarrow> trit list) \<Rightarrow> mem \<Rightarrow> mam_sponge_t
     \<Rightarrow> trits_t \<Rightarrow> trits_t \<Rightarrow> trits_t \<Rightarrow> mem option"
where
  "mam_sponge_crypt_loop swap copy F m sponge outer src_t dst_t =
     (case next_block src_t of
        None \<Rightarrow> None
      | Some (part, ni, src_t) \<Rightarrow>
          (case (do {
             let dpart = trits_take_min dst_t MAM_SPONGE_RATE;
             dst_t \<leftarrow> trits_drop dst_t ni;
             let c0 = (if ni < MAM_SPONGE_RATE then 0 else 1);
             let c1 = (if trits_is_empty src_t then - 1 else 1);
             m \<leftarrow> sponge_set_control345 m sponge c0 c1 (- 1);
             let m = mam_sponge_transform F m sponge;
             o_t \<leftarrow> trits_take outer ni;
             m \<leftarrow> (if trits_is_same part dpart then swap m part o_t else copy m part o_t dpart);
             pad \<leftarrow> trits_drop outer ni;
             m \<leftarrow> trits_padc m 1 pad;
             m \<leftarrow> sponge_set_control012 m sponge c0 c1 (- 1);
             Some (m, dst_t) }) of
             None \<Rightarrow> None
           | Some (m, dst_t) \<Rightarrow> if trits_is_empty src_t then Some m else mam_sponge_crypt_loop swap copy F m sponge outer src_t dst_t))"
  by pat_completeness auto
termination by (relation "measure (\<lambda>(swap, copy, F, m, sponge, outer, src_t, dst_t). trits_size src_t)") (auto dest: next_block_decreases)

declare mam_sponge_crypt_loop.simps [simp del]

definition mam_sponge_encr :: "(trit list \<Rightarrow> trit list) \<Rightarrow> mem \<Rightarrow> mam_sponge_t \<Rightarrow> trits_t \<Rightarrow> trits_t \<Rightarrow> mem option" where
  "mam_sponge_encr F m sponge plaintext ciphertext = do {
     MAM_ASSERT (trits_size plaintext = trits_size ciphertext);
     MAM_ASSERT (trits_is_same plaintext ciphertext \<or> \<not> trits_is_overlapped plaintext ciphertext);
     outer \<leftarrow> mam_sponge_outer_trits sponge;
     mam_sponge_crypt_loop trits_swap_add trits_copy_add F m sponge outer plaintext ciphertext }"

definition mam_sponge_decr :: "(trit list \<Rightarrow> trit list) \<Rightarrow> mem \<Rightarrow> mam_sponge_t \<Rightarrow> trits_t \<Rightarrow> trits_t \<Rightarrow> mem option" where
  "mam_sponge_decr F m sponge ciphertext plaintext = do {
     MAM_ASSERT (trits_size plaintext = trits_size ciphertext);
     MAM_ASSERT (trits_is_same plaintext ciphertext \<or> \<not> trits_is_overlapped plaintext ciphertext);
     outer \<leftarrow> mam_sponge_outer_trits sponge;
     mam_sponge_crypt_loop trits_swap_sub trits_copy_sub F m sponge outer ciphertext plaintext }"

definition mam_sponge_hash :: "(trit list \<Rightarrow> trit list) \<Rightarrow> mem \<Rightarrow> mam_sponge_t \<Rightarrow> trits_t \<Rightarrow> trits_t \<Rightarrow> mem option" where
  "mam_sponge_hash F m sponge plaintext digest = do {
     m \<leftarrow> mam_sponge_init m sponge;
     m \<leftarrow> mam_sponge_absorb F m sponge MAM_SPONGE_CTL_DATA plaintext;
     mam_sponge_squeeze F m sponge MAM_SPONGE_CTL_HASH digest }"

definition mam_sponge_hashn :: "(trit list \<Rightarrow> trit list) \<Rightarrow> mem \<Rightarrow> mam_sponge_t \<Rightarrow> trits_t list \<Rightarrow> trits_t \<Rightarrow> mem option" where
  "mam_sponge_hashn F m sponge plaintext_blocks digest = do {
     m \<leftarrow> mam_sponge_init m sponge;
     m \<leftarrow> mam_sponge_absorbn F m sponge MAM_SPONGE_CTL_DATA plaintext_blocks;
     mam_sponge_squeeze F m sponge MAM_SPONGE_CTL_HASH digest }"

section \<open>The state as a window\<close>

lemma state_window:
  assumes "length (m sponge) = MAM_SPONGE_WIDTH"
  shows "window m (sponge_state_trits sponge)" "rd m (sponge_state_trits sponge) = m sponge"
  using assms by (simp_all add: sponge_state_trits_def trits_from_rep_def window_def rd_def trits_size_def)

definition outer_window :: "mam_sponge_t \<Rightarrow> trits_t" where
  "outer_window sponge = \<lparr>trits_n = MAM_SPONGE_RATE, trits_d = 0, trits_p = sponge\<rparr>"

definition control_window :: "mam_sponge_t \<Rightarrow> nat \<Rightarrow> nat \<Rightarrow> trits_t" where
  "control_window sponge off n = \<lparr>trits_n = MAM_SPONGE_RATE + n, trits_d = MAM_SPONGE_RATE + off, trits_p = sponge\<rparr>"

lemma outer_trits_window: "mam_sponge_outer_trits sponge = Some (outer_window sponge)"
  by (simp add: mam_sponge_outer_trits_def sponge_state_trits_def trits_from_rep_def trits_take_def outer_window_def)

lemma control_trits_window: "sponge_control_trits sponge = Some (control_window sponge 0 6)"
  by (simp add: sponge_control_trits_def sponge_state_trits_def trits_from_rep_def trits_take_def trits_drop_def control_window_def)

lemma wr_overwrite: "window m x \<Longrightarrow> 0 < trits_size x \<Longrightarrow> wr (wr m x [a]) x [b] = wr m x [b]"
  by (auto simp: wr_def window_def trits_size_def blit_def)

lemma put_three_last:
  assumes "window m x" "0 < trits_size x" "is_trit a" "is_trit b" "is_trit c"
  shows "put_three m x a b c = Some (wr m x [c])"
proof -
  have "window (wr m x [a]) x" "window (wr m x [b]) x" using assms(1,2) by (simp_all add: window_wr)
  moreover have "trits_drop x 1 = Some (after x 1)" using trits_drop_after [OF assms(1)] assms(2) by simp
  ultimately show ?thesis using assms by (simp add: put_three_def trits_put1_wr wr_overwrite)
qed

lemma update_wr: "p < length (m sponge) \<Longrightarrow> trits_d x = p \<Longrightarrow> trits_p x = sponge \<Longrightarrow> wr m x [c] = m(sponge := (m sponge)[p := c])"
  by (simp add: wr_def blit_def upd_conv_take_nth_drop)

text \<open>Each of the two functions writes all of its three trits to the same place.\<close>

lemma set_control012_writes:
  assumes "length (m sponge) = MAM_SPONGE_WIDTH" "is_trit c0" "is_trit c1" "is_trit c2"
  shows "sponge_set_control012 m sponge c0 c1 c2 = Some (m(sponge := (m sponge)[486 := c2]))"
proof -
  have t: "trits_take (control_window sponge 0 6) 3 = Some (control_window sponge 0 3)" by (simp add: trits_take_def control_window_def)
  have "put_three m (control_window sponge 0 3) c0 c1 c2 = Some (wr m (control_window sponge 0 3) [c2])"
    by (rule put_three_last [OF _ _ assms(2-)]) (simp_all add: assms(1) window_def trits_size_def control_window_def)
  then show ?thesis using update_wr [of 486 m sponge "control_window sponge 0 3" c2] assms(1)
    by (simp add: sponge_set_control012_def control_trits_window t) (simp add: control_window_def)
qed

lemma set_control345_writes:
  assumes "length (m sponge) = MAM_SPONGE_WIDTH" "is_trit c3" "is_trit c4" "is_trit c5"
  shows "sponge_set_control345 m sponge c3 c4 c5 = Some (m(sponge := (m sponge)[489 := c5]))"
proof -
  have t: "trits_drop (control_window sponge 0 6) 3 = Some (control_window sponge 3 6)" by (simp add: trits_drop_def control_window_def)
  have "put_three m (control_window sponge 3 6) c3 c4 c5 = Some (wr m (control_window sponge 3 6) [c5])"
    by (rule put_three_last [OF _ _ assms(2-)]) (simp_all add: assms(1) window_def trits_size_def control_window_def)
  then show ?thesis using update_wr [of 489 m sponge "control_window sponge 3 6" c5] assms(1)
    by (simp add: sponge_set_control345_def control_trits_window t) (simp add: control_window_def)
qed

lemma get_control1_reads:
  assumes "length (m sponge) = MAM_SPONGE_WIDTH" "is_trit (m sponge ! 487)"
  shows "sponge_get_control1 m sponge = Some (m sponge ! 487)"
proof -
  let ?x = "control_window sponge 1 6"
  have t: "trits_drop (control_window sponge 0 6) 1 = Some ?x" by (simp add: trits_drop_def control_window_def)
  have w: "window m ?x" "0 < trits_size ?x" by (simp_all add: assms(1) window_def trits_size_def control_window_def)
  have "rd m ?x \<noteq> []" using length_rd [OF w(1)] w(2) by auto
  then have "hd (rd m ?x) = m sponge ! 487"
    using nth_slice [of 0 "trits_size ?x" 487 "m sponge"] assms(1) by (simp add: hd_conv_nth) (simp add: rd_def trits_size_def control_window_def)
  with trits_get1_hd [OF w] assms(2) show ?thesis by (simp add: sponge_get_control1_def control_trits_window t [unfolded One_nat_def])
qed

section \<open>Absorbing\<close>

definition pad_list :: "trit \<Rightarrow> nat \<Rightarrow> trit list" where
  "pad_list c n = (if n = 0 then [] else c # replicate (n - 1) 0)"

lemma length_pad_list [simp]: "length (pad_list c n) = n"
  by (simp add: pad_list_def)

lemma padc_wr:
  assumes "window m y" "is_trit c"
  shows "trits_padc m c y = Some (wr m y (pad_list c (trits_size y)))"
proof (cases "trits_size y = 0")
  case True
  then show ?thesis using wr_rd [OF assms(1)] by (simp add: trits_padc_def empty_iff [OF assms(1)] pad_list_def rd_empty)
next
  case False
  then have w: "window (wr m y [c]) (after y 1)" using assms(1) by (simp add: window_wr window_parts)
  have d: "trits_drop y 1 = Some (after y 1)" using trits_drop_after [OF assms(1)] False by simp
  have p: "trits_put1 m y c = Some (wr m y [c])" using trits_put1_wr [OF assms(1)] False assms(2) by simp
  have "trits_set_zero (wr m y [c]) (after y 1) = Some (wr (wr m y [c]) (after y 1) (replicate (trits_size y - 1) 0))"
    using trits_set_zero_wr [OF w] by (simp only: size_parts)
  also have "wr (wr m y [c]) (after y 1) (replicate (trits_size y - 1) 0) = wr m y (pad_list c (trits_size y))"
    using wr_append [OF assms(1), of "[c]" "replicate (trits_size y - 1) 0"] False by (simp add: pad_list_def)
  finally show ?thesis unfolding trits_padc_def trits_padc0_def empty_iff [OF assms(1)] p d using False by simp
qed

text \<open>The state after a block, and the last block of a list.\<close>

definition put_block :: "trit \<Rightarrow> trit list \<Rightarrow> trit list \<Rightarrow> trit list" where
  "put_block c2 xs st = (xs @ pad_list 1 (MAM_SPONGE_RATE - length xs) @ drop MAM_SPONGE_RATE st)[486 := c2]"

function last_block :: "trit list \<Rightarrow> trit list" where
  "last_block xs = (if length xs \<le> MAM_SPONGE_RATE then xs else last_block (drop MAM_SPONGE_RATE xs))"
  by pat_completeness auto
termination by (relation "measure length") auto

declare last_block.simps [simp del]

lemma length_last_block: "length (last_block xs) \<le> MAM_SPONGE_RATE"
  by (induction xs rule: last_block.induct) (subst last_block.simps, simp)

lemma put_block_props:
  assumes "length xs \<le> MAM_SPONGE_RATE" "length st = MAM_SPONGE_WIDTH"
  shows "length (put_block c xs st) = MAM_SPONGE_WIDTH" "put_block c xs st ! 487 = st ! 487" "drop MAM_SPONGE_RATE (put_block c xs st) = (drop MAM_SPONGE_RATE st)[0 := c]"
proof -
  have l: "length (xs @ pad_list 1 (MAM_SPONGE_RATE - length xs)) = MAM_SPONGE_RATE" using assms(1) by simp
  have p: "put_block c xs st = (xs @ pad_list 1 (MAM_SPONGE_RATE - length xs)) @ (drop MAM_SPONGE_RATE st)[0 := c]"
    unfolding put_block_def append_assoc [symmetric] list_update_append l by simp
  show "length (put_block c xs st) = MAM_SPONGE_WIDTH" using assms by (simp add: put_block_def)
  show "put_block c xs st ! 487 = st ! 487" unfolding p nth_append l using assms(2) by simp
  show "drop MAM_SPONGE_RATE (put_block c xs st) = (drop MAM_SPONGE_RATE st)[0 := c]" unfolding p using l by (simp only: drop_append) simp
qed

lemma put_block_twice: "length xs \<le> MAM_SPONGE_RATE \<Longrightarrow> length ys \<le> MAM_SPONGE_RATE \<Longrightarrow> length st = MAM_SPONGE_WIDTH \<Longrightarrow> put_block c ys (put_block c xs st) = put_block c ys st"
  unfolding put_block_def [of c ys] by (simp add: put_block_props list_update_append)

lemma wr_outer:
  assumes "length (m sponge) = MAM_SPONGE_WIDTH" "length xs \<le> MAM_SPONGE_RATE" "ni = length xs"
  shows "wr (wr m (upto (outer_window sponge) ni) xs) (after (outer_window sponge) ni) (pad_list 1 (MAM_SPONGE_RATE - ni))
    = m(sponge := xs @ pad_list 1 (MAM_SPONGE_RATE - ni) @ drop MAM_SPONGE_RATE (m sponge))"
  using assms by (simp add: wr_def upto_def after_def outer_window_def blit_def)

lemma next_block_window:
  assumes "window m x"
  shows "next_block x = Some (upto x (min (trits_size x) MAM_SPONGE_RATE), min (trits_size x) MAM_SPONGE_RATE, after x (min (trits_size x) MAM_SPONGE_RATE))"
proof -
  have "trits_take_min x MAM_SPONGE_RATE = upto x (min (trits_size x) MAM_SPONGE_RATE)"
    using assms by (auto simp: trits_take_min_def upto_def window_def trits_size_def min_def)
  then show ?thesis using trits_drop_after [OF assms] by (simp add: next_block_def size_parts Let_def)
qed

lemma outer_window_window: "length (m sponge) = MAM_SPONGE_WIDTH \<Longrightarrow> window m (outer_window sponge)" "trits_size (outer_window sponge) = MAM_SPONGE_RATE"
  by (simp_all add: window_def outer_window_def trits_size_def)

text \<open>The trit that is tested is never written: as long as it is zero the state is not transformed.\<close>

lemma absorb_block_overwrites:
  assumes "length (m sponge) = MAM_SPONGE_WIDTH" "m sponge ! 487 = 0" "is_trit cc" "is_trit ca" "is_trit cb" "window m part" "trits_p part \<noteq> sponge"
    "trits_size part = ni" "ni \<le> MAM_SPONGE_RATE"
  shows "(do {
       m \<leftarrow> enter_block F m sponge ca cb cc;
       dst \<leftarrow> trits_take (outer_window sponge) ni;
       m \<leftarrow> trits_copy m part dst;
       pad \<leftarrow> trits_drop (outer_window sponge) ni;
       m \<leftarrow> trits_padc m 1 pad;
       sponge_set_control012 m sponge ca cb cc }) = Some (m(sponge := put_block cc (rd m part) (m sponge)))"
proof -
  have ow: "window m (outer_window sponge)" "trits_size (outer_window sponge) = MAM_SPONGE_RATE" using outer_window_window assms(1) by blast+
  let ?u = "upto (outer_window sponge) ni" and ?a = "after (outer_window sponge) ni"
  have e: "enter_block F m sponge ca cb cc = Some m" using get_control1_reads [where m = m and sponge = sponge] assms(1,2) by (simp add: enter_block_def)
  have u: "trits_take (outer_window sponge) ni = Some ?u" "trits_drop (outer_window sponge) ni = Some ?a" "window m ?u" "trits_size ?u = ni"
    using ow assms(9) by (simp_all add: trits_take_upto trits_drop_after window_parts size_parts)
  have "apart part ?u" using assms(7) by (simp add: apart_def upto_def outer_window_def)
  then have c: "trits_copy m part ?u = Some (wr m ?u (rd m part))" using u assms(6,8) by (simp add: trits_copy_wr)
  have len: "length (rd m part) = ni" using length_rd [OF assms(6)] assms(8) by simp
  have wa: "window (wr m ?u (rd m part)) ?a" using u(3,4) len ow assms(9) by (simp add: window_wr window_parts)
  have "trits_padc (wr m ?u (rd m part)) 1 ?a = Some (wr (wr m ?u (rd m part)) ?a (pad_list 1 (MAM_SPONGE_RATE - ni)))"
    using padc_wr [OF wa, of 1] ow(2) by (simp only: size_parts) simp
  also have "wr (wr m ?u (rd m part)) ?a (pad_list 1 (MAM_SPONGE_RATE - ni)) = m(sponge := rd m part @ pad_list 1 (MAM_SPONGE_RATE - ni) @ drop MAM_SPONGE_RATE (m sponge))"
    by (rule wr_outer [where m = m and sponge = sponge]) (simp_all only: assms(1,9) len)
  finally have p: "trits_padc (wr m ?u (rd m part)) 1 ?a = Some (m(sponge := rd m part @ pad_list 1 (MAM_SPONGE_RATE - ni) @ drop MAM_SPONGE_RATE (m sponge)))" .
  have "sponge_set_control012 (m(sponge := rd m part @ pad_list 1 (MAM_SPONGE_RATE - ni) @ drop MAM_SPONGE_RATE (m sponge))) sponge ca cb cc
      = Some (m(sponge := put_block cc (rd m part) (m sponge)))"
    using len assms(1,3-5,9) by (subst set_control012_writes) (simp_all add: put_block_def)
  with e u c p show ?thesis by simp
qed

lemma absorb_loop_overwrites:
  assumes "length (m sponge) = MAM_SPONGE_WIDTH" "m sponge ! 487 = 0" "is_trit c2" "window m x" "trits_p x \<noteq> sponge"
  shows "mam_sponge_absorb_loop F m sponge c2 (outer_window sponge) x = Some (m(sponge := put_block c2 (last_block (rd m x)) (m sponge)))"
  using assms
proof (induction "trits_size x" arbitrary: m x rule: less_induct)
  case less
  let ?ni = "min (trits_size x) MAM_SPONGE_RATE"
  let ?m = "m(sponge := put_block c2 (take ?ni (rd m x)) (m sponge))"
  have t: "take MAM_SPONGE_RATE (rd m x) = take ?ni (rd m x)" using length_rd [OF less.prems(4)] by (simp add: min_def)
  have w: "window m (upto x ?ni)" "window m (after x ?ni)" using less.prems(4) by (simp_all add: window_parts)
  have step: "mam_sponge_absorb_loop F m sponge c2 (outer_window sponge) x =
      (if trits_is_empty (after x ?ni) then Some ?m else mam_sponge_absorb_loop F ?m sponge c2 (outer_window sponge) (after x ?ni))"
    using absorb_block_overwrites [where m = m and sponge = sponge and cc = c2 and part = "upto x ?ni" and ni = ?ni and F = F
        and ca = "if ?ni < MAM_SPONGE_RATE then 0 else 1" and cb = "if trits_is_empty (after x ?ni) then - 1 else 1"] w less.prems
    by (subst mam_sponge_absorb_loop.simps) (simp add: next_block_window [OF less.prems(4)] size_parts rd_upto Let_def)
  show ?case
  proof (cases "trits_size x \<le> MAM_SPONGE_RATE")
    case True
    then have "trits_is_empty (after x ?ni)" using w(2) by (simp add: empty_iff size_parts)
    moreover have "last_block (rd m x) = take ?ni (rd m x)" using True length_rd [OF less.prems(4)] by (subst last_block.simps) simp
    ultimately show ?thesis using step by simp
  next
    case False
    then have ni: "?ni = MAM_SPONGE_RATE" by simp
    have l: "length (take MAM_SPONGE_RATE (rd m x)) \<le> MAM_SPONGE_RATE" by simp
    note pb = put_block_props [OF l less.prems(1), of c2]
    have m: "length (?m sponge) = MAM_SPONGE_WIDTH" "?m sponge ! 487 = 0" using pb less.prems(2) by (simp_all add: ni)
    have wa: "window ?m (after x ?ni)" using w(2) less.prems(1,5) m(1) by (simp add: window_def after_def)
    have r: "rd ?m (after x ?ni) = drop MAM_SPONGE_RATE (rd m x)" using less.prems(5) False rd_after [of MAM_SPONGE_RATE x m] by (simp add: rd_def after_def)
    have "mam_sponge_absorb_loop F ?m sponge c2 (outer_window sponge) (after x ?ni)
        = Some (?m(sponge := put_block c2 (last_block (rd ?m (after x ?ni))) (?m sponge)))"
      by (rule less.hyps) (use False m less.prems(3,5) wa in \<open>simp_all add: size_parts\<close>)
    moreover have "last_block (rd m x) = last_block (drop MAM_SPONGE_RATE (rd m x))" using False length_rd [OF less.prems(4)] by (subst last_block.simps) simp
    moreover have "\<not> trits_is_empty (after x ?ni)" using False w(2) by (simp add: empty_iff size_parts)
    ultimately show ?thesis using step r put_block_twice [OF l length_last_block less.prems(1)] by (simp add: ni)
  qed
qed

section \<open>Absorbing a list of windows\<close>

definition bufs :: "mem \<Rightarrow> buffers_t \<Rightarrow> trit list" where
  "bufs m b = rd m (bf_head b) @ concat (map (rd m) (bf_tail b))"

definition buffers_ok :: "mem \<Rightarrow> nat \<Rightarrow> buffers_t \<Rightarrow> bool" where
  "buffers_ok m p b \<longleftrightarrow> (\<forall>x \<in> set (bf_head b # bf_tail b). window m x \<and> trits_p x \<noteq> p)"

lemma rd_wr_other: "trits_p x \<noteq> trits_p y \<Longrightarrow> rd (wr m x ts) y = rd m y"
  by (simp add: rd_def wr_def)

lemma bufs_wr: "buffers_ok m (trits_p y) b \<Longrightarrow> bufs (wr m y ts) b = bufs m b"
  unfolding bufs_def buffers_ok_def by (metis (mono_tags, lifting) list.set_intros(1,2) map_eq_conv rd_wr_other)

lemma buffers_ok_wr: "buffers_ok m p b \<Longrightarrow> window m y \<Longrightarrow> length ts \<le> trits_size y \<Longrightarrow> buffers_ok (wr m y ts) p b"
  by (simp add: buffers_ok_def window_wr)

lemma buffers_step_wr:
  assumes "buffers_ok m (trits_p y) b" "window m y" "k = min (trits_size (bf_head b)) (trits_size y)"
  shows "\<exists>b'. buffers_step m b y = Some (k, wr m y (take k (bufs m b)), b', after y k) \<and> bufs m b' = drop k (bufs m b) \<and> buffers_ok m (trits_p y) b'"
proof -
  have w: "window m (bf_head b)" "trits_p (bf_head b) \<noteq> trits_p y" using assms(1) by (simp_all add: buffers_ok_def)
  have c: "trits_copy_min m (bf_head b) y = Some (k, wr m y (take k (rd m (bf_head b))))"
    by (rule trits_copy_min_wr [OF w(1) assms(2)]) (use w(2) assms(3) in \<open>simp_all add: apart_def\<close>)
  have d: "trits_drop (bf_head b) k = Some (after (bf_head b) k)" "trits_drop y k = Some (after y k)"
    using trits_drop_after [OF w(1)] trits_drop_after [OF assms(2)] assms(3) by simp_all
  have t: "take k (bufs m b) = take k (rd m (bf_head b))" "drop k (bufs m b) = rd m (after (bf_head b) k) @ concat (map (rd m) (bf_tail b))"
    using length_rd [OF w(1)] assms(3) rd_after [of k "bf_head b" m] by (simp_all add: bufs_def)
  have wa: "window m (after (bf_head b) k)" using window_parts(2) [OF w(1)] assms(3) by simp
  let ?b = "if trits_is_empty (after (bf_head b) k) then (case bf_tail b of [] \<Rightarrow> b\<lparr>bf_head := after (bf_head b) k\<rparr> | t # ts \<Rightarrow> \<lparr>bf_head = t, bf_tail = ts\<rparr>)
    else b\<lparr>bf_head := after (bf_head b) k\<rparr>"
  have "buffers_step m b y = Some (k, wr m y (take k (bufs m b)), ?b, after y k)" using c d t(1) by (auto simp: buffers_step_def Let_def split: list.splits)
  moreover have "bufs m ?b = drop k (bufs m b)" using t(2) wa by (auto simp: bufs_def empty_iff rd_empty split: list.splits)
  moreover have "buffers_ok m (trits_p y) ?b" using assms(1) wa w(2) by (auto simp: buffers_ok_def split: list.splits)
  ultimately show ?thesis by blast
qed

lemma buffers_empty_content: "buffers_ok m p b \<Longrightarrow> buffers_is_empty b \<Longrightarrow> bufs m b = []"
  using empty_iff [of m "bf_head b"] by (simp add: buffers_is_empty_def bufs_def buffers_ok_def rd_empty)

lemma buffers_copy_to_wr:
  assumes "buffers_ok m (trits_p y) b" "window m y" "trits_size y \<le> length (bufs m b)"
  shows "\<exists>k b'. buffers_copy_to m b y n = Some (k, wr m y (take (trits_size y) (bufs m b)), b') \<and> bufs m b' = drop (trits_size y) (bufs m b) \<and> buffers_ok m (trits_p y) b'"
  using assms
proof (induction "trits_size y + length (bf_tail b)" arbitrary: m b y n rule: less_induct)
  case less
  show ?case
  proof (cases "trits_size y = 0")
    case True
    then show ?thesis using less.prems wr_rd [OF less.prems(2)]
      by (subst buffers_copy_to.simps) (simp add: empty_iff [OF less.prems(2)] rd_empty)
  next
    case False
    then have ne: "\<not> trits_is_empty y" "\<not> buffers_is_empty b" using less.prems buffers_empty_content by (auto simp: empty_iff)
    let ?k = "min (trits_size (bf_head b)) (trits_size y)"
    obtain b1 where b1: "buffers_step m b y = Some (?k, wr m y (take ?k (bufs m b)), b1, after y ?k)" "bufs m b1 = drop ?k (bufs m b)" "buffers_ok m (trits_p y) b1"
      using buffers_step_wr [OF less.prems(1,2) refl] by blast
    let ?m = "wr m y (take ?k (bufs m b))"
    have lt: "length (take ?k (bufs m b)) \<le> trits_size y" by simp
    have dec: "trits_size (after y ?k) + length (bf_tail b1) < trits_size y + length (bf_tail b)" by (rule buffers_step_decreases [OF b1(1) ne])
    have w: "window ?m (after y ?k)" using less.prems(2) lt by (simp add: window_wr window_parts)
    have ok: "buffers_ok ?m (trits_p (after y ?k)) b1" using buffers_ok_wr [OF b1(3) less.prems(2) lt] by simp
    have eq: "bufs ?m b1 = drop ?k (bufs m b)" "bufs ?m b' = bufs m b'" if "buffers_ok ?m (trits_p y) b'" for b'
      using bufs_wr [OF b1(3)] b1(2) that lt less.prems(2) bufs_wr [of m y b'] by (simp_all add: buffers_ok_def window_wr)
    have le: "trits_size (after y ?k) \<le> length (bufs ?m b1)" using less.prems(3) eq(1) ok by (simp add: size_parts)
    obtain k b' where r: "buffers_copy_to ?m b1 (after y ?k) (n + ?k) = Some (k, wr ?m (after y ?k) (take (trits_size (after y ?k)) (bufs ?m b1)), b')"
        "bufs ?m b' = drop (trits_size (after y ?k)) (bufs ?m b1)" "buffers_ok ?m (trits_p (after y ?k)) b'"
      using less.hyps [OF dec ok w le] by blast
    have app: "take (trits_size y) (bufs m b) = take ?k (bufs m b) @ take (trits_size y - ?k) (drop ?k (bufs m b))"
      using take_add [of ?k "trits_size y - ?k" "bufs m b"] by simp
    have lk: "length (take ?k (bufs m b)) = ?k" using less.prems(3) by simp
    have "wr m y (take (trits_size y) (bufs m b)) = wr ?m (after y ?k) (take (trits_size (after y ?k)) (bufs ?m b1))"
      unfolding app using wr_append [OF less.prems(2) lt, of "take (trits_size y - ?k) (drop ?k (bufs m b))"] eq(1) ok by (simp only: lk size_parts parts_p)
    moreover have "bufs m b' = drop (trits_size y) (bufs m b)" using r(2,3) eq ok by (simp add: size_parts)
    moreover have "buffers_ok m (trits_p y) b'" using r(3) less.prems(2) lt by (simp add: buffers_ok_def window_wr)
    moreover have "buffers_copy_to m b y n = buffers_copy_to ?m b1 (after y ?k) (n + ?k)" using ne b1(1) by (subst buffers_copy_to.simps) simp
    ultimately show ?thesis using r(1) by auto
  qed
qed

lemma buffers_size_bufs: "buffers_ok m p b \<Longrightarrow> buffers_size b = length (bufs m b)"
proof (induction b rule: buffers_size.induct)
  case (1 b)
  show ?case
  proof (cases "buffers_is_empty b")
    case True
    then show ?thesis using buffers_empty_content [OF 1(2)] by (subst buffers_size.simps) simp
  next
    case False
    let ?b = "case bf_tail b of [] \<Rightarrow> b\<lparr>bf_head := trits_null\<rparr> | t # ts \<Rightarrow> \<lparr>bf_head = t, bf_tail = ts\<rparr>"
    have n: "window m trits_null" "trits_size trits_null = 0" by (simp_all add: trits_null_def trits_from_rep_def window_def trits_size_def)
    show ?thesis
    proof (cases "bf_tail b")
      case Nil
      have "buffers_size (b\<lparr>bf_head := trits_null\<rparr>) = 0"
        by (subst buffers_size.simps) (simp add: buffers_is_empty_def Nil empty_iff [OF n(1)] n(2))
      then show ?thesis using False Nil 1(2) by (subst buffers_size.simps) (simp add: bufs_def buffers_ok_def length_rd)
    next
      case (Cons t ts)
      then have "buffers_ok m p ?b" using 1(2) by (simp add: buffers_ok_def)
      then show ?thesis using 1(1) [OF False] False Cons 1(2) by (subst buffers_size.simps) (simp add: bufs_def buffers_ok_def length_rd)
    qed
  qed
qed

lemma absorbn_block_overwrites:
  assumes "length (m sponge) = MAM_SPONGE_WIDTH" "m sponge ! 487 = 0" "is_trit cc" "is_trit ca" "is_trit cb" "buffers_ok m sponge b" "ni \<le> length (bufs m b)" "ni \<le> MAM_SPONGE_RATE"
  shows "\<exists>b'. (do {
       m \<leftarrow> enter_block F m sponge ca cb cc;
       dst \<leftarrow> trits_take (outer_window sponge) ni;
       (_, m, buffers) \<leftarrow> buffers_copy_to m b dst 0;
       pad \<leftarrow> trits_drop (outer_window sponge) ni;
       m \<leftarrow> trits_padc m 1 pad;
       m \<leftarrow> sponge_set_control012 m sponge ca cb cc;
       Some (m, buffers) }) = Some (m(sponge := put_block cc (take ni (bufs m b)) (m sponge)), b') \<and> bufs m b' = drop ni (bufs m b) \<and> buffers_ok m sponge b'"
proof -
  have ow: "window m (outer_window sponge)" "trits_size (outer_window sponge) = MAM_SPONGE_RATE" using outer_window_window assms(1) by blast+
  let ?u = "upto (outer_window sponge) ni" and ?a = "after (outer_window sponge) ni" and ?xs = "take ni (bufs m b)"
  have e: "enter_block F m sponge ca cb cc = Some m" using get_control1_reads [where m = m and sponge = sponge] assms(1,2) by (simp add: enter_block_def)
  have u: "trits_take (outer_window sponge) ni = Some ?u" "trits_drop (outer_window sponge) ni = Some ?a" "window m ?u" "trits_size ?u = ni"
    using ow assms(8) by (simp_all add: trits_take_upto trits_drop_after window_parts size_parts)
  have p: "trits_p ?u = sponge" by (simp add: outer_window_def)
  obtain k b' where c: "buffers_copy_to m b ?u 0 = Some (k, wr m ?u ?xs, b')" "bufs m b' = drop ni (bufs m b)" "buffers_ok m sponge b'"
    using buffers_copy_to_wr [of m ?u b 0] u(3,4) p assms(6,7) by auto
  have len: "length ?xs = ni" using assms(7) by simp
  have wa: "window (wr m ?u ?xs) ?a" using u(3,4) len ow assms(8) by (simp add: window_wr window_parts)
  have "trits_padc (wr m ?u ?xs) 1 ?a = Some (wr (wr m ?u ?xs) ?a (pad_list 1 (MAM_SPONGE_RATE - ni)))"
    using padc_wr [OF wa, of 1] ow(2) by (simp only: size_parts) simp
  also have "wr (wr m ?u ?xs) ?a (pad_list 1 (MAM_SPONGE_RATE - ni)) = m(sponge := ?xs @ pad_list 1 (MAM_SPONGE_RATE - ni) @ drop MAM_SPONGE_RATE (m sponge))"
    by (rule wr_outer [where m = m and sponge = sponge]) (simp_all only: assms(1,8) len)
  finally have pd: "trits_padc (wr m ?u ?xs) 1 ?a = Some (m(sponge := ?xs @ pad_list 1 (MAM_SPONGE_RATE - ni) @ drop MAM_SPONGE_RATE (m sponge)))" .
  have "sponge_set_control012 (m(sponge := ?xs @ pad_list 1 (MAM_SPONGE_RATE - ni) @ drop MAM_SPONGE_RATE (m sponge))) sponge ca cb cc
      = Some (m(sponge := put_block cc ?xs (m sponge)))"
    using len assms(1,3-5,8) by (subst set_control012_writes) (simp_all add: put_block_def)
  with e u c pd show ?thesis by auto
qed

lemma absorbn_loop_overwrites:
  assumes "length (m sponge) = MAM_SPONGE_WIDTH" "m sponge ! 487 = 0" "is_trit c2" "buffers_ok m sponge b" "n = length (bufs m b)"
  shows "mam_sponge_absorbn_loop F m sponge c2 (outer_window sponge) b n = Some (m(sponge := put_block c2 (last_block (bufs m b)) (m sponge)))"
  using assms
proof (induction n arbitrary: m b rule: less_induct)
  case (less n)
  let ?ni = "if n < MAM_SPONGE_RATE then n else MAM_SPONGE_RATE"
  let ?m = "m(sponge := put_block c2 (take ?ni (bufs m b)) (m sponge))"
  have le: "?ni \<le> length (bufs m b)" "?ni \<le> MAM_SPONGE_RATE" using less.prems(5) by auto
  have cs: "is_trit (if ?ni < MAM_SPONGE_RATE then 0 else 1)" "is_trit (if n - ?ni = 0 then - 1 else 1)" by simp_all
  obtain b' where b': "(do {
       m \<leftarrow> enter_block F m sponge (if ?ni < MAM_SPONGE_RATE then 0 else 1) (if n - ?ni = 0 then - 1 else 1) c2;
       dst \<leftarrow> trits_take (outer_window sponge) ?ni;
       (_, m, buffers) \<leftarrow> buffers_copy_to m b dst 0;
       pad \<leftarrow> trits_drop (outer_window sponge) ?ni;
       m \<leftarrow> trits_padc m 1 pad;
       m \<leftarrow> sponge_set_control012 m sponge (if ?ni < MAM_SPONGE_RATE then 0 else 1) (if n - ?ni = 0 then - 1 else 1) c2;
       Some (m, buffers) }) = Some (?m, b')" "bufs m b' = drop ?ni (bufs m b)" "buffers_ok m sponge b'"
    using absorbn_block_overwrites [where m = m and sponge = sponge and F = F and cc = c2 and ni = ?ni and b = b
        and ca = "if ?ni < MAM_SPONGE_RATE then 0 else 1" and cb = "if n - ?ni = 0 then - 1 else 1"] less.prems(1-4) le cs by blast
  have step: "mam_sponge_absorbn_loop F m sponge c2 (outer_window sponge) b n =
      (if 0 < n - ?ni then mam_sponge_absorbn_loop F ?m sponge c2 (outer_window sponge) b' (n - ?ni) else Some ?m)"
    by (subst mam_sponge_absorbn_loop.simps) (simp only: Let_def b'(1) option.case prod.case)
  show ?case
  proof (cases "n \<le> MAM_SPONGE_RATE")
    case True
    then have "last_block (bufs m b) = take ?ni (bufs m b)" using less.prems(5) by (subst last_block.simps) auto
    with True step show ?thesis by auto
  next
    case False
    then have ni: "?ni = MAM_SPONGE_RATE" by simp
    have l: "length (take MAM_SPONGE_RATE (bufs m b)) \<le> MAM_SPONGE_RATE" by simp
    note pb = put_block_props [OF l less.prems(1), of c2]
    define M where "M = ?m"
    have m: "length (M sponge) = MAM_SPONGE_WIDTH" "M sponge ! 487 = 0" using pb less.prems(2) by (simp_all add: ni M_def)
    have same: "window M x = window m x" "trits_p x \<noteq> sponge \<Longrightarrow> rd M x = rd m x" for x
      using m(1) less.prems(1) by (simp_all add: window_def rd_def M_def)
    have ok: "buffers_ok M sponge b'" using b'(3) by (simp add: buffers_ok_def same(1))
    have bs: "bufs M b' = drop MAM_SPONGE_RATE (bufs m b)" using b'(2,3) same(2) by (simp add: bufs_def buffers_ok_def ni cong: map_cong)
    have IH: "mam_sponge_absorbn_loop F M sponge c2 (outer_window sponge) b' (n - ?ni) = Some (M(sponge := put_block c2 (last_block (bufs M b')) (M sponge)))"
      by (rule less.IH) (use False m less.prems(3,5) ok bs in \<open>simp_all add: ni\<close>)
    have lb: "last_block (bufs m b) = last_block (bufs M b')" using False less.prems(5) bs by (subst last_block.simps) simp
    have "put_block c2 (last_block (bufs M b')) (M sponge) = put_block c2 (last_block (bufs m b)) (m sponge)"
      unfolding lb using put_block_twice [OF l length_last_block less.prems(1), of c2 "bufs M b'"] by (simp add: M_def ni)
    then have "M(sponge := put_block c2 (last_block (bufs M b')) (M sponge)) = m(sponge := put_block c2 (last_block (bufs m b)) (m sponge))"
      unfolding M_def by (simp only: fun_upd_upd fun_upd_same)
    moreover have "0 < n - ?ni" using False by simp
    ultimately show ?thesis using IH step unfolding M_def [symmetric] by (simp only: if_True)
  qed
qed

section \<open>Properties\<close>

lemma zero_state:
  assumes "length (m sponge) = MAM_SPONGE_WIDTH"
  shows "mam_sponge_init m sponge = Some (m(sponge := replicate MAM_SPONGE_WIDTH 0))"
  using trits_set_zero_wr [OF state_window(1) [where m = m and sponge = sponge, OF assms]] assms
  by (simp add: mam_sponge_init_def wr_def blit_def sponge_state_trits_def trits_from_rep_def trits_size_def)

lemma window_upd: "window m x \<Longrightarrow> length ts = length (m p) \<Longrightarrow> window (m(p := ts)) x"
  by (auto simp: window_def)

lemma rd_upd: "trits_p x \<noteq> p \<Longrightarrow> rd (m(p := ts)) x = rd m x"
  by (simp add: rd_def)

lemma absorb_fresh:
  assumes "length (m sponge) = MAM_SPONGE_WIDTH" "window m x" "trits_p x \<noteq> sponge" "c = 0 \<or> c = 1"
  shows "do { m \<leftarrow> mam_sponge_init m sponge; mam_sponge_absorb F m sponge c x }
    = Some (m(sponge := put_block c (last_block (rd m x)) (replicate MAM_SPONGE_WIDTH 0)))"
proof -
  let ?m = "m(sponge := replicate MAM_SPONGE_WIDTH 0)"
  have "mam_sponge_absorb_loop F ?m sponge c (outer_window sponge) x = Some (?m(sponge := put_block c (last_block (rd ?m x)) (?m sponge)))"
    by (rule absorb_loop_overwrites [where m = ?m]) (use assms in \<open>auto simp: window_upd\<close>)
  then show ?thesis using assms zero_state [where m = m and sponge = sponge, OF assms(1)]
    by (auto simp: mam_sponge_absorb_def outer_trits_window MAM_SPONGE_CTL_DATA_def MAM_SPONGE_CTL_KEY_def rd_upd)
qed

lemma absorbn_fresh:
  assumes "length (m sponge) = MAM_SPONGE_WIDTH" "\<forall>x \<in> set xs. window m x \<and> trits_p x \<noteq> sponge" "sponge \<noteq> 0" "c = 0 \<or> c = 1"
  shows "do { m \<leftarrow> mam_sponge_init m sponge; mam_sponge_absorbn F m sponge c xs }
    = Some (m(sponge := put_block c (last_block (concat (map (rd m) xs))) (replicate MAM_SPONGE_WIDTH 0)))"
proof -
  let ?m = "m(sponge := replicate MAM_SPONGE_WIDTH 0)" and ?b = "buffers_init xs"
  have n: "window ?m trits_null" "trits_p trits_null \<noteq> sponge" "rd ?m trits_null = []"
    using assms(3) by (simp_all add: trits_null_def trits_from_rep_def window_def rd_def trits_size_def)
  have ok: "buffers_ok ?m sponge ?b" using assms(1,2) n by (auto simp: buffers_ok_def buffers_init_def window_upd)
  have c: "bufs ?m ?b = concat (map (rd m) xs)" using assms(2) n(3) by (simp add: bufs_def buffers_init_def rd_upd cong: map_cong)
  have "mam_sponge_absorbn_loop F ?m sponge c (outer_window sponge) ?b (buffers_size ?b) = Some (?m(sponge := put_block c (last_block (bufs ?m ?b)) (?m sponge)))"
    by (rule absorbn_loop_overwrites [where m = ?m]) (use assms(4) ok buffers_size_bufs [OF ok] in auto)
  then show ?thesis using assms(4) zero_state [where m = m and sponge = sponge, OF assms(1)]
    by (auto simp: mam_sponge_absorbn_def outer_trits_window MAM_SPONGE_CTL_DATA_def MAM_SPONGE_CTL_KEY_def c)
qed

text \<open>
  C24. The hash of the MAM sponge depends on the last block of its input only: the control trits are all written to the first of their places, so that the sponge never
  notices that a block was absorbed, does not transform the state, and the next block overwrites the one before.
\<close>

theorem sponge_hash_sees_last_block:
  assumes "length (m sponge) = MAM_SPONGE_WIDTH" "window m x" "trits_p x \<noteq> sponge" "window m y" "trits_p y \<noteq> sponge" "last_block (rd m x) = last_block (rd m y)"
  shows "mam_sponge_hash F m sponge x digest = mam_sponge_hash F m sponge y digest"
proof -
  have "do { m \<leftarrow> mam_sponge_init m sponge; mam_sponge_absorb F m sponge 0 x } = do { m \<leftarrow> mam_sponge_init m sponge; mam_sponge_absorb F m sponge 0 y }"
    using absorb_fresh [where m = m and sponge = sponge and x = x and c = 0 and F = F] absorb_fresh [where m = m and sponge = sponge and x = y and c = 0 and F = F] assms by simp
  then have "do { m \<leftarrow> do { m \<leftarrow> mam_sponge_init m sponge; mam_sponge_absorb F m sponge 0 x }; mam_sponge_squeeze F m sponge 0 digest }
      = do { m \<leftarrow> do { m \<leftarrow> mam_sponge_init m sponge; mam_sponge_absorb F m sponge 0 y }; mam_sponge_squeeze F m sponge 0 digest }" by (rule arg_cong)
  then show ?thesis by (simp add: mam_sponge_hash_def MAM_SPONGE_CTL_DATA_def MAM_SPONGE_CTL_HASH_def bind_assoc)
qed

definition sample_store :: mem where
  "sample_store = (\<lambda>_. [])(1 := replicate MAM_SPONGE_WIDTH 0, 2 := replicate MAM_SPONGE_RATE 1 @ [1], 3 := replicate MAM_SPONGE_RATE 0 @ [1], 4 := replicate 243 0)"

text \<open>Two texts of 487 trits that agree in the last trit only.\<close>

theorem sponge_hash_sees_last_block_witness:
  "mam_sponge_hash (\<lambda>st. st) sample_store 1 (trits_from_rep 487 2) (trits_from_rep 243 4) = mam_sponge_hash (\<lambda>st. st) sample_store 1 (trits_from_rep 487 3) (trits_from_rep 243 4)
   \<and> rd sample_store (trits_from_rep 487 2) \<noteq> rd sample_store (trits_from_rep 487 3)"
proof
  have r: "rd sample_store (trits_from_rep 487 2) = replicate MAM_SPONGE_RATE 1 @ [1]" "rd sample_store (trits_from_rep 487 3) = replicate MAM_SPONGE_RATE 0 @ [1]"
    by (simp_all add: rd_def trits_from_rep_def trits_size_def sample_store_def)
  have l: "last_block (replicate MAM_SPONGE_RATE t @ [1]) = [1]" for t by (subst last_block.simps) (simp add: last_block.simps)
  show "mam_sponge_hash (\<lambda>st. st) sample_store 1 (trits_from_rep 487 2) (trits_from_rep 243 4) = mam_sponge_hash (\<lambda>st. st) sample_store 1 (trits_from_rep 487 3) (trits_from_rep 243 4)"
    by (rule sponge_hash_sees_last_block) (unfold r l, simp_all add: sample_store_def trits_from_rep_def window_def)
  show "rd sample_store (trits_from_rep 487 2) \<noteq> rd sample_store (trits_from_rep 487 3)" unfolding r by simp
qed

end
