(* ===== verification/Mam_Spongos.thy ===== *)
theory Mam_Spongos
  imports Prelude Errors Ftroika Mam_Trits Mam_Sponge
begin

text \<open>
  \<open>mam/sponge/spongos.c\<close>: the sponge with a position in the rate. Compared with a machine that takes one trit at a time, the functions copy as much as fits into the
  rate; a loop does not end when the position is at the end of the rate, which the functions never leave behind.
\<close>

section \<open>Definitions\<close>

record mam_spongos_t =
  sp_sponge :: mam_sponge_t
  sp_pos :: nat

definition spongos_outer_trits :: "mam_spongos_t \<Rightarrow> trits_t option" where
  "spongos_outer_trits spongos = do { x \<leftarrow> mam_sponge_outer_trits (sp_sponge spongos); trits_drop x (sp_pos spongos) }"

definition mam_spongos_init :: "mem \<Rightarrow> mam_spongos_t \<Rightarrow> (mem \<times> mam_spongos_t) option" where
  "mam_spongos_init m spongos = do { m \<leftarrow> mam_sponge_init m (sp_sponge spongos); Some (m, spongos\<lparr>sp_pos := 0\<rparr>) }"

definition mam_mam_spongos_fork :: "mem \<Rightarrow> mam_spongos_t \<Rightarrow> mam_spongos_t \<Rightarrow> (mem \<times> mam_spongos_t) option" where
  "mam_mam_spongos_fork m spongos fork = do { m \<leftarrow> mam_sponge_fork m (sp_sponge spongos) (sp_sponge fork); Some (m, fork\<lparr>sp_pos := sp_pos spongos\<rparr>) }"

definition mam_spongos_commit :: "(trit list \<Rightarrow> trit list) \<Rightarrow> mem \<Rightarrow> mam_spongos_t \<Rightarrow> mem \<times> mam_spongos_t" where
  "mam_spongos_commit F m spongos =
     (if sp_pos spongos \<noteq> 0 then (mam_sponge_transform F m (sp_sponge spongos), spongos\<lparr>sp_pos := 0\<rparr>) else (m, spongos))"

definition spongos_update :: "(trit list \<Rightarrow> trit list) \<Rightarrow> mem \<Rightarrow> mam_spongos_t \<Rightarrow> nat \<Rightarrow> mem \<times> mam_spongos_t" where
  "spongos_update F m spongos n =
     (let spongos = spongos\<lparr>sp_pos := sp_pos spongos + n\<rparr>
      in if sp_pos spongos = MAM_SPONGE_RATE then mam_spongos_commit F m spongos else (m, spongos))"

partial_function (option) mam_spongos_absorb :: "(trit list \<Rightarrow> trit list) \<Rightarrow> mem \<Rightarrow> mam_spongos_t \<Rightarrow> trits_t \<Rightarrow> (mem \<times> mam_spongos_t) option" where
  "mam_spongos_absorb F m spongos input =
     (if trits_is_empty input then Some (m, spongos)
      else do {
        o_t \<leftarrow> spongos_outer_trits spongos;
        (n, m) \<leftarrow> trits_copy_min m input o_t;
        let (m, spongos) = spongos_update F m spongos n;
        input \<leftarrow> trits_drop input n;
        mam_spongos_absorb F m spongos input })"

primrec mam_spongos_absorbn :: "(trit list \<Rightarrow> trit list) \<Rightarrow> mem \<Rightarrow> mam_spongos_t \<Rightarrow> trits_t list \<Rightarrow> (mem \<times> mam_spongos_t) option" where
  "mam_spongos_absorbn F m spongos [] = Some (m, spongos)"
| "mam_spongos_absorbn F m spongos (input # inputs) = do { (m, spongos) \<leftarrow> mam_spongos_absorb F m spongos input; mam_spongos_absorbn F m spongos inputs }"

partial_function (option) mam_spongos_squeeze :: "(trit list \<Rightarrow> trit list) \<Rightarrow> mem \<Rightarrow> mam_spongos_t \<Rightarrow> trits_t \<Rightarrow> (mem \<times> mam_spongos_t) option" where
  "mam_spongos_squeeze F m spongos output_t =
     (if trits_is_empty output_t then Some (m, spongos)
      else do {
        o_t \<leftarrow> spongos_outer_trits spongos;
        (n, m) \<leftarrow> trits_copy_min m o_t output_t;
        z_t \<leftarrow> trits_take o_t n;
        m \<leftarrow> trits_set_zero m z_t;
        let (m, spongos) = spongos_update F m spongos n;
        output_t \<leftarrow> trits_drop output_t n;
        mam_spongos_squeeze F m spongos output_t })"

partial_function (option) mam_spongos_squeeze_eq ::
  "(trit list \<Rightarrow> trit list) \<Rightarrow> mem \<Rightarrow> mam_spongos_t \<Rightarrow> trits_t \<Rightarrow> bool \<Rightarrow> (bool \<times> mem \<times> mam_spongos_t) option"
where
  "mam_spongos_squeeze_eq F m spongos expected r =
     (if trits_is_empty expected then Some (r, m, spongos)
      else do {
        o_t \<leftarrow> spongos_outer_trits spongos;
        let y = trits_take_min o_t (trits_size expected);
        let n = trits_size y;
        e_t \<leftarrow> trits_take expected n;
        eq \<leftarrow> trits_cmp_eq m y e_t;
        z_t \<leftarrow> trits_take o_t n;
        m \<leftarrow> trits_set_zero m z_t;
        let (m, spongos) = spongos_update F m spongos n;
        expected \<leftarrow> trits_drop expected n;
        mam_spongos_squeeze_eq F m spongos expected (eq \<and> r) })"

definition mam_spongos_hash :: "(trit list \<Rightarrow> trit list) \<Rightarrow> mem \<Rightarrow> mam_spongos_t \<Rightarrow> trits_t \<Rightarrow> trits_t \<Rightarrow> (mem \<times> mam_spongos_t) option" where
  "mam_spongos_hash F m spongos input output_t = do {
     (m, spongos) \<leftarrow> mam_spongos_init m spongos;
     (m, spongos) \<leftarrow> mam_spongos_absorb F m spongos input;
     let (m, spongos) = mam_spongos_commit F m spongos;
     mam_spongos_squeeze F m spongos output_t }"

definition mam_spongos_hashn :: "(trit list \<Rightarrow> trit list) \<Rightarrow> mem \<Rightarrow> mam_spongos_t \<Rightarrow> trits_t list \<Rightarrow> trits_t \<Rightarrow> (mem \<times> mam_spongos_t) option" where
  "mam_spongos_hashn F m spongos inputs output_t = do {
     (m, spongos) \<leftarrow> mam_spongos_init m spongos;
     (m, spongos) \<leftarrow> mam_spongos_absorbn F m spongos inputs;
     let (m, spongos) = mam_spongos_commit F m spongos;
     mam_spongos_squeeze F m spongos output_t }"

partial_function (option) mam_spongos_encr :: "(trit list \<Rightarrow> trit list) \<Rightarrow> mem \<Rightarrow> mam_spongos_t \<Rightarrow> trits_t \<Rightarrow> trits_t \<Rightarrow> (mem \<times> mam_spongos_t) option" where
  "mam_spongos_encr F m spongos plaintext ciphertext =
     (if trits_is_empty ciphertext then Some (m, spongos)
      else do {
        o_t \<leftarrow> spongos_outer_trits spongos;
        (n, m) \<leftarrow> (if trits_is_same plaintext ciphertext then trits_swap_add_min m plaintext o_t else trits_copy_add_min m plaintext o_t ciphertext);
        let (m, spongos) = spongos_update F m spongos n;
        ciphertext \<leftarrow> trits_drop ciphertext n;
        plaintext \<leftarrow> trits_drop plaintext n;
        mam_spongos_encr F m spongos plaintext ciphertext })"

partial_function (option) mam_spongos_decr :: "(trit list \<Rightarrow> trit list) \<Rightarrow> mem \<Rightarrow> mam_spongos_t \<Rightarrow> trits_t \<Rightarrow> trits_t \<Rightarrow> (mem \<times> mam_spongos_t) option" where
  "mam_spongos_decr F m spongos ciphertext plaintext =
     (if trits_is_empty plaintext then Some (m, spongos)
      else do {
        o_t \<leftarrow> spongos_outer_trits spongos;
        (n, m) \<leftarrow> (if trits_is_same ciphertext plaintext then trits_swap_sub_min m ciphertext o_t else trits_copy_sub_min m ciphertext o_t plaintext);
        let (m, spongos) = spongos_update F m spongos n;
        plaintext \<leftarrow> trits_drop plaintext n;
        ciphertext \<leftarrow> trits_drop ciphertext n;
        mam_spongos_decr F m spongos ciphertext plaintext })"

section \<open>One trit at a time\<close>

text \<open>
  The specification: a machine with a state and a position below the rate. A step combines the trit under the position with an input trit, gives a trit
  \<open>f x t\<close> and leaves \<open>g x t\<close>; at the end of the rate the state is transformed.
\<close>

type_synonym duplex = "trit list \<times> nat"

definition tick :: "(trit list \<Rightarrow> trit list) \<Rightarrow> duplex \<Rightarrow> duplex" where
  "tick F s = (if snd s = MAM_SPONGE_RATE then (F (fst s), 0) else s)"

primrec duplex_run :: "(trit \<Rightarrow> trit \<Rightarrow> trit) \<Rightarrow> (trit \<Rightarrow> trit \<Rightarrow> trit) \<Rightarrow> (trit list \<Rightarrow> trit list) \<Rightarrow> trit list \<Rightarrow> duplex \<Rightarrow> trit list \<times> duplex" where
  "duplex_run f g F [] s = ([], s)"
| "duplex_run f g F (x # xs) s =
     (let t = fst s ! snd s; (ys, s) = duplex_run f g F xs (tick F ((fst s)[snd s := g x t], snd s + 1)) in (f x t # ys, s))"

definition duplex_absorb :: "(trit list \<Rightarrow> trit list) \<Rightarrow> trit list \<Rightarrow> duplex \<Rightarrow> duplex" where
  "duplex_absorb F xs s = snd (duplex_run (\<lambda>x t. x) (\<lambda>x t. x) F xs s)"

definition duplex_squeeze :: "(trit list \<Rightarrow> trit list) \<Rightarrow> nat \<Rightarrow> duplex \<Rightarrow> trit list \<times> duplex" where
  "duplex_squeeze F n s = duplex_run (\<lambda>x t. t) (\<lambda>x t. 0) F (replicate n 0) s"

definition duplex_encr :: "(trit list \<Rightarrow> trit list) \<Rightarrow> trit list \<Rightarrow> duplex \<Rightarrow> trit list \<times> duplex" where
  "duplex_encr F xs s = duplex_run trit_add (\<lambda>x t. x) F xs s"

definition duplex_decr :: "(trit list \<Rightarrow> trit list) \<Rightarrow> trit list \<Rightarrow> duplex \<Rightarrow> trit list \<times> duplex" where
  "duplex_decr F ys s = duplex_run trit_sub trit_sub F ys s"

definition duplex_commit :: "(trit list \<Rightarrow> trit list) \<Rightarrow> duplex \<Rightarrow> duplex" where
  "duplex_commit F s = (if snd s \<noteq> 0 then (F (fst s), 0) else s)"

definition duplex_ok :: "duplex \<Rightarrow> bool" where
  "duplex_ok s \<longleftrightarrow> length (fst s) = MAM_SPONGE_WIDTH \<and> valid_trits (fst s) \<and> snd s < MAM_SPONGE_RATE"

text \<open>What the sponges need of the permutation.\<close>

locale sponge_permutation =
  fixes F :: "trit list \<Rightarrow> trit list"
  assumes F_length: "length st = MAM_SPONGE_WIDTH \<Longrightarrow> valid_trits st \<Longrightarrow> length (F st) = MAM_SPONGE_WIDTH"
    and F_valid: "length st = MAM_SPONGE_WIDTH \<Longrightarrow> valid_trits st \<Longrightarrow> valid_trits (F st)"
begin

lemma tick_ok:
  assumes "length st = MAM_SPONGE_WIDTH" "valid_trits st" "p \<le> MAM_SPONGE_RATE"
  shows "duplex_ok (tick F (st, p))"
  using assms F_length F_valid by (auto simp: tick_def duplex_ok_def)

lemma commit_ok: "duplex_ok s \<Longrightarrow> duplex_ok (duplex_commit F s)"
  using F_length F_valid by (auto simp: duplex_commit_def duplex_ok_def)

lemma valid_update: "valid_trits xs \<Longrightarrow> is_trit t \<Longrightarrow> valid_trits (xs[i := t])"
  by (auto simp: list_all_iff dest: set_update_subset_insert [THEN subsetD])

lemma duplex_run_ok:
  assumes "\<And>a b. is_trit a \<Longrightarrow> is_trit b \<Longrightarrow> is_trit (f a b) \<and> is_trit (g a b)"
  shows "valid_trits xs \<Longrightarrow> duplex_ok s \<Longrightarrow> valid_trits (fst (duplex_run f g F xs s)) \<and> length (fst (duplex_run f g F xs s)) = length xs \<and> duplex_ok (snd (duplex_run f g F xs s))"
proof (induction xs arbitrary: s)
  case (Cons x xs)
  let ?t = "fst s ! snd s" and ?s = "tick F ((fst s)[snd s := g x (fst s ! snd s)], snd s + 1)"
  have t: "is_trit ?t" using Cons.prems(2) valid_trits_nth by (auto simp: duplex_ok_def)
  have ok: "duplex_ok ?s" using Cons.prems assms [of x ?t] t by (intro tick_ok) (auto simp: duplex_ok_def intro: valid_update)
  from Cons.IH [OF _ ok] Cons.prems t assms [of x ?t] show ?case by (simp add: Let_def split_beta)
qed simp

text \<open>The machine on a list that fits into the rate, in one piece.\<close>

lemma duplex_run_chunk:
  assumes "length (fst s) = MAM_SPONGE_WIDTH" "snd s < MAM_SPONGE_RATE" "snd s + length xs \<le> MAM_SPONGE_RATE"
  shows "duplex_run f g F (xs @ zs) s =
    (let ts = slice (snd s) (length xs) (fst s); (ys, s') = duplex_run f g F zs (tick F (blit (fst s) (snd s) (map2 g xs ts), snd s + length xs)) in (map2 f xs ts @ ys, s'))"
  using assms
proof (induction xs arbitrary: s)
  case Nil
  then show ?case by (simp add: slice_def blit_def tick_def)
next
  case (Cons x xs)
  obtain st p where s: "s = (st, p)" by (cases s)
  have len: "length st = MAM_SPONGE_WIDTH" "p < MAM_SPONGE_RATE" "p + Suc (length xs) \<le> MAM_SPONGE_RATE" using Cons.prems by (simp_all add: s)
  have sl: "slice p (Suc (length xs)) st = st ! p # slice (Suc p) (length xs) st"
    using len by (simp add: slice_def Cons_nth_drop_Suc [symmetric])
  have bl: "blit st p (a # as) = blit (st[p := a]) (Suc p) as" if "length as = length xs" for a as
    using len that by (simp add: blit_def upd_conv_take_nth_drop add.commute)
  show ?case
  proof (cases "Suc p = MAM_SPONGE_RATE")
    case True
    then have "xs = []" using len by auto
    with True len sl show ?thesis by (simp add: s Let_def split_beta tick_def blit_def upd_conv_take_nth_drop)
  next
    case False
    then have t: "tick F (st[p := g x (st ! p)], Suc p) = (st[p := g x (st ! p)], Suc p)" by (simp add: tick_def)
    have sl': "slice (Suc p) (length xs) (st[p := g x (st ! p)]) = slice (Suc p) (length xs) st" by (simp add: slice_def)
    show ?thesis using Cons.IH [of "(st[p := g x (st ! p)], Suc p)"] len False t sl sl' bl [of "map (\<lambda>a. g (fst a) (snd a)) (zip xs (slice (Suc p) (length xs) st))" "g x (st ! p)"]
      by (simp add: s Let_def split_beta)
  qed
qed

end

section \<open>The functions run the machine\<close>

definition duplex_of :: "mem \<Rightarrow> mam_spongos_t \<Rightarrow> duplex" where
  "duplex_of m spongos = (m (sp_sponge spongos), sp_pos spongos)"

definition with_duplex :: "mem \<Rightarrow> mam_spongos_t \<Rightarrow> duplex \<Rightarrow> mem \<times> mam_spongos_t" where
  "with_duplex m spongos d = (m(sp_sponge spongos := fst d), spongos\<lparr>sp_pos := snd d\<rparr>)"

definition rest :: "mam_spongos_t \<Rightarrow> trits_t" where
  "rest spongos = after (outer_window (sp_sponge spongos)) (sp_pos spongos)"

lemma rest_window:
  assumes "duplex_ok (duplex_of m spongos)"
  shows "spongos_outer_trits spongos = Some (rest spongos)" "window m (rest spongos)" "trits_size (rest spongos) = MAM_SPONGE_RATE - sp_pos spongos"
    "trits_p (rest spongos) = sp_sponge spongos"
    "k \<le> MAM_SPONGE_RATE - sp_pos spongos \<Longrightarrow> rd m (upto (rest spongos) k) = slice (sp_pos spongos) k (m (sp_sponge spongos))"
    "wr m (rest spongos) ts = m(sp_sponge spongos := blit (m (sp_sponge spongos)) (sp_pos spongos) ts)"
    "valid_trits (rd m (rest spongos))"
proof -
  have ok: "length (m (sp_sponge spongos)) = MAM_SPONGE_WIDTH" "valid_trits (m (sp_sponge spongos))" "sp_pos spongos < MAM_SPONGE_RATE"
    using assms by (simp_all add: duplex_ok_def duplex_of_def)
  then show "spongos_outer_trits spongos = Some (rest spongos)"
    by (simp add: spongos_outer_trits_def outer_trits_window rest_def after_def outer_window_def trits_drop_def)
  show "window m (rest spongos)" "trits_size (rest spongos) = MAM_SPONGE_RATE - sp_pos spongos" "trits_p (rest spongos) = sp_sponge spongos"
    using ok by (simp_all add: rest_def after_def outer_window_def window_def trits_size_def)
  show "k \<le> MAM_SPONGE_RATE - sp_pos spongos \<Longrightarrow> rd m (upto (rest spongos) k) = slice (sp_pos spongos) k (m (sp_sponge spongos))"
    by (simp add: rest_def after_def outer_window_def upto_def rd_def trits_size_def)
  show "wr m (rest spongos) ts = m(sp_sponge spongos := blit (m (sp_sponge spongos)) (sp_pos spongos) ts)"
    by (simp add: rest_def after_def outer_window_def wr_def)
  show "valid_trits (rd m (rest spongos))" using ok by (simp add: rd_def rest_def outer_window_def after_def valid_trits_slice)
qed

lemma update_tick: "spongos_update F m spongos n = with_duplex m spongos (tick F (m (sp_sponge spongos), sp_pos spongos + n))"
  by (simp add: spongos_update_def mam_spongos_commit_def mam_sponge_transform_def with_duplex_def tick_def Let_def)

lemma with_duplex_of [simp]: "duplex_of (fst (with_duplex m spongos d)) (snd (with_duplex m spongos d)) = d"
  by (simp add: with_duplex_def duplex_of_def)

lemma with_duplex_twice [simp]: "with_duplex (m(sp_sponge spongos := ts)) spongos d = with_duplex m spongos d"
  by (simp add: with_duplex_def)

text \<open>
  The four loops have one shape: take as much of two equally long windows as fits into the rate, combine it with the state, go on behind it. \<open>x\<close> is read and \<open>y\<close> is
  written; they are the same or do not overlap.
\<close>

definition step_store :: "(trit list \<Rightarrow> trit list) \<Rightarrow> (trit \<Rightarrow> trit \<Rightarrow> trit) \<Rightarrow> (trit \<Rightarrow> trit \<Rightarrow> trit) \<Rightarrow> nat \<Rightarrow> mem \<Rightarrow> mam_spongos_t \<Rightarrow> trits_t \<Rightarrow> trits_t \<Rightarrow> mem \<times> mam_spongos_t" where
  "step_store F f g n m spongos x y =
     (let ts = slice (sp_pos spongos) n (m (sp_sponge spongos)); xs = take n (rd m x)
      in with_duplex (wr m y (map2 f xs ts)) spongos (tick F (blit (m (sp_sponge spongos)) (sp_pos spongos) (map2 g xs ts), sp_pos spongos + n)))"

lemma valid_map2: "(\<And>a b. Q a \<Longrightarrow> is_trit b \<Longrightarrow> is_trit (g a b)) \<Longrightarrow> list_all Q xs \<Longrightarrow> valid_trits ts \<Longrightarrow> valid_trits (map2 g xs ts)"
  by (induction xs ts rule: list_induct2') auto

lemma map2_first: "length xs = length ts \<Longrightarrow> map2 (\<lambda>x t. x) xs ts = xs"
  by (induction xs ts rule: list_induct2) simp_all

lemma map2_second: "length xs = length ts \<Longrightarrow> map2 (\<lambda>x t. t) xs ts = ts"
  by (induction xs ts rule: list_induct2) simp_all

lemma map2_const: "length xs = length ts \<Longrightarrow> map2 (\<lambda>x t. c) xs ts = replicate (length xs) c"
  by (induction xs ts rule: list_induct2) simp_all

lemma chunk_facts:
  assumes "duplex_ok (duplex_of m spongos)" "window m x" "0 < trits_size x" "trits_p x \<noteq> sp_sponge spongos" "n = min (trits_size x) (MAM_SPONGE_RATE - sp_pos spongos)"
  shows "n \<le> trits_size x" "n \<le> MAM_SPONGE_RATE - sp_pos spongos" "\<not> trits_is_empty x" "trits_drop x n = Some (after x n)" "apart x (rest spongos)" "apart (rest spongos) x"
    "length (take n (rd m x)) = n" "length (slice (sp_pos spongos) n (m (sp_sponge spongos))) = n" "wr m x (take n (rd m x)) = m"
proof -
  show n: "n \<le> trits_size x" "n \<le> MAM_SPONGE_RATE - sp_pos spongos" using assms(5) by simp_all
  show "\<not> trits_is_empty x" "trits_drop x n = Some (after x n)" "length (take n (rd m x)) = n"
    using assms(2,3) n trits_drop_after [OF assms(2) n(1)] by (simp_all add: empty_iff length_rd)
  show "apart x (rest spongos)" "apart (rest spongos) x" using assms(4) rest_window(4) [OF assms(1)] by (simp_all add: apart_def)
  show "length (slice (sp_pos spongos) n (m (sp_sponge spongos))) = n" using n assms(1) by (auto simp: duplex_ok_def duplex_of_def)
  show "wr m x (take n (rd m x)) = m" using wr_rd [OF window_parts(1) [OF assms(2) n(1)]] n(1) by (simp add: rd_upto)
qed

context sponge_permutation
begin

lemma step_store_facts:
  assumes "duplex_ok (duplex_of m spongos)" "window m x" "window m y" "trits_size x = trits_size y" "x = y \<or> apart x y"
    and "trits_p x \<noteq> sp_sponge spongos" "trits_p y \<noteq> sp_sponge spongos" "list_all Q (rd m x)"
    and "n = min (trits_size x) (MAM_SPONGE_RATE - sp_pos spongos)"
    and fg: "\<And>a b. Q a \<Longrightarrow> is_trit b \<Longrightarrow> is_trit (g a b)"
    and st: "step_store F f g n m spongos x y = (m', spongos')"
  shows "duplex_ok (duplex_of m' spongos')" "window m' z = window m z" "rd m' (after x n) = drop n (rd m x)" "sp_sponge spongos' = sp_sponge spongos"
    "duplex_run f g F (rd m x) (duplex_of m spongos) =
      (let ts = slice (sp_pos spongos) n (m (sp_sponge spongos)); (ys, d) = duplex_run f g F (drop n (rd m x)) (duplex_of m' spongos') in (map2 f (take n (rd m x)) ts @ ys, d))"
    "with_duplex (wr m' (after y n) us) spongos' d = with_duplex (wr m y (map2 f (take n (rd m x)) (slice (sp_pos spongos) n (m (sp_sponge spongos))) @ us)) spongos d"
proof -
  define ts where "ts = slice (sp_pos spongos) n (m (sp_sponge spongos))"
  define xs where "xs = take n (rd m x)"
  define st where "st = blit (m (sp_sponge spongos)) (sp_pos spongos) (map2 g xs ts)"
  have ok: "length (m (sp_sponge spongos)) = MAM_SPONGE_WIDTH" "valid_trits (m (sp_sponge spongos))" "sp_pos spongos < MAM_SPONGE_RATE"
    using assms(1) by (simp_all add: duplex_ok_def duplex_of_def)
  have len: "length ts = n" "length xs = n" "n \<le> trits_size x" "n \<le> trits_size y" "sp_pos spongos + n \<le> MAM_SPONGE_RATE" using ok assms(2,4,9) by (simp_all add: ts_def xs_def length_rd)
  have v: "valid_trits ts" "list_all Q xs" using valid_trits_slice [OF ok(2)] assms(8) by (auto simp: ts_def xs_def list_all_iff dest: in_set_takeD)
  have vs: "valid_trits (map2 g xs ts)" using valid_map2 [of Q g xs ts] v fg by blast
  have vst: "valid_trits st" "length st = MAM_SPONGE_WIDTH" using vs ok len by (simp_all add: st_def list_all_blit)
  have wd: "with_duplex (wr m y (map2 f xs ts)) spongos (tick F (st, sp_pos spongos + n)) = (m', spongos')"
    using assms(11) by (simp add: step_store_def Let_def ts_def xs_def st_def)
  then have m': "m' = (wr m y (map2 f xs ts))(sp_sponge spongos := fst (tick F (st, sp_pos spongos + n)))" "spongos' = spongos\<lparr>sp_pos := snd (tick F (st, sp_pos spongos + n))\<rparr>"
    by (simp_all add: with_duplex_def)
  have d': "duplex_of m' spongos' = tick F (st, sp_pos spongos + n)" by (simp add: m' duplex_of_def)
  then show dok: "duplex_ok (duplex_of m' spongos')" using tick_ok vst len(5) by simp
  have lm: "length (m' p) = length (m p)" for p
    using dok ok(1) length_wr [OF assms(3), of "map2 f xs ts" p] len assms(7) by (auto simp: duplex_ok_def duplex_of_def m' wr_def)
  then show "window m' z = window m z" by (simp add: window_def)
  have "rd m' (after x n) = rd (wr m y (map2 f xs ts)) (after x n)" using assms(6) by (simp add: rd_def m')
  also have "\<dots> = drop n (rd m x)" using assms(2-5) len
    by (auto simp: trits_simps rd_wr_prefix rd_wr_apart apart_sym)
  finally show "rd m' (after x n) = drop n (rd m x)" .
  show "sp_sponge spongos' = sp_sponge spongos" by (simp add: m')
  have "duplex_run f g F (xs @ drop n (rd m x)) (duplex_of m spongos) = (let (ys, d) = duplex_run f g F (drop n (rd m x)) (duplex_of m' spongos') in (map2 f xs ts @ ys, d))"
    using duplex_run_chunk [of "duplex_of m spongos" xs f g "drop n (rd m x)"] ok len d' by (simp add: duplex_of_def ts_def [symmetric] st_def [symmetric] Let_def)
  then show "duplex_run f g F (rd m x) (duplex_of m spongos) =
      (let ts = slice (sp_pos spongos) n (m (sp_sponge spongos)); (ys, d) = duplex_run f g F (drop n (rd m x)) (duplex_of m' spongos') in (map2 f (take n (rd m x)) ts @ ys, d))"
    by (simp add: xs_def ts_def Let_def)
  have "wr m y (map2 f xs ts @ us) = wr (wr m y (map2 f xs ts)) (after y n) us" using wr_append [OF assms(3), of "map2 f xs ts" us] len by simp
  then show "with_duplex (wr m' (after y n) us) spongos' d
      = with_duplex (wr m y (map2 f (take n (rd m x)) (slice (sp_pos spongos) n (m (sp_sponge spongos))) @ us)) spongos d"
    using assms(7) by (simp add: xs_def [symmetric] ts_def [symmetric] with_duplex_def m') (auto simp: wr_def)
qed

lemma loop_runs_machine:
  assumes base: "\<And>m spongos x y. trits_is_empty x \<Longrightarrow> trits_is_empty y \<Longrightarrow> L m spongos x y = Some (m, spongos)"
    and step: "\<And>m spongos x y n. \<lbrakk>duplex_ok (duplex_of m spongos); window m x; window m y; trits_size x = trits_size y; x = y \<or> apart x y; 0 < trits_size x;
        trits_p x \<noteq> sp_sponge spongos; trits_p y \<noteq> sp_sponge spongos; list_all Q (rd m x); n = min (trits_size x) (MAM_SPONGE_RATE - sp_pos spongos); P x y\<rbrakk>
        \<Longrightarrow> L m spongos x y = (let (m, spongos) = step_store F f g n m spongos x y in L m spongos (after x n) (after y n)) \<and> P (after x n) (after y n)"
    and fg: "\<And>a b. Q a \<Longrightarrow> is_trit b \<Longrightarrow> is_trit (g a b)"
    and "duplex_ok (duplex_of m spongos)" "window m x" "window m y" "trits_size x = trits_size y" "x = y \<or> apart x y"
    and "trits_p x \<noteq> sp_sponge spongos" "trits_p y \<noteq> sp_sponge spongos" "list_all Q (rd m x)" "P x y"
  shows "L m spongos x y = (let (ys, d) = duplex_run f g F (rd m x) (duplex_of m spongos) in Some (with_duplex (wr m y ys) spongos d))"
  using assms(4-)
proof (induction "trits_size x" arbitrary: m spongos x y rule: less_induct)
  case less
  show ?case
  proof (cases "trits_size x = 0")
    case True
    then have e: "trits_is_empty x" "trits_is_empty y" "rd m x = []" using less.prems by (simp_all add: empty_iff rd_empty)
    have "wr m y [] = m" using wr_rd [OF less.prems(3)] True less.prems(4) by (simp add: rd_empty)
    with e show ?thesis using base by (simp add: with_duplex_def duplex_of_def)
  next
    case False
    define n where "n = min (trits_size x) (MAM_SPONGE_RATE - sp_pos spongos)"
    have n: "0 < n" "n \<le> trits_size x" "n \<le> trits_size y" using False less.prems(1,4) by (simp_all add: n_def duplex_ok_def duplex_of_def)
    obtain m' spongos' where s: "step_store F f g n m spongos x y = (m', spongos')" by fastforce
    have st: "L m spongos x y = L m' spongos' (after x n) (after y n)" "P (after x n) (after y n)"
      using step [OF less.prems(1-5) _ less.prems(6-8) n_def less.prems(9)] False s by simp_all
    note facts = step_store_facts [OF less.prems(1-8) n_def fg s]
    have "L m' spongos' (after x n) (after y n)
        = (let (ys, d) = duplex_run f g F (rd m' (after x n)) (duplex_of m' spongos') in Some (with_duplex (wr m' (after y n) ys) spongos' d))"
    proof (rule less.hyps)
      show "after x n = after y n \<or> apart (after x n) (after y n)" using less.prems(5) by (auto intro: apart_parts)
      show "list_all Q (rd m' (after x n))" using less.prems(8) by (auto simp: facts(3) list_all_iff dest: in_set_dropD)
    qed (use n less.prems facts(1,2,4) st(2) in \<open>simp_all add: trits_simps\<close>)
    also have "\<dots> = (let (ys, d) = duplex_run f g F (rd m x) (duplex_of m spongos) in Some (with_duplex (wr m y ys) spongos d))"
      by (simp add: facts(3,5,6) Let_def split_beta)
    finally show ?thesis using st(1) by simp
  qed
qed

lemma absorb_runs:
  assumes "duplex_ok (duplex_of m spongos)" "window m x" "trits_p x \<noteq> sp_sponge spongos" "valid_trits (rd m x)"
  shows "mam_spongos_absorb F m spongos x = Some (with_duplex m spongos (duplex_absorb F (rd m x) (duplex_of m spongos)))"
proof -
  let ?L = "\<lambda>m spongos x y. mam_spongos_absorb F m spongos x" and ?f = "\<lambda>x t :: trit. x"
  have "?L m spongos x x = (let (ys, d) = duplex_run ?f ?f F (rd m x) (duplex_of m spongos) in Some (with_duplex (wr m x ys) spongos d))"
  proof (rule loop_runs_machine [where P = "(=)" and Q = is_trit], goal_cases)
    case (1 m spongos x y)
    then show ?case by (subst mam_spongos_absorb.simps) simp
  next
    case (2 m spongos x y n)
    note w = rest_window [OF 2(1)] and c = chunk_facts [OF 2(1,2,6,7,10)]
    have "trits_copy_min m x (rest spongos) = Some (n, wr m (rest spongos) (take n (rd m x)))" using trits_copy_min_wr [OF 2(2) w(2) c(5)] 2(10) w(3) by simp
    then have "mam_spongos_absorb F m spongos x = (let (m, spongos) = spongos_update F (wr m (rest spongos) (take n (rd m x))) spongos n in mam_spongos_absorb F m spongos (after x n))"
      using w(1) c(3,4) by (subst mam_spongos_absorb.simps) (simp add: Let_def split_beta)
    moreover have "map2 ?f (take n (rd m x)) (slice (sp_pos spongos) n (m (sp_sponge spongos))) = take n (rd m x)" by (rule map2_first) (simp only: c)
    ultimately show ?case using 2(11) w(6) c(9) by (simp add: step_store_def update_tick Let_def)
  qed (use assms in auto)
  moreover have "fst (duplex_run ?f ?f F xs s) = xs" for xs s by (induction xs arbitrary: s) (simp_all add: Let_def split_beta)
  ultimately show ?thesis using wr_rd [OF assms(2)] by (simp add: duplex_absorb_def split_beta)
qed

lemma zero_rest:
  assumes "duplex_ok (duplex_of m spongos)" "n \<le> MAM_SPONGE_RATE - sp_pos spongos"
  shows "trits_take (rest spongos) n = Some (upto (rest spongos) n)"
    "trits_set_zero m (upto (rest spongos) n) = Some (m(sp_sponge spongos := blit (m (sp_sponge spongos)) (sp_pos spongos) (replicate n 0)))"
proof -
  note w = rest_window [OF assms(1)]
  show "trits_take (rest spongos) n = Some (upto (rest spongos) n)" using trits_take_upto [OF w(2)] w(3) assms(2) by simp
  have u: "window m (upto (rest spongos) n)" using window_parts(1) [OF w(2)] w(3) assms(2) by simp
  show "trits_set_zero m (upto (rest spongos) n) = Some (m(sp_sponge spongos := blit (m (sp_sponge spongos)) (sp_pos spongos) (replicate n 0)))"
    using trits_set_zero_wr [OF u] w(6) by (simp add: size_parts)
qed

lemma duplex_run_ignores: "length xs = length xs' \<Longrightarrow> duplex_run (\<lambda>x. f) (\<lambda>x. g) F xs s = duplex_run (\<lambda>x. f) (\<lambda>x. g) F xs' s"
  by (induction xs xs' arbitrary: s rule: list_induct2) simp_all

lemma duplex_squeeze_any: "length xs = n \<Longrightarrow> duplex_run (\<lambda>x t. t) (\<lambda>x t. 0) F xs s = duplex_squeeze F n s"
  unfolding duplex_squeeze_def by (rule duplex_run_ignores) simp

lemma squeeze_runs:
  assumes "duplex_ok (duplex_of m spongos)" "window m y" "trits_p y \<noteq> sp_sponge spongos"
  shows "mam_spongos_squeeze F m spongos y = (let (ys, d) = duplex_squeeze F (trits_size y) (duplex_of m spongos) in Some (with_duplex (wr m y ys) spongos d))"
proof -
  let ?L = "\<lambda>m spongos x y. mam_spongos_squeeze F m spongos x" and ?f = "\<lambda>x t :: trit. t" and ?g = "\<lambda>x t :: trit. 0 :: trit"
  have "?L m spongos y y = (let (ys, d) = duplex_run ?f ?g F (rd m y) (duplex_of m spongos) in Some (with_duplex (wr m y ys) spongos d))"
  proof (rule loop_runs_machine [where P = "(=)" and Q = "\<lambda>_. True"], goal_cases)
    case (1 m spongos x y)
    then show ?case by (subst mam_spongos_squeeze.simps) simp
  next
    case (2 m spongos x y n)
    note w = rest_window [OF 2(1)] and c = chunk_facts [OF 2(1,2,6,7,10)]
    let ?ts = "slice (sp_pos spongos) n (m (sp_sponge spongos))"
    have "take n (rd m (rest spongos)) = ?ts" using w(5) [OF c(2)] c(2) w(3) by (simp add: rd_upto)
    then have cp: "trits_copy_min m (rest spongos) x = Some (n, wr m x ?ts)"
      using trits_copy_min_wr [OF w(2) 2(2) c(6)] 2(10) w(3) by (simp add: min.commute)
    have wx: "(wr m x ?ts) (sp_sponge spongos) = m (sp_sponge spongos)" using 2(7) by (simp add: wr_def)
    then have ok: "duplex_ok (duplex_of (wr m x ?ts) spongos)" using 2(1) by (simp add: duplex_of_def)
    have "mam_spongos_squeeze F m spongos x =
        (let (m, spongos) = spongos_update F ((wr m x ?ts)(sp_sponge spongos := blit (m (sp_sponge spongos)) (sp_pos spongos) (replicate n 0))) spongos n
         in mam_spongos_squeeze F m spongos (after x n))"
      using w(1) c(3,4) cp zero_rest [OF ok c(2)] wx by (subst mam_spongos_squeeze.simps) (simp add: Let_def split_beta)
    moreover have "map2 ?f (take n (rd m x)) ?ts = ?ts" by (rule map2_second) (simp only: c)
    moreover have "map2 ?g (take n (rd m x)) ?ts = replicate n 0" using map2_const [of "take n (rd m x)" ?ts 0] c(7,8) by simp
    ultimately show ?case using 2(11) by (simp add: step_store_def update_tick Let_def)
  qed (use assms in \<open>auto simp: list_all_iff\<close>)
  then show ?thesis by (simp add: duplex_squeeze_any [OF length_rd [OF assms(2)]])
qed

lemma crypt_runs:
  assumes L: "\<And>m spongos x y. L m spongos x y =
      (if trits_is_empty y then Some (m, spongos)
       else do {
         o_t \<leftarrow> spongos_outer_trits spongos;
         (n, m) \<leftarrow> (if trits_is_same x y then S m x o_t else C m x o_t y);
         let (m, spongos) = spongos_update F m spongos n;
         y \<leftarrow> trits_drop y n;
         x \<leftarrow> trits_drop x n;
         L m spongos x y })"
    and S: "\<And>m x s n. window m x \<Longrightarrow> window m s \<Longrightarrow> apart x s \<Longrightarrow> valid_trits (rd m x) \<Longrightarrow> valid_trits (rd m s) \<Longrightarrow> n = min (trits_size x) (trits_size s) \<Longrightarrow>
        S m x s = Some (n, wr (wr m x (map2 f (take n (rd m x)) (take n (rd m s)))) s (map2 g (take n (rd m x)) (take n (rd m s))))"
    and C: "\<And>m x s y n. window m x \<Longrightarrow> window m s \<Longrightarrow> window m y \<Longrightarrow> trits_size x = trits_size y \<Longrightarrow> apart x s \<Longrightarrow> apart x y \<Longrightarrow> apart s y \<Longrightarrow>
        valid_trits (rd m x) \<Longrightarrow> valid_trits (rd m s) \<Longrightarrow> n = min (trits_size x) (trits_size s) \<Longrightarrow>
        C m x s y = Some (n, wr (wr m s (map2 g (take n (rd m x)) (take n (rd m s)))) y (map2 f (take n (rd m x)) (take n (rd m s))))"
    and fg: "\<And>a b. is_trit a \<Longrightarrow> is_trit b \<Longrightarrow> is_trit (g a b)"
    and "duplex_ok (duplex_of m spongos)" "window m x" "window m y" "trits_size x = trits_size y" "x = y \<or> apart x y"
    and "trits_p x \<noteq> sp_sponge spongos" "trits_p y \<noteq> sp_sponge spongos" "valid_trits (rd m x)"
  shows "L m spongos x y = (let (ys, d) = duplex_run f g F (rd m x) (duplex_of m spongos) in Some (with_duplex (wr m y ys) spongos d))"
proof (rule loop_runs_machine [where P = "\<lambda>_ _. True" and Q = is_trit and L = L], goal_cases)
  case (1 m spongos x y)
  then show ?case by (subst L) simp
next
  case (2 m spongos x y n)
  note w = rest_window [OF 2(1)] and c = chunk_facts [OF 2(1,2,6,7,10)]
  have n: "n = min (trits_size y) (MAM_SPONGE_RATE - sp_pos spongos)" "0 < trits_size y" using 2(4,6,10) by simp_all
  note cy = chunk_facts [OF 2(1,3) n(2) 2(8) n(1)]
  let ?ts = "slice (sp_pos spongos) n (m (sp_sponge spongos))" and ?xs = "take n (rd m x)"
  have ts: "take n (rd m (rest spongos)) = ?ts" using w(5) [OF c(2)] c(2) w(3) by (simp add: rd_upto)
  have n': "n = min (trits_size x) (trits_size (rest spongos))" using 2(10) w(3) by simp
  have "(if trits_is_same x y then S m x (rest spongos) else C m x (rest spongos) y)
      = Some (n, (wr m y (map2 f ?xs ?ts))(sp_sponge spongos := blit (m (sp_sponge spongos)) (sp_pos spongos) (map2 g ?xs ?ts)))"
  proof (cases "x = y")
    case True
    have "wr (wr m x (map2 f ?xs ?ts)) (rest spongos) (map2 g ?xs ?ts)
        = (wr m y (map2 f ?xs ?ts))(sp_sponge spongos := blit (m (sp_sponge spongos)) (sp_pos spongos) (map2 g ?xs ?ts))"
      using True 2(7) by (simp add: wr_def [of _ "rest spongos"] w(4)) (simp add: wr_def rest_def after_def outer_window_def)
    with True show ?thesis using S [OF 2(2) w(2) c(5) 2(9) w(7) n'] ts by (simp add: trits_is_same_def)
  next
    case False
    with 2(5) have ap: "apart x y" by simp
    then have "\<not> trits_is_same x y" using 2(2-4,6) by (auto simp: trits_is_same_def apart_def window_def trits_size_def)
    moreover have "wr (m(sp_sponge spongos := blit (m (sp_sponge spongos)) (sp_pos spongos) (map2 g ?xs ?ts))) y (map2 f ?xs ?ts)
        = (wr m y (map2 f ?xs ?ts))(sp_sponge spongos := blit (m (sp_sponge spongos)) (sp_pos spongos) (map2 g ?xs ?ts))"
      using 2(8) by (simp add: wr_def fun_upd_twist)
    ultimately show ?thesis using C [OF 2(2) w(2) 2(3,4) c(5) ap cy(6) 2(9) w(7) n'] ts w(6) by simp
  qed
  then have "L m spongos x y =
      (let (m, spongos) = spongos_update F ((wr m y (map2 f ?xs ?ts))(sp_sponge spongos := blit (m (sp_sponge spongos)) (sp_pos spongos) (map2 g ?xs ?ts))) spongos n
       in L m spongos (after x n) (after y n))"
    using w(1) c(4) cy(3,4) by (subst L) (simp add: Let_def split_beta)
  then show ?case by (simp add: step_store_def update_tick Let_def)
qed (use assms in auto)

lemma encr_runs:
  assumes "duplex_ok (duplex_of m spongos)" "window m x" "window m y" "trits_size x = trits_size y" "x = y \<or> apart x y"
    and "trits_p x \<noteq> sp_sponge spongos" "trits_p y \<noteq> sp_sponge spongos" "valid_trits (rd m x)"
  shows "mam_spongos_encr F m spongos x y = (let (ys, d) = duplex_encr F (rd m x) (duplex_of m spongos) in Some (with_duplex (wr m y ys) spongos d))"
  unfolding duplex_encr_def
proof (rule crypt_runs [where S = trits_swap_add_min and C = trits_copy_add_min], goal_cases)
  case (1 m spongos x y)
  show ?case by (rule mam_spongos_encr.simps)
next
  case (3 m x s y n)
  then show ?case using copy_add_min_wr by simp
qed (use assms swap_add_min_wr in auto)

lemma decr_runs:
  assumes "duplex_ok (duplex_of m spongos)" "window m x" "window m y" "trits_size x = trits_size y" "x = y \<or> apart x y"
    and "trits_p x \<noteq> sp_sponge spongos" "trits_p y \<noteq> sp_sponge spongos" "valid_trits (rd m x)"
  shows "mam_spongos_decr F m spongos x y = (let (ys, d) = duplex_decr F (rd m x) (duplex_of m spongos) in Some (with_duplex (wr m y ys) spongos d))"
  unfolding duplex_decr_def
proof (rule crypt_runs [where S = trits_swap_sub_min and C = trits_copy_sub_min], goal_cases)
  case (1 m spongos x y)
  show ?case by (rule mam_spongos_decr.simps)
next
  case (3 m x s y n)
  then show ?case using copy_sub_min_wr by simp
qed (use assms swap_sub_min_wr in auto)

lemma squeeze_split:
  assumes "duplex_ok d" "n \<le> MAM_SPONGE_RATE - snd d"
  shows "duplex_squeeze F (n + k) d = (let (ys, d') = duplex_squeeze F k (tick F (blit (fst d) (snd d) (replicate n 0), snd d + n)) in (slice (snd d) n (fst d) @ ys, d'))"
proof -
  have l: "length (slice (snd d) n (fst d)) = n" "length (fst d) = MAM_SPONGE_WIDTH" "snd d < MAM_SPONGE_RATE" "snd d + n \<le> MAM_SPONGE_RATE" using assms by (auto simp: duplex_ok_def)
  have m: "map2 (\<lambda>x t. t) (replicate n (0 :: trit)) (slice (snd d) n (fst d)) = slice (snd d) n (fst d)" "map2 (\<lambda>x t. 0 :: trit) (replicate n (0 :: trit)) (slice (snd d) n (fst d)) = replicate n 0"
    using l(1) map2_second [of "replicate n (0 :: trit)" "slice (snd d) n (fst d)"] map2_const [of "replicate n (0 :: trit)" "slice (snd d) n (fst d)" 0] by simp_all
  show ?thesis using duplex_run_chunk [of d "replicate n 0" "\<lambda>x t. t" "\<lambda>x t. 0" "replicate k 0"] l m by (simp add: duplex_squeeze_def replicate_add Let_def)
qed

lemma squeeze_eq_runs:
  assumes "duplex_ok (duplex_of m spongos)" "window m e" "trits_p e \<noteq> sp_sponge spongos" "valid_trits (rd m e)"
  shows "mam_spongos_squeeze_eq F m spongos e r =
    (let (ys, d) = duplex_squeeze F (trits_size e) (duplex_of m spongos) in Some (rd m e = ys \<and> r, with_duplex m spongos d))"
  using assms
proof (induction "trits_size e" arbitrary: m spongos e r rule: less_induct)
  case less
  let ?f = "\<lambda>x t :: trit. t" and ?g = "\<lambda>x t :: trit. 0 :: trit"
  show ?case
  proof (cases "trits_size e = 0")
    case True
    then show ?thesis using less.prems by (subst mam_spongos_squeeze_eq.simps) (simp add: empty_iff rd_empty duplex_squeeze_def with_duplex_def duplex_of_def)
  next
    case False
    define n where "n = min (trits_size e) (MAM_SPONGE_RATE - sp_pos spongos)"
    have pos: "0 < trits_size e" using False by simp
    note w = rest_window [OF less.prems(1)] and c = chunk_facts [OF less.prems(1,2) pos less.prems(3) n_def] and z = zero_rest [OF less.prems(1)]
    let ?ts = "slice (sp_pos spongos) n (m (sp_sponge spongos))" and ?xs = "take n (rd m e)"
    obtain m' spongos' where s: "step_store F (\<lambda>x t. x) ?g n m spongos e e = (m', spongos')" by fastforce
    note facts = step_store_facts [where Q = "\<lambda>_. True", OF less.prems(1,2,2) refl disjI1 [OF refl] less.prems(3,3) _ n_def _ s]
    have fs: "duplex_ok (duplex_of m' spongos')" "window m' (after e n)" "rd m' (after e n) = drop n (rd m e)" "sp_sponge spongos' = sp_sponge spongos"
      using facts(1-4) window_parts(2) [OF less.prems(2) c(1)] by (simp_all add: list_all_iff)
    have z0: "map2 ?g ?xs ?ts = replicate n 0" using map2_const [of ?xs ?ts 0] c(7,8) by simp
    have x0: "map2 (\<lambda>x t. x) ?xs ?ts = ?xs" by (rule map2_first) (simp only: c)
    have st: "with_duplex m spongos (tick F (blit (m (sp_sponge spongos)) (sp_pos spongos) (replicate n 0), sp_pos spongos + n)) = (m', spongos')"
      using s z0 x0 c(9) by (simp add: step_store_def Let_def)
    have tk: "trits_take_min (rest spongos) (trits_size e) = upto (rest spongos) n"
      using w(2,3) n_def by (auto simp: trits_take_min_def upto_def window_def trits_size_def min_def)
    have u: "window m (upto (rest spongos) n)" "window m (upto e n)" "rd m (upto (rest spongos) n) = ?ts" "rd m (upto e n) = ?xs" "valid_trits ?ts" "valid_trits ?xs"
      using window_parts(1) [OF w(2)] window_parts(1) [OF less.prems(2) c(1)] w(3,5) c(1,2) less.prems(1,4)
      by (simp_all add: rd_upto valid_trits_take valid_trits_slice duplex_ok_def duplex_of_def)
    have cmp: "trits_cmp_eq m (upto (rest spongos) n) (upto e n) = Some (?ts = ?xs)" using trits_cmp_eq_rd [OF u(1,2)] u(3-6) by (simp add: size_parts)
    have "mam_spongos_squeeze_eq F m spongos e r = mam_spongos_squeeze_eq F m' spongos' (after e n) (?ts = ?xs \<and> r)"
      using w(1) c(3,4) tk cmp z [OF c(2)] trits_take_upto [OF less.prems(2) c(1)] st
      by (subst mam_spongos_squeeze_eq.simps) (simp add: Let_def size_parts update_tick)
    also have "\<dots> = (let (ys, d) = duplex_squeeze F (trits_size (after e n)) (duplex_of m' spongos') in Some (rd m' (after e n) = ys \<and> ?ts = ?xs \<and> r, with_duplex m' spongos' d))"
      by (rule less.hyps) (use c(1) pos less.prems fs n_def in \<open>simp_all add: size_parts valid_trits_drop duplex_ok_def duplex_of_def\<close>)
    also have "\<dots> = (let (ys, d) = duplex_squeeze F (trits_size e) (duplex_of m spongos) in Some (rd m e = ys \<and> r, with_duplex m spongos d))"
    proof -
      have d': "duplex_of m' spongos' = tick F (blit (m (sp_sponge spongos)) (sp_pos spongos) (replicate n 0), sp_pos spongos + n)"
        using with_duplex_of [of m spongos] st by (metis fst_conv snd_conv)
      have sq: "duplex_squeeze F (trits_size e) (duplex_of m spongos) = (let (ys, d) = duplex_squeeze F (trits_size (after e n)) (duplex_of m' spongos') in (?ts @ ys, d))"
        using squeeze_split [OF less.prems(1), of n "trits_size e - n"] c(1,2) unfolding d' by (simp add: size_parts duplex_of_def)
      have eq: "rd m e = ?ts @ ys \<longleftrightarrow> drop n (rd m e) = ys \<and> ?ts = ?xs" for ys
        using append_eq_append_conv [of ?xs ?ts "drop n (rd m e)" ys] c(7,8) by auto
      have wd: "with_duplex m' spongos' d = with_duplex m spongos d" for d using st by (auto simp: with_duplex_def)
      show ?thesis unfolding sq fs(3) wd by (simp add: eq split_beta)
    qed
    finally show ?thesis .
  qed
qed

text \<open>A machine in the state of the encryption decrypts what it gave.\<close>

lemma duplex_decr_encr:
  assumes "valid_trits xs" "duplex_ok d"
  shows "duplex_decr F (fst (duplex_encr F xs d)) d = (xs, snd (duplex_encr F xs d))"
  using assms unfolding duplex_decr_def duplex_encr_def
proof (induction xs arbitrary: d)
  case (Cons x xs)
  have t: "is_trit (fst d ! snd d)" using Cons.prems(2) valid_trits_nth by (auto simp: duplex_ok_def)
  have "duplex_ok (tick F ((fst d)[snd d := x], snd d + 1))" using Cons.prems by (intro tick_ok) (auto simp: duplex_ok_def intro: valid_update)
  from Cons.IH [OF _ this] Cons.prems(1) t show ?case by (simp add: Let_def split_beta)
qed simp

lemma encr_ok:
  assumes "valid_trits xs" "duplex_ok d"
  shows "duplex_ok (snd (duplex_encr F xs d))" "length (fst (duplex_encr F xs d)) = length xs" "valid_trits (fst (duplex_encr F xs d))"
  using duplex_run_ok [of trit_add "\<lambda>x t. x" xs d] assms by (simp_all add: duplex_encr_def)

lemma squeeze_ok:
  assumes "duplex_ok d"
  shows "length (fst (duplex_squeeze F n d)) = n" "valid_trits (fst (duplex_squeeze F n d))" "duplex_ok (snd (duplex_squeeze F n d))"
proof -
  have "valid_trits (replicate n 0)" by (simp add: list_all_iff is_trit_cases)
  from duplex_run_ok [of "\<lambda>x t. t" "\<lambda>x t. 0", OF _ this assms]
  show "length (fst (duplex_squeeze F n d)) = n" "valid_trits (fst (duplex_squeeze F n d))" "duplex_ok (snd (duplex_squeeze F n d))"
    by (simp_all add: duplex_squeeze_def is_trit_cases)
qed

lemma decryption:
  assumes "duplex_ok (duplex_of m spongos)" "window m x" "window m y" "trits_size x = trits_size y" "x = y \<or> apart x y"
    and "trits_p x \<noteq> sp_sponge spongos" "trits_p y \<noteq> sp_sponge spongos" "valid_trits (rd m x)"
  shows "\<exists>m1 spongos1. mam_spongos_encr F m spongos x y = Some (m1, spongos1) \<and>
    (\<forall>m' spongos' u z. duplex_of m' spongos' = duplex_of m spongos \<and> window m' u \<and> window m' z \<and> rd m' u = rd m1 y \<and> trits_size u = trits_size z \<and> (u = z \<or> apart u z)
       \<and> trits_p u \<noteq> sp_sponge spongos' \<and> trits_p z \<noteq> sp_sponge spongos' \<longrightarrow>
       (\<exists>m2 spongos2. mam_spongos_decr F m' spongos' u z = Some (m2, spongos2) \<and> rd m2 z = rd m x \<and> duplex_of m2 spongos2 = duplex_of m1 spongos1))"
proof -
  let ?e = "duplex_encr F (rd m x) (duplex_of m spongos)"
  note ok = encr_ok [OF assms(8,1)]
  have len: "length (fst ?e) = trits_size y" using ok(2) length_rd [OF assms(2)] assms(4) by simp
  define r where "r = with_duplex (wr m y (fst ?e)) spongos (snd ?e)"
  have e: "mam_spongos_encr F m spongos x y = Some r" using encr_runs [OF assms] by (simp add: r_def split_beta)
  have y: "rd (fst r) y = fst ?e" "duplex_of (fst r) (snd r) = snd ?e"
    using rd_wr_same [OF assms(3) len] assms(7) by (simp_all add: r_def with_duplex_def rd_def duplex_of_def)
  have "\<exists>m2 spongos2. mam_spongos_decr F m' spongos' u z = Some (m2, spongos2) \<and> rd m2 z = rd m x \<and> duplex_of m2 spongos2 = duplex_of (fst r) (snd r)"
    if a: "duplex_of m' spongos' = duplex_of m spongos" "window m' u" "window m' z" "rd m' u = rd (fst r) y" "trits_size u = trits_size z" "u = z \<or> apart u z"
      "trits_p u \<noteq> sp_sponge spongos'" "trits_p z \<noteq> sp_sponge spongos'" for m' spongos' u z
  proof -
    have v: "duplex_ok (duplex_of m' spongos')" "valid_trits (rd m' u)" using a(1,4) assms(1) y(1) ok(3) by simp_all
    have d: "duplex_decr F (rd m' u) (duplex_of m' spongos') = (rd m x, snd ?e)" using duplex_decr_encr [OF assms(8,1)] a(1,4) y(1) by simp
    have lz: "length (rd m x) = trits_size z" using length_rd [OF a(2)] a(4,5) y(1) ok(2) by simp
    have "mam_spongos_decr F m' spongos' u z = Some (with_duplex (wr m' z (rd m x)) spongos' (snd ?e))" using decr_runs [OF v(1) a(2,3,5-8) v(2)] d by simp
    moreover have "rd (fst (with_duplex (wr m' z (rd m x)) spongos' (snd ?e))) z = rd m x"
      using rd_wr_same [OF a(3) lz] a(8) by (simp add: with_duplex_def rd_def)
    ultimately show ?thesis using y(2) by (metis prod.collapse with_duplex_of)
  qed
  with e show ?thesis by (metis prod.collapse)
qed

lemma mac_check:
  assumes "duplex_ok (duplex_of m spongos)" "window m y" "trits_p y \<noteq> sp_sponge spongos"
  shows "\<exists>m1 spongos1. mam_spongos_squeeze F m spongos y = Some (m1, spongos1) \<and>
    (\<forall>m' spongos' e. duplex_of m' spongos' = duplex_of m spongos \<and> window m' e \<and> trits_size e = trits_size y \<and> trits_p e \<noteq> sp_sponge spongos' \<and> valid_trits (rd m' e) \<longrightarrow>
       (\<exists>m2 spongos2. mam_spongos_squeeze_eq F m' spongos' e True = Some (rd m' e = rd m1 y, m2, spongos2) \<and> duplex_of m2 spongos2 = duplex_of m1 spongos1))"
proof -
  let ?q = "duplex_squeeze F (trits_size y) (duplex_of m spongos)"
  define r where "r = with_duplex (wr m y (fst ?q)) spongos (snd ?q)"
  have s: "mam_spongos_squeeze F m spongos y = Some r" using squeeze_runs [OF assms] by (simp add: r_def split_beta)
  have y: "rd (fst r) y = fst ?q" "duplex_of (fst r) (snd r) = snd ?q"
    using rd_wr_same [OF assms(2) squeeze_ok(1) [OF assms(1)]] assms(3) by (simp_all add: r_def with_duplex_def rd_def duplex_of_def)
  have "\<exists>m2 spongos2. mam_spongos_squeeze_eq F m' spongos' e True = Some (rd m' e = rd (fst r) y, m2, spongos2) \<and> duplex_of m2 spongos2 = duplex_of (fst r) (snd r)"
    if a: "duplex_of m' spongos' = duplex_of m spongos" "window m' e" "trits_size e = trits_size y" "trits_p e \<noteq> sp_sponge spongos'" "valid_trits (rd m' e)" for m' spongos' e
  proof -
    have "mam_spongos_squeeze_eq F m' spongos' e True = Some (rd m' e = rd (fst r) y, with_duplex m' spongos' (snd ?q))"
      using squeeze_eq_runs [of m' spongos' e True] a assms(1) y(1) by (simp add: split_beta)
    then show ?thesis using y(2) by (metis prod.collapse with_duplex_of)
  qed
  with s show ?thesis by (metis prod.collapse)
qed

end

section \<open>The permutation of the code\<close>

interpretation mam_troika: sponge_permutation mam_troika_transform
  by unfold_locales (use mam_transform_equal [where fs = "replicate SLICESIZE (t27_init 0 0)"] in simp_all)

lemma ftroika_perm: "length fs = SLICESIZE \<Longrightarrow> sponge_permutation (mam_ftroika_transform fs)"
  by unfold_locales (simp_all add: mam_transform_equal)

section \<open>Properties\<close>

text \<open>
  C21. The spongos is a machine that takes one trit at a time: whatever the sizes of the windows and the position in the rate, absorbing, squeezing, encrypting and decrypting with
  the permutation of the code return, write what the machine gives into the window and leave its state; nothing else changes.
\<close>

theorem spongos_refines_duplex:
  assumes "length fs = SLICESIZE" "duplex_ok (duplex_of m spongos)" "window m x" "window m y" "trits_size x = trits_size y" "x = y \<or> apart x y"
    and "trits_p x \<noteq> sp_sponge spongos" "trits_p y \<noteq> sp_sponge spongos" "valid_trits (rd m x)"
  shows "let F = mam_ftroika_transform fs; d = duplex_of m spongos; ts = rd m x
    in mam_spongos_absorb F m spongos x = Some (with_duplex m spongos (duplex_absorb F ts d))
      \<and> mam_spongos_squeeze F m spongos y = (let (ys, d) = duplex_squeeze F (trits_size y) d in Some (with_duplex (wr m y ys) spongos d))
      \<and> mam_spongos_encr F m spongos x y = (let (ys, d) = duplex_encr F ts d in Some (with_duplex (wr m y ys) spongos d))
      \<and> mam_spongos_decr F m spongos x y = (let (ys, d) = duplex_decr F ts d in Some (with_duplex (wr m y ys) spongos d))"
  using sponge_permutation.absorb_runs [OF ftroika_perm [OF assms(1)] assms(2,3,7,9)] sponge_permutation.squeeze_runs [OF ftroika_perm [OF assms(1)] assms(2,4,8)]
    sponge_permutation.encr_runs [OF ftroika_perm [OF assms(1)] assms(2-)] sponge_permutation.decr_runs [OF ftroika_perm [OF assms(1)] assms(2-)]
  by (simp add: Let_def)

definition crypt_store :: mem where
  "crypt_store = (\<lambda>_. [])(1 := replicate MAM_SPONGE_WIDTH 0, 2 := replicate 500 1, 3 := replicate 500 0)"

definition lanes0 :: "t27_t list" where
  "lanes0 = replicate 27 (t27_init 0 0)"

lemma crypt_store_facts:
  "length lanes0 = SLICESIZE" "duplex_ok (duplex_of crypt_store \<lparr>sp_sponge = 1, sp_pos = 400\<rparr>)"
  "window crypt_store (trits_from_rep 500 2)" "window crypt_store (trits_from_rep 500 3)" "trits_size (trits_from_rep 500 2) = trits_size (trits_from_rep 500 3)"
  "apart (trits_from_rep 500 2) (trits_from_rep 500 3)" "trits_p (trits_from_rep 500 2) = 2" "trits_p (trits_from_rep 500 3) = 3" "valid_trits (rd crypt_store (trits_from_rep 500 2))"
  by (simp_all add: lanes0_def crypt_store_def duplex_of_def duplex_ok_def window_def trits_from_rep_def apart_def rd_def slice_def trits_size_def list_all_iff is_trit_cases)

theorem spongos_refines_duplex_witness:
  "mam_spongos_absorb (mam_ftroika_transform lanes0) crypt_store \<lparr>sp_sponge = 1, sp_pos = 400\<rparr> (trits_from_rep 500 2)
     = Some (with_duplex crypt_store \<lparr>sp_sponge = 1, sp_pos = 400\<rparr>
         (duplex_absorb (mam_ftroika_transform lanes0) (rd crypt_store (trits_from_rep 500 2)) (duplex_of crypt_store \<lparr>sp_sponge = 1, sp_pos = 400\<rparr>)))"
  using spongos_refines_duplex [OF crypt_store_facts(1-5)] crypt_store_facts(6-) by (simp add: Let_def)

text \<open>
  C19. Decryption is the inverse of encryption: encrypting returns, and a spongos in the same state decrypts a window with the ciphertext to the plaintext
  and is in the state of the encrypting spongos afterwards, in place or not, at every position of the rate.
\<close>

theorem spongos_decrypts:
  assumes "length fs = SLICESIZE" "duplex_ok (duplex_of m spongos)" "window m x" "window m y" "trits_size x = trits_size y" "x = y \<or> apart x y"
    and "trits_p x \<noteq> sp_sponge spongos" "trits_p y \<noteq> sp_sponge spongos" "valid_trits (rd m x)"
  shows "\<exists>m1 spongos1. mam_spongos_encr (mam_ftroika_transform fs) m spongos x y = Some (m1, spongos1) \<and>
    (\<forall>m' spongos' u z. duplex_of m' spongos' = duplex_of m spongos \<and> window m' u \<and> window m' z \<and> rd m' u = rd m1 y \<and> trits_size u = trits_size z \<and> (u = z \<or> apart u z)
       \<and> trits_p u \<noteq> sp_sponge spongos' \<and> trits_p z \<noteq> sp_sponge spongos' \<longrightarrow>
       (\<exists>m2 spongos2. mam_spongos_decr (mam_ftroika_transform fs) m' spongos' u z = Some (m2, spongos2) \<and> rd m2 z = rd m x \<and> duplex_of m2 spongos2 = duplex_of m1 spongos1))"
  by (rule sponge_permutation.decryption [OF ftroika_perm [OF assms(1)] assms(2-)])

theorem spongos_decrypts_witness:
  "\<exists>m1 spongos1. mam_spongos_encr (mam_ftroika_transform lanes0) crypt_store \<lparr>sp_sponge = 1, sp_pos = 400\<rparr> (trits_from_rep 500 2) (trits_from_rep 500 3) = Some (m1, spongos1)"
  using spongos_decrypts [OF crypt_store_facts(1-5), of, OF disjI2 [OF crypt_store_facts(6)]] crypt_store_facts(7-) by fastforce

text \<open>
  C20. The check of a message authentication code accepts the code and nothing else: after a spongos has squeezed a code, one in the same state compares a window of
  the same size with it, gives true exactly if the trits are the same, and is in the state of the squeezing spongos afterwards.
\<close>

theorem spongos_mac_check:
  assumes "length fs = SLICESIZE" "duplex_ok (duplex_of m spongos)" "window m y" "trits_p y \<noteq> sp_sponge spongos"
  shows "\<exists>m1 spongos1. mam_spongos_squeeze (mam_ftroika_transform fs) m spongos y = Some (m1, spongos1) \<and>
    (\<forall>m' spongos' e. duplex_of m' spongos' = duplex_of m spongos \<and> window m' e \<and> trits_size e = trits_size y \<and> trits_p e \<noteq> sp_sponge spongos' \<and> valid_trits (rd m' e) \<longrightarrow>
       (\<exists>m2 spongos2. mam_spongos_squeeze_eq (mam_ftroika_transform fs) m' spongos' e True = Some (rd m' e = rd m1 y, m2, spongos2) \<and> duplex_of m2 spongos2 = duplex_of m1 spongos1))"
  by (rule sponge_permutation.mac_check [OF ftroika_perm [OF assms(1)] assms(2-)])

theorem spongos_mac_check_witness:
  "\<exists>m1 spongos1. mam_spongos_squeeze (mam_ftroika_transform lanes0) crypt_store \<lparr>sp_sponge = 1, sp_pos = 400\<rparr> (trits_from_rep 500 3) = Some (m1, spongos1)"
  using spongos_mac_check [OF crypt_store_facts(1,2,4)] crypt_store_facts(8) by fastforce

end
