(* ===== verification/Mam_Pb3.thy ===== *)
theory Mam_Pb3
  imports Prelude Errors Trit_Long Mam_Trits Mam_Sponge Mam_Spongos
begin

text \<open>
  \<open>mam/pb3/pb3.c\<close> and \<open>mam/sponge/spongos_types.c\<close>: the fields of MAM messages, numbers and strings of trytes, in a buffer; and the operations that write a field and absorb it,
  encrypt it, or squeeze a code. What is written is read back, and the reader's spongos follows the writer's. A buffer is a window that the functions advance.
\<close>

section \<open>Definitions\<close>

abbreviation NUMBER_OF_TRITS_IN_A_TRYTE :: nat where "NUMBER_OF_TRITS_IN_A_TRYTE \<equiv> 3"

definition pb3_trits_take :: "trits_t \<Rightarrow> nat \<Rightarrow> (trits_t \<times> trits_t) option" where
  "pb3_trits_take buffer n = trits_advance buffer n"

definition pb3_sizeof_tryte :: nat where "pb3_sizeof_tryte = NUMBER_OF_TRITS_IN_A_TRYTE"

definition pb3_encode_tryte :: "mem \<Rightarrow> int \<Rightarrow> trits_t \<Rightarrow> (mem \<times> trits_t) option" where
  "pb3_encode_tryte m tryte buffer = do {
     MAM_ASSERT (\<not> trits_size buffer < pb3_sizeof_tryte);
     (t, buffer) \<leftarrow> pb3_trits_take buffer NUMBER_OF_TRITS_IN_A_TRYTE;
     m \<leftarrow> trits_put3 m t tryte;
     Some (m, buffer) }"

text \<open>Decoding gives the code, the value where it is assigned, and the advanced buffer.\<close>

definition pb3_decode_tryte :: "mem \<Rightarrow> trits_t \<Rightarrow> (retcode \<times> int option \<times> trits_t) option" where
  "pb3_decode_tryte m buffer =
     (if trits_size buffer < pb3_sizeof_tryte then Some (RC_MAM_PB3_EOF, None, buffer)
      else do {
        (t, buffer) \<leftarrow> pb3_trits_take buffer NUMBER_OF_TRITS_IN_A_TRYTE;
        v \<leftarrow> trits_get3 m t;
        Some (RC_OK, Some v, buffer) })"

definition pb3_sizeof_trint :: nat where "pb3_sizeof_trint = 9"

definition pb3_encode_trint :: "mem \<Rightarrow> int \<Rightarrow> trits_t \<Rightarrow> (mem \<times> trits_t) option" where
  "pb3_encode_trint m trint buffer = do {
     MAM_ASSERT (\<not> trits_size buffer < pb3_sizeof_trint);
     (t, buffer) \<leftarrow> pb3_trits_take buffer 9;
     m \<leftarrow> trits_put9 m t trint;
     Some (m, buffer) }"

definition pb3_decode_trint :: "mem \<Rightarrow> trits_t \<Rightarrow> (retcode \<times> int option \<times> trits_t) option" where
  "pb3_decode_trint m buffer =
     (if trits_size buffer < pb3_sizeof_trint then Some (RC_MAM_PB3_EOF, None, buffer)
      else do {
        (t, buffer) \<leftarrow> pb3_trits_take buffer 9;
        v \<leftarrow> trits_get9 m t;
        Some (RC_OK, Some v, buffer) })"

definition pb3_sizeof_longtrint :: nat where "pb3_sizeof_longtrint = 18"

definition pb3_encode_longtrint :: "mem \<Rightarrow> int \<Rightarrow> trits_t \<Rightarrow> (mem \<times> trits_t) option" where
  "pb3_encode_longtrint m trint buffer = do {
     MAM_ASSERT (\<not> trits_size buffer < pb3_sizeof_longtrint);
     (t, buffer) \<leftarrow> pb3_trits_take buffer 18;
     m \<leftarrow> trits_put18 m t trint;
     Some (m, buffer) }"

definition pb3_decode_longtrint :: "mem \<Rightarrow> trits_t \<Rightarrow> (retcode \<times> int option \<times> trits_t) option" where
  "pb3_decode_longtrint m buffer =
     (if trits_size buffer < pb3_sizeof_longtrint then Some (RC_MAM_PB3_EOF, None, buffer)
      else do {
        (t, buffer) \<leftarrow> pb3_trits_take buffer 18;
        v \<leftarrow> trits_get18 m t;
        Some (RC_OK, Some v, buffer) })"

definition pb3_sizeof_size_t :: "int \<Rightarrow> nat option" where
  "pb3_sizeof_size_t n = trits_sizeof_size_t n"

definition pb3_encode_size_t :: "mem \<Rightarrow> int \<Rightarrow> trits_t \<Rightarrow> (mem \<times> trits_t) option" where
  "pb3_encode_size_t m n buffer = trits_encode_size_t m n buffer"

definition pb3_decode_size_t :: "mem \<Rightarrow> trits_t \<Rightarrow> (retcode \<times> int option \<times> trits_t) option" where
  "pb3_decode_size_t m buffer = trits_decode_size_t m buffer"

definition pb3_sizeof_ntrytes :: "nat \<Rightarrow> nat" where
  "pb3_sizeof_ntrytes n = NUMBER_OF_TRITS_IN_A_TRYTE * n"

definition pb3_encode_ntrytes :: "mem \<Rightarrow> trits_t \<Rightarrow> trits_t \<Rightarrow> (mem \<times> trits_t) option" where
  "pb3_encode_ntrytes m ntrytes buffer = do {
     let n = trits_size ntrytes;
     MAM_ASSERT (n mod NUMBER_OF_TRITS_IN_A_TRYTE = 0);
     MAM_ASSERT (n \<le> trits_size buffer);
     (t, buffer) \<leftarrow> pb3_trits_take buffer n;
     m \<leftarrow> trits_copy m ntrytes t;
     Some (m, buffer) }"

definition pb3_decode_ntrytes :: "mem \<Rightarrow> trits_t \<Rightarrow> trits_t \<Rightarrow> (retcode \<times> mem \<times> trits_t) option" where
  "pb3_decode_ntrytes m ntrytes buffer = do {
     let n = trits_size ntrytes;
     MAM_ASSERT (n mod NUMBER_OF_TRITS_IN_A_TRYTE = 0);
     if n > trits_size buffer then Some (RC_MAM_PB3_EOF, m, buffer)
     else do {
       (t, buffer) \<leftarrow> pb3_trits_take buffer n;
       m \<leftarrow> trits_copy m t ntrytes;
       Some (RC_OK, m, buffer) } }"

subsection \<open>Fields and the spongos\<close>

type_synonym perm = "trit list \<Rightarrow> trit list"

text \<open>What was written since \<open>b0\<close> is absorbed.\<close>

definition absorb_since :: "perm \<Rightarrow> mem \<Rightarrow> mam_spongos_t \<Rightarrow> trits_t \<Rightarrow> trits_t \<Rightarrow> (mem \<times> mam_spongos_t) option" where
  "absorb_since F m spongos b0 buffer = do { t \<leftarrow> trits_diff b0 buffer; mam_spongos_absorb F m spongos t }"

definition pb3_wrap_absorb_tryte :: "perm \<Rightarrow> mem \<Rightarrow> mam_spongos_t \<Rightarrow> trits_t \<Rightarrow> int \<Rightarrow> (mem \<times> mam_spongos_t \<times> trits_t) option" where
  "pb3_wrap_absorb_tryte F m spongos buffer tryte = do {
     let b0 = buffer;
     (m, buffer) \<leftarrow> pb3_encode_tryte m tryte buffer;
     (m, spongos) \<leftarrow> absorb_since F m spongos b0 buffer;
     Some (m, spongos, buffer) }"

definition pb3_unwrap_absorb_tryte :: "perm \<Rightarrow> mem \<Rightarrow> mam_spongos_t \<Rightarrow> trits_t \<Rightarrow> (retcode \<times> int option \<times> mem \<times> mam_spongos_t \<times> trits_t) option" where
  "pb3_unwrap_absorb_tryte F m spongos buffer = do {
     let b0 = buffer;
     (ret, v, buffer) \<leftarrow> pb3_decode_tryte m buffer;
     if ret \<noteq> RC_OK then Some (ret, v, m, spongos, buffer)
     else do {
       (m, spongos) \<leftarrow> absorb_since F m spongos b0 buffer;
       Some (ret, v, m, spongos, buffer) } }"

definition pb3_wrap_absorb_trint :: "perm \<Rightarrow> mem \<Rightarrow> mam_spongos_t \<Rightarrow> trits_t \<Rightarrow> int \<Rightarrow> (mem \<times> mam_spongos_t \<times> trits_t) option" where
  "pb3_wrap_absorb_trint F m spongos buffer trint = do {
     let b0 = buffer;
     (m, buffer) \<leftarrow> pb3_encode_trint m trint buffer;
     (m, spongos) \<leftarrow> absorb_since F m spongos b0 buffer;
     Some (m, spongos, buffer) }"

definition pb3_unwrap_absorb_trint :: "perm \<Rightarrow> mem \<Rightarrow> mam_spongos_t \<Rightarrow> trits_t \<Rightarrow> (retcode \<times> int option \<times> mem \<times> mam_spongos_t \<times> trits_t) option" where
  "pb3_unwrap_absorb_trint F m spongos buffer = do {
     let b0 = buffer;
     (ret, v, buffer) \<leftarrow> pb3_decode_trint m buffer;
     if ret \<noteq> RC_OK then Some (ret, v, m, spongos, buffer)
     else do {
       (m, spongos) \<leftarrow> absorb_since F m spongos b0 buffer;
       Some (ret, v, m, spongos, buffer) } }"

definition pb3_wrap_absorb_size_t :: "perm \<Rightarrow> mem \<Rightarrow> mam_spongos_t \<Rightarrow> trits_t \<Rightarrow> int \<Rightarrow> (mem \<times> mam_spongos_t \<times> trits_t) option" where
  "pb3_wrap_absorb_size_t F m spongos buffer n = do {
     let b0 = buffer;
     (m, buffer) \<leftarrow> pb3_encode_size_t m n buffer;
     (m, spongos) \<leftarrow> absorb_since F m spongos b0 buffer;
     Some (m, spongos, buffer) }"

definition pb3_unwrap_absorb_size_t :: "perm \<Rightarrow> mem \<Rightarrow> mam_spongos_t \<Rightarrow> trits_t \<Rightarrow> (retcode \<times> int option \<times> mem \<times> mam_spongos_t \<times> trits_t) option" where
  "pb3_unwrap_absorb_size_t F m spongos buffer = do {
     let b0 = buffer;
     (ret, v, buffer) \<leftarrow> pb3_decode_size_t m buffer;
     if ret \<noteq> RC_OK then Some (ret, v, m, spongos, buffer)
     else do {
       (m, spongos) \<leftarrow> absorb_since F m spongos b0 buffer;
       Some (ret, v, m, spongos, buffer) } }"

definition pb3_wrap_absorb_ntrytes :: "perm \<Rightarrow> mem \<Rightarrow> mam_spongos_t \<Rightarrow> trits_t \<Rightarrow> trits_t \<Rightarrow> (mem \<times> mam_spongos_t \<times> trits_t) option" where
  "pb3_wrap_absorb_ntrytes F m spongos buffer trits = do {
     let b0 = buffer;
     (m, buffer) \<leftarrow> pb3_encode_ntrytes m trits buffer;
     (m, spongos) \<leftarrow> absorb_since F m spongos b0 buffer;
     Some (m, spongos, buffer) }"

definition pb3_unwrap_absorb_ntrytes :: "perm \<Rightarrow> mem \<Rightarrow> mam_spongos_t \<Rightarrow> trits_t \<Rightarrow> trits_t \<Rightarrow> (retcode \<times> mem \<times> mam_spongos_t \<times> trits_t) option" where
  "pb3_unwrap_absorb_ntrytes F m spongos buffer trits = do {
     let b0 = buffer;
     (ret, m, buffer) \<leftarrow> pb3_decode_ntrytes m trits buffer;
     if ret \<noteq> RC_OK then Some (ret, m, spongos, buffer)
     else do {
       (m, spongos) \<leftarrow> absorb_since F m spongos b0 buffer;
       Some (ret, m, spongos, buffer) } }"

definition pb3_wrap_crypt_ntrytes :: "perm \<Rightarrow> mem \<Rightarrow> mam_spongos_t \<Rightarrow> trits_t \<Rightarrow> trits_t \<Rightarrow> (mem \<times> mam_spongos_t \<times> trits_t) option" where
  "pb3_wrap_crypt_ntrytes F m spongos buffer trits = do {
     let n = trits_size trits;
     MAM_ASSERT (n mod NUMBER_OF_TRITS_IN_A_TRYTE = 0);
     MAM_ASSERT (n \<le> trits_size buffer);
     (t, buffer) \<leftarrow> pb3_trits_take buffer n;
     (m, spongos) \<leftarrow> mam_spongos_encr F m spongos trits t;
     Some (m, spongos, buffer) }"

definition pb3_unwrap_crypt_ntrytes :: "perm \<Rightarrow> mem \<Rightarrow> mam_spongos_t \<Rightarrow> trits_t \<Rightarrow> trits_t \<Rightarrow> (retcode \<times> mem \<times> mam_spongos_t \<times> trits_t) option" where
  "pb3_unwrap_crypt_ntrytes F m spongos buffer trits = do {
     let n = trits_size trits;
     MAM_ASSERT (n mod NUMBER_OF_TRITS_IN_A_TRYTE = 0);
     if n > trits_size buffer then Some (RC_MAM_PB3_EOF, m, spongos, buffer)
     else do {
       (t, buffer) \<leftarrow> pb3_trits_take buffer n;
       (m, spongos) \<leftarrow> mam_spongos_decr F m spongos t trits;
       Some (RC_OK, m, spongos, buffer) } }"

definition pb3_wrap_squeeze_ntrytes :: "perm \<Rightarrow> mem \<Rightarrow> mam_spongos_t \<Rightarrow> trits_t \<Rightarrow> nat \<Rightarrow> (mem \<times> mam_spongos_t \<times> trits_t) option" where
  "pb3_wrap_squeeze_ntrytes F m spongos buffer n = do {
     MAM_ASSERT (pb3_sizeof_ntrytes n \<le> trits_size buffer);
     (t, buffer) \<leftarrow> pb3_trits_take buffer (pb3_sizeof_ntrytes n);
     (m, spongos) \<leftarrow> mam_spongos_squeeze F m spongos t;
     Some (m, spongos, buffer) }"

definition pb3_unwrap_squeeze_ntrytes :: "perm \<Rightarrow> mem \<Rightarrow> mam_spongos_t \<Rightarrow> trits_t \<Rightarrow> nat \<Rightarrow> (retcode \<times> mem \<times> mam_spongos_t \<times> trits_t) option" where
  "pb3_unwrap_squeeze_ntrytes F m spongos buffer n =
     (if pb3_sizeof_ntrytes n > trits_size buffer then Some (RC_MAM_PB3_EOF, m, spongos, buffer)
      else do {
        (t, buffer) \<leftarrow> pb3_trits_take buffer (pb3_sizeof_ntrytes n);
        (eq, m, spongos) \<leftarrow> mam_spongos_squeeze_eq F m spongos t True;
        if \<not> eq then Some (RC_MAM_PB3_BAD_MAC, m, spongos, buffer) else Some (RC_OK, m, spongos, buffer) })"

definition pb3_absorb_external_ntrytes :: "perm \<Rightarrow> mem \<Rightarrow> mam_spongos_t \<Rightarrow> trits_t \<Rightarrow> (mem \<times> mam_spongos_t) option" where
  "pb3_absorb_external_ntrytes F m spongos trits = do {
     MAM_ASSERT (trits_size trits mod 3 = 0);
     mam_spongos_absorb F m spongos trits }"

definition pb3_squeeze_external_ntrytes :: "perm \<Rightarrow> mem \<Rightarrow> mam_spongos_t \<Rightarrow> trits_t \<Rightarrow> (mem \<times> mam_spongos_t) option" where
  "pb3_squeeze_external_ntrytes F m spongos trits = do {
     MAM_ASSERT (trits_size trits mod 3 = 0);
     mam_spongos_squeeze F m spongos trits }"

subsection \<open>The spongos as a field\<close>

definition mam_spongos_serialized_size :: "mam_spongos_t \<Rightarrow> nat option" where
  "mam_spongos_serialized_size spongos = do { k \<leftarrow> pb3_sizeof_size_t (int (sp_pos spongos)); Some (k + MAM_SPONGE_WIDTH) }"

definition mam_spongos_serialize :: "mem \<Rightarrow> mam_spongos_t \<Rightarrow> trits_t \<Rightarrow> (mem \<times> trits_t) option" where
  "mam_spongos_serialize m spongos trits = do {
     (m, trits) \<leftarrow> pb3_encode_size_t m (int (sp_pos spongos)) trits;
     pb3_encode_ntrytes m (trits_from_rep MAM_SPONGE_WIDTH (sp_sponge spongos)) trits }"

text \<open>The position is not compared with the rate.\<close>

definition mam_spongos_deserialize :: "mem \<Rightarrow> trits_t \<Rightarrow> mam_spongos_t \<Rightarrow> (retcode \<times> mem \<times> mam_spongos_t \<times> trits_t) option" where
  "mam_spongos_deserialize m trits spongos = do {
     (ret, v, trits) \<leftarrow> pb3_decode_size_t m trits;
     let spongos = (case v of None \<Rightarrow> spongos | Some n \<Rightarrow> spongos\<lparr>sp_pos := nat n\<rparr>);
     if ret \<noteq> RC_OK then Some (ret, m, spongos, trits)
     else do {
       (ret, m, trits) \<leftarrow> pb3_decode_ntrytes m (trits_from_rep MAM_SPONGE_WIDTH (sp_sponge spongos)) trits;
       Some (ret, m, spongos, trits) } }"

section \<open>Numbers\<close>

lemma mods_divs:
  assumes "0 < k" "odd k" "0 < N" "odd N" "M = k * N" "2 * \<bar>v\<bar> < M"
  shows "MAM_MODS v M k + k * MAM_DIVS v M k = v" "2 * \<bar>MAM_MODS v M k\<bar> < k" "2 * \<bar>MAM_DIVS v M k\<bar> < N"
proof -
  obtain a where a: "k = 2 * a + 1" using assms(2) by (elim oddE)
  obtain b where b: "N = 2 * b + 1" using assms(4) by (elim oddE)
  define w where "w = v + (k * b + a)"
  have M: "M = 2 * (k * b + a) + 1" using a b assms(5) by (simp add: algebra_simps)
  have nn: "0 \<le> a" "0 \<le> b" using a b assms(1,3) by simp_all
  have w: "0 \<le> w" "w < k * N" using assms(5,6) M by (simp_all add: w_def)
  have d: "c_div (M - 1) 2 = k * b + a" "c_div (k - 1) 2 = a" "c_div (N - 1) 2 = b" using M a b nn assms(1) by (simp_all add: c_div_nonneg)
  have "c_div M k = N" using assms(1,3,5) by (simp add: c_div_nonneg)
  then have e: "MAM_MODS v M k = w mod k - a" "MAM_DIVS v M k = w div k - b"
    using d w(1) assms(1) by (simp_all add: MAM_MODS_def MAM_DIVS_def w_def c_div_nonneg c_mod_nonneg)
  have "w mod k + k * (w div k) = w" "v = w - (k * b + a)" by (simp, simp add: w_def)
  then show "MAM_MODS v M k + k * MAM_DIVS v M k = v" unfolding e by (simp only: right_diff_distrib)
  have m: "0 \<le> w mod k" "w mod k < k" using assms(1) by simp_all
  then show "2 * \<bar>MAM_MODS v M k\<bar> < k" using e a by arith
  have "0 \<le> w div k" using w assms(1) by (simp add: pos_imp_zdiv_nonneg_iff)
  moreover have "w div k < N" using w(2) assms(1) \<open>w mod k + k * (w div k) = w\<close> m(1) by (metis add_increasing le_less_trans mult_left_less_imp_less order_le_less order_refl)
  ultimately show "2 * \<bar>MAM_DIVS v M k\<bar> < N" using e b by arith
qed

lemma bt_digits_of_value: "valid_trits ts \<Longrightarrow> length ts = n \<Longrightarrow> bt_value ts = v \<Longrightarrow> bt_digits n v = ts"
  using bt_digits_value by blast

lemma put_chain: "window m x \<Longrightarrow> length a + length b \<le> trits_size x \<Longrightarrow> wr (wr m x a) (after x (length a)) b = wr m x (a @ b)"
  by (simp add: wr_append)

lemma put1_after:
  assumes "window m x" "length a < trits_size x" "is_trit t" "k = length a"
  shows "trits_put1 (wr m x a) (after x k) t = Some (wr m x (a @ [t]))"
proof -
  have w: "window (wr m x a) (after x k)" "0 < trits_size (after x k)" using assms by (simp_all add: window_wr window_parts size_parts)
  show ?thesis using trits_put1_wr [OF w assms(3)] put_chain [OF assms(1), of a "[t]"] assms(2,4) by simp
qed

lemma trits_put3_wr:
  assumes "window m x" "3 \<le> trits_size x" "- 13 \<le> v" "v \<le> 13"
  shows "trits_put3 m x v = Some (wr m x (bt_digits 3 v))"
proof -
  define t0 where "t0 = MAM_MODS v 27 3"
  define u where "u = MAM_DIVS v 27 3"
  define t1 where "t1 = MAM_MODS u 9 3"
  define t2 where "t2 = MAM_DIVS u 9 3"
  have a: "t0 + 3 * u = v" "2 * \<bar>t0\<bar> < 3" "2 * \<bar>u\<bar> < 9" using mods_divs [of 3 9 27 v] assms(3,4) by (simp_all add: t0_def u_def)
  have b: "t1 + 3 * t2 = u" "2 * \<bar>t1\<bar> < 3" "2 * \<bar>t2\<bar> < 3" using mods_divs [of 3 3 9 u] a(3) by (simp_all add: t1_def t2_def)
  have v: "is_trit t0" "is_trit t1" "is_trit t2" using a(2) b(2,3) by (auto simp: is_trit_def)
  have wrap: "wrap8 t0 = t0" "wrap8 u = u" "wrap8 t1 = t1" "wrap8 t2 = t2" using a b by (simp_all add: wrap8_id)
  have "bt_digits 3 v = [t0, t1, t2]" by (rule bt_digits_of_value) (use v a b in simp_all)
  moreover have "trits_put1 m x t0 = Some (wr m x [t0])" using trits_put1_wr [OF assms(1)] assms(2) v by simp
  moreover have "trits_put1 (wr m x [t0]) (after x 1) t1 = Some (wr m x [t0, t1])" using put1_after [OF assms(1), of "[t0]" t1 1] assms(2) v by simp
  moreover have "trits_put1 (wr m x [t0, t1]) (after x 2) t2 = Some (wr m x [t0, t1, t2])" using put1_after [OF assms(1), of "[t0, t1]" t2 2] assms(2) v by simp
  ultimately show ?thesis
    using trits_drop_after [OF assms(1), of 1] trits_drop_after [OF assms(1), of 2] assms(2-4) wrap
    by (simp add: trits_put3_def Let_def t0_def [symmetric] u_def [symmetric] t1_def [symmetric] t2_def [symmetric])
qed

lemma get1_after:
  assumes "window m x" "k < trits_size x" "valid_trits (rd m x)"
  shows "trits_get1 m (after x k) = Some (rd m x ! k)"
proof -
  have w: "window m (after x k)" "0 < trits_size (after x k)" using assms by (simp_all add: window_parts size_parts)
  have h: "hd (rd m (after x k)) = rd m x ! k" using assms length_rd [OF assms(1)] by (simp add: rd_after hd_drop_conv_nth)
  then show ?thesis using trits_get1_hd [OF w] valid_trits_nth [OF assms(3)] length_rd [OF assms(1)] assms(2) by simp
qed

lemma trits_get3_rd:
  assumes "window m x" "3 \<le> trits_size x" "valid_trits (rd m x)"
  shows "trits_get3 m x = Some (bt_value (take 3 (rd m x)))"
proof -
  have l: "3 \<le> length (rd m x)" using length_rd [OF assms(1)] assms(2) by simp
  obtain a b c r where r: "rd m x = a # b # c # r" using l by (metis Suc_le_length_iff numeral_3_eq_3)
  have g: "trits_get1 m x = Some a" "trits_get1 m (after x 1) = Some b" "trits_get1 m (after x 2) = Some c"
    using get1_after [OF assms(1) _ assms(3), of 0] get1_after [OF assms(1) _ assms(3), of 1] get1_after [OF assms(1) _ assms(3), of 2] assms(2) r by (simp_all add: after_def)
  have "is_trit a" "is_trit b" "is_trit c" using assms(3) r by simp_all
  then have "wrap8 (a + 3 * b + 9 * c) = a + 3 * b + 9 * c" by (intro wrap8_id) (simp_all add: is_trit_def)
  then show ?thesis using g r trits_drop_after [OF assms(1), of 1] trits_drop_after [OF assms(1), of 2] assms(2) by (simp add: trits_get3_def)
qed

lemma bt_value_range: "valid_trits ts \<Longrightarrow> length ts = n \<Longrightarrow> 2 * \<bar>bt_value ts\<bar> < 3 ^ n"
  using bt_value_bound by blast

lemma put3_after:
  assumes "window m x" "length a + 3 \<le> trits_size x" "- 13 \<le> v" "v \<le> 13" "k = length a"
  shows "trits_put3 (wr m x a) (after x k) v = Some (wr m x (a @ bt_digits 3 v))"
proof -
  have w: "window (wr m x a) (after x k)" "3 \<le> trits_size (after x k)" using assms by (simp_all add: window_wr window_parts size_parts)
  show ?thesis using trits_put3_wr [OF w assms(3,4)] put_chain [OF assms(1), of a "bt_digits 3 v"] assms(2,5) by simp
qed

lemma trits_put9_wr:
  assumes "window m x" "9 \<le> trits_size x" "- 9841 \<le> v" "v \<le> 9841"
  shows "trits_put9 m x v = Some (wr m x (bt_digits 9 v))"
proof -
  define t0 where "t0 = MAM_MODS v 19683 27"
  define u where "u = MAM_DIVS v 19683 27"
  define t1 where "t1 = MAM_MODS u 729 27"
  define t2 where "t2 = MAM_DIVS u 729 27"
  have a: "t0 + 27 * u = v" "2 * \<bar>t0\<bar> < 27" "2 * \<bar>u\<bar> < 729" using mods_divs [of 27 729 19683 v] assms(3,4) by (simp_all add: t0_def u_def)
  have b: "t1 + 27 * t2 = u" "2 * \<bar>t1\<bar> < 27" "2 * \<bar>t2\<bar> < 27" using mods_divs [of 27 27 729 u] a(3) by (simp_all add: t1_def t2_def)
  have wrap: "wrap8 t0 = t0" "wrap16 u = u" "wrap8 t1 = t1" "wrap16 t2 = t2" "wrap8 t2 = t2" using a b by (simp_all add: wrap8_id wrap_s_id)
  have "bt_digits 9 v = bt_digits 3 t0 @ bt_digits 3 t1 @ bt_digits 3 t2"
    by (rule bt_digits_of_value) (use a b in \<open>simp_all add: bt_value_append bt_value_digits\<close>)
  moreover have "trits_put3 m x t0 = Some (wr m x (bt_digits 3 t0))" using trits_put3_wr [OF assms(1)] assms(2) a by simp
  moreover have "trits_put3 (wr m x (bt_digits 3 t0)) (after x 3) t1 = Some (wr m x (bt_digits 3 t0 @ bt_digits 3 t1))" by (rule put3_after [OF assms(1)]) (use assms(2) b in simp_all)
  moreover have "trits_put3 (wr m x (bt_digits 3 t0 @ bt_digits 3 t1)) (after x 6) t2 = Some (wr m x ((bt_digits 3 t0 @ bt_digits 3 t1) @ bt_digits 3 t2))"
    by (rule put3_after [OF assms(1)]) (use assms(2) b in simp_all)
  ultimately show ?thesis
    using trits_drop_after [OF assms(1), of 3] trits_drop_after [OF assms(1), of 6] assms(2-4) wrap
    by (simp add: trits_put9_def Let_def t0_def [symmetric] u_def [symmetric] t1_def [symmetric] t2_def [symmetric])
qed

lemma get3_after:
  assumes "window m x" "k + 3 \<le> trits_size x" "valid_trits (rd m x)"
  shows "trits_get3 m (after x k) = Some (bt_value (slice k 3 (rd m x)))"
  using trits_get3_rd [of m "after x k"] assms by (simp add: window_parts size_parts rd_after valid_trits_drop slice_def)

lemma trits_get9_rd:
  assumes "window m x" "9 \<le> trits_size x" "valid_trits (rd m x)"
  shows "trits_get9 m x = Some (bt_value (take 9 (rd m x)))"
proof -
  let ?r = "rd m x"
  let ?a = "slice 0 3 ?r" and ?b = "slice 3 3 ?r" and ?c = "slice 6 3 ?r"
  have l: "9 \<le> length ?r" using length_rd [OF assms(1)] assms(2) by simp
  have s: "take 9 ?r = ?a @ ?b @ ?c" using take_add [of 3 6 ?r] take_add [of 3 3 "drop 3 ?r"] by (simp add: slice_def)
  have v: "valid_trits ?a" "valid_trits ?b" "valid_trits ?c" using assms(3) by (simp_all only: valid_trits_slice)
  have ln: "length ?a = 3" "length ?b = 3" "length ?c = 3" using l by simp_all
  have bd: "2 * \<bar>bt_value ?a\<bar> < 27" "2 * \<bar>bt_value ?b\<bar> < 27" "2 * \<bar>bt_value ?c\<bar> < 27" using bt_value_range v ln by fastforce+
  have "wrap16 (bt_value ?a + 27 * bt_value ?b + 729 * bt_value ?c) = bt_value ?a + 27 * bt_value ?b + 729 * bt_value ?c" by (rule wrap_s_id) (use bd in simp_all)
  moreover have "bt_value (take 9 ?r) = bt_value ?a + 27 * bt_value ?b + 729 * bt_value ?c" unfolding s by (simp only: bt_value_append ln) simp
  moreover have "trits_get3 m x = Some (bt_value ?a)" using trits_get3_rd [OF assms(1) _ assms(3)] assms(2) by simp
  ultimately show ?thesis
    using get3_after [OF assms(1) _ assms(3), of 3] get3_after [OF assms(1) _ assms(3), of 6] trits_drop_after [OF assms(1), of 3] trits_drop_after [OF assms(1), of 6] assms(2)
    by (simp add: trits_get9_def)
qed

lemma put9_after:
  assumes "window m x" "length a + 9 \<le> trits_size x" "- 9841 \<le> v" "v \<le> 9841" "k = length a"
  shows "trits_put9 (wr m x a) (after x k) v = Some (wr m x (a @ bt_digits 9 v))"
proof -
  have w: "window (wr m x a) (after x k)" "9 \<le> trits_size (after x k)" using assms by (simp_all add: window_wr window_parts size_parts)
  show ?thesis using trits_put9_wr [OF w assms(3,4)] put_chain [OF assms(1), of a "bt_digits 9 v"] assms(2,5) by simp
qed

lemma trits_put18_wr:
  assumes "window m x" "18 \<le> trits_size x" "2 * \<bar>v\<bar> < 3 ^ 18"
  shows "trits_put18 m x v = Some (wr m x (bt_digits 18 v))"
proof -
  define t0 where "t0 = MAM_MODS v 387420489 19683"
  define u where "u = MAM_DIVS v 387420489 19683"
  have a: "t0 + 19683 * u = v" "2 * \<bar>t0\<bar> < 19683" "2 * \<bar>u\<bar> < 19683" using mods_divs [of 19683 19683 387420489 v] assms(3) by (simp_all add: t0_def u_def)
  have wrap: "wrap16 t0 = t0" "wrap32 u = u" "wrap16 u = u" using a by (simp_all add: wrap_s_id)
  have "bt_digits 18 v = bt_digits 9 t0 @ bt_digits 9 u" by (rule bt_digits_of_value) (use a in \<open>simp_all add: bt_value_append bt_value_digits\<close>)
  moreover have "trits_put9 m x t0 = Some (wr m x (bt_digits 9 t0))" using trits_put9_wr [OF assms(1)] assms(2) a by simp
  moreover have "trits_put9 (wr m x (bt_digits 9 t0)) (after x 9) u = Some (wr m x (bt_digits 9 t0 @ bt_digits 9 u))" by (rule put9_after [OF assms(1)]) (use assms(2) a in simp_all)
  moreover have "v < 1953773404" using assms(3) by simp
  ultimately show ?thesis
    using trits_drop_after [OF assms(1), of 9] assms(2) wrap by (simp add: trits_put18_def Let_def t0_def [symmetric] u_def [symmetric])
qed

lemma get9_after:
  assumes "window m x" "k + 9 \<le> trits_size x" "valid_trits (rd m x)"
  shows "trits_get9 m (after x k) = Some (bt_value (slice k 9 (rd m x)))"
  using trits_get9_rd [of m "after x k"] assms by (simp add: window_parts size_parts rd_after valid_trits_drop slice_def)

lemma trits_get18_rd:
  assumes "window m x" "18 \<le> trits_size x" "valid_trits (rd m x)"
  shows "trits_get18 m x = Some (bt_value (take 18 (rd m x)))"
proof -
  let ?r = "rd m x"
  let ?a = "slice 0 9 ?r" and ?b = "slice 9 9 ?r"
  have l: "18 \<le> length ?r" using length_rd [OF assms(1)] assms(2) by simp
  have s: "take 18 ?r = ?a @ ?b" using take_add [of 9 9 ?r] by (simp add: slice_def)
  have ln: "length ?a = 9" "length ?b = 9" using l by simp_all
  have "valid_trits ?a" "valid_trits ?b" using assms(3) by (simp_all only: valid_trits_slice)
  then have bd: "2 * \<bar>bt_value ?a\<bar> < 19683" "2 * \<bar>bt_value ?b\<bar> < 19683" using bt_value_range ln by fastforce+
  have "wrap32 (bt_value ?a + 19683 * bt_value ?b) = bt_value ?a + 19683 * bt_value ?b" by (rule wrap_s_id) (use bd in simp_all)
  moreover have "bt_value (take 18 ?r) = bt_value ?a + 19683 * bt_value ?b" unfolding s by (simp only: bt_value_append ln) simp
  moreover have "trits_get9 m x = Some (bt_value ?a)" using trits_get9_rd [OF assms(1) _ assms(3)] assms(2) by simp
  ultimately show ?thesis
    using get9_after [OF assms(1) _ assms(3), of 9] trits_drop_after [OF assms(1), of 9] assms(2) by (simp add: trits_get18_def)
qed

subsection \<open>Sizes\<close>

lemma size_t_trytes_loop_spec:
  "0 \<le> n \<Longrightarrow> 2 * n < 27 ^ 13 \<Longrightarrow> d \<le> 13 \<Longrightarrow> size_t_trytes_loop n d (27 ^ d) \<le> 13 \<and> 2 * n < 27 ^ size_t_trytes_loop n d (27 ^ d) \<and> (size_t_trytes_loop n d (27 ^ d) = 0 \<longrightarrow> n = 0)"
proof (induction "13 - d" arbitrary: d rule: less_induct)
  case less
  have p: "(27 :: int) ^ d \<le> 27 ^ 13" using less.prems(3) by (intro power_increasing) simp_all
  have o: "odd ((27 :: int) ^ d)" "(0 :: int) < 27 ^ d" by simp_all
  have u: "uwrap64 (27 ^ d - 1) = 27 ^ d - 1" by (rule mod_pos_pos_trivial) (use p o(2) in simp_all)
  obtain a where "(27 :: int) ^ d = 2 * a + 1" using o(1) by (elim oddE)
  then have iff: "(27 ^ d - 1) div 2 < n \<longleftrightarrow> 27 ^ d < 2 * n" by auto
  show ?case
  proof (cases "27 ^ d < 2 * n")
    case True
    then have "d \<noteq> 13" using less.prems by auto
    then have d: "d < 13" using less.prems(3) by simp
    have "(27 :: int) ^ Suc d \<le> 27 ^ 13" using d by (intro power_increasing) simp_all
    then have "uwrap64 (27 ^ d * 27) = 27 ^ Suc d" by (subst mod_pos_pos_trivial) (simp_all add: mult.commute)
    then have "size_t_trytes_loop n d (27 ^ d) = size_t_trytes_loop n (Suc d) (27 ^ Suc d)"
      using True d u iff by (subst size_t_trytes_loop.simps) (simp add: MAM_TRITS_MAX_SIZE_T_TRYTES_def)
    then show ?thesis using less.hyps [of "Suc d"] less.prems d by simp
  next
    case False
    then have "size_t_trytes_loop n d (27 ^ d) = d" using u iff by (subst size_t_trytes_loop.simps) simp
    moreover have "2 * n \<noteq> 27 ^ d" using o(1) by (metis dvd_triv_left)
    moreover have "d = 0 \<longrightarrow> n = 0" using False less.prems(1) \<open>2 * n \<noteq> 27 ^ d\<close> by auto
    ultimately show ?thesis using False less.prems(3) by simp
  qed
qed

abbreviation trytes_of_size :: "int \<Rightarrow> nat" where "trytes_of_size n \<equiv> size_t_trytes_loop n 0 1"

definition size_field :: "int \<Rightarrow> trit list" where
  "size_field n = bt_digits 3 (int (trytes_of_size n)) @ bt_digits (3 * trytes_of_size n) n"

lemma trytes_of_size:
  assumes "0 \<le> n" "n \<le> MAM_TRITS_SIZE_MAX"
  shows "trytes_of_size n \<le> 13" "2 * n < 3 ^ (3 * trytes_of_size n)" "trytes_of_size n = 0 \<Longrightarrow> n = 0" "trits_size_t_trytes n = Some (trytes_of_size n)"
    "trits_sizeof_size_t n = Some (3 * (trytes_of_size n + 1))"
  using size_t_trytes_loop_spec [of n 0] assms
  by (simp_all add: MAM_TRITS_SIZE_MAX_def trits_size_t_trytes_def trits_sizeof_size_t_def MAM_TRITS_MAX_SIZE_T_TRYTES_def power_mult)

lemma length_size_field [simp]: "length (size_field n) = 3 * (trytes_of_size n + 1)"
  by (simp add: size_field_def)

lemma valid_size_field [simp]: "valid_trits (size_field n)"
  by (simp add: size_field_def)

lemma wr_over:
  assumes "window m x" "length us \<le> trits_size x" "length ts \<le> length us"
  shows "wr (wr m x us) x ts = wr m x (ts @ drop (length ts) us)"
  using assms by (auto simp: wr_def window_def trits_size_def blit_def fun_eq_iff)

lemma min_trits_fits:
  assumes "0 < n" "2 * n < 3 ^ k" "3 \<le> k" "n \<le> INT64_MAX"
  shows "max 3 (min_trits n) \<le> k"
proof (rule ccontr)
  assume a: "\<not> max 3 (min_trits n) \<le> k"
  have s: "min_trits n = 1 \<or> bt_max (min_trits n - 1) < n" using min_trits_spec(4) [of n] assms(1,4) by simp
  have "k \<le> min_trits n - 1" "min_trits n \<noteq> 1" using a assms(3) by auto
  then have "bt_max k < n" using s bt_max_mono [of k "min_trits n - 1"] by simp
  then show False using assms(2) bt_max_double [of k] by simp
qed

lemma long_to_trits_mem_wr:
  assumes "window m x" "k \<le> trits_size x" "0 < n" "2 * n < 3 ^ k" "3 \<le> k" "n \<le> INT64_MAX" "take k (rd m x) = replicate k 0"
  shows "long_to_trits_mem m n (trits_p x) (trits_d x) = Some (wr m x (bt_digits k n))"
proof -
  let ?b = "m (trits_p x)" let ?s = "max 3 (min_trits n)"
  have s: "?s \<le> k" by (rule min_trits_fits) (use assms in simp_all)
  have l: "trits_d x + k \<le> length ?b" using assms(1,2) by (auto simp: window_def trits_size_def)
  have "long_to_trits n (drop (trits_d x) ?b) = (min_trits n, bt_digits ?s n @ drop ?s (drop (trits_d x) ?b))"
    by (rule long_to_trits_spec) (use assms s l in auto)
  moreover have d: "bt_digits ?s n @ drop ?s (drop (trits_d x) ?b) = bt_digits k n @ drop (k + trits_d x) ?b"
  proof -
    have "take k (drop (trits_d x) ?b) = replicate k 0" using assms(2,7) by (simp add: rd_def slice_def min_absorb1)
    then have "drop ?s (take k (drop (trits_d x) ?b)) = replicate (k - ?s) 0" by simp
    then have e: "drop ?s (drop (trits_d x) ?b) = replicate (k - ?s) 0 @ drop (k + trits_d x) ?b"
      using append_take_drop_id [of "k - ?s" "drop ?s (drop (trits_d x) ?b)"] s by (simp add: drop_take add.commute)
    have "2 * \<bar>n\<bar> < 3 ^ ?s" using min_trits_spec(3) [of n] assms(3,6) bt_max_double [of ?s] bt_max_mono [of "min_trits n" ?s] by simp
    then have "bt_digits k n = bt_digits ?s n @ replicate (k - ?s) 0"
      by (intro bt_digits_of_value) (use s in \<open>simp_all add: bt_value_append bt_value_digits\<close>)
    then show ?thesis using e by simp
  qed
  moreover have "wrap64 n = n" by (rule wrap64_id) (use assms in simp_all)
  ultimately show ?thesis using l s by (auto simp: long_to_trits_mem_def mem_store_def wr_def blit_def add.commute)
qed

lemma trits_advance_parts: "window m b \<Longrightarrow> k \<le> trits_size b \<Longrightarrow> trits_advance b k = Some (upto b k, after b k)"
  by (simp add: trits_advance_def trits_simps)

lemma after_after [simp]: "after (after b k) j = after b (k + j)"
  by (simp add: after_def)

lemma trits_encode_size_t_wr:
  assumes "window m b" "0 \<le> n" "n \<le> MAM_TRITS_SIZE_MAX" "length (size_field n) \<le> trits_size b"
  shows "trits_encode_size_t m n b
    = Some (wr m b (size_field n @ replicate (trits_size b - length (size_field n)) 0), after b (length (size_field n)))"
proof -
  let ?d = "trytes_of_size n" let ?D = "bt_digits 3 (int ?d)"
  note t = trytes_of_size [OF assms(2,3)]
  define m1 where "m1 = wr m b (?D @ replicate (trits_size b - 3) 0)"
  have l: "3 + 3 * ?d \<le> trits_size b" using assms(4) by simp
  have z: "trits_set_zero m b = Some (wr m b (replicate (trits_size b) 0))" using assms(1) by (simp add: trits_simps)
  have put: "trits_put3 (wr m b (replicate (trits_size b) 0)) (upto b 3) (int ?d) = Some m1"
  proof -
    have w: "window (wr m b (replicate (trits_size b) 0)) (upto b 3)" using assms(1) l by (simp add: window_wr window_parts)
    show ?thesis using trits_put3_wr [OF w] t(1) wr_over [OF assms(1), of "replicate (trits_size b) 0" ?D] l by (simp add: size_parts m1_def drop_replicate)
  qed
  have long: "long_to_trits_mem m1 n (trits_p (after b 3)) (trits_d (after b 3)) = Some (wr m1 (after b 3) (bt_digits (3 * ?d) n))" if "0 < n"
  proof (rule long_to_trits_mem_wr)
    show "window m1 (after b 3)" using assms(1) l by (simp add: m1_def window_wr window_parts)
    have "rd m1 (after b 3) = replicate (trits_size b - 3) 0" using assms(1) l by (simp add: m1_def rd_after rd_wr_same)
    then show "take (3 * ?d) (rd m1 (after b 3)) = replicate (3 * ?d) 0" using l by (simp add: min_absorb1)
    show "3 \<le> 3 * ?d" using t(3) that by (cases "?d = 0") simp_all
  qed (use that t(2) assms(3) l in \<open>simp_all add: size_parts MAM_TRITS_SIZE_MAX_def\<close>)
  have wr: "wr m1 (after b 3) (bt_digits (3 * ?d) n) = wr m b (size_field n @ replicate (trits_size b - length (size_field n)) 0)"
  proof -
    have "m1 = wr (wr m b ?D) (after b 3) (replicate (trits_size b - 3) 0)" unfolding m1_def using wr_append [OF assms(1), of ?D] l by simp
    moreover have "wr (wr m b ?D) (after b 3) (bt_digits (3 * ?d) n @ replicate (trits_size b - 3 - 3 * ?d) 0) = wr m b (?D @ bt_digits (3 * ?d) n @ replicate (trits_size b - 3 - 3 * ?d) 0)"
      using wr_append [OF assms(1), of ?D] l by simp
    moreover have "window (wr m b ?D) (after b 3)" using assms(1) l by (simp add: window_wr window_parts)
    ultimately show ?thesis using l by (simp add: wr_over size_parts drop_replicate size_field_def)
  qed
  have zero: "m1 = wr m1 (after b 3) (bt_digits (3 * ?d) n)" if "\<not> 0 < n"
  proof -
    have "n = 0" "?d = 0" using that assms(2) by (simp_all add: size_t_trytes_loop.simps)
    then show ?thesis by (simp add: wr_def blit_def)
  qed
  have d0: "\<not> 0 < n \<Longrightarrow> ?d = 0" using assms(2) by (simp add: size_t_trytes_loop.simps)
  have adv: "trits_advance b 3 = Some (upto b 3, after b 3)" "trits_advance (after b 3) (?d * 3) = Some (upto (after b 3) (?d * 3), after b (3 + 3 * ?d))"
    using trits_advance_parts [OF assms(1)] trits_advance_parts [OF window_parts(2) [OF assms(1)], of 3 "?d * 3"] l by (simp_all add: size_parts mult.commute)
  have w8: "wrap8 (int ?d) = int ?d" by (rule wrap8_id) (use t(1) in simp_all)
  define M where "M = wr m b (size_field n @ replicate (trits_size b - length (size_field n)) 0)"
  have "0 < n \<Longrightarrow> long_to_trits_mem m1 n (trits_p b) (trits_d (after b 3)) = Some M" "\<not> 0 < n \<Longrightarrow> m1 = M" using long zero wr by (simp_all add: M_def)
  then show ?thesis
    unfolding M_def [symmetric] using z put adv t(1,4,5) l w8 d0 by (cases "0 < n") (simp_all add: trits_encode_size_t_def MAM_TRITS_MAX_SIZE_T_TRYTES_def)
qed

lemma trits_decode_size_t_rd:
  assumes "window m b" "0 \<le> n" "n \<le> MAM_TRITS_SIZE_MAX" "rd m b = size_field n @ rs" "valid_trits rs"
  shows "trits_decode_size_t m b = Some (RC_OK, Some n, after b (length (size_field n)))"
proof -
  let ?d = "trytes_of_size n"
  note t = trytes_of_size [OF assms(2,3)]
  have l: "3 + 3 * ?d \<le> trits_size b" using length_rd [OF assms(1)] assms(4) by simp
  have r: "take 3 (rd m b) = bt_digits 3 (int ?d)" "take (3 * ?d) (rd m (after b 3)) = bt_digits (3 * ?d) n" using assms(4) l by (simp_all add: size_field_def rd_after)
  have g: "trits_get3 m b = Some (int ?d)" using trits_get3_rd [OF assms(1)] r l assms(4,5) t(1) by (simp add: bt_value_digits)
  have "mem_load m (trits_p (upto (after b 3) (3 * ?d))) (trits_d (upto (after b 3) (3 * ?d))) (trits_size (upto (after b 3) (3 * ?d))) = Some (rd m (upto (after b 3) (3 * ?d)))"
    using assms(1) l by (intro mem_load_rd) (simp add: window_parts size_parts)
  then have ld: "mem_load m (trits_p b) (trits_d (after b 3)) (3 * ?d) = Some (bt_digits (3 * ?d) n)" using r(2) l by (simp add: size_parts rd_upto) (simp add: upto_def)
  have "bt_value (bt_digits (3 * ?d) n) = n" using t(2) assms(2) by (simp add: bt_value_digits)
  then have v: "trits_to_long (bt_digits (3 * ?d) n) = n" using trits_to_long_value [of "bt_digits (3 * ?d) n"] assms(2,3) by (simp add: MAM_TRITS_SIZE_MAX_def)
  have adv: "trits_drop b 3 = Some (after b 3)" "trits_advance (after b 3) (3 * ?d) = Some (upto (after b 3) (3 * ?d), after b (3 + 3 * ?d))"
    using trits_drop_after [OF assms(1)] trits_advance_parts [OF window_parts(2) [OF assms(1)], of 3 "3 * ?d"] l by (simp_all add: size_parts)
  show ?thesis using g ld v adv l t(1) assms(2,3) by (simp add: trits_decode_size_t_def size_parts mult.commute MAM_TRITS_SIZE_MAX_def)
qed

section \<open>Writing and reading a field\<close>

text \<open>The spongos is in the state \<open>d\<close> and the buffer has moved by \<open>k\<close> trits.\<close>

definition moved :: "mem \<Rightarrow> mam_spongos_t \<Rightarrow> trits_t \<Rightarrow> nat \<Rightarrow> duplex \<Rightarrow> mem \<times> mam_spongos_t \<times> trits_t" where
  "moved m spongos b k d = (let (m', spongos') = with_duplex m spongos d in (m', spongos', after b k))"

text \<open>A field whose trits are \<open>ts\<close>; writing a size sets the trits behind it to zero.\<close>

definition field_put :: "mem \<Rightarrow> mam_spongos_t \<Rightarrow> trits_t \<Rightarrow> trit list \<Rightarrow> trit list \<Rightarrow> duplex \<Rightarrow> mem \<times> mam_spongos_t \<times> trits_t" where
  "field_put m spongos b ts r d = moved (wr m b (ts @ r)) spongos b (length ts) d"

lemma encode_tryte_wr: "window m b \<Longrightarrow> 3 \<le> trits_size b \<Longrightarrow> - 13 \<le> v \<Longrightarrow> v \<le> 13 \<Longrightarrow> pb3_encode_tryte m v b = Some (wr m b (bt_digits 3 v), after b 3)"
  using trits_put3_wr [OF window_parts(1), of m b 3 v] by (simp add: pb3_encode_tryte_def pb3_sizeof_tryte_def pb3_trits_take_def trits_advance_parts size_parts)

lemma encode_trint_wr: "window m b \<Longrightarrow> 9 \<le> trits_size b \<Longrightarrow> - 9841 \<le> v \<Longrightarrow> v \<le> 9841 \<Longrightarrow> pb3_encode_trint m v b = Some (wr m b (bt_digits 9 v), after b 9)"
  using trits_put9_wr [OF window_parts(1), of m b 9 v] by (simp add: pb3_encode_trint_def pb3_sizeof_trint_def pb3_trits_take_def trits_advance_parts size_parts)

lemma encode_ntrytes_wr:
  "window m b \<Longrightarrow> window m x \<Longrightarrow> trits_size x \<le> trits_size b \<Longrightarrow> trits_size x mod 3 = 0 \<Longrightarrow> apart x b \<Longrightarrow> pb3_encode_ntrytes m x b = Some (wr m b (rd m x), after b (trits_size x))"
  by (simp add: pb3_encode_ntrytes_def pb3_trits_take_def trits_advance_parts trits_simps Let_def)

lemma read_prefix: "window m b \<Longrightarrow> rd m b = ts @ rs \<Longrightarrow> length ts \<le> trits_size b \<and> rd m (upto b (length ts)) = ts \<and> rd m (after b (length ts)) = rs"
  using length_rd [of m b] by (simp add: rd_upto rd_after)

lemma decode_tryte_rd:
  assumes "window m b" "rd m b = bt_digits 3 v @ rs" "- 13 \<le> v" "v \<le> 13"
  shows "pb3_decode_tryte m b = Some (RC_OK, Some v, after b 3)"
proof -
  have r: "3 \<le> trits_size b" "rd m (upto b 3) = bt_digits 3 v" using read_prefix [OF assms(1,2)] by simp_all
  then have "trits_get3 m (upto b 3) = Some v" using trits_get3_rd [OF window_parts(1) [OF assms(1) r(1)]] assms(3,4) by (simp add: size_parts bt_value_digits)
  then show ?thesis using r(1) assms(1) by (simp add: pb3_decode_tryte_def pb3_sizeof_tryte_def pb3_trits_take_def trits_advance_parts)
qed

lemma decode_trint_rd:
  assumes "window m b" "rd m b = bt_digits 9 v @ rs" "- 9841 \<le> v" "v \<le> 9841"
  shows "pb3_decode_trint m b = Some (RC_OK, Some v, after b 9)"
proof -
  have r: "9 \<le> trits_size b" "rd m (upto b 9) = bt_digits 9 v" using read_prefix [OF assms(1,2)] by simp_all
  then have "trits_get9 m (upto b 9) = Some v" using trits_get9_rd [OF window_parts(1) [OF assms(1) r(1)]] assms(3,4) by (simp add: size_parts bt_value_digits)
  then show ?thesis using r(1) assms(1) by (simp add: pb3_decode_trint_def pb3_sizeof_trint_def pb3_trits_take_def trits_advance_parts)
qed

lemma decode_ntrytes_rd:
  assumes "window m b" "window m x" "apart b x" "rd m b = ts @ rs" "length ts = trits_size x" "trits_size x mod 3 = 0"
  shows "pb3_decode_ntrytes m x b = Some (RC_OK, wr m x ts, after b (trits_size x))"
  using read_prefix [OF assms(1,4)] assms by (simp add: pb3_decode_ntrytes_def pb3_trits_take_def trits_advance_parts trits_simps Let_def)

context sponge_permutation
begin

lemma absorb_since_run:
  assumes "duplex_ok (duplex_of m spongos)" "window m b" "trits_p b \<noteq> sp_sponge spongos" "rd m b = ts @ rs" "valid_trits ts"
  shows "absorb_since F m spongos b (after b (length ts)) = Some (with_duplex m spongos (duplex_absorb F ts (duplex_of m spongos)))"
proof -
  have r: "length ts \<le> trits_size b" "rd m (upto b (length ts)) = ts" using read_prefix [OF assms(2,4)] by simp_all
  have "trits_d b + length ts \<le> trits_n b" using window_size [OF assms(2)] r(1) by simp
  then have "trits_diff b (after b (length ts)) = Some (upto b (length ts))" using window_le [OF assms(2)] by (simp add: trits_diff_def after_def upto_def)
  moreover have "mam_spongos_absorb F m spongos (upto b (length ts)) = Some (with_duplex m spongos (duplex_absorb F ts (duplex_of m spongos)))"
    using absorb_runs [OF assms(1) window_parts(1) [OF assms(2) r(1)]] assms(3,5) r(2) by simp
  ultimately show ?thesis by (simp add: absorb_since_def)
qed

lemma absorb_written:
  assumes "duplex_ok (duplex_of m spongos)" "window m b" "trits_p b \<noteq> sp_sponge spongos" "length ts + length r \<le> trits_size b" "valid_trits ts"
  shows "absorb_since F (wr m b (ts @ r)) spongos b (after b (length ts)) = Some (with_duplex (wr m b (ts @ r)) spongos (duplex_absorb F ts (duplex_of m spongos)))"
proof -
  have d: "duplex_of (wr m b (ts @ r)) spongos = duplex_of m spongos" using assms(3) by (simp add: duplex_of_def wr_def)
  have "rd (wr m b (ts @ r)) b = ts @ r @ drop (length (ts @ r)) (rd m b)" using rd_wr_prefix [OF assms(2), of "ts @ r"] assms(4) by simp
  from absorb_since_run [OF _ _ assms(3) this assms(5)] show ?thesis using d assms(1,2,4) by (simp add: window_wr)
qed

lemmas field_defs = field_put_def moved_def Let_def split_beta

lemma wrap_absorb_tryte:
  assumes "duplex_ok (duplex_of m spongos)" "window m b" "trits_p b \<noteq> sp_sponge spongos" "3 \<le> trits_size b" "- 13 \<le> v" "v \<le> 13"
  shows "pb3_wrap_absorb_tryte F m spongos b v = Some (field_put m spongos b (bt_digits 3 v) [] (duplex_absorb F (bt_digits 3 v) (duplex_of m spongos)))"
  using encode_tryte_wr [OF assms(2,4-6)] absorb_written [OF assms(1-3), of "bt_digits 3 v" "[]"] assms(4) by (simp add: pb3_wrap_absorb_tryte_def field_defs)

lemma wrap_absorb_trint:
  assumes "duplex_ok (duplex_of m spongos)" "window m b" "trits_p b \<noteq> sp_sponge spongos" "9 \<le> trits_size b" "- 9841 \<le> v" "v \<le> 9841"
  shows "pb3_wrap_absorb_trint F m spongos b v = Some (field_put m spongos b (bt_digits 9 v) [] (duplex_absorb F (bt_digits 9 v) (duplex_of m spongos)))"
  using encode_trint_wr [OF assms(2,4-6)] absorb_written [OF assms(1-3), of "bt_digits 9 v" "[]"] assms(4) by (simp add: pb3_wrap_absorb_trint_def field_defs)

lemma wrap_absorb_size_t:
  assumes "duplex_ok (duplex_of m spongos)" "window m b" "trits_p b \<noteq> sp_sponge spongos" "length (size_field n) \<le> trits_size b" "0 \<le> n" "n \<le> MAM_TRITS_SIZE_MAX"
  shows "pb3_wrap_absorb_size_t F m spongos b n =
    Some (field_put m spongos b (size_field n) (replicate (trits_size b - length (size_field n)) 0) (duplex_absorb F (size_field n) (duplex_of m spongos)))"
  using trits_encode_size_t_wr [OF assms(2,5,6,4)] absorb_written [OF assms(1-3), of "size_field n" "replicate (trits_size b - length (size_field n)) 0"] assms(4)
  by (simp add: pb3_wrap_absorb_size_t_def pb3_encode_size_t_def field_defs)

lemma wrap_absorb_ntrytes:
  assumes "duplex_ok (duplex_of m spongos)" "window m b" "trits_p b \<noteq> sp_sponge spongos" "window m x" "trits_size x \<le> trits_size b" "trits_size x mod 3 = 0" "apart x b" "valid_trits (rd m x)"
  shows "pb3_wrap_absorb_ntrytes F m spongos b x = Some (field_put m spongos b (rd m x) [] (duplex_absorb F (rd m x) (duplex_of m spongos)))"
  using encode_ntrytes_wr [OF assms(2,4-7)] absorb_written [OF assms(1-3), of "rd m x" "[]"] assms(4,5,8) by (simp add: pb3_wrap_absorb_ntrytes_def field_defs length_rd)

lemma wrap_crypt_ntrytes:
  assumes "duplex_ok (duplex_of m spongos)" "window m b" "trits_p b \<noteq> sp_sponge spongos" "window m x" "trits_size x \<le> trits_size b" "trits_size x mod 3 = 0" "apart x b" "valid_trits (rd m x)"
    and "trits_p x \<noteq> sp_sponge spongos"
  shows "pb3_wrap_crypt_ntrytes F m spongos b x = (let (ys, d) = duplex_encr F (rd m x) (duplex_of m spongos) in Some (field_put m spongos b ys [] d))"
proof -
  have l: "length (fst (duplex_encr F (rd m x) (duplex_of m spongos))) = trits_size x" using encr_ok(2) [OF assms(8,1)] length_rd [OF assms(4)] by simp
  have "mam_spongos_encr F m spongos x (upto b (trits_size x)) = (let (ys, d) = duplex_encr F (rd m x) (duplex_of m spongos) in Some (with_duplex (wr m b ys) spongos d))"
    using encr_runs [OF assms(1,4) window_parts(1) [OF assms(2,5)]] assms by (simp add: size_parts apart_parts window_le)
  then show ?thesis using l assms(2,5,6) by (simp add: pb3_wrap_crypt_ntrytes_def pb3_trits_take_def trits_advance_parts field_defs)
qed

lemma wrap_squeeze_ntrytes:
  assumes "duplex_ok (duplex_of m spongos)" "window m b" "trits_p b \<noteq> sp_sponge spongos" "3 * n \<le> trits_size b"
  shows "pb3_wrap_squeeze_ntrytes F m spongos b n = (let (ys, d) = duplex_squeeze F (3 * n) (duplex_of m spongos) in Some (field_put m spongos b ys [] d))"
  using squeeze_runs [OF assms(1) window_parts(1) [OF assms(2,4)]] squeeze_ok(1) [OF assms(1), of "3 * n"] assms(2-4)
  by (simp add: pb3_wrap_squeeze_ntrytes_def pb3_sizeof_ntrytes_def pb3_trits_take_def trits_advance_parts field_defs size_parts)


text \<open>The reader.\<close>

lemma unwrap_absorb_tryte:
  assumes "duplex_ok (duplex_of m spongos)" "window m b" "trits_p b \<noteq> sp_sponge spongos" "rd m b = bt_digits 3 v @ rs" "- 13 \<le> v" "v \<le> 13"
  shows "pb3_unwrap_absorb_tryte F m spongos b = Some (RC_OK, Some v, moved m spongos b 3 (duplex_absorb F (bt_digits 3 v) (duplex_of m spongos)))"
  using decode_tryte_rd [OF assms(2,4-6)] absorb_since_run [OF assms(1-4)] by (simp add: pb3_unwrap_absorb_tryte_def field_defs)

lemma unwrap_absorb_trint:
  assumes "duplex_ok (duplex_of m spongos)" "window m b" "trits_p b \<noteq> sp_sponge spongos" "rd m b = bt_digits 9 v @ rs" "- 9841 \<le> v" "v \<le> 9841"
  shows "pb3_unwrap_absorb_trint F m spongos b = Some (RC_OK, Some v, moved m spongos b 9 (duplex_absorb F (bt_digits 9 v) (duplex_of m spongos)))"
  using decode_trint_rd [OF assms(2,4-6)] absorb_since_run [OF assms(1-4)] by (simp add: pb3_unwrap_absorb_trint_def field_defs)

lemma unwrap_absorb_size_t:
  assumes "duplex_ok (duplex_of m spongos)" "window m b" "trits_p b \<noteq> sp_sponge spongos" "rd m b = size_field n @ rs" "valid_trits rs" "0 \<le> n" "n \<le> MAM_TRITS_SIZE_MAX"
  shows "pb3_unwrap_absorb_size_t F m spongos b = Some (RC_OK, Some n, moved m spongos b (length (size_field n)) (duplex_absorb F (size_field n) (duplex_of m spongos)))"
  using trits_decode_size_t_rd [OF assms(2,6,7,4,5)] absorb_since_run [OF assms(1-4) valid_size_field] by (simp add: pb3_unwrap_absorb_size_t_def pb3_decode_size_t_def field_defs)

lemma unwrap_absorb_ntrytes:
  assumes "duplex_ok (duplex_of m spongos)" "window m b" "trits_p b \<noteq> sp_sponge spongos" "rd m b = ts @ rs" "valid_trits ts"
    and "window m x" "apart b x" "length ts = trits_size x" "trits_size x mod 3 = 0" "trits_p x \<noteq> sp_sponge spongos"
  shows "pb3_unwrap_absorb_ntrytes F m spongos b x = Some (RC_OK, moved (wr m x ts) spongos b (length ts) (duplex_absorb F ts (duplex_of m spongos)))"
proof -
  have "duplex_of (wr m x ts) spongos = duplex_of m spongos" using assms(10) by (simp add: duplex_of_def wr_def)
  moreover have "rd (wr m x ts) b = ts @ rs" using rd_wr_apart [OF assms(6,2) _ apart_sym [OF assms(7)]] assms(4,8) by simp
  ultimately have "absorb_since F (wr m x ts) spongos b (after b (length ts)) = Some (with_duplex (wr m x ts) spongos (duplex_absorb F ts (duplex_of m spongos)))"
    using absorb_since_run [of "wr m x ts", OF _ _ assms(3) _ assms(5)] assms(1,2,6,8) by (simp add: window_wr)
  then show ?thesis using decode_ntrytes_rd [OF assms(2,6,7,4,8,9)] assms(8) by (simp add: pb3_unwrap_absorb_ntrytes_def field_defs)
qed

lemma unwrap_crypt_ntrytes:
  assumes "duplex_ok (duplex_of m spongos)" "window m b" "trits_p b \<noteq> sp_sponge spongos" "rd m b = fst (duplex_encr F ts (duplex_of m spongos)) @ rs" "valid_trits ts"
    and "window m x" "apart b x" "length ts = trits_size x" "trits_size x mod 3 = 0" "trits_p x \<noteq> sp_sponge spongos"
  shows "pb3_unwrap_crypt_ntrytes F m spongos b x = Some (RC_OK, moved (wr m x ts) spongos b (length ts) (snd (duplex_encr F ts (duplex_of m spongos))))"
proof -
  let ?e = "fst (duplex_encr F ts (duplex_of m spongos))"
  note ok = encr_ok [OF assms(5,1)]
  have r: "length ts \<le> trits_size b" "rd m (upto b (length ts)) = ?e" using read_prefix [OF assms(2,4)] ok(2) by simp_all
  have "mam_spongos_decr F m spongos (upto b (length ts)) x = Some (with_duplex (wr m x ts) spongos (snd (duplex_encr F ts (duplex_of m spongos))))"
    using decr_runs [OF assms(1) window_parts(1) [OF assms(2) r(1)] assms(6)] duplex_decr_encr [OF assms(5,1)] r assms ok(3) by (simp add: size_parts apart_parts window_le)
  then show ?thesis using r(1) assms(2,8,9) by (simp add: pb3_unwrap_crypt_ntrytes_def pb3_trits_take_def trits_advance_parts field_defs)
qed

lemma unwrap_squeeze_ntrytes:
  assumes "duplex_ok (duplex_of m spongos)" "window m b" "trits_p b \<noteq> sp_sponge spongos" "rd m b = ts @ rs" "length ts = 3 * n" "valid_trits ts"
  shows "pb3_unwrap_squeeze_ntrytes F m spongos b n = (let (ys, d) = duplex_squeeze F (3 * n) (duplex_of m spongos) in
    Some (if ts = ys then RC_OK else RC_MAM_PB3_BAD_MAC, moved m spongos b (3 * n) d))"
proof -
  have r: "3 * n \<le> trits_size b" "rd m (upto b (3 * n)) = ts" using read_prefix [OF assms(2,4)] assms(5) by simp_all
  show ?thesis
    using squeeze_eq_runs [OF assms(1) window_parts(1) [OF assms(2) r(1)], of True] r assms(2,3,6)
    by (simp add: pb3_unwrap_squeeze_ntrytes_def pb3_sizeof_ntrytes_def pb3_trits_take_def trits_advance_parts field_defs size_parts)
qed

lemma absorb_external:
  assumes "duplex_ok (duplex_of m spongos)" "window m x" "trits_p x \<noteq> sp_sponge spongos" "valid_trits (rd m x)" "trits_size x mod 3 = 0"
  shows "pb3_absorb_external_ntrytes F m spongos x = Some (with_duplex m spongos (duplex_absorb F (rd m x) (duplex_of m spongos)))"
  using absorb_runs [OF assms(1-4)] assms(5) by (simp add: pb3_absorb_external_ntrytes_def)

end

section \<open>Properties\<close>

lemma moved_eq: "moved m spongos b k d = (m(sp_sponge spongos := fst d), spongos\<lparr>sp_pos := snd d\<rparr>, after b k)"
  by (simp add: moved_def with_duplex_def)

lemma duplex_of_moved [simp]: "moved m spongos b k d = (m', spongos', b') \<Longrightarrow> duplex_of m' spongos' = d"
  by (auto simp: moved_eq duplex_of_def)

lemma rd_moved: "trits_p x \<noteq> sp_sponge spongos \<Longrightarrow> moved m spongos b k d = (m', spongos', b') \<Longrightarrow> rd m' x = rd m x"
  by (auto simp: moved_eq rd_def)

lemma window_moved: "trits_p x \<noteq> sp_sponge spongos \<Longrightarrow> moved m spongos b k d = (m', spongos', b') \<Longrightarrow> window m' x = window m x"
  by (auto simp: moved_eq window_def)

text \<open>
  A size that is written and absorbed is read back: writing returns and moves the buffer by the announced number of trits, and a reader whose spongos is in the
  state of the writer's gets the size from a buffer that begins with these trits, moves by as much and is in the state of the writer's spongos afterwards.
\<close>

theorem size_field_is_read_back:
  assumes "length fs = SLICESIZE" "duplex_ok (duplex_of m spongos)" "window m b" "trits_p b \<noteq> sp_sponge spongos"
    and "0 \<le> n" "n \<le> MAM_TRITS_SIZE_MAX" "pb3_sizeof_size_t n = Some k" "k \<le> trits_size b"
  shows "\<exists>m1 spongos1. pb3_wrap_absorb_size_t (mam_ftroika_transform fs) m spongos b n = Some (m1, spongos1, after b k) \<and>
    (\<forall>m' spongos' e rs. duplex_of m' spongos' = duplex_of m spongos \<and> window m' e \<and> trits_p e \<noteq> sp_sponge spongos' \<and> rd m' e = rd m1 (upto b k) @ rs \<and> valid_trits rs \<longrightarrow>
       (\<exists>m2 spongos2. pb3_unwrap_absorb_size_t (mam_ftroika_transform fs) m' spongos' e = Some (RC_OK, Some n, m2, spongos2, after e k)
          \<and> duplex_of m2 spongos2 = duplex_of m1 spongos1))"
proof -
  let ?F = "mam_ftroika_transform fs" let ?z = "replicate (trits_size b - length (size_field n)) 0" let ?d = "duplex_absorb ?F (size_field n) (duplex_of m spongos)"
  have k: "k = length (size_field n)" using trytes_of_size(5) [OF assms(5,6)] assms(7) by (simp add: pb3_sizeof_size_t_def)
  note P = ftroika_perm [OF assms(1)]
  obtain m1 spongos1 b1 where w: "field_put m spongos b (size_field n) ?z ?d = (m1, spongos1, b1)" by (cases "field_put m spongos b (size_field n) ?z ?d")
  then have d1: "duplex_of m1 spongos1 = ?d" and b1: "b1 = after b k" by (auto simp: field_put_def k moved_eq)
  have r: "rd m1 b = size_field n @ ?z" using w assms(3,4,8) k by (auto simp: field_put_def rd_moved rd_wr_same)
  then have r: "rd m1 (upto b k) = size_field n" using assms(8) k by (simp add: rd_upto)
  have "\<exists>m2 spongos2. pb3_unwrap_absorb_size_t ?F m' spongos' e = Some (RC_OK, Some n, m2, spongos2, after e k) \<and> duplex_of m2 spongos2 = duplex_of m1 spongos1"
    if a: "duplex_of m' spongos' = duplex_of m spongos" "window m' e" "trits_p e \<noteq> sp_sponge spongos'" "rd m' e = rd m1 (upto b k) @ rs" "valid_trits rs" for m' spongos' e rs
    using sponge_permutation.unwrap_absorb_size_t [OF P _ a(2,3) _ a(5) assms(5,6)] a(1,4) assms(2) r d1 k by (simp add: moved_eq duplex_of_def)
  moreover have "pb3_wrap_absorb_size_t ?F m spongos b n = Some (m1, spongos1, after b k)"
    using sponge_permutation.wrap_absorb_size_t [OF P assms(2-4) _ assms(5,6)] w b1 k assms(8) by simp
  ultimately show ?thesis by blast
qed

theorem size_field_is_read_back_witness:
  "\<exists>m1 spongos1. pb3_wrap_absorb_size_t (mam_ftroika_transform lanes0) crypt_store \<lparr>sp_sponge = 1, sp_pos = 400\<rparr> (trits_from_rep 500 3) 1000000 = Some (m1, spongos1, after (trits_from_rep 500 3) 18)"
proof -
  have "pb3_sizeof_size_t 1000000 = Some 18" by code_simp
  then show ?thesis
    using size_field_is_read_back [OF crypt_store_facts(1,2,4), of 1000000 18] crypt_store_facts(8) by (fastforce simp: MAM_TRITS_SIZE_MAX_def trits_size_def trits_from_rep_def)
qed

lemma serialize_spongos:
  assumes "duplex_ok (duplex_of m spongos)" "window m b" "trits_p b \<noteq> sp_sponge spongos" "mam_spongos_serialized_size spongos = Some k" "k \<le> trits_size b"
  shows "\<exists>m1. mam_spongos_serialize m spongos b = Some (m1, after b k) \<and> rd m1 (upto b k) = size_field (int (sp_pos spongos)) @ m (sp_sponge spongos)"
proof -
  let ?n = "int (sp_pos spongos)" let ?s = "trits_from_rep MAM_SPONGE_WIDTH (sp_sponge spongos)"
  let ?z = "replicate (trits_size b - length (size_field ?n)) (0 :: trit)"
  have ok: "length (m (sp_sponge spongos)) = MAM_SPONGE_WIDTH" "sp_pos spongos < MAM_SPONGE_RATE" using assms(1) by (simp_all add: duplex_ok_def duplex_of_def)
  have n: "0 \<le> ?n" "?n \<le> MAM_TRITS_SIZE_MAX" using ok(2) by (simp_all add: MAM_TRITS_SIZE_MAX_def)
  have k: "k = length (size_field ?n) + MAM_SPONGE_WIDTH" using assms(4) trytes_of_size(5) [OF n] by (simp add: mam_spongos_serialized_size_def pb3_sizeof_size_t_def)
  define m1 where "m1 = wr m b (size_field ?n @ ?z)"
  have l: "length (size_field ?n @ ?z) \<le> trits_size b" using k assms(5) by simp
  have enc: "pb3_encode_size_t m ?n b = Some (m1, after b (length (size_field ?n)))" using trits_encode_size_t_wr [OF assms(2) n] k assms(5) by (simp add: pb3_encode_size_t_def m1_def)
  have s: "window m1 ?s" "rd m1 ?s = m (sp_sponge spongos)" "trits_size ?s = MAM_SPONGE_WIDTH"
    using ok assms(3) by (simp_all add: m1_def wr_def window_def rd_def trits_from_rep_def trits_size_def slice_def)
  have b: "window m1 (after b (length (size_field ?n)))" "MAM_SPONGE_WIDTH \<le> trits_size (after b (length (size_field ?n)))"
    using assms(2,5) k l by (simp_all add: m1_def window_wr window_parts size_parts)
  have ap: "apart ?s (after b (length (size_field ?n)))" using assms(3) by (simp add: apart_def trits_from_rep_def)
  have e2: "pb3_encode_ntrytes m1 ?s (after b (length (size_field ?n))) = Some (wr m1 (after b (length (size_field ?n))) (m (sp_sponge spongos)), after b k)"
    using encode_ntrytes_wr [OF b(1) s(1) _ _ ap] b(2) s(2,3) k by simp
  have "wr m1 (after b (length (size_field ?n))) (m (sp_sponge spongos)) = wr m b ((size_field ?n @ m (sp_sponge spongos)) @ replicate (trits_size b - k) 0)"
  proof -
    have a: "m1 = wr (wr m b (size_field ?n)) (after b (length (size_field ?n))) ?z" unfolding m1_def using wr_append [OF assms(2), of "size_field ?n" ?z] k assms(5) by simp
    have "window (wr m b (size_field ?n)) (after b (length (size_field ?n)))" using assms(2,5) k by (simp add: window_wr window_parts)
    then have "wr m1 (after b (length (size_field ?n))) (m (sp_sponge spongos)) = wr (wr m b (size_field ?n)) (after b (length (size_field ?n))) (m (sp_sponge spongos) @ replicate (trits_size b - k) 0)"
      unfolding a using wr_over [of "wr m b (size_field ?n)" "after b (length (size_field ?n))" ?z "m (sp_sponge spongos)"] k assms(5) ok(1) by (simp add: size_parts)
    then show ?thesis using wr_append [OF assms(2), of "size_field ?n"] k assms(5) by simp
  qed
  moreover have "rd (wr m b ((size_field ?n @ m (sp_sponge spongos)) @ replicate (trits_size b - k) 0)) (upto b k) = size_field ?n @ m (sp_sponge spongos)"
    using rd_wr_same [OF assms(2), of "(size_field ?n @ m (sp_sponge spongos)) @ replicate (trits_size b - k) 0"] k assms(5) ok(1) by (simp add: rd_upto)
  ultimately show ?thesis using enc e2 by (simp add: mam_spongos_serialize_def)
qed

lemma deserialize_spongos:
  assumes "duplex_ok (st, pos)" "window m b" "rd m b = size_field (int pos) @ st @ rs" "valid_trits rs"
    and "length (m (sp_sponge spongos)) = MAM_SPONGE_WIDTH" "trits_p b \<noteq> sp_sponge spongos" "k = length (size_field (int pos)) + MAM_SPONGE_WIDTH"
  shows "\<exists>m2 spongos2. mam_spongos_deserialize m b spongos = Some (RC_OK, m2, spongos2, after b k) \<and> duplex_of m2 spongos2 = (st, pos)"
proof -
  let ?n = "int pos" let ?s = "trits_from_rep MAM_SPONGE_WIDTH (sp_sponge spongos)" let ?b = "after b (length (size_field ?n))"
  have ok: "length st = MAM_SPONGE_WIDTH" "valid_trits st" "pos < MAM_SPONGE_RATE" using assms(1) by (simp_all add: duplex_ok_def)
  have n: "0 \<le> ?n" "?n \<le> MAM_TRITS_SIZE_MAX" using ok(3) by (simp_all add: MAM_TRITS_SIZE_MAX_def)
  have d1: "pb3_decode_size_t m b = Some (RC_OK, Some ?n, ?b)" using trits_decode_size_t_rd [OF assms(2) n assms(3)] ok(2) assms(4) by (simp add: pb3_decode_size_t_def)
  have r: "length (size_field ?n) \<le> trits_size b" "rd m ?b = st @ rs" using read_prefix [OF assms(2,3)] by simp_all
  have s: "window m ?s" "apart ?b ?s" "trits_size ?s = MAM_SPONGE_WIDTH" using assms(5,6) by (simp_all add: window_def apart_def trits_from_rep_def trits_size_def)
  have d2: "pb3_decode_ntrytes m ?s ?b = Some (RC_OK, wr m ?s st, after b k)"
    using decode_ntrytes_rd [OF window_parts(2) [OF assms(2) r(1)] s(1,2) r(2)] ok(1) s(3) assms(7) by simp
  have "wr m ?s st (sp_sponge spongos) = st" using ok(1) assms(5) by (simp add: wr_def trits_from_rep_def blit_def)
  then show ?thesis using d1 d2 by (simp add: mam_spongos_deserialize_def duplex_of_def)
qed

text \<open>
  C22. A spongos survives its serialisation: it fits into the announced number of trits, serialising returns, and deserialising a buffer that begins with these trits,
  into any spongos, gives one that goes on in the same state.
\<close>

theorem spongos_survives_serialization:
  assumes "duplex_ok (duplex_of m spongos)" "window m b" "trits_p b \<noteq> sp_sponge spongos" "mam_spongos_serialized_size spongos = Some k" "k \<le> trits_size b"
  shows "\<exists>m1. mam_spongos_serialize m spongos b = Some (m1, after b k) \<and>
    (\<forall>m' spongos' e rs. window m' e \<and> rd m' e = rd m1 (upto b k) @ rs \<and> valid_trits rs \<and> length (m' (sp_sponge spongos')) = MAM_SPONGE_WIDTH \<and> trits_p e \<noteq> sp_sponge spongos' \<longrightarrow>
       (\<exists>m2 spongos2. mam_spongos_deserialize m' e spongos' = Some (RC_OK, m2, spongos2, after e k) \<and> duplex_of m2 spongos2 = duplex_of m spongos))"
proof -
  have n: "0 \<le> int (sp_pos spongos)" "int (sp_pos spongos) \<le> MAM_TRITS_SIZE_MAX" using assms(1) by (simp_all add: MAM_TRITS_SIZE_MAX_def duplex_ok_def duplex_of_def)
  have k: "k = length (size_field (int (sp_pos spongos))) + MAM_SPONGE_WIDTH" using assms(4) trytes_of_size(5) [OF n] by (simp add: mam_spongos_serialized_size_def pb3_sizeof_size_t_def)
  obtain m1 where "mam_spongos_serialize m spongos b = Some (m1, after b k)" "rd m1 (upto b k) = size_field (int (sp_pos spongos)) @ m (sp_sponge spongos)"
    using serialize_spongos [OF assms] by blast
  moreover have "\<exists>m2 spongos2. mam_spongos_deserialize m' e spongos' = Some (RC_OK, m2, spongos2, after e k) \<and> duplex_of m2 spongos2 = duplex_of m spongos"
    if a: "window m' e" "rd m' e = rd m1 (upto b k) @ rs" "valid_trits rs" "length (m' (sp_sponge spongos')) = MAM_SPONGE_WIDTH" "trits_p e \<noteq> sp_sponge spongos'" for m' spongos' e rs
    using deserialize_spongos [OF _ a(1) _ a(3-5) k] assms(1) a(2) calculation(2) by (simp add: duplex_of_def)
  ultimately show ?thesis by blast
qed

definition parked_store :: mem where
  "parked_store = (\<lambda>_. [])(1 := replicate MAM_SPONGE_WIDTH 1, 2 := replicate 800 0)"

theorem spongos_survives_serialization_witness:
  "\<exists>m1. mam_spongos_serialize parked_store \<lparr>sp_sponge = 1, sp_pos = 400\<rparr> (trits_from_rep 800 2) = Some (m1, after (trits_from_rep 800 2) 741)"
proof -
  have "mam_spongos_serialized_size \<lparr>sp_sponge = 1, sp_pos = 400\<rparr> = Some 741" by code_simp
  moreover have "duplex_ok (duplex_of parked_store \<lparr>sp_sponge = 1, sp_pos = 400\<rparr>)" "window parked_store (trits_from_rep 800 2)"
    by (simp_all add: parked_store_def duplex_of_def duplex_ok_def window_def trits_from_rep_def list_all_iff is_trit_cases)
  ultimately show ?thesis
    using spongos_survives_serialization [of parked_store "\<lparr>sp_sponge = 1, sp_pos = 400\<rparr>" "trits_from_rep 800 2" 741] by (fastforce simp: trits_from_rep_def trits_size_def)
qed

end
