(* ===== verification/Mam_Wots.thy ===== *)
theory Mam_Wots
  imports Prelude Errors Mam_Trits Mam_Sponge Mam_Spongos Mam_Pb3
begin

text \<open>
  \<open>mam/prng/prng.c\<close> and \<open>mam/wots/wots.c\<close>: the generator of keys, and one-time signatures of MAM. A signature is the private key with every part hashed as often as a tryte of the hash
  says; three parts carry the negated sum of the trytes. Arrays on the stack are blocks of the store whose number is an argument; they hold whatever they held before.
\<close>

section \<open>Definitions\<close>

subsection \<open>Keys from a secret\<close>

abbreviation MAM_PRNG_SECRET_KEY_SIZE :: nat where "MAM_PRNG_SECRET_KEY_SIZE \<equiv> 243"

datatype mam_prng_destination_tryte_t = MAM_PRNG_DST_SEC_KEY | MAM_PRNG_DST_WOTS_KEY | MAM_PRNG_DST_NTRU_KEY

fun destination_tryte :: "mam_prng_destination_tryte_t \<Rightarrow> int" where
  "destination_tryte MAM_PRNG_DST_SEC_KEY = 0"
| "destination_tryte MAM_PRNG_DST_WOTS_KEY = 1"
| "destination_tryte MAM_PRNG_DST_NTRU_KEY = 2"

text \<open>The generator is the block of its key.\<close>

type_synonym mam_prng_t = nat

definition mam_prng_init :: "mem \<Rightarrow> mam_prng_t option \<Rightarrow> trits_t \<Rightarrow> (retcode \<times> mem) option" where
  "mam_prng_init m prng secret_key =
     (case prng of None \<Rightarrow> Some (RC_NULL_PARAM, m)
      | Some p \<Rightarrow>
          if trits_size secret_key \<noteq> MAM_PRNG_SECRET_KEY_SIZE then Some (RC_INVALID_PARAM, m)
          else do {
            ts \<leftarrow> mem_load m (trits_p secret_key) (trits_d secret_key) MAM_PRNG_SECRET_KEY_SIZE;
            m \<leftarrow> mem_store m p 0 ts;
            Some (RC_OK, m) })"

definition mam_prng_reset :: "mem \<Rightarrow> mam_prng_t option \<Rightarrow> (retcode \<times> mem) option" where
  "mam_prng_reset m prng =
     (case prng of None \<Rightarrow> Some (RC_NULL_PARAM, m)
      | Some p \<Rightarrow> do { m \<leftarrow> mem_store m p 0 (replicate MAM_PRNG_SECRET_KEY_SIZE 0); Some (RC_OK, m) })"

text \<open>\<open>sponge\<close> and \<open>dest\<close> are the arrays on the stack.\<close>

definition mam_prng_gen5 ::
  "perm \<Rightarrow> mem \<Rightarrow> mam_sponge_t \<Rightarrow> nat \<Rightarrow> mam_prng_t option \<Rightarrow> mam_prng_destination_tryte_t \<Rightarrow> trits_t \<Rightarrow> trits_t \<Rightarrow> trits_t \<Rightarrow> trits_t \<Rightarrow> trits_t \<Rightarrow> trits_t
    \<Rightarrow> (retcode \<times> mem) option" where
  "mam_prng_gen5 F m sponge dest prng destination nonce1 nonce2 nonce3 nonce4 nonce5 output_t =
     (case prng of None \<Rightarrow> Some (RC_NULL_PARAM, m)
      | Some p \<Rightarrow> do {
          let inputs = [trits_from_rep MAM_PRNG_SECRET_KEY_SIZE p, trits_from_rep 3 dest, nonce1, nonce2, nonce3, nonce4, nonce5];
          m \<leftarrow> trits_put3 m (inputs ! 1) (destination_tryte destination);
          m \<leftarrow> mam_sponge_init m sponge;
          m \<leftarrow> mam_sponge_absorbn F m sponge MAM_SPONGE_CTL_KEY inputs;
          m \<leftarrow> mam_sponge_squeeze F m sponge MAM_SPONGE_CTL_PRN output_t;
          Some (RC_OK, m) })"

definition mam_prng_gen3 where
  "mam_prng_gen3 F m sponge dest prng destination nonce1 nonce2 nonce3 output_t = mam_prng_gen5 F m sponge dest prng destination nonce1 nonce2 nonce3 trits_null trits_null output_t"

definition mam_prng_gen2 where
  "mam_prng_gen2 F m sponge dest prng destination nonce1 nonce2 output_t = mam_prng_gen5 F m sponge dest prng destination nonce1 nonce2 trits_null trits_null trits_null output_t"

definition mam_prng_gen where
  "mam_prng_gen F m sponge dest prng destination nonce output_t = mam_prng_gen5 F m sponge dest prng destination nonce trits_null trits_null trits_null trits_null output_t"

definition mam_prng_serialized_size :: nat where "mam_prng_serialized_size = MAM_PRNG_SECRET_KEY_SIZE"

definition mam_prng_serialize :: "mem \<Rightarrow> mam_prng_t \<Rightarrow> trits_t \<Rightarrow> (mem \<times> trits_t) option" where
  "mam_prng_serialize m prng buffer = pb3_encode_ntrytes m (trits_from_rep MAM_PRNG_SECRET_KEY_SIZE prng) buffer"

definition mam_prng_deserialize :: "mem \<Rightarrow> trits_t \<Rightarrow> mam_prng_t \<Rightarrow> (retcode \<times> mem \<times> trits_t) option" where
  "mam_prng_deserialize m buffer prng = pb3_decode_ntrytes m (trits_from_rep MAM_PRNG_SECRET_KEY_SIZE prng) buffer"

subsection \<open>Signatures\<close>

abbreviation MAM_WOTS_PUBLIC_KEY_SIZE :: nat where "MAM_WOTS_PUBLIC_KEY_SIZE \<equiv> 243"
abbreviation MAM_WOTS_PRIVATE_KEY_PART_SIZE :: nat where "MAM_WOTS_PRIVATE_KEY_PART_SIZE \<equiv> 162"
abbreviation MAM_WOTS_PRIVATE_KEY_PART_COUNT :: nat where "MAM_WOTS_PRIVATE_KEY_PART_COUNT \<equiv> 81"
abbreviation MAM_WOTS_PRIVATE_KEY_SIZE :: nat where "MAM_WOTS_PRIVATE_KEY_SIZE \<equiv> 13122"
abbreviation MAM_WOTS_HASH_SIZE :: nat where "MAM_WOTS_HASH_SIZE \<equiv> 234"
abbreviation MAM_WOTS_SIGNATURE_SIZE :: nat where "MAM_WOTS_SIGNATURE_SIZE \<equiv> MAM_WOTS_PRIVATE_KEY_SIZE"

datatype wots_hash_operation_t = WOTS_HASH_SIGN | WOTS_HASH_RECOVER

text \<open>The private key is the block of its trits.\<close>

type_synonym mam_wots_t = nat

definition mam_wots_reset :: "mem \<Rightarrow> mam_wots_t option \<Rightarrow> (retcode \<times> mem) option" where
  "mam_wots_reset m wots =
     (case wots of None \<Rightarrow> Some (RC_NULL_PARAM, m)
      | Some w \<Rightarrow> do { m \<leftarrow> mem_store m w 0 (replicate MAM_WOTS_PRIVATE_KEY_SIZE 0); Some (RC_OK, m) })"

definition mam_wots_gen_sk5 where
  "mam_wots_gen_sk5 F m sponge dest wots prng nonce1 nonce2 nonce3 nonce4 nonce5 =
     (case wots of None \<Rightarrow> Some (RC_NULL_PARAM, m)
      | Some w \<Rightarrow> mam_prng_gen5 F m sponge dest prng MAM_PRNG_DST_WOTS_KEY nonce1 nonce2 nonce3 nonce4 nonce5 (trits_from_rep MAM_WOTS_PRIVATE_KEY_SIZE w))"

definition mam_wots_gen_sk where
  "mam_wots_gen_sk F m sponge dest wots prng nonce = mam_wots_gen_sk5 F m sponge dest wots prng nonce trits_null trits_null trits_null trits_null"

text \<open>The loop \<open>for (j = -13; j < h; ++j)\<close> runs \<open>h + 13\<close> times.\<close>

fun hash_part_loop :: "perm \<Rightarrow> nat \<Rightarrow> mem \<Rightarrow> mam_spongos_t \<Rightarrow> trits_t \<Rightarrow> (mem \<times> mam_spongos_t) option" where
  "hash_part_loop F 0 m spongos part = Some (m, spongos)"
| "hash_part_loop F (Suc j) m spongos part = do { (m, spongos) \<leftarrow> mam_spongos_hash F m spongos part part; hash_part_loop F j m spongos part }"

definition times_of :: "wots_hash_operation_t \<Rightarrow> int \<Rightarrow> nat" where
  "times_of operation h = nat ((if operation = WOTS_HASH_SIGN then h else wrap8 (- h)) + 13)"

fun wots_hash_parts ::
  "perm \<Rightarrow> wots_hash_operation_t \<Rightarrow> nat \<Rightarrow> nat \<Rightarrow> mem \<Rightarrow> mam_spongos_t \<Rightarrow> trits_t \<Rightarrow> trits_t \<Rightarrow> int \<Rightarrow> (mem \<times> mam_spongos_t \<times> trits_t \<times> int) option" where
  "wots_hash_parts F operation 0 i m spongos hash signature t = Some (m, spongos, signature, t)"
| "wots_hash_parts F operation (Suc n) i m spongos hash signature t = do {
     signature_part \<leftarrow> trits_take signature MAM_WOTS_PRIVATE_KEY_PART_SIZE;
     signature \<leftarrow> trits_drop signature MAM_WOTS_PRIVATE_KEY_PART_SIZE;
     x \<leftarrow> trits_drop hash (i * 3);
     h \<leftarrow> trits_get3 m x;
     let t = wrap16 (t + h);
     (m, spongos) \<leftarrow> hash_part_loop F (times_of operation h) m spongos signature_part;
     wots_hash_parts F operation n (i + 1) m spongos hash signature t }"

fun wots_checksum_parts :: "perm \<Rightarrow> wots_hash_operation_t \<Rightarrow> nat \<Rightarrow> mem \<Rightarrow> mam_spongos_t \<Rightarrow> trits_t \<Rightarrow> int \<Rightarrow> (mem \<times> mam_spongos_t) option" where
  "wots_checksum_parts F operation 0 m spongos signature t = Some (m, spongos)"
| "wots_checksum_parts F operation (Suc n) m spongos signature t = do {
     signature_part \<leftarrow> trits_take signature MAM_WOTS_PRIVATE_KEY_PART_SIZE;
     signature \<leftarrow> trits_drop signature MAM_WOTS_PRIVATE_KEY_PART_SIZE;
     let h = wrap8 (MAM_MODS t 19683 27);
     let t = wrap16 (MAM_DIVS t 19683 27);
     (m, spongos) \<leftarrow> hash_part_loop F (times_of operation h) m spongos signature_part;
     wots_checksum_parts F operation n m spongos signature t }"

definition wots_hash_sign_or_recover :: "perm \<Rightarrow> mem \<Rightarrow> mam_spongos_t \<Rightarrow> trits_t \<Rightarrow> trits_t \<Rightarrow> wots_hash_operation_t \<Rightarrow> (mem \<times> mam_spongos_t) option" where
  "wots_hash_sign_or_recover F m spongos hash signature operation = do {
     (m, spongos, signature, t) \<leftarrow> wots_hash_parts F operation (MAM_WOTS_PRIVATE_KEY_PART_COUNT - 3) 0 m spongos hash signature 0;
     let t = wrap16 (- t);
     wots_checksum_parts F operation 3 m spongos signature t }"

text \<open>\<open>spongos\<close>, \<open>spongos_part\<close> and \<open>private_key_part\<close> are on the stack.\<close>

fun gen_pk_loop :: "perm \<Rightarrow> nat \<Rightarrow> nat \<Rightarrow> mem \<Rightarrow> mam_spongos_t \<Rightarrow> mam_spongos_t \<Rightarrow> nat \<Rightarrow> mam_wots_t \<Rightarrow> (mem \<times> mam_spongos_t \<times> mam_spongos_t) option" where
  "gen_pk_loop F 0 i m spongos spongos_part private_key_part wots = Some (m, spongos, spongos_part)"
| "gen_pk_loop F (Suc n) i m spongos spongos_part private_key_part wots = do {
     ts \<leftarrow> mem_load m wots (MAM_WOTS_PRIVATE_KEY_PART_SIZE * i) MAM_WOTS_PRIVATE_KEY_PART_SIZE;
     m \<leftarrow> mem_store m private_key_part 0 ts;
     (m, spongos) \<leftarrow> hash_part_loop F 26 m spongos (trits_from_rep MAM_WOTS_PRIVATE_KEY_PART_SIZE private_key_part);
     (m, spongos_part) \<leftarrow> mam_spongos_absorb F m spongos_part (trits_from_rep MAM_WOTS_PRIVATE_KEY_PART_SIZE private_key_part);
     gen_pk_loop F n (i + 1) m spongos spongos_part private_key_part wots }"

definition mam_wots_gen_pk :: "perm \<Rightarrow> mem \<Rightarrow> mam_spongos_t \<Rightarrow> mam_spongos_t \<Rightarrow> nat \<Rightarrow> mam_wots_t option \<Rightarrow> trits_t \<Rightarrow> (retcode \<times> mem) option" where
  "mam_wots_gen_pk F m spongos spongos_part private_key_part wots public_key =
     (case wots of None \<Rightarrow> Some (RC_NULL_PARAM, m)
      | Some w \<Rightarrow>
          if trits_size public_key \<noteq> MAM_WOTS_PUBLIC_KEY_SIZE then Some (RC_INVALID_PARAM, m)
          else do {
            (m, spongos_part) \<leftarrow> mam_spongos_init m spongos_part;
            (m, spongos, spongos_part) \<leftarrow> gen_pk_loop F MAM_WOTS_PRIVATE_KEY_PART_COUNT 0 m spongos spongos_part private_key_part w;
            let (m, spongos_part) = mam_spongos_commit F m spongos_part;
            (m, spongos_part) \<leftarrow> mam_spongos_squeeze F m spongos_part public_key;
            Some (RC_OK, m) })"

definition mam_wots_sign :: "perm \<Rightarrow> mem \<Rightarrow> mam_spongos_t \<Rightarrow> mam_wots_t option \<Rightarrow> trits_t \<Rightarrow> trits_t \<Rightarrow> (retcode \<times> mem) option" where
  "mam_wots_sign F m spongos wots hash signature =
     (case wots of None \<Rightarrow> Some (RC_NULL_PARAM, m)
      | Some w \<Rightarrow>
          if trits_size hash \<noteq> MAM_WOTS_HASH_SIZE \<or> trits_size signature \<noteq> MAM_WOTS_SIGNATURE_SIZE then Some (RC_INVALID_PARAM, m)
          else do {
            ts \<leftarrow> mem_load m w 0 MAM_WOTS_PRIVATE_KEY_SIZE;
            m \<leftarrow> mem_store m (trits_p signature) (trits_d signature) ts;
            (m, spongos) \<leftarrow> wots_hash_sign_or_recover F m spongos hash signature WOTS_HASH_SIGN;
            Some (RC_OK, m) })"

definition mam_wots_recover :: "perm \<Rightarrow> mem \<Rightarrow> mam_spongos_t \<Rightarrow> nat \<Rightarrow> trits_t \<Rightarrow> trits_t \<Rightarrow> trits_t \<Rightarrow> (retcode \<times> mem) option" where
  "mam_wots_recover F m spongos sig_pks hash signature public_key =
     (if trits_size hash \<noteq> MAM_WOTS_HASH_SIZE \<or> trits_size signature \<noteq> MAM_WOTS_SIGNATURE_SIZE \<or> trits_size public_key \<noteq> MAM_WOTS_PUBLIC_KEY_SIZE
      then Some (RC_INVALID_PARAM, m)
      else do {
        ts \<leftarrow> mem_load m (trits_p signature) (trits_d signature) MAM_WOTS_SIGNATURE_SIZE;
        m \<leftarrow> mem_store m sig_pks 0 ts;
        (m, spongos) \<leftarrow> wots_hash_sign_or_recover F m spongos hash (trits_from_rep MAM_WOTS_PRIVATE_KEY_SIZE sig_pks) WOTS_HASH_RECOVER;
        (m, spongos) \<leftarrow> mam_spongos_hash F m spongos (trits_from_rep MAM_WOTS_PRIVATE_KEY_SIZE sig_pks) public_key;
        Some (RC_OK, m) })"

section \<open>The hash of a window\<close>

definition spongos_digest :: "perm \<Rightarrow> nat \<Rightarrow> trit list \<Rightarrow> trit list" where
  "spongos_digest F n xs = fst (duplex_squeeze F n (duplex_commit F (duplex_absorb F xs (replicate MAM_SPONGE_WIDTH 0, 0))))"

lemma commit_runs: "mam_spongos_commit F m spongos = with_duplex m spongos (duplex_commit F (duplex_of m spongos))"
  by (simp add: mam_spongos_commit_def duplex_commit_def with_duplex_def duplex_of_def mam_sponge_transform_def)

lemma init_runs: "length (m (sp_sponge spongos)) = MAM_SPONGE_WIDTH \<Longrightarrow> mam_spongos_init m spongos = Some (with_duplex m spongos (replicate MAM_SPONGE_WIDTH 0, 0))"
  using zero_state [where m = m and sponge = "sp_sponge spongos"] by (simp add: mam_spongos_init_def with_duplex_def)

lemma with_duplex_pair: "with_duplex m spongos d = (m(sp_sponge spongos := fst d), spongos\<lparr>sp_pos := snd d\<rparr>)"
  by (simp add: with_duplex_def)

lemma wr_upd: "trits_p x \<noteq> p \<Longrightarrow> wr (m(p := st)) x ts = (wr m x ts)(p := st)"
  by (auto simp: wr_def)

lemma duplex_run_append:
  "duplex_run f g F (xs @ ys) d = (let (us, d) = duplex_run f g F xs d; (vs, d) = duplex_run f g F ys d in (us @ vs, d))"
  by (induction xs arbitrary: d) (simp_all add: Let_def split_beta)

lemma duplex_absorb_append: "duplex_absorb F (xs @ ys) d = duplex_absorb F ys (duplex_absorb F xs d)"
  by (simp add: duplex_absorb_def duplex_run_append split_beta Let_def)

lemma fresh_ok: "duplex_ok (replicate MAM_SPONGE_WIDTH 0, 0)"
  by (simp add: duplex_ok_def list_all_iff is_trit_cases)

context sponge_permutation
begin

lemma absorb_ok: "valid_trits xs \<Longrightarrow> duplex_ok d \<Longrightarrow> duplex_ok (duplex_absorb F xs d)"
  using duplex_run_ok [of "\<lambda>x t. x" "\<lambda>x t. x" xs d] by (simp add: duplex_absorb_def)

lemma digest_ok:
  assumes "valid_trits xs"
  shows "length (spongos_digest F n xs) = n" "valid_trits (spongos_digest F n xs)"
  using squeeze_ok [OF commit_ok [OF absorb_ok [OF assms fresh_ok]], of n] by (simp_all add: spongos_digest_def)

lemma squeeze_digest:
  assumes "duplex_ok (duplex_of m spongos)" "duplex_of m spongos = duplex_absorb F xs (replicate MAM_SPONGE_WIDTH 0, 0)" "window m y" "trits_p y \<noteq> sp_sponge spongos"
  shows "\<exists>st pos. length st = MAM_SPONGE_WIDTH \<and> case_prod (\<lambda>m spongos. mam_spongos_squeeze F m spongos y) (mam_spongos_commit F m spongos)
    = Some ((wr m y (spongos_digest F (trits_size y) xs))(sp_sponge spongos := st), spongos\<lparr>sp_pos := pos\<rparr>)"
proof -
  let ?c = "duplex_commit F (duplex_of m spongos)" let ?m = "m(sp_sponge spongos := fst ?c)" let ?s = "spongos\<lparr>sp_pos := snd ?c\<rparr>"
  have c: "duplex_of ?m ?s = ?c" "duplex_ok ?c" using commit_ok [OF assms(1)] by (simp_all add: duplex_of_def)
  have w: "window ?m y" using assms(3,4) by (simp add: window_def)
  have "mam_spongos_squeeze F ?m ?s y = Some (with_duplex (wr ?m y (spongos_digest F (trits_size y) xs)) ?s (snd (duplex_squeeze F (trits_size y) ?c)))"
    using squeeze_runs [of ?m ?s, OF _ w] c assms(2,4) by (simp add: spongos_digest_def split_beta)
  then show ?thesis using squeeze_ok(3) [OF c(2), of "trits_size y"] assms(4)
    by (intro exI [of _ "fst (snd (duplex_squeeze F (trits_size y) ?c))"] exI [of _ "snd (snd (duplex_squeeze F (trits_size y) ?c))"])
      (simp add: commit_runs with_duplex_pair wr_upd duplex_ok_def)
qed

lemma hash_runs:
  assumes "length (m (sp_sponge spongos)) = MAM_SPONGE_WIDTH" "window m x" "window m y" "trits_p x \<noteq> sp_sponge spongos" "trits_p y \<noteq> sp_sponge spongos" "valid_trits (rd m x)"
  shows "\<exists>st pos. length st = MAM_SPONGE_WIDTH \<and>
    mam_spongos_hash F m spongos x y = Some ((wr m y (spongos_digest F (trits_size y) (rd m x)))(sp_sponge spongos := st), spongos\<lparr>sp_pos := pos\<rparr>)"
proof -
  let ?z = "(replicate MAM_SPONGE_WIDTH (0 :: trit), 0 :: nat)" let ?m = "m(sp_sponge spongos := fst ?z)" let ?s = "spongos\<lparr>sp_pos := snd ?z\<rparr>" let ?a = "duplex_absorb F (rd m x) ?z"
  let ?n = "m(sp_sponge spongos := fst ?a)" let ?t = "spongos\<lparr>sp_pos := snd ?a\<rparr>"
  have i: "mam_spongos_init m spongos = Some (?m, ?s)" using init_runs [where m = m, OF assms(1)] by (simp add: with_duplex_pair)
  have d: "duplex_of ?m ?s = ?z" by (simp add: duplex_of_def)
  have w: "window ?m x" "rd ?m x = rd m x" "window ?n y" using assms(2-5) by (simp_all add: window_def rd_def)
  have a: "mam_spongos_absorb F ?m ?s x = Some (?n, ?t)"
    using absorb_runs [of ?m ?s, OF _ w(1)] fresh_ok d w(2) assms(4,6) by (simp add: with_duplex_pair)
  have o: "duplex_ok (duplex_of ?n ?t)" "duplex_of ?n ?t = ?a" using absorb_ok [OF assms(6) fresh_ok] by (simp_all add: duplex_of_def)
  obtain st pos where "length st = MAM_SPONGE_WIDTH" "case_prod (\<lambda>m spongos. mam_spongos_squeeze F m spongos y) (mam_spongos_commit F ?n ?t)
      = Some ((wr ?n y (spongos_digest F (trits_size y) (rd m x)))(sp_sponge ?t := st), ?t\<lparr>sp_pos := pos\<rparr>)"
    using squeeze_digest [OF o w(3)] assms(5) by auto
  then show ?thesis using i a assms(5) by (auto simp: mam_spongos_hash_def split_beta wr_upd)
qed

lemma hash_part_loop_runs:
  assumes "length (m (sp_sponge spongos)) = MAM_SPONGE_WIDTH" "window m x" "trits_p x \<noteq> sp_sponge spongos" "valid_trits (rd m x)"
  shows "\<exists>st pos. length st = MAM_SPONGE_WIDTH \<and>
    hash_part_loop F n m spongos x = Some ((wr m x ((spongos_digest F (trits_size x) ^^ n) (rd m x)))(sp_sponge spongos := st), spongos\<lparr>sp_pos := pos\<rparr>)"
  using assms
proof (induction n arbitrary: m spongos)
  case 0
  then show ?case by (intro exI [of _ "m (sp_sponge spongos)"] exI [of _ "sp_pos spongos"]) (simp add: wr_rd)
next
  case (Suc n)
  let ?H = "spongos_digest F (trits_size x)"
  obtain st pos where st: "length st = MAM_SPONGE_WIDTH" "mam_spongos_hash F m spongos x x = Some ((wr m x (?H (rd m x)))(sp_sponge spongos := st), spongos\<lparr>sp_pos := pos\<rparr>)"
    using hash_runs [OF Suc.prems(1,2,2,3,3,4)] by blast
  define m1 where "m1 = (wr m x (?H (rd m x)))(sp_sponge spongos := st)"
  note H = digest_ok [OF Suc.prems(4), of "trits_size x"]
  have m1: "length (m1 (sp_sponge (spongos\<lparr>sp_pos := pos\<rparr>))) = MAM_SPONGE_WIDTH" "window m1 x" "rd m1 x = ?H (rd m x)"
    using st(1) Suc.prems(2,3) H window_wr [OF Suc.prems(2), of "?H (rd m x)" x] rd_wr_same [OF Suc.prems(2), of "?H (rd m x)"] by (simp_all add: m1_def window_def rd_def)
  have "\<exists>st' pos'. length st' = MAM_SPONGE_WIDTH \<and> hash_part_loop F n m1 (spongos\<lparr>sp_pos := pos\<rparr>) x = Some ((wr m1 x ((?H ^^ n) (rd m1 x)))(sp_sponge spongos := st'), spongos\<lparr>sp_pos := pos'\<rparr>)"
    using Suc.IH [of m1 "spongos\<lparr>sp_pos := pos\<rparr>"] m1 Suc.prems(3) H(2) by (simp del: fun_upd_apply)
  then obtain st' pos' where "length st' = MAM_SPONGE_WIDTH" "hash_part_loop F n m1 (spongos\<lparr>sp_pos := pos\<rparr>) x = Some ((wr m1 x ((?H ^^ n) (rd m1 x)))(sp_sponge spongos := st'), spongos\<lparr>sp_pos := pos'\<rparr>)"
    by blast
  moreover have "(wr m1 x ((?H ^^ n) (rd m1 x)))(sp_sponge spongos := st') = (wr m x ((?H ^^ Suc n) (rd m x)))(sp_sponge spongos := st')"
  proof -
    have l: "length ((?H ^^ k) ys) = trits_size x \<and> valid_trits ((?H ^^ k) ys)" if "valid_trits ys" "length ys = trits_size x" for k ys
      using that by (induction k) (simp_all add: digest_ok)
    have "wr (wr m x (?H (rd m x))) x ((?H ^^ n) (?H (rd m x))) = wr m x ((?H ^^ n) (?H (rd m x)))"
      using wr_over [OF Suc.prems(2), of "?H (rd m x)" "(?H ^^ n) (?H (rd m x))"] l [OF H(2,1)] H(1) by simp
    then show ?thesis using Suc.prems(3) m1(3) by (simp add: m1_def wr_upd funpow_swap1)
  qed
  ultimately show ?case using st(2) by (intro exI [of _ st'] exI [of _ pos']) (simp add: m1_def del: fun_upd_apply)
qed

end

section \<open>The parts of a signature\<close>

text \<open>Every part is hashed as often as its number says. The numbers of a hash: its trytes and the three trytes of the negated sum.\<close>

fun chain_parts :: "(trit list \<Rightarrow> trit list) \<Rightarrow> nat list \<Rightarrow> trit list \<Rightarrow> trit list" where
  "chain_parts H [] xs = []"
| "chain_parts H (k # ks) xs = (H ^^ k) (take MAM_WOTS_PRIVATE_KEY_PART_SIZE xs) @ chain_parts H ks (drop MAM_WOTS_PRIVATE_KEY_PART_SIZE xs)"

fun checksum_trytes :: "nat \<Rightarrow> int \<Rightarrow> int list" where
  "checksum_trytes 0 t = []"
| "checksum_trytes (Suc n) t = MAM_MODS t 19683 27 # checksum_trytes n (MAM_DIVS t 19683 27)"

definition hash_trytes :: "nat \<Rightarrow> nat \<Rightarrow> trit list \<Rightarrow> int list" where
  "hash_trytes i n ts = map (\<lambda>k. bt_value (slice (3 * k) 3 ts)) [i..<i + n]"

definition wots_trytes :: "trit list \<Rightarrow> int list" where
  "wots_trytes ts = (let hs = hash_trytes 0 78 ts in hs @ checksum_trytes 3 (- sum_list hs))"

lemma hash_trytes_Suc: "hash_trytes i (Suc n) ts = bt_value (slice (3 * i) 3 ts) # hash_trytes (Suc i) n ts"
  by (simp add: hash_trytes_def upt_conv_Cons del: upt_Suc)

lemma length_hash_trytes [simp]: "length (hash_trytes i n ts) = n"
  by (simp add: hash_trytes_def)

lemma tryte_bound: "valid_trits ts \<Longrightarrow> 3 * k + 3 \<le> length ts \<Longrightarrow> \<bar>bt_value (slice (3 * k) 3 ts)\<bar> \<le> 13"
  using bt_value_range [of "slice (3 * k) 3 ts" 3] by (simp add: valid_trits_slice)

lemma hash_trytes_bound: "valid_trits ts \<Longrightarrow> 3 * (i + n) \<le> length ts \<Longrightarrow> h \<in> set (hash_trytes i n ts) \<Longrightarrow> \<bar>h\<bar> \<le> 13"
  using tryte_bound by (fastforce simp: hash_trytes_def)

lemma hash_trytes_sum: "valid_trits ts \<Longrightarrow> 3 * (i + n) \<le> length ts \<Longrightarrow> \<bar>sum_list (hash_trytes i n ts)\<bar> \<le> 13 * int n"
proof (induction n arbitrary: i)
  case (Suc n)
  have "\<bar>sum_list (hash_trytes (Suc i) n ts)\<bar> \<le> 13 * int n" using Suc by simp
  moreover have "\<bar>bt_value (slice (3 * i) 3 ts)\<bar> \<le> 13" using Suc.prems by (intro tryte_bound) simp_all
  ultimately show ?case by (simp add: hash_trytes_Suc)
qed (simp add: hash_trytes_def)

lemma checksum_step:
  assumes "\<bar>t\<bar> \<le> 9841"
  shows "MAM_MODS t 19683 27 + 27 * MAM_DIVS t 19683 27 = t" "\<bar>MAM_MODS t 19683 27\<bar> \<le> 13" "\<bar>MAM_DIVS t 19683 27\<bar> \<le> 364"
  using mods_divs [of 27 729 19683 t] assms by simp_all

lemma checksum_trytes_bound: "\<bar>t\<bar> \<le> 9841 \<Longrightarrow> c \<in> set (checksum_trytes n t) \<Longrightarrow> \<bar>c\<bar> \<le> 13"
proof (induction n arbitrary: t)
  case (Suc n)
  have "\<bar>MAM_DIVS t 19683 27\<bar> \<le> 9841" using checksum_step(3) [OF Suc.prems(1)] by simp
  then show ?case using Suc checksum_step(2) by auto
qed simp

lemma length_checksum_trytes [simp]: "length (checksum_trytes n t) = n"
  by (induction n arbitrary: t) simp_all

context sponge_permutation
begin

abbreviation H162 :: "trit list \<Rightarrow> trit list" where "H162 \<equiv> spongos_digest F MAM_WOTS_PRIVATE_KEY_PART_SIZE"

lemma H162_power: "valid_trits xs \<Longrightarrow> length xs = MAM_WOTS_PRIVATE_KEY_PART_SIZE \<Longrightarrow> length ((H162 ^^ k) xs) = MAM_WOTS_PRIVATE_KEY_PART_SIZE \<and> valid_trits ((H162 ^^ k) xs)"
  by (induction k) (simp_all add: digest_ok)

lemma chain_parts_ok:
  "valid_trits xs \<Longrightarrow> MAM_WOTS_PRIVATE_KEY_PART_SIZE * length ks \<le> length xs \<Longrightarrow>
    length (chain_parts H162 ks xs) = MAM_WOTS_PRIVATE_KEY_PART_SIZE * length ks \<and> valid_trits (chain_parts H162 ks xs)"
proof (induction ks arbitrary: xs)
  case (Cons k ks)
  then show ?case using Cons.IH [of "drop MAM_WOTS_PRIVATE_KEY_PART_SIZE xs"] H162_power [of "take MAM_WOTS_PRIVATE_KEY_PART_SIZE xs" k]
    by (simp add: valid_trits_take valid_trits_drop)
qed simp

text \<open>Hashing on: the numbers add up.\<close>

lemma chain_parts_add:
  "valid_trits xs \<Longrightarrow> MAM_WOTS_PRIVATE_KEY_PART_SIZE * length ks \<le> length xs \<Longrightarrow> length ks = length js \<Longrightarrow>
    chain_parts H162 js (chain_parts H162 ks xs) = chain_parts H162 (map2 (+) js ks) xs"
proof (induction ks arbitrary: js xs)
  case (Cons k ks)
  then obtain j js' where "js = j # js'" by (cases js) auto
  then show ?case using Cons.IH [of "drop MAM_WOTS_PRIVATE_KEY_PART_SIZE xs" js'] Cons.prems H162_power [of "take MAM_WOTS_PRIVATE_KEY_PART_SIZE xs" k]
    by (simp add: valid_trits_take valid_trits_drop funpow_add)
qed simp

lemma part_step:
  assumes "length (m (sp_sponge spongos)) = MAM_SPONGE_WIDTH" "window m y" "trits_p y \<noteq> sp_sponge spongos" "valid_trits (rd m y)" "MAM_WOTS_PRIVATE_KEY_PART_SIZE \<le> trits_size y"
  shows "\<exists>m' pos. hash_part_loop F k m spongos (upto y MAM_WOTS_PRIVATE_KEY_PART_SIZE) = Some (m', spongos\<lparr>sp_pos := pos\<rparr>)
    \<and> length (m' (sp_sponge spongos)) = MAM_SPONGE_WIDTH \<and> m' = (wr m y ((H162 ^^ k) (take MAM_WOTS_PRIVATE_KEY_PART_SIZE (rd m y))))(sp_sponge spongos := m' (sp_sponge spongos))
    \<and> rd m' (after y MAM_WOTS_PRIVATE_KEY_PART_SIZE) = drop MAM_WOTS_PRIVATE_KEY_PART_SIZE (rd m y) \<and> window m' (after y MAM_WOTS_PRIVATE_KEY_PART_SIZE)
    \<and> (\<forall>x. window m x \<and> apart x y \<and> trits_p x \<noteq> sp_sponge spongos \<longrightarrow> window m' x \<and> rd m' x = rd m x)"
proof -
  let ?p = "upto y MAM_WOTS_PRIVATE_KEY_PART_SIZE" let ?ys = "(H162 ^^ k) (take MAM_WOTS_PRIVATE_KEY_PART_SIZE (rd m y))"
  have p: "window m ?p" "rd m ?p = take MAM_WOTS_PRIVATE_KEY_PART_SIZE (rd m y)" "trits_size ?p = MAM_WOTS_PRIVATE_KEY_PART_SIZE"
    using assms(2,5) by (simp_all add: window_parts rd_upto size_parts)
  have ys: "length ?ys = MAM_WOTS_PRIVATE_KEY_PART_SIZE" using H162_power [of "take MAM_WOTS_PRIVATE_KEY_PART_SIZE (rd m y)" k] assms(2,4,5) by (simp add: valid_trits_take length_rd)
  obtain st pos where st: "length st = MAM_SPONGE_WIDTH" "hash_part_loop F k m spongos ?p = Some ((wr m y ?ys)(sp_sponge spongos := st), spongos\<lparr>sp_pos := pos\<rparr>)"
    using hash_part_loop_runs [where m = m, OF assms(1) p(1), of k] assms(3,4) p(2,3) by (auto simp: valid_trits_take simp del: fun_upd_apply)
  define m' where "m' = (wr m y ?ys)(sp_sponge spongos := st)"
  have "rd m' y = ?ys @ drop MAM_WOTS_PRIVATE_KEY_PART_SIZE (rd m y)" using rd_wr_prefix [OF assms(2), of ?ys] ys assms(3,5) by (simp add: m'_def rd_upd)
  then have "rd m' (after y MAM_WOTS_PRIVATE_KEY_PART_SIZE) = drop MAM_WOTS_PRIVATE_KEY_PART_SIZE (rd m y)" using ys assms(5) by (simp add: rd_after)
  moreover have w: "window m' x = window m x" if "trits_p x \<noteq> sp_sponge spongos" for x
    using that window_wr [OF assms(2), of ?ys x] ys assms(5) by (simp add: m'_def window_def)
  moreover have "window m' x \<and> rd m' x = rd m x" if "window m x" "apart x y" "trits_p x \<noteq> sp_sponge spongos" for x
    using that w rd_wr_apart [OF assms(2) that(1) _ apart_sym [OF that(2)], of ?ys] ys assms(5) by (simp add: m'_def rd_upd)
  ultimately show ?thesis using st assms(2,3,5) by (intro exI [of _ m'] exI [of _ pos]) (simp add: m'_def window_parts)
qed


lemma part_then_rest:
  assumes "window m y" "trits_p y \<noteq> b" "valid_trits (rd m y)" "MAM_WOTS_PRIVATE_KEY_PART_SIZE \<le> trits_size y" "m1 = (wr m y ((H162 ^^ k) (take MAM_WOTS_PRIVATE_KEY_PART_SIZE (rd m y))))(b := m1 b)"
  shows "wr m1 (after y MAM_WOTS_PRIVATE_KEY_PART_SIZE) c = (wr m y ((H162 ^^ k) (take MAM_WOTS_PRIVATE_KEY_PART_SIZE (rd m y)) @ c))(b := m1 b)"
proof -
  let ?P = MAM_WOTS_PRIVATE_KEY_PART_SIZE
  have "wr m1 (after y ?P) c = (wr (wr m y ((H162 ^^ k) (take ?P (rd m y)))) (after y ?P) c)(b := m1 b)" using assms(5) wr_upd [of "after y ?P" b] assms(2) by (metis parts_p(2))
  also have "wr (wr m y ((H162 ^^ k) (take ?P (rd m y)))) (after y ?P) c = wr m y ((H162 ^^ k) (take ?P (rd m y)) @ c)"
    using wr_append [OF assms(1), of "(H162 ^^ k) (take ?P (rd m y))" c] H162_power [of "take ?P (rd m y)" k] assms(1,3,4) by (simp add: valid_trits_take length_rd)
  finally show ?thesis .
qed

lemma wots_hash_parts_runs:
  assumes "length (m (sp_sponge spongos)) = MAM_SPONGE_WIDTH" "window m y" "trits_p y \<noteq> sp_sponge spongos" "valid_trits (rd m y)" "MAM_WOTS_PRIVATE_KEY_PART_SIZE * n \<le> trits_size y"
    and "window m hash" "trits_p hash \<noteq> sp_sponge spongos" "apart hash y" "valid_trits (rd m hash)" "3 * (i + n) \<le> trits_size hash" "\<bar>t\<bar> + 13 * int n \<le> 9841"
  shows "\<exists>m' pos. wots_hash_parts F operation n i m spongos hash y t = Some (m', spongos\<lparr>sp_pos := pos\<rparr>, after y (MAM_WOTS_PRIVATE_KEY_PART_SIZE * n), t + sum_list (hash_trytes i n (rd m hash)))
    \<and> length (m' (sp_sponge spongos)) = MAM_SPONGE_WIDTH
    \<and> m' = (wr m y (chain_parts H162 (map (times_of operation) (hash_trytes i n (rd m hash))) (rd m y)))(sp_sponge spongos := m' (sp_sponge spongos))"
  using assms
proof (induction n arbitrary: i m spongos y t)
  case 0
  then show ?case by (intro exI [of _ m] exI [of _ "sp_pos spongos"]) (simp add: hash_trytes_def after_def wr_def blit_def)
next
  case (Suc n)
  let ?h = "bt_value (slice (3 * i) 3 (rd m hash))"
  let ?k = "times_of operation ?h" let ?P = MAM_WOTS_PRIVATE_KEY_PART_SIZE
  have size: "?P \<le> trits_size y" "3 * i + 3 \<le> trits_size hash" using Suc.prems(5,10) by simp_all
  have h: "\<bar>?h\<bar> \<le> 13" using Suc.prems(6,9) size(2) by (intro tryte_bound) (simp_all add: length_rd)
  have g: "trits_get3 m (after hash (i * 3)) = Some ?h" using get3_after [OF Suc.prems(6) _ Suc.prems(9), of "i * 3"] size(2) by (simp add: mult.commute)
  have t: "wrap16 (t + ?h) = t + ?h" "\<bar>t + ?h\<bar> + 13 * int n \<le> 9841" using Suc.prems(11) h by (simp_all add: wrap_s_id)
  obtain m1 pos where m1: "hash_part_loop F ?k m spongos (upto y ?P) = Some (m1, spongos\<lparr>sp_pos := pos\<rparr>)" "length (m1 (sp_sponge spongos)) = MAM_SPONGE_WIDTH"
      "m1 = (wr m y ((H162 ^^ ?k) (take ?P (rd m y))))(sp_sponge spongos := m1 (sp_sponge spongos))" "rd m1 (after y ?P) = drop ?P (rd m y)" "window m1 (after y ?P)"
      "\<forall>x. window m x \<and> apart x y \<and> trits_p x \<noteq> sp_sponge spongos \<longrightarrow> window m1 x \<and> rd m1 x = rd m x"
    using part_step [OF Suc.prems(1-4) size(1), of ?k] by blast
  let ?s = "spongos\<lparr>sp_pos := pos\<rparr>"
  have hash: "window m1 hash" "rd m1 hash = rd m hash" using m1(6) Suc.prems(6-8) by simp_all
  have room: "?P * n \<le> trits_size (after y ?P)" using Suc.prems(5) by (simp add: size_parts)
  obtain m2 pos2 where m2: "wots_hash_parts F operation n (Suc i) m1 ?s hash (after y ?P) (t + ?h) = Some (m2, ?s\<lparr>sp_pos := pos2\<rparr>, after (after y ?P) (?P * n), t + ?h + sum_list (hash_trytes (Suc i) n (rd m hash)))"
      "length (m2 (sp_sponge spongos)) = MAM_SPONGE_WIDTH"
      "m2 = (wr m1 (after y ?P) (chain_parts H162 (map (times_of operation) (hash_trytes (Suc i) n (rd m hash))) (drop ?P (rd m y))))(sp_sponge spongos := m2 (sp_sponge spongos))"
    using Suc.IH [of m1 ?s "after y ?P" "Suc i" "t + ?h"] m1(2,4,5) hash t(2) room Suc.prems(3,4,7-10) by (auto simp: valid_trits_drop apart_parts simp del: fun_upd_apply)
  have "m2 = (wr m y (chain_parts H162 (map (times_of operation) (hash_trytes i (Suc n) (rd m hash))) (rd m y)))(sp_sponge spongos := m2 (sp_sponge spongos))"
    using m2(3) part_then_rest [OF Suc.prems(2-4) size(1) m1(3)] by (simp add: hash_trytes_Suc)
  moreover have "wots_hash_parts F operation (Suc n) i m spongos hash y t = Some (m2, spongos\<lparr>sp_pos := pos2\<rparr>, after y (?P * Suc n), t + sum_list (hash_trytes i (Suc n) (rd m hash)))"
    using trits_take_upto [OF Suc.prems(2) size(1)] trits_drop_after [OF Suc.prems(2) size(1)] trits_drop_after [OF Suc.prems(6), of "i * 3"] size(2) g t(1) m1(1) m2(1)
    by (simp add: hash_trytes_Suc algebra_simps)
  ultimately show ?case using m2(2) by blast
qed


lemma wots_checksum_parts_runs:
  assumes "length (m (sp_sponge spongos)) = MAM_SPONGE_WIDTH" "window m y" "trits_p y \<noteq> sp_sponge spongos" "valid_trits (rd m y)" "MAM_WOTS_PRIVATE_KEY_PART_SIZE * n \<le> trits_size y" "\<bar>t\<bar> \<le> 9841"
  shows "\<exists>m' pos. wots_checksum_parts F operation n m spongos y t = Some (m', spongos\<lparr>sp_pos := pos\<rparr>) \<and> length (m' (sp_sponge spongos)) = MAM_SPONGE_WIDTH
    \<and> m' = (wr m y (chain_parts H162 (map (times_of operation) (checksum_trytes n t)) (rd m y)))(sp_sponge spongos := m' (sp_sponge spongos))"
  using assms
proof (induction n arbitrary: m spongos y t)
  case 0
  then show ?case by (intro exI [of _ m] exI [of _ "sp_pos spongos"]) (simp add: wr_def blit_def)
next
  case (Suc n)
  let ?h = "MAM_MODS t 19683 27" let ?t = "MAM_DIVS t 19683 27" let ?P = MAM_WOTS_PRIVATE_KEY_PART_SIZE
  let ?k = "times_of operation ?h"
  have size: "?P \<le> trits_size y" "?P * n \<le> trits_size (after y ?P)" using Suc.prems(5) by (simp_all add: size_parts)
  have w: "wrap8 ?h = ?h" "wrap16 ?t = ?t" "\<bar>?t\<bar> \<le> 9841" using checksum_step(2,3) [OF Suc.prems(6)] by (simp_all add: wrap8_id wrap_s_id)
  obtain m1 pos where m1: "hash_part_loop F ?k m spongos (upto y ?P) = Some (m1, spongos\<lparr>sp_pos := pos\<rparr>)" "length (m1 (sp_sponge spongos)) = MAM_SPONGE_WIDTH"
      "m1 = (wr m y ((H162 ^^ ?k) (take ?P (rd m y))))(sp_sponge spongos := m1 (sp_sponge spongos))" "rd m1 (after y ?P) = drop ?P (rd m y)" "window m1 (after y ?P)"
    using part_step [OF Suc.prems(1-4) size(1), of ?k] by blast
  let ?s = "spongos\<lparr>sp_pos := pos\<rparr>" let ?c = "chain_parts H162 (map (times_of operation) (checksum_trytes n ?t)) (drop ?P (rd m y))"
  obtain m2 pos2 where m2: "wots_checksum_parts F operation n m1 ?s (after y ?P) ?t = Some (m2, ?s\<lparr>sp_pos := pos2\<rparr>)" "length (m2 (sp_sponge spongos)) = MAM_SPONGE_WIDTH"
      "m2 = (wr m1 (after y ?P) ?c)(sp_sponge spongos := m2 (sp_sponge spongos))"
    using Suc.IH [of m1 ?s "after y ?P" ?t] m1(2,4,5) size(2) w(3) Suc.prems(3,4) by (auto simp: valid_trits_drop simp del: fun_upd_apply)
  have "m2 = (wr m y (chain_parts H162 (map (times_of operation) (checksum_trytes (Suc n) t)) (rd m y)))(sp_sponge spongos := m2 (sp_sponge spongos))"
    using m2(3) part_then_rest [OF Suc.prems(2-4) size(1) m1(3), of ?c] by simp
  moreover have "wots_checksum_parts F operation (Suc n) m spongos y t = Some (m2, spongos\<lparr>sp_pos := pos2\<rparr>)"
    using trits_take_upto [OF Suc.prems(2) size(1)] trits_drop_after [OF Suc.prems(2) size(1)] w(1,2) m1(1) m2(1) by simp
  ultimately show ?case using m2(2) by blast
qed


lemma chain_parts_append: "chain_parts H (ks @ js) xs = chain_parts H ks xs @ chain_parts H js (drop (MAM_WOTS_PRIVATE_KEY_PART_SIZE * length ks) xs)"
  by (induction ks arbitrary: xs) (simp_all add: add.commute)

lemma sign_or_recover_runs:
  assumes "length (m (sp_sponge spongos)) = MAM_SPONGE_WIDTH" "window m y" "trits_p y \<noteq> sp_sponge spongos" "valid_trits (rd m y)" "trits_size y = MAM_WOTS_PRIVATE_KEY_SIZE"
    and "window m hash" "trits_p hash \<noteq> sp_sponge spongos" "apart hash y" "valid_trits (rd m hash)" "trits_size hash = MAM_WOTS_HASH_SIZE"
  shows "\<exists>m' pos. wots_hash_sign_or_recover F m spongos hash y operation = Some (m', spongos\<lparr>sp_pos := pos\<rparr>) \<and> length (m' (sp_sponge spongos)) = MAM_SPONGE_WIDTH
    \<and> m' = (wr m y (chain_parts H162 (map (times_of operation) (wots_trytes (rd m hash))) (rd m y)))(sp_sponge spongos := m' (sp_sponge spongos))"
proof -
  let ?hs = "hash_trytes 0 78 (rd m hash)" let ?L = "MAM_WOTS_PRIVATE_KEY_PART_SIZE * 78" let ?T = "times_of operation" let ?b = "sp_sponge spongos"
  let ?a = "chain_parts H162 (map ?T ?hs) (rd m y)" let ?t = "sum_list ?hs" let ?c = "chain_parts H162 (map ?T (checksum_trytes 3 (- ?t))) (drop ?L (rd m y))"
  obtain m1 pos where m1: "wots_hash_parts F operation 78 0 m spongos hash y 0 = Some (m1, spongos\<lparr>sp_pos := pos\<rparr>, after y ?L, ?t)" "length (m1 ?b) = MAM_SPONGE_WIDTH"
      "m1 = (wr m y ?a)(?b := m1 ?b)"
    using wots_hash_parts_runs [where m = m and n = 78 and i = 0 and t = 0 and operation = operation, OF assms(1-4) _ assms(6-9)] assms(5,10) by (auto simp del: fun_upd_apply)
  have t: "\<bar>?t\<bar> \<le> 1014" using hash_trytes_sum [OF assms(9), of 0 78] assms(6,10) by (simp add: length_rd)
  then have w: "wrap16 (- ?t) = - ?t" "\<bar>- ?t\<bar> \<le> 9841" by (simp_all add: wrap_s_id)
  have a: "length ?a = ?L" using chain_parts_ok [OF assms(4), of "map ?T ?hs"] assms(2,5) by (simp add: length_rd hash_trytes_def)
  have rw: "rd (wr m y ?a) y = ?a @ drop ?L (rd m y)" using rd_wr_prefix [OF assms(2), of ?a] a assms(5) by simp
  have y: "rd m1 (after y ?L) = drop ?L (rd m y)" "window m1 (after y ?L)" "trits_size (after y ?L) = MAM_WOTS_PRIVATE_KEY_PART_SIZE * 3"
  proof -
    have e: "m1 (trits_p y) = wr m y ?a (trits_p y)" using fun_upd_other [OF assms(3), of "wr m y ?a" "m1 ?b"] arg_cong [OF m1(3), of "\<lambda>m. m (trits_p y)"] by (simp only:)
    have "window (wr m y ?a) y" using window_wr [OF assms(2), of ?a y] a assms(2,5) by simp
    with e have "rd m1 y = rd (wr m y ?a) y" "window m1 y" by (simp_all only: rd_def window_def)
    then show "rd m1 (after y ?L) = drop ?L (rd m y)" "window m1 (after y ?L)" using rw a assms(5) by (simp_all add: rd_after window_parts)
  qed (simp add: size_parts assms(5))
  obtain m2 pos2 where m2: "wots_checksum_parts F operation 3 m1 (spongos\<lparr>sp_pos := pos\<rparr>) (after y ?L) (- ?t) = Some (m2, spongos\<lparr>sp_pos := pos2\<rparr>)" "length (m2 ?b) = MAM_SPONGE_WIDTH"
      "m2 = (wr m1 (after y ?L) ?c)(?b := m2 ?b)"
    using wots_checksum_parts_runs [of m1 "spongos\<lparr>sp_pos := pos\<rparr>" "after y ?L" 3 "- ?t" operation] m1(2) y w(2) assms(3,4) by (auto simp: valid_trits_drop simp del: fun_upd_apply)
  have "wr m1 (after y ?L) ?c = (wr (wr m y ?a) (after y ?L) ?c)(?b := m1 ?b)" using m1(3) wr_upd [of "after y ?L" ?b] assms(3) by (metis parts_p(2))
  also have "wr (wr m y ?a) (after y ?L) ?c = wr m y (?a @ ?c)" using wr_append [OF assms(2), of ?a ?c] a assms(5) by simp
  finally have "m2 = (wr m y (chain_parts H162 (map ?T (wots_trytes (rd m hash))) (rd m y)))(?b := m2 ?b)"
    using m2(3) by (simp only: wots_trytes_def Let_def chain_parts_append map_append length_map length_hash_trytes fun_upd_upd)
  moreover have "wots_hash_sign_or_recover F m spongos hash y operation = Some (m2, spongos\<lparr>sp_pos := pos2\<rparr>)" using m1(1) w(1) m2(1) by (simp add: wots_hash_sign_or_recover_def)
  ultimately show ?thesis using m2(2) by blast
qed


lemma times_of_bound: "\<bar>h\<bar> \<le> 13 \<Longrightarrow> times_of WOTS_HASH_SIGN h = nat (13 + h)" "\<bar>h\<bar> \<le> 13 \<Longrightarrow> times_of WOTS_HASH_RECOVER h = nat (13 - h)"
  by (simp_all add: times_of_def wrap8_id)

lemma wots_trytes_bound:
  assumes "valid_trits ts" "length ts = MAM_WOTS_HASH_SIZE" "h \<in> set (wots_trytes ts)"
  shows "\<bar>h\<bar> \<le> 13"
proof -
  have "\<bar>- sum_list (hash_trytes 0 78 ts)\<bar> \<le> 9841" using hash_trytes_sum [OF assms(1), of 0 78] assms(2) by simp
  then show ?thesis using assms hash_trytes_bound [OF assms(1), of 0 78 h] checksum_trytes_bound [of "- sum_list (hash_trytes 0 78 ts)" h 3] by (auto simp: wots_trytes_def Let_def)
qed

lemma length_wots_trytes [simp]: "length (wots_trytes ts) = MAM_WOTS_PRIVATE_KEY_PART_COUNT"
  by (simp add: wots_trytes_def Let_def hash_trytes_def)

lemma times_add_up:
  assumes "valid_trits ts" "length ts = MAM_WOTS_HASH_SIZE"
  shows "map2 (+) (map (times_of WOTS_HASH_RECOVER) (wots_trytes ts)) (map (times_of WOTS_HASH_SIGN) (wots_trytes ts)) = replicate MAM_WOTS_PRIVATE_KEY_PART_COUNT 26"
proof -
  have "times_of WOTS_HASH_RECOVER h + times_of WOTS_HASH_SIGN h = 26" if "h \<in> set (wots_trytes ts)" for h using wots_trytes_bound [OF assms that] by (simp add: times_of_bound)
  then have "map2 (+) (map (times_of WOTS_HASH_RECOVER) (wots_trytes ts)) (map (times_of WOTS_HASH_SIGN) (wots_trytes ts)) = map (\<lambda>_. 26) (wots_trytes ts)"
    by (induction "wots_trytes ts") (auto simp: map2_map_map)
  then show ?thesis by (simp add: map_replicate_const)
qed

lemma sign_runs:
  assumes "length (m (sp_sponge spongos)) = MAM_SPONGE_WIDTH" "length (m w) = MAM_WOTS_PRIVATE_KEY_SIZE" "valid_trits (m w)"
    and "window m y" "trits_p y \<noteq> sp_sponge spongos" "trits_size y = MAM_WOTS_PRIVATE_KEY_SIZE"
    and "window m hash" "trits_p hash \<noteq> sp_sponge spongos" "apart hash y" "valid_trits (rd m hash)" "trits_size hash = MAM_WOTS_HASH_SIZE"
  shows "\<exists>m1. mam_wots_sign F m spongos (Some w) hash y = Some (RC_OK, m1) \<and> rd m1 y = chain_parts H162 (map (times_of WOTS_HASH_SIGN) (wots_trytes (rd m hash))) (m w)"
proof -
  let ?m = "wr m y (m w)" let ?c = "chain_parts H162 (map (times_of WOTS_HASH_SIGN) (wots_trytes (rd m hash))) (m w)"
  have st: "mem_load m w 0 MAM_WOTS_PRIVATE_KEY_SIZE = Some (m w)" "mem_store m (trits_p y) (trits_d y) (m w) = Some ?m"
    using assms(2,4,6) by (simp_all add: mem_load_def slice_def mem_store_wr)
  have y: "rd ?m y = m w" "rd ?m hash = rd m hash" "window ?m x = window m x" for x
    using rd_wr_same [OF assms(4), of "m w"] rd_wr_apart [OF assms(4,7) _ apart_sym [OF assms(9)], of "m w"] window_wr [OF assms(4), of "m w"] assms(2,6) by simp_all
  have b: "?m (sp_sponge spongos) = m (sp_sponge spongos)" using assms(5) by (simp add: wr_def)
  obtain m1 pos where m1: "wots_hash_sign_or_recover F ?m spongos hash y WOTS_HASH_SIGN = Some (m1, spongos\<lparr>sp_pos := pos\<rparr>)" "m1 = (wr ?m y ?c)(sp_sponge spongos := m1 (sp_sponge spongos))"
    using sign_or_recover_runs [where m = ?m and operation = WOTS_HASH_SIGN, OF _ _ assms(5) _ assms(6) _ assms(8,9) _ assms(11)] assms(1,3,4,7,10) y b by (auto simp del: fun_upd_apply)
  have l: "length ?c = trits_size y" using chain_parts_ok [OF assms(3)] assms(2,6) by simp
  have "rd m1 y = rd (wr ?m y ?c) y" using m1(2) rd_upd [OF assms(5)] by metis
  then show ?thesis using rd_wr_same [of ?m y ?c] y(3) assms(4) l st m1(1) assms(6,11) by (simp add: mam_wots_sign_def)
qed

lemma recover_runs:
  assumes "length (m (sp_sponge spongos)) = MAM_SPONGE_WIDTH" "length (m b) = MAM_WOTS_PRIVATE_KEY_SIZE" "b \<noteq> sp_sponge spongos"
    and "window m y" "trits_size y = MAM_WOTS_PRIVATE_KEY_SIZE" "valid_trits (rd m y)"
    and "window m hash" "trits_p hash \<noteq> sp_sponge spongos" "trits_p hash \<noteq> b" "valid_trits (rd m hash)" "trits_size hash = MAM_WOTS_HASH_SIZE"
    and "window m pk" "trits_p pk \<noteq> sp_sponge spongos" "trits_p pk \<noteq> b" "trits_size pk = MAM_WOTS_PUBLIC_KEY_SIZE"
  shows "\<exists>m1. mam_wots_recover F m spongos b hash y pk = Some (RC_OK, m1)
    \<and> rd m1 pk = spongos_digest F MAM_WOTS_PUBLIC_KEY_SIZE (chain_parts H162 (map (times_of WOTS_HASH_RECOVER) (wots_trytes (rd m hash))) (rd m y))"
proof -
  let ?z = "trits_from_rep MAM_WOTS_PRIVATE_KEY_SIZE b" let ?m = "m(b := rd m y)" let ?c = "chain_parts H162 (map (times_of WOTS_HASH_RECOVER) (wots_trytes (rd m hash))) (rd m y)"
  have ly: "length (rd m y) = MAM_WOTS_PRIVATE_KEY_SIZE" using length_rd [OF assms(4)] assms(5) by simp
  have st: "mem_load m (trits_p y) (trits_d y) MAM_WOTS_PRIVATE_KEY_SIZE = Some (rd m y)" "mem_store m b 0 (rd m y) = Some ?m"
    using mem_load_rd [OF assms(4)] assms(2,5) ly by (simp_all add: mem_store_def blit_def)
  have z: "window ?m ?z" "rd ?m ?z = rd m y" "trits_size ?z = MAM_WOTS_PRIVATE_KEY_SIZE" "trits_p ?z = b" using ly
    by (simp_all add: window_def rd_def [of ?m] trits_from_rep_def trits_size_def)
  have h: "window ?m hash" "rd ?m hash = rd m hash" "apart hash ?z" "window ?m pk" using assms(7,9,12,14) z(4) by (simp_all add: window_def rd_def apart_def)
  have bs: "length (?m (sp_sponge spongos)) = MAM_SPONGE_WIDTH" using assms(1,3) by simp
  obtain m1 pos where m1: "wots_hash_sign_or_recover F ?m spongos hash ?z WOTS_HASH_RECOVER = Some (m1, spongos\<lparr>sp_pos := pos\<rparr>)" "length (m1 (sp_sponge spongos)) = MAM_SPONGE_WIDTH"
      "m1 = (wr ?m ?z ?c)(sp_sponge spongos := m1 (sp_sponge spongos))"
    using sign_or_recover_runs [where m = ?m and operation = WOTS_HASH_RECOVER, OF bs z(1) _ _ z(3) h(1) assms(8) h(3) _ assms(11)] assms(1,3,6,10) z(2,4) h(2) by (auto simp del: fun_upd_apply)
  have c: "length ?c = trits_size ?z" "valid_trits ?c" using chain_parts_ok [OF assms(6)] ly z(3) by simp_all
  have e: "m1 q = wr ?m ?z ?c q" if "q \<noteq> sp_sponge spongos" for q using m1(3) that by (metis fun_upd_other)
  have w: "window (wr ?m ?z ?c) ?z" "window (wr ?m ?z ?c) pk" using window_wr [OF z(1), of ?c] c(1) z(1) h(4) by simp_all
  have "rd m1 ?z = ?c" using e [of b] rd_wr_same [OF z(1) c(1)] z(4) assms(3) by (simp add: rd_def)
  moreover have "window m1 ?z" "window m1 pk" using w e [of b] e [OF assms(13)] z(4) assms(3) by (auto simp: window_def)
  moreover obtain st pos' where "mam_spongos_hash F m1 (spongos\<lparr>sp_pos := pos\<rparr>) ?z pk = Some ((wr m1 pk (spongos_digest F (trits_size pk) (rd m1 ?z)))(sp_sponge spongos := st), spongos\<lparr>sp_pos := pos'\<rparr>)"
    using hash_runs [of m1 "spongos\<lparr>sp_pos := pos\<rparr>" ?z pk] calculation m1(2) c(2) z(4) assms(3,13) by (auto simp del: fun_upd_apply)
  moreover have "rd ((wr m1 pk (spongos_digest F (trits_size pk) ?c))(sp_sponge spongos := st)) pk = spongos_digest F (trits_size pk) ?c" for st
    using rd_wr_same [OF calculation(3)] digest_ok [OF c(2)] rd_upd [OF assms(13)] by simp
  ultimately show ?thesis using st m1(1) assms(5,11,15) by (simp add: mam_wots_recover_def del: fun_upd_apply)
qed


lemma gen_pk_loop_runs:
  assumes "length (m (sp_sponge s)) = MAM_SPONGE_WIDTH" "length (m k) = MAM_WOTS_PRIVATE_KEY_PART_SIZE" "distinct [sp_sponge s, sp_sponge p, k, w]" "duplex_ok (duplex_of m p)"
    and "valid_trits (m w)" "MAM_WOTS_PRIVATE_KEY_PART_SIZE * (i + n) \<le> length (m w)"
  shows "\<exists>m' pos p'. gen_pk_loop F n i m s p k w = Some (m', s\<lparr>sp_pos := pos\<rparr>, p') \<and> sp_sponge p' = sp_sponge p
    \<and> duplex_of m' p' = duplex_absorb F (chain_parts H162 (replicate n 26) (drop (MAM_WOTS_PRIVATE_KEY_PART_SIZE * i) (m w))) (duplex_of m p)
    \<and> (\<forall>q. q \<notin> {sp_sponge s, sp_sponge p, k} \<longrightarrow> m' q = m q)"
  using assms
proof (induction n arbitrary: i m s p)
  case 0
  then show ?case by (intro exI [of _ m] exI [of _ "sp_pos s"] exI [of _ p]) (simp add: duplex_absorb_def)
next
  case (Suc n)
  let ?P = MAM_WOTS_PRIVATE_KEY_PART_SIZE let ?z = "trits_from_rep ?P k"
  define ts where "ts = slice (?P * i) ?P (m w)"
  have ts: "length ts = ?P" "valid_trits ts" using Suc.prems(5,6) by (simp_all add: ts_def valid_trits_slice)
  define m1 where "m1 = m(k := ts)"
  have ld: "mem_load m w (?P * i) ?P = Some ts" "mem_store m k 0 ts = Some m1" using Suc.prems(2,6) ts(1) by (simp_all add: mem_load_def mem_store_def ts_def m1_def blit_def)
  have z: "window m1 ?z" "rd m1 ?z = ts" "trits_size ?z = ?P" "trits_p ?z = k" using ts(1) by (simp_all add: m1_def window_def rd_def trits_from_rep_def trits_size_def)
  have l1: "length (m1 (sp_sponge s)) = MAM_SPONGE_WIDTH" using Suc.prems(1,3) by (simp add: m1_def)
  obtain st pos where st: "length st = MAM_SPONGE_WIDTH" "hash_part_loop F 26 m1 s ?z = Some ((wr m1 ?z ((H162 ^^ 26) ts))(sp_sponge s := st), s\<lparr>sp_pos := pos\<rparr>)"
    using hash_part_loop_runs [where m = m1, OF l1 z(1), of 26] z(2-4) Suc.prems(3) ts(2) by (auto simp del: fun_upd_apply)
  define xs where "xs = (H162 ^^ 26) ts"
  have xs: "length xs = ?P" "valid_trits xs" using H162_power [OF ts(2,1), of 26] by (simp_all add: xs_def)
  define m2 where "m2 = (m(k := xs))(sp_sponge s := st)"
  have hash: "hash_part_loop F 26 m1 s ?z = Some (m2, s\<lparr>sp_pos := pos\<rparr>)"
    using st(2) xs(1) ts(1) z(4) by (simp add: m2_def xs_def [symmetric] wr_def blit_def m1_def del: fun_upd_apply) (simp add: trits_from_rep_def)
  have z2: "window m2 ?z" "rd m2 ?z = xs" using xs(1) Suc.prems(3) by (auto simp: m2_def window_def rd_def trits_from_rep_def trits_size_def)
  have dp: "duplex_of m2 p = duplex_of m p" using Suc.prems(3) by (auto simp: m2_def duplex_of_def)
  let ?d = "duplex_absorb F xs (duplex_of m p)" let ?p = "p\<lparr>sp_pos := snd ?d\<rparr>"
  define m3 where "m3 = m2(sp_sponge p := fst ?d)"
  have ab: "mam_spongos_absorb F m2 p ?z = Some (m3, ?p)" using absorb_runs [of m2 p ?z] dp z2 z(4) Suc.prems(3,4) xs(2) by (simp add: with_duplex_pair m3_def)
  have d3: "duplex_of m3 ?p = ?d" "duplex_ok ?d" using absorb_ok [OF xs(2) Suc.prems(4)] by (simp_all add: m3_def duplex_of_def)
  have o3: "m3 w = m w" "length (m3 k) = ?P" "length (m3 (sp_sponge s)) = MAM_SPONGE_WIDTH" "q \<notin> {sp_sponge s, sp_sponge p, k} \<Longrightarrow> m3 q = m q" for q
    using Suc.prems(3) xs(1) st(1) by (auto simp: m3_def m2_def)
  have "\<exists>m' pos' p'. gen_pk_loop F n (Suc i) m3 (s\<lparr>sp_pos := pos\<rparr>) ?p k w = Some (m', s\<lparr>sp_pos := pos'\<rparr>, p') \<and> sp_sponge p' = sp_sponge p
    \<and> duplex_of m' p' = duplex_absorb F (chain_parts H162 (replicate n 26) (drop (?P * Suc i) (m w))) ?d \<and> (\<forall>q. q \<notin> {sp_sponge s, sp_sponge p, k} \<longrightarrow> m' q = m3 q)"
    using Suc.IH [of m3 "s\<lparr>sp_pos := pos\<rparr>" ?p "Suc i"] o3 d3 Suc.prems(3,5,6) by simp
  moreover have "chain_parts H162 (replicate (Suc n) 26) (drop (?P * i) (m w)) = xs @ chain_parts H162 (replicate n 26) (drop (?P * Suc i) (m w))"
    by (simp add: xs_def ts_def slice_def add.commute)
  moreover have "gen_pk_loop F (Suc n) i m s p k w = gen_pk_loop F n (Suc i) m3 (s\<lparr>sp_pos := pos\<rparr>) ?p k w" using ld hash ab by simp
  ultimately show ?case using o3(4) by (simp only: duplex_absorb_append) metis
qed

lemma gen_pk_runs:
  assumes "length (m (sp_sponge s)) = MAM_SPONGE_WIDTH" "length (m (sp_sponge p)) = MAM_SPONGE_WIDTH" "length (m k) = MAM_WOTS_PRIVATE_KEY_PART_SIZE" "distinct [sp_sponge s, sp_sponge p, k, w]"
    and "valid_trits (m w)" "length (m w) = MAM_WOTS_PRIVATE_KEY_SIZE"
    and "window m pk" "trits_p pk \<notin> {sp_sponge s, sp_sponge p, k}" "trits_size pk = MAM_WOTS_PUBLIC_KEY_SIZE"
  shows "\<exists>m1. mam_wots_gen_pk F m s p k (Some w) pk = Some (RC_OK, m1)
    \<and> rd m1 pk = spongos_digest F MAM_WOTS_PUBLIC_KEY_SIZE (chain_parts H162 (replicate MAM_WOTS_PRIVATE_KEY_PART_COUNT 26) (m w))"
proof -
  let ?z = "(replicate MAM_SPONGE_WIDTH (0 :: trit), 0 :: nat)" let ?m = "m(sp_sponge p := fst ?z)" let ?p = "p\<lparr>sp_pos := 0\<rparr>"
  let ?c = "chain_parts H162 (replicate MAM_WOTS_PRIVATE_KEY_PART_COUNT 26) (m w)"
  have i: "mam_spongos_init m p = Some (?m, ?p)" using init_runs [where m = m, OF assms(2)] by (simp add: with_duplex_pair)
  have d: "duplex_of ?m ?p = ?z" by (simp add: duplex_of_def)
  obtain m1 pos p1 where m1: "gen_pk_loop F MAM_WOTS_PRIVATE_KEY_PART_COUNT 0 ?m s ?p k w = Some (m1, s\<lparr>sp_pos := pos\<rparr>, p1)" "sp_sponge p1 = sp_sponge p"
      "duplex_of m1 p1 = duplex_absorb F ?c ?z" "\<forall>q. q \<notin> {sp_sponge s, sp_sponge p, k} \<longrightarrow> m1 q = ?m q"
    using gen_pk_loop_runs [of ?m s k ?p w 0 81] assms(1,3-6) d fresh_ok by auto
  have c: "valid_trits ?c" using chain_parts_ok [OF assms(5)] assms(6) by simp
  then have ok: "duplex_ok (duplex_of m1 p1)" using absorb_ok [OF c fresh_ok] m1(3) by simp
  have pk: "m1 (trits_p pk) = m (trits_p pk)" using m1(4) assms(8) by auto
  then have w: "window m1 pk" "trits_p pk \<noteq> sp_sponge p1" using assms(7,8) m1(2) by (simp_all add: window_def)
  obtain st pos' where "length st = MAM_SPONGE_WIDTH" "case_prod (\<lambda>m spongos. mam_spongos_squeeze F m spongos pk) (mam_spongos_commit F m1 p1)
      = Some ((wr m1 pk (spongos_digest F (trits_size pk) ?c))(sp_sponge p1 := st), p1\<lparr>sp_pos := pos'\<rparr>)"
    using squeeze_digest [OF ok m1(3) w] by blast
  moreover have "rd ((wr m1 pk (spongos_digest F (trits_size pk) ?c))(sp_sponge p1 := st)) pk = spongos_digest F (trits_size pk) ?c" for st
    using rd_wr_same [OF w(1)] digest_ok [OF c] rd_upd [OF w(2)] by simp
  ultimately show ?thesis using i m1(1) assms(9) by (simp add: mam_wots_gen_pk_def split_beta del: fun_upd_apply)
qed


lemma slice_chain_parts:
  "valid_trits xs \<Longrightarrow> MAM_WOTS_PRIVATE_KEY_PART_SIZE * length ks \<le> length xs \<Longrightarrow> i < length ks \<Longrightarrow>
    slice (MAM_WOTS_PRIVATE_KEY_PART_SIZE * i) MAM_WOTS_PRIVATE_KEY_PART_SIZE (chain_parts H162 ks xs)
      = (H162 ^^ (ks ! i)) (slice (MAM_WOTS_PRIVATE_KEY_PART_SIZE * i) MAM_WOTS_PRIVATE_KEY_PART_SIZE xs)"
proof (induction ks arbitrary: xs i)
  case (Cons k ks)
  let ?P = MAM_WOTS_PRIVATE_KEY_PART_SIZE
  have l: "length ((H162 ^^ k) (take ?P xs)) = ?P" using H162_power [of "take ?P xs" k] Cons.prems(1,2) by (simp add: valid_trits_take)
  show ?case
  proof (cases i)
    case 0
    then show ?thesis using l by (simp add: slice_def)
  next
    case (Suc j)
    then show ?thesis using Cons.IH [of "drop ?P xs" j] Cons.prems l by (simp add: slice_def valid_trits_drop add.commute)
  qed
qed simp

end

section \<open>No hash is above another\<close>

lemma checksum_value: "\<bar>t\<bar> \<le> 9841 \<Longrightarrow> (case checksum_trytes 3 t of [a, b, c] \<Rightarrow> a + 27 * b + 729 * c | _ \<Rightarrow> 0) = t"
proof -
  assume t: "\<bar>t\<bar> \<le> 9841"
  let ?u = "MAM_DIVS t 19683 27"
  let ?v = "MAM_DIVS ?u 19683 27"
  note a = checksum_step [OF t]
  have u: "\<bar>?u\<bar> \<le> 9841" using a(3) by simp
  note b = checksum_step [OF u]
  have v: "\<bar>?v\<bar> \<le> 9841" using b(3) by simp
  note c = checksum_step [OF v]
  have v13: "\<bar>?v\<bar> \<le> 13" using a(3) b(1,2) by linarith
  have "MAM_DIVS ?v 19683 27 = 0" using c(1,2) v13 by linarith
  then have "MAM_MODS ?v 19683 27 = ?v" using c(1) by simp
  then show ?thesis using a(1) b(1) by (simp add: numeral_3_eq_3)
qed

lemma sum_list_mono_nth: "length xs = length ys \<Longrightarrow> \<forall>i < length xs. (xs ! i :: int) \<le> ys ! i \<Longrightarrow> sum_list xs \<le> sum_list ys"
  by (rule sum_list_mono2) auto

lemma sum_list_eq_nth: "length xs = length ys \<Longrightarrow> \<forall>i < length xs. (xs ! i :: int) \<le> ys ! i \<Longrightarrow> sum_list xs = sum_list ys \<Longrightarrow> xs = ys"
proof (induction xs ys rule: list_induct2)
  case (Cons x xs y ys)
  have le: "x \<le> y" "\<forall>i < length xs. xs ! i \<le> ys ! i" using Cons.prems(1) by (auto simp: All_less_Suc2)
  then show ?case using Cons.IH Cons.prems(2) sum_list_mono_nth [OF Cons.hyps le(2)] by simp
qed simp

lemma trytes_determine_hash:
  assumes "valid_trits ts" "valid_trits us" "length ts = 3 * n" "length us = 3 * n" "hash_trytes 0 n ts = hash_trytes 0 n us"
  shows "ts = us"
proof (rule nth_equalityI)
  fix i assume i: "i < length ts"
  let ?k = "i div 3"
  have "?k < n" using i assms(3) by auto
  then have k: "3 * ?k + 3 \<le> 3 * n" "?k < n" by simp_all
  have "bt_value (slice (3 * ?k) 3 ts) = bt_value (slice (3 * ?k) 3 us)" using arg_cong [OF assms(5), of "\<lambda>l. l ! ?k"] k(2) by (simp add: hash_trytes_def)
  then have "slice (3 * ?k) 3 ts = slice (3 * ?k) 3 us"
    using bt_digits_value [of "slice (3 * ?k) 3 ts"] bt_digits_value [of "slice (3 * ?k) 3 us"] assms(1-4) k(1) by (simp add: valid_trits_slice)
  then have "slice (3 * ?k) 3 ts ! (i mod 3) = slice (3 * ?k) 3 us ! (i mod 3)" by simp
  then show "ts ! i = us ! i" using k(1) assms(3,4) i by (simp add: slice_def)
qed (use assms in simp)

lemma wots_no_domination:
  assumes "valid_trits ts" "valid_trits us" "length ts = MAM_WOTS_HASH_SIZE" "length us = MAM_WOTS_HASH_SIZE" "\<forall>i < MAM_WOTS_PRIVATE_KEY_PART_COUNT. wots_trytes ts ! i \<le> wots_trytes us ! i"
  shows "ts = us"
proof -
  let ?h = "hash_trytes 0 78 ts" and ?g = "hash_trytes 0 78 us"
  have b: "\<bar>- sum_list ?h\<bar> \<le> 9841" "\<bar>- sum_list ?g\<bar> \<le> 9841" using hash_trytes_sum [OF assms(1), of 0 78] hash_trytes_sum [OF assms(2), of 0 78] assms(3,4) by simp_all
  obtain a1 a2 a3 where a: "checksum_trytes 3 (- sum_list ?h) = [a1, a2, a3]" by (simp add: numeral_3_eq_3)
  obtain c1 c2 c3 where c: "checksum_trytes 3 (- sum_list ?g) = [c1, c2, c3]" by (simp add: numeral_3_eq_3)
  have le: "wots_trytes ts ! i \<le> wots_trytes us ! i" if "i < 81" for i using assms(5) that by blast
  have data_le: "\<forall>i < length ?h. ?h ! i \<le> ?g ! i"
  proof (intro allI impI)
    fix i assume "i < length ?h"
    then show "?h ! i \<le> ?g ! i" using le [of i] by (simp add: wots_trytes_def Let_def nth_append)
  qed
  have "a1 \<le> c1" "a2 \<le> c2" "a3 \<le> c3" using le [of 78] le [of 79] le [of 80] a c by (simp_all add: wots_trytes_def Let_def nth_append)
  then have "- sum_list ?h \<le> - sum_list ?g" using checksum_value [OF b(1)] checksum_value [OF b(2)] a c by simp
  moreover have "sum_list ?h \<le> sum_list ?g" by (rule sum_list_mono_nth [OF _ data_le]) simp
  ultimately have "?h = ?g" by (intro sum_list_eq_nth [OF _ data_le]) simp_all
  then show ?thesis by (intro trytes_determine_hash [OF assms(1,2), of 78]) (simp_all add: assms(3,4))
qed

section \<open>Properties\<close>

text \<open>
  C17. A signature leads to the public key: the public key is generated, a hash is signed, and from the hash and the signature, wherever they are stored, the same public key is recovered.
\<close>

theorem wots_recovers_public_key:
  assumes "length fs = SLICESIZE" "length (m (sp_sponge s)) = MAM_SPONGE_WIDTH" "length (m (sp_sponge p)) = MAM_SPONGE_WIDTH" "length (m k) = MAM_WOTS_PRIVATE_KEY_PART_SIZE"
    and "distinct [sp_sponge s, sp_sponge p, k, w]" "valid_trits (m w)" "length (m w) = MAM_WOTS_PRIVATE_KEY_SIZE"
    and "window m pk" "trits_p pk \<notin> {sp_sponge s, sp_sponge p, k}" "trits_size pk = MAM_WOTS_PUBLIC_KEY_SIZE"
    and "window m y" "trits_p y \<noteq> sp_sponge s" "trits_size y = MAM_WOTS_SIGNATURE_SIZE"
    and "window m hash" "trits_p hash \<noteq> sp_sponge s" "apart hash y" "valid_trits (rd m hash)" "trits_size hash = MAM_WOTS_HASH_SIZE"
  shows "\<exists>m1 m2. mam_wots_gen_pk (mam_ftroika_transform fs) m s p k (Some w) pk = Some (RC_OK, m1) \<and> mam_wots_sign (mam_ftroika_transform fs) m s (Some w) hash y = Some (RC_OK, m2) \<and>
    (\<forall>m' s' b hash' y' pk'. length (m' (sp_sponge s')) = MAM_SPONGE_WIDTH \<and> length (m' b) = MAM_WOTS_PRIVATE_KEY_SIZE \<and> distinct [b, sp_sponge s', trits_p hash', trits_p pk']
       \<and> window m' y' \<and> rd m' y' = rd m2 y \<and> window m' hash' \<and> rd m' hash' = rd m hash \<and> window m' pk' \<and> trits_size pk' = MAM_WOTS_PUBLIC_KEY_SIZE \<longrightarrow>
       (\<exists>m3. mam_wots_recover (mam_ftroika_transform fs) m' s' b hash' y' pk' = Some (RC_OK, m3) \<and> rd m3 pk' = rd m1 pk))"
proof -
  let ?F = "mam_ftroika_transform fs" let ?H = "spongos_digest ?F MAM_WOTS_PRIVATE_KEY_PART_SIZE" let ?ts = "rd m hash"
  let ?c = "chain_parts ?H (map (times_of WOTS_HASH_SIGN) (wots_trytes ?ts)) (m w)"
  note P = ftroika_perm [OF assms(1)]
  obtain m1 where m1: "mam_wots_gen_pk ?F m s p k (Some w) pk = Some (RC_OK, m1)"
      "rd m1 pk = spongos_digest ?F MAM_WOTS_PUBLIC_KEY_SIZE (chain_parts ?H (replicate MAM_WOTS_PRIVATE_KEY_PART_COUNT 26) (m w))"
    using sponge_permutation.gen_pk_runs [where m = m, OF P assms(2-10)] by blast
  obtain m2 where m2: "mam_wots_sign ?F m s (Some w) hash y = Some (RC_OK, m2)" "rd m2 y = ?c"
    using sponge_permutation.sign_runs [where m = m, OF P assms(2,7,6,11-18)] by blast
  have c: "length ?c = MAM_WOTS_PRIVATE_KEY_SIZE" "valid_trits ?c"
    using sponge_permutation.chain_parts_ok [OF P assms(6), of "map (times_of WOTS_HASH_SIGN) (wots_trytes ?ts)"] assms(7) by simp_all
  have add: "chain_parts ?H (map (times_of WOTS_HASH_RECOVER) (wots_trytes ?ts)) ?c = chain_parts ?H (replicate MAM_WOTS_PRIVATE_KEY_PART_COUNT 26) (m w)"
    using sponge_permutation.chain_parts_add [OF P assms(6), of "map (times_of WOTS_HASH_SIGN) (wots_trytes ?ts)" "map (times_of WOTS_HASH_RECOVER) (wots_trytes ?ts)"]
      sponge_permutation.times_add_up [OF P assms(17)] assms(7,18) length_rd [OF assms(14)] by simp
  have "\<exists>m3. mam_wots_recover ?F m' s' b hash' y' pk' = Some (RC_OK, m3) \<and> rd m3 pk' = rd m1 pk"
    if a: "length (m' (sp_sponge s')) = MAM_SPONGE_WIDTH" "length (m' b) = MAM_WOTS_PRIVATE_KEY_SIZE" "distinct [b, sp_sponge s', trits_p hash', trits_p pk']" "window m' y'" "rd m' y' = rd m2 y"
      "window m' hash'" "rd m' hash' = rd m hash" "window m' pk'" "trits_size pk' = MAM_WOTS_PUBLIC_KEY_SIZE" for m' s' b hash' y' pk'
  proof -
    have "trits_size y' = MAM_WOTS_PRIVATE_KEY_SIZE" "trits_size hash' = MAM_WOTS_HASH_SIZE"
      using length_rd [OF a(4)] a(5) m2(2) c(1) length_rd [OF a(6)] a(7) length_rd [OF assms(14)] assms(18) by simp_all
    then show ?thesis using sponge_permutation.recover_runs [of ?F m' s' b y' hash' pk', OF P] a c m2(2) m1(2) add assms(17) by auto
  qed
  then show ?thesis using m1(1) m2(1) by blast
qed

definition wots_store :: mem where
  "wots_store = (\<lambda>_. [])(1 := replicate MAM_SPONGE_WIDTH 0, 2 := replicate MAM_SPONGE_WIDTH 0, 3 := replicate MAM_WOTS_PRIVATE_KEY_PART_SIZE 0, 4 := replicate MAM_WOTS_PRIVATE_KEY_SIZE 1,
     5 := replicate MAM_WOTS_PUBLIC_KEY_SIZE 0, 6 := replicate MAM_WOTS_SIGNATURE_SIZE 0, 7 := replicate MAM_WOTS_HASH_SIZE 1, 8 := replicate MAM_WOTS_HASH_SIZE 0)"

lemma wots_store_facts:
  "length (wots_store 1) = MAM_SPONGE_WIDTH" "length (wots_store 2) = MAM_SPONGE_WIDTH" "length (wots_store 3) = MAM_WOTS_PRIVATE_KEY_PART_SIZE" "valid_trits (wots_store 4)" "length (wots_store 4) = MAM_WOTS_PRIVATE_KEY_SIZE"
  "window wots_store (trits_from_rep 243 5)" "window wots_store (trits_from_rep 13122 6)" "window wots_store (trits_from_rep 234 7)" "window wots_store (trits_from_rep 234 8)"
  "rd wots_store (trits_from_rep 234 7) = replicate 234 1" "rd wots_store (trits_from_rep 234 8) = replicate 234 0"
  by (simp_all add: wots_store_def window_def trits_from_rep_def rd_def slice_def trits_size_def list_all_iff is_trit_cases)

lemma valid_replicate: "valid_trits (replicate n (1 :: trit))" "valid_trits (replicate n (0 :: trit))"
  by (simp_all add: list_all_iff is_trit_cases)

theorem wots_recovers_public_key_witness:
  "\<exists>m1 m2. mam_wots_gen_pk (mam_ftroika_transform lanes0) wots_store \<lparr>sp_sponge = 1, sp_pos = 0\<rparr> \<lparr>sp_sponge = 2, sp_pos = 0\<rparr> 3 (Some 4) (trits_from_rep 243 5) = Some (RC_OK, m1)
    \<and> mam_wots_sign (mam_ftroika_transform lanes0) wots_store \<lparr>sp_sponge = 1, sp_pos = 0\<rparr> (Some 4) (trits_from_rep 234 7) (trits_from_rep 13122 6) = Some (RC_OK, m2)"
  using wots_recovers_public_key [of lanes0 wots_store "\<lparr>sp_sponge = 1, sp_pos = 0\<rparr>" "\<lparr>sp_sponge = 2, sp_pos = 0\<rparr>" 3 4 "trits_from_rep 243 5" "trits_from_rep 13122 6" "trits_from_rep 234 7"]
    crypt_store_facts(1) wots_store_facts valid_replicate by (fastforce simp: trits_from_rep_def trits_size_def apart_def)

text \<open>
  C18. A signature gives no signature of another hash by hashing on: of any two signatures with one key for different hashes, the first has a part of the key hashed more often than it
  is in the second. The three parts with the sum of the trytes are what makes it so.
\<close>

theorem wots_signatures_incomparable:
  assumes "length fs = SLICESIZE" "length (m (sp_sponge s)) = MAM_SPONGE_WIDTH" "length (m w) = MAM_WOTS_PRIVATE_KEY_SIZE" "valid_trits (m w)"
    and "window m y" "trits_p y \<noteq> sp_sponge s" "trits_size y = MAM_WOTS_SIGNATURE_SIZE"
    and "window m hash1" "trits_p hash1 \<noteq> sp_sponge s" "apart hash1 y" "valid_trits (rd m hash1)" "trits_size hash1 = MAM_WOTS_HASH_SIZE"
    and "window m hash2" "trits_p hash2 \<noteq> sp_sponge s" "apart hash2 y" "valid_trits (rd m hash2)" "trits_size hash2 = MAM_WOTS_HASH_SIZE"
    and "rd m hash1 \<noteq> rd m hash2"
  shows "\<exists>m1 m2 i j k. mam_wots_sign (mam_ftroika_transform fs) m s (Some w) hash1 y = Some (RC_OK, m1) \<and> mam_wots_sign (mam_ftroika_transform fs) m s (Some w) hash2 y = Some (RC_OK, m2)
    \<and> i < MAM_WOTS_PRIVATE_KEY_PART_COUNT \<and> k < j
    \<and> (let part = slice (MAM_WOTS_PRIVATE_KEY_PART_SIZE * i) MAM_WOTS_PRIVATE_KEY_PART_SIZE; H = spongos_digest (mam_ftroika_transform fs) MAM_WOTS_PRIVATE_KEY_PART_SIZE
        in part (rd m1 y) = (H ^^ j) (part (m w)) \<and> part (rd m2 y) = (H ^^ k) (part (m w)))"
proof -
  let ?F = "mam_ftroika_transform fs" let ?H = "spongos_digest ?F MAM_WOTS_PRIVATE_KEY_PART_SIZE"
  let ?t = "wots_trytes (rd m hash1)" and ?u = "wots_trytes (rd m hash2)" let ?S = "times_of WOTS_HASH_SIGN"
  note P = ftroika_perm [OF assms(1)]
  note L = length_rd [OF assms(8)] length_rd [OF assms(13)]
  obtain m1 where m1: "mam_wots_sign ?F m s (Some w) hash1 y = Some (RC_OK, m1)" "rd m1 y = chain_parts ?H (map ?S ?t) (m w)"
    using sponge_permutation.sign_runs [where m = m, OF P assms(2-12)] by blast
  obtain m2 where m2: "mam_wots_sign ?F m s (Some w) hash2 y = Some (RC_OK, m2)" "rd m2 y = chain_parts ?H (map ?S ?u) (m w)"
    using sponge_permutation.sign_runs [where m = m, OF P assms(2-7,13-17)] by blast
  have "\<not> (\<forall>i < 81. ?t ! i \<le> ?u ! i)" using wots_no_domination [OF assms(11,16)] assms(12,17,18) L by auto
  then obtain i where i: "i < 81" "?u ! i < ?t ! i" by (auto simp: not_le)
  have n: "length ?t = 81" "length ?u = 81" using sponge_permutation.length_wots_trytes [OF P] by simp_all
  then have "\<bar>?t ! i\<bar> \<le> 13" "\<bar>?u ! i\<bar> \<le> 13"
    using sponge_permutation.wots_trytes_bound [OF P assms(11)] sponge_permutation.wots_trytes_bound [OF P assms(16)] assms(12,17) L i(1) by simp_all
  then have "?S (?u ! i) < ?S (?t ! i)" using i(2) by (simp add: sponge_permutation.times_of_bound [OF P])
  moreover have "slice (MAM_WOTS_PRIVATE_KEY_PART_SIZE * i) MAM_WOTS_PRIVATE_KEY_PART_SIZE (chain_parts ?H (map ?S v) (m w))
      = (?H ^^ ?S (v ! i)) (slice (MAM_WOTS_PRIVATE_KEY_PART_SIZE * i) MAM_WOTS_PRIVATE_KEY_PART_SIZE (m w))" if "length v = 81" for v
    using sponge_permutation.slice_chain_parts [OF P assms(4), of "map ?S v" i] that assms(3) i(1) by simp
  ultimately show ?thesis using m1 m2 i(1) n unfolding Let_def by metis
qed

theorem wots_signatures_incomparable_witness:
  "\<exists>m1 m2. mam_wots_sign (mam_ftroika_transform lanes0) wots_store \<lparr>sp_sponge = 1, sp_pos = 0\<rparr> (Some 4) (trits_from_rep 234 7) (trits_from_rep 13122 6) = Some (RC_OK, m1)
    \<and> mam_wots_sign (mam_ftroika_transform lanes0) wots_store \<lparr>sp_sponge = 1, sp_pos = 0\<rparr> (Some 4) (trits_from_rep 234 8) (trits_from_rep 13122 6) = Some (RC_OK, m2)"
proof -
  have "replicate 234 (1 :: trit) \<noteq> replicate 234 0" by (simp add: replicate_eq_replicate)
  then show ?thesis
    using wots_signatures_incomparable [of lanes0 wots_store "\<lparr>sp_sponge = 1, sp_pos = 0\<rparr>" 4 "trits_from_rep 13122 6" "trits_from_rep 234 7" "trits_from_rep 234 8"]
      crypt_store_facts(1) wots_store_facts valid_replicate by (fastforce simp: trits_from_rep_def trits_size_def apart_def)
qed

section \<open>The generator\<close>

lemma last_block_suffix: "length xs \<le> MAM_SPONGE_RATE \<Longrightarrow> length xs = length xs' \<Longrightarrow> MAM_SPONGE_RATE < length xs + length ys \<Longrightarrow> last_block (xs @ ys) = last_block (xs' @ ys)"
  by (subst (1 2) last_block.simps) simp

text \<open>
  C25. The generated numbers do not depend on the secret key as soon as key, destination and nonces together exceed the rate of the sponge: the sponge keeps the last block only.
\<close>

theorem prng_ignores_key:
  assumes "length (m sponge) = MAM_SPONGE_WIDTH" "sponge \<noteq> 0" "length (m dest) = 3" "distinct [sponge, dest, p, p']"
    and "length (m p) = MAM_PRNG_SECRET_KEY_SIZE" "length (m p') = MAM_PRNG_SECRET_KEY_SIZE"
    and "\<forall>x \<in> set [n1, n2, n3, n4, n5]. window m x \<and> trits_p x \<noteq> sponge \<and> trits_p x \<noteq> dest"
    and "MAM_SPONGE_RATE < MAM_PRNG_SECRET_KEY_SIZE + 3 + (trits_size n1 + trits_size n2 + trits_size n3 + trits_size n4 + trits_size n5)"
  shows "mam_prng_gen5 F m sponge dest (Some p) destination n1 n2 n3 n4 n5 output_t = mam_prng_gen5 F m sponge dest (Some p') destination n1 n2 n3 n4 n5 output_t"
proof -
  let ?K = MAM_PRNG_SECRET_KEY_SIZE let ?d = "trits_from_rep 3 dest" let ?ns = "[n1, n2, n3, n4, n5]"
  let ?ds = "bt_digits 3 (destination_tryte destination)"
  define m1 where "m1 = m(dest := ?ds)"
  have w: "window m ?d" "trits_size ?d = 3" using assms(3) by (simp_all add: window_def trits_from_rep_def trits_size_def)
  have "trits_put3 m ?d (destination_tryte destination) = Some (wr m ?d ?ds)" by (rule trits_put3_wr) (use w in \<open>simp_all add: destination_tryte.simps\<close>, (cases destination, simp_all)+)
  moreover have "wr m ?d ?ds = m1" using assms(3) by (simp add: m1_def wr_def trits_from_rep_def blit_def)
  ultimately have put: "trits_put3 m ?d (destination_tryte destination) = Some m1" by simp
  have k: "window m1 (trits_from_rep ?K q)" "rd m1 (trits_from_rep ?K q) = m q" "trits_p (trits_from_rep ?K q) = q" if "q = p \<or> q = p'" for q
    using that assms(4-6) by (auto simp: m1_def window_def rd_def trits_from_rep_def trits_size_def)
  have d: "window m1 ?d" "rd m1 ?d = ?ds" "trits_p ?d = dest" by (simp_all add: m1_def window_def rd_def trits_from_rep_def trits_size_def)
  have n: "window m1 x" "length (rd m1 x) = trits_size x" if "x \<in> set ?ns" for x
  proof -
    have "window m x" "trits_p x \<noteq> dest" using assms(7) that by blast+
    then show "window m1 x" by (simp add: m1_def window_def)
    then show "length (rd m1 x) = trits_size x" by (rule length_rd)
  qed
  have fresh: "do { m \<leftarrow> mam_sponge_init m1 sponge; mam_sponge_absorbn F m sponge MAM_SPONGE_CTL_KEY (trits_from_rep ?K q # ?d # ?ns) }
      = Some (m1(sponge := put_block 1 (last_block (concat (map (rd m1) (trits_from_rep ?K q # ?d # ?ns)))) (replicate MAM_SPONGE_WIDTH 0)))" if q: "q = p \<or> q = p'" for q
    unfolding MAM_SPONGE_CTL_KEY_def
  proof (rule absorbn_fresh)
    show "length (m1 sponge) = MAM_SPONGE_WIDTH" using assms(1,4) by (simp add: m1_def)
    show "\<forall>x \<in> set (trits_from_rep ?K q # ?d # ?ns). window m1 x \<and> trits_p x \<noteq> sponge" using k [OF q] d n assms(4,7) q by auto
  qed (use assms(2) in simp_all)
  have lb: "last_block (concat (map (rd m1) (trits_from_rep ?K p # ?d # ?ns))) = last_block (concat (map (rd m1) (trits_from_rep ?K p' # ?d # ?ns)))"
    using last_block_suffix [of "m p" "m p'" "?ds @ concat (map (rd m1) ?ns)"] k(2) d(2) assms(5,6,8) n(2) by simp
  let ?seed = "\<lambda>q. do { m \<leftarrow> mam_sponge_init m1 sponge; mam_sponge_absorbn F m sponge MAM_SPONGE_CTL_KEY (trits_from_rep ?K q # ?d # ?ns) }"
  have "?seed p = ?seed p'" unfolding fresh [OF disjI1 [OF refl]] fresh [OF disjI2 [OF refl]] lb ..
  then have "do { m \<leftarrow> ?seed p; m \<leftarrow> mam_sponge_squeeze F m sponge MAM_SPONGE_CTL_PRN output_t; Some (RC_OK, m) } = do { m \<leftarrow> ?seed p'; m \<leftarrow> mam_sponge_squeeze F m sponge MAM_SPONGE_CTL_PRN output_t; Some (RC_OK, m) }"
    by (rule arg_cong)
  then show ?thesis using put by (simp add: mam_prng_gen5_def bind_assoc)
qed

definition prng_store :: mem where
  "prng_store = (\<lambda>_. [])(1 := replicate MAM_SPONGE_WIDTH 0, 2 := replicate 3 0, 3 := replicate 243 0, 4 := replicate 243 1, 5 := replicate 300 1, 6 := replicate 243 0)"

text \<open>Keys of zeros and of ones with a nonce of 300 trits.\<close>

theorem prng_ignores_key_witness:
  "mam_prng_gen5 (mam_ftroika_transform lanes0) prng_store 1 2 (Some 3) MAM_PRNG_DST_SEC_KEY (trits_from_rep 300 5) trits_null trits_null trits_null trits_null (trits_from_rep 243 6)
    = mam_prng_gen5 (mam_ftroika_transform lanes0) prng_store 1 2 (Some 4) MAM_PRNG_DST_SEC_KEY (trits_from_rep 300 5) trits_null trits_null trits_null trits_null (trits_from_rep 243 6)"
  by (rule prng_ignores_key) (simp_all add: prng_store_def window_def trits_from_rep_def trits_null_def trits_size_def)

end
