(* ===== verification/Spec2Isabelle.thy ===== *)
theory Spec2Isabelle
  imports Prelude Cell_Codec Trit_Tryte Trit_Byte Trit_Add Trit_Long Flex_Trit Curl Kerl_Bigint Kerl_Converter Kerl
    Sponge_Contract Errors Sponge Iss Sign Transaction Flex_Convert Bundle
    Hash_Containers State_Delta Snapshot_Text Snapshot Node_Caches Requester
    Ptrit Pcurl Pearl_Diver Iss_V2 Merkle Pow
    Tangle Graph_Search Traversal Ledger_Validator Ledger_Update Tip_Consistency Solidifier Transaction_Validator
    Troika Ftroika Mam_Trits Mam_Sponge Mam_Spongos Mam_Pb3 Mam_Wots
begin

text \<open>
  A verification library for the entangled repository: the C libraries of the IOTA protocol and the node that runs them.

  \<^bold>\<open>The program.\<close> \<open>src/common\<close> holds the libraries: balanced ternary numbers and their packings (\<open>trinary\<close>), the hash functions
  Curl-P and Kerl behind one sponge interface, one-time signatures over a normalised hash (\<open>crypto\<close>), and the data of the protocol, transactions and bundles
  (\<open>model\<close>), with helpers that generate addresses and signatures. \<open>src/ciri\<close> is the node: it keeps a ledger of balances as a snapshot
  to which every milestone applies a patch, caches of tips and of transactions seen, and a pipeline that validates, stores and forwards
  transactions. The other directories are client libraries, messaging on top of the protocol, bindings and tools.

  \<^bold>\<open>Conventions.\<close> Arrays and pointers with a length are lists; a pointer that the code compares with NULL is an option. Signed and
  unsigned integers are mathematical integers with the conversions to narrower types written out, or words where bits are manipulated. A
  result \<open>None\<close> is a failed assertion or behaviour that C leaves undefined; the theory says which. Return codes are the numbers of
  \<open>common/errors.h\<close>. Code outside the repository is an argument: Keccak (record \<open>keccak\<close>), the hash tables of uthash (record \<open>uthash\<close>, with the
  documented laws as the locale \<open>uthash_laws\<close>), the file system (record \<open>files\<close>), the database (record \<open>storage\<close>), XXH64. The contents of uninitialised stack buffers that Kerl reads
  are an argument too (\<open>stack\<close>), the same for all calls of one function.

  \<^bold>\<open>Theories and sources.\<close>
  \<^item> \<open>Prelude\<close>: machine integers, arrays, balanced ternary values and digits, the reference definitions of the conversions.
  \<^item> \<open>Trit_Tryte\<close>, \<open>Trit_Byte\<close>, \<open>Trit_Add\<close>, \<open>Trit_Long\<close>: \<open>common/trinary/trit_tryte.c\<close>, \<open>tryte_ascii.c\<close>, \<open>trit_byte.c\<close>, \<open>add.c\<close>, \<open>trit_long.c\<close>.
    Conversions are inverse to each other and agree with the values; addition is addition modulo a power of three.
  \<^item> \<open>Cell_Codec\<close>: the locale of a packing of trits into cells. \<open>Flex_Trit\<close> and \<open>Flex_Convert\<close> interpret it for the four packings of
    \<open>common/trinary/flex_trit.c\<close>, which the code selects when it is compiled and the model takes as an argument of type \<open>flex_enc\<close>.
    Reading, writing, slicing, inserting and converting are correct for each of them.
  \<^item> \<open>Curl\<close>: \<open>common/crypto/curl-p\<close>, the scalar sponge. \<open>Kerl_Bigint\<close>, \<open>Kerl_Converter\<close>, \<open>Kerl\<close>: \<open>common/crypto/kerl\<close>. The
    transformation is the iterated round function; the conversion to 384-bit numbers is the value in two's complement and has an inverse.
  \<^item> \<open>Ptrit\<close>: \<open>common/trinary/ptrit.c\<close>, \<open>ptrit_incr.c\<close>. \<open>Pcurl\<close>: \<open>common/crypto/curl-p/ptrit.c\<close>, which is the scalar sponge in every slice, for both
    layouts of the state. \<open>Pearl_Diver\<close>: \<open>pearl_diver.c\<close>, \<open>hamming.c\<close>, \<open>hashcash.c\<close>, a step relation of threads that share a status; the locale of a test, with
    the results of a search for every schedule, is interpreted for both tests.
  \<^item> \<open>Sponge_Contract\<close>: the locale of a sponge, with what signatures need of it. \<open>Sponge\<close>: \<open>common/crypto/sponge\<close>. \<open>Iss\<close>: \<open>common/crypto/iss/v1\<close> and
    \<open>normalize.c\<close>; a signature gives back the digest of its key because the hash chains add up. \<open>Iss_V2\<close>: \<open>common/crypto/iss/v2\<close>, with the same result for
    the signatures that cover a window of the hash. \<open>Merkle\<close>: \<open>utils/merkle.c\<close>; the nodes of a tree are indexed without gaps, and a branch leads to its root.
  \<^item> \<open>Pow\<close>: \<open>common/helpers/pow.c\<close>, \<open>digest.c\<close>, \<open>checksum.c\<close>. Proof of work over any search that keeps the promises of \<open>Pearl_Diver\<close> attaches a bundle:
    the transactions refer to each other and have the weight that is asked for.
  \<^item> \<open>Sign\<close>: \<open>common/helpers/sign.c\<close>. \<open>Transaction\<close>: \<open>common/model/transaction.c\<close> and \<open>.h\<close>, with the column masks as loaded flags. \<open>Bundle\<close>:
    \<open>common/model/bundle.c\<close>, \<open>inputs.h\<close>, \<open>transfer.c\<close>. Layout and round trip of the serialisation; validation as a refinement of a declarative
    specification; finalisation, whose loop need not end and is a partial function, ends as soon as some tag is secure.
  \<^item> \<open>Errors\<close>: \<open>common/errors.h\<close>, \<open>errors.c\<close>. The codes are distinct and their fields and strings can be read back.
  \<^item> \<open>Hash_Containers\<close>: \<open>utils/containers\<close>, the templates of maps, sets, stacks and queues over the tables of uthash.
  \<^item> \<open>State_Delta\<close>: \<open>ciri/consensus/snapshot/state_delta.c\<close>. The tables refine an abstract ledger, a function from addresses to balances; patches
    add ledgers, consistent patches leave no negative balance, and the total is preserved.
  \<^item> \<open>Snapshot_Text\<close>: the text forms of ledger and metadata (\<open>state_delta.c\<close>, \<open>snapshot_metadata.c\<close>), with the functions of the C library that they
    call. \<open>Snapshot\<close>: \<open>snapshot.c\<close>, \<open>snapshots_provider.c\<close>. Texts and files are read back as what was written; the supply is an invariant of the patches.
  \<^item> \<open>Node_Caches\<close>: \<open>ciri/node/tips_cache.c\<close>, \<open>recent_seen_bytes_cache.c\<close>. The caches are queues of bounded size in every reachable state.
  \<^item> \<open>Requester\<close>: \<open>ciri/node/pipeline/transaction_requester.c\<close>. The hashes to request are a bounded queue in every reachable state.

  \<^item> \<open>Tangle\<close>: \<open>ciri/consensus/tangle/tangle.c\<close>, \<open>ciri/storage/pack.c\<close> and the part of \<open>ciri/storage/sql/sqlite3/storage.c\<close> that turns rows into transactions.
    \<open>Graph_Search\<close>: the search with a stack as a relation, what it visits and that it ends. \<open>Traversal\<close>: \<open>ciri/consensus/tangle/traversal.c\<close>; the locale of a visitor
    says what a traversal needs of the database and the function that it calls, and both traversals visit exactly what is reachable.
  \<^item> \<open>Ledger_Validator\<close>: \<open>ciri/consensus/bundle_validator/bundle_validator.c\<close>, \<open>ciri/consensus/ledger_validator/ledger_validator.c\<close>. \<open>Ledger_Update\<close>: in every reachable
    state the ledger is sound whatever the database answers, and a milestone adds the bundles of its unconfirmed past. \<open>Tip_Consistency\<close>: the delta of a walk over
    tips, and a walk that accepts a double spend.
  \<^item> \<open>Solidifier\<close>: \<open>ciri/consensus/transaction_solidifier/transaction_solidifier.c\<close>. The calls of the solidifier and the steps of the rest of the node in any order
    keep the past of every solid transaction complete and solid; a complete past is recognised.
  \<^item> \<open>Transaction_Validator\<close>: \<open>ciri/consensus/transaction_validator\<close>, which single transactions are accepted.

  \<^item> \<open>Troika\<close>: \<open>common/crypto/troika/troika.c\<close>, the hash function one trit at a time. \<open>Ftroika\<close>: \<open>common/crypto/ftroika\<close>, with the 27 trits of a lane in two words, and
    \<open>mam/troika/troika.c\<close>. Both compute the same hashes; the tables of round constants are compared trit by trit.
  \<^item> \<open>Mam_Trits\<close>: \<open>mam/trits\<close>, windows into arrays of trits. The arrays are blocks of a store, because the functions of MAM write through windows that
    may be the same or overlap. \<open>Mam_Sponge\<close>: \<open>mam/sponge/sponge.c\<close>, a sponge that sees the last block only. \<open>Mam_Spongos\<close>: \<open>mam/sponge/spongos.c\<close>; the locale of
    a permutation of states gives that the spongos runs a machine that takes one trit at a time, that decryption inverts encryption, and that codes are checked;
    it is interpreted for the permutation of the code. \<open>Mam_Pb3\<close>: \<open>mam/pb3/pb3.c\<close>, \<open>mam/sponge/spongos_types.c\<close>, the fields of messages: what a field writes is read
    back by a reader whose spongos follows the writer's. \<open>Mam_Wots\<close>: \<open>mam/prng\<close>, \<open>mam/wots\<close>, keys and one-time signatures: the public key is recovered from a
    signature, two signatures are incomparable, and long nonces displace the secret key.

  \<^bold>\<open>Termination.\<close> Loops are structural recursions or recursions with a measure; the division loop of \<open>min_trits\<close> has fuel 41, enough for every 64-bit number. The
  loops that need not end for all inputs are partial functions with theorems that say when they return: the search of \<open>bundle_finalize\<close>, the enlarging of packs, the loading
  of bundles, the traversals, the building of the snapshot, the loops of the spongos and of Troika. The search for a nonce is a step relation whose schedules are bounded.

  \<^bold>\<open>Not modelled.\<close> Milestones and tip selection (graph walks over a database in threads), the SQL statements,
  network and HTTP (input and output), the client library, the layers of messaging (\<open>mam\<close>) above fields and one-time signatures, bindings and tools. Locks are not modelled except for the one of a snapshot,
  where the code uses it after destroying it: an operation that holds one lock is atomic. Logging and freeing of memory have no
  effect on the results and are left out.
\<close>

end
